(* ===== verification/Addition_Prelude.thy ===== *)
theory Addition_Prelude
  imports Main "HOL-Library.Word" "HOL-Library.Char_ord" "HOL-Library.List_Lexorder"
begin

text \<open>
  Shared vocabulary of the development: the machine integers of the C++ sources, strings as byte
  strings, the error convention \<open>bool f(..., std::string& error)\<close>, \<^verbatim>\<open>std::to_string\<close>, the maps
  \<^verbatim>\<open>std::unordered_map<std::string, uint64_t>\<close> with their default-inserting index operator, and
  the generic facts on them that the component theories use.
\<close>

section \<open>Types\<close>

type_synonym u8 = "8 word"
type_synonym u32 = "32 word"
type_synonym u64 = "64 word"
type_synonym u128 = "128 word"

text \<open>
  \<open>'a res\<close> is the value of a fallible call: \<open>Inl msg\<close> is \<^verbatim>\<open>return false\<close> after \<^verbatim>\<open>error = msg\<close>,
  \<open>Inr v\<close> is \<^verbatim>\<open>return true\<close> with the out-parameters \<open>v\<close>.
\<close>

type_synonym 'a res = "string + 'a"

abbreviation U64_MAX :: u64 where
  "U64_MAX \<equiv> 18446744073709551615"

named_theorems u64_arith \<open>checked arithmetic on 64-bit words, read on naturals\<close>
named_theorems acct \<open>balance maps and their totals\<close>

section \<open>Checked 64-bit arithmetic\<close>

lemma unat_u64_bound [simp]: "unat (x :: u64) < 18446744073709551616"
  using unsigned_less [of x, where ?'a = nat] by simp

lemma unat_u64_le_max [simp]: "unat (x :: u64) \<le> 18446744073709551615"
  using unat_u64_bound [of x] by linarith

lemma unat_u32_bound [simp]: "unat (x :: u32) < 4294967296"
  using unsigned_less [of x, where ?'a = nat] by simp

text \<open>The guard \<^verbatim>\<open>a > numeric_limits<uint64_t>::max() - b\<close> holds exactly when \<open>a + b\<close> wraps.\<close>

lemma u64_add_guard [u64_arith]:
  "(U64_MAX - b < a) \<longleftrightarrow> 18446744073709551616 \<le> unat a + unat (b :: u64)"
proof -
  have "unat (U64_MAX - b) = 18446744073709551615 - unat b"
    by (subst unat_sub) (simp_all add: word_le_nat_alt)
  then show ?thesis
    using unat_u64_bound [of b] unfolding word_less_nat_alt by linarith
qed

lemma u64_add_ok [u64_arith]:
  "unat a + unat b < 18446744073709551616 \<Longrightarrow> unat (a + b :: u64) = unat a + unat b"
  by (simp add: unat_word_ariths)

lemma u64_add_guard_ok:
  "\<not> U64_MAX - b < a \<Longrightarrow> unat (a + b :: u64) = unat a + unat b"
  by (simp add: u64_add_guard u64_add_ok)

lemma u64_sub_ok [u64_arith]: "b \<le> a \<Longrightarrow> unat (a - b :: u64) = unat a - unat b"
  by (simp add: unat_sub)

lemma u64_mul_ok [u64_arith]:
  "unat a * unat b < 18446744073709551616 \<Longrightarrow> unat (a * b :: u64) = unat a * unat b"
  by (simp add: unat_word_ariths)

text \<open>The guard \<^verbatim>\<open>a > max() / b\<close> holds exactly when \<open>a * b\<close> wraps, for a non-zero \<open>b\<close>.\<close>

lemma u64_mul_guard [u64_arith]:
  assumes "b \<noteq> 0"
  shows "(U64_MAX div b < a) \<longleftrightarrow> 18446744073709551616 \<le> unat a * unat (b :: u64)"
proof -
  have b: "0 < unat b" using assms by (simp add: unat_gt_0)
  have "(U64_MAX div b < a) \<longleftrightarrow> 18446744073709551615 div unat b < unat a"
    by (simp add: word_less_nat_alt unat_div_distrib)
  also have "\<dots> \<longleftrightarrow> 18446744073709551615 < unat a * unat b"
    using b by (simp add: div_less_iff_less_mult)
  finally show ?thesis by linarith
qed

lemma unat_of_nat_u64: "n < 18446744073709551616 \<Longrightarrow> unat (of_nat n :: u64) = n"
  by (simp add: unat_of_nat)

lemma unat_of_nat_u128: "n < 2 ^ 128 \<Longrightarrow> unat (of_nat n :: u128) = n"
  by (simp add: unat_of_nat)

lemma unat_drop_bit_u64 [u64_arith]: "unat (drop_bit n x :: u64) = unat x div 2 ^ n"
proof -
  have "take_bit 64 (unat x) = unat x" by (rule take_bit_nat_eq_self) simp
  then show ?thesis by (simp only: unsigned_drop_bit_eq) (simp add: drop_bit_eq_div)
qed

lemma unat_min_u64 [simp]: "unat (min a b :: u64) = min (unat a) (unat b)"
  by (simp add: min_def word_le_nat_alt)

lemma unat_max_u64 [simp]: "unat (max a b :: u64) = max (unat a) (unat b)"
  by (simp add: max_def word_le_nat_alt)

lemma unat_ucast_u64_u128 [simp]: "unat (ucast (x :: u64) :: u128) = unat x"
  unfolding unsigned_ucast_eq
  by (rule take_bit_nat_eq_self, rule less_trans [OF unat_u64_bound]) simp

lemma unat_ucast_u32_u64 [simp]: "unat (ucast (x :: u32) :: u64) = unat x"
  unfolding unsigned_ucast_eq
  by (rule take_bit_nat_eq_self, rule less_trans [OF unat_u32_bound]) simp

lemma unat_ucast_u32_u128 [simp]: "unat (ucast (x :: u32) :: u128) = unat x"
  unfolding unsigned_ucast_eq
  by (rule take_bit_nat_eq_self, rule less_trans [OF unat_u32_bound]) simp

lemma unat_ucast_u128_u64: "unat (x :: u128) < 18446744073709551616 \<Longrightarrow> unat (ucast x :: u64) = unat x"
  by (simp add: unsigned_ucast_eq take_bit_nat_eq_self)

lemma u128_add_ok:
  "unat a + unat b < 2 ^ 128 \<Longrightarrow> unat (a + b :: u128) = unat a + unat b"
  by (simp add: unat_word_ariths)

lemma u128_mul_ok:
  "unat a * unat b < 2 ^ 128 \<Longrightarrow> unat (a * b :: u128) = unat a * unat b"
  by (simp add: unat_word_ariths)

section \<open>Decimal printing\<close>

definition digit_char :: "nat \<Rightarrow> char" where
  "digit_char d = char_of (48 + d)"

definition char_digit :: "char \<Rightarrow> nat" where
  "char_digit c = of_char c - 48"

definition is_digit_char :: "char \<Rightarrow> bool" where
  "is_digit_char c \<longleftrightarrow> (48 :: nat) \<le> of_char c \<and> of_char c \<le> (57 :: nat)"

text \<open>\<^verbatim>\<open>std::to_string\<close> (and \<^verbatim>\<open>ostream <<\<close>) on an unsigned value.\<close>

fun dec :: "nat \<Rightarrow> string" where
  "dec n = (if n < 10 then [digit_char n] else dec (n div 10) @ [digit_char (n mod 10)])"

declare dec.simps [simp del]

definition undec :: "string \<Rightarrow> nat" where
  "undec s = foldl (\<lambda>a c. 10 * a + char_digit c) 0 s"

lemma char_digit_digit [simp]: "d < 10 \<Longrightarrow> char_digit (digit_char d) = d"
  by (simp add: char_digit_def digit_char_def)

lemma is_digit_digit [simp]: "d < 10 \<Longrightarrow> is_digit_char (digit_char d)"
  by (simp add: is_digit_char_def digit_char_def)

lemma dec_nonempty [simp]: "dec n \<noteq> []"
  by (subst dec.simps) simp

lemma dec_digits: "c \<in> set (dec n) \<Longrightarrow> is_digit_char c"
proof (induction n rule: dec.induct)
  case (1 n)
  then show ?case
    by (subst (asm) (2) dec.simps) (auto split: if_splits)
qed

lemma undec_dec [simp]: "undec (dec n) = n"
proof (induction n rule: dec.induct)
  case (1 n)
  then show ?case
    by (subst dec.simps) (auto simp: undec_def)
qed

lemma dec_inject [simp]: "dec m = dec n \<longleftrightarrow> m = n"
  by (metis undec_dec)

lemma dec_length: "n < 10 ^ k \<Longrightarrow> 0 < k \<Longrightarrow> length (dec n) \<le> k"
proof (induction k arbitrary: n)
  case (Suc k)
  show ?case
  proof (cases "n < 10")
    case True
    then show ?thesis by (subst dec.simps) simp
  next
    case False
    then have "0 < k" "n div 10 < 10 ^ k" using Suc.prems(1) by (cases k, auto)
    then show ?thesis using Suc.IH [of "n div 10"] False by (subst dec.simps) simp
  qed
qed simp

definition to_string :: "'a::len word \<Rightarrow> string" where
  "to_string w = dec (unat w)"

lemma to_string_inject [simp]: "to_string (a :: 'a::len word) = to_string b \<longleftrightarrow> a = b"
  by (simp add: to_string_def word_unat_eq_iff)

text \<open>\<^verbatim>\<open>s.rfind(p, 0) == 0\<close>: the string starts with a prefix.\<close>

definition starts_with :: "string \<Rightarrow> string \<Rightarrow> bool" where
  "starts_with p s \<longleftrightarrow> take (length p) s = p"

text \<open>A separator that occurs in neither front part splits a string in one way only.\<close>

lemma append_sep_eq:
  "c \<notin> set xs \<Longrightarrow> c \<notin> set xs' \<Longrightarrow>
     xs @ c # ys = xs' @ c # ys' \<longleftrightarrow> xs = xs' \<and> ys = ys'"
proof (induction xs arbitrary: xs')
  case Nil
  then show ?case by (cases xs') auto
next
  case (Cons x xs)
  then show ?case by (cases xs') auto
qed

section \<open>Index operators of maps\<close>

text \<open>
  \<open>bal m k\<close> reads \<^verbatim>\<open>m[k]\<close> of an \<^verbatim>\<open>unordered_map<string, uint64_t>\<close> (a missing key reads 0) and
  \<open>touch m k\<close> is the map after that read: the C++ index operator inserts the default value.
\<close>

definition bal :: "('k \<rightharpoonup> u64) \<Rightarrow> 'k \<Rightarrow> u64" where
  "bal m k = (case m k of None \<Rightarrow> 0 | Some v \<Rightarrow> v)"

definition touch :: "('k \<rightharpoonup> u64) \<Rightarrow> 'k \<Rightarrow> ('k \<rightharpoonup> u64)" where
  "touch m k = m(k \<mapsto> bal m k)"

lemma bal_upd [simp]: "bal (m(k \<mapsto> v)) j = (if j = k then v else bal m j)"
  by (simp add: bal_def)

lemma bal_touch [simp]: "bal (touch m k) j = bal m j"
  by (simp add: touch_def)

lemma bal_empty [simp]: "bal Map.empty k = 0"
  by (simp add: bal_def)

lemma dom_touch [simp]: "dom (touch m k) = insert k (dom m)"
  by (simp add: touch_def)

lemma bal_outside: "k \<notin> dom m \<Longrightarrow> bal m k = 0"
  by (simp add: bal_def dom_def)

definition total_bal :: "('k \<rightharpoonup> u64) \<Rightarrow> nat" where
  "total_bal m = (\<Sum>k\<in>dom m. unat (bal m k))"

lemma total_empty [simp]: "total_bal Map.empty = 0"
  by (simp add: total_bal_def)

lemma total_superset:
  assumes "finite A" and "dom m \<subseteq> A"
  shows "total_bal m = (\<Sum>k\<in>A. unat (bal m k))"
  unfolding total_bal_def
  by (rule sum.mono_neutral_left) (use assms in \<open>auto simp: bal_outside\<close>)

text \<open>Writing one entry moves the total by exactly the change of that entry.\<close>

lemma total_upd [acct]:
  assumes "finite (dom m)"
  shows "total_bal (m(k \<mapsto> v)) + unat (bal m k) = total_bal m + unat v"
proof -
  let ?A = "insert k (dom m)"
  have fin: "finite ?A" using assms by simp
  have rest: "(\<Sum>j\<in>?A - {k}. unat (bal (m(k \<mapsto> v)) j)) = (\<Sum>j\<in>?A - {k}. unat (bal m j))"
    by (rule sum.cong) auto
  have "total_bal (m(k \<mapsto> v)) = (\<Sum>j\<in>?A. unat (bal (m(k \<mapsto> v)) j))"
    by (rule total_superset) (use fin in auto)
  also have "\<dots> = unat v + (\<Sum>j\<in>?A - {k}. unat (bal m j))"
    using rest by (subst sum.remove [OF fin, of k]) simp_all
  finally have 1: "total_bal (m(k \<mapsto> v)) = unat v + (\<Sum>j\<in>?A - {k}. unat (bal m j))" .
  have "total_bal m = (\<Sum>j\<in>?A. unat (bal m j))"
    by (rule total_superset) (use fin in auto)
  also have "\<dots> = unat (bal m k) + (\<Sum>j\<in>?A - {k}. unat (bal m j))"
    by (subst sum.remove [OF fin, of k]) simp_all
  finally show ?thesis using 1 by simp
qed

lemma total_touch [simp]: "finite (dom m) \<Longrightarrow> total_bal (touch m k) = total_bal m"
  using total_upd [of m k "bal m k"] by (simp add: touch_def)

lemma bal_le_total: "finite (dom m) \<Longrightarrow> unat (bal m k) \<le> total_bal m"
  using total_upd [of m k 0] by simp

lemma total_two: "finite (dom m) \<Longrightarrow> j \<noteq> k \<Longrightarrow> unat (bal m j) + unat (bal m k) \<le> total_bal m"
  using bal_le_total [of "m(k \<mapsto> 0)" j] total_upd [of m k 0] by simp

section \<open>Results\<close>

text \<open>Sequencing of fallible calls: the first \<^verbatim>\<open>return false\<close> ends the caller.\<close>

definition bind_res :: "'a res \<Rightarrow> ('a \<Rightarrow> 'b res) \<Rightarrow> 'b res" where
  "bind_res r f = (case r of Inl e \<Rightarrow> Inl e | Inr x \<Rightarrow> f x)"

definition need :: "string \<Rightarrow> 'a option \<Rightarrow> 'a res" where
  "need msg r = (case r of None \<Rightarrow> Inl msg | Some x \<Rightarrow> Inr x)"

definition guard_res :: "bool \<Rightarrow> string \<Rightarrow> unit res" where
  "guard_res ok msg = (if ok then Inr () else Inl msg)"

lemma bind_res_simps [simp]: "bind_res (Inl e) f = Inl e" "bind_res (Inr x) f = f x"
  by (simp_all add: bind_res_def)

lemma need_simps [simp]: "need msg None = Inl msg" "need msg (Some x) = Inr x"
  by (simp_all add: need_def)

lemma bind_res_Inr: "bind_res r f = Inr y \<longleftrightarrow> (\<exists>x. r = Inr x \<and> f x = Inr y)"
  by (cases r) auto

lemma need_Inr [simp]: "need msg r = Inr x \<longleftrightarrow> r = Some x"
  by (cases r) auto

lemma guard_res_Inr [simp]: "guard_res ok msg = Inr u \<longleftrightarrow> ok"
  by (simp add: guard_res_def)

lemma guard_res_True [simp]: "guard_res True msg = Inr ()"
  by (simp add: guard_res_def)

end
