(* ===== verification/Consensus_Rules.thy ===== *)
theory Consensus_Rules
  imports Addition_Prelude
begin

text \<open>
  The pure consensus arithmetic of \<^verbatim>\<open>consensus_rules.cpp\<close>: the LWMA retarget, the halving schedule,
  the hard cap and the total emission of a schedule. Words keep their C++ width; the lemmas read
  them on naturals and show where no intermediate value wraps.
\<close>

section \<open>LWMA retarget\<close>

definition kLwmaMaxSolvetimeMultiple :: u64 where
  "kLwmaMaxSolvetimeMultiple = 6"

definition clamp_u64 :: "u128 \<Rightarrow> u64 \<Rightarrow> u64 \<Rightarrow> u64" where
  "clamp_u64 v lo0 hi0 =
     (let lo = (if lo0 > hi0 then hi0 else lo0);
          hi = (if lo0 > hi0 then lo0 else hi0)
      in if v < ucast lo then lo
         else if v > ucast hi then hi
         else ucast v)"

text \<open>
  The loop \<^verbatim>\<open>for (j = 1; j <= n; ++j)\<close>: the pair (weighted solvetimes, sum of targets) after \<open>n\<close>
  iterations. \<open>ts ! (off_ts + j)\<close> is in range because \<open>off_ts + n\<close> is the last index.
\<close>

fun lwma_sums :: "u64 list \<Rightarrow> u64 list \<Rightarrow> nat \<Rightarrow> nat \<Rightarrow> u128 \<Rightarrow> nat \<Rightarrow> u128 \<times> u128" where
  "lwma_sums ts tg off_ts off_tg max_st 0 = (0, 0)"
| "lwma_sums ts tg off_ts off_tg max_st (Suc i) =
     (let (weighted, sum_target) = lwma_sums ts tg off_ts off_tg max_st i;
          cur = ts ! (off_ts + Suc i);
          prev = ts ! (off_ts + i);
          st0 = (if cur > prev then ucast (cur - prev) else 0);
          st = (if st0 > max_st then max_st else st0)
      in (weighted + st * of_nat (Suc i), sum_target + ucast (tg ! (off_tg + Suc i))))"

definition lwma_next_target ::
    "u64 list \<Rightarrow> u64 list \<Rightarrow> u64 \<Rightarrow> u64 \<Rightarrow> u64 \<Rightarrow> u64 \<Rightarrow> u64" where
  "lwma_next_target timestamps targets T min_target max_target fallback =
     (let count = min (length timestamps) (length targets) in
      if count < 2 \<or> T = 0 then clamp_u64 (ucast fallback) min_target max_target
      else
        (let off_ts = length timestamps - count;
             off_tg = length targets - count;
             max_st = (ucast T :: u128) * ucast kLwmaMaxSolvetimeMultiple;
             n = count - 1;
             (weighted0, sum_target) = lwma_sums timestamps targets off_ts off_tg max_st n;
             k = (of_nat n * of_nat (n + 1)) div 2;
             floor_w = (k * ucast T) div 10;
             weighted = (if weighted0 < floor_w then floor_w else weighted0);
             avg_target = sum_target div of_nat n;
             next0 = (avg_target * weighted) div (k * ucast T);
             prev_target = last targets;
             lo = ucast (prev_target div 2);
             hi = ucast prev_target * 2;
             next1 = (if next0 < lo then lo else next0);
             next2 = (if next1 > hi then hi else next1);
             next3 = (if next2 = 0 then 1 else next2)
         in clamp_u64 next3 min_target max_target))"

section \<open>Emission schedule\<close>

definition scheduled_block_subsidy :: "u64 \<Rightarrow> u64 \<Rightarrow> u64 \<Rightarrow> u64 \<Rightarrow> u64" where
  "scheduled_block_subsidy height block_reward halving_interval subsidy_floor =
     (if halving_interval = 0 then block_reward
      else
        (let halvings = height div halving_interval;
             r = (if halvings \<ge> 64 then 0 else drop_bit (unat halvings) block_reward)
         in max r (min subsidy_floor block_reward)))"

definition max_mintable_subsidy :: "u64 \<Rightarrow> u64 \<Rightarrow> u64 \<Rightarrow> u64 \<Rightarrow> u64 \<Rightarrow> u64 \<Rightarrow> u64" where
  "max_mintable_subsidy height total_emitted max_supply block_reward halving_interval subsidy_floor =
     (let scheduled = scheduled_block_subsidy height block_reward halving_interval subsidy_floor;
          left = (if max_supply > total_emitted then max_supply - total_emitted else 0)
      in min scheduled left)"

text \<open>
  The loop over the 64 halving eras, from era \<open>64 - k\<close>. The second component of the result is
  \<^verbatim>\<open>*cap_height\<close>.
\<close>

fun emission_eras :: "u64 \<Rightarrow> u64 \<Rightarrow> u64 \<Rightarrow> u64 \<Rightarrow> u128 \<Rightarrow> nat \<Rightarrow> u64 \<times> u64" where
  "emission_eras max_supply block_reward halving_interval subsidy_floor tot 0 = (ucast tot, 0)"
| "emission_eras max_supply block_reward halving_interval subsidy_floor tot (Suc k) =
     (let e = 63 - k;
          floor_r = min subsidy_floor block_reward;
          r = max (drop_bit e block_reward) floor_r
      in if r = 0 then (ucast tot, 0)
         else
           (let first = (if e = 0 then 1 else of_nat e * halving_interval);
                floor_era = (floor_r > 0 \<and> drop_bit e block_reward \<le> floor_r);
                last_h = (if floor_era then U64_MAX div 2 else of_nat (e + 1) * halving_interval - 1);
                n = last_h - first + 1;
                add = (ucast r :: u128) * ucast n
            in if tot + add \<ge> ucast max_supply
               then (let need = ucast (ucast max_supply - tot) :: u64
                     in (max_supply, first + (need + r - 1) div r - 1))
               else emission_eras max_supply block_reward halving_interval subsidy_floor (tot + add) k))"

definition scheduled_total_emission :: "u64 \<Rightarrow> u64 \<Rightarrow> u64 \<Rightarrow> u64 \<Rightarrow> u64 \<times> u64" where
  "scheduled_total_emission max_supply block_reward halving_interval subsidy_floor =
     (if halving_interval = 0 then (0, 0)
      else emission_eras max_supply block_reward halving_interval subsidy_floor 0 64)"

text \<open>The emission of a chain whose every block mints all it may, by height (genesis mints nothing).\<close>

fun emitted_at :: "u64 \<Rightarrow> u64 \<Rightarrow> u64 \<Rightarrow> u64 \<Rightarrow> nat \<Rightarrow> u64" where
  "emitted_at max_supply block_reward halving_interval subsidy_floor 0 = 0"
| "emitted_at max_supply block_reward halving_interval subsidy_floor (Suc h) =
     (let t = emitted_at max_supply block_reward halving_interval subsidy_floor h
      in t + max_mintable_subsidy (of_nat (Suc h)) t max_supply block_reward halving_interval subsidy_floor)"

text \<open>The mainnet launch constants (\<^verbatim>\<open>config.hpp\<close>).\<close>

definition kMainnetMaxSupply :: u64 where "kMainnetMaxSupply = 50000000"
definition kMainnetBlockReward :: u64 where "kMainnetBlockReward = 4"
definition kMainnetHalvingInterval :: u32 where "kMainnetHalvingInterval = 5681819"
definition kMainnetSubsidyFloor :: u64 where "kMainnetSubsidyFloor = 1"
definition kMainnetCapHeight :: u64 where "kMainnetCapHeight = 27272727"
definition kMainnetStakingActivationHeight :: u64 where "kMainnetStakingActivationHeight = 14772727"

section \<open>Lemmas: clamping and the subsidy\<close>

lemma clamp_u64_unat:
  assumes "lo \<le> hi"
  shows "unat (clamp_u64 v lo hi) = max (unat lo) (min (unat hi) (unat v))"
proof -
  have le: "unat lo \<le> unat hi" using assms by (simp add: word_le_nat_alt)
  show ?thesis
  proof (cases "unat v \<le> unat hi")
    case True
    then have "unat v < 18446744073709551616"
      using unat_u64_bound [of hi] by linarith
    then have "unat (ucast v :: u64) = unat v" by (rule unat_ucast_u128_u64)
    with assms le True show ?thesis
      by (auto simp: clamp_u64_def Let_def word_less_nat_alt word_le_nat_alt)
  next
    case False
    with assms le show ?thesis
      by (auto simp: clamp_u64_def Let_def word_less_nat_alt word_le_nat_alt)
  qed
qed

lemma clamp_u64_range:
  "lo \<le> hi \<Longrightarrow> lo \<le> clamp_u64 v lo hi \<and> clamp_u64 v lo hi \<le> hi"
  by (auto simp: word_le_nat_alt clamp_u64_unat)

lemma scheduled_block_subsidy_unat:
  assumes "hi \<noteq> 0"
  shows "unat (scheduled_block_subsidy h r hi fl) =
     max (unat r div 2 ^ (unat h div unat hi)) (min (unat fl) (unat r))"
proof (cases "h div hi \<ge> 64")
  case True
  then have "64 \<le> unat h div unat hi"
    by (simp add: word_le_nat_alt unat_div_distrib)
  then have "(2::nat) ^ 64 \<le> 2 ^ (unat h div unat hi)"
    by (rule power_increasing) simp
  then have "unat r < 2 ^ (unat h div unat hi)"
    using less_le_trans [OF unat_u64_bound [of r]] by simp
  then have "unat r div 2 ^ (unat h div unat hi) = 0" by simp
  with True assms show ?thesis
    by (simp add: scheduled_block_subsidy_def Let_def)
next
  case False
  have "unat (drop_bit (unat (h div hi)) r) = unat r div 2 ^ (unat h div unat hi)"
    by (simp add: unat_drop_bit_u64 unat_div_distrib)
  with False assms show ?thesis
    by (simp add: scheduled_block_subsidy_def Let_def)
qed

lemma max_mintable_subsidy_unat:
  "unat (max_mintable_subsidy h t m r hi fl) =
     min (unat (scheduled_block_subsidy h r hi fl)) (unat m - unat t)"
  by (auto simp: max_mintable_subsidy_def Let_def word_less_nat_alt u64_sub_ok word_le_nat_alt)

lemma max_mintable_keeps_cap:
  assumes "t \<le> m" and "x \<le> max_mintable_subsidy h t m r hi fl"
  shows "unat (t + x) = unat t + unat x" and "t + x \<le> m"
proof -
  have "unat x \<le> unat m - unat t" and "unat t \<le> unat m"
    using assms by (auto simp: word_le_nat_alt max_mintable_subsidy_unat)
  then have s: "unat t + unat x \<le> unat m" by linarith
  then have "unat t + unat x < 18446744073709551616"
    using unat_u64_bound [of m] by linarith
  then show *: "unat (t + x) = unat t + unat x" by (rule u64_add_ok)
  show "t + x \<le> m" using * s by (simp add: word_le_nat_alt)
qed

lemma emitted_at_cap: "emitted_at m r hi fl h \<le> m"
proof (induction h)
  case (Suc h)
  then show ?case
    using max_mintable_keeps_cap(2) [OF Suc.IH order_refl] by (simp add: Let_def)
qed simp

lemma emitted_at_Suc_unat:
  "unat (emitted_at m r hi fl (Suc h)) =
     unat (emitted_at m r hi fl h) +
       min (unat (scheduled_block_subsidy (of_nat (Suc h)) r hi fl))
         (unat m - unat (emitted_at m r hi fl h))"
  using max_mintable_keeps_cap(1) [OF emitted_at_cap order_refl]
  by (simp add: Let_def max_mintable_subsidy_unat)

text \<open>Through an era of constant subsidy the emission grows linearly, clipped at the cap.\<close>

lemma emitted_era:
  assumes "\<And>h. a < h \<Longrightarrow> h \<le> a + n \<Longrightarrow> unat (scheduled_block_subsidy (of_nat h) r hi fl) = s"
  shows "unat (emitted_at m r hi fl (a + n)) =
     min (unat m) (unat (emitted_at m r hi fl a) + n * s)"
  using assms
proof (induction n)
  case 0
  have "unat (emitted_at m r hi fl a) \<le> unat m"
    using emitted_at_cap by (simp add: word_le_nat_alt)
  then show ?case by simp
next
  case (Suc n)
  let ?e = "emitted_at m r hi fl"
  have IH: "unat (?e (a + n)) = min (unat m) (unat (?e a) + n * s)"
    by (rule Suc.IH) (rule Suc.prems, simp_all)
  have "unat (scheduled_block_subsidy (of_nat (Suc (a + n))) r hi fl) = s"
    by (rule Suc.prems) simp_all
  then have "unat (?e (Suc (a + n))) = unat (?e (a + n)) + min s (unat m - unat (?e (a + n)))"
    by (simp only: emitted_at_Suc_unat)
  then have "unat (?e (a + Suc n)) = unat (?e (a + n)) + min s (unat m - unat (?e (a + n)))"
    by (simp only: add_Suc_right)
  with IH show ?case by (simp only: mult_Suc) linarith
qed

section \<open>Lemmas: the LWMA sums do not wrap\<close>

definition lwma_weight :: "nat list \<Rightarrow> nat \<Rightarrow> nat \<Rightarrow> nat" where
  "lwma_weight ts T n = (\<Sum>j\<in>{1..n}. j * min (6 * T) (ts ! j - ts ! (j - 1)))"

text \<open>The retarget rule of the header comment, on unbounded naturals.\<close>

definition lwma_spec :: "nat list \<Rightarrow> nat list \<Rightarrow> nat \<Rightarrow> nat \<Rightarrow> nat \<Rightarrow> nat" where
  "lwma_spec ts tg T mn mx =
     (let n = length ts - 1;
          k = n * (n + 1) div 2;
          W = max (k * T div 10) (lwma_weight ts T n);
          A = (\<Sum>j\<in>{1..n}. tg ! j) div n;
          p = last tg
      in max mn (min mx (max 1 (min (2 * p) (max (p div 2) (A * W div (k * T)))))))"

lemma lwma_weight_bound: "lwma_weight ts T n \<le> n * (n * (6 * T))"
proof -
  have "lwma_weight ts T n \<le> (\<Sum>j\<in>{1..n}. n * (6 * T))"
    unfolding lwma_weight_def by (rule sum_mono) (auto intro!: mult_mono)
  then show ?thesis by simp
qed

lemma lwma_weight_Suc:
  "lwma_weight ts T (Suc n) =
     lwma_weight ts T n + Suc n * min (6 * T) (ts ! Suc n - ts ! n)"
  by (simp add: lwma_weight_def)

lemma lwma_targets_bound:
  "(\<Sum>j\<in>{1..n}. unat (tg ! j :: u64)) \<le> n * 18446744073709551615"
proof -
  have "(\<Sum>j\<in>{1..n}. unat (tg ! j)) \<le> (\<Sum>j\<in>{1..n}. 18446744073709551615)"
    by (rule sum_mono) simp
  then show ?thesis by simp
qed

lemma lwma_solvetime_unat:
  fixes cur prev :: u64 and max_st :: u128
  defines "st0 \<equiv> (if cur > prev then ucast (cur - prev) else 0 :: u128)"
  shows "unat (if st0 > max_st then max_st else st0) = min (unat max_st) (unat cur - unat prev)"
proof -
  have "unat st0 = unat cur - unat prev"
    by (auto simp: st0_def u64_sub_ok word_less_nat_alt word_le_nat_alt)
  then show ?thesis by (auto simp: word_less_nat_alt)
qed

lemma lwma_sums_unat:
  fixes T :: u64
  assumes T: "unat T < 4294967296" and n: "n \<le> 32768" and len: "n < length ts"
    and lens: "length tg = length ts"
  shows "unat (fst (lwma_sums ts tg 0 0 (ucast T * ucast kLwmaMaxSolvetimeMultiple) n)) =
           lwma_weight (map unat ts) (unat T) n"
    and "unat (snd (lwma_sums ts tg 0 0 (ucast T * ucast kLwmaMaxSolvetimeMultiple) n)) =
           (\<Sum>j\<in>{1..n}. unat (tg ! j))"
proof -
  let ?M = "ucast T * ucast kLwmaMaxSolvetimeMultiple :: u128"
  have M: "unat ?M = 6 * unat T"
    using T by (subst u128_mul_ok) (simp_all add: kLwmaMaxSolvetimeMultiple_def)
  have "unat (fst (lwma_sums ts tg 0 0 ?M n)) = lwma_weight (map unat ts) (unat T) n \<and>
        unat (snd (lwma_sums ts tg 0 0 ?M n)) = (\<Sum>j\<in>{1..n}. unat (tg ! j))"
    using n len
  proof (induction n)
    case 0
    then show ?case by (simp add: lwma_weight_def)
  next
    case (Suc n)
    obtain w t where wt: "lwma_sums ts tg 0 0 ?M n = (w, t)" by fastforce
    define st where "st = (let st0 = (if ts ! Suc n > ts ! n then ucast (ts ! Suc n - ts ! n) else 0 :: u128)
       in if st0 > ?M then ?M else st0)"
    have st: "unat st = min (6 * unat T) (unat (ts ! Suc n) - unat (ts ! n))"
      unfolding st_def Let_def M [symmetric] by (rule lwma_solvetime_unat)
    have w: "unat w = lwma_weight (map unat ts) (unat T) n"
      and t: "unat t = (\<Sum>j\<in>{1..n}. unat (tg ! j))"
      using Suc.IH Suc.prems wt by simp_all
    have sb: "unat st \<le> 6 * 4294967295" using st T by linarith
    have i: "unat (of_nat (Suc n) :: u128) = Suc n"
      using Suc.prems(1) by (intro unat_of_nat_u128) simp
    have mb: "unat st * Suc n \<le> 6 * 4294967295 * 32768"
      using sb Suc.prems(1) by (intro mult_mono) simp_all
    have m: "unat (st * of_nat (Suc n)) = unat st * Suc n"
      using mb by (subst u128_mul_ok) (simp_all only: i, simp)
    have "unat w \<le> n * (n * (6 * unat T))" unfolding w by (rule lwma_weight_bound)
    also have "\<dots> \<le> 32768 * (32768 * (6 * 4294967295))"
      using Suc.prems(1) T by (intro mult_mono) simp_all
    finally have "unat (w + st * of_nat (Suc n)) = unat w + unat st * Suc n"
      using mb by (subst u128_add_ok) (simp_all only: m, simp)
    moreover have "unat t \<le> n * 18446744073709551615"
      unfolding t by (rule lwma_targets_bound)
    then have "unat (t + ucast (tg ! Suc n)) = unat t + unat (tg ! Suc n)"
      using Suc.prems(1) unat_u64_le_max [of "tg ! Suc n"]
      by (subst u128_add_ok) (simp_all del: unat_u64_le_max)
    moreover have "lwma_sums ts tg 0 0 ?M (Suc n) =
        (w + st * of_nat (Suc n), t + ucast (tg ! Suc n))"
      by (simp add: wt st_def Let_def del: of_nat_Suc)
    ultimately show ?case
      using st w t Suc.prems(2)
      by (simp add: lwma_weight_Suc mult.commute del: lwma_sums.simps of_nat_Suc)
  qed
  then show "unat (fst (lwma_sums ts tg 0 0 ?M n)) = lwma_weight (map unat ts) (unat T) n"
    and "unat (snd (lwma_sums ts tg 0 0 ?M n)) = (\<Sum>j\<in>{1..n}. unat (tg ! j))"
    by simp_all
qed

lemma sum_to: "(\<Sum>j\<in>{1..n}. j) = n * (n + 1) div (2 :: nat)"
  by (induction n) auto

lemma lwma_weight_bound3: "lwma_weight ts T n \<le> 3 * T * (n * (n + 1))"
proof -
  have "lwma_weight ts T n \<le> (\<Sum>j\<in>{1..n}. j * (6 * T))"
    unfolding lwma_weight_def by (rule sum_mono) (auto intro!: mult_mono)
  also have "\<dots> = (n * (n + 1) div 2) * (6 * T)"
    by (simp only: sum_distrib_right [symmetric] sum_to)
  also have "\<dots> = 3 * T * (n * (n + 1))"
  proof -
    have "even (n * (n + 1))" by simp
    then obtain q where "n * (n + 1) = 2 * q" by (rule evenE)
    then show ?thesis by simp
  qed
  finally show ?thesis .
qed

lemma lwma_k_unat:
  assumes "n \<le> 32768"
  shows "unat ((of_nat n * of_nat (n + 1)) div 2 :: u128) = n * (n + 1) div 2"
proof -
  have n: "unat (of_nat n :: u128) = n" "unat (of_nat (n + 1) :: u128) = n + 1"
    by (rule unat_of_nat_u128, use assms in simp)+
  have "n * (n + 1) \<le> 32768 * 32769" using assms by (intro mult_mono) simp_all
  then have "unat (of_nat n * of_nat (n + 1) :: u128) = n * (n + 1)"
    by (subst u128_mul_ok) (simp_all only: n, simp)
  then show ?thesis by (simp add: unat_div_distrib del: of_nat_add of_nat_Suc)
qed

lemma lwma_next0_unat:
  fixes T :: u64 and A W k :: u128
  assumes T: "0 < unat T" "unat T < 4294967296" and n: "0 < n" "n \<le> 32768"
    and k: "unat k = n * (n + 1) div 2" and A: "unat A \<le> 18446744073709551615"
    and W: "unat W \<le> 3 * unat T * (n * (n + 1))"
  shows "unat ((A * W) div (k * ucast T)) = unat A * unat W div (unat k * unat T)"
proof -
  have nn: "n * (n + 1) \<le> 32768 * 32769" using n by (intro mult_mono) simp_all
  have "unat W \<le> 3 * 4294967295 * (32768 * 32769)"
    by (rule order_trans [OF W], rule mult_mono [OF _ nn]) (use T in simp_all)
  with A have "unat A * unat W \<le> 18446744073709551615 * (3 * 4294967295 * (32768 * 32769))"
    by (intro mult_mono) simp_all
  then have 1: "unat (A * W) = unat A * unat W" by (subst u128_mul_ok) simp_all
  have "unat k * unat T \<le> (32768 * 32769) * 4294967295"
    unfolding k using nn T by (intro mult_mono) simp_all
  then have 2: "unat (k * ucast T) = unat k * unat T" by (subst u128_mul_ok) simp_all
  from 1 2 show ?thesis by (simp add: unat_div_distrib)
qed

lemma lwma_floor_unat:
  fixes T :: u64 and k :: u128
  assumes T: "unat T < 4294967296" and n: "n \<le> 32768" and k: "unat k = n * (n + 1) div 2"
  shows "unat ((k * ucast T) div 10) = unat k * unat T div 10"
proof -
  have nn: "n * (n + 1) \<le> 32768 * 32769" using n by (intro mult_mono) simp_all
  have "n * (n + 1) div 2 * unat T \<le> (32768 * 32769) * 4294967295"
    by (rule mult_mono [OF order_trans [OF div_le_dividend nn]]) (use T in simp_all)
  then show ?thesis
    by (simp add: unat_div_distrib u128_mul_ok k)
qed

lemma lwma_floor_bound: "n * (n + 1) div 2 * T div 10 \<le> 3 * T * (n * (n + 1 :: nat))"
proof -
  have "n * (n + 1) div 2 * T div 10 \<le> n * (n + 1) div 2 * T" by (rule div_le_dividend)
  also have "\<dots> \<le> n * (n + 1) * (3 * T)" by (rule mult_mono) simp_all
  finally show ?thesis by (simp add: mult.commute mult.left_commute)
qed

lemma unat_if_less [simp]:
  "unat (if (a :: u128) < b then b else a) = max (unat a) (unat b)"
  "unat (if (a :: u128) > b then b else a) = min (unat a) (unat b)"
  by (auto simp: word_less_nat_alt)

section \<open>Properties\<close>

text \<open>
  The retarget computed by \<open>lwma_next_target\<close> with unsigned 128-bit intermediates is the
  LWMA-1 formula of the header comment on unbounded naturals (weighted solvetimes clamped to six
  block times, the weight floor, the move limit [prev/2, 2*prev], the clamp to the network's bounds):
  no intermediate product wraps, for every block time below 2^32 seconds and every window of at most
  32768 blocks.
\<close>

theorem lwma_next_target_formula:
  fixes T :: u64
  assumes len: "length ts = Suc n" "length tg = Suc n" and n: "0 < n" "n \<le> 32768"
    and T: "0 < T" "unat T < 4294967296" and mm: "mn \<le> mx"
  shows "unat (lwma_next_target ts tg T mn mx fb) =
     lwma_spec (map unat ts) (map unat tg) (unat T) (unat mn) (unat mx)"
proof -
  let ?M = "ucast T * ucast kLwmaMaxSolvetimeMultiple :: u128"
  obtain w t where wt: "lwma_sums ts tg 0 0 ?M n = (w, t)" by fastforce
  have w: "unat w = lwma_weight (map unat ts) (unat T) n"
    and t: "unat t = (\<Sum>j\<in>{1..n}. unat (tg ! j))"
    using lwma_sums_unat [of T n ts tg] T n len wt by simp_all
  define k :: u128 where "k = (of_nat n * of_nat (n + 1)) div 2"
  have k: "unat k = n * (n + 1) div 2" unfolding k_def by (rule lwma_k_unat) (rule n)
  have nw: "unat (of_nat n :: u128) = n" using n by (intro unat_of_nat_u128) simp
  define A :: u128 where "A = t div of_nat n"
  have A: "unat A = (\<Sum>j\<in>{1..n}. unat (tg ! j)) div n"
    by (simp add: A_def unat_div_distrib nw t)
  have "(\<Sum>j\<in>{1..n}. unat (tg ! j)) div n \<le> n * 18446744073709551615 div n"
    by (rule div_le_mono) (rule lwma_targets_bound)
  then have Ab: "unat A \<le> 18446744073709551615" using A n by simp
  have T0: "0 < unat T" using T by (simp add: word_less_nat_alt)
  define W :: u128 where
    "W = (if w < (k * ucast T) div 10 then (k * ucast T) div 10 else w)"
  have W: "unat W = max (unat k * unat T div 10) (lwma_weight (map unat ts) (unat T) n)"
    by (simp add: W_def lwma_floor_unat [OF T(2) n(2) k] w max.commute)
  have Wb: "unat W \<le> 3 * unat T * (n * (n + 1))"
    using lwma_floor_bound [of n "unat T"] lwma_weight_bound3 [of "map unat ts" "unat T" n] W k
    by simp
  define N0 :: u128 where "N0 = (A * W) div (k * ucast T)"
  have N0: "unat N0 = unat A * unat W div (unat k * unat T)"
    unfolding N0_def by (rule lwma_next0_unat [OF T0 T(2) n k Ab Wb])
  define p where "p = last tg"
  have p2: "unat (ucast p * 2 :: u128) = 2 * unat p"
    by (subst u128_mul_ok) (simp_all add: le_less_trans [OF unat_u64_le_max])
  have ph: "unat (ucast (p div 2) :: u128) = unat p div 2" by (simp add: unat_div_distrib)
  have lp: "last (map unat tg) = unat p"
    unfolding p_def by (rule last_map) (use len in auto)
  define N2 :: u128 where
    "N2 = (let a = (if N0 < ucast (p div 2) then ucast (p div 2) else N0)
           in if a > ucast p * 2 then ucast p * 2 else a)"
  have N2: "unat N2 = min (2 * unat p) (max (unat p div 2) (unat N0))"
    unfolding N2_def Let_def by (simp only: unat_if_less p2 ph max.commute min.commute)
  have "unat (if N2 = 0 then 1 else N2) = max 1 (unat N2)"
    by (auto simp: word_unat_eq_iff)
  moreover have "lwma_next_target ts tg T mn mx fb = clamp_u64 (if N2 = 0 then 1 else N2) mn mx"
    unfolding lwma_next_target_def Let_def N2_def N0_def W_def A_def k_def p_def
    using len n T0 wt by (simp add: unat_gt_0 cong: if_cong split del: if_split)
  ultimately have "unat (lwma_next_target ts tg T mn mx fb) =
      max (unat mn) (min (unat mx) (max 1 (min (2 * unat p) (max (unat p div 2) (unat N0)))))"
    by (simp only: clamp_u64_unat [OF mm] N2)
  moreover have "(\<Sum>j\<in>{1..n}. map unat tg ! j) = (\<Sum>j\<in>{1..n}. unat (tg ! j))"
    by (rule sum.cong) (use len in auto)
  ultimately show ?thesis
    by (simp only: lwma_spec_def Let_def length_map len lp N0 W A k diff_Suc_1)
qed

theorem lwma_next_target_formula_witness:
  "unat (lwma_next_target [0, 60, 100, 200] [1000, 1000, 1100, 1200] 60 1 5000 7) =
     lwma_spec (map unat [0 :: u64, 60, 100, 200]) (map unat [1000 :: u64, 1000, 1100, 1200]) (unat (60 :: u64))
       (unat (1 :: u64)) (unat (5000 :: u64))"
  by (rule lwma_next_target_formula [where n = 3]) simp_all

definition mainnet_emitted :: "nat \<Rightarrow> nat" where
  "mainnet_emitted h = unat (emitted_at kMainnetMaxSupply kMainnetBlockReward
     (ucast kMainnetHalvingInterval) kMainnetSubsidyFloor h)"

lemma mainnet_subsidy:
  assumes "h < 18446744073709551616"
  shows "unat (scheduled_block_subsidy (of_nat h) kMainnetBlockReward
     (ucast kMainnetHalvingInterval) kMainnetSubsidyFloor) = max (4 div 2 ^ (h div 5681819)) 1"
  using assms
  by (simp add: scheduled_block_subsidy_unat kMainnetBlockReward_def kMainnetHalvingInterval_def
      kMainnetSubsidyFloor_def unat_of_nat_u64)

lemma mainnet_era:
  assumes "\<And>h. a < h \<Longrightarrow> h \<le> a + n \<Longrightarrow> max (4 div 2 ^ (h div 5681819)) 1 = s"
    and "a + n < 18446744073709551616"
  shows "mainnet_emitted (a + n) = min 50000000 (mainnet_emitted a + n * s)"
proof -
  have "mainnet_emitted (a + n) = min (unat kMainnetMaxSupply) (mainnet_emitted a + n * s)"
    unfolding mainnet_emitted_def
    by (rule emitted_era) (use assms in \<open>simp add: mainnet_subsidy\<close>)
  then show ?thesis by (simp add: kMainnetMaxSupply_def)
qed

lemma mainnet_era1: "n \<le> 5681818 \<Longrightarrow> mainnet_emitted n = 4 * n"
  using mainnet_era [of 0 n 4] by (simp add: mainnet_emitted_def)

lemma mainnet_era2:
  assumes "n \<le> 5681819"
  shows "mainnet_emitted (5681818 + n) = 22727272 + 2 * n"
proof -
  have "mainnet_emitted (5681818 + n) = min 50000000 (mainnet_emitted 5681818 + n * 2)"
  proof (rule mainnet_era)
    fix h :: nat
    assume "5681818 < h" "h \<le> 5681818 + n"
    with assms have "h div 5681819 = 1" by (intro div_nat_eqI) simp_all
    then show "max (4 div 2 ^ (h div 5681819)) 1 = (2 :: nat)" by simp
  qed (use assms in simp)
  with assms mainnet_era1 [of 5681818] show ?thesis by simp
qed

lemma mainnet_era3:
  assumes "11363637 + n < 18446744073709551616"
  shows "mainnet_emitted (11363637 + n) = min 50000000 (34090910 + n)"
proof -
  have "mainnet_emitted (11363637 + n) = min 50000000 (mainnet_emitted 11363637 + n * 1)"
  proof (rule mainnet_era)
    fix h :: nat
    assume "11363637 < h"
    then have "2 \<le> h div 5681819" by (simp add: less_eq_div_iff_mult_less_eq)
    then have "(2::nat) ^ 2 \<le> 2 ^ (h div 5681819)" by (rule power_increasing) simp
    then have "4 div 2 ^ (h div 5681819) \<le> 4 div (2 :: nat) ^ 2" by (rule div_le_mono2 [rotated]) simp
    then show "max (4 div 2 ^ (h div 5681819)) 1 = (1 :: nat)" by simp
  qed (use assms in simp)
  with mainnet_era2 [of 5681819] show ?thesis by simp
qed

text \<open>
  The mainnet emission constants of \<^verbatim>\<open>config.hpp\<close> mean what the comments say: the loop of
  \<open>scheduled_total_emission\<close> reports the cap 50,000,000 at \<open>kMainnetCapHeight\<close>; a chain that mints
  the maximum at every height reaches exactly 50,000,000 at that height and not before, mints
  nothing in the 2^32 blocks that follow, and crosses three quarters of the cap at \<open>kMainnetStakingActivationHeight\<close>.
\<close>

theorem mainnet_emission_schedule:
  "scheduled_total_emission kMainnetMaxSupply kMainnetBlockReward (ucast kMainnetHalvingInterval)
      kMainnetSubsidyFloor = (kMainnetMaxSupply, kMainnetCapHeight)
   \<and> (\<forall>d :: u32. mainnet_emitted (unat kMainnetCapHeight + unat d) = 50000000)
   \<and> mainnet_emitted (unat kMainnetCapHeight - 1) < 50000000
   \<and> mainnet_emitted (unat kMainnetStakingActivationHeight) = 37500000
   \<and> mainnet_emitted (unat kMainnetStakingActivationHeight - 1) < 37500000"
proof (intro conjI)
  show "scheduled_total_emission kMainnetMaxSupply kMainnetBlockReward (ucast kMainnetHalvingInterval)
      kMainnetSubsidyFloor = (kMainnetMaxSupply, kMainnetCapHeight)"
    by code_simp
next
  have "mainnet_emitted (11363637 + (15909090 + unat d)) = 50000000" for d :: u32
    by (subst mainnet_era3) (simp_all add: less_trans [OF unat_u32_bound])
  then show "\<forall>d :: u32. mainnet_emitted (unat kMainnetCapHeight + unat d) = 50000000"
    by (simp add: kMainnetCapHeight_def add.assoc [symmetric])
qed (use mainnet_era3 [of 15909089] mainnet_era3 [of 3409090] mainnet_era3 [of 3409089] in
    \<open>simp_all add: kMainnetCapHeight_def kMainnetStakingActivationHeight_def\<close>)

end
