(* ===== verification/Crypto_Model.thy ===== *)
theory Crypto_Model
  imports Addition_Prelude
begin

text \<open>
  The parts of \<^verbatim>\<open>crypto.cpp\<close> the ledger relies on: hexadecimal encoding, hash-committed addresses,
  the signature wrapper \<^verbatim>\<open>verify_message_signature_hybrid\<close> with its cache of verified signatures, and
  the proof-of-work heads. OpenSSL's SHA3-512 and liboqs are not part of the sources: they are the
  fields of the record \<open>crypto\<close>, an argument of every definition that calls them.
\<close>

section \<open>External primitives\<close>

datatype sig_scheme = Unknown | MlDsa87 | SlhDsaShake256s

record pq_key_sizes =
  public_key_size :: nat
  secret_key_size :: nat
  signature_size :: nat

text \<open>
  \<open>sha3\<close> is \<^verbatim>\<open>EVP_sha3_512\<close> on byte strings; \<open>oqs_sizes\<close> the lengths \<^verbatim>\<open>OQS_SIG_new\<close> reports
  (\<open>None\<close> when this liboqs lacks the algorithm); \<open>oqs_verify\<close> and \<open>oqs_verify_ctx\<close> the verdicts of
  \<^verbatim>\<open>OQS_SIG_verify\<close> and \<^verbatim>\<open>OQS_SIG_verify_with_ctx_str\<close> on (public key, message, signature);
  \<open>oqs_ctx_sign\<close> the result of the sign-with-context probe.
\<close>

record crypto =
  sha3 :: "string \<Rightarrow> string"
  oqs_sizes :: "sig_scheme \<Rightarrow> pq_key_sizes option"
  oqs_verify :: "string \<Rightarrow> string \<Rightarrow> string \<Rightarrow> bool"
  oqs_verify_ctx :: "string \<Rightarrow> string \<Rightarrow> string \<Rightarrow> string \<Rightarrow> bool"
  oqs_ctx_sign :: "sig_scheme \<Rightarrow> bool"

text \<open>What the code relies on of SHA3-512: the digest has 64 bytes (checked at run time by the code).\<close>

definition sha3_width :: "crypto \<Rightarrow> bool" where
  "sha3_width cr \<longleftrightarrow> (\<forall>s. length (sha3 cr s) = 64)"

section \<open>Hexadecimal\<close>

definition hex_char :: "nat \<Rightarrow> char" where
  "hex_char d = (if d < 10 then char_of (48 + d) else char_of (87 + d))"

definition hex_val :: "char \<Rightarrow> nat option" where
  "hex_val c =
     (let n = of_char c :: nat in
      if 48 \<le> n \<and> n \<le> 57 then Some (n - 48)
      else if 97 \<le> n \<and> n \<le> 102 then Some (n - 87)
      else if 65 \<le> n \<and> n \<le> 70 then Some (n - 55)
      else None)"

definition is_hex_char :: "char \<Rightarrow> bool" where
  "is_hex_char c \<longleftrightarrow> hex_val c \<noteq> None"

definition byte_hex :: "char \<Rightarrow> string" where
  "byte_hex b = [hex_char (of_char b div 16), hex_char (of_char b mod 16)]"

text \<open>\<^verbatim>\<open>to_hex\<close> and \<^verbatim>\<open>bytes_to_hex\<close>: two lower-case digits per byte.\<close>

definition to_hex :: "string \<Rightarrow> string" where
  "to_hex bs = concat (map byte_hex bs)"

definition is_hex_strict :: "string \<Rightarrow> nat \<Rightarrow> unit res" where
  "is_hex_strict hex max_hex_len =
     (if hex = [] then Inl ''empty hex''
      else if length hex > max_hex_len then Inl ''hex too large''
      else if length hex mod 2 \<noteq> 0 then Inl ''invalid hex length''
      else if \<not> list_all is_hex_char hex then Inl ''invalid hex data''
      else Inr ())"

fun unhex :: "string \<Rightarrow> string" where
  "unhex (a # b # xs) = char_of (16 * the (hex_val a) + the (hex_val b)) # unhex xs"
| "unhex _ = []"

definition hex_to_bytes :: "string \<Rightarrow> string res" where
  "hex_to_bytes hex =
     (case is_hex_strict hex 131072 of
        Inl e \<Rightarrow> Inl e
      | Inr _ \<Rightarrow> Inr (unhex hex))"

section \<open>Signature schemes and addresses\<close>

definition kMlDsa87SchemeId :: string where "kMlDsa87SchemeId = ''ml-dsa-87''"
definition kSlhDsaShake256sSchemeId :: string where "kSlhDsaShake256sSchemeId = ''slh-dsa-shake-256s''"

fun sig_scheme_id :: "sig_scheme \<Rightarrow> string" where
  "sig_scheme_id MlDsa87 = kMlDsa87SchemeId"
| "sig_scheme_id SlhDsaShake256s = kSlhDsaShake256sSchemeId"
| "sig_scheme_id Unknown = ''unknown''"

definition get_scheme_sizes :: "crypto \<Rightarrow> sig_scheme \<Rightarrow> pq_key_sizes option" where
  "get_scheme_sizes cr scheme = (if scheme = Unknown then None else oqs_sizes cr scheme)"

definition sig_scheme_available :: "crypto \<Rightarrow> sig_scheme \<Rightarrow> bool" where
  "sig_scheme_available cr scheme \<longleftrightarrow> get_scheme_sizes cr scheme \<noteq> None"

fun sig_scheme_allowed_strict :: "crypto \<Rightarrow> sig_scheme \<Rightarrow> bool" where
  "sig_scheme_allowed_strict cr MlDsa87 = sig_scheme_available cr MlDsa87"
| "sig_scheme_allowed_strict cr SlhDsaShake256s =
     (sig_scheme_available cr SlhDsaShake256s \<and> oqs_ctx_sign cr SlhDsaShake256s)"
| "sig_scheme_allowed_strict cr Unknown = False"

definition infer_sig_scheme_from_key_bytes :: "crypto \<Rightarrow> nat \<Rightarrow> bool \<Rightarrow> sig_scheme" where
  "infer_sig_scheme_from_key_bytes cr nbytes secret =
     (let hits = (\<lambda>scheme. case get_scheme_sizes cr scheme of
                    None \<Rightarrow> False
                  | Some sz \<Rightarrow> nbytes = (if secret then secret_key_size sz else public_key_size sz))
      in if hits MlDsa87 then MlDsa87
         else if hits SlhDsaShake256s then SlhDsaShake256s
         else Unknown)"

definition infer_sig_scheme_from_pubkey_hex :: "crypto \<Rightarrow> string \<Rightarrow> sig_scheme" where
  "infer_sig_scheme_from_pubkey_hex cr pubkey_hex =
     (if length pubkey_hex mod 2 \<noteq> 0 then Unknown
      else infer_sig_scheme_from_key_bytes cr (length pubkey_hex div 2) False)"

definition hash_committed_address :: "crypto \<Rightarrow> string \<Rightarrow> string \<Rightarrow> string" where
  "hash_committed_address cr scheme_id pubkey =
     (if scheme_id = [] \<or> pubkey = [] then []
      else to_hex (sha3 cr (scheme_id @ [CHR 0x00] @ pubkey)))"

definition hash_committed_address_hex :: "crypto \<Rightarrow> string \<Rightarrow> string \<Rightarrow> string" where
  "hash_committed_address_hex cr scheme_id pubkey_hex =
     (case hex_to_bytes pubkey_hex of
        Inl _ \<Rightarrow> []
      | Inr pk \<Rightarrow> if pk = [] then [] else hash_committed_address cr scheme_id pk)"

definition address_binds_pubkey_id :: "crypto \<Rightarrow> string \<Rightarrow> string \<Rightarrow> string \<Rightarrow> unit res" where
  "address_binds_pubkey_id cr address scheme_id pubkey_hex =
     (if scheme_id = [] then Inl ''missing scheme_id''
      else if length address \<noteq> 128 then Inl ''address is not a 128-hex hash commitment''
      else if \<not> list_all is_hex_char address then Inl ''address is not a 128-hex hash commitment''
      else case hex_to_bytes pubkey_hex of
             Inl _ \<Rightarrow> Inl ''invalid pubkey hex''
           | Inr pk \<Rightarrow>
               if pk = [] then Inl ''invalid pubkey hex''
               else (let derived = hash_committed_address cr scheme_id pk in
                     if derived = [] \<or> derived \<noteq> address
                     then Inl ''signer/pubkey hash-address mismatch''
                     else Inr ()))"

definition address_binds_pubkey :: "crypto \<Rightarrow> string \<Rightarrow> sig_scheme \<Rightarrow> string \<Rightarrow> unit res" where
  "address_binds_pubkey cr address scheme pubkey_hex =
     (if scheme = Unknown then Inl ''unknown scheme rejected in strict mode''
      else address_binds_pubkey_id cr address (sig_scheme_id scheme) pubkey_hex)"

section \<open>Signature verification and its cache\<close>

definition kSlhDsaSignCtx :: string where "kSlhDsaSignCtx = ''ADDITION|slh-dsa-shake-256s''"

definition pq_verify_message :: "crypto \<Rightarrow> string \<Rightarrow> string \<Rightarrow> string \<Rightarrow> unit res" where
  "pq_verify_message cr public_key message signature =
     (case oqs_sizes cr MlDsa87 of
        None \<Rightarrow> Inl ''OQS_SIG_new failed for ml-dsa-87''
      | Some sz \<Rightarrow>
          if length public_key \<noteq> public_key_size sz then Inl ''public key size mismatch''
          else if signature = [] \<or> length signature > signature_size sz then Inl ''signature size mismatch''
          else if \<not> oqs_verify cr public_key message signature then Inl ''OQS_SIG_verify failed''
          else Inr ())"

definition slh_verify_with_ctx :: "crypto \<Rightarrow> string \<Rightarrow> string \<Rightarrow> string \<Rightarrow> unit res" where
  "slh_verify_with_ctx cr public_key message signature =
     (if \<not> sig_scheme_allowed_strict cr SlhDsaShake256s
      then Inl ''slh-dsa-shake-256s rejected in strict mode''
      else case oqs_sizes cr SlhDsaShake256s of
        None \<Rightarrow> Inl ''OQS_SIG_new failed for slh-dsa-shake-256s''
      | Some sz \<Rightarrow>
          if length public_key \<noteq> public_key_size sz then Inl ''public key size mismatch''
          else if signature = [] \<or> length signature > signature_size sz then Inl ''signature size mismatch''
          else if \<not> oqs_verify_ctx cr kSlhDsaSignCtx public_key message signature
          then Inl ''OQS_SIG_verify_with_ctx_str failed''
          else Inr ())"

definition verify_message_signature_hybrid_uncached ::
    "crypto \<Rightarrow> string \<Rightarrow> string \<Rightarrow> string \<Rightarrow> bool" where
  "verify_message_signature_hybrid_uncached cr public_key message signature =
     (if \<not> starts_with ''pq='' signature then False
      else if length public_key mod 2 \<noteq> 0 then False
      else
        (let scheme = infer_sig_scheme_from_key_bytes cr (length public_key div 2) False in
         if scheme = Unknown \<or> \<not> sig_scheme_allowed_strict cr scheme then False
         else case get_scheme_sizes cr scheme of
           None \<Rightarrow> False
         | Some sz \<Rightarrow>
             if is_hex_strict public_key (public_key_size sz * 2) \<noteq> Inr ()
                \<or> length public_key \<noteq> public_key_size sz * 2 then False
             else
               (let sig_hex = drop 3 signature in
                if is_hex_strict sig_hex (signature_size sz * 2) \<noteq> Inr () then False
                else case hex_to_bytes sig_hex of
                  Inl _ \<Rightarrow> False
                | Inr sig_bytes \<Rightarrow>
                    if sig_bytes = [] \<or> length sig_bytes > signature_size sz then False
                    else case hex_to_bytes public_key of
                      Inl _ \<Rightarrow> False
                    | Inr pk_bytes \<Rightarrow>
                        if length pk_bytes \<noteq> public_key_size sz then False
                        else (case scheme of
                                MlDsa87 \<Rightarrow> pq_verify_message cr pk_bytes message sig_bytes = Inr ()
                              | SlhDsaShake256s \<Rightarrow> slh_verify_with_ctx cr pk_bytes message sig_bytes = Inr ()
                              | Unknown \<Rightarrow> False))))"

definition sigcache_key :: "crypto \<Rightarrow> string \<Rightarrow> string \<Rightarrow> string \<Rightarrow> string" where
  "sigcache_key cr pk msg sg = sha3 cr (pk @ [CHR 0x00] @ msg @ [CHR 0x00] @ sg)"

definition kSigCacheMax :: nat where "kSigCacheMax = 200000"

text \<open>
  The cache \<^verbatim>\<open>g_sigcache\<close> with its enable flag is threaded through the call; the hit and miss
  counters are statistics and left out.
\<close>

definition verify_message_signature_hybrid ::
    "crypto \<Rightarrow> bool \<Rightarrow> string set \<Rightarrow> string \<Rightarrow> string \<Rightarrow> string \<Rightarrow> bool \<times> string set" where
  "verify_message_signature_hybrid cr enabled cache public_key message signature =
     (if \<not> starts_with ''pq='' signature \<or> length public_key mod 2 \<noteq> 0 then (False, cache)
      else
        (let scheme = infer_sig_scheme_from_key_bytes cr (length public_key div 2) False in
         if scheme = Unknown \<or> \<not> sig_scheme_allowed_strict cr scheme then (False, cache)
         else if \<not> enabled
         then (verify_message_signature_hybrid_uncached cr public_key message signature, cache)
         else
           (let key = sigcache_key cr public_key message signature in
            if key \<in> cache then (True, cache)
            else if \<not> verify_message_signature_hybrid_uncached cr public_key message signature
            then (False, cache)
            else (True, insert key (if card cache \<ge> kSigCacheMax then {} else cache)))))"

section \<open>Proof-of-work heads\<close>

text \<open>
  \<^verbatim>\<open>stoull(.., 16)\<close> on at most 16 digits. The callers pass hexadecimal digests only; \<open>None\<close> marks any
  other non-empty string, on which the C++ call would throw or read a prefix.
\<close>

definition hash_head64 :: "string \<Rightarrow> u64 option" where
  "hash_head64 hex_hash =
     (if hex_hash = [] then Some U64_MAX
      else (let t = take 16 hex_hash in
            if list_all is_hex_char t
            then Some (of_nat (foldl (\<lambda>a c. 16 * a + the (hex_val c)) 0 t))
            else None))"

definition xor_byte :: "char \<Rightarrow> nat \<Rightarrow> char" where
  "xor_byte c n = char_of (xor (of_char c) (n mod 256))"

definition kMemoryHardScratchBytes :: nat where "kMemoryHardScratchBytes = 1048576"
definition kMemoryHardRounds :: nat where "kMemoryHardRounds = 16"

definition mix_step :: "nat \<Rightarrow> nat \<Rightarrow> string \<Rightarrow> nat \<Rightarrow> string" where
  "mix_step sz r scratch i =
     (let j = (of_char (scratch ! i) * 1315423911 + i + r) mod sz
      in scratch[i := xor_byte (xor_byte (scratch ! i) (of_char (scratch ! j))) (i + r)])"

definition fold_digest :: "nat \<Rightarrow> nat \<Rightarrow> string \<Rightarrow> string \<Rightarrow> string" where
  "fold_digest sz r digest scratch =
     foldl (\<lambda>sc i. let k = (i * 8191 + r) mod sz in sc[k := xor_byte (sc ! k) (of_char (digest ! i))])
       scratch [0..<length digest]"

definition memory_hard_round :: "crypto \<Rightarrow> nat \<Rightarrow> string \<Rightarrow> nat \<Rightarrow> string" where
  "memory_hard_round cr sz scratch r =
     (let mixed = foldl (mix_step sz r) scratch [0..<sz]
      in fold_digest sz r (sha3 cr mixed) mixed)"

definition memory_hard_head64 :: "crypto \<Rightarrow> string \<Rightarrow> u64 option" where
  "memory_hard_head64 cr seed_hex =
     (let sz = kMemoryHardScratchBytes;
          digest = sha3 cr seed_hex;
          scratch = map (\<lambda>i. xor_byte (digest ! (i mod length digest)) i) [0..<sz];
          final = foldl (memory_hard_round cr sz) scratch [0..<kMemoryHardRounds]
      in hash_head64 (to_hex (sha3 cr final)))"

section \<open>Lemmas: hexadecimal\<close>

lemma hex_val_hex_char [simp]: "d < 16 \<Longrightarrow> hex_val (hex_char d) = Some d"
  by (simp add: hex_val_def hex_char_def Let_def)

lemma is_hex_hex_char [simp]: "d < 16 \<Longrightarrow> is_hex_char (hex_char d)"
  by (simp add: is_hex_char_def)

lemma to_hex_simps [simp]:
  "to_hex [] = []"
  "to_hex (b # bs) = hex_char (of_char b div 16) # hex_char (of_char b mod 16) # to_hex bs"
  by (simp_all add: to_hex_def byte_hex_def)

lemma length_to_hex [simp]: "length (to_hex bs) = 2 * length bs"
  by (induction bs) auto

lemma of_char_div16 [simp]: "(of_char c :: nat) div 16 < 16"
  by (rule less_mult_imp_div_less) simp

lemma to_hex_hex: "list_all is_hex_char (to_hex bs)"
  by (induction bs) auto

lemma unhex_to_hex [simp]: "unhex (to_hex bs) = bs"
  by (induction bs) auto

lemma to_hex_inject [simp]: "to_hex a = to_hex b \<longleftrightarrow> a = b"
  by (metis unhex_to_hex)

lemma length_unhex: "length (unhex s) = length s div 2"
  by (induction s rule: unhex.induct) auto

lemma hex_to_bytes_to_hex:
  "bs \<noteq> [] \<Longrightarrow> length bs \<le> 65536 \<Longrightarrow> hex_to_bytes (to_hex bs) = Inr bs"
  by (cases bs) (auto simp: hex_to_bytes_def is_hex_strict_def to_hex_hex)

lemma hash_head64_digest: "\<exists>v. hash_head64 (to_hex bs) = Some v"
proof -
  have "list_all is_hex_char (take 16 (to_hex bs))"
    using to_hex_hex [of bs] by (auto simp: list_all_iff dest: in_set_takeD)
  then show ?thesis by (auto simp: hash_head64_def Let_def)
qed

section \<open>Lemmas: the cache of verified signatures\<close>

text \<open>A sequence of verifications against one cache (the calls of a running node).\<close>

fun verify_seq :: "crypto \<Rightarrow> string set \<Rightarrow> (string \<times> string \<times> string) list \<Rightarrow> bool list" where
  "verify_seq cr cache [] = []"
| "verify_seq cr cache ((pk, msg, sg) # qs) =
     (let (ok, cache') = verify_message_signature_hybrid cr True cache pk msg sg
      in ok # verify_seq cr cache' qs)"

definition sigcache_buf :: "string \<times> string \<times> string \<Rightarrow> string" where
  "sigcache_buf q = (case q of (pk, msg, sg) \<Rightarrow>
     pk @ [CHR 0x00] @ msg @ [CHR 0x00] @ sg)"

lemma sigcache_key_buf: "sigcache_key cr pk msg sg = sha3 cr (sigcache_buf (pk, msg, sg))"
  by (simp add: sigcache_key_def sigcache_buf_def)

lemma hex_strict_no_nul: "is_hex_strict s n = Inr u \<Longrightarrow> CHR 0x00 \<notin> set s"
  by (auto simp: is_hex_strict_def list_all_iff is_hex_char_def hex_val_def split: if_splits)

lemma notin_pq: "CHR 0x00 \<notin> set ''pq=''"
  by simp

lemma uncached_no_nul:
  assumes "verify_message_signature_hybrid_uncached cr pk msg sg"
  shows "CHR 0x00 \<notin> set pk" and "CHR 0x00 \<notin> set sg"
proof -
  have "starts_with ''pq='' sg" and hx: "\<exists>n. is_hex_strict pk n = Inr ()" "\<exists>n. is_hex_strict (drop 3 sg) n = Inr ()"
    using assms
    by (auto simp: verify_message_signature_hybrid_uncached_def Let_def split: if_splits option.splits)
  then have "sg = ''pq='' @ drop 3 sg"
    by (metis append_take_drop_id length_Cons list.size(3) numeral_3_eq_3 starts_with_def)
  moreover have "CHR 0x00 \<notin> set (drop 3 sg)" using hx hex_strict_no_nul by blast
  ultimately show "CHR 0x00 \<notin> set sg"
    by (metis Un_iff set_append notin_pq)
  show "CHR 0x00 \<notin> set pk" using hx hex_strict_no_nul by blast
qed

lemma sigcache_buf_inject:
  assumes "sigcache_buf (pk, m, s) = sigcache_buf (pk', m', s')"
    and "CHR 0x00 \<notin> set pk" "CHR 0x00 \<notin> set m" "CHR 0x00 \<notin> set s" "CHR 0x00 \<notin> set m'"
  shows "pk' = pk \<and> m' = m \<and> s' = s"
proof -
  have cnt: "count_list (sigcache_buf (pk, m, s)) CHR 0x00 = 2"
    using assms(2-4) by (simp add: sigcache_buf_def count_notin)
  then have "count_list pk' CHR 0x00 + count_list s' CHR 0x00 = 0"
    unfolding assms(1) using assms(5) by (simp add: sigcache_buf_def count_notin)
  then have "CHR 0x00 \<notin> set pk'" by (simp add: count_list_0_iff)
  with assms show ?thesis
    by (simp add: sigcache_buf_def append_sep_eq)
qed

text \<open>
  \<open>Q\<close> is a set of NUL-free queries; the invariant of the cache: every key is the digest of a query
  of \<open>Q\<close> that the uncached verification accepts.
\<close>

definition sigcache_inv :: "crypto \<Rightarrow> (string \<times> string \<times> string) set \<Rightarrow> string set \<Rightarrow> bool" where
  "sigcache_inv cr Q cache \<longleftrightarrow>
     (\<forall>key\<in>cache. \<exists>pk msg sg. (pk, msg, sg) \<in> Q \<and> key = sigcache_key cr pk msg sg \<and>
        verify_message_signature_hybrid_uncached cr pk msg sg)"

lemma sigcache_hit:
  assumes inv: "sigcache_inv cr Q cache" and hit: "sigcache_key cr pk msg sg \<in> cache"
    and inj: "inj_on (sha3 cr) (sigcache_buf ` Q)" and q: "(pk, msg, sg) \<in> Q"
    and nul: "\<And>pk m s. (pk, m, s) \<in> Q \<Longrightarrow> CHR 0x00 \<notin> set m"
  shows "verify_message_signature_hybrid_uncached cr pk msg sg"
proof -
  obtain pk' m' s' where q': "(pk', m', s') \<in> Q"
    and key: "sigcache_key cr pk msg sg = sigcache_key cr pk' m' s'"
    and ok: "verify_message_signature_hybrid_uncached cr pk' m' s'"
    using inv hit unfolding sigcache_inv_def by metis
  have "sigcache_buf (pk', m', s') = sigcache_buf (pk, msg, sg)"
    by (rule inj_onD [OF inj]) (use key q q' in \<open>auto simp: sigcache_key_buf\<close>)
  with uncached_no_nul [OF ok] nul q q' have "pk = pk' \<and> msg = m' \<and> sg = s'"
    by (intro sigcache_buf_inject) auto
  with ok show ?thesis by simp
qed

lemma uncached_policy:
  assumes "verify_message_signature_hybrid_uncached cr pk msg sg"
  shows "starts_with ''pq='' sg" and "length pk mod 2 = 0"
    and "infer_sig_scheme_from_key_bytes cr (length pk div 2) False \<noteq> Unknown"
    and "sig_scheme_allowed_strict cr (infer_sig_scheme_from_key_bytes cr (length pk div 2) False)"
proof -
  let ?sc = "infer_sig_scheme_from_key_bytes cr (length pk div 2) False"
  note u = verify_message_signature_hybrid_uncached_def [of cr pk msg sg, unfolded Let_def]
  show 1: "starts_with ''pq='' sg"
    using assms unfolding u by (simp only: split: if_split_asm)
  show 2: "length pk mod 2 = 0"
    using assms 1 unfolding u by (simp only: split: if_split_asm)
  have "\<not> (?sc = Unknown \<or> \<not> sig_scheme_allowed_strict cr ?sc)"
    using assms 1 2 unfolding u by (simp only: not_False_eq_True split: if_split_asm)
  then show "?sc \<noteq> Unknown" and "sig_scheme_allowed_strict cr ?sc" by blast+
qed

lemma sigcache_step:
  assumes inv: "sigcache_inv cr Q cache" and inj: "inj_on (sha3 cr) (sigcache_buf ` Q)"
    and q: "(pk, msg, sg) \<in> Q" and nul: "\<And>pk m s. (pk, m, s) \<in> Q \<Longrightarrow> CHR 0x00 \<notin> set m"
    and res: "verify_message_signature_hybrid cr True cache pk msg sg = (ok, cache')"
  shows "ok = verify_message_signature_hybrid_uncached cr pk msg sg" and "sigcache_inv cr Q cache'"
proof -
  let ?u = "verify_message_signature_hybrid_uncached cr pk msg sg"
  have hit: "sigcache_key cr pk msg sg \<in> cache \<Longrightarrow> ?u"
    by (rule sigcache_hit [OF inv _ inj q nul])
  show "ok = ?u"
    using res hit uncached_policy [of cr pk msg sg]
    by (auto simp: verify_message_signature_hybrid_def Let_def split: if_splits)
  show "sigcache_inv cr Q cache'"
    using res inv q
    by (fastforce simp: verify_message_signature_hybrid_def Let_def sigcache_inv_def split: if_splits)
qed

lemma verify_seq_sound:
  assumes "sigcache_inv cr Q cache" and "inj_on (sha3 cr) (sigcache_buf ` Q)"
    and "set qs \<subseteq> Q" and "\<And>pk m s. (pk, m, s) \<in> Q \<Longrightarrow> CHR 0x00 \<notin> set m"
  shows "verify_seq cr cache qs =
     map (\<lambda>(pk, msg, sg). verify_message_signature_hybrid_uncached cr pk msg sg) qs"
  using assms(1,3)
proof (induction qs arbitrary: cache)
  case (Cons q qs)
  obtain pk msg sg where q: "q = (pk, msg, sg)" by (cases q)
  obtain ok cache' where r: "verify_message_signature_hybrid cr True cache pk msg sg = (ok, cache')"
    by fastforce
  have "(pk, msg, sg) \<in> Q" using Cons.prems q by simp
  note step = sigcache_step [OF Cons.prems(1) assms(2) this assms(4) r]
  show ?case using Cons step q r by simp
qed simp

section \<open>Properties\<close>

text \<open>
  The cache of verified signatures is transparent: a sequence of verifications that starts
  with an empty cache answers, call by call, what the uncached verification answers, provided the
  verified messages hold no NUL byte and SHA3-512 does not collide on the queried
  (key, message, signature) strings. The framing of the cache key with NUL separators makes the
  first proviso necessary.
\<close>

theorem sigcache_transparent:
  assumes "inj_on (sha3 cr) (sigcache_buf ` set qs)"
    and "\<And>pk m s. (pk, m, s) \<in> set qs \<Longrightarrow> CHR 0x00 \<notin> set m"
  shows "verify_seq cr {} qs =
     map (\<lambda>(pk, msg, sg). verify_message_signature_hybrid_uncached cr pk msg sg) qs"
  by (rule verify_seq_sound [where Q = "set qs"]) (use assms in \<open>auto simp: sigcache_inv_def\<close>)

definition toy_crypto :: crypto where
  "toy_crypto = \<lparr>sha3 = (\<lambda>s. s),
     oqs_sizes = (\<lambda>sc. Some \<lparr>public_key_size = 1, secret_key_size = 1, signature_size = 1\<rparr>),
     oqs_verify = (\<lambda>pk m s. pk = s), oqs_verify_ctx = (\<lambda>c pk m s. False), oqs_ctx_sign = (\<lambda>_. False)\<rparr>"

theorem sigcache_transparent_witness:
  "verify_seq toy_crypto {} [(''0a'', ''hi'', ''pq=0a''), (''0a'', ''hi'', ''pq=0a''), (''0a'', ''hi'', ''pq=0b'')] =
     map (\<lambda>(pk, msg, sg). verify_message_signature_hybrid_uncached toy_crypto pk msg sg)
       [(''0a'', ''hi'', ''pq=0a''), (''0a'', ''hi'', ''pq=0a''), (''0a'', ''hi'', ''pq=0b'')]"
  by (rule sigcache_transparent) (auto simp: toy_crypto_def inj_on_def)

end
