(* ===== verification/Block_Model.thy ===== *)
theory Block_Model
  imports Crypto_Model
begin

text \<open>
  The data model of \<^verbatim>\<open>block.hpp\<close> (transactions, headers, stake votes, slash evidence, blocks) and the
  hashing of \<^verbatim>\<open>block.cpp\<close>: transaction ids with and without witnesses, the Merkle root, the header
  hash and the block commitment. The lemmas show what a Merkle root binds.
\<close>

section \<open>Data\<close>

record tx_input =
  previous_txid :: string
  output_index :: u32
  witness :: string

record tx_output =
  recipient :: string
  amount :: u64

record transaction =
  inputs :: "tx_input list"
  outputs :: "tx_output list"
  signer :: string
  signer_pubkey :: string
  signature :: string
  fee :: u64
  nonce :: u64
  shielded :: string

record block_header =
  hd_height :: u64
  hd_previous_hash :: string
  hd_timestamp :: u64
  hd_nonce :: u64
  hd_difficulty_target :: u64
  hd_merkle_root :: string

record stake_vote =
  ticket_id :: string
  voted_height :: u64
  voted_hash :: string
  approve :: bool
  vote_signature :: string

record slash_evidence =
  ev_a :: stake_vote
  ev_b :: stake_vote

record block =
  header :: block_header
  transactions :: "transaction list"
  votes :: "stake_vote list"
  slashes :: "slash_evidence list"

section \<open>Hashing\<close>

definition strong_hash :: "crypto \<Rightarrow> string \<Rightarrow> string" where
  "strong_hash cr data = to_hex (sha3 cr data)"

definition tx_preimage :: "crypto \<Rightarrow> transaction \<Rightarrow> string" where
  "tx_preimage cr tx =
     ''in['' @ concat (map (\<lambda>i. previous_txid i @ '':'' @ to_string (output_index i) @ '';'') (inputs tx))
     @ '']out['' @ concat (map (\<lambda>out. recipient out @ '':'' @ to_string (amount out) @ '';'') (outputs tx))
     @ '']signer='' @ signer tx @ ''|pub='' @ signer_pubkey tx
     @ ''|fee='' @ to_string (fee tx) @ ''|nonce='' @ to_string (nonce tx)
     @ (if shielded tx \<noteq> [] then ''|sh='' @ strong_hash cr (shielded tx) else [])"

definition hash_transaction :: "crypto \<Rightarrow> transaction \<Rightarrow> string" where
  "hash_transaction cr tx = strong_hash cr (tx_preimage cr tx)"

definition hash_transaction_with_witness :: "crypto \<Rightarrow> transaction \<Rightarrow> string" where
  "hash_transaction_with_witness cr tx =
     (let txid = hash_transaction cr tx;
          any = list_ex (\<lambda>i. witness i \<noteq> []) (inputs tx);
          w = txid @ ''|wit['' @ concat (map (\<lambda>i. strong_hash cr (witness i) @ '';'') (inputs tx))
      in if any then strong_hash cr (w @ '']'') else txid)"

text \<open>One pass of the \<^verbatim>\<open>while (layer.size() > 1)\<close> loop: an odd last entry is paired with itself.\<close>

fun merkle_next :: "crypto \<Rightarrow> string list \<Rightarrow> string list" where
  "merkle_next cr [] = []"
| "merkle_next cr [x] = [strong_hash cr (x @ x)]"
| "merkle_next cr (x # y # r) = strong_hash cr (x @ y) # merkle_next cr r"

lemma length_merkle_next: "length (merkle_next cr l) = (length l + 1) div 2"
  by (induction cr l rule: merkle_next.induct) auto

function merkle_loop :: "crypto \<Rightarrow> string list \<Rightarrow> string list" where
  "merkle_loop cr l = (if length l > 1 then merkle_loop cr (merkle_next cr l) else l)"
  by pat_completeness auto
termination
  by (relation "measure (\<lambda>(cr, l). length l)") (auto simp: length_merkle_next)

declare merkle_loop.simps [simp del]

definition compute_merkle_root :: "crypto \<Rightarrow> transaction list \<Rightarrow> string" where
  "compute_merkle_root cr txs =
     (if txs = [] then strong_hash cr ''empty''
      else hd (merkle_loop cr (map (hash_transaction_with_witness cr) txs)))"

definition hash_block_header :: "crypto \<Rightarrow> block_header \<Rightarrow> string" where
  "hash_block_header cr h =
     strong_hash cr (to_string (hd_height h) @ ''|'' @ hd_previous_hash h @ ''|'' @ to_string (hd_timestamp h)
       @ ''|'' @ to_string (hd_nonce h) @ ''|'' @ to_string (hd_difficulty_target h) @ ''|'' @ hd_merkle_root h)"

definition hash_stake_vote :: "crypto \<Rightarrow> stake_vote \<Rightarrow> string" where
  "hash_stake_vote cr v =
     strong_hash cr (''vote|'' @ ticket_id v @ ''|'' @ to_string (voted_height v) @ ''|'' @ voted_hash v @ ''|''
       @ (if approve v then ''1'' else ''0'') @ ''|'' @ vote_signature v)"

definition compute_block_commitment :: "crypto \<Rightarrow> block \<Rightarrow> string" where
  "compute_block_commitment cr b =
     (let tx_root = compute_merkle_root cr (transactions b) in
      if votes b = [] \<and> slashes b = [] then tx_root
      else strong_hash cr (''blockcommit_v1|'' @ tx_root @ ''|votes[''
        @ concat (map (\<lambda>v. hash_stake_vote cr v @ '';'') (votes b)) @ '']slashes[''
        @ concat (map (\<lambda>s. hash_stake_vote cr (ev_a s) @ '','' @ hash_stake_vote cr (ev_b s) @ '';'') (slashes b))
        @ '']''))"

section \<open>Weight of the staking extension\<close>

definition bin_size :: "string \<Rightarrow> nat" where
  "bin_size h = 4 + (length h + 1) div 2"

definition stake_vote_weight :: "stake_vote \<Rightarrow> nat" where
  "stake_vote_weight v =
     (let front = takeWhile (\<lambda>c. c \<noteq> CHR '':'') (ticket_id v);
          ticket = (if CHR '':'' \<notin> set (ticket_id v) then 4 + length (ticket_id v) else bin_size front + 4)
      in ticket + 8 + bin_size (voted_hash v) + 1 + bin_size (vote_signature v))"

definition stake_extension_weight :: "block \<Rightarrow> nat" where
  "stake_extension_weight b =
     (if votes b = [] \<and> slashes b = [] then 0
      else 8 + sum_list (map stake_vote_weight (votes b))
        + sum_list (map (\<lambda>s. stake_vote_weight (ev_a s) + stake_vote_weight (ev_b s)) (slashes b)))"

section \<open>Outpoints\<close>

definition outpoint_key :: "string \<Rightarrow> u32 \<Rightarrow> string" where
  "outpoint_key txid i = txid @ '':'' @ to_string i"

lemma colon_not_in_to_string: "CHR '':'' \<notin> set (to_string w)"
  using dec_digits by (fastforce simp: to_string_def is_digit_char_def)

lemma outpoint_key_inject [simp]:
  "outpoint_key t i = outpoint_key t' j \<longleftrightarrow> t = t' \<and> i = j"
proof
  assume "outpoint_key t i = outpoint_key t' j"
  then have "rev (outpoint_key t i) = rev (outpoint_key t' j)" by simp
  then have "rev (to_string i) @ CHR '':'' # rev t = rev (to_string j) @ CHR '':'' # rev t'"
    by (simp add: outpoint_key_def)
  then show "t = t' \<and> i = j"
    by (subst (asm) append_sep_eq) (simp_all add: colon_not_in_to_string)
qed simp

section \<open>Lemmas: what a Merkle root binds\<close>

lemma length_strong_hash [simp]: "sha3_width cr \<Longrightarrow> length (strong_hash cr s) = 128"
  by (simp add: strong_hash_def sha3_width_def)

lemma strong_hash_eqD:
  "strong_hash cr a = strong_hash cr b \<Longrightarrow> inj_on (sha3 cr) S \<Longrightarrow> a \<in> S \<Longrightarrow> b \<in> S \<Longrightarrow> a = b"
  by (auto simp: strong_hash_def dest: inj_onD)

text \<open>The strings one pass hashes, and those of the whole loop.\<close>

fun merkle_inputs :: "string list \<Rightarrow> string set" where
  "merkle_inputs [] = {}"
| "merkle_inputs [x] = {x @ x}"
| "merkle_inputs (x # y # r) = insert (x @ y) (merkle_inputs r)"

function merkle_hashed :: "crypto \<Rightarrow> string list \<Rightarrow> string set" where
  "merkle_hashed cr l =
     (if length l > 1 then merkle_inputs l \<union> merkle_hashed cr (merkle_next cr l) else {})"
  by pat_completeness auto
termination
  by (relation "measure (\<lambda>(cr, l). length l)") (auto simp: length_merkle_next)

declare merkle_hashed.simps [simp del]

lemma merkle_next_inject:
  assumes "merkle_next cr l = merkle_next cr m" and "length l = length m"
    and "\<forall>x\<in>set l \<union> set m. length x = 128"
    and "inj_on (sha3 cr) (merkle_inputs l \<union> merkle_inputs m)"
  shows "l = m"
  using assms
proof (induction l arbitrary: m rule: induct_list012)
  case (2 x)
  then obtain y where m: "m = [y]" by (cases m) auto
  have "x @ x = y @ y"
    by (rule strong_hash_eqD [OF _ 2(4)]) (use 2 m in auto)
  with 2 m show ?case by simp
next
  case (3 x y r)
  from 3(4) obtain x' y' r' where m: "m = x' # y' # r'"
    by (cases m; cases "tl m") auto
  have "x @ y = x' @ y'"
    by (rule strong_hash_eqD [OF _ 3(6)]) (use 3 m in auto)
  moreover have "r = r'"
    by (rule 3(1)) (use 3 m in \<open>auto intro: inj_on_subset\<close>)
  ultimately show ?case using 3 m by simp
qed auto

lemma merkle_next_width:
  "sha3_width cr \<Longrightarrow> x \<in> set (merkle_next cr l) \<Longrightarrow> length x = 128"
  by (induction cr l rule: merkle_next.induct) auto

lemma merkle_loop_inject:
  assumes "sha3_width cr" and "merkle_loop cr l = merkle_loop cr m" and "length l = length m"
    and "\<forall>x\<in>set l \<union> set m. length x = 128"
    and "inj_on (sha3 cr) (merkle_hashed cr l \<union> merkle_hashed cr m)"
  shows "l = m"
  using assms
proof (induction cr l arbitrary: m rule: merkle_loop.induct)
  case (1 cr l)
  show ?case
  proof (cases "length l > 1")
    case True
    have "merkle_next cr l = merkle_next cr m"
    proof (rule "1.IH" [OF True "1.prems"(1)])
      show "merkle_loop cr (merkle_next cr l) = merkle_loop cr (merkle_next cr m)"
        using "1.prems"(2,3) True by (simp add: merkle_loop.simps [of cr l] merkle_loop.simps [of cr m])
      show "length (merkle_next cr l) = length (merkle_next cr m)"
        using "1.prems"(3) by (simp add: length_merkle_next)
      show "\<forall>x\<in>set (merkle_next cr l) \<union> set (merkle_next cr m). length x = 128"
        using merkle_next_width [OF "1.prems"(1)] by blast
      show "inj_on (sha3 cr) (merkle_hashed cr (merkle_next cr l) \<union> merkle_hashed cr (merkle_next cr m))"
        by (rule inj_on_subset [OF "1.prems"(5)])
          (use True "1.prems"(3) in \<open>auto simp: merkle_hashed.simps [of cr l] merkle_hashed.simps [of cr m]\<close>)
    qed
    moreover have "inj_on (sha3 cr) (merkle_inputs l \<union> merkle_inputs m)"
      by (rule inj_on_subset [OF "1.prems"(5)])
        (use True "1.prems"(3) in \<open>auto simp: merkle_hashed.simps [of cr l] merkle_hashed.simps [of cr m]\<close>)
    ultimately show ?thesis by (rule merkle_next_inject [OF _ "1.prems"(3,4)])
  next
    case False
    with "1.prems"(2,3) show ?thesis
      by (simp add: merkle_loop.simps [of cr l] merkle_loop.simps [of cr m])
  qed
qed

lemma merkle_next_Nil_iff [simp]: "merkle_next cr l = [] \<longleftrightarrow> l = []"
  by (induction cr l rule: merkle_next.induct) auto

lemma length_merkle_loop: "l \<noteq> [] \<Longrightarrow> length (merkle_loop cr l) = 1"
proof (induction cr l rule: merkle_loop.induct)
  case (1 cr l)
  show ?case
  proof (cases "length l > 1")
    case True
    with 1 show ?thesis by (simp add: merkle_loop.simps [of cr l])
  next
    case False
    with "1.prems" have "length l = 1" by (cases l) auto
    then show ?thesis by (simp add: merkle_loop.simps [of cr l])
  qed
qed

lemma length_wtxid: "sha3_width cr \<Longrightarrow> length (hash_transaction_with_witness cr tx) = 128"
  by (simp add: hash_transaction_with_witness_def hash_transaction_def Let_def)

text \<open>An odd layer and the same layer with its last entry repeated give the same next layer.\<close>

lemma merkle_next_repeat_last:
  "odd (length l) \<Longrightarrow> merkle_next cr (l @ [last l]) = merkle_next cr l"
proof (induction cr l rule: merkle_next.induct)
  case (3 cr x y r)
  then have "r \<noteq> []" by auto
  with 3 show ?case by simp
qed auto

lemma merkle_loop_repeat_last:
  assumes "odd (length l)" and "length l > 1"
  shows "merkle_loop cr (l @ [last l]) = merkle_loop cr l"
proof -
  have "l \<noteq> []" using assms by auto
  with assms merkle_next_repeat_last [OF assms(1), of cr] show ?thesis
    by (simp add: merkle_loop.simps [of cr l] merkle_loop.simps [of cr "l @ [last l]"])
qed

section \<open>Properties\<close>

text \<open>
  The Merkle root of a block commits to its transactions, witnesses included: two
  transaction lists of the same length with the same root have the same list of witness ids, when
  SHA3-512 does not collide on the strings the two computations hash.
\<close>

theorem merkle_root_binds:
  assumes "sha3_width cr" and "length txs = length txs'"
    and "compute_merkle_root cr txs = compute_merkle_root cr txs'"
    and "inj_on (sha3 cr) (merkle_hashed cr (map (hash_transaction_with_witness cr) txs)
       \<union> merkle_hashed cr (map (hash_transaction_with_witness cr) txs'))"
  shows "map (hash_transaction_with_witness cr) txs = map (hash_transaction_with_witness cr) txs'"
proof (cases "txs = []")
  case True
  with assms(2) show ?thesis by simp
next
  case False
  let ?l = "map (hash_transaction_with_witness cr) txs"
  let ?m = "map (hash_transaction_with_witness cr) txs'"
  from False assms(2) have ne: "txs' \<noteq> []" by auto
  have one: "length (merkle_loop cr ?l) = 1" "length (merkle_loop cr ?m) = 1"
    using False ne by (simp_all add: length_merkle_loop)
  have "hd (merkle_loop cr ?l) = hd (merkle_loop cr ?m)"
    using assms(3) False ne by (simp add: compute_merkle_root_def)
  with one have eq: "merkle_loop cr ?l = merkle_loop cr ?m"
    by (cases "merkle_loop cr ?l"; cases "merkle_loop cr ?m") auto
  show ?thesis
    by (rule merkle_loop_inject [OF assms(1) eq]) (use assms in \<open>auto simp: length_wtxid\<close>)
qed

definition sample_crypto :: crypto where
  "sample_crypto = toy_crypto\<lparr>sha3 := (\<lambda>s. take 64 (rev s @ replicate 64 CHR ''0''))\<rparr>"

definition sample_tx :: "u64 \<Rightarrow> transaction" where
  "sample_tx n = \<lparr>inputs = [], outputs = [\<lparr>recipient = ''m'', amount = 5\<rparr>], signer = [], signer_pubkey = [],
     signature = [], fee = 0, nonce = n, shielded = []\<rparr>"

theorem merkle_root_binds_witness:
  "map (hash_transaction_with_witness sample_crypto) [sample_tx 1, sample_tx 2] =
   map (hash_transaction_with_witness sample_crypto) [sample_tx 1, sample_tx 2\<lparr>signature := ''pq=00''\<rparr>]"
proof (rule merkle_root_binds)
  have "hash_transaction_with_witness sample_crypto (sample_tx 2\<lparr>signature := ''pq=00''\<rparr>) =
      hash_transaction_with_witness sample_crypto (sample_tx 2)"
    by (simp add: hash_transaction_with_witness_def hash_transaction_def tx_preimage_def)
  note same = this
  show "sha3_width sample_crypto" by (auto simp: sha3_width_def sample_crypto_def min_def)
  show "compute_merkle_root sample_crypto [sample_tx 1, sample_tx 2] =
      compute_merkle_root sample_crypto [sample_tx 1, sample_tx 2\<lparr>signature := ''pq=00''\<rparr>]"
    by (simp add: compute_merkle_root_def same)
  show "inj_on (sha3 sample_crypto)
     (merkle_hashed sample_crypto (map (hash_transaction_with_witness sample_crypto) [sample_tx 1, sample_tx 2]) \<union>
      merkle_hashed sample_crypto (map (hash_transaction_with_witness sample_crypto)
        [sample_tx 1, sample_tx 2\<lparr>signature := ''pq=00''\<rparr>]))"
    by (simp add: same merkle_hashed.simps)
qed simp

text \<open>
  The equal-length proviso of the binding is needed: with an odd number of transactions
  (more than one), the block that repeats its last transaction has the same Merkle root.
\<close>

theorem merkle_root_repeat_last:
  assumes "odd (length txs)" and "length txs > 1"
  shows "compute_merkle_root cr (txs @ [last txs]) = compute_merkle_root cr txs"
proof -
  have ne: "txs \<noteq> []" using assms by auto
  then have "last (map f txs) = f (last txs)" for f :: "transaction \<Rightarrow> string"
    by (simp add: last_map)
  then show ?thesis
    using assms ne merkle_loop_repeat_last [of "map (hash_transaction_with_witness cr) txs" cr]
    by (simp add: compute_merkle_root_def)
qed

theorem merkle_root_repeat_last_witness:
  "compute_merkle_root sample_crypto ([sample_tx 1, sample_tx 2, sample_tx 3] @ [last [sample_tx 1, sample_tx 2, sample_tx 3]]) =
   compute_merkle_root sample_crypto [sample_tx 1, sample_tx 2, sample_tx 3]"
  by (rule merkle_root_repeat_last) simp_all

end
