(* ===== verification/Wire_V3.thy ===== *)
theory Wire_V3
  imports Block_Model "HOL-Library.Monad_Syntax"
begin

text \<open>
  Wire format v3 (\<^verbatim>\<open>wire_v3.cpp\<close>): little-endian integers, tagged strings, the binary encodings of
  transactions, votes and blocks with their checksum, base64 framing, and the weights of
  \<^verbatim>\<open>block.cpp\<close> that are defined by the encoding. Readers take the whole buffer and an offset, as the
  code does, and return the value with the new offset. The interface every field codec offers is the
  locale \<open>field_codec\<close>; the loops that read a counted list are treated once, inside it.
\<close>

unbundle bit_operations_syntax

section \<open>Integers\<close>

definition put_u8 :: "u8 \<Rightarrow> string" where
  "put_u8 v = [char_of (unat v)]"

definition put_le :: "nat \<Rightarrow> 'a::len word \<Rightarrow> string" where
  "put_le k v = map (\<lambda>i. char_of (unat (drop_bit (8 * i) v AND 255))) [0..<k]"

definition put_u32 :: "u32 \<Rightarrow> string" where "put_u32 v = put_le 4 v"
definition put_u64 :: "u64 \<Rightarrow> string" where "put_u64 v = put_le 8 v"

definition le_word :: "nat \<Rightarrow> string \<Rightarrow> nat \<Rightarrow> 'a::len word" where
  "le_word k inp off =
     foldl (\<lambda>v i. v OR push_bit (8 * i) (of_nat (of_char (inp ! (off + i))))) 0 [0..<k]"

definition get_u8 :: "string \<Rightarrow> nat \<Rightarrow> (u8 \<times> nat) option" where
  "get_u8 inp off =
     (if off + 1 > length inp then None else Some (of_nat (of_char (inp ! off)), off + 1))"

definition get_u32 :: "string \<Rightarrow> nat \<Rightarrow> (u32 \<times> nat) option" where
  "get_u32 inp off = (if off + 4 > length inp then None else Some (le_word 4 inp off, off + 4))"

definition get_u64 :: "string \<Rightarrow> nat \<Rightarrow> (u64 \<times> nat) option" where
  "get_u64 inp off = (if off + 8 > length inp then None else Some (le_word 8 inp off, off + 8))"

section \<open>Hexadecimal fields\<close>

definition is_lower_hex_char :: "char \<Rightarrow> bool" where
  "is_lower_hex_char c \<longleftrightarrow>
     (CHR ''0'' \<le> c \<and> c \<le> CHR ''9'') \<or> (CHR ''a'' \<le> c \<and> c \<le> CHR ''f'')"

definition is_lower_hex :: "string \<Rightarrow> nat \<Rightarrow> bool" where
  "is_lower_hex s from \<longleftrightarrow>
     \<not> (length s \<le> from \<or> (length s - from) mod 2 \<noteq> 0) \<and> list_all is_lower_hex_char (drop from s)"

definition nib :: "char \<Rightarrow> nat" where
  "nib c = (if CHR ''0'' \<le> c \<and> c \<le> CHR ''9'' then of_char c - 48 else of_char c - 97 + 10)"

fun hex_pairs :: "string \<Rightarrow> string" where
  "hex_pairs (a # b # s) = char_of (nib a * 16 + nib b) # hex_pairs s"
| "hex_pairs _ = []"

definition hex_to_raw :: "string \<Rightarrow> nat \<Rightarrow> string" where
  "hex_to_raw s from = hex_pairs (drop from s)"

definition raw_to_hex :: "string \<Rightarrow> nat \<Rightarrow> nat \<Rightarrow> string" where
  "raw_to_hex raw off n = to_hex (take n (drop off raw))"

definition kMaxFieldBytes :: nat where "kMaxFieldBytes = 4194304"
definition kMaxTxIo :: nat where "kMaxTxIo = 10000"
definition kMaxBlockTxs :: nat where "kMaxBlockTxs = 100000"

text \<open>The tag \<^verbatim>\<open>write_tagged\<close> chooses and the bytes it stores: hexadecimal content is packed.\<close>

definition tagged_parts :: "string \<Rightarrow> u8 \<times> string" where
  "tagged_parts s =
     (if starts_with ''pq='' s \<and> is_lower_hex s 3 then (2, hex_to_raw s 3)
      else if is_lower_hex s 0 then (1, hex_to_raw s 0)
      else (0, s))"

definition write_tagged :: "string \<Rightarrow> string" where
  "write_tagged s =
     (let (tag, raw) = tagged_parts s in put_u8 tag @ put_u32 (of_nat (length raw)) @ raw)"

definition read_tagged :: "string \<Rightarrow> nat \<Rightarrow> (string \<times> nat) option" where
  "read_tagged inp off =
     do {
       (tag, off) \<leftarrow> get_u8 inp off;
       (n32, off) \<leftarrow> get_u32 inp off;
       let n = unat n32;
       if n > kMaxFieldBytes \<or> off + n > length inp then None
       else if tag = 0 then Some (take n (drop off inp), off + n)
       else if tag = 1 \<or> tag = 2 then
         (if n = 0 then None
          else Some ((if tag = 2 then ''pq='' else []) @ raw_to_hex inp off n, off + n))
       else None
     }"

section \<open>Checksums\<close>

definition checksum32 :: "crypto \<Rightarrow> string \<Rightarrow> u32" where
  "checksum32 cr data = le_word 4 (sha3 cr data) 0"

definition check_tail :: "crypto \<Rightarrow> string \<Rightarrow> nat \<Rightarrow> string \<Rightarrow> unit res" where
  "check_tail cr bin off what =
     (if off + 4 \<noteq> length bin then Inl (''invalid '' @ what @ '' checksum bounds'')
      else if le_word 4 bin off \<noteq> checksum32 cr (take (length bin - 4) bin)
      then Inl (what @ '' checksum mismatch'')
      else Inr ())"

section \<open>Counted lists\<close>

fun get_many :: "(string \<Rightarrow> nat \<Rightarrow> ('a \<times> nat) option) \<Rightarrow> nat \<Rightarrow> string \<Rightarrow> nat \<Rightarrow> ('a list \<times> nat) option" where
  "get_many get 0 inp off = Some ([], off)"
| "get_many get (Suc n) inp off =
     do {
       (x, off) \<leftarrow> get inp off;
       (xs, off) \<leftarrow> get_many get n inp off;
       Some (x # xs, off)
     }"

definition put_many :: "('a \<Rightarrow> string) \<Rightarrow> 'a list \<Rightarrow> string" where
  "put_many put xs = concat (map put xs)"

definition get_count :: "nat \<Rightarrow> string \<Rightarrow> nat \<Rightarrow> (nat \<times> nat) option" where
  "get_count limit inp off =
     do {
       (n, off) \<leftarrow> get_u32 inp off;
       if unat n > limit then None else Some (unat n, off)
     }"

section \<open>Transactions\<close>

definition put_input :: "tx_input \<Rightarrow> string" where
  "put_input i = write_tagged (previous_txid i) @ put_u32 (output_index i)"

definition get_input :: "string \<Rightarrow> nat \<Rightarrow> (tx_input \<times> nat) option" where
  "get_input inp off =
     do {
       (t, off) \<leftarrow> read_tagged inp off;
       (i, off) \<leftarrow> get_u32 inp off;
       Some (\<lparr>previous_txid = t, output_index = i, witness = []\<rparr>, off)
     }"

definition put_output :: "tx_output \<Rightarrow> string" where
  "put_output out = write_tagged (recipient out) @ put_u64 (amount out)"

definition get_output :: "string \<Rightarrow> nat \<Rightarrow> (tx_output \<times> nat) option" where
  "get_output inp off =
     do {
       (r, off) \<leftarrow> read_tagged inp off;
       (a, off) \<leftarrow> get_u64 inp off;
       Some (\<lparr>recipient = r, amount = a\<rparr>, off)
     }"

definition put_witness :: "string \<Rightarrow> string" where
  "put_witness w = put_u32 (of_nat (length w)) @ w"

definition get_witness :: "string \<Rightarrow> nat \<Rightarrow> (string \<times> nat) option" where
  "get_witness inp off =
     do {
       (wl, off) \<leftarrow> get_u32 inp off;
       if unat wl > kMaxFieldBytes \<or> off + unat wl > length inp then None
       else Some (take (unat wl) (drop off inp), off + unat wl)
     }"

definition kTxSectionWitness :: u8 where "kTxSectionWitness = 1"

definition has_witness :: "transaction \<Rightarrow> bool" where
  "has_witness tx \<longleftrightarrow> list_ex (\<lambda>i. witness i \<noteq> []) (inputs tx)"

definition tx_body_v3 :: "transaction \<Rightarrow> string" where
  "tx_body_v3 tx =
     ''TXV3'' @ write_tagged (signer tx) @ write_tagged (signer_pubkey tx) @ write_tagged (signature tx)
     @ put_u64 (fee tx) @ put_u64 (nonce tx)
     @ put_u32 (of_nat (length (inputs tx))) @ put_many put_input (inputs tx)
     @ put_u32 (of_nat (length (outputs tx))) @ put_many put_output (outputs tx)
     @ write_tagged (shielded tx)
     @ (if has_witness tx then put_u8 kTxSectionWitness @ put_many put_witness (map witness (inputs tx)) else [])"

definition encode_tx_v3 :: "crypto \<Rightarrow> transaction \<Rightarrow> string" where
  "encode_tx_v3 cr tx = (let b = tx_body_v3 tx in b @ put_u32 (checksum32 cr b))"

definition get_tx_head :: "string \<Rightarrow> nat \<Rightarrow> ((string \<times> string \<times> string \<times> u64 \<times> u64) \<times> nat) option" where
  "get_tx_head bin off =
     do {
       (sg, off) \<leftarrow> read_tagged bin off;
       (pk, off) \<leftarrow> read_tagged bin off;
       (si, off) \<leftarrow> read_tagged bin off;
       (fe, off) \<leftarrow> get_u64 bin off;
       (no, off) \<leftarrow> get_u64 bin off;
       Some ((sg, pk, si, fe, no), off)
     }"

text \<open>The optional witness section: present when more than the checksum is left.\<close>

definition get_witness_section :: "string \<Rightarrow> nat \<Rightarrow> tx_input list \<Rightarrow> (tx_input list \<times> nat) res" where
  "get_witness_section bin off ins =
     (if length bin \<ge> 4 \<and> off + 4 < length bin then
        (case get_u8 bin off of
           None \<Rightarrow> Inl ''unknown tx v3 section''
         | Some (sec, off) \<Rightarrow>
             if sec \<noteq> kTxSectionWitness then Inl ''unknown tx v3 section''
             else bind_res (need ''invalid tx v3 witness'' (get_many get_witness (length ins) bin off)) (\<lambda>(ws, off).
               if list_all (\<lambda>w. w = []) ws then Inl ''non-canonical empty tx v3 witness section''
               else Inr (map2 (\<lambda>i w. i\<lparr>witness := w\<rparr>) ins ws, off)))
      else Inr (ins, off))"

definition decode_tx_v3 :: "crypto \<Rightarrow> string \<Rightarrow> transaction res" where
  "decode_tx_v3 cr bin =
     (if length bin < 8 \<or> take 4 bin \<noteq> ''TXV3'' then Inl ''invalid tx v3 magic''
      else
        bind_res (need ''invalid tx v3 header'' (get_tx_head bin 4)) (\<lambda>((sg, pk, si, fe, no), off).
        bind_res (need ''invalid tx v3 inputs count'' (get_count kMaxTxIo bin off)) (\<lambda>(n, off).
        bind_res (need ''invalid tx v3 input'' (get_many get_input n bin off)) (\<lambda>(ins, off).
        bind_res (need ''invalid tx v3 outputs count'' (get_count kMaxTxIo bin off)) (\<lambda>(n, off).
        bind_res (need ''invalid tx v3 output'' (get_many get_output n bin off)) (\<lambda>(outs, off).
        bind_res (need ''invalid tx v3 shielded'' (read_tagged bin off)) (\<lambda>(sh, off).
        bind_res (get_witness_section bin off ins) (\<lambda>(ins, off).
        bind_res (check_tail cr bin off ''tx v3'') (\<lambda>_.
        if outs = [] \<and> sh = [] then Inl ''tx payload has no outputs''
        else Inr \<lparr>inputs = ins, outputs = outs, signer = sg, signer_pubkey = pk, signature = si,
                  fee = fe, nonce = no, shielded = sh\<rparr>)))))))))"

section \<open>Votes and blocks\<close>

definition put_vote :: "stake_vote \<Rightarrow> string" where
  "put_vote v =
     write_tagged (ticket_id v) @ put_u64 (voted_height v) @ write_tagged (voted_hash v)
     @ put_u8 (if approve v then 1 else 0) @ write_tagged (vote_signature v)"

definition get_vote :: "string \<Rightarrow> nat \<Rightarrow> (stake_vote \<times> nat) option" where
  "get_vote inp off =
     do {
       (t, off) \<leftarrow> read_tagged inp off;
       (h, off) \<leftarrow> get_u64 inp off;
       (vh, off) \<leftarrow> read_tagged inp off;
       (a, off) \<leftarrow> get_u8 inp off;
       if a > 1 then None else do {
         (sg, off) \<leftarrow> read_tagged inp off;
         Some (\<lparr>ticket_id = t, voted_height = h, voted_hash = vh, approve = (a = 1), vote_signature = sg\<rparr>, off)
       }
     }"

definition put_slash :: "slash_evidence \<Rightarrow> string" where
  "put_slash e = put_vote (ev_a e) @ put_vote (ev_b e)"

definition get_slash :: "string \<Rightarrow> nat \<Rightarrow> (slash_evidence \<times> nat) option" where
  "get_slash inp off =
     do {
       (a, off) \<leftarrow> get_vote inp off;
       (b, off) \<leftarrow> get_vote inp off;
       Some (\<lparr>ev_a = a, ev_b = b\<rparr>, off)
     }"

definition kExtVotes :: u8 where "kExtVotes = 1"
definition kExtSlashes :: u8 where "kExtSlashes = 2"
definition kMaxExtItems :: nat where "kMaxExtItems = 256"

definition put_block_tx :: "crypto \<Rightarrow> transaction \<Rightarrow> string" where
  "put_block_tx cr tx = (let t = encode_tx_v3 cr tx in put_u32 (of_nat (length t)) @ t)"

definition put_section :: "u8 \<Rightarrow> ('a \<Rightarrow> string) \<Rightarrow> 'a list \<Rightarrow> string" where
  "put_section kind put xs =
     (if xs = [] then []
      else (let sec = put_u32 (of_nat (length xs)) @ put_many put xs
            in put_u8 kind @ put_u32 (of_nat (length sec)) @ sec))"

definition put_block_header :: "block_header \<Rightarrow> string" where
  "put_block_header h =
     put_u64 (hd_height h) @ write_tagged (hd_previous_hash h) @ put_u64 (hd_timestamp h)
     @ put_u64 (hd_nonce h) @ put_u64 (hd_difficulty_target h) @ write_tagged (hd_merkle_root h)"

definition block_body_v3 :: "crypto \<Rightarrow> block \<Rightarrow> string" where
  "block_body_v3 cr b =
     ''BLV3'' @ put_block_header (header b)
     @ put_u32 (of_nat (length (transactions b))) @ put_many (put_block_tx cr) (transactions b)
     @ put_u32 ((if votes b = [] then 0 else 1) + (if slashes b = [] then 0 else 1))
     @ put_section kExtVotes put_vote (votes b) @ put_section kExtSlashes put_slash (slashes b)"

definition encode_block_v3 :: "crypto \<Rightarrow> block \<Rightarrow> string" where
  "encode_block_v3 cr b = (let s = block_body_v3 cr b in s @ put_u32 (checksum32 cr s))"

definition get_block_header :: "string \<Rightarrow> nat \<Rightarrow> (block_header \<times> nat) option" where
  "get_block_header inp off =
     do {
       (h, off) \<leftarrow> get_u64 inp off;
       (p, off) \<leftarrow> read_tagged inp off;
       (t, off) \<leftarrow> get_u64 inp off;
       (no, off) \<leftarrow> get_u64 inp off;
       (d, off) \<leftarrow> get_u64 inp off;
       (m, off) \<leftarrow> read_tagged inp off;
       Some (\<lparr>hd_height = h, hd_previous_hash = p, hd_timestamp = t, hd_nonce = no,
              hd_difficulty_target = d, hd_merkle_root = m\<rparr>, off)
     }"

fun get_block_txs :: "crypto \<Rightarrow> nat \<Rightarrow> string \<Rightarrow> nat \<Rightarrow> (transaction list \<times> nat) res" where
  "get_block_txs cr 0 bin off = Inr ([], off)"
| "get_block_txs cr (Suc n) bin off =
     bind_res (need ''invalid block v3 tx bounds'' (get_u32 bin off)) (\<lambda>(sz, off).
       if off + unat sz > length bin then Inl ''invalid block v3 tx bounds''
       else bind_res (decode_tx_v3 cr (take (unat sz) (drop off bin))) (\<lambda>tx.
         bind_res (get_block_txs cr n bin (off + unat sz)) (\<lambda>(txs, off). Inr (tx # txs, off))))"

text \<open>The items of one extension section: the section must be used up exactly.\<close>

definition get_section_items ::
    "(string \<Rightarrow> nat \<Rightarrow> ('a \<times> nat) option) \<Rightarrow> string \<Rightarrow> nat \<Rightarrow> nat \<Rightarrow> string \<Rightarrow> 'a list res" where
  "get_section_items get sec cnt so msg =
     bind_res (need msg (get_many get cnt sec so)) (\<lambda>(xs, so).
       if so \<noteq> length sec then Inl ''invalid block v3 extension trailing bytes'' else Inr xs)"

fun get_sections ::
    "nat \<Rightarrow> string \<Rightarrow> nat \<Rightarrow> u8 \<Rightarrow> stake_vote list \<times> slash_evidence list
      \<Rightarrow> ((stake_vote list \<times> slash_evidence list) \<times> nat) res" where
  "get_sections 0 bin off last_kind acc = Inr (acc, off)"
| "get_sections (Suc e) bin off last_kind (vs, sl) =
     bind_res (need ''invalid block v3 extension'' (get_u8 bin off)) (\<lambda>(kind, off).
     bind_res (need ''invalid block v3 extension'' (get_u32 bin off)) (\<lambda>(len, off).
       if off + unat len > length bin \<or> kind \<le> last_kind \<or> (kind \<noteq> kExtVotes \<and> kind \<noteq> kExtSlashes)
       then Inl ''invalid block v3 extension''
       else
         (let sec = take (unat len) (drop off bin) in
          bind_res (need ''invalid block v3 extension count'' (get_u32 sec 0)) (\<lambda>(cnt, so).
            if cnt = 0 \<or> unat cnt > kMaxExtItems then Inl ''invalid block v3 extension count''
            else if kind = kExtVotes then
              bind_res (get_section_items get_vote sec (unat cnt) so ''invalid block v3 vote'') (\<lambda>xs.
                get_sections e bin (off + unat len) kind (vs @ xs, sl))
            else
              bind_res (get_section_items get_slash sec (unat cnt) so ''invalid block v3 slash'') (\<lambda>xs.
                get_sections e bin (off + unat len) kind (vs, sl @ xs))))))"

definition decode_block_v3 :: "crypto \<Rightarrow> string \<Rightarrow> block res" where
  "decode_block_v3 cr bin =
     (if length bin < 8 \<or> take 4 bin \<noteq> ''BLV3'' then Inl ''invalid block v3 magic''
      else
        bind_res (need ''invalid block v3 header'' (get_block_header bin 4)) (\<lambda>(h, off).
        bind_res (need ''invalid block v3 tx count'' (get_count kMaxBlockTxs bin off)) (\<lambda>(n, off).
        bind_res (get_block_txs cr n bin off) (\<lambda>(txs, off).
        bind_res (need ''unsupported block v3 extension section'' (get_count 2 bin off)) (\<lambda>(ext, off).
        bind_res (get_sections ext bin off 0 ([], [])) (\<lambda>((vs, sl), off).
        bind_res (check_tail cr bin off ''block v3'') (\<lambda>_.
        if txs = [] \<and> hd_height h \<noteq> 0 then Inl ''block payload has no transactions''
        else Inr \<lparr>header = h, transactions = txs, votes = vs, slashes = sl\<rparr>)))))))"

section \<open>Weights\<close>

text \<open>
  \<^verbatim>\<open>block.cpp\<close>: the weight of a transaction is its length prefix and its wire encoding, that of a
  block adds the frame (magic, height, three integers, counts, checksum) and the staking extension.
\<close>

definition tx_weight :: "crypto \<Rightarrow> transaction \<Rightarrow> nat" where
  "tx_weight cr tx = 4 + length (encode_tx_v3 cr tx)"

definition block_weight :: "crypto \<Rightarrow> block \<Rightarrow> nat" where
  "block_weight cr b =
     (let hdr = write_tagged (hd_previous_hash (header b)) @ write_tagged (hd_merkle_root (header b))
      in 4 + 8 + 24 + length hdr + 4 + 4 + 4 + sum_list (map (tx_weight cr) (transactions b))
         + stake_extension_weight b)"

definition tx_wire_bytes :: "crypto \<Rightarrow> transaction \<Rightarrow> nat" where
  "tx_wire_bytes cr tx = (tx_weight cr tx * 4 + 2) div 3 + 1"

section \<open>Base64 framing\<close>

definition kB64 :: string where
  "kB64 = ''ABCDEFGHIJKLMNOPQRSTUVWXYZabcdefghijklmnopqrstuvwxyz0123456789+/''"

fun base64_encode :: "string \<Rightarrow> string" where
  "base64_encode (a # b # c # r) =
     (let n = of_char a * 65536 + of_char b * 256 + of_char c :: nat
      in [kB64 ! (n div 262144 mod 64), kB64 ! (n div 4096 mod 64), kB64 ! (n div 64 mod 64), kB64 ! (n mod 64)]
         @ base64_encode r)"
| "base64_encode [a] =
     (let n = of_char a * 65536 :: nat
      in [kB64 ! (n div 262144 mod 64), kB64 ! (n div 4096 mod 64)] @ ''=='')"
| "base64_encode [a, b] =
     (let n = of_char a * 65536 + of_char b * 256 :: nat
      in [kB64 ! (n div 262144 mod 64), kB64 ! (n div 4096 mod 64), kB64 ! (n div 64 mod 64)] @ ''='')"
| "base64_encode [] = []"

text \<open>The reverse table of \<^verbatim>\<open>base64_decode\<close>: \<open>None\<close> for its entry -1.\<close>

definition b64_rev :: "char \<Rightarrow> nat option" where
  "b64_rev = map_of (zip kB64 [0..<64])"

text \<open>The four digits of a group: \<open>=\<close> only in the last two places of the last group, with nothing after it.\<close>

fun b64_digits :: "bool \<Rightarrow> nat \<Rightarrow> nat \<Rightarrow> string \<Rightarrow> (nat list \<times> nat) option" where
  "b64_digits is_last k pad [] = Some ([], pad)"
| "b64_digits is_last k pad (c # cs) =
     (if c = CHR ''='' then
        (if \<not> is_last \<or> k < 2 then None
         else do { (vs, p) \<leftarrow> b64_digits is_last (Suc k) (Suc pad) cs; Some (0 # vs, p) })
      else if pad \<noteq> 0 then None
      else do { v \<leftarrow> b64_rev c; (vs, p) \<leftarrow> b64_digits is_last (Suc k) pad cs; Some (v # vs, p) })"

definition b64_bytes :: "nat list \<Rightarrow> nat \<Rightarrow> string" where
  "b64_bytes vs pad =
     (let n = vs ! 0 * 262144 + vs ! 1 * 4096 + vs ! 2 * 64 + vs ! 3
      in [char_of (n div 65536 mod 256)] @ (if pad < 2 then [char_of (n div 256 mod 256)] else [])
         @ (if pad < 1 then [char_of (n mod 256)] else []))"

fun base64_decode :: "string \<Rightarrow> string option" where
  "base64_decode [] = Some []"
| "base64_decode (a # b # c # d # r) =
     do {
       (vs, pad) \<leftarrow> b64_digits (r = []) 0 0 [a, b, c, d];
       bs \<leftarrow> base64_decode r;
       Some (b64_bytes vs pad @ bs)
     }"
| "base64_decode _ = None"

section \<open>Lemmas: integers on the wire\<close>

lemma drop_put: "drop off inp = p @ rest \<Longrightarrow> drop (off + length p) inp = rest"
  by (metis append_eq_conv_conj drop_drop add.commute)

lemma nth_put: "drop off inp = p @ rest \<Longrightarrow> i < length p \<Longrightarrow> inp ! (off + i) = p ! i"
  by (metis nth_append nth_drop drop_all length_drop nat_le_linear append_is_Nil_conv
      length_0_conv less_nat_zero_code)

lemma put_bound: "drop off inp = p @ rest \<Longrightarrow> p \<noteq> [] \<Longrightarrow> off + length p \<le> length inp"
proof -
  assume d: "drop off inp = p @ rest" and "p \<noteq> []"
  then have "off \<le> length inp" by (cases "off \<le> length inp") auto
  moreover have "length inp - off = length p + length rest"
    using d by (metis length_append length_drop)
  ultimately show ?thesis by linarith
qed

lemma byte_of_word: "of_nat (unat (x AND 255) mod 256) = (take_bit 8 x :: 'a::len word)"
proof -
  have m: "(255 :: 'a word) = mask 8" by (simp add: mask_numeral)
  have "unat (x AND 255) = take_bit 8 (unat x)"
    by (simp only: m take_bit_eq_mask [symmetric] unsigned_take_bit_eq)
  then have "unat (x AND 255) mod 256 = take_bit 8 (unat x)"
    by (simp add: take_bit_eq_mod)
  then show ?thesis by (simp add: of_nat_take_bit)
qed

lemma take_bit_step:
  "take_bit (8 * Suc k) v = take_bit (8 * k) v OR push_bit (8 * k) (take_bit 8 (drop_bit (8 * k) v) :: 'a::len word)"
  by (rule bit_word_eqI) (auto simp: bit_simps)

lemma length_put_le [simp]: "length (put_le k v) = k"
  by (simp add: put_le_def)

lemma le_word_put:
  assumes "drop off inp = put_le k v @ rest" and "j \<le> k"
  shows "le_word j inp off = take_bit (8 * j) (v :: 'a::len word)"
  using assms(2)
proof (induction j)
  case (Suc j)
  have "inp ! (off + j) = char_of (unat (drop_bit (8 * j) v AND 255))"
    using nth_put [OF assms(1), of j] Suc.prems by (simp add: put_le_def)
  with Suc show ?case
    by (simp add: le_word_def byte_of_word take_bit_step del: mult_Suc_right)
qed (simp add: le_word_def)

text \<open>\<open>at_off inp off p\<close>: the bytes \<open>p\<close> stand at offset \<open>off\<close> of the buffer.\<close>

definition at_off :: "string \<Rightarrow> nat \<Rightarrow> string \<Rightarrow> bool" where
  "at_off inp off p \<longleftrightarrow> take (length p) (drop off inp) = p"

lemma at_off_append [simp]:
  "at_off inp off (p @ q) \<longleftrightarrow> at_off inp off p \<and> at_off inp (off + length p) q"
proof
  let ?z = "drop off inp"
  assume a: "at_off inp off (p @ q)"
  then have "take (length p) (take (length (p @ q)) ?z) = take (length p) (p @ q)"
    and "drop (length p) (take (length (p @ q)) ?z) = drop (length p) (p @ q)"
    by (simp_all only: at_off_def)
  then show "at_off inp off p \<and> at_off inp (off + length p) q"
    by (simp add: at_off_def min_def drop_take add.commute)
qed (simp add: at_off_def take_add add.commute)

lemma at_off_Nil [simp]: "at_off inp off []"
  by (simp add: at_off_def)

lemma at_off_rest: "at_off inp off p \<Longrightarrow> drop off inp = p @ drop (off + length p) inp"
  unfolding at_off_def by (metis append_take_drop_id drop_drop add.commute)

lemma at_off_take: "at_off inp off p \<Longrightarrow> take (length p) (drop off inp) = p"
  by (simp add: at_off_def)

lemma at_off_bound: "at_off inp off p \<Longrightarrow> p \<noteq> [] \<Longrightarrow> off + length p \<le> length inp"
  by (rule put_bound [OF at_off_rest])

lemma at_off_self [simp]: "at_off (pre @ p @ rest) (length pre) p"
  by (simp add: at_off_def)

lemma at_off_after: "bin = pre @ p @ rest \<Longrightarrow> length pre = n \<Longrightarrow> at_off bin n p"
  by (auto simp: at_off_def)

lemma length_put_int: "length (put_u8 a) = 1" "length (put_u32 b) = 4" "length (put_u64 c) = 8"
  by (simp_all add: put_u8_def put_u32_def put_u64_def)

lemma put_int_nonempty [simp]: "put_u8 a \<noteq> []" "put_u32 b \<noteq> []" "put_u64 c \<noteq> []"
  by (metis length_put_int list.size(3) zero_neq_one zero_neq_numeral)+

section \<open>Field codecs\<close>

text \<open>
  What every reader and writer pair of the format promises: reading at an offset where the encoding
  of a well-formed value stands gives the value back and moves past the encoding.
\<close>

locale field_codec =
  fixes put :: "'a \<Rightarrow> string" and get :: "string \<Rightarrow> nat \<Rightarrow> ('a \<times> nat) option" and wf :: "'a \<Rightarrow> bool"
  assumes get_put: "wf x \<Longrightarrow> at_off inp off (put x) \<Longrightarrow> get inp off = Some (x, off + length (put x))"
begin

lemma get_many_put:
  assumes "list_all wf xs" and "at_off inp off (put_many put xs)"
  shows "get_many get (length xs) inp off = Some (xs, off + length (put_many put xs))"
  using assms
proof (induction xs arbitrary: off)
  case (Cons x xs)
  then have "at_off inp off (put x)" "at_off inp (off + length (put x)) (put_many put xs)" "wf x" "list_all wf xs"
    by (simp_all add: put_many_def)
  then show ?case
    using get_put [of x inp off] Cons.IH [of "off + length (put x)"] by (simp add: put_many_def add.assoc)
qed (simp add: put_many_def)

end

interpretation u8: field_codec put_u8 get_u8 "\<lambda>_. True"
proof
  fix x :: u8 and off and inp
  assume a: "at_off inp off (put_u8 x)"
  have "inp ! (off + 0) = put_u8 x ! 0"
    by (rule nth_put [OF at_off_rest [OF a]]) (simp add: length_put_int)
  moreover have "of_nat (unat x mod 256) = x" using unsigned_less [of x, where ?'a = nat] by simp
  ultimately show "get_u8 inp off = Some (x, off + length (put_u8 x))"
    using at_off_bound [OF a] by (simp add: get_u8_def put_u8_def)
qed

interpretation u32: field_codec put_u32 get_u32 "\<lambda>_. True"
proof
  fix x off inp
  assume a: "at_off inp off (put_u32 x)"
  have "le_word 4 inp off = x"
    using le_word_put [OF at_off_rest [OF a, unfolded put_u32_def], of 4]
    by (simp add: take_bit_word_eq_self)
  then show "get_u32 inp off = Some (x, off + length (put_u32 x))"
    using at_off_bound [OF a] by (simp add: get_u32_def length_put_int)
qed

interpretation u64: field_codec put_u64 get_u64 "\<lambda>_. True"
proof
  fix x off inp
  assume a: "at_off inp off (put_u64 x)"
  have "le_word 8 inp off = x"
    using le_word_put [OF at_off_rest [OF a, unfolded put_u64_def], of 8]
    by (simp add: take_bit_word_eq_self)
  then show "get_u64 inp off = Some (x, off + length (put_u64 x))"
    using at_off_bound [OF a] by (simp add: get_u64_def length_put_int)
qed

subsection \<open>Tagged strings\<close>

definition field_ok :: "string \<Rightarrow> bool" where
  "field_ok s \<longleftrightarrow> length (snd (tagged_parts s)) \<le> kMaxFieldBytes"

lemma is_lower_hex_nib: "is_lower_hex_char c \<Longrightarrow> nib c < 16 \<and> hex_char (nib c) = c"
  by (auto simp: is_lower_hex_char_def nib_def hex_char_def less_eq_char_def not_le)

lemma to_hex_hex_pairs:
  "even (length s) \<Longrightarrow> list_all is_lower_hex_char s \<Longrightarrow> to_hex (hex_pairs s) = s"
proof (induction s rule: hex_pairs.induct)
  case (1 a b s)
  then have "nib a < 16" "nib b < 16" "hex_char (nib a) = a" "hex_char (nib b) = b"
    by (auto simp: is_lower_hex_nib)
  then have "(nib a * 16 + nib b) mod 256 = nib a * 16 + nib b" by simp
  with 1 \<open>nib b < 16\<close> \<open>hex_char (nib a) = a\<close> \<open>hex_char (nib b) = b\<close> show ?case
    by (simp add: byte_hex_def)
qed auto

lemma to_hex_hex_to_raw: "is_lower_hex s from \<Longrightarrow> to_hex (hex_to_raw s from) = drop from s"
  unfolding hex_to_raw_def by (rule to_hex_hex_pairs) (auto simp: is_lower_hex_def even_iff_mod_2_eq_zero)

lemma hex_to_raw_nonempty: "is_lower_hex s from \<Longrightarrow> hex_to_raw s from \<noteq> []"
  using to_hex_hex_to_raw [of s "from"] by (auto simp: is_lower_hex_def)

lemma starts_with_split: "starts_with p s \<Longrightarrow> p @ drop (length p) s = s"
  by (metis append_take_drop_id starts_with_def)

lemma length_hex_pairs: "length (hex_pairs s) \<le> length s"
  by (induction s rule: hex_pairs.induct) auto

lemma length_tagged_raw: "length (snd (tagged_parts s)) \<le> length s"
  using length_hex_pairs [of s] length_hex_pairs [of "drop 3 s"]
  by (auto simp: tagged_parts_def hex_to_raw_def)

lemma field_okI: "length s \<le> kMaxFieldBytes \<Longrightarrow> field_ok s"
  using length_tagged_raw [of s] by (simp add: field_ok_def)

lemma length_write_tagged: "length (write_tagged s) \<le> 5 + length s"
  using length_tagged_raw [of s] by (cases "tagged_parts s") (simp add: write_tagged_def length_put_int)

interpretation tagged: field_codec write_tagged read_tagged field_ok
proof
  fix s off inp
  assume ok: "field_ok s" and a: "at_off inp off (write_tagged s)"
  obtain tag raw where p: "tagged_parts s = (tag, raw)" by (cases "tagged_parts s")
  let ?o = "off + length (put_u8 tag) + length (put_u32 (of_nat (length raw)))"
  from a p have at: "at_off inp off (put_u8 tag)" "at_off inp (off + length (put_u8 tag)) (put_u32 (of_nat (length raw)))"
      "at_off inp ?o raw"
    by (simp_all add: write_tagged_def)
  have n: "unat (of_nat (length raw) :: u32) = length raw" "length raw \<le> kMaxFieldBytes"
    using ok p by (simp_all add: field_ok_def kMaxFieldBytes_def unat_of_nat)
  have b: "?o + length raw \<le> length inp"
    using at_off_bound [OF a] p by (simp add: write_tagged_def)
  have "read_tagged inp off =
     (if tag = 0 then Some (raw, ?o + length raw)
       else if tag = 1 \<or> tag = 2 then
         (if length raw = 0 then None
          else Some ((if tag = 2 then ''pq='' else []) @ to_hex raw, ?o + length raw))
       else None)"
    using n b u8.get_put [OF TrueI at(1)] u32.get_put [OF TrueI at(2)] at_off_take [OF at(3)]
    by (auto simp: read_tagged_def raw_to_hex_def Let_def length_put_int)
  moreover have "?o + length raw = off + length (write_tagged s)"
    using p by (simp add: write_tagged_def)
  moreover have "starts_with ''pq='' s \<Longrightarrow> ''pq='' @ drop 3 s = s"
    using starts_with_split [of "''pq=''" s] by (simp add: numeral_3_eq_3)
  ultimately show "read_tagged inp off = Some (s, off + length (write_tagged s))"
    using p by (auto simp: tagged_parts_def to_hex_hex_to_raw hex_to_raw_nonempty split: if_splits)
qed

lemma write_tagged_nonempty [simp]: "write_tagged s \<noteq> []"
  by (simp add: write_tagged_def split: prod.split)

subsection \<open>Composite fields\<close>

lemma count_codec:
  assumes "limit < 2 ^ 32"
  shows "field_codec (\<lambda>n. put_u32 (of_nat n)) (get_count limit) (\<lambda>n. n \<le> limit)"
proof
  fix n inp off
  assume n: "n \<le> limit" and a: "at_off inp off (put_u32 (of_nat n))"
  have "unat (of_nat n :: u32) = n" using n assms by (simp add: unat_of_nat)
  then show "get_count limit inp off = Some (n, off + length (put_u32 (of_nat n)))"
    using n u32.get_put [OF TrueI a] by (simp add: get_count_def)
qed

interpretation io_count: field_codec "\<lambda>n. put_u32 (of_nat n)" "get_count kMaxTxIo" "\<lambda>n. n \<le> kMaxTxIo"
  by (rule count_codec) (simp add: kMaxTxIo_def)

interpretation tx_in: field_codec put_input get_input "\<lambda>i. field_ok (previous_txid i) \<and> witness i = []"
proof
  fix i :: tx_input and inp off
  assume ok: "field_ok (previous_txid i) \<and> witness i = []" and a: "at_off inp off (put_input i)"
  then have at: "at_off inp off (write_tagged (previous_txid i))"
      "at_off inp (off + length (write_tagged (previous_txid i))) (put_u32 (output_index i))"
    by (simp_all add: put_input_def)
  show "get_input inp off = Some (i, off + length (put_input i))"
    using ok tagged.get_put [OF _ at(1)] u32.get_put [OF TrueI at(2)] by (simp add: get_input_def put_input_def)
qed

interpretation tx_out: field_codec put_output get_output "\<lambda>x. field_ok (recipient x)"
proof
  fix x :: tx_output and inp off
  assume ok: "field_ok (recipient x)" and a: "at_off inp off (put_output x)"
  then have at: "at_off inp off (write_tagged (recipient x))"
      "at_off inp (off + length (write_tagged (recipient x))) (put_u64 (amount x))"
    by (simp_all add: put_output_def)
  show "get_output inp off = Some (x, off + length (put_output x))"
    using ok tagged.get_put [OF _ at(1)] u64.get_put [OF TrueI at(2)] by (simp add: get_output_def put_output_def)
qed

interpretation wit: field_codec put_witness get_witness "\<lambda>w. length w \<le> kMaxFieldBytes"
proof
  fix w inp off
  assume ok: "length w \<le> kMaxFieldBytes" and a: "at_off inp off (put_witness w)"
  let ?n = "of_nat (length w) :: u32"
  from a have at: "at_off inp off (put_u32 ?n)" "at_off inp (off + length (put_u32 ?n)) w"
    by (simp_all add: put_witness_def)
  have "unat ?n = length w" using ok by (simp add: kMaxFieldBytes_def unat_of_nat)
  moreover have "off + length (put_u32 ?n) + length w \<le> length inp"
    using at_off_bound [OF a] by (simp add: put_witness_def)
  ultimately show "get_witness inp off = Some (w, off + length (put_witness w))"
    using ok u32.get_put [OF TrueI at(1)] at_off_take [OF at(2)] by (simp add: get_witness_def put_witness_def)
qed

definition put_tx_head :: "string \<times> string \<times> string \<times> u64 \<times> u64 \<Rightarrow> string" where
  "put_tx_head = (\<lambda>(sg, pk, si, fe, no).
     write_tagged sg @ write_tagged pk @ write_tagged si @ put_u64 fe @ put_u64 no)"

interpretation tx_head: field_codec put_tx_head get_tx_head
  "\<lambda>(sg, pk, si, fe, no). field_ok sg \<and> field_ok pk \<and> field_ok si"
proof
  fix x :: "string \<times> string \<times> string \<times> u64 \<times> u64" and inp off
  assume ok: "case x of (sg, pk, si, fe, no) \<Rightarrow> field_ok sg \<and> field_ok pk \<and> field_ok si"
    and a: "at_off inp off (put_tx_head x)"
  obtain sg pk si fe no where x: "x = (sg, pk, si, fe, no)" by (cases x)
  let ?a = "off + length (write_tagged sg)" let ?b = "?a + length (write_tagged pk)"
  let ?c = "?b + length (write_tagged si)" let ?d = "?c + length (put_u64 fe)"
  have at: "at_off inp off (write_tagged sg)" "at_off inp ?a (write_tagged pk)" "at_off inp ?b (write_tagged si)"
      "at_off inp ?c (put_u64 fe)" "at_off inp ?d (put_u64 no)"
    using a by (simp_all add: x put_tx_head_def add.assoc)
  show "get_tx_head inp off = Some (x, off + length (put_tx_head x))"
    using ok tagged.get_put [OF _ at(1)] tagged.get_put [OF _ at(2)] tagged.get_put [OF _ at(3)]
      u64.get_put [OF TrueI at(4)] u64.get_put [OF TrueI at(5)]
    by (simp add: x get_tx_head_def put_tx_head_def)
qed

section \<open>Round trip of transactions\<close>

definition tx_encodable :: "transaction \<Rightarrow> bool" where
  "tx_encodable tx \<longleftrightarrow>
     field_ok (signer tx) \<and> field_ok (signer_pubkey tx) \<and> field_ok (signature tx) \<and> field_ok (shielded tx)
     \<and> length (inputs tx) \<le> kMaxTxIo \<and> length (outputs tx) \<le> kMaxTxIo
     \<and> list_all (\<lambda>i. field_ok (previous_txid i) \<and> length (witness i) \<le> kMaxFieldBytes) (inputs tx)
     \<and> list_all (\<lambda>x. field_ok (recipient x)) (outputs tx)
     \<and> \<not> (outputs tx = [] \<and> shielded tx = [])"

lemma list_all_witness: "list_all (\<lambda>i. field_ok (previous_txid i) \<and> length (witness i) \<le> kMaxFieldBytes) ins \<Longrightarrow>
   list_all (\<lambda>w. length w \<le> kMaxFieldBytes) (map witness ins)"
  by (auto simp: list_all_iff)

abbreviation strip :: "tx_input \<Rightarrow> tx_input" where
  "strip i \<equiv> i\<lparr>witness := []\<rparr>"

lemma put_many_strip: "put_many put_input (map strip ins) = put_many put_input ins"
  by (induction ins) (simp_all add: put_many_def put_input_def)

lemma rewitness: "map2 (\<lambda>i w. i\<lparr>witness := w\<rparr>) (map strip ins) (map witness ins) = ins"
  by (induction ins) auto

lemma check_tail_ok:
  "bin = s @ put_u32 (checksum32 cr s) \<Longrightarrow> check_tail cr bin (length s) what = Inr ()"
proof -
  assume b: "bin = s @ put_u32 (checksum32 cr s)"
  then have "at_off bin (length s) (put_u32 (checksum32 cr s))"
    using at_off_self [of s "put_u32 (checksum32 cr s)" "[]"] by simp
  from u32.get_put [OF TrueI this] show ?thesis
    using b by (auto simp: check_tail_def get_u32_def length_put_int split: if_splits)
qed

lemma get_witness_section_ok:
  assumes "bin = s @ put_u32 c" and "at_off bin off w" and "off + length w = length s"
    and "w = (if has_witness tx then put_u8 kTxSectionWitness @ put_many put_witness (map witness (inputs tx)) else [])"
    and "list_all (\<lambda>w. length w \<le> kMaxFieldBytes) (map witness (inputs tx))"
  shows "get_witness_section bin off (map strip (inputs tx)) = Inr (inputs tx, length s)"
proof (cases "has_witness tx")
  case False
  then have "map strip (inputs tx) = inputs tx"
    by (auto simp: has_witness_def list_ex_iff intro: map_idI)
  with False assms show ?thesis by (simp add: get_witness_section_def length_put_int)
next
  case True
  let ?o = "off + length (put_u8 kTxSectionWitness)"
  from True assms(2,4) have at: "at_off bin off (put_u8 kTxSectionWitness)"
      "at_off bin ?o (put_many put_witness (map witness (inputs tx)))" by simp_all
  have "get_many get_witness (length (inputs tx)) bin ?o =
      Some (map witness (inputs tx), ?o + length (put_many put_witness (map witness (inputs tx))))"
    using wit.get_many_put [OF assms(5) at(2)] by simp
  moreover have "\<not> list_all (\<lambda>w. w = []) (map witness (inputs tx))"
    using True by (auto simp: has_witness_def list_ex_iff list_all_iff)
  moreover have "off + 4 < length bin" using True assms(1,3,4) by (simp add: length_put_int)
  ultimately show ?thesis
    using True assms(3,4) u8.get_put [OF TrueI at(1)]
    by (simp add: get_witness_section_def rewitness add.assoc)
qed

lemma decode_encode_tx:
  assumes ok: "tx_encodable tx"
  shows "decode_tx_v3 cr (encode_tx_v3 cr tx) = Inr tx"
proof -
  let ?hd = "(signer tx, signer_pubkey tx, signature tx, fee tx, nonce tx)"
  let ?H = "put_tx_head ?hd" and ?N1 = "put_u32 (of_nat (length (inputs tx)))"
  let ?I = "put_many put_input (map strip (inputs tx))" and ?N2 = "put_u32 (of_nat (length (outputs tx)))"
  let ?O = "put_many put_output (outputs tx)" and ?S = "write_tagged (shielded tx)"
  let ?W = "if has_witness tx then put_u8 kTxSectionWitness @ put_many put_witness (map witness (inputs tx)) else []"
  define s bin where "s = tx_body_v3 tx" and "bin = encode_tx_v3 cr tx"
  have s: "s = ''TXV3'' @ ?H @ ?N1 @ ?I @ ?N2 @ ?O @ ?S @ ?W"
    by (simp add: s_def tx_body_v3_def put_tx_head_def put_many_strip)
  have bin: "bin = s @ put_u32 (checksum32 cr s)"
    by (simp add: bin_def s_def encode_tx_v3_def Let_def)
  have "at_off bin 4 (?H @ ?N1 @ ?I @ ?N2 @ ?O @ ?S @ ?W)"
    by (rule at_off_after [of _ "''TXV3''" _ "put_u32 (checksum32 cr s)"], subst bin, subst s)
      (simp_all only: append_assoc, simp)
  then have at: "at_off bin 4 ?H" "at_off bin (4 + length ?H) ?N1"
    "at_off bin (4 + length ?H + length ?N1) ?I" "at_off bin (4 + length ?H + length ?N1 + length ?I) ?N2"
    "at_off bin (4 + length ?H + length ?N1 + length ?I + length ?N2) ?O"
    "at_off bin (4 + length ?H + length ?N1 + length ?I + length ?N2 + length ?O) ?S"
    "at_off bin (4 + length ?H + length ?N1 + length ?I + length ?N2 + length ?O + length ?S) ?W"
    unfolding at_off_append by (blast)+
  have ins: "list_all (\<lambda>i. field_ok (previous_txid i) \<and> witness i = []) (map strip (inputs tx))"
    using ok by (auto simp: tx_encodable_def list_all_iff)
  have I: "get_many get_input (length (inputs tx)) bin (4 + length ?H + length ?N1) =
      Some (map strip (inputs tx), 4 + length ?H + length ?N1 + length ?I)"
    using tx_in.get_many_put [OF ins at(3)] by simp
  have O: "get_many get_output (length (outputs tx)) bin (4 + length ?H + length ?N1 + length ?I + length ?N2) =
      Some (outputs tx, 4 + length ?H + length ?N1 + length ?I + length ?N2 + length ?O)"
    by (rule tx_out.get_many_put [OF _ at(5)]) (use ok in \<open>simp add: tx_encodable_def\<close>)
  have "4 + length ?H + length ?N1 + length ?I + length ?N2 + length ?O + length ?S + length ?W = length s"
    by (subst s) (simp only: length_append list.size)
  note W = get_witness_section_ok [OF bin at(7) this refl]
  have magic: "\<not> (length bin < 8 \<or> take 4 bin \<noteq> ''TXV3'')"
    using bin s by (auto simp: length_put_int)
  show ?thesis
    unfolding bin_def [symmetric] decode_tx_v3_def if_not_P [OF magic]
    using ok I O W check_tail_ok [OF bin]
      tx_head.get_put [OF _ at(1)] io_count.get_put [OF _ at(2)] io_count.get_put [OF _ at(4)] tagged.get_put [OF _ at(6)]
    by (simp add: tx_encodable_def list_all_iff)
qed

section \<open>Round trip of blocks\<close>

context field_codec
begin

lemma section_read:
  assumes "list_all wf xs" and "xs \<noteq> []" and "length xs \<le> kMaxExtItems"
    and sec: "sec = put_u32 (of_nat (length xs)) @ put_many put xs" and "length sec < 2 ^ 32"
    and a: "at_off bin off (put_section kind put xs)"
  shows "\<exists>o1 o2 len so. get_u8 bin off = Some (kind, o1) \<and> get_u32 bin o1 = Some (len, o2)
    \<and> unat len = length sec
    \<and> o2 + length sec = off + length (put_section kind put xs) \<and> o2 + length sec \<le> length bin
    \<and> take (length sec) (drop o2 bin) = sec \<and> get_u32 sec 0 = Some (of_nat (length xs), so)
    \<and> get_section_items get sec (length xs) so msg = Inr xs"
proof -
  let ?o1 = "off + length (put_u8 kind)" and ?len = "of_nat (length sec) :: u32"
  let ?o2 = "?o1 + length (put_u32 ?len)" and ?n = "of_nat (length xs) :: u32"
  have ps: "put_section kind put xs = put_u8 kind @ put_u32 ?len @ sec"
    using assms(2) sec by (simp add: put_section_def)
  have at: "at_off bin off (put_u8 kind)" "at_off bin ?o1 (put_u32 ?len)" "at_off bin ?o2 sec"
    using a by (simp_all add: ps del: sec)
  have "at_off sec 0 (put_u32 ?n)" and "at_off sec (length (put_u32 ?n)) (put_many put xs)"
    using sec by (auto simp: at_off_def)
  note in_sec = this
  have "get_u32 sec 0 = Some (?n, length (put_u32 ?n))"
    using u32.get_put [OF TrueI in_sec(1)] by simp
  moreover have "get_section_items get sec (length xs) (length (put_u32 ?n)) msg = Inr xs"
    using get_many_put [OF assms(1) in_sec(2)] sec by (simp add: get_section_items_def)
  moreover have "unat ?len = length sec" using assms(5) by (simp add: unat_of_nat)
  moreover have "?o2 + length sec \<le> length bin"
    using at_off_bound [OF a] by (simp add: ps)
  ultimately show ?thesis
    using u8.get_put [OF TrueI at(1)] u32.get_put [OF TrueI at(2)] at_off_take [OF at(3)]
    by (simp add: ps add.assoc)
qed

end

definition vote_ok :: "stake_vote \<Rightarrow> bool" where
  "vote_ok v \<longleftrightarrow> field_ok (ticket_id v) \<and> field_ok (voted_hash v) \<and> field_ok (vote_signature v)"

interpretation vote: field_codec put_vote get_vote vote_ok
proof
  fix v :: stake_vote and inp off
  assume ok: "vote_ok v" and a: "at_off inp off (put_vote v)"
  let ?a = "off + length (write_tagged (ticket_id v))" let ?b = "?a + length (put_u64 (voted_height v))"
  let ?c = "?b + length (write_tagged (voted_hash v))" let ?f = "if approve v then 1 else 0 :: u8"
  let ?d = "?c + length (put_u8 ?f)"
  have at: "at_off inp off (write_tagged (ticket_id v))" "at_off inp ?a (put_u64 (voted_height v))"
      "at_off inp ?b (write_tagged (voted_hash v))" "at_off inp ?c (put_u8 ?f)"
      "at_off inp ?d (write_tagged (vote_signature v))"
    using a unfolding put_vote_def at_off_append by blast+
  show "get_vote inp off = Some (v, off + length (put_vote v))"
    using ok tagged.get_put [OF _ at(1)] u64.get_put [OF TrueI at(2)] tagged.get_put [OF _ at(3)]
      u8.get_put [OF TrueI at(4)] tagged.get_put [OF _ at(5)]
    by (cases "approve v") (simp_all add: get_vote_def put_vote_def vote_ok_def add.assoc)
qed

interpretation slash: field_codec put_slash get_slash "\<lambda>e. vote_ok (ev_a e) \<and> vote_ok (ev_b e)"
proof
  fix e :: slash_evidence and inp off
  assume ok: "vote_ok (ev_a e) \<and> vote_ok (ev_b e)" and a: "at_off inp off (put_slash e)"
  then have at: "at_off inp off (put_vote (ev_a e))" "at_off inp (off + length (put_vote (ev_a e))) (put_vote (ev_b e))"
    by (simp_all add: put_slash_def)
  show "get_slash inp off = Some (e, off + length (put_slash e))"
    using ok vote.get_put [OF _ at(1)] vote.get_put [OF _ at(2)] by (simp add: get_slash_def put_slash_def)
qed

interpretation blk_head: field_codec put_block_header get_block_header
  "\<lambda>h. field_ok (hd_previous_hash h) \<and> field_ok (hd_merkle_root h)"
proof
  fix h :: block_header and inp off
  assume ok: "field_ok (hd_previous_hash h) \<and> field_ok (hd_merkle_root h)" and a: "at_off inp off (put_block_header h)"
  let ?a = "off + length (put_u64 (hd_height h))" let ?b = "?a + length (write_tagged (hd_previous_hash h))"
  let ?c = "?b + length (put_u64 (hd_timestamp h))" let ?d = "?c + length (put_u64 (hd_nonce h))"
  let ?e = "?d + length (put_u64 (hd_difficulty_target h))"
  have at: "at_off inp off (put_u64 (hd_height h))" "at_off inp ?a (write_tagged (hd_previous_hash h))"
      "at_off inp ?b (put_u64 (hd_timestamp h))" "at_off inp ?c (put_u64 (hd_nonce h))"
      "at_off inp ?d (put_u64 (hd_difficulty_target h))" "at_off inp ?e (write_tagged (hd_merkle_root h))"
    using a unfolding put_block_header_def at_off_append by blast+
  show "get_block_header inp off = Some (h, off + length (put_block_header h))"
    using ok u64.get_put [OF TrueI at(1)] tagged.get_put [OF _ at(2)] u64.get_put [OF TrueI at(3)]
      u64.get_put [OF TrueI at(4)] u64.get_put [OF TrueI at(5)] tagged.get_put [OF _ at(6)]
    by (simp add: get_block_header_def put_block_header_def add.assoc)
qed

interpretation tx_count: field_codec "\<lambda>n. put_u32 (of_nat n)" "get_count kMaxBlockTxs" "\<lambda>n. n \<le> kMaxBlockTxs"
  by (rule count_codec) (simp add: kMaxBlockTxs_def)

interpretation ext_count: field_codec "\<lambda>n. put_u32 (of_nat n)" "get_count 2" "\<lambda>n. n \<le> 2"
  by (rule count_codec) simp

lemma get_block_txs_ok:
  assumes "list_all (\<lambda>tx. tx_encodable tx \<and> length (encode_tx_v3 cr tx) < 2 ^ 32) txs"
    and "at_off bin off (put_many (put_block_tx cr) txs)"
  shows "get_block_txs cr (length txs) bin off = Inr (txs, off + length (put_many (put_block_tx cr) txs))"
  using assms
proof (induction txs arbitrary: off)
  case (Cons tx txs)
  let ?t = "encode_tx_v3 cr tx" and ?n = "of_nat (length (encode_tx_v3 cr tx)) :: u32"
  let ?o = "off + length (put_u32 ?n)"
  have at: "at_off bin off (put_u32 ?n)" "at_off bin ?o ?t"
      "at_off bin (?o + length ?t) (put_many (put_block_tx cr) txs)"
    using Cons.prems(2) by (simp_all add: put_many_def put_block_tx_def [of cr tx] add.assoc Let_def)
  have "unat ?n = length ?t" using Cons.prems(1) by (simp add: unat_of_nat)
  moreover have "?t \<noteq> []" by (simp add: encode_tx_v3_def Let_def)
  ultimately show ?case
    using Cons.prems(1) u32.get_put [OF TrueI at(1)] at_off_take [OF at(2)] at_off_bound [OF at(2)]
      decode_encode_tx [of tx cr] Cons.IH [OF _ at(3)]
    by (simp add: put_many_def put_block_tx_def [of cr tx] add.assoc Let_def)
qed (simp add: put_many_def)

definition section_ok :: "('a \<Rightarrow> bool) \<Rightarrow> ('a \<Rightarrow> string) \<Rightarrow> 'a list \<Rightarrow> bool" where
  "section_ok ok put xs \<longleftrightarrow> list_all ok xs \<and> length xs \<le> kMaxExtItems \<and> length (put_many put xs) < 2 ^ 31"

lemma section_okD:
  assumes "section_ok ok put xs"
  shows "list_all ok xs" and "length xs \<le> kMaxExtItems" and "unat (of_nat (length xs) :: u32) = length xs"
    and "length (put_u32 (of_nat (length xs)) @ put_many put xs) < 2 ^ 32"
    and "xs \<noteq> [] \<Longrightarrow> (of_nat (length xs) :: u32) \<noteq> 0"
proof -
  show *: "unat (of_nat (length xs) :: u32) = length xs"
    using assms by (simp add: section_ok_def kMaxExtItems_def unat_of_nat)
  show "xs \<noteq> [] \<Longrightarrow> (of_nat (length xs) :: u32) \<noteq> 0"
    using * by (metis length_0_conv unat_0)
qed (use assms in \<open>simp_all add: section_ok_def length_put_int\<close>)

lemma get_sections_votes:
  assumes "section_ok vote_ok put_vote vs" and "vs \<noteq> []" and "at_off bin off (put_section kExtVotes put_vote vs)"
  shows "get_sections (Suc e) bin off 0 ([], []) =
    get_sections e bin (off + length (put_section kExtVotes put_vote vs)) kExtVotes (vs, [])"
proof -
  note ok = section_okD [OF assms(1)]
  from vote.section_read [OF ok(1) assms(2) ok(2) refl ok(4) assms(3), of "''invalid block v3 vote''"]
  show ?thesis
    using ok(2,3,5) assms(2) by (auto simp: kExtVotes_def Let_def)
qed

lemma get_sections_slashes:
  assumes "section_ok (\<lambda>e. vote_ok (ev_a e) \<and> vote_ok (ev_b e)) put_slash sl" and "sl \<noteq> []"
    and "at_off bin off (put_section kExtSlashes put_slash sl)" and "last_kind < kExtSlashes"
  shows "get_sections (Suc 0) bin off last_kind (vs, []) =
    Inr ((vs, sl), off + length (put_section kExtSlashes put_slash sl))"
proof -
  note ok = section_okD [OF assms(1)]
  from slash.section_read [OF ok(1) assms(2) ok(2) refl ok(4) assms(3), of "''invalid block v3 slash''"]
  show ?thesis
    using ok(2,3,5) assms(2,4) by (auto simp: kExtVotes_def kExtSlashes_def Let_def)
qed

lemma put_section_Nil [simp]: "put_section kind put [] = []"
  by (simp add: put_section_def)

lemma get_sections_ok:
  assumes "section_ok vote_ok put_vote vs" and "section_ok (\<lambda>e. vote_ok (ev_a e) \<and> vote_ok (ev_b e)) put_slash sl"
    and "at_off bin off (put_section kExtVotes put_vote vs @ put_section kExtSlashes put_slash sl)"
  shows "get_sections ((if vs = [] then 0 else 1) + (if sl = [] then 0 else 1)) bin off 0 ([], []) =
    Inr ((vs, sl), off + length (put_section kExtVotes put_vote vs @ put_section kExtSlashes put_slash sl))"
  using get_sections_votes [OF assms(1)] get_sections_slashes [OF assms(2)] assms(3)
  by (cases "vs = []"; cases "sl = []")
    (simp_all add: kExtVotes_def kExtSlashes_def add.assoc del: get_sections.simps(2))

definition block_encodable :: "crypto \<Rightarrow> block \<Rightarrow> bool" where
  "block_encodable cr b \<longleftrightarrow>
     field_ok (hd_previous_hash (header b)) \<and> field_ok (hd_merkle_root (header b))
     \<and> length (transactions b) \<le> kMaxBlockTxs
     \<and> list_all (\<lambda>tx. tx_encodable tx \<and> length (encode_tx_v3 cr tx) < 2 ^ 32) (transactions b)
     \<and> section_ok vote_ok put_vote (votes b)
     \<and> section_ok (\<lambda>e. vote_ok (ev_a e) \<and> vote_ok (ev_b e)) put_slash (slashes b)
     \<and> \<not> (transactions b = [] \<and> hd_height (header b) \<noteq> 0)"

lemma ext_count_word:
  "((if a then 0 else 1) + (if b then 0 else 1) :: u32) = of_nat ((if a then 0 else 1) + (if b then 0 else 1))"
  by simp

lemma decode_encode_block:
  assumes ok: "block_encodable cr b"
  shows "decode_block_v3 cr (encode_block_v3 cr b) = Inr b"
proof -
  let ?e = "(if votes b = [] then 0 else 1) + (if slashes b = [] then 0 else 1) :: nat"
  let ?H = "put_block_header (header b)" and ?N = "put_u32 (of_nat (length (transactions b)))"
  let ?T = "put_many (put_block_tx cr) (transactions b)" and ?E = "put_u32 (of_nat ?e)"
  let ?S = "put_section kExtVotes put_vote (votes b) @ put_section kExtSlashes put_slash (slashes b)"
  define s bin where "s = block_body_v3 cr b" and "bin = encode_block_v3 cr b"
  have s: "s = ''BLV3'' @ ?H @ ?N @ ?T @ ?E @ ?S"
    unfolding s_def block_body_v3_def ext_count_word by simp
  have bin: "bin = s @ put_u32 (checksum32 cr s)"
    by (simp add: bin_def s_def encode_block_v3_def Let_def)
  have "at_off bin 4 (?H @ ?N @ ?T @ ?E @ ?S)"
    by (rule at_off_after [of _ "''BLV3''" _ "put_u32 (checksum32 cr s)"], subst bin, subst s)
      (simp_all only: append_assoc, simp)
  then have at: "at_off bin 4 ?H" "at_off bin (4 + length ?H) ?N"
    "at_off bin (4 + length ?H + length ?N) ?T" "at_off bin (4 + length ?H + length ?N + length ?T) ?E"
    "at_off bin (4 + length ?H + length ?N + length ?T + length ?E) ?S"
    unfolding at_off_append by blast+
  note okD = ok [unfolded block_encodable_def]
  have T: "get_block_txs cr (length (transactions b)) bin (4 + length ?H + length ?N) =
      Inr (transactions b, 4 + length ?H + length ?N + length ?T)"
    by (rule get_block_txs_ok [OF _ at(3)]) (use okD in blast)
  have "get_sections ?e bin (4 + length ?H + length ?N + length ?T + length ?E) 0 ([], []) =
      Inr ((votes b, slashes b), 4 + length ?H + length ?N + length ?T + length ?E + length ?S)"
    by (rule get_sections_ok [OF _ _ at(5)]) (use okD in blast)+
  moreover have "4 + length ?H + length ?N + length ?T + length ?E + length ?S = length s"
    by (subst s) (simp only: length_append list.size)
  ultimately have S: "get_sections ?e bin (4 + length ?H + length ?N + length ?T + length ?E) 0 ([], []) =
      Inr ((votes b, slashes b), length s)" by simp
  have E: "get_count 2 bin (4 + length ?H + length ?N + length ?T) =
      Some (?e, 4 + length ?H + length ?N + length ?T + length ?E)"
    by (rule ext_count.get_put [OF _ at(4)]) simp
  have magic: "\<not> (length bin < 8 \<or> take 4 bin \<noteq> ''BLV3'')"
    using bin s by (auto simp: length_put_int)
  show ?thesis
    unfolding bin_def [symmetric] decode_block_v3_def if_not_P [OF magic]
    using okD T S E check_tail_ok [OF bin] blk_head.get_put [OF _ at(1)] tx_count.get_put [OF _ at(2)]
    by (simp split del: if_split) simp
qed

text \<open>A block without votes and slashes weighs exactly what it takes on the wire.\<close>

lemma length_put_many: "length (put_many put xs) = sum_list (map (\<lambda>x. length (put x)) xs)"
  by (simp add: put_many_def length_concat comp_def)

lemma block_weight_no_votes:
  assumes "votes b = []" and "slashes b = []"
  shows "block_weight cr b = length (encode_block_v3 cr b)"
proof -
  have "(\<lambda>x. length (put_block_tx cr x)) = tx_weight cr"
    by (auto simp: put_block_tx_def tx_weight_def length_put_int Let_def)
  then show ?thesis
    using assms
    by (simp add: block_weight_def encode_block_v3_def block_body_v3_def put_block_header_def
        put_section_def stake_extension_weight_def length_put_int length_put_many Let_def)
qed

section \<open>Base64\<close>

lemma b64_rev_nth [simp]: "k < 64 \<Longrightarrow> b64_rev (kB64 ! k) = Some k"
  unfolding b64_rev_def by (subst map_of_zip_nth) (simp_all add: kB64_def)

lemma kB64_not_pad: "k < 64 \<Longrightarrow> kB64 ! k \<noteq> CHR ''=''"
proof -
  assume "k < 64"
  then have "kB64 ! k \<in> set kB64" by (intro nth_mem) (simp add: kB64_def)
  then show ?thesis by (auto simp: kB64_def)
qed

lemma base64_encode_Nil_iff [simp]: "base64_encode s = [] \<longleftrightarrow> s = []"
  by (cases s rule: base64_encode.cases) (auto simp: Let_def)

lemma base64_digits_sum:
  "n = m * 64 + r0 \<Longrightarrow> m = k * 64 + r1 \<Longrightarrow> k = l * 64 + r2 \<Longrightarrow> l * 262144 + r2 * 4096 + r1 * 64 + r0 = (n :: nat)"
  by simp

lemma b64_group_div:
  assumes "n < (16777216 :: nat)"
  shows "n div 262144 mod 64 * 262144 + n div 4096 mod 64 * 4096 + n div 64 mod 64 * 64 + n mod 64 = n"
proof -
  have e: "n div 4096 = n div 64 div 64" "n div 262144 = n div 64 div 64 div 64"
    by (simp_all add: div_mult2_eq [symmetric])
  have "n div 262144 < 64" using assms by (simp add: div_less_iff_less_mult)
  then have l: "n div 262144 mod 64 = n div 262144" by simp
  show ?thesis unfolding l unfolding e
    by (rule base64_digits_sum) (rule div_mult_mod_eq [symmetric])+
qed

lemma bytes3:
  assumes "a < 256" and "b < 256" and "c < (256 :: nat)" and "n = a * 65536 + b * 256 + c"
  shows "n < 16777216" and "n div 65536 = a" and "n div 256 mod 256 = b" and "n mod 256 = c"
proof -
  have hi: "n = a * 65536 + (b * 256 + c)" and mid: "n = (a * 256 + b) * 256 + c" using assms(4) by simp_all
  show "n div 65536 = a" unfolding hi using assms by simp
  have "n div 256 = a * 256 + b" by (rule div_nat_eqI) (use assms in simp_all)
  then show "n div 256 mod 256 = b" using assms by simp
  show "n mod 256 = c" unfolding mid mod_mult_self3 using assms(3) by (rule mod_less)
qed (use assms in linarith)

lemma char_of_modI: "n mod 256 = of_char c \<Longrightarrow> char_of (n :: nat) = c"
  by (metis char_of_char char_of_mod_256)

lemma of_char_bound: "(of_char c :: nat) < 256"
  by simp

text \<open>One group of four characters, with its digits abstracted.\<close>

lemma b64_full_group:
  assumes "d0 < 64" "d1 < 64" "d2 < 64" "d3 < 64" and "d0 * 262144 + d1 * 4096 + d2 * 64 + d3 = n"
    and "n div 65536 = of_char a" "n div 256 mod 256 = of_char b" "n mod 256 = of_char c"
  shows "base64_decode ([kB64 ! d0, kB64 ! d1, kB64 ! d2, kB64 ! d3] @ r) =
    (case base64_decode r of None \<Rightarrow> None | Some bs \<Rightarrow> Some ([a, b, c] @ bs))"
  using assms by (simp add: kB64_not_pad b64_bytes_def char_of_modI split: option.split)

lemma b64_last_groups:
  assumes "d0 < 64" "d1 < 64" "d2 < 64" and "d0 * 262144 + d1 * 4096 + d2 * 64 = n"
    and "n div 65536 = of_char a"
  shows "d2 = 0 \<Longrightarrow> base64_decode ([kB64 ! d0, kB64 ! d1] @ ''=='') = Some [a]"
    and "n div 256 mod 256 = of_char b \<Longrightarrow>
      base64_decode ([kB64 ! d0, kB64 ! d1, kB64 ! d2] @ ''='') = Some [a, b]"
  using assms by (simp_all add: kB64_not_pad b64_bytes_def char_of_modI)

lemma base64_round_trip: "base64_decode (base64_encode s) = Some s"
proof (induction s rule: base64_encode.induct)
  case (1 a b c r)
  define n where "n = of_char a * 65536 + of_char b * 256 + (of_char c :: nat)"
  note n = bytes3 [OF of_char_bound of_char_bound of_char_bound n_def]
  show ?case
    unfolding base64_encode.simps(1) Let_def n_def [symmetric]
    by (subst b64_full_group [OF _ _ _ _ b64_group_div [OF n(1)] n(2-4)]) (simp_all add: 1)
next
  case (2 a)
  define n where "n = of_char a * (65536 :: nat)"
  have n: "n < 16777216" "n div 65536 = of_char a"
    using bytes3 [OF of_char_bound [of a], of 0 0 n] by (simp_all add: n_def)
  have "n div 64 = of_char a * 1024" by (rule div_nat_eqI) (simp_all add: n_def)
  then have z: "n div 64 mod 64 = 0" "n mod 64 = 0" by (simp_all add: n_def mod_0_imp_dvd)
  show ?case
    unfolding base64_encode.simps(2) Let_def n_def [symmetric]
    by (rule b64_last_groups(1) [OF _ _ _ _ n(2) z(1)])
      (use b64_group_div [OF n(1)] z in \<open>simp_all only: mult_0 add_0_right mod_less_divisor zero_less_numeral\<close>)
next
  case (3 a b)
  define n where "n = of_char a * 65536 + of_char b * (256 :: nat)"
  have n: "n < 16777216" "n div 65536 = of_char a" "n div 256 mod 256 = of_char b"
    using bytes3 [OF of_char_bound [of a] of_char_bound [of b], of 0 n] by (simp_all add: n_def)
  have "64 dvd n" unfolding n_def by (intro dvd_add dvd_mult) simp_all
  then have z: "n mod 64 = 0" by simp
  show ?case
    unfolding base64_encode.simps(3) Let_def n_def [symmetric]
    by (rule b64_last_groups(2) [OF _ _ _ _ n(2,3)])
      (use b64_group_div [OF n(1)] z in \<open>simp_all only: add_0_right mod_less_divisor zero_less_numeral\<close>)
qed simp

section \<open>Properties\<close>

text \<open>
  Decoding the v3 encoding of a transaction gives the transaction back, with every field,
  input, output, shielded bundle and witness, whenever it respects the limits of the decoder.
\<close>

theorem tx_v3_round_trip:
  assumes "tx_encodable tx"
  shows "decode_tx_v3 cr (encode_tx_v3 cr tx) = Inr tx"
  using assms by (rule decode_encode_tx)

definition sample_spend :: transaction where
  "sample_spend = \<lparr>inputs = [\<lparr>previous_txid = ''0a1b'', output_index = 7, witness = ''w1''\<rparr>,
       \<lparr>previous_txid = ''odd'', output_index = 0, witness = []\<rparr>],
     outputs = [\<lparr>recipient = ''m'', amount = 300\<rparr>], signer = ''ff00'', signer_pubkey = [],
     signature = ''pq=0102'', fee = 3, nonce = 9, shielded = []\<rparr>"

theorem tx_v3_round_trip_witness:
  "decode_tx_v3 sample_crypto (encode_tx_v3 sample_crypto sample_spend) = Inr sample_spend"
  by (rule tx_v3_round_trip)
    (simp add: tx_encodable_def sample_spend_def field_okI kMaxFieldBytes_def kMaxTxIo_def)

text \<open>
  Claim C40. Decoding the v3 encoding of a block gives the block back: header, transactions in order,
  stake votes and slash evidence, whenever it respects the limits of the decoder.
\<close>

theorem block_v3_round_trip:
  assumes "block_encodable cr b"
  shows "decode_block_v3 cr (encode_block_v3 cr b) = Inr b"
  using assms by (rule decode_encode_block)

definition sample_vote :: stake_vote where
  "sample_vote = \<lparr>ticket_id = ''ab:1'', voted_height = 4, voted_hash = ''00'', approve = True, vote_signature = ''pq=aa''\<rparr>"

definition sample_block :: block where
  "sample_block = \<lparr>header = \<lparr>hd_height = 5, hd_previous_hash = ''aa'', hd_timestamp = 60, hd_nonce = 1,
       hd_difficulty_target = 9, hd_merkle_root = ''bb''\<rparr>,
     transactions = [sample_tx 5, sample_spend], votes = [sample_vote],
     slashes = [\<lparr>ev_a = sample_vote, ev_b = sample_vote\<lparr>approve := False\<rparr>\<rparr>]\<rparr>"

theorem block_v3_round_trip_witness:
  "decode_block_v3 sample_crypto (encode_block_v3 sample_crypto sample_block) = Inr sample_block"
proof (rule block_v3_round_trip)
  have "tx_encodable (sample_tx 5)" "tx_encodable sample_spend"
    by (simp_all add: tx_encodable_def sample_tx_def sample_spend_def field_okI kMaxFieldBytes_def kMaxTxIo_def)
  moreover have "length (encode_tx_v3 sample_crypto (sample_tx 5)) < 2 ^ 32"
    using length_write_tagged [of "[]"] length_write_tagged [of "''m''"]
    by (simp add: encode_tx_v3_def tx_body_v3_def sample_tx_def put_many_def put_output_def has_witness_def
        length_put_int Let_def)
  moreover have "length (encode_tx_v3 sample_crypto sample_spend) < 2 ^ 32"
    using length_write_tagged [of "[]"] length_write_tagged [of "''m''"] length_write_tagged [of "''0a1b''"]
      length_write_tagged [of "''odd''"] length_write_tagged [of "''ff00''"] length_write_tagged [of "''pq=0102''"]
    by (simp add: encode_tx_v3_def tx_body_v3_def sample_spend_def put_many_def put_output_def put_input_def
        put_witness_def has_witness_def length_put_int Let_def)
  moreover have "length (put_vote sample_vote) < 100" "length (put_vote (sample_vote\<lparr>approve := False\<rparr>)) < 100"
    using length_write_tagged [of "''ab:1''"] length_write_tagged [of "''00''"] length_write_tagged [of "''pq=aa''"]
    by (simp_all add: put_vote_def sample_vote_def length_put_int)
  ultimately show "block_encodable sample_crypto sample_block"
    by (simp add: block_encodable_def sample_block_def section_ok_def put_many_def put_slash_def vote_ok_def
        sample_vote_def field_okI kMaxFieldBytes_def kMaxBlockTxs_def kMaxExtItems_def)
qed

text \<open>Base64 framing is lossless: decoding an encoded byte string gives the bytes back.\<close>

theorem base64_lossless: "base64_decode (base64_encode s) = Some s"
  by (rule base64_round_trip)

text \<open>
  The consensus weight of a block without staking data is exactly the size of its wire
  encoding, so the weight cap of the chain bounds the bytes a peer has to transfer for it.
\<close>

theorem block_weight_exact:
  assumes "votes b = []" and "slashes b = []"
  shows "block_weight cr b = length (encode_block_v3 cr b)"
  using assms by (rule block_weight_no_votes)

theorem block_weight_exact_witness:
  "block_weight sample_crypto (sample_block\<lparr>votes := [], slashes := []\<rparr>) =
   length (encode_block_v3 sample_crypto (sample_block\<lparr>votes := [], slashes := []\<rparr>))"
  by (rule block_weight_exact) simp_all

end
