(* ===== verification/Script_Policy.thy ===== *)
theory Script_Policy
  imports Wire_V3
begin

text \<open>
  Spend scripts (\<^verbatim>\<open>script.cpp\<close>): the policy language of \<open>sh1\<close> outputs with its parser, the witness
  encoding, the evaluator with its book-keeping of used witness items, and input verification. The
  lemmas characterise the parser by a printer, the evaluator by the meaning of a policy, and show what
  an accepted spend proves.
\<close>

section \<open>Definitions\<close>

definition kMaxScriptBytes :: nat where "kMaxScriptBytes = 4096"
definition kMaxNodes :: nat where "kMaxNodes = 64"
definition kMaxDepth :: nat where "kMaxDepth = 16"
definition kMaxSigs :: nat where "kMaxSigs = 4"
definition kMaxPreimages :: nat where "kMaxPreimages = 4"
definition kMaxPreimageBytes :: nat where "kMaxPreimageBytes = 64"

datatype script_node =
    Pk string
  | Sha3 string
  | After u64
  | Older u64
  | And script_node script_node
  | Or script_node script_node

subsection \<open>Parser\<close>

text \<open>\<^verbatim>\<open>isalnum\<close> of the C locale, or an underscore.\<close>

definition atom_char :: "char \<Rightarrow> bool" where
  "atom_char c \<longleftrightarrow>
     (let n = of_char c :: nat
      in (48 \<le> n \<and> n \<le> 57) \<or> (65 \<le> n \<and> n \<le> 90) \<or> (97 \<le> n \<and> n \<le> 122) \<or> n = 95)"

definition atom :: "string \<Rightarrow> nat \<Rightarrow> (string \<times> nat) res" where
  "atom s i =
     (let a = takeWhile atom_char (drop i s)
      in if a = [] then Inl (''expected atom at '' @ dec i) else Inr (a, i + length a))"

definition expect :: "string \<Rightarrow> char \<Rightarrow> nat \<Rightarrow> nat res" where
  "expect s c i =
     (if i \<ge> length s \<or> s ! i \<noteq> c
      then Inl (''expected '' @ [CHR 0x27, c, CHR 0x27] @ '' at '' @ dec i) else Inr (i + 1))"

definition leaf_node :: "string \<Rightarrow> string \<Rightarrow> script_node res" where
  "leaf_node name arg =
     (if name = ''pk'' then Inr (Pk arg)
      else if name = ''sha3'' then
        (if length arg \<noteq> 128 then Inl ''sha3 arg must be 128 hex chars''
         else if \<not> list_all is_lower_hex_char arg then Inl ''sha3 arg must be lowercase hex''
         else Inr (Sha3 arg))
      else if name = ''after'' \<or> name = ''older'' then
        (if arg = [] \<or> length arg > 12 \<or> (length arg > 1 \<and> arg ! 0 = CHR ''0'') then Inl ''bad number''
         else if \<not> list_all is_digit_char arg then Inl ''bad number''
         else Inr ((if name = ''after'' then After else Older) (of_nat (undec arg))))
      else Inl (''unknown opcode '' @ name))"

text \<open>
  \<open>parse_node s r nodes i\<close> is \<^verbatim>\<open>Parser::node\<close> at depth \<open>kMaxDepth + 1 - r\<close> with the node counter and
  the position; it returns the node, the counter and the position after it.
\<close>

primrec parse_node :: "string \<Rightarrow> nat \<Rightarrow> nat \<Rightarrow> nat \<Rightarrow> (script_node \<times> nat \<times> nat) res" where
  "parse_node s 0 nodes i = Inl ''script too deep''"
| "parse_node s (Suc r) nodes i =
     (if nodes + 1 > kMaxNodes then Inl ''script too many nodes''
      else
        bind_res (atom s i) (\<lambda>(name, i).
        bind_res (expect s (CHR ''('') i) (\<lambda>i.
          if name = ''and'' \<or> name = ''or'' then
            bind_res (parse_node s r (nodes + 1) i) (\<lambda>(a, nodes, i).
            bind_res (expect s (CHR '','') i) (\<lambda>i.
            bind_res (parse_node s r nodes i) (\<lambda>(b, nodes, i).
            bind_res (expect s (CHR '')'') i) (\<lambda>i.
              Inr ((if name = ''and'' then And a b else Or a b), nodes, i)))))
          else
            bind_res (atom s i) (\<lambda>(arg, i).
            bind_res (expect s (CHR '')'') i) (\<lambda>i.
            bind_res (leaf_node name arg) (\<lambda>n. Inr (n, nodes + 1, i)))))))"

definition parse_script :: "string \<Rightarrow> script_node res" where
  "parse_script text =
     (if text = [] \<or> length text > kMaxScriptBytes then Inl ''script size''
      else bind_res (parse_node text (kMaxDepth + 1) 0 0) (\<lambda>(n, nodes, i).
             if i \<noteq> length text then Inl ''trailing script bytes'' else Inr n))"

subsection \<open>Addresses and witnesses\<close>

definition script_address :: "crypto \<Rightarrow> string \<Rightarrow> string" where
  "script_address cr t = ''sh1'' @ to_hex (sha3 cr (''ADD/script/v1|'' @ t))"

definition is_script_address :: "string \<Rightarrow> bool" where
  "is_script_address a \<longleftrightarrow> length a = 3 + 128 \<and> starts_with ''sh1'' a"

definition hash_preimage_hex :: "crypto \<Rightarrow> string \<Rightarrow> string" where
  "hash_preimage_hex cr h = (case hex_to_bytes h of Inl _ \<Rightarrow> [] | Inr b \<Rightarrow> to_hex (sha3 cr b))"

record script_witness =
  w_script :: string
  w_sigs :: "(string \<times> string) list"
  w_preimages :: "string list"

definition encode_witness :: "script_witness \<Rightarrow> string" where
  "encode_witness w =
     w_script w @ '';'' @ dec (length (w_sigs w)) @ '';''
     @ concat (map (\<lambda>(p, s). p @ '':'' @ s @ '';'') (w_sigs w))
     @ dec (length (w_preimages w)) @ '';''
     @ concat (map (\<lambda>x. x @ '';'') (w_preimages w))"

text \<open>The pieces before each semicolon, and whether the string ends with one.\<close>

fun split_semi :: "string \<Rightarrow> string \<Rightarrow> string list \<times> string" where
  "split_semi cur [] = ([], cur)"
| "split_semi cur (c # s) =
     (if c = CHR '';'' then (let (ps, r) = split_semi [] s in (cur # ps, r)) else split_semi (cur @ [c]) s)"

definition wit_num :: "string list \<Rightarrow> nat \<Rightarrow> (nat \<times> string list) option" where
  "wit_num parts mx =
     (case parts of
        [c] # rest \<Rightarrow> if is_digit_char c \<and> char_digit c \<le> mx then Some (char_digit c, rest) else None
      | _ \<Rightarrow> None)"

fun wit_sigs :: "nat \<Rightarrow> string list \<Rightarrow> ((string \<times> string) list \<times> string list) res" where
  "wit_sigs 0 parts = Inr ([], parts)"
| "wit_sigs (Suc n) [] = Inl ''malformed witness''"
| "wit_sigs (Suc n) (p # parts) =
     (if CHR '':'' \<notin> set p then Inl ''malformed sig''
      else bind_res (wit_sigs n parts) (\<lambda>(sg, rest).
        Inr ((takeWhile (\<lambda>c. c \<noteq> CHR '':'') p, tl (dropWhile (\<lambda>c. c \<noteq> CHR '':'') p)) # sg, rest)))"

definition script_is_lower_hex :: "string \<Rightarrow> nat \<Rightarrow> bool" where
  "script_is_lower_hex h mx \<longleftrightarrow>
     \<not> (h = [] \<or> length h > mx \<or> length h mod 2 \<noteq> 0) \<and> list_all is_lower_hex_char h"

fun wit_pres :: "nat \<Rightarrow> string list \<Rightarrow> (string list \<times> string list) res" where
  "wit_pres 0 parts = Inr ([], parts)"
| "wit_pres (Suc n) [] = Inl ''bad preimage''"
| "wit_pres (Suc n) (p # parts) =
     (if \<not> script_is_lower_hex p (2 * kMaxPreimageBytes) then Inl ''bad preimage''
      else bind_res (wit_pres n parts) (\<lambda>(ps, rest). Inr (p # ps, rest)))"

definition decode_witness :: "string \<Rightarrow> script_witness res" where
  "decode_witness s =
     (let (parts, r) = split_semi [] s in
      if r \<noteq> [] \<or> length parts < 3 then Inl ''malformed witness''
      else
        bind_res (need ''bad sig count'' (wit_num (tl parts) kMaxSigs)) (\<lambda>(ns, rest).
        bind_res (wit_sigs ns rest) (\<lambda>(sg, rest).
        bind_res (need ''bad preimage count'' (wit_num rest kMaxPreimages)) (\<lambda>(np, rest).
        bind_res (wit_pres np rest) (\<lambda>(ps, rest).
          if rest \<noteq> [] then Inl ''trailing witness items''
          else Inr \<lparr>w_script = hd parts, w_sigs = sg, w_preimages = ps\<rparr>)))))"

subsection \<open>Evaluation\<close>

definition sighash :: "crypto \<Rightarrow> transaction \<Rightarrow> string" where
  "sighash cr tx = ''ADD/sighash/v1|'' @ hash_transaction cr tx"

record spend_context =
  ctx_sighash :: string
  spend_height :: u64
  utxo_height :: u64

text \<open>
  \<open>key_matches\<close> is the test of the \<^verbatim>\<open>Pk\<close> loop for one signature. The memo of checked signatures in
  \<^verbatim>\<open>Eval\<close> stores verdicts of the pure verifier, so the model calls the verifier.
\<close>

definition key_matches :: "crypto \<Rightarrow> spend_context \<Rightarrow> string \<Rightarrow> string \<times> string \<Rightarrow> bool" where
  "key_matches cr ctx addr = (\<lambda>(pk, sg).
     address_binds_pubkey cr addr (infer_sig_scheme_from_pubkey_hex cr pk) pk = Inr ()
     \<and> verify_message_signature_hybrid_uncached cr pk (ctx_sighash ctx) sg)"

text \<open>The first index that satisfies a test, as the loops of \<^verbatim>\<open>eval\<close> find it.\<close>

fun first_index :: "('a \<Rightarrow> bool) \<Rightarrow> nat \<Rightarrow> 'a list \<Rightarrow> nat option" where
  "first_index P k [] = None"
| "first_index P k (x # xs) = (if P x then Some k else first_index P (Suc k) xs)"

primrec eval_script ::
    "crypto \<Rightarrow> spend_context \<Rightarrow> script_witness \<Rightarrow> script_node \<Rightarrow> bool list \<times> bool list \<Rightarrow> bool \<times> bool list \<times> bool list" where
  "eval_script cr ctx w (Pk addr) used =
     (case first_index (key_matches cr ctx addr) 0 (w_sigs w) of
        None \<Rightarrow> (False, used)
      | Some k \<Rightarrow> (True, (fst used)[k := True], snd used))"
| "eval_script cr ctx w (Sha3 h) used =
     (case first_index (\<lambda>p. p = h) 0 (map (hash_preimage_hex cr) (w_preimages w)) of
        None \<Rightarrow> (False, used)
      | Some k \<Rightarrow> (True, fst used, (snd used)[k := True]))"
| "eval_script cr ctx w (After n) used = (spend_height ctx \<ge> n, used)"
| "eval_script cr ctx w (Older n) used =
     (spend_height ctx \<ge> utxo_height ctx \<and> spend_height ctx - utxo_height ctx \<ge> n, used)"
| "eval_script cr ctx w (And a b) used =
     (let (x, used) = eval_script cr ctx w a used; (y, used) = eval_script cr ctx w b used in (x \<and> y, used))"
| "eval_script cr ctx w (Or a b) used =
     (let (x, used) = eval_script cr ctx w a used; (y, used) = eval_script cr ctx w b used in (x \<or> y, used))"

definition verify_input :: "crypto \<Rightarrow> string \<Rightarrow> string \<Rightarrow> spend_context \<Rightarrow> unit res" where
  "verify_input cr owner wit ctx =
     (if \<not> is_script_address owner then Inl ''input is not a script output''
      else
        bind_res (decode_witness wit) (\<lambda>w.
        if script_address cr (w_script w) \<noteq> owner then Inl ''witness script does not match output''
        else
          bind_res (parse_script (w_script w)) (\<lambda>root.
          let (ok, sig_used, pre_used) =
                eval_script cr ctx w root
                  (replicate (length (w_sigs w)) False, replicate (length (w_preimages w)) False)
          in if \<not> ok then Inl ''script not satisfied''
             else if False \<in> set sig_used then Inl ''unused witness signature''
             else if False \<in> set pre_used then Inl ''unused witness preimage''
             else Inr ())))"

section \<open>Lemmas: decimal numbers\<close>

lemma undec_append [simp]: "undec (s @ [c]) = 10 * undec s + char_digit c"
  by (simp add: undec_def)

lemma char_digit_less: "is_digit_char c \<Longrightarrow> char_digit c < 10"
  unfolding is_digit_char_def char_digit_def by arith

lemma digit_char_0: "digit_char 0 = CHR ''0''"
proof -
  have "(of_char (CHR ''0'') :: nat) = 48" by simp
  then show ?thesis unfolding digit_char_def by (metis add_0_right char_of_char)
qed

lemma digit_char_digit: "is_digit_char c \<Longrightarrow> digit_char (char_digit c) = c"
  by (simp add: is_digit_char_def char_digit_def digit_char_def)

lemma undec_bound: "list_all is_digit_char s \<Longrightarrow> undec s < 10 ^ length s"
proof (induction s rule: rev_induct)
  case (snoc c s)
  then show ?case using char_digit_less [of c] by simp
qed (simp add: undec_def)

lemma undec_pos: "list_all is_digit_char s \<Longrightarrow> s \<noteq> [] \<Longrightarrow> s ! 0 \<noteq> CHR ''0'' \<Longrightarrow> 0 < undec s"
proof (induction s rule: rev_induct)
  case (snoc c s)
  show ?case
  proof (cases "s = []")
    case True
    have "char_digit c \<noteq> 0"
    proof
      assume "char_digit c = 0"
      then have "c = digit_char 0" using digit_char_digit [of c] snoc.prems(1) by simp
      with snoc.prems(3) True show False by (simp add: digit_char_0)
    qed
    with True show ?thesis by (simp add: undec_def)
  next
    case False
    with snoc show ?thesis by (simp add: nth_append)
  qed
qed simp

lemma dec_undec:
  "list_all is_digit_char s \<Longrightarrow> s \<noteq> [] \<Longrightarrow> (length s > 1 \<Longrightarrow> s ! 0 \<noteq> CHR ''0'') \<Longrightarrow> dec (undec s) = s"
proof (induction s rule: rev_induct)
  case (snoc c s)
  note d = char_digit_less [of c] digit_char_digit [of c]
  show ?case
  proof (cases "s = []")
    case True
    then show ?thesis using snoc.prems(1) d by (simp add: undec_def dec.simps)
  next
    case False
    then have "s ! 0 \<noteq> CHR ''0''" using snoc.prems(3) by (cases s) (simp_all add: nth_append)
    then have "0 < undec s" and "dec (undec s) = s"
      using snoc False undec_pos [of s] by (simp_all add: nth_append)
    then show ?thesis
      using snoc.prems(1) d by (simp add: dec.simps [of "10 * undec s + char_digit c"])
  qed
qed simp

lemma length_dec: "n < 10 ^ k \<Longrightarrow> 0 < k \<Longrightarrow> length (dec n) \<le> k"
proof (induction n arbitrary: k rule: dec.induct)
  case (1 n)
  show ?case
  proof (cases "n < 10")
    case True
    then show ?thesis using "1.prems"(2) by (simp add: dec.simps [of n])
  next
    case False
    then obtain j where k: "k = Suc j" "0 < j" using "1.prems" by (cases k; cases "k - 1") auto
    have "n div 10 < 10 ^ j" using "1.prems"(1) k by (simp add: div_less_iff_less_mult)
    then show ?thesis using "1.IH" [OF False, of j] False k by (simp add: dec.simps [of n])
  qed
qed

lemma dec_no_leading_zero: "0 < n \<Longrightarrow> dec n ! 0 \<noteq> CHR ''0''"
proof (induction n rule: dec.induct)
  case (1 n)
  show ?case
  proof (cases "n < 10")
    case True
    have "digit_char n \<noteq> digit_char 0" using True "1.prems" char_digit_digit [of n] char_digit_digit [of 0] by force
    with True show ?thesis by (simp add: dec.simps [of n] digit_char_0)
  next
    case False
    then show ?thesis using "1.IH" by (simp add: dec.simps [of n] nth_append)
  qed
qed

lemma dec_0 [simp]: "dec 0 = ''0''"
  by (simp add: dec.simps digit_char_0)

section \<open>Lemmas: the parser and the printer\<close>

primrec show_script :: "script_node \<Rightarrow> string" where
  "show_script (Pk a) = ''pk('' @ a @ '')''"
| "show_script (Sha3 h) = ''sha3('' @ h @ '')''"
| "show_script (After n) = ''after('' @ to_string n @ '')''"
| "show_script (Older n) = ''older('' @ to_string n @ '')''"
| "show_script (And a b) = ''and('' @ show_script a @ '','' @ show_script b @ '')''"
| "show_script (Or a b) = ''or('' @ show_script a @ '','' @ show_script b @ '')''"

primrec script_ok :: "script_node \<Rightarrow> bool" where
  "script_ok (Pk a) \<longleftrightarrow> a \<noteq> [] \<and> list_all atom_char a"
| "script_ok (Sha3 h) \<longleftrightarrow> length h = 128 \<and> list_all is_lower_hex_char h"
| "script_ok (After n) \<longleftrightarrow> unat n < 10 ^ 12"
| "script_ok (Older n) \<longleftrightarrow> unat n < 10 ^ 12"
| "script_ok (And a b) \<longleftrightarrow> script_ok a \<and> script_ok b"
| "script_ok (Or a b) \<longleftrightarrow> script_ok a \<and> script_ok b"

primrec node_count :: "script_node \<Rightarrow> nat" where
  "node_count (Pk a) = 1" | "node_count (Sha3 h) = 1" | "node_count (After n) = 1" | "node_count (Older n) = 1"
| "node_count (And a b) = 1 + node_count a + node_count b"
| "node_count (Or a b) = 1 + node_count a + node_count b"

primrec node_depth :: "script_node \<Rightarrow> nat" where
  "node_depth (Pk a) = 0" | "node_depth (Sha3 h) = 0" | "node_depth (After n) = 0" | "node_depth (Older n) = 0"
| "node_depth (And a b) = 1 + max (node_depth a) (node_depth b)"
| "node_depth (Or a b) = 1 + max (node_depth a) (node_depth b)"

lemma expect_ok: "expect s c i = Inr j \<longleftrightarrow> at_off s i [c] \<and> j = i + 1"
  by (cases "drop i s") (auto simp: expect_def at_off_def not_le nth_via_drop drop_eq_Nil split: if_splits)

lemma atom_ok: "atom s i = Inr (a, j) \<Longrightarrow> at_off s i a \<and> j = i + length a \<and> a \<noteq> [] \<and> list_all atom_char a"
  by (auto simp: atom_def at_off_def Let_def list_all_iff takeWhile_eq_take [symmetric] dest: set_takeWhileD split: if_splits)

lemma atom_at:
  assumes "at_off s i (a @ [c])" and "a \<noteq> []" and "list_all atom_char a" and "\<not> atom_char c"
  shows "atom s i = Inr (a, i + length a)"
proof -
  have "drop i s = (a @ [c]) @ drop (i + length (a @ [c])) s" by (rule at_off_rest [OF assms(1)])
  then have "takeWhile atom_char (drop i s) = a"
    using assms(3,4) by (subst \<open>drop i s = _\<close>) (simp add: takeWhile_append2 list_all_iff)
  with assms(2) show ?thesis by (simp add: atom_def)
qed

lemma digit_atom: "is_digit_char c \<Longrightarrow> atom_char c"
  by (simp add: is_digit_char_def atom_char_def Let_def)

lemma hex_atom: "is_lower_hex_char c \<Longrightarrow> atom_char c"
  by (auto simp: is_lower_hex_char_def atom_char_def Let_def less_eq_char_def)

text \<open>The text of a leaf and its acceptance.\<close>

fun leaf_parts :: "script_node \<Rightarrow> (string \<times> string) option" where
  "leaf_parts (Pk a) = Some (''pk'', a)"
| "leaf_parts (Sha3 h) = Some (''sha3'', h)"
| "leaf_parts (After n) = Some (''after'', to_string n)"
| "leaf_parts (Older n) = Some (''older'', to_string n)"
| "leaf_parts _ = None"

lemma to_string_digits: "list_all is_digit_char (to_string n)"
  by (simp add: to_string_def list_all_iff dec_digits)

lemma number_ok:
  assumes "unat n < 10 ^ 12"
  shows "to_string n \<noteq> []" and "length (to_string n) \<le> 12"
    and "\<not> (Suc 0 < length (to_string n) \<and> to_string n ! 0 = CHR ''0'')"
proof -
  show "length (to_string n) \<le> 12" using length_dec [OF assms] by (simp add: to_string_def)
  have "length (dec (unat n)) > 1 \<Longrightarrow> dec (unat n) ! 0 \<noteq> CHR ''0''"
    using dec_no_leading_zero [of "unat n"] by (cases "unat n = 0") auto
  then show "\<not> (Suc 0 < length (to_string n) \<and> to_string n ! 0 = CHR ''0'')" by (auto simp: to_string_def)
qed (simp add: to_string_def)

lemma opcode_chars:
  "list_all atom_char ''pk''" "list_all atom_char ''sha3''" "list_all atom_char ''after''" "list_all atom_char ''older''"
  "list_all atom_char ''and''" "list_all atom_char ''or''"
  by (simp_all add: atom_char_def)

lemma leaf_node_ok:
  assumes "leaf_parts n = Some (name, arg)" and "script_ok n"
  shows "leaf_node name arg = Inr n" and "arg \<noteq> []" and "list_all atom_char arg"
    and "show_script n = name @ ''('' @ arg @ '')''" and "name \<noteq> ''and'' \<and> name \<noteq> ''or''"
    and "node_count n = 1" and "name \<noteq> []" and "list_all atom_char name"
proof -
  have undec: "undec (to_string m) = unat m" for m :: u64 by (simp add: to_string_def)
  show "leaf_node name arg = Inr n"
    using assms
  proof (cases n)
    case (After m)
    with assms number_ok [of m] to_string_digits [of m] show ?thesis by (clarsimp simp: leaf_node_def undec not_less)
  next
    case (Older m)
    with assms number_ok [of m] to_string_digits [of m] show ?thesis by (clarsimp simp: leaf_node_def undec not_less)
  qed (auto simp: leaf_node_def)
  show "arg \<noteq> []" using assms number_ok(1) by (cases n) auto
  have "list_all atom_char (to_string m)" for m :: u64
    using to_string_digits [of m] by (auto simp: list_all_iff digit_atom)
  then show "list_all atom_char arg"
    using assms by (cases n) (auto simp: list_all_iff hex_atom)
  have nm: "name \<in> {''pk'', ''sha3'', ''after'', ''older''}" using assms(1) by (cases n) auto
  then show "name \<noteq> []" "name \<noteq> ''and'' \<and> name \<noteq> ''or''" by auto
  show "list_all atom_char name" using nm opcode_chars(1-4) by (elim insertE) (simp_all only: empty_iff)
  show "show_script n = name @ ''('' @ arg @ '')''" "node_count n = 1"
    using assms(1) by (cases n; auto)+
qed

lemma leaf_node_sound:
  assumes "leaf_node name arg = Inr n" and "arg \<noteq> []" and "list_all atom_char arg"
  shows "leaf_parts n = Some (name, arg) \<and> script_ok n"
proof -
  have num: "to_string (of_nat (undec arg) :: u64) = arg \<and> unat (of_nat (undec arg) :: u64) < 10 ^ 12"
    if "list_all is_digit_char arg" "length arg \<le> 12" "length arg > 1 \<Longrightarrow> arg ! 0 \<noteq> CHR ''0''"
  proof -
    have "undec arg < 10 ^ length arg" by (rule undec_bound [OF that(1)])
    also have "\<dots> \<le> 10 ^ 12" using that(2) by (intro power_increasing) auto
    finally have "unat (of_nat (undec arg) :: u64) = undec arg" "undec arg < 10 ^ 12"
      by (simp_all add: unat_of_nat_u64)
    then show ?thesis using dec_undec [OF that(1) assms(2) that(3)] by (simp add: to_string_def)
  qed
  show ?thesis
    using assms num by (auto simp: leaf_node_def not_less split: if_splits)
qed

lemma parse_leaf:
  assumes l: "leaf_parts n = Some (name, arg)" and ok: "script_ok n" and le: "nodes + 1 \<le> kMaxNodes"
    and at: "at_off s i (show_script n)"
  shows "parse_node s (Suc r) nodes i = Inr (n, nodes + node_count n, i + length (show_script n))"
proof -
  note L = leaf_node_ok [OF l ok]
  let ?o = "i + length name + 1 + length arg"
  have ats: "at_off s i (name @ ''('')" "at_off s (i + length name) ''(''" "at_off s (i + length name + 1) (arg @ '')'')" "at_off s ?o '')''"
    using at unfolding L(4) at_off_append by (simp_all add: add.assoc)
  have "atom s i = Inr (name, i + length name)" "atom s (i + length name + 1) = Inr (arg, ?o)"
    using atom_at [OF ats(1) L(7,8)] atom_at [OF ats(3) L(2,3)] by (simp_all add: atom_char_def)
  moreover have "expect s (CHR ''('') (i + length name) = Inr (i + length name + 1)" "expect s (CHR '')'') ?o = Inr (?o + 1)"
    using ats by (simp_all add: expect_ok)
  ultimately show ?thesis using L le by simp
qed

lemma parse_binary:
  assumes IHa: "\<And>nodes i. nodes + node_count a \<le> kMaxNodes \<Longrightarrow> at_off s i (show_script a) \<Longrightarrow>
      parse_node s r nodes i = Inr (a, nodes + node_count a, i + length (show_script a))"
    and IHb: "\<And>nodes i. nodes + node_count b \<le> kMaxNodes \<Longrightarrow> at_off s i (show_script b) \<Longrightarrow>
      parse_node s r nodes i = Inr (b, nodes + node_count b, i + length (show_script b))"
    and le: "nodes + 1 + node_count a + node_count b \<le> kMaxNodes"
    and nm: "name = ''and'' \<or> name = ''or''"
    and at: "at_off s i (name @ ''('' @ show_script a @ '','' @ show_script b @ '')'')"
  shows "parse_node s (Suc r) nodes i =
    Inr (if name = ''and'' then And a b else Or a b, nodes + 1 + node_count a + node_count b,
      i + length (name @ ''('' @ show_script a @ '','' @ show_script b @ '')''))"
proof -
  let ?o = "i + length name + 1 + length (show_script a)" let ?p = "?o + 1 + length (show_script b)"
  have ats: "at_off s i (name @ ''('')" "at_off s (i + length name) ''(''" "at_off s (i + length name + 1) (show_script a)"
      "at_off s ?o '',''" "at_off s (?o + 1) (show_script b)" "at_off s ?p '')''"
    using at unfolding at_off_append by (simp_all add: add.assoc)
  have "name \<noteq> []" "list_all atom_char name" using nm opcode_chars by auto
  then have "atom s i = Inr (name, i + length name)"
    using atom_at [OF ats(1)] by (simp add: atom_char_def)
  moreover have "expect s (CHR ''('') (i + length name) = Inr (i + length name + 1)" "expect s (CHR '','') ?o = Inr (?o + 1)"
      "expect s (CHR '')'') ?p = Inr (?p + 1)"
    using ats by (simp_all add: expect_ok)
  ultimately show ?thesis
    using IHa [OF _ ats(3), of "nodes + 1"] IHb [OF _ ats(5), of "nodes + 1 + node_count a"] le nm
    by auto
qed

lemma parse_node_complete:
  assumes "script_ok n" and "node_depth n < r" and "nodes + node_count n \<le> kMaxNodes"
    and "at_off s i (show_script n)"
  shows "parse_node s r nodes i = Inr (n, nodes + node_count n, i + length (show_script n))"
  using assms
proof (induction n arbitrary: r nodes i)
  case (And a b)
  then obtain r' where r: "r = Suc r'" "node_depth a < r'" "node_depth b < r'" by (cases r) auto
  show ?case
    using parse_binary [of a s r' b nodes "''and''" i] And r by simp
next
  case (Or a b)
  then obtain r' where r: "r = Suc r'" "node_depth a < r'" "node_depth b < r'" by (cases r) auto
  show ?case
    using parse_binary [of a s r' b nodes "''or''" i] Or r by simp
next
  case (Pk a)
  then show ?case using parse_leaf [of "Pk a" _ _ nodes s i "r - 1"] by (cases r) auto
next
  case (Sha3 h)
  then show ?case using parse_leaf [of "Sha3 h" _ _ nodes s i "r - 1"] by (cases r) auto
next
  case (After x)
  then show ?case using parse_leaf [of "After x" _ _ nodes s i "r - 1"] by (cases r) auto
next
  case (Older x)
  then show ?case using parse_leaf [of "Older x" _ _ nodes s i "r - 1"] by (cases r) auto
qed
lemma parse_leaf_sound:
  assumes "atom s i = Inr (name, k)" and "expect s (CHR ''('') k = Inr k'" and "atom s k' = Inr (arg, l)"
    and "expect s (CHR '')'') l = Inr j" and "leaf_node name arg = Inr n"
  shows "script_ok n \<and> node_depth n = 0 \<and> node_count n = 1 \<and> at_off s i (show_script n) \<and> j = i + length (show_script n)"
proof -
  have A: "at_off s i name \<and> k = i + length name" "at_off s k' arg \<and> l = k' + length arg" "arg \<noteq> []" "list_all atom_char arg"
    using atom_ok [OF assms(1)] atom_ok [OF assms(3)] by auto
  have E: "at_off s k ''('' \<and> k' = k + 1" "at_off s l '')'' \<and> j = l + 1"
    using assms(2,4) by (simp_all add: expect_ok)
  have L: "leaf_parts n = Some (name, arg)" "script_ok n" using leaf_node_sound [OF assms(5) A(3,4)] by auto
  have "node_depth n = 0" using L(1) by (cases n) auto
  moreover have "at_off s i (name @ ''('' @ arg @ '')'')"
    unfolding at_off_append using A E by simp
  ultimately show ?thesis
    using L leaf_node_ok(4,6) [OF L] A E by simp
qed

lemma show_binary:
  "show_script (And a b) = ''and'' @ ''('' @ show_script a @ '','' @ show_script b @ '')''"
  "show_script (Or a b) = ''or'' @ ''('' @ show_script a @ '','' @ show_script b @ '')''"
  by simp_all

lemma parse_node_sound:
  "parse_node s r nodes i = Inr (n, nodes', j) \<Longrightarrow>
     script_ok n \<and> node_depth n < r \<and> nodes' = nodes + node_count n \<and> nodes' \<le> kMaxNodes
     \<and> at_off s i (show_script n) \<and> j = i + length (show_script n)"
proof (induction r arbitrary: nodes i n nodes' j)
  case (Suc r)
  define F where "F = (\<lambda>name k'. if name = ''and'' \<or> name = ''or'' then
            bind_res (parse_node s r (nodes + 1) k') (\<lambda>(a, nodes, i).
            bind_res (expect s (CHR '','') i) (\<lambda>i.
            bind_res (parse_node s r nodes i) (\<lambda>(b, nodes, i).
            bind_res (expect s (CHR '')'') i) (\<lambda>i.
              Inr ((if name = ''and'' then And a b else Or a b), nodes, i)))))
          else
            bind_res (atom s k') (\<lambda>(arg, i).
            bind_res (expect s (CHR '')'') i) (\<lambda>i.
            bind_res (leaf_node name arg) (\<lambda>n. Inr (n, nodes + 1, i)))))"
  have eq: "parse_node s (Suc r) nodes i = (if nodes + 1 > kMaxNodes then Inl ''script too many nodes''
      else bind_res (atom s i) (\<lambda>(name, i). bind_res (expect s (CHR ''('') i) (F name)))"
    by (simp add: F_def)
  from Suc.prems [unfolded eq] obtain name k k' where a: "atom s i = Inr (name, k)" "expect s (CHR ''('') k = Inr k'"
    and le: "nodes + 1 \<le> kMaxNodes" and rest: "F name k' = Inr (n, nodes', j)"
    by (auto simp: bind_res_Inr split: if_split_asm)
  show ?case
  proof (cases "name = ''and'' \<or> name = ''or''")
    case True
    with rest [unfolded F_def] obtain x na ka kb y nb kc where p: "parse_node s r (nodes + 1) k' = Inr (x, na, ka)" "expect s (CHR '','') ka = Inr kb"
      "parse_node s r na kb = Inr (y, nb, kc)" "expect s (CHR '')'') kc = Inr j" "n = (if name = ''and'' then And x y else Or x y)" "nodes' = nb"
      by (auto simp: bind_res_Inr)
    note X = Suc.IH [OF p(1)] and Y = Suc.IH [OF p(3)]
    have n: "show_script n = name @ ''('' @ show_script x @ '','' @ show_script y @ '')''"
        "node_depth n = 1 + max (node_depth x) (node_depth y)" "node_count n = 1 + node_count x + node_count y"
        "script_ok n \<longleftrightarrow> script_ok x \<and> script_ok y"
      using True p(5) by auto
    have "at_off s i (show_script n) \<and> j = i + length (show_script n)"
      unfolding n(1) at_off_append using X Y atom_ok [OF a(1)] a(2) p(2,4) by (simp add: expect_ok)
    then show ?thesis using X Y p(6) n(2-4) by simp
  next
    case False
    with rest [unfolded F_def] obtain arg l where "atom s k' = Inr (arg, l)" "expect s (CHR '')'') l = Inr j" "leaf_node name arg = Inr n" "nodes' = nodes + 1"
      by (auto simp: bind_res_Inr)
    then show ?thesis using parse_leaf_sound [OF a] le by fastforce
  qed
qed simp

lemma at_off_whole: "at_off s 0 p \<Longrightarrow> length p = length s \<Longrightarrow> s = p"
  by (simp add: at_off_def)

lemma show_script_nonempty [simp]: "show_script n \<noteq> []"
  by (cases n) auto

lemma parse_script_iff:
  "parse_script src = Inr n \<longleftrightarrow> src = show_script n \<and> script_ok n \<and> node_depth n \<le> kMaxDepth
     \<and> node_count n \<le> kMaxNodes \<and> length src \<le> kMaxScriptBytes"
proof
  assume "parse_script src = Inr n"
  then obtain nodes where "parse_node src (kMaxDepth + 1) 0 0 = Inr (n, nodes, length src)" "length src \<le> kMaxScriptBytes"
    by (auto simp: parse_script_def bind_res_Inr split: if_splits)
  then show "src = show_script n \<and> script_ok n \<and> node_depth n \<le> kMaxDepth \<and> node_count n \<le> kMaxNodes \<and> length src \<le> kMaxScriptBytes"
    using parse_node_sound [of src "kMaxDepth + 1" 0 0 n nodes "length src"] by (auto intro: at_off_whole)
next
  assume a: "src = show_script n \<and> script_ok n \<and> node_depth n \<le> kMaxDepth \<and> node_count n \<le> kMaxNodes \<and> length src \<le> kMaxScriptBytes"
  then have "parse_node src (kMaxDepth + 1) 0 0 = Inr (n, 0 + node_count n, 0 + length (show_script n))"
    by (intro parse_node_complete) (simp_all add: at_off_def)
  with a show "parse_script src = Inr n" by (auto simp: parse_script_def simp del: parse_node.simps)
qed

section \<open>Lemmas: witnesses\<close>

definition witness_ok :: "script_witness \<Rightarrow> bool" where
  "witness_ok w \<longleftrightarrow> CHR '';'' \<notin> set (w_script w)
     \<and> list_all (\<lambda>(p, s). CHR '':'' \<notin> set p \<and> CHR '';'' \<notin> set p \<and> CHR '';'' \<notin> set s) (w_sigs w)
     \<and> list_all (\<lambda>p. script_is_lower_hex p (2 * kMaxPreimageBytes)) (w_preimages w)
     \<and> length (w_sigs w) \<le> kMaxSigs \<and> length (w_preimages w) \<le> kMaxPreimages"

lemma split_semi_front:
  "CHR '';'' \<notin> set p \<Longrightarrow> split_semi cur (p @ CHR '';'' # s) = (let (ps, r) = split_semi [] s in ((cur @ p) # ps, r))"
  by (induction p arbitrary: cur) auto

lemma split_semi_parts:
  "list_all (\<lambda>p. CHR '';'' \<notin> set p) ps \<Longrightarrow> split_semi [] (concat (map (\<lambda>p. p @ '';'') ps)) = (ps, [])"
  by (induction ps) (simp_all add: split_semi_front)

lemma dec_small: "n < 10 \<Longrightarrow> dec n = [digit_char n]"
  by (simp add: dec.simps)

lemma digit_not_semi: "n < 10 \<Longrightarrow> digit_char n \<noteq> CHR '';''"
  using is_digit_digit [of n] by (auto simp: is_digit_char_def)

lemma lower_hex_not_semi: "script_is_lower_hex p n \<Longrightarrow> CHR '';'' \<notin> set p"
  by (auto simp: script_is_lower_hex_def list_all_iff is_lower_hex_char_def less_eq_char_def)

lemma takeWhile_sep:
  "c \<notin> set p \<Longrightarrow> takeWhile (\<lambda>x. x \<noteq> c) (p @ c # s) = p" "c \<notin> set p \<Longrightarrow> dropWhile (\<lambda>x. x \<noteq> c) (p @ c # s) = c # s"
  by (induction p) auto

lemma wit_sigs_ok:
  "list_all (\<lambda>(p, s). CHR '':'' \<notin> set p) sg \<Longrightarrow>
     wit_sigs (length sg) (map (\<lambda>(p, s). p @ '':'' @ s) sg @ rest) = Inr (sg, rest)"
proof (induction sg)
  case (Cons x sg)
  obtain p s where x: "x = (p, s)" by (cases x)
  with Cons show ?case by (simp add: takeWhile_sep)
qed simp

lemma wit_pres_ok:
  "list_all (\<lambda>p. script_is_lower_hex p (2 * kMaxPreimageBytes)) ps \<Longrightarrow> wit_pres (length ps) ps = Inr (ps, [])"
  by (induction ps) simp_all

lemma decode_encode_witness:
  assumes ok: "witness_ok w"
  shows "decode_witness (encode_witness w) = Inr w"
proof -
  let ?ns = "length (w_sigs w)" and ?np = "length (w_preimages w)"
  let ?parts = "w_script w # [digit_char ?ns] # map (\<lambda>(p, s). p @ '':'' @ s) (w_sigs w) @ [digit_char ?np] # w_preimages w"
  have n: "?ns < 10" "?np < 10" using ok by (simp_all add: witness_ok_def kMaxSigs_def kMaxPreimages_def)
  have e: "encode_witness w = concat (map (\<lambda>p. p @ '';'') ?parts)"
    using n by (simp add: encode_witness_def dec_small comp_def case_prod_unfold)
  have "list_all (\<lambda>p. CHR '';'' \<notin> set p) ?parts"
    using ok n by (auto simp: witness_ok_def list_all_iff digit_not_semi [symmetric] dest: lower_hex_not_semi)
  then have s: "split_semi [] (encode_witness w) = (?parts, [])"
    unfolding e by (rule split_semi_parts)
  have "wit_sigs ?ns (map (\<lambda>(p, s). p @ '':'' @ s) (w_sigs w) @ [digit_char ?np] # w_preimages w) = Inr (w_sigs w, [digit_char ?np] # w_preimages w)"
    by (rule wit_sigs_ok) (use ok in \<open>auto simp: witness_ok_def list_all_iff\<close>)
  moreover have "wit_pres ?np (w_preimages w) = Inr (w_preimages w, [])"
    by (rule wit_pres_ok) (use ok in \<open>simp add: witness_ok_def\<close>)
  ultimately show ?thesis
    using ok n by (simp add: decode_witness_def s wit_num_def witness_ok_def)
qed
section \<open>Lemmas: the meaning of a policy\<close>

primrec script_sat :: "crypto \<Rightarrow> spend_context \<Rightarrow> script_witness \<Rightarrow> script_node \<Rightarrow> bool" where
  "script_sat cr ctx w (Pk addr) \<longleftrightarrow> (\<exists>sg\<in>set (w_sigs w). key_matches cr ctx addr sg)"
| "script_sat cr ctx w (Sha3 h) \<longleftrightarrow> (\<exists>p\<in>set (w_preimages w). hash_preimage_hex cr p = h)"
| "script_sat cr ctx w (After n) \<longleftrightarrow> unat n \<le> unat (spend_height ctx)"
| "script_sat cr ctx w (Older n) \<longleftrightarrow> unat (utxo_height ctx) + unat n \<le> unat (spend_height ctx)"
| "script_sat cr ctx w (And a b) \<longleftrightarrow> script_sat cr ctx w a \<and> script_sat cr ctx w b"
| "script_sat cr ctx w (Or a b) \<longleftrightarrow> script_sat cr ctx w a \<or> script_sat cr ctx w b"

primrec pk_args :: "script_node \<Rightarrow> string set" where
  "pk_args (Pk a) = {a}" | "pk_args (Sha3 h) = {}" | "pk_args (After n) = {}" | "pk_args (Older n) = {}"
| "pk_args (And a b) = pk_args a \<union> pk_args b" | "pk_args (Or a b) = pk_args a \<union> pk_args b"

primrec hash_args :: "script_node \<Rightarrow> string set" where
  "hash_args (Pk a) = {}" | "hash_args (Sha3 h) = {h}" | "hash_args (After n) = {}" | "hash_args (Older n) = {}"
| "hash_args (And a b) = hash_args a \<union> hash_args b" | "hash_args (Or a b) = hash_args a \<union> hash_args b"

lemma first_index_Some: "first_index P j xs = Some k \<Longrightarrow> j \<le> k \<and> k < j + length xs \<and> P (xs ! (k - j))"
proof (induction P j xs rule: first_index.induct)
  case (2 P k' x xs)
  show ?case
  proof (cases "P x")
    case False
    with 2 have "Suc k' \<le> k \<and> k < Suc k' + length xs \<and> P (xs ! (k - Suc k'))" by simp
    then show ?thesis by (simp add: nth_Cons' Suc_diff_le [symmetric])
  qed (use 2 in auto)
qed simp

lemma first_index_None: "first_index P j xs = None \<longleftrightarrow> (\<forall>x\<in>set xs. \<not> P x)"
  by (induction P j xs rule: first_index.induct) auto

lemma eval_script_sat: "fst (eval_script cr ctx w n used) = script_sat cr ctx w n"
proof (induction n arbitrary: used)
  case (Pk a)
  show ?case
  proof (cases "first_index (key_matches cr ctx a) 0 (w_sigs w)")
    case None
    then show ?thesis using first_index_None [THEN iffD1, OF None] by simp
  next
    case (Some k)
    then show ?thesis using first_index_Some [OF Some] by (auto intro!: bexI [of _ "w_sigs w ! k"])
  qed
next
  case (Sha3 h)
  show ?case
  proof (cases "first_index (\<lambda>p. p = h) 0 (map (hash_preimage_hex cr) (w_preimages w))")
    case None
    then show ?thesis using first_index_None [THEN iffD1, OF None] by simp
  next
    case (Some k)
    then show ?thesis using first_index_Some [OF Some] by (auto intro!: bexI [of _ "w_preimages w ! k"])
  qed
next
  case (After n)
  show ?case by (simp add: word_le_nat_alt)
next
  case (Older n)
  show ?case by (auto simp: word_le_nat_alt unat_sub)
next
  case (And a b)
  then show ?case by (simp add: case_prod_unfold Let_def)
next
  case (Or a b)
  then show ?case by (simp add: case_prod_unfold Let_def)
qed

definition used_ok :: "crypto \<Rightarrow> spend_context \<Rightarrow> script_witness \<Rightarrow> string set \<Rightarrow> string set \<Rightarrow> bool list \<times> bool list \<Rightarrow> bool" where
  "used_ok cr ctx w as hs used \<longleftrightarrow>
     length (fst used) = length (w_sigs w) \<and> length (snd used) = length (w_preimages w)
     \<and> (\<forall>k<length (w_sigs w). fst used ! k \<longrightarrow> (\<exists>a\<in>as. key_matches cr ctx a (w_sigs w ! k)))
     \<and> (\<forall>k<length (w_preimages w). snd used ! k \<longrightarrow> hash_preimage_hex cr (w_preimages w ! k) \<in> hs)"

lemma used_ok_mono: "used_ok cr ctx w as hs used \<Longrightarrow> as \<subseteq> as' \<Longrightarrow> hs \<subseteq> hs' \<Longrightarrow> used_ok cr ctx w as' hs' used"
  unfolding used_ok_def by blast

text \<open>An item is marked as used only when the script asked for it and it is valid.\<close>

lemma eval_used_ok:
  assumes "used_ok cr ctx w as hs used" and "pk_args n \<subseteq> as" and "hash_args n \<subseteq> hs"
  shows "used_ok cr ctx w as hs (snd (eval_script cr ctx w n used))"
  using assms
proof (induction n arbitrary: used)
  case (Pk a)
  then show ?case
    by (cases "first_index (key_matches cr ctx a) 0 (w_sigs w)")
      (auto simp: used_ok_def nth_list_update split: if_splits dest!: first_index_Some)
next
  case (Sha3 h)
  then show ?case
    by (cases "first_index (\<lambda>p. p = h) 0 (map (hash_preimage_hex cr) (w_preimages w))")
      (auto simp: used_ok_def nth_list_update split: if_splits dest!: first_index_Some)
qed (simp_all add: case_prod_unfold Let_def)

lemma verify_input_sound:
  assumes "verify_input cr owner wit ctx = Inr ()"
  shows "\<exists>w n. decode_witness wit = Inr w \<and> owner = script_address cr (w_script w) \<and> parse_script (w_script w) = Inr n
    \<and> script_sat cr ctx w n
    \<and> (\<forall>sg\<in>set (w_sigs w). \<exists>a\<in>pk_args n. key_matches cr ctx a sg)
    \<and> (\<forall>p\<in>set (w_preimages w). hash_preimage_hex cr p \<in> hash_args n)"
proof -
  from assms obtain w n where w: "decode_witness wit = Inr w" "owner = script_address cr (w_script w)" "parse_script (w_script w) = Inr n"
    and e: "(let (ok, sig_used, pre_used) = eval_script cr ctx w n
                  (replicate (length (w_sigs w)) False, replicate (length (w_preimages w)) False)
          in if \<not> ok then Inl ''script not satisfied''
             else if False \<in> set sig_used then Inl ''unused witness signature''
             else if False \<in> set pre_used then Inl ''unused witness preimage''
             else Inr ()) = Inr ()"
    by (auto simp: verify_input_def bind_res_Inr simp del: Let_def split: if_split_asm)
  let ?init = "(replicate (length (w_sigs w)) False, replicate (length (w_preimages w)) False)"
  obtain ok su pu where ev: "eval_script cr ctx w n ?init = (ok, su, pu)" by (cases "eval_script cr ctx w n ?init")
  have "used_ok cr ctx w (pk_args n) (hash_args n) (snd (eval_script cr ctx w n ?init))"
    by (rule eval_used_ok) (auto simp: used_ok_def)
  then have u: "used_ok cr ctx w (pk_args n) (hash_args n) (su, pu)" by (simp add: ev)
  from e ev have all: "ok" "False \<notin> set su" "False \<notin> set pu" by (auto split: if_splits)
  then have "script_sat cr ctx w n" using eval_script_sat [of cr ctx w n ?init] ev by simp
  moreover have "\<exists>a\<in>pk_args n. key_matches cr ctx a sg" if "sg \<in> set (w_sigs w)" for sg
  proof -
    from that obtain k where k: "k < length (w_sigs w)" "sg = w_sigs w ! k" by (auto simp: in_set_conv_nth)
    then have "su ! k" using all(2) u nth_mem [of k su] by (cases "su ! k") (auto simp: used_ok_def)
    then show ?thesis using u k by (auto simp: used_ok_def)
  qed
  moreover have "hash_preimage_hex cr p \<in> hash_args n" if "p \<in> set (w_preimages w)" for p
  proof -
    from that obtain k where k: "k < length (w_preimages w)" "p = w_preimages w ! k" by (auto simp: in_set_conv_nth)
    then have "pu ! k" using all(3) u nth_mem [of k pu] by (cases "pu ! k") (auto simp: used_ok_def)
    then show ?thesis using u k by (auto simp: used_ok_def)
  qed
  ultimately show ?thesis using w by blast
qed

section \<open>Properties\<close>

text \<open>
  Claim C39. The script parser is exactly the inverse of the printer of policies: it accepts a text
  with a policy if and only if the text is the policy's canonical text, its atoms and numbers are
  well formed and the limits on depth, nodes and bytes hold. Hence every policy has one text, and
  every text one meaning.
\<close>

theorem parse_script_exact:
  "parse_script src = Inr n \<longleftrightarrow> src = show_script n \<and> script_ok n \<and> node_depth n \<le> kMaxDepth
     \<and> node_count n \<le> kMaxNodes \<and> length src \<le> kMaxScriptBytes"
  by (rule parse_script_iff)

text \<open>
  Claim C38. What a spent script output proves: if \<^verbatim>\<open>verify_input\<close> accepts, the witness decodes, its
  script hashes to the output's address and parses to a policy that holds under its declarative
  meaning, and no witness item is idle: every signature is valid for a key the policy names and every
  preimage is one the policy asks for.
\<close>

theorem verify_input_accepts_only:
  assumes "verify_input cr owner wit ctx = Inr ()"
  shows "\<exists>w n. decode_witness wit = Inr w \<and> owner = script_address cr (w_script w) \<and> w_script w = show_script n
    \<and> script_sat cr ctx w n
    \<and> (\<forall>sg\<in>set (w_sigs w). \<exists>a\<in>pk_args n. key_matches cr ctx a sg)
    \<and> (\<forall>p\<in>set (w_preimages w). hash_preimage_hex cr p \<in> hash_args n)"
  using verify_input_sound [OF assms] by (auto simp: parse_script_iff)

definition sample_policy :: script_node where
  "sample_policy = Or (After 5) (And (Older 2) (After 900))"

definition sample_ctx :: spend_context where
  "sample_ctx = \<lparr>ctx_sighash = ''m'', spend_height = 7, utxo_height = 3\<rparr>"

definition sample_sw :: script_witness where
  "sample_sw = \<lparr>w_script = show_script sample_policy, w_sigs = [], w_preimages = []\<rparr>"

theorem verify_input_accepts_only_witness:
  "\<exists>w n. decode_witness (encode_witness sample_sw) = Inr w
    \<and> script_address sample_crypto (w_script sample_sw) = script_address sample_crypto (w_script w) \<and> w_script w = show_script n
    \<and> script_sat sample_crypto sample_ctx w n
    \<and> (\<forall>sg\<in>set (w_sigs w). \<exists>a\<in>pk_args n. key_matches sample_crypto sample_ctx a sg)
    \<and> (\<forall>p\<in>set (w_preimages w). hash_preimage_hex sample_crypto p \<in> hash_args n)"
proof (rule verify_input_accepts_only)
  have "witness_ok sample_sw"
    by (simp add: witness_ok_def sample_sw_def sample_policy_def to_string_def dec.simps digit_not_semi [THEN not_sym])
  note dec = decode_encode_witness [OF this]
  have "parse_script (w_script sample_sw) = Inr sample_policy"
    by (simp add: parse_script_iff sample_sw_def sample_policy_def to_string_def dec.simps
        kMaxDepth_def kMaxNodes_def kMaxScriptBytes_def)
  note parse = this
  have "sha3_width sample_crypto" by (auto simp: sha3_width_def sample_crypto_def min_def)
  then have addr: "is_script_address (script_address sample_crypto x)" for x
    by (simp add: is_script_address_def script_address_def starts_with_def sha3_width_def)
  have "eval_script sample_crypto sample_ctx sample_sw sample_policy u = (True, u)" for u
    by (simp add: sample_policy_def sample_ctx_def)
  moreover have "w_sigs sample_sw = []" "w_preimages sample_sw = []" by (simp_all add: sample_sw_def)
  ultimately show "verify_input sample_crypto (script_address sample_crypto (w_script sample_sw)) (encode_witness sample_sw) sample_ctx = Inr ()"
    by (simp add: verify_input_def dec parse addr)
qed

text \<open>The text encoding of a script witness decodes to the witness, within the format's limits.\<close>

theorem witness_round_trip:
  assumes "witness_ok w"
  shows "decode_witness (encode_witness w) = Inr w"
  using assms by (rule decode_encode_witness)

theorem witness_round_trip_witness:
  "decode_witness (encode_witness \<lparr>w_script = ''pk(ab)'', w_sigs = [(''ab'', ''pq=00'')], w_preimages = [''0a'']\<rparr>) =
    Inr \<lparr>w_script = ''pk(ab)'', w_sigs = [(''ab'', ''pq=00'')], w_preimages = [''0a'']\<rparr>"
  by (rule witness_round_trip)
    (simp add: witness_ok_def script_is_lower_hex_def is_lower_hex_char_def less_eq_char_def kMaxSigs_def kMaxPreimages_def kMaxPreimageBytes_def)
end
