(* ===== verification/Shielded.thy ===== *)
theory Shielded
  imports Wire_V3
begin

text \<open>
  The shielded pool of \<^verbatim>\<open>shielded.cpp\<close>: note hashes, the bundle format, the incremental commitment
  tree with its authentication paths, the consensus state (recent anchors, nullifiers, commitments),
  addresses, the key store and note encryption. SHA-256, AES-256-GCM, ML-KEM-1024 and the STARK
  verifier are external: they are fields of the record \<open>shield_env\<close>. The lemmas show that bundles
  survive their encoding, that the incremental tree computes the root of the full tree and its paths
  authenticate, and that no nullifier is ever accepted twice.
\<close>

unbundle bit_operations_syntax

section \<open>Environment and constants\<close>

type_synonym h32 = string

text \<open>
  \<open>stark_verify\<close> is the return code of \<^verbatim>\<open>addition_shielded_verify(proof, journal)\<close> (0 is
  \<^verbatim>\<open>ADDSH_OK\<close>), \<open>None\<close> when the node is built without the prover library; \<open>aes_gcm_enc\<close> and
  \<open>aes_gcm_dec\<close> take key, nonce, associated data and input; \<open>kem_encaps\<close> takes the randomness of the
  call and the public key and returns ciphertext and shared secret.
\<close>

record shield_env =
  sha256 :: "string \<Rightarrow> h32"
  image_id :: h32
  stark_verify :: "(string \<Rightarrow> string \<Rightarrow> nat) option"
  aes_gcm_enc :: "h32 \<Rightarrow> string \<Rightarrow> string \<Rightarrow> string \<Rightarrow> string option"
  aes_gcm_dec :: "h32 \<Rightarrow> string \<Rightarrow> string \<Rightarrow> string \<Rightarrow> string option"
  kem_available :: bool
  kem_encaps :: "string \<Rightarrow> string \<Rightarrow> (string \<times> string) option"
  kem_decaps :: "string \<Rightarrow> string \<Rightarrow> string option"
  kem_pk_len :: nat
  kem_sk_len :: nat
  kem_ct_len :: nat

definition kTreeDepth :: nat where "kTreeDepth = 32"
definition kMaxIn :: nat where "kMaxIn = 4"
definition kMaxOut :: nat where "kMaxOut = 4"
definition kMemoSize :: nat where "kMemoSize = 512"
definition kRecentAnchors :: nat where "kRecentAnchors = 256"
definition kMaxProofBytes :: nat where "kMaxProofBytes = 4194304"
definition kPlainSize :: nat where "kPlainSize = 8 + 32 + 2 + kMemoSize"

definition zero32 :: h32 where "zero32 = replicate 32 (CHR 0x00)"

section \<open>Note hashes\<close>

definition sha256_dom :: "shield_env \<Rightarrow> string \<Rightarrow> string list \<Rightarrow> h32" where
  "sha256_dom env dom_sep parts = sha256 env (dom_sep @ concat parts)"

definition owner_tag :: "shield_env \<Rightarrow> h32 \<Rightarrow> h32" where
  "owner_tag env nk = sha256_dom env ''ADD/owner/v1'' [nk]"

definition note_commitment :: "shield_env \<Rightarrow> u64 \<Rightarrow> h32 \<Rightarrow> h32 \<Rightarrow> h32 \<Rightarrow> h32" where
  "note_commitment env v own rho r = sha256_dom env ''ADD/cm/v1'' [put_u64 v, own, rho, r]"

definition nullifier :: "shield_env \<Rightarrow> h32 \<Rightarrow> h32 \<Rightarrow> h32" where
  "nullifier env nk rho = sha256_dom env ''ADD/nf/v1'' [nk, rho]"

definition merkle_node :: "shield_env \<Rightarrow> h32 \<Rightarrow> h32 \<Rightarrow> h32" where
  "merkle_node env l r = sha256_dom env ''ADD/mk/v1'' [l, r]"

definition output_rho :: "shield_env \<Rightarrow> h32 \<Rightarrow> h32 list \<Rightarrow> u32 \<Rightarrow> h32" where
  "output_rho env bnd nfs j = sha256 env (''ADD/rho/v1'' @ bnd @ concat nfs @ put_u32 j)"

definition hex32 :: "h32 \<Rightarrow> string" where "hex32 h = to_hex h"

section \<open>Reading bytes\<close>

text \<open>The cursor \<^verbatim>\<open>Rd\<close>: buffer and index; each reader returns the value and the new index.\<close>

definition rd_take :: "nat \<Rightarrow> string \<Rightarrow> nat \<Rightarrow> (string \<times> nat) option" where
  "rd_take n b i = (if n > length b - i then None else Some (take n (drop i b), i + n))"

definition rd_le :: "nat \<Rightarrow> string \<Rightarrow> nat \<Rightarrow> ('a::len word \<times> nat) option" where
  "rd_le k b i =
     do { (p, i) \<leftarrow> rd_take k b i;
          Some (foldl (\<lambda>v c. push_bit 8 v OR of_nat (of_char c)) 0 (rev p), i) }"

definition rd_u64 :: "string \<Rightarrow> nat \<Rightarrow> (u64 \<times> nat) option" where "rd_u64 = rd_le 8"
definition rd_u32 :: "string \<Rightarrow> nat \<Rightarrow> (u32 \<times> nat) option" where "rd_u32 = rd_le 4"
definition rd_h :: "string \<Rightarrow> nat \<Rightarrow> (h32 \<times> nat) option" where "rd_h = rd_take 32"

definition rd_vec :: "nat \<Rightarrow> string \<Rightarrow> nat \<Rightarrow> (string \<times> nat) option" where
  "rd_vec mx b i =
     do { (n, i) \<leftarrow> rd_u32 b i; if unat n > mx then None else rd_take (unat n) b i }"

definition rd_count :: "(nat \<Rightarrow> bool) \<Rightarrow> string \<Rightarrow> nat \<Rightarrow> (nat \<times> nat) option" where
  "rd_count ok b i = do { (n, i) \<leftarrow> rd_u32 b i; if ok (unat n) then Some (unat n, i) else None }"

definition putv :: "string \<Rightarrow> string" where
  "putv v = put_u32 (of_nat (length v)) @ v"

section \<open>Bundles\<close>

record encrypted_note =
  kem_ct :: string
  aead_ct :: string

record z_bundle =
  vpub_in :: u64
  vpub_out :: u64
  anchor :: h32
  nullifiers :: "h32 list"
  commitments :: "h32 list"
  enc :: "encrypted_note list"
  proof_bytes :: string

definition put_note :: "encrypted_note \<Rightarrow> string" where
  "put_note e = putv (kem_ct e) @ putv (aead_ct e)"

definition rd_note :: "string \<Rightarrow> nat \<Rightarrow> (encrypted_note \<times> nat) option" where
  "rd_note b i =
     do { (k, i) \<leftarrow> rd_vec 4096 b i; (a, i) \<leftarrow> rd_vec 4096 b i; Some (\<lparr>kem_ct = k, aead_ct = a\<rparr>, i) }"

definition serialize :: "z_bundle \<Rightarrow> string" where
  "serialize b =
     ''Z1'' @ put_u64 (vpub_in b) @ put_u64 (vpub_out b) @ anchor b
     @ put_u32 (of_nat (length (nullifiers b))) @ concat (nullifiers b)
     @ put_u32 (of_nat (length (commitments b))) @ concat (commitments b)
     @ put_u32 (of_nat (length (enc b))) @ put_many put_note (enc b)
     @ putv (proof_bytes b)"

definition rd_bundle :: "string \<Rightarrow> z_bundle option" where
  "rd_bundle inp =
     do {
       (m, i) \<leftarrow> rd_take 2 inp 0;
       if m \<noteq> ''Z1'' then None else do {
         (vi, i) \<leftarrow> rd_u64 inp i;
         (vo, i) \<leftarrow> rd_u64 inp i;
         (an, i) \<leftarrow> rd_h inp i;
         (n, i) \<leftarrow> rd_count (\<lambda>n. n \<le> kMaxIn) inp i;
         (nfs, i) \<leftarrow> get_many rd_h n inp i;
         (m, i) \<leftarrow> rd_count (\<lambda>n. n \<le> kMaxOut) inp i;
         (cms, i) \<leftarrow> get_many rd_h m inp i;
         (k, i) \<leftarrow> rd_count (\<lambda>n. n = length cms) inp i;
         (es, i) \<leftarrow> get_many rd_note k inp i;
         (pr, i) \<leftarrow> rd_vec kMaxProofBytes inp i;
         if i \<noteq> length inp then None
         else Some \<lparr>vpub_in = vi, vpub_out = vo, anchor = an, nullifiers = nfs, commitments = cms,
                    enc = es, proof_bytes = pr\<rparr>
       }
     }"

definition deserialize :: "string \<Rightarrow> z_bundle res" where
  "deserialize inp = need ''malformed shielded bundle'' (rd_bundle inp)"

definition to_tx_field :: "z_bundle \<Rightarrow> string" where
  "to_tx_field b = to_hex (serialize b)"

definition from_tx_field :: "string \<Rightarrow> z_bundle res" where
  "from_tx_field hex =
     (if hex = [] \<or> length hex > 2 * (kMaxProofBytes + 64 * 1024) \<or> length hex mod 2 \<noteq> 0
      then Inl ''malformed shielded bundle hex''
      else if \<not> list_all is_lower_hex_char hex then Inl ''malformed shielded bundle hex''
      else deserialize (hex_pairs hex))"

definition bind_hash :: "shield_env \<Rightarrow> transaction \<Rightarrow> z_bundle \<Rightarrow> h32" where
  "bind_hash env tx b =
     sha256 env (''ADD/bind/v1''
       @ put_u32 (of_nat (length (inputs tx)))
       @ put_many (\<lambda>i. putv (previous_txid i) @ put_u32 (output_index i)) (inputs tx)
       @ put_u32 (of_nat (length (outputs tx)))
       @ put_many (\<lambda>x. putv (recipient x) @ put_u64 (amount x)) (outputs tx)
       @ putv (signer tx) @ putv (signer_pubkey tx) @ put_u64 (fee tx) @ put_u64 (nonce tx)
       @ put_u64 (vpub_in b) @ put_u64 (vpub_out b)
       @ put_u32 (of_nat (length (enc b))) @ put_many put_note (enc b)
       @ image_id env)"

definition expected_journal :: "h32 \<Rightarrow> z_bundle \<Rightarrow> string" where
  "expected_journal bnd b =
     ''ADDSHLD1'' @ bnd @ anchor b @ put_u64 (vpub_in b) @ put_u64 (vpub_out b)
     @ put_u32 (of_nat (length (nullifiers b))) @ concat (nullifiers b)
     @ put_u32 (of_nat (length (commitments b))) @ concat (commitments b)"

definition verify_bundle_proof :: "shield_env \<Rightarrow> transaction \<Rightarrow> z_bundle \<Rightarrow> unit res" where
  "verify_bundle_proof env tx b =
     (case stark_verify env of
        None \<Rightarrow> Inl ''shielded: node built without STARK verifier; rejecting (fail-closed)''
      | Some vf \<Rightarrow>
          (let rc = vf (proof_bytes b) (expected_journal (bind_hash env tx b) b)
           in if rc \<noteq> 0 then Inl (''shielded: STARK verification failed (code '' @ dec rc @ '')'') else Inr ()))"

section \<open>Addresses and the key store\<close>

record z_address =
  za_owner :: h32
  za_kem_pk :: string

record spending_key =
  sk_nk :: h32
  sk_kem_sk :: string
  sk_kem_pk :: string

definition Address_encode :: "z_address \<Rightarrow> string" where
  "Address_encode a = ''addz1'' @ to_hex (za_owner a @ za_kem_pk a)"

definition Address_decode :: "shield_env \<Rightarrow> string \<Rightarrow> z_address res" where
  "Address_decode env s =
     (if \<not> starts_with ''addz1'' s then Inl ''not a shielded address''
      else case hex_to_bytes (drop 5 s) of
             Inl e \<Rightarrow> Inl e
           | Inr b \<Rightarrow>
               if length b \<noteq> 32 + kem_pk_len env then Inl ''bad shielded address length''
               else Inr \<lparr>za_owner = take 32 b, za_kem_pk = drop 32 b\<rparr>)"

definition SpendingKey_address :: "shield_env \<Rightarrow> spending_key \<Rightarrow> z_address" where
  "SpendingKey_address env sk = \<lparr>za_owner = owner_tag env (sk_nk sk), za_kem_pk = sk_kem_pk sk\<rparr>"

definition get_blob :: "string \<Rightarrow> nat \<Rightarrow> (string \<times> nat) option" where
  "get_blob inp p =
     (if p + 4 > length inp then None
      else (let n = unat (le_word 4 inp p :: u32); p = p + 4
            in if n > length inp - p then None else Some (take n (drop p inp), p + n)))"

definition keystore_key :: "shield_env \<Rightarrow> string \<Rightarrow> h32" where
  "keystore_key env secret = sha256_dom env ''ADD/zkeystore/v1'' [secret]"

definition kKeystoreAad :: string where "kKeystoreAad = ''ADDZK1''"

text \<open>The nonce is the output of \<^verbatim>\<open>RAND_bytes\<close>, \<open>None\<close> when the generator fails.\<close>

definition seal_spending_key :: "shield_env \<Rightarrow> string option \<Rightarrow> spending_key \<Rightarrow> string \<Rightarrow> string res" where
  "seal_spending_key env rnd sk secret =
     (if secret = [] then Inl ''empty keystore secret''
      else (let plain = putv (sk_nk sk) @ putv (sk_kem_sk sk) @ putv (sk_kem_pk sk)
            in case rnd of
                 None \<Rightarrow> Inl ''rng failure''
               | Some iv \<Rightarrow>
                   (case aes_gcm_enc env (keystore_key env secret) iv kKeystoreAad plain of
                      None \<Rightarrow> Inl ''seal failed''
                    | Some ct \<Rightarrow> Inr (kKeystoreAad @ iv @ ct))))"

definition read_keystore :: "string \<Rightarrow> spending_key option" where
  "read_keystore plain =
     do { (nk, p) \<leftarrow> get_blob plain 0;
          if length nk \<noteq> 32 then None else do {
            (s, p) \<leftarrow> get_blob plain p;
            (k, p) \<leftarrow> get_blob plain p;
            if p \<noteq> length plain then None
            else Some \<lparr>sk_nk = nk, sk_kem_sk = s, sk_kem_pk = k\<rparr> } }"

definition open_spending_key :: "shield_env \<Rightarrow> string \<Rightarrow> string \<Rightarrow> spending_key res" where
  "open_spending_key env inp secret =
     (if length inp < 6 + 12 + 16 \<or> take 6 inp \<noteq> kKeystoreAad then Inl ''bad keystore format''
      else case aes_gcm_dec env (keystore_key env secret) (take 12 (drop 6 inp)) kKeystoreAad (drop 18 inp) of
             None \<Rightarrow> Inl ''keystore decrypt failed (wrong key/passphrase?)''
           | Some plain \<Rightarrow> need ''keystore payload corrupt'' (read_keystore plain))"

section \<open>Note encryption\<close>

record z_note =
  nt_value :: u64
  nt_owner :: h32
  nt_rho :: h32
  nt_r :: h32
  nt_position :: u64
  nt_memo :: string

definition note_key :: "crypto \<Rightarrow> string \<Rightarrow> string \<Rightarrow> h32" where
  "note_key cr ss ct = take 32 (sha3 cr (''ADD/notekey/v1'' @ ss @ ct))"

definition note_plain :: "u64 \<Rightarrow> h32 \<Rightarrow> string \<Rightarrow> string" where
  "note_plain v r memo =
     (let pt = put_u64 v @ r @ [char_of (length memo), char_of (length memo div 256)] @ memo
      in pt @ replicate (kPlainSize - length pt) (CHR 0x00))"

definition encrypt_note ::
    "crypto \<Rightarrow> shield_env \<Rightarrow> string \<Rightarrow> string option \<Rightarrow> z_address \<Rightarrow> u64 \<Rightarrow> h32 \<Rightarrow> string \<Rightarrow> encrypted_note res" where
  "encrypt_note cr env kem_rnd rnd to_addr v r memo =
     (if length memo > kMemoSize then Inl ''memo too long (max 512 bytes)''
      else if length (za_kem_pk to_addr) \<noteq> kem_pk_len env then Inl ''bad recipient key''
      else if \<not> kem_available env then Inl ''ML-KEM-1024 unavailable''
      else case kem_encaps env kem_rnd (za_kem_pk to_addr) of
             None \<Rightarrow> Inl ''ML-KEM encapsulation failed''
           | Some (ct, ss) \<Rightarrow>
               (case rnd of
                  None \<Rightarrow> Inl ''rng failure''
                | Some iv \<Rightarrow>
                    (case aes_gcm_enc env (note_key cr ss ct) iv ct (note_plain v r memo) of
                       None \<Rightarrow> Inl ''aead failure''
                     | Some body \<Rightarrow> Inr \<lparr>kem_ct = ct, aead_ct = iv @ body\<rparr>)))"

definition try_decrypt :: "crypto \<Rightarrow> shield_env \<Rightarrow> spending_key \<Rightarrow> transaction \<Rightarrow> z_bundle \<Rightarrow> nat \<Rightarrow> z_note option" where
  "try_decrypt cr env sk tx b j =
     (if j \<ge> length (enc b) \<or> j \<ge> length (commitments b) then None
      else
        (let e = enc b ! j in
         if length (aead_ct e) \<noteq> 12 + kPlainSize + 16 then None
         else if \<not> kem_available env \<or> length (kem_ct e) \<noteq> kem_ct_len env \<or> length (sk_kem_sk sk) \<noteq> kem_sk_len env then None
         else do {
           ss \<leftarrow> kem_decaps env (kem_ct e) (sk_kem_sk sk);
           pt \<leftarrow> aes_gcm_dec env (note_key cr ss (kem_ct e)) (take 12 (aead_ct e)) (kem_ct e) (drop 12 (aead_ct e));
           if length pt \<noteq> kPlainSize then None
           else
             (let v = foldl (\<lambda>v c. push_bit 8 v OR of_nat (of_char c)) 0 (rev (take 8 pt));
                  r = take 32 (drop 8 pt);
                  ml = of_char (pt ! 40) + of_char (pt ! 41) * 256 :: nat;
                  own = owner_tag env (sk_nk sk);
                  rho = output_rho env (bind_hash env tx b) (nullifiers b) (of_nat j)
              in if ml > kMemoSize then None
                 else if note_commitment env v own rho r \<noteq> commitments b ! j then None
                 else Some \<lparr>nt_value = v, nt_owner = own, nt_rho = rho, nt_r = r, nt_position = 0,
                            nt_memo = take ml (drop 42 pt)\<rparr>)
         }))"

section \<open>Commitment tree\<close>

record commitment_tree =
  leaves :: "h32 list"
  frontier :: "h32 list"
  tree_root :: h32

text \<open>\<open>empty_at env d\<close> is the table entry \<^verbatim>\<open>empty_[d]\<close>: the root of an empty subtree of height \<open>d\<close>.\<close>

fun empty_at :: "shield_env \<Rightarrow> nat \<Rightarrow> h32" where
  "empty_at env 0 = zero32"
| "empty_at env (Suc d) = merkle_node env (empty_at env d) (empty_at env d)"

definition CommitmentTree :: "shield_env \<Rightarrow> commitment_tree" where
  "CommitmentTree env =
     \<lparr>leaves = [], frontier = replicate kTreeDepth zero32, tree_root = empty_at env kTreeDepth\<rparr>"

definition append_level :: "shield_env \<Rightarrow> nat \<Rightarrow> h32 list \<times> h32 \<Rightarrow> nat \<Rightarrow> h32 list \<times> h32" where
  "append_level env pos = (\<lambda>(fr, cur) d.
     if pos div 2 ^ d mod 2 = 0 then (fr[d := cur], merkle_node env cur (empty_at env d))
     else (fr, merkle_node env (fr ! d) cur))"

definition CommitmentTree_append :: "shield_env \<Rightarrow> commitment_tree \<Rightarrow> h32 \<Rightarrow> commitment_tree" where
  "CommitmentTree_append env t cm =
     (let pos = length (leaves t);
          (fr, cur) = foldl (append_level env pos) (frontier t, cm) [0..<kTreeDepth]
      in \<lparr>leaves = leaves t @ [cm], frontier = fr, tree_root = cur\<rparr>)"

text \<open>One pass of \<^verbatim>\<open>path\<close>: the next layer pairs the entries, an odd last one with the empty subtree.\<close>

fun next_layer :: "shield_env \<Rightarrow> nat \<Rightarrow> h32 list \<Rightarrow> h32 list" where
  "next_layer env d (x # y # r) = merkle_node env x y # next_layer env d r"
| "next_layer env d [x] = [merkle_node env x (empty_at env d)]"
| "next_layer env d [] = []"

fun path_loop :: "shield_env \<Rightarrow> nat \<Rightarrow> nat \<Rightarrow> nat \<Rightarrow> h32 list \<Rightarrow> h32 list" where
  "path_loop env 0 d pos layer = []"
| "path_loop env (Suc n) d pos layer =
     (let s = (if pos mod 2 = 0 then pos + 1 else pos - 1)
      in (if s < length layer then layer ! s else empty_at env d)
         # path_loop env n (Suc d) (pos div 2) (next_layer env d layer))"

definition CommitmentTree_path :: "shield_env \<Rightarrow> commitment_tree \<Rightarrow> nat \<Rightarrow> h32 list option" where
  "CommitmentTree_path env t pos =
     (if pos \<ge> length (leaves t) then None else Some (path_loop env kTreeDepth 0 pos (leaves t)))"

section \<open>Consensus state\<close>

record shield_state =
  sh_tree :: commitment_tree
  sh_recent :: "h32 list"
  sh_recent_set :: "string set"
  sh_nfs :: "string set"
  sh_cms :: "string set"

text \<open>The trimming loop of \<^verbatim>\<open>remember_root\<close>.\<close>

fun trim_recent :: "h32 list \<Rightarrow> string set \<Rightarrow> h32 list \<times> string set" where
  "trim_recent [] S = ([], S)"
| "trim_recent (x # xs) S =
     (if length (x # xs) > kRecentAnchors then trim_recent xs (S - {hex32 x}) else (x # xs, S))"

definition remember_root :: "shield_state \<Rightarrow> shield_state" where
  "remember_root s =
     (let r = tree_root (sh_tree s);
          fresh = hex32 r \<notin> sh_recent_set s;
          (q, S) = trim_recent (if fresh then sh_recent s @ [r] else sh_recent s) (insert (hex32 r) (sh_recent_set s))
      in s\<lparr>sh_recent := q, sh_recent_set := S\<rparr>)"

definition State_init :: "shield_env \<Rightarrow> shield_state" where
  "State_init env =
     remember_root \<lparr>sh_tree = CommitmentTree env, sh_recent = [], sh_recent_set = {}, sh_nfs = {}, sh_cms = {}\<rparr>"

definition nullifier_spent :: "shield_state \<Rightarrow> h32 \<Rightarrow> bool" where
  "nullifier_spent s nf \<longleftrightarrow> hex32 nf \<in> sh_nfs s"

fun nullifiers_fresh :: "string set \<Rightarrow> string set \<Rightarrow> string set \<Rightarrow> h32 list \<Rightarrow> bool" where
  "nullifiers_fresh spent pending local [] = True"
| "nullifiers_fresh spent pending local (n # ns) =
     (if hex32 n \<in> spent \<or> hex32 n \<in> pending \<or> hex32 n \<in> local then False
      else nullifiers_fresh spent pending (insert (hex32 n) local) ns)"

definition State_check :: "shield_state \<Rightarrow> z_bundle \<Rightarrow> string set \<Rightarrow> unit res" where
  "State_check s b pending =
     (if length (commitments b) \<noteq> length (enc b) then Inl ''shielded: enc/cm count mismatch''
      else if nullifiers b = [] \<and> commitments b = [] then Inl ''shielded: empty bundle''
      else if nullifiers b \<noteq> [] \<and> hex32 (anchor b) \<notin> sh_recent_set s
      then Inl ''shielded: unknown or stale anchor''
      else if nullifiers b = [] \<and> anchor b \<noteq> zero32 then Inl ''shielded: anchor must be zero without spends''
      else if length (leaves (sh_tree s)) + length (commitments b) > 2 ^ kTreeDepth then Inl ''shielded: tree full''
      else if \<not> nullifiers_fresh (sh_nfs s) pending {} (nullifiers b) then Inl ''shielded: nullifier already spent''
      else if list_ex (\<lambda>c. hex32 c \<in> sh_cms s) (commitments b) then Inl ''shielded: duplicate commitment''
      else Inr ())"

definition State_apply :: "shield_env \<Rightarrow> shield_state \<Rightarrow> z_bundle \<Rightarrow> shield_state" where
  "State_apply env s b =
     remember_root (s\<lparr>sh_nfs := foldl (\<lambda>S n. insert (hex32 n) S) (sh_nfs s) (nullifiers b),
        sh_tree := foldl (CommitmentTree_append env) (sh_tree s) (commitments b),
        sh_cms := foldl (\<lambda>S c. insert (hex32 c) S) (sh_cms s) (commitments b)\<rparr>)"

section \<open>Lemmas: the byte readers are field codecs\<close>

lemma rd_take_at: "at_off b i p \<Longrightarrow> rd_take (length p) b i = Some (p, i + length p)"
  by (auto simp: rd_take_def at_off_def)

lemma take_bit_prepend:
  "push_bit 8 (take_bit n (drop_bit (8 + m) v)) OR take_bit 8 (drop_bit m v) = take_bit (8 + n) (drop_bit m (v :: 'a::len word))"
  by (rule bit_word_eqI) (auto simp: bit_simps)

lemma fold_le_bytes:
  "foldl (\<lambda>v c. push_bit 8 v OR of_nat (of_char c)) 0
     (rev (map (\<lambda>i. char_of (unat (drop_bit (8 * i) v AND 255))) [j..<j + n])) =
   take_bit (8 * n) (drop_bit (8 * j) (v :: 'a::len word))"
proof (induction n arbitrary: j)
  case (Suc n)
  have "[j..<j + Suc n] = j # [Suc j..<Suc j + n]" by (simp add: upt_conv_Cons)
  with Suc.IH [of "Suc j"] show ?case
    using take_bit_prepend [of "8 * n" "8 * j" v] by (simp add: byte_of_word)
qed simp

lemma fold_put_le:
  "LENGTH('a) \<le> 8 * k \<Longrightarrow>
     foldl (\<lambda>v c. push_bit 8 v OR of_nat (of_char c)) 0 (rev (put_le k v)) = (v :: 'a::len word)"
  using fold_le_bytes [of v 0 k] by (simp add: put_le_def take_bit_word_eq_self)

lemma rd_le_at:
  assumes "at_off b i (put_le k v)" and "LENGTH('a) \<le> 8 * k"
  shows "rd_le k b i = Some (v :: 'a::len word, i + k)"
  using rd_take_at [OF assms(1)] fold_put_le [OF assms(2)] by (simp add: rd_le_def)

interpretation z64: field_codec put_u64 rd_u64 "\<lambda>_. True"
  by unfold_locales (simp add: rd_u64_def put_u64_def rd_le_at)

interpretation z32: field_codec put_u32 rd_u32 "\<lambda>_. True"
  by unfold_locales (simp add: rd_u32_def put_u32_def rd_le_at)

interpretation zh: field_codec "\<lambda>h. h" rd_h "\<lambda>h. length h = 32"
proof
  fix h :: h32 and b i
  assume "length h = 32" and "at_off b i h"
  then show "rd_h b i = Some (h, i + length h)"
    using rd_take_at [of b i h] by (simp add: rd_h_def)
qed

lemma rd_vec_at:
  assumes "mx < 2 ^ 32" and "length v \<le> mx" and "at_off b i (putv v)"
  shows "rd_vec mx b i = Some (v, i + length (putv v))"
proof -
  let ?n = "of_nat (length v) :: u32"
  have at: "at_off b i (put_u32 ?n)" "at_off b (i + length (put_u32 ?n)) v"
    using assms(3) by (simp_all add: putv_def)
  have "unat ?n = length v" using assms(1,2) by (simp add: unat_of_nat)
  then show ?thesis
    using assms(2) z32.get_put [OF TrueI at(1)] rd_take_at [OF at(2)] by (simp add: rd_vec_def putv_def)
qed

interpretation zblob: field_codec putv "rd_vec 4096" "\<lambda>v. length v \<le> 4096"
  by unfold_locales (rule rd_vec_at, simp_all)

interpretation zproof: field_codec putv "rd_vec kMaxProofBytes" "\<lambda>v. length v \<le> kMaxProofBytes"
  by unfold_locales (rule rd_vec_at, simp_all add: kMaxProofBytes_def)

interpretation zn: field_codec put_note rd_note "\<lambda>e. length (kem_ct e) \<le> 4096 \<and> length (aead_ct e) \<le> 4096"
proof
  fix e :: encrypted_note and b i
  assume ok: "length (kem_ct e) \<le> 4096 \<and> length (aead_ct e) \<le> 4096" and a: "at_off b i (put_note e)"
  then have at: "at_off b i (putv (kem_ct e))" "at_off b (i + length (putv (kem_ct e))) (putv (aead_ct e))"
    by (simp_all add: put_note_def)
  show "rd_note b i = Some (e, i + length (put_note e))"
    using ok zblob.get_put [OF _ at(1)] zblob.get_put [OF _ at(2)] by (simp add: rd_note_def put_note_def)
qed

lemma rd_count_at:
  assumes "ok n" and "n < 2 ^ 32" and "at_off b i (put_u32 (of_nat n))"
  shows "rd_count ok b i = Some (n, i + length (put_u32 (of_nat n)))"
proof -
  have "unat (of_nat n :: u32) = n" using assms(2) by (simp add: unat_of_nat)
  with assms(1) z32.get_put [OF TrueI assms(3)] show ?thesis by (simp add: rd_count_def)
qed

section \<open>Lemmas: bundles\<close>

definition bundle_ok :: "z_bundle \<Rightarrow> bool" where
  "bundle_ok b \<longleftrightarrow>
     length (anchor b) = 32 \<and> list_all (\<lambda>h. length h = 32) (nullifiers b) \<and> list_all (\<lambda>h. length h = 32) (commitments b)
     \<and> length (nullifiers b) \<le> kMaxIn \<and> length (commitments b) \<le> kMaxOut \<and> length (enc b) = length (commitments b)
     \<and> list_all (\<lambda>e. length (kem_ct e) \<le> 4096 \<and> length (aead_ct e) \<le> 4096) (enc b)
     \<and> length (proof_bytes b) \<le> kMaxProofBytes"

lemma put_many_id: "put_many (\<lambda>h. h) xs = concat xs"
  by (simp add: put_many_def)

lemma rd_bundle_serialize:
  assumes ok: "bundle_ok b"
  shows "rd_bundle (serialize b) = Some b"
proof -
  let ?N1 = "put_u32 (of_nat (length (nullifiers b)))" and ?X1 = "concat (nullifiers b)"
  let ?N2 = "put_u32 (of_nat (length (commitments b)))" and ?X2 = "concat (commitments b)"
  let ?N3 = "put_u32 (of_nat (length (enc b)))" and ?X3 = "put_many put_note (enc b)"
  define inp where "inp = serialize b"
  let ?o1 = "2 + length (put_u64 (vpub_in b))" let ?o2 = "?o1 + length (put_u64 (vpub_out b))"
  let ?o3 = "?o2 + length (anchor b)" let ?o4 = "?o3 + length ?N1" let ?o5 = "?o4 + length ?X1"
  let ?o6 = "?o5 + length ?N2" let ?o7 = "?o6 + length ?X2" let ?o8 = "?o7 + length ?N3" let ?o9 = "?o8 + length ?X3"
  have inp: "inp = ''Z1'' @ put_u64 (vpub_in b) @ put_u64 (vpub_out b) @ anchor b
     @ ?N1 @ ?X1 @ ?N2 @ ?X2 @ ?N3 @ ?X3 @ putv (proof_bytes b)"
    by (simp add: inp_def serialize_def)
  have "at_off inp 2 (put_u64 (vpub_in b) @ put_u64 (vpub_out b) @ anchor b
     @ ?N1 @ ?X1 @ ?N2 @ ?X2 @ ?N3 @ ?X3 @ putv (proof_bytes b))"
    by (rule at_off_after [of _ "''Z1''" _ "[]"]) (simp_all only: inp append_Nil2, simp)
  then have at: "at_off inp 2 (put_u64 (vpub_in b))" "at_off inp ?o1 (put_u64 (vpub_out b))" "at_off inp ?o2 (anchor b)"
      "at_off inp ?o3 ?N1" "at_off inp ?o4 ?X1" "at_off inp ?o5 ?N2" "at_off inp ?o6 ?X2" "at_off inp ?o7 ?N3"
      "at_off inp ?o8 ?X3" "at_off inp ?o9 (putv (proof_bytes b))"
    unfolding at_off_append by blast+
  note okD = ok [unfolded bundle_ok_def kMaxIn_def kMaxOut_def]
  have magic: "rd_take 2 inp 0 = Some (''Z1'', 2)" by (simp add: inp rd_take_def)
  have len: "?o9 + length (putv (proof_bytes b)) = length inp" by (subst inp) (simp only: length_append list.size)
  have r1: "get_many rd_h (length (nullifiers b)) inp ?o4 = Some (nullifiers b, ?o5)"
    using zh.get_many_put [of "nullifiers b" inp ?o4] okD at(5) by (simp only: put_many_id)
  have r2: "get_many rd_h (length (commitments b)) inp ?o6 = Some (commitments b, ?o7)"
    using zh.get_many_put [of "commitments b" inp ?o6] okD at(7) by (simp only: put_many_id)
  have r3: "get_many rd_note (length (enc b)) inp ?o8 = Some (enc b, ?o9)"
    using zn.get_many_put [OF _ at(9)] okD by blast
  have n1: "rd_count (\<lambda>n. n \<le> kMaxIn) inp ?o3 = Some (length (nullifiers b), ?o4)"
    by (rule rd_count_at [OF _ _ at(4)]) (use okD in \<open>auto simp: kMaxIn_def\<close>)
  have n2: "rd_count (\<lambda>n. n \<le> kMaxOut) inp ?o5 = Some (length (commitments b), ?o6)"
    by (rule rd_count_at [OF _ _ at(6)]) (use okD in \<open>auto simp: kMaxOut_def\<close>)
  have n3: "rd_count (\<lambda>n. n = length (commitments b)) inp ?o7 = Some (length (enc b), ?o8)"
    by (rule rd_count_at [OF _ _ at(8)]) (use okD in auto)
  have pr: "rd_vec kMaxProofBytes inp ?o9 = Some (proof_bytes b, length inp)"
    unfolding len [symmetric] by (rule zproof.get_put [OF _ at(10)]) (use okD in blast)
  have an: "rd_h inp ?o2 = Some (anchor b, ?o3)" by (rule zh.get_put [OF _ at(3)]) (use okD in blast)
  show ?thesis
    unfolding inp_def [symmetric] rd_bundle_def
    using magic z64.get_put [OF TrueI at(1)] z64.get_put [OF TrueI at(2)] an n1 r1 n2 r2 n3 r3 pr by simp
qed

lemma length_concat_h32: "list_all (\<lambda>h. length h = 32) hs \<Longrightarrow> length (concat hs) = 32 * length hs"
  by (induction hs) auto

lemma length_notes:
  "list_all (\<lambda>e. length (kem_ct e) \<le> 4096 \<and> length (aead_ct e) \<le> 4096) es \<Longrightarrow>
     length (put_many put_note es) \<le> 8200 * length es"
  by (induction es) (auto simp: put_many_def put_note_def putv_def length_put_int)

lemma length_serialize: "bundle_ok b \<Longrightarrow> length (serialize b) \<le> kMaxProofBytes + 64 * 1024"
  using length_notes [of "enc b"] length_concat_h32 [of "nullifiers b"] length_concat_h32 [of "commitments b"]
  by (auto simp: bundle_ok_def serialize_def length_put_int putv_def kMaxIn_def kMaxOut_def)

lemma to_hex_lower: "list_all is_lower_hex_char (to_hex bs)"
proof (induction bs)
  case (Cons b bs)
  have "is_lower_hex_char (hex_char d)" if "d < 16" for d
    using that by (auto simp: is_lower_hex_char_def hex_char_def less_eq_char_def)
  with Cons show ?case by simp
qed simp

lemma hex_pairs_to_hex: "hex_pairs (to_hex bs) = bs"
proof (induction bs)
  case (Cons b bs)
  have n: "nib (hex_char d) = d" if "d < 16" for d
    using that by (auto simp: nib_def hex_char_def less_eq_char_def)
  show ?case using Cons by (simp add: n)
qed simp

section \<open>Lemmas: the incremental tree\<close>

text \<open>\<open>tree_node env ls d i\<close>: the hash of node \<open>i\<close> at height \<open>d\<close> of the full tree over the leaves \<open>ls\<close>.\<close>

fun tree_node :: "shield_env \<Rightarrow> h32 list \<Rightarrow> nat \<Rightarrow> nat \<Rightarrow> h32" where
  "tree_node env ls 0 i = (if i < length ls then ls ! i else zero32)"
| "tree_node env ls (Suc d) i = merkle_node env (tree_node env ls d (2 * i)) (tree_node env ls d (2 * i + 1))"

lemma tree_node_empty: "length ls \<le> i * 2 ^ d \<Longrightarrow> tree_node env ls d i = empty_at env d"
  by (induction d arbitrary: i) (simp_all add: algebra_simps)

lemma tree_node_append: "(i + 1) * 2 ^ d \<le> length ls \<Longrightarrow> tree_node env (ls @ [x]) d i = tree_node env ls d i"
  by (induction d arbitrary: i) (simp_all add: nth_append algebra_simps)

definition frontier_ok :: "shield_env \<Rightarrow> h32 list \<Rightarrow> h32 list \<Rightarrow> bool" where
  "frontier_ok env ls fr \<longleftrightarrow> length fr = kTreeDepth \<and>
     (\<forall>k<kTreeDepth. odd (length ls div 2 ^ k) \<longrightarrow> fr ! k = tree_node env ls k (length ls div 2 ^ k - 1))"

lemma left_sibling:
  assumes "frontier_ok env ls fr" and "k < kTreeDepth" and "odd (length ls div 2 ^ k)"
  shows "fr ! k = tree_node env (ls @ [x]) k (length ls div 2 ^ k - 1)"
proof -
  let ?q = "length ls div 2 ^ k"
  have "?q \<noteq> 0" using assms(3) by (metis even_zero)
  then have "(?q - 1 + 1) * 2 ^ k \<le> length ls" by simp
  from tree_node_append [OF this] show ?thesis
    using assms by (simp add: frontier_ok_def)
qed

lemma append_levels:
  assumes "frontier_ok env ls fr" and "d \<le> kTreeDepth"
  shows "\<exists>fr'. foldl (append_level env (length ls)) (fr, x) [0..<d] = (fr', tree_node env (ls @ [x]) d (length ls div 2 ^ d))
    \<and> length fr' = length fr
    \<and> (\<forall>k<length fr. fr' ! k = (if k < d \<and> even (length ls div 2 ^ k)
          then tree_node env (ls @ [x]) k (length ls div 2 ^ k) else fr ! k))"
  using assms(2)
proof (induction d)
  case (Suc d)
  let ?n = "length ls" let ?q = "?n div 2 ^ d" let ?ls = "ls @ [x]"
  from Suc obtain fr' where f: "foldl (append_level env ?n) (fr, x) [0..<d] = (fr', tree_node env ?ls d ?q)"
    "length fr' = length fr"
    "\<forall>k<length fr. fr' ! k = (if k < d \<and> even (?n div 2 ^ k) then tree_node env ?ls k (?n div 2 ^ k) else fr ! k)"
    by auto
  have dl: "d < length fr" using Suc.prems assms(1) by (simp add: frontier_ok_def)
  have q2: "?n div 2 ^ Suc d = ?q div 2" by (simp add: div_mult2_eq [symmetric] mult.commute)
  show ?case
  proof (cases "even ?q")
    case True
    have "?n < (?q + 1) * 2 ^ d" using dividend_less_div_times [of "2 ^ d" ?n] by (simp add: algebra_simps)
    then have "tree_node env ?ls d (?q + 1) = empty_at env d" by (intro tree_node_empty) simp
    then have "tree_node env ?ls (Suc d) (?n div 2 ^ Suc d) = merkle_node env (tree_node env ?ls d ?q) (empty_at env d)"
      using True unfolding q2 by simp
    then show ?thesis
      using True f dl by (auto simp: append_level_def nth_list_update even_iff_mod_2_eq_zero less_Suc_eq simp del: power_Suc tree_node.simps(2))
  next
    case False
    have "fr' ! d = tree_node env ?ls d (?q - 1)"
      using f(3) dl left_sibling [OF assms(1) _ False, of x] Suc.prems by simp
    moreover have "2 * (?q div 2) = ?q - 1" "2 * (?q div 2) + 1 = ?q" by (rule odd_two_times_div_two_nat [OF False], rule odd_two_times_div_two_succ [OF False])
    ultimately have "tree_node env ?ls (Suc d) (?n div 2 ^ Suc d) = merkle_node env (fr' ! d) (tree_node env ?ls d ?q)"
      unfolding q2 by simp
    then show ?thesis
      using False f dl by (auto simp: append_level_def even_iff_mod_2_eq_zero less_Suc_eq simp del: power_Suc tree_node.simps(2))
  qed
qed simp

definition tree_inv :: "shield_env \<Rightarrow> commitment_tree \<Rightarrow> bool" where
  "tree_inv env t \<longleftrightarrow> length (leaves t) \<le> 2 ^ kTreeDepth \<and> frontier_ok env (leaves t) (frontier t)
     \<and> tree_root t = tree_node env (leaves t) kTreeDepth 0"

lemma tree_inv_init: "tree_inv env (CommitmentTree env)"
  by (simp add: tree_inv_def CommitmentTree_def frontier_ok_def tree_node_empty)

lemma frontier_step:
  assumes "frontier_ok env ls fr" and "length fr' = length fr"
    and "\<forall>k<length fr. fr' ! k = (if even (length ls div 2 ^ k)
          then tree_node env (ls @ [x]) k (length ls div 2 ^ k) else fr ! k)"
  shows "frontier_ok env (ls @ [x]) fr'"
  unfolding frontier_ok_def
proof (intro conjI allI impI)
  show "length fr' = kTreeDepth" using assms(1,2) by (simp add: frontier_ok_def)
  fix k
  assume k: "k < kTreeDepth" and odd: "odd (length (ls @ [x]) div 2 ^ k)"
  let ?q = "length ls div 2 ^ k"
  have s: "length (ls @ [x]) div 2 ^ k = (if even ?q then Suc ?q else ?q)"
    using odd by (auto simp: div_Suc split: if_splits)
  show "fr' ! k = tree_node env (ls @ [x]) k (length (ls @ [x]) div 2 ^ k - 1)"
  proof (cases "even ?q")
    case True
    then show ?thesis using assms k s by (simp add: frontier_ok_def)
  next
    case False
    then show ?thesis
      using left_sibling [OF assms(1) k False, of x] assms k s by (simp add: frontier_ok_def)
  qed
qed

lemma tree_inv_append:
  assumes "tree_inv env t" and "length (leaves t) < 2 ^ kTreeDepth"
  shows "tree_inv env (CommitmentTree_append env t cm)" and "leaves (CommitmentTree_append env t cm) = leaves t @ [cm]"
proof -
  have fo: "frontier_ok env (leaves t) (frontier t)" using assms(1) by (simp add: tree_inv_def)
  from append_levels [OF fo order_refl, of cm] obtain fr' where
    f: "foldl (append_level env (length (leaves t))) (frontier t, cm) [0..<kTreeDepth] =
        (fr', tree_node env (leaves t @ [cm]) kTreeDepth (length (leaves t) div 2 ^ kTreeDepth))"
    "length fr' = length (frontier t)"
    "\<forall>k<length (frontier t). fr' ! k = (if k < kTreeDepth \<and> even (length (leaves t) div 2 ^ k)
       then tree_node env (leaves t @ [cm]) k (length (leaves t) div 2 ^ k) else frontier t ! k)" by blast
  have t': "CommitmentTree_append env t cm =
      \<lparr>leaves = leaves t @ [cm], frontier = fr', tree_root = tree_node env (leaves t @ [cm]) kTreeDepth 0\<rparr>"
    using f(1) assms(2) by (simp add: CommitmentTree_append_def Let_def)
  then show "leaves (CommitmentTree_append env t cm) = leaves t @ [cm]" by simp
  have "frontier_ok env (leaves t @ [cm]) fr'"
    by (rule frontier_step [OF fo f(2)]) (use f(3) fo in \<open>simp add: frontier_ok_def\<close>)
  then show "tree_inv env (CommitmentTree_append env t cm)"
    using t' assms(2) by (simp add: tree_inv_def)
qed

lemma tree_inv_appends:
  assumes "tree_inv env t" and "length (leaves t) + length cms \<le> 2 ^ kTreeDepth"
  shows "tree_inv env (foldl (CommitmentTree_append env) t cms)
    \<and> leaves (foldl (CommitmentTree_append env) t cms) = leaves t @ cms"
  using assms
proof (induction cms arbitrary: t)
  case (Cons c cms)
  with tree_inv_append [OF Cons.prems(1), of c] show ?case by simp
qed simp

section \<open>Lemmas: authentication paths\<close>

text \<open>The root a verifier recomputes from a leaf, its position and the sibling hashes.\<close>

fun path_root :: "shield_env \<Rightarrow> nat \<Rightarrow> h32 \<Rightarrow> h32 list \<Rightarrow> h32" where
  "path_root env pos cur [] = cur"
| "path_root env pos cur (s # ss) =
     path_root env (pos div 2) (if even pos then merkle_node env cur s else merkle_node env s cur) ss"

definition is_layer :: "shield_env \<Rightarrow> h32 list \<Rightarrow> nat \<Rightarrow> h32 list \<Rightarrow> bool" where
  "is_layer env ls d layer \<longleftrightarrow>
     (\<forall>i. (if i < length layer then layer ! i else empty_at env d) = tree_node env ls d i)"

lemma length_next_layer: "length (next_layer env d l) = (length l + 1) div 2"
  by (induction env d l rule: next_layer.induct) auto

lemma next_layer_nth:
  "i < (length l + 1) div 2 \<Longrightarrow> next_layer env d l ! i =
     merkle_node env (l ! (2 * i)) (if 2 * i + 1 < length l then l ! (2 * i + 1) else empty_at env d)"
proof (induction env d l arbitrary: i rule: next_layer.induct)
  case (1 env d x y r)
  then show ?case by (cases i) auto
qed auto

lemma is_layer_next:
  assumes "is_layer env ls d layer"
  shows "is_layer env ls (Suc d) (next_layer env d layer)"
  unfolding is_layer_def
proof
  fix i
  have l: "(if j < length layer then layer ! j else empty_at env d) = tree_node env ls d j" for j
    using assms by (simp add: is_layer_def)
  show "(if i < length (next_layer env d layer) then next_layer env d layer ! i else empty_at env (Suc d)) =
      tree_node env ls (Suc d) i"
  proof (cases "2 * i < length layer")
    case True
    then have "i < (length layer + 1) div 2" by linarith
    with True l [of "2 * i"] l [of "2 * i + 1"] show ?thesis
      by (simp add: length_next_layer next_layer_nth)
  next
    case False
    then have "\<not> i < (length layer + 1) div 2" by linarith
    with False l [of "2 * i"] l [of "2 * i + 1"] show ?thesis
      by (simp add: length_next_layer)
  qed
qed

lemma path_loop_root:
  "is_layer env ls d layer \<Longrightarrow>
     path_root env pos (tree_node env ls d pos) (path_loop env n d pos layer) = tree_node env ls (d + n) (pos div 2 ^ n)"
proof (induction n arbitrary: d pos layer)
  case (Suc n)
  have l: "(if j < length layer then layer ! j else empty_at env d) = tree_node env ls d j" for j
    using Suc.prems by (simp add: is_layer_def)
  have "tree_node env ls (Suc d) (pos div 2) =
      (if even pos then merkle_node env (tree_node env ls d pos) (tree_node env ls d (pos + 1))
       else merkle_node env (tree_node env ls d (pos - 1)) (tree_node env ls d pos))"
    by (auto elim!: oddE)
  then show ?case
    using Suc.IH [OF is_layer_next [OF Suc.prems], of "pos div 2"] l [of "pos + 1"] l [of "pos - 1"]
    by (auto simp: Let_def even_iff_mod_2_eq_zero div_mult2_eq [symmetric] mult.commute)
qed simp

lemma length_path_loop: "length (path_loop env n d pos layer) = n"
  by (induction n arbitrary: d pos layer) (simp_all add: Let_def)

lemma is_layer_leaves: "is_layer env ls 0 ls"
  by (simp add: is_layer_def)

lemma path_authenticates:
  assumes "tree_inv env t" and "pos < length (leaves t)"
  shows "\<exists>sib. CommitmentTree_path env t pos = Some sib \<and> length sib = kTreeDepth
    \<and> path_root env pos (leaves t ! pos) sib = tree_root t"
proof -
  have "pos < 2 ^ kTreeDepth" using assms by (simp add: tree_inv_def)
  then show ?thesis
    using assms path_loop_root [OF is_layer_leaves [of env "leaves t"], of pos kTreeDepth]
    by (simp add: CommitmentTree_path_def length_path_loop tree_inv_def)
qed
section \<open>Lemmas: consensus state\<close>

definition recent_ok :: "shield_state \<Rightarrow> bool" where
  "recent_ok s \<longleftrightarrow> sh_recent_set s = hex32 ` set (sh_recent s) \<and> distinct (sh_recent s)
     \<and> length (sh_recent s) \<le> kRecentAnchors"

lemma hex32_eq [simp]: "hex32 a = hex32 b \<longleftrightarrow> a = b"
  by (simp add: hex32_def)

lemma trim_recent_id: "length q \<le> kRecentAnchors \<Longrightarrow> trim_recent q S = (q, S)"
  by (cases q) auto

lemma remember_root_keeps [simp]:
  "sh_tree (remember_root s) = sh_tree s" "sh_nfs (remember_root s) = sh_nfs s" "sh_cms (remember_root s) = sh_cms s"
  by (simp_all add: remember_root_def Let_def split: prod.split)

lemma remember_root_ok:
  assumes "recent_ok s"
  shows "recent_ok (remember_root s) \<and> hex32 (tree_root (sh_tree s)) \<in> sh_recent_set (remember_root s)"
proof (cases "hex32 (tree_root (sh_tree s)) \<in> sh_recent_set s")
  case True
  then show ?thesis
    using assms by (simp add: remember_root_def Let_def trim_recent_id recent_ok_def insert_absorb)
next
  case False
  let ?r = "tree_root (sh_tree s)"
  have fresh: "?r \<notin> set (sh_recent s)" using False assms by (auto simp: recent_ok_def)
  show ?thesis
  proof (cases "length (sh_recent s) < kRecentAnchors")
    case True
    then show ?thesis
      using False fresh assms by (simp add: remember_root_def Let_def trim_recent_id recent_ok_def)
  next
    case full: False
    then obtain x xs where q: "sh_recent s = x # xs" "length (x # xs) = kRecentAnchors"
      using assms by (cases "sh_recent s") (auto simp: recent_ok_def kRecentAnchors_def)
    then show ?thesis
      using False fresh assms
      by (auto simp: remember_root_def Let_def trim_recent_id recent_ok_def)
  qed
qed

definition shield_inv :: "shield_env \<Rightarrow> shield_state \<Rightarrow> bool" where
  "shield_inv env s \<longleftrightarrow> tree_inv env (sh_tree s) \<and> recent_ok s
     \<and> hex32 (tree_root (sh_tree s)) \<in> sh_recent_set s \<and> sh_cms s = hex32 ` set (leaves (sh_tree s))"

lemma CommitmentTree_leaves [simp]: "leaves (CommitmentTree env) = []"
  by (simp add: CommitmentTree_def)

lemma shield_inv_init: "shield_inv env (State_init env)"
proof -
  let ?s = "\<lparr>sh_tree = CommitmentTree env, sh_recent = [], sh_recent_set = {}, sh_nfs = {}, sh_cms = {}\<rparr>"
  have "recent_ok ?s" by (simp add: recent_ok_def)
  from remember_root_ok [OF this] show ?thesis
    by (simp add: shield_inv_def State_init_def tree_inv_init)
qed

lemma foldl_insert: "foldl (\<lambda>S n. insert (f n) S) S xs = S \<union> f ` set xs"
  by (induction xs arbitrary: S) auto

lemma nullifiers_fresh_iff:
  "nullifiers_fresh spent pending local ns \<longleftrightarrow>
     distinct ns \<and> hex32 ` set ns \<inter> (spent \<union> pending \<union> local) = {}"
  by (induction ns arbitrary: local) auto

lemma State_check_ok:
  "State_check s b pending = Inr () \<longleftrightarrow>
     length (commitments b) = length (enc b) \<and> (nullifiers b \<noteq> [] \<or> commitments b \<noteq> [])
     \<and> (nullifiers b \<noteq> [] \<longrightarrow> hex32 (anchor b) \<in> sh_recent_set s)
     \<and> (nullifiers b = [] \<longrightarrow> anchor b = zero32)
     \<and> length (leaves (sh_tree s)) + length (commitments b) \<le> 2 ^ kTreeDepth
     \<and> distinct (nullifiers b) \<and> hex32 ` set (nullifiers b) \<inter> (sh_nfs s \<union> pending) = {}
     \<and> hex32 ` set (commitments b) \<inter> sh_cms s = {}"
  by (auto simp: State_check_def nullifiers_fresh_iff list_ex_iff split: if_splits)

lemma State_apply_fields:
  "sh_nfs (State_apply env s b) = sh_nfs s \<union> hex32 ` set (nullifiers b)"
  "sh_tree (State_apply env s b) = foldl (CommitmentTree_append env) (sh_tree s) (commitments b)"
  "sh_cms (State_apply env s b) = sh_cms s \<union> hex32 ` set (commitments b)"
  by (simp_all add: State_apply_def foldl_insert)

lemma shield_inv_apply:
  assumes "shield_inv env s" and "State_check s b pending = Inr ()"
  shows "shield_inv env (State_apply env s b)
    \<and> leaves (sh_tree (State_apply env s b)) = leaves (sh_tree s) @ commitments b"
proof -
  let ?t = "foldl (CommitmentTree_append env) (sh_tree s) (commitments b)"
  have t: "tree_inv env ?t \<and> leaves ?t = leaves (sh_tree s) @ commitments b"
    using assms by (intro tree_inv_appends) (simp_all add: shield_inv_def State_check_ok)
  let ?s = "s\<lparr>sh_nfs := foldl (\<lambda>S n. insert (hex32 n) S) (sh_nfs s) (nullifiers b),
        sh_tree := ?t, sh_cms := foldl (\<lambda>S c. insert (hex32 c) S) (sh_cms s) (commitments b)\<rparr>"
  have "recent_ok ?s" using assms(1) by (simp add: shield_inv_def recent_ok_def)
  then have "recent_ok (remember_root ?s) \<and> hex32 (tree_root (sh_tree ?s)) \<in> sh_recent_set (remember_root ?s)"
    by (rule remember_root_ok)
  then show ?thesis
    using t assms(1) by (simp add: shield_inv_def State_apply_fields State_apply_def foldl_insert image_Un)
qed

text \<open>The states a chain reaches: bundles that pass the check, applied one after the other.\<close>

inductive shield_run :: "shield_env \<Rightarrow> z_bundle list \<Rightarrow> shield_state \<Rightarrow> bool" for env where
  run_init: "shield_run env [] (State_init env)"
| run_step: "shield_run env bs s \<Longrightarrow> State_check s b pending = Inr () \<Longrightarrow>
     shield_run env (bs @ [b]) (State_apply env s b)"

inductive_cases shield_run_NilE: "shield_run env [] s"

lemma State_init_nfs [simp]: "sh_nfs (State_init env) = {}" "leaves (sh_tree (State_init env)) = []"
  by (simp_all add: State_init_def)

lemma shield_run_inv:
  "shield_run env bs s \<Longrightarrow> shield_inv env s \<and> distinct (concat (map nullifiers bs))
     \<and> sh_nfs s = hex32 ` set (concat (map nullifiers bs))
     \<and> leaves (sh_tree s) = concat (map commitments bs)"
proof (induction rule: shield_run.induct)
  case (run_step bs s b pending)
  then show ?case
    using shield_inv_apply [of env s b pending]
    by (auto simp: State_apply_fields State_check_ok)
qed (simp add: shield_inv_init)

section \<open>Lemmas: key store and note encryption\<close>

text \<open>
  What the code relies on of AES-256-GCM (decryption inverts encryption, a tag of 16 bytes) and of
  ML-KEM-1024 (decapsulation recovers the shared secret, fixed ciphertext length).
\<close>

definition aead_correct :: "shield_env \<Rightarrow> bool" where
  "aead_correct env \<longleftrightarrow> (\<forall>k n a p ct. aes_gcm_enc env k n a p = Some ct \<longrightarrow>
     length ct = length p + 16 \<and> aes_gcm_dec env k n a ct = Some p)"

definition kem_correct :: "shield_env \<Rightarrow> string \<Rightarrow> string \<Rightarrow> bool" where
  "kem_correct env pk sk \<longleftrightarrow> (\<forall>rnd ct ss. kem_encaps env rnd pk = Some (ct, ss) \<longrightarrow>
     length ct = kem_ct_len env \<and> kem_decaps env ct sk = Some ss)"

interpretation zkey: field_codec putv get_blob "\<lambda>v. length v < 2 ^ 32"
proof
  fix v :: string and b i
  assume v: "length v < 2 ^ 32" and a: "at_off b i (putv v)"
  let ?n = "of_nat (length v) :: u32"
  have at: "at_off b i (put_u32 ?n)" "at_off b (i + length (put_u32 ?n)) v"
    using a by (simp_all add: putv_def)
  have n: "unat ?n = length v" using v by (simp add: unat_of_nat)
  have "i + 4 \<le> length b \<and> le_word 4 b i = ?n"
    using u32.get_put [OF TrueI at(1)] by (auto simp: get_u32_def split: if_splits)
  then show "get_blob b i = Some (v, i + length (putv v))"
    using n rd_take_at [OF at(2)] by (simp add: get_blob_def Let_def rd_take_def putv_def length_put_int split: if_splits)
qed

lemma read_keystore_ok:
  assumes "length (sk_nk sk) = 32" and "length (sk_kem_sk sk) < 2 ^ 32" and "length (sk_kem_pk sk) < 2 ^ 32"
  shows "read_keystore (putv (sk_nk sk) @ putv (sk_kem_sk sk) @ putv (sk_kem_pk sk)) = Some sk"
proof -
  let ?a = "putv (sk_nk sk)" and ?b = "putv (sk_kem_sk sk)" and ?c = "putv (sk_kem_pk sk)"
  have at: "at_off (?a @ ?b @ ?c) 0 ?a" "at_off (?a @ ?b @ ?c) (length ?a) ?b" "at_off (?a @ ?b @ ?c) (length ?a + length ?b) ?c"
    by (auto simp: at_off_def)
  show ?thesis
    using assms zkey.get_put [OF _ at(1)] zkey.get_put [OF _ at(2)] zkey.get_put [OF _ at(3)]
    by (simp add: read_keystore_def)
qed

lemma note_plain_parts:
  assumes "length r = 32" and "length memo \<le> kMemoSize"
  shows "length (note_plain v r memo) = kPlainSize"
    and "take 8 (note_plain v r memo) = put_u64 v"
    and "take 32 (drop 8 (note_plain v r memo)) = r"
    and "of_char (note_plain v r memo ! 40) + of_char (note_plain v r memo ! 41) * 256 = length memo"
    and "take (length memo) (drop 42 (note_plain v r memo)) = memo"
proof -
  have l: "length (put_u64 v) = 8" by (simp add: length_put_int)
  show "length (note_plain v r memo) = kPlainSize" "take 8 (note_plain v r memo) = put_u64 v"
    "take 32 (drop 8 (note_plain v r memo)) = r" "take (length memo) (drop 42 (note_plain v r memo)) = memo"
    using assms l by (simp_all add: note_plain_def Let_def kPlainSize_def)
  have "length memo div 256 < 256" using assms(2) by (simp add: kMemoSize_def)
  moreover have "note_plain v r memo ! 40 = char_of (length memo)" "note_plain v r memo ! 41 = char_of (length memo div 256)"
    using assms l by (simp_all add: note_plain_def Let_def nth_append)
  ultimately show "of_char (note_plain v r memo ! 40) + of_char (note_plain v r memo ! 41) * 256 = length memo"
    by simp
qed
section \<open>Properties\<close>

text \<open>
  No shielded note is spent twice: over any sequence of bundles that pass
  \<^verbatim>\<open>State::check\<close> and are applied, all nullifiers ever published are pairwise different, the
  recorded nullifier set is exactly theirs, the tree holds exactly the published commitments in
  order, its root is the root of the full depth-32 tree over them and is a valid anchor, and the
  anchor window never exceeds 256 entries.
\<close>

theorem shielded_no_double_spend:
  assumes "shield_run env bs s"
  shows "distinct (concat (map nullifiers bs))
    \<and> (\<forall>nf. nullifier_spent s nf \<longleftrightarrow> nf \<in> set (concat (map nullifiers bs)))
    \<and> leaves (sh_tree s) = concat (map commitments bs)
    \<and> tree_root (sh_tree s) = tree_node env (concat (map commitments bs)) kTreeDepth 0
    \<and> hex32 (tree_root (sh_tree s)) \<in> sh_recent_set s \<and> length (sh_recent s) \<le> kRecentAnchors"
  using shield_run_inv [OF assms]
  by (auto simp: nullifier_spent_def shield_inv_def recent_ok_def tree_inv_def)

definition sample_env :: shield_env where
  "sample_env = \<lparr>sha256 = (\<lambda>s. take 32 (rev s @ replicate 32 CHR ''0'')), image_id = zero32, stark_verify = None,
     aes_gcm_enc = (\<lambda>k n a p. Some (p @ replicate 16 CHR ''t'')),
     aes_gcm_dec = (\<lambda>k n a ct. Some (take (length ct - 16) ct)),
     kem_available = True, kem_encaps = (\<lambda>rnd pk. Some (''c'', pk)), kem_decaps = (\<lambda>ct sk. Some sk),
     kem_pk_len = 1, kem_sk_len = 1, kem_ct_len = 1\<rparr>"

definition sample_bundle :: z_bundle where
  "sample_bundle = \<lparr>vpub_in = 7, vpub_out = 0, anchor = zero32, nullifiers = [],
     commitments = [replicate 32 CHR ''a''], enc = [\<lparr>kem_ct = ''c'', aead_ct = ''x''\<rparr>], proof_bytes = ''p''\<rparr>"

definition sample_spend_bundle :: z_bundle where
  "sample_spend_bundle = sample_bundle\<lparr>anchor := tree_root (sh_tree (State_apply sample_env (State_init sample_env) sample_bundle)),
     nullifiers := [replicate 32 CHR ''n''], commitments := [], enc := []\<rparr>"

theorem shielded_no_double_spend_witness:
  "\<exists>s. distinct (concat (map nullifiers [sample_bundle, sample_spend_bundle]))
    \<and> (\<forall>nf. nullifier_spent s nf \<longleftrightarrow> nf \<in> set (concat (map nullifiers [sample_bundle, sample_spend_bundle])))
    \<and> leaves (sh_tree s) = concat (map commitments [sample_bundle, sample_spend_bundle])
    \<and> tree_root (sh_tree s) = tree_node sample_env (concat (map commitments [sample_bundle, sample_spend_bundle])) kTreeDepth 0
    \<and> hex32 (tree_root (sh_tree s)) \<in> sh_recent_set s \<and> length (sh_recent s) \<le> kRecentAnchors"
proof -
  let ?s = "State_apply sample_env (State_init sample_env) sample_bundle"
  have c1: "State_check (State_init sample_env) sample_bundle {} = Inr ()"
    by (simp add: State_check_ok sample_bundle_def kTreeDepth_def State_init_def)
  then have r1: "shield_run sample_env ([] @ [sample_bundle]) ?s" by (rule shield_run.run_step [OF shield_run.run_init])
  have "State_check ?s sample_spend_bundle {} = Inr ()"
    using shield_run_inv [OF r1]
    by (simp add: State_check_ok sample_spend_bundle_def shield_inv_def sample_bundle_def kTreeDepth_def)
  from shield_run.run_step [OF r1 this] have "shield_run sample_env [sample_bundle, sample_spend_bundle]
      (State_apply sample_env ?s sample_spend_bundle)" by simp
  then show ?thesis by (blast dest: shielded_no_double_spend)
qed

text \<open>
  Claim C37. The incremental commitment tree is a Merkle tree: appending any commitments (up to the
  capacity) to the empty tree gives the root of the full tree over them, and for every position
  \<^verbatim>\<open>path\<close> returns 32 siblings from which the leaf re-computes that root.
\<close>

theorem commitment_tree_authenticates:
  assumes "length cms \<le> 2 ^ kTreeDepth" and "pos < length cms"
    and "t = foldl (CommitmentTree_append env) (CommitmentTree env) cms"
  shows "tree_root t = tree_node env cms kTreeDepth 0
    \<and> (\<exists>sib. CommitmentTree_path env t pos = Some sib \<and> length sib = kTreeDepth
        \<and> path_root env pos (cms ! pos) sib = tree_root t)"
proof -
  have "tree_inv env t \<and> leaves t = cms"
    using tree_inv_appends [OF tree_inv_init, of env cms] assms(1,3) by simp
  then show ?thesis
    using path_authenticates [of env t pos] assms(2) unfolding tree_inv_def by blast
qed

theorem commitment_tree_authenticates_witness:
  "tree_root (foldl (CommitmentTree_append sample_env) (CommitmentTree sample_env) [''a'', ''b'', ''c'']) =
     tree_node sample_env [''a'', ''b'', ''c''] kTreeDepth 0
   \<and> (\<exists>sib. CommitmentTree_path sample_env (foldl (CommitmentTree_append sample_env) (CommitmentTree sample_env) [''a'', ''b'', ''c'']) 2 = Some sib
        \<and> length sib = kTreeDepth
        \<and> path_root sample_env 2 ([''a'', ''b'', ''c''] ! 2) sib =
            tree_root (foldl (CommitmentTree_append sample_env) (CommitmentTree sample_env) [''a'', ''b'', ''c'']))"
  by (rule commitment_tree_authenticates) (simp_all add: kTreeDepth_def)

text \<open>
  The hexadecimal transaction field of a bundle decodes to the bundle, for every bundle
  within the format's limits.
\<close>

theorem bundle_field_round_trip:
  assumes "bundle_ok b"
  shows "from_tx_field (to_tx_field b) = Inr b"
proof -
  have "serialize b \<noteq> []" by (simp add: serialize_def)
  then have "to_hex (serialize b) \<noteq> []" by (metis length_0_conv length_to_hex mult_is_0 zero_neq_numeral)
  then show ?thesis
    using length_serialize [OF assms] rd_bundle_serialize [OF assms]
    by (simp add: from_tx_field_def to_tx_field_def deserialize_def to_hex_lower hex_pairs_to_hex)
qed

theorem bundle_field_round_trip_witness: "from_tx_field (to_tx_field sample_bundle) = Inr sample_bundle"
  by (rule bundle_field_round_trip)
    (simp add: bundle_ok_def sample_bundle_def zero32_def kMaxIn_def kMaxOut_def kMaxProofBytes_def)

text \<open>
  A note encrypted to the address of a spending key is found again by its owner: scanning
  the output that carries it recovers value, randomness and memo, when AES-GCM and ML-KEM decrypt what
  they encrypt and the published commitment is that of the note.
\<close>

theorem note_round_trip:
  assumes aead: "aead_correct env" and kem: "kem_correct env (sk_kem_pk sk) (sk_kem_sk sk)"
    and len: "length (sk_kem_sk sk) = kem_sk_len env" "length r = 32" "length iv = 12"
    and e: "encrypt_note cr env kem_rnd (Some iv) (SpendingKey_address env sk) v r memo = Inr (enc b ! j)"
    and j: "j < length (enc b)" "j < length (commitments b)"
    and cm: "rho = output_rho env (bind_hash env tx b) (nullifiers b) (of_nat j)"
      "commitments b ! j = note_commitment env v (owner_tag env (sk_nk sk)) rho r"
  shows "try_decrypt cr env sk tx b j = Some \<lparr>nt_value = v, nt_owner = owner_tag env (sk_nk sk), nt_rho = rho,
    nt_r = r, nt_position = 0, nt_memo = memo\<rparr>"
proof -
  let ?pt = "note_plain v r memo"
  from e obtain ct ss body where m: "length memo \<le> kMemoSize" "kem_available env"
    and k: "kem_encaps env kem_rnd (sk_kem_pk sk) = Some (ct, ss)"
    and a: "aes_gcm_enc env (note_key cr ss ct) iv ct ?pt = Some body"
    and ej: "enc b ! j = \<lparr>kem_ct = ct, aead_ct = iv @ body\<rparr>"
    by (auto simp: encrypt_note_def SpendingKey_address_def split: if_splits option.splits)
  note pt = note_plain_parts [OF len(2) m(1), of v]
  have d: "length ct = kem_ct_len env" "kem_decaps env ct (sk_kem_sk sk) = Some ss"
    using kem k by (auto simp: kem_correct_def)
  have b: "length body = kPlainSize + 16" "aes_gcm_dec env (note_key cr ss ct) iv ct body = Some ?pt"
    using aead a pt(1) by (auto simp: aead_correct_def)
  have "foldl (\<lambda>v c. push_bit 8 v OR of_nat (of_char c)) 0 (rev (take 8 ?pt)) = v"
    unfolding pt(2) put_u64_def by (rule fold_put_le) simp
  then show ?thesis
    using j len d b m pt(1,3-5) cm ej by (simp add: try_decrypt_def Let_def)
qed

definition sample_sk :: spending_key where
  "sample_sk = \<lparr>sk_nk = zero32, sk_kem_sk = ''k'', sk_kem_pk = ''k''\<rparr>"

definition sample_note_bundle :: z_bundle where
  "sample_note_bundle =
     (let b = sample_bundle\<lparr>enc := [\<lparr>kem_ct = ''c'', aead_ct = replicate 12 CHR ''i'' @ note_plain 5 zero32 ''hi'' @ replicate 16 CHR ''t''\<rparr>]\<rparr>
      in b\<lparr>commitments := [note_commitment sample_env 5 (owner_tag sample_env zero32)
             (output_rho sample_env (bind_hash sample_env sample_spend b) [] 0) zero32]\<rparr>)"

theorem note_round_trip_witness:
  "try_decrypt sample_crypto sample_env sample_sk sample_spend sample_note_bundle 0 =
     Some \<lparr>nt_value = 5, nt_owner = owner_tag sample_env (sk_nk sample_sk),
       nt_rho = output_rho sample_env (bind_hash sample_env sample_spend sample_note_bundle) (nullifiers sample_note_bundle) (of_nat 0),
       nt_r = zero32, nt_position = 0, nt_memo = ''hi''\<rparr>"
proof (rule note_round_trip [where iv = "replicate 12 CHR ''i''" and kem_rnd = "[]"])
  show "aead_correct sample_env" by (auto simp: aead_correct_def sample_env_def)
  show "kem_correct sample_env (sk_kem_pk sample_sk) (sk_kem_sk sample_sk)"
    by (auto simp: kem_correct_def sample_env_def sample_sk_def)
  show "encrypt_note sample_crypto sample_env [] (Some (replicate 12 CHR ''i'')) (SpendingKey_address sample_env sample_sk) 5 zero32 ''hi'' =
      Inr (enc sample_note_bundle ! 0)"
    by (simp add: encrypt_note_def SpendingKey_address_def sample_env_def sample_sk_def sample_note_bundle_def Let_def kMemoSize_def)
  show "commitments sample_note_bundle ! 0 = note_commitment sample_env 5 (owner_tag sample_env (sk_nk sample_sk))
      (output_rho sample_env (bind_hash sample_env sample_spend sample_note_bundle) (nullifiers sample_note_bundle) (of_nat 0)) zero32"
    by (simp add: sample_note_bundle_def sample_sk_def sample_bundle_def Let_def bind_hash_def)
qed (simp_all add: sample_sk_def sample_env_def zero32_def sample_note_bundle_def Let_def sample_bundle_def)

text \<open>
  A sealed spending key opens again under the same secret, when AES-GCM decrypts what it
  encrypts.
\<close>

theorem keystore_round_trip:
  assumes "aead_correct env" and "length (sk_nk sk) = 32" and "length (sk_kem_sk sk) < 2 ^ 32"
    and "length (sk_kem_pk sk) < 2 ^ 32" and "length iv = 12"
    and "seal_spending_key env (Some iv) sk secret = Inr sealed"
  shows "open_spending_key env sealed secret = Inr sk"
proof -
  let ?p = "putv (sk_nk sk) @ putv (sk_kem_sk sk) @ putv (sk_kem_pk sk)"
  from assms(6) obtain ct where c: "aes_gcm_enc env (keystore_key env secret) iv kKeystoreAad ?p = Some ct"
    and s: "sealed = kKeystoreAad @ iv @ ct"
    by (auto simp: seal_spending_key_def Let_def split: if_splits option.splits)
  have "length ct = length ?p + 16" "aes_gcm_dec env (keystore_key env secret) iv kKeystoreAad ct = Some ?p"
    using assms(1) c by (auto simp: aead_correct_def)
  then show ?thesis
    using s assms(5) read_keystore_ok [OF assms(2-4)]
    by (simp add: open_spending_key_def kKeystoreAad_def)
qed

theorem keystore_round_trip_witness:
  "open_spending_key sample_env (kKeystoreAad @ replicate 12 CHR ''i''
     @ (putv (sk_nk sample_sk) @ putv (sk_kem_sk sample_sk) @ putv (sk_kem_pk sample_sk)) @ replicate 16 CHR ''t'') ''pw'' = Inr sample_sk"
proof (rule keystore_round_trip [where iv = "replicate 12 CHR ''i''"])
  show "aead_correct sample_env" by (auto simp: aead_correct_def sample_env_def)
qed (simp_all add: sample_sk_def zero32_def seal_spending_key_def sample_env_def Let_def)
end
