(* ===== verification/Staking.thy ===== *)
theory Staking
  imports Block_Model "HOL-Library.Multiset"
begin

text \<open>
  \<^verbatim>\<open>staking.cpp\<close>: the message a stake vote signs, the deterministic stake-weighted draw of the voting
  tickets, the split of the stakers' reward, and the inert \<^verbatim>\<open>StakingEngine\<close>. The lemmas show that the
  draw picks different live tickets, as many as it can, independently of the order they come in,
  and that the shares never exceed the pool.
\<close>

unbundle bit_operations_syntax

section \<open>Definitions\<close>

definition kStakeAddress :: string where "kStakeAddress = ''@stake''"

record stake_ticket =
  tk_id :: string
  tk_owner :: string
  tk_owner_pubkey :: string
  tk_amount :: u64
  tk_lock_height :: u64

definition kDeprecated :: string where
  "kDeprecated = ''off-chain staking removed; use on-chain stake lock (tx output to @stake)''"

definition seed_u64 :: "crypto \<Rightarrow> string \<Rightarrow> u32 \<Rightarrow> u64" where
  "seed_u64 cr seed rnd =
     (let digest = sha3 cr (''ADDITION_TICKET_DRAW_V1|'' @ seed @ ''|'' @ to_string rnd)
      in foldl (\<lambda>v i. push_bit 8 v OR of_nat (of_char (digest ! i))) 0 [0..<8])"

definition stake_vote_message :: "string \<Rightarrow> u64 \<Rightarrow> string \<Rightarrow> string \<Rightarrow> bool \<Rightarrow> string" where
  "stake_vote_message network_id height hash ticket appr =
     ''ADDITION_STAKE_VOTE_V1|'' @ network_id @ ''|'' @ to_string height @ ''|'' @ hash @ ''|'' @ ticket @ ''|''
     @ (if appr then ''approve'' else ''reject'')"

text \<open>The inner loop of a draw: the first ticket whose running total exceeds \<open>r\<close>, and the others.\<close>

fun pick_ticket :: "u128 \<Rightarrow> u128 \<Rightarrow> stake_ticket list \<Rightarrow> (stake_ticket \<times> stake_ticket list) option" where
  "pick_ticket r acc [] = None"
| "pick_ticket r acc (t # ts) =
     (let acc = acc + ucast (tk_amount t) in
      if r < acc then Some (t, ts)
      else map_option (\<lambda>(x, rest). (x, t # rest)) (pick_ticket r acc ts))"

fun draw_loop :: "crypto \<Rightarrow> string \<Rightarrow> nat \<Rightarrow> u32 \<Rightarrow> stake_ticket list \<Rightarrow> u128 \<Rightarrow> string list" where
  "draw_loop cr seed 0 rnd eligible tot = []"
| "draw_loop cr seed (Suc n) rnd eligible tot =
     (if eligible = [] \<or> tot = 0 then []
      else
        (let r = (push_bit 64 (ucast (seed_u64 cr seed (rnd * 2))) OR ucast (seed_u64 cr seed (rnd * 2 + 1))) mod tot
         in case pick_ticket r 0 eligible of
              None \<Rightarrow> draw_loop cr seed n (rnd + 1) eligible tot
            | Some (t, rest) \<Rightarrow>
                tk_id t # draw_loop cr seed n (rnd + 1) rest (tot - ucast (tk_amount t))))"

text \<open>\<^verbatim>\<open>std::sort\<close> by id; tickets are the entries of a map keyed by id, so no two ids are equal.\<close>

definition select_tickets :: "crypto \<Rightarrow> stake_ticket list \<Rightarrow> string \<Rightarrow> u32 \<Rightarrow> string list" where
  "select_tickets cr eligible seed cnt =
     (let els = sort_key tk_id eligible;
          tot = foldl (\<lambda>a t. a + ucast (tk_amount t)) 0 els
      in draw_loop cr seed (unat cnt) 0 els tot)"

definition stake_reward_pool :: "u64 \<Rightarrow> u32 \<Rightarrow> u64" where
  "stake_reward_pool subsidy_plus_fees bps =
     ucast ((ucast subsidy_plus_fees * ucast (min bps 10000)) div 10000 :: u128)"

definition stake_reward_per_vote :: "u64 \<Rightarrow> u32 \<Rightarrow> nat \<Rightarrow> u64" where
  "stake_reward_per_vote subsidy_plus_fees bps nvotes =
     (if nvotes = 0 then 0 else stake_reward_pool subsidy_plus_fees bps div of_nat nvotes)"

text \<open>The old ledger refuses every operation and holds nothing.\<close>

definition StakingEngine_stake :: "string \<Rightarrow> u64 \<Rightarrow> unit res" where
  "StakingEngine_stake addr amt = Inl kDeprecated"

definition StakingEngine_unstake :: "string \<Rightarrow> u64 \<Rightarrow> unit res" where
  "StakingEngine_unstake addr amt = Inl kDeprecated"

definition StakingEngine_consume_staked_credit :: "string \<Rightarrow> u64 \<Rightarrow> unit res" where
  "StakingEngine_consume_staked_credit addr amt = Inl kDeprecated"

section \<open>Lemmas: the draw\<close>

definition stake_sum :: "stake_ticket list \<Rightarrow> nat" where
  "stake_sum ts = sum_list (map (unat \<circ> tk_amount) ts)"

lemma stake_sum_simps [simp]:
  "stake_sum [] = 0" "stake_sum (t # ts) = unat (tk_amount t) + stake_sum ts"
  by (simp_all add: stake_sum_def)

lemma stake_sum_bound: "stake_sum ts \<le> length ts * 18446744073709551615"
  by (induction ts) (auto intro: add_mono)

lemma stake_sum_small: "length ts < 2 ^ 64 \<Longrightarrow> stake_sum ts < 2 ^ 128"
  using stake_sum_bound [of ts] by simp

lemma unat_foldl_amounts:
  "unat a + stake_sum ts < 2 ^ 128 \<Longrightarrow>
     unat (foldl (\<lambda>a t. a + ucast (tk_amount t)) (a :: u128) ts) = unat a + stake_sum ts"
  by (induction ts arbitrary: a) (simp_all add: u128_add_ok)

text \<open>A draw below the total succeeds; it splits the list at a ticket with a positive amount.\<close>

lemma pick_ticket_ok:
  assumes "unat acc + stake_sum ts < 2 ^ 128" and "acc \<le> r" and "unat r < unat acc + stake_sum ts"
  shows "\<exists>pre t post. ts = pre @ t # post \<and> pick_ticket r acc ts = Some (t, pre @ post) \<and> tk_amount t \<noteq> 0"
  using assms
proof (induction r acc ts rule: pick_ticket.induct)
  case (2 r acc t ts)
  let ?a = "acc + ucast (tk_amount t)"
  have a: "unat ?a = unat acc + unat (tk_amount t)"
    using "2.prems"(1) by (simp add: u128_add_ok)
  show ?case
  proof (cases "r < ?a")
    case True
    then have "tk_amount t \<noteq> 0" using "2.prems"(2) by auto
    with True show ?thesis by (intro exI [of _ "[]"] exI [of _ t] exI [of _ ts]) simp
  next
    case False
    with "2.IH" [of ?a] "2.prems" a obtain pre x post where
      "ts = pre @ x # post" "pick_ticket r ?a ts = Some (x, pre @ post)" "tk_amount x \<noteq> 0"
      by (auto simp: not_less)
    with False show ?thesis
      by (intro exI [of _ "t # pre"] exI [of _ x] exI [of _ post]) simp
  qed
qed (simp add: word_le_nat_alt)

lemma stake_sum_append [simp]: "stake_sum (xs @ ys) = stake_sum xs + stake_sum ys"
  by (simp add: stake_sum_def)

lemma stake_sum_0: "stake_sum ts = 0 \<Longrightarrow> filter (\<lambda>t. tk_amount t \<noteq> 0) ts = []"
  by (induction ts) (auto simp: unat_eq_0)

lemma draw_loop_ok:
  assumes "unat tot = stake_sum ts" and "stake_sum ts < 2 ^ 128" and "distinct (map tk_id ts)"
  shows "distinct (draw_loop cr seed n rnd ts tot)
    \<and> set (draw_loop cr seed n rnd ts tot) \<subseteq> tk_id ` {t \<in> set ts. tk_amount t \<noteq> 0}
    \<and> length (draw_loop cr seed n rnd ts tot) = min n (length (filter (\<lambda>t. tk_amount t \<noteq> 0) ts))"
  using assms
proof (induction n arbitrary: rnd ts tot)
  case (Suc n)
  show ?case
  proof (cases "ts = [] \<or> tot = 0")
    case True
    with Suc.prems(1) have "filter (\<lambda>t. tk_amount t \<noteq> 0) ts = []" by (auto intro: stake_sum_0)
    with True show ?thesis by auto
  next
    case False
    define r where "r = (push_bit 64 (ucast (seed_u64 cr seed (rnd * 2))) OR ucast (seed_u64 cr seed (rnd * 2 + 1))) mod tot"
    have "r < tot" using False unfolding r_def by (simp add: word_mod_less_divisor word_gt_0)
    then have "unat r < unat 0 + stake_sum ts" using Suc.prems(1) by (simp add: word_less_nat_alt)
    then obtain pre t post where s: "ts = pre @ t # post" "pick_ticket r 0 ts = Some (t, pre @ post)" "tk_amount t \<noteq> 0"
      using pick_ticket_ok [of 0 ts r] Suc.prems(2) by auto
    let ?tot = "tot - ucast (tk_amount t)"
    have "unat ?tot = stake_sum (pre @ post)"
      using Suc.prems(1) s(1) by (subst unat_sub) (simp_all add: word_le_nat_alt)
    then have "distinct (draw_loop cr seed n (rnd + 1) (pre @ post) ?tot)
      \<and> set (draw_loop cr seed n (rnd + 1) (pre @ post) ?tot) \<subseteq> tk_id ` {t \<in> set (pre @ post). tk_amount t \<noteq> 0}
      \<and> length (draw_loop cr seed n (rnd + 1) (pre @ post) ?tot) = min n (length (filter (\<lambda>t. tk_amount t \<noteq> 0) (pre @ post)))"
      using Suc.prems(2,3) s(1) by (intro Suc.IH) auto
    moreover have "draw_loop cr seed (Suc n) rnd ts tot = tk_id t # draw_loop cr seed n (rnd + 1) (pre @ post) ?tot"
      using False s(2) by (simp add: r_def [symmetric])
    ultimately show ?thesis
      using Suc.prems(3) s by auto
  qed
qed auto

lemma sort_key_mset_eq:
  assumes "mset xs = mset ys" and "distinct (map f xs)"
  shows "sort_key f xs = sort_key f ys"
proof (rule properties_for_sort_key)
  show "mset (sort_key f ys) = mset xs" using assms by simp
next
  fix k
  assume "k \<in> set (sort_key f ys)"
  have "distinct (map f ys)" using assms by (metis mset_map mset_eq_imp_distinct_iff)
  then have "x \<in> set ys \<Longrightarrow> filter (\<lambda>y. f x = f y) ys = [x]" for x
    by (induction ys) (auto simp: filter_empty_conv image_iff)
  moreover have "x \<in> set xs \<Longrightarrow> filter (\<lambda>y. f x = f y) xs = [x]" for x
    using assms(2) by (induction xs) (auto simp: filter_empty_conv image_iff)
  moreover have "k \<in> set ys" "k \<in> set xs"
    using \<open>k \<in> set (sort_key f ys)\<close> assms(1) by (auto dest: mset_eq_setD)
  ultimately show "filter (\<lambda>x. f k = f x) (sort_key f ys) = filter (\<lambda>x. f k = f x) xs"
    by (simp add: filter_sort)
next
  show "sorted (map f (sort_key f ys))" by simp
qed

section \<open>Lemmas: rewards\<close>

lemma unat_min_u32 [simp]: "unat (min a b :: u32) = min (unat a) (unat b)"
  by (simp add: min_def word_le_nat_alt)

lemma stake_reward_pool_unat:
  "unat (stake_reward_pool spf bps) = unat spf * min (unat bps) 10000 div 10000"
proof -
  let ?m = "min (unat bps) 10000"
  have le: "unat spf * ?m \<le> unat spf * 10000" by simp
  also have "\<dots> < 18446744073709551616 * 10000" using unat_u64_bound [of spf] by linarith
  also have "\<dots> \<le> (2 :: nat) ^ 128" by simp
  finally have "unat (ucast spf * ucast (min bps 10000) :: u128) = unat spf * ?m"
    by (subst u128_mul_ok) simp_all
  then have u: "unat ((ucast spf * ucast (min bps 10000)) div 10000 :: u128) = unat spf * ?m div 10000"
    by (simp add: unat_div_distrib)
  have "unat spf * ?m div 10000 \<le> unat spf"
    using div_le_mono [OF le, of 10000] by simp
  then show ?thesis
    unfolding stake_reward_pool_def using u unat_u64_bound [of spf]
    by (subst unat_ucast_u128_u64) linarith+
qed

lemma stake_reward_pool_le: "unat (stake_reward_pool spf bps) \<le> unat spf"
  unfolding stake_reward_pool_unat by (metis div_le_mono div_mult_self_is_m min.cobounded2 mult_le_mono2 zero_less_numeral)

lemma stake_reward_per_vote_unat:
  assumes "nvotes < 2 ^ 64"
  shows "unat (stake_reward_per_vote spf bps nvotes) = unat (stake_reward_pool spf bps) div nvotes"
  using assms by (simp add: stake_reward_per_vote_def unat_div_distrib unat_of_nat_u64)

section \<open>Properties\<close>

text \<open>
  The ticket draw of a block selects without replacement: for tickets with different ids
  the selected ids are pairwise different, each belongs to an eligible ticket with a positive stake,
  their number is the smaller of the requested count and the number of such tickets (no round is
  lost), and the result does not depend on the order in which the ledger lists the tickets.
\<close>

theorem select_tickets_draw:
  assumes "distinct (map tk_id ts)" and "length ts < 2 ^ 64" and "mset ts' = mset ts"
  shows "distinct (select_tickets cr ts seed n)
    \<and> set (select_tickets cr ts seed n) \<subseteq> tk_id ` {t \<in> set ts. tk_amount t \<noteq> 0}
    \<and> length (select_tickets cr ts seed n) = min (unat n) (length (filter (\<lambda>t. tk_amount t \<noteq> 0) ts))
    \<and> select_tickets cr ts' seed n = select_tickets cr ts seed n"
proof -
  let ?s = "sort_key tk_id ts"
  have small: "stake_sum ?s < 2 ^ 128" using assms(2) by (intro stake_sum_small) simp
  have "unat (foldl (\<lambda>a t. a + ucast (tk_amount t)) (0 :: u128) ?s) = stake_sum ?s"
    using unat_foldl_amounts [of 0 ?s] small by simp
  moreover have "distinct (map tk_id ?s)"
    using assms(1) by (metis mset_map mset_sort mset_eq_imp_distinct_iff)
  moreover have "length (filter (\<lambda>t. tk_amount t \<noteq> 0) ?s) = length (filter (\<lambda>t. tk_amount t \<noteq> 0) ts)"
    by (metis mset_filter mset_sort size_mset)
  moreover have "sort_key tk_id ts' = ?s"
    using sort_key_mset_eq [OF assms(3) [symmetric] assms(1)] by simp
  ultimately show ?thesis
    using draw_loop_ok [of _ ?s cr seed "unat n" 0] small by (simp add: select_tickets_def Let_def)
qed

definition sample_tickets :: "stake_ticket list" where
  "sample_tickets =
     [\<lparr>tk_id = ''b:0'', tk_owner = ''o'', tk_owner_pubkey = ''p'', tk_amount = 5, tk_lock_height = 1\<rparr>,
      \<lparr>tk_id = ''a:0'', tk_owner = ''o'', tk_owner_pubkey = ''p'', tk_amount = 0, tk_lock_height = 1\<rparr>,
      \<lparr>tk_id = ''c:1'', tk_owner = ''o'', tk_owner_pubkey = ''p'', tk_amount = 7, tk_lock_height = 2\<rparr>]"

theorem select_tickets_draw_witness:
  "distinct (select_tickets sample_crypto sample_tickets ''s'' 5)
    \<and> set (select_tickets sample_crypto sample_tickets ''s'' 5) \<subseteq> tk_id ` {t \<in> set sample_tickets. tk_amount t \<noteq> 0}
    \<and> length (select_tickets sample_crypto sample_tickets ''s'' 5) = min (unat (5 :: u32)) (length (filter (\<lambda>t. tk_amount t \<noteq> 0) sample_tickets))
    \<and> select_tickets sample_crypto (rev sample_tickets) ''s'' 5 = select_tickets sample_crypto sample_tickets ''s'' 5"
  by (rule select_tickets_draw) (simp_all add: sample_tickets_def)

text \<open>
  The stakers' share is conserved: what the voters of a block are paid together never
  exceeds the pool, which is the floor of the configured fraction (capped at one) of subsidy and
  fees, and less than one unit per voter of the pool is left over.
\<close>

theorem stake_reward_conserved:
  assumes "0 < nvotes" and "nvotes < 2 ^ 64"
  shows "unat (stake_reward_pool spf bps) = unat spf * min (unat bps) 10000 div 10000
    \<and> unat (stake_reward_pool spf bps) \<le> unat spf
    \<and> nvotes * unat (stake_reward_per_vote spf bps nvotes) \<le> unat (stake_reward_pool spf bps)
    \<and> unat (stake_reward_pool spf bps) < nvotes * unat (stake_reward_per_vote spf bps nvotes) + nvotes"
proof -
  let ?p = "unat (stake_reward_pool spf bps)"
  have "?p mod nvotes < nvotes" using assms(1) by simp
  moreover have "nvotes * (?p div nvotes) + ?p mod nvotes = ?p" by simp
  ultimately show ?thesis
    using stake_reward_pool_le [of spf bps] stake_reward_pool_unat [of spf bps]
    unfolding stake_reward_per_vote_unat [OF assms(2)] by linarith
qed

theorem stake_reward_conserved_witness:
  "unat (stake_reward_pool 5000000007 2500) = unat (5000000007 :: u64) * min (unat (2500 :: u32)) 10000 div 10000
    \<and> unat (stake_reward_pool 5000000007 2500) \<le> unat (5000000007 :: u64)
    \<and> 3 * unat (stake_reward_per_vote 5000000007 2500 3) \<le> unat (stake_reward_pool 5000000007 2500)
    \<and> unat (stake_reward_pool 5000000007 2500) < 3 * unat (stake_reward_per_vote 5000000007 2500 3) + 3"
  by (rule stake_reward_conserved) simp_all

end
