(* ===== verification/Chain_State.thy ===== *)
theory Chain_State
  imports Consensus_Rules Script_Policy Shielded Staking
begin

text \<open>
  The state of \<^verbatim>\<open>class Chain\<close> (\<^verbatim>\<open>chain.hpp\<close>, \<^verbatim>\<open>chain.cpp\<close>) as a record, its configuration, and the
  operations that do not validate blocks: genesis and reset, queries, difficulty, work, wallet helpers
  and the staking queries. Configuration, cryptography and the shielded environment are the record
  \<open>chain_env\<close>.
\<close>

section \<open>Configuration and environment\<close>

datatype pow_algorithm = Sha3_512 | MemoryHard

text \<open>The fields of \<^verbatim>\<open>ChainConfig\<close> that the chain reads.\<close>

record chain_config =
  network_id :: string
  genesis_timestamp :: u64
  max_supply :: u64
  block_reward :: u64
  target_block_time_sec :: u32
  pow_alg :: pow_algorithm
  initial_difficulty_target :: u64
  min_difficulty_target :: u64
  max_difficulty_target :: u64
  retarget_window :: u32
  difficulty_fork_height :: u64
  lwma_window :: u32
  legacy_min_difficulty_target :: u64
  halving_interval :: u32
  subsidy_floor :: u64
  require_pq_signatures :: bool
  allow_zero_reward_blocks :: bool
  min_fee :: u64
  staking_activation_height :: u64
  stake_min_amount :: u64
  stake_maturity :: u64
  stake_unbond_delay :: u64
  stake_votes_per_block :: u32
  stake_vote_quorum :: u32
  stake_min_live_tickets :: u64
  stake_reward_bps :: u32
  max_block_weight :: u64
  shielded_enabled :: bool

record chain_env =
  ce_cfg :: chain_config
  ce_cr :: crypto
  ce_sh :: shield_env

definition kMainnetNetworkId :: string where "kMainnetNetworkId = ''ADDITION_MAINNET_V1''"
definition kRegtestNetworkId :: string where "kRegtestNetworkId = ''ADDITION_REGTEST_V1''"
definition kFastNetworkId :: string where "kFastNetworkId = ''ADDITION_FAST_V1''"
definition kFutureTimeLimitBlocks :: u64 where "kFutureTimeLimitBlocks = 15"

section \<open>State\<close>

record utxo =
  u_owner :: string
  u_amount :: u64
  u_spent :: bool
  u_spendable_height :: u64
  u_height :: u64

text \<open>
  \<open>tickets\<close> is the \<^verbatim>\<open>std::map\<close> as the list of its entries in key order. The commit hook, the
  pending-view hooks and the batch-verification statistics are not part of the consensus state.
\<close>

record chain_state =
  blocks :: "block list"
  utxo_set :: "string \<rightharpoonup> utxo"
  address_index :: "string \<rightharpoonup> u64"
  signer_last_nonce :: "string \<rightharpoonup> u64"
  seen_transactions :: "string set"
  pubkey_registry :: "string \<rightharpoonup> string"
  difficulty_target :: u64
  total_emitted :: u64
  total_fees_last_block :: u64
  cumulative_work :: u64
  tickets :: "(string \<times> stake_ticket) list"
  total_slashed :: u64
  applying_height :: u64
  shielded_st :: shield_state

fun omap_put :: "string \<Rightarrow> 'v \<Rightarrow> (string \<times> 'v) list \<Rightarrow> (string \<times> 'v) list" where
  "omap_put k v [] = [(k, v)]"
| "omap_put k v ((k', v') # m) =
     (if k = k' then (k, v) # m
      else if k < k' then (k, v) # (k', v') # m
      else (k', v') # omap_put k v m)"

definition omap_del :: "string \<Rightarrow> (string \<times> 'v) list \<Rightarrow> (string \<times> 'v) list" where
  "omap_del k m = filter (\<lambda>e. fst e \<noteq> k) m"

section \<open>Genesis\<close>

definition work_for_target :: "u64 \<Rightarrow> u64" where
  "work_for_target target = (if target = 0 then U64_MAX else U64_MAX div target)"

definition make_genesis :: "chain_env \<Rightarrow> u64 \<Rightarrow> block" where
  "make_genesis ce diff =
     (let cfg = ce_cfg ce in
      \<lparr>header = \<lparr>hd_height = 0,
         hd_previous_hash =
           (if network_id cfg = kMainnetNetworkId \<or> network_id cfg = kRegtestNetworkId \<or> network_id cfg = kFastNetworkId
            then ''genesis:'' @ network_id cfg else ''0''),
         hd_timestamp = genesis_timestamp cfg, hd_nonce = 0, hd_difficulty_target = diff,
         hd_merkle_root = compute_merkle_root (ce_cr ce) []\<rparr>,
       transactions = [], votes = [], slashes = []\<rparr>)"

text \<open>The constructor and \<^verbatim>\<open>reset()\<close> leave the same state.\<close>

definition Chain_reset :: "chain_env \<Rightarrow> chain_state" where
  "Chain_reset ce =
     (let diff = initial_difficulty_target (ce_cfg ce); g = make_genesis ce diff in
      \<lparr>blocks = [g], utxo_set = Map.empty, address_index = Map.empty, signer_last_nonce = Map.empty,
       seen_transactions = {}, pubkey_registry = Map.empty, difficulty_target = diff, total_emitted = 0,
       total_fees_last_block = 0, cumulative_work = 0 + work_for_target (hd_difficulty_target (header g)),
       tickets = [], total_slashed = 0, applying_height = 0, shielded_st = State_init (ce_sh ce)\<rparr>)"

section \<open>Queries\<close>

definition tip :: "chain_state \<Rightarrow> block" where "tip st = last (blocks st)"
definition height :: "chain_state \<Rightarrow> u64" where "height st = hd_height (header (tip st))"

definition block_at :: "chain_state \<Rightarrow> u64 \<Rightarrow> block option" where
  "block_at st h = (if unat h \<ge> length (blocks st) then None else Some (blocks st ! unat h))"

definition block_by_hash :: "chain_env \<Rightarrow> chain_state \<Rightarrow> string \<Rightarrow> block option" where
  "block_by_hash ce st h = find (\<lambda>b. hash_block_header (ce_cr ce) (header b) = h) (blocks st)"

definition genesis_hash :: "chain_env \<Rightarrow> chain_state \<Rightarrow> string" where
  "genesis_hash ce st = hash_block_header (ce_cr ce) (header (hd (blocks st)))"

definition tx_confirmations :: "chain_env \<Rightarrow> chain_state \<Rightarrow> string \<Rightarrow> u64" where
  "tx_confirmations ce st h =
     (if h = [] then 0
      else case find (\<lambda>b. list_ex (\<lambda>tx. hash_transaction (ce_cr ce) tx = h) (transactions b)) (blocks st) of
             None \<Rightarrow> 0
           | Some b \<Rightarrow> if height st \<ge> hd_height (header b) then height st - hd_height (header b) + 1 else 0)"

definition remaining_supply :: "chain_env \<Rightarrow> chain_state \<Rightarrow> u64" where
  "remaining_supply ce st =
     (if max_supply (ce_cfg ce) > total_emitted st then max_supply (ce_cfg ce) - total_emitted st else 0)"

definition balance_of :: "chain_state \<Rightarrow> string \<Rightarrow> u64" where "balance_of st a = bal (address_index st) a"
definition last_nonce :: "chain_state \<Rightarrow> string \<Rightarrow> u64" where "last_nonce st a = bal (signer_last_nonce st) a"

text \<open>\<open>pending\<close> is the hook \<^verbatim>\<open>pending_nonce_fn_\<close>, \<open>None\<close> when unset.\<close>

definition next_nonce :: "(string \<Rightarrow> u64) option \<Rightarrow> chain_state \<Rightarrow> string \<Rightarrow> u64" where
  "next_nonce pending st a =
     (let n = last_nonce st a + 1 in
      case pending of None \<Rightarrow> n | Some f \<Rightarrow> (let p = f a in if p \<ge> n then p + 1 else n))"

definition context_height :: "chain_state \<Rightarrow> u64" where
  "context_height st = (if applying_height st \<noteq> 0 then applying_height st else height st + 1)"

section \<open>Subsidy, difficulty and work\<close>

definition hash_meets_target :: "chain_env \<Rightarrow> string \<Rightarrow> u64 \<Rightarrow> bool" where
  "hash_meets_target ce hex_hash target =
     (case pow_alg (ce_cfg ce) of
        Sha3_512 \<Rightarrow> (case hash_head64 hex_hash of None \<Rightarrow> False | Some v \<Rightarrow> v \<le> target)
      | MemoryHard \<Rightarrow> (case memory_hard_head64 (ce_cr ce) hex_hash of None \<Rightarrow> False | Some v \<Rightarrow> v \<le> target))"

definition compute_block_reward :: "chain_env \<Rightarrow> u64 \<Rightarrow> u64" where
  "compute_block_reward ce h =
     (let cfg = ce_cfg ce in
      scheduled_block_subsidy h (block_reward cfg) (ucast (halving_interval cfg)) (subsidy_floor cfg))"

definition max_mintable_at :: "chain_env \<Rightarrow> chain_state \<Rightarrow> u64 \<Rightarrow> u64" where
  "max_mintable_at ce st h =
     (let cfg = ce_cfg ce in
      max_mintable_subsidy h (total_emitted st) (max_supply cfg) (block_reward cfg)
        (ucast (halving_interval cfg)) (subsidy_floor cfg))"

definition clamp_difficulty_target :: "chain_env \<Rightarrow> u64 \<Rightarrow> u64" where
  "clamp_difficulty_target ce t =
     (if t < min_difficulty_target (ce_cfg ce) then min_difficulty_target (ce_cfg ce)
      else if t > max_difficulty_target (ce_cfg ce) then max_difficulty_target (ce_cfg ce)
      else t)"

definition clamp_legacy :: "chain_env \<Rightarrow> u64 \<Rightarrow> u64" where
  "clamp_legacy ce t =
     (let cfg = ce_cfg ce;
          legacy_min = (if legacy_min_difficulty_target cfg \<noteq> 0
                        then max (legacy_min_difficulty_target cfg) (min_difficulty_target cfg)
                        else min_difficulty_target cfg)
      in min (max t legacy_min) (max_difficulty_target cfg))"

definition compute_legacy_difficulty_target :: "chain_env \<Rightarrow> chain_state \<Rightarrow> u64" where
  "compute_legacy_difficulty_target ce st =
     (let cfg = ce_cfg ce; window = unat (retarget_window cfg); bs = blocks st; d = difficulty_target st in
      if window = 0 \<or> length bs < window + 1 then clamp_legacy ce d
      else if hd_height (header (last bs)) mod of_nat window \<noteq> 0 then clamp_legacy ce d
      else
        (let oldest0 = length bs - 1 - window;
             oldest_index = (if oldest0 = 0 then 1 else oldest0) in
         if oldest_index \<ge> length bs - 1 then clamp_legacy ce d
         else
           (let newest = hd_timestamp (header (last bs));
                oldest = hd_timestamp (header (bs ! oldest_index));
                observed = (if newest > oldest then newest - oldest else 1);
                expected = of_nat window * ucast (target_block_time_sec cfg) in
            if expected = 0 then clamp_legacy ce d
            else
              (let floor_span = max 1 (expected div 4);
                   observed_capped = min (max observed floor_span) (expected * 4);
                   nxt = (if d > U64_MAX div observed_capped then max_difficulty_target cfg
                          else (d * observed_capped) div expected)
               in clamp_legacy ce nxt))))"

definition compute_next_difficulty_target :: "chain_env \<Rightarrow> chain_state \<Rightarrow> u64" where
  "compute_next_difficulty_target ce st =
     (let cfg = ce_cfg ce; bs = blocks st;
          next_height = (if bs = [] then 0 else hd_height (header (last bs)) + 1) in
      if next_height < difficulty_fork_height cfg then compute_legacy_difficulty_target ce st
      else
        (let window = max 2 (unat (lwma_window cfg)) in
         if length bs < 3 then clamp_difficulty_target ce (initial_difficulty_target cfg)
         else
           (let first = max 1 (length bs - min (length bs) (window + 1));
                ts = map (\<lambda>b. hd_timestamp (header b)) (drop first bs);
                tg = map (\<lambda>b. hd_difficulty_target (header b)) (drop first bs)
            in lwma_next_target ts tg (ucast (target_block_time_sec cfg)) (min_difficulty_target cfg)
                 (max_difficulty_target cfg) (difficulty_target st))))"

section \<open>Staking queries\<close>

definition staking_active_at :: "chain_env \<Rightarrow> u64 \<Rightarrow> bool" where
  "staking_active_at ce h \<longleftrightarrow> h \<ge> staking_activation_height (ce_cfg ce)"

definition ticket :: "chain_state \<Rightarrow> string \<Rightarrow> stake_ticket option" where
  "ticket st k = map_of (tickets st) k"

definition tickets_of :: "chain_state \<Rightarrow> string \<Rightarrow> stake_ticket list" where
  "tickets_of st own = filter (\<lambda>t. tk_owner t = own) (map snd (tickets st))"

definition staked_of :: "chain_state \<Rightarrow> string \<Rightarrow> u64" where
  "staked_of st own = foldl (\<lambda>a t. a + tk_amount t) 0 (tickets_of st own)"

definition total_staked :: "chain_state \<Rightarrow> u64" where
  "total_staked st = foldl (\<lambda>a e. a + tk_amount (snd e)) 0 (tickets st)"

definition eligible_tickets_at :: "chain_env \<Rightarrow> chain_state \<Rightarrow> u64 \<Rightarrow> stake_ticket list" where
  "eligible_tickets_at ce st voted =
     filter (\<lambda>t. tk_lock_height t + stake_maturity (ce_cfg ce) \<le> voted) (map snd (tickets st))"

definition selected_tickets_for_next_block :: "chain_env \<Rightarrow> chain_state \<Rightarrow> string list" where
  "selected_tickets_for_next_block ce st =
     (if \<not> staking_active_at ce (height st + 1) then []
      else select_tickets (ce_cr ce) (eligible_tickets_at ce st (height st))
             (hash_block_header (ce_cr ce) (header (tip st))) (stake_votes_per_block (ce_cfg ce)))"

definition stake_votes_required_for_next_block :: "chain_env \<Rightarrow> chain_state \<Rightarrow> bool" where
  "stake_votes_required_for_next_block ce st \<longleftrightarrow>
     staking_active_at ce (height st + 1)
     \<and> length (eligible_tickets_at ce st (height st)) \<ge> unat (stake_min_live_tickets (ce_cfg ce))"

definition ticket_with_key :: "chain_state \<Rightarrow> stake_ticket \<Rightarrow> stake_ticket" where
  "ticket_with_key st t =
     (if tk_owner_pubkey t = [] then
        (case pubkey_registry st (tk_owner t) of None \<Rightarrow> t | Some pk \<Rightarrow> t\<lparr>tk_owner_pubkey := pk\<rparr>)
      else t)"

definition pubkey_field_for :: "chain_state \<Rightarrow> string \<Rightarrow> string \<Rightarrow> string" where
  "pubkey_field_for st a pk = (if pubkey_registry st a = Some pk then [] else pk)"

definition vote_signature_ok :: "chain_env \<Rightarrow> stake_ticket \<Rightarrow> stake_vote \<Rightarrow> bool" where
  "vote_signature_ok ce t v =
     (if \<not> starts_with ''pq='' (vote_signature v) then False
      else verify_message_signature_hybrid_uncached (ce_cr ce) (tk_owner_pubkey t)
             (stake_vote_message (network_id (ce_cfg ce)) (voted_height v) (voted_hash v) (ticket_id v) (approve v))
             (vote_signature v))"

definition verify_vote_signature_only :: "chain_env \<Rightarrow> chain_state \<Rightarrow> stake_vote \<Rightarrow> unit res" where
  "verify_vote_signature_only ce st v =
     (case ticket st (ticket_id v) of
        None \<Rightarrow> Inl ''unknown ticket''
      | Some t \<Rightarrow> if \<not> vote_signature_ok ce (ticket_with_key st t) v then Inl ''invalid vote signature'' else Inr ())"

definition verify_stake_vote :: "chain_env \<Rightarrow> chain_state \<Rightarrow> stake_vote \<Rightarrow> unit res" where
  "verify_stake_vote ce st v =
     (if voted_height v \<noteq> height st \<or> voted_hash v \<noteq> hash_block_header (ce_cr ce) (header (tip st))
      then Inl ''vote is not on the current tip''
      else if ticket_id v \<notin> set (selected_tickets_for_next_block ce st)
      then Inl ''ticket not selected for this block''
      else verify_vote_signature_only ce st v)"

text \<open>The filter loop over a vote pool, with the set of used tickets and the number of votes kept so far.\<close>

fun usable_votes_loop :: "chain_env \<Rightarrow> chain_state \<Rightarrow> string set \<Rightarrow> nat \<Rightarrow> stake_vote list \<Rightarrow> stake_vote list" where
  "usable_votes_loop ce st used n [] = []"
| "usable_votes_loop ce st used n (v # vs) =
     (if \<not> approve v \<or> ticket_id v \<in> used then usable_votes_loop ce st used n vs
      else if verify_stake_vote ce st v \<noteq> Inr () then usable_votes_loop ce st used n vs
      else v # (if n + 1 \<ge> unat (stake_votes_per_block (ce_cfg ce)) then []
                else usable_votes_loop ce st (insert (ticket_id v) used) (n + 1) vs))"

definition usable_votes_for_next_block :: "chain_env \<Rightarrow> chain_state \<Rightarrow> stake_vote list \<Rightarrow> stake_vote list" where
  "usable_votes_for_next_block ce st pool = usable_votes_loop ce st {} 0 pool"

definition validate_slash :: "chain_env \<Rightarrow> chain_state \<Rightarrow> slash_evidence \<Rightarrow> unit res" where
  "validate_slash ce st ev =
     (let a = ev_a ev; b = ev_b ev in
      if ticket_id a \<noteq> ticket_id b \<or> voted_height a \<noteq> voted_height b
      then Inl ''slash: votes are not from the same ticket/height''
      else if voted_hash a = voted_hash b \<and> approve a = approve b then Inl ''slash: votes do not conflict''
      else case ticket st (ticket_id a) of
             None \<Rightarrow> Inl ''slash: unknown or spent ticket''
           | Some t \<Rightarrow>
               if \<not> vote_signature_ok ce (ticket_with_key st t) a \<or> \<not> vote_signature_ok ce (ticket_with_key st t) b
               then Inl ''slash: invalid vote signature'' else Inr ())"

end
