(* ===== verification/Chain_Transactions.thy ===== *)
theory Chain_Transactions
  imports Chain_State
begin

text \<open>
  Transaction validation and application of \<^verbatim>\<open>class Chain\<close>: the shielded part, script inputs, signer
  authorisation, value balance, and the state change of an accepted transaction; the wallet helpers
  that build transactions. The lemmas show what an accepted transaction satisfies and how applying it
  moves the set of unspent outputs.
\<close>

section \<open>Authorisation\<close>

definition signer_binds_pubkey :: "crypto \<Rightarrow> string \<Rightarrow> string \<Rightarrow> unit res" where
  "signer_binds_pubkey cr sg pubkey_hex =
     (let scheme = infer_sig_scheme_from_pubkey_hex cr pubkey_hex in
      if scheme = Unknown \<or> \<not> sig_scheme_allowed_strict cr scheme
      then Inl ''unknown scheme rejected in strict mode''
      else address_binds_pubkey cr sg scheme pubkey_hex)"

text \<open>\<open>overlay\<close> holds the registrations of the same block, \<open>None\<close> for the null pointer.\<close>

definition resolve_signer_pubkey ::
    "chain_env \<Rightarrow> chain_state \<Rightarrow> transaction \<Rightarrow> (string \<rightharpoonup> string) option \<Rightarrow> string res" where
  "resolve_signer_pubkey ce st tx overlay =
     (if signer_pubkey tx \<noteq> [] then
        bind_res (signer_binds_pubkey (ce_cr ce) (signer tx) (signer_pubkey tx)) (\<lambda>_. Inr (signer_pubkey tx))
      else
        case (case overlay of None \<Rightarrow> None | Some ov \<Rightarrow> ov (signer tx)) of
          Some pk \<Rightarrow> Inr pk
        | None \<Rightarrow>
            (case pubkey_registry st (signer tx) of
               Some pk \<Rightarrow> Inr pk
             | None \<Rightarrow> Inl ''missing signer public key (not in registry)''))"

definition in_key :: "tx_input \<Rightarrow> string" where
  "in_key i = outpoint_key (previous_txid i) (output_index i)"

definition owns_input :: "chain_state \<Rightarrow> string \<Rightarrow> tx_input \<Rightarrow> bool" where
  "owns_input st sg i =
     (case utxo_set st (in_key i) of
        None \<Rightarrow> False
      | Some u \<Rightarrow>
          if u_spent u then False
          else if u_owner u = kStakeAddress then
            (case map_of (tickets st) (in_key i) of None \<Rightarrow> False | Some t \<Rightarrow> tk_owner t = sg)
          else u_owner u = sg)"

definition validate_transaction_signature :: "chain_env \<Rightarrow> chain_state \<Rightarrow> transaction \<Rightarrow> bool \<Rightarrow> unit res" where
  "validate_transaction_signature ce st tx check_crypto =
     (if require_pq_signatures (ce_cfg ce) \<and> \<not> starts_with ''pq='' (signature tx)
      then Inl ''non-PQ signature rejected in strict mode''
      else if signer tx = [] then Inl ''missing signer''
      else if signature tx = [] then Inl ''missing signature''
      else
        bind_res (resolve_signer_pubkey ce st tx None) (\<lambda>pubkey.
          if \<not> (inputs tx \<noteq> [] \<and> list_all (owns_input st (signer tx)) (inputs tx))
          then Inl ''signer does not control inputs''
          else if \<not> check_crypto then Inr ()
          else if \<not> verify_message_signature_hybrid_uncached (ce_cr ce) pubkey
                     (hash_transaction (ce_cr ce) (tx\<lparr>signature := []\<rparr>)) (signature tx)
          then Inl ''invalid signature''
          else Inr ()))"

text \<open>The loop of \<^verbatim>\<open>validate_script_inputs\<close>, at input number \<open>k\<close>.\<close>

fun script_inputs_loop :: "chain_env \<Rightarrow> chain_state \<Rightarrow> string \<Rightarrow> nat \<Rightarrow> tx_input list \<Rightarrow> unit res" where
  "script_inputs_loop ce st sh k [] = Inr ()"
| "script_inputs_loop ce st sh k (i # is) =
     (case utxo_set st (in_key i) of
        None \<Rightarrow> Inl ''input utxo not found or spent''
      | Some u \<Rightarrow>
          if u_spent u then Inl ''input utxo not found or spent''
          else
            (case verify_input (ce_cr ce) (u_owner u) (witness i)
                    \<lparr>ctx_sighash = sh, spend_height = height st + 1, utxo_height = u_height u\<rparr> of
               Inl e \<Rightarrow> Inl (''input '' @ dec k @ '': '' @ e)
             | Inr _ \<Rightarrow> script_inputs_loop ce st sh (k + 1) is))"

definition validate_script_inputs :: "chain_env \<Rightarrow> chain_state \<Rightarrow> transaction \<Rightarrow> unit res" where
  "validate_script_inputs ce st tx = script_inputs_loop ce st (sighash (ce_cr ce) tx) 0 (inputs tx)"

definition validate_shielded_part ::
    "chain_env \<Rightarrow> chain_state \<Rightarrow> transaction \<Rightarrow> string set \<Rightarrow> bool \<Rightarrow> z_bundle res" where
  "validate_shielded_part ce st tx pending_nfs check_proof =
     (if \<not> shielded_enabled (ce_cfg ce) then Inl ''shielded transactions not enabled on this network''
      else
        bind_res (from_tx_field (shielded tx)) (\<lambda>b.
          if inputs tx = [] \<and> (signer tx \<noteq> [] \<or> signature tx \<noteq> [] \<or> signer_pubkey tx \<noteq> [])
          then Inl ''fully shielded tx must not carry a transparent signer''
          else if inputs tx = [] \<and> vpub_in b \<noteq> 0 then Inl ''vpub_in requires transparent inputs''
          else if inputs tx = [] \<and> nullifiers b = [] then Inl ''fully shielded tx must spend at least one note''
          else
            bind_res (State_check (shielded_st st) b pending_nfs) (\<lambda>_.
              if check_proof then bind_res (verify_bundle_proof (ce_sh ce) tx b) (\<lambda>_. Inr b) else Inr b)))"

section \<open>Validation\<close>

text \<open>The output loop: no empty recipient, no zero amount, no overflow of the total.\<close>

fun sum_outputs :: "u64 \<Rightarrow> tx_output list \<Rightarrow> u64 res" where
  "sum_outputs acc [] = Inr acc"
| "sum_outputs acc (x # xs) =
     (if recipient x = [] then Inl ''output recipient empty''
      else if amount x = 0 then Inl ''output amount zero''
      else if acc > U64_MAX - amount x then Inl ''outputs overflow''
      else sum_outputs (acc + amount x) xs)"

fun sum_inputs :: "chain_state \<Rightarrow> string set \<Rightarrow> u64 \<Rightarrow> tx_input list \<Rightarrow> u64 res" where
  "sum_inputs st seen acc [] = Inr acc"
| "sum_inputs st seen acc (i # is) =
     (if in_key i \<in> seen then Inl ''duplicate input in transaction''
      else case utxo_set st (in_key i) of
             None \<Rightarrow> Inl ''input utxo not found or spent''
           | Some u \<Rightarrow>
               if u_spent u then Inl ''input utxo not found or spent''
               else if u_spendable_height u > context_height st
               then Inl (''input still unbonding (spendable at height '' @ to_string (u_spendable_height u) @ '')'')
               else if acc > U64_MAX - u_amount u then Inl ''inputs overflow''
               else sum_inputs st (insert (in_key i) seen) (acc + u_amount u) is)"

fun check_stake_outputs :: "chain_env \<Rightarrow> chain_state \<Rightarrow> bool \<Rightarrow> tx_output list \<Rightarrow> unit res" where
  "check_stake_outputs ce st spends_ticket [] = Inr ()"
| "check_stake_outputs ce st spends_ticket (x # xs) =
     (if recipient x \<noteq> kStakeAddress then check_stake_outputs ce st spends_ticket xs
      else if spends_ticket then Inl ''stake unlock cannot create new stake''
      else if \<not> staking_active_at ce (context_height st) then Inl ''staking not active''
      else if amount x < stake_min_amount (ce_cfg ce)
      then Inl (''stake below minimum ('' @ to_string (stake_min_amount (ce_cfg ce)) @ '')'')
      else check_stake_outputs ce st spends_ticket xs)"

definition spends_ticket :: "chain_state \<Rightarrow> transaction \<Rightarrow> bool" where
  "spends_ticket st tx \<longleftrightarrow> list_ex (\<lambda>i. map_of (tickets st) (in_key i) \<noteq> None) (inputs tx)"

text \<open>Fee and value rule of a shielded transaction without transparent inputs.\<close>

definition validate_shielded_only :: "chain_env \<Rightarrow> transaction \<Rightarrow> z_bundle \<Rightarrow> u64 \<Rightarrow> unit res" where
  "validate_shielded_only ce tx b outputs_total =
     (if min_fee (ce_cfg ce) > 0 \<and> fee tx < min_fee (ce_cfg ce) then Inl ''fee below network minimum''
      else if (ucast (vpub_out b) :: u128) \<noteq> ucast outputs_total + ucast (fee tx)
      then Inl ''shielded value balance mismatch''
      else Inr ())"

definition validate_coinbase :: "chain_env \<Rightarrow> chain_state \<Rightarrow> transaction \<Rightarrow> u64 \<Rightarrow> unit res" where
  "validate_coinbase ce st tx outputs_total =
     (if signer tx \<noteq> [] \<or> signature tx \<noteq> [] then Inl ''coinbase must not be signed''
      else if list_ex (\<lambda>x. recipient x = kStakeAddress) (outputs tx) then Inl ''coinbase cannot lock stake''
      else if applying_height st = 0 \<and> outputs_total > block_reward (ce_cfg ce) + fee tx
      then Inl ''coinbase exceeds allowed emission''
      else Inr ())"

definition validate_authorisation :: "chain_env \<Rightarrow> chain_state \<Rightarrow> transaction \<Rightarrow> bool \<Rightarrow> unit res" where
  "validate_authorisation ce st tx check_signature =
     (if signer tx = [] then
        (if signature tx \<noteq> [] \<or> signer_pubkey tx \<noteq> [] then Inl ''script tx must not carry a signer signature''
         else validate_script_inputs ce st tx)
      else if list_ex (\<lambda>i. witness i \<noteq> []) (inputs tx) then Inl ''witness on signer-authorized input''
      else
        bind_res (validate_transaction_signature ce st tx check_signature) (\<lambda>_.
          case signer_last_nonce st (signer tx) of
            None \<Rightarrow> Inr ()
          | Some n \<Rightarrow> if nonce tx \<le> n then Inl ''nonce replay or out-of-order'' else Inr ()))"

text \<open>\<open>vp\<close> is the pair (vpub_in, vpub_out) of a shielded transaction, \<open>None\<close> for a transparent one.\<close>

definition validate_spend :: "chain_env \<Rightarrow> chain_state \<Rightarrow> transaction \<Rightarrow> bool \<Rightarrow> (u64 \<times> u64) option \<Rightarrow> u64 \<Rightarrow> unit res" where
  "validate_spend ce st tx check_signature vp outputs_total =
     (if min_fee (ce_cfg ce) > 0 \<and> fee tx < min_fee (ce_cfg ce) then Inl ''fee below network minimum''
      else
        bind_res (validate_authorisation ce st tx check_signature) (\<lambda>_.
        bind_res (sum_inputs st {} 0 (inputs tx)) (\<lambda>inputs_total.
        bind_res (check_stake_outputs ce st (spends_ticket st tx) (outputs tx)) (\<lambda>_.
          if outputs_total > U64_MAX - fee tx then Inl ''outputs+fee overflow''
          else case vp of
                 Some (vin, vout) \<Rightarrow>
                   if (ucast inputs_total :: u128) + ucast vout \<noteq> ucast outputs_total + ucast (fee tx) + ucast vin
                   then Inl ''shielded value balance mismatch'' else Inr ()
               | None \<Rightarrow>
                   if inputs_total < outputs_total + fee tx then Inl ''inputs < outputs + fee'' else Inr ()))))"

definition validate_transaction :: "chain_env \<Rightarrow> chain_state \<Rightarrow> transaction \<Rightarrow> bool \<Rightarrow> unit res" where
  "validate_transaction ce st tx check_signature =
     bind_res (if shielded tx \<noteq> []
               then bind_res (validate_shielded_part ce st tx {} check_signature) (\<lambda>b. Inr (Some b))
               else Inr None) (\<lambda>bo.
       if outputs tx = [] \<and> shielded tx = [] \<and> \<not> (inputs tx = [] \<and> applying_height st \<noteq> 0)
       then Inl ''transaction has no outputs''
       else
         bind_res (sum_outputs 0 (outputs tx)) (\<lambda>outputs_total.
           if inputs tx = [] then
             (case bo of Some b \<Rightarrow> validate_shielded_only ce tx b outputs_total
                       | None \<Rightarrow> validate_coinbase ce st tx outputs_total)
           else validate_spend ce st tx check_signature
                  (map_option (\<lambda>b. (vpub_in b, vpub_out b)) bo) outputs_total))"

section \<open>Application\<close>

definition debit :: "(string \<rightharpoonup> u64) \<Rightarrow> string \<Rightarrow> u64 \<Rightarrow> (string \<rightharpoonup> u64)" where
  "debit m a v = m(a \<mapsto> (if bal m a \<ge> v then bal m a - v else 0))"

text \<open>The input loop; the flag is \<^verbatim>\<open>unlocking\<close>.\<close>

fun spend_inputs :: "chain_state \<Rightarrow> bool \<Rightarrow> tx_input list \<Rightarrow> bool res \<times> chain_state" where
  "spend_inputs st unlocking [] = (Inr unlocking, st)"
| "spend_inputs st unlocking (i # is) =
     (case utxo_set st (in_key i) of
        None \<Rightarrow> (Inl ''cannot spend missing utxo'', st)
      | Some u \<Rightarrow>
          if u_spent u then (Inl ''cannot spend missing utxo'', st)
          else
            (let has = map_of (tickets st) (in_key i) \<noteq> None;
                 st = st\<lparr>utxo_set := (utxo_set st)(in_key i \<mapsto> u\<lparr>u_spent := True\<rparr>),
                         address_index := debit (address_index st) (u_owner u) (u_amount u),
                         tickets := omap_del (in_key i) (tickets st)\<rparr>
             in spend_inputs st (unlocking \<or> has) is))"

text \<open>One pass of the output loop, for output number \<open>k\<close>, and the loop.\<close>

definition new_utxo :: "chain_env \<Rightarrow> chain_state \<Rightarrow> bool \<Rightarrow> tx_output \<Rightarrow> utxo" where
  "new_utxo ce st unlocking x =
     \<lparr>u_owner = recipient x, u_amount = amount x, u_spent = False,
      u_spendable_height = (if unlocking then context_height st + stake_unbond_delay (ce_cfg ce) else 0),
      u_height = height st + 1\<rparr>"

definition create_output ::
    "chain_env \<Rightarrow> transaction \<Rightarrow> string \<Rightarrow> bool \<Rightarrow> chain_state \<Rightarrow> nat \<Rightarrow> tx_output \<Rightarrow> unit res \<times> chain_state" where
  "create_output ce tx txid unlocking st k x =
     (let key = outpoint_key txid (of_nat k);
          h = context_height st;
          u = new_utxo ce st unlocking x;
          ticket_pk = (if signer_pubkey tx = [] then (case pubkey_registry st (signer tx) of None \<Rightarrow> [] | Some pk \<Rightarrow> pk)
                       else signer_pubkey tx);
          st1 = (if recipient x = kStakeAddress
                 then st\<lparr>tickets := omap_put key \<lparr>tk_id = key, tk_owner = signer tx, tk_owner_pubkey = ticket_pk,
                           tk_amount = amount x, tk_lock_height = h\<rparr> (tickets st)\<rparr>
                 else st);
          st2 = st1\<lparr>utxo_set := (utxo_set st1)(key \<mapsto> u), address_index := touch (address_index st1) (recipient x)\<rparr>
      in if bal (address_index st2) (recipient x) > U64_MAX - amount x then (Inl ''balance index overflow'', st2)
         else (Inr (), st2\<lparr>address_index := (address_index st2)(recipient x \<mapsto>
                 bal (address_index st2) (recipient x) + amount x)\<rparr>))"

fun create_outputs ::
    "chain_env \<Rightarrow> transaction \<Rightarrow> string \<Rightarrow> bool \<Rightarrow> chain_state \<Rightarrow> nat \<Rightarrow> tx_output list \<Rightarrow> unit res \<times> chain_state" where
  "create_outputs ce tx txid unlocking st k [] = (Inr (), st)"
| "create_outputs ce tx txid unlocking st k (x # xs) =
     (case create_output ce tx txid unlocking st k x of
        (Inl e, st) \<Rightarrow> (Inl e, st)
      | (Inr _, st) \<Rightarrow> create_outputs ce tx txid unlocking st (k + 1) xs)"

definition record_signer :: "transaction \<Rightarrow> chain_state \<Rightarrow> chain_state" where
  "record_signer tx st =
     (if inputs tx \<noteq> [] \<and> signer tx \<noteq> [] then
        st\<lparr>signer_last_nonce := (signer_last_nonce st)(signer tx \<mapsto> nonce tx),
           pubkey_registry := (if signer_pubkey tx \<noteq> [] \<and> pubkey_registry st (signer tx) = None
                               then (pubkey_registry st)(signer tx \<mapsto> signer_pubkey tx) else pubkey_registry st)\<rparr>
      else st)"

definition apply_shielded :: "chain_env \<Rightarrow> transaction \<Rightarrow> chain_state \<Rightarrow> unit res \<times> chain_state" where
  "apply_shielded ce tx st =
     (if shielded tx = [] then (Inr (), st)
      else case from_tx_field (shielded tx) of
             Inl e \<Rightarrow> (Inl e, st)
           | Inr b \<Rightarrow> (Inr (), st\<lparr>shielded_st := State_apply (ce_sh ce) (shielded_st st) b\<rparr>))"

definition apply_transaction ::
    "chain_env \<Rightarrow> chain_state \<Rightarrow> transaction \<Rightarrow> string \<Rightarrow> bool \<Rightarrow> unit res \<times> chain_state" where
  "apply_transaction ce st tx txid check_signature =
     (case validate_transaction ce st tx check_signature of
        Inl e \<Rightarrow> (Inl e, st)
      | Inr _ \<Rightarrow>
          (case spend_inputs st False (inputs tx) of
             (Inl e, st) \<Rightarrow> (Inl e, st)
           | (Inr unlocking, st) \<Rightarrow>
               (case create_outputs ce tx txid unlocking st 0 (outputs tx) of
                  (Inl e, st) \<Rightarrow> (Inl e, st)
                | (Inr _, st) \<Rightarrow>
                    (case apply_shielded ce tx (record_signer tx st) of
                       (Inl e, st) \<Rightarrow> (Inl e, st)
                     | (Inr _, st) \<Rightarrow> (Inr (), st\<lparr>seen_transactions := insert txid (seen_transactions st)\<rparr>)))))"

section \<open>Wallet helpers\<close>

definition credit_balance :: "chain_env \<Rightarrow> chain_state \<Rightarrow> string \<Rightarrow> u64 \<Rightarrow> string \<Rightarrow> unit res \<times> chain_state" where
  "credit_balance ce st addr amt reason =
     (if addr = [] then (Inl ''address empty'', st)
      else if amt = 0 then (Inl ''amount must be > 0'', st)
      else if reason = [] then (Inl ''reason empty'', st)
      else
        (let txid = to_hex (sha3 (ce_cr ce) (''credit|'' @ reason @ ''|'' @ addr @ ''|'' @ to_string amt @ ''|'' @ to_string (height st + 1)));
             key = outpoint_key txid 0 in
         if txid \<in> seen_transactions st then (Inl ''duplicate credit tx'', st)
         else if utxo_set st key \<noteq> None then (Inl ''duplicate credit outpoint'', st)
         else if bal (address_index st) addr > U64_MAX - amt
         then (Inl ''balance overflow'', st\<lparr>address_index := touch (address_index st) addr\<rparr>)
         else (Inr (), st\<lparr>utxo_set := (utxo_set st)(key \<mapsto> \<lparr>u_owner = addr, u_amount = amt, u_spent = False,
                              u_spendable_height = 0, u_height = 0\<rparr>),
                          address_index := (address_index st)(addr \<mapsto> bal (address_index st) addr + amt),
                          seen_transactions := insert txid (seen_transactions st)\<rparr>)))"

text \<open>
  The text after the last colon of a key is its output number; keys of the set are always of this
  form, so the case of a ticket id without a colon, on which \<^verbatim>\<open>std::stoul\<close> would throw, does not
  arise. The hash-table order in which \<^verbatim>\<open>build_transaction\<close> meets the outputs is the argument
  \<open>order\<close>, a list of the keys.
\<close>

definition split_key :: "string \<Rightarrow> (string \<times> string) option" where
  "split_key k =
     (if CHR '':'' \<in> set k
      then Some (rev (tl (dropWhile (\<lambda>c. c \<noteq> CHR '':'') (rev k))), rev (takeWhile (\<lambda>c. c \<noteq> CHR '':'') (rev k)))
      else None)"

fun gather_inputs ::
    "chain_state \<Rightarrow> (string \<Rightarrow> bool) option \<Rightarrow> string \<Rightarrow> u64 \<Rightarrow> u64 \<Rightarrow> string list \<Rightarrow> tx_input list \<times> u64" where
  "gather_inputs st reserved from required gathered [] = ([], gathered)"
| "gather_inputs st reserved from required gathered (k # ks) =
     (case utxo_set st k of
        None \<Rightarrow> gather_inputs st reserved from required gathered ks
      | Some u \<Rightarrow>
          if u_spent u \<or> u_owner u \<noteq> from \<or> u_spendable_height u > height st + 1
             \<or> (case reserved of None \<Rightarrow> False | Some f \<Rightarrow> f k)
          then gather_inputs st reserved from required gathered ks
          else case split_key k of
                 None \<Rightarrow> gather_inputs st reserved from required gathered ks
               | Some (t, n) \<Rightarrow>
                   (let i = \<lparr>previous_txid = t, output_index = of_nat (undec n), witness = []\<rparr>;
                        g = gathered + u_amount u in
                    if g \<ge> required then ([i], g)
                    else (let (is, r) = gather_inputs st reserved from required g ks in (i # is, r))))"

definition build_transaction ::
    "chain_state \<Rightarrow> (string \<Rightarrow> bool) option \<Rightarrow> string list \<Rightarrow> string \<Rightarrow> string \<Rightarrow> u64 \<Rightarrow> u64 \<Rightarrow> u64 \<Rightarrow> transaction res" where
  "build_transaction st reserved order from to_addr amt fe no =
     (if from = [] \<or> to_addr = [] then Inl ''from/to empty''
      else if amt = 0 then Inl ''amount must be > 0''
      else if fe > U64_MAX - amt then Inl ''amount+fee overflow''
      else
        (let required = amt + fe;
             (selected, gathered) = gather_inputs st reserved from required 0 order in
         if gathered < required then Inl ''insufficient balance''
         else
           (let change = gathered - required in
            Inr \<lparr>inputs = selected,
                 outputs = \<lparr>recipient = to_addr, amount = amt\<rparr> # (if change > 0 then [\<lparr>recipient = from, amount = change\<rparr>] else []),
                 signer = [], signer_pubkey = [], signature = [], fee = fe, nonce = no, shielded = []\<rparr>)))"

definition build_stake_lock ::
    "chain_env \<Rightarrow> chain_state \<Rightarrow> (string \<Rightarrow> bool) option \<Rightarrow> string list \<Rightarrow> string \<Rightarrow> u64 \<Rightarrow> u64 \<Rightarrow> u64 \<Rightarrow> transaction res" where
  "build_stake_lock ce st reserved order from amt fe no =
     (if \<not> staking_active_at ce (height st + 1) then Inl ''staking not active''
      else if amt < stake_min_amount (ce_cfg ce)
      then Inl (''stake below minimum ('' @ to_string (stake_min_amount (ce_cfg ce)) @ '')'')
      else build_transaction st reserved order from kStakeAddress amt fe no)"

definition build_stake_unlock :: "chain_state \<Rightarrow> string \<Rightarrow> u64 \<Rightarrow> u64 \<Rightarrow> transaction res" where
  "build_stake_unlock st tid fe no =
     (case ticket st tid of
        None \<Rightarrow> Inl ''unknown ticket''
      | Some t \<Rightarrow>
          if tk_amount t \<le> fe then Inl ''fee exceeds ticket amount''
          else (case split_key tid of
                  None \<Rightarrow> Inl ''invalid ticket id''
                | Some (tx, n) \<Rightarrow>
                    Inr \<lparr>inputs = [\<lparr>previous_txid = tx, output_index = of_nat (undec n), witness = []\<rparr>],
                         outputs = [\<lparr>recipient = tk_owner t, amount = tk_amount t - fe\<rparr>],
                         signer = [], signer_pubkey = [], signature = [], fee = fe, nonce = no, shielded = []\<rparr>))"

definition spendable_height_of :: "chain_state \<Rightarrow> string \<Rightarrow> u64" where
  "spendable_height_of st k = (case utxo_set st k of None \<Rightarrow> 0 | Some u \<Rightarrow> u_spendable_height u)"

section \<open>Lemmas: unspent outputs\<close>

text \<open>The amounts of the unspent entries, and their total.\<close>

definition live :: "(string \<rightharpoonup> utxo) \<Rightarrow> (string \<rightharpoonup> u64)" where
  "live m = (\<lambda>k. case m k of None \<Rightarrow> None | Some u \<Rightarrow> if u_spent u then None else Some (u_amount u))"

definition unspent_total :: "chain_state \<Rightarrow> nat" where
  "unspent_total st = total_bal (live (utxo_set st))"

lemma dom_live: "dom (live m) \<subseteq> dom m"
  by (auto simp: live_def split: option.splits)

lemma finite_live: "finite (dom m) \<Longrightarrow> finite (dom (live m))"
  by (rule finite_subset [OF dom_live])

lemma live_upd: "live (m(k \<mapsto> u)) = (if u_spent u then (live m)(k := None) else (live m)(k \<mapsto> u_amount u))"
  by (auto simp: live_def)

lemma bal_live: "m k = Some u \<Longrightarrow> \<not> u_spent u \<Longrightarrow> bal (live m) k = u_amount u"
  by (simp add: live_def bal_def)

lemma total_del: "finite (dom m) \<Longrightarrow> total_bal (m(k := None)) + unat (bal m k) = total_bal m"
proof -
  assume fin: "finite (dom m)"
  have "total_bal (m(k := None)) = (\<Sum>j\<in>dom m. unat (bal (m(k := None)) j))"
    by (rule total_superset) (use fin in auto)
  also have "\<dots> = (\<Sum>j\<in>dom m. unat (bal (m(k \<mapsto> 0)) j))"
    by (rule sum.cong) (auto simp: bal_def)
  also have "\<dots> = (\<Sum>j\<in>insert k (dom m). unat (bal (m(k \<mapsto> 0)) j))"
    by (rule sum.mono_neutral_left) (use fin in \<open>auto simp: bal_def\<close>)
  also have "\<dots> = total_bal (m(k \<mapsto> 0))"
    by (rule total_superset [symmetric]) (use fin in auto)
  finally show ?thesis using total_upd [OF fin, of k 0] by simp
qed

lemma unspent_spend:
  assumes "finite (dom (utxo_set st))" and "utxo_set st k = Some u" and "\<not> u_spent u"
    and "utxo_set st' = (utxo_set st)(k \<mapsto> u\<lparr>u_spent := True\<rparr>)"
  shows "unspent_total st' + unat (u_amount u) = unspent_total st"
  using total_del [OF finite_live [OF assms(1)], of k] bal_live [of "utxo_set st" k u] assms
  by (simp add: unspent_total_def live_upd)

lemma unspent_create:
  assumes "finite (dom (utxo_set st))" and "\<not> u_spent u" and "utxo_set st' = (utxo_set st)(k \<mapsto> u)"
  shows "unspent_total st' \<le> unspent_total st + unat (u_amount u)"
  using total_upd [OF finite_live [OF assms(1)], of k "u_amount u"] assms
  by (simp add: unspent_total_def live_upd)

section \<open>Lemmas: validation\<close>

definition out_total :: "transaction \<Rightarrow> nat" where
  "out_total tx = sum_list (map (\<lambda>x. unat (amount x)) (outputs tx))"

definition in_amount :: "chain_state \<Rightarrow> tx_input \<Rightarrow> nat" where
  "in_amount st i = (case utxo_set st (in_key i) of None \<Rightarrow> 0 | Some u \<Rightarrow> unat (u_amount u))"

definition in_total :: "chain_state \<Rightarrow> transaction \<Rightarrow> nat" where
  "in_total st tx = sum_list (map (in_amount st) (inputs tx))"

text \<open>The public flows of the shielded pool: into it and out of it.\<close>

definition tx_vin :: "transaction \<Rightarrow> nat" where
  "tx_vin tx = (if shielded tx = [] then 0
     else case from_tx_field (shielded tx) of Inl _ \<Rightarrow> 0 | Inr b \<Rightarrow> unat (vpub_in b))"

definition tx_vout :: "transaction \<Rightarrow> nat" where
  "tx_vout tx = (if shielded tx = [] then 0
     else case from_tx_field (shielded tx) of Inl _ \<Rightarrow> 0 | Inr b \<Rightarrow> unat (vpub_out b))"

lemma sum_outputs_ok:
  "sum_outputs acc xs = Inr t \<Longrightarrow> unat t = unat acc + sum_list (map (\<lambda>x. unat (amount x)) xs)"
  by (induction acc xs rule: sum_outputs.induct) (auto simp: u64_add_guard_ok split: if_splits)

text \<open>An input that can be spent in a state: present, unspent, past its unbonding height.\<close>

definition spendable :: "chain_state \<Rightarrow> tx_input \<Rightarrow> bool" where
  "spendable st i \<longleftrightarrow>
     (\<exists>u. utxo_set st (in_key i) = Some u \<and> \<not> u_spent u \<and> u_spendable_height u \<le> context_height st)"

lemma sum_inputs_ok:
  "sum_inputs st seen acc is = Inr t \<Longrightarrow>
     unat t = unat acc + sum_list (map (in_amount st) is) \<and> distinct (map in_key is)
     \<and> set (map in_key is) \<inter> seen = {} \<and> list_all (spendable st) is"
proof (induction st seen acc "is" rule: sum_inputs.induct)
  case (2 st seen acc i "is")
  from "2.prems" obtain u where u: "in_key i \<notin> seen" "utxo_set st (in_key i) = Some u" "\<not> u_spent u"
      "\<not> u_spendable_height u > context_height st" "\<not> acc > U64_MAX - u_amount u"
      and r: "sum_inputs st (insert (in_key i) seen) (acc + u_amount u) is = Inr t"
    by (auto split: if_splits option.splits)
  have "unat (acc + u_amount u) = unat acc + unat (u_amount u)" by (rule u64_add_guard_ok [OF u(5)])
  with "2.IH" [OF u(1,2,3,4,5) r] u show ?case
    by (auto simp: in_amount_def spendable_def not_less)
qed simp

lemma u128_of_u64s:
  "unat (ucast (a :: u64) + ucast (b :: u64) :: u128) = unat a + unat b"
proof -
  have "unat a + unat b < 18446744073709551616 + 18446744073709551616"
    by (intro add_strict_mono unat_u64_bound)
  also have "\<dots> \<le> 2 ^ 128" by simp
  finally show ?thesis by (subst u128_add_ok) simp_all
qed

lemma u128_of_u64s3:
  "unat (ucast (a :: u64) + ucast (b :: u64) + ucast (c :: u64) :: u128) = unat a + unat b + unat c"
proof -
  have "unat a + unat b + unat c < 18446744073709551616 + 18446744073709551616 + 18446744073709551616"
    by (intro add_strict_mono unat_u64_bound)
  also have "\<dots> \<le> 2 ^ 128" by simp
  finally show ?thesis by (subst u128_add_ok) (simp_all add: u128_of_u64s)
qed

lemma u128_eqD: "a = b \<Longrightarrow> unat (a :: u128) = unat b"
  by simp

text \<open>What a validated spend satisfies.\<close>

lemma validate_spend_ok:
  assumes "validate_spend ce st tx chk vp ot = Inr ()" and "unat ot = out_total tx"
  shows "validate_authorisation ce st tx chk = Inr ()" and "distinct (map in_key (inputs tx))"
    and "list_all (spendable st) (inputs tx)"
    and "check_stake_outputs ce st (spends_ticket st tx) (outputs tx) = Inr ()"
    and "case vp of None \<Rightarrow> out_total tx + unat (fee tx) \<le> in_total st tx
      | Some (vin, vout) \<Rightarrow> in_total st tx + unat vout = out_total tx + unat (fee tx) + unat vin"
proof -
  from assms(1) obtain it where auth: "validate_authorisation ce st tx chk = Inr ()"
    and it: "sum_inputs st {} 0 (inputs tx) = Inr it"
    and stk: "check_stake_outputs ce st (spends_ticket st tx) (outputs tx) = Inr ()"
    and ov: "\<not> ot > U64_MAX - fee tx"
    and v: "(case vp of
                 Some (vin, vout) \<Rightarrow>
                   if (ucast it :: u128) + ucast vout \<noteq> ucast ot + ucast (fee tx) + ucast vin
                   then Inl ''shielded value balance mismatch'' else Inr ()
               | None \<Rightarrow> if it < ot + fee tx then Inl ''inputs < outputs + fee'' else Inr ()) = Inr ()"
    unfolding validate_spend_def by (auto simp: bind_res_Inr split: if_split_asm)
  note I = sum_inputs_ok [OF it]
  show "validate_authorisation ce st tx chk = Inr ()" "distinct (map in_key (inputs tx))"
    "list_all (spendable st) (inputs tx)" "check_stake_outputs ce st (spends_ticket st tx) (outputs tx) = Inr ()"
    using auth I stk by auto
  have it': "unat it = in_total st tx" using I by (simp add: in_total_def)
  have of: "unat (ot + fee tx) = unat ot + unat (fee tx)" by (rule u64_add_guard_ok [OF ov])
  show "case vp of None \<Rightarrow> out_total tx + unat (fee tx) \<le> in_total st tx
      | Some (vin, vout) \<Rightarrow> in_total st tx + unat vout = out_total tx + unat (fee tx) + unat vin"
  proof (cases vp)
    case None
    then show ?thesis using v of it' assms(2) by (simp add: not_less word_le_nat_alt split: if_splits)
  next
    case (Some p)
    then obtain vin vout where p: "vp = Some (vin, vout)" by (cases p) auto
    then have "(ucast it :: u128) + ucast vout = ucast ot + ucast (fee tx) + ucast vin"
      using v by (auto split: if_splits)
    from u128_eqD [OF this] show ?thesis
      using p it' assms(2) by (simp add: u128_of_u64s u128_of_u64s3)
  qed
qed

text \<open>An accepted transaction is a coinbase, a fully shielded transaction or a spend.\<close>

lemma validate_transaction_cases:
  assumes "validate_transaction ce st tx chk = Inr ()"
  obtains (coinbase) "inputs tx = []" "shielded tx = []" "\<exists>ot. validate_coinbase ce st tx ot = Inr () \<and> unat ot = out_total tx"
  | (pool) b where "inputs tx = []" "shielded tx \<noteq> []" "validate_shielded_part ce st tx {} chk = Inr b"
      "tx_vout tx = out_total tx + unat (fee tx)" "tx_vin tx = 0" "unat (min_fee (ce_cfg ce)) \<le> unat (fee tx)"
  | (spend) vp ot where "inputs tx \<noteq> []" "validate_spend ce st tx chk vp ot = Inr ()" "unat ot = out_total tx"
      "vp = None \<longleftrightarrow> shielded tx = []"
      "\<And>vin vout. vp = Some (vin, vout) \<Longrightarrow> unat vin = tx_vin tx \<and> unat vout = tx_vout tx"
proof -
  from assms obtain bo ot where
    bo: "(if shielded tx \<noteq> [] then bind_res (validate_shielded_part ce st tx {} chk) (\<lambda>b. Inr (Some b)) else Inr None) = Inr bo"
    and ot: "sum_outputs 0 (outputs tx) = Inr ot"
    and r: "(if inputs tx = [] then
             (case bo of Some b \<Rightarrow> validate_shielded_only ce tx b ot | None \<Rightarrow> validate_coinbase ce st tx ot)
           else validate_spend ce st tx chk (map_option (\<lambda>b. (vpub_in b, vpub_out b)) bo) ot) = Inr ()"
    unfolding validate_transaction_def bind_res_Inr by (auto simp: bind_res_Inr simp del: not_None_eq split: if_split_asm)
  have ot': "unat ot = out_total tx" using sum_outputs_ok [OF ot] by (simp add: out_total_def)
  show ?thesis
  proof (cases bo)
    case None
    then have sh: "shielded tx = []" using bo by (auto simp: bind_res_Inr split: if_splits)
    show ?thesis
    proof (cases "inputs tx = []")
      case True
      then show ?thesis using None r sh ot' by (intro coinbase) auto
    next
      case False
      then show ?thesis using None r sh ot' by (intro spend [of None ot]) auto
    qed
  next
    case (Some b)
    then have sh: "shielded tx \<noteq> []" and vb: "validate_shielded_part ce st tx {} chk = Inr b"
      using bo by (auto simp: bind_res_Inr split: if_splits)
    then have fb: "from_tx_field (shielded tx) = Inr b"
      and v0: "inputs tx = [] \<Longrightarrow> vpub_in b = 0"
      by (auto simp: validate_shielded_part_def bind_res_Inr split: if_splits)
    show ?thesis
    proof (cases "inputs tx = []")
      case True
      then have so: "validate_shielded_only ce tx b ot = Inr ()" using Some r by simp
      then have "(ucast (vpub_out b) :: u128) = ucast ot + ucast (fee tx)" and mf: "unat (min_fee (ce_cfg ce)) \<le> unat (fee tx)"
        by (auto simp: validate_shielded_only_def not_less word_le_nat_alt word_gt_0 unat_eq_0 split: if_splits)
      from u128_eqD [OF this(1)] have "unat (vpub_out b) = unat ot + unat (fee tx)" by (simp add: u128_of_u64s)
      then show ?thesis using True sh vb fb v0 ot' mf by (intro pool) (auto simp: tx_vout_def tx_vin_def)
    next
      case False
      then show ?thesis using Some r sh fb ot'
        by (intro spend [of "Some (vpub_in b, vpub_out b)" ot]) (auto simp: tx_vin_def tx_vout_def)
    qed
  qed
qed

text \<open>Value is never created by a transaction that is not a coinbase.\<close>

lemma validate_value:
  assumes "validate_transaction ce st tx chk = Inr ()" and "inputs tx \<noteq> [] \<or> shielded tx \<noteq> []"
  shows "out_total tx + unat (fee tx) + tx_vin tx \<le> in_total st tx + tx_vout tx"
  using assms(1)
proof (cases rule: validate_transaction_cases)
  case coinbase
  with assms(2) show ?thesis by simp
next
  case (pool b)
  then show ?thesis by simp
next
  case (spend vp ot)
  note V = validate_spend_ok(5) [OF spend(2,3)]
  show ?thesis
  proof (cases vp)
    case None
    then show ?thesis using V spend(4) by (simp add: tx_vin_def tx_vout_def)
  next
    case (Some p)
    then obtain vin vout where "vp = Some (vin, vout)" by (cases p) auto
    then show ?thesis using V spend(5) by auto
  qed
qed

lemma validate_inputs:
  assumes "validate_transaction ce st tx chk = Inr ()"
  shows "distinct (map in_key (inputs tx)) \<and> list_all (spendable st) (inputs tx)"
  using assms
proof (cases rule: validate_transaction_cases)
  case (spend vp ot)
  then show ?thesis using validate_spend_ok(2,3) [OF spend(2,3)] by simp
qed auto

section \<open>Lemmas: application\<close>

text \<open>The fields a transaction never touches.\<close>

definition same_frame :: "chain_state \<Rightarrow> chain_state \<Rightarrow> bool" where
  "same_frame st st' \<longleftrightarrow> blocks st' = blocks st \<and> difficulty_target st' = difficulty_target st
     \<and> total_emitted st' = total_emitted st \<and> total_fees_last_block st' = total_fees_last_block st
     \<and> cumulative_work st' = cumulative_work st \<and> total_slashed st' = total_slashed st
     \<and> applying_height st' = applying_height st"

text \<open>The fields that neither the input nor the output loop touches.\<close>

definition same_accounts :: "chain_state \<Rightarrow> chain_state \<Rightarrow> bool" where
  "same_accounts st st' \<longleftrightarrow> signer_last_nonce st' = signer_last_nonce st \<and> pubkey_registry st' = pubkey_registry st
     \<and> shielded_st st' = shielded_st st \<and> seen_transactions st' = seen_transactions st"

lemma same_frame_refl [simp]: "same_frame st st" and same_accounts_refl [simp]: "same_accounts st st"
  by (simp_all add: same_frame_def same_accounts_def)

lemma same_frame_trans: "same_frame a b \<Longrightarrow> same_frame b c \<Longrightarrow> same_frame a c"
  by (simp add: same_frame_def)

lemma same_accounts_trans: "same_accounts a b \<Longrightarrow> same_accounts b c \<Longrightarrow> same_accounts a c"
  by (simp add: same_accounts_def)

lemma same_frame_height: "same_frame st st' \<Longrightarrow> height st' = height st \<and> context_height st' = context_height st"
  by (simp add: same_frame_def height_def tip_def context_height_def)

lemma spend_inputs_frame: "spend_inputs st ul is = (r, st') \<Longrightarrow> same_frame st st' \<and> same_accounts st st'"
proof (induction st ul "is" rule: spend_inputs.induct)
  case (2 st ul i "is")
  show ?case
  proof (cases "utxo_set st (in_key i)")
    case (Some u)
    show ?thesis
    proof (cases "u_spent u")
      case False
      let ?st = "st\<lparr>utxo_set := (utxo_set st)(in_key i \<mapsto> u\<lparr>u_spent := True\<rparr>),
                         address_index := debit (address_index st) (u_owner u) (u_amount u),
                         tickets := omap_del (in_key i) (tickets st)\<rparr>"
      have "same_frame ?st st' \<and> same_accounts ?st st'"
        by (rule "2.IH" [OF Some False refl refl]) (use "2.prems" Some False in \<open>simp add: Let_def\<close>)
      then show ?thesis by (simp add: same_frame_def same_accounts_def)
    qed (use "2.prems" Some in auto)
  qed (use "2.prems" in auto)
qed simp

definition spent_keys :: "string set \<Rightarrow> (string \<rightharpoonup> utxo) \<Rightarrow> (string \<rightharpoonup> utxo)" where
  "spent_keys K m = (\<lambda>k. if k \<in> K then map_option (\<lambda>u. u\<lparr>u_spent := True\<rparr>) (m k) else m k)"

lemma spendable_mono:
  "spendable st i \<Longrightarrow> in_key i \<noteq> k \<Longrightarrow> utxo_set st' = (utxo_set st)(k \<mapsto> u) \<Longrightarrow> context_height st' = context_height st \<Longrightarrow> spendable st' i"
  by (simp add: spendable_def)

lemma map_of_omap_del: "map_of (omap_del a m) b = (if a = b then None else map_of m b)"
  by (induction m) (auto simp: omap_del_def)

lemma spend_inputs_ok:
  assumes "distinct (map in_key is)" and "list_all (spendable st) is" and "finite (dom (utxo_set st))"
  shows "\<exists>st'. spend_inputs st ul is = (Inr (ul \<or> list_ex (\<lambda>i. map_of (tickets st) (in_key i) \<noteq> None) is), st')
    \<and> utxo_set st' = spent_keys (in_key ` set is) (utxo_set st)
    \<and> tickets st' = filter (\<lambda>e. fst e \<notin> in_key ` set is) (tickets st)
    \<and> unspent_total st' + sum_list (map (in_amount st) is) = unspent_total st
    \<and> finite (dom (utxo_set st'))"
  using assms
proof (induction "is" arbitrary: st ul)
  case Nil
  then show ?case by (simp add: spent_keys_def)
next
  case (Cons i "is")
  from Cons.prems(2) obtain u where u: "utxo_set st (in_key i) = Some u" "\<not> u_spent u" by (auto simp: spendable_def)
  let ?st = "st\<lparr>utxo_set := (utxo_set st)(in_key i \<mapsto> u\<lparr>u_spent := True\<rparr>),
                 address_index := debit (address_index st) (u_owner u) (u_amount u),
                 tickets := omap_del (in_key i) (tickets st)\<rparr>"
  have k: "in_key i \<notin> in_key ` set is" using Cons.prems(1) by simp
  then have k': "j \<in> set is \<Longrightarrow> in_key j \<noteq> in_key i" for j by (metis image_eqI)
  have sp: "list_all (spendable ?st) is"
    using Cons.prems(2) by (auto simp: list_all_iff spendable_def context_height_def height_def tip_def dest: k')
  let ?has = "map_of (tickets st) (in_key i) \<noteq> None"
  have fin: "finite (dom (utxo_set ?st))" using Cons.prems(3) by simp
  have ds: "distinct (map in_key is)" using Cons.prems(1) by simp
  from Cons.IH [OF ds sp fin, of "ul \<or> ?has"] obtain st' where
    r: "spend_inputs ?st (ul \<or> ?has) is = (Inr ((ul \<or> ?has) \<or> list_ex (\<lambda>i. map_of (tickets ?st) (in_key i) \<noteq> None) is), st')"
      "utxo_set st' = spent_keys (in_key ` set is) (utxo_set ?st)"
      "tickets st' = filter (\<lambda>e. fst e \<notin> in_key ` set is) (tickets ?st)"
      "unspent_total st' + sum_list (map (in_amount ?st) is) = unspent_total ?st"
      "finite (dom (utxo_set st'))"
    by (elim exE conjE) (rule that)
  have eq1: "list_ex (\<lambda>i. map_of (tickets ?st) (in_key i) \<noteq> None) is = list_ex (\<lambda>i. map_of (tickets st) (in_key i) \<noteq> None) is"
    unfolding list_ex_iff using k' by (intro bex_cong refl) (simp add: map_of_omap_del, metis)
  have eq2: "map (in_amount ?st) is = map (in_amount st) is"
    by (intro map_cong) (auto simp: in_amount_def dest: k')
  have "unspent_total ?st + unat (u_amount u) = unspent_total st"
    by (rule unspent_spend [OF Cons.prems(3) u]) simp
  then have "unspent_total st' + sum_list (map (in_amount st) (i # is)) = unspent_total st"
    using r(4) eq2 u by (simp add: in_amount_def)
  moreover have "utxo_set st' = spent_keys (in_key ` set (i # is)) (utxo_set st)"
    using r(2) u k by (auto simp: spent_keys_def fun_eq_iff)
  moreover have "tickets st' = filter (\<lambda>e. fst e \<notin> in_key ` set (i # is)) (tickets st)"
    using r(3) by (simp add: omap_del_def conj_commute)
  moreover have "spend_inputs st ul (i # is) = (Inr (ul \<or> list_ex (\<lambda>i. map_of (tickets st) (in_key i) \<noteq> None) (i # is)), st')"
    using r(1) eq1 u by (simp add: Let_def disj_assoc)
  ultimately show ?case using r(5) by blast
qed

definition tx_outkeys :: "string \<Rightarrow> string set" where
  "tx_outkeys txid = range (outpoint_key txid)"

lemma create_output_props:
  "create_output ce tx txid ul st k x = (r, st') \<Longrightarrow>
     same_frame st st' \<and> same_accounts st st'
     \<and> utxo_set st' = (utxo_set st)(outpoint_key txid (of_nat k) \<mapsto> new_utxo ce st ul x)"
  by (auto simp: create_output_def Let_def same_frame_def same_accounts_def split: if_splits)

lemma create_outputs_props:
  "create_outputs ce tx txid ul st k xs = (r, st') \<Longrightarrow> finite (dom (utxo_set st)) \<Longrightarrow>
     same_frame st st' \<and> same_accounts st st' \<and> finite (dom (utxo_set st'))
     \<and> unspent_total st' \<le> unspent_total st + sum_list (map (\<lambda>x. unat (amount x)) xs)
     \<and> (\<forall>j. j \<notin> tx_outkeys txid \<longrightarrow> utxo_set st' j = utxo_set st j)
     \<and> (ul \<longrightarrow> (\<forall>j u. utxo_set st' j = Some u \<longrightarrow> utxo_set st j = Some u \<or>
            u_spendable_height u = context_height st + stake_unbond_delay (ce_cfg ce)))"
proof (induction xs arbitrary: st k)
  case (Cons x xs)
  obtain r1 st1 where c1: "create_output ce tx txid ul st k x = (r1, st1)" by (cases "create_output ce tx txid ul st k x")
  let ?u = "new_utxo ce st ul x"
  from create_output_props [OF c1] have
    f: "same_frame st st1" "same_accounts st st1"
    and u: "\<not> u_spent ?u" "u_amount ?u = amount x" "u_spendable_height ?u = (if ul then context_height st + stake_unbond_delay (ce_cfg ce) else 0)"
      "utxo_set st1 = (utxo_set st)(outpoint_key txid (of_nat k) \<mapsto> ?u)" by (simp_all add: new_utxo_def)
  have fin: "finite (dom (utxo_set st1))" using Cons.prems(2) u(4) by simp
  have ut: "unspent_total st1 \<le> unspent_total st + unat (amount x)"
    using unspent_create [OF Cons.prems(2) u(1,4)] u(2) by simp
  have ch: "context_height st1 = context_height st" using same_frame_height [OF f(1)] by simp
  have ok: "outpoint_key txid (of_nat k) \<in> tx_outkeys txid" by (simp add: tx_outkeys_def)
  have new: "\<forall>j. j \<notin> tx_outkeys txid \<longrightarrow> utxo_set st1 j = utxo_set st j"
      "ul \<longrightarrow> (\<forall>j v. utxo_set st1 j = Some v \<longrightarrow> utxo_set st j = Some v \<or>
            u_spendable_height v = context_height st + stake_unbond_delay (ce_cfg ce))"
    using ok u(3,4) by auto
  show ?case
  proof (cases r1)
    case (Inl e)
    then have "st' = st1" using Cons.prems(1) c1 by simp
    then show ?thesis using f fin ut new by simp
  next
    case (Inr z)
    then have "create_outputs ce tx txid ul st1 (k + 1) xs = (r, st')" using Cons.prems(1) c1 by simp
    note IH = Cons.IH [OF this fin]
    then have "unspent_total st' \<le> unspent_total st1 + sum_list (map (\<lambda>x. unat (amount x)) xs)" by blast
    then have "unspent_total st' \<le> unspent_total st + sum_list (map (\<lambda>x. unat (amount x)) (x # xs))" using ut by simp
    moreover have "\<forall>j. j \<notin> tx_outkeys txid \<longrightarrow> utxo_set st' j = utxo_set st j"
      using IH new(1) by auto
    moreover have "ul \<longrightarrow> (\<forall>j v. utxo_set st' j = Some v \<longrightarrow> utxo_set st j = Some v \<or>
            u_spendable_height v = context_height st + stake_unbond_delay (ce_cfg ce))"
      using IH new(2) ch by metis
    ultimately show ?thesis
      using IH same_frame_trans [OF f(1)] same_accounts_trans [OF f(2)] by blast
  qed
qed simp

lemma apply_shielded_props:
  "apply_shielded ce tx st = (r, st') \<Longrightarrow> same_frame st st' \<and> utxo_set st' = utxo_set st \<and> tickets st' = tickets st
     \<and> signer_last_nonce st' = signer_last_nonce st \<and> pubkey_registry st' = pubkey_registry st"
  by (auto simp: apply_shielded_def same_frame_def split: if_splits sum.splits)

lemma record_signer_props:
  "same_frame st (record_signer tx st) \<and> utxo_set (record_signer tx st) = utxo_set st \<and> tickets (record_signer tx st) = tickets st
     \<and> shielded_st (record_signer tx st) = shielded_st st"
  by (simp add: record_signer_def same_frame_def)

text \<open>The stages of a successful application.\<close>

lemma apply_transaction_stages:
  assumes "apply_transaction ce st tx txid chk = (Inr (), st')" and "finite (dom (utxo_set st))"
  obtains st1 st2 st3 where "validate_transaction ce st tx chk = Inr ()"
    "spend_inputs st False (inputs tx) = (Inr (spends_ticket st tx), st1)"
    "utxo_set st1 = spent_keys (in_key ` set (inputs tx)) (utxo_set st)"
    "tickets st1 = filter (\<lambda>e. fst e \<notin> in_key ` set (inputs tx)) (tickets st)"
    "unspent_total st1 + in_total st tx = unspent_total st" "finite (dom (utxo_set st1))"
    "create_outputs ce tx txid (spends_ticket st tx) st1 0 (outputs tx) = (Inr (), st2)"
    "apply_shielded ce tx (record_signer tx st2) = (Inr (), st3)"
    "st' = st3\<lparr>seen_transactions := insert txid (seen_transactions st3)\<rparr>"
proof -
  from assms(1) have v: "validate_transaction ce st tx chk = Inr ()"
    by (auto simp: apply_transaction_def split: sum.splits)
  from validate_inputs [OF v] spend_inputs_ok [OF _ _ assms(2), of "inputs tx" False] obtain st1 where
    s1: "spend_inputs st False (inputs tx) = (Inr (spends_ticket st tx), st1)"
    "utxo_set st1 = spent_keys (in_key ` set (inputs tx)) (utxo_set st)"
    "tickets st1 = filter (\<lambda>e. fst e \<notin> in_key ` set (inputs tx)) (tickets st)"
    "unspent_total st1 + in_total st tx = unspent_total st" "finite (dom (utxo_set st1))"
    by (auto simp: spends_ticket_def in_total_def)
  from assms(1) v s1(1) obtain st2 st3 where
    "create_outputs ce tx txid (spends_ticket st tx) st1 0 (outputs tx) = (Inr (), st2)"
    "apply_shielded ce tx (record_signer tx st2) = (Inr (), st3)"
    "st' = st3\<lparr>seen_transactions := insert txid (seen_transactions st3)\<rparr>"
    by (auto simp: apply_transaction_def split: sum.splits prod.splits)
  with v s1 show thesis by (rule that)
qed

lemma apply_transaction_ok:
  assumes "apply_transaction ce st tx txid chk = (Inr (), st')" and "finite (dom (utxo_set st))"
  shows "validate_transaction ce st tx chk = Inr ()" and "same_frame st st'" and "finite (dom (utxo_set st'))"
    and "unspent_total st' + in_total st tx \<le> unspent_total st + out_total tx"
    and "j \<notin> tx_outkeys txid \<Longrightarrow> utxo_set st' j = spent_keys (in_key ` set (inputs tx)) (utxo_set st) j"
    and "spends_ticket st tx \<Longrightarrow> utxo_set st' j = Some u \<Longrightarrow>
      spent_keys (in_key ` set (inputs tx)) (utxo_set st) j = Some u
      \<or> u_spendable_height u = context_height st + stake_unbond_delay (ce_cfg ce)"
    and "signer_last_nonce st' = (if inputs tx \<noteq> [] \<and> signer tx \<noteq> []
      then (signer_last_nonce st)(signer tx \<mapsto> nonce tx) else signer_last_nonce st)"
    and "pubkey_registry st' = (if inputs tx \<noteq> [] \<and> signer tx \<noteq> [] \<and> signer_pubkey tx \<noteq> [] \<and> pubkey_registry st (signer tx) = None
      then (pubkey_registry st)(signer tx \<mapsto> signer_pubkey tx) else pubkey_registry st)"
proof -
  obtain st1 st2 st3 where v: "validate_transaction ce st tx chk = Inr ()"
    and g: "spend_inputs st False (inputs tx) = (Inr (spends_ticket st tx), st1)"
    "utxo_set st1 = spent_keys (in_key ` set (inputs tx)) (utxo_set st)"
    and tk: "tickets st1 = filter (\<lambda>e. fst e \<notin> in_key ` set (inputs tx)) (tickets st)"
    and g': "unspent_total st1 + in_total st tx = unspent_total st" "finite (dom (utxo_set st1))"
    "create_outputs ce tx txid (spends_ticket st tx) st1 0 (outputs tx) = (Inr (), st2)"
    "apply_shielded ce tx (record_signer tx st2) = (Inr (), st3)"
    "st' = st3\<lparr>seen_transactions := insert txid (seen_transactions st3)\<rparr>"
    by (rule apply_transaction_stages [OF assms]) (rule that)
  show "validate_transaction ce st tx chk = Inr ()" by (rule v)
  note F1 = spend_inputs_frame [OF g(1)] and F2 = create_outputs_props [OF g'(3,2)]
    and F3 = record_signer_props [of st2 tx] and F4 = apply_shielded_props [OF g'(4)]
  have ch: "context_height st1 = context_height st" using same_frame_height F1 by blast
  have u': "utxo_set st' = utxo_set st2" "unspent_total st' = unspent_total st2"
    using F3 F4 g'(5) by (simp_all add: unspent_total_def)
  have "same_frame st st3"
    using F1 F2 F3 F4 by (simp add: same_frame_def)
  then show "same_frame st st'" using g'(5) by (simp add: same_frame_def)
  show "finite (dom (utxo_set st'))" using F2 u' by simp
  show "unspent_total st' + in_total st tx \<le> unspent_total st + out_total tx"
    using F2 u' g'(1) by (simp add: out_total_def)
  show "j \<notin> tx_outkeys txid \<Longrightarrow> utxo_set st' j = spent_keys (in_key ` set (inputs tx)) (utxo_set st) j"
    using F2 u' g(2) by simp
  from F2 have unb: "spends_ticket st tx \<Longrightarrow> utxo_set st2 j = Some u \<Longrightarrow> utxo_set st1 j = Some u \<or>
      u_spendable_height u = context_height st1 + stake_unbond_delay (ce_cfg ce)" by blast
  show "spends_ticket st tx \<Longrightarrow> utxo_set st' j = Some u \<Longrightarrow>
      spent_keys (in_key ` set (inputs tx)) (utxo_set st) j = Some u
      \<or> u_spendable_height u = context_height st + stake_unbond_delay (ce_cfg ce)"
    using unb by (simp add: u' g(2) ch)
  show "signer_last_nonce st' = (if inputs tx \<noteq> [] \<and> signer tx \<noteq> []
      then (signer_last_nonce st)(signer tx \<mapsto> nonce tx) else signer_last_nonce st)"
    "pubkey_registry st' = (if inputs tx \<noteq> [] \<and> signer tx \<noteq> [] \<and> signer_pubkey tx \<noteq> [] \<and> pubkey_registry st (signer tx) = None
      then (pubkey_registry st)(signer tx \<mapsto> signer_pubkey tx) else pubkey_registry st)"
    using F1 F2 F4 g'(5) by (simp_all add: record_signer_def same_accounts_def)
qed

end
