(* ===== verification/Chain_Blocks.thy ===== *)
theory Chain_Blocks
  imports Chain_Transactions
begin

text \<open>
  Block validation, block application, reorganisation and mining of \<^verbatim>\<open>class Chain\<close>. Every validation
  stage of the source is one definition that returns the message of its first failing check. \<open>add_block\<close>
  and \<open>replace_with_chain\<close> return the verdict together with the state they leave behind, so that the
  rollback code is part of the model. The clock is an argument.
\<close>

section \<open>Header\<close>

definition validate_block_header :: "chain_env \<Rightarrow> u64 \<Rightarrow> chain_state \<Rightarrow> block \<Rightarrow> unit res" where
  "validate_block_header ce now st b =
     (let cfg = ce_cfg ce; h = header b; t = header (tip st) in
      if hd_height h \<noteq> hd_height t + 1 then Inl ''invalid height''
      else if hd_previous_hash h \<noteq> hash_block_header (ce_cr ce) t then Inl ''invalid previous hash''
      else if hd_merkle_root h \<noteq> compute_block_commitment (ce_cr ce) b then Inl ''invalid merkle root''
      else if hd_timestamp h < hd_timestamp t then Inl ''timestamp regression''
      else if hd_height h \<ge> difficulty_fork_height cfg
              \<and> hd_timestamp h > now + kFutureTimeLimitBlocks * max 1 (ucast (target_block_time_sec cfg))
      then Inl ''timestamp too far in future''
      else if hd_difficulty_target h > max_difficulty_target cfg then Inl ''min-diff: toy difficulty rejected''
      else if hd_difficulty_target h < min_difficulty_target cfg
      then Inl ''invalid difficulty target (below min-diff floor)''
      else if hd_difficulty_target h \<noteq> difficulty_target st then Inl ''invalid difficulty target''
      else if \<not> hash_meets_target ce (hash_block_header (ce_cr ce) h) (hd_difficulty_target h)
      then Inl ''invalid proof of work''
      else Inr ())"

section \<open>Transactions of a block\<close>

text \<open>Emission: the outputs of the coinbase, the fees of the other transactions, and the cap.\<close>

fun coinbase_sum :: "u64 \<Rightarrow> tx_output list \<Rightarrow> u64 res" where
  "coinbase_sum acc [] = Inr acc"
| "coinbase_sum acc (x # xs) =
     (if recipient x = [] \<or> amount x = 0 then Inl ''invalid coinbase output''
      else if acc > U64_MAX - amount x then Inl ''coinbase overflow''
      else coinbase_sum (acc + amount x) xs)"

fun fees_sum :: "u64 \<Rightarrow> transaction list \<Rightarrow> u64 res" where
  "fees_sum acc [] = Inr acc"
| "fees_sum acc (tx # txs) =
     (if inputs tx = [] \<and> shielded tx = [] then Inl ''non-coinbase tx must have inputs''
      else if acc > U64_MAX - fee tx then Inl ''fees overflow''
      else fees_sum (acc + fee tx) txs)"

definition check_emission :: "chain_env \<Rightarrow> chain_state \<Rightarrow> u64 \<Rightarrow> u64 \<Rightarrow> u64 \<Rightarrow> unit res" where
  "check_emission ce st h coinbase_total fees =
     (let base_reward = compute_block_reward ce h in
      if base_reward > U64_MAX - fees then Inl ''allowed reward overflow''
      else if coinbase_total > base_reward + fees then Inl ''coinbase exceeds allowed reward+fees''
      else if (if coinbase_total > fees then coinbase_total - fees else 0) > max_mintable_at ce st h
      then Inl ''max supply exceeded''
      else Inr ())"

text \<open>
  The shielded pass: checks against the state before the block, with the nullifiers and commitments
  of the block so far. It yields the proofs to verify and, for each transaction, its public flows.
\<close>

fun insert_cms :: "string set \<Rightarrow> string list \<Rightarrow> string set res" where
  "insert_cms cms [] = Inr cms"
| "insert_cms cms (c # cs) =
     (if c \<in> cms then Inl ''shielded: duplicate commitment in block'' else insert_cms (insert c cms) cs)"

fun shielded_pass ::
    "chain_env \<Rightarrow> chain_state \<Rightarrow> string set \<Rightarrow> string set \<Rightarrow> transaction list
       \<Rightarrow> ((transaction \<times> z_bundle) list \<times> (u64 \<times> u64) list) res" where
  "shielded_pass ce st nfs cms [] = Inr ([], [])"
| "shielded_pass ce st nfs cms (tx # txs) =
     (if shielded tx = [] then
        bind_res (shielded_pass ce st nfs cms txs) (\<lambda>(jobs, vps). Inr (jobs, (0, 0) # vps))
      else
        bind_res (validate_shielded_part ce st tx nfs False) (\<lambda>b.
        bind_res (insert_cms cms (map hex32 (commitments b))) (\<lambda>cms.
        bind_res (shielded_pass ce st (nfs \<union> set (map hex32 (nullifiers b))) cms txs) (\<lambda>(jobs, vps).
          Inr ((tx, b) # jobs, (vpub_in b, vpub_out b) # vps)))))"

fun verify_proofs :: "shield_env \<Rightarrow> (transaction \<times> z_bundle) list \<Rightarrow> unit res" where
  "verify_proofs sh [] = Inr ()"
| "verify_proofs sh ((tx, b) # jobs) = bind_res (verify_bundle_proof sh tx b) (\<lambda>_. verify_proofs sh jobs)"

text \<open>The value pass, over a private copy of the output set and of the balance index.\<close>

type_synonym snapshot = "(string \<rightharpoonup> utxo) \<times> (string \<rightharpoonup> u64)"

fun snap_outputs_total :: "u64 \<Rightarrow> tx_output list \<Rightarrow> u64 res" where
  "snap_outputs_total acc [] = Inr acc"
| "snap_outputs_total acc (x # xs) =
     (if recipient x = [] \<or> amount x = 0 then Inl ''invalid tx output''
      else if acc > U64_MAX - amount x then Inl ''block tx outputs overflow''
      else snap_outputs_total (acc + amount x) xs)"

fun snap_inputs :: "u64 \<Rightarrow> snapshot \<Rightarrow> u64 \<Rightarrow> tx_input list \<Rightarrow> (u64 \<times> snapshot) res" where
  "snap_inputs h sn acc [] = Inr (acc, sn)"
| "snap_inputs h (us, ix) acc (i # is) =
     (case us (in_key i) of
        None \<Rightarrow> Inl ''invalid or spent input in block''
      | Some u \<Rightarrow>
          if u_spent u then Inl ''invalid or spent input in block''
          else if u_spendable_height u > h then Inl ''input still unbonding''
          else if acc > U64_MAX - u_amount u then Inl ''inputs overflow''
          else snap_inputs h (us(in_key i \<mapsto> u\<lparr>u_spent := True\<rparr>), debit ix (u_owner u) (u_amount u))
                 (acc + u_amount u) is)"

fun snap_create :: "u64 \<Rightarrow> string \<Rightarrow> snapshot \<Rightarrow> nat \<Rightarrow> tx_output list \<Rightarrow> snapshot res" where
  "snap_create h txid sn k [] = Inr sn"
| "snap_create h txid (us, ix) k (x # xs) =
     (if bal ix (recipient x) > U64_MAX - amount x then Inl ''balance index overflow''
      else snap_create h txid
             (us(outpoint_key txid (of_nat k) \<mapsto> \<lparr>u_owner = recipient x, u_amount = amount x, u_spent = False,
                                                    u_spendable_height = 0, u_height = h\<rparr>),
              ix(recipient x \<mapsto> bal ix (recipient x) + amount x)) (k + 1) xs)"

text \<open>One transaction of the value pass; \<open>may_be_empty\<close> holds of a coinbase that pays nothing.\<close>

definition snap_tx :: "chain_env \<Rightarrow> u64 \<Rightarrow> bool \<Rightarrow> snapshot \<Rightarrow> transaction \<Rightarrow> u64 \<times> u64 \<Rightarrow> snapshot res" where
  "snap_tx ce h may_be_empty sn tx vp =
     (if outputs tx = [] \<and> shielded tx = [] \<and> \<not> may_be_empty then Inl ''tx outputs empty''
      else
        bind_res (snap_outputs_total 0 (outputs tx)) (\<lambda>outputs_total.
        bind_res (snap_inputs h sn 0 (inputs tx)) (\<lambda>(inputs_total, sn).
          if inputs tx \<noteq> [] \<and> outputs_total > U64_MAX - fee tx then Inl ''block tx outputs+fee overflow''
          else if shielded tx \<noteq> [] \<and>
                  (ucast inputs_total :: u128) + ucast (snd vp) \<noteq> ucast outputs_total + ucast (fee tx) + ucast (fst vp)
          then Inl ''block shielded value mismatch''
          else if shielded tx = [] \<and> inputs tx \<noteq> [] \<and> inputs_total < outputs_total + fee tx
          then Inl ''block tx value mismatch''
          else snap_create h (hash_transaction (ce_cr ce) tx) sn 0 (outputs tx))))"

fun snap_loop :: "chain_env \<Rightarrow> u64 \<Rightarrow> snapshot \<Rightarrow> (transaction \<times> u64 \<times> u64) list \<Rightarrow> snapshot res" where
  "snap_loop ce h sn [] = Inr sn"
| "snap_loop ce h sn ((tx, vp) # r) = bind_res (snap_tx ce h False sn tx vp) (\<lambda>sn. snap_loop ce h sn r)"

text \<open>
  The signature pass: one job for each transaction with a signer, under the key that the transaction
  carries, that an earlier transaction of the block registers, or that the registry holds.
\<close>

type_synonym verify_item = "string \<times> string \<times> string"

fun signature_jobs ::
    "chain_env \<Rightarrow> chain_state \<Rightarrow> (string \<rightharpoonup> string) \<Rightarrow> transaction list \<Rightarrow> verify_item list res" where
  "signature_jobs ce st ov [] = Inr []"
| "signature_jobs ce st ov (tx # txs) =
     (if inputs tx = [] \<and> shielded tx \<noteq> [] then signature_jobs ce st ov txs
      else if signer tx = [] \<and> signature tx = [] \<and> signer_pubkey tx = [] then signature_jobs ce st ov txs
      else if signer tx = [] \<or> \<not> starts_with ''pq='' (signature tx) then Inl ''non-coinbase tx missing PQ signature''
      else
        bind_res (resolve_signer_pubkey ce st tx (Some ov)) (\<lambda>pubkey.
          (let ov' = (if signer_pubkey tx \<noteq> [] \<and> inputs tx \<noteq> [] \<and> pubkey_registry st (signer tx) = None
                         \<and> ov (signer tx) = None
                      then ov(signer tx \<mapsto> signer_pubkey tx) else ov)
           in bind_res (signature_jobs ce st ov' txs) (\<lambda>jobs.
                Inr ((pubkey, hash_transaction (ce_cr ce) (tx\<lparr>signature := []\<rparr>), signature tx) # jobs)))))"

text \<open>
  \<^verbatim>\<open>pq_verify_messages_parallel\<close> as the chain uses it: success when every item verifies, otherwise a
  message with the position of a failing item (the first one here; with several failing items the
  scheduler of the threads decides which one is named).
\<close>

fun batch_verify :: "crypto \<Rightarrow> nat \<Rightarrow> verify_item list \<Rightarrow> unit res" where
  "batch_verify cr k [] = Inr ()"
| "batch_verify cr k ((pk, m, sg) # items) =
     (if \<not> verify_message_signature_hybrid_uncached cr pk m sg then Inl (''batch pq verify failed at index '' @ dec k)
      else batch_verify cr (k + 1) items)"

section \<open>Staking rules of a block\<close>

fun check_slashes :: "chain_env \<Rightarrow> chain_state \<Rightarrow> string set \<Rightarrow> slash_evidence list \<Rightarrow> unit res" where
  "check_slashes ce st seen [] = Inr ()"
| "check_slashes ce st seen (ev # evs) =
     bind_res (validate_slash ce st ev) (\<lambda>_.
       if ticket_id (ev_a ev) \<in> seen then Inl ''duplicate slash evidence''
       else check_slashes ce st (insert (ticket_id (ev_a ev)) seen) evs)"

text \<open>The vote loop returns the owners of the approving tickets in vote order.\<close>

fun check_votes ::
    "chain_env \<Rightarrow> chain_state \<Rightarrow> u64 \<Rightarrow> string \<Rightarrow> string list \<Rightarrow> string set \<Rightarrow> stake_vote list \<Rightarrow> string list res" where
  "check_votes ce st vh vhash selected seen [] = Inr []"
| "check_votes ce st vh vhash selected seen (v # vs) =
     (if voted_height v \<noteq> vh \<or> voted_hash v \<noteq> vhash then Inl ''vote not on parent block''
      else if ticket_id v \<notin> set selected then Inl ''vote from unselected ticket''
      else if ticket_id v \<in> seen then Inl ''duplicate vote''
      else case ticket st (ticket_id v) of
             None \<Rightarrow> Inl ''invalid stake vote signature''
           | Some t \<Rightarrow>
               if \<not> vote_signature_ok ce (ticket_with_key st t) v then Inl ''invalid stake vote signature''
               else bind_res (check_votes ce st vh vhash selected (insert (ticket_id v) seen) vs) (\<lambda>owners.
                      Inr (if approve v then tk_owner t # owners else owners)))"

definition check_staker_rewards :: "chain_env \<Rightarrow> chain_state \<Rightarrow> block \<Rightarrow> string list \<Rightarrow> unit res" where
  "check_staker_rewards ce st b owners =
     (let fees = foldl (\<lambda>a tx. a + fee tx) 0 (tl (transactions b));
          pot = max_mintable_at ce st (hd_height (header b)) + fees;
          n = length owners;
          per = stake_reward_per_vote pot (stake_reward_bps (ce_cfg ce)) n;
          outs = outputs (hd (transactions b)) in
      if per = 0 then Inr ()
      else if length outs < n then Inl ''coinbase missing staker rewards''
      else if \<not> list_all2 (\<lambda>x own. recipient x = own \<and> amount x = per) (drop (length outs - n) outs) owners
      then Inl ''coinbase staker reward mismatch''
      else Inr ())"

definition validate_block_staking :: "chain_env \<Rightarrow> chain_state \<Rightarrow> block \<Rightarrow> unit res" where
  "validate_block_staking ce st b =
     (let cfg = ce_cfg ce; h = hd_height (header b) in
      if \<not> staking_active_at ce h then
        (if votes b \<noteq> [] \<or> slashes b \<noteq> [] then Inl ''votes/slashes before staking activation'' else Inr ())
      else
        bind_res (check_slashes ce st {} (slashes b)) (\<lambda>_.
          (let vh = h - 1; vhash = hd_previous_hash (header b);
               eligible = eligible_tickets_at ce st vh;
               selected = select_tickets (ce_cr ce) eligible vhash (stake_votes_per_block cfg) in
           if length (votes b) > length selected then Inl ''too many votes''
           else
             bind_res (check_votes ce st vh vhash selected {} (votes b)) (\<lambda>owners.
               if length eligible \<ge> unat (stake_min_live_tickets cfg) \<and> length owners < unat (stake_vote_quorum cfg)
               then Inl ''insufficient stake votes''
               else if owners \<noteq> [] then check_staker_rewards ce st b owners
               else Inr ()))))"

section \<open>The whole block\<close>

definition validate_block_transactions :: "chain_env \<Rightarrow> chain_state \<Rightarrow> block \<Rightarrow> unit res" where
  "validate_block_transactions ce st b =
     (let cfg = ce_cfg ce; h = hd_height (header b) in
      case transactions b of
        [] \<Rightarrow> Inl ''block must include coinbase''
      | coinbase # rest \<Rightarrow>
          if block_weight (ce_cr ce) b > unat (max_block_weight cfg) then Inl ''block weight exceeds max_block_weight''
          else if shielded coinbase \<noteq> [] then Inl ''coinbase must not carry a shielded bundle''
          else if inputs coinbase \<noteq> [] then Inl ''coinbase must not have inputs''
          else if outputs coinbase = [] \<and> \<not> allow_zero_reward_blocks cfg \<and> max_mintable_at ce st h \<noteq> 0
          then Inl ''coinbase must have output''
          else
            bind_res (coinbase_sum 0 (outputs coinbase)) (\<lambda>coinbase_total.
            bind_res (fees_sum 0 rest) (\<lambda>fees.
            bind_res (check_emission ce st h coinbase_total fees) (\<lambda>_.
            bind_res (shielded_pass ce st {} {} rest) (\<lambda>(jobs, vps).
            bind_res (verify_proofs (ce_sh ce) jobs) (\<lambda>_.
            bind_res (snap_tx ce h (coinbase_total = 0) (utxo_set st, address_index st) coinbase (0, 0)) (\<lambda>sn.
            bind_res (snap_loop ce h sn (zip rest vps)) (\<lambda>_.
            bind_res (signature_jobs ce st Map.empty rest) (\<lambda>items.
            bind_res (batch_verify (ce_cr ce) 0 items) (\<lambda>_.
              validate_block_staking ce st b))))))))))"

section \<open>Adding a block\<close>

fun apply_transactions :: "chain_env \<Rightarrow> chain_state \<Rightarrow> transaction list \<Rightarrow> unit res \<times> chain_state" where
  "apply_transactions ce st [] = (Inr (), st)"
| "apply_transactions ce st (tx # txs) =
     (case apply_transaction ce st tx (hash_transaction (ce_cr ce) tx) False of
        (Inl e, st') \<Rightarrow> (Inl e, st')
      | (Inr _, st') \<Rightarrow> apply_transactions ce st' txs)"

text \<open>The rollback of \<^verbatim>\<open>add_block\<close>: the fields it restores, from the snapshot \<open>old\<close>.\<close>

definition restore :: "chain_state \<Rightarrow> chain_state \<Rightarrow> chain_state" where
  "restore old s =
     s\<lparr>tickets := tickets old, total_slashed := total_slashed old, utxo_set := utxo_set old,
       address_index := address_index old, seen_transactions := seen_transactions old,
       signer_last_nonce := signer_last_nonce old, pubkey_registry := pubkey_registry old,
       total_emitted := total_emitted old, total_fees_last_block := total_fees_last_block old,
       blocks := (if length (blocks s) > length (blocks old) then take (length (blocks old)) (blocks s) else blocks s),
       cumulative_work := cumulative_work old, difficulty_target := difficulty_target old,
       shielded_st := shielded_st old\<rparr>"

fun block_fees :: "u64 \<Rightarrow> transaction list \<Rightarrow> u64 res" where
  "block_fees acc [] = Inr acc"
| "block_fees acc (tx # txs) =
     (if acc > U64_MAX - fee tx then Inl ''fees overflow'' else block_fees (acc + fee tx) txs)"

fun coinbase_outputs :: "u64 \<Rightarrow> tx_output list \<Rightarrow> u64 res" where
  "coinbase_outputs acc [] = Inr acc"
| "coinbase_outputs acc (x # xs) =
     (if acc > U64_MAX - amount x then Inl ''coinbase overflow'' else coinbase_outputs (acc + amount x) xs)"

definition slash_ticket :: "chain_state \<Rightarrow> slash_evidence \<Rightarrow> chain_state" where
  "slash_ticket st ev =
     (let k = ticket_id (ev_a ev) in
      case ticket st k of
        None \<Rightarrow> st
      | Some _ \<Rightarrow>
          (let st' = (case utxo_set st k of
                        None \<Rightarrow> st
                      | Some u \<Rightarrow>
                          if u_spent u then st
                          else st\<lparr>utxo_set := (utxo_set st)(k \<mapsto> u\<lparr>u_spent := True\<rparr>),
                                  address_index := debit (address_index st) (u_owner u) (u_amount u),
                                  total_slashed := total_slashed st + u_amount u\<rparr>)
           in st'\<lparr>tickets := omap_del k (tickets st')\<rparr>))"

text \<open>The part of \<^verbatim>\<open>add_block\<close> after the transactions; its early returns restore nothing.\<close>

definition connect_block :: "chain_env \<Rightarrow> chain_state \<Rightarrow> block \<Rightarrow> u64 \<Rightarrow> chain_state" where
  "connect_block ce st b minted =
     (let st1 = st\<lparr>total_emitted := total_emitted st + minted, blocks := blocks st @ [b],
                   cumulative_work := cumulative_work st + work_for_target (hd_difficulty_target (header b))\<rparr>
      in st1\<lparr>difficulty_target := compute_next_difficulty_target ce st1\<rparr>)"

definition finish_block :: "chain_env \<Rightarrow> chain_state \<Rightarrow> block \<Rightarrow> unit res \<times> chain_state" where
  "finish_block ce st b =
     (case block_fees 0 (tl (transactions b)) of
        Inl e \<Rightarrow> (Inl e, st)
      | Inr fees \<Rightarrow>
          (let st = foldl slash_ticket (st\<lparr>total_fees_last_block := fees\<rparr>) (slashes b) in
           if transactions b = [] then (Inr (), connect_block ce st b 0)
           else
             (case coinbase_outputs 0 (outputs (hd (transactions b))) of
                Inl e \<Rightarrow> (Inl e, st)
              | Inr coinbase_total \<Rightarrow>
                  (let minted = (if coinbase_total > fees then coinbase_total - fees else 0) in
                   if minted > max_mintable_at ce st (hd_height (header b)) then (Inl ''max supply exceeded'', st)
                   else (Inr (), connect_block ce st b minted)))))"

definition add_block :: "chain_env \<Rightarrow> u64 \<Rightarrow> chain_state \<Rightarrow> block \<Rightarrow> unit res \<times> chain_state" where
  "add_block ce now st b =
     (if block_weight (ce_cr ce) b > unat (max_block_weight (ce_cfg ce))
      then (Inl ''block weight exceeds max_block_weight'', st)
      else
        case validate_block_header ce now st b of
          Inl e \<Rightarrow> (Inl e, st)
        | Inr _ \<Rightarrow>
            (case validate_block_transactions ce st b of
               Inl e \<Rightarrow> (Inl e, st)
             | Inr _ \<Rightarrow>
                 (case apply_transactions ce (st\<lparr>applying_height := hd_height (header b)\<rparr>) (transactions b) of
                    (Inl e, s) \<Rightarrow> (Inl e, (restore st s)\<lparr>applying_height := 0\<rparr>)
                  | (Inr _, s) \<Rightarrow> (case finish_block ce s b of (r, s') \<Rightarrow> (r, s'\<lparr>applying_height := 0\<rparr>)))))"

section \<open>Reorganisation\<close>

text \<open>The clock is read once for each replayed block: \<open>clock i\<close> is its value for block \<open>i\<close> of the candidate.\<close>

fun replay_blocks :: "chain_env \<Rightarrow> (nat \<Rightarrow> u64) \<Rightarrow> chain_state \<Rightarrow> nat \<Rightarrow> block list \<Rightarrow> unit res \<times> chain_state" where
  "replay_blocks ce clock st i [] = (Inr (), st)"
| "replay_blocks ce clock st i (b # bs) =
     (case add_block ce (clock i) st b of
        (Inl e, st') \<Rightarrow> (Inl (''invalid candidate at height '' @ dec i @ '': '' @ e), st')
      | (Inr _, st') \<Rightarrow> replay_blocks ce clock st' (i + 1) bs)"

text \<open>\<^verbatim>\<open>applying_height_\<close> is not among the fields that the reorganisation saves.\<close>

definition restore_chain :: "chain_state \<Rightarrow> chain_state \<Rightarrow> chain_state" where
  "restore_chain old s = old\<lparr>applying_height := applying_height s\<rparr>"

definition replace_with_chain ::
    "chain_env \<Rightarrow> (nat \<Rightarrow> u64) \<Rightarrow> chain_state \<Rightarrow> block list \<Rightarrow> unit res \<times> chain_state" where
  "replace_with_chain ce clock st candidate =
     (case candidate of
        [] \<Rightarrow> (Inl ''candidate chain empty'', st)
      | g # rest \<Rightarrow>
          if hash_block_header (ce_cr ce) (header g) \<noteq> genesis_hash ce st then (Inl ''genesis mismatch'', st)
          else
            (case replay_blocks ce clock (Chain_reset ce) 1 rest of
               (Inl e, s) \<Rightarrow> (Inl e, restore_chain st s)
             | (Inr _, s) \<Rightarrow>
                 if cumulative_work s \<le> cumulative_work st
                 then (Inl ''candidate work not higher'', restore_chain st s)
                 else (Inr (), s)))"

section \<open>Mining\<close>

definition make_block_template :: "chain_env \<Rightarrow> u64 \<Rightarrow> chain_state \<Rightarrow> string \<Rightarrow> transaction list \<Rightarrow> u64 \<Rightarrow> block" where
  "make_block_template ce now st reward_address txs reward =
     (let h = height st + 1;
          coinbase = \<lparr>inputs = [], outputs = (if reward > 0 then [\<lparr>recipient = reward_address, amount = reward\<rparr>] else []),
                      signer = [], signer_pubkey = [], signature = [], fee = 0, nonce = h, shielded = []\<rparr>;
          b = \<lparr>header = \<lparr>hd_height = h, hd_previous_hash = hash_block_header (ce_cr ce) (header (tip st)),
                         hd_timestamp = now, hd_nonce = 0, hd_difficulty_target = difficulty_target st,
                         hd_merkle_root = []\<rparr>,
               transactions = coinbase # txs, votes = [], slashes = []\<rparr>
      in b\<lparr>header := (header b)\<lparr>hd_merkle_root := compute_block_commitment (ce_cr ce) b\<rparr>\<rparr>)"

text \<open>The result of \<^verbatim>\<open>search_block_pow\<close>, with the fields its caller reads.\<close>

record pow_search_result =
  found :: bool
  found_nonce :: u64
  header_hash :: string
  stopped :: bool
  deadline_hit :: bool

definition kTestnetMineDeadlineSec :: u64 where "kTestnetMineDeadlineSec = 30"

text \<open>\<open>search\<close> is the outcome of the search for a header; a success returns the hash found.\<close>

definition mine_block ::
    "chain_env \<Rightarrow> u64 \<Rightarrow> u64 \<Rightarrow> (block_header \<Rightarrow> pow_search_result) \<Rightarrow> chain_state \<Rightarrow> block \<Rightarrow> string res \<times> chain_state" where
  "mine_block ce now deadline_sec search st b =
     (let f = search (header b) in
      if found f then
        (case add_block ce now st (b\<lparr>header := (header b)\<lparr>hd_nonce := found_nonce f\<rparr>\<rparr>) of
           (Inl e, st') \<Rightarrow> (Inl e, st')
         | (Inr _, st') \<Rightarrow> (Inr (header_hash f), st'))
      else if stopped f then (Inl ''mining stopped'', st)
      else if deadline_hit f then
        (Inl (if deadline_sec = kTestnetMineDeadlineSec
              then ''mining deadline exceeded (30s); testnet uses sha3_512 header PoW''
              else ''mining deadline exceeded ('' @ to_string deadline_sec @ ''s)''), st)
      else (Inl ''mining search exhausted'', st))"

fun reward_outputs :: "chain_state \<Rightarrow> u64 \<Rightarrow> stake_vote list \<Rightarrow> tx_output list res" where
  "reward_outputs st per [] = Inr []"
| "reward_outputs st per (v # vs) =
     (case ticket st (ticket_id v) of
        None \<Rightarrow> Inl ''vote for unknown ticket''
      | Some t \<Rightarrow> bind_res (reward_outputs st per vs) (\<lambda>xs. Inr (\<lparr>recipient = tk_owner t, amount = per\<rparr> # xs)))"

text \<open>The block that \<^verbatim>\<open>mine_and_add_block_with_votes\<close> assembles before it starts the search.\<close>

definition assemble_block ::
    "chain_env \<Rightarrow> u64 \<Rightarrow> chain_state \<Rightarrow> string \<Rightarrow> transaction list \<Rightarrow> stake_vote list \<Rightarrow> slash_evidence list \<Rightarrow> block res" where
  "assemble_block ce now st reward_address txs vs evs =
     (let cfg = ce_cfg ce; h = height st + 1;
          vs = (if staking_active_at ce h then vs else []);
          evs = (if staking_active_at ce h then evs else []);
          fees = foldl (\<lambda>a tx. a + fee tx) 0 txs;
          pot = max_mintable_at ce st h + fees;
          approvals = filter approve vs in
      if stake_votes_required_for_next_block ce st \<and> length approvals < unat (stake_vote_quorum cfg)
      then Inl (''insufficient stake votes ('' @ dec (length approvals) @ ''/'' @ to_string (stake_vote_quorum cfg) @ '')'')
      else
        (let per_vote = (if approvals = [] then 0
                         else stake_reward_per_vote pot (stake_reward_bps cfg) (length approvals));
             stakers_total = per_vote * of_nat (length approvals);
             b = make_block_template ce now st reward_address txs (pot - stakers_total) in
         bind_res (if per_vote > 0 then reward_outputs st per_vote approvals else Inr []) (\<lambda>xs.
           (let cb = hd (transactions b);
                b = b\<lparr>transactions := cb\<lparr>outputs := outputs cb @ xs\<rparr> # tl (transactions b), votes := vs, slashes := evs\<rparr>
            in Inr (b\<lparr>header := (header b)\<lparr>hd_merkle_root := compute_block_commitment (ce_cr ce) b\<rparr>\<rparr>)))))"

definition mine_and_add_block_with_votes ::
    "chain_env \<Rightarrow> u64 \<Rightarrow> u64 \<Rightarrow> u64 \<Rightarrow> (block_header \<Rightarrow> pow_search_result) \<Rightarrow> chain_state \<Rightarrow> string \<Rightarrow> transaction list
       \<Rightarrow> stake_vote list \<Rightarrow> slash_evidence list \<Rightarrow> string res \<times> chain_state" where
  "mine_and_add_block_with_votes ce now now' deadline_sec search st reward_address txs vs evs =
     (case assemble_block ce now st reward_address txs vs evs of
        Inl e \<Rightarrow> (Inl e, st)
      | Inr b \<Rightarrow> mine_block ce now' deadline_sec search st b)"

definition mine_and_add_block ::
    "chain_env \<Rightarrow> u64 \<Rightarrow> u64 \<Rightarrow> u64 \<Rightarrow> (block_header \<Rightarrow> pow_search_result) \<Rightarrow> chain_state \<Rightarrow> string \<Rightarrow> transaction list
       \<Rightarrow> string res \<times> chain_state" where
  "mine_and_add_block ce now now' deadline_sec search st reward_address txs =
     mine_and_add_block_with_votes ce now now' deadline_sec search st reward_address txs [] []"

end
