(* ===== verification/Chain_Invariants.thy ===== *)
theory Chain_Invariants
  imports Chain_Blocks
begin

text \<open>
  What every chain reachable through \<open>add_block\<close>, \<open>replace_with_chain\<close> and mining satisfies. The first
  part shows that a refused block leaves no trace, so that an invariant has to be shown for accepted
  blocks only; the locale \<open>block_invariant\<close> turns this into a proof principle, which the following
  sections instantiate: emission, value, block links, difficulty, nonces, key registry, double spends.
\<close>

section \<open>Frames of block application\<close>

lemma create_outputs_frame: "create_outputs ce tx txid ul st k xs = (r, st') \<Longrightarrow> same_frame st st' \<and> same_accounts st st'"
proof (induction xs arbitrary: st k)
  case (Cons x xs)
  obtain r1 st1 where c1: "create_output ce tx txid ul st k x = (r1, st1)" by (cases "create_output ce tx txid ul st k x")
  note F = create_output_props [OF c1]
  show ?case
  proof (cases r1)
    case (Inl e)
    then show ?thesis using F Cons.prems c1 by simp
  next
    case (Inr z)
    then have "create_outputs ce tx txid ul st1 (k + 1) xs = (r, st')" using Cons.prems c1 by simp
    from Cons.IH [OF this] F show ?thesis by (auto intro: same_frame_trans same_accounts_trans)
  qed
qed simp

lemma apply_transaction_frame:
  assumes "apply_transaction ce st tx txid chk = (r, st')"
  shows "same_frame st st'"
proof (cases "validate_transaction ce st tx chk")
  case (Inl e)
  then show ?thesis using assms by (simp add: apply_transaction_def)
next
  case (Inr z)
  obtain r1 st1 where s1: "spend_inputs st False (inputs tx) = (r1, st1)" by (cases "spend_inputs st False (inputs tx)")
  note F1 = spend_inputs_frame [OF s1]
  show ?thesis
  proof (cases r1)
    case (Inl e)
    then show ?thesis using assms Inr s1 F1 by (simp add: apply_transaction_def)
  next
    case (Inr ul)
    obtain r2 st2 where s2: "create_outputs ce tx txid ul st1 0 (outputs tx) = (r2, st2)"
      by (cases "create_outputs ce tx txid ul st1 0 (outputs tx)")
    note F2 = create_outputs_frame [OF s2]
    obtain r3 st3 where s3: "apply_shielded ce tx (record_signer tx st2) = (r3, st3)"
      by (cases "apply_shielded ce tx (record_signer tx st2)")
    have "same_frame st st2" using F1 F2 same_frame_trans by blast
    moreover have "same_frame st2 st3"
      using apply_shielded_props [OF s3] record_signer_props [of st2 tx] same_frame_trans by blast
    ultimately show ?thesis
      using assms \<open>validate_transaction ce st tx chk = Inr z\<close> s1 Inr s2 s3
      by (auto simp: apply_transaction_def same_frame_def split: sum.splits)
  qed
qed

lemma apply_transactions_frame: "apply_transactions ce st txs = (r, st') \<Longrightarrow> same_frame st st'"
proof (induction txs arbitrary: st)
  case (Cons tx txs)
  obtain r1 st1 where a: "apply_transaction ce st tx (hash_transaction (ce_cr ce) tx) False = (r1, st1)"
    by (cases "apply_transaction ce st tx (hash_transaction (ce_cr ce) tx) False")
  note F = apply_transaction_frame [OF a]
  show ?case
  proof (cases r1)
    case (Inl e)
    then show ?thesis using Cons.prems a F by simp
  next
    case (Inr z)
    then show ?thesis using Cons.prems a F Cons.IH [of st1] same_frame_trans by auto
  qed
qed simp

text \<open>What the slashes of a block leave alone.\<close>

lemma slash_ticket_frame:
  "blocks (slash_ticket st ev) = blocks st \<and> total_emitted (slash_ticket st ev) = total_emitted st
    \<and> signer_last_nonce (slash_ticket st ev) = signer_last_nonce st
    \<and> pubkey_registry (slash_ticket st ev) = pubkey_registry st \<and> shielded_st (slash_ticket st ev) = shielded_st st
    \<and> difficulty_target (slash_ticket st ev) = difficulty_target st
    \<and> cumulative_work (slash_ticket st ev) = cumulative_work st"
  by (simp add: slash_ticket_def Let_def split: option.split)

lemma slashes_frame:
  "blocks (foldl slash_ticket st evs) = blocks st \<and> total_emitted (foldl slash_ticket st evs) = total_emitted st
    \<and> signer_last_nonce (foldl slash_ticket st evs) = signer_last_nonce st
    \<and> pubkey_registry (foldl slash_ticket st evs) = pubkey_registry st
    \<and> shielded_st (foldl slash_ticket st evs) = shielded_st st
    \<and> difficulty_target (foldl slash_ticket st evs) = difficulty_target st
    \<and> cumulative_work (foldl slash_ticket st evs) = cumulative_work st"
  by (induction evs arbitrary: st) (simp_all add: slash_ticket_frame)

section \<open>Atomicity\<close>

lemma restore_same: "blocks s = blocks st \<Longrightarrow> (restore st s)\<lparr>applying_height := 0\<rparr> = st\<lparr>applying_height := 0\<rparr>"
  by (cases st, cases s) (simp add: restore_def)

lemma fees_sum_block_fees: "fees_sum acc txs = Inr f \<Longrightarrow> block_fees acc txs = Inr f"
  by (induction acc txs rule: fees_sum.induct) (auto split: if_splits)

lemma coinbase_sum_outputs: "coinbase_sum acc xs = Inr t \<Longrightarrow> coinbase_outputs acc xs = Inr t"
  by (induction acc xs rule: coinbase_sum.induct) (auto split: if_splits)

text \<open>The facts that the validation of a block establishes.\<close>

lemma validate_block_transactions_ok:
  assumes "validate_block_transactions ce st b = Inr ()"
  obtains cb rest t f jobs vps sn sn' items where
    "transactions b = cb # rest" "block_weight (ce_cr ce) b \<le> unat (max_block_weight (ce_cfg ce))"
    "shielded cb = []" "inputs cb = []"
    "coinbase_sum 0 (outputs cb) = Inr t" "fees_sum 0 rest = Inr f"
    "check_emission ce st (hd_height (header b)) t f = Inr ()"
    "shielded_pass ce st {} {} rest = Inr (jobs, vps)" "verify_proofs (ce_sh ce) jobs = Inr ()"
    "snap_tx ce (hd_height (header b)) (t = 0) (utxo_set st, address_index st) cb (0, 0) = Inr sn"
    "snap_loop ce (hd_height (header b)) sn (zip rest vps) = Inr sn'"
    "signature_jobs ce st Map.empty rest = Inr items" "batch_verify (ce_cr ce) 0 items = Inr ()"
    "validate_block_staking ce st b = Inr ()"
proof (cases "transactions b")
  case Nil
  then show ?thesis using assms by (simp add: validate_block_transactions_def Let_def)
next
  case (Cons cb rest)
  from assms obtain t f jobs vps sn sn' items where
    "block_weight (ce_cr ce) b \<le> unat (max_block_weight (ce_cfg ce))"
    "shielded cb = []" "inputs cb = []"
    "coinbase_sum 0 (outputs cb) = Inr t" "fees_sum 0 rest = Inr f"
    "check_emission ce st (hd_height (header b)) t f = Inr ()"
    "shielded_pass ce st {} {} rest = Inr (jobs, vps)" "verify_proofs (ce_sh ce) jobs = Inr ()"
    "snap_tx ce (hd_height (header b)) (t = 0) (utxo_set st, address_index st) cb (0, 0) = Inr sn"
    "snap_loop ce (hd_height (header b)) sn (zip rest vps) = Inr sn'"
    "signature_jobs ce st Map.empty rest = Inr items" "batch_verify (ce_cr ce) 0 items = Inr ()"
    "validate_block_staking ce st b = Inr ()"
    unfolding validate_block_transactions_def Let_def Cons list.case
    by (auto simp: bind_res_Inr not_less simp del: split_paired_Ex split: if_split_asm)
  with Cons show ?thesis by (rule that)
qed

text \<open>After a successful validation the last part of \<^verbatim>\<open>add_block\<close> cannot fail.\<close>

lemma finish_block_ok:
  assumes "transactions b = cb # rest" "coinbase_sum 0 (outputs cb) = Inr t" "fees_sum 0 rest = Inr f"
    and "check_emission ce st (hd_height (header b)) t f = Inr ()" and "total_emitted s = total_emitted st"
    and "m = (if t > f then t - f else 0)" and "s1 = foldl slash_ticket (s\<lparr>total_fees_last_block := f\<rparr>) (slashes b)"
  shows "m \<le> max_mintable_at ce st (hd_height (header b))" and "finish_block ce s b = (Inr (), connect_block ce s1 b m)"
proof -
  show mm: "m \<le> max_mintable_at ce st (hd_height (header b))"
    using assms(4,6) by (simp add: check_emission_def Let_def split: if_splits)
  have "max_mintable_at ce s1 h = max_mintable_at ce st h" for h
    using slashes_frame [of "s\<lparr>total_fees_last_block := f\<rparr>" "slashes b"] assms(5,7) by (simp add: max_mintable_at_def)
  with mm show "finish_block ce s b = (Inr (), connect_block ce s1 b m)"
    using assms(1) fees_sum_block_fees [OF assms(3)] coinbase_sum_outputs [OF assms(2)]
    by (simp add: finish_block_def Let_def assms(6,7) [symmetric] not_less)
qed

lemma add_block_accepts:
  assumes "block_weight (ce_cr ce) b \<le> unat (max_block_weight (ce_cfg ce))" and "validate_block_header ce now st b = Inr ()"
    and vt: "validate_block_transactions ce st b = Inr ()"
    and ap: "apply_transactions ce (st\<lparr>applying_height := hd_height (header b)\<rparr>) (transactions b) = (Inr (), s)"
  shows "fst (add_block ce now st b) = Inr ()"
proof -
  obtain cb rest t f jobs vps sn sn' items where V: "transactions b = cb # rest" "shielded cb = []" "inputs cb = []"
    "coinbase_sum 0 (outputs cb) = Inr t" "fees_sum 0 rest = Inr f"
    "check_emission ce st (hd_height (header b)) t f = Inr ()"
    by (rule validate_block_transactions_ok [OF vt]) (rule that)
  have "total_emitted s = total_emitted st" using apply_transactions_frame [OF ap] by (simp add: same_frame_def)
  from finish_block_ok(2) [OF V(1,4,5,6) this refl refl] assms show ?thesis
    by (simp add: add_block_def not_less)
qed

text \<open>What an accepted block did to the state; the stages of a refused one are undone.\<close>

lemma add_block_cases:
  assumes "add_block ce now st b = (r, st')" and "applying_height st = 0"
  obtains (refused) e where "r = Inl e" "st' = st"
  | (accepted) s s1 cb rest t f m where "r = Inr ()" "validate_block_header ce now st b = Inr ()"
      "validate_block_transactions ce st b = Inr ()" "transactions b = cb # rest"
      "coinbase_sum 0 (outputs cb) = Inr t" "fees_sum 0 rest = Inr f"
      "check_emission ce st (hd_height (header b)) t f = Inr ()" "inputs cb = []" "shielded cb = []"
      "apply_transactions ce (st\<lparr>applying_height := hd_height (header b)\<rparr>) (cb # rest) = (Inr (), s)"
      "m = (if t > f then t - f else 0)" "m \<le> max_mintable_at ce st (hd_height (header b))"
      "s1 = foldl slash_ticket (s\<lparr>total_fees_last_block := f\<rparr>) (slashes b)"
      "st' = (connect_block ce s1 b m)\<lparr>applying_height := 0\<rparr>"
proof -
  show thesis
  proof (cases "validate_block_header ce now st b = Inr () \<and> validate_block_transactions ce st b = Inr ()
      \<and> block_weight (ce_cr ce) b \<le> unat (max_block_weight (ce_cfg ce))")
    case False
    then have "st' = st \<and> (\<exists>e. r = Inl e)"
      using assms(1) by (auto simp: add_block_def not_less split: if_splits sum.splits) metis+
    then show thesis using refused by blast
  next
    case True
    then have vh: "validate_block_header ce now st b = Inr ()" and vt: "validate_block_transactions ce st b = Inr ()"
      and w: "\<not> block_weight (ce_cr ce) b > unat (max_block_weight (ce_cfg ce))" by auto
    let ?st = "st\<lparr>applying_height := hd_height (header b)\<rparr>"
    obtain ra s where ap: "apply_transactions ce ?st (transactions b) = (ra, s)" by (cases "apply_transactions ce ?st (transactions b)")
    from apply_transactions_frame [OF ap] have F: "blocks s = blocks st" "total_emitted s = total_emitted st"
      by (simp_all add: same_frame_def)
    obtain cb rest t f jobs vps sn sn' items where V: "transactions b = cb # rest" "shielded cb = []" "inputs cb = []"
      "coinbase_sum 0 (outputs cb) = Inr t" "fees_sum 0 rest = Inr f"
      "check_emission ce st (hd_height (header b)) t f = Inr ()"
      by (rule validate_block_transactions_ok [OF vt]) (rule that)
    show thesis
    proof (cases ra)
      case (Inl e)
      then have "st' = (restore st s)\<lparr>applying_height := 0\<rparr>" "r = Inl e"
        using assms(1) vh vt w ap by (auto simp: add_block_def)
      then show thesis using refused restore_same [OF F(1)] assms(2) by simp
    next
      case (Inr z)
      define s1 where "s1 = foldl slash_ticket (s\<lparr>total_fees_last_block := f\<rparr>) (slashes b)"
      define m where "m = (if t > f then t - f else 0)"
      note FB = finish_block_ok [OF V(1,4,5,6) F(2) m_def s1_def]
      then have "st' = (connect_block ce s1 b m)\<lparr>applying_height := 0\<rparr>" "r = Inr ()"
        using assms(1) vh vt w ap Inr FB(2) by (auto simp: add_block_def)
      then show thesis
        using accepted vh vt V ap Inr FB(1) s1_def m_def by simp
    qed
  qed
qed

lemma add_block_refused: "add_block ce now st b = (Inl e, st') \<Longrightarrow> applying_height st = 0 \<Longrightarrow> st' = st"
  by (erule add_block_cases) auto

lemma add_block_idle: "add_block ce now st b = (r, st') \<Longrightarrow> applying_height st = 0 \<Longrightarrow> applying_height st' = 0"
  by (erule add_block_cases) auto

section \<open>Reachable chains\<close>

inductive chain_step :: "chain_env \<Rightarrow> chain_state \<Rightarrow> chain_state \<Rightarrow> bool" for ce where
  add: "add_block ce now st b = (r, st') \<Longrightarrow> chain_step ce st st'"
| reorganise: "replace_with_chain ce clock st candidate = (r, st') \<Longrightarrow> chain_step ce st st'"
| mine: "mine_and_add_block_with_votes ce now now' dl search st addr txs vs evs = (r, st') \<Longrightarrow> chain_step ce st st'"

inductive chain_run :: "chain_env \<Rightarrow> chain_state \<Rightarrow> bool" for ce where
  start: "chain_run ce (Chain_reset ce)"
| step: "chain_run ce st \<Longrightarrow> chain_step ce st st' \<Longrightarrow> chain_run ce st'"

inductive_cases chain_stepE: "chain_step ce st st'"

lemma Chain_reset_idle [simp]: "applying_height (Chain_reset ce) = 0"
  by (simp add: Chain_reset_def Let_def)

lemma replay_idle: "replay_blocks ce clock st i bs = (r, s) \<Longrightarrow> applying_height st = 0 \<Longrightarrow> applying_height s = 0"
  by (induction bs arbitrary: st i) (auto split: prod.splits sum.splits dest: add_block_idle)

lemma replace_cases:
  assumes "replace_with_chain ce clock st candidate = (r, st')" and "applying_height st = 0"
  obtains (kept) e where "r = Inl e" "st' = st"
  | (adopted) g rest where "r = Inr ()" "candidate = g # rest"
      "hash_block_header (ce_cr ce) (header g) = genesis_hash ce st"
      "replay_blocks ce clock (Chain_reset ce) 1 rest = (Inr (), st')" "cumulative_work st < cumulative_work st'"
proof -
  have "restore_chain st s = st" if "applying_height s = 0" for s
    using that assms(2) by (cases st) (simp add: restore_chain_def)
  then have "(\<exists>e. r = Inl e) \<and> st' = st \<or> (\<exists>g rest. r = Inr () \<and> candidate = g # rest
      \<and> hash_block_header (ce_cr ce) (header g) = genesis_hash ce st
      \<and> replay_blocks ce clock (Chain_reset ce) 1 rest = (Inr (), st') \<and> cumulative_work st < cumulative_work st')"
    using assms(1) replay_idle [of ce clock "Chain_reset ce" 1]
    by (auto simp: replace_with_chain_def not_le split: list.splits if_splits prod.splits sum.splits)
  then show thesis using kept adopted by blast
qed

lemma mine_cases:
  assumes "mine_and_add_block_with_votes ce now now' dl search st addr txs vs evs = (r, st')"
  obtains (unchanged) e where "r = Inl e" "st' = st"
  | (tried) b h r' where "assemble_block ce now st addr txs vs evs = Inr b" "found (search (header b))"
      "h = header_hash (search (header b))"
      "add_block ce now' st (b\<lparr>header := (header b)\<lparr>hd_nonce := found_nonce (search (header b))\<rparr>\<rparr>) = (r', st')"
      "r = (case r' of Inl e \<Rightarrow> Inl e | Inr _ \<Rightarrow> Inr h)"
proof (cases "assemble_block ce now st addr txs vs evs")
  case (Inl e)
  then show thesis using unchanged assms by (auto simp: mine_and_add_block_with_votes_def)
next
  case (Inr b)
  show thesis
  proof (cases "found (search (header b))")
    case False
    then show thesis
      using unchanged assms Inr by (auto simp: mine_and_add_block_with_votes_def mine_block_def Let_def split: if_splits)
  next
    case True
    obtain r' s' where ab: "add_block ce now' st (b\<lparr>header := (header b)\<lparr>hd_nonce := found_nonce (search (header b))\<rparr>\<rparr>) = (r', s')"
      by (cases "add_block ce now' st (b\<lparr>header := (header b)\<lparr>hd_nonce := found_nonce (search (header b))\<rparr>\<rparr>)")
    have "s' = st' \<and> r = (case r' of Inl e \<Rightarrow> Inl e | Inr _ \<Rightarrow> Inr (header_hash (search (header b))))"
      using assms Inr True ab by (auto simp: mine_and_add_block_with_votes_def mine_block_def Let_def split: sum.splits)
    then show thesis using tried [OF Inr True refl] ab by blast
  qed
qed

lemma chain_step_idle: "chain_step ce st st' \<Longrightarrow> applying_height st = 0 \<Longrightarrow> applying_height st' = 0"
proof (erule chain_stepE)
  fix now b r assume "add_block ce now st b = (r, st')" and "applying_height st = 0"
  then show ?thesis by (rule add_block_idle)
next
  fix clock candidate r assume m: "replace_with_chain ce clock st candidate = (r, st')" and z: "applying_height st = 0"
  from m z show ?thesis by (cases rule: replace_cases) (use z in \<open>auto dest: replay_idle\<close>)
next
  fix now now' dl search addr txs vs evs r
  assume m: "mine_and_add_block_with_votes ce now now' dl search st addr txs vs evs = (r, st')" and z: "applying_height st = 0"
  from m show ?thesis by (cases rule: mine_cases) (use z in \<open>auto dest: add_block_idle\<close>)
qed

lemma chain_run_idle: "chain_run ce st \<Longrightarrow> applying_height st = 0"
  by (induction rule: chain_run.induct) (auto dest: chain_step_idle)

text \<open>
  The proof principle: a predicate that holds of the fresh chain and survives every accepted block
  holds of every reachable chain, through refused blocks, reorganisations and mining.
\<close>

locale block_invariant =
  fixes ce :: chain_env and inv :: "chain_state \<Rightarrow> bool"
  assumes at_start: "inv (Chain_reset ce)"
    and on_block: "chain_run ce st \<Longrightarrow> applying_height st = 0 \<Longrightarrow> inv st
      \<Longrightarrow> add_block ce now st b = (Inr (), st') \<Longrightarrow> inv st'"
begin

lemma on_any_block:
  assumes "chain_run ce st" and "inv st" and "add_block ce now st b = (r, st')"
  shows "inv st'"
proof (cases r)
  case (Inl e)
  then show ?thesis using assms add_block_refused chain_run_idle by metis
next
  case (Inr u)
  then show ?thesis using assms on_block chain_run_idle by (metis old.unit.exhaust)
qed

lemma on_replay:
  "chain_run ce st \<Longrightarrow> inv st \<Longrightarrow> replay_blocks ce clock st i bs = (r, s) \<Longrightarrow> inv s"
proof (induction bs arbitrary: st i)
  case (Cons b bs)
  obtain r1 st1 where a: "add_block ce (clock i) st b = (r1, st1)" by (cases "add_block ce (clock i) st b")
  have run: "chain_run ce st1" using Cons.prems(1) chain_step.add [OF a] by (rule chain_run.step)
  note I = on_any_block [OF Cons.prems(1,2) a]
  show ?case
  proof (cases r1)
    case (Inl e)
    then show ?thesis using Cons.prems(3) a I by simp
  next
    case (Inr u)
    then show ?thesis using Cons.IH [OF run I] Cons.prems(3) a by simp
  qed
qed simp

lemma always: "chain_run ce st \<Longrightarrow> inv st"
proof (induction rule: chain_run.induct)
  case (step st st')
  from step.hyps(2) show ?case
  proof (cases rule: chain_step.cases)
    case (add now b r)
    then show ?thesis using on_any_block step by blast
  next
    case (reorganise clock candidate r)
    from this chain_run_idle [OF step.hyps(1)] show ?thesis
    proof (cases rule: replace_cases)
      case (adopted g rest)
      then show ?thesis using on_replay chain_run.start at_start by blast
    qed (use step in auto)
  next
    case (mine now now' dl search addr txs vs evs r)
    then show ?thesis by (cases rule: mine_cases) (use on_any_block step in blast)+
  qed
qed (rule at_start)

end

section \<open>Emission and value\<close>

definition chain_txs :: "chain_state \<Rightarrow> transaction list" where
  "chain_txs st = concat (map transactions (blocks st))"

text \<open>Everything that ever entered and left the shielded pool, as declared by the bundles.\<close>

definition pool_in :: "transaction list \<Rightarrow> nat" where "pool_in txs = sum_list (map tx_vin txs)"
definition pool_out :: "transaction list \<Rightarrow> nat" where "pool_out txs = sum_list (map tx_vout txs)"

definition fee_total :: "transaction list \<Rightarrow> nat" where "fee_total txs = sum_list (map (\<lambda>tx. unat (fee tx)) txs)"

lemma flows_simps [simp]:
  "pool_in [] = 0" "pool_in (tx # txs) = tx_vin tx + pool_in txs" "pool_in (txs @ txs') = pool_in txs + pool_in txs'"
  "pool_out [] = 0" "pool_out (tx # txs) = tx_vout tx + pool_out txs" "pool_out (txs @ txs') = pool_out txs + pool_out txs'"
  "fee_total [] = 0" "fee_total (tx # txs) = unat (fee tx) + fee_total txs"
  by (simp_all add: pool_in_def pool_out_def fee_total_def)

lemma fees_sum_ok:
  "fees_sum acc txs = Inr f \<Longrightarrow> unat f = unat acc + fee_total txs \<and> (\<forall>tx\<in>set txs. inputs tx \<noteq> [] \<or> shielded tx \<noteq> [])"
  by (induction acc txs rule: fees_sum.induct) (auto simp: u64_add_guard_ok split: if_splits)

lemma coinbase_sum_ok:
  "coinbase_sum acc xs = Inr t \<Longrightarrow> unat t = unat acc + sum_list (map (\<lambda>x. unat (amount x)) xs)"
  by (induction acc xs rule: coinbase_sum.induct) (auto simp: u64_add_guard_ok split: if_splits)

lemma apply_transactions_ConsE:
  assumes "apply_transactions ce st (tx # txs) = (Inr (), s)"
  obtains st1 where "apply_transaction ce st tx (hash_transaction (ce_cr ce) tx) False = (Inr (), st1)"
    "apply_transactions ce st1 txs = (Inr (), s)"
  using assms by (cases "apply_transaction ce st tx (hash_transaction (ce_cr ce) tx) False") (auto split: sum.splits)

lemma apply_transactions_value:
  assumes "apply_transactions ce st txs = (Inr (), s)" and "finite (dom (utxo_set st))"
    and "\<forall>tx\<in>set txs. inputs tx \<noteq> [] \<or> shielded tx \<noteq> []"
  shows "finite (dom (utxo_set s)) \<and> unspent_total s + fee_total txs + pool_in txs \<le> unspent_total st + pool_out txs"
  using assms
proof (induction txs arbitrary: st)
  case (Cons tx txs)
  from Cons.prems(1) obtain st1 where
    a: "apply_transaction ce st tx (hash_transaction (ce_cr ce) tx) False = (Inr (), st1)"
    and r: "apply_transactions ce st1 txs = (Inr (), s)" by (rule apply_transactions_ConsE)
  note A = apply_transaction_ok [OF a Cons.prems(2)]
  have "out_total tx + unat (fee tx) + tx_vin tx \<le> in_total st tx + tx_vout tx"
    using validate_value [OF A(1)] Cons.prems(3) by simp
  moreover note A(4)
  moreover have "finite (dom (utxo_set s)) \<and> unspent_total s + fee_total txs + pool_in txs \<le> unspent_total st1 + pool_out txs"
    using Cons.IH [OF r A(3)] Cons.prems(3) by simp
  ultimately show ?case by simp
qed simp

lemma slash_ticket_value:
  assumes "finite (dom (utxo_set st))"
  shows "finite (dom (utxo_set (slash_ticket st ev)))"
    and "unspent_total (slash_ticket st ev) + unat (total_slashed (slash_ticket st ev)) \<le> unspent_total st + unat (total_slashed st)"
proof -
  let ?k = "ticket_id (ev_a ev)"
  show "finite (dom (utxo_set (slash_ticket st ev)))"
    using assms by (simp add: slash_ticket_def Let_def split: option.split)
  show "unspent_total (slash_ticket st ev) + unat (total_slashed (slash_ticket st ev)) \<le> unspent_total st + unat (total_slashed st)"
  proof (cases "ticket st ?k \<noteq> None \<and> (\<exists>u. utxo_set st ?k = Some u \<and> \<not> u_spent u)")
    case True
    then obtain t u where u: "ticket st ?k = Some t" "utxo_set st ?k = Some u" "\<not> u_spent u" by auto
    then have e: "utxo_set (slash_ticket st ev) = (utxo_set st)(?k \<mapsto> u\<lparr>u_spent := True\<rparr>)"
      "total_slashed (slash_ticket st ev) = total_slashed st + u_amount u"
      by (simp_all add: slash_ticket_def Let_def)
    have "unat (total_slashed st + u_amount u) \<le> unat (total_slashed st) + unat (u_amount u)"
      by (simp add: unat_word_ariths)
    then show ?thesis using unspent_spend [OF assms u(2,3) e(1)] e(2) by simp
  next
    case False
    then have "utxo_set (slash_ticket st ev) = utxo_set st \<and> total_slashed (slash_ticket st ev) = total_slashed st"
      by (auto simp: slash_ticket_def Let_def split: option.split)
    then show ?thesis by (simp add: unspent_total_def)
  qed
qed

lemma slashes_value:
  "finite (dom (utxo_set st)) \<Longrightarrow> finite (dom (utxo_set (foldl slash_ticket st evs)))
    \<and> unspent_total (foldl slash_ticket st evs) + unat (total_slashed (foldl slash_ticket st evs))
        \<le> unspent_total st + unat (total_slashed st)"
proof (induction evs arbitrary: st)
  case (Cons ev evs)
  from slash_ticket_value [OF Cons.prems, of ev] Cons.IH [of "slash_ticket st ev"] show ?case by auto
qed simp

definition value_inv :: "chain_env \<Rightarrow> chain_state \<Rightarrow> bool" where
  "value_inv ce st \<longleftrightarrow> finite (dom (utxo_set st)) \<and> total_emitted st \<le> max_supply (ce_cfg ce)
     \<and> unspent_total st + unat (total_slashed st) + pool_in (chain_txs st) \<le> unat (total_emitted st) + pool_out (chain_txs st)"

lemma value_inv_start: "value_inv ce (Chain_reset ce)"
  by (simp add: value_inv_def Chain_reset_def Let_def chain_txs_def make_genesis_def unspent_total_def live_def)

lemma connect_block_simps [simp]:
  "utxo_set (connect_block ce st b m) = utxo_set st" "tickets (connect_block ce st b m) = tickets st"
  "total_emitted (connect_block ce st b m) = total_emitted st + m" "blocks (connect_block ce st b m) = blocks st @ [b]"
  "total_slashed (connect_block ce st b m) = total_slashed st" "pubkey_registry (connect_block ce st b m) = pubkey_registry st"
  "signer_last_nonce (connect_block ce st b m) = signer_last_nonce st" "shielded_st (connect_block ce st b m) = shielded_st st"
  "cumulative_work (connect_block ce st b m) = cumulative_work st + work_for_target (hd_difficulty_target (header b))"
  by (simp_all add: connect_block_def Let_def)

lemma value_inv_block:
  assumes "applying_height st = 0" and "value_inv ce st" and "add_block ce now st b = (Inr (), st')"
  shows "value_inv ce st'"
  using assms(3,1)
proof (cases rule: add_block_cases)
  case (accepted s s1 cb rest t f m)
  let ?st = "st\<lparr>applying_height := hd_height (header b)\<rparr>"
  from accepted(10) obtain st1 where
    a: "apply_transaction ce ?st cb (hash_transaction (ce_cr ce) cb) False = (Inr (), st1)"
    and r: "apply_transactions ce st1 rest = (Inr (), s)" by (rule apply_transactions_ConsE)
  have fin: "finite (dom (utxo_set ?st))" using assms(2) by (simp add: value_inv_def)
  note A = apply_transaction_ok [OF a fin]
  have cb: "out_total cb = unat t" "in_total ?st cb = 0" "tx_vin cb = 0" "tx_vout cb = 0"
    using coinbase_sum_ok [OF accepted(5)] accepted(8,9) by (simp_all add: out_total_def in_total_def tx_vin_def tx_vout_def)
  have 1: "unspent_total st1 \<le> unspent_total st + unat t" using A(4) cb by (simp add: unspent_total_def)
  note F = fees_sum_ok [OF accepted(6)]
  have 2: "finite (dom (utxo_set s))" "unspent_total s + fee_total rest + pool_in rest \<le> unspent_total st1 + pool_out rest"
    using apply_transactions_value [OF r A(3)] F by auto
  have "finite (dom (utxo_set (s\<lparr>total_fees_last_block := f\<rparr>)))" using 2(1) by simp
  from slashes_value [OF this, of "slashes b"] have 3: "finite (dom (utxo_set s1))"
    "unspent_total s1 + unat (total_slashed s1) \<le> unspent_total s + unat (total_slashed s)"
    using accepted(13) by (simp_all add: unspent_total_def)
  have e: "total_emitted s1 = total_emitted st" "blocks s1 = blocks st" "total_slashed s = total_slashed st"
    using slashes_frame [of "s\<lparr>total_fees_last_block := f\<rparr>" "slashes b"] apply_transactions_frame [OF accepted(10)] accepted(13)
    by (simp_all add: same_frame_def)
  have "total_emitted st \<le> max_supply (ce_cfg ce)" using assms(2) by (simp add: value_inv_def)
  from max_mintable_keeps_cap [OF this accepted(12) [unfolded max_mintable_at_def Let_def]]
  have 4: "unat (total_emitted st + m) = unat (total_emitted st) + unat m" "total_emitted st + m \<le> max_supply (ce_cfg ce)" by simp_all
  have 5: "unat t \<le> unat m + fee_total rest"
    using F accepted(11) by (auto simp: word_less_nat_alt u64_sub_ok word_le_nat_alt not_less)
  have "unspent_total st' = unspent_total s1" using accepted(14) by (simp add: unspent_total_def)
  moreover have "chain_txs st' = chain_txs st @ cb # rest" using accepted(14,4) e by (simp add: chain_txs_def)
  ultimately show ?thesis
    using assms(2) 1 2 3 4 5 cb e accepted(14) by (simp add: value_inv_def)
qed simp

interpretation emission: block_invariant ce "value_inv ce" for ce
  by unfold_locales (rule value_inv_start, erule (2) value_inv_block)

section \<open>Difficulty and block links\<close>

lemma clamp_difficulty_range:
  "min_difficulty_target (ce_cfg ce) \<le> max_difficulty_target (ce_cfg ce) \<Longrightarrow>
     min_difficulty_target (ce_cfg ce) \<le> clamp_difficulty_target ce t \<and> clamp_difficulty_target ce t \<le> max_difficulty_target (ce_cfg ce)"
  by (simp add: clamp_difficulty_target_def not_less)

lemma clamp_legacy_range:
  "min_difficulty_target (ce_cfg ce) \<le> max_difficulty_target (ce_cfg ce) \<Longrightarrow>
     min_difficulty_target (ce_cfg ce) \<le> clamp_legacy ce t \<and> clamp_legacy ce t \<le> max_difficulty_target (ce_cfg ce)"
  by (auto simp: clamp_legacy_def Let_def le_max_iff_disj)

lemma lwma_next_target_range:
  "mn \<le> mx \<Longrightarrow> mn \<le> lwma_next_target ts tg T mn mx fb \<and> lwma_next_target ts tg T mn mx fb \<le> mx"
  unfolding lwma_next_target_def Let_def
  by (cases "min (length ts) (length tg) < 2 \<or> T = 0") (simp_all add: clamp_u64_range split_beta)

lemma legacy_target_clamped: "\<exists>t. compute_legacy_difficulty_target ce st = clamp_legacy ce t"
  unfolding compute_legacy_difficulty_target_def Let_def by (metis (full_types))

lemma next_difficulty_range:
  assumes "min_difficulty_target (ce_cfg ce) \<le> max_difficulty_target (ce_cfg ce)"
  shows "min_difficulty_target (ce_cfg ce) \<le> compute_next_difficulty_target ce st
    \<and> compute_next_difficulty_target ce st \<le> max_difficulty_target (ce_cfg ce)"
  using legacy_target_clamped [of ce st] clamp_legacy_range [OF assms] clamp_difficulty_range [OF assms]
    lwma_next_target_range [OF assms]
  by (auto simp: compute_next_difficulty_target_def Let_def)

text \<open>The target of the block after \<open>bs\<close>, from the blocks alone.\<close>

definition target_after :: "chain_env \<Rightarrow> block list \<Rightarrow> u64" where
  "target_after ce bs =
     (if length bs \<le> 1 then initial_difficulty_target (ce_cfg ce)
      else compute_next_difficulty_target ce
             ((Chain_reset ce)\<lparr>blocks := bs, difficulty_target := hd_difficulty_target (header (last bs))\<rparr>))"

lemma next_difficulty_cong:
  assumes "blocks st = blocks st'" and "difficulty_target st = difficulty_target st'"
  shows "compute_next_difficulty_target ce st = compute_next_difficulty_target ce st'"
  unfolding compute_next_difficulty_target_def compute_legacy_difficulty_target_def assms by (rule refl)

text \<open>The relation between a block and its parent in an accepted chain.\<close>

definition linked :: "chain_env \<Rightarrow> block \<Rightarrow> block \<Rightarrow> bool" where
  "linked ce p b \<longleftrightarrow>
     hd_height (header b) = hd_height (header p) + 1
     \<and> hd_previous_hash (header b) = hash_block_header (ce_cr ce) (header p)
     \<and> hd_merkle_root (header b) = compute_block_commitment (ce_cr ce) b
     \<and> hd_timestamp (header p) \<le> hd_timestamp (header b)
     \<and> min_difficulty_target (ce_cfg ce) \<le> hd_difficulty_target (header b)
     \<and> hd_difficulty_target (header b) \<le> max_difficulty_target (ce_cfg ce)
     \<and> hash_meets_target ce (hash_block_header (ce_cr ce) (header b)) (hd_difficulty_target (header b))"

lemma header_linked:
  "validate_block_header ce now st b = Inr () \<Longrightarrow> linked ce (tip st) b \<and> hd_difficulty_target (header b) = difficulty_target st"
  by (simp add: validate_block_header_def linked_def Let_def not_less split: if_splits)

definition links_inv :: "chain_env \<Rightarrow> chain_state \<Rightarrow> bool" where
  "links_inv ce st \<longleftrightarrow> blocks st \<noteq> [] \<and> hd (blocks st) = make_genesis ce (initial_difficulty_target (ce_cfg ce))
     \<and> successively (linked ce) (blocks st)
     \<and> (\<forall>i < length (blocks st). hd_difficulty_target (header (blocks st ! i)) = target_after ce (take i (blocks st)))
     \<and> difficulty_target st = target_after ce (blocks st)
     \<and> cumulative_work st = sum_list (map (\<lambda>b. work_for_target (hd_difficulty_target (header b))) (blocks st))"

lemma links_inv_start: "links_inv ce (Chain_reset ce)"
  by (simp add: links_inv_def Chain_reset_def Let_def target_after_def make_genesis_def)

lemma links_inv_block:
  assumes "applying_height st = 0" and "links_inv ce st" and "add_block ce now st b = (Inr (), st')"
  shows "links_inv ce st'"
  using assms(3,1)
proof (cases rule: add_block_cases)
  case (accepted s s1 cb rest t f m)
  note H = header_linked [OF accepted(2)]
  have e: "blocks s1 = blocks st" "difficulty_target s1 = difficulty_target st" "cumulative_work s1 = cumulative_work st"
    using slashes_frame [of "s\<lparr>total_fees_last_block := f\<rparr>" "slashes b"] apply_transactions_frame [OF accepted(10)] accepted(13)
    by (simp_all add: same_frame_def)
  have bs: "blocks st' = blocks st @ [b]" using accepted(14) e by simp
  have ne: "blocks st \<noteq> []" using assms(2) by (simp add: links_inv_def)
  have "difficulty_target st' = target_after ce (blocks st')"
    unfolding target_after_def accepted(14) using ne e H
    by (simp add: connect_block_def Let_def) (rule next_difficulty_cong; simp)
  moreover have "successively (linked ce) (blocks st')"
    using assms(2) H ne by (simp add: links_inv_def bs successively_append_iff tip_def)
  moreover have "\<forall>i < length (blocks st'). hd_difficulty_target (header (blocks st' ! i)) = target_after ce (take i (blocks st'))"
    using assms(2) H by (auto simp: links_inv_def bs nth_append less_Suc_eq)
  moreover have "cumulative_work st' = sum_list (map (\<lambda>b. work_for_target (hd_difficulty_target (header b))) (blocks st'))"
    using assms(2) e accepted(14) by (simp add: links_inv_def bs)
  ultimately show ?thesis using assms(2) by (simp add: links_inv_def bs)
qed simp

interpretation links: block_invariant ce "links_inv ce" for ce
  by unfold_locales (rule links_inv_start, erule (2) links_inv_block)

section \<open>Nonces, keys and authorisation\<close>

lemma validate_signer:
  assumes "validate_transaction ce st tx chk = Inr ()" and "inputs tx \<noteq> []"
  shows "signer tx \<noteq> [] \<Longrightarrow> list_all (owns_input st (signer tx)) (inputs tx)"
    and "signer tx \<noteq> [] \<Longrightarrow> signer_pubkey tx \<noteq> [] \<Longrightarrow> signer_binds_pubkey (ce_cr ce) (signer tx) (signer_pubkey tx) = Inr ()"
    and "signer tx \<noteq> [] \<Longrightarrow> signer_last_nonce st (signer tx) = Some n \<Longrightarrow> n < nonce tx"
    and "signer tx = [] \<Longrightarrow> validate_script_inputs ce st tx = Inr ()"
proof -
  have a: "validate_authorisation ce st tx chk = Inr ()"
    using assms by (cases rule: validate_transaction_cases) (auto dest: validate_spend_ok(1))
  show "signer tx = [] \<Longrightarrow> validate_script_inputs ce st tx = Inr ()"
    using a by (simp add: validate_authorisation_def split: if_splits)
  show "signer tx \<noteq> [] \<Longrightarrow> signer_last_nonce st (signer tx) = Some n \<Longrightarrow> n < nonce tx"
    using a by (auto simp: validate_authorisation_def bind_res_Inr split: if_splits)
  have "signer tx \<noteq> [] \<Longrightarrow> validate_transaction_signature ce st tx chk = Inr ()"
    using a by (auto simp: validate_authorisation_def bind_res_Inr split: if_splits)
  then show "signer tx \<noteq> [] \<Longrightarrow> list_all (owns_input st (signer tx)) (inputs tx)"
    and "signer tx \<noteq> [] \<Longrightarrow> signer_pubkey tx \<noteq> [] \<Longrightarrow> signer_binds_pubkey (ce_cr ce) (signer tx) (signer_pubkey tx) = Inr ()"
    by (auto simp: validate_transaction_signature_def resolve_signer_pubkey_def bind_res_Inr split: if_splits)
qed

text \<open>The nonces that a signer used, in chain order.\<close>

definition signer_nonces :: "string \<Rightarrow> transaction list \<Rightarrow> u64 list" where
  "signer_nonces s txs = map nonce (filter (\<lambda>tx. inputs tx \<noteq> [] \<and> signer tx = s) txs)"

definition last_opt :: "'a list \<Rightarrow> 'a option" where
  "last_opt xs = (if xs = [] then None else Some (last xs))"

definition accounts_ok :: "chain_env \<Rightarrow> chain_state \<Rightarrow> transaction list \<Rightarrow> bool" where
  "accounts_ok ce st txs \<longleftrightarrow>
     (\<forall>s. s \<noteq> [] \<longrightarrow> sorted_wrt (<) (signer_nonces s txs) \<and> signer_last_nonce st s = last_opt (signer_nonces s txs))
     \<and> (\<forall>s pk. pubkey_registry st s = Some pk \<longrightarrow> signer_binds_pubkey (ce_cr ce) s pk = Inr ())"

lemma sorted_wrt_less_snoc:
  "sorted_wrt (<) xs \<Longrightarrow> (xs \<noteq> [] \<Longrightarrow> last xs < x) \<Longrightarrow> sorted_wrt (<) (xs @ [x :: u64])"
proof (induction xs)
  case (Cons a xs)
  show ?case
  proof (cases "xs = []")
    case False
    then have "a < last xs" using Cons.prems(1) by simp
    then have "a < x" using Cons.prems(2) False by simp
    then show ?thesis using Cons False by simp
  qed (use Cons.prems in auto)
qed simp

lemma accounts_ok_tx:
  assumes "accounts_ok ce st txs" and "apply_transaction ce st tx txid chk = (Inr (), st')" and "finite (dom (utxo_set st))"
  shows "accounts_ok ce st' (txs @ [tx])"
proof -
  note A = apply_transaction_ok [OF assms(2,3)]
  note V = validate_signer [OF A(1)]
  have "signer_binds_pubkey (ce_cr ce) s pk = Inr ()" if "pubkey_registry st' s = Some pk" for s pk
    using that A(8) V(2) assms(1) by (auto simp: accounts_ok_def split: if_splits)
  moreover have "sorted_wrt (<) (signer_nonces s (txs @ [tx])) \<and> signer_last_nonce st' s = last_opt (signer_nonces s (txs @ [tx]))"
    if s: "s \<noteq> []" for s
  proof -
    have old: "sorted_wrt (<) (signer_nonces s txs)" "signer_last_nonce st s = last_opt (signer_nonces s txs)"
      using assms(1) s by (auto simp: accounts_ok_def)
    show ?thesis
    proof (cases "inputs tx \<noteq> [] \<and> signer tx = s")
      case True
      have "last (signer_nonces s txs) < nonce tx" if "signer_nonces s txs \<noteq> []"
        using V(3) True s old(2) that by (simp add: last_opt_def)
      from sorted_wrt_less_snoc [OF old(1) this] show ?thesis
        using True s A(7) by (simp add: signer_nonces_def last_opt_def)
    next
      case False
      then show ?thesis using old A(7) by (auto simp: signer_nonces_def)
    qed
  qed
  ultimately show ?thesis unfolding accounts_ok_def by blast
qed

lemma accounts_ok_txs:
  "accounts_ok ce st txs \<Longrightarrow> apply_transactions ce st new = (Inr (), s) \<Longrightarrow> finite (dom (utxo_set st)) \<Longrightarrow> accounts_ok ce s (txs @ new)"
proof (induction new arbitrary: st txs)
  case (Cons tx new)
  from Cons.prems(2) obtain st1 where
    a: "apply_transaction ce st tx (hash_transaction (ce_cr ce) tx) False = (Inr (), st1)"
    and r: "apply_transactions ce st1 new = (Inr (), s)" by (rule apply_transactions_ConsE)
  from Cons.IH [OF accounts_ok_tx [OF Cons.prems(1) a Cons.prems(3)] r apply_transaction_ok(3) [OF a Cons.prems(3)]]
  show ?case by simp
qed simp

definition accounts_inv :: "chain_env \<Rightarrow> chain_state \<Rightarrow> bool" where
  "accounts_inv ce st \<longleftrightarrow> accounts_ok ce st (chain_txs st)"

lemma accounts_inv_block:
  assumes "chain_run ce st" and "applying_height st = 0" and "accounts_inv ce st" and "add_block ce now st b = (Inr (), st')"
  shows "accounts_inv ce st'"
  using assms(4,2)
proof (cases rule: add_block_cases)
  case (accepted s s1 cb rest t f m)
  have fin: "finite (dom (utxo_set (st\<lparr>applying_height := hd_height (header b)\<rparr>)))"
    using emission.always [OF assms(1)] by (simp add: value_inv_def)
  have "accounts_ok ce (st\<lparr>applying_height := hd_height (header b)\<rparr>) (chain_txs st)"
    using assms(3) by (simp add: accounts_inv_def accounts_ok_def)
  from accounts_ok_txs [OF this accepted(10) fin] have "accounts_ok ce s (chain_txs st @ cb # rest)" .
  moreover have "signer_last_nonce st' = signer_last_nonce s" "pubkey_registry st' = pubkey_registry s" "blocks s1 = blocks st"
    using slashes_frame [of "s\<lparr>total_fees_last_block := f\<rparr>" "slashes b"] accepted(13,14) apply_transactions_frame [OF accepted(10)]
    by (simp_all add: same_frame_def)
  moreover have "chain_txs st' = chain_txs st @ cb # rest"
    using accepted(14,4) calculation(4) by (simp add: chain_txs_def)
  ultimately show ?thesis by (simp add: accounts_inv_def accounts_ok_def)
qed simp

interpretation accounts: block_invariant ce "accounts_inv ce" for ce
proof unfold_locales
  show "accounts_inv ce (Chain_reset ce)"
    by (simp add: accounts_inv_def accounts_ok_def Chain_reset_def Let_def chain_txs_def make_genesis_def signer_nonces_def last_opt_def)
qed (rule accounts_inv_block)

text \<open>The signature pass of a block: every signer's key is bound to the signer and verifies.\<close>

definition signature_valid :: "crypto \<Rightarrow> transaction \<Rightarrow> bool" where
  "signature_valid cr tx \<longleftrightarrow> (\<exists>pk. signer_binds_pubkey cr (signer tx) pk = Inr ()
     \<and> verify_message_signature_hybrid_uncached cr pk (hash_transaction cr (tx\<lparr>signature := []\<rparr>)) (signature tx))"

lemma batch_verify_all:
  "batch_verify cr k items = Inr () \<longleftrightarrow> (\<forall>(pk, m, sg)\<in>set items. verify_message_signature_hybrid_uncached cr pk m sg)"
  by (induction cr k items rule: batch_verify.induct) auto

lemma resolve_bound:
  assumes "resolve_signer_pubkey ce st tx (Some ov) = Inr pk"
    and "\<forall>s pk. pubkey_registry st s = Some pk \<longrightarrow> signer_binds_pubkey (ce_cr ce) s pk = Inr ()"
    and "\<forall>s pk. ov s = Some pk \<longrightarrow> signer_binds_pubkey (ce_cr ce) s pk = Inr ()"
  shows "signer_binds_pubkey (ce_cr ce) (signer tx) pk = Inr ()"
  using assms by (auto simp: resolve_signer_pubkey_def bind_res_Inr split: if_splits option.splits)

lemma signature_jobs_valid:
  assumes "signature_jobs ce st ov txs = Inr items" and "batch_verify (ce_cr ce) k items = Inr ()"
    and "\<forall>s pk. pubkey_registry st s = Some pk \<longrightarrow> signer_binds_pubkey (ce_cr ce) s pk = Inr ()"
    and "\<forall>s pk. ov s = Some pk \<longrightarrow> signer_binds_pubkey (ce_cr ce) s pk = Inr ()"
    and "tx \<in> set txs" and "inputs tx \<noteq> []" and "signer tx \<noteq> []"
  shows "signature_valid (ce_cr ce) tx"
  using assms(1,2,4,5)
proof (induction txs arbitrary: ov items k)
  case (Cons t txs)
  show ?case
  proof (cases "inputs t = [] \<and> shielded t \<noteq> [] \<or> signer t = [] \<and> signature t = [] \<and> signer_pubkey t = []")
    case True
    then have "signature_jobs ce st ov txs = Inr items" using Cons.prems(1) by (auto split: if_splits)
    moreover have "tx \<in> set txs" using True Cons.prems(4) assms(6,7) by auto
    ultimately show ?thesis using Cons.IH Cons.prems(2,3) by blast
  next
    case False
    define ov' where "ov' = (if signer_pubkey t \<noteq> [] \<and> inputs t \<noteq> [] \<and> pubkey_registry st (signer t) = None \<and> ov (signer t) = None
                      then ov(signer t \<mapsto> signer_pubkey t) else ov)"
    from False Cons.prems(1) obtain pk jobs where
      pk: "resolve_signer_pubkey ce st t (Some ov) = Inr pk" and jobs: "signature_jobs ce st ov' txs = Inr jobs"
      and it: "items = (pk, hash_transaction (ce_cr ce) (t\<lparr>signature := []\<rparr>), signature t) # jobs"
      by (auto simp: bind_res_Inr Let_def ov'_def [symmetric] split: if_split_asm)
    note B = resolve_bound [OF pk assms(3) Cons.prems(3)]
    have ov: "\<forall>s pk. ov' s = Some pk \<longrightarrow> signer_binds_pubkey (ce_cr ce) s pk = Inr ()"
      using Cons.prems(3) pk B by (auto simp: ov'_def resolve_signer_pubkey_def bind_res_Inr)
    have bv: "batch_verify (ce_cr ce) k jobs = Inr ()" using Cons.prems(2) it by (simp add: batch_verify_all split: if_splits)
    show ?thesis
    proof (cases "tx = t")
      case True
      then show ?thesis using B Cons.prems(2) it by (auto simp: signature_valid_def split: if_splits)
    next
      case False
      then show ?thesis using Cons.IH [OF jobs bv ov] Cons.prems(4) by simp
    qed
  qed
qed simp

text \<open>What authorises a transaction, in the state just before it is applied.\<close>

definition spend_authorised :: "chain_env \<Rightarrow> chain_state \<Rightarrow> transaction \<Rightarrow> bool" where
  "spend_authorised ce st tx \<longleftrightarrow>
     (if signer tx \<noteq> [] then list_all (owns_input st (signer tx)) (inputs tx) \<and> signature_valid (ce_cr ce) tx
      else validate_script_inputs ce st tx = Inr ())"

lemma apply_transactions_split:
  assumes "apply_transactions ce st (pre @ tx # post) = (Inr (), s)"
  obtains s0 s1 where "apply_transactions ce st pre = (Inr (), s0)"
    "apply_transaction ce s0 tx (hash_transaction (ce_cr ce) tx) False = (Inr (), s1)" "apply_transactions ce s1 post = (Inr (), s)"
proof -
  have "\<exists>s0 s1. apply_transactions ce st pre = (Inr (), s0)
    \<and> apply_transaction ce s0 tx (hash_transaction (ce_cr ce) tx) False = (Inr (), s1) \<and> apply_transactions ce s1 post = (Inr (), s)"
    using assms
  proof (induction pre arbitrary: st)
    case Nil
    then show ?case by (auto elim: apply_transactions_ConsE simp del: apply_transactions.simps(2))
  next
    case (Cons t pre)
    from Cons.prems obtain st1 where "apply_transaction ce st t (hash_transaction (ce_cr ce) t) False = (Inr (), st1)"
      "apply_transactions ce st1 (pre @ tx # post) = (Inr (), s)"
      by (auto elim: apply_transactions_ConsE simp del: apply_transactions.simps)
    then show ?case using Cons.IH [of st1] by simp
  qed
  then show thesis using that by blast
qed

lemma block_spends_authorised:
  assumes "chain_run ce st" and "add_block ce now st b = (Inr (), st')"
    and "transactions b = pre @ tx # post" and "inputs tx \<noteq> []"
  shows "\<exists>s. apply_transactions ce (st\<lparr>applying_height := hd_height (header b)\<rparr>) pre = (Inr (), s) \<and> spend_authorised ce s tx"
  using assms(2) chain_run_idle [OF assms(1)]
proof (cases rule: add_block_cases)
  case (accepted s s1 cb rest t f m)
  from accepted(10) assms(3) accepted(4) obtain s0 s1 where
    p: "apply_transactions ce (st\<lparr>applying_height := hd_height (header b)\<rparr>) pre = (Inr (), s0)"
    and a: "apply_transaction ce s0 tx (hash_transaction (ce_cr ce) tx) False = (Inr (), s1)"
    by (metis apply_transactions_split)
  have v: "validate_transaction ce s0 tx False = Inr ()"
    using a by (auto simp: apply_transaction_def split: sum.splits)
  have mem: "tx \<in> set rest" using assms(3,4) accepted(4,8) by (cases pre) auto
  obtain items where "signature_jobs ce st Map.empty rest = Inr items" "batch_verify (ce_cr ce) 0 items = Inr ()"
    using accepted(3,4) by (auto elim: validate_block_transactions_ok)
  then have "signer tx \<noteq> [] \<Longrightarrow> signature_valid (ce_cr ce) tx"
    using signature_jobs_valid [of ce st Map.empty rest items 0 tx] accounts.always [OF assms(1)] mem assms(4)
    by (simp add: accounts_inv_def accounts_ok_def)
  then have "spend_authorised ce s0 tx"
    using validate_signer [OF v assms(4)] by (simp add: spend_authorised_def)
  then show ?thesis using p by blast
qed simp

section \<open>Double spends\<close>

definition spent_outpoints :: "transaction list \<Rightarrow> string list" where
  "spent_outpoints txs = concat (map (\<lambda>tx. map in_key (inputs tx)) txs)"

lemma tx_outkeys_disjoint: "k \<in> tx_outkeys a \<Longrightarrow> k \<in> tx_outkeys b \<Longrightarrow> a = b"
  by (auto simp: tx_outkeys_def)

text \<open>Occurrences are counted, as block validation does not refuse a second transaction with the id of an earlier one.\<close>

lemma distinct_count_of_bool: "distinct xs \<Longrightarrow> count_list xs x = of_bool (x \<in> set xs)"
  by (induction xs) (auto simp: count_list_0_iff)

lemma distinct_count_list:
  assumes "\<And>x. count_list xs x \<le> 1"
  shows "distinct xs"
  using assms
proof (induction xs)
  case (Cons a xs)
  have "count_list xs a = 0" using Cons.prems [of a] by simp
  moreover have "count_list xs x \<le> 1" for x using Cons.prems [of x] by (simp split: if_splits)
  ultimately show ?case using Cons.IH by (simp add: count_list_0_iff)
qed simp

definition unspent_at :: "(string \<rightharpoonup> utxo) \<Rightarrow> string \<Rightarrow> nat" where
  "unspent_at us k = (case us k of None \<Rightarrow> 0 | Some u \<Rightarrow> if u_spent u then 0 else 1)"

lemma unspent_at_le: "unspent_at us k \<le> 1"
  by (simp add: unspent_at_def split: option.splits)

lemma unspent_at_spent_keys: "unspent_at (spent_keys K us) k = (if k \<in> K then 0 else unspent_at us k)"
  by (simp add: unspent_at_def spent_keys_def split: option.splits)

text \<open>
  The spends of an outpoint, together with its entry while it is unspent, are at most the transactions
  whose id the outpoint names.
\<close>

definition spends_ok :: "chain_env \<Rightarrow> (string \<rightharpoonup> utxo) \<Rightarrow> transaction list \<Rightarrow> bool" where
  "spends_ok ce us txs \<longleftrightarrow>
     (\<forall>t i. count_list (spent_outpoints txs) (outpoint_key t i) + unspent_at us (outpoint_key t i)
        \<le> count_list (map (hash_transaction (ce_cr ce)) txs) t)"

lemma spends_ok_mono:
  assumes "spends_ok ce us txs" and "\<And>k. unspent_at us' k \<le> unspent_at us k"
  shows "spends_ok ce us' txs"
  unfolding spends_ok_def
proof (intro allI)
  fix t i
  show "count_list (spent_outpoints txs) (outpoint_key t i) + unspent_at us' (outpoint_key t i)
      \<le> count_list (map (hash_transaction (ce_cr ce)) txs) t"
    using assms(1) [unfolded spends_ok_def, rule_format, of t i] assms(2) [of "outpoint_key t i"] by linarith
qed

lemma spends_ok_distinct:
  assumes "spends_ok ce us txs" and "distinct (map (hash_transaction (ce_cr ce)) txs)"
  shows "distinct (spent_outpoints txs)"
proof (rule distinct_count_list)
  fix k
  show "count_list (spent_outpoints txs) k \<le> 1"
  proof (cases "\<exists>t i. k = outpoint_key t i")
    case True
    then obtain t i where "k = outpoint_key t i" by blast
    moreover have "count_list (map (hash_transaction (ce_cr ce)) txs) t \<le> 1" using distinct_count_of_bool [OF assms(2)] by simp
    moreover have "count_list (spent_outpoints txs) (outpoint_key t i) + unspent_at us (outpoint_key t i)
        \<le> count_list (map (hash_transaction (ce_cr ce)) txs) t" using assms(1) by (simp add: spends_ok_def)
    ultimately show ?thesis by simp
  next
    case False
    then have "k \<notin> set (spent_outpoints txs)" by (auto simp: spent_outpoints_def in_key_def)
    then show ?thesis by (simp add: count_list_0_iff)
  qed
qed

lemma spends_ok_tx:
  assumes "spends_ok ce (utxo_set st) txs" and "finite (dom (utxo_set st))"
    and "apply_transaction ce st tx (hash_transaction (ce_cr ce) tx) chk = (Inr (), st')"
  shows "spends_ok ce (utxo_set st') (txs @ [tx])"
  unfolding spends_ok_def
proof (intro allI)
  fix t i
  let ?h = "hash_transaction (ce_cr ce)" and ?K = "in_key ` set (inputs tx)" and ?k = "outpoint_key t i"
  note A = apply_transaction_ok [OF assms(3,2)]
  note I = validate_inputs [OF A(1)]
  have old: "count_list (spent_outpoints txs) ?k + unspent_at (utxo_set st) ?k \<le> count_list (map ?h txs) t"
    using assms(1) by (simp add: spends_ok_def)
  have now: "count_list (spent_outpoints (txs @ [tx])) ?k = count_list (spent_outpoints txs) ?k + of_bool (?k \<in> ?K)"
    using distinct_count_of_bool [of "map in_key (inputs tx)" ?k] I by (simp add: spent_outpoints_def)
  have un: "unspent_at (utxo_set st) ?k = 1" if "?k \<in> ?K"
    using that I by (fastforce simp: list_all_iff spendable_def unspent_at_def)
  show "count_list (spent_outpoints (txs @ [tx])) ?k + unspent_at (utxo_set st') ?k \<le> count_list (map ?h (txs @ [tx])) t"
  proof (cases "t = ?h tx")
    case True
    then show ?thesis using old now un unspent_at_le [of "utxo_set st'" ?k] by (cases "?k \<in> ?K") simp_all
  next
    case False
    then have "?k \<notin> tx_outkeys (?h tx)" by (auto simp: tx_outkeys_def)
    then have "unspent_at (utxo_set st') ?k = (if ?k \<in> ?K then 0 else unspent_at (utxo_set st) ?k)"
      using A(5) unspent_at_spent_keys [of ?K "utxo_set st" ?k] by (simp add: unspent_at_def)
    then show ?thesis using old now un False by (cases "?k \<in> ?K") simp_all
  qed
qed

lemma spends_ok_txs:
  "spends_ok ce (utxo_set st) txs \<Longrightarrow> apply_transactions ce st new = (Inr (), s) \<Longrightarrow> finite (dom (utxo_set st))
     \<Longrightarrow> spends_ok ce (utxo_set s) (txs @ new)"
proof (induction new arbitrary: st txs)
  case (Cons tx new)
  from Cons.prems(2) obtain st1 where
    a: "apply_transaction ce st tx (hash_transaction (ce_cr ce) tx) False = (Inr (), st1)"
    and r: "apply_transactions ce st1 new = (Inr (), s)" by (rule apply_transactions_ConsE)
  from Cons.IH [OF spends_ok_tx [OF Cons.prems(1,3) a] r apply_transaction_ok(3) [OF a Cons.prems(3)]]
  show ?case by simp
qed simp

text \<open>A slash may only mark an output as spent.\<close>

lemma slash_ticket_utxo: "unspent_at (utxo_set (slash_ticket st ev)) k \<le> unspent_at (utxo_set st) k"
  by (auto simp: slash_ticket_def Let_def unspent_at_def split: option.splits)

lemma slashes_utxo: "unspent_at (utxo_set (foldl slash_ticket st evs)) k \<le> unspent_at (utxo_set st) k"
proof (induction evs arbitrary: st)
  case (Cons ev evs)
  show ?case using Cons.IH [of "slash_ticket st ev"] slash_ticket_utxo [of st ev k] by simp
qed simp

definition spends_inv :: "chain_env \<Rightarrow> chain_state \<Rightarrow> bool" where
  "spends_inv ce st \<longleftrightarrow> spends_ok ce (utxo_set st) (chain_txs st)"

lemma spends_inv_block:
  assumes "chain_run ce st" and "applying_height st = 0" and "spends_inv ce st" and "add_block ce now st b = (Inr (), st')"
  shows "spends_inv ce st'"
  using assms(4,2)
proof (cases rule: add_block_cases)
  case (accepted s s1 cb rest t f m)
  have fin: "finite (dom (utxo_set (st\<lparr>applying_height := hd_height (header b)\<rparr>)))"
    using emission.always [OF assms(1)] by (simp add: value_inv_def)
  have "spends_ok ce (utxo_set (st\<lparr>applying_height := hd_height (header b)\<rparr>)) (chain_txs st)"
    using assms(3) by (simp add: spends_inv_def)
  from spends_ok_txs [OF this accepted(10) fin] have so: "spends_ok ce (utxo_set s) (chain_txs st @ cb # rest)" .
  have "blocks s1 = blocks st"
    using slashes_frame [of "s\<lparr>total_fees_last_block := f\<rparr>" "slashes b"] accepted(13) apply_transactions_frame [OF accepted(10)]
    by (simp add: same_frame_def)
  then have "chain_txs st' = chain_txs st @ cb # rest" using accepted(14,4) by (simp add: chain_txs_def)
  moreover have "utxo_set st' = utxo_set s1" using accepted(14) by simp
  moreover have "unspent_at (utxo_set s1) k \<le> unspent_at (utxo_set s) k" for k
    using slashes_utxo [of "s\<lparr>total_fees_last_block := f\<rparr>" "slashes b" k] accepted(13) by simp
  ultimately show ?thesis using spends_ok_mono [OF so] by (simp add: spends_inv_def)
qed simp

interpretation spends: block_invariant ce "spends_inv ce" for ce
proof unfold_locales
  show "spends_inv ce (Chain_reset ce)"
    by (simp add: spends_inv_def spends_ok_def Chain_reset_def Let_def chain_txs_def make_genesis_def spent_outpoints_def unspent_at_def)
qed (rule spends_inv_block)

section \<open>The shielded pool of the chain\<close>

text \<open>The bundles that a list of transactions carries.\<close>

definition tx_bundles :: "transaction \<Rightarrow> z_bundle list" where
  "tx_bundles tx = (if shielded tx = [] then [] else case from_tx_field (shielded tx) of Inl _ \<Rightarrow> [] | Inr b \<Rightarrow> [b])"

definition bundles_of :: "transaction list \<Rightarrow> z_bundle list" where
  "bundles_of txs = concat (map tx_bundles txs)"

lemma bundles_of_simps [simp]:
  "bundles_of [] = []" "bundles_of (tx # txs) = tx_bundles tx @ bundles_of txs" "bundles_of (a @ b) = bundles_of a @ bundles_of b"
  by (simp_all add: bundles_of_def)

lemma validate_shielded_check:
  assumes "validate_transaction ce st tx chk = Inr ()" and "shielded tx \<noteq> []"
  obtains b where "from_tx_field (shielded tx) = Inr b" "State_check (shielded_st st) b {} = Inr ()"
proof -
  from assms obtain b where "validate_shielded_part ce st tx {} chk = Inr b"
    by (auto simp: validate_transaction_def bind_res_Inr)
  then have "from_tx_field (shielded tx) = Inr b" "State_check (shielded_st st) b {} = Inr ()"
    by (auto simp: validate_shielded_part_def bind_res_Inr split: if_splits)
  then show thesis by (rule that)
qed

lemma pool_tx:
  assumes "shield_run (ce_sh ce) bs (shielded_st st)" and "finite (dom (utxo_set st))"
    and "apply_transaction ce st tx txid chk = (Inr (), st')"
  shows "shield_run (ce_sh ce) (bs @ tx_bundles tx) (shielded_st st')"
proof -
  obtain st1 st2 st3 where v: "validate_transaction ce st tx chk = Inr ()"
    and s: "spend_inputs st False (inputs tx) = (Inr (spends_ticket st tx), st1)"
    and r: "utxo_set st1 = spent_keys (in_key ` set (inputs tx)) (utxo_set st)"
    "tickets st1 = filter (\<lambda>e. fst e \<notin> in_key ` set (inputs tx)) (tickets st)"
    "unspent_total st1 + in_total st tx = unspent_total st" "finite (dom (utxo_set st1))"
    and c: "create_outputs ce tx txid (spends_ticket st tx) st1 0 (outputs tx) = (Inr (), st2)"
    and z: "apply_shielded ce tx (record_signer tx st2) = (Inr (), st3)"
    and e: "st' = st3\<lparr>seen_transactions := insert txid (seen_transactions st3)\<rparr>"
    by (rule apply_transaction_stages [OF assms(3,2)]) (rule that)
  have st2: "shielded_st (record_signer tx st2) = shielded_st st"
    using spend_inputs_frame [OF s] create_outputs_frame [OF c] record_signer_props [of st2 tx] by (simp add: same_accounts_def)
  show ?thesis
  proof (cases "shielded tx = []")
    case True
    then have "st3 = record_signer tx st2" using z by (simp add: apply_shielded_def)
    then show ?thesis using True st2 e assms(1) by (simp add: tx_bundles_def)
  next
    case False
    with v obtain b where b: "from_tx_field (shielded tx) = Inr b" "State_check (shielded_st st) b {} = Inr ()"
      by (rule validate_shielded_check)
    then have "shielded_st st3 = State_apply (ce_sh ce) (shielded_st st) b"
      using z False st2 by (auto simp: apply_shielded_def)
    then show ?thesis
      using shield_run.run_step [OF assms(1) b(2)] False b(1) e by (simp add: tx_bundles_def)
  qed
qed

lemma pool_txs:
  "shield_run (ce_sh ce) bs (shielded_st st) \<Longrightarrow> apply_transactions ce st new = (Inr (), s) \<Longrightarrow> finite (dom (utxo_set st))
     \<Longrightarrow> shield_run (ce_sh ce) (bs @ bundles_of new) (shielded_st s)"
proof (induction new arbitrary: st bs)
  case (Cons tx new)
  from Cons.prems(2) obtain st1 where
    a: "apply_transaction ce st tx (hash_transaction (ce_cr ce) tx) False = (Inr (), st1)"
    and r: "apply_transactions ce st1 new = (Inr (), s)" by (rule apply_transactions_ConsE)
  from Cons.IH [OF pool_tx [OF Cons.prems(1,3) a] r apply_transaction_ok(3) [OF a Cons.prems(3)]]
  show ?case by simp
qed simp

definition pool_inv :: "chain_env \<Rightarrow> chain_state \<Rightarrow> bool" where
  "pool_inv ce st \<longleftrightarrow> shield_run (ce_sh ce) (bundles_of (chain_txs st)) (shielded_st st)"

lemma pool_inv_block:
  assumes "chain_run ce st" and "applying_height st = 0" and "pool_inv ce st" and "add_block ce now st b = (Inr (), st')"
  shows "pool_inv ce st'"
  using assms(4,2)
proof (cases rule: add_block_cases)
  case (accepted s s1 cb rest t f m)
  have fin: "finite (dom (utxo_set (st\<lparr>applying_height := hd_height (header b)\<rparr>)))"
    using emission.always [OF assms(1)] by (simp add: value_inv_def)
  have "shield_run (ce_sh ce) (bundles_of (chain_txs st)) (shielded_st (st\<lparr>applying_height := hd_height (header b)\<rparr>))"
    using assms(3) by (simp add: pool_inv_def)
  from pool_txs [OF this accepted(10) fin]
  have "shield_run (ce_sh ce) (bundles_of (chain_txs st) @ bundles_of (cb # rest)) (shielded_st s)" .
  moreover have "blocks s1 = blocks st" "shielded_st s1 = shielded_st s"
    using slashes_frame [of "s\<lparr>total_fees_last_block := f\<rparr>" "slashes b"] accepted(13) apply_transactions_frame [OF accepted(10)]
    by (simp_all add: same_frame_def)
  ultimately show ?thesis using accepted(14,4) by (simp add: pool_inv_def chain_txs_def)
qed simp

interpretation pool: block_invariant ce "pool_inv ce" for ce
proof unfold_locales
  show "pool_inv ce (Chain_reset ce)"
    by (simp add: pool_inv_def Chain_reset_def Let_def chain_txs_def make_genesis_def shield_run.run_init)
qed (rule pool_inv_block)

text \<open>Without the shielded extension no transaction of a chain carries a bundle.\<close>

definition no_pool_inv :: "chain_env \<Rightarrow> chain_state \<Rightarrow> bool" where
  "no_pool_inv ce st \<longleftrightarrow> (\<not> shielded_enabled (ce_cfg ce) \<longrightarrow> (\<forall>tx\<in>set (chain_txs st). shielded tx = []))"

lemma apply_transactions_transparent:
  "apply_transactions ce st txs = (Inr (), s) \<Longrightarrow> \<not> shielded_enabled (ce_cfg ce) \<Longrightarrow> \<forall>tx\<in>set txs. shielded tx = []"
proof (induction txs arbitrary: st)
  case (Cons tx txs)
  from Cons.prems(1) obtain st1 where
    a: "apply_transaction ce st tx (hash_transaction (ce_cr ce) tx) False = (Inr (), st1)"
    and r: "apply_transactions ce st1 txs = (Inr (), s)" by (rule apply_transactions_ConsE)
  have "validate_transaction ce st tx False = Inr ()"
    using a by (auto simp: apply_transaction_def split: sum.splits)
  then have "shielded tx = []" using Cons.prems(2)
    by (auto simp: validate_transaction_def validate_shielded_part_def bind_res_Inr split: if_splits)
  then show ?case using Cons.IH [OF r Cons.prems(2)] by simp
qed simp

interpretation no_pool: block_invariant ce "no_pool_inv ce" for ce
proof unfold_locales
  show "no_pool_inv ce (Chain_reset ce)"
    by (simp add: no_pool_inv_def Chain_reset_def Let_def chain_txs_def make_genesis_def)
next
  fix st now b st'
  assume "applying_height st = 0" "no_pool_inv ce st" "add_block ce now st b = (Inr (), st')"
  then show "no_pool_inv ce st'"
  proof (elim add_block_cases)
    fix s s1 cb rest f t m
    assume a: "apply_transactions ce (st\<lparr>applying_height := hd_height (header b)\<rparr>) (cb # rest) = (Inr (), s)"
      and i: "no_pool_inv ce st" "transactions b = cb # rest"
      and s1: "s1 = foldl slash_ticket (s\<lparr>total_fees_last_block := f\<rparr>) (slashes b)"
      and st': "st' = (connect_block ce s1 b m)\<lparr>applying_height := 0\<rparr>"
    have "blocks s1 = blocks st"
      using slashes_frame [of "s\<lparr>total_fees_last_block := f\<rparr>" "slashes b"] s1 apply_transactions_frame [OF a]
      by (simp add: same_frame_def)
    then show ?thesis
      using i st' apply_transactions_transparent [OF a] by (simp add: no_pool_inv_def chain_txs_def) blast
  qed simp_all
qed

lemma no_pool_flows: "\<forall>tx\<in>set txs. shielded tx = [] \<Longrightarrow> pool_out txs = 0 \<and> pool_in txs = 0"
  by (induction txs) (auto simp: tx_vin_def tx_vout_def)

section \<open>Votes and slashes\<close>

lemma check_votes_ok:
  "check_votes ce st vh vhash sel seen vs = Inr owners \<Longrightarrow>
     distinct (map ticket_id vs) \<and> set (map ticket_id vs) \<inter> seen = {} \<and> set (map ticket_id vs) \<subseteq> set sel
     \<and> (\<forall>v\<in>set vs. voted_height v = vh \<and> voted_hash v = vhash
          \<and> (\<exists>t. ticket st (ticket_id v) = Some t \<and> vote_signature_ok ce (ticket_with_key st t) v))
     \<and> owners = map (\<lambda>v. tk_owner (the (ticket st (ticket_id v)))) (filter approve vs)"
proof (induction vs arbitrary: seen owners)
  case (Cons v vs)
  from Cons.prems obtain t os where f: "voted_height v = vh" "voted_hash v = vhash" "ticket_id v \<in> set sel" "ticket_id v \<notin> seen"
    "ticket st (ticket_id v) = Some t" "vote_signature_ok ce (ticket_with_key st t) v"
    and r: "check_votes ce st vh vhash sel (insert (ticket_id v) seen) vs = Inr os"
    and o: "owners = (if approve v then tk_owner t # os else os)"
    by (auto simp: bind_res_Inr split: if_split_asm option.splits)
  from Cons.IH [OF r] show ?case using f o by auto
qed simp

lemma slash_ticket_tickets:
  "ticket (slash_ticket st ev) k = (if k = ticket_id (ev_a ev) then None else ticket st k)"
  by (auto simp: slash_ticket_def Let_def ticket_def map_of_omap_del split: option.splits)

lemma slashes_tickets:
  "ticket (foldl slash_ticket st evs) k = (if k \<in> (\<lambda>ev. ticket_id (ev_a ev)) ` set evs then None else ticket st k)"
  by (induction evs arbitrary: st) (auto simp: slash_ticket_tickets)

lemma block_staking_ok:
  assumes "validate_block_staking ce st b = Inr ()" and "staking_active_at ce (hd_height (header b))"
  obtains owners where "check_slashes ce st {} (slashes b) = Inr ()"
    "check_votes ce st (hd_height (header b) - 1) (hd_previous_hash (header b))
       (select_tickets (ce_cr ce) (eligible_tickets_at ce st (hd_height (header b) - 1)) (hd_previous_hash (header b))
          (stake_votes_per_block (ce_cfg ce))) {} (votes b) = Inr owners"
    "unat (stake_min_live_tickets (ce_cfg ce)) \<le> length (eligible_tickets_at ce st (hd_height (header b) - 1))
       \<Longrightarrow> unat (stake_vote_quorum (ce_cfg ce)) \<le> length owners"
    "owners \<noteq> [] \<Longrightarrow> check_staker_rewards ce st b owners = Inr ()"
  using assms unfolding validate_block_staking_def Let_def
  by (auto simp: bind_res_Inr not_less split: if_split_asm)

end
