(* ===== verification/Chain_Properties.thy ===== *)
theory Chain_Properties
  imports Chain_Invariants
begin

text \<open>
  The properties of the ledger: what \<open>add_block\<close>, \<open>replace_with_chain\<close> and \<open>apply_transaction\<close>
  guarantee on every reachable chain, each with a concrete instance on a small network.
\<close>

section \<open>A concrete chain\<close>

text \<open>
  A network with a 64-byte digest that keeps the last byte of its input and a signature scheme whose
  signatures repeat the key, and a block on its genesis: a coinbase, and a transaction that spends the
  first output of the coinbase.
\<close>

definition demo_crypto :: crypto where
  "demo_crypto = toy_crypto\<lparr>sha3 := (\<lambda>s. replicate 63 CHR ''h'' @ [if s = [] then CHR ''0'' else last s])\<rparr>"

definition demo_digest :: "char \<Rightarrow> string" where "demo_digest c = to_hex (replicate 63 CHR ''h'' @ [c])"

definition demo_addr :: string where "demo_addr = demo_digest (CHR 0x0A)"

definition demo_cfg :: chain_config where
  "demo_cfg = \<lparr>network_id = ''demo'', genesis_timestamp = 100, max_supply = 50, block_reward = 4,
     target_block_time_sec = 60, pow_alg = Sha3_512, initial_difficulty_target = U64_MAX, min_difficulty_target = U64_MAX,
     max_difficulty_target = U64_MAX, retarget_window = 10, difficulty_fork_height = 0, lwma_window = 45,
     legacy_min_difficulty_target = 0, halving_interval = 10, subsidy_floor = 1, require_pq_signatures = True,
     allow_zero_reward_blocks = False, min_fee = 1, staking_activation_height = 1, stake_min_amount = 5,
     stake_maturity = 2, stake_unbond_delay = 3, stake_votes_per_block = 5, stake_vote_quorum = 3,
     stake_min_live_tickets = 5, stake_reward_bps = 1000, max_block_weight = U64_MAX, shielded_enabled = False\<rparr>"

definition demo_ce :: chain_env where "demo_ce = \<lparr>ce_cfg = demo_cfg, ce_cr = demo_crypto, ce_sh = sample_env\<rparr>"

definition demo_coinbase :: transaction where
  "demo_coinbase = \<lparr>inputs = [], outputs = [\<lparr>recipient = demo_addr, amount = 5\<rparr>], signer = [], signer_pubkey = [],
     signature = [], fee = 0, nonce = 1, shielded = []\<rparr>"

definition demo_spend :: transaction where
  "demo_spend = \<lparr>inputs = [\<lparr>previous_txid = demo_digest CHR ''1'', output_index = 0, witness = []\<rparr>],
     outputs = [\<lparr>recipient = ''bob'', amount = 4\<rparr>], signer = demo_addr, signer_pubkey = ''0a'',
     signature = ''pq=0a'', fee = 1, nonce = 2, shielded = []\<rparr>"

definition demo_header :: block_header where
  "demo_header = \<lparr>hd_height = 1, hd_previous_hash = demo_digest CHR ''9'', hd_timestamp = 160, hd_nonce = 0,
       hd_difficulty_target = U64_MAX, hd_merkle_root = demo_digest CHR ''2''\<rparr>"

definition demo_block :: block where
  "demo_block = \<lparr>header = demo_header, transactions = [demo_coinbase, demo_spend], votes = [], slashes = []\<rparr>"

definition demo_first :: chain_state where
  "demo_first = snd (add_block demo_ce 100 (Chain_reset demo_ce) demo_block)"

lemma demo_digest_hex: "length (demo_digest c) = 128" "list_all is_hex_char (demo_digest c)"
  "last (demo_digest c) = hex_char (of_char c mod 16)"
proof -
  show "length (demo_digest c) = 128" by (simp add: demo_digest_def)
  show "list_all is_hex_char (demo_digest c)"
    using to_hex_hex [of "replicate 63 CHR ''h'' @ [c]"] by (simp add: demo_digest_def)
  show "last (demo_digest c) = hex_char (of_char c mod 16)" by (simp add: demo_digest_def to_hex_def byte_hex_def)
qed

lemma demo_chars: "char_of (49 :: nat) = CHR ''1''" "char_of (50 :: nat) = CHR ''2''" "char_of (57 :: nat) = CHR ''9''"
  "char_of (10 :: nat) = CHR 0x0A"
  using char_of_char [of "CHR ''1''", where ?'a = nat] char_of_char [of "CHR ''2''", where ?'a = nat]
    char_of_char [of "CHR ''9''", where ?'a = nat] char_of_char [of "CHR 0x0A", where ?'a = nat] by simp_all

lemma demo_digest_ne [simp]: "demo_digest c \<noteq> []"
  using demo_digest_hex(1) [of c] by auto

lemma demo_digest_12: "demo_digest CHR ''1'' \<noteq> demo_digest CHR ''2''"
proof -
  have "last (demo_digest CHR ''1'') \<noteq> last (demo_digest CHR ''2'')"
    by (simp add: demo_digest_hex(3) hex_char_def demo_chars)
  then show ?thesis by metis
qed

lemma demo_addr: "demo_addr \<noteq> []" "demo_addr \<noteq> ''@stake''"
proof -
  have "length demo_addr \<noteq> length ''@stake''" by (simp add: demo_addr_def demo_digest_hex(1))
  then show "demo_addr \<noteq> ''@stake''" by metis
qed (simp add: demo_addr_def)

lemma demo_hash [simp]: "s \<noteq> [] \<Longrightarrow> strong_hash demo_crypto s = demo_digest (last s)"
  by (simp add: strong_hash_def demo_crypto_def demo_digest_def)

lemma demo_simps [simp]: "ce_cfg demo_ce = demo_cfg" "ce_cr demo_ce = demo_crypto" "ce_sh demo_ce = sample_env"
  by (simp_all add: demo_ce_def)

lemma demo_hashes [simp]:
  "hash_transaction demo_crypto demo_coinbase = demo_digest CHR ''1''"
  "hash_transaction demo_crypto demo_spend = demo_digest CHR ''2''"
  "hash_transaction_with_witness demo_crypto demo_coinbase = demo_digest CHR ''1''"
  "hash_transaction_with_witness demo_crypto demo_spend = demo_digest CHR ''2''"
  "hash_block_header demo_crypto demo_header = demo_digest CHR ''2''"
proof -
  have d: "last (dec 1) = CHR ''1''" "last (dec 2) = CHR ''2''" by (simp_all add: dec.simps digit_char_def demo_chars)
  show h1: "hash_transaction demo_crypto demo_coinbase = demo_digest CHR ''1''"
    and h2: "hash_transaction demo_crypto demo_spend = demo_digest CHR ''2''"
    using d by (simp_all add: hash_transaction_def tx_preimage_def demo_coinbase_def demo_spend_def to_string_def)
  show "hash_transaction_with_witness demo_crypto demo_coinbase = demo_digest CHR ''1''"
    and "hash_transaction_with_witness demo_crypto demo_spend = demo_digest CHR ''2''"
    by (simp_all add: hash_transaction_with_witness_def Let_def h1 h2) (simp_all add: demo_coinbase_def demo_spend_def)
  show "hash_block_header demo_crypto demo_header = demo_digest CHR ''2''"
    by (simp add: hash_block_header_def demo_header_def demo_digest_hex(3) hex_char_def demo_chars)
qed

lemma demo_merkle: "compute_merkle_root demo_crypto [demo_coinbase, demo_spend] = demo_digest CHR ''2''"
  "compute_merkle_root demo_crypto [] = demo_digest CHR ''y''"
  by (simp_all add: compute_merkle_root_def merkle_loop.simps demo_digest_hex(3) hex_char_def demo_chars)

lemma demo_genesis_hash: "hash_block_header demo_crypto (header (tip (Chain_reset demo_ce))) = demo_digest CHR ''9''"
  by (simp add: Chain_reset_def Let_def tip_def make_genesis_def hash_block_header_def demo_merkle demo_digest_hex(3) hex_char_def demo_chars)

lemma u64_le_max: "x \<le> (U64_MAX :: u64)" by (simp add: word_le_nat_alt)

lemma demo_header_ok: "validate_block_header demo_ce 100 (Chain_reset demo_ce) demo_block = Inr ()"
proof -
  obtain v where "hash_head64 (demo_digest CHR ''2'') = Some v" using hash_head64_digest unfolding demo_digest_def by blast
  then have "hash_meets_target demo_ce (demo_digest CHR ''2'') U64_MAX" by (simp add: hash_meets_target_def demo_cfg_def u64_le_max)
  then show ?thesis using demo_genesis_hash demo_hashes(5)
    by (simp add: validate_block_header_def Let_def Chain_reset_def tip_def make_genesis_def demo_block_def demo_header_def
        compute_block_commitment_def demo_cfg_def kFutureTimeLimitBlocks_def demo_merkle)
qed

lemma demo_binds: "signer_binds_pubkey demo_crypto demo_addr ''0a'' = Inr ()"
  using demo_digest_hex(1,2) [of "CHR 0x0A"] demo_digest_ne [of "CHR 0x0A", unfolded demo_digest_def]
  by (simp add: signer_binds_pubkey_def infer_sig_scheme_from_pubkey_hex_def infer_sig_scheme_from_key_bytes_def get_scheme_sizes_def
     demo_crypto_def toy_crypto_def sig_scheme_available_def address_binds_pubkey_def address_binds_pubkey_id_def kMlDsa87SchemeId_def
     hex_to_bytes_def is_hex_strict_def is_hex_char_def hex_val_def hash_committed_address_def demo_addr_def demo_digest_def demo_chars Let_def)

lemma demo_verifies: "verify_message_signature_hybrid_uncached demo_crypto ''0a'' m ''pq=0a''"
  by (simp add: verify_message_signature_hybrid_uncached_def starts_with_def infer_sig_scheme_from_key_bytes_def get_scheme_sizes_def
     demo_crypto_def toy_crypto_def sig_scheme_available_def hex_to_bytes_def is_hex_strict_def is_hex_char_def hex_val_def
     pq_verify_message_def Let_def)

lemma demo_subsidy: "compute_block_reward demo_ce 1 = 4" "max_mintable_at demo_ce (Chain_reset demo_ce) 1 = 4"
  by (simp_all add: compute_block_reward_def max_mintable_at_def max_mintable_subsidy_def scheduled_block_subsidy_def demo_cfg_def
      Chain_reset_def Let_def)

lemma demo_weight: "block_weight demo_crypto demo_block \<le> 18446744073709551615"
proof -
  have tx: "length (encode_tx_v3 demo_crypto demo_coinbase) < 1000" "length (encode_tx_v3 demo_crypto demo_spend) < 1000"
    using length_write_tagged [of "[]"] length_write_tagged [of "demo_digest CHR ''1''"] length_write_tagged [of demo_addr] length_write_tagged [of "''bob''"]
      length_write_tagged [of "''0a''"] length_write_tagged [of "''pq=0a''"] demo_digest_hex(1)
    by (simp_all add: demo_addr_def encode_tx_v3_def tx_body_v3_def demo_coinbase_def demo_spend_def put_many_def put_output_def put_input_def
        put_witness_def has_witness_def length_put_int Let_def)
  then show ?thesis using length_write_tagged [of "demo_digest CHR ''9''"] length_write_tagged [of "demo_digest CHR ''2''"] demo_digest_hex(1)
    by (simp add: block_weight_def demo_block_def demo_header_def tx_weight_def stake_extension_weight_def Let_def)
qed

lemma demo_weight_ok: "block_weight demo_crypto demo_block \<le> unat (max_block_weight demo_cfg)"
  using demo_weight by (simp add: demo_cfg_def)

lemma Chain_reset_simps:
  "utxo_set (Chain_reset ce) = Map.empty" "address_index (Chain_reset ce) = Map.empty" "tickets (Chain_reset ce) = []"
  "pubkey_registry (Chain_reset ce) = Map.empty" "signer_last_nonce (Chain_reset ce) = Map.empty"
  "height (Chain_reset ce) = 0" "shielded_st (Chain_reset ce) = State_init (ce_sh ce)"
  by (simp_all add: Chain_reset_def Let_def height_def tip_def make_genesis_def)

lemma demo_transactions_ok: "validate_block_transactions demo_ce (Chain_reset demo_ce) demo_block = Inr ()"
proof -
  have h: "hd_height (header demo_block) = 1" "transactions demo_block = [demo_coinbase, demo_spend]" "votes demo_block = []"
    "slashes demo_block = []" by (simp_all add: demo_block_def demo_header_def)
  have cb: "coinbase_sum 0 (outputs demo_coinbase) = Inr 5" "fees_sum 0 [demo_spend] = Inr 1"
    "shielded demo_coinbase = []" "inputs demo_coinbase = []" "outputs demo_coinbase \<noteq> []"
    using demo_addr by (simp_all add: demo_coinbase_def demo_spend_def)
  have em: "check_emission demo_ce (Chain_reset demo_ce) 1 5 1 = Inr ()"
    by (simp add: check_emission_def demo_subsidy Let_def)
  have sh: "shielded_pass demo_ce (Chain_reset demo_ce) {} {} [demo_spend] = Inr ([], [(0, 0)])"
    by (simp add: demo_spend_def)
  have sn: "snap_tx demo_ce 1 False (Map.empty, Map.empty) demo_coinbase (0, 0) =
      Inr ([outpoint_key (demo_digest CHR ''1'') 0 \<mapsto> \<lparr>u_owner = demo_addr, u_amount = 5, u_spent = False, u_spendable_height = 0, u_height = 1\<rparr>],
           [demo_addr \<mapsto> 5])"
    using demo_addr demo_hashes(1) by (simp add: snap_tx_def demo_coinbase_def)
  have sl: "\<exists>s. snap_loop demo_ce 1 ([outpoint_key (demo_digest CHR ''1'') 0 \<mapsto> \<lparr>u_owner = demo_addr, u_amount = 5, u_spent = False, u_spendable_height = 0, u_height = 1\<rparr>],
           [demo_addr \<mapsto> 5]) [(demo_spend, 0, 0)] = Inr s"
    by (simp add: snap_tx_def demo_spend_def in_key_def debit_def)
  have sj: "\<exists>m. signature_jobs demo_ce (Chain_reset demo_ce) Map.empty [demo_spend] = Inr [(''0a'', m, ''pq=0a'')]"
    using demo_binds demo_addr
    by (simp add: demo_spend_def starts_with_def resolve_signer_pubkey_def Let_def)
  have vs: "validate_block_staking demo_ce (Chain_reset demo_ce) demo_block = Inr ()"
    by (simp add: validate_block_staking_def h staking_active_at_def demo_cfg_def Let_def eligible_tickets_at_def Chain_reset_simps)
  show ?thesis
    using demo_weight_ok cb em sh sn sl sj vs demo_verifies
    by (auto simp: validate_block_transactions_def h Chain_reset_simps not_less)
qed

lemma demo_apply_ok: "\<exists>s. apply_transactions demo_ce ((Chain_reset demo_ce)\<lparr>applying_height := 1\<rparr>) [demo_coinbase, demo_spend] = (Inr (), s)"
  using demo_addr demo_binds demo_hashes(1,2)
  by (simp add: apply_transaction_def validate_transaction_def demo_coinbase_def demo_spend_def validate_coinbase_def
      create_output_def new_utxo_def record_signer_def apply_shielded_def Chain_reset_simps Let_def kStakeAddress_def
      validate_spend_def validate_authorisation_def validate_transaction_signature_def starts_with_def resolve_signer_pubkey_def
      owns_input_def in_key_def spends_ticket_def context_height_def demo_cfg_def debit_def touch_def)

lemma demo_accepts: "add_block demo_ce 100 (Chain_reset demo_ce) demo_block = (Inr (), demo_first)"
proof -
  have h: "hd_height (header demo_block) = 1" "transactions demo_block = [demo_coinbase, demo_spend]"
    by (simp_all add: demo_block_def demo_header_def)
  obtain s where "apply_transactions demo_ce ((Chain_reset demo_ce)\<lparr>applying_height := 1\<rparr>) [demo_coinbase, demo_spend] = (Inr (), s)"
    using demo_apply_ok by blast
  then have "fst (add_block demo_ce 100 (Chain_reset demo_ce) demo_block) = Inr ()"
    using demo_weight_ok by (intro add_block_accepts [OF _ demo_header_ok demo_transactions_ok]) (simp_all add: h)
  then show ?thesis unfolding demo_first_def by (metis prod.collapse)
qed

lemma demo_run: "chain_run demo_ce demo_first"
  by (rule chain_run.step [OF chain_run.start chain_step.add [OF demo_accepts]])

lemma add_block_appends:
  assumes "add_block ce now st b = (Inr (), st')" and "applying_height st = 0"
  shows "blocks st' = blocks st @ [b]"
  using assms
proof (cases rule: add_block_cases)
  case (accepted s s1 cb rest t f m)
  have "blocks s1 = blocks st"
    using slashes_frame [of "s\<lparr>total_fees_last_block := f\<rparr>" "slashes b"] accepted(13) apply_transactions_frame [OF accepted(10)]
    by (simp add: same_frame_def)
  then show ?thesis using accepted(14) by simp
qed simp

lemma replay_run: "chain_run ce st \<Longrightarrow> replay_blocks ce clock st i bs = (Inr (), s) \<Longrightarrow> chain_run ce s \<and> blocks s = blocks st @ bs"
proof (induction bs arbitrary: st i)
  case (Cons b bs)
  then obtain st1 where a: "add_block ce (clock i) st b = (Inr (), st1)" and r: "replay_blocks ce clock st1 (i + 1) bs = (Inr (), s)"
    by (auto split: prod.splits sum.splits)
  have "chain_run ce st1" using Cons.prems(1) chain_step.add [OF a] by (rule chain_run.step)
  from Cons.IH [OF this r] show ?case using add_block_appends [OF a chain_run_idle [OF Cons.prems(1)]] by simp
qed simp

section \<open>Properties\<close>

text \<open>
  Claim C2. A refused block leaves no trace: on every reachable chain, when \<open>add_block\<close> reports an
  error, at whatever stage (the failure of a transaction in the middle of the block included), the
  whole state is the one before the call.
\<close>

theorem add_block_atomic:
  assumes "chain_run ce st" and "add_block ce now st b = (Inl e, st')"
  shows "st' = st"
  by (rule add_block_refused [OF assms(2) chain_run_idle [OF assms(1)]])

theorem add_block_atomic_witness:
  "add_block demo_ce 100 demo_first demo_block = (Inl ''invalid height'', demo_first)"
proof -
  have b: "blocks demo_first = blocks (Chain_reset demo_ce) @ [demo_block]"
    by (rule add_block_appends [OF demo_accepts Chain_reset_idle])
  obtain st' where r: "add_block demo_ce 100 demo_first demo_block = (Inl ''invalid height'', st')"
    using demo_weight_ok b
    by (simp add: add_block_def validate_block_header_def tip_def not_less Let_def demo_block_def demo_header_def)
  with add_block_atomic [OF demo_run this] show ?thesis by simp
qed

text \<open>
  Claim C1. Emission and value: on every reachable chain the emitted total never exceeds the maximum
  supply, and the value of all unspent outputs, plus what slashing burnt, plus what entered the shielded
  pool, is at most the emitted total plus what left the pool. On a network without the shielded
  extension the unspent outputs are therefore worth at most the maximum supply.
\<close>

theorem supply_bounded:
  assumes "chain_run ce st"
  shows "total_emitted st \<le> max_supply (ce_cfg ce)
    \<and> unspent_total st + unat (total_slashed st) + pool_in (chain_txs st) \<le> unat (total_emitted st) + pool_out (chain_txs st)
    \<and> (\<not> shielded_enabled (ce_cfg ce) \<longrightarrow> unspent_total st + unat (total_slashed st) \<le> unat (max_supply (ce_cfg ce)))"
  using emission.always [OF assms] no_pool.always [OF assms] no_pool_flows [of "chain_txs st"]
  by (auto simp: value_inv_def no_pool_inv_def word_le_nat_alt)

theorem supply_bounded_witness: "unspent_total demo_first + unat (total_slashed demo_first) \<le> 50"
  using supply_bounded [OF demo_run] by (simp add: demo_cfg_def)

text \<open>
  Claim C4. No double spend. On every reachable chain an outpoint (transaction id and output index) is
  spent at most as many times as the chain has transactions with that id, that is, at most once for each
  transaction that created it. So on a chain whose transactions have pairwise different ids no outpoint is
  spent twice. Block validation itself does not refuse a second transaction with the id of an earlier one
  (the coinbase templates number their coinbases by height, a received block need not): such a transaction
  creates the outputs of that id anew, and each of them can then be spent once more, never oftener.
\<close>

theorem chain_no_double_spend:
  assumes "chain_run ce st"
  shows "count_list (concat (map (\<lambda>tx. map in_key (inputs tx)) (chain_txs st))) (outpoint_key txid i)
      \<le> count_list (map (hash_transaction (ce_cr ce)) (chain_txs st)) txid
    \<and> (distinct (map (hash_transaction (ce_cr ce)) (chain_txs st))
        \<longrightarrow> distinct (concat (map (\<lambda>tx. map in_key (inputs tx)) (chain_txs st))))"
proof -
  have ok: "spends_ok ce (utxo_set st) (chain_txs st)" using spends.always [OF assms] by (simp add: spends_inv_def)
  then have "count_list (spent_outpoints (chain_txs st)) (outpoint_key txid i)
      \<le> count_list (map (hash_transaction (ce_cr ce)) (chain_txs st)) txid"
    unfolding spends_ok_def using add_leD1 by blast
  then show ?thesis using spends_ok_distinct [OF ok] by (simp add: spent_outpoints_def)
qed

theorem chain_no_double_spend_witness:
  "count_list (concat (map (\<lambda>tx. map in_key (inputs tx)) [demo_coinbase, demo_spend])) (outpoint_key (demo_digest CHR ''1'') 0) \<le> 1
    \<and> distinct (concat (map (\<lambda>tx. map in_key (inputs tx)) [demo_coinbase, demo_spend]))"
proof -
  have b: "blocks demo_first = blocks (Chain_reset demo_ce) @ [demo_block]"
    by (rule add_block_appends [OF demo_accepts Chain_reset_idle])
  then have c: "chain_txs demo_first = [demo_coinbase, demo_spend]"
    by (simp add: chain_txs_def Chain_reset_def Let_def make_genesis_def demo_block_def)
  with chain_no_double_spend [OF demo_run, of "demo_digest CHR ''1''" 0] demo_digest_12 show ?thesis by simp
qed

text \<open>
  Claim C7. No replay: on every reachable chain the transactions of one signer have strictly increasing
  nonces, so none of them occurs twice, and the recorded nonce of the signer is the last of them.
\<close>

theorem chain_nonces_increase:
  assumes "chain_run ce st" and "s \<noteq> []"
  shows "sorted_wrt (<) (map nonce (filter (\<lambda>tx. inputs tx \<noteq> [] \<and> signer tx = s) (chain_txs st)))
    \<and> (\<forall>n. signer_last_nonce st s = Some n \<longleftrightarrow>
          signer_nonces s (chain_txs st) \<noteq> [] \<and> n = last (signer_nonces s (chain_txs st)))"
  using accounts.always [OF assms(1)] assms(2) by (auto simp: accounts_inv_def accounts_ok_def signer_nonces_def last_opt_def)

theorem chain_nonces_increase_witness:
  "sorted_wrt (<) (map nonce (filter (\<lambda>tx. inputs tx \<noteq> [] \<and> signer tx = demo_addr) (chain_txs demo_first)))"
  using chain_nonces_increase [OF demo_run demo_addr(1)] by blast

text \<open>
  Claim C6. Headers: a reachable chain starts with the genesis block of its network; every further block
  has the next height, the hash of its parent, its own commitment, a time not before its parent's, a
  target inside the configured band that its hash meets, and exactly the target that the retarget rule
  gives for the blocks before it; the accumulated work is the sum over its blocks; and a network whose
  band is not empty computes only targets inside it, so the next block can never be refused for its
  difficulty.
\<close>

theorem chain_headers_valid:
  assumes "chain_run ce st"
  shows "hd (blocks st) = make_genesis ce (initial_difficulty_target (ce_cfg ce))
    \<and> successively (linked ce) (blocks st)
    \<and> (\<forall>i < length (blocks st). hd_difficulty_target (header (blocks st ! i)) = target_after ce (take i (blocks st)))
    \<and> difficulty_target st = target_after ce (blocks st)
    \<and> cumulative_work st = sum_list (map (\<lambda>b. work_for_target (hd_difficulty_target (header b))) (blocks st))
    \<and> (min_difficulty_target (ce_cfg ce) \<le> max_difficulty_target (ce_cfg ce) \<and> 1 < length (blocks st) \<longrightarrow>
         min_difficulty_target (ce_cfg ce) \<le> difficulty_target st \<and> difficulty_target st \<le> max_difficulty_target (ce_cfg ce))"
proof -
  have "target_after ce (blocks st) = compute_next_difficulty_target ce
      ((Chain_reset ce)\<lparr>blocks := blocks st, difficulty_target := hd_difficulty_target (header (last (blocks st)))\<rparr>)"
    if "1 < length (blocks st)" using that by (simp add: target_after_def)
  then show ?thesis using links.always [OF assms] next_difficulty_range [of ce] by (auto simp: links_inv_def)
qed

theorem chain_headers_valid_witness: "cumulative_work demo_first = 2"
proof -
  have "blocks demo_first = blocks (Chain_reset demo_ce) @ [demo_block]"
    by (rule add_block_appends [OF demo_accepts Chain_reset_idle])
  with chain_headers_valid [OF demo_run] show ?thesis
    by (simp add: Chain_reset_def Let_def make_genesis_def demo_block_def demo_header_def demo_cfg_def work_for_target_def)
qed

text \<open>
  Claim C3. Authorisation: in an accepted block on a reachable chain, every transaction with inputs was
  authorised in the state just before it was applied. A transaction with a signer carries a signature
  that verifies under a public key whose hash is the signer's address, and the signer owns every input
  (a stake ticket through its owner); a transaction without one satisfies the script of every input.
\<close>

theorem accepted_spends_authorised:
  assumes "chain_run ce st" and "add_block ce now st b = (Inr (), st')"
    and "transactions b = pre @ tx # post" and "inputs tx \<noteq> []"
  shows "\<exists>s. apply_transactions ce (st\<lparr>applying_height := hd_height (header b)\<rparr>) pre = (Inr (), s)
    \<and> (if signer tx \<noteq> []
        then list_all (owns_input s (signer tx)) (inputs tx)
          \<and> (\<exists>pk. signer_binds_pubkey (ce_cr ce) (signer tx) pk = Inr ()
               \<and> verify_message_signature_hybrid_uncached (ce_cr ce) pk
                    (hash_transaction (ce_cr ce) (tx\<lparr>signature := []\<rparr>)) (signature tx))
        else validate_script_inputs ce s tx = Inr ())"
  using block_spends_authorised [OF assms] unfolding spend_authorised_def signature_valid_def .

theorem accepted_spends_authorised_witness:
  "\<exists>s pk. list_all (owns_input s demo_addr) (inputs demo_spend)
     \<and> verify_message_signature_hybrid_uncached demo_crypto pk (hash_transaction demo_crypto (demo_spend\<lparr>signature := []\<rparr>)) ''pq=0a''"
proof -
  have "transactions demo_block = [demo_coinbase] @ demo_spend # []" "inputs demo_spend \<noteq> []" "signer demo_spend = demo_addr"
    "signature demo_spend = ''pq=0a''" by (simp_all add: demo_block_def demo_spend_def)
  with accepted_spends_authorised [OF chain_run.start demo_accepts this(1,2)] demo_addr(1) show ?thesis by auto
qed

text \<open>
  Claim C5. Reorganisation: on a reachable chain \<open>replace_with_chain\<close> either fails and leaves the whole
  state as it was, or it adopts the candidate: same genesis hash, strictly more accumulated work, the
  blocks of the candidate after the genesis, and a state that the ordinary rules reach.
\<close>

theorem reorganisation_most_work:
  assumes "chain_run ce st" and "replace_with_chain ce clock st candidate = (r, st')"
  shows "(case r of Inl e \<Rightarrow> st' = st
     | Inr _ \<Rightarrow> cumulative_work st < cumulative_work st' \<and> candidate \<noteq> []
         \<and> hash_block_header (ce_cr ce) (header (hd candidate)) = genesis_hash ce st
         \<and> blocks st' = make_genesis ce (initial_difficulty_target (ce_cfg ce)) # tl candidate \<and> chain_run ce st')"
  using assms(2) chain_run_idle [OF assms(1)]
proof (cases rule: replace_cases)
  case (adopted g rest)
  have "chain_run ce st' \<and> blocks st' = blocks (Chain_reset ce) @ rest"
    by (rule replay_run [OF chain_run.start adopted(4)])
  then show ?thesis using adopted by (simp add: Chain_reset_def Let_def)
qed simp

theorem reorganisation_most_work_witness:
  "cumulative_work (Chain_reset demo_ce) < cumulative_work (snd (replace_with_chain demo_ce (\<lambda>_. 100) (Chain_reset demo_ce)
      [make_genesis demo_ce U64_MAX, demo_block]))"
proof -
  have b: "blocks demo_first = blocks (Chain_reset demo_ce) @ [demo_block]"
    by (rule add_block_appends [OF demo_accepts Chain_reset_idle])
  have w: "cumulative_work (Chain_reset demo_ce) = 1" "genesis_hash demo_ce (Chain_reset demo_ce) = hash_block_header demo_crypto (header (make_genesis demo_ce U64_MAX))"
    by (simp_all add: Chain_reset_def Let_def make_genesis_def genesis_hash_def demo_cfg_def work_for_target_def)
  have "cumulative_work demo_first = 2" using links.always [OF demo_run] b
    by (simp add: links_inv_def Chain_reset_def Let_def make_genesis_def demo_block_def demo_header_def demo_cfg_def work_for_target_def)
  then have "replace_with_chain demo_ce (\<lambda>_. 100) (Chain_reset demo_ce) [make_genesis demo_ce U64_MAX, demo_block] = (Inr (), demo_first)"
    using demo_accepts w by (simp add: replace_with_chain_def word_le_nat_alt)
  with reorganisation_most_work [OF chain_run.start this] show ?thesis by simp
qed

text \<open>
  Claim C9. Unbonding: when an applied transaction spends a stake ticket, each output it creates may be
  spent only from the height of that transaction plus the unbonding delay on; no transaction that
  validates earlier can have it as an input.
\<close>

theorem unbonding_enforced:
  assumes "finite (dom (utxo_set st))" and "apply_transaction ce st tx txid chk = (Inr (), st1)" and "spends_ticket st tx"
    and "utxo_set st k = None" and "utxo_set st1 k = Some u"
  shows "u_spendable_height u = context_height st + stake_unbond_delay (ce_cfg ce)
    \<and> (\<forall>st2 tx2 chk2. utxo_set st2 k = Some u \<and> k \<in> in_key ` set (inputs tx2) \<and> validate_transaction ce st2 tx2 chk2 = Inr ()
         \<longrightarrow> context_height st + stake_unbond_delay (ce_cfg ce) \<le> context_height st2)"
proof -
  have "u_spendable_height u = context_height st + stake_unbond_delay (ce_cfg ce)"
    using apply_transaction_ok(6) [OF assms(2,1,3,5)] assms(4) by (auto simp: spent_keys_def split: if_splits)
  then show ?thesis using validate_inputs by (fastforce simp: list_all_iff spendable_def)
qed

definition demo_unlock :: transaction where
  "demo_unlock = demo_spend\<lparr>inputs := [\<lparr>previous_txid = ''s'', output_index = 0, witness = []\<rparr>]\<rparr>"

definition demo_staked :: chain_state where
  "demo_staked = (Chain_reset demo_ce)\<lparr>
     utxo_set := [outpoint_key ''s'' 0 \<mapsto> \<lparr>u_owner = kStakeAddress, u_amount = 5, u_spent = False, u_spendable_height = 0, u_height = 0\<rparr>],
     tickets := [(outpoint_key ''s'' 0, \<lparr>tk_id = outpoint_key ''s'' 0, tk_owner = demo_addr, tk_owner_pubkey = ''0a'',
       tk_amount = 5, tk_lock_height = 0\<rparr>)]\<rparr>"

theorem unbonding_enforced_witness:
  "\<exists>u. utxo_set (snd (apply_transaction demo_ce demo_staked demo_unlock ''t'' True)) (outpoint_key ''t'' 0) = Some u
     \<and> u_spendable_height u = 4"
proof -
  let ?r = "apply_transaction demo_ce demo_staked demo_unlock ''t'' True" and ?k = "outpoint_key ''t'' 0"
  have h: "height demo_staked = 0" "applying_height demo_staked = 0" "context_height demo_staked = 1"
    by (simp_all add: demo_staked_def Chain_reset_def Let_def height_def tip_def make_genesis_def context_height_def)
  have r: "fst ?r = Inr () \<and> (\<exists>u. utxo_set (snd ?r) ?k = Some u)"
    using demo_addr demo_binds demo_verifies
    by (simp add: apply_transaction_def validate_transaction_def demo_unlock_def demo_spend_def
      create_output_def new_utxo_def record_signer_def apply_shielded_def demo_staked_def Chain_reset_simps Let_def kStakeAddress_def
      validate_spend_def validate_authorisation_def validate_transaction_signature_def starts_with_def resolve_signer_pubkey_def
      owns_input_def in_key_def spends_ticket_def context_height_def demo_cfg_def debit_def touch_def)
  then obtain u st1 where e: "?r = (Inr (), st1)" "utxo_set st1 ?k = Some u" by (metis prod.collapse snd_conv)
  have "finite (dom (utxo_set demo_staked))" "spends_ticket demo_staked demo_unlock" "utxo_set demo_staked ?k = None"
    by (simp_all add: demo_staked_def spends_ticket_def demo_unlock_def in_key_def)
  from unbonding_enforced [OF this(1) e(1) this(2,3) e(2)] have "u_spendable_height u = 4" by (simp add: h demo_cfg_def)
  then show ?thesis using e by simp
qed

text \<open>
  Claim C8. Stake votes and slashes: an accepted block at a height with staking carries votes of pairwise
  different tickets, all drawn for this block, all on its parent, all signed with the key of the live
  ticket; when enough tickets are eligible the approving ones reach the quorum; and no ticket convicted
  by the evidence in the block is live afterwards.
\<close>

theorem block_votes_and_slashes:
  assumes "chain_run ce st" and "add_block ce now st b = (Inr (), st')" and "staking_active_at ce (hd_height (header b))"
  shows "distinct (map ticket_id (votes b))
    \<and> set (map ticket_id (votes b)) \<subseteq> set (selected_tickets_for_next_block ce st)
    \<and> (\<forall>v\<in>set (votes b). voted_height v = height st \<and> voted_hash v = hash_block_header (ce_cr ce) (header (tip st))
         \<and> (\<exists>t. ticket st (ticket_id v) = Some t \<and> vote_signature_ok ce (ticket_with_key st t) v))
    \<and> (stake_votes_required_for_next_block ce st \<longrightarrow> unat (stake_vote_quorum (ce_cfg ce)) \<le> length (filter approve (votes b)))
    \<and> (\<forall>ev\<in>set (slashes b). ticket st' (ticket_id (ev_a ev)) = None)"
  using assms(2) chain_run_idle [OF assms(1)]
proof (cases rule: add_block_cases)
  case (accepted s s1 cb rest t f m)
  have h: "hd_height (header b) - 1 = height st" "hd_height (header b) = height st + 1"
    "hd_previous_hash (header b) = hash_block_header (ce_cr ce) (header (tip st))"
    using header_linked [OF accepted(2)] by (simp_all add: linked_def height_def)
  have vb: "validate_block_staking ce st b = Inr ()" by (rule validate_block_transactions_ok [OF accepted(3)])
  obtain owners where "check_slashes ce st {} (slashes b) = Inr ()" and
    o: "check_votes ce st (height st) (hash_block_header (ce_cr ce) (header (tip st)))
       (select_tickets (ce_cr ce) (eligible_tickets_at ce st (height st)) (hash_block_header (ce_cr ce) (header (tip st)))
          (stake_votes_per_block (ce_cfg ce))) {} (votes b) = Inr owners"
    and q: "unat (stake_min_live_tickets (ce_cfg ce)) \<le> length (eligible_tickets_at ce st (height st))
       \<Longrightarrow> unat (stake_vote_quorum (ce_cfg ce)) \<le> length owners"
    using block_staking_ok [OF vb assms(3), unfolded h(1,3)] by metis
  have sel: "selected_tickets_for_next_block ce st = select_tickets (ce_cr ce) (eligible_tickets_at ce st (height st))
      (hash_block_header (ce_cr ce) (header (tip st))) (stake_votes_per_block (ce_cfg ce))"
    using assms(3) h(2) by (simp add: selected_tickets_for_next_block_def)
  have "ticket st' (ticket_id (ev_a ev)) = None" if "ev \<in> set (slashes b)" for ev
    using slashes_tickets [of "s\<lparr>total_fees_last_block := f\<rparr>" "slashes b" "ticket_id (ev_a ev)"] that accepted(13,14)
    by (simp add: ticket_def)
  then show ?thesis
    using check_votes_ok [OF o] q by (auto simp: sel stake_votes_required_for_next_block_def)
qed simp

theorem block_votes_and_slashes_witness: "distinct (map ticket_id (votes demo_block))"
proof -
  have "staking_active_at demo_ce (hd_height (header demo_block))"
    by (simp add: staking_active_at_def demo_cfg_def demo_block_def demo_header_def)
  from block_votes_and_slashes [OF chain_run.start demo_accepts this] show ?thesis by blast
qed

text \<open>
  Claim C10. The shielded pool of the chain: the nullifiers of all bundles in a reachable chain are
  pairwise different, the spent set is exactly the set of these nullifiers, and the commitment tree
  holds exactly their commitments in chain order.
\<close>

theorem chain_shielded_no_double_spend:
  assumes "chain_run ce st"
  shows "distinct (concat (map nullifiers (bundles_of (chain_txs st))))
    \<and> sh_nfs (shielded_st st) = hex32 ` set (concat (map nullifiers (bundles_of (chain_txs st))))
    \<and> leaves (sh_tree (shielded_st st)) = concat (map commitments (bundles_of (chain_txs st)))"
  using shield_run_inv [of "ce_sh ce"] pool.always [OF assms] unfolding pool_inv_def by blast

theorem chain_shielded_no_double_spend_witness: "sh_nfs (shielded_st demo_first) = {}"
proof -
  have "blocks demo_first = blocks (Chain_reset demo_ce) @ [demo_block]"
    by (rule add_block_appends [OF demo_accepts Chain_reset_idle])
  then have "bundles_of (chain_txs demo_first) = []"
    by (simp add: chain_txs_def Chain_reset_def Let_def make_genesis_def demo_block_def tx_bundles_def demo_coinbase_def demo_spend_def)
  with chain_shielded_no_double_spend [OF demo_run] show ?thesis by simp
qed

end
