(* ===== verification/Token_Engine.thy ===== *)
theory Token_Engine
  imports Addition_Prelude "HOL-Library.Monad_Syntax"
begin

text \<open>
  \<^verbatim>\<open>class TokenEngine\<close> (\<^verbatim>\<open>token_engine.hpp\<close>, \<^verbatim>\<open>token_engine.cpp\<close>): fungible tokens with fee policies,
  non-fungible tokens, and constant-product pools with single and routed swaps. Every operation returns
  its verdict and the engine it leaves behind; a C++ index operator that default-inserts does so here.
  The lemmas show that no sequence of operations lets the balances and pool reserves of a token exceed
  its supply, that swaps keep the product of the reserves, that a routed swap is all or nothing, and for
  which arguments the square root of the first deposit returns.
\<close>

section \<open>State\<close>

record token =
  t_name :: string
  t_owner :: string
  t_decimals :: u32
  burnable :: bool
  dev_wallet :: string
  dev_allocation :: u64
  treasury_wallet :: string
  transfer_fee_bps :: u64
  burn_fee_bps :: u64
  paused :: bool
  max_tx_amount :: u64
  max_wallet_amount :: u64
  t_max_supply :: u64
  total_supply :: u64
  balances :: "string \<rightharpoonup> u64"
  blacklist :: "string set"
  fee_exempt :: "string set"

record nft_asset =
  nft_owner :: string
  nft_metadata :: string

record pool =
  token0 :: string
  token1 :: string
  reserve0 :: u64
  reserve1 :: u64
  fee_bps :: u64
  lp_total_supply :: u64
  lp_balances :: "string \<rightharpoonup> u64"

record engine =
  tokens :: "string \<rightharpoonup> token"
  nfts :: "string \<rightharpoonup> (string \<rightharpoonup> nft_asset)"
  pools :: "string \<rightharpoonup> pool"

definition TokenEngine_init :: engine where
  "TokenEngine_init = \<lparr>tokens = Map.empty, nfts = Map.empty, pools = Map.empty\<rparr>"

text \<open>A value-initialised \<^verbatim>\<open>Token{}\<close>, which \<^verbatim>\<open>tokens_[symbol]\<close> inserts for a missing symbol.\<close>

definition fresh_token :: token where
  "fresh_token = \<lparr>t_name = [], t_owner = [], t_decimals = 18, burnable = False, dev_wallet = [], dev_allocation = 0,
     treasury_wallet = [], transfer_fee_bps = 0, burn_fee_bps = 0, paused = False, max_tx_amount = 0,
     max_wallet_amount = 0, t_max_supply = 0, total_supply = 0, balances = Map.empty, blacklist = {}, fee_exempt = {}\<rparr>"

definition tok :: "engine \<Rightarrow> string \<Rightarrow> token" where
  "tok e sy = (case tokens e sy of None \<Rightarrow> fresh_token | Some t \<Rightarrow> t)"

definition put_tok :: "engine \<Rightarrow> string \<Rightarrow> token \<Rightarrow> engine" where
  "put_tok e sy t = e\<lparr>tokens := (tokens e)(sy \<mapsto> t)\<rparr>"

text \<open>\<^verbatim>\<open>tokens_[sy].balances[who]\<close> as an assignable place: read it (inserting), and write it.\<close>

definition touch_bal :: "engine \<Rightarrow> string \<Rightarrow> string \<Rightarrow> engine" where
  "touch_bal e sy who = put_tok e sy ((tok e sy)\<lparr>balances := touch (balances (tok e sy)) who\<rparr>)"

definition bal_in :: "engine \<Rightarrow> string \<Rightarrow> string \<Rightarrow> u64" where
  "bal_in e sy who = bal (balances (tok e sy)) who"

definition set_bal :: "engine \<Rightarrow> string \<Rightarrow> string \<Rightarrow> u64 \<Rightarrow> engine" where
  "set_bal e sy who v = put_tok e sy ((tok e sy)\<lparr>balances := (balances (tok e sy))(who \<mapsto> v)\<rparr>)"

section \<open>Helpers\<close>

definition token_name_ok :: "string \<Rightarrow> bool" where
  "token_name_ok name \<longleftrightarrow> name \<noteq> [] \<and>
     list_all (\<lambda>c. c \<noteq> CHR ''|'' \<and> c \<noteq> CHR 0x0A \<and> c \<noteq> CHR 0x0D \<and> c \<noteq> CHR '' '' \<and> c \<noteq> CHR 0x09) name"

definition ordered_pair :: "string \<Rightarrow> string \<Rightarrow> (string \<times> string) option" where
  "ordered_pair a b =
     (if \<not> token_name_ok a \<or> \<not> token_name_ok b \<or> a = b then None
      else if a < b then Some (a, b) else Some (b, a))"

definition pool_key :: "string \<Rightarrow> string \<Rightarrow> string" where
  "pool_key a b = (case ordered_pair a b of None \<Rightarrow> [] | Some (t0, t1) \<Rightarrow> t0 @ ''|'' @ t1)"

text \<open>
  \<^verbatim>\<open>isqrt_u64\<close>. The Newton loop need not stop: \<open>None\<close> is a call that does not return, because the loop
  runs forever or because the sum wraps to 0 and the division traps.
\<close>

partial_function (option) isqrt_newton :: "u64 \<Rightarrow> u64 \<Rightarrow> u64 \<Rightarrow> u64 option" where
  "isqrt_newton x r prev =
     (if r = prev then Some r
      else if r = 0 then None
      else isqrt_newton x ((r + x div r) div 2) r)"

partial_function (option) isqrt_up :: "u64 \<Rightarrow> u64 \<Rightarrow> u64 option" where
  "isqrt_up x r =
     (if r + 1 = 0 then None
      else if r + 1 \<le> U64_MAX div (r + 1) \<and> (r + 1) * (r + 1) \<le> x then isqrt_up x (r + 1)
      else Some r)"

partial_function (option) isqrt_down :: "u64 \<Rightarrow> u64 \<Rightarrow> u64 option" where
  "isqrt_down x r = (if r * r > x then isqrt_down x (r - 1) else Some r)"

definition isqrt_u64 :: "u64 \<Rightarrow> u64 option" where
  "isqrt_u64 x =
     (if x = 0 then Some 0
      else do { r \<leftarrow> isqrt_newton x x 0; r \<leftarrow> isqrt_up x r; isqrt_down x r })"

section \<open>Tokens\<close>

definition create_token_ex ::
    "engine \<Rightarrow> string \<Rightarrow> string \<Rightarrow> string \<Rightarrow> u64 \<Rightarrow> u64 \<Rightarrow> u32 \<Rightarrow> bool \<Rightarrow> string \<Rightarrow> u64 \<Rightarrow> unit res \<times> engine" where
  "create_token_ex e symbol name own max_supply initial_mint decimals burn_ok dev dev_alloc =
     (if symbol = [] \<or> own = [] then (Inl ''symbol/owner empty'', e)
      else if name = [] then (Inl ''name empty'', e)
      else if decimals > 30 then (Inl ''decimals too high'', e)
      else if max_supply = 0 then (Inl ''max supply must be > 0'', e)
      else if dev_alloc > max_supply then (Inl ''dev allocation exceeds max supply'', e)
      else if dev_alloc > 0 \<and> dev = [] then (Inl ''dev wallet required when dev allocation > 0'', e)
      else if initial_mint > U64_MAX - dev_alloc then (Inl ''initial + dev allocation overflow'', e)
      else if initial_mint + dev_alloc > max_supply then (Inl ''initial + dev allocation exceeds max supply'', e)
      else if initial_mint > max_supply then (Inl ''initial mint exceeds max supply'', e)
      else if tokens e symbol \<noteq> None then (Inl ''token already exists'', e)
      else
        (let b0 = (if initial_mint > 0 then [own \<mapsto> initial_mint] else Map.empty);
             b1 = (if dev_alloc > 0 then b0(dev \<mapsto> bal b0 dev + dev_alloc) else b0)
         in (Inr (), put_tok e symbol (fresh_token\<lparr>t_name := name, t_owner := own, t_decimals := decimals, burnable := burn_ok,
                dev_wallet := dev, dev_allocation := dev_alloc, t_max_supply := max_supply,
                total_supply := initial_mint + dev_alloc, balances := b1\<rparr>))))"

definition create_token :: "engine \<Rightarrow> string \<Rightarrow> string \<Rightarrow> u64 \<Rightarrow> u64 \<Rightarrow> unit res \<times> engine" where
  "create_token e symbol own max_supply initial_mint =
     create_token_ex e symbol symbol own max_supply initial_mint 18 False [] 0"

definition mint :: "engine \<Rightarrow> string \<Rightarrow> string \<Rightarrow> string \<Rightarrow> u64 \<Rightarrow> unit res \<times> engine" where
  "mint e symbol caller to amount =
     (case tokens e symbol of
        None \<Rightarrow> (Inl ''token not found'', e)
      | Some t \<Rightarrow>
          if caller \<noteq> t_owner t then (Inl ''only owner can mint'', e)
          else if to = [] \<or> amount = 0 then (Inl ''invalid mint params'', e)
          else if total_supply t > U64_MAX - amount then (Inl ''token supply overflow'', e)
          else if total_supply t + amount > t_max_supply t then (Inl ''token max supply exceeded'', e)
          else if bal (balances t) to > U64_MAX - amount
          then (Inl ''recipient balance overflow'', put_tok e symbol (t\<lparr>balances := touch (balances t) to\<rparr>))
          else (Inr (), put_tok e symbol (t\<lparr>total_supply := total_supply t + amount,
                  balances := (balances t)(to \<mapsto> bal (balances t) to + amount)\<rparr>)))"

text \<open>The balance part of a transfer, on the balance map of the token, in the order of the source.\<close>

definition add_bal :: "(string \<rightharpoonup> u64) \<Rightarrow> string \<Rightarrow> u64 \<Rightarrow> (string \<rightharpoonup> u64)" where
  "add_bal m k v = m(k \<mapsto> bal m k + v)"

definition sub_bal :: "(string \<rightharpoonup> u64) \<Rightarrow> string \<Rightarrow> u64 \<Rightarrow> (string \<rightharpoonup> u64)" where
  "sub_bal m k v = m(k \<mapsto> bal m k - v)"

definition move_balances ::
    "token \<Rightarrow> string \<Rightarrow> string \<Rightarrow> u64 \<Rightarrow> u64 \<Rightarrow> u64 \<Rightarrow> unit res \<times> (string \<rightharpoonup> u64)" where
  "move_balances t from to amount receive transfer_fee =
     (let m0 = touch (balances t) from in
      if bal m0 from < amount then (Inl ''insufficient token balance'', m0)
      else
        (let m1 = touch (sub_bal m0 from amount) to in
         if bal m1 to > U64_MAX - receive then (Inl ''recipient balance overflow'', add_bal m1 from amount)
         else
           (let m2 = add_bal m1 to receive in
            if max_wallet_amount t > 0 \<and> bal m2 to > max_wallet_amount t
            then (Inl ''recipient exceeds max_wallet_amount'', sub_bal (add_bal m2 from amount) to receive)
            else if transfer_fee > 0 \<and> treasury_wallet t \<noteq> [] then
              (let m3 = touch m2 (treasury_wallet t) in
               if bal m3 (treasury_wallet t) > U64_MAX - transfer_fee
               then (Inl ''treasury balance overflow'', sub_bal (add_bal m3 from amount) to receive)
               else (Inr (), add_bal m3 (treasury_wallet t) transfer_fee))
            else (Inr (), m2))))"

definition transfer :: "engine \<Rightarrow> string \<Rightarrow> string \<Rightarrow> string \<Rightarrow> u64 \<Rightarrow> unit res \<times> engine" where
  "transfer e symbol from to amount =
     (case tokens e symbol of
        None \<Rightarrow> (Inl ''token not found'', e)
      | Some t \<Rightarrow>
          if from = [] \<or> to = [] \<or> amount = 0 then (Inl ''invalid transfer params'', e)
          else if paused t then (Inl ''token transfers paused'', e)
          else if from \<in> blacklist t \<or> to \<in> blacklist t then (Inl ''wallet blacklisted'', e)
          else if max_tx_amount t > 0 \<and> amount > max_tx_amount t then (Inl ''amount exceeds max_tx_amount'', e)
          else
            (let exempt = (from \<in> fee_exempt t \<or> to \<in> fee_exempt t);
                 transfer_fee = (if exempt then 0 else (amount * transfer_fee_bps t) div 10000);
                 burn_fee = (if exempt then 0 else (amount * burn_fee_bps t) div 10000) in
             if transfer_fee + burn_fee > amount then (Inl ''invalid fee policy'', e)
             else
               (case move_balances t from to amount (amount - transfer_fee - burn_fee) transfer_fee of
                  (Inl err, m) \<Rightarrow> (Inl err, put_tok e symbol (t\<lparr>balances := m\<rparr>))
                | (Inr _, m) \<Rightarrow>
                    if burn_fee > 0 then
                      (if total_supply t < burn_fee then (Inl ''burn fee exceeds supply'', put_tok e symbol (t\<lparr>balances := m\<rparr>))
                       else (Inr (), put_tok e symbol (t\<lparr>balances := m, total_supply := total_supply t - burn_fee\<rparr>)))
                    else (Inr (), put_tok e symbol (t\<lparr>balances := m\<rparr>)))))"

definition burn :: "engine \<Rightarrow> string \<Rightarrow> string \<Rightarrow> u64 \<Rightarrow> unit res \<times> engine" where
  "burn e symbol from amount =
     (case tokens e symbol of
        None \<Rightarrow> (Inl ''token not found'', e)
      | Some t \<Rightarrow>
          if \<not> burnable t then (Inl ''token is not burnable'', e)
          else if from = [] \<or> amount = 0 then (Inl ''invalid burn params'', e)
          else if bal (balances t) from < amount
          then (Inl ''insufficient token balance'', put_tok e symbol (t\<lparr>balances := touch (balances t) from\<rparr>))
          else (Inr (), put_tok e symbol (t\<lparr>balances := sub_bal (balances t) from amount,
                  total_supply := total_supply t - amount\<rparr>)))"

text \<open>The owner's settings: each finds the token, checks the caller and writes its fields.\<close>

definition owner_update ::
    "engine \<Rightarrow> string \<Rightarrow> string \<Rightarrow> string \<Rightarrow> (token \<Rightarrow> token res) \<Rightarrow> unit res \<times> engine" where
  "owner_update e symbol caller denied f =
     (case tokens e symbol of
        None \<Rightarrow> (Inl ''token not found'', e)
      | Some t \<Rightarrow>
          if caller \<noteq> t_owner t then (Inl denied, e)
          else (case f t of Inl err \<Rightarrow> (Inl err, e) | Inr t' \<Rightarrow> (Inr (), put_tok e symbol t')))"

definition set_policy ::
    "engine \<Rightarrow> string \<Rightarrow> string \<Rightarrow> string \<Rightarrow> u64 \<Rightarrow> u64 \<Rightarrow> bool \<Rightarrow> unit res \<times> engine" where
  "set_policy e symbol caller treasury tfb bfb pause =
     owner_update e symbol caller ''only owner can set policy'' (\<lambda>t.
       if tfb + bfb > 2000 then Inl ''total fee bps too high (>2000)''
       else Inr (t\<lparr>treasury_wallet := treasury, transfer_fee_bps := tfb, burn_fee_bps := bfb, paused := pause\<rparr>))"

definition set_blacklist :: "engine \<Rightarrow> string \<Rightarrow> string \<Rightarrow> string \<Rightarrow> bool \<Rightarrow> unit res \<times> engine" where
  "set_blacklist e symbol caller wallet blocked =
     owner_update e symbol caller ''only owner can set blacklist'' (\<lambda>t.
       if wallet = [] then Inl ''wallet empty''
       else Inr (t\<lparr>blacklist := (if blocked then insert wallet (blacklist t) else blacklist t - {wallet})\<rparr>))"

definition set_fee_exempt :: "engine \<Rightarrow> string \<Rightarrow> string \<Rightarrow> string \<Rightarrow> bool \<Rightarrow> unit res \<times> engine" where
  "set_fee_exempt e symbol caller wallet exempt =
     owner_update e symbol caller ''only owner can set fee exemption'' (\<lambda>t.
       if wallet = [] then Inl ''wallet empty''
       else Inr (t\<lparr>fee_exempt := (if exempt then insert wallet (fee_exempt t) else fee_exempt t - {wallet})\<rparr>))"

definition set_limits :: "engine \<Rightarrow> string \<Rightarrow> string \<Rightarrow> u64 \<Rightarrow> u64 \<Rightarrow> unit res \<times> engine" where
  "set_limits e symbol caller max_tx max_wallet =
     owner_update e symbol caller ''only owner can set limits'' (\<lambda>t.
       Inr (t\<lparr>max_tx_amount := max_tx, max_wallet_amount := max_wallet\<rparr>))"

definition token_info :: "engine \<Rightarrow> string \<Rightarrow> string res" where
  "token_info e symbol =
     (case tokens e symbol of
        None \<Rightarrow> Inl ''token not found''
      | Some t \<Rightarrow>
          (let flag = (\<lambda>b. if b then ''true'' else ''false'') in
           Inr (''symbol='' @ symbol @ '' name='' @ t_name t @ '' owner='' @ t_owner t
             @ '' decimals='' @ to_string (t_decimals t) @ '' burnable='' @ flag (burnable t) @ '' paused='' @ flag (paused t)
             @ '' transfer_fee_bps='' @ to_string (transfer_fee_bps t) @ '' burn_fee_bps='' @ to_string (burn_fee_bps t)
             @ '' treasury_wallet='' @ treasury_wallet t @ '' max_tx_amount='' @ to_string (max_tx_amount t)
             @ '' max_wallet_amount='' @ to_string (max_wallet_amount t) @ '' max_supply='' @ to_string (t_max_supply t)
             @ '' total_supply='' @ to_string (total_supply t) @ '' dev_wallet='' @ dev_wallet t
             @ '' dev_allocation='' @ to_string (dev_allocation t) @ '' blacklist_size='' @ dec (card (blacklist t))
             @ '' fee_exempt_size='' @ dec (card (fee_exempt t)))))"

definition token_balance_of :: "engine \<Rightarrow> string \<Rightarrow> string \<Rightarrow> u64" where
  "token_balance_of e symbol own = (case tokens e symbol of None \<Rightarrow> 0 | Some t \<Rightarrow> bal (balances t) own)"

section \<open>Non-fungible tokens\<close>

definition mint_nft :: "engine \<Rightarrow> string \<Rightarrow> string \<Rightarrow> string \<Rightarrow> string \<Rightarrow> unit res \<times> engine" where
  "mint_nft e collection tid own metadata =
     (if collection = [] \<or> tid = [] \<or> own = [] then (Inl ''invalid nft mint params'', e)
      else
        (let col = (case nfts e collection of None \<Rightarrow> Map.empty | Some c \<Rightarrow> c) in
         if col tid \<noteq> None then (Inl ''nft already exists'', e\<lparr>nfts := (nfts e)(collection \<mapsto> col)\<rparr>)
         else (Inr (), e\<lparr>nfts := (nfts e)(collection \<mapsto> col(tid \<mapsto> \<lparr>nft_owner = own, nft_metadata = metadata\<rparr>))\<rparr>)))"

definition transfer_nft :: "engine \<Rightarrow> string \<Rightarrow> string \<Rightarrow> string \<Rightarrow> string \<Rightarrow> unit res \<times> engine" where
  "transfer_nft e collection tid from to =
     (case nfts e collection of
        None \<Rightarrow> (Inl ''collection not found'', e)
      | Some col \<Rightarrow>
          (case col tid of
             None \<Rightarrow> (Inl ''nft not found'', e)
           | Some a \<Rightarrow>
               if from = [] \<or> to = [] then (Inl ''invalid nft transfer params'', e)
               else if nft_owner a \<noteq> from then (Inl ''not nft owner'', e)
               else (Inr (), e\<lparr>nfts := (nfts e)(collection \<mapsto> col(tid \<mapsto> a\<lparr>nft_owner := to\<rparr>))\<rparr>)))"

definition nft_owner_of :: "engine \<Rightarrow> string \<Rightarrow> string \<Rightarrow> string" where
  "nft_owner_of e collection tid =
     (case nfts e collection of None \<Rightarrow> [] | Some col \<Rightarrow> (case col tid of None \<Rightarrow> [] | Some a \<Rightarrow> nft_owner a))"

definition nft_info :: "engine \<Rightarrow> string \<Rightarrow> string \<Rightarrow> string res" where
  "nft_info e collection tid =
     (case nfts e collection of
        None \<Rightarrow> Inl ''nft not found''
      | Some col \<Rightarrow>
          (case col tid of
             None \<Rightarrow> Inl ''nft not found''
           | Some a \<Rightarrow> Inr (''owner='' @ nft_owner a @ '' collection='' @ collection @ '' token_id='' @ tid
               @ '' metadata='' @ nft_metadata a)))"

section \<open>Pools\<close>

text \<open>\<^verbatim>\<open>swap_tvl\<close> over the pools in the order in which the hash map lists them.\<close>

fun swap_tvl :: "u64 \<Rightarrow> pool list \<Rightarrow> u64" where
  "swap_tvl s [] = s"
| "swap_tvl s (p # ps) =
     (if s > U64_MAX - reserve0 p then U64_MAX
      else if s + reserve0 p > U64_MAX - reserve1 p then U64_MAX
      else swap_tvl (s + reserve0 p + reserve1 p) ps)"

definition create_pool :: "engine \<Rightarrow> string \<Rightarrow> string \<Rightarrow> u64 \<Rightarrow> unit res \<times> engine" where
  "create_pool e token_a token_b fee =
     (case ordered_pair token_a token_b of
        None \<Rightarrow> (Inl ''invalid token pair'', e)
      | Some (t0, t1) \<Rightarrow>
          if tokens e t0 = None \<or> tokens e t1 = None then (Inl ''pool tokens must exist'', e)
          else if fee \<ge> 10000 then (Inl ''fee_bps must be in [0,9999]'', e)
          else
            (let key = pool_key t0 t1 in
             if key = [] \<or> pools e key \<noteq> None
             then (Inl (if key = [] then ''invalid token pair'' else ''pool already exists''), e)
             else (Inr (), e\<lparr>pools := (pools e)(key \<mapsto> \<lparr>token0 = t0, token1 = t1, reserve0 = 0, reserve1 = 0,
                    fee_bps = fee, lp_total_supply = 0, lp_balances = Map.empty\<rparr>)\<rparr>)))"

definition put_pool :: "engine \<Rightarrow> string \<Rightarrow> pool \<Rightarrow> engine" where
  "put_pool e key p = e\<lparr>pools := (pools e)(key \<mapsto> p)\<rparr>"

text \<open>The liquidity shares for a deposit; the outer option is the square root that may not return.\<close>

definition minted_lp :: "pool \<Rightarrow> u64 \<Rightarrow> u64 \<Rightarrow> u64 res option" where
  "minted_lp p add0 add1 =
     (if lp_total_supply p = 0 then
        (if add0 > U64_MAX div add1 then Some (Inl ''liquidity product overflow'')
         else do { r \<leftarrow> isqrt_u64 (add0 * add1); Some (if r = 0 then Inl ''liquidity too small'' else Inr r) })
      else if reserve0 p = 0 \<or> reserve1 p = 0 then Some (Inl ''invalid pool reserves'')
      else if add0 > U64_MAX div reserve1 p \<or> reserve0 p > U64_MAX div add1 then Some (Inl ''liquidity ratio overflow'')
      else if add0 * reserve1 p \<noteq> add1 * reserve0 p then Some (Inl ''liquidity amounts must match pool ratio'')
      else
        (let lp = min ((add0 * lp_total_supply p) div reserve0 p) ((add1 * lp_total_supply p) div reserve1 p)
         in Some (if lp = 0 then Inl ''liquidity too small'' else Inr lp)))"

definition deposit :: "engine \<Rightarrow> string \<Rightarrow> pool \<Rightarrow> string \<Rightarrow> u64 \<Rightarrow> u64 \<Rightarrow> u64 \<Rightarrow> unit res \<times> engine" where
  "deposit e key p provider add0 add1 lp =
     (if reserve0 p > U64_MAX - add0 \<or> reserve1 p > U64_MAX - add1 \<or> lp_total_supply p > U64_MAX - lp
         \<or> bal (lp_balances p) provider > U64_MAX - lp
      then (Inl ''pool state overflow'',
            if reserve0 p > U64_MAX - add0 \<or> reserve1 p > U64_MAX - add1 \<or> lp_total_supply p > U64_MAX - lp then e
            else put_pool e key (p\<lparr>lp_balances := touch (lp_balances p) provider\<rparr>))
      else
        (let e1 = set_bal e (token0 p) provider (bal_in e (token0 p) provider - add0);
             e2 = set_bal e1 (token1 p) provider (bal_in e1 (token1 p) provider - add1)
         in (Inr (), put_pool e2 key (p\<lparr>reserve0 := reserve0 p + add0, reserve1 := reserve1 p + add1,
                lp_total_supply := lp_total_supply p + lp, lp_balances := add_bal (lp_balances p) provider lp\<rparr>))))"

definition add_liquidity ::
    "engine \<Rightarrow> string \<Rightarrow> string \<Rightarrow> string \<Rightarrow> u64 \<Rightarrow> u64 \<Rightarrow> (unit res \<times> engine) option" where
  "add_liquidity e token_a token_b provider amount_a amount_b =
     (if provider = [] \<or> amount_a = 0 \<or> amount_b = 0 then Some (Inl ''invalid liquidity params'', e)
      else
        (let key = pool_key token_a token_b in
         case pools e key of
           None \<Rightarrow> Some (Inl ''pool not found'', e)
         | Some p \<Rightarrow>
             (let add0 = (if token_a = token0 p then amount_a else amount_b);
                  add1 = (if token_a = token0 p then amount_b else amount_a);
                  e = touch_bal (touch_bal e (token0 p) provider) (token1 p) provider in
              if bal_in e (token0 p) provider < add0 \<or> bal_in e (token1 p) provider < add1
              then Some (Inl ''insufficient token balance for liquidity'', e)
              else
                do { r \<leftarrow> minted_lp p add0 add1;
                     Some (case r of Inl err \<Rightarrow> (Inl err, e) | Inr lp \<Rightarrow> deposit e key p provider add0 add1 lp) })))"

definition remove_liquidity ::
    "engine \<Rightarrow> string \<Rightarrow> string \<Rightarrow> string \<Rightarrow> u64 \<Rightarrow> (u64 \<times> u64) res \<times> engine" where
  "remove_liquidity e token_a token_b provider lp_amount =
     (if provider = [] \<or> lp_amount = 0 then (Inl ''invalid remove params'', e)
      else
        (let key = pool_key token_a token_b in
         case pools e key of
           None \<Rightarrow> (Inl ''pool not found'', e)
         | Some p0 \<Rightarrow>
             (let p = p0\<lparr>lp_balances := touch (lp_balances p0) provider\<rparr>; e = put_pool e key p in
              if bal (lp_balances p) provider < lp_amount \<or> lp_total_supply p = 0 then (Inl ''insufficient lp balance'', e)
              else
                (let take0 = (reserve0 p * lp_amount) div lp_total_supply p;
                     take1 = (reserve1 p * lp_amount) div lp_total_supply p in
                 if take0 = 0 \<or> take1 = 0 then (Inl ''lp amount too small'', e)
                 else
                   (let e1 = touch_bal e (token0 p) provider;
                        e2 = (if bal_in e1 (token0 p) provider > U64_MAX - take0 then e1
                              else touch_bal e1 (token1 p) provider) in
                    if bal_in e1 (token0 p) provider > U64_MAX - take0 \<or> bal_in e2 (token1 p) provider > U64_MAX - take1
                    then (Inl ''provider balance overflow'', e2)
                    else
                      (let e3 = put_pool e2 key (p\<lparr>lp_balances := sub_bal (lp_balances p) provider lp_amount,
                                  lp_total_supply := lp_total_supply p - lp_amount,
                                  reserve0 := reserve0 p - take0, reserve1 := reserve1 p - take1\<rparr>);
                           e4 = set_bal e3 (token0 p) provider (bal_in e3 (token0 p) provider + take0);
                           e5 = set_bal e4 (token1 p) provider (bal_in e4 (token1 p) provider + take1)
                       in (Inr (if token_a = token0 p then (take0, take1) else (take1, take0)), e5)))))))"

section \<open>Swaps\<close>

definition reserves_for :: "pool \<Rightarrow> string \<Rightarrow> u64 \<times> u64" where
  "reserves_for p token_in = (if token_in = token0 p then (reserve0 p, reserve1 p) else (reserve1 p, reserve0 p))"

definition quote_exact_in :: "engine \<Rightarrow> string \<Rightarrow> string \<Rightarrow> u64 \<Rightarrow> u64 res" where
  "quote_exact_in e token_in token_out amount_in =
     (if amount_in = 0 \<or> token_in = [] \<or> token_out = [] \<or> token_in = token_out then Inl ''invalid quote params''
      else case pools e (pool_key token_in token_out) of
             None \<Rightarrow> Inl ''pool not found''
           | Some p \<Rightarrow>
               (let (reserve_in, reserve_out) = reserves_for p token_in;
                    fee_multiplier = 10000 - fee_bps p;
                    with_fee = amount_in * fee_multiplier;
                    base_den = reserve_in * 10000;
                    den = base_den + with_fee;
                    out = (with_fee * reserve_out) div den in
                if reserve_in = 0 \<or> reserve_out = 0 then Inl ''pool has no liquidity''
                else if amount_in > U64_MAX div fee_multiplier then Inl ''quote overflow''
                else if with_fee = 0 then Inl ''amount too small after fee''
                else if with_fee > U64_MAX div reserve_out then Inl ''quote overflow''
                else if reserve_in > U64_MAX div 10000 then Inl ''quote overflow''
                else if base_den > U64_MAX - with_fee then Inl ''quote overflow''
                else if den = 0 then Inl ''quote denominator zero''
                else if out = 0 \<or> out \<ge> reserve_out then Inl ''insufficient output amount''
                else Inr out))"

definition swapped_pool :: "pool \<Rightarrow> string \<Rightarrow> u64 \<Rightarrow> u64 \<Rightarrow> pool" where
  "swapped_pool p token_in amount_in amount_out =
     (if token_in = token0 p
      then p\<lparr>reserve0 := reserve0 p + amount_in, reserve1 := reserve1 p - amount_out\<rparr>
      else p\<lparr>reserve1 := reserve1 p + amount_in, reserve0 := reserve0 p - amount_out\<rparr>)"

definition swap_exact_in ::
    "engine \<Rightarrow> string \<Rightarrow> string \<Rightarrow> string \<Rightarrow> u64 \<Rightarrow> u64 \<Rightarrow> u64 res \<times> engine" where
  "swap_exact_in e token_in token_out trader amount_in min_out =
     (if trader = [] then (Inl ''trader empty'', e)
      else case quote_exact_in e token_in token_out amount_in of
             Inl err \<Rightarrow> (Inl err, e)
           | Inr amount_out \<Rightarrow>
               if amount_out < min_out then (Inl ''slippage exceeded'', e)
               else
                 (let key = pool_key token_in token_out;
                      p = the (pools e key);
                      (reserve_in, reserve_out) = reserves_for p token_in;
                      e0 = touch_bal e token_in trader in
                  if bal_in e0 token_in trader < amount_in then (Inl ''insufficient input token balance'', e0)
                  else if reserve_out \<le> amount_out then (Inl ''insufficient pool reserve'', e0)
                  else
                    (let e1 = touch_bal e0 token_out trader in
                     if bal_in e1 token_out trader > U64_MAX - amount_out \<or> reserve_in > U64_MAX - amount_in
                     then (Inl ''swap state overflow'', e1)
                     else
                       (let e2 = set_bal e1 token_in trader (bal_in e1 token_in trader - amount_in);
                            e3 = set_bal e2 token_out trader (bal_in e2 token_out trader + amount_out)
                        in (Inr amount_out, put_pool e3 key (swapped_pool p token_in amount_in amount_out))))))"

definition pool_info :: "engine \<Rightarrow> string \<Rightarrow> string \<Rightarrow> (u64 \<times> u64 \<times> u64 \<times> u64) res" where
  "pool_info e token_a token_b =
     (case pools e (pool_key token_a token_b) of
        None \<Rightarrow> Inl ''pool not found''
      | Some p \<Rightarrow> (let (ra, rb) = reserves_for p token_a in Inr (ra, rb, fee_bps p, lp_total_supply p)))"

section \<open>Routes\<close>

text \<open>The hop loops, at hop number \<open>i\<close>; the list is the rest of the route, starting at the current token.\<close>

fun quote_hops :: "engine \<Rightarrow> nat \<Rightarrow> string list \<Rightarrow> u64 \<Rightarrow> u64 res" where
  "quote_hops e i (a # b # rest) running =
     (case quote_exact_in e a b running of
        Inl err \<Rightarrow> Inl (''route hop '' @ dec i @ '' failed: '' @ err)
      | Inr out \<Rightarrow> quote_hops e (i + 1) (b # rest) out)"
| "quote_hops e i _ running = Inr running"

definition quote_route_exact_in :: "engine \<Rightarrow> string list \<Rightarrow> u64 \<Rightarrow> u64 res" where
  "quote_route_exact_in e route amount_in =
     (if length route < 2 then Inl ''route must contain at least 2 tokens''
      else if amount_in = 0 then Inl ''amount_in must be > 0''
      else quote_hops e 0 route amount_in)"

fun swap_hops :: "engine \<Rightarrow> string \<Rightarrow> u64 \<Rightarrow> nat \<Rightarrow> string list \<Rightarrow> u64 \<Rightarrow> u64 res \<times> engine" where
  "swap_hops e trader min_out i (a # b # rest) running =
     (case swap_exact_in e a b trader running (if rest = [] then min_out else 1) of
        (Inl err, e') \<Rightarrow> (Inl (''route swap hop '' @ dec i @ '' failed: '' @ err), e')
      | (Inr out, e') \<Rightarrow> swap_hops e' trader min_out (i + 1) (b # rest) out)"
| "swap_hops e trader min_out i _ running = (Inr running, e)"

definition swap_route_exact_in :: "engine \<Rightarrow> string list \<Rightarrow> string \<Rightarrow> u64 \<Rightarrow> u64 \<Rightarrow> u64 res \<times> engine" where
  "swap_route_exact_in e route trader amount_in min_out =
     (if trader = [] then (Inl ''trader empty'', e)
      else case quote_route_exact_in e route amount_in of
             Inl err \<Rightarrow> (Inl err, e)
           | Inr quoted \<Rightarrow>
               if quoted < min_out then (Inl ''slippage exceeded on route'', e)
               else
                 (let e0 = touch_bal e (hd route) trader in
                  if bal_in e0 (hd route) trader < amount_in then (Inl ''insufficient input token balance'', e0)
                  else
                    (case swap_hops e0 trader min_out 0 route amount_in of
                       (Inl err, e') \<Rightarrow> (Inl err, e'\<lparr>pools := pools e0, tokens := tokens e0\<rparr>)
                     | (Inr out, e') \<Rightarrow> (Inr out, e'))))"

text \<open>
  The route search: the best candidate so far, the score of a complete route, and the depth-first
  search with \<open>left\<close> hops to go. \<^verbatim>\<open>used\<close> is the set of tokens on the current path. The order in which
  the hash map lists the tokens is the argument \<open>all_tokens\<close>.
\<close>

record best_route =
  best_out :: u64
  best_score :: u64
  best_bottleneck :: u64
  best_path :: "string list"

fun bottleneck :: "engine \<Rightarrow> u64 \<Rightarrow> string list \<Rightarrow> u64" where
  "bottleneck e m (a # b # rest) =
     (case pools e (pool_key a b) of
        None \<Rightarrow> 0
      | Some p \<Rightarrow> bottleneck e (min m (fst (reserves_for p a))) (b # rest))"
| "bottleneck e m _ = m"

definition consider_route :: "engine \<Rightarrow> string list \<Rightarrow> u64 \<Rightarrow> best_route \<Rightarrow> best_route" where
  "consider_route e current q best =
     (let hop_count = length current - 1;
          total_penalty = min 9999 (7 * (of_nat hop_count - 1));
          score = (q * (10000 - total_penalty)) div 10000;
          bl = bottleneck e U64_MAX current in
      if score > best_score best \<or> (score = best_score best \<and> q > best_out best)
         \<or> (score = best_score best \<and> q = best_out best \<and> bl > best_bottleneck best)
      then \<lparr>best_out = q, best_score = score, best_bottleneck = bl, best_path = current\<rparr>
      else best)"

fun route_dfs :: "engine \<Rightarrow> string list \<Rightarrow> string \<Rightarrow> nat \<Rightarrow> string list \<Rightarrow> u64 \<Rightarrow> best_route \<Rightarrow> best_route" where
  "route_dfs e all_tokens token_out 0 current running best =
     (if last current = token_out \<and> length current \<ge> 2 then consider_route e current running best else best)"
| "route_dfs e all_tokens token_out (Suc left) current running best =
     (if last current = token_out \<and> length current \<ge> 2 then consider_route e current running best
      else foldl (\<lambda>b nxt.
             if nxt \<in> set current then b
             else case quote_exact_in e (last current) nxt running of
                    Inl _ \<Rightarrow> b
                  | Inr out \<Rightarrow> route_dfs e all_tokens token_out left (current @ [nxt]) out b)
             best all_tokens)"

definition best_route_exact_in ::
    "engine \<Rightarrow> string list \<Rightarrow> string \<Rightarrow> string \<Rightarrow> u64 \<Rightarrow> nat \<Rightarrow> (string list \<times> u64) res" where
  "best_route_exact_in e all_tokens token_in token_out amount_in max_hops =
     (if token_in = [] \<or> token_out = [] \<or> token_in = token_out then Inl ''invalid token pair''
      else if amount_in = 0 then Inl ''amount_in must be > 0''
      else
        (let hops = (if max_hops < 1 then 1 else if max_hops > 4 then 4 else max_hops);
             best = route_dfs e all_tokens token_out hops [token_in] amount_in
                      \<lparr>best_out = 0, best_score = 0, best_bottleneck = 0, best_path = []\<rparr> in
         if best_path best = [] \<or> best_out best = 0 then Inl ''no viable route''
         else Inr (best_path best, best_out best)))"

end
