(* ===== verification/Token_Invariants.thy ===== *)
theory Token_Invariants
  imports Token_Engine
begin

text \<open>
  The invariant of the token engine and what every operation keeps of it. \<open>engine_ok\<close> says that the
  balances and pool reserves of a token never exceed its supply, that the supply stays below its cap,
  and that the shares of a pool add up. \<open>same_ledger\<close> relates engines that differ only in zero entries
  which the C++ index operator inserted. Each operation is reduced to three effects, a token update,
  a settlement between a wallet and a pool, and the insertion of zero entries.
\<close>

section \<open>The invariant\<close>

definition reserve_of :: "string \<Rightarrow> pool \<Rightarrow> nat" where
  "reserve_of sy p = (if token0 p = sy then unat (reserve0 p) else 0) + (if token1 p = sy then unat (reserve1 p) else 0)"

definition pooled :: "(string \<rightharpoonup> pool) \<Rightarrow> string \<Rightarrow> nat" where
  "pooled ps sy = (\<Sum>k\<in>dom ps. reserve_of sy (the (ps k)))"

definition token_ok :: "nat \<Rightarrow> token \<Rightarrow> bool" where
  "token_ok held t \<longleftrightarrow> finite (dom (balances t)) \<and> total_bal (balances t) + held \<le> unat (total_supply t)
     \<and> total_supply t \<le> t_max_supply t"

definition pool_ok :: "(string \<rightharpoonup> token) \<Rightarrow> string \<Rightarrow> pool \<Rightarrow> bool" where
  "pool_ok ts k p \<longleftrightarrow> ordered_pair (token0 p) (token1 p) = Some (token0 p, token1 p) \<and> k = pool_key (token0 p) (token1 p)
     \<and> ts (token0 p) \<noteq> None \<and> ts (token1 p) \<noteq> None \<and> fee_bps p < 10000
     \<and> finite (dom (lp_balances p)) \<and> total_bal (lp_balances p) = unat (lp_total_supply p)"

definition engine_ok :: "engine \<Rightarrow> bool" where
  "engine_ok e \<longleftrightarrow> finite (dom (pools e))
     \<and> (\<forall>sy t. tokens e sy = Some t \<longrightarrow> token_ok (pooled (pools e) sy) t)
     \<and> (\<forall>k p. pools e k = Some p \<longrightarrow> pool_ok (tokens e) k p)"

lemma engine_okD:
  assumes "engine_ok e"
  shows "finite (dom (pools e))"
    and "tokens e sy = Some t \<Longrightarrow> token_ok (pooled (pools e) sy) t"
    and "pools e k = Some p \<Longrightarrow> pool_ok (tokens e) k p"
  using assms by (auto simp: engine_ok_def)

lemma engine_okI:
  assumes "finite (dom (pools e))"
    and "\<And>sy t. tokens e sy = Some t \<Longrightarrow> token_ok (pooled (pools e) sy) t"
    and "\<And>k p. pools e k = Some p \<Longrightarrow> pool_ok (tokens e) k p"
  shows "engine_ok e"
  using assms by (auto simp: engine_ok_def)

lemma engine_ok_init: "engine_ok TokenEngine_init"
  by (simp add: engine_ok_def TokenEngine_init_def)

lemma engine_ok_nfts [simp]: "engine_ok (e\<lparr>nfts := n\<rparr>) = engine_ok e"
  by (simp add: engine_ok_def)

section \<open>Totals\<close>

lemma total_cong:
  assumes "finite (dom m)" "finite (dom m')" "bal m = bal m'"
  shows "total_bal m = total_bal m'"
  using assms total_superset [of "dom m \<union> dom m'" m] total_superset [of "dom m \<union> dom m'" m'] by simp

lemma total_add_bal:
  assumes "finite (dom m)" "unat (bal m k) + unat v < 18446744073709551616"
  shows "total_bal (add_bal m k v) = total_bal m + unat v"
  using total_upd [OF assms(1), of k "bal m k + v"] assms(2) by (simp add: add_bal_def u64_add_ok)

lemma total_sub_bal:
  assumes "finite (dom m)" "v \<le> bal m k"
  shows "total_bal (sub_bal m k v) + unat v = total_bal m"
  using total_upd [OF assms(1), of k "bal m k - v"] assms(2)
  by (simp add: sub_bal_def u64_sub_ok word_le_nat_alt)

lemma fin_bal [simp]: "finite (dom (add_bal m k v)) = finite (dom m)" "finite (dom (sub_bal m k v)) = finite (dom m)"
  by (simp_all add: add_bal_def sub_bal_def)

lemma bal_add_bal: "bal (add_bal m k v) = (bal m)(k := bal m k + v)"
  by (auto simp: add_bal_def)

lemma bal_sub_bal: "bal (sub_bal m k v) = (bal m)(k := bal m k - v)"
  by (auto simp: sub_bal_def)

lemma bal_touch_fun [simp]: "bal (touch m k) = bal m"
  by (rule ext) simp

lemma pooled_upd:
  assumes "finite (dom ps)"
  shows "pooled (ps(k \<mapsto> p')) sy + (case ps k of None \<Rightarrow> 0 | Some p \<Rightarrow> reserve_of sy p) = pooled ps sy + reserve_of sy p'"
proof -
  have "pooled (ps(k \<mapsto> p')) sy = reserve_of sy p' + (\<Sum>j\<in>dom ps - {k}. reserve_of sy (the ((ps(k \<mapsto> p')) j)))"
    using assms by (simp add: pooled_def sum.insert_remove)
  moreover have "(\<Sum>j\<in>dom ps - {k}. reserve_of sy (the ((ps(k \<mapsto> p')) j))) = (\<Sum>j\<in>dom ps - {k}. reserve_of sy (the (ps j)))"
    by (rule sum.cong) auto
  moreover have "pooled ps sy = (case ps k of None \<Rightarrow> 0 | Some p \<Rightarrow> reserve_of sy p) + (\<Sum>j\<in>dom ps - {k}. reserve_of sy (the (ps j)))"
    using assms by (cases "ps k") (auto simp: pooled_def sum.remove [of "dom ps" k] domIff)
  ultimately show ?thesis by simp
qed

lemma pooled_unlisted:
  assumes "engine_ok e" "tokens e sy = None"
  shows "pooled (pools e) sy = 0"
proof -
  have "reserve_of sy (the (pools e k)) = 0" if "k \<in> dom (pools e)" for k
    using that engine_okD(3) [OF assms(1), of k] assms(2) by (auto simp: reserve_of_def pool_ok_def)
  then show ?thesis by (simp add: pooled_def)
qed

lemma pool_ok_tokens: "pool_ok ts k p \<Longrightarrow> (\<And>sy. ts sy \<noteq> None \<Longrightarrow> ts' sy \<noteq> None) \<Longrightarrow> pool_ok ts' k p"
  by (simp add: pool_ok_def)

lemma pool_ok_distinct: "pool_ok ts k p \<Longrightarrow> token0 p \<noteq> token1 p"
  by (auto simp: pool_ok_def ordered_pair_def)

section \<open>The three effects\<close>

lemma put_tok_ok:
  assumes "engine_ok e" "token_ok (pooled (pools e) sy) t"
  shows "engine_ok (put_tok e sy t)"
  using assms pool_ok_tokens [of "tokens e" _ _ "(tokens e)(sy \<mapsto> t)"]
  by (auto simp: engine_ok_def put_tok_def split: if_splits)

lemma put_pool_ok:
  assumes "engine_ok e" "pool_ok (tokens e) k p'"
    and "\<And>sy t. tokens e sy = Some t \<Longrightarrow> total_bal (balances t) + pooled ((pools e)(k \<mapsto> p')) sy \<le> unat (total_supply t)"
  shows "engine_ok (put_pool e k p')"
  using assms by (auto simp: engine_ok_def put_pool_def token_ok_def split: if_splits)

definition same_token :: "token \<Rightarrow> token \<Rightarrow> bool" where
  "same_token t t' \<longleftrightarrow> (\<exists>m. bal m = bal (balances t) \<and> t' = t\<lparr>balances := m\<rparr>)"

definition same_pool :: "pool \<Rightarrow> pool \<Rightarrow> bool" where
  "same_pool p p' \<longleftrightarrow> (\<exists>m. bal m = bal (lp_balances p) \<and> p' = p\<lparr>lp_balances := m\<rparr>)"

definition same_ledger :: "engine \<Rightarrow> engine \<Rightarrow> bool" where
  "same_ledger e e' \<longleftrightarrow> nfts e' = nfts e
     \<and> (\<forall>sy. rel_option same_token (tokens e sy) (tokens e' sy))
     \<and> (\<forall>k. rel_option same_pool (pools e k) (pools e' k))"

lemma same_tokenI: "bal m = bal (balances t) \<Longrightarrow> same_token t (t\<lparr>balances := m\<rparr>)"
  unfolding same_token_def by (rule exI [of _ m]) simp

lemma same_poolI: "bal m = bal (lp_balances p) \<Longrightarrow> same_pool p (p\<lparr>lp_balances := m\<rparr>)"
  unfolding same_pool_def by (rule exI [of _ m]) simp

lemma same_refl [simp]: "same_token t t" "same_pool p p"
  using same_tokenI [of "balances t" t] same_poolI [of "lp_balances p" p] by simp_all

lemma same_token_trans: "same_token t t' \<Longrightarrow> same_token t' t'' \<Longrightarrow> same_token t t''"
  unfolding same_token_def [of t t'] same_token_def [of t' t''] by (auto intro!: same_tokenI)

lemma same_pool_trans: "same_pool p p' \<Longrightarrow> same_pool p' p'' \<Longrightarrow> same_pool p p''"
  unfolding same_pool_def [of p p'] same_pool_def [of p' p''] by (auto intro!: same_poolI)

lemma same_refl_option [simp]: "rel_option same_token x x" "rel_option same_pool y y"
  by (simp_all add: option.rel_refl)

lemma rel_option_trans:
  "(\<And>x y z. R x y \<Longrightarrow> R y z \<Longrightarrow> R x z) \<Longrightarrow> rel_option R a b \<Longrightarrow> rel_option R b c \<Longrightarrow> rel_option R a c"
  by (cases a; cases b; cases c) auto

lemma same_ledger_refl [simp]: "same_ledger e e"
  by (simp add: same_ledger_def)

lemma same_ledger_trans:
  assumes "same_ledger e1 e2" "same_ledger e2 e3"
  shows "same_ledger e1 e3"
proof -
  have "rel_option same_token (tokens e1 sy) (tokens e3 sy)" for sy
    by (rule rel_option_trans [where b = "tokens e2 sy", OF same_token_trans])
      (use assms in \<open>simp_all add: same_ledger_def\<close>)
  moreover have "rel_option same_pool (pools e1 k) (pools e3 k)" for k
    by (rule rel_option_trans [where b = "pools e2 k", OF same_pool_trans])
      (use assms in \<open>simp_all add: same_ledger_def\<close>)
  ultimately show ?thesis using assms by (simp add: same_ledger_def)
qed

lemma same_ledger_put_tok:
  assumes "tokens e sy = Some t" "bal m = bal (balances t)"
  shows "same_ledger e (put_tok e sy (t\<lparr>balances := m\<rparr>))"
  using assms(1) same_tokenI [OF assms(2)] by (simp add: same_ledger_def put_tok_def)

lemma same_ledger_put_pool:
  assumes "pools e k = Some p" "bal m = bal (lp_balances p)"
  shows "same_ledger e (put_pool e k (p\<lparr>lp_balances := m\<rparr>))"
  using assms(1) same_poolI [OF assms(2)] by (simp add: same_ledger_def put_pool_def)

lemma tok_eq [simp]: "tokens e sy = Some t \<Longrightarrow> tok e sy = t"
  by (simp add: tok_def)

lemma touch_bal_simps [simp]:
  "pools (touch_bal e sy who) = pools e" "nfts (touch_bal e sy who) = nfts e"
  "bal_in (touch_bal e sy who) = bal_in e"
  "tokens e s = Some t \<Longrightarrow> tokens (touch_bal e sy who) s = Some (if s = sy then t\<lparr>balances := touch (balances t) who\<rparr> else t)"
  by (auto simp: touch_bal_def put_tok_def bal_in_def tok_def fun_eq_iff)

lemma touch_bal_listed [simp]: "tokens e s \<noteq> None \<Longrightarrow> tokens (touch_bal e sy who) s \<noteq> None"
  by auto

lemma touch_bal_ok:
  assumes "engine_ok e" "tokens e sy \<noteq> None"
  shows "engine_ok (touch_bal e sy who)" "same_ledger e (touch_bal e sy who)"
proof -
  obtain t where t: "tokens e sy = Some t" using assms(2) by auto
  then show "engine_ok (touch_bal e sy who)"
    using engine_okD(2) [OF assms(1) t] by (auto simp: touch_bal_def token_ok_def intro!: put_tok_ok [OF assms(1)])
  show "same_ledger e (touch_bal e sy who)"
    using same_ledger_put_tok [OF t, of "touch (balances t) who"] by (simp add: touch_bal_def t)
qed

text \<open>A settlement: a wallet's two balances and the pool that holds the two tokens change together.\<close>

definition settle :: "engine \<Rightarrow> string \<Rightarrow> pool \<Rightarrow> pool \<Rightarrow> string \<Rightarrow> u64 \<Rightarrow> u64 \<Rightarrow> engine" where
  "settle e key p p' who v0 v1 = put_pool (set_bal (set_bal e (token0 p) who v0) (token1 p) who v1) key p'"

lemma settle_ok:
  assumes ok: "engine_ok e" and p: "pools e key = Some p"
    and shape: "token0 p' = token0 p" "token1 p' = token1 p" "fee_bps p' = fee_bps p"
    and v0: "unat v0 + unat (reserve0 p') \<le> unat (bal_in e (token0 p) who) + unat (reserve0 p)"
    and v1: "unat v1 + unat (reserve1 p') \<le> unat (bal_in e (token1 p) who) + unat (reserve1 p)"
    and lp: "finite (dom (lp_balances p'))" "total_bal (lp_balances p') = unat (lp_total_supply p')"
  shows "engine_ok (settle e key p p' who v0 v1)"
proof -
  note pok = engine_okD(3) [OF ok p]
  obtain a b where ab: "tokens e (token0 p) = Some a" "tokens e (token1 p) = Some b"
    using pok by (auto simp: pool_ok_def)
  let ?e = "settle e key p p' who v0 v1"
  note neq = pool_ok_distinct [OF pok]
  have ts: "tokens ?e = (tokens e)(token0 p \<mapsto> a\<lparr>balances := (balances a)(who \<mapsto> v0)\<rparr>, token1 p \<mapsto> b\<lparr>balances := (balances b)(who \<mapsto> v1)\<rparr>)"
    using ab neq by (simp add: settle_def set_bal_def put_tok_def put_pool_def tok_def)
  have ps: "pools ?e = (pools e)(key \<mapsto> p')"
    by (simp add: settle_def set_bal_def put_tok_def put_pool_def)
  have pl: "pooled ((pools e)(key \<mapsto> p')) sy + reserve_of sy p = pooled (pools e) sy + reserve_of sy p'" for sy
    using pooled_upd [OF engine_okD(1) [OF ok], of key p' sy] p by simp
  show ?thesis
  proof (rule engine_okI)
    show "finite (dom (pools ?e))" using engine_okD(1) [OF ok] by (simp add: ps)
  next
    fix sy t assume t: "tokens ?e sy = Some t"
    note A = engine_okD(2) [OF ok ab(1)] and B = engine_okD(2) [OF ok ab(2)]
    have TA: "total_bal ((balances a)(who \<mapsto> v0)) + unat (bal (balances a) who) = total_bal (balances a) + unat v0"
      and TB: "total_bal ((balances b)(who \<mapsto> v1)) + unat (bal (balances b) who) = total_bal (balances b) + unat v1"
      using A B by (auto simp: token_ok_def intro: total_upd)
    consider "sy = token0 p" | "sy = token1 p" | "sy \<noteq> token0 p" "sy \<noteq> token1 p" by blast
    then show "token_ok (pooled (pools ?e) sy) t"
    proof cases
      case 1
      then show ?thesis using t A TA v0 neq pl [of sy]
        by (auto simp: ts ps token_ok_def bal_in_def ab reserve_of_def shape)
    next
      case 2
      then show ?thesis using t B TB v1 neq pl [of sy]
        by (auto simp: ts ps token_ok_def bal_in_def ab reserve_of_def shape)
    next
      case 3
      then show ?thesis using t engine_okD(2) [OF ok, of sy t] pl [of sy]
        by (auto simp: ts ps reserve_of_def shape)
    qed
  next
    fix k q assume q: "pools ?e k = Some q"
    have "pool_ok (tokens e) k q"
    proof (cases "k = key")
      case True
      then have "q = p'" using q by (simp add: ps)
      then show ?thesis using True pok lp by (simp add: pool_ok_def shape)
    qed (use q engine_okD(3) [OF ok, of k q] in \<open>simp add: ps\<close>)
    then show "pool_ok (tokens ?e) k q"
      by (rule pool_ok_tokens) (simp add: ts)
  qed
qed

section \<open>What each operation keeps\<close>

definition kept :: "engine \<Rightarrow> 'a res \<times> engine \<Rightarrow> bool" where
  "kept e x \<longleftrightarrow> engine_ok (snd x) \<and> (isl (fst x) \<longrightarrow> same_ledger e (snd x))"

lemma keptI [intro]:
  "engine_ok e' \<Longrightarrow> same_ledger e e' \<Longrightarrow> kept e (r, e')"
  "engine_ok e' \<Longrightarrow> kept e (Inr v, e')"
  by (simp_all add: kept_def)

lemma kept_same: "engine_ok e \<Longrightarrow> kept e (r, e)"
  by (simp add: kept_def)

lemma kept_if: "(b \<Longrightarrow> kept e x) \<Longrightarrow> (\<not> b \<Longrightarrow> kept e y) \<Longrightarrow> kept e (if b then x else y)"
  by simp

lemma kept_from: "same_ledger e0 e \<Longrightarrow> kept e x \<Longrightarrow> kept e0 x"
  by (auto simp: kept_def intro: same_ledger_trans)

lemma create_token_ex_kept:
  assumes ok: "engine_ok e"
  shows "kept e (create_token_ex e symbol name own max_supply initial_mint decimals burn_ok dev dev_alloc)"
proof -
  let ?b0 = "if initial_mint > 0 then [own \<mapsto> initial_mint] else Map.empty :: string \<rightharpoonup> u64"
  let ?b1 = "if dev_alloc > 0 then ?b0(dev \<mapsto> bal ?b0 dev + dev_alloc) else ?b0"
  have b0: "finite (dom ?b0)" "total_bal ?b0 = unat initial_mint"
    using total_upd [of Map.empty own initial_mint] by (auto simp: word_gt_0)
  have tok: "token_ok (pooled (pools e) symbol) (fresh_token\<lparr>t_name := name, t_owner := own, t_decimals := decimals, burnable := burn_ok,
      dev_wallet := dev, dev_allocation := dev_alloc, t_max_supply := max_supply,
      total_supply := initial_mint + dev_alloc, balances := ?b1\<rparr>)"
    if "tokens e symbol = None" "\<not> initial_mint > U64_MAX - dev_alloc" "\<not> initial_mint + dev_alloc > max_supply"
  proof -
    have nowrap: "unat initial_mint + unat dev_alloc < 18446744073709551616"
      using that(2) by (simp add: u64_add_guard)
    then have "unat (bal ?b0 dev) + unat dev_alloc < 18446744073709551616"
      using bal_le_total [OF b0(1), of dev] b0(2) by linarith
    then have "total_bal ?b1 = unat initial_mint + unat dev_alloc"
      using b0 total_add_bal [OF b0(1), of dev dev_alloc] by (auto simp: add_bal_def word_gt_0)
    moreover have "finite (dom ?b1)" using b0(1) by auto
    ultimately show ?thesis
      using that nowrap pooled_unlisted [OF ok that(1)] by (simp add: token_ok_def u64_add_ok)
  qed
  show ?thesis
    unfolding create_token_ex_def Let_def
    by (intro kept_if kept_same [OF ok] keptI(2) put_tok_ok [OF ok tok]) simp_all
qed

lemma mint_kept:
  assumes ok: "engine_ok e"
  shows "kept e (mint e symbol caller to amount)"
proof (cases "tokens e symbol")
  case (Some t)
  note tok = engine_okD(2) [OF ok Some]
  have 1: "kept e (Inl err, put_tok e symbol (t\<lparr>balances := touch (balances t) to\<rparr>))" for err
    using tok by (auto simp: token_ok_def intro!: keptI put_tok_ok [OF ok] same_ledger_put_tok [OF Some])
  have 2: "kept e (Inr (), put_tok e symbol (t\<lparr>total_supply := total_supply t + amount,
      balances := (balances t)(to \<mapsto> bal (balances t) to + amount)\<rparr>))"
    if "\<not> U64_MAX - amount < total_supply t" "\<not> t_max_supply t < total_supply t + amount" "\<not> U64_MAX - amount < bal (balances t) to"
    using that tok total_add_bal [of "balances t" to amount]
    by (intro keptI put_tok_ok [OF ok]) (auto simp: token_ok_def u64_add_guard u64_add_ok add_bal_def not_less)
  show ?thesis
    using Some by (simp add: mint_def kept_same [OF ok] 1 2)
qed (simp add: mint_def kept_same [OF ok])

lemma bps_fee_bound: "unat ((a * b :: u64) div 10000) \<le> 1844674407370955"
proof -
  have "unat ((a * b) div 10000) = unat (a * b) div 10000" by (simp add: unat_div_distrib)
  then show ?thesis using unat_u64_bound [of "a * b"] by linarith
qed

lemma move_balances_fail:
  assumes "move_balances t f to a r tf = (Inl err, m)"
  shows "bal m = bal (balances t)" "finite (dom (balances t)) \<Longrightarrow> finite (dom m)"
  using assms by (auto simp: move_balances_def Let_def bal_add_bal bal_sub_bal intro!: ext split: if_splits)

lemma move_balances_ok:
  assumes mv: "move_balances t f to a r tf = (Inr u, m)" and fin: "finite (dom (balances t))"
  shows "finite (dom m)" and "total_bal m + unat a \<le> total_bal (balances t) + unat r + unat tf"
    and "unat a \<le> total_bal (balances t)"
proof -
  let ?m0 = "touch (balances t) f" let ?m1 = "touch (sub_bal ?m0 f a) to" let ?m2 = "add_bal ?m1 to r"
  have a: "a \<le> bal ?m0 f" and r: "\<not> U64_MAX - r < bal ?m1 to"
    using mv by (auto simp: move_balances_def Let_def split: if_splits)
  have t1: "total_bal ?m1 + unat a = total_bal (balances t)"
    using total_sub_bal [of ?m0 a f] a fin by simp
  have t2: "total_bal ?m2 = total_bal ?m1 + unat r"
    by (rule total_add_bal) (use fin r in \<open>auto simp: u64_add_guard\<close>)
  have "m = ?m2 \<or> (m = add_bal (touch ?m2 (treasury_wallet t)) (treasury_wallet t) tf
      \<and> \<not> U64_MAX - tf < bal ?m2 (treasury_wallet t))"
    using mv by (auto simp: move_balances_def Let_def split: if_splits)
  then have "finite (dom m) \<and> total_bal m \<le> total_bal ?m2 + unat tf"
    using fin total_add_bal [of "touch ?m2 (treasury_wallet t)" "treasury_wallet t" tf] by (auto simp: u64_add_guard)
  then show "finite (dom m)" "total_bal m + unat a \<le> total_bal (balances t) + unat r + unat tf"
      "unat a \<le> total_bal (balances t)"
    using t1 t2 by auto
qed

lemma fee_split:
  assumes "unat tf + unat bf < 18446744073709551616" "\<not> amount < tf + (bf :: u64)"
  shows "unat (amount - tf - bf) + unat tf + unat bf = unat amount"
proof -
  have s: "unat (tf + bf) = unat tf + unat bf" using assms(1) by (rule u64_add_ok)
  have "amount - tf - bf = amount - (tf + bf)" by (simp add: algebra_simps)
  then show ?thesis using assms s by (simp add: u64_sub_ok not_less word_le_nat_alt)
qed

lemma transfer_kept:
  assumes ok: "engine_ok e"
  shows "kept e (transfer e symbol from to amount)"
proof (cases "tokens e symbol")
  case (Some t)
  note tok = engine_okD(2) [OF ok Some]
  define tf where "tf = (if from \<in> fee_exempt t \<or> to \<in> fee_exempt t then 0 else (amount * transfer_fee_bps t) div 10000)"
  define bf where "bf = (if from \<in> fee_exempt t \<or> to \<in> fee_exempt t then 0 else (amount * burn_fee_bps t) div 10000)"
  have nowrap: "unat tf + unat bf < 18446744073709551616"
    using bps_fee_bound [of amount "transfer_fee_bps t"] bps_fee_bound [of amount "burn_fee_bps t"]
    by (auto simp: tf_def bf_def)
  have fin: "finite (dom (balances t))" using tok by (simp add: token_ok_def)
  have fail: "kept e (Inl err', put_tok e symbol (t\<lparr>balances := m\<rparr>))"
    if "move_balances t from to amount (amount - tf - bf) tf = (Inl err, m)" for err err' m
    using move_balances_fail [OF that] tok total_cong [of m "balances t"]
    by (intro keptI put_tok_ok [OF ok] same_ledger_put_tok [OF Some]) (auto simp: token_ok_def)
  have good: "kept e (Inr (), put_tok e symbol (t\<lparr>balances := m, total_supply := total_supply t - bf\<rparr>)) \<and> \<not> total_supply t < bf"
    if mv: "move_balances t from to amount (amount - tf - bf) tf = (Inr u, m)" and g: "\<not> amount < tf + bf" for u m
  proof -
    note B = move_balances_ok [OF mv fin] fee_split [OF nowrap g]
    have sup: "bf \<le> total_supply t" using B tok by (simp add: token_ok_def word_le_nat_alt)
    have "total_supply t - bf \<le> total_supply t" using sup by (simp add: word_le_nat_alt u64_sub_ok)
    then show ?thesis using B tok sup
      by (intro conjI keptI put_tok_ok [OF ok]) (auto simp: token_ok_def u64_sub_ok not_less)
  qed
  have good0: "kept e (Inr (), put_tok e symbol (t\<lparr>balances := m\<rparr>))"
    if "move_balances t from to amount (amount - tf - bf) tf = (Inr u, m)" "\<not> amount < tf + bf" "bf = 0" for u m
    using good [OF that(1,2)] that(3) by simp
  have core: "kept e (case move_balances t from to amount (amount - tf - bf) tf of
              (Inl err, m) \<Rightarrow> (Inl err, put_tok e symbol (t\<lparr>balances := m\<rparr>))
            | (Inr _, m) \<Rightarrow>
                if bf > 0 then
                  (if total_supply t < bf then (Inl ''burn fee exceeds supply'', put_tok e symbol (t\<lparr>balances := m\<rparr>))
                   else (Inr (), put_tok e symbol (t\<lparr>balances := m, total_supply := total_supply t - bf\<rparr>)))
                else (Inr (), put_tok e symbol (t\<lparr>balances := m\<rparr>)))"
    if g: "\<not> amount < tf + bf"
  proof -
    obtain r m where rm: "move_balances t from to amount (amount - tf - bf) tf = (r, m)" by fastforce
    show ?thesis
      using rm fail good [OF _ g] good0 [OF _ g] by (cases r) (auto simp: word_gt_0)
  qed
  show ?thesis
    unfolding transfer_def Let_def Some option.case tf_def [symmetric] bf_def [symmetric]
    by (intro kept_if kept_same [OF ok] core)
qed (simp add: transfer_def kept_same [OF ok])

lemma burn_kept:
  assumes ok: "engine_ok e"
  shows "kept e (burn e symbol from amount)"
proof (cases "tokens e symbol")
  case (Some t)
  note tok = engine_okD(2) [OF ok Some]
  have 1: "kept e (Inl err, put_tok e symbol (t\<lparr>balances := touch (balances t) from\<rparr>))" for err
    using tok by (auto simp: token_ok_def intro!: keptI put_tok_ok [OF ok] same_ledger_put_tok [OF Some])
  have 2: "kept e (Inr (), put_tok e symbol (t\<lparr>balances := sub_bal (balances t) from amount, total_supply := total_supply t - amount\<rparr>))"
    if "\<not> bal (balances t) from < amount"
  proof -
    have T: "total_bal (sub_bal (balances t) from amount) + unat amount = total_bal (balances t)"
      by (rule total_sub_bal) (use tok that in \<open>auto simp: token_ok_def\<close>)
    then have "amount \<le> total_supply t" using tok by (simp add: token_ok_def word_le_nat_alt)
    then show ?thesis using T tok
      by (intro keptI put_tok_ok [OF ok]) (auto simp: token_ok_def u64_sub_ok word_le_nat_alt)
  qed
  show ?thesis
    unfolding burn_def Some option.case by (intro kept_if kept_same [OF ok] 1 2)
qed (simp add: burn_def kept_same [OF ok])

lemma owner_update_kept:
  assumes ok: "engine_ok e"
    and f: "\<And>t t'. f t = Inr t' \<Longrightarrow> balances t' = balances t \<and> total_supply t' = total_supply t \<and> t_max_supply t' = t_max_supply t"
  shows "kept e (owner_update e symbol caller denied f)"
proof (cases "tokens e symbol")
  case (Some t)
  have "kept e (Inr (), put_tok e symbol t')" if "f t = Inr t'" for t'
    using engine_okD(2) [OF ok Some] f [OF that] by (intro keptI put_tok_ok [OF ok]) (simp add: token_ok_def)
  then show ?thesis
    unfolding owner_update_def Some option.case
    by (intro kept_if kept_same [OF ok]) (simp add: kept_same [OF ok] split: sum.split)
qed (simp add: owner_update_def kept_same [OF ok])

lemma owner_settings_kept:
  assumes "engine_ok e"
  shows "kept e (set_policy e symbol caller treasury tfb bfb pause)" "kept e (set_blacklist e symbol caller w b)"
    "kept e (set_fee_exempt e symbol caller w b)" "kept e (set_limits e symbol caller mt mw)"
  unfolding set_policy_def set_blacklist_def set_fee_exempt_def set_limits_def
  by (rule owner_update_kept [OF assms], auto split: if_splits)+

lemma nft_kept:
  assumes "engine_ok e"
  shows "kept e (mint_nft e collection tid own metadata)" "kept e (transfer_nft e collection tid from to)"
  using assms by (auto simp: mint_nft_def transfer_nft_def kept_def Let_def map_upd_triv split: option.splits)

lemma pool_key_ordered: "ordered_pair a b = Some (t0, t1) \<Longrightarrow> ordered_pair t0 t1 = Some (t0, t1)"
  by (auto simp: ordered_pair_def split: if_splits)

lemma create_pool_kept:
  assumes ok: "engine_ok e"
  shows "kept e (create_pool e token_a token_b fee)"
proof (cases "ordered_pair token_a token_b")
  case (Some x)
  then obtain t0 t1 where t: "ordered_pair token_a token_b = Some (t0, t1)" by (cases x) auto
  let ?p = "\<lparr>token0 = t0, token1 = t1, reserve0 = 0, reserve1 = 0, fee_bps = fee, lp_total_supply = 0, lp_balances = Map.empty\<rparr>"
  have "kept e (Inr (), e\<lparr>pools := (pools e)(pool_key t0 t1 \<mapsto> ?p)\<rparr>)"
    if "tokens e t0 \<noteq> None" "tokens e t1 \<noteq> None" "fee < 10000" "pools e (pool_key t0 t1) = None"
  proof -
    have "pool_ok (tokens e) (pool_key t0 t1) ?p"
      using that pool_key_ordered [OF t] by (simp add: pool_ok_def)
    moreover have "pooled ((pools e)(pool_key t0 t1 \<mapsto> ?p)) sy = pooled (pools e) sy" for sy
      using pooled_upd [OF engine_okD(1) [OF ok], of "pool_key t0 t1" ?p sy] that(4) by (simp add: reserve_of_def)
    ultimately have "engine_ok (put_pool e (pool_key t0 t1) ?p)"
      using engine_okD(2) [OF ok] by (intro put_pool_ok [OF ok]) (auto simp: token_ok_def)
    then show ?thesis by (simp add: put_pool_def kept_def)
  qed
  then show ?thesis
    unfolding create_pool_def Let_def t option.case prod.case
    by (intro kept_if kept_same [OF ok]) (auto simp: not_le)
qed (simp add: create_pool_def kept_same [OF ok])

lemma put_pool_touch_ok:
  assumes ok: "engine_ok e" and p: "pools e k = Some p"
  shows "engine_ok (put_pool e k (p\<lparr>lp_balances := touch (lp_balances p) who\<rparr>))"
    "same_ledger e (put_pool e k (p\<lparr>lp_balances := touch (lp_balances p) who\<rparr>))"
proof -
  let ?p = "p\<lparr>lp_balances := touch (lp_balances p) who\<rparr>"
  have "pooled ((pools e)(k \<mapsto> ?p)) sy = pooled (pools e) sy" for sy
    using pooled_upd [OF engine_okD(1) [OF ok], of k ?p sy] p by (simp add: reserve_of_def split: if_splits)
  then show "engine_ok (put_pool e k ?p)"
    using engine_okD(2) [OF ok] engine_okD(3) [OF ok p]
    by (intro put_pool_ok [OF ok]) (auto simp: token_ok_def pool_ok_def)
  show "same_ledger e (put_pool e k ?p)"
    by (rule same_ledger_put_pool [OF p]) simp
qed

lemma deposit_kept:
  assumes ok: "engine_ok e" and p: "pools e key = Some p"
    and b: "\<not> bal_in e (token0 p) provider < add0" "\<not> bal_in e (token1 p) provider < add1"
  shows "kept e (deposit e key p provider add0 add1 lp)"
proof -
  note pok = engine_okD(3) [OF ok p]
  let ?p' = "p\<lparr>reserve0 := reserve0 p + add0, reserve1 := reserve1 p + add1,
      lp_total_supply := lp_total_supply p + lp, lp_balances := add_bal (lp_balances p) provider lp\<rparr>"
  have go: "engine_ok (settle e key p ?p' provider (bal_in e (token0 p) provider - add0) (bal_in e (token1 p) provider - add1))"
    if "\<not> (reserve0 p > U64_MAX - add0 \<or> reserve1 p > U64_MAX - add1 \<or> lp_total_supply p > U64_MAX - lp
         \<or> bal (lp_balances p) provider > U64_MAX - lp)"
    using that b pok
    by (intro settle_ok [OF ok p])
      (auto simp: u64_add_guard u64_add_ok u64_sub_ok not_less word_le_nat_alt pool_ok_def total_add_bal)
  have eq: "put_pool (set_bal (set_bal e (token0 p) provider (bal_in e (token0 p) provider - add0)) (token1 p) provider
        (bal_in (set_bal e (token0 p) provider (bal_in e (token0 p) provider - add0)) (token1 p) provider - add1)) key ?p'
      = settle e key p ?p' provider (bal_in e (token0 p) provider - add0) (bal_in e (token1 p) provider - add1)"
    using pool_ok_distinct [OF pok] by (simp add: settle_def bal_in_def set_bal_def put_tok_def tok_def)
  show ?thesis
    unfolding deposit_def Let_def eq
    using put_pool_touch_ok [OF ok p] ok
    by (intro kept_if keptI(2) go) (auto simp: kept_def)
qed

lemma add_liquidity_kept:
  assumes ok: "engine_ok e" and run: "add_liquidity e token_a token_b provider amount_a amount_b = Some x"
  shows "kept e x"
proof (cases "pools e (pool_key token_a token_b)")
  case None
  then show ?thesis using run kept_same [OF ok] by (auto simp: add_liquidity_def split: if_splits)
next
  case (Some p)
  note pok = engine_okD(3) [OF ok Some]
  let ?e1 = "touch_bal e (token0 p) provider"
  let ?e2 = "touch_bal ?e1 (token1 p) provider"
  have e1: "engine_ok ?e1" "same_ledger e ?e1" using pok by (auto simp: pool_ok_def intro!: touch_bal_ok [OF ok])
  have l1: "tokens ?e1 (token1 p) \<noteq> None" using pok by (auto simp: pool_ok_def)
  have e2: "engine_ok ?e2" "same_ledger e ?e2"
    using touch_bal_ok [OF e1(1) l1] e1(2) by (auto intro: same_ledger_trans)
  define add0 where "add0 = (if token_a = token0 p then amount_a else amount_b)"
  define add1 where "add1 = (if token_a = token0 p then amount_b else amount_a)"
  have dep: "kept e (deposit ?e2 (pool_key token_a token_b) p provider add0 add1 lp)"
    if "\<not> bal_in ?e2 (token0 p) provider < add0" "\<not> bal_in ?e2 (token1 p) provider < add1" for lp
    using Some that by (intro kept_from [OF e2(2)] deposit_kept [OF e2(1)]) auto
  have run': "(if provider = [] \<or> amount_a = 0 \<or> amount_b = 0 then Some (Inl ''invalid liquidity params'', e)
      else if bal_in ?e2 (token0 p) provider < add0 \<or> bal_in ?e2 (token1 p) provider < add1
           then Some (Inl ''insufficient token balance for liquidity'', ?e2)
      else Option.bind (minted_lp p add0 add1)
        (\<lambda>r. Some (case r of Inl err \<Rightarrow> (Inl err, ?e2) | Inr lp \<Rightarrow> deposit ?e2 (pool_key token_a token_b) p provider add0 add1 lp))) = Some x"
    using run unfolding add_liquidity_def Let_def Some option.case add0_def add1_def .
  show ?thesis
  proof (cases "provider = [] \<or> amount_a = 0 \<or> amount_b = 0
      \<or> bal_in ?e2 (token0 p) provider < add0 \<or> bal_in ?e2 (token1 p) provider < add1")
    case True
    then show ?thesis using run' ok e2 by (auto simp: kept_def split: if_splits)
  next
    case False
    then obtain r where "x = (case r of Inl err \<Rightarrow> (Inl err, ?e2) | Inr lp \<Rightarrow> deposit ?e2 (pool_key token_a token_b) p provider add0 add1 lp)"
      using run' by (auto simp: bind_eq_Some_conv)
    then show ?thesis using e2 dep False by (cases r) (auto simp: kept_def)
  qed
qed

lemma share_bound:
  assumes "lp \<le> s" "s \<noteq> 0"
  shows "(r * lp) div s \<le> (r :: u64)"
proof -
  have "unat ((r * lp) div s) = unat (r * lp) div unat s" by (simp add: unat_div_distrib)
  also have "\<dots> \<le> (unat r * unat lp) div unat s"
    by (rule div_le_mono) (simp add: unat_word_ariths)
  also have "\<dots> \<le> (unat r * unat s) div unat s"
    by (rule div_le_mono) (use assms in \<open>simp add: word_le_nat_alt\<close>)
  also have "\<dots> = unat r" using assms(2) by (simp add: unat_gt_0)
  finally show ?thesis by (simp add: word_le_nat_alt)
qed

lemma remove_liquidity_kept:
  assumes ok: "engine_ok e"
  shows "kept e (remove_liquidity e token_a token_b provider lp_amount)"
proof (cases "pools e (pool_key token_a token_b)")
  case (Some p0)
  define key where "key = pool_key token_a token_b"
  define p where "p = p0\<lparr>lp_balances := touch (lp_balances p0) provider\<rparr>"
  define e0 where "e0 = put_pool e key p"
  have e0: "engine_ok e0" "same_ledger e e0"
    using put_pool_touch_ok [OF ok Some, of provider] by (simp_all add: e0_def p_def key_def)
  have p: "pools e0 key = Some p" by (simp add: e0_def put_pool_def)
  note pok = engine_okD(3) [OF e0(1) p]
  define take0 where "take0 = (reserve0 p * lp_amount) div lp_total_supply p"
  define take1 where "take1 = (reserve1 p * lp_amount) div lp_total_supply p"
  define e1 where "e1 = touch_bal e0 (token0 p) provider"
  define e2 where "e2 = (if bal_in e1 (token0 p) provider > U64_MAX - take0 then e1 else touch_bal e1 (token1 p) provider)"
  have e1: "engine_ok e1" "same_ledger e e1" and l1: "tokens e1 (token1 p) \<noteq> None"
    using pok touch_bal_ok [OF e0(1)] same_ledger_trans [OF e0(2)] by (auto simp: pool_ok_def e1_def)
  have e2: "engine_ok e2" "same_ledger e e2" and p2: "pools e2 key = Some p"
    using touch_bal_ok [OF e1(1) l1] e1 same_ledger_trans [OF e1(2)] p by (auto simp: e2_def e1_def)
  define p' where "p' = p\<lparr>lp_balances := sub_bal (lp_balances p) provider lp_amount, lp_total_supply := lp_total_supply p - lp_amount,
      reserve0 := reserve0 p - take0, reserve1 := reserve1 p - take1\<rparr>"
  define e3 where "e3 = put_pool e2 key p'"
  define e4 where "e4 = set_bal e3 (token0 p) provider (bal_in e3 (token0 p) provider + take0)"
  define e5 where "e5 = set_bal e4 (token1 p) provider (bal_in e4 (token1 p) provider + take1)"
  have e5: "e5 = settle e2 key p p' provider (bal_in e2 (token0 p) provider + take0) (bal_in e2 (token1 p) provider + take1)"
    using pool_ok_distinct [OF pok]
    by (simp add: e5_def e4_def e3_def settle_def set_bal_def bal_in_def put_tok_def put_pool_def tok_def)
  have go: "engine_ok e5"
    if lp: "\<not> (bal (lp_balances p) provider < lp_amount \<or> lp_total_supply p = 0)"
      and b: "\<not> (bal_in e1 (token0 p) provider > U64_MAX - take0 \<or> bal_in e2 (token1 p) provider > U64_MAX - take1)"
  proof -
    have fin: "finite (dom (lp_balances p))" and tot: "total_bal (lp_balances p) = unat (lp_total_supply p)"
      using pok by (auto simp: pool_ok_def)
    have L: "lp_amount \<le> lp_total_supply p"
      using bal_le_total [OF fin, of provider] lp tot by (auto simp: word_le_nat_alt not_less)
    have T: "total_bal (sub_bal (lp_balances p) provider lp_amount) + unat lp_amount = total_bal (lp_balances p)"
      by (rule total_sub_bal [OF fin]) (use lp in auto)
    have t: "take0 \<le> reserve0 p" "take1 \<le> reserve1 p"
      using lp by (auto simp: take0_def take1_def intro!: share_bound [OF L])
    have g: "unat (bal_in e2 (token0 p) provider) + unat take0 < 18446744073709551616"
        "unat (bal_in e2 (token1 p) provider) + unat take1 < 18446744073709551616"
      using b by (auto simp: u64_add_guard e2_def split: if_splits)
    show ?thesis
      unfolding e5 using L T t g tot fin
      by (intro settle_ok [OF e2(1) p2])
        (simp_all add: p'_def u64_add_ok u64_sub_ok word_le_nat_alt)
  qed
  show ?thesis
    unfolding remove_liquidity_def Let_def Some option.case
    unfolding p_def [symmetric] key_def [symmetric] e0_def [symmetric]
      take0_def [symmetric] take1_def [symmetric] e1_def [symmetric] e2_def [symmetric] p'_def [symmetric]
      e3_def [symmetric] e4_def [symmetric] e5_def [symmetric]
    by (intro kept_if kept_same [OF ok] keptI(1) [OF e0] keptI(1) [OF e2] keptI(2) go)
qed (simp add: remove_liquidity_def kept_same [OF ok])

section \<open>Swaps\<close>

lemma pool_of_key:
  assumes ok: "engine_ok e" and p: "pools e (pool_key a b) = Some p"
  shows "(token0 p = a \<and> token1 p = b) \<or> (token0 p = b \<and> token1 p = a)" and "a \<noteq> b"
    "tokens e a \<noteq> None" "tokens e b \<noteq> None"
proof -
  note pok = engine_okD(3) [OF ok p]
  have key: "pool_key (token0 p) (token1 p) = token0 p @ CHR ''|'' # token1 p"
    using pok by (simp add: pool_ok_def pool_key_def)
  then obtain t0 t1 where t: "ordered_pair a b = Some (t0, t1)" "token0 p @ CHR ''|'' # token1 p = t0 @ CHR ''|'' # t1"
    using pok by (auto simp: pool_ok_def pool_key_def [of a b] split: option.splits)
  have bar: "CHR ''|'' \<notin> set (token0 p)" "CHR ''|'' \<notin> set t0"
    using pok t(1) by (auto simp: pool_ok_def ordered_pair_def token_name_ok_def list_all_iff split: if_splits)
  have "t0 = token0 p" "t1 = token1 p" using t(2) append_sep_eq [OF bar] by auto
  then show "(token0 p = a \<and> token1 p = b) \<or> (token0 p = b \<and> token1 p = a)" "a \<noteq> b"
      "tokens e a \<noteq> None" "tokens e b \<noteq> None"
    using t(1) pok by (auto simp: pool_ok_def ordered_pair_def split: if_splits)
qed

lemma product_kept_nat:
  assumes q: "out * (ri * d + x * f) \<le> x * f * ro" and "f \<le> d" "0 < d" "out \<le> (ro :: nat)"
  shows "ri * ro \<le> (ri + x) * (ro - out)"
proof -
  have "out * ri * d + out * x * f \<le> x * f * ro" using q by (simp add: algebra_simps)
  then have "out * ri * d \<le> x * f * ro - out * x * f" by linarith
  also have "\<dots> = x * f * (ro - out)" by (simp add: algebra_simps)
  also have "\<dots> \<le> x * d * (ro - out)" using assms(2) by simp
  finally have "(out * ri) * d \<le> (x * (ro - out)) * d" by (simp add: algebra_simps)
  then have "out * ri \<le> x * (ro - out)" using assms(3) by simp
  moreover have "ri * ro = ri * (ro - out) + ri * out" using assms(4) by (simp add: algebra_simps)
  ultimately show ?thesis by (simp add: algebra_simps)
qed

lemma quote_ok:
  assumes ok: "engine_ok e" and q: "quote_exact_in e a b x = Inr out"
  shows "\<exists>p. pools e (pool_key a b) = Some p \<and> x \<noteq> 0 \<and> out \<noteq> 0 \<and> out < snd (reserves_for p a)
     \<and> unat (fst (reserves_for p a)) * unat (snd (reserves_for p a))
         \<le> (unat (fst (reserves_for p a)) + unat x) * unat (snd (reserves_for p a) - out)"
proof -
  obtain p where p: "pools e (pool_key a b) = Some p"
    using q by (auto simp: quote_exact_in_def split: if_splits option.splits)
  obtain ri ro where r: "reserves_for p a = (ri, ro)" by fastforce
  define f where "f = 10000 - fee_bps p"
  have fee: "fee_bps p < 10000" using engine_okD(3) [OF ok p] by (simp add: pool_ok_def)
  then have f: "unat f = 10000 - unat (fee_bps p)" "f \<noteq> 0"
    using u64_sub_ok [of "fee_bps p" 10000] by (auto simp: f_def)
  have facts: "x \<noteq> 0" "ro \<noteq> 0" "\<not> U64_MAX div f < x" "\<not> U64_MAX div ro < x * f" "\<not> U64_MAX div 10000 < ri"
      "\<not> U64_MAX - x * f < ri * 10000" "out = ((x * f) * ro) div (ri * 10000 + x * f)" "out \<noteq> 0" "out < ro"
    using q p r by (auto simp: quote_exact_in_def Let_def f_def split: if_splits)
  have xf: "unat (x * f) = unat x * unat f"
    using facts(3) f(2) by (intro u64_mul_ok) (simp add: u64_mul_guard)
  have num: "unat (x * f * ro) = unat x * unat f * unat ro"
    using facts(4) facts(2) by (subst u64_mul_ok) (simp_all add: u64_mul_guard xf)
  have base: "unat (ri * 10000) = unat ri * 10000"
    using facts(5) u64_mul_guard [of 10000 ri] u64_mul_ok [of ri 10000] by simp
  have den: "unat (ri * 10000 + x * f) = unat ri * 10000 + unat x * unat f"
    using facts(6) by (subst u64_add_ok) (simp_all add: u64_add_guard base xf)
  have "unat out * (unat ri * 10000 + unat x * unat f) \<le> unat x * unat f * unat ro"
    unfolding facts(7) unat_div_distrib num den by (rule div_times_less_eq_dividend)
  then have "unat ri * unat ro \<le> (unat ri + unat x) * (unat ro - unat out)"
    by (rule product_kept_nat) (use f facts(9) in \<open>auto simp: word_less_nat_alt\<close>)
  then show ?thesis
    using p r facts(1,8,9) by (auto simp: u64_sub_ok)
qed

lemma swap_effect:
  assumes ok: "engine_ok e" and p: "pools e (pool_key a b) = Some p"
    and q: "quote_exact_in e a b x = Inr out" and x: "\<not> bal_in e a who < x"
    and over: "\<not> (bal_in e b who > U64_MAX - out \<or> fst (reserves_for p a) > U64_MAX - x)"
  defines "e' \<equiv> put_pool (set_bal (set_bal e a who (bal_in e a who - x)) b who
      (bal_in (set_bal e a who (bal_in e a who - x)) b who + out)) (pool_key a b) (swapped_pool p a x out)"
  shows "engine_ok e'"
proof -
  note k = pool_of_key [OF ok p]
  note pok = engine_okD(3) [OF ok p]
  have out: "out < snd (reserves_for p a)" using quote_ok [OF ok q] p by auto
  have v: "bal_in (set_bal e a who (bal_in e a who - x)) b who = bal_in e b who"
    using k(2) by (simp add: bal_in_def set_bal_def put_tok_def tok_def)
  let ?p' = "swapped_pool p a x out"
  have shape: "token0 ?p' = token0 p" "token1 ?p' = token1 p" "fee_bps ?p' = fee_bps p"
      "lp_balances ?p' = lp_balances p" "lp_total_supply ?p' = lp_total_supply p"
    by (simp_all add: swapped_pool_def)
  have lp: "finite (dom (lp_balances ?p'))" "total_bal (lp_balances ?p') = unat (lp_total_supply ?p')"
    using pok by (simp_all add: shape pool_ok_def)
  have e': "e' = (if a = token0 p then settle e (pool_key a b) p ?p' who (bal_in e a who - x) (bal_in e b who + out)
      else settle e (pool_key a b) p ?p' who (bal_in e b who + out) (bal_in e a who - x))"
    unfolding e'_def v using k(1,2)
    by (auto simp: settle_def set_bal_def put_tok_def tok_def fun_upd_twist)
  have n1: "unat (bal_in e a who - x) + unat (fst (reserves_for p a) + x) \<le> unat (bal_in e a who) + unat (fst (reserves_for p a))"
    using x over by (simp add: u64_add_guard u64_add_ok u64_sub_ok not_less word_le_nat_alt)
  have n2: "unat (bal_in e b who + out) + unat (snd (reserves_for p a) - out) \<le> unat (bal_in e b who) + unat (snd (reserves_for p a))"
    using over less_imp_le [OF out] by (simp add: u64_add_guard u64_add_ok u64_sub_ok word_le_nat_alt [of out])
  consider "a = token0 p" "b = token1 p" | "a \<noteq> token0 p" "a = token1 p" "b = token0 p" using k(1,2) by auto
  then show ?thesis
  proof cases
    case 1
    then have "engine_ok (settle e (pool_key a b) p ?p' who (bal_in e a who - x) (bal_in e b who + out))"
      by (intro settle_ok [OF ok p shape(1-3) _ _ lp]) (use n1 n2 in \<open>auto simp: swapped_pool_def reserves_for_def\<close>)
    then show ?thesis using 1 by (simp add: e')
  next
    case 2
    then have "engine_ok (settle e (pool_key a b) p ?p' who (bal_in e b who + out) (bal_in e a who - x))"
      by (intro settle_ok [OF ok p shape(1-3) _ _ lp]) (use n1 n2 in \<open>auto simp: swapped_pool_def reserves_for_def\<close>)
    then show ?thesis using 2 by (simp add: e')
  qed
qed

lemma quote_pools: "pools e' = pools e \<Longrightarrow> quote_exact_in e' = quote_exact_in e"
  by (intro ext) (simp only: quote_exact_in_def)

lemma swap_exact_in_kept:
  assumes ok: "engine_ok e"
  shows "kept e (swap_exact_in e a b who x min_out)"
proof (cases "quote_exact_in e a b x")
  case (Inr out)
  obtain p where p: "pools e (pool_key a b) = Some p" using quote_ok [OF ok Inr] by blast
  obtain ri ro where r: "reserves_for p a = (ri, ro)" by fastforce
  note k = pool_of_key [OF ok p]
  let ?e0 = "touch_bal e a who"
  let ?e1 = "touch_bal ?e0 b who"
  have e0: "engine_ok ?e0" "same_ledger e ?e0" using touch_bal_ok [OF ok k(3)] .
  have e1: "engine_ok ?e1" "same_ledger e ?e1"
    using touch_bal_ok [OF e0(1) touch_bal_listed [OF k(4)]] same_ledger_trans [OF e0(2)] by auto
  have q1: "quote_exact_in ?e1 a b x = Inr out" using Inr quote_pools [of ?e1 e] by simp
  show ?thesis
    unfolding swap_exact_in_def Inr sum.case Let_def p option.sel r prod.case
    by (intro kept_if kept_same [OF ok] keptI(1) [OF e0] keptI(1) [OF e1] keptI(2) swap_effect [OF e1(1) _ q1])
      (use p r in auto)
qed (simp add: swap_exact_in_def kept_same [OF ok])

lemma swap_exact_in_Inr:
  assumes sw: "swap_exact_in e a b who x min_out = (Inr out, e')"
  shows "min_out \<le> out" "quote_exact_in e a b x = Inr out" "x \<le> bal_in e a who"
    "pools e' = (pools e)(pool_key a b \<mapsto> swapped_pool (the (pools e (pool_key a b))) a x out)"
    "a \<noteq> b \<Longrightarrow> bal_in e' a who = bal_in e a who - x" "a \<noteq> b \<Longrightarrow> unat (bal_in e' b who) = unat (bal_in e b who) + unat out"
  using sw unfolding swap_exact_in_def
  by (auto simp: Let_def set_bal_def put_tok_def put_pool_def tok_def bal_in_def u64_add_guard_ok touch_bal_def
      split: if_splits sum.splits prod.splits option.splits)

lemma swap_reserve_fits:
  assumes "swap_exact_in e a b who x min_out = (Inr out, e')" "pools e (pool_key a b) = Some p"
  shows "unat (fst (reserves_for p a) + x) = unat (fst (reserves_for p a)) + unat x"
  using assms by (auto simp: swap_exact_in_def Let_def u64_add_guard_ok split: if_splits sum.splits prod.splits)

lemma swap_exact_in_nfts: "nfts (snd (swap_exact_in e a b who x min_out)) = nfts e"
  by (auto simp: swap_exact_in_def Let_def set_bal_def put_tok_def put_pool_def split: sum.splits prod.splits)

lemma swap_hops_nfts: "nfts (snd (swap_hops e who min_out i rt x)) = nfts e"
proof (induction e who min_out i rt x rule: swap_hops.induct)
  case (1 e who min_out i a b rest x)
  then show ?case
    using swap_exact_in_nfts [of e a b who x "if rest = [] then min_out else 1"]
    by (auto split: prod.splits sum.splits)
qed simp_all

lemma swap_hops_ok:
  "engine_ok e \<Longrightarrow> swap_hops e who min_out i rt x = (Inr out, e') \<Longrightarrow>
     engine_ok e' \<and> (2 \<le> length rt \<longrightarrow> min_out \<le> out)"
proof (induction e who min_out i rt x rule: swap_hops.induct)
  case (1 e who min_out i a b rest x)
  obtain r e1 where s: "swap_exact_in e a b who x (if rest = [] then min_out else 1) = (r, e1)" by fastforce
  then obtain o1 where r: "r = Inr o1" using "1.prems"(2) by (cases r) auto
  have e1: "engine_ok e1" using swap_exact_in_kept [OF "1.prems"(1)] s by (metis kept_def snd_conv)
  have "swap_hops e1 who min_out (i + 1) (b # rest) o1 = (Inr out, e')"
    using "1.prems"(2) s r by simp
  then show ?case
    using "1.IH" [OF s [symmetric]] s r e1 swap_exact_in_Inr(1) [of e a b who x _ o1 e1]
    by (cases rest) (auto split: if_splits)
qed simp_all

lemma swap_route_kept:
  assumes ok: "engine_ok e"
  shows "kept e (swap_route_exact_in e route who x min_out)"
proof (cases "quote_route_exact_in e route x")
  case (Inr quoted)
  then obtain a b rest where rt: "route = a # b # rest"
    by (cases route rule: remdups_adj.cases) (auto simp: quote_route_exact_in_def split: if_splits)
  then have hd: "hd route = a" by simp
  obtain o1 where q: "quote_exact_in e a b x = Inr o1"
    using Inr by (auto simp: quote_route_exact_in_def rt split: if_splits sum.splits)
  obtain p where p: "pools e (pool_key a b) = Some p" using quote_ok [OF ok q] by blast
  let ?e0 = "touch_bal e a who"
  have e0: "engine_ok ?e0" "same_ledger e ?e0" using touch_bal_ok [OF ok pool_of_key(3) [OF ok p]] .
  have run: "kept e (case swap_hops ?e0 who min_out 0 route x of
      (Inl err, e') \<Rightarrow> (Inl err, e'\<lparr>pools := pools ?e0, tokens := tokens ?e0\<rparr>) | (Inr out, e') \<Rightarrow> (Inr out, e'))"
  proof -
    obtain r e' where s: "swap_hops ?e0 who min_out 0 route x = (r, e')" by fastforce
    have "e'\<lparr>pools := pools ?e0, tokens := tokens ?e0\<rparr> = ?e0"
      using swap_hops_nfts [of ?e0 who min_out 0 route x] s by simp
    then show ?thesis using s e0 swap_hops_ok [OF e0(1)] by (cases r) (auto simp: kept_def)
  qed
  show ?thesis
    unfolding swap_route_exact_in_def Inr sum.case Let_def hd
    by (intro kept_if kept_same [OF ok] run keptI(1) e0)
qed (simp add: swap_route_exact_in_def kept_same [OF ok])

end
