(* ===== verification/Token_Properties.thy ===== *)
theory Token_Properties
  imports Token_Invariants
begin

text \<open>
  What the token engine guarantees: the reachable states of the engine as a step relation over all of its
  operations, the coverage of balances and reserves by the supply in every reachable state, failed
  operations that change nothing, swaps that keep the product of the reserves, routed swaps that pay
  what was quoted, the soundness and optimality of the route search, and the arguments for which the
  square root of the first deposit returns.
\<close>

section \<open>The square root of the first deposit\<close>

text \<open>Newton's step on naturals: it stays at or above the root, and falls strictly above it.\<close>

lemma four_mul_le_square: "4 * (a * b) \<le> (a + b) * (a + b :: nat)"
proof -
  have "0 \<le> (int a - int b) * (int a - int b)" by simp
  then have "int (4 * (a * b)) \<le> int ((a + b) * (a + b))" by (simp add: algebra_simps)
  then show ?thesis by (simp only: of_nat_le_iff)
qed

lemma newton_lower:
  assumes "s * s \<le> n" "0 < r"
  shows "s \<le> (r + n div r) div (2 :: nat)"
proof (rule ccontr)
  assume "\<not> ?thesis"
  then have lt: "r + (n div r + 1) \<le> 2 * s" by simp
  have "n < r * (n div r + 1)"
    using assms(2) dividend_less_times_div [of r n] by simp
  then have "4 * (s * s) < 4 * (r * (n div r + 1))" using assms(1) by simp
  also have "\<dots> \<le> (r + (n div r + 1)) * (r + (n div r + 1))" by (rule four_mul_le_square)
  also have "\<dots> \<le> (2 * s) * (2 * s)" using lt by (intro mult_le_mono)
  finally show False by simp
qed

lemma newton_falls:
  assumes "n < r * r"
  shows "(r + n div r) div 2 < (r :: nat)"
proof -
  have "0 < r" using assms by (cases r) auto
  then have "n div r < r" using assms by (simp add: div_less_iff_less_mult)
  then show ?thesis by simp
qed

lemma newton_sum_bound:
  assumes "0 < r" "r \<le> (n :: nat)"
  shows "r + n div r \<le> n + 1"
proof -
  obtain a where a: "r = Suc a" using assms(1) by (cases r) auto
  obtain b where b: "n div r = Suc b" using assms by (cases "n div r") (auto simp: div_eq_0_iff)
  have "Suc a * Suc b \<le> n" using times_div_less_eq_dividend [of r n] unfolding b by (simp add: a)
  then show ?thesis unfolding b by (simp add: a)
qed

text \<open>The machine step agrees with it below \<open>n < 2 ^ 64 - 1\<close>.\<close>

lemma unat_newton:
  assumes "r \<noteq> 0" "r \<le> x" "x \<noteq> U64_MAX"
  shows "unat ((r + x div r) div 2 :: u64) = (unat r + unat x div unat r) div 2"
proof -
  have "unat x \<noteq> 18446744073709551615"
    using assms(3) by (simp add: word_unat_eq_iff)
  then have "unat x + 1 < 18446744073709551616" using unat_u64_bound [of x] by linarith
  moreover have "unat r + unat x div unat r \<le> unat x + 1"
    by (rule newton_sum_bound) (use assms in \<open>simp_all add: unat_gt_0 word_le_nat_alt\<close>)
  ultimately show ?thesis
    by (simp add: unat_div_distrib u64_add_ok)
qed

lemma newton_root:
  assumes "s * s \<le> n" "n < (s + 1) * (s + 1)" "0 < (s :: nat)"
  shows "(s + n div s) div 2 = (if n + 1 = (s + 1) * (s + 1) then s + 1 else s)"
proof -
  obtain d where d: "n = s * s + d" using assms(1) le_Suc_ex by blast
  then have d2: "d \<le> 2 * s" using assms(2) by simp
  have "n div s = s + d div s" using assms(3) d by simp
  moreover have "d div s = (if d = 2 * s then 2 else if s \<le> d then 1 else 0)"
    using d2 assms(3) by (auto simp: div_nat_eqI)
  moreover have "n + 1 = (s + 1) * (s + 1) \<longleftrightarrow> d = 2 * s" using d by (auto simp: algebra_simps)
  ultimately show ?thesis by auto
qed

lemma newton_above_root:
  assumes "n + 1 = (s + 1) * (s + 1)"
  shows "(s + 1 + n div (s + 1)) div 2 = (s :: nat)"
proof -
  have "n div (s + 1) = s" using assms by (intro div_nat_eqI) (auto simp: algebra_simps)
  then show ?thesis by simp
qed

lemma isqrt_newton_returns:
  assumes x: "x \<noteq> U64_MAX" and s: "s * s \<le> unat x" "unat x < (s + 1) * (s + 1)" "0 < s"
    and no: "unat x + 1 \<noteq> (s + 1) * (s + 1)"
  shows "r \<le> x \<Longrightarrow> s \<le> unat r \<Longrightarrow> unat r \<noteq> unat prev \<Longrightarrow> \<exists>v. isqrt_newton x r prev = Some v \<and> unat v = s"
proof (induction "unat r" arbitrary: r prev rule: less_induct)
  case less
  let ?r = "(r + x div r) div 2"
  have r0: "r \<noteq> 0" using less.prems(2) s(3) by auto
  have u: "unat ?r = (unat r + unat x div unat r) div 2" by (rule unat_newton [OF r0 less.prems(1) x])
  have step: "isqrt_newton x r prev = isqrt_newton x ?r r"
    using less.prems(3) r0 by (subst isqrt_newton.simps) auto
  show ?case
  proof (cases "unat r = s")
    case True
    then have "unat ?r = unat r" using u newton_root [OF s] no by simp
    then have "?r = r" by (simp add: word_unat_eq_iff)
    then show ?thesis using True step by (simp add: isqrt_newton.simps)
  next
    case False
    then have "s + 1 \<le> unat r" using less.prems(2) by simp
    then have "(s + 1) * (s + 1) \<le> unat r * unat r" by (rule mult_le_mono) fact
    then have lt: "unat ?r < unat r" unfolding u by (intro newton_falls) (use s(2) in linarith)
    have "s \<le> unat ?r" unfolding u by (rule newton_lower [OF s(1)]) (use r0 in \<open>simp add: unat_gt_0\<close>)
    moreover have "?r \<le> x" using lt less.prems(1) by (simp add: word_le_nat_alt)
    ultimately show ?thesis using less.hyps [OF lt, of r] lt step by auto
  qed
qed

lemma isqrt_newton_induct [consumes 1, case_names step]:
  assumes "isqrt_newton x r prev = Some v"
    and "\<And>f x r prev v. (\<And>x r prev v. f x r prev = Some v \<Longrightarrow> P x r prev v) \<Longrightarrow>
      (if r = prev then Some r else if r = 0 then None else f x ((r + x div r) div 2) r) = Some v \<Longrightarrow> P x r prev v"
  shows "P x r prev v"
  by (rule isqrt_newton.raw_induct [of P "((x, r), prev)" v, unfolded prod.case, OF assms(2) assms(1)])

lemma isqrt_newton_loops:
  assumes "isqrt_newton x r prev = Some v" "x \<noteq> U64_MAX" "unat x + 1 = (s + 1) * (s + 1)" "0 < s" "unat r = s \<or> unat r = s + 1"
  shows "r = prev"
  using assms
proof (induction x r prev v rule: isqrt_newton_induct)
  case (step f x r prev v)
  note sq = step.prems(2,3) and r = step.prems(4)
  show ?case
  proof (rule ccontr)
    assume ne: "r \<noteq> prev"
    let ?r = "(r + x div r) div 2"
    have r0: "r \<noteq> 0" using r sq(2) by auto
    have lex: "r \<le> x" using r sq by (auto simp: word_le_nat_alt algebra_simps)
    have u: "unat ?r = (unat r + unat x div unat r) div 2" by (rule unat_newton [OF r0 lex step.prems(1)])
    have flip: "unat ?r = (if unat r = s then s + 1 else s)"
      using r newton_root [of s "unat x"] newton_above_root [OF sq(1)] sq unfolding u by (auto simp: algebra_simps)
    have "f x ?r r = Some v" using step.hyps ne r0 by simp
    then have "?r = r" using step.IH [of x ?r r v] flip step.prems by auto
    then show False using flip r by auto
  qed
qed

lemma root_exists: "\<exists>s. s * s \<le> n \<and> n < (s + 1) * (s + 1 :: nat)"
proof (induction n)
  case (Suc n)
  then obtain s where s: "s * s \<le> n" "n < (s + 1) * (s + 1)" by blast
  show ?case
  proof (cases "Suc n = (s + 1) * (s + 1)")
    case True
    then show ?thesis by (intro exI [of _ "s + 1"]) auto
  qed (use s in \<open>intro exI [of _ s]\<close>, auto)
qed (rule exI [of _ 0], simp)

lemma isqrt_up_root:
  assumes "unat x < (unat r + 1) * (unat r + 1)" "unat r + 1 < 18446744073709551616"
  shows "isqrt_up x r = Some r"
proof -
  have u: "unat (r + 1) = unat r + 1" using u64_add_ok [of r 1] assms(2) by simp
  then have r1: "r + 1 \<noteq> 0" by auto
  have "\<not> (r + 1) * (r + 1) \<le> x" if "\<not> U64_MAX div (r + 1) < r + 1"
    using that u64_mul_guard [OF r1, of "r + 1"] u64_mul_ok [of "r + 1" "r + 1"] assms(1)
    by (auto simp: u word_le_nat_alt)
  then show ?thesis using r1 by (subst isqrt_up.simps) (auto simp: not_less)
qed

lemma isqrt_down_root:
  assumes "unat r * unat r \<le> unat x"
  shows "isqrt_down x r = Some r"
proof -
  have "unat (r * r) = unat r * unat r" using assms unat_u64_bound [of x] by (intro u64_mul_ok) linarith
  then show ?thesis using assms by (subst isqrt_down.simps) (simp add: word_less_nat_alt)
qed

lemma isqrt_newton_max: "isqrt_newton U64_MAX U64_MAX 0 = None"
  by (subst isqrt_newton.simps, subst isqrt_newton.simps) simp

lemma isqrt_newton_reaches_root:
  assumes x: "x \<noteq> U64_MAX" and s: "s * s \<le> unat x" "0 < s" "unat x + 1 = (s + 1) * (s + 1)"
  shows "r \<le> x \<Longrightarrow> s \<le> unat r \<Longrightarrow> unat r \<noteq> unat prev \<Longrightarrow> isqrt_newton x r prev = None"
proof (induction "unat r" arbitrary: r prev rule: less_induct)
  case less
  let ?r = "(r + x div r) div 2"
  have r0: "r \<noteq> 0" using less.prems(2) s(2) by auto
  have ne: "r \<noteq> prev" using less.prems(3) by auto
  have u: "unat ?r = (unat r + unat x div unat r) div 2" by (rule unat_newton [OF r0 less.prems(1) x])
  show ?case
  proof (cases "unat r = s \<or> unat r = s + 1")
    case True
    then show ?thesis using isqrt_newton_loops [OF _ x s(3,2), of r prev] ne by (cases "isqrt_newton x r prev") auto
  next
    case False
    then have "s + 1 \<le> unat r" using less.prems(2) by simp
    then have "(s + 1) * (s + 1) \<le> unat r * unat r" by (rule mult_le_mono) fact
    then have lt: "unat ?r < unat r" unfolding u by (intro newton_falls) (use s(3) in linarith)
    have "s \<le> unat ?r" unfolding u by (rule newton_lower [OF s(1)]) (use r0 in \<open>simp add: unat_gt_0\<close>)
    moreover have "?r \<le> x" using lt less.prems(1) by (simp add: word_le_nat_alt)
    moreover have "isqrt_newton x r prev = isqrt_newton x ?r r"
      using ne r0 by (subst isqrt_newton.simps) auto
    ultimately show ?thesis using less.hyps [OF lt, of r] lt by auto
  qed
qed

lemma root_successor_square:
  assumes s: "s * s \<le> n" "n < (s + 1) * (s + 1)" "0 < (s :: nat)"
  shows "(\<exists>t\<ge>2. t * t = n + 1) \<longleftrightarrow> n + 1 = (s + 1) * (s + 1)"
proof
  assume "\<exists>t\<ge>2. t * t = n + 1"
  then obtain t where t: "t * t = n + 1" by blast
  have "\<not> t \<le> s"
  proof
    assume "t \<le> s"
    then have "t * t \<le> s * s" by (intro mult_le_mono)
    then show False using s(1) t by linarith
  qed
  then have "(s + 1) * (s + 1) \<le> t * t" by (intro mult_le_mono) auto
  then show "n + 1 = (s + 1) * (s + 1)" using t s(2) by linarith
qed (use s(3) in \<open>intro exI [of _ "s + 1"], auto\<close>)

text \<open>
  Claim C36. The square root that prices the first deposit of a pool returns the integer root of its argument,
  except when the argument plus one is a perfect square of at least 4: there Newton's iteration alternates between
  the root and its successor for ever (and at \<open>2 ^ 64 - 1\<close> divides by a sum that wrapped to zero), so the call does
  not return.
\<close>

theorem isqrt_returns:
  "if \<exists>s\<ge>2. s * s = unat x + 1 then isqrt_u64 x = None
   else \<exists>r. isqrt_u64 x = Some r \<and> unat r * unat r \<le> unat x \<and> unat x < (unat r + 1) * (unat r + 1)"
proof (cases "x = 0 \<or> x = U64_MAX")
  case True
  have "\<exists>s\<ge>2. s * s = unat U64_MAX + 1" by (rule exI [of _ 4294967296]) simp
  moreover have "\<not> (\<exists>s\<ge>2. s * s = (1 :: nat))" by auto
  ultimately show ?thesis using True isqrt_newton_max by (auto simp: isqrt_u64_def)
next
  case False
  obtain s where s: "s * s \<le> unat x" "unat x < (s + 1) * (s + 1)" using root_exists by blast
  have s0: "0 < s" using s(2) False by (cases s) (auto simp: unat_eq_zero)
  have sx: "s \<le> unat x" using s(1) s0 by (metis le_square le_trans)
  note alt = root_successor_square [OF s s0]
  show ?thesis
  proof (cases "unat x + 1 = (s + 1) * (s + 1)")
    case True
    have "isqrt_newton x x 0 = None"
      by (rule isqrt_newton_reaches_root [of x s]) (use False True s(1) s0 sx in auto)
    then show ?thesis using False alt True by (simp add: isqrt_u64_def)
  next
    case no: False
    obtain r where r: "isqrt_newton x x 0 = Some r" "unat r = s"
      using isqrt_newton_returns [OF _ s s0 no, of x 0] False sx s0 by auto
    have "s + 1 < 18446744073709551616"
    proof (rule ccontr)
      assume "\<not> ?thesis"
      then have "18446744073709551615 * 18446744073709551615 \<le> s * s" by (intro mult_le_mono) auto
      then show False using s(1) unat_u64_bound [of x] by linarith
    qed
    then have "isqrt_up x r = Some r" "isqrt_down x r = Some r"
      using s r(2) by (auto intro: isqrt_up_root isqrt_down_root)
    then have "isqrt_u64 x = Some r" using False r(1) by (simp add: isqrt_u64_def)
    then show ?thesis using alt no s r(2) by auto
  qed
qed

section \<open>Reachable engines\<close>

text \<open>One call of a state-changing operation; the flag says whether it returned \<^verbatim>\<open>true\<close>.\<close>

inductive token_step :: "engine \<Rightarrow> bool \<Rightarrow> engine \<Rightarrow> bool" where
  step_create: "create_token_ex e symbol name own max_supply initial_mint decimals burn_ok dev dev_alloc = (r, e') \<Longrightarrow> token_step e (\<not> isl r) e'"
| step_mint: "mint e symbol caller to amount = (r, e') \<Longrightarrow> token_step e (\<not> isl r) e'"
| step_transfer: "transfer e symbol from to amount = (r, e') \<Longrightarrow> token_step e (\<not> isl r) e'"
| step_burn: "burn e symbol from amount = (r, e') \<Longrightarrow> token_step e (\<not> isl r) e'"
| step_policy: "set_policy e symbol caller treasury tfb bfb pause = (r, e') \<Longrightarrow> token_step e (\<not> isl r) e'"
| step_blacklist: "set_blacklist e symbol caller w b = (r, e') \<Longrightarrow> token_step e (\<not> isl r) e'"
| step_exempt: "set_fee_exempt e symbol caller w b = (r, e') \<Longrightarrow> token_step e (\<not> isl r) e'"
| step_limits: "set_limits e symbol caller mt mw = (r, e') \<Longrightarrow> token_step e (\<not> isl r) e'"
| step_mint_nft: "mint_nft e collection tid own metadata = (r, e') \<Longrightarrow> token_step e (\<not> isl r) e'"
| step_transfer_nft: "transfer_nft e collection tid from to = (r, e') \<Longrightarrow> token_step e (\<not> isl r) e'"
| step_pool: "create_pool e token_a token_b fee = (r, e') \<Longrightarrow> token_step e (\<not> isl r) e'"
| step_add: "add_liquidity e token_a token_b provider amount_a amount_b = Some (r, e') \<Longrightarrow> token_step e (\<not> isl r) e'"
| step_remove: "remove_liquidity e token_a token_b provider lp = (r, e') \<Longrightarrow> token_step e (\<not> isl (r :: (u64 \<times> u64) res)) e'"
| step_swap: "swap_exact_in e a b trader x min_out = (r, e') \<Longrightarrow> token_step e (\<not> isl (r :: u64 res)) e'"
| step_route: "swap_route_exact_in e route trader x min_out = (r, e') \<Longrightarrow> token_step e (\<not> isl (r :: u64 res)) e'"

inductive token_run :: "engine \<Rightarrow> bool" where
  run_init: "token_run TokenEngine_init"
| run_step: "token_run e \<Longrightarrow> token_step e ok e' \<Longrightarrow> token_run e'"

lemmas operations_kept = create_token_ex_kept mint_kept transfer_kept burn_kept owner_settings_kept nft_kept create_pool_kept
  remove_liquidity_kept swap_exact_in_kept swap_route_kept

lemma kept_result: "kept e x \<Longrightarrow> x = (r, e') \<Longrightarrow> engine_ok e' \<and> (isl r \<longrightarrow> same_ledger e e')"
  by (simp add: kept_def)

lemma token_step_kept: "token_step e ok e' \<Longrightarrow> engine_ok e \<Longrightarrow> engine_ok e' \<and> (\<not> ok \<longrightarrow> same_ledger e e')"
proof (induction rule: token_step.induct)
  case (step_add e token_a token_b provider amount_a amount_b r e')
  then show ?case using add_liquidity_kept by (fastforce simp: kept_def)
qed (use operations_kept in \<open>(metis kept_result)+\<close>)

lemma token_run_ok: "token_run e \<Longrightarrow> engine_ok e"
  by (induction rule: token_run.induct) (use engine_ok_init token_step_kept in auto)

text \<open>A small market used by the witnesses: two tokens, a pool and a first deposit.\<close>

definition demo_token :: "u64 \<Rightarrow> token" where
  "demo_token v = fresh_token\<lparr>t_name := ''T'', t_owner := ''o'', t_max_supply := 1000, total_supply := 1000, balances := [''o'' \<mapsto> v]\<rparr>"

definition demo_pool :: "u64 \<Rightarrow> u64 \<Rightarrow> u64 \<Rightarrow> pool" where
  "demo_pool r0 r1 lp = \<lparr>token0 = ''AA'', token1 = ''BB'', reserve0 = r0, reserve1 = r1, fee_bps = 30, lp_total_supply = lp,
     lp_balances = (if lp = 0 then Map.empty else [''o'' \<mapsto> lp])\<rparr>"

definition demo_market :: "u64 \<Rightarrow> u64 \<Rightarrow> u64 \<Rightarrow> u64 \<Rightarrow> u64 \<Rightarrow> engine" where
  "demo_market a b r0 r1 lp = \<lparr>tokens = [''AA'' \<mapsto> demo_token a, ''BB'' \<mapsto> demo_token b], nfts = Map.empty,
     pools = [''AA|BB'' \<mapsto> demo_pool r0 r1 lp]\<rparr>"

lemma isqrt_100: "isqrt_u64 100 = Some 10"
  by (simp add: isqrt_u64_def isqrt_newton.simps [of 100] isqrt_up.simps [of 100] isqrt_down.simps [of 100])

lemma demo_create_A: "create_token_ex TokenEngine_init ''AA'' ''T'' ''o'' 1000 1000 18 False [] 0
    = (Inr (), \<lparr>tokens = [''AA'' \<mapsto> demo_token 1000], nfts = Map.empty, pools = Map.empty\<rparr>)"
  by (simp add: create_token_ex_def TokenEngine_init_def put_tok_def demo_token_def fresh_token_def)

lemma demo_create_B: "create_token_ex \<lparr>tokens = [''AA'' \<mapsto> demo_token 1000], nfts = Map.empty, pools = Map.empty\<rparr> ''BB'' ''T'' ''o'' 1000 1000 18 False [] 0
    = (Inr (), \<lparr>tokens = [''AA'' \<mapsto> demo_token 1000, ''BB'' \<mapsto> demo_token 1000], nfts = Map.empty, pools = Map.empty\<rparr>)"
  by (simp add: create_token_ex_def TokenEngine_init_def put_tok_def demo_token_def fresh_token_def)

lemma demo_key: "ordered_pair ''AA'' ''BB'' = Some (''AA'', ''BB'')" "pool_key ''AA'' ''BB'' = ''AA|BB''"
  by (simp_all add: ordered_pair_def pool_key_def token_name_ok_def)

lemma demo_create_pool: "create_pool \<lparr>tokens = [''AA'' \<mapsto> demo_token 1000, ''BB'' \<mapsto> demo_token 1000], nfts = Map.empty, pools = Map.empty\<rparr> ''AA'' ''BB'' 30
    = (Inr (), demo_market 1000 1000 0 0 0)"
  by (simp add: create_pool_def demo_key demo_market_def demo_pool_def)

lemma demo_add: "add_liquidity (demo_market 1000 1000 0 0 0) ''AA'' ''BB'' ''o'' 10 10 = Some (Inr (), demo_market 990 990 10 10 10)"
  by (simp add: add_liquidity_def demo_key demo_market_def demo_pool_def Let_def minted_lp_def isqrt_100 deposit_def
      bal_in_def touch_bal_def set_bal_def put_tok_def put_pool_def tok_def demo_token_def fresh_token_def add_bal_def touch_def)

lemma demo_market_run: "token_run (demo_market 990 990 10 10 10)"
  using step_add [OF demo_add] step_pool [OF demo_create_pool] step_create [OF demo_create_A] step_create [OF demo_create_B] run_init
  by (blast intro: run_step)

lemma demo_quote: "quote_exact_in (demo_market a b 10 10 lp) ''AA'' ''BB'' 5 = Inr 3"
  by (simp add: quote_exact_in_def demo_key demo_market_def demo_pool_def reserves_for_def)

lemma demo_swap: "swap_exact_in (demo_market 990 990 10 10 10) ''AA'' ''BB'' ''o'' 5 1 = (Inr 3, demo_market 985 993 15 7 10)"
  unfolding swap_exact_in_def demo_quote
  by (simp add: demo_key demo_market_def demo_pool_def Let_def reserves_for_def swapped_pool_def
      bal_in_def touch_bal_def set_bal_def put_tok_def put_pool_def tok_def demo_token_def fresh_token_def touch_def)

section \<open>Properties\<close>

text \<open>
  Claim C21. In every state of the token engine that a sequence of its operations reaches, successful or not, the
  wallets and the pool reserves of a token together hold at most its total supply, the supply is at most its cap, and
  the liquidity shares of every pool add up to the pool's share supply: no sequence of mints, transfers with fees,
  burns, deposits, withdrawals and swaps creates tokens or shares, in spite of the products that wrap.
\<close>

theorem token_supply_covered:
  assumes "token_run e"
  shows "(\<forall>sy t. tokens e sy = Some t \<longrightarrow>
        total_bal (balances t) + pooled (pools e) sy \<le> unat (total_supply t) \<and> total_supply t \<le> t_max_supply t)
    \<and> (\<forall>k p. pools e k = Some p \<longrightarrow> total_bal (lp_balances p) = unat (lp_total_supply p) \<and> fee_bps p < 10000)"
  using engine_okD [OF token_run_ok [OF assms]] by (auto simp: token_ok_def pool_ok_def)

theorem token_supply_covered_witness:
  "total_bal (balances (demo_token 990)) + pooled (pools (demo_market 990 990 10 10 10)) ''AA'' \<le> 1000
   \<and> total_bal (lp_balances (demo_pool 10 10 10)) = 10"
  using token_supply_covered [OF demo_market_run, THEN conjunct1, rule_format, of "''AA''" "demo_token 990"]
    token_supply_covered [OF demo_market_run, THEN conjunct2, rule_format, of "''AA|BB''" "demo_pool 10 10 10"]
  by (simp add: demo_market_def) (simp add: demo_token_def demo_pool_def)

text \<open>
  Claim C22. An operation of the token engine that returns an error has changed nothing that can be observed: in every
  reachable state, every balance, supply, policy, reserve and share of the state a failed call leaves behind is the
  one before the call, for a routed swap as well, whose earlier hops are undone.
\<close>

theorem failed_operation_harmless:
  assumes "token_run e" and "token_step e False e'"
  shows "nfts e' = nfts e
    \<and> (\<forall>sy. rel_option (\<lambda>t t'. \<exists>m. bal m = bal (balances t) \<and> t' = t\<lparr>balances := m\<rparr>) (tokens e sy) (tokens e' sy))
    \<and> (\<forall>k. rel_option (\<lambda>p p'. \<exists>m. bal m = bal (lp_balances p) \<and> p' = p\<lparr>lp_balances := m\<rparr>) (pools e k) (pools e' k))"
proof -
  have "same_ledger e e'" using token_step_kept [OF assms(2) token_run_ok [OF assms(1)]] by simp
  then show ?thesis
    unfolding same_ledger_def same_token_def [abs_def] same_pool_def [abs_def] .
qed

lemma demo_transfer_fails: "transfer (demo_market 990 990 10 10 10) ''AA'' ''x'' ''y'' 7
    = (Inl ''insufficient token balance'', put_tok (demo_market 990 990 10 10 10) ''AA'' ((demo_token 990)\<lparr>balances := [''o'' \<mapsto> 990, ''x'' \<mapsto> 0]\<rparr>))"
  by (simp add: transfer_def demo_market_def demo_token_def fresh_token_def move_balances_def Let_def touch_def bal_def)

theorem failed_operation_harmless_witness:
  "nfts (snd (transfer (demo_market 990 990 10 10 10) ''AA'' ''x'' ''y'' 7)) = nfts (demo_market 990 990 10 10 10)"
  using failed_operation_harmless [OF demo_market_run step_transfer [OF demo_transfer_fails, simplified]]
  by (simp add: demo_transfer_fails)

text \<open>
  Claim C23. A successful swap charges the trader exactly the input amount, pays exactly the quoted output, which is at
  least the trader's limit, and leaves the pool with a product of reserves that is no smaller than before, whatever the
  direction of the swap and the pool fee.
\<close>

theorem swap_keeps_product:
  assumes run: "token_run e" and sw: "swap_exact_in e a b trader x min_out = (Inr out, e')"
  shows "min_out \<le> out \<and> x \<le> bal_in e a trader \<and> bal_in e' a trader = bal_in e a trader - x
    \<and> unat (bal_in e' b trader) = unat (bal_in e b trader) + unat out
    \<and> (\<exists>p p'. pools e (pool_key a b) = Some p \<and> pools e' (pool_key a b) = Some p'
       \<and> unat (reserve0 p) * unat (reserve1 p) \<le> unat (reserve0 p') * unat (reserve1 p'))"
proof -
  note ok = token_run_ok [OF run] and S = swap_exact_in_Inr [OF sw]
  obtain p where p: "pools e (pool_key a b) = Some p" and out: "out < snd (reserves_for p a)"
    and prod: "unat (fst (reserves_for p a)) * unat (snd (reserves_for p a))
      \<le> (unat (fst (reserves_for p a)) + unat x) * unat (snd (reserves_for p a) - out)"
    using quote_ok [OF ok S(2)] by blast
  note ab = pool_of_key(2) [OF ok p]
  have "unat (fst (reserves_for p a) + x) = unat (fst (reserves_for p a)) + unat x"
    by (rule swap_reserve_fits [OF sw p])
  then have "unat (reserve0 p) * unat (reserve1 p)
      \<le> unat (reserve0 (swapped_pool p a x out)) * unat (reserve1 (swapped_pool p a x out))"
    using prod by (auto simp: swapped_pool_def reserves_for_def mult.commute split: if_splits)
  then show ?thesis
    using p S(1,3,4) S(5,6) [OF ab] by auto
qed

theorem swap_keeps_product_witness:
  "bal_in (demo_market 985 993 15 7 10) ''AA'' ''o'' = bal_in (demo_market 990 990 10 10 10) ''AA'' ''o'' - 5 \<and> (1 :: u64) \<le> 3"
  using swap_keeps_product [OF demo_market_run demo_swap] by simp

section \<open>Routes\<close>

lemma quote_key: "pools e' (pool_key a b) = pools e (pool_key a b) \<Longrightarrow> quote_exact_in e' a b x = quote_exact_in e a b x"
  unfolding quote_exact_in_def by (simp only:)

text \<open>A hop over other tokens does not see the pool that a swap changed.\<close>

lemma quote_hops_frame:
  assumes ok: "engine_ok e" and p: "pools e (pool_key a b) = Some p"
    and same: "\<And>k. k \<noteq> pool_key a b \<Longrightarrow> pools e' k = pools e k"
  shows "a \<notin> set rt \<Longrightarrow> quote_hops e' i rt x = quote_hops e i rt x"
proof (induction rt arbitrary: i x rule: induct_list012)
  case (3 c d rest)
  have "pool_key c d \<noteq> pool_key a b"
    using pool_of_key [OF ok, of c d p] pool_of_key [OF ok p] p "3.prems" by auto
  then have "quote_exact_in e' c d x = quote_exact_in e c d x" by (intro quote_key same)
  then show ?case using 3 by (simp split: sum.splits)
qed simp_all

lemma swap_hops_pay_quote:
  "engine_ok e \<Longrightarrow> distinct rt \<Longrightarrow> swap_hops e who min_out i rt x = (Inr out, e') \<Longrightarrow> quote_hops e i rt x = Inr out"
proof (induction e who min_out i rt x rule: swap_hops.induct)
  case (1 e who min_out i a b rest x)
  obtain r e1 where s: "swap_exact_in e a b who x (if rest = [] then min_out else 1) = (r, e1)" by fastforce
  then obtain o1 where r: "r = Inr o1" using "1.prems"(3) by (cases r) auto
  note S = swap_exact_in_Inr [OF s [unfolded r]]
  obtain p where p: "pools e (pool_key a b) = Some p" using quote_ok [OF "1.prems"(1) S(2)] by blast
  have e1: "engine_ok e1" using kept_result [OF swap_exact_in_kept [OF "1.prems"(1)] s] by simp
  have "swap_hops e1 who min_out (i + 1) (b # rest) o1 = (Inr out, e')" using "1.prems"(3) s r by simp
  then have "quote_hops e1 (i + 1) (b # rest) o1 = Inr out"
    using "1.IH" [OF s [symmetric] r e1] "1.prems"(2) by simp
  moreover have "quote_hops e1 (i + 1) (b # rest) o1 = quote_hops e (i + 1) (b # rest) o1"
    by (rule quote_hops_frame [OF "1.prems"(1) p]) (use S(4) "1.prems"(2) in auto)
  ultimately show ?case using S(2) by simp
qed simp_all

lemma quote_hops_snoc:
  "xs \<noteq> [] \<Longrightarrow> quote_hops e i xs x = Inr r \<Longrightarrow> quote_exact_in e (last xs) b r = Inr out
     \<Longrightarrow> quote_hops e i (xs @ [b]) x = Inr out"
proof (induction xs arbitrary: i x rule: induct_list012)
  case (3 c d rest)
  then show ?case by (auto split: sum.splits)
qed simp_all

lemma quote_hops_prefix:
  assumes "xs \<noteq> []" "quote_hops e i (xs @ b # ys) x = Inr out"
  shows "\<exists>r o1. quote_hops e i xs x = Inr r \<and> quote_exact_in e (last xs) b r = Inr o1"
  using assms
proof (induction xs arbitrary: i x rule: induct_list012)
  case (2 c)
  then show ?case by (auto split: sum.splits)
next
  case (3 c d rest)
  then show ?case by (auto split: sum.splits)
qed simp

text \<open>The routes that the search ranges over, and their score.\<close>

definition route_of :: "engine \<Rightarrow> string \<Rightarrow> string \<Rightarrow> u64 \<Rightarrow> nat \<Rightarrow> string list \<Rightarrow> u64 \<Rightarrow> bool" where
  "route_of e token_in token_out x hops rt out \<longleftrightarrow> 2 \<le> length rt \<and> length rt \<le> hops + 1 \<and> distinct rt
     \<and> hd rt = token_in \<and> last rt = token_out \<and> quote_hops e 0 rt x = Inr out"

definition score :: "string list \<Rightarrow> u64 \<Rightarrow> u64" where
  "score rt out = (out * (10000 - min 9999 (7 * (of_nat (length rt - 1) - 1)))) div 10000"

lemma consider_route_cases:
  "consider_route e rt q best = best
     \<or> (best_path (consider_route e rt q best) = rt \<and> best_out (consider_route e rt q best) = q \<and> best_score (consider_route e rt q best) = score rt q)"
  by (simp add: consider_route_def score_def Let_def)

lemma consider_route_score:
  "score rt q \<le> best_score (consider_route e rt q best) \<and> best_score best \<le> best_score (consider_route e rt q best)"
  by (auto simp: consider_route_def score_def Let_def)

lemma foldl_inv: "P b \<Longrightarrow> (\<And>b y. P b \<Longrightarrow> y \<in> set ys \<Longrightarrow> P (f b y)) \<Longrightarrow> P (foldl f b ys)"
  by (induction ys arbitrary: b) auto

definition best_ok :: "engine \<Rightarrow> string \<Rightarrow> string \<Rightarrow> u64 \<Rightarrow> nat \<Rightarrow> best_route \<Rightarrow> bool" where
  "best_ok e token_in token_out x hops best \<longleftrightarrow> best_path best = [] \<and> best_out best = 0 \<and> best_score best = 0
     \<or> route_of e token_in token_out x hops (best_path best) (best_out best) \<and> best_score best = score (best_path best) (best_out best)"

lemma route_dfs_sound:
  "current \<noteq> [] \<Longrightarrow> hd current = token_in \<Longrightarrow> distinct current \<Longrightarrow> length current + left \<le> hops + 1
     \<Longrightarrow> quote_hops e 0 current x = Inr running \<Longrightarrow> best_ok e token_in token_out x hops best
     \<Longrightarrow> best_ok e token_in token_out x hops (route_dfs e all_tokens token_out left current running best)"
proof (induction left arbitrary: current running best)
  case 0
  then show ?case
    using consider_route_cases [of e current running best] by (auto simp: best_ok_def route_of_def)
next
  case (Suc left)
  show ?case
  proof (cases "last current = token_out \<and> length current \<ge> 2")
    case True
    then show ?thesis using Suc.prems consider_route_cases [of e current running best]
      by (auto simp: best_ok_def route_of_def)
  next
    case False
    have "best_ok e token_in token_out x hops (case quote_exact_in e (last current) nxt running of
        Inl _ \<Rightarrow> b | Inr out \<Rightarrow> route_dfs e all_tokens token_out left (current @ [nxt]) out b)"
      if "best_ok e token_in token_out x hops b" "nxt \<notin> set current" for b nxt
    proof (cases "quote_exact_in e (last current) nxt running")
      case (Inr out)
      then have "quote_hops e 0 (current @ [nxt]) x = Inr out" by (rule quote_hops_snoc [OF Suc.prems(1,5)])
      then show ?thesis using Inr that Suc.prems Suc.IH [of "current @ [nxt]" out b] by simp
    qed (use that in simp)
    then have "best_ok e token_in token_out x hops (foldl (\<lambda>b nxt. if nxt \<in> set current then b
             else case quote_exact_in e (last current) nxt running of
                    Inl _ \<Rightarrow> b
                  | Inr out \<Rightarrow> route_dfs e all_tokens token_out left (current @ [nxt]) out b) best all_tokens)"
      by (intro foldl_inv [of "best_ok e token_in token_out x hops"] Suc.prems(6)) simp
    then show ?thesis by (simp only: route_dfs.simps False if_False)
  qed
qed

lemma route_dfs_mono: "best_score best \<le> best_score (route_dfs e all_tokens token_out left current running best)"
proof (induction left arbitrary: current running best)
  case 0
  then show ?case using consider_route_score by simp
next
  case (Suc left)
  have "best_score best \<le> best_score (foldl (\<lambda>b nxt. if nxt \<in> set current then b
             else case quote_exact_in e (last current) nxt running of
                    Inl _ \<Rightarrow> b
                  | Inr out \<Rightarrow> route_dfs e all_tokens token_out left (current @ [nxt]) out b) best all_tokens)"
    by (rule foldl_inv [where P = "\<lambda>b. best_score best \<le> best_score b"])
      (auto split: sum.splits intro: Suc.IH order_trans)
  then show ?case using consider_route_score by simp
qed

lemma foldl_reaches:
  assumes "y \<in> set ys" "\<And>b y. m b \<le> m (f b y)" "\<And>b. (v :: 'b :: order) \<le> m (f b y)"
  shows "v \<le> m (foldl f b ys)"
proof -
  obtain us vs where "ys = us @ y # vs" using split_list [OF assms(1)] by blast
  moreover have "m c \<le> m (foldl f c vs)" for c
    by (rule foldl_inv [where P = "\<lambda>b. m c \<le> m b"]) (use assms(2) in \<open>auto intro: order_trans\<close>)
  ultimately show ?thesis using assms(3) by (auto intro: order_trans)
qed

lemma route_dfs_complete:
  "current \<noteq> [] \<Longrightarrow> quote_hops e 0 current x = Inr running \<Longrightarrow> rt = current @ ext \<Longrightarrow> distinct rt \<Longrightarrow> length ext \<le> left
     \<Longrightarrow> set ext \<subseteq> set all_tokens \<Longrightarrow> last rt = token_out \<Longrightarrow> 2 \<le> length rt \<Longrightarrow> quote_hops e 0 rt x = Inr out
     \<Longrightarrow> score rt out \<le> best_score (route_dfs e all_tokens token_out left current running best)"
proof (induction left arbitrary: current running ext best)
  case 0
  then show ?case using consider_route_score by simp
next
  case (Suc left)
  show ?case
  proof (cases ext)
    case Nil
    then show ?thesis using Suc.prems consider_route_score by simp
  next
    case (Cons n ext')
    have ne: "last current \<noteq> token_out"
      using Suc.prems(1,3,4,7) Cons by (metis append_is_Nil_conv disjoint_iff distinct_append last_appendR last_in_set list.distinct(1))
    have n: "n \<in> set all_tokens" "n \<notin> set current" using Suc.prems(3,4,6) Cons by auto
    obtain o1 where o1: "quote_exact_in e (last current) n running = Inr o1"
      using quote_hops_prefix [of current e 0 n ext' x out] Suc.prems(1,2,3,9) Cons by auto
    have c1: "quote_hops e 0 (current @ [n]) x = Inr o1" by (rule quote_hops_snoc [OF Suc.prems(1,2) o1])
    have "score rt out \<le> best_score (route_dfs e all_tokens token_out left (current @ [n]) o1 b)" for b
      by (rule Suc.IH [OF _ c1, of ext']) (use Suc.prems Cons in auto)
    then have "score rt out \<le> best_score (foldl (\<lambda>b nxt. if nxt \<in> set current then b
             else case quote_exact_in e (last current) nxt running of
                    Inl _ \<Rightarrow> b
                  | Inr out \<Rightarrow> route_dfs e all_tokens token_out left (current @ [nxt]) out b) best all_tokens)"
      by (intro foldl_reaches [where m = best_score, OF n(1)])
        (simp_all add: n(2) o1 route_dfs_mono split: sum.split)
    then show ?thesis using ne by simp
  qed
qed

lemma quote_hops_pools:
  assumes "pools e' = pools e"
  shows "quote_hops e' i rt x = quote_hops e i rt x"
  using quote_pools [OF assms] by (induction rt arbitrary: i x rule: induct_list012) (simp_all split: sum.split)

text \<open>
  A routed swap that succeeds over a route without repeated tokens pays exactly what the route quote
  announces for the state before the swap, and at least the trader's limit.
\<close>

theorem routed_swap_pays_quote:
  assumes run: "token_run e" and sw: "swap_route_exact_in e rt trader x min_out = (Inr out, e')" and rt: "distinct rt"
  shows "quote_route_exact_in e rt x = Inr out \<and> min_out \<le> out"
proof -
  note ok = token_run_ok [OF run]
  obtain q where q: "quote_route_exact_in e rt x = Inr q"
    using sw by (auto simp: swap_route_exact_in_def split: if_splits sum.splits)
  then obtain a b rest where r: "rt = a # b # rest"
    by (cases rt rule: remdups_adj.cases) (auto simp: quote_route_exact_in_def split: if_splits)
  let ?e0 = "touch_bal e a trader"
  have hops: "swap_hops ?e0 trader min_out 0 rt x = (Inr out, e')"
    using sw q unfolding swap_route_exact_in_def
    by (auto simp: Let_def r simp del: swap_hops.simps split: if_splits prod.splits sum.splits)
  obtain o1 where "quote_exact_in e a b x = Inr o1"
    using q by (auto simp: quote_route_exact_in_def r split: if_splits sum.splits)
  then obtain p where p: "pools e (pool_key a b) = Some p" using quote_ok [OF ok] by blast
  have e0: "engine_ok ?e0" using touch_bal_ok(1) [OF ok pool_of_key(3) [OF ok p]] .
  have "quote_hops ?e0 0 rt x = quote_hops e 0 rt x" by (rule quote_hops_pools) simp
  then show ?thesis
    using swap_hops_pay_quote [OF e0 rt hops] swap_hops_ok [OF e0 hops] q r
    by (simp add: quote_route_exact_in_def split: if_splits)
qed

lemma demo_route: "swap_route_exact_in (demo_market 990 990 10 10 10) [''AA'', ''BB''] ''o'' 5 1 = (Inr 3, demo_market 985 993 15 7 10)"
proof -
  have t: "touch_bal (demo_market 990 990 10 10 10) ''AA'' ''o'' = demo_market 990 990 10 10 10"
    by (simp add: touch_bal_def put_tok_def tok_def demo_market_def demo_token_def fresh_token_def touch_def fun_upd_twist)
  have b: "\<not> bal_in (demo_market 990 990 10 10 10) ''AA'' ''o'' < 5"
    by (simp add: bal_in_def tok_def demo_market_def demo_token_def)
  show ?thesis
    by (simp add: swap_route_exact_in_def quote_route_exact_in_def demo_quote t b demo_swap)
qed

theorem routed_swap_pays_quote_witness:
  "quote_route_exact_in (demo_market 990 990 10 10 10) [''AA'', ''BB''] 5 = Inr 3 \<and> (1 :: u64) \<le> 3"
  by (rule routed_swap_pays_quote [OF demo_market_run demo_route]) simp

text \<open>
  The route search returns a route from the input to the output token that repeats no token, has at most the
  allowed number of hops (clamped to 1..4), and whose quote is the announced amount; and no other such route over
  existing tokens has a better score, the quoted output less 7 basis points for each hop after the first.
\<close>

theorem best_route_optimal:
  assumes "best_route_exact_in e all_tokens token_in token_out x max_hops = Inr (rt, out)"
    and "hops = max 1 (min 4 max_hops)"
  shows "route_of e token_in token_out x hops rt out \<and> quote_route_exact_in e rt x = Inr out
    \<and> (\<forall>rt' out'. route_of e token_in token_out x hops rt' out' \<longrightarrow> set rt' \<subseteq> set all_tokens \<longrightarrow> score rt' out' \<le> score rt out)"
proof -
  define best where "best = route_dfs e all_tokens token_out hops [token_in] x
      \<lparr>best_out = 0, best_score = 0, best_bottleneck = 0, best_path = []\<rparr>"
  have x: "x \<noteq> 0" and io: "token_in \<noteq> token_out" and b: "best_path best = rt" "best_out best = out" "rt \<noteq> []"
    using assms by (auto simp: best_route_exact_in_def best_def Let_def max_def min_def split: if_splits)
  have "best_ok e token_in token_out x hops best"
    unfolding best_def by (rule route_dfs_sound) (auto simp: best_ok_def)
  then have r: "route_of e token_in token_out x hops rt out" "best_score best = score rt out"
    using b by (auto simp: best_ok_def)
  have "score rt' out' \<le> score rt out"
    if v: "route_of e token_in token_out x hops rt' out'" and sub: "set rt' \<subseteq> set all_tokens" for rt' out'
  proof -
    obtain ext where ext: "rt' = [token_in] @ ext" using v by (cases rt') (auto simp: route_of_def)
    show ?thesis unfolding r(2) [symmetric] best_def
      by (rule route_dfs_complete [where ext = ext, OF _ _ ext]) (use v sub ext in \<open>auto simp: route_of_def\<close>)
  qed
  then show ?thesis using r(1) x by (auto simp: route_of_def quote_route_exact_in_def)
qed

lemma demo_best: "best_route_exact_in (demo_market 990 990 10 10 10) [''AA'', ''BB''] ''AA'' ''BB'' 5 1 = Inr ([''AA'', ''BB''], 3)"
  by (simp add: best_route_exact_in_def demo_quote consider_route_def Let_def demo_key del: bottleneck.simps)

theorem best_route_optimal_witness:
  "quote_route_exact_in (demo_market 990 990 10 10 10) [''AA'', ''BB''] 5 = Inr 3"
  using best_route_optimal [OF demo_best refl] by simp

end
