(* ===== verification/Text_IO.thy ===== *)
theory Text_IO
  imports Addition_Prelude
begin

text \<open>
  The parts of the C++ standard library that the text formats of the node use: \<^verbatim>\<open>std::getline\<close> with a
  delimiter, \<^verbatim>\<open>operator>>\<close> on strings and unsigned integers, \<^verbatim>\<open>std::stoull\<close>, and ordered maps keyed by
  integers. The lemmas are the round trips that the component formats need.
\<close>

section \<open>Definitions\<close>

text \<open>\<^verbatim>\<open>isspace\<close> of the C locale.\<close>

definition is_space :: "char \<Rightarrow> bool" where
  "is_space c \<longleftrightarrow> (let n = of_char c :: nat in n = 32 \<or> (9 \<le> n \<and> n \<le> 13))"

text \<open>The strings that a loop \<^verbatim>\<open>while (std::getline(in, cur, d))\<close> sees.\<close>

lemma length_tl_dropWhile: "length (tl (dropWhile P (c # s))) < length (c # s)"
proof -
  have "length (dropWhile P (c # s)) \<le> Suc (length s)" using length_dropWhile_le [of P "c # s"] by simp
  then have "length (dropWhile P (c # s)) - 1 < Suc (length s)" by linarith
  then show ?thesis by (simp only: length_tl list.size(4) add_0 plus_1_eq_Suc add_Suc_right add_0_right)
qed

function getlines :: "char \<Rightarrow> string \<Rightarrow> string list" where
  "getlines d [] = []"
| "getlines d (c # s) = takeWhile (\<lambda>x. x \<noteq> d) (c # s) # getlines d (tl (dropWhile (\<lambda>x. x \<noteq> d) (c # s)))"
  by pat_completeness auto
termination
  by (relation "measure (\<lambda>(d, s). length s)") (simp_all only: in_measure case_prod_conv length_tl_dropWhile wf_measure)

declare getlines.simps(2) [simp del]

text \<open>\<^verbatim>\<open>in >> word\<close>: the word and the rest of the stream, \<open>None\<close> when only white space is left.\<close>

definition read_word :: "string \<Rightarrow> (string \<times> string) option" where
  "read_word s =
     (let r = dropWhile is_space s in
      if r = [] then None else Some (takeWhile (\<lambda>c. \<not> is_space c) r, dropWhile (\<lambda>c. \<not> is_space c) r))"

text \<open>
  \<^verbatim>\<open>in >> n\<close> for an unsigned integer below \<open>m\<close>: without input the variable keeps its value, a text that
  is no number stores 0 and a number out of range stores the maximum (both set \<^verbatim>\<open>failbit\<close>).
\<close>

datatype num_read = NoInput | Failed nat | Got nat string

definition read_uint :: "nat \<Rightarrow> string \<Rightarrow> num_read" where
  "read_uint m s =
     (let r = dropWhile is_space s in
      if r = [] then NoInput
      else
        (let neg = (hd r = CHR ''-'');
             r = (if hd r = CHR ''-'' \<or> hd r = CHR ''+'' then tl r else r);
             ds = takeWhile is_digit_char r in
         if ds = [] then Failed 0
         else if undec ds \<ge> m then Failed (m - 1)
         else Got (if neg then (m - undec ds) mod m else undec ds) (dropWhile is_digit_char r)))"

text \<open>\<^verbatim>\<open>std::stoull\<close>: \<open>None\<close> is an exception.\<close>

definition stoull :: "string \<Rightarrow> u64 option" where
  "stoull s =
     (case read_uint (2 ^ 64) s of Got n _ \<Rightarrow> Some (of_nat n) | _ \<Rightarrow> None)"

text \<open>\<^verbatim>\<open>std::map\<close> and \<^verbatim>\<open>std::multimap\<close> as association lists in key order.\<close>

fun omap_ins :: "'k::linorder \<Rightarrow> 'v \<Rightarrow> ('k \<times> 'v) list \<Rightarrow> ('k \<times> 'v) list" where
  "omap_ins k v [] = [(k, v)]"
| "omap_ins k v ((k', v') # m) =
     (if k < k' then (k, v) # (k', v') # m
      else if k = k' then (k, v) # m
      else (k', v') # omap_ins k v m)"

fun mmap_ins :: "'k::linorder \<Rightarrow> 'v \<Rightarrow> ('k \<times> 'v) list \<Rightarrow> ('k \<times> 'v) list" where
  "mmap_ins k v [] = [(k, v)]"
| "mmap_ins k v ((k', v') # m) =
     (if k < k' then (k, v) # (k', v') # m else (k', v') # mmap_ins k v m)"

section \<open>Lemmas: ordered maps\<close>

lemma map_of_omap_ins: "map_of (omap_ins k v m) = (map_of m)(k \<mapsto> v)" if "sorted (map fst m)" "distinct (map fst m)"
  using that
proof (induction k v m rule: omap_ins.induct)
  case (2 k v k' v' m)
  show ?case
  proof (cases "k < k'")
    case True
    then show ?thesis by (auto simp: fun_eq_iff)
  next
    case False
    with 2 show ?thesis by (auto simp: fun_eq_iff)
  qed
qed auto

lemma set_omap_ins_keys: "fst ` set (omap_ins k v m) = insert k (fst ` set m)"
  by (induction k v m rule: omap_ins.induct) auto

lemma omap_ins_sorted:
  "sorted (map fst m) \<Longrightarrow> distinct (map fst m) \<Longrightarrow>
     sorted (map fst (omap_ins k v m)) \<and> distinct (map fst (omap_ins k v m))"
proof (induction k v m rule: omap_ins.induct)
  case (2 k v k' v' m)
  show ?case
  proof (cases "k < k'")
    case True
    with "2.prems" show ?thesis by auto
  next
    case False
    show ?thesis
    proof (cases "k = k'")
      case neq: False
      with False have lt: "k' < k" by simp
      have ks: "set (map fst (omap_ins k v m)) = insert k (fst ` set m)" by (simp add: set_omap_ins_keys)
      from "2.IH" False neq "2.prems" have "sorted (map fst (omap_ins k v m)) \<and> distinct (map fst (omap_ins k v m))" by simp
      moreover have "\<forall>x\<in>set (map fst (omap_ins k v m)). k' \<le> x" "k' \<notin> set (map fst (omap_ins k v m))"
        unfolding ks using "2.prems" lt by auto
      ultimately show ?thesis using False neq by simp
    qed (use False "2.prems" in auto)
  qed
qed auto

lemma omap_ins_last: "\<forall>x\<in>fst ` set m. x < k \<Longrightarrow> omap_ins k v m = m @ [(k, v)]"
  by (induction k v m rule: omap_ins.induct) auto

lemma mmap_ins_last: "\<forall>x\<in>fst ` set m. x \<le> k \<Longrightarrow> mmap_ins k v m = m @ [(k, v)]"
  by (induction k v m rule: mmap_ins.induct) (auto simp: not_less)

section \<open>Lemmas: lines and words\<close>

lemma getlines_piece:
  "d \<notin> set p \<Longrightarrow> getlines d (p @ d # s) = p # getlines d s"
  by (cases p) (auto simp: getlines.simps(2) takeWhile_append dropWhile_append)

lemma getlines_last: "d \<notin> set p \<Longrightarrow> p \<noteq> [] \<Longrightarrow> getlines d p = [p]"
proof (cases p)
  case (Cons c s)
  assume d: "d \<notin> set p"
  then have "\<forall>x\<in>set (c # s). x \<noteq> d" using Cons by auto
  then have "takeWhile (\<lambda>x. x \<noteq> d) (c # s) = c # s" "dropWhile (\<lambda>x. x \<noteq> d) (c # s) = []"
    by (simp_all only: takeWhile_eq_all_conv dropWhile_eq_Nil_conv)
  with Cons show ?thesis by (simp only: getlines.simps list.sel)
qed simp

lemma getlines_concat:
  "\<forall>p\<in>set ps. d \<notin> set p \<Longrightarrow> getlines d (concat (map (\<lambda>p. p @ [d]) ps) @ s) = ps @ getlines d s"
  by (induction ps) (auto simp: getlines_piece)

fun join_with :: "char \<Rightarrow> string list \<Rightarrow> string" where
  "join_with d [] = []"
| "join_with d [p] = p"
| "join_with d (p # q # ps) = p @ d # join_with d (q # ps)"

lemma getlines_join:
  "\<forall>p\<in>set ps. d \<notin> set p \<and> p \<noteq> [] \<Longrightarrow> getlines d (join_with d ps) = ps"
  by (induction d ps rule: join_with.induct) (auto simp: getlines_piece getlines_last)

lemma digit_no_space: "is_digit_char c \<Longrightarrow> \<not> is_space c"
  by (auto simp: is_digit_char_def is_space_def Let_def)

lemma space_no_digit: "is_space c \<Longrightarrow> \<not> is_digit_char c"
  using digit_no_space by blast

lemma dec_hd_digit: "is_digit_char (hd (dec n))"
  using dec_digits [of "hd (dec n)" n] by (simp add: hd_in_set)

lemma digit_no_sign: "is_digit_char c \<Longrightarrow> c \<noteq> CHR ''-'' \<and> c \<noteq> CHR ''+''"
  by (auto simp: is_digit_char_def)

lemma read_uint_dec:
  assumes "n < m" and "\<forall>c. is_digit_char c \<longrightarrow> hd (r @ '' '') \<noteq> c" and "\<forall>c\<in>set pre. is_space c"
  shows "read_uint m (pre @ dec n @ r) = Got n r"
proof -
  obtain c s where cs: "dec n = c # s" by (cases "dec n") simp_all
  have dg: "\<forall>x\<in>set (dec n). is_digit_char x" using dec_digits by blast
  have c: "is_digit_char c" "\<not> is_space c" "c \<noteq> CHR ''-''" "c \<noteq> CHR ''+''"
    using dg cs digit_no_space digit_no_sign [of c] by auto
  have dw: "dropWhile is_space (pre @ dec n @ r) = dec n @ r"
    using assms(3) c cs by (simp add: dropWhile_append2)
  have r: "r = [] \<or> \<not> is_digit_char (hd r)" using assms(2) by (cases r) auto
  have "takeWhile is_digit_char (dec n @ r) = dec n" "dropWhile is_digit_char (dec n @ r) = r"
    using dg r by (cases r; simp add: takeWhile_append2 dropWhile_append2)+
  moreover have "dec n @ r \<noteq> []" "hd (dec n @ r) = c" using cs by simp_all
  moreover have "undec (c # s) = n" using undec_dec [of n] cs by simp
  ultimately show ?thesis unfolding read_uint_def dw using c assms(1) cs by (simp add: Let_def)
qed

lemma stoull_to_string [simp]: "stoull (to_string (x :: u64)) = Some x"
proof -
  have "read_uint (2 ^ 64) ([] @ dec (unat x) @ []) = Got (unat x) []"
    by (rule read_uint_dec) (auto simp: is_digit_char_def)
  then show ?thesis by (simp add: stoull_def to_string_def)
qed

lemma read_word_token:
  assumes "w \<noteq> []" and "\<forall>c\<in>set w. \<not> is_space c" and "r = [] \<or> is_space (hd r)" and "\<forall>c\<in>set pre. is_space c"
  shows "read_word (pre @ w @ r) = Some (w, r)"
proof -
  have dw: "dropWhile is_space (pre @ w @ r) = w @ r"
    using assms by (cases w) (simp_all add: dropWhile_append2)
  have "takeWhile (\<lambda>c. \<not> is_space c) (w @ r) = w" "dropWhile (\<lambda>c. \<not> is_space c) (w @ r) = r"
    using assms(2,3) by (cases r; simp add: takeWhile_append2 dropWhile_append2)+
  with dw assms(1) show ?thesis by (simp add: read_word_def)
qed

lemma read_word_none: "\<forall>c\<in>set s. is_space c \<Longrightarrow> read_word s = None"
  by (simp add: read_word_def dropWhile_eq_Nil_conv)

end
