(* ===== verification/Text_Records.thy ===== *)
theory Text_Records
  imports Text_IO Crypto_Model
begin

text \<open>
  The line formats in which the node stores the state of its engines: one record per line, a tag and
  fields separated by bars, read back with \<^verbatim>\<open>std::getline(ls, field, '|')\<close>. Also the character functions
  and hexadecimal numbers that those engines use. The lemmas are the generic steps of a dump-and-load
  round trip.
\<close>

section \<open>Definitions\<close>

abbreviation bar :: char where "bar \<equiv> CHR ''|''"

text \<open>One call of \<^verbatim>\<open>std::getline(ls, f, d)\<close> on a fresh string \<open>f\<close>: the field and the rest of the stream.\<close>

definition getfield :: "char \<Rightarrow> string \<Rightarrow> string \<times> string" where
  "getfield d s = (takeWhile (\<lambda>c. c \<noteq> d) s, tl (dropWhile (\<lambda>c. c \<noteq> d) s))"

text \<open>\<open>n\<close> calls with the delimiter, then one \<^verbatim>\<open>std::getline(ls, f)\<close> for the rest of the line.\<close>

fun getfields :: "nat \<Rightarrow> string \<Rightarrow> string list" where
  "getfields 0 s = [s]"
| "getfields (Suc n) s = fst (getfield CHR ''|'' s) # getfields n (snd (getfield CHR ''|'' s))"

text \<open>\<^verbatim>\<open>std::tolower\<close> of the C locale on every character.\<close>

definition tolower :: "char \<Rightarrow> char" where
  "tolower c = (let n = of_char c :: nat in if 65 \<le> n \<and> n \<le> 90 then char_of (n + 32) else c)"

definition lower_copy :: "string \<Rightarrow> string" where
  "lower_copy s = map tolower s"

text \<open>\<^verbatim>\<open>s.find(p) != npos\<close>.\<close>

fun contains :: "string \<Rightarrow> string \<Rightarrow> bool" where
  "contains [] p = (p = [])"
| "contains (c # s) p = (take (length p) (c # s) = p \<or> contains s p)"

text \<open>A number written with \<^verbatim>\<open>std::hex\<close>, and \<^verbatim>\<open>std::stoull(s, nullptr, 16)\<close> on a text that starts with a digit.\<close>

fun hex_digits :: "nat \<Rightarrow> string" where
  "hex_digits n = (if n < 16 then [hex_char n] else hex_digits (n div 16) @ [hex_char (n mod 16)])"

declare hex_digits.simps [simp del]

definition hexnum :: "string \<Rightarrow> nat" where
  "hexnum s = foldl (\<lambda>a c. 16 * a + the (hex_val c)) 0 s"

definition stoull16 :: "string \<Rightarrow> u64 option" where
  "stoull16 s =
     (let ds = takeWhile is_hex_char s in
      if ds = [] \<or> hexnum ds \<ge> 2 ^ 64 then None else Some (of_nat (hexnum ds)))"

text \<open>
  The loop over the lines of a stored state. A step that fails leaves the state as far as it was
  loaded; an exception of \<^verbatim>\<open>std::stoull\<close> that leaves the loader counts as an error, too.
\<close>

fun load_lines :: "('s \<Rightarrow> string \<Rightarrow> unit res \<times> 's) \<Rightarrow> 's \<Rightarrow> string list \<Rightarrow> unit res \<times> 's" where
  "load_lines step st [] = (Inr (), st)"
| "load_lines step st (l # ls) =
     (case step st l of (Inl e, st') \<Rightarrow> (Inl e, st') | (Inr _, st') \<Rightarrow> load_lines step st' ls)"

definition newline :: char where "newline = CHR 0x0A"

text \<open>The text of a list of lines.\<close>

definition unlines :: "string list \<Rightarrow> string" where
  "unlines ls = concat (map (\<lambda>l. l @ [newline]) ls)"

text \<open>A truth value printed as 0 or 1.\<close>

definition flag01 :: "bool \<Rightarrow> string" where
  "flag01 b = (if b then ''1'' else ''0'')"

section \<open>Lemmas\<close>

text \<open>A field that may stand between bars.\<close>

definition bar_free :: "string \<Rightarrow> bool" where
  "bar_free s \<longleftrightarrow> CHR ''|'' \<notin> set s \<and> newline \<notin> set s"

lemma getfield_bar: "CHR ''|'' \<notin> set f \<Longrightarrow> getfield CHR ''|'' (f @ CHR ''|'' # r) = (f, r)"
  by (induction f) (auto simp: getfield_def)

lemma getfields_join:
  "\<forall>f\<in>set (butlast fs). CHR ''|'' \<notin> set f \<Longrightarrow> fs \<noteq> [] \<Longrightarrow> n = length fs - 1 \<Longrightarrow> getfields n (join_with CHR ''|'' fs) = fs"
proof (induction fs arbitrary: n)
  case (Cons f fs)
  show ?case
  proof (cases fs)
    case (Cons g gs)
    then have "getfields (Suc (length gs)) (join_with CHR ''|'' (f # fs)) = f # getfields (length gs) (join_with CHR ''|'' fs)"
      using Cons.prems(1) by (simp add: getfield_bar)
    then show ?thesis using Cons.IH [of "length gs"] Cons.prems local.Cons by simp
  qed (use Cons.prems in simp)
qed simp

lemma join_no_newline: "\<forall>f\<in>set fs. newline \<notin> set f \<Longrightarrow> newline \<notin> set (join_with CHR ''|'' fs)"
  by (induction "CHR ''|''" fs rule: join_with.induct) (auto simp: newline_def)

lemma load_lines_append:
  "load_lines step st (xs @ ys) = (case load_lines step st xs of (Inl e, st') \<Rightarrow> (Inl e, st') | (Inr _, st') \<Rightarrow> load_lines step st' ys)"
  by (induction xs arbitrary: st) (auto split: sum.splits prod.splits)

lemma load_lines_map:
  "(\<And>s x. x \<in> set xs \<Longrightarrow> step s (line x) = (Inr (), upd x s)) \<Longrightarrow> load_lines step st (map line xs) = (Inr (), fold upd xs st)"
  by (induction xs arbitrary: st) auto

lemma getlines_unlines: "\<forall>l\<in>set ls. newline \<notin> set l \<Longrightarrow> getlines newline (unlines ls) = ls"
  using getlines_concat [of ls newline "[]"] by (simp add: unlines_def)

text \<open>Inserting the entries of a table in any order of its keys rebuilds the table.\<close>

lemma fold_updates:
  "distinct ks \<Longrightarrow> fold (\<lambda>k m. m(k := g k)) ks m = (\<lambda>k. if k \<in> set ks then g k else m k)"
  by (induction ks arbitrary: m) (auto simp: fun_eq_iff)

lemma hex_val_char: "d < 16 \<Longrightarrow> hex_val (hex_char d) = Some d"
  by (auto simp: hex_val_def hex_char_def Let_def)

lemma hexnum_snoc: "hexnum (s @ [c]) = 16 * hexnum s + the (hex_val c)"
  by (simp add: hexnum_def)

lemma hex_digits_hex: "c \<in> set (hex_digits n) \<Longrightarrow> is_hex_char c"
proof (induction n rule: hex_digits.induct)
  case (1 n)
  show ?case
    using "1.IH" "1.prems" by (subst (asm) (2) hex_digits.simps) (auto simp: is_hex_char_def hex_val_char split: if_splits)
qed

lemma hexnum_hex_digits [simp]: "hexnum (hex_digits n) = n"
proof (induction n rule: hex_digits.induct)
  case (1 n)
  show ?case
  proof (cases "n < 16")
    case True
    then show ?thesis by (simp add: hex_digits.simps [of n] hexnum_def hex_val_char)
  next
    case False
    with 1 show ?thesis by (simp add: hex_digits.simps [of n] hexnum_snoc hex_val_char)
  qed
qed

lemma hex_digits_nonempty [simp]: "hex_digits n \<noteq> []"
  by (subst hex_digits.simps) simp

lemma length_hex_digits: "n < 16 ^ k \<Longrightarrow> 0 < k \<Longrightarrow> length (hex_digits n) \<le> k"
proof (induction k arbitrary: n)
  case (Suc k)
  show ?case
  proof (cases "n < 16")
    case False
    then have "0 < k" using Suc.prems by (cases k) auto
    moreover have "n div 16 < 16 ^ k" using Suc.prems(1) by (simp add: less_mult_imp_div_less mult.commute)
    ultimately show ?thesis using Suc.IH False by (simp add: hex_digits.simps [of n])
  qed (simp add: hex_digits.simps [of n])
qed simp

lemma stoull16_hex_digits: "stoull16 (hex_digits (unat x)) = Some (x :: u64)"
proof -
  have "takeWhile is_hex_char (hex_digits (unat x)) = hex_digits (unat x)"
    using hex_digits_hex by (simp add: takeWhile_eq_all_conv)
  moreover have "\<not> 2 ^ 64 \<le> unat x" using unat_u64_bound [of x] by (simp add: not_le del: unat_u64_bound)
  ultimately show ?thesis unfolding stoull16_def Let_def by (simp only: hexnum_hex_digits hex_digits_nonempty) simp
qed

section \<open>Lines of fields\<close>

lemma dec_text [simp]: "bar \<notin> set (dec n)" "newline \<notin> set (dec n)"
  using dec_digits [of bar n] dec_digits [of newline n] by (auto simp: newline_def is_digit_char_def)

lemma to_string_text [simp]: "bar \<notin> set (to_string n)" "newline \<notin> set (to_string n)" "to_string n \<noteq> []" for n :: u64
  by (simp_all add: to_string_def)

lemma getlines_fields: "\<forall>p\<in>set ps. d \<notin> set p \<Longrightarrow> ps \<noteq> [] \<Longrightarrow> last ps \<noteq> [] \<Longrightarrow> getlines d (join_with d ps) = ps"
  by (induction d ps rule: join_with.induct) (auto simp: getlines_piece getlines_last)

lemma tag_line: "c \<noteq> bar \<Longrightarrow> fs \<noteq> [] \<Longrightarrow> getfield bar (join_with bar ([c] # fs)) = ([c], join_with bar fs)"
  by (cases fs) (simp_all add: getfield_def)

lemma getfield_tag: "c \<noteq> bar \<Longrightarrow> getfield bar (c # bar # r) = ([c], r)"
  by (simp add: getfield_def)

lemma join_nonempty: "c \<noteq> [] \<Longrightarrow> join_with d (c # fs) \<noteq> []"
  by (cases fs) auto

lemma fold_field_upd:
  "fold (\<lambda>u m. m(u \<mapsto> g u)) us m = (\<lambda>u. if u \<in> set us then Some (g u) else m u)"
  by (induction us arbitrary: m) (auto simp: fun_eq_iff)

lemma restore_map: "n = Map.empty \<Longrightarrow> (\<lambda>u. if u \<in> dom m then Some (bal m u) else n u) = m"
  by (auto simp: fun_eq_iff bal_def domIff split: option.splits)

lemma restore_table: "set ks = dom m \<Longrightarrow> (\<lambda>k. if k \<in> set ks then Some (the (m k)) else None) = m"
  by (auto simp: fun_eq_iff)

lemma flag01_text [simp]: "bar \<notin> set (flag01 b)" "newline \<notin> set (flag01 b)" "(flag01 b = ''1'') = b"
  by (auto simp: flag01_def newline_def)

text \<open>Loading the entries of one table in the order of its keys.\<close>

lemma load_table:
  assumes "\<And>k e. k \<in> set ks \<Longrightarrow> tab e k = None \<Longrightarrow> load_lines step e (ln k) = (Inr (), put e k)"
    and "\<And>k e j. tab (put e k) j = (if j = k then v k else tab e j)"
  shows "distinct ks \<Longrightarrow> \<forall>k\<in>set ks. tab e k = None \<Longrightarrow> load_lines step e (concat (map ln ks)) = (Inr (), fold (\<lambda>k e. put e k) ks e)"
  using assms(1)
proof (induction ks arbitrary: e)
  case (Cons k ks)
  then have "load_lines step e (ln k) = (Inr (), put e k)" by simp
  moreover have "load_lines step (put e k) (concat (map ln ks)) = (Inr (), fold (\<lambda>k e. put e k) ks (put e k))"
    by (rule Cons.IH) (use Cons.prems assms(2) in auto)
  ultimately show ?case by (simp add: load_lines_append)
qed simp

end
