(* ===== verification/Token_Store.thy ===== *)
theory Token_Store
  imports Token_Engine Text_Records
begin

text \<open>
  The state file of the token engine (\<^verbatim>\<open>token_engine.cpp\<close>, \<^verbatim>\<open>dump_state\<close> and \<^verbatim>\<open>load_state\<close>): the lines that
  are written, in the iteration order of the hash tables, and the loader with its three generations of
  token lines. The lemmas show that the file restores the engine, and what a bar in a name does to it.
\<close>

section \<open>Writing the engine\<close>

text \<open>The iteration orders of the hash tables.\<close>

record token_order =
  to_tokens :: "string list"
  to_balances :: "string \<Rightarrow> string list"
  to_blacklist :: "string \<Rightarrow> string list"
  to_exempt :: "string \<Rightarrow> string list"
  to_collections :: "string list"
  to_nfts :: "string \<Rightarrow> string list"
  to_pools :: "string list"
  to_lps :: "string \<Rightarrow> string list"

definition token_fields :: "string \<Rightarrow> token \<Rightarrow> string list" where
  "token_fields sy t =
     [sy, t_name t, t_owner t, dec (unat (t_decimals t)), flag01 (burnable t), dev_wallet t, to_string (dev_allocation t),
      treasury_wallet t, to_string (transfer_fee_bps t), to_string (burn_fee_bps t), flag01 (paused t),
      to_string (max_tx_amount t), to_string (max_wallet_amount t), to_string (t_max_supply t), to_string (total_supply t)]"

definition token_lines :: "token_order \<Rightarrow> string \<Rightarrow> token \<Rightarrow> string list" where
  "token_lines od sy t =
     [join_with bar (''T'' # token_fields sy t)]
     @ map (\<lambda>a. join_with bar [''B'', sy, a, to_string (bal (balances t) a)]) (to_balances od sy)
     @ map (\<lambda>w. join_with bar [''X'', sy, w]) (to_blacklist od sy)
     @ map (\<lambda>w. join_with bar [''E'', sy, w]) (to_exempt od sy)"

definition nft_lines :: "token_order \<Rightarrow> string \<Rightarrow> (string \<rightharpoonup> nft_asset) \<Rightarrow> string list" where
  "nft_lines od col assets =
     map (\<lambda>i. join_with bar [''N'', col, i, nft_owner (the (assets i)), nft_metadata (the (assets i))]) (to_nfts od col)"

definition pool_lines_of :: "token_order \<Rightarrow> string \<Rightarrow> pool \<Rightarrow> string list" where
  "pool_lines_of od k p =
     [join_with bar [''P'', token0 p, token1 p, to_string (reserve0 p), to_string (reserve1 p), to_string (fee_bps p), to_string (lp_total_supply p)]]
     @ map (\<lambda>o'. join_with bar [''L'', token0 p, token1 p, o', to_string (bal (lp_balances p) o')]) (to_lps od k)"

definition tokens_dump_state :: "token_order \<Rightarrow> engine \<Rightarrow> string" where
  "tokens_dump_state od e =
     unlines (concat (map (\<lambda>sy. token_lines od sy (the (tokens e sy))) (to_tokens od))
       @ concat (map (\<lambda>c. nft_lines od c (the (nfts e c))) (to_collections od))
       @ concat (map (\<lambda>k. pool_lines_of od k (the (pools e k))) (to_pools od)))"

section \<open>Reading the engine\<close>

text \<open>\<^verbatim>\<open>parse_u64_field\<close>: the whole text is one number.\<close>

definition parse_u64_field :: "string \<Rightarrow> u64 option" where
  "parse_u64_field s = (case read_uint (2 ^ 64) s of Got n r \<Rightarrow> if r = [] then Some (of_nat n) else None | _ \<Rightarrow> None)"

text \<open>A number field that may be left empty.\<close>

definition stoull_or :: "u64 \<Rightarrow> string \<Rightarrow> u64 option" where
  "stoull_or d s = (if s = [] then Some d else stoull s)"

text \<open>
  The three formats of a token line, the oldest with four fields. \<open>None\<close> is an exception of the number
  parser.
\<close>

definition parse_token :: "string list \<Rightarrow> (string \<times> token) option" where
  "parse_token ps =
     (let common = (\<lambda>max_tx max_wallet mx tot.
        do { decimals \<leftarrow> stoull_or 18 (ps ! 3); dev \<leftarrow> stoull_or 0 (ps ! 6); tfb \<leftarrow> stoull_or 0 (ps ! 8); bfb \<leftarrow> stoull_or 0 (ps ! 9);
             mtx \<leftarrow> max_tx; mw \<leftarrow> max_wallet; ms \<leftarrow> stoull mx; ts \<leftarrow> stoull tot;
             Some (ps ! 0, fresh_token\<lparr>t_name := (if ps ! 1 = [] then ps ! 0 else ps ! 1), t_owner := ps ! 2, t_decimals := ucast decimals,
               burnable := (ps ! 4 = ''1''), dev_wallet := ps ! 5, dev_allocation := dev, treasury_wallet := ps ! 7,
               transfer_fee_bps := tfb, burn_fee_bps := bfb, paused := (ps ! 10 = ''1''), max_tx_amount := mtx,
               max_wallet_amount := mw, t_max_supply := ms, total_supply := ts\<rparr>) })
      in if length ps \<ge> 15 then common (stoull_or 0 (ps ! 11)) (stoull_or 0 (ps ! 12)) (ps ! 13) (ps ! 14)
         else if length ps \<ge> 13 then common (Some 0) (Some 0) (ps ! 11) (ps ! 12)
         else do { ms \<leftarrow> stoull (ps ! 2); ts \<leftarrow> stoull (ps ! 3);
                   Some (ps ! 0, fresh_token\<lparr>t_name := ps ! 0, t_owner := ps ! 1, t_max_supply := ms, total_supply := ts\<rparr>) })"

text \<open>\<^verbatim>\<open>pools_[key]\<close> inserts a value-initialised pool.\<close>

definition fresh_pool :: pool where
  "fresh_pool = \<lparr>token0 = [], token1 = [], reserve0 = 0, reserve1 = 0, fee_bps = 30, lp_total_supply = 0, lp_balances = Map.empty\<rparr>"

definition pool_at :: "engine \<Rightarrow> string \<Rightarrow> pool" where
  "pool_at e k = (case pools e k of None \<Rightarrow> fresh_pool | Some p \<Rightarrow> p)"

definition col_at :: "engine \<Rightarrow> string \<Rightarrow> (string \<rightharpoonup> nft_asset)" where
  "col_at e c = (case nfts e c of None \<Rightarrow> Map.empty | Some m \<Rightarrow> m)"

definition put_col :: "engine \<Rightarrow> string \<Rightarrow> (string \<rightharpoonup> nft_asset) \<Rightarrow> engine" where
  "put_col e c m = e\<lparr>nfts := (nfts e)(c \<mapsto> m)\<rparr>"

definition load_pool_fields :: "engine \<Rightarrow> string list \<Rightarrow> unit res \<times> engine" where
  "load_pool_fields e ps =
     (let fs = (if length ps = 6 then ps else if length ps = 8 then drop 2 ps else []) in
      if fs = [] then (Inl ''invalid pool line'', e)
      else if pool_key (fs ! 0) (fs ! 1) = [] then (Inl ''invalid pool line'', e)
      else case (parse_u64_field (fs ! 2), parse_u64_field (fs ! 3), parse_u64_field (fs ! 4), parse_u64_field (fs ! 5)) of
             (Some r0, Some r1, Some f, Some lp) \<Rightarrow>
               (Inr (), put_pool e (pool_key (fs ! 0) (fs ! 1))
                  \<lparr>token0 = fs ! 0, token1 = fs ! 1, reserve0 = r0, reserve1 = r1, fee_bps = f, lp_total_supply = lp, lp_balances = Map.empty\<rparr>)
           | _ \<Rightarrow> (Inl ''invalid pool line'', e))"

definition load_lp_fields :: "engine \<Rightarrow> string list \<Rightarrow> unit res \<times> engine" where
  "load_lp_fields e ps =
     (if length ps \<noteq> 4 then (Inl ''invalid lp line'', e)
      else
        (let k = pool_key (ps ! 0) (ps ! 1) in
         if k = [] \<or> ps ! 2 = [] then (Inl ''invalid lp line'', e)
         else case parse_u64_field (ps ! 3) of
                None \<Rightarrow> (Inl ''invalid lp line'', e)
              | Some b \<Rightarrow> (Inr (), put_pool e k ((pool_at e k)\<lparr>lp_balances := (lp_balances (pool_at e k))(ps ! 2 \<mapsto> b)\<rparr>))))"

text \<open>
  One line of \<^verbatim>\<open>load_state\<close>. A number that \<^verbatim>\<open>std::stoull\<close> refuses is an exception, which the handler of
  the function turns into an error with all tables cleared; the other errors leave what was loaded.
\<close>

definition token_exception :: "unit res \<times> engine" where
  "token_exception = (Inl ''invalid token state'', TokenEngine_init)"

definition load_token_line :: "engine \<Rightarrow> string \<Rightarrow> unit res \<times> engine" where
  "load_token_line e line =
     (if line = [] then (Inr (), e)
      else
        (let (tag, r) = getfield bar line in
         if tag = ''T'' then
           (let ps = getlines bar r in
            if length ps < 4 then (Inl ''invalid token state line'', e)
            else case parse_token ps of
                   None \<Rightarrow> token_exception
                 | Some (sy, t) \<Rightarrow>
                     if sy = [] \<or> t_owner t = [] then (Inl ''invalid token state line'', e) else (Inr (), put_tok e sy t))
         else if tag = ''B'' then
           (let fs = getfields 2 r; sy = fs ! 0; a = fs ! 1 in
            if sy = [] \<or> a = [] then (Inl ''invalid token balance line'', e)
            else case stoull (fs ! 2) of None \<Rightarrow> token_exception | Some b \<Rightarrow> (Inr (), set_bal e sy a b))
         else if tag = ''N'' then
           (let fs = getfields 3 r; c = fs ! 0; i = fs ! 1; own = fs ! 2 in
            if c = [] \<or> i = [] \<or> own = [] then (Inl ''invalid nft line'', e)
            else (Inr (), put_col e c ((col_at e c)(i \<mapsto> \<lparr>nft_owner = own, nft_metadata = fs ! 3\<rparr>))))
         else if tag = ''P'' then load_pool_fields e (getlines bar r)
         else if tag = ''L'' then load_lp_fields e (getlines bar r)
         else if tag = ''X'' then
           (let fs = getfields 1 r; sy = fs ! 0; w = fs ! 1 in
            if sy = [] \<or> w = [] then (Inl ''invalid blacklist line'', e)
            else (Inr (), put_tok e sy ((tok e sy)\<lparr>blacklist := insert w (blacklist (tok e sy))\<rparr>)))
         else if tag = ''E'' then
           (let fs = getfields 1 r; sy = fs ! 0; w = fs ! 1 in
            if sy = [] \<or> w = [] then (Inl ''invalid fee exempt line'', e)
            else (Inr (), put_tok e sy ((tok e sy)\<lparr>fee_exempt := insert w (fee_exempt (tok e sy))\<rparr>)))
         else (Inr (), e)))"

definition tokens_load_state :: "string \<Rightarrow> unit res \<times> engine" where
  "tokens_load_state state = load_lines load_token_line TokenEngine_init (getlines newline state)"


section \<open>Dump and load\<close>

text \<open>
  The engines that the text format can carry: names without bars and line breaks, and non-empty where
  the loader insists; the iteration orders enumerate the tables.
\<close>

definition word_field :: "string \<Rightarrow> bool" where
  "word_field s \<longleftrightarrow> s \<noteq> [] \<and> bar_free s"

definition token_text :: "token_order \<Rightarrow> string \<Rightarrow> token \<Rightarrow> bool" where
  "token_text od sy t \<longleftrightarrow> word_field sy \<and> word_field (t_name t) \<and> word_field (t_owner t) \<and> bar_free (dev_wallet t) \<and> bar_free (treasury_wallet t)
     \<and> set (to_balances od sy) = dom (balances t) \<and> list_all word_field (to_balances od sy)
     \<and> set (to_blacklist od sy) = blacklist t \<and> list_all (\<lambda>w. w \<noteq> [] \<and> newline \<notin> set w) (to_blacklist od sy)
     \<and> set (to_exempt od sy) = fee_exempt t \<and> list_all (\<lambda>w. w \<noteq> [] \<and> newline \<notin> set w) (to_exempt od sy)"

definition col_text :: "token_order \<Rightarrow> string \<Rightarrow> (string \<rightharpoonup> nft_asset) \<Rightarrow> bool" where
  "col_text od c m \<longleftrightarrow> word_field c \<and> m \<noteq> Map.empty \<and> set (to_nfts od c) = dom m
     \<and> list_all (\<lambda>i. word_field i \<and> word_field (nft_owner (the (m i))) \<and> newline \<notin> set (nft_metadata (the (m i)))) (to_nfts od c)"

definition pair_text :: "token_order \<Rightarrow> string \<Rightarrow> pool \<Rightarrow> bool" where
  "pair_text od k p \<longleftrightarrow> k \<noteq> [] \<and> pool_key (token0 p) (token1 p) = k \<and> set (to_lps od k) = dom (lp_balances p) \<and> list_all word_field (to_lps od k)"

definition engine_text :: "token_order \<Rightarrow> engine \<Rightarrow> bool" where
  "engine_text od e \<longleftrightarrow>
     set (to_tokens od) = dom (tokens e) \<and> distinct (to_tokens od) \<and> (\<forall>sy t. tokens e sy = Some t \<longrightarrow> token_text od sy t)
     \<and> set (to_collections od) = dom (nfts e) \<and> distinct (to_collections od) \<and> (\<forall>c m. nfts e c = Some m \<longrightarrow> col_text od c m)
     \<and> set (to_pools od) = dom (pools e) \<and> distinct (to_pools od) \<and> (\<forall>k p. pools e k = Some p \<longrightarrow> pair_text od k p)"

lemma parse_u64_to_string [simp]: "parse_u64_field (to_string (n :: u64)) = Some n"
proof -
  have "read_uint (2 ^ 64) ([] @ dec (unat n) @ []) = Got (unat n) []"
    by (rule read_uint_dec) (auto simp: is_digit_char_def)
  then show ?thesis by (simp add: parse_u64_field_def to_string_def)
qed


lemma stoull_dec_u32: "stoull (dec (unat (d :: u32))) = Some (of_nat (unat d))"
proof -
  have "read_uint (2 ^ 64) ([] @ dec (unat d) @ []) = Got (unat d) []"
    by (rule read_uint_dec) (use unat_u32_bound [of d] in \<open>auto simp: is_digit_char_def simp del: unat_u32_bound\<close>)
  then show ?thesis by (simp add: stoull_def)
qed

lemma token_fields_text:
  assumes "word_field sy" and "word_field (t_name t)" and "word_field (t_owner t)" and "bar_free (dev_wallet t)" and "bar_free (treasury_wallet t)"
  shows "\<forall>f\<in>set (token_fields sy t). bar \<notin> set f \<and> newline \<notin> set f"
  using assms by (simp add: token_fields_def word_field_def bar_free_def)

lemma parse_token_fields:
  assumes "t_name t \<noteq> []"
  shows "parse_token (token_fields sy t) = Some (sy, t\<lparr>balances := Map.empty, blacklist := {}, fee_exempt := {}\<rparr>)"
proof -
  have u: "ucast (ucast d :: u64) = d" for d :: u32
    by transfer simp
  show ?thesis
    using assms by (cases t) (simp add: token_fields_def parse_token_def stoull_or_def stoull_dec_u32 fresh_token_def u)
qed

lemma load_T:
  assumes "token_text od sy t"
  shows "load_token_line e (join_with bar (''T'' # token_fields sy t)) = (Inr (), put_tok e sy (t\<lparr>balances := Map.empty, blacklist := {}, fee_exempt := {}\<rparr>))"
proof -
  have w: "word_field sy" "word_field (t_name t)" "word_field (t_owner t)" "bar_free (dev_wallet t)" "bar_free (treasury_wallet t)"
    using assms by (auto simp: token_text_def)
  have g: "getlines bar (join_with bar (token_fields sy t)) = token_fields sy t"
    by (rule getlines_fields) (use token_fields_text [OF w] in \<open>auto simp: token_fields_def\<close>)
  have f: "getfield bar (join_with bar (''T'' # token_fields sy t)) = (''T'', join_with bar (token_fields sy t))"
    by (rule tag_line) (simp_all add: token_fields_def)
  have n: "join_with bar (''T'' # token_fields sy t) \<noteq> []" by (rule join_nonempty) simp
  have "\<not> length (token_fields sy t) < 4" by (simp add: token_fields_def)
  with n w(1-3) show ?thesis unfolding load_token_line_def f Let_def prod.case g parse_token_fields [of t sy]
    by (subst parse_token_fields) (simp_all add: word_field_def)
qed

lemma load_token_lines:
  assumes "word_field sy"
  shows "word_field a \<Longrightarrow> load_token_line e (join_with bar [''B'', sy, a, to_string n])
      = (Inr (), put_tok e sy ((tok e sy)\<lparr>balances := (balances (tok e sy))(a \<mapsto> n)\<rparr>))"
    and "w \<noteq> [] \<Longrightarrow> load_token_line e (join_with bar [''X'', sy, w]) = (Inr (), put_tok e sy ((tok e sy)\<lparr>blacklist := insert w (blacklist (tok e sy))\<rparr>))"
    and "w \<noteq> [] \<Longrightarrow> load_token_line e (join_with bar [''E'', sy, w]) = (Inr (), put_tok e sy ((tok e sy)\<lparr>fee_exempt := insert w (fee_exempt (tok e sy))\<rparr>))"
    and "word_field i \<Longrightarrow> word_field w \<Longrightarrow> load_token_line e (join_with bar [''N'', sy, i, w, m])
      = (Inr (), put_col e sy ((col_at e sy)(i \<mapsto> \<lparr>nft_owner = w, nft_metadata = m\<rparr>)))"
  using assms by (simp_all add: load_token_line_def getfield_tag word_field_def bar_free_def getfield_bar Let_def set_bal_def numeral_eq_Suc)

lemma token_name_plain: "token_name_ok s \<Longrightarrow> word_field s"
  by (auto simp: token_name_ok_def word_field_def bar_free_def newline_def list_all_iff)

lemma pool_key_names: "pool_key a b \<noteq> [] \<Longrightarrow> word_field a \<and> word_field b"
  by (auto simp: pool_key_def ordered_pair_def intro: token_name_plain split: if_splits)

lemma load_P:
  assumes "pair_text od k p"
  shows "load_token_line e (join_with bar [''P'', token0 p, token1 p, to_string (reserve0 p), to_string (reserve1 p), to_string (fee_bps p), to_string (lp_total_supply p)])
    = (Inr (), put_pool e k (p\<lparr>lp_balances := Map.empty\<rparr>))"
proof -
  let ?fs = "[token0 p, token1 p, to_string (reserve0 p), to_string (reserve1 p), to_string (fee_bps p), to_string (lp_total_supply p)]"
  have k: "pool_key (token0 p) (token1 p) = k" "k \<noteq> []" using assms by (auto simp: pair_text_def)
  then have w: "word_field (token0 p)" "word_field (token1 p)" using pool_key_names by blast+
  have g: "getlines bar (join_with bar ?fs) = ?fs"
    by (rule getlines_fields) (use w in \<open>auto simp: word_field_def bar_free_def\<close>)
  have f: "getfield bar (join_with bar (''P'' # ?fs)) = (''P'', join_with bar ?fs)" by (rule tag_line) simp_all
  have n: "join_with bar (''P'' # ?fs) \<noteq> []" by (rule join_nonempty) simp
  have "load_pool_fields e ?fs = (Inr (), put_pool e k (p\<lparr>lp_balances := Map.empty\<rparr>))"
    using k by (cases p) (simp add: load_pool_fields_def)
  with n show ?thesis unfolding load_token_line_def f Let_def prod.case g by simp
qed

lemma load_L:
  assumes "pair_text od k p" and "word_field o'"
  shows "load_token_line e (join_with bar [''L'', token0 p, token1 p, o', to_string n])
    = (Inr (), put_pool e k ((pool_at e k)\<lparr>lp_balances := (lp_balances (pool_at e k))(o' \<mapsto> n)\<rparr>))"
proof -
  let ?fs = "[token0 p, token1 p, o', to_string n]"
  have k: "pool_key (token0 p) (token1 p) = k" "k \<noteq> []" using assms by (auto simp: pair_text_def)
  then have w: "word_field (token0 p)" "word_field (token1 p)" using pool_key_names by blast+
  have g: "getlines bar (join_with bar ?fs) = ?fs"
    by (rule getlines_fields) (use w assms(2) in \<open>auto simp: word_field_def bar_free_def\<close>)
  have f: "getfield bar (join_with bar (''L'' # ?fs)) = (''L'', join_with bar ?fs)" by (rule tag_line) simp_all
  have n: "join_with bar (''L'' # ?fs) \<noteq> []" by (rule join_nonempty) simp
  have "load_lp_fields e ?fs = (Inr (), put_pool e k ((pool_at e k)\<lparr>lp_balances := (lp_balances (pool_at e k))(o' \<mapsto> n)\<rparr>))"
    using k assms(2) by (simp add: load_lp_fields_def word_field_def)
  with n show ?thesis unfolding load_token_line_def f Let_def prod.case g by simp
qed


lemma fold_tok: "fold (\<lambda>x e. put_tok e sy (f x (tok e sy))) xs (put_tok e sy t) = put_tok e sy (fold f xs t)"
  by (induction xs arbitrary: t) (simp_all add: put_tok_def tok_def)

lemma fold_pool: "fold (\<lambda>x e. put_pool e k (f x (pool_at e k))) xs (put_pool e k p) = put_pool e k (fold f xs p)"
  by (induction xs arbitrary: p) (simp_all add: put_pool_def pool_at_def)

lemma fold_col: "fold (\<lambda>x e. put_col e c (f x (col_at e c))) xs (put_col e c m) = put_col e c (fold f xs m)"
  by (induction xs arbitrary: m) (simp_all add: put_col_def col_at_def)

lemma fold_balances: "fold (\<lambda>u t. t\<lparr>balances := (balances t)(u \<mapsto> g u)\<rparr>) us t = t\<lparr>balances := fold (\<lambda>u m. m(u \<mapsto> g u)) us (balances t)\<rparr>"
  by (induction us arbitrary: t) simp_all

lemma fold_lps: "fold (\<lambda>u t. t\<lparr>lp_balances := (lp_balances t)(u \<mapsto> g u)\<rparr>) us t = t\<lparr>lp_balances := fold (\<lambda>u m. m(u \<mapsto> g u)) us (lp_balances t)\<rparr>"
  by (induction us arbitrary: t) simp_all

lemma fold_blacklist: "fold (\<lambda>u t. t\<lparr>blacklist := insert u (blacklist t)\<rparr>) us t = t\<lparr>blacklist := blacklist t \<union> set us\<rparr>"
  by (induction us arbitrary: t) auto

lemma fold_exempt: "fold (\<lambda>u t. t\<lparr>fee_exempt := insert u (fee_exempt t)\<rparr>) us t = t\<lparr>fee_exempt := fee_exempt t \<union> set us\<rparr>"
  by (induction us arbitrary: t) auto

lemma load_token:
  assumes t: "token_text od sy t"
  shows "load_lines load_token_line e (token_lines od sy t) = (Inr (), put_tok e sy t)"
proof -
  note t' = t [unfolded token_text_def list_all_iff]
  have sy: "word_field sy" using t' by blast
  note ll = load_token_lines [OF sy]
  have B: "load_lines load_token_line (put_tok e sy q) (map (\<lambda>a. join_with bar [''B'', sy, a, to_string (bal (balances t) a)]) (to_balances od sy))
      = (Inr (), put_tok e sy (q\<lparr>balances := balances t\<rparr>))" if "balances q = Map.empty" for q
    using load_lines_map [where xs = "to_balances od sy" and step = load_token_line and st = "put_tok e sy q"
        and line = "\<lambda>a. join_with bar [''B'', sy, a, to_string (bal (balances t) a)]"
        and upd = "\<lambda>a e. put_tok e sy ((tok e sy)\<lparr>balances := (balances (tok e sy))(a \<mapsto> bal (balances t) a)\<rparr>)"] ll(1) t' that
    unfolding fold_tok [where f = "\<lambda>a q. q\<lparr>balances := (balances q)(a \<mapsto> bal (balances t) a)\<rparr>"] fold_balances fold_field_upd
    by (simp add: restore_map)
  have X: "load_lines load_token_line (put_tok e sy q) (map (\<lambda>w. join_with bar [''X'', sy, w]) (to_blacklist od sy))
      = (Inr (), put_tok e sy (q\<lparr>blacklist := blacklist q \<union> blacklist t\<rparr>))" for q
    using load_lines_map [where xs = "to_blacklist od sy" and step = load_token_line and st = "put_tok e sy q" and line = "\<lambda>w. join_with bar [''X'', sy, w]"
        and upd = "\<lambda>w e. put_tok e sy ((tok e sy)\<lparr>blacklist := insert w (blacklist (tok e sy))\<rparr>)"] ll(2) t'
    unfolding fold_tok [where f = "\<lambda>w q. q\<lparr>blacklist := insert w (blacklist q)\<rparr>"] fold_blacklist by simp
  have E: "load_lines load_token_line (put_tok e sy q) (map (\<lambda>w. join_with bar [''E'', sy, w]) (to_exempt od sy))
      = (Inr (), put_tok e sy (q\<lparr>fee_exempt := fee_exempt q \<union> fee_exempt t\<rparr>))" for q
    using load_lines_map [where xs = "to_exempt od sy" and step = load_token_line and st = "put_tok e sy q" and line = "\<lambda>w. join_with bar [''E'', sy, w]"
        and upd = "\<lambda>w e. put_tok e sy ((tok e sy)\<lparr>fee_exempt := insert w (fee_exempt (tok e sy))\<rparr>)"] ll(3) t'
    unfolding fold_tok [where f = "\<lambda>w q. q\<lparr>fee_exempt := insert w (fee_exempt q)\<rparr>"] fold_exempt by simp
  have T: "load_lines load_token_line e [join_with bar (''T'' # token_fields sy t)] = (Inr (), put_tok e sy (t\<lparr>balances := Map.empty, blacklist := {}, fee_exempt := {}\<rparr>))"
    by (simp only: load_lines.simps load_T [OF t] prod.case sum.case)
  show ?thesis unfolding token_lines_def load_lines_append T prod.case sum.case by (subst B, simp, simp only: X E prod.case sum.case) simp
qed

lemma load_pool:
  assumes p: "pair_text od k p"
  shows "load_lines load_token_line e (pool_lines_of od k p) = (Inr (), put_pool e k p)"
proof -
  note p' = p [unfolded pair_text_def list_all_iff]
  have L: "load_lines load_token_line (put_pool e k q) (map (\<lambda>o'. join_with bar [''L'', token0 p, token1 p, o', to_string (bal (lp_balances p) o')]) (to_lps od k))
      = (Inr (), put_pool e k (q\<lparr>lp_balances := lp_balances p\<rparr>))" if "lp_balances q = Map.empty" for q
    using load_lines_map [where xs = "to_lps od k" and step = load_token_line and st = "put_pool e k q"
        and line = "\<lambda>o'. join_with bar [''L'', token0 p, token1 p, o', to_string (bal (lp_balances p) o')]"
        and upd = "\<lambda>o' e. put_pool e k ((pool_at e k)\<lparr>lp_balances := (lp_balances (pool_at e k))(o' \<mapsto> bal (lp_balances p) o')\<rparr>)"] load_L [OF p] p' that
    unfolding fold_pool [where f = "\<lambda>o' q. q\<lparr>lp_balances := (lp_balances q)(o' \<mapsto> bal (lp_balances p) o')\<rparr>"] fold_lps fold_field_upd
    by (simp add: restore_map)
  show ?thesis unfolding pool_lines_of_def load_lines_append load_lines.simps load_P [OF p] prod.case sum.case by (subst L) simp_all
qed

lemma nft_eta: "\<lparr>nft_owner = nft_owner x, nft_metadata = nft_metadata x\<rparr> = x"
  by simp

lemma load_col:
  assumes c: "col_text od c m" and n: "nfts e c = None"
  shows "load_lines load_token_line e (nft_lines od c m) = (Inr (), put_col e c m)"
proof -
  note c' = c [unfolded col_text_def list_all_iff]
  have w: "word_field c" using c' by blast
  let ?upd = "\<lambda>i e. put_col e c ((col_at e c)(i \<mapsto> the (m i)))"
  have step: "load_token_line s (join_with bar [''N'', c, i, nft_owner (the (m i)), nft_metadata (the (m i))]) = (Inr (), ?upd i s)" if "i \<in> set (to_nfts od c)" for s i
  proof -
    have "word_field i" "word_field (nft_owner (the (m i)))" using c' that by auto
    from load_token_lines(4) [OF w this, of s "nft_metadata (the (m i))"] show ?thesis by (simp only: nft_eta)
  qed
  have l: "load_lines load_token_line e (nft_lines od c m) = (Inr (), fold ?upd (to_nfts od c) e)"
    unfolding nft_lines_def by (rule load_lines_map) (rule step)
  obtain i js where i: "to_nfts od c = i # js" using c' by (cases "to_nfts od c") auto
  have "fold ?upd (to_nfts od c) e = put_col e c (fold (\<lambda>i q. q(i \<mapsto> the (m i))) (to_nfts od c) Map.empty)"
    unfolding i fold.simps comp_apply fold_col [where f = "\<lambda>i q. q(i \<mapsto> the (m i))"] by (simp add: col_at_def n)
  also have "fold (\<lambda>i q. q(i \<mapsto> the (m i))) (to_nfts od c) Map.empty = m"
    unfolding fold_field_upd using c' by (auto simp: fun_eq_iff)
  finally have f: "fold ?upd (to_nfts od c) e = put_col e c m" .
  show ?thesis by (simp only: l f)
qed


lemma fold_put_tok: "fold (\<lambda>k e. put_tok e k (the (m k))) ks e = e\<lparr>tokens := (\<lambda>k. if k \<in> set ks then Some (the (m k)) else tokens e k)\<rparr>"
  by (induction ks arbitrary: e) (auto simp: put_tok_def intro!: engine.equality)

lemma fold_put_col: "fold (\<lambda>k e. put_col e k (the (m k))) ks e = e\<lparr>nfts := (\<lambda>k. if k \<in> set ks then Some (the (m k)) else nfts e k)\<rparr>"
  by (induction ks arbitrary: e) (auto simp: put_col_def intro!: engine.equality)

lemma fold_put_pool: "fold (\<lambda>k e. put_pool e k (the (m k))) ks e = e\<lparr>pools := (\<lambda>k. if k \<in> set ks then Some (the (m k)) else pools e k)\<rparr>"
  by (induction ks arbitrary: e) (auto simp: put_pool_def intro!: engine.equality)

lemma engine_lines_text:
  assumes "engine_text od e"
  shows "\<forall>l\<in>set (concat (map (\<lambda>sy. token_lines od sy (the (tokens e sy))) (to_tokens od))
       @ concat (map (\<lambda>c. nft_lines od c (the (nfts e c))) (to_collections od))
       @ concat (map (\<lambda>k. pool_lines_of od k (the (pools e k))) (to_pools od))). newline \<notin> set l"
proof -
  have k: "newline \<noteq> c" if "c \<noteq> CHR 0x0A" for c using that by (simp add: newline_def)
  have J: "\<forall>f\<in>set fs. newline \<notin> set f \<Longrightarrow> newline \<notin> set (join_with bar fs)" for fs by (rule join_no_newline)
  have T: "newline \<notin> set l" if t: "token_text od sy t" and l: "l \<in> set (token_lines od sy t)" for sy t l
  proof -
    note t' = t [unfolded token_text_def list_all_iff word_field_def bar_free_def]
    from l consider "l = join_with bar (''T'' # token_fields sy t)" | a and n :: u64 where "a \<in> set (to_balances od sy)" "l = join_with bar [''B'', sy, a, to_string n]"
      | w where "w \<in> set (to_blacklist od sy)" "l = join_with bar [''X'', sy, w]" | w where "w \<in> set (to_exempt od sy)" "l = join_with bar [''E'', sy, w]"
      unfolding token_lines_def set_append set_map list.set by blast
    then show ?thesis
    proof cases
      case 1
      then show ?thesis using token_fields_text [of sy t] t' by (auto simp: k word_field_def bar_free_def simp del: join_with.simps intro!: J)
    qed (use t' in \<open>simp_all add: k J del: join_with.simps\<close>)
  qed
  have N: "newline \<notin> set l" if "col_text od c m" "l \<in> set (nft_lines od c m)" for c m l
  proof -
    from that(2) obtain i where i: "i \<in> set (to_nfts od c)" "l = join_with bar [''N'', c, i, nft_owner (the (m i)), nft_metadata (the (m i))]"
      unfolding nft_lines_def set_map by blast
    show ?thesis unfolding i(2) by (rule J) (use that(1) i(1) in \<open>simp add: k col_text_def list_all_iff word_field_def bar_free_def\<close>)
  qed
  have P: "newline \<notin> set l" if p: "pair_text od kk p" and l: "l \<in> set (pool_lines_of od kk p)" for kk p l
  proof -
    have w: "word_field (token0 p)" "word_field (token1 p)" using p pool_key_names [of "token0 p" "token1 p"] by (auto simp: pair_text_def)
    from l consider "l = join_with bar [''P'', token0 p, token1 p, to_string (reserve0 p), to_string (reserve1 p), to_string (fee_bps p), to_string (lp_total_supply p)]"
      | o' and n :: u64 where "o' \<in> set (to_lps od kk)" "l = join_with bar [''L'', token0 p, token1 p, o', to_string n]"
      unfolding pool_lines_of_def set_append set_map by auto
    then show ?thesis by cases (use w p in \<open>simp_all add: k J pair_text_def list_all_iff word_field_def bar_free_def del: join_with.simps\<close>)
  qed
  show ?thesis using assms T N P unfolding engine_text_def by (auto simp: domIff) blast+
qed

text \<open>
  The state file of the token engine is lossless: for every engine whose names fit the line format,
  \<^verbatim>\<open>load_state\<close> of \<^verbatim>\<open>dump_state\<close>, whatever the iteration order of the hash tables, is that engine.
\<close>

theorem tokens_dump_round_trip:
  assumes "engine_text od e"
  shows "tokens_load_state (tokens_dump_state od e) = (Inr (), e)"
proof -
  note t = assms [unfolded engine_text_def]
  let ?T = "concat (map (\<lambda>sy. token_lines od sy (the (tokens e sy))) (to_tokens od))"
  let ?N = "concat (map (\<lambda>c. nft_lines od c (the (nfts e c))) (to_collections od))"
  let ?P = "concat (map (\<lambda>k. pool_lines_of od k (the (pools e k))) (to_pools od))"
  have T: "load_lines load_token_line TokenEngine_init ?T = (Inr (), fold (\<lambda>k e'. put_tok e' k (the (tokens e k))) (to_tokens od) TokenEngine_init)"
    by (rule load_table [where tab = tokens and v = "\<lambda>k. Some (the (tokens e k))"])
      (use t in \<open>auto simp: put_tok_def TokenEngine_init_def intro!: load_token [unfolded put_tok_def]\<close>)
  have N: "load_lines load_token_line e' ?N = (Inr (), fold (\<lambda>k e'. put_col e' k (the (nfts e k))) (to_collections od) e')" if "nfts e' = Map.empty" for e'
    by (rule load_table [where tab = nfts and v = "\<lambda>k. Some (the (nfts e k))"])
      (use t that in \<open>auto simp: put_col_def intro!: load_col [unfolded put_col_def]\<close>)
  have P: "load_lines load_token_line e' ?P = (Inr (), fold (\<lambda>k e'. put_pool e' k (the (pools e k))) (to_pools od) e')" if "pools e' = Map.empty" for e'
    by (rule load_table [where tab = pools and v = "\<lambda>k. Some (the (pools e k))"])
      (use t that in \<open>auto simp: put_pool_def intro!: load_pool [unfolded put_pool_def]\<close>)
  have g: "getlines newline (tokens_dump_state od e) = ?T @ ?N @ ?P"
    unfolding tokens_dump_state_def by (rule getlines_unlines) (rule engine_lines_text [OF assms])
  have z: "nfts (TokenEngine_init\<lparr>tokens := x\<rparr>) = Map.empty" "pools (TokenEngine_init\<lparr>tokens := x, nfts := y\<rparr>) = Map.empty" for x y
    by (simp_all add: TokenEngine_init_def)
  have r: "(\<lambda>k. if k \<in> set (to_tokens od) then Some (the (tokens e k)) else None) = tokens e"
    "(\<lambda>k. if k \<in> set (to_collections od) then Some (the (nfts e k)) else None) = nfts e"
    "(\<lambda>k. if k \<in> set (to_pools od) then Some (the (pools e k)) else None) = pools e"
    by (rule restore_table, use t in blast)+
  have "load_lines load_token_line TokenEngine_init (?T @ ?N @ ?P)
    = (Inr (), TokenEngine_init\<lparr>tokens := tokens e, nfts := nfts e, pools := pools e\<rparr>)"
    unfolding load_lines_append T prod.case sum.case fold_put_tok N [OF z(1)] fold_put_col P [OF z(2)] fold_put_pool
    by (simp only: TokenEngine_init_def engine.simps r)
  then show ?thesis by (simp add: tokens_load_state_def g TokenEngine_init_def)
qed

end
