(* ===== verification/Mempool.thy ===== *)
theory Mempool
  imports Shielded "HOL-Library.Multiset"
begin

text \<open>
  \<^verbatim>\<open>class Mempool\<close> (\<^verbatim>\<open>mempool.hpp\<close>, \<^verbatim>\<open>mempool.cpp\<close>): the pending transactions and the three sets that index
  them. The lemmas show that no sequence of operations holds two pending transactions with the same id, signer
  nonce or outpoint, and that a block template takes each signer's transactions in nonce order.
\<close>

section \<open>State\<close>

text \<open>The mutex serialises the operations, so each one is a function of the state.\<close>

record mempool =
  pending :: "transaction list"
  mp_txids :: "string set"
  mp_signer_nonces :: "string set"
  mp_reserved :: "string set"

definition Mempool_init :: mempool where
  "Mempool_init = \<lparr>pending = [], mp_txids = {}, mp_signer_nonces = {}, mp_reserved = {}\<rparr>"

definition mp_outpoint_key :: "tx_input \<Rightarrow> string" where
  "mp_outpoint_key i = previous_txid i @ '':'' @ to_string (output_index i)"

definition shielded_nullifier_keys :: "transaction \<Rightarrow> string list option" where
  "shielded_nullifier_keys tx =
     (if shielded tx = [] then Some []
      else case from_tx_field (shielded tx) of
             Inl _ \<Rightarrow> None
           | Inr b \<Rightarrow> Some (map (\<lambda>nf. ''nf:'' @ hex32 nf) (nullifiers b)))"

text \<open>The keys as the callers see them: an unparseable bundle leaves the cleared output vector.\<close>

definition nf_keys :: "transaction \<Rightarrow> string list" where
  "nf_keys tx = (case shielded_nullifier_keys tx of None \<Rightarrow> [] | Some ks \<Rightarrow> ks)"

definition signer_nonce_key :: "transaction \<Rightarrow> string" where
  "signer_nonce_key tx =
     (if inputs tx = [] \<or> signer tx = [] then [] else signer tx @ ''#'' @ to_string (nonce tx))"

definition looks_spendable :: "transaction \<Rightarrow> bool" where
  "looks_spendable tx =
     (if inputs tx = [] \<and> shielded tx \<noteq> [] then
        (if signer tx \<noteq> [] \<or> signature tx \<noteq> [] then False
         else case shielded_nullifier_keys tx of None \<Rightarrow> False | Some nfs \<Rightarrow> nfs \<noteq> [])
      else if inputs tx = [] \<or> outputs tx = [] then False
      else if signer tx = [] \<and> signer_pubkey tx = [] \<and> signature tx = [] \<and> inputs tx \<noteq> []
      then list_all (\<lambda>i. witness i \<noteq> []) (inputs tx)
      else if signer tx = [] then False
      else starts_with ''pq='' (signature tx))"

definition index_inputs :: "mempool \<Rightarrow> transaction \<Rightarrow> mempool" where
  "index_inputs mp tx = mp\<lparr>mp_reserved := mp_reserved mp \<union> set (map mp_outpoint_key (inputs tx)) \<union> set (nf_keys tx)\<rparr>"

definition unindex_inputs :: "mempool \<Rightarrow> transaction \<Rightarrow> mempool" where
  "unindex_inputs mp tx = mp\<lparr>mp_reserved := mp_reserved mp - set (map mp_outpoint_key (inputs tx)) - set (nf_keys tx)\<rparr>"

section \<open>Operations\<close>

definition submit :: "crypto \<Rightarrow> mempool \<Rightarrow> transaction \<Rightarrow> bool \<times> mempool" where
  "submit cr mp tx =
     (if \<not> looks_spendable tx then (False, mp)
      else
        (let txid = hash_transaction cr tx in
         if txid \<in> mp_txids mp then (False, mp)
         else
           (let mp1 = mp\<lparr>mp_txids := insert txid (mp_txids mp)\<rparr>;
                sn = signer_nonce_key tx in
            if sn \<noteq> [] \<and> sn \<in> mp_signer_nonces mp1 then (False, mp1\<lparr>mp_txids := mp_txids mp1 - {txid}\<rparr>)
            else
              (let mp2 = (if sn \<noteq> [] then mp1\<lparr>mp_signer_nonces := insert sn (mp_signer_nonces mp1)\<rparr> else mp1);
                   keys = map mp_outpoint_key (inputs tx) @ nf_keys tx in
               if list_ex (\<lambda>k. k \<in> mp_reserved mp2) keys
               then (False, mp2\<lparr>mp_txids := mp_txids mp2 - {txid},
                       mp_signer_nonces := (if sn \<noteq> [] then mp_signer_nonces mp2 - {sn} else mp_signer_nonces mp2)\<rparr>)
               else (True, (index_inputs mp2 tx)\<lparr>pending := pending mp2 @ [tx]\<rparr>)))))"

text \<open>
  The block order. \<open>tx_before\<close> is the comparator of \<^verbatim>\<open>std::sort\<close>, which leaves open how it orders
  equivalent elements: the sort is the argument \<open>srt\<close>, and \<open>sorts_by\<close> is what the standard promises of it.
  \<open>order\<close> lists the signers in the iteration order of the hash map \<^verbatim>\<open>slots\<close>.
\<close>

definition tx_before :: "transaction \<Rightarrow> transaction \<Rightarrow> bool" where
  "tx_before a b =
     (if fee a \<noteq> fee b then fee a > fee b
      else if length (outputs a) \<noteq> length (outputs b) then length (outputs a) < length (outputs b)
      else nonce a < nonce b)"

definition signer_slots :: "transaction list \<Rightarrow> string \<Rightarrow> nat list" where
  "signer_slots txs s = filter (\<lambda>i. signer (txs ! i) = s) [0..<length txs]"

fun store_at :: "'a list \<Rightarrow> nat list \<Rightarrow> 'a list \<Rightarrow> 'a list" where
  "store_at xs (i # idx) (t # ts) = store_at (xs[i := t]) idx ts"
| "store_at xs _ _ = xs"

definition reassign_signer :: "transaction list \<Rightarrow> transaction list \<Rightarrow> string \<Rightarrow> transaction list" where
  "reassign_signer sorted_txs txs s =
     (let idx = signer_slots sorted_txs s in
      if length idx < 2 then txs
      else store_at txs idx (sort_key nonce (map (\<lambda>i. txs ! i) idx)))"

definition block_order :: "(transaction list \<Rightarrow> transaction list) \<Rightarrow> string list \<Rightarrow> transaction list \<Rightarrow> transaction list" where
  "block_order srt order txs = foldl (reassign_signer (srt txs)) (srt txs) order"

definition forget_tx :: "crypto \<Rightarrow> mempool \<Rightarrow> transaction \<Rightarrow> mempool" where
  "forget_tx cr mp tx =
     (let mp1 = mp\<lparr>mp_txids := mp_txids mp - {hash_transaction cr tx}\<rparr>;
          sn = signer_nonce_key tx;
          mp2 = (if sn \<noteq> [] then mp1\<lparr>mp_signer_nonces := mp_signer_nonces mp1 - {sn}\<rparr> else mp1)
      in unindex_inputs mp2 tx)"

definition fetch_for_block ::
    "crypto \<Rightarrow> (transaction list \<Rightarrow> transaction list) \<Rightarrow> string list \<Rightarrow> mempool \<Rightarrow> nat \<Rightarrow> transaction list \<times> mempool" where
  "fetch_for_block cr srt order mp max_count =
     (let txs = block_order srt order (pending mp);
          n = (if max_count < length txs then max_count else length txs);
          mp1 = foldl (forget_tx cr) mp (take n txs)
      in (take n txs, mp1\<lparr>pending := drop n txs\<rparr>))"

definition snapshot :: "mempool \<Rightarrow> transaction list" where "snapshot mp = pending mp"

definition replace_one :: "crypto \<Rightarrow> mempool \<Rightarrow> transaction \<Rightarrow> mempool" where
  "replace_one cr mp tx =
     (if \<not> looks_spendable tx then mp
      else
        (let txid = hash_transaction cr tx in
         if txid \<in> mp_txids mp then mp
         else
           (let mp1 = mp\<lparr>mp_txids := insert txid (mp_txids mp)\<rparr> in
            if list_ex (\<lambda>i. mp_outpoint_key i \<in> mp_reserved mp1) (inputs tx)
            then mp1\<lparr>mp_txids := mp_txids mp1 - {txid}\<rparr>
            else
              (let sn = signer_nonce_key tx in
               if sn \<noteq> [] \<and> sn \<in> mp_signer_nonces mp1 then mp1\<lparr>mp_txids := mp_txids mp1 - {txid}\<rparr>
               else
                 (let mp2 = (if sn \<noteq> [] then mp1\<lparr>mp_signer_nonces := insert sn (mp_signer_nonces mp1)\<rparr> else mp1)
                  in (index_inputs mp2 tx)\<lparr>pending := pending mp2 @ [tx]\<rparr>)))))"

definition replace :: "crypto \<Rightarrow> mempool \<Rightarrow> transaction list \<Rightarrow> mempool" where
  "replace cr mp txs = foldl (replace_one cr) Mempool_init txs"

text \<open>\<^verbatim>\<open>remove_confirmed\<close>: what the block used up, and the pass over the pending transactions.\<close>

definition confirmed_keys :: "crypto \<Rightarrow> transaction list \<Rightarrow> string set \<times> string set \<times> string set" where
  "confirmed_keys cr txs =
     (set (map (hash_transaction cr) txs),
      (\<Union>tx\<in>set txs. set (map mp_outpoint_key (inputs tx)) \<union> set (nf_keys tx)),
      {sn \<in> set (map signer_nonce_key txs). sn \<noteq> []})"

definition confirmed_drop :: "crypto \<Rightarrow> string set \<times> string set \<times> string set \<Rightarrow> transaction \<Rightarrow> bool" where
  "confirmed_drop cr keys tx =
     (case keys of (ids, spent, nonces) \<Rightarrow>
        if hash_transaction cr tx \<in> ids then True
        else if signer_nonce_key tx \<noteq> [] \<and> signer_nonce_key tx \<in> nonces then True
        else if list_ex (\<lambda>i. mp_outpoint_key i \<in> spent) (inputs tx) then True
        else list_ex (\<lambda>k. k \<in> spent) (nf_keys tx))"

fun drop_confirmed ::
    "crypto \<Rightarrow> string set \<times> string set \<times> string set \<Rightarrow> mempool \<Rightarrow> transaction list \<Rightarrow> transaction list \<Rightarrow> nat \<Rightarrow> nat \<times> mempool" where
  "drop_confirmed cr keys mp keep [] removed = (removed, mp\<lparr>pending := keep\<rparr>)"
| "drop_confirmed cr keys mp keep (tx # txs) removed =
     (if confirmed_drop cr keys tx then drop_confirmed cr keys (forget_tx cr mp tx) keep txs (removed + 1)
      else drop_confirmed cr keys mp (keep @ [tx]) txs removed)"

definition remove_confirmed :: "crypto \<Rightarrow> mempool \<Rightarrow> transaction list \<Rightarrow> nat \<times> mempool" where
  "remove_confirmed cr mp block_txs =
     (if pending mp = [] \<or> block_txs = [] then (0, mp)
      else drop_confirmed cr (confirmed_keys cr block_txs) mp [] (pending mp) 0)"

fun max_pending_nonce :: "u64 \<Rightarrow> string \<Rightarrow> transaction list \<Rightarrow> u64" where
  "max_pending_nonce m s [] = m"
| "max_pending_nonce m s (tx # txs) =
     max_pending_nonce (if signer tx = s \<and> nonce tx > m then nonce tx else m) s txs"

definition outpoint_reserved :: "mempool \<Rightarrow> string \<Rightarrow> bool" where
  "outpoint_reserved mp key \<longleftrightarrow> key \<in> mp_reserved mp"

definition mempool_size :: "mempool \<Rightarrow> nat" where "mempool_size mp = length (pending mp)"

section \<open>Keys held by the pending transactions\<close>

definition unique_keys :: "(transaction \<Rightarrow> string set) \<Rightarrow> transaction list \<Rightarrow> bool" where
  "unique_keys f txs \<longleftrightarrow> (\<forall>k. length (filter (\<lambda>tx. k \<in> f tx) txs) \<le> 1)"

lemma length_filter_perm: "mset xs = mset ys \<Longrightarrow> length (filter P xs) = length (filter P ys)"
  by (metis mset_filter size_mset)

definition keys_of :: "(transaction \<Rightarrow> string set) \<Rightarrow> transaction list \<Rightarrow> string set" where
  "keys_of f txs = (\<Union>tx\<in>set txs. f tx)"

lemma keys_perm: "mset xs = mset ys \<Longrightarrow> keys_of f xs = keys_of f ys"
  by (simp add: keys_of_def flip: set_mset_mset)

lemma unique_perm: "mset xs = mset ys \<Longrightarrow> unique_keys f xs = unique_keys f ys"
  using length_filter_perm [of xs ys] by (simp add: unique_keys_def)

lemma unique_Nil [simp]: "unique_keys f []" "keys_of f [] = {}"
  by (simp_all add: unique_keys_def keys_of_def)

lemma keys_snoc [simp]: "keys_of f (xs @ [tx]) = keys_of f xs \<union> f tx"
  by (auto simp: keys_of_def)

lemma unique_snoc:
  assumes "unique_keys f xs" "f tx \<inter> keys_of f xs = {}"
  shows "unique_keys f (xs @ [tx])"
  unfolding unique_keys_def
proof
  fix k
  show "length (filter (\<lambda>t. k \<in> f t) (xs @ [tx])) \<le> 1"
  proof (cases "k \<in> f tx")
    case True
    then have "filter (\<lambda>t. k \<in> f t) xs = []" using assms(2) by (auto simp: keys_of_def filter_empty_conv)
    then show ?thesis by simp
  qed (use assms(1) in \<open>simp add: unique_keys_def\<close>)
qed

lemma unique_remove:
  assumes "unique_keys f xs" "mset xs = mset (tx # ys)"
  shows "unique_keys f ys" and "keys_of f xs = keys_of f ys \<union> f tx" and "keys_of f ys \<inter> f tx = {}"
proof -
  have u: "unique_keys f (tx # ys)" using assms unique_perm by blast
  have b: "length (filter (\<lambda>t. k \<in> f t) ys) + (if k \<in> f tx then 1 else 0) \<le> 1" for k
    using u [unfolded unique_keys_def, rule_format, of k] by (simp split: if_splits)
  have l: "length (filter (\<lambda>t. k \<in> f t) ys) \<le> 1" "k \<in> f tx \<Longrightarrow> length (filter (\<lambda>t. k \<in> f t) ys) = 0" for k
    using b [of k] by (simp_all split: if_splits)
  then show "unique_keys f ys" by (simp add: unique_keys_def)
  show "keys_of f xs = keys_of f ys \<union> f tx" unfolding keys_perm [OF assms(2)] by (auto simp: keys_of_def)
  show "keys_of f ys \<inter> f tx = {}" using l(2) by (fastforce simp: keys_of_def filter_empty_conv)
qed

definition in_keys :: "transaction \<Rightarrow> string set" where
  "in_keys tx = set (map mp_outpoint_key (inputs tx))"

definition spend_keys :: "transaction \<Rightarrow> string set" where
  "spend_keys tx = in_keys tx \<union> set (nf_keys tx)"

definition nonce_keys :: "transaction \<Rightarrow> string set" where
  "nonce_keys tx = (if signer_nonce_key tx = [] then {} else {signer_nonce_key tx})"

text \<open>An outpoint key is never a nullifier key: its index has at most ten digits.\<close>

lemma get_many_lengths:
  "get_many rd_h n b i = Some (hs, j) \<Longrightarrow> \<forall>h\<in>set hs. length h = 32"
proof (induction n arbitrary: i hs j)
  case (Suc n)
  from Suc.prems obtain h hs' j' where h: "rd_h b i = Some (h, j')" "get_many rd_h n b j' = Some (hs', j)" "hs = h # hs'"
    by (auto simp: bind_eq_Some_conv)
  have "length h = 32" using h(1) by (auto simp: rd_h_def rd_take_def split: if_splits)
  then show ?case using Suc.IH [OF h(2)] h(3) by simp
qed simp

lemma bundle_nullifier_length: "from_tx_field s = Inr b \<Longrightarrow> nf \<in> set (nullifiers b) \<Longrightarrow> length nf = 32"
  by (auto simp: from_tx_field_def deserialize_def rd_bundle_def bind_eq_Some_conv dest: get_many_lengths split: if_splits)

lemma colon_not_in_to_hex: "CHR '':'' \<notin> set (to_hex bs)"
  using to_hex_hex [of bs] by (auto simp: list_all_iff is_hex_char_def hex_val_def)

lemma nf_key_shape:
  assumes "k \<in> set (nf_keys tx)"
  obtains h where "k = ''nf'' @ CHR '':'' # h" "length h = 64" "CHR '':'' \<notin> set h"
proof -
  obtain b nf where b: "from_tx_field (shielded tx) = Inr b" "nf \<in> set (nullifiers b)" "k = ''nf:'' @ hex32 nf"
    using assms by (auto simp: nf_keys_def shielded_nullifier_keys_def split: if_splits sum.splits)
  then show ?thesis
    using bundle_nullifier_length [OF b(1,2)] colon_not_in_to_hex [of nf] by (intro that [of "hex32 nf"]) (simp_all add: hex32_def)
qed

lemma in_keys_not_nf: "in_keys tx \<inter> set (nf_keys tx') = {}"
proof (rule ccontr)
  assume "in_keys tx \<inter> set (nf_keys tx') \<noteq> {}"
  then obtain i where i: "mp_outpoint_key i \<in> set (nf_keys tx')" by (auto simp: in_keys_def)
  then obtain h where h: "mp_outpoint_key i = ''nf'' @ CHR '':'' # h" "length h = 64" "CHR '':'' \<notin> set h"
    by (rule nf_key_shape)
  have "rev (to_string (output_index i)) @ CHR '':'' # rev (previous_txid i) = rev h @ CHR '':'' # rev ''nf''"
    using arg_cong [OF h(1), of rev] by (simp add: mp_outpoint_key_def)
  then have "rev (to_string (output_index i)) = rev h"
    by (subst (asm) append_sep_eq) (use h(3) colon_not_in_to_string in auto)
  then have "length (to_string (output_index i)) = 64" using h(2) by simp
  moreover have "length (to_string (output_index i)) \<le> 10"
    unfolding to_string_def by (rule dec_length) (rule less_trans [OF unat_u32_bound], simp_all)
  ultimately show False by simp
qed

section \<open>The invariant\<close>

text \<open>
  \<open>mp_ok strict cr txs mp\<close>: the sets of \<open>mp\<close> index the transactions \<open>txs\<close>. \<open>strict\<close> is the invariant of a pool that
  was never refilled by \<open>replace\<close>, which does not look at nullifiers.
\<close>

definition mp_ok :: "bool \<Rightarrow> crypto \<Rightarrow> transaction list \<Rightarrow> mempool \<Rightarrow> bool" where
  "mp_ok strict cr txs mp \<longleftrightarrow> list_all looks_spendable txs
     \<and> unique_keys (\<lambda>tx. {hash_transaction cr tx}) txs \<and> mp_txids mp = keys_of (\<lambda>tx. {hash_transaction cr tx}) txs
     \<and> unique_keys nonce_keys txs \<and> mp_signer_nonces mp = keys_of nonce_keys txs
     \<and> unique_keys in_keys txs \<and> keys_of in_keys txs \<subseteq> mp_reserved mp \<and> mp_reserved mp \<subseteq> keys_of spend_keys txs
     \<and> (strict \<longrightarrow> unique_keys spend_keys txs \<and> mp_reserved mp = keys_of spend_keys txs)"

lemma mp_ok_pending [simp]: "mp_ok strict cr txs (mp\<lparr>pending := p\<rparr>) = mp_ok strict cr txs mp"
  by (simp add: mp_ok_def)

lemma mp_ok_perm: "mset txs = mset txs' \<Longrightarrow> mp_ok strict cr txs mp = mp_ok strict cr txs' mp"
  by (simp add: mp_ok_def keys_perm [of txs txs'] unique_perm [of txs txs'] list_all_iff flip: set_mset_mset)

lemma mp_ok_init: "mp_ok strict cr [] Mempool_init"
  by (simp add: mp_ok_def Mempool_init_def)

text \<open>Admission of a transaction that meets the guards of \<open>submit\<close> (of \<open>replace\<close> when not \<open>strict\<close>).\<close>

definition admit :: "crypto \<Rightarrow> mempool \<Rightarrow> transaction \<Rightarrow> mempool" where
  "admit cr mp tx = mp\<lparr>pending := pending mp @ [tx], mp_txids := insert (hash_transaction cr tx) (mp_txids mp),
     mp_signer_nonces := mp_signer_nonces mp \<union> nonce_keys tx, mp_reserved := mp_reserved mp \<union> spend_keys tx\<rparr>"

lemma spend_keys_alt: "spend_keys tx = set (map mp_outpoint_key (inputs tx)) \<union> set (nf_keys tx)"
  by (simp add: spend_keys_def in_keys_def)

lemma submit_cases:
  "submit cr mp tx = (if looks_spendable tx \<and> hash_transaction cr tx \<notin> mp_txids mp \<and> nonce_keys tx \<inter> mp_signer_nonces mp = {}
     \<and> spend_keys tx \<inter> mp_reserved mp = {} then (True, admit cr mp tx) else (False, mp))"
  by (cases mp) (auto simp: submit_def Let_def admit_def index_inputs_def nonce_keys_def spend_keys_alt list_ex_iff Un_assoc)

lemma replace_one_cases:
  "replace_one cr mp tx = (if looks_spendable tx \<and> hash_transaction cr tx \<notin> mp_txids mp \<and> nonce_keys tx \<inter> mp_signer_nonces mp = {}
     \<and> in_keys tx \<inter> mp_reserved mp = {} then admit cr mp tx else mp)"
  by (cases mp) (auto simp: replace_one_def Let_def admit_def index_inputs_def nonce_keys_def spend_keys_alt in_keys_def list_ex_iff Un_assoc)

lemma admit_ok:
  assumes ok: "mp_ok strict cr txs mp"
    and g: "looks_spendable tx" "hash_transaction cr tx \<notin> mp_txids mp" "nonce_keys tx \<inter> mp_signer_nonces mp = {}"
      "in_keys tx \<inter> mp_reserved mp = {}" "strict \<Longrightarrow> spend_keys tx \<inter> mp_reserved mp = {}"
  shows "mp_ok strict cr (txs @ [tx]) (admit cr mp tx)"
proof -
  have u: "unique_keys (\<lambda>tx. {hash_transaction cr tx}) (txs @ [tx])" "unique_keys nonce_keys (txs @ [tx])"
      "unique_keys in_keys (txs @ [tx])" "strict \<Longrightarrow> unique_keys spend_keys (txs @ [tx])"
    using ok g by (auto simp: mp_ok_def intro!: unique_snoc)
  have "in_keys tx \<subseteq> spend_keys tx" by (simp add: spend_keys_def)
  then show ?thesis
    using ok g u by (auto simp: mp_ok_def admit_def)
qed

lemma forget_tx_ok:
  assumes ok: "mp_ok strict cr txs mp" and m: "mset txs = mset (tx # txs')"
  shows "mp_ok strict cr txs' (forget_tx cr mp tx)"
proof -
  have U: "unique_keys (\<lambda>tx. {hash_transaction cr tx}) txs" "unique_keys nonce_keys txs" "unique_keys in_keys txs"
    using ok by (simp_all add: mp_ok_def)
  note H = unique_remove [OF U(1) m] and N = unique_remove [OF U(2) m] and I = unique_remove [OF U(3) m]
  have S: "keys_of spend_keys txs = keys_of spend_keys txs' \<union> spend_keys tx"
    unfolding keys_perm [OF m] by (auto simp: keys_of_def)
  have f: "mp_txids (forget_tx cr mp tx) = mp_txids mp - {hash_transaction cr tx}"
      "mp_signer_nonces (forget_tx cr mp tx) = mp_signer_nonces mp - nonce_keys tx"
      "mp_reserved (forget_tx cr mp tx) = mp_reserved mp - spend_keys tx"
    by (auto simp: forget_tx_def Let_def unindex_inputs_def nonce_keys_def spend_keys_alt)
  have "keys_of in_keys txs' \<inter> set (nf_keys tx) = {}" using in_keys_not_nf by (auto simp: keys_of_def)
  then have "keys_of in_keys txs' \<inter> spend_keys tx = {}" using I(3) by (auto simp: spend_keys_def)
  moreover have "unique_keys spend_keys txs' \<and> keys_of spend_keys txs' \<inter> spend_keys tx = {}" if strict
    using ok that unique_remove [of spend_keys, OF _ m] by (auto simp: mp_ok_def)
  moreover have "list_all looks_spendable txs'" using ok mset_eq_setD [OF m] by (auto simp: mp_ok_def list_all_iff)
  ultimately show ?thesis
    using ok H N I S by (simp add: mp_ok_def f) blast
qed

lemma forget_many_ok:
  "mp_ok strict cr txs mp \<Longrightarrow> mset txs = mset (gone @ rest) \<Longrightarrow> mp_ok strict cr rest (foldl (forget_tx cr) mp gone)"
proof (induction gone arbitrary: txs mp)
  case Nil
  then show ?case using mp_ok_perm [of txs rest] by simp
next
  case (Cons tx gone)
  then show ?case using Cons.IH [of "gone @ rest" "forget_tx cr mp tx"] forget_tx_ok [of strict cr txs mp tx "gone @ rest"] by simp
qed

lemma drop_confirmed_ok:
  "mp_ok strict cr (keep @ txs) mp \<Longrightarrow> drop_confirmed cr keys mp keep txs removed = (r, mp') \<Longrightarrow>
     mp_ok strict cr (pending mp') mp' \<and> pending mp' = keep @ filter (\<lambda>tx. \<not> confirmed_drop cr keys tx) txs
     \<and> r = removed + length (filter (confirmed_drop cr keys) txs)"
proof (induction txs arbitrary: keep mp removed)
  case (Cons tx txs)
  show ?case
  proof (cases "confirmed_drop cr keys tx")
    case True
    then show ?thesis using Cons.prems Cons.IH [of keep "forget_tx cr mp tx" "removed + 1"]
        forget_tx_ok [OF Cons.prems(1), of tx "keep @ txs"] by auto
  next
    case False
    then show ?thesis using Cons.prems Cons.IH [of "keep @ [tx]" mp removed] by auto
  qed
qed auto

section \<open>The block order\<close>

lemma filter_nth: "filter P xs = map (\<lambda>i. xs ! i) (filter (\<lambda>i. P (xs ! i)) [0..<length xs])"
proof (induction xs rule: rev_induct)
  case (snoc x xs)
  have "filter (\<lambda>i. P ((xs @ [x]) ! i)) [0..<length xs] = filter (\<lambda>i. P (xs ! i)) [0..<length xs]"
    by (rule filter_cong) (auto simp: nth_append)
  moreover have "map (\<lambda>i. (xs @ [x]) ! i) (filter (\<lambda>i. P (xs ! i)) [0..<length xs])
      = map (\<lambda>i. xs ! i) (filter (\<lambda>i. P (xs ! i)) [0..<length xs])"
    by (rule map_cong) (auto simp: nth_append)
  ultimately show ?case using snoc by (simp add: nth_append)
qed simp

lemma length_store_at [simp]: "length (store_at xs idx ts) = length xs"
  by (induction xs idx ts rule: store_at.induct) simp_all

lemma store_at_other: "j \<notin> set idx \<Longrightarrow> store_at xs idx ts ! j = xs ! j"
  by (induction xs idx ts rule: store_at.induct) auto

lemma store_at_these:
  "distinct idx \<Longrightarrow> length ts = length idx \<Longrightarrow> \<forall>i\<in>set idx. i < length xs \<Longrightarrow> map (\<lambda>i. store_at xs idx ts ! i) idx = ts"
  by (induction xs idx ts rule: store_at.induct) (auto simp: store_at_other)

text \<open>Reassigning one signer sorts that signer's transactions by nonce and touches no other.\<close>

lemma reassign_signer_effect:
  assumes m: "map signer txs = map signer srt"
  shows "map signer (reassign_signer srt txs s) = map signer srt"
    and "filter (\<lambda>t. signer t = s) (reassign_signer srt txs s) = sort_key nonce (filter (\<lambda>t. signer t = s) txs)"
    and "\<not> P s \<Longrightarrow> filter (\<lambda>t. P (signer t)) (reassign_signer srt txs s) = filter (\<lambda>t. P (signer t)) txs"
proof -
  let ?idx = "signer_slots srt s"
  let ?own = "map (\<lambda>i. txs ! i) ?idx"
  let ?r = "reassign_signer srt txs s"
  have len: "length txs = length srt" using m map_eq_imp_length_eq by blast
  have sg: "signer (txs ! i) = signer (srt ! i)" if "i < length srt" for i
    using m that len by (metis nth_map)
  have idx: "?idx = filter (\<lambda>i. signer (txs ! i) = s) [0..<length txs]"
    unfolding signer_slots_def len by (rule filter_cong) (use sg in auto)
  have own: "?own = filter (\<lambda>t. signer t = s) txs" unfolding idx by (rule filter_nth [symmetric])
  have short: "sort_key nonce xs = xs" if "length xs < 2" for xs :: "transaction list"
    using that by (cases xs; cases "tl xs") auto
  define ts where "ts = (if length ?idx < 2 then ?own else sort_key nonce ?own)"
  have same: "store_at txs ?idx ?own = txs" if "length ?idx < 2"
    using that by (cases ?idx; cases "tl ?idx") auto
  have r: "?r = store_at txs ?idx ts" using same by (simp add: reassign_signer_def ts_def Let_def)
  have ts: "ts = sort_key nonce ?own" using short [of ?own] by (simp add: ts_def)
  have these: "map (\<lambda>i. ?r ! i) ?idx = ts"
    unfolding r by (rule store_at_these) (auto simp: signer_slots_def len ts)
  have rs: "signer (?r ! i) = signer (srt ! i)" if "i < length srt" for i
  proof (cases "i \<in> set ?idx")
    case True
    then have "?r ! i \<in> set ts" unfolding these [symmetric] by simp
    then have "signer (?r ! i) = s" by (auto simp: ts own)
    then show ?thesis using True by (simp add: signer_slots_def)
  qed (use that sg in \<open>simp add: r store_at_other\<close>)
  have lr: "length ?r = length srt" by (simp add: r len)
  show "map signer ?r = map signer srt" by (rule nth_equalityI) (use lr rs in auto)
  have "filter (\<lambda>i. signer (?r ! i) = s) [0..<length ?r] = ?idx"
    unfolding signer_slots_def lr by (rule filter_cong) (use rs in auto)
  then have "filter (\<lambda>t. signer t = s) ?r = map (\<lambda>i. ?r ! i) ?idx" by (simp add: filter_nth [of _ ?r])
  then show "filter (\<lambda>t. signer t = s) ?r = sort_key nonce (filter (\<lambda>t. signer t = s) txs)"
    by (simp only: these ts own)
  assume P: "\<not> P s"
  have "filter (\<lambda>i. P (signer (?r ! i))) [0..<length ?r] = filter (\<lambda>i. P (signer (txs ! i))) [0..<length txs]"
    unfolding lr len by (rule filter_cong) (use rs sg in auto)
  moreover have "?r ! i = txs ! i" if "P (signer (txs ! i))" for i
    using that P unfolding r by (intro store_at_other) (auto simp: idx)
  ultimately show "filter (\<lambda>t. P (signer t)) ?r = filter (\<lambda>t. P (signer t)) txs"
    unfolding filter_nth [of _ ?r] filter_nth [of _ txs] by (auto intro!: map_cong)
qed

lemma reassign_signer_mset:
  assumes m: "map signer txs = map signer srt"
  shows "mset (reassign_signer srt txs s) = mset txs"
proof -
  let ?r = "reassign_signer srt txs s"
  note E = reassign_signer_effect [OF m]
  have "mset xs = mset (filter (\<lambda>t. signer t = s) xs) + mset (filter (\<lambda>t. signer t \<noteq> s) xs)" for xs :: "transaction list"
    unfolding mset_filter by (rule multiset_partition)
  from this [of ?r] this [of txs] show ?thesis
    using E(2) [of s] E(3) [of "\<lambda>x. x \<noteq> s" s] by (simp only: mset_sort)
qed

lemma block_order_effect:
  assumes "mset (srt txs) = mset txs"
  shows "mset (block_order srt order txs) = mset txs" and "map signer (block_order srt order txs) = map signer (srt txs)"
    and "s \<in> set order \<Longrightarrow> sorted (map nonce (filter (\<lambda>t. signer t = s) (block_order srt order txs)))"
proof -
  have "mset (foldl (reassign_signer (srt txs)) l order) = mset l \<and> map signer (foldl (reassign_signer (srt txs)) l order) = map signer (srt txs)
      \<and> (\<forall>s. s \<in> set order \<or> sorted (map nonce (filter (\<lambda>t. signer t = s) l)) \<longrightarrow>
          sorted (map nonce (filter (\<lambda>t. signer t = s) (foldl (reassign_signer (srt txs)) l order))))"
    if "map signer l = map signer (srt txs)" for l
    using that
  proof (induction order arbitrary: l)
    case (Cons a order)
    let ?l = "reassign_signer (srt txs) l a"
    note E = reassign_signer_effect [OF Cons.prems, where s = a] and M = reassign_signer_mset [OF Cons.prems, of a]
    have "sorted (map nonce (filter (\<lambda>t. signer t = s) ?l))" if "s = a \<or> sorted (map nonce (filter (\<lambda>t. signer t = s) l))" for s
    proof (cases "s = a")
      case False
      then show ?thesis using that E(3) [of "\<lambda>x. x = s"] by simp
    qed (simp add: E(2))
    then show ?case using Cons.IH [OF E(1)] M by auto
  qed simp
  from this [of "srt txs"] assms show "mset (block_order srt order txs) = mset txs" "map signer (block_order srt order txs) = map signer (srt txs)"
      "s \<in> set order \<Longrightarrow> sorted (map nonce (filter (\<lambda>t. signer t = s) (block_order srt order txs)))"
    by (auto simp: block_order_def)
qed

section \<open>Reachable pools\<close>

text \<open>What the standard promises of \<^verbatim>\<open>std::sort\<close>: a permutation in which no element comes after one it precedes.\<close>

definition sorts_by :: "('a \<Rightarrow> 'a \<Rightarrow> bool) \<Rightarrow> ('a list \<Rightarrow> 'a list) \<Rightarrow> bool" where
  "sorts_by lt srt \<longleftrightarrow> (\<forall>xs. mset (srt xs) = mset xs \<and> sorted_wrt (\<lambda>a b. \<not> lt b a) (srt xs))"

inductive pool_run :: "bool \<Rightarrow> crypto \<Rightarrow> mempool \<Rightarrow> bool" for strict :: bool and cr :: crypto where
  pool_init: "pool_run strict cr Mempool_init"
| pool_submit: "pool_run strict cr mp \<Longrightarrow> submit cr mp tx = (ok, mp') \<Longrightarrow> pool_run strict cr mp'"
| pool_fetch: "pool_run strict cr mp \<Longrightarrow> sorts_by tx_before srt \<Longrightarrow> fetch_for_block cr srt order mp n = (txs, mp') \<Longrightarrow> pool_run strict cr mp'"
| pool_confirmed: "pool_run strict cr mp \<Longrightarrow> remove_confirmed cr mp txs = (n, mp') \<Longrightarrow> pool_run strict cr mp'"
| pool_replace: "\<not> strict \<Longrightarrow> pool_run strict cr mp \<Longrightarrow> pool_run strict cr (replace cr mp txs)"

lemma replace_ok: "mp_ok False cr (pending mp) mp \<Longrightarrow> mp_ok False cr (pending (foldl (replace_one cr) mp txs)) (foldl (replace_one cr) mp txs)"
proof (induction txs arbitrary: mp)
  case (Cons tx txs)
  have "mp_ok False cr (pending (replace_one cr mp tx)) (replace_one cr mp tx)"
    using Cons.prems admit_ok [OF Cons.prems, of tx] by (auto simp: replace_one_cases admit_def)
  then show ?case using Cons.IH by simp
qed simp

lemma fetch_ok:
  assumes ok: "mp_ok strict cr (pending mp) mp" and srt: "sorts_by tx_before srt"
    and f: "fetch_for_block cr srt order mp n = (txs, mp')"
  shows "mp_ok strict cr (pending mp') mp'" "mset (txs @ pending mp') = mset (pending mp)"
    "txs @ pending mp' = block_order srt order (pending mp)" "length txs = min n (length (pending mp))"
proof -
  have m: "mset (block_order srt order (pending mp)) = mset (pending mp)"
    using srt by (intro block_order_effect) (simp add: sorts_by_def)
  show eq: "txs @ pending mp' = block_order srt order (pending mp)"
    using f by (auto simp: fetch_for_block_def Let_def)
  then show ms: "mset (txs @ pending mp') = mset (pending mp)" by (simp only: m)
  show "length txs = min n (length (pending mp))"
    using f mset_eq_length [OF m] by (auto simp: fetch_for_block_def Let_def)
  have "mp' = (foldl (forget_tx cr) mp txs)\<lparr>pending := pending mp'\<rparr>"
    using f by (auto simp: fetch_for_block_def Let_def)
  then show "mp_ok strict cr (pending mp') mp'"
    using forget_many_ok [OF ok ms [symmetric]] by (metis mp_ok_pending)
qed

lemma pool_run_ok: "pool_run strict cr mp \<Longrightarrow> mp_ok strict cr (pending mp) mp"
proof (induction rule: pool_run.induct)
  case pool_init
  then show ?case using mp_ok_init by (simp add: Mempool_init_def)
next
  case (pool_submit mp tx ok mp')
  have "spend_keys tx \<inter> S = {} \<Longrightarrow> in_keys tx \<inter> S = {}" for S by (auto simp: spend_keys_def)
  then show ?case using pool_submit admit_ok [OF pool_submit.IH, of tx]
    by (auto simp: submit_cases admit_def split: if_splits)
next
  case (pool_fetch mp srt order n txs mp')
  then show ?case using fetch_ok(1) by blast
next
  case (pool_confirmed mp txs n mp')
  then show ?case using drop_confirmed_ok [of strict cr "[]" "pending mp" mp "confirmed_keys cr txs" 0 n mp']
    by (auto simp: remove_confirmed_def split: if_splits)
next
  case (pool_replace mp txs)
  have "mp_ok False cr (pending Mempool_init) Mempool_init" using mp_ok_init by (simp add: Mempool_init_def)
  then show ?case using pool_replace.hyps replace_ok by (simp add: replace_def)
qed

lemma unique_nth:
  assumes u: "unique_keys f xs" and ij: "i < length xs" "j < length xs" "i \<noteq> j"
  shows "f (xs ! i) \<inter> f (xs ! j) = {}"
proof (rule ccontr)
  assume "f (xs ! i) \<inter> f (xs ! j) \<noteq> {}"
  then obtain k where k: "k \<in> f (xs ! i)" "k \<in> f (xs ! j)" by blast
  have "{i, j} \<subseteq> {n. n < length xs \<and> k \<in> f (xs ! n)}" using ij k by auto
  then have "card {i, j} \<le> card {n. n < length xs \<and> k \<in> f (xs ! n)}" by (intro card_mono) auto
  moreover have "card {n. n < length xs \<and> k \<in> f (xs ! n)} \<le> 1"
    using u by (simp add: unique_keys_def length_filter_conv_card)
  ultimately show False using ij(3) by simp
qed

lemma spendable_signer_inputs: "looks_spendable tx \<Longrightarrow> signer tx \<noteq> [] \<Longrightarrow> inputs tx \<noteq> []"
  by (auto simp: looks_spendable_def split: if_splits)

lemma signer_nonce_apart:
  assumes ok: "mp_ok strict cr txs mp" and ij: "i < length txs" "j < length txs" "i \<noteq> j"
    and s: "signer (txs ! i) = signer (txs ! j)" "signer (txs ! i) \<noteq> []"
  shows "nonce (txs ! i) \<noteq> nonce (txs ! j)"
proof
  assume "nonce (txs ! i) = nonce (txs ! j)"
  moreover have "looks_spendable (txs ! i)" "looks_spendable (txs ! j)" using ok ij by (auto simp: mp_ok_def list_all_length)
  then have "inputs (txs ! i) \<noteq> []" "inputs (txs ! j) \<noteq> []" using spendable_signer_inputs s by auto
  ultimately have "nonce_keys (txs ! i) = nonce_keys (txs ! j)" "nonce_keys (txs ! i) \<noteq> {}"
    using s by (auto simp: nonce_keys_def signer_nonce_key_def)
  then show False using unique_nth [OF _ ij, of nonce_keys] ok by (auto simp: mp_ok_def)
qed

lemma sorted_wrt_filter_nth:
  assumes "sorted_wrt R (filter P xs)" "i < j" "j < length xs" "P (xs ! i)" "P (xs ! j)"
  shows "R (xs ! i) (xs ! j)"
proof -
  have "xs = take j xs @ xs ! j # drop (Suc j) xs" using assms(3) by (simp add: id_take_nth_drop)
  then have "filter P xs = filter P (take j xs) @ xs ! j # filter P (drop (Suc j) xs)"
    using assms(5) by (metis filter.simps(2) filter_append)
  moreover have "xs ! i \<in> set (filter P (take j xs))"
    using assms by (auto simp: in_set_conv_nth intro!: exI [of _ i])
  ultimately show ?thesis using assms(1) by (simp add: sorted_wrt_append)
qed

text \<open>An insertion sort is one such sort.\<close>

fun insert_tx :: "transaction \<Rightarrow> transaction list \<Rightarrow> transaction list" where
  "insert_tx x [] = [x]"
| "insert_tx x (y # ys) = (if tx_before y x then y # insert_tx x ys else x # y # ys)"

definition insertion_sort :: "transaction list \<Rightarrow> transaction list" where
  "insertion_sort xs = foldr insert_tx xs []"

lemma tx_not_before: "\<not> tx_before b a \<longleftrightarrow> fee b < fee a \<or> fee b = fee a \<and> (length (outputs a) < length (outputs b)
    \<or> length (outputs a) = length (outputs b) \<and> nonce a \<le> nonce b)"
  by (simp add: tx_before_def) (metis linorder_not_le nat_neq_iff neqE order_less_asym)

lemma tx_before_trans: "\<not> tx_before b a \<Longrightarrow> \<not> tx_before c b \<Longrightarrow> \<not> tx_before c a"
  unfolding tx_not_before by (elim disjE conjE) (auto intro: less_trans)

lemma tx_before_asym: "tx_before a b \<Longrightarrow> \<not> tx_before b a"
  by (auto simp: tx_before_def split: if_splits)

lemma mset_insert_tx [simp]: "mset (insert_tx x xs) = add_mset x (mset xs)"
  by (induction xs) auto

lemma set_insert_tx [simp]: "set (insert_tx x xs) = insert x (set xs)"
  by (induction xs) auto

lemma sorted_insert_tx: "sorted_wrt (\<lambda>a b. \<not> tx_before b a) xs \<Longrightarrow> sorted_wrt (\<lambda>a b. \<not> tx_before b a) (insert_tx x xs)"
proof (induction xs)
  case (Cons y ys)
  then show ?case using tx_before_asym [of y x] tx_before_trans [of y x] by auto
qed simp

lemma insertion_sort_sorts: "sorts_by tx_before insertion_sort"
proof -
  have "mset (insertion_sort xs) = mset xs" "sorted_wrt (\<lambda>a b. \<not> tx_before b a) (insertion_sort xs)" for xs
    unfolding insertion_sort_def by (induction xs) (auto simp: sorted_insert_tx)
  then show ?thesis by (simp add: sorts_by_def)
qed

section \<open>Properties\<close>

text \<open>
  Claim C24. After any sequence of submissions, block fetches, confirmations and refills, no two transactions of the
  mempool share their id, the nonce of their signer, or an outpoint they spend. As long as the pool is not refilled
  from disk, no two share a shielded nullifier either, and the reserved keys are exactly the outpoints and nullifiers
  of the pending transactions.
\<close>

theorem mempool_conflict_free:
  assumes "pool_run strict cr mp" and "i < length (pending mp)" and "j < length (pending mp)" and "i \<noteq> j"
  shows "hash_transaction cr (pending mp ! i) \<noteq> hash_transaction cr (pending mp ! j)
    \<and> (signer (pending mp ! i) = signer (pending mp ! j) \<and> signer (pending mp ! i) \<noteq> [] \<longrightarrow>
        nonce (pending mp ! i) \<noteq> nonce (pending mp ! j))
    \<and> set (map mp_outpoint_key (inputs (pending mp ! i))) \<inter> set (map mp_outpoint_key (inputs (pending mp ! j))) = {}
    \<and> (strict \<longrightarrow> set (nf_keys (pending mp ! i)) \<inter> set (nf_keys (pending mp ! j)) = {}
        \<and> (\<forall>k. outpoint_reserved mp k \<longleftrightarrow>
              (\<exists>tx\<in>set (pending mp). k \<in> set (map mp_outpoint_key (inputs tx)) \<union> set (nf_keys tx))))"
proof -
  note ok = pool_run_ok [OF assms(1)] and ij = assms(2-4)
  have "{hash_transaction cr (pending mp ! i)} \<inter> {hash_transaction cr (pending mp ! j)} = {}"
    using ok unique_nth [OF _ ij, of "\<lambda>tx. {hash_transaction cr tx}"] by (simp add: mp_ok_def)
  moreover have "in_keys (pending mp ! i) \<inter> in_keys (pending mp ! j) = {}"
    using ok unique_nth [OF _ ij, of in_keys] by (simp add: mp_ok_def)
  moreover have "spend_keys (pending mp ! i) \<inter> spend_keys (pending mp ! j) = {} \<and> mp_reserved mp = keys_of spend_keys (pending mp)"
    if strict using ok that unique_nth [OF _ ij, of spend_keys] by (simp add: mp_ok_def)
  ultimately show ?thesis
    using signer_nonce_apart [OF ok ij]
    by (auto simp: in_keys_def spend_keys_alt keys_of_def outpoint_reserved_def)
qed

text \<open>
  Fetching transactions for a block hands out the first transactions of a reordering of the pool and keeps
  the rest: nothing is lost or duplicated, the slots follow the fee order of \<^verbatim>\<open>std::sort\<close> signer by signer, and each
  signer's transactions come in strictly ascending nonce order, whatever their fees and whatever order the hash map
  lists the signers in.
\<close>

theorem block_fetch_nonce_order:
  assumes run: "pool_run strict cr mp" and srt: "sorts_by tx_before srt"
    and order: "set order = {s. s \<noteq> [] \<and> s \<in> signer ` set (pending mp)}"
    and f: "fetch_for_block cr srt order mp n = (txs, mp')"
  shows "mset (txs @ pending mp') = mset (pending mp) \<and> length txs = min n (length (pending mp))
    \<and> map signer (txs @ pending mp') = map signer (srt (pending mp))
    \<and> (\<forall>i j. i < j \<longrightarrow> j < length txs \<longrightarrow> signer (txs ! i) = signer (txs ! j) \<longrightarrow> signer (txs ! i) \<noteq> [] \<longrightarrow>
         nonce (txs ! i) < nonce (txs ! j))"
proof -
  note ok = pool_run_ok [OF run]
  note F = fetch_ok [OF ok srt f]
  let ?l = "block_order srt order (pending mp)"
  have perm: "mset (srt (pending mp)) = mset (pending mp)" using srt by (simp add: sorts_by_def)
  note B = block_order_effect [where srt = srt and txs = "pending mp" and order = order, OF perm]
  have okl: "mp_ok strict cr ?l mp" using ok mp_ok_perm [OF B(1)] by simp
  have "nonce (txs ! i) < nonce (txs ! j)"
    if "i < j" "j < length txs" "signer (txs ! i) = signer (txs ! j)" "signer (txs ! i) \<noteq> []" for i j
  proof -
    have nth: "?l ! i = txs ! i" "?l ! j = txs ! j" and len: "j < length ?l"
      using that(1,2) unfolding F(3) [symmetric] by (auto simp: nth_append)
    have "txs ! i \<in> set (txs @ pending mp')" using that(1,2) by simp
    then have "txs ! i \<in> set (pending mp)" by (simp only: mset_eq_setD [OF F(2)])
    then have "signer (txs ! i) \<in> set order" using order that(4) by auto
    then have "sorted_wrt (\<lambda>a b. nonce a \<le> nonce b) (filter (\<lambda>t. signer t = signer (txs ! i)) ?l)"
      using B(3) by (simp add: sorted_wrt_map)
    from sorted_wrt_filter_nth [OF this that(1) len] have "nonce (txs ! i) \<le> nonce (txs ! j)"
      using that(3) nth by simp
    moreover have "nonce (txs ! i) \<noteq> nonce (txs ! j)"
      using signer_nonce_apart [OF okl, of i j] that nth len by simp
    ultimately show ?thesis by simp
  qed
  moreover have "map signer (txs @ pending mp') = map signer (srt (pending mp))" unfolding F(3) by (rule B(2))
  ultimately show ?thesis using F(2,4) by blast
qed


text \<open>Two payments of one signer, the later one with the higher fee.\<close>

definition demo_pay :: "u64 \<Rightarrow> u64 \<Rightarrow> transaction" where
  "demo_pay f n = \<lparr>inputs = [\<lparr>previous_txid = ''t'', output_index = ucast n, witness = []\<rparr>],
     outputs = [\<lparr>recipient = ''r'', amount = 1\<rparr>], signer = ''s'', signer_pubkey = [], signature = ''pq=0'', fee = f, nonce = n,
     shielded = []\<rparr>"

definition demo_pool1 :: mempool where "demo_pool1 = admit sample_crypto Mempool_init (demo_pay 9 2)"
definition demo_pool2 :: mempool where "demo_pool2 = admit sample_crypto demo_pool1 (demo_pay 5 1)"

lemma demo_pay_keys:
  "looks_spendable (demo_pay f n)" "nf_keys (demo_pay f n) = []" "nonce_keys (demo_pay f n) = {''s#'' @ to_string n}"
  "spend_keys (demo_pay f n) = {''t:'' @ to_string (ucast n :: u32)}"
  by (simp_all add: looks_spendable_def demo_pay_def starts_with_def nf_keys_def shielded_nullifier_keys_def nonce_keys_def
      signer_nonce_key_def spend_keys_def in_keys_def mp_outpoint_key_def)

lemma demo_hash_neq: "hash_transaction sample_crypto (demo_pay 5 1) \<noteq> hash_transaction sample_crypto (demo_pay 9 2)"
proof
  have h: "hd (unhex (hash_transaction sample_crypto (demo_pay f n))) = last (to_string n)" for f n
  proof -
    obtain ds d where d: "to_string n = ds @ [d]" by (cases "to_string n" rule: rev_cases) (auto simp: to_string_def)
    obtain q where q: "tx_preimage sample_crypto (demo_pay f n) = q @ [d]"
      by (simp add: tx_preimage_def demo_pay_def d)
    have "sha3 sample_crypto (q @ [d]) = d # take 63 (rev q @ replicate 64 CHR ''0'')"
      by (simp add: sample_crypto_def)
    then show ?thesis by (simp add: hash_transaction_def strong_hash_def q d)
  qed
  assume "hash_transaction sample_crypto (demo_pay 5 1) = hash_transaction sample_crypto (demo_pay 9 2)"
  then have "last (to_string (1 :: u64)) = last (to_string (2 :: u64))" using h by metis
  then show False by (simp add: to_string_def dec.simps digit_char_def)
qed

lemma demo_submit1: "submit sample_crypto Mempool_init (demo_pay 9 2) = (True, demo_pool1)"
  by (simp add: submit_cases demo_pay_keys demo_pool1_def) (simp add: Mempool_init_def)

lemma demo_submit2: "submit sample_crypto demo_pool1 (demo_pay 5 1) = (True, demo_pool2)"
proof -
  have "mp_txids demo_pool1 = {hash_transaction sample_crypto (demo_pay 9 2)}"
    "mp_signer_nonces demo_pool1 = {''s#'' @ to_string (2 :: u64)}" "mp_reserved demo_pool1 = {''t:'' @ to_string (2 :: u32)}"
    by (simp_all add: demo_pool1_def admit_def Mempool_init_def demo_pay_keys)
  then show ?thesis
    using demo_hash_neq by (simp add: submit_cases demo_pay_keys demo_pool2_def)
qed

lemma demo_pool2_run: "pool_run True sample_crypto demo_pool2"
  by (rule pool_submit [OF pool_submit [OF pool_init demo_submit1] demo_submit2])

lemma demo_pool2_pending: "pending demo_pool2 = [demo_pay 9 2, demo_pay 5 1]"
  by (simp add: demo_pool2_def demo_pool1_def admit_def Mempool_init_def)

theorem mempool_conflict_free_witness:
  "hash_transaction sample_crypto (demo_pay 9 2) \<noteq> hash_transaction sample_crypto (demo_pay 5 1)
   \<and> outpoint_reserved demo_pool2 (mp_outpoint_key (hd (inputs (demo_pay 5 1))))"
  using mempool_conflict_free [OF demo_pool2_run, of 0 1]
  by (simp add: demo_pool2_pending demo_pay_keys(2)) (simp add: demo_pay_def)

lemma demo_order: "block_order insertion_sort [''s''] [demo_pay 9 2, demo_pay 5 1] = [demo_pay 5 1, demo_pay 9 2]"
proof -
  have f: "fee (demo_pay f n) = f" "nonce (demo_pay f n) = n" "signer (demo_pay f n) = ''s''" for f n by (simp_all add: demo_pay_def)
  have s: "insertion_sort [demo_pay 9 2, demo_pay 5 1] = [demo_pay 9 2, demo_pay 5 1]"
    by (simp add: insertion_sort_def tx_before_def f)
  have i: "signer_slots [demo_pay 9 2, demo_pay 5 1] ''s'' = [0, 1]" by (simp add: signer_slots_def upt_rec f)
  show ?thesis by (simp add: block_order_def s reassign_signer_def i f word_le_nat_alt)
qed

lemma demo_fetch: "fst (fetch_for_block sample_crypto insertion_sort [''s''] demo_pool2 2) = [demo_pay 5 1, demo_pay 9 2]"
  unfolding fetch_for_block_def Let_def demo_pool2_pending demo_order by simp

theorem block_fetch_nonce_order_witness:
  "nonce (demo_pay 5 1) < nonce (demo_pay 9 2)"
proof -
  obtain mp' where f: "fetch_for_block sample_crypto insertion_sort [''s''] demo_pool2 2 = ([demo_pay 5 1, demo_pay 9 2], mp')"
    using demo_fetch by (cases "fetch_for_block sample_crypto insertion_sort [''s''] demo_pool2 2") auto
  have "set [''s''] = {s. s \<noteq> [] \<and> s \<in> signer ` set (pending demo_pool2)}"
    by (auto simp: demo_pool2_pending demo_pay_def)
  note o = block_fetch_nonce_order [OF demo_pool2_run insertion_sort_sorts this f, THEN conjunct2, THEN conjunct2, THEN conjunct2,
      rule_format, of 0 1]
  show ?thesis using o by (simp add: demo_pay_def)
qed

end
