(* ===== verification/Parallel_Work.thy ===== *)
theory Parallel_Work
  imports Chain_Properties
begin

text \<open>
  The two places where the node runs worker threads over shared atomics: the batch signature verifier
  \<^verbatim>\<open>pq_verify_messages_parallel\<close> (\<^verbatim>\<open>crypto.cpp\<close>) and the proof-of-work search \<^verbatim>\<open>search_block_pow\<close> (\<^verbatim>\<open>miner.cpp\<close>).
  A worker is a program counter with its local variables; one step performs one access to the shared state, and a run
  interleaves the workers in any order. The lemmas show that every complete run of the verifier gives the sequential
  verdict after a bounded number of steps, and that the search only ever reports a nonce that meets the target.
\<close>

section \<open>Interleaving\<close>

text \<open>
  \<open>step inp s w\<close> is the next action of a worker, \<open>None\<close> when its function has returned; \<open>inp\<close> is what the action
  reads of the environment (clock, stop flag), which may be anything at any turn.
\<close>

inductive interleave :: "('i \<Rightarrow> 's \<Rightarrow> 'w \<Rightarrow> ('s \<times> 'w) option) \<Rightarrow> 's \<times> 'w list \<Rightarrow> 's \<times> 'w list \<Rightarrow> bool"
  for step :: "'i \<Rightarrow> 's \<Rightarrow> 'w \<Rightarrow> ('s \<times> 'w) option" where
  turn: "i < length ws \<Longrightarrow> step inp s (ws ! i) = Some (s', w') \<Longrightarrow> interleave step (s, ws) (s', ws[i := w'])"

inductive runs :: "('i \<Rightarrow> 's \<Rightarrow> 'w \<Rightarrow> ('s \<times> 'w) option) \<Rightarrow> 's \<times> 'w list \<Rightarrow> nat \<Rightarrow> 's \<times> 'w list \<Rightarrow> bool"
  for step :: "'i \<Rightarrow> 's \<Rightarrow> 'w \<Rightarrow> ('s \<times> 'w) option" where
  here: "runs step c 0 c"
| more: "runs step c k c1 \<Longrightarrow> interleave step c1 c2 \<Longrightarrow> runs step c (Suc k) c2"

text \<open>All workers are joined: nobody can move.\<close>

definition joined :: "('i \<Rightarrow> 's \<Rightarrow> 'w \<Rightarrow> ('s \<times> 'w) option) \<Rightarrow> 's \<times> 'w list \<Rightarrow> bool" where
  "joined step c \<longleftrightarrow> (case c of (s, ws) \<Rightarrow> list_all (\<lambda>w. \<forall>inp. step inp s w = None) ws)"

locale worker_pool =
  fixes step :: "'i \<Rightarrow> 's \<Rightarrow> 'w \<Rightarrow> ('s \<times> 'w) option"
    and inv :: "'s \<Rightarrow> 'w list \<Rightarrow> bool"
  assumes inv_step: "inv s ws \<Longrightarrow> i < length ws \<Longrightarrow> step inp s (ws ! i) = Some (s', w') \<Longrightarrow> inv s' (ws[i := w'])"
begin

lemma runs_inv: "runs step c k c' \<Longrightarrow> inv (fst c) (snd c) \<Longrightarrow> inv (fst c') (snd c')"
proof (induction rule: runs.induct)
  case (more c k c1 c2)
  from more.hyps(2) show ?case
    using more.IH [OF more.prems] by cases (auto intro: inv_step)
qed

end

locale bounded_pool = worker_pool +
  fixes weight :: "'s \<Rightarrow> 'w list \<Rightarrow> nat"
  assumes weight_step: "inv s ws \<Longrightarrow> i < length ws \<Longrightarrow> step inp s (ws ! i) = Some (s', w') \<Longrightarrow> weight s' (ws[i := w']) < weight s ws"
begin

lemma runs_bounded: "runs step c k c' \<Longrightarrow> inv (fst c) (snd c) \<Longrightarrow> k + weight (fst c') (snd c') \<le> weight (fst c) (snd c)"
proof (induction rule: runs.induct)
  case (more c k c1 c2)
  have "inv (fst c1) (snd c1)" using runs_inv [OF more.hyps(1) more.prems] .
  with more.hyps(2) have "weight (fst c2) (snd c2) < weight (fst c1) (snd c1)"
    by cases (auto intro: weight_step)
  then show ?case using more.IH [OF more.prems] by simp
qed simp

end

section \<open>The batch verifier\<close>

datatype vworker = VHead | VClaim | VGot nat | VOk | VBad nat | VErr nat | VDone

record vshared =
  v_ok :: nat
  v_next :: nat
  v_failed :: bool
  v_error :: string

definition verify_threads :: "nat \<Rightarrow> nat \<Rightarrow> nat \<Rightarrow> nat" where
  "verify_threads hw threads n =
     (let t = (if threads = 0 then (if hw > 0 then hw else 1) else threads) in if t > n then n else t)"

definition item_ok :: "crypto \<Rightarrow> verify_item \<Rightarrow> bool" where
  "item_ok cr it = (case it of (pk, m, sg) \<Rightarrow> verify_message_signature_hybrid_uncached cr pk m sg)"

definition verify_error :: "nat \<Rightarrow> string" where
  "verify_error i = ''batch pq verify failed at index '' @ dec i"

fun verify_worker :: "crypto \<Rightarrow> verify_item list \<Rightarrow> unit \<Rightarrow> vshared \<Rightarrow> vworker \<Rightarrow> (vshared \<times> vworker) option" where
  "verify_worker cr items u s VHead = Some (s, if v_failed s then VDone else VClaim)"
| "verify_worker cr items u s VClaim =
     Some (s\<lparr>v_next := v_next s + 1\<rparr>, if v_next s \<ge> length items then VDone else VGot (v_next s))"
| "verify_worker cr items u s (VGot i) = Some (s, if item_ok cr (items ! i) then VOk else VBad i)"
| "verify_worker cr items u s (VBad i) = Some (s\<lparr>v_failed := True\<rparr>, VErr i)"
| "verify_worker cr items u s (VErr i) =
     Some (if v_error s = [] then s\<lparr>v_error := verify_error i\<rparr> else s, VDone)"
| "verify_worker cr items u s VOk = Some (s\<lparr>v_ok := v_ok s + 1\<rparr>, VHead)"
| "verify_worker cr items u s VDone = None"

definition verify_start :: "nat \<Rightarrow> vshared \<times> vworker list" where
  "verify_start t = (\<lparr>v_ok = 0, v_next = 0, v_failed = False, v_error = []\<rparr>, replicate t VHead)"

text \<open>The verdict after the join, with the number of accepted items.\<close>

definition verify_result :: "verify_item list \<Rightarrow> vshared \<Rightarrow> nat res" where
  "verify_result items s =
     (if v_failed s \<or> v_ok s \<noteq> length items
      then Inl (if v_error s = [] then ''batch pq verify rejected'' else v_error s)
      else Inr (v_ok s))"

section \<open>The proof-of-work search\<close>

datatype pworker = PHead u64 u64 | PBody u64 u64 | PHit u64 u64 string | PWon u64 u64 string | PStored u64 string | PLeave u64 | PDone

record pshared =
  p_found :: bool
  p_deadline_hit :: bool
  p_stopped :: bool
  p_hashes :: u64
  p_nonce :: u64
  p_hash :: string

definition resolve_mine_threads :: "nat \<Rightarrow> nat \<Rightarrow> nat" where
  "resolve_mine_threads hw requested =
     (let max_n = (if hw > 0 then hw else 1) in if requested = 0 then max_n else if requested > max_n then max_n else requested)"

definition pow_meets_target :: "crypto \<Rightarrow> pow_algorithm \<Rightarrow> string \<Rightarrow> u64 \<Rightarrow> bool" where
  "pow_meets_target cr alg h target =
     (case alg of
        Sha3_512 \<Rightarrow> (case hash_head64 h of None \<Rightarrow> False | Some v \<Rightarrow> v \<le> target)
      | MemoryHard \<Rightarrow> (case memory_hard_head64 cr h of None \<Rightarrow> False | Some v \<Rightarrow> v \<le> target))"

text \<open>
  The header and the fields of \<^verbatim>\<open>PowSearchConfig\<close>, with the resolved number of threads; \<open>ps_stop\<close> says whether the
  stop pointer is set. The input of a step is what the stop flag reads and whether the deadline has passed.
\<close>

record psearch =
  ps_cr :: crypto
  ps_header :: block_header
  ps_alg :: pow_algorithm
  ps_target :: u64
  ps_threads :: nat
  ps_deadline_sec :: u64
  ps_stop :: bool

fun pow_worker :: "psearch \<Rightarrow> (bool \<times> bool) \<Rightarrow> pshared \<Rightarrow> pworker \<Rightarrow> (pshared \<times> pworker) option" where
  "pow_worker c inp s (PHead n k) = Some (s, if n < U64_MAX \<and> \<not> p_found s then PBody n k else PLeave k)"
| "pow_worker c inp s (PBody n k) =
     (if ps_stop c \<and> fst inp then Some (s\<lparr>p_stopped := True\<rparr>, PLeave k)
      else if ps_deadline_sec c > 0 \<and> snd inp then Some (s\<lparr>p_deadline_hit := True\<rparr>, PLeave k)
      else
        (let h = hash_block_header (ps_cr c) ((ps_header c)\<lparr>hd_nonce := n\<rparr>) in
         Some (s, if pow_meets_target (ps_cr c) (ps_alg c) h (ps_target c) then PHit n (k + 1) h
                  else PHead (n + of_nat (ps_threads c)) (k + 1))))"
| "pow_worker c inp s (PHit n k h) = (if p_found s then Some (s, PLeave k) else Some (s\<lparr>p_found := True\<rparr>, PWon n k h))"
| "pow_worker c inp s (PWon n k h) = Some (s\<lparr>p_nonce := n\<rparr>, PStored k h)"
| "pow_worker c inp s (PStored k h) = Some (s\<lparr>p_hash := h\<rparr>, PLeave k)"
| "pow_worker c inp s (PLeave k) = Some (s\<lparr>p_hashes := p_hashes s + k\<rparr>, PDone)"
| "pow_worker c inp s PDone = None"

definition pow_start :: "nat \<Rightarrow> pshared \<times> pworker list" where
  "pow_start t = (\<lparr>p_found = False, p_deadline_hit = False, p_stopped = False, p_hashes = 0, p_nonce = 0, p_hash = []\<rparr>,
     map (\<lambda>tid. PHead (of_nat tid) 0) [0..<t])"

definition pow_result :: "pshared \<Rightarrow> pow_search_result" where
  "pow_result s = \<lparr>found = p_found s, found_nonce = (if p_found s then p_nonce s else 0),
     header_hash = (if p_found s then p_hash s else []), stopped = p_stopped s, deadline_hit = p_deadline_hit s\<rparr>"

section \<open>The verifier under every interleaving\<close>

fun busy :: "vworker \<Rightarrow> bool" where
  "busy (VGot _) = True" | "busy VOk = True" | "busy (VBad _) = True" | "busy _ = False"

fun vworker_ok :: "crypto \<Rightarrow> verify_item list \<Rightarrow> vshared \<Rightarrow> vworker \<Rightarrow> bool" where
  "vworker_ok cr items s (VGot j) \<longleftrightarrow> j < length items"
| "vworker_ok cr items s (VBad j) \<longleftrightarrow> j < length items \<and> \<not> item_ok cr (items ! j)"
| "vworker_ok cr items s (VErr j) \<longleftrightarrow> j < length items \<and> \<not> item_ok cr (items ! j) \<and> v_failed s"
| "vworker_ok cr items s VDone \<longleftrightarrow> v_failed s \<or> length items \<le> v_next s"
| "vworker_ok cr items s _ \<longleftrightarrow> True"

definition verify_inv :: "crypto \<Rightarrow> verify_item list \<Rightarrow> vshared \<Rightarrow> vworker list \<Rightarrow> bool" where
  "verify_inv cr items s ws \<longleftrightarrow> ws \<noteq> [] \<and> (\<forall>w\<in>set ws. vworker_ok cr items s w)
     \<and> (v_failed s \<or> v_ok s + length (filter busy ws) = min (v_next s) (length items)
          \<and> (\<forall>j<min (v_next s) (length items). item_ok cr (items ! j) \<or> VGot j \<in> set ws \<or> VBad j \<in> set ws))
     \<and> (v_failed s \<longrightarrow> v_error s \<noteq> [] \<or> (\<exists>j. VErr j \<in> set ws))
     \<and> (v_error s \<noteq> [] \<longrightarrow> (\<exists>j<length items. \<not> item_ok cr (items ! j) \<and> v_error s = verify_error j))"

fun vweight :: "vworker \<Rightarrow> nat" where
  "vweight VHead = 3" | "vweight VClaim = 2" | "vweight (VGot _) = 6" | "vweight VOk = 5" | "vweight (VBad _) = 5"
| "vweight (VErr _) = 4" | "vweight VDone = 0"

definition verify_weight :: "verify_item list \<Rightarrow> vshared \<Rightarrow> vworker list \<Rightarrow> nat" where
  "verify_weight items s ws = 5 * (length items - v_next s) + sum_list (map vweight ws)"

lemma keep_other: "x \<in> set ws \<Longrightarrow> x \<noteq> ws ! i \<Longrightarrow> x \<in> set (ws[i := w])"
  by (metis in_set_conv_nth length_list_update nth_list_update_neq)

lemma sum_weights_update:
  "i < length ws \<Longrightarrow> sum_list (map f (ws[i := w])) + f (ws ! i) = sum_list (map f ws) + (f w :: nat)"
  by (induction ws arbitrary: i) (auto split: nat.splits simp: nth_Cons')

lemma length_filter_update:
  assumes "i < length ws"
  shows "length (filter P (ws[i := w])) + (if P (ws ! i) then 1 else 0) = length (filter P ws) + (if P w then 1 else 0)"
proof -
  have "length (filter P xs) = sum_list (map (\<lambda>x. if P x then 1 else 0) xs)" for xs by (induction xs) auto
  then show ?thesis using sum_weights_update [OF assms, of "\<lambda>x. if P x then 1 else 0" w] by simp
qed

lemma verify_inv_step:
  assumes inv: "verify_inv cr items s ws" and i: "i < length ws"
    and st: "verify_worker cr items u s (ws ! i) = Some (s', w')"
  shows "verify_inv cr items s' (ws[i := w'])"
proof -
  let ?ws = "ws[i := w']"
  have w: "vworker_ok cr items s (ws ! i)" using inv i by (simp add: verify_inv_def)
  have mem: "w' \<in> set ?ws" by (rule set_update_memI [OF i])
  have sub: "x \<in> set ?ws \<Longrightarrow> x = w' \<or> x \<in> set ws" for x using set_update_subset_insert [of ws i w'] by auto
  note count = length_filter_update [OF i, of busy w']
  have mono: "vworker_ok cr items s x \<Longrightarrow> vworker_ok cr items s' x" for x
    using st by (cases "ws ! i"; cases x) (auto split: if_splits)
  have new: "vworker_ok cr items s' w'" using st w by (cases "ws ! i") (auto split: if_splits)
  have A: "\<forall>x\<in>set ?ws. vworker_ok cr items s' x"
    using inv mono new sub by (auto simp: verify_inv_def)
  have B: "v_failed s' \<or> v_ok s' + length (filter busy ?ws) = min (v_next s') (length items)"
    using inv st count by (cases "ws ! i") (auto simp: verify_inv_def split: if_splits)
  have C: "item_ok cr (items ! j) \<or> VGot j \<in> set ?ws \<or> VBad j \<in> set ?ws"
    if nf: "\<not> v_failed s'" and j: "j < min (v_next s') (length items)" for j
  proof (cases "j < v_next s")
    case True
    have "\<not> v_failed s" using st nf by (cases "ws ! i") (auto split: if_splits)
    then have "item_ok cr (items ! j) \<or> VGot j \<in> set ws \<or> VBad j \<in> set ws" using inv True j by (simp add: verify_inv_def)
    moreover have "item_ok cr (items ! j) \<or> w' = VBad j" if "ws ! i = VGot j" using st that by (auto split: if_splits)
    moreover have "ws ! i \<noteq> VBad j" using st nf by auto
    ultimately show ?thesis using mem keep_other [of "VGot j" ws i w'] keep_other [of "VBad j" ws i w'] by metis
  next
    case False
    then have "w' = VGot j" using st j by (cases "ws ! i") (auto split: if_splits)
    then show ?thesis using mem by simp
  qed
  have D: "v_failed s' \<longrightarrow> v_error s' \<noteq> [] \<or> (\<exists>j. VErr j \<in> set ?ws)"
    using inv st mem keep_other [of _ ws i w'] by (cases "ws ! i") (fastforce simp: verify_inv_def verify_error_def split: if_splits)+
  have E: "v_error s' \<noteq> [] \<longrightarrow> (\<exists>j<length items. \<not> item_ok cr (items ! j) \<and> v_error s' = verify_error j)"
    using inv st w by (cases "ws ! i") (auto simp: verify_inv_def split: if_splits)
  have "ws \<noteq> []" using i by auto
  then show ?thesis unfolding verify_inv_def using A B C D E by auto
qed

lemma verify_weight_step:
  assumes i: "i < length ws" and st: "verify_worker cr items u s (ws ! i) = Some (s', w')"
  shows "verify_weight items s' (ws[i := w']) < verify_weight items s ws"
  using sum_weights_update [OF i, of vweight w'] st
  by (cases "ws ! i") (auto simp: verify_weight_def split: if_splits)

interpretation pv: bounded_pool "verify_worker cr items" "verify_inv cr items" "verify_weight items"
  for cr items
  by unfold_locales (use verify_inv_step verify_weight_step in auto)

section \<open>The search under every interleaving\<close>

definition meets :: "psearch \<Rightarrow> u64 \<Rightarrow> string \<Rightarrow> bool" where
  "meets c n h \<longleftrightarrow> h = hash_block_header (ps_cr c) ((ps_header c)\<lparr>hd_nonce := n\<rparr>)
     \<and> pow_meets_target (ps_cr c) (ps_alg c) h (ps_target c) \<and> n < U64_MAX"

fun winner :: "pworker \<Rightarrow> bool" where
  "winner (PWon _ _ _) = True" | "winner (PStored _ _) = True" | "winner _ = False"

fun pworker_ok :: "psearch \<Rightarrow> pshared \<Rightarrow> pworker \<Rightarrow> bool" where
  "pworker_ok c s (PBody n k) \<longleftrightarrow> n < U64_MAX"
| "pworker_ok c s (PHit n k h) \<longleftrightarrow> meets c n h"
| "pworker_ok c s (PWon n k h) \<longleftrightarrow> meets c n h \<and> p_found s"
| "pworker_ok c s (PStored k h) \<longleftrightarrow> meets c (p_nonce s) h \<and> p_found s"
| "pworker_ok c s _ \<longleftrightarrow> True"

definition pow_inv :: "psearch \<Rightarrow> pshared \<Rightarrow> pworker list \<Rightarrow> bool" where
  "pow_inv c s ws \<longleftrightarrow> (\<forall>w\<in>set ws. pworker_ok c s w) \<and> length (filter winner ws) \<le> (if p_found s then 1 else 0)
     \<and> (p_found s \<and> length (filter winner ws) = 0 \<longrightarrow> meets c (p_nonce s) (p_hash s))"

lemma pow_inv_step:
  assumes inv: "pow_inv c s ws" and i: "i < length ws" and st: "pow_worker c inp s (ws ! i) = Some (s', w')"
  shows "pow_inv c s' (ws[i := w'])"
proof -
  let ?ws = "ws[i := w']"
  note count = length_filter_update [OF i, of winner w']
  have w: "pworker_ok c s (ws ! i)" using inv i by (simp add: pow_inv_def)
  have sub: "x \<in> set ?ws \<Longrightarrow> x = w' \<or> x \<in> set ws" for x using set_update_subset_insert [of ws i w'] by auto
  have new: "pworker_ok c s' w'" using st w by (cases "ws ! i") (auto simp: Let_def meets_def split: if_splits)
  have old: "pworker_ok c s' x" if "x \<in> set ?ws" "x \<in> set ws" "x \<noteq> w'" for x
  proof -
    have x: "pworker_ok c s x" using inv that(2) by (simp add: pow_inv_def)
    show ?thesis
    proof (cases "\<exists>n k h. ws ! i = PWon n k h")
      case True
      then have "winner (ws ! i)" by auto
      moreover have "p_found s" using True w by auto
      ultimately have o: "length (filter winner ws) \<le> 1" using inv by (simp add: pow_inv_def)
      have f: "filter winner ws = filter winner (take i ws) @ ws ! i # filter winner (drop (Suc i) ws)"
        using \<open>winner (ws ! i)\<close> by (metis filter.simps(2) filter_append id_take_nth_drop [OF i])
      have "x \<in> set (take i ws) \<union> set (drop (Suc i) ws)"
        using that(1,3) i by (auto simp: upd_conv_take_nth_drop)
      then have "\<not> winner x" using f o by (auto simp: filter_empty_conv)
      then show ?thesis using x st True by (cases x) auto
    next
      case False
      then show ?thesis using x st by (cases "ws ! i"; cases x) (auto simp: Let_def split: if_splits)
    qed
  qed
  have A: "\<forall>x\<in>set ?ws. pworker_ok c s' x" using new old sub by blast
  have B: "length (filter winner ?ws) \<le> (if p_found s' then 1 else 0)"
    using inv st count w by (cases "ws ! i") (auto simp: pow_inv_def Let_def split: if_splits)
  have some: "filter winner ws \<noteq> []" if "winner (ws ! i)" using that nth_mem [OF i] by (auto simp: filter_empty_conv)
  have D: "p_found s' \<and> length (filter winner ?ws) = 0 \<longrightarrow> meets c (p_nonce s') (p_hash s')"
    using inv st count w some by (cases "ws ! i") (auto simp: pow_inv_def Let_def split: if_splits)
  show ?thesis using A B D by (simp add: pow_inv_def)
qed

interpretation pw: worker_pool "pow_worker c" "pow_inv c" for c
  by unfold_locales (rule pow_inv_step)

section \<open>Properties\<close>

lemma verify_start_inv: "0 < t \<Longrightarrow> verify_inv cr items (fst (verify_start t)) (snd (verify_start t))"
  by (simp add: verify_inv_def verify_start_def)

lemma verify_worker_None: "verify_worker cr items u s w = None \<longleftrightarrow> w = VDone"
  by (cases w) simp_all

lemma verify_joined: "joined (verify_worker cr items) (s, ws) \<longleftrightarrow> (\<forall>w\<in>set ws. w = VDone)"
  by (simp add: joined_def verify_worker_None list_all_iff)

lemma batch_verify_iff_all: "batch_verify cr k items = Inr () \<longleftrightarrow> list_all (item_ok cr) items"
  by (induction cr k items rule: batch_verify.induct) (simp_all add: item_ok_def)

text \<open>
  Claim C26. The parallel batch verifier is the sequential one under every scheduling of its threads: no schedule runs
  longer than the stated number of steps, some thread can move until all have returned, and when they have, the
  verdict is success exactly when every signature of the batch is valid, and otherwise names an invalid item.
\<close>

theorem parallel_verify_sequential:
  assumes "items \<noteq> []" and "t = verify_threads hw threads (length items)"
    and run: "runs (verify_worker cr items) (verify_start t) k (s, ws)"
  shows "k \<le> 5 * length items + 3 * t
    \<and> (joined (verify_worker cr items) (s, ws) \<or> (\<exists>c'. interleave (verify_worker cr items) (s, ws) c'))
    \<and> (joined (verify_worker cr items) (s, ws) \<longrightarrow>
         (verify_result items s = Inr (length items) \<longleftrightarrow> batch_verify cr 0 items = Inr ())
       \<and> (verify_result items s = Inr (length items)
          \<or> (\<exists>j<length items. \<not> item_ok cr (items ! j) \<and> verify_result items s = Inl (verify_error j))))"
proof -
  have t: "0 < t" using assms(1,2) by (auto simp: verify_threads_def Let_def)
  have inv: "verify_inv cr items s ws" using pv.runs_inv [OF run verify_start_inv [OF t]] by simp
  have "k \<le> 5 * length items + 3 * t"
    using pv.runs_bounded [OF run verify_start_inv [OF t]]
    by (simp add: verify_weight_def verify_start_def sum_list_replicate)
  moreover have "joined (verify_worker cr items) (s, ws) \<or> (\<exists>c'. interleave (verify_worker cr items) (s, ws) c')"
  proof (rule disjCI)
    assume "\<nexists>c'. interleave (verify_worker cr items) (s, ws) c'"
    then have "verify_worker cr items () s (ws ! i) = None" if "i < length ws" for i
      using turn [OF that, of "verify_worker cr items" "()" s] by (cases "verify_worker cr items () s (ws ! i)") auto
    then show "joined (verify_worker cr items) (s, ws)"
      by (simp add: verify_joined verify_worker_None all_set_conv_all_nth)
  qed
  moreover have "(verify_result items s = Inr (length items) \<longleftrightarrow> list_all (item_ok cr) items)
       \<and> (verify_result items s = Inr (length items)
          \<or> (\<exists>j<length items. \<not> item_ok cr (items ! j) \<and> verify_result items s = Inl (verify_error j)))"
    if "joined (verify_worker cr items) (s, ws)"
  proof -
    have d: "\<forall>w\<in>set ws. w = VDone" using that by (simp add: verify_joined)
    then have b: "filter busy ws = []" by (auto simp: filter_empty_conv)
    show ?thesis
    proof (cases "v_failed s")
      case True
      then have e: "v_error s \<noteq> []" using inv d by (auto simp: verify_inv_def)
      then obtain j where j: "j < length items" "\<not> item_ok cr (items ! j)" "v_error s = verify_error j"
        using inv by (auto simp: verify_inv_def)
      then show ?thesis using True e by (auto simp: verify_result_def list_all_length)
    next
      case False
      have "ws \<noteq> []" using inv by (simp add: verify_inv_def)
      then have "VDone \<in> set ws" using d by (cases ws) auto
      then have n: "length items \<le> v_next s" using inv False by (fastforce simp: verify_inv_def)
      then have m: "min (v_next s) (length items) = length items" by simp
      have "v_ok s = length items" "\<forall>j<length items. item_ok cr (items ! j) \<or> VGot j \<in> set ws \<or> VBad j \<in> set ws"
        using inv False b m by (simp_all add: verify_inv_def)
      then have "v_ok s = length items" "list_all (item_ok cr) items" using d by (auto simp: list_all_length)
      then show ?thesis using False by (simp add: verify_result_def)
    qed
  qed
  ultimately show ?thesis unfolding batch_verify_iff_all by blast
qed

text \<open>
  Claim C27. Under every scheduling of its threads and every behaviour of the clock and the stop flag, when the workers of
  the proof-of-work search have returned and it reports a nonce, the reported hash is the hash of the header with that
  nonce and the chain's own check accepts it for the target.
\<close>

theorem pow_search_sound:
  assumes run: "runs (pow_worker c) (pow_start t) k (s, ws)" and "joined (pow_worker c) (s, ws)" and "found (pow_result s)"
    and "ps_cr c = ce_cr ce" and "ps_alg c = pow_alg (ce_cfg ce)"
  shows "header_hash (pow_result s) = hash_block_header (ce_cr ce) ((ps_header c)\<lparr>hd_nonce := found_nonce (pow_result s)\<rparr>)
    \<and> hash_meets_target ce (header_hash (pow_result s)) (ps_target c)"
proof -
  have "pow_inv c (fst (pow_start t)) (snd (pow_start t))"
    by (auto simp: pow_inv_def pow_start_def filter_empty_conv)
  then have inv: "pow_inv c s ws" using pw.runs_inv [OF run] by simp
  have "pow_worker c inp s w = None \<longleftrightarrow> w = PDone" for inp w by (cases w) (simp_all add: Let_def)
  then have "filter winner ws = []" using assms(2) by (auto simp: joined_def list_all_iff filter_empty_conv)
  then have m: "meets c (p_nonce s) (p_hash s)" using inv assms(3) by (simp add: pow_inv_def pow_result_def)
  then have "pow_meets_target (ps_cr c) (ps_alg c) (p_hash s) (ps_target c)" unfolding meets_def by blast
  then have "hash_meets_target ce (p_hash s) (ps_target c)"
    using assms(4,5) by (simp add: pow_meets_target_def hash_meets_target_def)
  moreover have "p_hash s = hash_block_header (ce_cr ce) ((ps_header c)\<lparr>hd_nonce := p_nonce s\<rparr>)"
    using m assms(4) by (simp add: meets_def)
  ultimately show ?thesis using assms(3) by (simp add: pow_result_def)
qed

text \<open>One worker and one invalid item; one worker whose first nonce wins.\<close>

lemma single_turn:
  assumes "runs step c k (s, [w])" "step inp s w = Some (s', w')"
  shows "runs step c (Suc k) (s', [w'])"
  using more [OF assms(1) turn [of 0 "[w]" step inp s s' w']] assms(2) by simp

definition demo_items :: "verify_item list" where "demo_items = [([], [], [])]"

lemma demo_verify_run:
  "runs (verify_worker toy_crypto demo_items) (verify_start 1) 5
     (\<lparr>v_ok = 0, v_next = 1, v_failed = True, v_error = verify_error 0\<rparr>, [VDone])"
proof -
  have bad: "\<not> item_ok toy_crypto (demo_items ! 0)"
    by (simp add: item_ok_def demo_items_def verify_message_signature_hybrid_uncached_def starts_with_def)
  have "runs (verify_worker toy_crypto demo_items) (verify_start 1) 0 (\<lparr>v_ok = 0, v_next = 0, v_failed = False, v_error = []\<rparr>, [VHead])"
    using here [of _ "verify_start 1"] by (simp add: verify_start_def)
  from single_turn [OF this, of "()"] have "runs (verify_worker toy_crypto demo_items) (verify_start 1) (Suc 0) (\<lparr>v_ok = 0, v_next = 0, v_failed = False, v_error = []\<rparr>, [VClaim])"
    by simp
  from single_turn [OF this, of "()"] have "runs (verify_worker toy_crypto demo_items) (verify_start 1) 2 (\<lparr>v_ok = 0, v_next = 1, v_failed = False, v_error = []\<rparr>, [VGot 0])"
    by (simp add: demo_items_def numeral_eq_Suc)
  from single_turn [OF this, of "()"] have "runs (verify_worker toy_crypto demo_items) (verify_start 1) 3 (\<lparr>v_ok = 0, v_next = 1, v_failed = False, v_error = []\<rparr>, [VBad 0])"
    by (simp add: bad numeral_eq_Suc)
  from single_turn [OF this, of "()"] have "runs (verify_worker toy_crypto demo_items) (verify_start 1) 4 (\<lparr>v_ok = 0, v_next = 1, v_failed = True, v_error = []\<rparr>, [VErr 0])"
    by (simp add: numeral_eq_Suc)
  from single_turn [OF this, of "()"] show ?thesis by (simp add: numeral_eq_Suc)
qed

theorem parallel_verify_sequential_witness:
  "(5 :: nat) \<le> 5 * length demo_items + 3 * 1 \<and> batch_verify toy_crypto 0 demo_items \<noteq> Inr ()"
proof -
  have "demo_items \<noteq> []" "(1 :: nat) = verify_threads 1 0 (length demo_items)"
    by (simp_all add: demo_items_def verify_threads_def)
  from parallel_verify_sequential [OF this demo_verify_run] show ?thesis
    by (simp add: verify_joined) (simp add: verify_result_def)
qed


definition demo_search :: psearch where
  "demo_search = \<lparr>ps_cr = demo_crypto, ps_header = demo_header, ps_alg = Sha3_512, ps_target = U64_MAX, ps_threads = 1,
     ps_deadline_sec = 30, ps_stop = True\<rparr>"

abbreviation demo_pow :: "bool \<Rightarrow> u64 \<Rightarrow> string \<Rightarrow> pshared" where
  "demo_pow f k h \<equiv> \<lparr>p_found = f, p_deadline_hit = False, p_stopped = False, p_hashes = k, p_nonce = 0, p_hash = h\<rparr>"

lemma demo_pow_run:
  "runs (pow_worker demo_search) (pow_start 1) 6 (demo_pow True 1 (demo_digest CHR ''2''), [PDone])"
proof -
  let ?h = "demo_digest CHR ''2''"
  have hd: "demo_header\<lparr>hd_nonce := 0\<rparr> = demo_header" by (simp add: demo_header_def)
  have "list_all is_hex_char (take 16 ?h)" using demo_digest_hex(2) [of "CHR ''2''"] by (auto simp: list_all_iff dest: in_set_takeD)
  then have m: "pow_meets_target demo_crypto Sha3_512 ?h U64_MAX"
    by (simp add: pow_meets_target_def hash_head64_def word_le_nat_alt)
  have "runs (pow_worker demo_search) (pow_start 1) 0 (demo_pow False 0 [], [PHead 0 0])"
    using here [of _ "pow_start 1"] by (simp add: pow_start_def)
  from single_turn [OF this, of "(False, False)"] have "runs (pow_worker demo_search) (pow_start 1) 1 (demo_pow False 0 [], [PBody 0 0])"
    by simp
  from single_turn [OF this, of "(False, False)"] have "runs (pow_worker demo_search) (pow_start 1) 2 (demo_pow False 0 [], [PHit 0 1 ?h])"
    by (simp add: demo_search_def hd m numeral_eq_Suc)
  from single_turn [OF this, of "(False, False)"] have "runs (pow_worker demo_search) (pow_start 1) 3 (demo_pow True 0 [], [PWon 0 1 ?h])"
    by (simp add: numeral_eq_Suc)
  from single_turn [OF this, of "(False, False)"] have "runs (pow_worker demo_search) (pow_start 1) 4 (demo_pow True 0 [], [PStored 1 ?h])"
    by (simp add: numeral_eq_Suc)
  from single_turn [OF this, of "(False, False)"] have "runs (pow_worker demo_search) (pow_start 1) 5 (demo_pow True 0 ?h, [PLeave 1])"
    by (simp add: numeral_eq_Suc)
  from single_turn [OF this, of "(False, False)"] show ?thesis by (simp add: numeral_eq_Suc)
qed

theorem pow_search_sound_witness:
  "hash_meets_target demo_ce (demo_digest CHR ''2'') U64_MAX"
proof -
  have j: "joined (pow_worker demo_search) (demo_pow True 1 (demo_digest CHR ''2''), [PDone])" by (simp add: joined_def)
  have f: "found (pow_result (demo_pow True 1 (demo_digest CHR ''2'')))" by (simp add: pow_result_def)
  have r: "header_hash (pow_result (demo_pow True 1 (demo_digest CHR ''2''))) = demo_digest CHR ''2''" by (simp add: pow_result_def)
  have c: "ps_cr demo_search = ce_cr demo_ce" "ps_alg demo_search = pow_alg (ce_cfg demo_ce)" "ps_target demo_search = U64_MAX"
    by (simp_all add: demo_search_def demo_cfg_def)
  show ?thesis using pow_search_sound [OF demo_pow_run j f c(1,2)] unfolding r c(3) by blast
qed

end
