(* ===== verification/Miner.thy ===== *)
theory Miner
  imports Mempool Parallel_Work
begin

text \<open>
  \<^verbatim>\<open>class Miner\<close> (\<^verbatim>\<open>miner.hpp\<close>, \<^verbatim>\<open>miner.cpp\<close>): one mining round takes transactions from the mempool, drops the invalid
  ones, fits the rest to the relay and weight budgets, mines and connects the block, and returns what the block does
  not hold. The elapsed time, the throughput figures and the stop flag are not part of the model; the proof-of-work
  search is the argument \<open>search\<close>, whose threads are in \<open>Parallel_Work\<close>. The daemon releases its lock for the whole round
  (\<^verbatim>\<open>UnlockWhileHashing\<close>, \<^verbatim>\<open>rpc_server.cpp\<close>), and each call of the mempool takes the mempool's own lock, so other threads may
  submit transactions between any two calls of the miner: these are the argument \<open>other\<close>. The chain has no lock of its own;
  the model is the round during which no other thread writes the chain. The lemmas show that a round loses no valid
  transaction, except one displaced by a conflicting transaction of another thread.
\<close>

section \<open>State and operations\<close>

definition kBlockWireOverheadBytes :: nat where "kBlockWireOverheadBytes = 8192"
definition kMaxRelayBlockWireBytes :: nat where "kMaxRelayBlockWireBytes = 3 * 1024 * 1024"

record miner =
  last_mined_txs :: nat
  last_dropped_junk :: nat
  relay_budget_bytes :: nat
  last_deferred_for_size :: nat
  last_block_wire_bytes :: nat

definition Miner_init :: miner where
  "Miner_init = \<lparr>last_mined_txs = 0, last_dropped_junk = 0, relay_budget_bytes = kMaxRelayBlockWireBytes,
     last_deferred_for_size = 0, last_block_wire_bytes = 0\<rparr>"

definition set_relay_budget_bytes :: "miner \<Rightarrow> nat \<Rightarrow> miner" where
  "set_relay_budget_bytes m n = m\<lparr>relay_budget_bytes := n\<rparr>"

text \<open>The size loop: the number of leading transactions that fit, and the bytes they use.\<close>

fun fit_loop :: "crypto \<Rightarrow> nat \<Rightarrow> nat \<Rightarrow> nat \<Rightarrow> nat \<Rightarrow> transaction list \<Rightarrow> nat \<times> nat" where
  "fit_loop cr budget cap used weight [] = (0, used)"
| "fit_loop cr budget cap used weight (tx # txs) =
     (if used + tx_wire_bytes cr tx > budget \<or> weight + tx_weight cr tx > cap then (0, used)
      else (case fit_loop cr budget cap (used + tx_wire_bytes cr tx) (weight + tx_weight cr tx) txs of
              (k, u) \<Rightarrow> (k + 1, u)))"

definition submit_all :: "crypto \<Rightarrow> mempool \<Rightarrow> transaction list \<Rightarrow> mempool" where
  "submit_all cr mp txs = foldl (\<lambda>mp tx. snd (submit cr mp tx)) mp txs"

text \<open>
  The loops that return transactions to the mempool, amid the submissions of other threads: \<open>other i\<close> are those that
  come before the \<open>i\<close>-th call of the miner since the fetch, or after its last call.
\<close>

fun submit_amid :: "crypto \<Rightarrow> (nat \<Rightarrow> transaction list) \<Rightarrow> nat \<Rightarrow> mempool \<Rightarrow> transaction list \<Rightarrow> mempool" where
  "submit_amid cr other i mp [] = submit_all cr mp (other i)"
| "submit_amid cr other i mp (tx # txs) = submit_amid cr other (i + 1) (snd (submit cr (submit_all cr mp (other i)) tx)) txs"

text \<open>
  \<open>vote_source\<close> and \<open>slash_source\<close> are the optional callbacks, here with the lists they return; \<open>now\<close> and \<open>now'\<close> are
  the clock at the template and at the connection of the block.
\<close>

definition mine_next_block ::
    "chain_env \<Rightarrow> (nat \<Rightarrow> transaction list) \<Rightarrow> (transaction list \<Rightarrow> transaction list) \<Rightarrow> string list \<Rightarrow> u64 \<Rightarrow> u64 \<Rightarrow> u64 \<Rightarrow> (block_header \<Rightarrow> pow_search_result)
       \<Rightarrow> stake_vote list option \<Rightarrow> slash_evidence list option \<Rightarrow> miner \<Rightarrow> mempool \<Rightarrow> chain_state \<Rightarrow> string \<Rightarrow> nat
       \<Rightarrow> string res \<times> miner \<times> mempool \<times> chain_state" where
  "mine_next_block ce other srt order now now' deadline_sec search vote_source slash_source m mp st reward_address max_txs =
     (let cr = ce_cr ce;
          (fetched, mp1) = fetch_for_block cr srt order mp max_txs;
          valid = filter (\<lambda>tx. validate_transaction ce st tx True = Inr ()) fetched;
          m1 = m\<lparr>last_dropped_junk := length fetched - length valid\<rparr>;
          with_votes = (vote_source \<noteq> None \<and> staking_active_at ce (height st + 1));
          vs = (if with_votes then the vote_source else []);
          evs = (if with_votes then (case slash_source of None \<Rightarrow> [] | Some es \<Rightarrow> es) else []);
          vote_reserve = (if with_votes
                          then stake_extension_weight \<lparr>header = \<lparr>hd_height = 0, hd_previous_hash = [], hd_timestamp = 0, hd_nonce = 0,
                                 hd_difficulty_target = 0, hd_merkle_root = []\<rparr>, transactions = [], votes = vs, slashes = evs\<rparr>
                          else 0);
          budget = (if relay_budget_bytes m > kBlockWireOverheadBytes then relay_budget_bytes m - kBlockWireOverheadBytes else 0);
          (keep, used) = fit_loop cr budget (unat (max_block_weight (ce_cfg ce))) (2048 + (vote_reserve * 4 + 2) div 3)
                           (4096 + vote_reserve) valid;
          mp2 = submit_amid cr other 0 mp1 (drop keep valid);
          m2 = m1\<lparr>last_deferred_for_size := length valid - keep, last_block_wire_bytes := used + kBlockWireOverheadBytes\<rparr>;
          txs = take keep valid;
          (r, st1) = (if with_votes
                      then mine_and_add_block_with_votes ce now now' deadline_sec search st reward_address txs vs evs
                      else mine_and_add_block ce now now' deadline_sec search st reward_address txs)
      in case r of
           Inl e \<Rightarrow> (Inl e, m2, submit_amid cr other (length valid - keep + 1) mp2 txs, st1)
         | Inr h \<Rightarrow> (Inr h, m2\<lparr>last_mined_txs := length txs\<rparr>, mp2, st1))"

section \<open>A round loses nothing\<close>

definition compatible :: "crypto \<Rightarrow> transaction list \<Rightarrow> bool" where
  "compatible cr txs \<longleftrightarrow> list_all looks_spendable txs \<and> unique_keys (\<lambda>tx. {hash_transaction cr tx}) txs
     \<and> unique_keys nonce_keys txs \<and> unique_keys spend_keys txs"

lemma mp_ok_compatible: "mp_ok True cr txs mp \<Longrightarrow> compatible cr txs"
  by (simp add: mp_ok_def compatible_def)

lemma unique_keys_sub: "unique_keys f xs \<Longrightarrow> mset ys \<subseteq># mset xs \<Longrightarrow> unique_keys f ys"
proof (unfold unique_keys_def, intro allI)
  fix k
  assume u: "\<forall>k. length (filter (\<lambda>tx. k \<in> f tx) xs) \<le> 1" and s: "mset ys \<subseteq># mset xs"
  have "size (mset (filter (\<lambda>tx. k \<in> f tx) ys)) \<le> size (mset (filter (\<lambda>tx. k \<in> f tx) xs))"
    unfolding mset_filter by (intro size_mset_mono multiset_filter_mono s)
  then show "length (filter (\<lambda>tx. k \<in> f tx) ys) \<le> 1" using u by (metis order_trans size_mset)
qed

lemma compatible_sub: "compatible cr xs \<Longrightarrow> mset ys \<subseteq># mset xs \<Longrightarrow> compatible cr ys"
  using set_mset_mono [of "mset ys" "mset xs"] unique_keys_sub
  by (auto simp: compatible_def list_all_iff)

lemma unique_apart: "unique_keys f (xs @ tx # ys) \<Longrightarrow> f tx \<inter> keys_of f xs = {}"
  using unique_remove(3) [of f "xs @ tx # ys" tx "xs @ ys"] by (auto simp: keys_of_def)

lemma submit_all_ok:
  "mp_ok True cr (pending mp) mp \<Longrightarrow> compatible cr (pending mp @ txs) \<Longrightarrow>
     pending (submit_all cr mp txs) = pending mp @ txs \<and> mp_ok True cr (pending (submit_all cr mp txs)) (submit_all cr mp txs)"
proof (induction txs arbitrary: mp)
  case (Cons tx txs)
  let ?p = "pending mp"
  have c: "looks_spendable tx" "{hash_transaction cr tx} \<inter> keys_of (\<lambda>tx. {hash_transaction cr tx}) ?p = {}"
      "nonce_keys tx \<inter> keys_of nonce_keys ?p = {}" "spend_keys tx \<inter> keys_of spend_keys ?p = {}"
    using Cons.prems(2) unique_apart [of "\<lambda>tx. {hash_transaction cr tx}" ?p tx txs] unique_apart [of _ ?p tx txs]
    by (simp_all add: compatible_def)
  then have s: "submit cr mp tx = (True, admit cr mp tx)"
    using Cons.prems(1) by (simp add: submit_cases mp_ok_def)
  have ok: "mp_ok True cr (?p @ [tx]) (admit cr mp tx)"
    using Cons.prems(1) c by (intro admit_ok) (auto simp: mp_ok_def spend_keys_def)
  have p: "pending (admit cr mp tx) = ?p @ [tx]" by (simp add: admit_def)
  show ?case using Cons.IH [of "admit cr mp tx"] Cons.prems(2) ok s by (auto simp: submit_all_def p)
qed (simp add: submit_all_def)

lemma assemble_block_body:
  assumes "assemble_block ce now st addr txs vs evs = Inr b"
  shows "tl (transactions b) = txs"
  using assms
  by (auto simp: assemble_block_def Let_def make_block_template_def bind_res_Inr split: if_splits)

lemma mined_block:
  assumes "mine_and_add_block_with_votes ce now now' dl search st addr txs vs evs = (r, st')" and idle: "applying_height st = 0"
  shows "case r of Inl _ \<Rightarrow> st' = st | Inr _ \<Rightarrow> \<exists>b. blocks st' = blocks st @ [b] \<and> tl (transactions b) = txs"
  using assms(1)
proof (cases rule: mine_cases)
  case (tried b h r')
  from assemble_block_body [OF tried(1)] have body: "tl (transactions b) = txs" .
  from tried(4) idle show ?thesis
  proof (cases rule: add_block_cases)
    case (refused e)
    then show ?thesis using tried(5) by simp
  next
    case (accepted s s1 cb rest t f m)
    have "blocks s = blocks st" using apply_transactions_frame [OF accepted(10)] by (simp add: same_frame_def)
    then have "blocks s1 = blocks st" using accepted(13) by (simp add: slashes_frame)
    then have "blocks st' = blocks st @ [b\<lparr>header := (header b)\<lparr>hd_nonce := found_nonce (search (header b))\<rparr>\<rparr>]"
      using accepted(14) by (simp add: connect_block_def Let_def)
    then show ?thesis using tried(5) accepted(1) body by (auto intro!: exI)
  qed
qed simp

text \<open>The submissions of a round only add to the mempool, and every state on the way is reachable.\<close>

lemma submit_run: "pool_run strict cr mp \<Longrightarrow> pool_run strict cr (snd (submit cr mp tx))"
  by (rule pool_submit [OF _ surjective_pairing])

lemma submit_pending: "set (pending mp) \<subseteq> set (pending (snd (submit cr mp tx)))"
    "set (pending (snd (submit cr mp tx))) \<subseteq> insert tx (set (pending mp))"
  by (auto simp: submit_cases admit_def)

lemma submit_all_run: "pool_run strict cr mp \<Longrightarrow> pool_run strict cr (submit_all cr mp txs)"
  by (induction txs arbitrary: mp) (simp_all add: submit_all_def submit_run)

lemma submit_all_pending: "set (pending mp) \<subseteq> set (pending (submit_all cr mp txs))"
    "set (pending (submit_all cr mp txs)) \<subseteq> set (pending mp) \<union> set txs"
proof (induction txs arbitrary: mp)
  case (Cons tx txs)
  { case 1 show ?case using Cons.IH(1) [of "snd (submit cr mp tx)"] submit_pending(1) [of mp cr tx] by (simp add: submit_all_def) }
  { case 2 show ?case using Cons.IH(2) [of "snd (submit cr mp tx)"] submit_pending(2) [of cr mp tx] by (simp add: submit_all_def) blast }
qed (simp_all add: submit_all_def)

lemma submit_amid_run: "pool_run strict cr mp \<Longrightarrow> pool_run strict cr (submit_amid cr other i mp txs)"
  by (induction txs arbitrary: mp i) (simp_all add: submit_run submit_all_run)

lemma submit_amid_grows: "set (pending mp) \<subseteq> set (pending (submit_amid cr other i mp txs))"
proof (induction txs arbitrary: mp i)
  case (Cons tx txs)
  let ?m = "submit_all cr mp (other i)"
  have "set (pending ?m) \<subseteq> set (pending (submit_amid cr other i mp (tx # txs)))"
    using Cons.IH [of "snd (submit cr ?m tx)" "i + 1"] submit_pending(1) [of ?m cr tx] by simp
  then show ?case using submit_all_pending(1) [of mp cr "other i"] by blast
qed (simp add: submit_all_pending)

lemma submit_amid_alone: "(\<forall>i. other i = []) \<Longrightarrow> submit_amid cr other i mp txs = submit_all cr mp txs"
  by (induction txs arbitrary: mp i) (simp_all add: submit_all_def)

text \<open>Two transactions that the mempool does not hold together.\<close>

definition tx_conflicts :: "crypto \<Rightarrow> transaction \<Rightarrow> transaction \<Rightarrow> bool" where
  "tx_conflicts cr a b \<longleftrightarrow> hash_transaction cr a = hash_transaction cr b \<or> nonce_keys a \<inter> nonce_keys b \<noteq> {}
     \<or> spend_keys a \<inter> spend_keys b \<noteq> {}"

lemma submit_displaced:
  assumes "pool_run strict cr mp" and "looks_spendable tx"
  shows "tx \<in> set (pending (snd (submit cr mp tx))) \<or> (\<exists>t\<in>set (pending mp). tx_conflicts cr tx t)"
proof (rule disjCI)
  assume free: "\<not> (\<exists>t\<in>set (pending mp). tx_conflicts cr tx t)"
  have ids: "mp_txids mp = keys_of (\<lambda>tx. {hash_transaction cr tx}) (pending mp)" "mp_signer_nonces mp = keys_of nonce_keys (pending mp)"
      "mp_reserved mp \<subseteq> keys_of spend_keys (pending mp)"
    using pool_run_ok [OF assms(1)] by (simp_all add: mp_ok_def)
  have "hash_transaction cr tx \<notin> mp_txids mp" "nonce_keys tx \<inter> mp_signer_nonces mp = {}" "spend_keys tx \<inter> keys_of spend_keys (pending mp) = {}"
    using free unfolding ids(1,2) tx_conflicts_def keys_of_def by auto
  moreover from this(3) have "spend_keys tx \<inter> mp_reserved mp = {}" using ids(3) by blast
  ultimately show "tx \<in> set (pending (snd (submit cr mp tx)))" using assms(2) by (simp add: submit_cases admit_def)
qed

lemma compatible_apart: "compatible cr (xs @ tx # ys) \<Longrightarrow> t \<in> set xs \<Longrightarrow> \<not> tx_conflicts cr tx t"
  using unique_apart [of "\<lambda>tx. {hash_transaction cr tx}" xs tx ys] unique_apart [of nonce_keys xs tx ys]
    unique_apart [of spend_keys xs tx ys]
  by (auto simp: compatible_def tx_conflicts_def keys_of_def)

text \<open>
  A transaction that the miner returns is pending afterwards, or a conflicting one is. When the mempool was never
  refilled, the transactions of the round do not conflict with each other, so the conflicting one comes from another thread.
\<close>

lemma submit_amid_returns:
  assumes "pool_run strict cr mp" and "list_all looks_spendable txs" and "set (pending mp) \<subseteq> set base \<union> foreign"
    and "\<And>i. set (other i) \<subseteq> foreign" and "strict \<Longrightarrow> compatible cr (base @ txs)"
  shows "(\<forall>tx\<in>set txs. tx \<in> set (pending (submit_amid cr other i mp txs))
        \<or> (\<exists>t\<in>set (pending (submit_amid cr other i mp txs)). tx_conflicts cr tx t \<and> (strict \<longrightarrow> t \<in> foreign)))
    \<and> set (pending (submit_amid cr other i mp txs)) \<subseteq> set base \<union> set txs \<union> foreign"
  using assms
proof (induction txs arbitrary: mp base i)
  case Nil
  then show ?case using submit_all_pending(2) [of cr mp "other i"] by fastforce
next
  case (Cons tx txs)
  let ?m = "submit_all cr mp (other i)"
  let ?n = "snd (submit cr ?m tx)"
  let ?e = "pending (submit_amid cr other i mp (tx # txs))"
  have m: "pool_run strict cr ?m" using Cons.prems(1) by (rule submit_all_run)
  have mb: "set (pending ?m) \<subseteq> set base \<union> foreign"
    using submit_all_pending(2) [of cr mp "other i"] Cons.prems(3,4) by blast
  have nb: "set (pending ?n) \<subseteq> set (base @ [tx]) \<union> foreign" using submit_pending(2) [of cr ?m tx] mb by auto
  have "strict \<Longrightarrow> compatible cr ((base @ [tx]) @ txs)" using Cons.prems(5) by simp
  note I = Cons.IH [OF submit_run [OF m] _ nb Cons.prems(4) this, where i = "i + 1"]
  have grow: "set (pending ?n) \<subseteq> set ?e" using submit_amid_grows [of ?n cr other "i + 1" txs] by simp
  have "tx \<in> set ?e \<or> (\<exists>t\<in>set ?e. tx_conflicts cr tx t \<and> (strict \<longrightarrow> t \<in> foreign))"
  proof (cases "tx \<in> set (pending ?n)")
    case False
    then obtain t where t: "t \<in> set (pending ?m)" "tx_conflicts cr tx t" using submit_displaced [OF m] Cons.prems(2) by auto
    have "t \<in> set ?e" using t(1) submit_pending(1) [of ?m cr tx] grow by blast
    moreover have "strict \<longrightarrow> t \<in> foreign" using t mb Cons.prems(5) compatible_apart [of cr base tx txs t] by auto
    ultimately show ?thesis using t(2) by blast
  qed (use grow in blast)
  then show ?case using I Cons.prems(2) by auto
qed

lemma mine_next_block_parts:
  assumes "mine_next_block ce other srt order now now' dl search vsrc ssrc m mp st addr max_txs = (r, m', mp', st')"
    and f: "fetch_for_block (ce_cr ce) srt order mp max_txs = (fetched, mp1)"
  obtains keep vs evs valid where "valid = filter (\<lambda>tx. validate_transaction ce st tx True = Inr ()) fetched"
    "mine_and_add_block_with_votes ce now now' dl search st addr (take keep valid) vs evs = (r, st')"
    "mp' = (case r of Inl _ \<Rightarrow> submit_amid (ce_cr ce) other (length valid - keep + 1) (submit_amid (ce_cr ce) other 0 mp1 (drop keep valid)) (take keep valid)
            | Inr _ \<Rightarrow> submit_amid (ce_cr ce) other 0 mp1 (drop keep valid))"
    "last_dropped_junk m' = length fetched - length valid"
  using assms unfolding mine_next_block_def mine_and_add_block_def
  by (auto simp: Let_def split: prod.splits sum.splits if_splits)

text \<open>The transactions of a round that does not meet other threads, as multisets.\<close>

lemma round_alone:
  assumes pool: "pool_run True cr mp" and srt: "sorts_by tx_before srt" and f: "fetch_for_block cr srt order mp n = (fetched, mp1)"
    and v: "v = filter P fetched"
  shows "compatible cr (pending mp1 @ drop k v @ take k v)"
    and "(\<forall>i. other i = []) \<Longrightarrow> mset (pending (submit_amid cr other i mp1 (drop k v))) + mset (take k v)
      + mset (filter (\<lambda>tx. \<not> P tx) fetched) = mset (pending mp)"
    and "(\<forall>i. other i = []) \<Longrightarrow> mset (pending (submit_amid cr other j (submit_amid cr other i mp1 (drop k v)) (take k v)))
      + mset (filter (\<lambda>tx. \<not> P tx) fetched) = mset (pending mp)"
proof -
  let ?junk = "filter (\<lambda>tx. \<not> P tx) fetched"
  note F = fetch_ok [OF pool_run_ok [OF pool] srt f]
  have split: "mset v + mset ?junk = mset fetched" unfolding v mset_filter by (rule multiset_partition [symmetric])
  have tk: "mset (take k v) + mset (drop k v) = mset v" by (metis append_take_drop_id mset_append)
  have "mset (pending mp) = mset fetched + mset (pending mp1)" using F(2) by simp
  also have "\<dots> = (mset (take k v) + mset (drop k v) + mset ?junk) + mset (pending mp1)" by (simp only: split tk)
  finally have all: "mset (pending mp1) + mset (drop k v) + mset (take k v) + mset ?junk = mset (pending mp)"
    by (simp only: ac_simps)
  show sub: "compatible cr (pending mp1 @ drop k v @ take k v)"
  proof (rule compatible_sub [OF mp_ok_compatible [OF pool_run_ok [OF pool]]])
    show "mset (pending mp1 @ drop k v @ take k v) \<subseteq># mset (pending mp)"
      unfolding mset_append all [symmetric] by (simp add: add.assoc)
  qed
  then have c1: "compatible cr (pending mp1 @ drop k v)" by (rule compatible_sub) (simp add: subset_mset.add_increasing2)
  note S1 = submit_all_ok [OF F(1) c1]
  have S2: "pending (submit_all cr (submit_all cr mp1 (drop k v)) (take k v)) = pending mp1 @ drop k v @ take k v"
    using submit_all_ok [OF conjunct2 [OF S1], of "take k v"] sub S1 by simp
  show "mset (pending (submit_amid cr other i mp1 (drop k v))) + mset (take k v) + mset ?junk = mset (pending mp)" if "\<forall>i. other i = []"
    using all S1 by (simp add: submit_amid_alone [OF that])
  show "mset (pending (submit_amid cr other j (submit_amid cr other i mp1 (drop k v)) (take k v))) + mset ?junk = mset (pending mp)"
    if "\<forall>i. other i = []"
    using all S2 by (simp add: submit_amid_alone [OF that] add.assoc)
qed

text \<open>The transactions of a round amid other threads; \<open>returned\<close> tells whether those of the block are returned.\<close>

lemma round_amid:
  assumes pool: "pool_run strict cr mp" and srt: "sorts_by tx_before srt" and f: "fetch_for_block cr srt order mp n = (fetched, mp1)"
    and v: "v = filter P fetched" and tx: "tx \<in> set (pending mp)"
    and mp2_def: "mp2 = submit_amid cr other i mp1 (drop k v)"
    and mp3_def: "mp3 = (if returned then submit_amid cr other j mp2 (take k v) else mp2)"
  shows "tx \<in> set (filter (\<lambda>tx. \<not> P tx) fetched) \<or> \<not> returned \<and> tx \<in> set (take k v) \<or> tx \<in> set (pending mp3)
    \<or> (\<exists>t\<in>set (pending mp3). tx_conflicts cr tx t \<and> (strict \<longrightarrow> t \<in> (\<Union>i. set (other i))))"
proof -
  let ?foreign = "\<Union>i. set (other i)"
  note F = fetch_ok [OF pool_run_ok [OF pool] srt f]
  have run1: "pool_run strict cr mp1" by (rule pool_fetch [OF pool srt f])
  have mem: "set (pending mp) = set fetched \<union> set (pending mp1)" using arg_cong [OF F(2), of set_mset] by simp
  then have "list_all looks_spendable v" using pool_run_ok [OF pool] by (auto simp: v mp_ok_def list_all_iff)
  then have sp: "list_all looks_spendable (drop k v)" "list_all looks_spendable (take k v)"
    by (auto simp: list_all_iff dest: in_set_takeD in_set_dropD)
  have comp: "compatible cr (pending mp1 @ drop k v @ take k v)" if strict
    using round_alone(1) [OF _ srt f v] pool that by simp
  have comp1: "compatible cr (pending mp1 @ drop k v)" if strict
    using comp [OF that] by (rule compatible_sub) (simp add: subset_mset.add_increasing2)
  have own: "set (other i) \<subseteq> ?foreign" for i by blast
  note R1 = submit_amid_returns [where i = i and other = other and foreign = ?foreign, OF run1 sp(1) Un_upper1 own comp1, folded mp2_def]
  have b2: "set (pending mp2) \<subseteq> set (pending mp1 @ drop k v) \<union> ?foreign" using conjunct2 [OF R1] by simp
  have run2: "pool_run strict cr mp2" unfolding mp2_def by (rule submit_amid_run [OF run1])
  have "strict \<Longrightarrow> compatible cr ((pending mp1 @ drop k v) @ take k v)" using comp by simp
  note R2 = conjunct1 [OF submit_amid_returns [where i = j and other = other and foreign = ?foreign, OF run2 sp(2) b2 own this]]
  have grow: "set (pending mp1) \<subseteq> set (pending mp2)" "set (pending mp2) \<subseteq> set (pending mp3)"
    unfolding mp2_def mp3_def by (simp_all add: submit_amid_grows)
  have "set v = set (drop k v) \<union> set (take k v)" by (metis Un_commute append_take_drop_id set_append)
  then consider "tx \<in> set (pending mp1)" | "tx \<in> set fetched" "\<not> P tx" | "tx \<in> set (drop k v)" | "tx \<in> set (take k v)"
    using tx mem v by auto
  then show ?thesis
  proof cases
    case 3
    then show ?thesis using conjunct1 [OF R1] grow(2) by blast
  next
    case 4
    then show ?thesis using R2 by (cases returned) (auto simp: mp3_def)
  qed (use grow in auto)
qed

section \<open>Properties\<close>

text \<open>
  Claim C25. A mining round loses no valid transaction. Let the mempool be any that was reached from the empty one,
  also by refills, and let other threads submit any transactions between the calls of the miner, while no other
  thread writes the chain. The round drops, and counts, only transactions that the chain rejects. If it fails the
  chain is untouched and the block is given up; if it succeeds the chain has one more block. Every transaction
  pending before the round is dropped as invalid, or is in the body of the new block, or is pending after the round,
  or conflicts (same id, nonce of the same signer, output or nullifier) with one that is pending after the round. In
  a mempool that was never refilled that conflicting one was submitted by another thread during the round; when
  moreover no other thread submits anything, what is pending afterwards, in the block and dropped is exactly what
  was pending before, as multisets.
\<close>

theorem mining_round_conserves:
  assumes pool: "pool_run strict (ce_cr ce) mp" and chain: "chain_run ce st" and srt: "sorts_by tx_before srt"
    and mine: "mine_next_block ce other srt order now now' dl search vsrc ssrc m mp st addr max_txs = (r, m', mp', st')"
  shows "\<exists>junk body. (\<forall>tx\<in>set junk. validate_transaction ce st tx True \<noteq> Inr ()) \<and> last_dropped_junk m' = length junk
    \<and> (case r of
         Inl _ \<Rightarrow> st' = st \<and> body = []
       | Inr _ \<Rightarrow> \<exists>b. blocks st' = blocks st @ [b] \<and> tl (transactions b) = body)
    \<and> (\<forall>tx\<in>set (pending mp). tx \<in> set junk \<or> tx \<in> set body \<or> tx \<in> set (pending mp')
         \<or> (\<exists>t\<in>set (pending mp'). tx_conflicts (ce_cr ce) tx t \<and> (strict \<longrightarrow> t \<in> (\<Union>i. set (other i)))))
    \<and> (strict \<and> (\<forall>i. other i = []) \<longrightarrow> mset (pending mp') + mset body + mset junk = mset (pending mp))"
proof -
  let ?cr = "ce_cr ce" and ?ok = "\<lambda>tx. validate_transaction ce st tx True = Inr ()"
  obtain fetched mp1 where f: "fetch_for_block ?cr srt order mp max_txs = (fetched, mp1)" by fastforce
  note F = fetch_ok [OF pool_run_ok [OF pool] srt f]
  let ?v = "filter ?ok fetched" and ?junk = "filter (\<lambda>tx. \<not> ?ok tx) fetched"
  obtain keep vs evs where mine_: "mine_and_add_block_with_votes ce now now' dl search st addr (take keep ?v) vs evs = (r, st')"
    and mp': "mp' = (case r of Inl _ \<Rightarrow> submit_amid ?cr other (length ?v - keep + 1) (submit_amid ?cr other 0 mp1 (drop keep ?v)) (take keep ?v)
                    | Inr _ \<Rightarrow> submit_amid ?cr other 0 mp1 (drop keep ?v))"
    and junk: "last_dropped_junk m' = length fetched - length ?v"
    by (rule mine_next_block_parts [OF mine f]) blast
  let ?body = "case r of Inl _ \<Rightarrow> [] | Inr _ \<Rightarrow> take keep ?v"
  have "length ?junk = length fetched - length ?v" using sum_length_filter_compl [of ?ok fetched] by simp
  then have "last_dropped_junk m' = length ?junk" using junk by simp
  moreover have "case r of Inl _ \<Rightarrow> st' = st \<and> ?body = [] | Inr _ \<Rightarrow> \<exists>b. blocks st' = blocks st @ [b] \<and> tl (transactions b) = ?body"
    using mined_block [OF mine_ chain_run_idle [OF chain]] by (cases r) simp_all
  moreover have "tx \<in> set ?junk \<or> tx \<in> set ?body \<or> tx \<in> set (pending mp')
      \<or> (\<exists>t\<in>set (pending mp'). tx_conflicts ?cr tx t \<and> (strict \<longrightarrow> t \<in> (\<Union>i. set (other i))))" if "tx \<in> set (pending mp)" for tx
    using round_amid [where P = "?ok" and k = keep and i = "0" and j = "length ?v - keep + 1" and other = other
        and returned = "\<exists>e. r = Inl e", OF pool srt f refl that refl refl] mp' by (cases r) auto
  moreover have "strict \<and> (\<forall>i. other i = []) \<longrightarrow> mset (pending mp') + mset ?body + mset ?junk = mset (pending mp)"
    using round_alone(2,3) [OF _ srt f refl, where other = other] pool mp' by (cases r) auto
  ultimately show ?thesis by (intro exI [of _ ?junk] exI [of _ ?body]) simp
qed

definition demo_one :: mempool where "demo_one = admit demo_crypto Mempool_init (demo_pay 9 2)"

lemma demo_one_run: "pool_run True (ce_cr demo_ce) demo_one"
proof -
  have "submit demo_crypto Mempool_init (demo_pay 9 2) = (True, demo_one)"
    by (simp add: submit_cases demo_pay_keys demo_one_def) (simp add: Mempool_init_def)
  then show ?thesis using pool_submit [OF pool_init] by simp
qed

theorem mining_round_conserves_witness:
  "\<exists>mp' junk. mset (pending mp') + mset junk = {#demo_pay 9 2#}
     \<and> (\<exists>r m' st'. mine_next_block demo_ce (\<lambda>_. []) insertion_sort [''s''] 0 0 0
          (\<lambda>_. \<lparr>found = False, found_nonce = 0, header_hash = [], stopped = False, deadline_hit = False\<rparr>)
          None None Miner_init demo_one (Chain_reset demo_ce) ''m'' 10 = (Inl r, m', mp', st'))"
proof -
  let ?s = "\<lambda>_ :: block_header. \<lparr>found = False, found_nonce = 0, header_hash = [], stopped = False, deadline_hit = False\<rparr>"
  obtain r m' mp' st' where e: "mine_next_block demo_ce (\<lambda>_. []) insertion_sort [''s''] 0 0 0 ?s None None Miner_init demo_one (Chain_reset demo_ce) ''m'' 10
      = (r, m', mp', st')" by (metis surj_pair)
  obtain fetched mp1 where f: "fetch_for_block (ce_cr demo_ce) insertion_sort [''s''] demo_one 10 = (fetched, mp1)" by fastforce
  have "\<exists>x. r = Inl x"
    by (rule mine_next_block_parts [OF e f])
      (auto simp: mine_and_add_block_with_votes_def mine_block_def Let_def split: sum.splits)
  then obtain x where x: "r = Inl x" by blast
  have p: "pending demo_one = [demo_pay 9 2]" by (simp add: demo_one_def admit_def Mempool_init_def)
  obtain junk where "mset (pending mp') + mset junk = {#demo_pay 9 2#}"
    using mining_round_conserves [OF demo_one_run start insertion_sort_sorts e] x p by auto
  then show ?thesis using e x by blast
qed

end
