(* ===== verification/Crypto_Signing.thy ===== *)
theory Crypto_Signing
  imports Crypto_Model
begin

text \<open>
  The signing half of \<^verbatim>\<open>crypto.cpp\<close>: the two liboqs signing calls with their size checks,
  \<^verbatim>\<open>sign_message_hybrid\<close>, the list of allowed schemes, random hex strings and the key generation of
  \<^verbatim>\<open>wallet_keys.cpp\<close>. The lemmas show that what the wrapper signs, the verifier of \<open>Crypto_Model\<close>
  accepts, and that a generated address binds its public key.
\<close>

section \<open>Definitions\<close>

text \<open>
  liboqs' signing calls, with the outcome \<open>None\<close> for an error code: \<open>oqs_sign sk msg\<close> is
  \<^verbatim>\<open>OQS_SIG_sign\<close> of ML-DSA-87 and \<open>oqs_sign_ctx ctx sk msg\<close> \<^verbatim>\<open>OQS_SIG_sign_with_ctx_str\<close> of SLH-DSA;
  \<open>oqs_keypair\<close> is \<^verbatim>\<open>OQS_SIG_keypair\<close> with the public and the secret key.
\<close>

record oqs_signer =
  oqs_sign :: "string \<Rightarrow> string \<Rightarrow> string option"
  oqs_sign_ctx :: "string \<Rightarrow> string \<Rightarrow> string \<Rightarrow> string option"
  oqs_keypair :: "sig_scheme \<Rightarrow> (string \<times> string) option"

definition parse_sig_scheme :: "string \<Rightarrow> sig_scheme option" where
  "parse_sig_scheme name =
     (if name = ''ml-dsa-87'' \<or> name = ''ML-DSA-87'' then Some MlDsa87
      else if name = ''slh-dsa-shake-256s'' \<or> name = ''SLH-DSA-SHAKE-256s'' \<or> name = ''SPHINCS+-SHAKE-256s-simple''
      then Some SlhDsaShake256s
      else None)"

definition allowed_sig_algs_list :: "crypto \<Rightarrow> string" where
  "allowed_sig_algs_list cr =
     (let out = (if sig_scheme_allowed_strict cr MlDsa87 then kMlDsa87SchemeId else []);
          out = (if sig_scheme_allowed_strict cr SlhDsaShake256s
                 then out @ (if out \<noteq> [] then '','' else []) @ kSlhDsaShake256sSchemeId else out)
      in if out = [] then ''none'' else out)"

definition pq_sign_message :: "crypto \<Rightarrow> oqs_signer \<Rightarrow> string \<Rightarrow> string \<Rightarrow> string res" where
  "pq_sign_message cr og secret_key message =
     (case oqs_sizes cr MlDsa87 of
        None \<Rightarrow> Inl ''OQS_SIG_new failed for ml-dsa-87''
      | Some sz \<Rightarrow>
          if length secret_key \<noteq> secret_key_size sz then Inl ''secret key size mismatch''
          else need ''OQS_SIG_sign failed'' (oqs_sign og secret_key message))"

definition slh_sign_with_ctx :: "crypto \<Rightarrow> oqs_signer \<Rightarrow> string \<Rightarrow> string \<Rightarrow> string res" where
  "slh_sign_with_ctx cr og secret_key message =
     (if \<not> sig_scheme_allowed_strict cr SlhDsaShake256s then Inl ''slh-dsa-shake-256s rejected in strict mode''
      else case oqs_sizes cr SlhDsaShake256s of
        None \<Rightarrow> Inl ''OQS_SIG_new failed for slh-dsa-shake-256s''
      | Some sz \<Rightarrow>
          if length secret_key \<noteq> secret_key_size sz then Inl ''secret key size mismatch''
          else need ''OQS_SIG_sign_with_ctx_str failed'' (oqs_sign_ctx og kSlhDsaSignCtx secret_key message))"

text \<open>A \<^verbatim>\<open>throw std::runtime_error(msg)\<close> is the result \<open>Inl msg\<close>.\<close>

definition sign_message_hybrid :: "crypto \<Rightarrow> oqs_signer \<Rightarrow> string \<Rightarrow> string \<Rightarrow> string res" where
  "sign_message_hybrid cr og private_key message =
     (if length private_key mod 2 \<noteq> 0 then Inl ''invalid private key hex: invalid hex length''
      else
        (let scheme = infer_sig_scheme_from_key_bytes cr (length private_key div 2) True in
         if scheme = Unknown \<or> \<not> sig_scheme_allowed_strict cr scheme then Inl ''unknown scheme rejected in strict mode''
         else case get_scheme_sizes cr scheme of
           None \<Rightarrow> Inl ''liboqs size query failed''
         | Some sz \<Rightarrow>
             (case is_hex_strict private_key (secret_key_size sz * 2) of
                Inl err \<Rightarrow> Inl (''invalid private key hex: '' @ err)
              | Inr _ \<Rightarrow>
                  if length private_key \<noteq> secret_key_size sz * 2 then Inl ''invalid private key hex: ''
                  else
                    (case bind_res (hex_to_bytes private_key) (\<lambda>sk.
                            if sk = [] then Inl []
                            else case scheme of
                                   MlDsa87 \<Rightarrow> pq_sign_message cr og sk message
                                 | SlhDsaShake256s \<Rightarrow> slh_sign_with_ctx cr og sk message
                                 | Unknown \<Rightarrow> Inl ''unknown scheme rejected in strict mode'') of
                       Inl err \<Rightarrow> Inl (''liboqs signing failed: '' @ err)
                     | Inr pq_sig \<Rightarrow>
                         if pq_sig = [] \<or> length pq_sig > signature_size sz then Inl ''liboqs produced invalid signature size''
                         else Inr (''pq='' @ to_hex pq_sig)))))"

text \<open>\<open>rand n\<close> is the outcome of \<^verbatim>\<open>RAND_bytes\<close> for \<open>n\<close> bytes.\<close>

definition random_hex :: "(nat \<Rightarrow> string option) \<Rightarrow> nat \<Rightarrow> string res" where
  "random_hex rand nbytes =
     (if nbytes = 0 \<or> nbytes > 1024 then Inl ''invalid random length''
      else case rand nbytes of None \<Rightarrow> Inl ''RAND_bytes failed'' | Some buf \<Rightarrow> Inr (to_hex buf))"

record wallet_keys =
  wk_private_key :: string
  wk_public_key :: string
  wk_address :: string
  wk_algorithm :: string

definition generate_wallet_keys :: "crypto \<Rightarrow> oqs_signer \<Rightarrow> string \<Rightarrow> wallet_keys res" where
  "generate_wallet_keys cr og scheme =
     (case parse_sig_scheme scheme of
        None \<Rightarrow> Inl (''unknown scheme rejected in strict mode: '' @ scheme)
      | Some parsed \<Rightarrow>
          if \<not> sig_scheme_allowed_strict cr parsed then Inl (''unknown scheme rejected in strict mode: '' @ scheme)
          else if oqs_sizes cr parsed = None then Inl (''liboqs scheme unavailable: '' @ sig_scheme_id parsed)
          else (case oqs_keypair og parsed of
                  None \<Rightarrow> Inl ''liboqs key generation failed''
                | Some (pub, sec) \<Rightarrow>
                    Inr \<lparr>wk_private_key = to_hex sec, wk_public_key = to_hex pub,
                         wk_address = hash_committed_address cr (sig_scheme_id parsed) pub,
                         wk_algorithm = sig_scheme_id parsed\<rparr>))"

section \<open>What is signed verifies\<close>

text \<open>
  What the code relies on of liboqs. \<open>oqs_sizes_ok\<close>: keys and signatures are not empty, fit the hex
  reader, and the two schemes differ in the sizes of their keys. \<open>oqs_pair\<close>: a signature made with the
  secret key of a pair is within the announced size and verifies under the public key.
\<close>

definition oqs_sizes_ok :: "crypto \<Rightarrow> bool" where
  "oqs_sizes_ok cr \<longleftrightarrow>
     (\<forall>sc sz. oqs_sizes cr sc = Some sz \<longrightarrow>
        0 < public_key_size sz \<and> public_key_size sz \<le> 65536 \<and> 0 < secret_key_size sz \<and> secret_key_size sz \<le> 65536
        \<and> signature_size sz \<le> 65536)
     \<and> (\<forall>a b. oqs_sizes cr MlDsa87 = Some a \<and> oqs_sizes cr SlhDsaShake256s = Some b \<longrightarrow>
          public_key_size a \<noteq> public_key_size b \<and> secret_key_size a \<noteq> secret_key_size b)"

definition oqs_pair :: "crypto \<Rightarrow> oqs_signer \<Rightarrow> sig_scheme \<Rightarrow> string \<Rightarrow> string \<Rightarrow> bool" where
  "oqs_pair cr og sc pk sk \<longleftrightarrow>
     (\<exists>sz. oqs_sizes cr sc = Some sz \<and> length pk = public_key_size sz \<and> length sk = secret_key_size sz
       \<and> (\<forall>m. \<exists>s. (case sc of
                     MlDsa87 \<Rightarrow> oqs_sign og sk m = Some s \<and> oqs_verify cr pk m s
                   | SlhDsaShake256s \<Rightarrow> oqs_sign_ctx og kSlhDsaSignCtx sk m = Some s \<and> oqs_verify_ctx cr kSlhDsaSignCtx pk m s
                   | Unknown \<Rightarrow> False)
                 \<and> s \<noteq> [] \<and> length s \<le> signature_size sz))"

lemma is_hex_strict_to_hex: "bs \<noteq> [] \<Longrightarrow> 2 * length bs \<le> n \<Longrightarrow> is_hex_strict (to_hex bs) n = Inr ()"
  using to_hex_hex [of bs] length_to_hex [of bs] by (cases "to_hex bs") (auto simp: is_hex_strict_def)

lemma infer_scheme:
  assumes "oqs_sizes_ok cr" and "oqs_sizes cr sc = Some sz" and "sc \<noteq> Unknown"
    and "n = (if secret then secret_key_size sz else public_key_size sz)"
  shows "infer_sig_scheme_from_key_bytes cr n secret = sc"
  using assms by (cases sc) (auto simp: infer_sig_scheme_from_key_bytes_def get_scheme_sizes_def oqs_sizes_ok_def split: option.splits)

lemma sign_verifies:
  assumes ok: "oqs_sizes_ok cr" and al: "sig_scheme_allowed_strict cr sc" and pr: "oqs_pair cr og sc pk sk"
  shows "\<exists>s. sign_message_hybrid cr og (to_hex sk) m = Inr s
           \<and> verify_message_signature_hybrid_uncached cr (to_hex pk) m s"
proof -
  from al have un: "sc \<noteq> Unknown" by (cases sc) auto
  obtain sz s where sz: "oqs_sizes cr sc = Some sz" "length pk = public_key_size sz" "length sk = secret_key_size sz"
    and s: "case sc of MlDsa87 \<Rightarrow> oqs_sign og sk m = Some s \<and> oqs_verify cr pk m s
        | SlhDsaShake256s \<Rightarrow> oqs_sign_ctx og kSlhDsaSignCtx sk m = Some s \<and> oqs_verify_ctx cr kSlhDsaSignCtx pk m s
        | Unknown \<Rightarrow> False" "s \<noteq> []" "length s \<le> signature_size sz"
    using pr unfolding oqs_pair_def by blast
  have bnd: "0 < public_key_size sz" "public_key_size sz \<le> 65536" "0 < secret_key_size sz" "secret_key_size sz \<le> 65536"
      "signature_size sz \<le> 65536"
    using ok sz(1) unfolding oqs_sizes_ok_def by blast+
  have ne: "pk \<noteq> []" "sk \<noteq> []" using bnd sz by auto
  have inf: "infer_sig_scheme_from_key_bytes cr (length sk) True = sc"
      "infer_sig_scheme_from_key_bytes cr (length pk) False = sc"
    using infer_scheme [OF ok sz(1) un, of _ True] infer_scheme [OF ok sz(1) un, of _ False] sz by simp_all
  have gs: "get_scheme_sizes cr sc = Some sz" using sz(1) un by (simp add: get_scheme_sizes_def)
  have sgn: "sign_message_hybrid cr og (to_hex sk) m = Inr (''pq='' @ to_hex s)"
    using un al s sz bnd ne inf(1) gs
    by (cases sc) (auto simp: sign_message_hybrid_def is_hex_strict_to_hex hex_to_bytes_to_hex
        pq_sign_message_def slh_sign_with_ctx_def)
  have "verify_message_signature_hybrid_uncached cr (to_hex pk) m (''pq='' @ to_hex s)"
    using un al s sz bnd ne inf(2) gs
    by (cases sc) (auto simp: verify_message_signature_hybrid_uncached_def is_hex_strict_to_hex hex_to_bytes_to_hex
        pq_verify_message_def slh_verify_with_ctx_def starts_with_def)
  with sgn show ?thesis by blast
qed

lemma parse_sig_scheme_known: "parse_sig_scheme name = Some sc \<Longrightarrow> sc \<noteq> Unknown"
  by (auto simp: parse_sig_scheme_def split: if_splits)

text \<open>The hash address of a key binds the key.\<close>

lemma own_address_binds:
  assumes "oqs_sizes_ok cr" and "sha3_width cr" and "oqs_sizes cr sc = Some sz" and "length pk = public_key_size sz" and un: "sc \<noteq> Unknown"
  shows "address_binds_pubkey cr (hash_committed_address cr (sig_scheme_id sc) pk) (infer_sig_scheme_from_pubkey_hex cr (to_hex pk)) (to_hex pk) = Inr ()"
proof -
  let ?a = "to_hex (sha3 cr (sig_scheme_id sc @ [CHR 0x00] @ pk))"
  have "0 < length pk" "length pk \<le> 65536" using assms(1,3,4) unfolding oqs_sizes_ok_def by auto
  then have pk: "pk \<noteq> []" "hex_to_bytes (to_hex pk) = Inr pk" by (auto simp: hex_to_bytes_to_hex)
  have inf: "infer_sig_scheme_from_pubkey_hex cr (to_hex pk) = sc"
    using infer_scheme [OF assms(1,3) un, of _ False] assms(4) by (simp add: infer_sig_scheme_from_pubkey_hex_def)
  have sid: "sig_scheme_id sc \<noteq> []" by (cases sc) (simp_all add: kMlDsa87SchemeId_def kSlhDsaShake256sSchemeId_def)
  have adr: "hash_committed_address cr (sig_scheme_id sc) pk = ?a" using pk sid by (simp add: hash_committed_address_def)
  have "length ?a = 128" using assms(2) by (simp add: sha3_width_def)
  moreover have "sha3 cr (sig_scheme_id sc @ [CHR 0x00] @ pk) \<noteq> []"
    using assms(2) unfolding sha3_width_def by (metis list.size(3) zero_neq_numeral)
  then have "to_hex (sha3 cr (sig_scheme_id sc @ [CHR 0x00] @ pk)) \<noteq> []"
    by (cases "sha3 cr (sig_scheme_id sc @ [CHR 0x00] @ pk)") simp_all
  ultimately show ?thesis
    unfolding inf adr using un sid pk adr to_hex_hex [of "sha3 cr (sig_scheme_id sc @ [CHR 0x00] @ pk)"]
    by (simp add: address_binds_pubkey_def address_binds_pubkey_id_def)
qed

section \<open>Property\<close>

text \<open>
  Keys of a new wallet work: when liboqs delivers a matching key pair, the address that
  \<^verbatim>\<open>generate_wallet_keys\<close> returns binds the returned public key under the scheme inferred from the key,
  and every message can be signed with the returned private key so that the verifier accepts the
  signature under the returned public key.
\<close>

theorem wallet_keys_sign:
  assumes "generate_wallet_keys cr og scheme = Inr w" and "oqs_sizes_ok cr" and "sha3_width cr"
    and "\<And>sc pk sk. oqs_keypair og sc = Some (pk, sk) \<Longrightarrow> sc \<noteq> Unknown \<Longrightarrow> oqs_pair cr og sc pk sk"
  shows "address_binds_pubkey cr (wk_address w) (infer_sig_scheme_from_pubkey_hex cr (wk_public_key w)) (wk_public_key w) = Inr ()
    \<and> (\<forall>m. \<exists>s. sign_message_hybrid cr og (wk_private_key w) m = Inr s
          \<and> verify_message_signature_hybrid_uncached cr (wk_public_key w) m s)"
proof -
  obtain sc pk sk where sc: "parse_sig_scheme scheme = Some sc" "sig_scheme_allowed_strict cr sc"
      "oqs_keypair og sc = Some (pk, sk)"
    and w: "wk_private_key w = to_hex sk" "wk_public_key w = to_hex pk"
      "wk_address w = hash_committed_address cr (sig_scheme_id sc) pk"
    using assms(1) by (auto simp: generate_wallet_keys_def split: option.splits if_splits)
  have un: "sc \<noteq> Unknown" using sc(1) by (rule parse_sig_scheme_known)
  have pair: "oqs_pair cr og sc pk sk" using assms(4) sc(3) un by blast
  then obtain sz where sz: "oqs_sizes cr sc = Some sz" "length pk = public_key_size sz" unfolding oqs_pair_def by blast
  show ?thesis
    unfolding w using own_address_binds [OF assms(2,3) sz un] sign_verifies [OF assms(2) sc(2) pair] by blast
qed

definition toy_signer :: oqs_signer where
  "toy_signer = \<lparr>oqs_sign = (\<lambda>sk m. Some sk), oqs_sign_ctx = (\<lambda>c sk m. None),
     oqs_keypair = (\<lambda>sc. if sc = MlDsa87 then Some (''k'', ''k'') else None)\<rparr>"

definition toy_ml :: crypto where
  "toy_ml = \<lparr>sha3 = (\<lambda>s. take 64 (s @ replicate 64 CHR ''0'')),
     oqs_sizes = (\<lambda>sc. if sc = MlDsa87 then Some \<lparr>public_key_size = 1, secret_key_size = 1, signature_size = 1\<rparr> else None),
     oqs_verify = (\<lambda>pk m s. pk = s), oqs_verify_ctx = (\<lambda>c pk m s. False), oqs_ctx_sign = (\<lambda>_. False)\<rparr>"

lemma toy_ml_ok: "oqs_sizes_ok toy_ml" "sha3_width toy_ml"
  by (auto simp: oqs_sizes_ok_def sha3_width_def toy_ml_def min_def)

theorem wallet_keys_sign_witness:
  "\<exists>s. sign_message_hybrid toy_ml toy_signer (to_hex ''k'') ''hello'' = Inr s
     \<and> verify_message_signature_hybrid_uncached toy_ml (to_hex ''k'') ''hello'' s"
proof -
  obtain w where w: "generate_wallet_keys toy_ml toy_signer ''ml-dsa-87'' = Inr w"
      "wk_private_key w = to_hex ''k''" "wk_public_key w = to_hex ''k''"
    by (simp add: generate_wallet_keys_def parse_sig_scheme_def toy_ml_def toy_signer_def sig_scheme_available_def
        get_scheme_sizes_def)
  have "oqs_keypair toy_signer sc = Some (pk, sk) \<Longrightarrow> sc \<noteq> Unknown \<Longrightarrow> oqs_pair toy_ml toy_signer sc pk sk" for sc pk sk
    by (auto simp: toy_signer_def toy_ml_def oqs_pair_def split: if_splits)
  from wallet_keys_sign [OF w(1) toy_ml_ok this] show ?thesis unfolding w(2,3) by blast
qed

end
