(* ===== verification/Channel.thy ===== *)
theory Channel
  imports Chain_Transactions Crypto_Signing Text_IO
begin

text \<open>
  Payment channels (\<^verbatim>\<open>channel.cpp\<close>): the scripts and transactions of a channel, the two-party update
  protocol with its revocation secrets, justice and sweep transactions, the text format of a stored
  channel, the in-process drivers up to multi-hop payments, and the classification of updates proposed
  by a remote peer. \<open>cr\<close> and \<open>og\<close> are the primitives of \<open>Crypto_Model\<close> and \<open>Crypto_Signing\<close>; an
  exception thrown by the signer is an error result.
\<close>

section \<open>Data\<close>

record htlc =
  h_id :: u64
  h_offered_by_a :: bool
  h_amount :: u64
  h_payment_hash :: string
  h_expiry :: u64

record ch_state =
  cs_n :: u64
  cs_bal_a :: u64
  cs_bal_b :: u64
  cs_htlcs :: "htlc list"
  cs_next_htlc_id :: u64

record ch_info =
  ci_addr_a :: string
  ci_addr_b :: string
  ci_capacity :: u64
  ci_funding_txid :: string
  ci_funding_vout :: u32
  ci_to_self_delay :: u64
  ci_fee :: u64

record commit_sig =
  sg_n :: u64
  sg_sig :: string

record revoke =
  rv_revoked_n :: u64
  rv_secret :: string
  rv_next_hash :: string

record channel =
  ch_local :: wallet_keys
  ch_remote_pub :: string
  ch_is_a :: bool
  ch_info :: ch_info
  ch_seed :: string
  ch_cur :: ch_state
  ch_pending :: "ch_state option"
  ch_remote_sig_cur :: string
  ch_remote_sig_pending :: "string option"
  ch_remote_hashes :: "(u64 \<times> string) list"
  ch_remote_secrets :: "(u64 \<times> string) list"
  ch_history :: "(u64 \<times> ch_state) list"
  ch_abandoned :: "(u64 \<times> ch_state) list"

definition empty_state :: ch_state where
  "empty_state = \<lparr>cs_n = 0, cs_bal_a = 0, cs_bal_b = 0, cs_htlcs = [], cs_next_htlc_id = 0\<rparr>"

definition empty_info :: ch_info where
  "empty_info = \<lparr>ci_addr_a = [], ci_addr_b = [], ci_capacity = 0, ci_funding_txid = [], ci_funding_vout = 0,
     ci_to_self_delay = 6, ci_fee = 1\<rparr>"

definition new_channel :: "wallet_keys \<Rightarrow> string \<Rightarrow> bool \<Rightarrow> ch_info \<Rightarrow> string \<Rightarrow> channel" where
  "new_channel lk rpub is_a ci seed =
     \<lparr>ch_local = lk, ch_remote_pub = rpub, ch_is_a = is_a, ch_info = ci, ch_seed = seed, ch_cur = empty_state,
      ch_pending = None, ch_remote_sig_cur = [], ch_remote_sig_pending = None, ch_remote_hashes = [],
      ch_remote_secrets = [], ch_history = [], ch_abandoned = []\<rparr>"

section \<open>Scripts and commitments\<close>

definition funding_script :: "string \<Rightarrow> string \<Rightarrow> string" where
  "funding_script a b = ''and(pk('' @ a @ ''),pk('' @ b @ ''))''"

definition to_local_script :: "string \<Rightarrow> string \<Rightarrow> string \<Rightarrow> u64 \<Rightarrow> string" where
  "to_local_script holder other rh delay =
     ''or(and(pk('' @ other @ ''),sha3('' @ rh @ '')),and(pk('' @ holder @ ''),older('' @ to_string delay @ '')))''"

definition htlc_script :: "string \<Rightarrow> string \<Rightarrow> string \<Rightarrow> string \<Rightarrow> string \<Rightarrow> u64 \<Rightarrow> string" where
  "htlc_script revoker offerer receiver rh ph expiry =
     ''or(and(pk('' @ revoker @ ''),sha3('' @ rh @ '')),or(and(pk('' @ receiver @ ''),sha3('' @ ph @ '')),and(pk('' @ offerer
       @ ''),after('' @ to_string expiry @ ''))))''"

definition htlc_sum :: "ch_state \<Rightarrow> u64" where
  "htlc_sum s = foldl (\<lambda>t h. t + h_amount h) 0 (cs_htlcs s)"

definition empty_tx :: transaction where
  "empty_tx = \<lparr>inputs = [], outputs = [], signer = [], signer_pubkey = [], signature = [], fee = 0, nonce = 0, shielded = []\<rparr>"

definition offerer_of :: "ch_info \<Rightarrow> htlc \<Rightarrow> string" where
  "offerer_of ci h = (if h_offered_by_a h then ci_addr_a ci else ci_addr_b ci)"

definition receiver_of :: "ch_info \<Rightarrow> htlc \<Rightarrow> string" where
  "receiver_of ci h = (if h_offered_by_a h then ci_addr_b ci else ci_addr_a ci)"

definition commitment_tx :: "crypto \<Rightarrow> ch_info \<Rightarrow> bool \<Rightarrow> ch_state \<Rightarrow> string \<Rightarrow> transaction" where
  "commitment_tx cr ci holder_a s rh =
     (let holder = (if holder_a then ci_addr_a ci else ci_addr_b ci);
          other = (if holder_a then ci_addr_b ci else ci_addr_a ci);
          a_amt = cs_bal_a s - ci_fee ci;
          holder_amt = (if holder_a then a_amt else cs_bal_b s);
          other_amt = (if holder_a then cs_bal_b s else a_amt)
      in empty_tx\<lparr>
           inputs := [\<lparr>previous_txid = ci_funding_txid ci, output_index = ci_funding_vout ci, witness = []\<rparr>],
           outputs :=
             (if holder_amt \<noteq> 0
              then [\<lparr>recipient = script_address cr (to_local_script holder other rh (ci_to_self_delay ci)),
                     amount = holder_amt\<rparr>] else [])
             @ (if other_amt \<noteq> 0 then [\<lparr>recipient = other, amount = other_amt\<rparr>] else [])
             @ map (\<lambda>h. \<lparr>recipient = script_address cr (htlc_script other (offerer_of ci h) (receiver_of ci h) rh
                                        (h_payment_hash h) (h_expiry h)),
                          amount = h_amount h\<rparr>) (cs_htlcs s),
           fee := ci_fee ci,
           nonce := cs_n s\<rparr>)"

section \<open>The update protocol\<close>

definition rev_secret :: "crypto \<Rightarrow> channel \<Rightarrow> u64 \<Rightarrow> string" where
  "rev_secret cr c n = to_hex (sha3 cr (''ADD/chan/rev|'' @ ch_seed c @ ''|'' @ to_string n))"

definition rev_hash :: "crypto \<Rightarrow> channel \<Rightarrow> u64 \<Rightarrow> string" where
  "rev_hash cr c n = hash_preimage_hex cr (rev_secret cr c n)"

definition initial_hashes :: "crypto \<Rightarrow> channel \<Rightarrow> string \<times> string" where
  "initial_hashes cr c = (rev_hash cr c 0, rev_hash cr c 1)"

definition set_remote_initial_hashes :: "string \<Rightarrow> string \<Rightarrow> channel \<Rightarrow> channel" where
  "set_remote_initial_hashes h0 h1 c =
     c\<lparr>ch_remote_hashes := omap_ins 1 h1 (omap_ins 0 h0 (ch_remote_hashes c))\<rparr>"

definition set_funding :: "string \<Rightarrow> u32 \<Rightarrow> channel \<Rightarrow> channel" where
  "set_funding txid vout c = c\<lparr>ch_info := (ch_info c)\<lparr>ci_funding_txid := txid, ci_funding_vout := vout\<rparr>\<rparr>"

definition remote_hash :: "channel \<Rightarrow> u64 \<Rightarrow> string option" where
  "remote_hash c n = map_of (ch_remote_hashes c) n"

definition remote_address :: "channel \<Rightarrow> string" where
  "remote_address c = (if ch_is_a c then ci_addr_b (ch_info c) else ci_addr_a (ch_info c))"

definition validate_next :: "channel \<Rightarrow> ch_state \<Rightarrow> unit res" where
  "validate_next c next =
     (if ch_pending c \<noteq> None then Inl ''update already in flight''
      else if cs_n next \<noteq> cs_n (ch_cur c) + 1 then Inl ''bad state number''
      else if remote_hash c (cs_n next) = None then Inl ''awaiting remote revocation''
      else if cs_bal_a next < ci_fee (ch_info c) then Inl ''funder cannot pay commitment fee''
      else if length (cs_htlcs next) > 16 then Inl ''too many htlcs''
      else if cs_bal_a next + cs_bal_b next + htlc_sum next \<noteq> ci_capacity (ch_info c)
      then Inl ''state does not conserve capacity''
      else if list_ex (\<lambda>h. h_amount h = 0 \<or> length (h_payment_hash h) \<noteq> 128) (cs_htlcs next) then Inl ''bad htlc''
      else Inr ())"

definition script_sign :: "crypto \<Rightarrow> oqs_signer \<Rightarrow> string \<Rightarrow> transaction \<Rightarrow> string res" where
  "script_sign cr og sk tx = sign_message_hybrid cr og sk (sighash cr tx)"

definition sign_remote_commitment :: "crypto \<Rightarrow> oqs_signer \<Rightarrow> channel \<Rightarrow> ch_state \<Rightarrow> commit_sig res" where
  "sign_remote_commitment cr og c next =
     (let rh = (case remote_hash c (cs_n next) of None \<Rightarrow> replicate 128 CHR ''0'' | Some h \<Rightarrow> h)
      in bind_res (script_sign cr og (wk_private_key (ch_local c)) (commitment_tx cr (ch_info c) (\<not> ch_is_a c) next rh))
           (\<lambda>sg. Inr \<lparr>sg_n = cs_n next, sg_sig = sg\<rparr>))"

definition receive_commit_sig :: "crypto \<Rightarrow> channel \<Rightarrow> ch_state \<Rightarrow> commit_sig \<Rightarrow> unit res \<times> channel" where
  "receive_commit_sig cr c next cs =
     (let initial = (cs_n next = 0 \<and> ch_remote_sig_cur c = []) in
      case (if initial then Inr () else validate_next c next) of
        Inl e \<Rightarrow> (Inl e, c)
      | Inr _ \<Rightarrow>
          (let mine = commitment_tx cr (ch_info c) (ch_is_a c) next (rev_hash cr c (cs_n next)) in
           if sg_n cs \<noteq> cs_n next
              \<or> \<not> verify_message_signature_hybrid_uncached cr (ch_remote_pub c) (sighash cr mine) (sg_sig cs)
           then (Inl ''invalid commitment signature'', c)
           else if initial then (Inr (), c\<lparr>ch_cur := next, ch_remote_sig_cur := sg_sig cs\<rparr>)
           else (Inr (), c\<lparr>ch_pending := Some next, ch_remote_sig_pending := Some (sg_sig cs)\<rparr>)))"

text \<open>Dereferencing an empty \<^verbatim>\<open>std::optional\<close> is undefined; there the model's value is unspecified.\<close>

definition revoke_and_advance :: "crypto \<Rightarrow> channel \<Rightarrow> revoke \<times> channel" where
  "revoke_and_advance cr c =
     (\<lparr>rv_revoked_n = cs_n (ch_cur c), rv_secret = rev_secret cr c (cs_n (ch_cur c)),
       rv_next_hash = rev_hash cr c (cs_n (ch_cur c) + 2)\<rparr>,
      c\<lparr>ch_history := omap_ins (cs_n (ch_cur c)) (ch_cur c) (ch_history c),
        ch_cur := the (ch_pending c),
        ch_remote_sig_cur := the (ch_remote_sig_pending c),
        ch_pending := None,
        ch_remote_sig_pending := None\<rparr>)"

definition last_revoke :: "crypto \<Rightarrow> channel \<Rightarrow> revoke" where
  "last_revoke cr c =
     (let n = (if cs_n (ch_cur c) = 0 then 0 else cs_n (ch_cur c) - 1)
      in \<lparr>rv_revoked_n = n, rv_secret = rev_secret cr c n, rv_next_hash = rev_hash cr c (n + 2)\<rparr>)"

definition awaiting_remote_revoke :: "channel \<Rightarrow> bool" where
  "awaiting_remote_revoke c \<longleftrightarrow> remote_hash c (cs_n (ch_cur c) + 1) = None"

definition has_remote_secret :: "channel \<Rightarrow> u64 \<Rightarrow> string \<Rightarrow> bool" where
  "has_remote_secret c n secret \<longleftrightarrow> map_of (ch_remote_secrets c) n = Some secret"

definition note_signed_abandoned :: "ch_state \<Rightarrow> channel \<Rightarrow> channel" where
  "note_signed_abandoned s c = c\<lparr>ch_abandoned := mmap_ins (cs_n s) s (ch_abandoned c)\<rparr>"

definition drop_pending :: "channel \<Rightarrow> channel" where
  "drop_pending c =
     (case ch_pending c of None \<Rightarrow> c | Some p \<Rightarrow> c\<lparr>ch_abandoned := mmap_ins (cs_n p) p (ch_abandoned c)\<rparr>)
       \<lparr>ch_pending := None, ch_remote_sig_pending := None\<rparr>"

definition receive_revoke :: "crypto \<Rightarrow> channel \<Rightarrow> revoke \<Rightarrow> unit res \<times> channel" where
  "receive_revoke cr c r =
     (if (case remote_hash c (rv_revoked_n r) of None \<Rightarrow> True | Some h \<Rightarrow> hash_preimage_hex cr (rv_secret r) \<noteq> h)
      then (Inl ''revocation secret does not match'', c)
      else if length (rv_next_hash r) \<noteq> 128 then (Inl ''bad next hash'', c)
      else (Inr (), c\<lparr>ch_remote_secrets := omap_ins (rv_revoked_n r) (rv_secret r) (ch_remote_secrets c),
                      ch_remote_hashes := omap_ins (rv_revoked_n r + 2) (rv_next_hash r) (ch_remote_hashes c)\<rparr>))"

section \<open>Closing transactions\<close>

definition set_witness :: "nat \<Rightarrow> script_witness \<Rightarrow> transaction \<Rightarrow> transaction" where
  "set_witness i w t = t\<lparr>inputs := (inputs t)[i := (inputs t ! i)\<lparr>witness := encode_witness w\<rparr>]\<rparr>"

definition add_funding_witness :: "ch_info \<Rightarrow> string \<times> string \<Rightarrow> string \<times> string \<Rightarrow> transaction \<Rightarrow> transaction" where
  "add_funding_witness ci sa sb t =
     set_witness 0 \<lparr>w_script = funding_script (ci_addr_a ci) (ci_addr_b ci), w_sigs = [sa, sb], w_preimages = []\<rparr> t"

text \<open>The common end of \<^verbatim>\<open>signed_local_commitment\<close> and \<^verbatim>\<open>assemble_coop_close\<close>: my signature and the remote one.\<close>

definition both_signed :: "channel \<Rightarrow> string \<Rightarrow> string \<Rightarrow> transaction \<Rightarrow> transaction" where
  "both_signed c my remote_sig t =
     (if ch_is_a c
      then add_funding_witness (ch_info c) (wk_public_key (ch_local c), my) (ch_remote_pub c, remote_sig) t
      else add_funding_witness (ch_info c) (ch_remote_pub c, remote_sig) (wk_public_key (ch_local c), my) t)"

definition signed_local_commitment :: "crypto \<Rightarrow> oqs_signer \<Rightarrow> channel \<Rightarrow> transaction res" where
  "signed_local_commitment cr og c =
     (let t = commitment_tx cr (ch_info c) (ch_is_a c) (ch_cur c) (rev_hash cr c (cs_n (ch_cur c)))
      in bind_res (script_sign cr og (wk_private_key (ch_local c)) t)
           (\<lambda>my. Inr (both_signed c my (ch_remote_sig_cur c) t)))"

definition coop_close_tx :: "channel \<Rightarrow> transaction" where
  "coop_close_tx c =
     (let ci = ch_info c; s = ch_cur c
      in empty_tx\<lparr>
           inputs := [\<lparr>previous_txid = ci_funding_txid ci, output_index = ci_funding_vout ci, witness = []\<rparr>],
           outputs :=
             (if cs_bal_a s > ci_fee ci then [\<lparr>recipient = ci_addr_a ci, amount = cs_bal_a s - ci_fee ci\<rparr>] else [])
             @ (if cs_bal_b s \<noteq> 0 then [\<lparr>recipient = ci_addr_b ci, amount = cs_bal_b s\<rparr>] else []),
           fee := ci_fee ci,
           nonce := push_bit 40 1 + cs_n s\<rparr>)"

definition sign_coop_close :: "crypto \<Rightarrow> oqs_signer \<Rightarrow> channel \<Rightarrow> string res" where
  "sign_coop_close cr og c = script_sign cr og (wk_private_key (ch_local c)) (coop_close_tx c)"

definition assemble_coop_close :: "crypto \<Rightarrow> oqs_signer \<Rightarrow> channel \<Rightarrow> string \<Rightarrow> transaction res" where
  "assemble_coop_close cr og c remote_sig =
     (if cs_htlcs (ch_cur c) \<noteq> [] then Inl ''cannot coop-close with pending htlcs''
      else
        (let t = coop_close_tx c in
         if \<not> verify_message_signature_hybrid_uncached cr (ch_remote_pub c) (sighash cr t) remote_sig
         then Inl ''bad close sig''
         else bind_res (script_sign cr og (wk_private_key (ch_local c)) t) (\<lambda>my. Inr (both_signed c my remote_sig t))))"

section \<open>Justice and sweeps\<close>

definition find_output :: "crypto \<Rightarrow> transaction \<Rightarrow> string \<Rightarrow> (nat \<times> string) option" where
  "find_output cr t s =
     (case find (\<lambda>i. recipient (outputs t ! i) = script_address cr s) [0..<length (outputs t)] of
        None \<Rightarrow> None
      | Some i \<Rightarrow> Some (i, s))"

definition sweep ::
    "crypto \<Rightarrow> oqs_signer \<Rightarrow> channel \<Rightarrow> transaction \<Rightarrow> nat \<Rightarrow> string \<Rightarrow> string list \<Rightarrow> u64 \<Rightarrow> transaction res" where
  "sweep cr og c parent vout s pre no =
     (let ci = ch_info c;
          t = empty_tx\<lparr>
                inputs := [\<lparr>previous_txid = hash_transaction cr parent, output_index = of_nat vout, witness = []\<rparr>],
                outputs := [\<lparr>recipient = wk_address (ch_local c), amount = amount (outputs parent ! vout) - ci_fee ci\<rparr>],
                fee := ci_fee ci, nonce := no\<rparr>
      in bind_res (script_sign cr og (wk_private_key (ch_local c)) t) (\<lambda>sg.
           Inr (set_witness 0 \<lparr>w_script = s, w_sigs = [(wk_public_key (ch_local c), sg)], w_preimages = pre\<rparr> t)))"

text \<open>The candidates and the outputs that a justice transaction claims.\<close>

definition penalty_candidates :: "channel \<Rightarrow> u64 \<Rightarrow> ch_state list" where
  "penalty_candidates c n =
     (case map_of (ch_history c) n of None \<Rightarrow> [] | Some h \<Rightarrow> [h])
     @ map snd (filter (\<lambda>e. fst e = n) (ch_abandoned c))"

definition claim_htlc :: "crypto \<Rightarrow> channel \<Rightarrow> string \<Rightarrow> transaction \<Rightarrow> (nat \<times> string) list \<Rightarrow> htlc \<Rightarrow> (nat \<times> string) list" where
  "claim_htlc cr c rh b outs h =
     (let s = htlc_script (wk_address (ch_local c)) (offerer_of (ch_info c) h) (receiver_of (ch_info c) h) rh
                (h_payment_hash h) (h_expiry h)
      in case find (\<lambda>i. i \<notin> fst ` set outs \<and> recipient (outputs b ! i) = script_address cr s) [0..<length (outputs b)] of
           None \<Rightarrow> outs
         | Some i \<Rightarrow> outs @ [(i, s)])"

definition penalty_outs :: "crypto \<Rightarrow> channel \<Rightarrow> string \<Rightarrow> transaction \<Rightarrow> ch_state \<Rightarrow> (nat \<times> string) list" where
  "penalty_outs cr c rh b st =
     foldl (claim_htlc cr c rh b)
       (case find_output cr b (to_local_script (remote_address c) (wk_address (ch_local c)) rh (ci_to_self_delay (ch_info c))) of
          None \<Rightarrow> [] | Some x \<Rightarrow> [x])
       (cs_htlcs st)"

definition penalty_tx :: "crypto \<Rightarrow> channel \<Rightarrow> transaction \<Rightarrow> (nat \<times> string) list \<Rightarrow> u64 \<Rightarrow> transaction" where
  "penalty_tx cr c b outs tot =
     empty_tx\<lparr>
       inputs := map (\<lambda>(v, s). \<lparr>previous_txid = hash_transaction cr b, output_index = of_nat v, witness = []\<rparr>) outs,
       outputs := [\<lparr>recipient = wk_address (ch_local c), amount = tot - ci_fee (ch_info c)\<rparr>],
       fee := ci_fee (ch_info c),
       nonce := push_bit 40 2 + nonce b\<rparr>"

text \<open>\<open>Inl\<close> is an exception of the signer, \<open>Inr None\<close> is \<^verbatim>\<open>std::nullopt\<close>.\<close>

definition penalty_for :: "crypto \<Rightarrow> oqs_signer \<Rightarrow> channel \<Rightarrow> transaction \<Rightarrow> transaction option res" where
  "penalty_for cr og c b =
     (let n = nonce b in
      case (map_of (ch_remote_secrets c) n, remote_hash c n) of
        (Some sec, Some rh) \<Rightarrow>
          (case find (\<lambda>s. hash_transaction cr (commitment_tx cr (ch_info c) (\<not> ch_is_a c) s rh) = hash_transaction cr b)
                  (penalty_candidates c n) of
             None \<Rightarrow> Inr None
           | Some st \<Rightarrow>
               (let outs = penalty_outs cr c rh b st;
                    tot = foldl (\<lambda>t (v, s). t + amount (outputs b ! v)) 0 outs in
                if outs = [] \<or> tot \<le> ci_fee (ch_info c) then Inr None
                else
                  (let t = penalty_tx cr c b outs tot in
                   bind_res (script_sign cr og (wk_private_key (ch_local c)) t) (\<lambda>sg.
                     Inr (Some (t\<lparr>inputs := map2 (\<lambda>i (v, s). i\<lparr>witness := encode_witness
                        \<lparr>w_script = s, w_sigs = [(wk_public_key (ch_local c), sg)], w_preimages = [sec]\<rparr>\<rparr>) (inputs t) outs\<rparr>))))))
      | _ \<Rightarrow> Inr None)"

definition sweep_to_local :: "crypto \<Rightarrow> oqs_signer \<Rightarrow> channel \<Rightarrow> transaction \<Rightarrow> transaction option res" where
  "sweep_to_local cr og c t =
     (let s = to_local_script (wk_address (ch_local c)) (remote_address c) (rev_hash cr c (nonce t)) (ci_to_self_delay (ch_info c))
      in case find_output cr t s of
           None \<Rightarrow> Inr None
         | Some (i, _) \<Rightarrow>
             if amount (outputs t ! i) \<le> ci_fee (ch_info c) then Inr None
             else bind_res (sweep cr og c t i s [] (push_bit 40 3 + nonce t)) (\<lambda>x. Inr (Some x)))"

definition find_htlc :: "ch_state \<Rightarrow> u64 \<Rightarrow> htlc option" where
  "find_htlc s hid = find (\<lambda>h. h_id h = hid) (cs_htlcs s)"

text \<open>The last position of an HTLC with the id, as the loop without \<^verbatim>\<open>break\<close> finds it.\<close>

definition htlc_position :: "ch_state \<Rightarrow> u64 \<Rightarrow> nat option" where
  "htlc_position s hid =
     foldl (\<lambda>o' i. if h_id (cs_htlcs s ! i) = hid then Some i else o') None [0..<length (cs_htlcs s)]"

definition sweep_htlc_success ::
    "crypto \<Rightarrow> oqs_signer \<Rightarrow> channel \<Rightarrow> transaction \<Rightarrow> bool \<Rightarrow> u64 \<Rightarrow> string \<Rightarrow> transaction option res" where
  "sweep_htlc_success cr og c t mine hid preimage =
     (let n = nonce t; ci = ch_info c in
      case (if n = cs_n (ch_cur c) then Some (ch_cur c) else map_of (ch_history c) n) of
        None \<Rightarrow> Inr None
      | Some st \<Rightarrow>
          (case find_htlc st hid of
             None \<Rightarrow> Inr None
           | Some h \<Rightarrow>
               (case (if mine then Some (rev_hash cr c n) else remote_hash c n) of
                  None \<Rightarrow> Inr None
                | Some rh \<Rightarrow>
                    (let revoker = (if mine then remote_address c else wk_address (ch_local c));
                         s = htlc_script revoker (offerer_of ci h) (receiver_of ci h) rh (h_payment_hash h) (h_expiry h);
                         holder_a = (if mine then ch_is_a c else \<not> ch_is_a c);
                         expected = commitment_tx cr ci holder_a st rh in
                     if hash_transaction cr expected \<noteq> hash_transaction cr t then Inr None
                     else
                       (let base = length (outputs expected) - length (cs_htlcs st) in
                        case htlc_position st hid of
                          None \<Rightarrow> Inr None
                        | Some i \<Rightarrow>
                            if recipient (outputs t ! (base + i)) \<noteq> script_address cr s then Inr None
                            else bind_res (sweep cr og c t (base + i) s (if preimage \<noteq> [] then [preimage] else [])
                                     (push_bit 40 4 + push_bit 8 n + hid)) (\<lambda>x. Inr (Some x)))))))"

definition sweep_htlc_timeout :: "crypto \<Rightarrow> oqs_signer \<Rightarrow> channel \<Rightarrow> transaction \<Rightarrow> bool \<Rightarrow> u64 \<Rightarrow> transaction option res" where
  "sweep_htlc_timeout cr og c t mine hid = sweep_htlc_success cr og c t mine hid []"

section \<open>Text format\<close>

definition encode_htlc :: "htlc \<Rightarrow> string" where
  "encode_htlc h =
     to_string (h_id h) @ '','' @ (if h_offered_by_a h then ''1'' else ''0'') @ '','' @ to_string (h_amount h) @ '',''
     @ h_payment_hash h @ '','' @ to_string (h_expiry h)"

definition encode_state :: "ch_state \<Rightarrow> string" where
  "encode_state s =
     to_string (cs_n s) @ '':'' @ to_string (cs_bal_a s) @ '':'' @ to_string (cs_bal_b s) @ '':''
     @ to_string (cs_next_htlc_id s) @ '':'' @ join_with (CHR '';'') (map encode_htlc (cs_htlcs s))"

definition decode_htlc :: "string \<Rightarrow> htlc option" where
  "decode_htlc one =
     (case getlines (CHR '','') one of
        i # off # amt # ph # ex # _ \<Rightarrow>
          (case (stoull i, stoull amt, stoull ex) of
             (Some i', Some amt', Some ex') \<Rightarrow>
               Some \<lparr>h_id = i', h_offered_by_a = (off = ''1''), h_amount = amt', h_payment_hash = ph, h_expiry = ex'\<rparr>
           | _ \<Rightarrow> None)
      | _ \<Rightarrow> None)"

definition decode_state :: "string \<Rightarrow> ch_state option" where
  "decode_state t =
     (let f = getlines (CHR '':'') t; f = (if length f = 4 then f @ [[]] else f) in
      if length f \<noteq> 5 then None
      else
        (case (stoull (f ! 0), stoull (f ! 1), stoull (f ! 2), stoull (f ! 3)) of
           (Some n, Some a, Some b, Some nid) \<Rightarrow>
             (let hs = map decode_htlc (getlines (CHR '';'') (f ! 4)) in
              if None \<in> set hs then None
              else Some \<lparr>cs_n = n, cs_bal_a = a, cs_bal_b = b, cs_htlcs = map the hs, cs_next_htlc_id = nid\<rparr>)
         | _ \<Rightarrow> None))"

definition nl :: char where "nl = CHR 0x0A"

definition dash :: "string \<Rightarrow> string" where
  "dash s = (if s = [] then ''-'' else s)"

definition channel_lines :: "channel \<Rightarrow> string list" where
  "channel_lines c =
     (let ci = ch_info c in
      [''v 1'', ''is_a '' @ (if ch_is_a c then ''1'' else ''0''), ''addr_a '' @ ci_addr_a ci, ''addr_b '' @ ci_addr_b ci,
       ''capacity '' @ to_string (ci_capacity ci), ''funding '' @ dash (ci_funding_txid ci) @ '' '' @ to_string (ci_funding_vout ci),
       ''delay '' @ to_string (ci_to_self_delay ci), ''fee '' @ to_string (ci_fee ci), ''remote_pub '' @ ch_remote_pub c,
       ''seed '' @ ch_seed c, ''cur '' @ encode_state (ch_cur c), ''remote_sig_cur '' @ dash (ch_remote_sig_cur c)]
      @ (case ch_pending c of None \<Rightarrow> [] | Some p \<Rightarrow> [''pending '' @ encode_state p])
      @ (case ch_remote_sig_pending c of None \<Rightarrow> [] | Some s \<Rightarrow> [''remote_sig_pending '' @ s])
      @ map (\<lambda>(n, h). ''rhash '' @ to_string n @ '' '' @ h) (ch_remote_hashes c)
      @ map (\<lambda>(n, h). ''rsecret '' @ to_string n @ '' '' @ h) (ch_remote_secrets c)
      @ map (\<lambda>(n, st). ''hist '' @ to_string n @ '' '' @ encode_state st) (ch_history c)
      @ map (\<lambda>(n, st). ''aband '' @ to_string n @ '' '' @ encode_state st) (ch_abandoned c))"

definition serialize :: "channel \<Rightarrow> string" where
  "serialize c = concat (map (\<lambda>l. l @ [nl]) (channel_lines c))"

text \<open>
  Reading one line. A failed extraction leaves a string variable alone; a number variable is set by
  \<open>num_or\<close> to what the extraction stores. \<open>junk\<close> is the value of the local variables that the code
  reads uninitialised when a line ends too early.
\<close>

definition word_or :: "string \<Rightarrow> string \<Rightarrow> string" where
  "word_or old s = (case read_word s of None \<Rightarrow> old | Some (w, _) \<Rightarrow> w)"

definition num_or :: "'a::len word \<Rightarrow> string \<Rightarrow> 'a word" where
  "num_or old s =
     (case read_uint (2 ^ LENGTH('a)) s of NoInput \<Rightarrow> old | Failed v \<Rightarrow> of_nat v | Got v _ \<Rightarrow> of_nat v)"

text \<open>\<^verbatim>\<open>ls >> n >> h\<close> with an empty \<open>h\<close> before.\<close>

definition num_word :: "u64 \<Rightarrow> string \<Rightarrow> u64 \<times> string" where
  "num_word junk s =
     (case read_uint (2 ^ 64) s of
        NoInput \<Rightarrow> (junk, [])
      | Failed v \<Rightarrow> (of_nat v, [])
      | Got v r \<Rightarrow> (of_nat v, word_or [] r))"

text \<open>\<^verbatim>\<open>int v; ls >> v; v == 1\<close>\<close>

definition read_is_one :: "u64 \<Rightarrow> string \<Rightarrow> bool" where
  "read_is_one junk s =
     (case read_uint (2 ^ 31) s of
        NoInput \<Rightarrow> junk = 1
      | Failed _ \<Rightarrow> False
      | Got v _ \<Rightarrow> v = 1 \<and> hd (dropWhile is_space s) \<noteq> CHR ''-'')"

definition undash :: "string \<Rightarrow> string" where
  "undash s = (if s = ''-'' then [] else s)"

definition read_funding :: "string \<Rightarrow> ch_info \<Rightarrow> ch_info" where
  "read_funding s ci =
     (case read_word s of
        None \<Rightarrow> ci\<lparr>ci_funding_txid := undash (ci_funding_txid ci)\<rparr>
      | Some (w, r) \<Rightarrow> ci\<lparr>ci_funding_txid := undash w, ci_funding_vout := num_or (ci_funding_vout ci) r\<rparr>)"

definition set_info :: "(ch_info \<Rightarrow> ch_info) \<Rightarrow> channel \<Rightarrow> channel" where
  "set_info f c = c\<lparr>ch_info := f (ch_info c)\<rparr>"

definition read_channel_line :: "u64 \<Rightarrow> channel \<Rightarrow> string \<Rightarrow> channel option" where
  "read_channel_line junk c line =
     (let (k, ls) = (case read_word line of None \<Rightarrow> ([], []) | Some x \<Rightarrow> x) in
      if k = ''is_a'' then Some (c\<lparr>ch_is_a := read_is_one junk ls\<rparr>)
      else if k = ''addr_a'' then Some (set_info (\<lambda>ci. ci\<lparr>ci_addr_a := word_or (ci_addr_a ci) ls\<rparr>) c)
      else if k = ''addr_b'' then Some (set_info (\<lambda>ci. ci\<lparr>ci_addr_b := word_or (ci_addr_b ci) ls\<rparr>) c)
      else if k = ''capacity'' then Some (set_info (\<lambda>ci. ci\<lparr>ci_capacity := num_or (ci_capacity ci) ls\<rparr>) c)
      else if k = ''funding'' then Some (set_info (read_funding ls) c)
      else if k = ''delay'' then Some (set_info (\<lambda>ci. ci\<lparr>ci_to_self_delay := num_or (ci_to_self_delay ci) ls\<rparr>) c)
      else if k = ''fee'' then Some (set_info (\<lambda>ci. ci\<lparr>ci_fee := num_or (ci_fee ci) ls\<rparr>) c)
      else if k = ''remote_pub'' then Some (c\<lparr>ch_remote_pub := word_or (ch_remote_pub c) ls\<rparr>)
      else if k = ''seed'' then Some (c\<lparr>ch_seed := word_or (ch_seed c) ls\<rparr>)
      else if k = ''cur'' then map_option (\<lambda>s. c\<lparr>ch_cur := s\<rparr>) (decode_state (word_or [] ls))
      else if k = ''pending'' then map_option (\<lambda>s. c\<lparr>ch_pending := Some s\<rparr>) (decode_state (word_or [] ls))
      else if k = ''remote_sig_cur'' then Some (c\<lparr>ch_remote_sig_cur := undash (word_or (ch_remote_sig_cur c) ls)\<rparr>)
      else if k = ''remote_sig_pending'' then Some (c\<lparr>ch_remote_sig_pending := Some (word_or [] ls)\<rparr>)
      else if k = ''rhash'' then
        (let (n, h) = num_word junk ls in Some (c\<lparr>ch_remote_hashes := omap_ins n h (ch_remote_hashes c)\<rparr>))
      else if k = ''rsecret'' then
        (let (n, h) = num_word junk ls in Some (c\<lparr>ch_remote_secrets := omap_ins n h (ch_remote_secrets c)\<rparr>))
      else if k = ''hist'' then
        (let (n, t) = num_word junk ls in map_option (\<lambda>s. c\<lparr>ch_history := omap_ins n s (ch_history c)\<rparr>) (decode_state t))
      else if k = ''aband'' then
        (let (n, t) = num_word junk ls in map_option (\<lambda>s. c\<lparr>ch_abandoned := mmap_ins n s (ch_abandoned c)\<rparr>) (decode_state t))
      else Some c)"

fun read_channel_lines :: "u64 \<Rightarrow> channel \<Rightarrow> string list \<Rightarrow> channel option" where
  "read_channel_lines junk c [] = Some c"
| "read_channel_lines junk c (l # ls) =
     (case read_channel_line junk c l of None \<Rightarrow> None | Some c' \<Rightarrow> read_channel_lines junk c' ls)"

definition deserialize :: "u64 \<Rightarrow> string \<Rightarrow> wallet_keys \<Rightarrow> channel res" where
  "deserialize junk data lk =
     (case read_channel_lines junk (new_channel lk [] False empty_info []) (getlines nl data) of
        None \<Rightarrow> Inl ''corrupt channel file''
      | Some c \<Rightarrow>
          if ch_remote_pub c = [] \<or> ch_seed c = [] \<or> ci_addr_a (ch_info c) = [] \<or> ci_addr_b (ch_info c) = []
          then Inl ''corrupt channel file''
          else if wk_address lk \<noteq> (if ch_is_a c then ci_addr_a (ch_info c) else ci_addr_b (ch_info c))
          then Inl ''channel file does not belong to this wallet''
          else Inr c)"

section \<open>Drivers\<close>

text \<open>The exchange of signatures on the initial commitments, which ends \<^verbatim>\<open>open_channel\<close>.\<close>

definition exchange_initial :: "crypto \<Rightarrow> oqs_signer \<Rightarrow> channel \<Rightarrow> channel \<Rightarrow> ch_state \<Rightarrow> (channel \<times> channel) res" where
  "exchange_initial cr og ca cb s0 =
     bind_res (sign_remote_commitment cr og ca s0) (\<lambda>sig_a.
     case receive_commit_sig cr cb s0 sig_a of
       (Inl e, _) \<Rightarrow> Inl e
     | (Inr _, cb) \<Rightarrow>
         bind_res (sign_remote_commitment cr og cb s0) (\<lambda>sig_b.
         case receive_commit_sig cr ca s0 sig_b of
           (Inl e, _) \<Rightarrow> Inl e
         | (Inr _, ca) \<Rightarrow> Inr (ca, cb)))"

text \<open>
  \<open>order\<close> is the iteration order of the chain's coins, \<open>rand_a\<close> and \<open>rand_b\<close> the outcomes of the two
  random draws.
\<close>

definition open_channel ::
    "crypto \<Rightarrow> oqs_signer \<Rightarrow> chain_state \<Rightarrow> string list \<Rightarrow> (nat \<Rightarrow> string option) \<Rightarrow> (nat \<Rightarrow> string option)
       \<Rightarrow> wallet_keys \<Rightarrow> wallet_keys \<Rightarrow> u64 \<Rightarrow> u64 \<Rightarrow> (channel \<times> channel \<times> transaction list) res" where
  "open_channel cr og chain order rand_a rand_b a b capacity push =
     (if push > capacity \<or> capacity - push < 1 then Inl ''bad push amount''
      else
        (let ci = empty_info\<lparr>ci_addr_a := wk_address a, ci_addr_b := wk_address b, ci_capacity := capacity\<rparr> in
         bind_res (random_hex rand_a 32) (\<lambda>sa.
         bind_res (random_hex rand_b 32) (\<lambda>sb.
         let ca = new_channel a (wk_public_key b) True ci sa;
             cb = new_channel b (wk_public_key a) False ci sb;
             fs = script_address cr (funding_script (wk_address a) (wk_address b)) in
         bind_res (build_transaction chain None order (wk_address a) fs capacity 1 (next_nonce None chain (wk_address a))) (\<lambda>f0.
         let f1 = f0\<lparr>signer := wk_address a, signer_pubkey := wk_public_key a\<rparr> in
         bind_res (sign_message_hybrid cr og (wk_private_key a) (hash_transaction cr f1)) (\<lambda>sg.
         let f = f1\<lparr>signature := sg\<rparr>;
             vout = length (takeWhile (\<lambda>x. recipient x \<noteq> fs) (outputs f));
             txid = hash_transaction cr f;
             ca = set_funding txid (of_nat vout) ca;
             cb = set_funding txid (of_nat vout) cb;
             (a0, a1) = initial_hashes cr ca;
             (b0, b1) = initial_hashes cr cb;
             ca' = set_remote_initial_hashes b0 b1 ca;
             cb' = set_remote_initial_hashes a0 a1 cb;
             s0 = empty_state\<lparr>cs_bal_a := capacity - push, cs_bal_b := push\<rparr> in
         bind_res (exchange_initial cr og ca' cb' s0) (\<lambda>(ca'', cb''). Inr (ca'', cb'', [f]))))))))"

text \<open>One lock-step update of the two endpoints.\<close>

definition update :: "crypto \<Rightarrow> oqs_signer \<Rightarrow> channel \<Rightarrow> channel \<Rightarrow> ch_state \<Rightarrow> unit res \<times> channel \<times> channel" where
  "update cr og p q next =
     (case bind_res (validate_next p next) (\<lambda>_. validate_next q next) of
        Inl e \<Rightarrow> (Inl e, p, q)
      | Inr _ \<Rightarrow>
     (case sign_remote_commitment cr og p next of
        Inl e \<Rightarrow> (Inl e, p, q)
      | Inr sp \<Rightarrow>
     (case receive_commit_sig cr q next sp of
        (Inl e, q) \<Rightarrow> (Inl e, p, q)
      | (Inr _, q) \<Rightarrow>
     (case sign_remote_commitment cr og q next of
        Inl e \<Rightarrow> (Inl e, p, q)
      | Inr sq \<Rightarrow>
     (case receive_commit_sig cr p next sq of
        (Inl e, p) \<Rightarrow> (Inl e, p, q)
      | (Inr _, p) \<Rightarrow>
     (let (rp, p) = revoke_and_advance cr p in
      case receive_revoke cr q rp of
        (Inl e, q) \<Rightarrow> (Inl e, p, q)
      | (Inr _, q) \<Rightarrow>
     (let (rq, q) = revoke_and_advance cr q in
      case receive_revoke cr p rq of
        (Inl e, p) \<Rightarrow> (Inl e, p, q)
      | (Inr _, p) \<Rightarrow> (Inr (), p, q))))))))"

definition ch_bal :: "ch_state \<Rightarrow> bool \<Rightarrow> u64" where
  "ch_bal s a = (if a then cs_bal_a s else cs_bal_b s)"

definition set_ch_bal :: "bool \<Rightarrow> u64 \<Rightarrow> ch_state \<Rightarrow> ch_state" where
  "set_ch_bal a v s = (if a then s\<lparr>cs_bal_a := v\<rparr> else s\<lparr>cs_bal_b := v\<rparr>)"

definition ch_reserve :: "channel \<Rightarrow> u64" where
  "ch_reserve c = (if ch_is_a c then ci_fee (ch_info c) else 0)"

definition next_state :: "channel \<Rightarrow> ch_state" where
  "next_state c = (ch_cur c)\<lparr>cs_n := cs_n (ch_cur c) + 1\<rparr>"

definition pay :: "crypto \<Rightarrow> oqs_signer \<Rightarrow> channel \<Rightarrow> channel \<Rightarrow> u64 \<Rightarrow> unit res \<times> channel \<times> channel" where
  "pay cr og payer payee amt =
     (let n = next_state payer; pb = ch_bal n (ch_is_a payer) in
      if amt = 0 \<or> pb < amt + ch_reserve payer then (Inl ''insufficient channel balance'', payer, payee)
      else
        (let n = set_ch_bal (ch_is_a payer) (pb - amt) n;
             n = set_ch_bal (ch_is_a payee) (ch_bal n (ch_is_a payee) + amt) n
         in update cr og payer payee n))"

definition add_htlc ::
    "crypto \<Rightarrow> oqs_signer \<Rightarrow> channel \<Rightarrow> channel \<Rightarrow> u64 \<Rightarrow> string \<Rightarrow> u64 \<Rightarrow> u64 res \<times> channel \<times> channel" where
  "add_htlc cr og payer payee amt ph expiry =
     (let n = next_state payer; pb = ch_bal n (ch_is_a payer) in
      if amt = 0 \<or> pb < amt + ch_reserve payer then (Inl ''insufficient channel balance'', payer, payee)
      else
        (let n = set_ch_bal (ch_is_a payer) (pb - amt) n;
             hid = cs_next_htlc_id n;
             n = n\<lparr>cs_next_htlc_id := hid + 1,
                   cs_htlcs := cs_htlcs n @ [\<lparr>h_id = hid, h_offered_by_a = ch_is_a payer, h_amount = amt,
                                             h_payment_hash = ph, h_expiry = expiry\<rparr>]\<rparr>
         in case update cr og payer payee n of
              (Inl e, x) \<Rightarrow> (Inl e, x)
            | (Inr _, x) \<Rightarrow> (Inr hid, x)))"

text \<open>\<open>erase_first\<close> is \<^verbatim>\<open>find_if\<close> followed by \<^verbatim>\<open>erase\<close>.\<close>

fun erase_first :: "('a \<Rightarrow> bool) \<Rightarrow> 'a list \<Rightarrow> 'a list" where
  "erase_first P [] = []"
| "erase_first P (x # xs) = (if P x then xs else x # erase_first P xs)"

definition remove_htlc ::
    "crypto \<Rightarrow> oqs_signer \<Rightarrow> channel \<Rightarrow> channel \<Rightarrow> u64 \<Rightarrow> bool \<Rightarrow> unit res \<times> channel \<times> channel" where
  "remove_htlc cr og proposer peer hid to_receiver =
     (let n = next_state proposer in
      case find_htlc n hid of
        None \<Rightarrow> (Inl ''unknown htlc'', proposer, peer)
      | Some h \<Rightarrow>
          (let credit_a = (if to_receiver then \<not> h_offered_by_a h else h_offered_by_a h);
               n = set_ch_bal credit_a (ch_bal n credit_a + h_amount h) n;
               n = n\<lparr>cs_htlcs := erase_first (\<lambda>h. h_id h = hid) (cs_htlcs n)\<rparr>
           in update cr og proposer peer n))"

definition settle_htlc ::
    "crypto \<Rightarrow> oqs_signer \<Rightarrow> channel \<Rightarrow> channel \<Rightarrow> u64 \<Rightarrow> string \<Rightarrow> unit res \<times> channel \<times> channel" where
  "settle_htlc cr og payee payer hid preimage =
     (if (case find_htlc (ch_cur payer) hid of None \<Rightarrow> True | Some h \<Rightarrow> hash_preimage_hex cr preimage \<noteq> h_payment_hash h)
      then (Inl ''bad preimage'', payee, payer)
      else remove_htlc cr og payee payer hid True)"

definition fail_htlc :: "crypto \<Rightarrow> oqs_signer \<Rightarrow> channel \<Rightarrow> channel \<Rightarrow> u64 \<Rightarrow> unit res \<times> channel \<times> channel" where
  "fail_htlc cr og payee payer hid = remove_htlc cr og payee payer hid False"


text \<open>
  Routes. The channel objects live in a store, a hop names the two endpoints of one channel by their
  addresses in it; the endpoints of a hop are two objects.
\<close>

type_synonym ch_store = "nat \<Rightarrow> channel"

definition put2 :: "ch_store \<Rightarrow> nat \<Rightarrow> nat \<Rightarrow> channel \<times> channel \<Rightarrow> ch_store" where
  "put2 m i j x = m(i := fst x, j := snd x)"

text \<open>Undoing the hops done so far, the latest first; the results are ignored.\<close>

fun undo_hops :: "crypto \<Rightarrow> oqs_signer \<Rightarrow> ch_store \<Rightarrow> ((nat \<times> nat) \<times> u64) list \<Rightarrow> ch_store" where
  "undo_hops cr og m [] = m"
| "undo_hops cr og m (((payer, payee), hid) # hops) =
     undo_hops cr og (put2 m payee payer (snd (fail_htlc cr og (m payee) (m payer) hid))) hops"

text \<open>The forward loop; \<open>made\<close> are the hops already locked, the latest first.\<close>

fun lock_hops ::
    "crypto \<Rightarrow> oqs_signer \<Rightarrow> u64 \<Rightarrow> string \<Rightarrow> u64 \<Rightarrow> u64 \<Rightarrow> u64 \<Rightarrow> ch_store \<Rightarrow> ((nat \<times> nat) \<times> u64) list \<Rightarrow> (nat \<times> nat) list
       \<Rightarrow> ((nat \<times> nat) \<times> u64) list res \<times> ch_store" where
  "lock_hops cr og amt ph final_expiry delta fe m made [] = (Inr made, m)"
| "lock_hops cr og amt ph final_expiry delta fe m made ((payer, payee) # hops) =
     (let left = of_nat (length hops) in
      case add_htlc cr og (m payer) (m payee) (amt + fe * left) ph (final_expiry + delta * left) of
        (Inl e, x) \<Rightarrow>
          (Inl (''hop '' @ dec (length made) @ '': '' @ e), undo_hops cr og (put2 m payer payee x) made)
      | (Inr hid, x) \<Rightarrow>
          lock_hops cr og amt ph final_expiry delta fe (put2 m payer payee x) (((payer, payee), hid) # made) hops)"

text \<open>The backward loop over the locked hops.\<close>

fun settle_hops ::
    "crypto \<Rightarrow> oqs_signer \<Rightarrow> string \<Rightarrow> ch_store \<Rightarrow> ((nat \<times> nat) \<times> u64) list \<Rightarrow> unit res \<times> ch_store" where
  "settle_hops cr og preimage m [] = (Inr (), m)"
| "settle_hops cr og preimage m (((payer, payee), hid) # hops) =
     (case settle_htlc cr og (m payee) (m payer) hid preimage of
        (Inl e, x) \<Rightarrow> (Inl (''settle hop '' @ dec (length hops) @ '': '' @ e), put2 m payee payer x)
      | (Inr _, x) \<Rightarrow> settle_hops cr og preimage (put2 m payee payer x) hops)"

definition route_payment ::
    "crypto \<Rightarrow> oqs_signer \<Rightarrow> ch_store \<Rightarrow> (nat \<times> nat) list \<Rightarrow> u64 \<Rightarrow> string \<Rightarrow> u64 \<Rightarrow> u64 \<Rightarrow> u64 \<Rightarrow> unit res \<times> ch_store" where
  "route_payment cr og m hops amt preimage final_expiry delta fe =
     (let ph = hash_preimage_hex cr preimage in
      if ph = [] then (Inl ''bad preimage'', m)
      else case lock_hops cr og amt ph final_expiry delta fe m [] hops of
             (Inl e, m) \<Rightarrow> (Inl e, m)
           | (Inr made, m) \<Rightarrow> settle_hops cr og preimage m made)"

section \<open>Updates proposed by a peer\<close>

datatype peer_update = Reject | Pay | AddHtlc | SettleHtlc | FailHtlc

record peer_update_class =
  pu_kind :: peer_update
  pu_htlc :: htlc
  pu_err :: string

definition empty_htlc :: htlc where
  "empty_htlc = \<lparr>h_id = 0, h_offered_by_a = True, h_amount = 0, h_payment_hash = [], h_expiry = 0\<rparr>"

definition reject :: "htlc \<Rightarrow> string \<Rightarrow> peer_update_class" where
  "reject h e = \<lparr>pu_kind = Reject, pu_htlc = h, pu_err = e\<rparr>"

definition accept :: "peer_update \<Rightarrow> htlc \<Rightarrow> peer_update_class" where
  "accept k h = \<lparr>pu_kind = k, pu_htlc = h, pu_err = []\<rparr>"

definition htlc_map :: "htlc list \<Rightarrow> (u64 \<times> htlc) list" where
  "htlc_map hs = foldl (\<lambda>m h. omap_ins (h_id h) h m) [] hs"

definition same_terms :: "htlc \<Rightarrow> htlc \<Rightarrow> bool" where
  "same_terms a b \<longleftrightarrow> h_offered_by_a a = h_offered_by_a b \<and> h_amount a = h_amount b
     \<and> h_payment_hash a = h_payment_hash b \<and> h_expiry a = h_expiry b"

definition classify_peer_update :: "crypto \<Rightarrow> channel \<Rightarrow> ch_state \<Rightarrow> string \<Rightarrow> u64 \<Rightarrow> peer_update_class" where
  "classify_peer_update cr c next preimage ht =
     (let cur = ch_cur c;
          me_a = ch_is_a c;
          mine = (\<lambda>s. ch_bal s me_a);
          theirs = (\<lambda>s. ch_bal s (\<not> me_a));
          old = htlc_map (cs_htlcs cur);
          new = htlc_map (cs_htlcs next);
          added = map snd (filter (\<lambda>(i, h). map_of old i = None) new);
          removed = map snd (filter (\<lambda>(i, h). map_of new i = None) old) in
      if list_ex (\<lambda>(i, h). case map_of old i of None \<Rightarrow> False | Some o' \<Rightarrow> \<not> same_terms o' h) new
      then reject empty_htlc ''existing htlc modified''
      else if added = [] \<and> removed = [] then
        (if cs_next_htlc_id next \<noteq> cs_next_htlc_id cur \<or> mine next < mine cur
         then reject empty_htlc ''update would lower local balance'' else accept Pay empty_htlc)
      else if length added = 1 \<and> removed = [] then
        (let h = hd added in
         if h_offered_by_a h = me_a then reject empty_htlc ''peer cannot add an htlc offered by us''
         else if h_id h \<noteq> cs_next_htlc_id cur \<or> cs_next_htlc_id next \<noteq> cs_next_htlc_id cur + 1
         then reject empty_htlc ''bad htlc id''
         else if mine next \<noteq> mine cur \<or> theirs next + h_amount h \<noteq> theirs cur
         then reject empty_htlc ''htlc add must be funded by the proposer''
         else if h_expiry h \<le> ht + 1 then reject empty_htlc ''htlc expiry too close''
         else accept AddHtlc h)
      else if length removed = 1 \<and> added = [] then
        (let h = hd removed in
         if cs_next_htlc_id next \<noteq> cs_next_htlc_id cur then reject empty_htlc ''bad htlc id''
         else if h_offered_by_a h \<noteq> me_a
         then reject empty_htlc ''peer cannot remove an htlc it offered (timeout is on-chain only)''
         else if mine next = mine cur + h_amount h \<and> theirs next = theirs cur then accept FailHtlc h
         else if theirs next = theirs cur + h_amount h \<and> mine next = mine cur then
           (if hash_preimage_hex cr preimage \<noteq> h_payment_hash h then reject h ''bad preimage'' else accept SettleHtlc h)
         else reject h ''htlc removal does not balance'')
      else reject empty_htlc ''only one htlc change per update'')"

end
