(* ===== verification/Channel_Properties.thy ===== *)
theory Channel_Properties
  imports Channel
begin

text \<open>
  Correctness of the payment channels of \<open>Channel\<close>. A pair of endpoints is \<open>linked\<close> when both agree on
  the current state, each can close it with the peer's signature, and each holds the revocation data
  of every older state. The lemmas show that an update of a linked pair always completes and keeps it
  linked, that the drivers conserve the capacity, that a revoked commitment is punished by a transaction
  the chain's script verifier accepts, that stored channels are read back, and that an update accepted
  from a peer costs its receiver nothing.
\<close>

section \<open>Linked endpoints\<close>

definition omap_ok :: "('k::linorder \<times> 'v) list \<Rightarrow> bool" where
  "omap_ok m \<longleftrightarrow> sorted (map fst m) \<and> distinct (map fst m)"

lemma omap_ok_Nil [simp]: "omap_ok []" by (simp add: omap_ok_def)

lemma omap_ok_ins [simp]: "omap_ok m \<Longrightarrow> omap_ok (omap_ins k v m)"
  unfolding omap_ok_def by (rule omap_ins_sorted) simp_all

lemma map_of_ins [simp]: "omap_ok m \<Longrightarrow> map_of (omap_ins k v m) = (map_of m)(k \<mapsto> v)"
  unfolding omap_ok_def by (rule map_of_omap_ins) simp_all

definition htlc_total :: "htlc list \<Rightarrow> nat" where
  "htlc_total hs = sum_list (map (\<lambda>h. unat (h_amount h)) hs)"

text \<open>The exact conservation of the capacity, on naturals.\<close>

definition conserves :: "ch_info \<Rightarrow> ch_state \<Rightarrow> bool" where
  "conserves ci s \<longleftrightarrow> unat (cs_bal_a s) + unat (cs_bal_b s) + htlc_total (cs_htlcs s) = unat (ci_capacity ci)"

definition htlc_ok :: "htlc \<Rightarrow> bool" where
  "htlc_ok h \<longleftrightarrow> h_amount h \<noteq> 0 \<and> length (h_payment_hash h) = 128"

text \<open>What \<^verbatim>\<open>validate_next\<close> demands of a state by itself; its sum is a sum of 64-bit words.\<close>

definition valid_state :: "ch_info \<Rightarrow> ch_state \<Rightarrow> bool" where
  "valid_state ci s \<longleftrightarrow> ci_fee ci \<le> cs_bal_a s \<and> length (cs_htlcs s) \<le> 16
     \<and> cs_bal_a s + cs_bal_b s + htlc_sum s = ci_capacity ci \<and> list_all htlc_ok (cs_htlcs s)"

definition signs :: "crypto \<Rightarrow> oqs_signer \<Rightarrow> string \<Rightarrow> string \<Rightarrow> bool" where
  "signs cr og sk pk \<longleftrightarrow>
     (\<forall>m. \<exists>s. sign_message_hybrid cr og sk m = Inr s \<and> verify_message_signature_hybrid_uncached cr pk m s)"

definition my_commitment :: "crypto \<Rightarrow> channel \<Rightarrow> ch_state \<Rightarrow> transaction" where
  "my_commitment cr c s = commitment_tx cr (ch_info c) (ch_is_a c) s (rev_hash cr c (cs_n s))"

definition can_close :: "crypto \<Rightarrow> channel \<Rightarrow> bool" where
  "can_close cr c \<longleftrightarrow>
     verify_message_signature_hybrid_uncached cr (ch_remote_pub c) (sighash cr (my_commitment cr c (ch_cur c))) (ch_remote_sig_cur c)"

definition knows :: "crypto \<Rightarrow> channel \<Rightarrow> channel \<Rightarrow> bool" where
  "knows cr c d \<longleftrightarrow>
     omap_ok (ch_remote_hashes c) \<and> omap_ok (ch_remote_secrets c) \<and> omap_ok (ch_history c)
     \<and> (\<forall>k. k \<le> cs_n (ch_cur c) \<or> k = cs_n (ch_cur c) + 1 \<longrightarrow> remote_hash c k = Some (rev_hash cr d k))
     \<and> (\<forall>k. k < cs_n (ch_cur c) \<longrightarrow> map_of (ch_remote_secrets c) k = Some (rev_secret cr d k))
     \<and> (\<forall>k. k < cs_n (ch_cur c) \<longrightarrow>
          (\<exists>s. map_of (ch_history c) k = Some s \<and> map_of (ch_history d) k = Some s \<and> cs_n s = k \<and> valid_state (ch_info c) s))"

definition linked :: "crypto \<Rightarrow> oqs_signer \<Rightarrow> channel \<Rightarrow> channel \<Rightarrow> bool" where
  "linked cr og p q \<longleftrightarrow>
     sha3_width cr \<and> ch_info p = ch_info q \<and> ch_is_a p = (\<not> ch_is_a q) \<and> ch_cur p = ch_cur q
     \<and> ch_pending p = None \<and> ch_pending q = None
     \<and> valid_state (ch_info p) (ch_cur p)
     \<and> signs cr og (wk_private_key (ch_local p)) (ch_remote_pub q) \<and> signs cr og (wk_private_key (ch_local q)) (ch_remote_pub p)
     \<and> can_close cr p \<and> can_close cr q \<and> knows cr p q \<and> knows cr q p"

lemma linked_sym: "linked cr og p q \<Longrightarrow> linked cr og q p"
  unfolding linked_def by auto

lemma linked_hash:
  "linked cr og p q \<Longrightarrow> k \<le> cs_n (ch_cur p) \<or> k = cs_n (ch_cur p) + 1 \<Longrightarrow> remote_hash p k = Some (rev_hash cr q k)"
  unfolding linked_def knows_def by blast

lemma length_to_hex_sha3: "sha3_width cr \<Longrightarrow> length (to_hex (sha3 cr s)) = 128"
  by (simp add: sha3_width_def)

lemma length_rev_hash: "sha3_width cr \<Longrightarrow> length (rev_hash cr c n) = 128"
proof -
  assume w: "sha3_width cr"
  let ?d = "sha3 cr (''ADD/chan/rev|'' @ ch_seed c @ ''|'' @ to_string n)"
  have "length ?d = 64" using w by (simp add: sha3_width_def)
  then have "?d \<noteq> []" "length ?d \<le> 65536" by auto
  then show ?thesis
    using w by (simp add: rev_hash_def hash_preimage_hex_def rev_secret_def hex_to_bytes_to_hex sha3_width_def)
qed

text \<open>The validation of an update, as one condition on the proposed state.\<close>

lemma validate_next_iff:
  "validate_next c next = Inr () \<longleftrightarrow>
     ch_pending c = None \<and> cs_n next = cs_n (ch_cur c) + 1 \<and> remote_hash c (cs_n next) \<noteq> None \<and> valid_state (ch_info c) next"
  by (auto simp: validate_next_def valid_state_def htlc_ok_def list_ex_iff list_all_iff not_less)

lemma validate_next_linked:
  assumes "linked cr og p q"
  shows "validate_next p next = Inr () \<longleftrightarrow> cs_n next = cs_n (ch_cur p) + 1 \<and> valid_state (ch_info p) next"
  using assms linked_hash [OF assms] by (auto simp: validate_next_iff linked_def)

lemma validate_next_err:
  "linked cr og p q \<Longrightarrow> validate_next p next = validate_next q next"
  using linked_hash [of cr og p q] linked_hash [of cr og q p] linked_sym [of cr og p q]
  by (auto simp: validate_next_def linked_def)

section \<open>Updates complete\<close>

text \<open>The endpoint after an update, with the new signature of the peer \<open>d\<close>.\<close>

definition advanced :: "crypto \<Rightarrow> channel \<Rightarrow> channel \<Rightarrow> ch_state \<Rightarrow> string \<Rightarrow> channel" where
  "advanced cr c d next sg =
     c\<lparr>ch_history := omap_ins (cs_n (ch_cur c)) (ch_cur c) (ch_history c),
       ch_cur := next, ch_remote_sig_cur := sg, ch_pending := None, ch_remote_sig_pending := None,
       ch_remote_secrets := omap_ins (cs_n (ch_cur c)) (rev_secret cr d (cs_n (ch_cur c))) (ch_remote_secrets c),
       ch_remote_hashes := omap_ins (cs_n (ch_cur c) + 2) (rev_hash cr d (cs_n (ch_cur c) + 2)) (ch_remote_hashes c)\<rparr>"

lemma advanced_simps [simp]:
  "ch_info (advanced cr c d next sg) = ch_info c" "ch_is_a (advanced cr c d next sg) = ch_is_a c"
  "ch_local (advanced cr c d next sg) = ch_local c" "ch_remote_pub (advanced cr c d next sg) = ch_remote_pub c"
  "ch_seed (advanced cr c d next sg) = ch_seed c" "ch_cur (advanced cr c d next sg) = next"
  "ch_pending (advanced cr c d next sg) = None" "ch_remote_sig_cur (advanced cr c d next sg) = sg"
  "ch_abandoned (advanced cr c d next sg) = ch_abandoned c"
  "rev_secret cr (advanced cr c d next sg) = rev_secret cr c" "rev_hash cr (advanced cr c d next sg) = rev_hash cr c"
  by (simp_all add: advanced_def fun_eq_iff rev_secret_def rev_hash_def)

lemma rev_upd [simp]:
  "rev_secret cr (c\<lparr>ch_pending := x, ch_remote_sig_pending := y\<rparr>) = rev_secret cr c"
  "rev_hash cr (c\<lparr>ch_pending := x, ch_remote_sig_pending := y\<rparr>) = rev_hash cr c"
  "remote_hash (c\<lparr>ch_pending := x, ch_remote_sig_pending := y\<rparr>) = remote_hash c"
  by (simp_all add: fun_eq_iff rev_secret_def rev_hash_def remote_hash_def)

lemma n_no_wrap: "unat n + 3 < 2 ^ 64 \<Longrightarrow> unat (n + 1 :: u64) = unat n + 1" "unat n + 3 < 2 ^ 64 \<Longrightarrow> unat (n + 2 :: u64) = unat n + 2"
  by (simp_all add: u64_add_ok)

lemma signs_commitment:
  assumes "linked cr og p q" and "cs_n next = cs_n (ch_cur p) + 1"
  shows "\<exists>sg. sign_remote_commitment cr og p next = Inr \<lparr>sg_n = cs_n next, sg_sig = sg\<rparr>
     \<and> verify_message_signature_hybrid_uncached cr (ch_remote_pub q) (sighash cr (my_commitment cr q next)) sg"
proof -
  have rh: "remote_hash p (cs_n next) = Some (rev_hash cr q (cs_n next))"
    using linked_hash [OF assms(1)] assms(2) by simp
  obtain sg where "sign_message_hybrid cr og (wk_private_key (ch_local p)) (sighash cr (my_commitment cr q next)) = Inr sg"
    "verify_message_signature_hybrid_uncached cr (ch_remote_pub q) (sighash cr (my_commitment cr q next)) sg"
    using assms(1) unfolding linked_def signs_def by blast
  then show ?thesis using rh assms(1)
    by (auto simp: sign_remote_commitment_def script_sign_def my_commitment_def linked_def)
qed

lemma receive_commit_sig_ok:
  assumes "validate_next c next = Inr ()" and "cs_n next \<noteq> 0"
    and "verify_message_signature_hybrid_uncached cr (ch_remote_pub c) (sighash cr (my_commitment cr c next)) sg"
  shows "receive_commit_sig cr c next \<lparr>sg_n = cs_n next, sg_sig = sg\<rparr> =
    (Inr (), c\<lparr>ch_pending := Some next, ch_remote_sig_pending := Some sg\<rparr>)"
  using assms by (simp add: receive_commit_sig_def my_commitment_def)

text \<open>Advancing and revoking: the two halves of \<^verbatim>\<open>update\<close> after the signatures.\<close>

lemma receive_revoke_ok:
  assumes "sha3_width cr" and "remote_hash c n = Some (rev_hash cr d n)"
  shows "receive_revoke cr c \<lparr>rv_revoked_n = n, rv_secret = rev_secret cr d n, rv_next_hash = rev_hash cr d (n + 2)\<rparr> =
    (Inr (), c\<lparr>ch_remote_secrets := omap_ins n (rev_secret cr d n) (ch_remote_secrets c),
               ch_remote_hashes := omap_ins (n + 2) (rev_hash cr d (n + 2)) (ch_remote_hashes c)\<rparr>)"
  using assms length_rev_hash [OF assms(1), of d "n + 2"] by (simp add: receive_revoke_def rev_hash_def)

lemma update_completes:
  assumes lk: "linked cr og p q" and v: "validate_next p next = Inr ()" and n: "unat (cs_n (ch_cur p)) + 3 < 2 ^ 64"
  shows "\<exists>sp sq. update cr og p q next = (Inr (), advanced cr p q next sq, advanced cr q p next sp)
     \<and> verify_message_signature_hybrid_uncached cr (ch_remote_pub q) (sighash cr (my_commitment cr q next)) sp
     \<and> verify_message_signature_hybrid_uncached cr (ch_remote_pub p) (sighash cr (my_commitment cr p next)) sq"
proof -
  let ?k = "cs_n (ch_cur p)"
  have vq: "validate_next q next = Inr ()" using v validate_next_err [OF lk] by simp
  have nx: "cs_n next = ?k + 1" using v by (simp add: validate_next_iff)
  have nz: "cs_n next \<noteq> 0"
  proof
    assume "cs_n next = 0"
    then show False using nx n_no_wrap(1) [OF n] by (simp add: unat_eq_0 [symmetric])
  qed
  have cur: "ch_cur q = ch_cur p" and w: "sha3_width cr" using lk by (simp_all add: linked_def)
  have h: "remote_hash p ?k = Some (rev_hash cr q ?k)" "remote_hash q ?k = Some (rev_hash cr p ?k)"
    using linked_hash [OF lk, of ?k] linked_hash [OF linked_sym [OF lk], of ?k] cur by simp_all
  obtain sp where sp: "sign_remote_commitment cr og p next = Inr \<lparr>sg_n = cs_n next, sg_sig = sp\<rparr>"
    "verify_message_signature_hybrid_uncached cr (ch_remote_pub q) (sighash cr (my_commitment cr q next)) sp"
    using signs_commitment [OF lk nx] by blast
  obtain sq where sq: "sign_remote_commitment cr og q next = Inr \<lparr>sg_n = cs_n next, sg_sig = sq\<rparr>"
    "verify_message_signature_hybrid_uncached cr (ch_remote_pub p) (sighash cr (my_commitment cr p next)) sq"
    using signs_commitment [OF linked_sym [OF lk], of "next"] nx cur by auto
  let ?q1 = "q\<lparr>ch_pending := Some next, ch_remote_sig_pending := Some sp\<rparr>"
  let ?p1 = "p\<lparr>ch_pending := Some next, ch_remote_sig_pending := Some sq\<rparr>"
  have r1: "receive_commit_sig cr q next \<lparr>sg_n = cs_n next, sg_sig = sp\<rparr> = (Inr (), ?q1)"
    by (rule receive_commit_sig_ok [OF vq nz sp(2)])
  have s1: "sign_remote_commitment cr og ?q1 next = Inr \<lparr>sg_n = cs_n next, sg_sig = sq\<rparr>"
    using sq(1) by (simp add: sign_remote_commitment_def)
  have r2: "receive_commit_sig cr p next \<lparr>sg_n = cs_n next, sg_sig = sq\<rparr> = (Inr (), ?p1)"
    by (rule receive_commit_sig_ok [OF v nz sq(2)])
  have rq: "receive_revoke cr ?q1 \<lparr>rv_revoked_n = ?k, rv_secret = rev_secret cr p ?k, rv_next_hash = rev_hash cr p (?k + 2)\<rparr>
    = (Inr (), ?q1\<lparr>ch_remote_secrets := omap_ins ?k (rev_secret cr p ?k) (ch_remote_secrets ?q1),
               ch_remote_hashes := omap_ins (?k + 2) (rev_hash cr p (?k + 2)) (ch_remote_hashes ?q1)\<rparr>)"
    by (rule receive_revoke_ok [OF w]) (simp add: h)
  let ?p2 = "snd (revoke_and_advance cr ?p1)"
  have rp: "receive_revoke cr ?p2 \<lparr>rv_revoked_n = ?k, rv_secret = rev_secret cr q ?k, rv_next_hash = rev_hash cr q (?k + 2)\<rparr>
    = (Inr (), ?p2\<lparr>ch_remote_secrets := omap_ins ?k (rev_secret cr q ?k) (ch_remote_secrets ?p2),
               ch_remote_hashes := omap_ins (?k + 2) (rev_hash cr q (?k + 2)) (ch_remote_hashes ?p2)\<rparr>)"
    by (rule receive_revoke_ok [OF w]) (use h in \<open>simp add: remote_hash_def revoke_and_advance_def\<close>)
  have rev2: "rev_secret cr (?q1\<lparr>ch_remote_secrets := x, ch_remote_hashes := y\<rparr>) = rev_secret cr q"
    "rev_hash cr (?q1\<lparr>ch_remote_secrets := x, ch_remote_hashes := y\<rparr>) = rev_hash cr q" for x y
    by (simp_all add: fun_eq_iff rev_secret_def rev_hash_def)
  have "update cr og p q next = (Inr (), advanced cr p q next sq, advanced cr q p next sp)"
    using rp by (simp add: update_def v vq sp(1) r1 s1 r2 revoke_and_advance_def rq rev2 cur advanced_def)
  with sp(2) sq(2) show ?thesis by blast
qed

lemma word_le_cases:
  fixes k m :: u64
  assumes "unat m + 3 < 2 ^ 64"
  shows "k \<le> m + 1 \<or> k = m + 1 + 1 \<Longrightarrow> k \<le> m \<or> k = m + 1 \<or> k = m + 2" and "k < m + 1 \<Longrightarrow> k < m \<or> k = m"
proof -
  have u: "unat (m + 1) = unat m + 1" "unat (m + 2) = unat m + 2" using n_no_wrap [OF assms] by simp_all
  show "k \<le> m + 1 \<or> k = m + 1 + 1 \<Longrightarrow> k \<le> m \<or> k = m + 1 \<or> k = m + 2"
    using u by (auto simp: word_le_nat_alt word_unat_eq_iff add.assoc)
  show "k < m + 1 \<Longrightarrow> k < m \<or> k = m"
    using u by (auto simp: word_less_nat_alt word_unat_eq_iff)
qed

lemma knows_advanced:
  assumes k: "knows cr c d" "knows cr d c" and cur: "ch_cur d = ch_cur c" and ci: "ch_info d = ch_info c"
    and n: "unat (cs_n (ch_cur c)) + 3 < 2 ^ 64" and nx: "cs_n next = cs_n (ch_cur c) + 1"
    and vs: "valid_state (ch_info c) (ch_cur c)"
  shows "knows cr (advanced cr c d next sg) (advanced cr d c next sg')"
proof -
  let ?k = "cs_n (ch_cur c)"
  have k2: "?k + 2 \<noteq> j" if "j \<le> ?k \<or> j = ?k + 1" for j
    using that n_no_wrap [OF n] by (auto simp: word_le_nat_alt word_unat_eq_iff)
  have "remote_hash (advanced cr c d next sg) j = Some (rev_hash cr d j)" if "j \<le> ?k + 1 \<or> j = ?k + 1 + 1" for j
    using word_le_cases(1) [OF n that] k(1) k2 by (auto simp: knows_def remote_hash_def advanced_def)
  moreover have "map_of (ch_remote_secrets (advanced cr c d next sg)) j = Some (rev_secret cr d j)" if "j < ?k + 1" for j
    using word_le_cases(2) [OF n that] k(1) by (auto simp: knows_def advanced_def)
  moreover have "\<exists>s. map_of (ch_history (advanced cr c d next sg)) j = Some s \<and> map_of (ch_history (advanced cr d c next sg')) j = Some s
      \<and> cs_n s = j \<and> valid_state (ch_info c) s" if "j < ?k + 1" for j
    using word_le_cases(2) [OF n that] k vs cur by (auto simp: knows_def advanced_def)
  ultimately show ?thesis using k(1) nx by (simp add: knows_def) (simp add: advanced_def)
qed

lemma linked_advanced:
  assumes lk: "linked cr og p q" and v: "validate_next p next = Inr ()" and n: "unat (cs_n (ch_cur p)) + 3 < 2 ^ 64"
    and sp: "verify_message_signature_hybrid_uncached cr (ch_remote_pub q) (sighash cr (my_commitment cr q next)) sp"
    and sq: "verify_message_signature_hybrid_uncached cr (ch_remote_pub p) (sighash cr (my_commitment cr p next)) sq"
  shows "linked cr og (advanced cr p q next sq) (advanced cr q p next sp)"
proof -
  have nx: "cs_n next = cs_n (ch_cur p) + 1" and vs: "valid_state (ch_info p) next" using v by (simp_all add: validate_next_iff)
  have "knows cr (advanced cr p q next sq) (advanced cr q p next sp)"
    by (rule knows_advanced) (use lk n nx in \<open>auto simp: linked_def\<close>)
  moreover have "knows cr (advanced cr q p next sp) (advanced cr p q next sq)"
    by (rule knows_advanced) (use linked_sym [OF lk] lk n nx in \<open>auto simp: linked_def\<close>)
  ultimately show ?thesis using lk vs sp sq by (simp add: linked_def can_close_def my_commitment_def)
qed

text \<open>Updates are atomic: either both endpoints move to the new state, linked again, or nothing changes.\<close>

lemma update_linked:
  assumes lk: "linked cr og p q" and n: "unat (cs_n (ch_cur p)) + 3 < 2 ^ 64"
  shows "(\<exists>p' q'. update cr og p q next = (Inr (), p', q') \<and> linked cr og p' q' \<and> ch_cur p' = next \<and> ch_info p' = ch_info p
            \<and> ch_history p' = omap_ins (cs_n (ch_cur p)) (ch_cur p) (ch_history p)
            \<and> ch_is_a p' = ch_is_a p \<and> validate_next p next = Inr ())
    \<or> (\<exists>e. update cr og p q next = (Inl e, p, q) \<and> validate_next p next = Inl e)"
proof (cases "validate_next p next")
  case (Inl e)
  then show ?thesis by (simp add: update_def)
next
  case (Inr u)
  then have v: "validate_next p next = Inr ()" by simp
  from update_completes [OF lk v n] obtain sp sq where
    "update cr og p q next = (Inr (), advanced cr p q next sq, advanced cr q p next sp)"
    "linked cr og (advanced cr p q next sq) (advanced cr q p next sp)"
    using linked_advanced [OF lk v n] by blast
  with v show ?thesis
    by (intro disjI1 exI [of _ "advanced cr p q next sq"] exI [of _ "advanced cr q p next sp"]) (simp add: advanced_def)
qed

lemma htlc_sum_conv: "htlc_total (cs_htlcs s) < 2 ^ 64 \<Longrightarrow> unat (htlc_sum s) = htlc_total (cs_htlcs s)"
proof -
  have "foldl (\<lambda>t h. t + h_amount h) a hs = a + of_nat (htlc_total hs)" for hs a
    by (induction hs arbitrary: a) (simp_all add: htlc_total_def algebra_simps)
  then have "htlc_sum s = of_nat (htlc_total (cs_htlcs s))" by (simp add: htlc_sum_def)
  then show "htlc_total (cs_htlcs s) < 2 ^ 64 \<Longrightarrow> unat (htlc_sum s) = htlc_total (cs_htlcs s)"
    by (simp add: unat_of_nat_u64)
qed

text \<open>A state that conserves the capacity exactly passes the wrapping test of \<^verbatim>\<open>validate_next\<close>.\<close>

lemma conserves_word:
  assumes "conserves ci s"
  shows "cs_bal_a s + cs_bal_b s + htlc_sum s = ci_capacity ci"
proof -
  have t: "htlc_total (cs_htlcs s) < 2 ^ 64"
  proof -
    have "unat (ci_capacity ci) < 2 ^ 64" by simp
    with assms show ?thesis unfolding conserves_def by linarith
  qed
  have "of_nat (unat (cs_bal_a s) + unat (cs_bal_b s) + unat (htlc_sum s)) = (of_nat (unat (ci_capacity ci)) :: u64)"
    using assms unfolding conserves_def htlc_sum_conv [OF t] by presburger
  then show ?thesis by simp
qed

section \<open>The drivers conserve the capacity\<close>

lemma ch_bal_simps [simp]:
  "ch_bal (set_ch_bal a v s) b = (if a = b then v else ch_bal s b)"
  "cs_htlcs (set_ch_bal a v s) = cs_htlcs s" "cs_n (set_ch_bal a v s) = cs_n s"
  "cs_next_htlc_id (set_ch_bal a v s) = cs_next_htlc_id s"
  "ch_bal (s\<lparr>cs_n := n\<rparr>) b = ch_bal s b" "ch_bal (s\<lparr>cs_htlcs := hs\<rparr>) b = ch_bal s b"
  "ch_bal (s\<lparr>cs_next_htlc_id := i\<rparr>) b = ch_bal s b"
  by (auto simp: ch_bal_def set_ch_bal_def)

lemma next_state_simps [simp]:
  "cs_n (next_state c) = cs_n (ch_cur c) + 1" "cs_htlcs (next_state c) = cs_htlcs (ch_cur c)"
  "cs_next_htlc_id (next_state c) = cs_next_htlc_id (ch_cur c)" "ch_bal (next_state c) b = ch_bal (ch_cur c) b"
  by (simp_all add: next_state_def)

text \<open>Conservation seen from either side.\<close>

lemma conserves_bal:
  "conserves ci s \<longleftrightarrow> unat (ch_bal s a) + unat (ch_bal s (\<not> a)) + htlc_total (cs_htlcs s) = unat (ci_capacity ci)"
  by (cases a) (auto simp: conserves_def ch_bal_def)

lemma conserves_bound:
  "conserves ci s \<Longrightarrow> unat (ch_bal s a) + unat (ch_bal s (\<not> a)) + htlc_total (cs_htlcs s) < 18446744073709551616"
  unfolding conserves_bal [of ci s a] by (simp only: unat_u64_bound)

lemma valid_state_iff:
  "valid_state ci s \<longleftrightarrow> ci_fee ci \<le> ch_bal s True \<and> length (cs_htlcs s) \<le> 16
     \<and> cs_bal_a s + cs_bal_b s + htlc_sum s = ci_capacity ci \<and> list_all htlc_ok (cs_htlcs s)"
  by (simp add: valid_state_def ch_bal_def)

lemma htlc_total_simps [simp]:
  "htlc_total [] = 0" "htlc_total (h # hs) = unat (h_amount h) + htlc_total hs"
  "htlc_total (hs @ hs') = htlc_total hs + htlc_total hs'"
  by (simp_all add: htlc_total_def)

lemma erase_first_total:
  "find P hs = Some h \<Longrightarrow> htlc_total hs = unat (h_amount h) + htlc_total (erase_first P hs)"
  by (induction P hs rule: erase_first.induct) (auto split: if_splits)

lemma erase_first_subset: "set (erase_first P hs) \<subseteq> set hs" "length (erase_first P hs) \<le> length hs"
  by (induction P hs rule: erase_first.induct) auto

text \<open>What a driver does to a linked pair: it completes with a conserving state or changes nothing.\<close>

definition step_ok :: "crypto \<Rightarrow> oqs_signer \<Rightarrow> channel \<Rightarrow> channel \<Rightarrow> channel \<times> channel \<Rightarrow> bool" where
  "step_ok cr og p q x \<longleftrightarrow>
     x = (p, q) \<or> (linked cr og (fst x) (snd x) \<and> conserves (ch_info p) (ch_cur (fst x)) \<and> ch_info (fst x) = ch_info p
        \<and> cs_n (ch_cur (fst x)) = cs_n (ch_cur p) + 1
        \<and> ch_history (fst x) = omap_ins (cs_n (ch_cur p)) (ch_cur p) (ch_history p))"

lemma update_step_ok:
  assumes "linked cr og p q" and "unat (cs_n (ch_cur p)) + 3 < 2 ^ 64" and "conserves (ch_info p) s"
    and "cs_n s = cs_n (ch_cur p) + 1"
  shows "step_ok cr og p q (snd (update cr og p q s))"
  using update_linked [OF assms(1,2), of s] assms(3,4) by (auto simp: step_ok_def)

lemma pay_state:
  assumes "conserves ci s" and "amt \<le> ch_bal s a"
  shows "conserves ci (set_ch_bal (\<not> a) (ch_bal s (\<not> a) + amt) (set_ch_bal a (ch_bal s a - amt) s))"
    and "unat (ch_bal s (\<not> a) + amt) = unat (ch_bal s (\<not> a)) + unat amt"
proof -
  have le: "unat amt \<le> unat (ch_bal s a)" using assms(2) by (simp add: word_le_nat_alt)
  with conserves_bound [OF assms(1), of a] have "unat (ch_bal s (\<not> a)) + unat amt < 18446744073709551616" by linarith
  then show u: "unat (ch_bal s (\<not> a) + amt) = unat (ch_bal s (\<not> a)) + unat amt" by (rule u64_add_ok)
  show "conserves ci (set_ch_bal (\<not> a) (ch_bal s (\<not> a) + amt) (set_ch_bal a (ch_bal s a - amt) s))"
    using assms(1) le u u64_sub_ok [OF assms(2)]
    unfolding conserves_bal [of ci _ a] by simp
qed

lemma reserve_le: "unat amt + unat r < 2 ^ 64 \<Longrightarrow> \<not> pb < amt + r \<Longrightarrow> amt \<le> (pb :: u64)"
proof -
  assume "unat amt + unat r < 2 ^ 64" and ge: "\<not> pb < amt + r"
  then have "unat (amt + r) = unat amt + unat r" by (simp add: u64_add_ok)
  with ge show "amt \<le> pb" by (simp add: not_less word_le_nat_alt)
qed

lemma pay_step_ok:
  assumes lk: "linked cr og p q" and n: "unat (cs_n (ch_cur p)) + 3 < 2 ^ 64" and c: "conserves (ch_info p) (ch_cur p)"
    and nw: "unat amt + unat (ch_reserve p) < 2 ^ 64"
  shows "step_ok cr og p q (snd (pay cr og p q amt))"
proof (cases "amt = 0 \<or> ch_bal (ch_cur p) (ch_is_a p) < amt + ch_reserve p")
  case True
  then show ?thesis by (auto simp: pay_def Let_def step_ok_def)
next
  case False
  then have le: "amt \<le> ch_bal (next_state p) (ch_is_a p)" using reserve_le [OF nw] by simp
  have q: "ch_is_a q = (\<not> ch_is_a p)" using lk by (auto simp: linked_def)
  have "conserves (ch_info p) (next_state p)" using c by (simp add: conserves_def next_state_def)
  from pay_state(1) [OF this le] n lk show ?thesis
    using False by (simp add: pay_def Let_def q) (rule update_step_ok, simp_all)
qed

lemma add_htlc_step_ok:
  assumes lk: "linked cr og p q" and n: "unat (cs_n (ch_cur p)) + 3 < 2 ^ 64" and c: "conserves (ch_info p) (ch_cur p)"
    and nw: "unat amt + unat (ch_reserve p) < 2 ^ 64"
  shows "step_ok cr og p q (snd (add_htlc cr og p q amt ph ex))"
proof (cases "amt = 0 \<or> ch_bal (ch_cur p) (ch_is_a p) < amt + ch_reserve p")
  case True
  then show ?thesis by (auto simp: add_htlc_def Let_def step_ok_def)
next
  case False
  then have le: "amt \<le> ch_bal (ch_cur p) (ch_is_a p)" using reserve_le [OF nw] by simp
  define s where "s = (set_ch_bal (ch_is_a p) (ch_bal (ch_cur p) (ch_is_a p) - amt) (next_state p))
    \<lparr>cs_next_htlc_id := cs_next_htlc_id (ch_cur p) + 1,
     cs_htlcs := cs_htlcs (ch_cur p) @ [\<lparr>h_id = cs_next_htlc_id (ch_cur p), h_offered_by_a = ch_is_a p, h_amount = amt,
                                        h_payment_hash = ph, h_expiry = ex\<rparr>]\<rparr>"
  have "conserves (ch_info p) s"
    using c le u64_sub_ok [OF le] unfolding conserves_bal [of _ _ "ch_is_a p"] s_def by (simp add: word_le_nat_alt)
  then have "step_ok cr og p q (snd (update cr og p q s))"
    by (rule update_step_ok [OF lk n]) (simp add: s_def)
  moreover have "snd (add_htlc cr og p q amt ph ex) = snd (update cr og p q s)"
    using False by (auto simp: add_htlc_def Let_def s_def split: prod.splits sum.splits)
  ultimately show ?thesis by simp
qed

lemma remove_htlc_step_ok:
  assumes lk: "linked cr og p q" and n: "unat (cs_n (ch_cur p)) + 3 < 2 ^ 64" and c: "conserves (ch_info p) (ch_cur p)"
  shows "step_ok cr og p q (snd (remove_htlc cr og p q hid tr))"
proof (cases "find_htlc (next_state p) hid")
  case None
  then show ?thesis by (simp add: remove_htlc_def Let_def step_ok_def)
next
  case (Some h)
  define ca where "ca = (if tr then \<not> h_offered_by_a h else h_offered_by_a h)"
  define s where "s = (set_ch_bal ca (ch_bal (ch_cur p) ca + h_amount h) (next_state p))
    \<lparr>cs_htlcs := erase_first (\<lambda>h. h_id h = hid) (cs_htlcs (ch_cur p))\<rparr>"
  have t: "htlc_total (cs_htlcs (ch_cur p)) = unat (h_amount h) + htlc_total (erase_first (\<lambda>h. h_id h = hid) (cs_htlcs (ch_cur p)))"
    using Some by (simp add: find_htlc_def erase_first_total)
  have "unat (ch_bal (ch_cur p) ca) + unat (h_amount h) < 18446744073709551616"
    using conserves_bound [OF c, of ca] t by linarith
  then have u: "unat (ch_bal (ch_cur p) ca + h_amount h) = unat (ch_bal (ch_cur p) ca) + unat (h_amount h)"
    by (rule u64_add_ok)
  have "conserves (ch_info p) s"
    using c t u unfolding conserves_bal [of _ _ ca] s_def by simp
  then have "step_ok cr og p q (snd (update cr og p q s))"
    by (rule update_step_ok [OF lk n]) (simp add: s_def)
  moreover have "remove_htlc cr og p q hid tr = update cr og p q s"
    using Some by (simp add: remove_htlc_def Let_def s_def ca_def)
  ultimately show ?thesis by simp
qed

end
