(* ===== verification/Channel_Justice.thy ===== *)
theory Channel_Justice
  imports Channel_Properties Shielded
begin

text \<open>
  Channel transactions on chain: the lemmas show that the witnesses which \<open>Channel\<close> builds satisfy the
  script verifier of \<open>Script_Policy\<close>. Either endpoint of a linked pair can close the current state, and a
  peer that broadcasts a revoked commitment loses every output of it but the honest party's own.
\<close>

section \<open>Accepted script inputs\<close>

lemma show_no_semi: "script_ok n \<Longrightarrow> CHR '';'' \<notin> set (show_script n)"
proof (induction n)
  case (Pk a)
  then show ?case by (auto simp: list_all_iff atom_char_def)
next
  case (Sha3 h)
  then show ?case by (auto simp: list_all_iff is_lower_hex_char_def less_eq_char_def)
next
  case (After m)
  then show ?case using to_string_digits [of m] by (auto simp: list_all_iff is_digit_char_def)
next
  case (Older m)
  then show ?case using to_string_digits [of m] by (auto simp: list_all_iff is_digit_char_def)
qed auto

lemma update_True_keeps: "k < length xs \<Longrightarrow> xs ! k \<Longrightarrow> xs[j := True] ! k"
  by (cases "j = k") auto

lemma eval_used_keep:
  "length (fst (snd (eval_script cr ctx w n used))) = length (fst used)"
  "length (snd (snd (eval_script cr ctx w n used))) = length (snd used)"
  "k < length (fst used) \<Longrightarrow> fst used ! k \<Longrightarrow> fst (snd (eval_script cr ctx w n used)) ! k"
  "k < length (snd used) \<Longrightarrow> snd used ! k \<Longrightarrow> snd (snd (eval_script cr ctx w n used)) ! k"
proof (induction n arbitrary: used)
  case (Pk a)
  {
    case 1 show ?case by (simp split: option.splits)
  next
    case 2 show ?case by (simp split: option.splits)
  next
    case 3 then show ?case by (auto simp: update_True_keeps split: option.splits)
  next
    case 4 then show ?case by (simp split: option.splits)
  }
next
  case (Sha3 h)
  {
    case 1 show ?case by (simp split: option.splits)
  next
    case 2 show ?case by (simp split: option.splits)
  next
    case 3 then show ?case by (simp split: option.splits)
  next
    case 4 then show ?case by (auto simp: update_True_keeps split: option.splits)
  }
qed (auto simp: Let_def case_prod_unfold)

lemma sh1_address: "sha3_width cr \<Longrightarrow> is_script_address (script_address cr x)"
  by (simp add: is_script_address_def script_address_def starts_with_def sha3_width_def)

lemma verify_input_complete:
  assumes "sha3_width cr" and "witness_ok w" and "parse_script (w_script w) = Inr n"
    and ev: "eval_script cr ctx w n (replicate (length (w_sigs w)) False, replicate (length (w_preimages w)) False) = (True, su, pu)"
    and "False \<notin> set su" and "False \<notin> set pu"
  shows "verify_input cr (script_address cr (w_script w)) (encode_witness w) ctx = Inr ()"
  using assms by (simp add: verify_input_def decode_encode_witness sh1_address)

text \<open>An accepted signature and its key are plain hexadecimal texts.\<close>

lemma hex_strict_chars: "is_hex_strict h n = Inr () \<Longrightarrow> list_all is_hex_char h"
  by (auto simp: is_hex_strict_def split: if_splits)

lemma hex_char_plain: "is_hex_char c \<Longrightarrow> c \<noteq> CHR '';'' \<and> c \<noteq> CHR '':''"
  by (auto simp: is_hex_char_def hex_val_def)

lemma verified_plain:
  assumes "verify_message_signature_hybrid_uncached cr pk m s"
  shows "CHR '':'' \<notin> set pk \<and> CHR '';'' \<notin> set pk \<and> CHR '';'' \<notin> set s"
proof -
  from assms obtain sz sz' where h: "is_hex_strict pk sz = Inr ()" "is_hex_strict (drop 3 s) sz' = Inr ()" "starts_with ''pq='' s"
    unfolding verify_message_signature_hybrid_uncached_def
    by (auto simp: Let_def split: if_splits option.splits)
  from h(3) have "take 3 s = ''pq=''" by (simp add: starts_with_def eval_nat_numeral)
  then have s: "set s = set ''pq='' \<union> set (drop 3 s)" by (metis append_take_drop_id set_append)
  have "\<forall>c\<in>set pk. is_hex_char c" "\<forall>c\<in>set (drop 3 s). is_hex_char c"
    using hex_strict_chars [OF h(1)] hex_strict_chars [OF h(2)] by (simp_all add: list_all_iff)
  then show ?thesis unfolding s using hex_char_plain by fastforce
qed

definition key_of :: "crypto \<Rightarrow> string \<Rightarrow> string \<Rightarrow> bool" where
  "key_of cr addr pk \<longleftrightarrow> address_binds_pubkey cr addr (infer_sig_scheme_from_pubkey_hex cr pk) pk = Inr ()"


lemma hex_atom_char: "is_hex_char c \<Longrightarrow> atom_char c"
  by (auto simp: is_hex_char_def hex_val_def atom_char_def Let_def split: if_splits)

lemma key_of_addr: "key_of cr a pk \<Longrightarrow> length a = 128 \<and> list_all atom_char a"
  by (auto simp: key_of_def address_binds_pubkey_def address_binds_pubkey_id_def list_all_iff hex_atom_char split: if_splits)

lemma key_matches_iff:
  "key_matches cr ctx a (pk, sg) \<longleftrightarrow> key_of cr a pk \<and> verify_message_signature_hybrid_uncached cr pk (ctx_sighash ctx) sg"
  by (simp add: key_matches_def key_of_def)

section \<open>Closing with the current commitment\<close>

lemma sighash_witness [simp]: "sighash cr (t\<lparr>inputs := (inputs t)[i := (inputs t ! i)\<lparr>witness := w\<rparr>]\<rparr>) = sighash cr t"
proof -
  have "map (\<lambda>i. previous_txid i @ '':'' @ to_string (output_index i) @ '';'') ((inputs t)[i := (inputs t ! i)\<lparr>witness := w\<rparr>])
    = map (\<lambda>i. previous_txid i @ '':'' @ to_string (output_index i) @ '';'') (inputs t)"
    by (cases "i < length (inputs t)") (auto simp: map_update list_update_same_conv list_update_beyond)
  then show ?thesis by (simp add: sighash_def hash_transaction_def tx_preimage_def del: append_assoc map_update)
qed


text \<open>The keys of a pair belong to the addresses of the channel.\<close>

definition owns :: "crypto \<Rightarrow> channel \<Rightarrow> channel \<Rightarrow> bool" where
  "owns cr p q \<longleftrightarrow> key_of cr (wk_address (ch_local p)) (wk_public_key (ch_local p)) \<and> ch_remote_pub q = wk_public_key (ch_local p)
     \<and> wk_address (ch_local p) = (if ch_is_a p then ci_addr_a (ch_info p) else ci_addr_b (ch_info p))"

definition keyed :: "crypto \<Rightarrow> channel \<Rightarrow> channel \<Rightarrow> bool" where
  "keyed cr p q \<longleftrightarrow> owns cr p q \<and> owns cr q p \<and> ci_addr_a (ch_info p) \<noteq> ci_addr_b (ch_info p)"


section \<open>Justice\<close>

lemma revocation_accepted:
  assumes w: "sha3_width cr" and ok: "script_ok n" and n: "n = Or (And (Pk a) (Sha3 rh)) rest" and small: "node_depth n \<le> kMaxDepth"
      "node_count n \<le> kMaxNodes" "length (show_script n) \<le> kMaxScriptBytes"
    and ka: "key_of cr a pk" and v: "verify_message_signature_hybrid_uncached cr pk (ctx_sighash ctx) sg"
    and sec: "hash_preimage_hex cr sec = rh" "script_is_lower_hex sec (2 * kMaxPreimageBytes)"
  shows "verify_input cr (script_address cr (show_script n))
     (encode_witness \<lparr>w_script = show_script n, w_sigs = [(pk, sg)], w_preimages = [sec]\<rparr>) ctx = Inr ()"
proof -
  let ?w = "\<lparr>w_script = show_script n, w_sigs = [(pk, sg)], w_preimages = [sec]\<rparr>"
  have p: "parse_script (w_script ?w) = Inr n" using ok small by (simp add: parse_script_iff)
  have wo: "witness_ok ?w"
    using verified_plain [OF v] show_no_semi [OF ok] sec(2) by (simp add: witness_ok_def kMaxSigs_def kMaxPreimages_def)
  have km: "key_matches cr ctx a (pk, sg)" using ka v by (simp add: key_matches_iff)
  define r where "r = eval_script cr ctx ?w rest ([True], [True])"
  have e: "eval_script cr ctx ?w n (replicate (length (w_sigs ?w)) False, replicate (length (w_preimages ?w)) False)
      = (True, fst (snd r), snd (snd r))"
    using km sec(1) by (simp add: n r_def case_prod_unfold)
  have l: "length (fst (snd r)) = 1" "length (snd (snd r)) = 1" "fst (snd r) ! 0" "snd (snd r) ! 0"
    using eval_used_keep(1,2) [of cr ctx ?w rest "([True], [True])"]
      eval_used_keep(3,4) [of 0 "([True], [True])" cr ctx ?w rest] by (simp_all add: r_def)
  then have "False \<notin> set (fst (snd r))" "False \<notin> set (snd (snd r))" by (auto simp: length_Suc_conv)
  from verify_input_complete [OF w wo p e this] show ?thesis by simp
qed

definition to_local_node :: "string \<Rightarrow> string \<Rightarrow> string \<Rightarrow> u64 \<Rightarrow> script_node" where
  "to_local_node holder other rh delay = Or (And (Pk other) (Sha3 rh)) (And (Pk holder) (Older delay))"

definition htlc_node :: "string \<Rightarrow> string \<Rightarrow> string \<Rightarrow> string \<Rightarrow> string \<Rightarrow> u64 \<Rightarrow> script_node" where
  "htlc_node revoker offerer receiver rh ph ex =
     Or (And (Pk revoker) (Sha3 rh)) (Or (And (Pk receiver) (Sha3 ph)) (And (Pk offerer) (After ex)))"

lemma script_texts:
  "to_local_script holder other rh delay = show_script (to_local_node holder other rh delay)"
  "htlc_script revoker offerer receiver rh ph ex = show_script (htlc_node revoker offerer receiver rh ph ex)"
  by (simp_all add: to_local_script_def htlc_script_def to_local_node_def htlc_node_def)

lemma length_number: "unat n < 10 ^ 12 \<Longrightarrow> length (to_string n) \<le> 12"
  by (rule number_ok(2))

lemma rev_secret_hex: "sha3_width cr \<Longrightarrow> script_is_lower_hex (rev_secret cr c k) (2 * kMaxPreimageBytes)"
proof -
  assume "sha3_width cr"
  then have l: "length (rev_secret cr c k) = 128" by (simp add: rev_secret_def sha3_width_def)
  then have "rev_secret cr c k \<noteq> []" by auto
  with l show ?thesis using to_hex_lower by (simp add: script_is_lower_hex_def kMaxPreimageBytes_def rev_secret_def)
qed

lemma rev_hash_lower: "sha3_width cr \<Longrightarrow> list_all is_lower_hex_char (rev_hash cr c k)"
  by (auto simp: rev_hash_def hash_preimage_hex_def to_hex_lower split: sum.splits)

lemma to_local_ok:
  assumes "length a = 128 \<and> list_all atom_char a" "length b = 128 \<and> list_all atom_char b"
    "length rh = 128" "list_all is_lower_hex_char rh" "unat d < 10 ^ 12"
  shows "script_ok (to_local_node a b rh d)" "node_depth (to_local_node a b rh d) \<le> kMaxDepth"
    "node_count (to_local_node a b rh d) \<le> kMaxNodes" "length (show_script (to_local_node a b rh d)) \<le> kMaxScriptBytes"
  using assms length_number [of d] by (auto simp: to_local_node_def kMaxDepth_def kMaxNodes_def kMaxScriptBytes_def)

lemma htlc_node_ok:
  assumes "length a = 128 \<and> list_all atom_char a" "length b = 128 \<and> list_all atom_char b" "length c = 128 \<and> list_all atom_char c"
    "length rh = 128" "list_all is_lower_hex_char rh" "length ph = 128" "list_all is_lower_hex_char ph" "unat d < 10 ^ 12"
  shows "script_ok (htlc_node a b c rh ph d)" "node_depth (htlc_node a b c rh ph d) \<le> kMaxDepth"
    "node_count (htlc_node a b c rh ph d) \<le> kMaxNodes" "length (show_script (htlc_node a b c rh ph d)) \<le> kMaxScriptBytes"
  using assms length_number [of d] by (auto simp: htlc_node_def kMaxDepth_def kMaxNodes_def kMaxScriptBytes_def)

subsection \<open>The claimed outputs\<close>

text \<open>\<open>claims b I X\<close> counts the claimed outputs of \<open>b\<close> with address \<open>X\<close>.\<close>

definition claims :: "transaction \<Rightarrow> nat set \<Rightarrow> string \<Rightarrow> nat" where
  "claims b I X = card {i \<in> I. recipient (outputs b ! i) = X}"

abbreviation idx :: "transaction \<Rightarrow> nat set" where
  "idx b \<equiv> {..<length (outputs b)}"

lemma claims_insert:
  "finite I \<Longrightarrow> i \<notin> I \<Longrightarrow> claims b (insert i I) X = claims b I X + (if recipient (outputs b ! i) = X then 1 else 0)"
proof -
  assume "finite I" "i \<notin> I"
  moreover have "{j \<in> insert i I. recipient (outputs b ! j) = X} =
      (if recipient (outputs b ! i) = X then insert i {j \<in> I. recipient (outputs b ! j) = X} else {j \<in> I. recipient (outputs b ! j) = X})"
    by auto
  ultimately show ?thesis by (simp add: claims_def)
qed

lemma claims_mono: "finite J \<Longrightarrow> I \<subseteq> J \<Longrightarrow> claims b I X \<le> claims b J X"
  unfolding claims_def by (rule card_mono) auto

lemma find_idx:
  "find P [0..<n] = Some i \<Longrightarrow> i < n \<and> P i" "find P [0..<n] = None \<Longrightarrow> i < n \<Longrightarrow> \<not> P i"
  by (auto simp: find_Some_iff find_None_iff)

text \<open>The address that an HTLC has in a commitment of the peer.\<close>

definition htlc_addr :: "crypto \<Rightarrow> channel \<Rightarrow> string \<Rightarrow> htlc \<Rightarrow> string" where
  "htlc_addr cr c rh h = script_address cr (htlc_script (wk_address (ch_local c)) (offerer_of (ch_info c) h)
     (receiver_of (ch_info c) h) rh (h_payment_hash h) (h_expiry h))"

definition outs_ok :: "crypto \<Rightarrow> transaction \<Rightarrow> (nat \<times> string) list \<Rightarrow> bool" where
  "outs_ok cr b outs \<longleftrightarrow> distinct (map fst outs) \<and> fst ` set outs \<subseteq> idx b
     \<and> (\<forall>(v, s)\<in>set outs. recipient (outputs b ! v) = script_address cr s)"

lemma claim_htlc_step:
  assumes "outs_ok cr b outs"
  shows "outs_ok cr b (claim_htlc cr c rh b outs h)"
    and "min (claims b (idx b) X) (claims b (fst ` set outs) X + (if htlc_addr cr c rh h = X then 1 else 0))
      \<le> claims b (fst ` set (claim_htlc cr c rh b outs h)) X"
proof -
  let ?P = "\<lambda>i. i \<notin> fst ` set outs \<and> recipient (outputs b ! i) = htlc_addr cr c rh h"
  have sub: "fst ` set outs \<subseteq> idx b" using assms by (simp add: outs_ok_def)
  show "outs_ok cr b (claim_htlc cr c rh b outs h)"
  proof (cases "find ?P [0..<length (outputs b)]")
    case (Some i)
    from find_idx(1) [OF this] assms Some show ?thesis
      by (auto simp: claim_htlc_def Let_def htlc_addr_def outs_ok_def)
  qed (use assms in \<open>simp add: claim_htlc_def Let_def htlc_addr_def\<close>)
  show "min (claims b (idx b) X) (claims b (fst ` set outs) X + (if htlc_addr cr c rh h = X then 1 else 0))
      \<le> claims b (fst ` set (claim_htlc cr c rh b outs h)) X"
  proof (cases "find ?P [0..<length (outputs b)]")
    case None
    have "claims b (idx b) X \<le> claims b (fst ` set outs) X" if "htlc_addr cr c rh h = X"
      unfolding claims_def using find_idx(2) [OF None] that sub
      by (intro card_mono) auto
    with None show ?thesis by (auto simp: claim_htlc_def Let_def htlc_addr_def)
  next
    case (Some i)
    from find_idx(1) [OF this] Some show ?thesis
      by (simp add: claim_htlc_def Let_def htlc_addr_def claims_insert)
  qed
qed

lemma claim_all:
  assumes "outs_ok cr b outs"
  shows "outs_ok cr b (foldl (claim_htlc cr c rh b) outs hs)"
    and "min (claims b (idx b) X) (claims b (fst ` set outs) X + length (filter (\<lambda>h. htlc_addr cr c rh h = X) hs))
      \<le> claims b (fst ` set (foldl (claim_htlc cr c rh b) outs hs)) X"
  using assms
proof (induction hs arbitrary: outs)
  case (Cons h hs)
  {
    case 1
    with Cons.IH(1) claim_htlc_step(1) show ?case by simp
  next
    case 2
    from Cons.IH(2) [OF claim_htlc_step(1) [OF 2, of c rh h]] claim_htlc_step(2) [OF 2, of X c rh h]
    show ?case by (auto simp: min_def split: if_splits)
  }
qed (auto simp: claims_mono outs_ok_def)

lemma claims_full: "I \<subseteq> idx b \<Longrightarrow> claims b (idx b) X \<le> claims b I X \<Longrightarrow> i < length (outputs b) \<Longrightarrow> recipient (outputs b ! i) = X \<Longrightarrow> i \<in> I"
proof -
  assume I: "I \<subseteq> idx b" and le: "claims b (idx b) X \<le> claims b I X" and i: "i < length (outputs b)" "recipient (outputs b ! i) = X"
  have "{j \<in> I. recipient (outputs b ! j) = X} = {j \<in> idx b. recipient (outputs b ! j) = X}"
    by (rule card_seteq) (use I le in \<open>auto simp: claims_def\<close>)
  with i show "i \<in> I" by blast
qed

definition tx_out_total :: "transaction \<Rightarrow> nat" where
  "tx_out_total t = sum_list (map (\<lambda>x. unat (amount x)) (outputs t))"

lemma word_neq_0_unat: "(x :: u64) = 0 \<longleftrightarrow> unat x = 0"
  by (simp add: unat_eq_0)

text \<open>A commitment spends the whole capacity: its outputs and the fee.\<close>

lemma commitment_value:
  assumes "conserves ci s" and "ci_fee ci \<le> cs_bal_a s"
  shows "tx_out_total (commitment_tx cr ci ha s rh) + unat (ci_fee ci) = unat (ci_capacity ci)"
proof -
  have "unat (cs_bal_a s - ci_fee ci) = unat (cs_bal_a s) - unat (ci_fee ci)" "unat (ci_fee ci) \<le> unat (cs_bal_a s)"
    using assms(2) by (simp_all add: unat_sub word_le_nat_alt)
  then show ?thesis
    using assms(1) by (auto simp: tx_out_total_def commitment_tx_def Let_def conserves_def htlc_total_def comp_def)
qed

definition scripts_ok :: "ch_info \<Rightarrow> ch_state \<Rightarrow> bool" where
  "scripts_ok ci s \<longleftrightarrow> unat (ci_to_self_delay ci) < 10 ^ 12
     \<and> list_all (\<lambda>h. length (h_payment_hash h) = 128 \<and> list_all is_lower_hex_char (h_payment_hash h) \<and> unat (h_expiry h) < 10 ^ 12) (cs_htlcs s)"

text \<open>The value a justice transaction can claim: all outputs that do not pay \<open>a\<close> anyway.\<close>

definition claimable :: "transaction \<Rightarrow> string \<Rightarrow> nat" where
  "claimable b a = sum_list (map (\<lambda>x. unat (amount x)) (filter (\<lambda>x. recipient x \<noteq> a) (outputs b)))"

lemma sum_list_filter_idx:
  "sum_list (map f (filter P xs)) = (\<Sum>i\<in>{i. i < length xs \<and> P (xs ! i)}. (f (xs ! i) :: nat))"
proof -
  have "sum_list (map f (filter P xs)) = sum_list (map (\<lambda>x. if P x then f x else 0) xs)"
    by (rule sum_list_map_filter')
  also have "\<dots> = (\<Sum>i<length xs. if P (xs ! i) then f (xs ! i) else 0)"
    by (simp add: sum_list_sum_nth atLeast0LessThan)
  also have "\<dots> = (\<Sum>i\<in>{i \<in> {..<length xs}. P (xs ! i)}. f (xs ! i))"
    by (subst sum.inter_filter) simp_all
  finally show ?thesis by (simp add: lessThan_def)
qed

lemma foldl_word_sum:
  "foldl (\<lambda>t (v, s). t + g v) a outs = a + (of_nat (sum_list (map (\<lambda>(v, s). unat (g v :: u64)) outs)) :: u64)"
  by (induction outs arbitrary: a) (auto simp: algebra_simps)

lemma claim_sum:
  assumes "outs_ok cr b outs" and "fst ` set outs = {i. i < length (outputs b) \<and> recipient (outputs b ! i) \<noteq> a}"
  shows "foldl (\<lambda>t (v, s). t + amount (outputs b ! v)) 0 outs = of_nat (claimable b a)"
proof -
  have "sum_list (map (\<lambda>(v, s). unat (amount (outputs b ! v))) outs) = sum_list (map (\<lambda>v. unat (amount (outputs b ! v))) (map fst outs))"
    by (simp add: comp_def case_prod_unfold)
  also have "\<dots> = (\<Sum>v\<in>fst ` set outs. unat (amount (outputs b ! v)))"
    using assms(1) by (subst sum_list_distinct_conv_sum_set) (auto simp: outs_ok_def)
  also have "\<dots> = claimable b a" unfolding claimable_def sum_list_filter_idx assms(2) by simp
  finally show ?thesis by (simp add: foldl_word_sum)
qed

lemma claimable_le: "claimable b a \<le> tx_out_total b"
proof -
  have "sum_list (map (\<lambda>x. unat (amount x)) (filter P xs)) \<le> sum_list (map (\<lambda>x. unat (amount x)) xs)" for P xs
    by (induction xs) auto
  then show ?thesis by (simp add: claimable_def tx_out_total_def)
qed

text \<open>The outputs of the peer's commitment, named by the endpoint that punishes.\<close>

lemma peer_commitment_outputs:
  assumes lk: "linked cr og p q" and ow: "owns cr p q"
  shows "\<exists>u v. outputs (my_commitment cr q s) =
     (if u \<noteq> 0 then [\<lparr>recipient = script_address cr (to_local_script (remote_address p) (wk_address (ch_local p))
         (rev_hash cr q (cs_n s)) (ci_to_self_delay (ch_info p))), amount = u\<rparr>] else [])
     @ (if v \<noteq> 0 then [\<lparr>recipient = wk_address (ch_local p), amount = v\<rparr>] else [])
     @ map (\<lambda>h. \<lparr>recipient = htlc_addr cr p (rev_hash cr q (cs_n s)) h, amount = h_amount h\<rparr>) (cs_htlcs s)"
proof -
  have ci: "ch_info q = ch_info p" "ch_is_a q = (\<not> ch_is_a p)" using lk by (auto simp: linked_def)
  have wa: "wk_address (ch_local p) = (if ch_is_a p then ci_addr_a (ch_info p) else ci_addr_b (ch_info p))"
    using ow by (simp add: owns_def)
  have "outputs (my_commitment cr q s) =
     (if u \<noteq> 0 then [\<lparr>recipient = script_address cr (to_local_script (remote_address p) (wk_address (ch_local p))
         (rev_hash cr q (cs_n s)) (ci_to_self_delay (ch_info p))), amount = u\<rparr>] else [])
     @ (if v \<noteq> 0 then [\<lparr>recipient = wk_address (ch_local p), amount = v\<rparr>] else [])
     @ map (\<lambda>h. \<lparr>recipient = htlc_addr cr p (rev_hash cr q (cs_n s)) h, amount = h_amount h\<rparr>) (cs_htlcs s)"
    if "u = (if ch_is_a p then cs_bal_b s else cs_bal_a s - ci_fee (ch_info p))"
      "v = (if ch_is_a p then cs_bal_a s - ci_fee (ch_info p) else cs_bal_b s)" for u v
    unfolding that my_commitment_def commitment_tx_def Let_def ci wa htlc_addr_def remote_address_def
    by (cases "ch_is_a p") simp_all
  then show ?thesis by blast
qed

lemma length_script_address: "sha3_width cr \<Longrightarrow> length (script_address cr x) = 131"
  by (simp add: script_address_def sha3_width_def)

lemma claims_filter: "claims b (idx b) X = length (filter (\<lambda>x. recipient x = X) (outputs b))"
  by (simp add: claims_def length_filter_conv_card)

lemma penalty_outs_exact:
  assumes lk: "linked cr og p q" and ow: "owns cr p q" and out: "outputs b = outputs (my_commitment cr q s)"
    and rh: "rh = rev_hash cr q (cs_n s)"
  shows "outs_ok cr b (penalty_outs cr p rh b s)"
    and "fst ` set (penalty_outs cr p rh b s) = {i. i < length (outputs b) \<and> recipient (outputs b ! i) \<noteq> wk_address (ch_local p)}"
proof -
  let ?T = "to_local_script (remote_address p) (wk_address (ch_local p)) rh (ci_to_self_delay (ch_info p))"
  let ?o0 = "case find_output cr b ?T of None \<Rightarrow> [] | Some x \<Rightarrow> [x]"
  have w: "sha3_width cr" using lk by (simp add: linked_def)
  have la: "length (wk_address (ch_local p)) = 128" using ow key_of_addr unfolding owns_def by blast
  obtain u v where ob: "outputs b = (if u \<noteq> 0 then [\<lparr>recipient = script_address cr ?T, amount = u\<rparr>] else [])
     @ (if v \<noteq> 0 then [\<lparr>recipient = wk_address (ch_local p), amount = v\<rparr>] else [])
     @ map (\<lambda>h. \<lparr>recipient = htlc_addr cr p rh h, amount = h_amount h\<rparr>) (cs_htlcs s)"
    using peer_commitment_outputs [OF lk ow, of s] unfolding out rh by blast
  have o0: "outs_ok cr b ?o0"
    by (cases "find_output cr b ?T") (auto simp: outs_ok_def find_output_def split: option.splits dest!: find_idx(1))
  have T: "1 \<le> claims b (fst ` set ?o0) (script_address cr ?T)" if "u \<noteq> 0"
  proof (cases "find (\<lambda>i. recipient (outputs b ! i) = script_address cr ?T) [0..<length (outputs b)]")
    case None
    have "0 < length (outputs b)" "recipient (outputs b ! 0) = script_address cr ?T" using that ob by simp_all
    with find_idx(2) [OF None, of 0] show ?thesis by blast
  next
    case (Some i)
    then have "claims b (fst ` set ?o0) (script_address cr ?T) = claims b {i} (script_address cr ?T)" by (simp add: find_output_def)
    also have "\<dots> = 1" using find_idx(1) [OF Some] by (simp add: claims_insert claims_def [of _ "{}"])
    finally show ?thesis by simp
  qed
  show ok: "outs_ok cr b (penalty_outs cr p rh b s)"
    unfolding penalty_outs_def by (rule claim_all(1) [OF o0])
  have full: "claims b (idx b) X \<le> claims b (fst ` set (penalty_outs cr p rh b s)) X" if X: "X \<noteq> wk_address (ch_local p)" for X
  proof -
    have "claims b (idx b) X = length (filter (\<lambda>x. recipient x = X) (outputs b))" by (rule claims_filter)
    also have "\<dots> \<le> (if u \<noteq> 0 \<and> script_address cr ?T = X then 1 else 0)
        + length (filter (\<lambda>h. htlc_addr cr p rh h = X) (cs_htlcs s))"
      using X unfolding ob by (auto simp: filter_map comp_def)
    also have "\<dots> \<le> claims b (fst ` set ?o0) X + length (filter (\<lambda>h. htlc_addr cr p rh h = X) (cs_htlcs s))"
      using T by auto
    finally show ?thesis
      using claim_all(2) [OF o0, of X p rh "cs_htlcs s"] unfolding penalty_outs_def by (simp add: min_absorb1)
  qed
  show "fst ` set (penalty_outs cr p rh b s) = {i. i < length (outputs b) \<and> recipient (outputs b ! i) \<noteq> wk_address (ch_local p)}"
  proof (intro set_eqI iffI)
    fix i assume "i \<in> fst ` set (penalty_outs cr p rh b s)"
    then obtain x where "i < length (outputs b)" "recipient (outputs b ! i) = script_address cr x"
      using ok unfolding outs_ok_def by fastforce
    then show "i \<in> {i. i < length (outputs b) \<and> recipient (outputs b ! i) \<noteq> wk_address (ch_local p)}"
      using length_script_address [OF w, of x] la by auto
  next
    fix i assume "i \<in> {i. i < length (outputs b) \<and> recipient (outputs b ! i) \<noteq> wk_address (ch_local p)}"
    then have i: "i < length (outputs b)" "recipient (outputs b ! i) \<noteq> wk_address (ch_local p)" by simp_all
    have "fst ` set (penalty_outs cr p rh b s) \<subseteq> idx b" using ok by (simp add: outs_ok_def)
    from claims_full [OF this full [OF i(2)] i(1)] show "i \<in> fst ` set (penalty_outs cr p rh b s)" by simp
  qed
qed

subsection \<open>The justice transaction is accepted\<close>

lemma penalty_outs_scripts:
  "(v, x) \<in> set (penalty_outs cr c rh b s) \<Longrightarrow>
     x = to_local_script (remote_address c) (wk_address (ch_local c)) rh (ci_to_self_delay (ch_info c))
     \<or> (\<exists>h\<in>set (cs_htlcs s). x = htlc_script (wk_address (ch_local c)) (offerer_of (ch_info c) h) (receiver_of (ch_info c) h) rh
          (h_payment_hash h) (h_expiry h))"
proof -
  have step: "(v, x) \<in> set (foldl (claim_htlc cr c rh b) outs hs) \<Longrightarrow> (v, x) \<in> set outs \<or> (\<exists>h\<in>set hs. x =
      htlc_script (wk_address (ch_local c)) (offerer_of (ch_info c) h) (receiver_of (ch_info c) h) rh (h_payment_hash h) (h_expiry h))" for outs hs
  proof (induction hs arbitrary: outs)
    case (Cons h hs)
    have "(v, x) \<in> set outs \<or> x = htlc_script (wk_address (ch_local c)) (offerer_of (ch_info c) h) (receiver_of (ch_info c) h) rh
        (h_payment_hash h) (h_expiry h)" if "(v, x) \<in> set (claim_htlc cr c rh b outs h)"
      using that by (auto simp: claim_htlc_def Let_def split: option.splits)
    with Cons show ?case by auto
  qed simp
  assume "(v, x) \<in> set (penalty_outs cr c rh b s)"
  from step [OF this [unfolded penalty_outs_def]] show ?thesis
    by (auto simp: find_output_def split: option.splits)
qed

lemma owns_addr: "owns cr p q \<Longrightarrow> length (wk_address (ch_local p)) = 128 \<and> list_all atom_char (wk_address (ch_local p))"
  unfolding owns_def using key_of_addr by blast

lemma channel_addrs:
  assumes "linked cr og p q" and "keyed cr p q"
  shows "length (ci_addr_a (ch_info p)) = 128 \<and> list_all atom_char (ci_addr_a (ch_info p))"
    and "length (ci_addr_b (ch_info p)) = 128 \<and> list_all atom_char (ci_addr_b (ch_info p))"
proof -
  have "ch_info q = ch_info p" "ch_is_a q = (\<not> ch_is_a p)" using assms(1) by (auto simp: linked_def)
  then show "length (ci_addr_a (ch_info p)) = 128 \<and> list_all atom_char (ci_addr_a (ch_info p))"
    "length (ci_addr_b (ch_info p)) = 128 \<and> list_all atom_char (ci_addr_b (ch_info p))"
    using owns_addr [of cr p q] owns_addr [of cr q p] assms(2) by (auto simp: keyed_def owns_def split: if_splits)
qed

lemma penalty_input_accepted:
  assumes lk: "linked cr og p q" and ke: "keyed cr p q" and so: "scripts_ok (ch_info p) s"
    and mem: "(v, x) \<in> set (penalty_outs cr p (rev_hash cr q (cs_n s)) b s)"
    and sg: "verify_message_signature_hybrid_uncached cr (wk_public_key (ch_local p)) (ctx_sighash ctx) sg"
  shows "verify_input cr (script_address cr x)
     (encode_witness \<lparr>w_script = x, w_sigs = [(wk_public_key (ch_local p), sg)], w_preimages = [rev_secret cr q (cs_n s)]\<rparr>) ctx = Inr ()"
proof -
  let ?rh = "rev_hash cr q (cs_n s)"
  have w: "sha3_width cr" using lk by (simp add: linked_def)
  have rh: "length ?rh = 128" "list_all is_lower_hex_char ?rh" "hash_preimage_hex cr (rev_secret cr q (cs_n s)) = ?rh"
    using length_rev_hash [OF w] rev_hash_lower [OF w] by (simp_all add: rev_hash_def)
  note sec = rev_secret_hex [OF w]
  have own: "owns cr p q" using ke by (simp add: keyed_def)
  then have ka: "key_of cr (wk_address (ch_local p)) (wk_public_key (ch_local p))" unfolding owns_def by blast
  note A = channel_addrs [OF lk ke] owns_addr [OF own]
  have parties: "length (offerer_of (ch_info p) h) = 128 \<and> list_all atom_char (offerer_of (ch_info p) h)"
      "length (receiver_of (ch_info p) h) = 128 \<and> list_all atom_char (receiver_of (ch_info p) h)"
      "length (remote_address p) = 128 \<and> list_all atom_char (remote_address p)" for h
    using A by (auto simp: offerer_of_def receiver_of_def remote_address_def)
  from penalty_outs_scripts [OF mem] show ?thesis
  proof (elim disjE bexE)
    assume x: "x = to_local_script (remote_address p) (wk_address (ch_local p)) ?rh (ci_to_self_delay (ch_info p))"
    note ok = to_local_ok [OF parties(3) A(3) rh(1,2), of "ci_to_self_delay (ch_info p)"]
    show ?thesis unfolding x script_texts
      by (rule revocation_accepted [OF w _ to_local_node_def _ _ _ ka sg rh(3) sec]) (use ok so in \<open>simp_all add: scripts_ok_def\<close>)
  next
    fix h assume h: "h \<in> set (cs_htlcs s)" and x: "x = htlc_script (wk_address (ch_local p)) (offerer_of (ch_info p) h)
      (receiver_of (ch_info p) h) ?rh (h_payment_hash h) (h_expiry h)"
    have hh: "length (h_payment_hash h) = 128" "list_all is_lower_hex_char (h_payment_hash h)" "unat (h_expiry h) < 10 ^ 12"
      using so h by (auto simp: scripts_ok_def list_all_iff)
    note ok = htlc_node_ok [OF A(3) parties(1,2) rh(1,2) hh]
    show ?thesis unfolding x script_texts
      by (rule revocation_accepted [OF w ok(1) htlc_node_def ok(2-4) ka sg rh(3) sec])
  qed
qed

lemma sighash_inputs:
  "map previous_txid (inputs t) = map previous_txid ins \<Longrightarrow> map output_index (inputs t) = map output_index ins \<Longrightarrow>
     sighash cr (t\<lparr>inputs := ins\<rparr>) = sighash cr t"
proof -
  assume "map previous_txid (inputs t) = map previous_txid ins" "map output_index (inputs t) = map output_index ins"
  then have "map (\<lambda>i. (previous_txid i, output_index i)) ins = map (\<lambda>i. (previous_txid i, output_index i)) (inputs t)"
    by (simp add: list_eq_iff_nth_eq)
  then have "map (\<lambda>(a, b). a @ '':'' @ to_string b @ '';'') (map (\<lambda>i. (previous_txid i, output_index i)) ins)
    = map (\<lambda>(a, b). a @ '':'' @ to_string b @ '';'') (map (\<lambda>i. (previous_txid i, output_index i)) (inputs t))" by simp
  then show ?thesis by (simp add: sighash_def hash_transaction_def tx_preimage_def comp_def)
qed

lemma penalty_candidates_history: "map_of (ch_history c) n = Some s \<Longrightarrow> \<exists>r. penalty_candidates c n = s # r"
  by (simp add: penalty_candidates_def)

lemma map_zip_self: "map h (zip (map g xs) xs) = map (\<lambda>x. h (g x, x)) xs"
  by (induction xs) auto

text \<open>A revoked commitment of the peer, with whatever witness it was broadcast.\<close>

definition revoked_by :: "crypto \<Rightarrow> channel \<Rightarrow> channel \<Rightarrow> ch_state \<Rightarrow> transaction \<Rightarrow> bool" where
  "revoked_by cr p q s b \<longleftrightarrow> cs_n s < cs_n (ch_cur p) \<and> map_of (ch_history p) (cs_n s) = Some s
     \<and> outputs b = outputs (my_commitment cr q s) \<and> nonce b = cs_n s
     \<and> hash_transaction cr b = hash_transaction cr (my_commitment cr q s)"

lemma revoked_outputs_few:
  assumes lk: "linked cr og p q" and ow: "owns cr p q" and rv: "revoked_by cr p q s b"
  shows "length (outputs b) \<le> 18"
proof -
  have v: "valid_state (ch_info p) s" using lk rv unfolding linked_def knows_def revoked_by_def by fastforce
  obtain u v where "length (outputs b) = (if u \<noteq> (0::u64) then 1 else 0) + (if v \<noteq> (0::u64) then 1 else 0) + length (cs_htlcs s)"
    using peer_commitment_outputs [OF lk ow, of s] rv unfolding revoked_by_def by fastforce
  with v show ?thesis by (auto simp: valid_state_def split: if_splits)
qed

lemma penalty_found:
  assumes lk: "linked cr og p q" and rv: "revoked_by cr p q s b"
  shows "map_of (ch_remote_secrets p) (nonce b) = Some (rev_secret cr q (cs_n s))"
    and "remote_hash p (nonce b) = Some (rev_hash cr q (cs_n s))"
    and "find (\<lambda>s'. hash_transaction cr (commitment_tx cr (ch_info p) (\<not> ch_is_a p) s' (rev_hash cr q (cs_n s))) = hash_transaction cr b)
           (penalty_candidates p (nonce b)) = Some s"
proof -
  have k: "cs_n s < cs_n (ch_cur p)" "nonce b = cs_n s" using rv by (simp_all add: revoked_by_def)
  then show "map_of (ch_remote_secrets p) (nonce b) = Some (rev_secret cr q (cs_n s))" using lk by (simp add: linked_def knows_def)
  show rh: "remote_hash p (nonce b) = Some (rev_hash cr q (cs_n s))" using lk k by (simp add: linked_def knows_def)
  obtain r where c: "penalty_candidates p (nonce b) = s # r"
    using penalty_candidates_history [of p "cs_n s" s] rv by (auto simp: revoked_by_def)
  have "commitment_tx cr (ch_info p) (\<not> ch_is_a p) s (rev_hash cr q (cs_n s)) = my_commitment cr q s"
    using lk by (auto simp: linked_def my_commitment_def)
  then show "find (\<lambda>s'. hash_transaction cr (commitment_tx cr (ch_info p) (\<not> ch_is_a p) s' (rev_hash cr q (cs_n s))) = hash_transaction cr b)
           (penalty_candidates p (nonce b)) = Some s"
    using rv unfolding c by (simp add: revoked_by_def)
qed

lemma penalty_for_revoked:
  assumes lk: "linked cr og p q" and ke: "keyed cr p q" and rv: "revoked_by cr p q s b"
    and co: "conserves (ch_info p) s" and so: "scripts_ok (ch_info p) s"
    and cl: "unat (ci_fee (ch_info p)) < claimable b (wk_address (ch_local p))"
  shows "\<exists>t. penalty_for cr og p b = Inr (Some t)
     \<and> outputs t = [\<lparr>recipient = wk_address (ch_local p), amount = of_nat (claimable b (wk_address (ch_local p)) - unat (ci_fee (ch_info p)))\<rparr>]
     \<and> fee t = ci_fee (ch_info p) \<and> distinct (map output_index (inputs t))
     \<and> (unat \<circ> output_index) ` set (inputs t) = {i. i < length (outputs b) \<and> recipient (outputs b ! i) \<noteq> wk_address (ch_local p)}
     \<and> (\<forall>i\<in>set (inputs t). previous_txid i = hash_transaction cr b
          \<and> (\<forall>ctx. ctx_sighash ctx = sighash cr t \<longrightarrow>
               verify_input cr (recipient (outputs b ! unat (output_index i))) (witness i) ctx = Inr ()))"
proof -
  define outs where "outs = penalty_outs cr p (rev_hash cr q (cs_n s)) b s"
  let ?a = "wk_address (ch_local p)" and ?ci = "ch_info p"
  have ow: "owns cr p q" and rp: "ch_remote_pub q = wk_public_key (ch_local p)" using ke unfolding keyed_def owns_def by blast+
  have ob: "outputs b = outputs (my_commitment cr q s)" using rv by (simp add: revoked_by_def)
  note ex = penalty_outs_exact [OF lk ow ob refl, folded outs_def]
  have sum: "foldl (\<lambda>t (v, s). t + amount (outputs b ! v)) 0 outs = of_nat (claimable b ?a)"
    by (rule claim_sum [OF ex])
  have fe: "ci_fee ?ci \<le> cs_bal_a s"
    using lk rv unfolding linked_def knows_def revoked_by_def valid_state_def by fastforce
  have "tx_out_total b + unat (ci_fee ?ci) = unat (ci_capacity ?ci)"
    using commitment_value [OF co fe] lk ob by (simp add: tx_out_total_def my_commitment_def linked_def)
  then have "claimable b ?a < 18446744073709551616"
    using claimable_le [of b ?a] unat_u64_bound [of "ci_capacity ?ci"] by linarith
  then have uc: "unat (of_nat (claimable b ?a) :: u64) = claimable b ?a" by (rule unat_of_nat_u64)
  have big: "\<not> (of_nat (claimable b ?a) :: u64) \<le> ci_fee ?ci" using cl uc by (simp add: word_le_nat_alt)
  have ne: "outs \<noteq> []" using sum cl uc by auto
  have small: "v < 4294967296" if "v \<in> fst ` set outs" for v
    using that revoked_outputs_few [OF lk ow rv] unfolding ex(2) by simp
  define t where "t = penalty_tx cr p b outs (of_nat (claimable b ?a))"
  obtain sg where sg: "sign_message_hybrid cr og (wk_private_key (ch_local p)) (sighash cr t) = Inr sg"
      "verify_message_signature_hybrid_uncached cr (wk_public_key (ch_local p)) (sighash cr t) sg"
    using lk rp unfolding linked_def signs_def by metis
  define wit where "wit x = encode_witness \<lparr>w_script = x, w_sigs = [(wk_public_key (ch_local p), sg)], w_preimages = [rev_secret cr q (cs_n s)]\<rparr>" for x
  define ins where "ins = map (\<lambda>(v, x). \<lparr>previous_txid = hash_transaction cr b, output_index = of_nat v, witness = wit x\<rparr>) outs"
  have it: "map2 (\<lambda>i (v, x). i\<lparr>witness := wit x\<rparr>) (inputs t) outs = ins"
    by (simp add: t_def penalty_tx_def ins_def map_zip_self case_prod_unfold)
  have res: "penalty_for cr og p b = Inr (Some (t\<lparr>inputs := ins\<rparr>))"
    using ne big sg(1) it [unfolded wit_def] penalty_found [OF lk rv]
    by (simp add: penalty_for_def Let_def outs_def [symmetric] sum t_def [symmetric] script_sign_def)
  have sh: "sighash cr (t\<lparr>inputs := ins\<rparr>) = sighash cr t"
    by (rule sighash_inputs) (simp_all add: t_def penalty_tx_def ins_def comp_def case_prod_unfold)
  have un: "unat (of_nat v :: u32) = v" if "v \<in> fst ` set outs" for v using small [OF that] by (simp add: unat_of_nat)
  have "distinct (map output_index ins)"
  proof -
    have "distinct (map (of_nat :: nat \<Rightarrow> u32) (map fst outs))"
      unfolding distinct_map [of _ "map fst outs"] using ex(1) un by (auto simp: outs_ok_def intro!: inj_on_inverseI [of _ unat])
    then show ?thesis by (simp add: ins_def comp_def case_prod_unfold)
  qed
  moreover have "(unat \<circ> output_index) ` set ins = fst ` set outs"
    using un by (force simp: ins_def image_image case_prod_unfold)
  moreover have "previous_txid i = hash_transaction cr b
          \<and> (\<forall>ctx. ctx_sighash ctx = sighash cr t \<longrightarrow> verify_input cr (recipient (outputs b ! unat (output_index i))) (witness i) ctx = Inr ())"
    if i: "i \<in> set ins" for i
  proof -
    from i obtain v x where vx: "(v, x) \<in> set outs"
        "i = \<lparr>previous_txid = hash_transaction cr b, output_index = of_nat v, witness = wit x\<rparr>"
      by (auto simp: ins_def)
    have "recipient (outputs b ! v) = script_address cr x" "unat (of_nat v :: u32) = v"
      using vx(1) ex(1) un [of v] by (force simp: outs_ok_def)+
    then show ?thesis
      using penalty_input_accepted [OF lk ke so vx(1) [unfolded outs_def], of _ sg] sg(2) vx(2) by (simp add: wit_def)
  qed
  moreover have "outputs t = [\<lparr>recipient = ?a, amount = of_nat (claimable b ?a - unat (ci_fee ?ci))\<rparr>]" "fee t = ci_fee ?ci"
    using cl by (simp_all add: t_def penalty_tx_def of_nat_diff)
  ultimately show ?thesis using res sh ex(2) by (intro exI [of _ "t\<lparr>inputs := ins\<rparr>"]) simp
qed

section \<open>Runs of a channel\<close>

definition wallet_ok :: "crypto \<Rightarrow> oqs_signer \<Rightarrow> wallet_keys \<Rightarrow> bool" where
  "wallet_ok cr og w \<longleftrightarrow> key_of cr (wk_address w) (wk_public_key w) \<and> signs cr og (wk_private_key w) (wk_public_key w)"

text \<open>
  The operations of the endpoint \<open>p\<close> on the channel with \<open>q\<close>. The amounts are such that the sum of amount
  and fee reserve in the code does not wrap around.
\<close>

inductive ch_op :: "crypto \<Rightarrow> oqs_signer \<Rightarrow> channel \<Rightarrow> channel \<Rightarrow> channel \<times> channel \<Rightarrow> bool" for cr og p q where
  op_pay: "unat amt + unat (ch_reserve p) < 2 ^ 64 \<Longrightarrow> ch_op cr og p q (snd (pay cr og p q amt))"
| op_add: "unat amt + unat (ch_reserve p) < 2 ^ 64 \<Longrightarrow> ch_op cr og p q (snd (add_htlc cr og p q amt ph ex))"
| op_settle: "ch_op cr og p q (snd (settle_htlc cr og p q hid preimage))"
| op_fail: "ch_op cr og p q (snd (fail_htlc cr og p q hid))"

text \<open>A run: an opened channel followed by operations of either side, within the range of the state counter.\<close>

inductive channel_run :: "crypto \<Rightarrow> oqs_signer \<Rightarrow> channel \<Rightarrow> channel \<Rightarrow> bool" for cr og where
  run_open: "\<lbrakk>open_channel cr og chain order ra rb wa wb cap push = Inr (a, b, txs); wallet_ok cr og wa; wallet_ok cr og wb;
     wk_address wa \<noteq> wk_address wb\<rbrakk> \<Longrightarrow> channel_run cr og a b"
| run_left: "\<lbrakk>channel_run cr og a b; unat (cs_n (ch_cur a)) + 3 < 2 ^ 64; ch_op cr og a b (a', b')\<rbrakk> \<Longrightarrow> channel_run cr og a' b'"
| run_right: "\<lbrakk>channel_run cr og a b; unat (cs_n (ch_cur a)) + 3 < 2 ^ 64; ch_op cr og b a (b', a')\<rbrakk> \<Longrightarrow> channel_run cr og a' b'"

lemma step_ok_refl: "step_ok cr og p q (p, q)" by (simp add: step_ok_def)

lemma ch_op_step_ok:
  assumes "ch_op cr og p q x" and lk: "linked cr og p q" and n: "unat (cs_n (ch_cur p)) + 3 < 2 ^ 64" and c: "conserves (ch_info p) (ch_cur p)"
  shows "step_ok cr og p q x"
  using assms(1)
proof cases
  case (op_settle hid preimage)
  then show ?thesis using remove_htlc_step_ok [OF lk n c] step_ok_refl by (auto simp: settle_htlc_def)
next
  case (op_fail hid)
  then show ?thesis using remove_htlc_step_ok [OF lk n c] by (simp add: fail_htlc_def)
qed (use pay_step_ok [OF lk n c] add_htlc_step_ok [OF lk n c] in auto)

text \<open>The invariant of a run; the keys of the endpoints never change.\<close>

lemma update_frame:
  assumes "linked cr og p q" and "unat (cs_n (ch_cur p)) + 3 < 2 ^ 64"
  shows "ch_local (fst (snd (update cr og p q s))) = ch_local p \<and> ch_remote_pub (fst (snd (update cr og p q s))) = ch_remote_pub p
    \<and> ch_is_a (fst (snd (update cr og p q s))) = ch_is_a p \<and> ch_info (fst (snd (update cr og p q s))) = ch_info p
    \<and> ch_local (snd (snd (update cr og p q s))) = ch_local q \<and> ch_remote_pub (snd (snd (update cr og p q s))) = ch_remote_pub q
    \<and> ch_is_a (snd (snd (update cr og p q s))) = ch_is_a q \<and> ch_info (snd (snd (update cr og p q s))) = ch_info q"
proof (cases "validate_next p s")
  case (Inr u)
  then have "validate_next p s = Inr ()" by simp
  from update_completes [OF assms(1) this assms(2)] show ?thesis by auto
qed (simp add: update_def)

lemma keyed_cong:
  "\<lbrakk>ch_local p' = ch_local p; ch_remote_pub p' = ch_remote_pub p; ch_is_a p' = ch_is_a p; ch_info p' = ch_info p;
     ch_local q' = ch_local q; ch_remote_pub q' = ch_remote_pub q; ch_is_a q' = ch_is_a q; ch_info q' = ch_info q\<rbrakk>
   \<Longrightarrow> keyed cr p' q' = keyed cr p q"
  unfolding keyed_def owns_def by simp

lemma keyed_frame:
  assumes "linked cr og p q" and "unat (cs_n (ch_cur p)) + 3 < 2 ^ 64" and "keyed cr p q"
  shows "keyed cr (fst (snd (update cr og p q s))) (snd (snd (update cr og p q s)))"
  using update_frame [OF assms(1,2), of s] assms(3) by (subst keyed_cong) auto

lemma ch_op_keyed:
  assumes "ch_op cr og p q x" and lk: "linked cr og p q" and n: "unat (cs_n (ch_cur p)) + 3 < 2 ^ 64" and k: "keyed cr p q"
  shows "keyed cr (fst x) (snd x)"
  using assms(1)
proof cases
  case (op_pay amt)
  then show ?thesis using keyed_frame [OF lk n k] k by (simp add: pay_def Let_def)
next
  case (op_add amt ph ex)
  have "snd (case r of (Inl e, y) \<Rightarrow> (Inl e, y) | (Inr _, y) \<Rightarrow> (Inr hid, y)) = snd r" for r :: "unit res \<times> channel \<times> channel" and hid :: u64
    by (cases r; cases "fst r") auto
  with op_add show ?thesis using keyed_frame [OF lk n k] k by (simp add: add_htlc_def Let_def)
next
  case (op_settle hid preimage)
  then show ?thesis using keyed_frame [OF lk n k] k by (simp add: settle_htlc_def remove_htlc_def Let_def split: option.splits)
next
  case (op_fail hid)
  then show ?thesis using keyed_frame [OF lk n k] k by (simp add: fail_htlc_def remove_htlc_def Let_def split: option.splits)
qed

definition hist_conserves :: "channel \<Rightarrow> bool" where
  "hist_conserves c \<longleftrightarrow> (\<forall>k s. k < cs_n (ch_cur c) \<longrightarrow> map_of (ch_history c) k = Some s \<longrightarrow> conserves (ch_info c) s)"

lemma hist_conserves_peer: "linked cr og a b \<Longrightarrow> hist_conserves a \<Longrightarrow> hist_conserves b"
  unfolding hist_conserves_def linked_def knows_def by (metis option.inject)

lemma hist_conserves_step:
  assumes "step_ok cr og p q x" and "linked cr og p q" and "unat (cs_n (ch_cur p)) + 3 < 2 ^ 64"
    and "conserves (ch_info p) (ch_cur p)" and "hist_conserves p"
  shows "hist_conserves (fst x)"
proof (cases "x = (p, q)")
  case False
  with assms(1) have x: "cs_n (ch_cur (fst x)) = cs_n (ch_cur p) + 1" "ch_info (fst x) = ch_info p"
      "ch_history (fst x) = omap_ins (cs_n (ch_cur p)) (ch_cur p) (ch_history p)" by (auto simp: step_ok_def)
  have "omap_ok (ch_history p)" using assms(2) by (simp add: linked_def knows_def)
  then show ?thesis
    using assms(4,5) word_le_cases(2) [OF assms(3)] unfolding hist_conserves_def x by (auto split: if_splits)
qed (use assms(5) in simp)

definition run_inv :: "crypto \<Rightarrow> oqs_signer \<Rightarrow> channel \<Rightarrow> channel \<Rightarrow> bool" where
  "run_inv cr og a b \<longleftrightarrow> linked cr og a b \<and> keyed cr a b \<and> conserves (ch_info a) (ch_cur a) \<and> hist_conserves a"

lemma run_inv_sym: "run_inv cr og a b \<Longrightarrow> run_inv cr og b a"
  using hist_conserves_peer [of cr og a b] unfolding run_inv_def by (auto simp: linked_sym keyed_def linked_def)

lemma run_inv_step:
  assumes "run_inv cr og p q" and "unat (cs_n (ch_cur p)) + 3 < 2 ^ 64" and "ch_op cr og p q x"
  shows "run_inv cr og (fst x) (snd x)"
  using ch_op_step_ok [OF assms(3) _ assms(2)] ch_op_keyed [OF assms(3) _ assms(2)] hist_conserves_step [OF _ _ assms(2)] assms(1)
  by (auto simp: run_inv_def step_ok_def)

text \<open>An endpoint right after the exchange of hashes and initial signatures.\<close>

lemma receive_initial:
  assumes "receive_commit_sig cr c s sg = (Inr u, c')" and "cs_n s = 0" and "ch_remote_sig_cur c = []"
  shows "c' = c\<lparr>ch_cur := s, ch_remote_sig_cur := sg_sig sg\<rparr>
    \<and> verify_message_signature_hybrid_uncached cr (ch_remote_pub c) (sighash cr (my_commitment cr c s)) (sg_sig sg)"
  using assms by (auto simp: receive_commit_sig_def Let_def my_commitment_def split: if_splits)

definition fresh_end :: "crypto \<Rightarrow> channel \<Rightarrow> channel \<Rightarrow> bool" where
  "fresh_end cr c d \<longleftrightarrow> ch_pending c = None \<and> ch_remote_hashes c = [(0, rev_hash cr d 0), (1, rev_hash cr d 1)]
     \<and> ch_remote_secrets c = [] \<and> ch_history c = [] \<and> cs_n (ch_cur c) = 0"

lemma fresh_knows: "fresh_end cr c d \<Longrightarrow> knows cr c d"
  by (auto simp: fresh_end_def knows_def omap_ok_def remote_hash_def)

definition rev_of :: "crypto \<Rightarrow> string \<Rightarrow> u64 \<Rightarrow> string" where
  "rev_of cr seed n = hash_preimage_hex cr (to_hex (sha3 cr (''ADD/chan/rev|'' @ seed @ ''|'' @ to_string n)))"

lemma rev_hash_of: "rev_hash cr c n = rev_of cr (ch_seed c) n"
  by (simp add: rev_hash_def rev_secret_def rev_of_def)

lemma my_commitment_cong:
  assumes "ch_info c = ch_info d" and "ch_is_a c = ch_is_a d" and "ch_seed c = ch_seed d"
  shows "my_commitment cr c s = my_commitment cr d s"
  unfolding my_commitment_def rev_hash_of assms ..

definition start_end :: "crypto \<Rightarrow> wallet_keys \<Rightarrow> string \<Rightarrow> bool \<Rightarrow> ch_info \<Rightarrow> string \<Rightarrow> string \<Rightarrow> string \<Rightarrow> u32 \<Rightarrow> channel" where
  "start_end cr w pk is_a ci seed seed' txid v =
     set_remote_initial_hashes (rev_of cr seed' 0) (rev_of cr seed' 1) (set_funding txid v (new_channel w pk is_a ci seed))"

lemma start_end_simps [simp]:
  "ch_local (start_end cr w pk is_a ci seed seed' txid v) = w" "ch_remote_pub (start_end cr w pk is_a ci seed seed' txid v) = pk"
  "ch_is_a (start_end cr w pk is_a ci seed seed' txid v) = is_a" "ch_seed (start_end cr w pk is_a ci seed seed' txid v) = seed"
  "ch_info (start_end cr w pk is_a ci seed seed' txid v) = ci\<lparr>ci_funding_txid := txid, ci_funding_vout := v\<rparr>"
  "ch_remote_sig_cur (start_end cr w pk is_a ci seed seed' txid v) = []" "ch_pending (start_end cr w pk is_a ci seed seed' txid v) = None"
  "ch_remote_secrets (start_end cr w pk is_a ci seed seed' txid v) = []" "ch_history (start_end cr w pk is_a ci seed seed' txid v) = []"
  by (simp_all add: start_end_def set_remote_initial_hashes_def set_funding_def new_channel_def)

lemma start_end_hashes: "ch_seed d = seed' \<Longrightarrow>
   ch_remote_hashes (start_end cr w pk is_a ci seed seed' txid v) = [(0, rev_hash cr d 0), (1, rev_hash cr d 1)]"
  by (simp add: start_end_def set_remote_initial_hashes_def set_funding_def new_channel_def rev_hash_of)

lemma open_parts:
  assumes "open_channel cr og chain order ra rb wa wb cap push = Inr (a, b, txs)"
    and ci: "ci = empty_info\<lparr>ci_addr_a := wk_address wa, ci_addr_b := wk_address wb, ci_capacity := cap\<rparr>"
    and s0: "s0 = empty_state\<lparr>cs_bal_a := cap - push, cs_bal_b := push\<rparr>"
  shows "push \<le> cap \<and> 1 \<le> cap - push \<and> (\<exists>sa sb txid v. exchange_initial cr og
       (start_end cr wa (wk_public_key wb) True ci sa sb txid v) (start_end cr wb (wk_public_key wa) False ci sb sa txid v) s0 = Inr (a, b))"
proof -
  have r: "ch_seed (set_funding t v (new_channel w pk x ci s)) = s" for t v w pk x ci s
    by (simp add: set_funding_def new_channel_def)
  have "\<not> (push > cap \<or> cap - push < 1)"
  proof
    assume "push > cap \<or> cap - push < 1"
    then show False using assms(1) by (simp only: open_channel_def if_True sum.simps)
  qed
  then have le: "push \<le> cap \<and> 1 \<le> cap - push" by (simp only: not_less de_Morgan_disj)
  from assms(1) obtain sa sb f v where "exchange_initial cr og
       (start_end cr wa (wk_public_key wb) True ci sa sb (hash_transaction cr f) v)
       (start_end cr wb (wk_public_key wa) False ci sb sa (hash_transaction cr f) v) s0 = Inr (a, b)"
    unfolding open_channel_def Let_def start_end_def initial_hashes_def case_prod_conv rev_hash_of r ci s0
    by (auto simp: bind_res_Inr split: if_splits)
  with le show ?thesis by blast
qed

lemma exchange_ends:
  assumes x: "exchange_initial cr og p q s0 = Inr (a, b)" and s0: "cs_n s0 = 0"
    and e: "ch_remote_sig_cur p = []" "ch_remote_sig_cur q = []"
  shows "\<exists>sp sq. a = p\<lparr>ch_cur := s0, ch_remote_sig_cur := sq\<rparr> \<and> b = q\<lparr>ch_cur := s0, ch_remote_sig_cur := sp\<rparr>
     \<and> verify_message_signature_hybrid_uncached cr (ch_remote_pub q) (sighash cr (my_commitment cr q s0)) sp
     \<and> verify_message_signature_hybrid_uncached cr (ch_remote_pub p) (sighash cr (my_commitment cr p s0)) sq"
proof -
  from x obtain ga where ga: "(case receive_commit_sig cr q s0 ga of (Inl e, _) \<Rightarrow> Inl e
      | (Inr _, cb) \<Rightarrow> bind_res (sign_remote_commitment cr og cb s0) (\<lambda>gb.
          case receive_commit_sig cr p s0 gb of (Inl e, _) \<Rightarrow> Inl e | (Inr _, ca) \<Rightarrow> Inr (ca, cb))) = Inr (a, b)"
    unfolding exchange_initial_def bind_res_Inr by blast
  obtain r c where rc: "receive_commit_sig cr q s0 ga = (r, c)" by (cases "receive_commit_sig cr q s0 ga")
  then obtain gb where gb: "(case receive_commit_sig cr p s0 gb of (Inl e, _) \<Rightarrow> Inl e | (Inr _, ca) \<Rightarrow> Inr (ca, c)) = Inr (a, b)" "r = Inr ()"
    using ga by (cases r) (auto simp: bind_res_Inr)
  obtain r' c' where rc': "receive_commit_sig cr p s0 gb = (r', c')" by (cases "receive_commit_sig cr p s0 gb")
  then have g: "receive_commit_sig cr q s0 ga = (Inr (), b)" "receive_commit_sig cr p s0 gb = (Inr (), a)"
    using gb rc by (cases r'; auto)+
  have b: "b = q\<lparr>ch_cur := s0, ch_remote_sig_cur := sg_sig ga\<rparr>"
      "verify_message_signature_hybrid_uncached cr (ch_remote_pub q) (sighash cr (my_commitment cr q s0)) (sg_sig ga)"
    using receive_initial [OF g(1) s0 e(2)] by simp_all
  have a: "a = p\<lparr>ch_cur := s0, ch_remote_sig_cur := sg_sig gb\<rparr>"
      "verify_message_signature_hybrid_uncached cr (ch_remote_pub p) (sighash cr (my_commitment cr p s0)) (sg_sig gb)"
    using receive_initial [OF g(2) s0 e(1)] by simp_all
  show ?thesis using a b by blast
qed

lemma exchange_linked:
  assumes x: "exchange_initial cr og p q s0 = Inr (a, b)" and s0: "cs_n s0 = 0" and w: "sha3_width cr"
    and e: "ch_remote_sig_cur p = []" "ch_remote_sig_cur q = []" and same: "ch_info p = ch_info q" "ch_is_a p = (\<not> ch_is_a q)"
    and fr: "fresh_end cr (p\<lparr>ch_cur := s0\<rparr>) q" "fresh_end cr (q\<lparr>ch_cur := s0\<rparr>) p" and v: "valid_state (ch_info p) s0"
    and sg: "signs cr og (wk_private_key (ch_local p)) (ch_remote_pub q)" "signs cr og (wk_private_key (ch_local q)) (ch_remote_pub p)"
  shows "\<exists>sp sq. a = p\<lparr>ch_cur := s0, ch_remote_sig_cur := sq\<rparr> \<and> b = q\<lparr>ch_cur := s0, ch_remote_sig_cur := sp\<rparr> \<and> linked cr og a b"
proof -
  obtain sp sq where a: "a = p\<lparr>ch_cur := s0, ch_remote_sig_cur := sq\<rparr>"
      "verify_message_signature_hybrid_uncached cr (ch_remote_pub p) (sighash cr (my_commitment cr p s0)) sq"
    and b: "b = q\<lparr>ch_cur := s0, ch_remote_sig_cur := sp\<rparr>"
      "verify_message_signature_hybrid_uncached cr (ch_remote_pub q) (sighash cr (my_commitment cr q s0)) sp"
    using exchange_ends [OF x s0 e] by blast
  have m: "my_commitment cr a s0 = my_commitment cr p s0" "my_commitment cr b s0 = my_commitment cr q s0"
    unfolding a(1) b(1) by (rule my_commitment_cong; simp)+
  have "fresh_end cr a b" "fresh_end cr b a"
    using fr unfolding a(1) b(1) by (simp_all add: fresh_end_def rev_hash_of)
  then have "knows cr a b" "knows cr b a" by (simp_all add: fresh_knows)
  then have "linked cr og a b"
    using a(2) b(2) same v sg fr w m unfolding linked_def can_close_def by (simp add: a(1) b(1) fresh_end_def)
  with a(1) b(1) show ?thesis by blast
qed

lemma open_run_inv:
  assumes op: "open_channel cr og chain order ra rb wa wb cap push = Inr (a, b, txs)" and w: "sha3_width cr"
    and wa: "wallet_ok cr og wa" and wb: "wallet_ok cr og wb" and ne: "wk_address wa \<noteq> wk_address wb"
  shows "run_inv cr og a b"
proof -
  let ?ci = "empty_info\<lparr>ci_addr_a := wk_address wa, ci_addr_b := wk_address wb, ci_capacity := cap\<rparr>"
  let ?s0 = "empty_state\<lparr>cs_bal_a := cap - push, cs_bal_b := push\<rparr>"
  from open_parts [OF op refl refl] obtain sa sb txid v where le: "push \<le> cap" "1 \<le> cap - push" and
    x: "exchange_initial cr og (start_end cr wa (wk_public_key wb) True ?ci sa sb txid v)
       (start_end cr wb (wk_public_key wa) False ?ci sb sa txid v) ?s0 = Inr (a, b)" (is "exchange_initial cr og ?p ?q ?s0 = _")
    by blast
  have fr: "fresh_end cr (?p\<lparr>ch_cur := ?s0\<rparr>) ?q" "fresh_end cr (?q\<lparr>ch_cur := ?s0\<rparr>) ?p"
    by (simp_all add: fresh_end_def empty_state_def start_end_hashes [of ?q] start_end_hashes [of ?p])
  have v: "valid_state (ch_info ?p) ?s0" using le by (simp add: valid_state_def empty_info_def empty_state_def htlc_sum_def)
  have sg: "signs cr og (wk_private_key (ch_local ?p)) (ch_remote_pub ?q)" "signs cr og (wk_private_key (ch_local ?q)) (ch_remote_pub ?p)"
    using wa wb by (simp_all add: wallet_ok_def)
  have "cs_n ?s0 = 0" "ch_info ?p = ch_info ?q" by (simp_all add: empty_state_def)
  from exchange_linked [OF x this(1) w _ _ this(2) _ fr v sg] obtain sp sq where
    e: "a = ?p\<lparr>ch_cur := ?s0, ch_remote_sig_cur := sq\<rparr>" "b = ?q\<lparr>ch_cur := ?s0, ch_remote_sig_cur := sp\<rparr>" "linked cr og a b"
    by auto
  have "conserves (ch_info a) (ch_cur a)"
    using le u64_sub_ok [OF le(1)] by (simp add: e(1) conserves_def empty_state_def word_le_nat_alt)
  moreover have "keyed cr a b"
    using wa wb ne by (simp add: keyed_def owns_def e(1,2) wallet_ok_def)
  moreover have "hist_conserves a" by (simp add: hist_conserves_def e(1) empty_state_def)
  ultimately show ?thesis using e(3) by (simp add: run_inv_def)
qed

lemma run_invariant:
  assumes "channel_run cr og a b" and w: "sha3_width cr"
  shows "run_inv cr og a b"
  using assms(1)
proof induction
  case run_open
  then show ?case using open_run_inv [OF _ w] by blast
next
  case (run_left a b a' b')
  from run_inv_step [OF run_left(4,2,3)] show ?case by simp
next
  case (run_right a b b' a')
  have "unat (cs_n (ch_cur b)) + 3 < 2 ^ 64" using run_right by (simp add: run_inv_def linked_def)
  from run_inv_step [OF run_inv_sym [OF run_right(4)] this run_right(3)] show ?case by (simp add: run_inv_sym)
qed

text \<open>Opening succeeds whenever the funding transaction can be built and the random numbers arrive.\<close>

lemma exchange_succeeds:
  assumes "remote_hash p 0 = Some (rev_hash cr q 0)" and "remote_hash q 0 = Some (rev_hash cr p 0)" and s0: "cs_n s0 = 0"
    and e: "ch_remote_sig_cur p = []" "ch_remote_sig_cur q = []" and same: "ch_info p = ch_info q" "ch_is_a p = (\<not> ch_is_a q)"
    and sg: "signs cr og (wk_private_key (ch_local p)) (ch_remote_pub q)" "signs cr og (wk_private_key (ch_local q)) (ch_remote_pub p)"
  shows "\<exists>a b. exchange_initial cr og p q s0 = Inr (a, b)"
proof -
  obtain sp where sp: "sign_message_hybrid cr og (wk_private_key (ch_local p)) (sighash cr (my_commitment cr q s0)) = Inr sp"
      "verify_message_signature_hybrid_uncached cr (ch_remote_pub q) (sighash cr (my_commitment cr q s0)) sp"
    using sg(1) unfolding signs_def by blast
  obtain sq where sq: "sign_message_hybrid cr og (wk_private_key (ch_local q)) (sighash cr (my_commitment cr p s0)) = Inr sq"
      "verify_message_signature_hybrid_uncached cr (ch_remote_pub p) (sighash cr (my_commitment cr p s0)) sq"
    using sg(2) unfolding signs_def by blast
  have "my_commitment cr q s0 = commitment_tx cr (ch_info p) (\<not> ch_is_a p) s0 (rev_hash cr q 0)"
      "my_commitment cr p s0 = commitment_tx cr (ch_info q) (\<not> ch_is_a q) s0 (rev_hash cr p 0)"
    using same s0 by (auto simp: my_commitment_def)
  then show ?thesis
    using sp sq assms(1,2) e s0 same
    by (simp add: exchange_initial_def sign_remote_commitment_def script_sign_def receive_commit_sig_def my_commitment_def remote_hash_def)
qed

lemma start_end_hash_list:
  "ch_remote_hashes (start_end cr w pk is_a ci seed seed' txid v) = [(0, rev_of cr seed' 0), (1, rev_of cr seed' 1)]"
  by (simp add: start_end_def set_remote_initial_hashes_def set_funding_def new_channel_def)

lemma open_succeeds:
  assumes bt: "build_transaction chain None order (wk_address wa) (script_address cr (funding_script (wk_address wa) (wk_address wb))) cap 1
      (next_nonce None chain (wk_address wa)) = Inr f0"
    and ra: "ra 32 = Some xa" "rb 32 = Some xb" and wo: "wallet_ok cr og wa" "wallet_ok cr og wb"
    and le: "\<not> (push > cap \<or> cap - push < 1)"
  shows "\<exists>a b f. open_channel cr og chain order ra rb wa wb cap push = Inr (a, b, [f])"
proof -
  let ?ci = "empty_info\<lparr>ci_addr_a := wk_address wa, ci_addr_b := wk_address wb, ci_capacity := cap\<rparr>"
  let ?s0 = "empty_state\<lparr>cs_bal_a := cap - push, cs_bal_b := push\<rparr>"
  obtain sg where sg: "sign_message_hybrid cr og (wk_private_key wa)
      (hash_transaction cr (f0\<lparr>signer := wk_address wa, signer_pubkey := wk_public_key wa\<rparr>)) = Inr sg"
    using wo(1) unfolding wallet_ok_def signs_def by blast
  have x: "\<exists>a b. exchange_initial cr og (start_end cr wa (wk_public_key wb) True ?ci (to_hex xa) (to_hex xb) txid v)
      (start_end cr wb (wk_public_key wa) False ?ci (to_hex xb) (to_hex xa) txid v) ?s0 = Inr (a, b)" for txid v
    by (rule exchange_succeeds)
      (use wo in \<open>simp_all add: remote_hash_def start_end_hash_list rev_hash_of empty_state_def wallet_ok_def\<close>)
  have r: "ch_seed (set_funding t v (new_channel w pk x ci s)) = s" for t v w pk x ci s
    by (simp add: set_funding_def new_channel_def)
  show ?thesis
    using le bt ra sg x
    by (simp add: open_channel_def random_hex_def initial_hashes_def rev_hash_of r start_end_def Let_def bind_res_Inr case_prod_unfold)
qed

section \<open>A sample run\<close>

definition demo_pk :: "char \<Rightarrow> wallet_keys" where
  "demo_pk k = \<lparr>wk_private_key = to_hex [k], wk_public_key = to_hex [k],
     wk_address = hash_committed_address toy_ml (sig_scheme_id MlDsa87) [k], wk_algorithm = ''ml-dsa-87''\<rparr>"

lemma demo_wallet: "wallet_ok toy_ml toy_signer (demo_pk k)"
proof -
  have sz: "oqs_sizes toy_ml MlDsa87 = Some \<lparr>public_key_size = 1, secret_key_size = 1, signature_size = 1\<rparr>" by (simp add: toy_ml_def)
  have al: "sig_scheme_allowed_strict toy_ml MlDsa87" by (simp add: sig_scheme_available_def get_scheme_sizes_def sz)
  have "oqs_pair toy_ml toy_signer MlDsa87 [k] [k]" by (simp add: oqs_pair_def sz) (simp add: toy_ml_def toy_signer_def)
  from sign_verifies [OF toy_ml_ok(1) al this] have "signs toy_ml toy_signer (to_hex [k]) (to_hex [k])" unfolding signs_def by blast
  moreover have "key_of toy_ml (hash_committed_address toy_ml (sig_scheme_id MlDsa87) [k]) (to_hex [k])"
    unfolding key_of_def by (rule own_address_binds [OF toy_ml_ok sz]) simp_all
  ultimately show ?thesis by (simp add: wallet_ok_def demo_pk_def)
qed

lemma demo_addresses: "wk_address (demo_pk CHR ''a'') \<noteq> wk_address (demo_pk CHR ''b'')"
proof
  assume "wk_address (demo_pk CHR ''a'') = wk_address (demo_pk CHR ''b'')"
  then have "sha3 toy_ml (''ml-dsa-87'' @ [CHR 0x00] @ ''a'') ! 10 = sha3 toy_ml (''ml-dsa-87'' @ [CHR 0x00] @ ''b'') ! 10"
    by (simp add: demo_pk_def hash_committed_address_def kMlDsa87SchemeId_def)
  then show False by (simp add: toy_ml_def nth_append nth_Cons')
qed

definition demo_coins :: chain_state where
  "demo_coins = \<lparr>blocks = [], utxo_set = [''t:0'' \<mapsto> \<lparr>u_owner = wk_address (demo_pk CHR ''a''), u_amount = 20, u_spent = False,
       u_spendable_height = 0, u_height = 0\<rparr>], address_index = Map.empty, signer_last_nonce = Map.empty, seen_transactions = {},
     pubkey_registry = Map.empty, difficulty_target = 0, total_emitted = 0, total_fees_last_block = 0, cumulative_work = 0,
     tickets = [], total_slashed = 0, applying_height = 0, shielded_st = undefined\<rparr>"

lemma demo_open: "\<exists>a b f. open_channel toy_ml toy_signer demo_coins [''t:0''] (\<lambda>n. Some ''x'') (\<lambda>n. Some ''y'') (demo_pk CHR ''a'') (demo_pk CHR ''b'') 10 4 = Inr (a, b, [f])"
proof -
  have ne: "wk_address (demo_pk k) \<noteq> []" for k
    using demo_wallet [of k] key_of_addr unfolding wallet_ok_def by (metis list.size(3) zero_neq_numeral)
  have le: "\<not> ((4::u64) > 10 \<or> (10::u64) - 4 < 1)" by simp
  have g: "gather_inputs demo_coins None (wk_address (demo_pk CHR ''a'')) 11 0 [''t:0''] =
      ([\<lparr>previous_txid = ''t'', output_index = of_nat (undec ''0''), witness = []\<rparr>], 20)"
    by (simp add: demo_coins_def split_key_def)
  have bt: "\<exists>f. build_transaction demo_coins None [''t:0''] (wk_address (demo_pk CHR ''a'')) y 10 1 n = Inr f" if "y \<noteq> []" for y n
    using ne [of "CHR ''a''"] that unfolding build_transaction_def Let_def by (simp add: g del: gather_inputs.simps)
  have "script_address toy_ml z \<noteq> []" for z by (simp add: script_address_def)
  from bt [OF this, of "funding_script (wk_address (demo_pk CHR ''a'')) (wk_address (demo_pk CHR ''b''))"
      "next_nonce None demo_coins (wk_address (demo_pk CHR ''a''))"]
  obtain f0 where "build_transaction demo_coins None [''t:0''] (wk_address (demo_pk CHR ''a''))
      (script_address toy_ml (funding_script (wk_address (demo_pk CHR ''a'')) (wk_address (demo_pk CHR ''b'')))) 10 1
      (next_nonce None demo_coins (wk_address (demo_pk CHR ''a''))) = Inr f0" ..
  then show ?thesis
    by (rule open_succeeds [where xa = "''x''" and xb = "''y''", OF _ _ _ demo_wallet demo_wallet le]) (rule refl)+
qed

lemma demo_channel_run: "\<exists>a b. channel_run toy_ml toy_signer a b \<and> ch_bal (ch_cur a) (ch_is_a a) = 6 \<and> ch_bal (ch_cur a) (\<not> ch_is_a a) = 4
  \<and> cs_n (ch_cur a) = 0 \<and> ci_fee (ch_info a) = 1 \<and> cs_htlcs (ch_cur a) = [] \<and> ci_to_self_delay (ch_info a) = 6 \<and> ch_is_a a"
proof -
  obtain a b f where op: "open_channel toy_ml toy_signer demo_coins [''t:0''] (\<lambda>n. Some ''x'') (\<lambda>n. Some ''y'') (demo_pk CHR ''a'') (demo_pk CHR ''b'') 10 4 = Inr (a, b, [f])"
    using demo_open by blast
  have run: "channel_run toy_ml toy_signer a b"
    by (rule run_open [OF op demo_wallet demo_wallet demo_addresses])
  from open_parts [OF op refl refl] obtain sa sb txid v where x: "exchange_initial toy_ml toy_signer
     (start_end toy_ml (demo_pk CHR ''a'') (wk_public_key (demo_pk CHR ''b'')) True
        (empty_info\<lparr>ci_addr_a := wk_address (demo_pk CHR ''a''), ci_addr_b := wk_address (demo_pk CHR ''b''), ci_capacity := 10\<rparr>) sa sb txid v)
     (start_end toy_ml (demo_pk CHR ''b'') (wk_public_key (demo_pk CHR ''a'')) False
        (empty_info\<lparr>ci_addr_a := wk_address (demo_pk CHR ''a''), ci_addr_b := wk_address (demo_pk CHR ''b''), ci_capacity := 10\<rparr>) sb sa txid v)
     (empty_state\<lparr>cs_bal_a := 10 - 4, cs_bal_b := 4\<rparr>) = Inr (a, b)" (is "exchange_initial _ _ ?p ?q ?s = _")
    by blast
  have "cs_n ?s = 0" "ch_remote_sig_cur ?p = []" "ch_remote_sig_cur ?q = []" by (simp_all add: empty_state_def)
  from exchange_ends [OF x this] obtain sq where "a = ?p\<lparr>ch_cur := ?s, ch_remote_sig_cur := sq\<rparr>" by blast
  then have "ch_bal (ch_cur a) (ch_is_a a) = 6 \<and> ch_bal (ch_cur a) (\<not> ch_is_a a) = 4
    \<and> cs_n (ch_cur a) = 0 \<and> ci_fee (ch_info a) = 1 \<and> cs_htlcs (ch_cur a) = [] \<and> ci_to_self_delay (ch_info a) = 6 \<and> ch_is_a a"
    by (simp add: ch_bal_def empty_state_def empty_info_def)
  with run show ?thesis by blast
qed



text \<open>An affordable payment passes the validation.\<close>

lemma pay_completes:
  assumes inv: "run_inv cr og p q" and n: "unat (cs_n (ch_cur p)) + 3 < 2 ^ 64" and a: "amt \<noteq> 0"
    and af: "unat amt + unat (ch_reserve p) \<le> unat (ch_bal (ch_cur p) (ch_is_a p))"
  shows "\<exists>p' q'. pay cr og p q amt = (Inr (), p', q') \<and> ch_cur p' = ch_cur q'
     \<and> unat (ch_bal (ch_cur p') (ch_is_a p)) + unat amt = unat (ch_bal (ch_cur p) (ch_is_a p))
     \<and> unat (ch_bal (ch_cur p') (\<not> ch_is_a p)) = unat (ch_bal (ch_cur p) (\<not> ch_is_a p)) + unat amt
     \<and> cs_htlcs (ch_cur p') = cs_htlcs (ch_cur p) \<and> cs_n (ch_cur p') = cs_n (ch_cur p) + 1"
proof -
  let ?x = "ch_is_a p" and ?c = "ch_cur p"
  have lk: "linked cr og p q" and c: "conserves (ch_info p) ?c" using inv by (simp_all add: run_inv_def)
  have q: "ch_is_a q = (\<not> ?x)" using lk by (auto simp: linked_def)
  have b: "unat (ch_bal ?c ?x) < 18446744073709551616" by (rule unat_u64_bound)
  have sum: "unat (amt + ch_reserve p) = unat amt + unat (ch_reserve p)" using af b by (intro u64_add_ok) linarith
  have le: "amt \<le> ch_bal ?c ?x" using af by (simp add: word_le_nat_alt)
  define s where "s = set_ch_bal (\<not> ?x) (ch_bal (next_state p) (\<not> ?x) + amt) (set_ch_bal ?x (ch_bal (next_state p) ?x - amt) (next_state p))"
  have cn: "conserves (ch_info p) (next_state p)" using c by (simp add: conserves_def next_state_def)
  note ps = pay_state [OF cn, of amt ?x, folded s_def]
  have cs: "conserves (ch_info p) s" and up: "unat (ch_bal ?c (\<not> ?x) + amt) = unat (ch_bal ?c (\<not> ?x)) + unat amt"
    using ps le by simp_all
  have dn: "unat (ch_bal ?c ?x - amt) = unat (ch_bal ?c ?x) - unat amt" by (rule u64_sub_ok [OF le])
  have vs: "valid_state (ch_info p) ?c" using lk unfolding linked_def by blast
  have fe: "ci_fee (ch_info p) \<le> ch_bal s True"
  proof (cases ?x)
    case True
    then show ?thesis using af dn by (simp add: s_def ch_reserve_def word_le_nat_alt)
  next
    case False
    then show ?thesis using vs up by (simp add: s_def valid_state_iff word_le_nat_alt)
  qed
  have "valid_state (ch_info p) s"
    using fe vs conserves_word [OF cs] by (simp add: valid_state_iff s_def)
  then have v: "validate_next p s = Inr ()" using validate_next_linked [OF lk, of s] by (simp add: s_def)
  from update_linked [OF lk n, of s] v obtain p' q' where u: "update cr og p q s = (Inr (), p', q')" "linked cr og p' q'" "ch_cur p' = s"
    by auto
  have "pay cr og p q amt = update cr og p q s"
    using a af sum by (simp add: pay_def Let_def q s_def word_less_nat_alt not_less)
  with u have pq: "pay cr og p q amt = (Inr (), p', q')" "ch_cur p' = ch_cur q'" by (simp_all add: linked_def)
  have "unat (ch_bal s ?x) + unat amt = unat (ch_bal ?c ?x)" "unat (ch_bal s (\<not> ?x)) = unat (ch_bal ?c (\<not> ?x)) + unat amt"
      "cs_htlcs s = cs_htlcs ?c" "cs_n s = cs_n ?c + 1"
    using up dn le by (simp_all add: s_def word_le_nat_alt)
  with pq u(3) show ?thesis by blast
qed

section \<open>Properties\<close>



text \<open>
  Claim C13. Payments go through. On every run of a channel, within the range of the state counter, a
  payment by either side that its balance covers together with the fee reserve completes: both
  endpoints move to the same next state, the payer's balance falls and the payee's rises by exactly the
  amount, pending payments are untouched, and the channel is again in a run state.
\<close>

theorem channel_payment_completes:
  assumes "channel_run cr og a b" and "sha3_width cr" and "unat (cs_n (ch_cur a)) + 3 < 2 ^ 64"
    and "(p, q) \<in> {(a, b), (b, a)}" and "amt \<noteq> 0"
    and "unat amt + unat (ch_reserve p) \<le> unat (ch_bal (ch_cur p) (ch_is_a p))"
  shows "\<exists>p' q'. pay cr og p q amt = (Inr (), p', q') \<and> ch_cur p' = ch_cur q'
     \<and> unat (ch_bal (ch_cur p') (ch_is_a p)) + unat amt = unat (ch_bal (ch_cur p) (ch_is_a p))
     \<and> unat (ch_bal (ch_cur p') (\<not> ch_is_a p)) = unat (ch_bal (ch_cur p) (\<not> ch_is_a p)) + unat amt
     \<and> cs_htlcs (ch_cur p') = cs_htlcs (ch_cur p) \<and> cs_n (ch_cur p') = cs_n (ch_cur p) + 1
     \<and> (if (p, q) = (a, b) then channel_run cr og p' q' else channel_run cr og q' p')"
proof -
  have inv: "run_inv cr og a b" by (rule run_invariant [OF assms(1,2)])
  then have same: "ch_cur b = ch_cur a" by (simp add: run_inv_def linked_def)
  have ip: "run_inv cr og p q" and np: "unat (cs_n (ch_cur p)) + 3 < 2 ^ 64"
    using assms(3,4) inv run_inv_sym [OF inv] same by auto
  obtain p' q' where r: "pay cr og p q amt = (Inr (), p', q') \<and> ch_cur p' = ch_cur q'
     \<and> unat (ch_bal (ch_cur p') (ch_is_a p)) + unat amt = unat (ch_bal (ch_cur p) (ch_is_a p))
     \<and> unat (ch_bal (ch_cur p') (\<not> ch_is_a p)) = unat (ch_bal (ch_cur p) (\<not> ch_is_a p)) + unat amt
     \<and> cs_htlcs (ch_cur p') = cs_htlcs (ch_cur p) \<and> cs_n (ch_cur p') = cs_n (ch_cur p) + 1"
    using pay_completes [OF ip np assms(5,6)] by blast
  have "unat amt + unat (ch_reserve p) < 2 ^ 64"
    using le_less_trans [OF assms(6) unat_u64_bound] by simp
  then have "ch_op cr og p q (snd (pay cr og p q amt))" by (rule op_pay)
  then have op: "ch_op cr og p q (p', q')" using r by simp
  have "if (p, q) = (a, b) then channel_run cr og p' q' else channel_run cr og q' p'"
    using assms(4) op run_left [OF assms(1,3)] run_right [OF assms(1,3)] by (cases "(p, q) = (a, b)") auto
  with r show ?thesis by blast
qed

theorem channel_payment_completes_witness:
  "\<exists>a b a' b'. pay toy_ml toy_signer a b 3 = (Inr (), a', b') \<and> channel_run toy_ml toy_signer a' b'"
proof -
  obtain a b where ab: "channel_run toy_ml toy_signer a b" "ch_bal (ch_cur a) (ch_is_a a) = 6" "cs_n (ch_cur a) = 0" "ci_fee (ch_info a) = 1"
    using demo_channel_run by blast
  then have "unat (cs_n (ch_cur a)) + 3 < 2 ^ 64" "unat (3::u64) + unat (ch_reserve a) \<le> unat (ch_bal (ch_cur a) (ch_is_a a))"
    by (simp_all add: ch_reserve_def)
  from channel_payment_completes [OF ab(1) toy_ml_ok(2) this(1) _ _ this(2), of b] show ?thesis by auto
qed

text \<open>
  Claim C11. Cheating does not pay. Take any run of a channel and one of its endpoints \<open>p\<close>. If the peer
  broadcasts its commitment of an older state, with any witness, and the outputs in it that do not pay
  \<open>p\<close> are worth more than the fee, then \<^verbatim>\<open>penalty_for\<close> returns a transaction that spends exactly all those
  outputs, each with a witness that the chain's script verifier accepts at any height, and pays their
  whole value less the fee to \<open>p\<close>. The scripts of the state must be parseable: hexadecimal payment hashes
  and numbers of at most twelve digits.
\<close>

theorem revoked_commitment_punished:
  assumes "channel_run cr og a b" and "sha3_width cr" and "(p, q) \<in> {(a, b), (b, a)}"
    and "revoked_by cr p q s tx" and "scripts_ok (ch_info p) s"
    and "unat (ci_fee (ch_info p)) < claimable tx (wk_address (ch_local p))"
  shows "\<exists>t. penalty_for cr og p tx = Inr (Some t)
     \<and> outputs t = [\<lparr>recipient = wk_address (ch_local p), amount = of_nat (claimable tx (wk_address (ch_local p)) - unat (ci_fee (ch_info p)))\<rparr>]
     \<and> fee t = ci_fee (ch_info p) \<and> distinct (map output_index (inputs t))
     \<and> (unat \<circ> output_index) ` set (inputs t) = {i. i < length (outputs tx) \<and> recipient (outputs tx ! i) \<noteq> wk_address (ch_local p)}
     \<and> (\<forall>i\<in>set (inputs t). previous_txid i = hash_transaction cr tx
          \<and> (\<forall>ctx. ctx_sighash ctx = sighash cr t \<longrightarrow>
               verify_input cr (recipient (outputs tx ! unat (output_index i))) (witness i) ctx = Inr ()))"
proof -
  have inv: "run_inv cr og p q"
    using assms(3) run_invariant [OF assms(1,2)] run_inv_sym [OF run_invariant [OF assms(1,2)]] by auto
  have "conserves (ch_info p) s"
    using inv assms(4) unfolding run_inv_def hist_conserves_def revoked_by_def by blast
  with inv assms(4-6) show ?thesis by (intro penalty_for_revoked) (simp_all add: run_inv_def)
qed

lemma demo_revoked:
  "\<exists>a b s. channel_run toy_ml toy_signer a b \<and> revoked_by toy_ml a b s (my_commitment toy_ml b s) \<and> scripts_ok (ch_info a) s
     \<and> unat (ci_fee (ch_info a)) < claimable (my_commitment toy_ml b s) (wk_address (ch_local a))"
proof -
  obtain a b where run: "channel_run toy_ml toy_signer a b" and d: "ch_bal (ch_cur a) (ch_is_a a) = 6" "ch_bal (ch_cur a) (\<not> ch_is_a a) = 4"
      "cs_n (ch_cur a) = 0" "ci_fee (ch_info a) = 1" "cs_htlcs (ch_cur a) = []" "ci_to_self_delay (ch_info a) = 6" "ch_is_a a"
    using demo_channel_run by blast
  have inv: "run_inv toy_ml toy_signer a b" by (rule run_invariant [OF run toy_ml_ok(2)])
  have n: "unat (cs_n (ch_cur a)) + 3 < 2 ^ 64" and af: "unat (3::u64) + unat (ch_reserve a) \<le> unat (ch_bal (ch_cur a) (ch_is_a a))"
    using d by (simp_all add: ch_reserve_def)
  have nz: "(3::u64) \<noteq> 0" by simp
  obtain a' b' where p: "pay toy_ml toy_signer a b 3 = (Inr (), a', b')" "cs_n (ch_cur a') = cs_n (ch_cur a) + 1"
    using pay_completes [OF inv n nz af] by blast
  have "unat (3::u64) + unat (ch_reserve a) < 2 ^ 64" using d by (simp add: ch_reserve_def)
  note op = op_pay [OF this, of toy_ml toy_signer b]
  have lk: "linked toy_ml toy_signer a b" and co: "conserves (ch_info a) (ch_cur a)" using inv by (simp_all add: run_inv_def)
  have st: "step_ok toy_ml toy_signer a b (a', b')" using ch_op_step_ok [OF op lk n co] p by simp
  have run': "channel_run toy_ml toy_signer a' b'" using run_left [OF run n] op p by simp
  have "a' \<noteq> a" using p(2) by auto
  with st have h: "ch_history a' = omap_ins 0 (ch_cur a) (ch_history a)" "ch_info a' = ch_info a" using d(3) by (auto simp: step_ok_def)
  have "omap_ok (ch_history a)" using lk by (simp add: linked_def knows_def)
  then have hs: "map_of (ch_history a') 0 = Some (ch_cur a)" by (simp add: h)
  let ?s = "ch_cur a"
  have inv': "run_inv toy_ml toy_signer a' b'" by (rule run_invariant [OF run' toy_ml_ok(2)])
  then have ci: "ch_info b' = ch_info a" and ib: "ch_is_a b' = (\<not> ch_is_a a')" using h(2) unfolding run_inv_def linked_def by metis+
  have "\<exists>s. pay toy_ml toy_signer a b 3 = update toy_ml toy_signer a b s"
    using p(1) unfolding pay_def Let_def by (metis Inl_Inr_False fst_conv)
  then obtain s where "update toy_ml toy_signer a b s = (Inr (), a', b')" using p(1) by metis
  then have ia: "ch_is_a a'" using update_frame [OF lk n, of s] d(7) by simp
  have rv: "revoked_by toy_ml a' b' ?s (my_commitment toy_ml b' ?s)"
    using hs d p(2) by (simp add: revoked_by_def my_commitment_def commitment_tx_def Let_def)
  have so: "scripts_ok (ch_info a') ?s" using d h by (simp add: scripts_ok_def)
  have la: "length (wk_address (ch_local a')) = 128"
    using inv' key_of_addr unfolding run_inv_def keyed_def owns_def by blast
  have "outputs (my_commitment toy_ml b' ?s) = [\<lparr>recipient = script_address toy_ml (to_local_script (ci_addr_b (ch_info a)) (ci_addr_a (ch_info a))
        (rev_hash toy_ml b' 0) 6), amount = 4\<rparr>, \<lparr>recipient = ci_addr_a (ch_info a), amount = 5\<rparr>]"
    using d ia ib ci by (simp add: my_commitment_def commitment_tx_def Let_def ch_bal_def)
  moreover have "script_address toy_ml x \<noteq> wk_address (ch_local a')" for x
    using length_script_address [OF toy_ml_ok(2), of x] la by auto
  ultimately have "4 \<le> claimable (my_commitment toy_ml b' ?s) (wk_address (ch_local a'))" by (simp add: claimable_def)
  then have "unat (ci_fee (ch_info a')) < claimable (my_commitment toy_ml b' ?s) (wk_address (ch_local a'))" using h(2) d(4) by simp
  with run' rv so show ?thesis by blast
qed

theorem revoked_commitment_punished_witness:
  "\<exists>p tx t. penalty_for toy_ml toy_signer p tx = Inr (Some t)"
proof -
  obtain a b s where d: "channel_run toy_ml toy_signer a b" "revoked_by toy_ml a b s (my_commitment toy_ml b s)" "scripts_ok (ch_info a) s"
     "unat (ci_fee (ch_info a)) < claimable (my_commitment toy_ml b s) (wk_address (ch_local a))"
    using demo_revoked by blast
  from revoked_commitment_punished [OF d(1) toy_ml_ok(2) _ d(2-4)] show ?thesis by blast
qed

text \<open>
  The guard of \<^verbatim>\<open>pay\<close> adds the fee reserve to the amount in 64 bits. When the funder \<open>p\<close> asks to pay the
  two's complement of the commitment fee, the sum is zero, the guard lets it through, both subtractions and additions wrap,
  and the exchange completes with the funder richer and the payee poorer by the fee.
\<close>

theorem pay_guard_wraps:
  assumes inv: "run_inv cr og p q" and n: "unat (cs_n (ch_cur p)) + 3 < 2 ^ 64" and a: "ch_is_a p" and f: "ci_fee (ch_info p) \<noteq> 0"
    and bal: "ci_fee (ch_info p) \<le> cs_bal_b (ch_cur p)"
  shows "\<exists>p' q'. pay cr og p q (- ci_fee (ch_info p)) = (Inr (), p', q')
     \<and> unat (cs_bal_a (ch_cur p')) = unat (cs_bal_a (ch_cur p)) + unat (ci_fee (ch_info p))
     \<and> unat (cs_bal_b (ch_cur p')) + unat (ci_fee (ch_info p)) = unat (cs_bal_b (ch_cur p))"
proof -
  let ?c = "ch_cur p" and ?f = "ci_fee (ch_info p)"
  have lk: "linked cr og p q" and c: "conserves (ch_info p) ?c" using inv by (simp_all add: run_inv_def)
  have q: "\<not> ch_is_a q" using lk a by (auto simp: linked_def)
  define s where "s = set_ch_bal False (cs_bal_b ?c - ?f) (set_ch_bal True (cs_bal_a ?c + ?f) (next_state p))"
  have "conserves (ch_info p) (next_state p)" using c by (simp add: conserves_def next_state_def)
  note ps = pay_state [OF this, of ?f False]
  have cs: "conserves (ch_info p) s" and up: "unat (cs_bal_a ?c + ?f) = unat (cs_bal_a ?c) + unat ?f"
    using ps bal unfolding s_def by (simp_all add: ch_bal_def set_ch_bal_def next_state_def conserves_def)
  have dn: "unat (cs_bal_b ?c - ?f) + unat ?f = unat (cs_bal_b ?c)" using u64_sub_ok [OF bal] bal by (simp add: word_le_nat_alt)
  have vs: "valid_state (ch_info p) ?c" using lk unfolding linked_def by blast
  have "?f \<le> ch_bal s True" using up by (simp add: s_def word_le_nat_alt)
  then have "valid_state (ch_info p) s" using vs conserves_word [OF cs] by (simp add: valid_state_iff s_def)
  then have v: "validate_next p s = Inr ()" using validate_next_linked [OF lk, of s] by (simp add: s_def)
  from update_linked [OF lk n, of s] v obtain p' q' where u: "update cr og p q s = (Inr (), p', q')" "ch_cur p' = s" by auto
  have "pay cr og p q (- ?f) = update cr og p q s"
    using a q f by (simp add: pay_def Let_def s_def ch_reserve_def ch_bal_def next_state_def set_ch_bal_def)
  moreover have "cs_bal_a s = cs_bal_a ?c + ?f" "cs_bal_b s = cs_bal_b ?c - ?f" by (simp_all add: s_def set_ch_bal_def next_state_def)
  ultimately show ?thesis using u up dn by simp
qed

end
