(* ===== verification/Channel_Text.thy ===== *)
theory Channel_Text
  imports Channel_Properties
begin

text \<open>
  The text format of stored channels and the classification of updates proposed by a peer. The lemmas
  show that \<^verbatim>\<open>decode_state\<close> and \<^verbatim>\<open>deserialize\<close> read back what \<^verbatim>\<open>encode_state\<close> and \<^verbatim>\<open>serialize\<close> wrote, for
  texts that fit the format, and what an accepted proposal can change; three of them show how a peer can leave the
  conditions of the properties.
\<close>

section \<open>States\<close>

definition plain_word :: "string \<Rightarrow> bool" where
  "plain_word w \<longleftrightarrow> (\<forall>c\<in>set w. \<not> is_space c)"

definition hash_text_ok :: "string \<Rightarrow> bool" where
  "hash_text_ok h \<longleftrightarrow> plain_word h \<and> CHR '':'' \<notin> set h \<and> CHR '','' \<notin> set h \<and> CHR '';'' \<notin> set h"

definition state_text_ok :: "ch_state \<Rightarrow> bool" where
  "state_text_ok s \<longleftrightarrow> list_all (\<lambda>h. hash_text_ok (h_payment_hash h)) (cs_htlcs s)"

lemma to_string_plain:
  "plain_word (to_string x)" "CHR '':'' \<notin> set (to_string x)" "CHR '','' \<notin> set (to_string x)" "CHR '';'' \<notin> set (to_string x)"
  "to_string x \<noteq> []"
proof -
  have nd: "\<not> is_digit_char c \<Longrightarrow> c \<notin> set (to_string x)" for c using dec_digits [of c "unat x"] by (auto simp: to_string_def)
  then show "CHR '':'' \<notin> set (to_string x)" "CHR '','' \<notin> set (to_string x)" "CHR '';'' \<notin> set (to_string x)"
    by (simp_all add: is_digit_char_def)
  show "plain_word (to_string x)" unfolding plain_word_def using nd space_no_digit by blast
qed (simp add: to_string_def)

lemma getlines_piece1: "c \<noteq> d \<Longrightarrow> getlines d (c # d # s) = [c] # getlines d s"
  using getlines_piece [of d "[c]" s] by simp

lemma plain_word_simps [simp]:
  "plain_word []" "plain_word (c # w) \<longleftrightarrow> \<not> is_space c \<and> plain_word w" "plain_word (v @ w) \<longleftrightarrow> plain_word v \<and> plain_word w"
  by (auto simp: plain_word_def)

lemma sep_no_space [simp]: "\<not> is_space CHR '':''" "\<not> is_space CHR '',''" "\<not> is_space CHR '';''" "\<not> is_space CHR ''0''" "\<not> is_space CHR ''1''"
  "is_space CHR '' ''"
  by (simp_all add: is_space_def)

lemma encode_htlc_text:
  assumes "hash_text_ok (h_payment_hash h)"
  shows "plain_word (encode_htlc h)" "CHR '':'' \<notin> set (encode_htlc h)" "CHR '';'' \<notin> set (encode_htlc h)" "encode_htlc h \<noteq> []"
  using assms by (auto simp: to_string_plain encode_htlc_def hash_text_ok_def)

lemma decode_encode_htlc: "hash_text_ok (h_payment_hash h) \<Longrightarrow> decode_htlc (encode_htlc h) = Some h"
proof -
  assume "hash_text_ok (h_payment_hash h)"
  then have "getlines (CHR '','') (encode_htlc h) =
      [to_string (h_id h), if h_offered_by_a h then ''1'' else ''0'', to_string (h_amount h), h_payment_hash h, to_string (h_expiry h)]"
    by (simp add: to_string_plain encode_htlc_def hash_text_ok_def getlines_piece getlines_piece1 getlines_last)
  then show ?thesis by (simp add: decode_htlc_def)
qed

lemma join_plain:
  "list_all plain_word ps \<Longrightarrow> \<not> is_space d \<Longrightarrow> plain_word (join_with d ps)"
  by (induction d ps rule: join_with.induct) auto

lemma join_no_char: "\<forall>p\<in>set ps. c \<notin> set p \<Longrightarrow> c \<noteq> d \<Longrightarrow> c \<notin> set (join_with d ps)"
  by (induction d ps rule: join_with.induct) auto

lemma join_Nil: "\<forall>p\<in>set ps. p \<noteq> [] \<Longrightarrow> join_with d ps = [] \<longleftrightarrow> ps = []"
  by (induction d ps rule: join_with.induct) auto

lemma encode_state_plain: "state_text_ok s \<Longrightarrow> plain_word (encode_state s) \<and> encode_state s \<noteq> []"
  by (auto simp: to_string_plain encode_state_def state_text_ok_def list_all_iff intro!: join_plain encode_htlc_text)

lemma decode_encode_state:
  assumes ok: "state_text_ok s"
  shows "decode_state (encode_state s) = Some s"
proof -
  let ?hs = "map encode_htlc (cs_htlcs s)" and ?j = "join_with (CHR '';'') (map encode_htlc (cs_htlcs s))"
  have h: "\<forall>p\<in>set ?hs. CHR '';'' \<notin> set p \<and> p \<noteq> []" "\<forall>p\<in>set ?hs. CHR '':'' \<notin> set p"
    using ok encode_htlc_text by (auto simp: state_text_ok_def list_all_iff)
  have g: "getlines (CHR '';'') ?j = ?hs" by (rule getlines_join [OF h(1)])
  have c: "CHR '':'' \<notin> set ?j" using h(2) by (intro join_no_char) auto
  have d: "map decode_htlc ?hs = map Some (cs_htlcs s)"
    using ok decode_encode_htlc by (auto simp: state_text_ok_def list_all_iff)
  have f: "getlines (CHR '':'') (encode_state s) = [to_string (cs_n s), to_string (cs_bal_a s), to_string (cs_bal_b s),
      to_string (cs_next_htlc_id s)] @ getlines (CHR '':'') ?j"
    by (simp add: to_string_plain encode_state_def getlines_piece)
  have g5: "(let f = getlines (CHR '':'') (encode_state s) in if length f = 4 then f @ [[]] else f)
      = [to_string (cs_n s), to_string (cs_bal_a s), to_string (cs_bal_b s), to_string (cs_next_htlc_id s), ?j]"
    using c unfolding f by (cases "?j = []") (simp_all add: getlines_last)
  have md: "map decode_htlc (getlines (CHR '';'') ?j) = map Some (cs_htlcs s)" by (simp only: g d)
  then have "None \<notin> decode_htlc ` set (getlines (CHR '';'') ?j)" by (metis image_set image_iff option.distinct(1))
  moreover have "map (the \<circ> decode_htlc) (getlines (CHR '';'') ?j) = cs_htlcs s"
    unfolding map_map [symmetric] md by simp
  ultimately show ?thesis unfolding decode_state_def Let_def g5 [unfolded Let_def] by simp
qed

section \<open>Stored channels\<close>

lemma read_key: "plain_word k \<Longrightarrow> k \<noteq> [] \<Longrightarrow> read_word (k @ CHR '' '' # r) = Some (k, CHR '' '' # r)"
  using read_word_token [of k "CHR '' '' # r" "[]"] by (simp add: plain_word_def)

lemma word_or_plain: "plain_word w \<Longrightarrow> w \<noteq> [] \<Longrightarrow> word_or old (CHR '' '' # w) = w"
  using read_word_token [of w "[]" "'' ''"] by (simp add: word_or_def plain_word_def)

lemma word_or_opt: "plain_word w \<Longrightarrow> word_or [] (CHR '' '' # w) = w"
  by (cases "w = []") (simp_all add: word_or_plain, simp add: word_or_def read_word_def)

lemma read_uint_to_string:
  fixes x :: "'a::len word"
  assumes "r = [] \<or> hd r = CHR '' ''"
  shows "read_uint (2 ^ LENGTH('a)) (CHR '' '' # to_string x @ r) = Got (unat x) r"
proof -
  have "read_uint (2 ^ LENGTH('a)) ('' '' @ dec (unat x) @ r) = Got (unat x) r"
    by (rule read_uint_dec) (use assms in \<open>auto simp: is_digit_char_def hd_append split: if_splits\<close>)
  then show ?thesis by (simp add: to_string_def)
qed

lemma num_or_to_string: "num_or old (CHR '' '' # to_string x) = x"
  using read_uint_to_string [of "[]" x] by (simp add: num_or_def)

lemma num_word_to_string: "plain_word h \<Longrightarrow> num_word junk (CHR '' '' # to_string n @ CHR '' '' # h) = (n, h)"
  using read_uint_to_string [of "CHR '' '' # h" n] by (simp add: num_word_def word_or_opt)

lemma read_is_one_text: "read_is_one junk (CHR '' '' # (if b then ''1'' else ''0'')) = b"
  by (cases b) (simp_all add: read_is_one_def read_uint_def is_space_def is_digit_char_def undec_def char_digit_def Let_def)

lemma undash_dash: "w \<noteq> ''-'' \<Longrightarrow> undash (dash w) = w"
  by (simp add: undash_def dash_def)

lemma dash_plain: "plain_word w \<Longrightarrow> plain_word (dash w) \<and> dash w \<noteq> []"
  by (auto simp: dash_def is_space_def)

lemma read_funding_text:
  assumes "plain_word t" and "t \<noteq> ''-''"
  shows "read_funding (CHR '' '' # dash t @ CHR '' '' # to_string v) ci = ci\<lparr>ci_funding_txid := t, ci_funding_vout := v\<rparr>"
proof -
  have "read_word ('' '' @ dash t @ CHR '' '' # to_string v) = Some (dash t, CHR '' '' # to_string v)"
    by (rule read_word_token) (use dash_plain [OF assms(1)] in \<open>auto simp: plain_word_def\<close>)
  then show ?thesis by (simp add: read_funding_def undash_dash [OF assms(2)] num_or_to_string)
qed

definition channel_text_ok :: "channel \<Rightarrow> bool" where
  "channel_text_ok c \<longleftrightarrow>
     (let ci = ch_info c in
      plain_word (ci_addr_a ci) \<and> ci_addr_a ci \<noteq> [] \<and> plain_word (ci_addr_b ci) \<and> ci_addr_b ci \<noteq> []
      \<and> plain_word (ch_remote_pub c) \<and> ch_remote_pub c \<noteq> [] \<and> plain_word (ch_seed c) \<and> ch_seed c \<noteq> []
      \<and> plain_word (ci_funding_txid ci) \<and> ci_funding_txid ci \<noteq> ''-''
      \<and> plain_word (ch_remote_sig_cur c) \<and> ch_remote_sig_cur c \<noteq> ''-''
      \<and> (\<forall>s. ch_remote_sig_pending c = Some s \<longrightarrow> plain_word s)
      \<and> state_text_ok (ch_cur c) \<and> (\<forall>s. ch_pending c = Some s \<longrightarrow> state_text_ok s)
      \<and> (\<forall>(n, h)\<in>set (ch_remote_hashes c). plain_word h) \<and> (\<forall>(n, h)\<in>set (ch_remote_secrets c). plain_word h)
      \<and> (\<forall>(n, s)\<in>set (ch_history c). state_text_ok s) \<and> (\<forall>(n, s)\<in>set (ch_abandoned c). state_text_ok s)
      \<and> omap_ok (ch_remote_hashes c) \<and> omap_ok (ch_remote_secrets c) \<and> omap_ok (ch_history c)
      \<and> sorted (map fst (ch_abandoned c))
      \<and> wk_address (ch_local c) = (if ch_is_a c then ci_addr_a ci else ci_addr_b ci))"

lemma key_words:
  "plain_word ''is_a''" "plain_word ''addr_a''" "plain_word ''addr_b''" "plain_word ''capacity''" "plain_word ''funding''"
  "plain_word ''delay''" "plain_word ''fee''" "plain_word ''remote_pub''" "plain_word ''seed''" "plain_word ''cur''"
  "plain_word ''pending''" "plain_word ''remote_sig_cur''" "plain_word ''remote_sig_pending''" "plain_word ''rhash''"
  "plain_word ''rsecret''" "plain_word ''hist''" "plain_word ''aband''" "plain_word ''v''"
  by (simp_all add: is_space_def)

lemmas key_reads = key_words [THEN read_key, simplified]

lemma read_line_v: "read_channel_line junk c ''v 1'' = Some c"
  using key_reads(18) [of "''1''"] by (simp add: read_channel_line_def)

lemma read_lines_append:
  "read_channel_lines junk c (xs @ ys) = (case read_channel_lines junk c xs of None \<Rightarrow> None | Some c' \<Rightarrow> read_channel_lines junk c' ys)"
  by (induction xs arbitrary: c) (auto split: option.splits)

lemma read_head_line:
  "read_channel_line junk c (''is_a '' @ s) = Some (c\<lparr>ch_is_a := read_is_one junk (CHR '' '' # s)\<rparr>)"
  "read_channel_line junk c (''addr_a '' @ s) = Some (set_info (\<lambda>ci. ci\<lparr>ci_addr_a := word_or (ci_addr_a ci) (CHR '' '' # s)\<rparr>) c)"
  "read_channel_line junk c (''addr_b '' @ s) = Some (set_info (\<lambda>ci. ci\<lparr>ci_addr_b := word_or (ci_addr_b ci) (CHR '' '' # s)\<rparr>) c)"
  "read_channel_line junk c (''capacity '' @ s) = Some (set_info (\<lambda>ci. ci\<lparr>ci_capacity := num_or (ci_capacity ci) (CHR '' '' # s)\<rparr>) c)"
  "read_channel_line junk c (''funding '' @ s) = Some (set_info (read_funding (CHR '' '' # s)) c)"
  "read_channel_line junk c (''delay '' @ s) = Some (set_info (\<lambda>ci. ci\<lparr>ci_to_self_delay := num_or (ci_to_self_delay ci) (CHR '' '' # s)\<rparr>) c)"
  "read_channel_line junk c (''fee '' @ s) = Some (set_info (\<lambda>ci. ci\<lparr>ci_fee := num_or (ci_fee ci) (CHR '' '' # s)\<rparr>) c)"
  "read_channel_line junk c (''remote_pub '' @ s) = Some (c\<lparr>ch_remote_pub := word_or (ch_remote_pub c) (CHR '' '' # s)\<rparr>)"
  "read_channel_line junk c (''seed '' @ s) = Some (c\<lparr>ch_seed := word_or (ch_seed c) (CHR '' '' # s)\<rparr>)"
  "read_channel_line junk c (''cur '' @ s) = map_option (\<lambda>x. c\<lparr>ch_cur := x\<rparr>) (decode_state (word_or [] (CHR '' '' # s)))"
  "read_channel_line junk c (''pending '' @ s) = map_option (\<lambda>x. c\<lparr>ch_pending := Some x\<rparr>) (decode_state (word_or [] (CHR '' '' # s)))"
  "read_channel_line junk c (''remote_sig_cur '' @ s) = Some (c\<lparr>ch_remote_sig_cur := undash (word_or (ch_remote_sig_cur c) (CHR '' '' # s))\<rparr>)"
  "read_channel_line junk c (''remote_sig_pending '' @ s) = Some (c\<lparr>ch_remote_sig_pending := Some (word_or [] (CHR '' '' # s))\<rparr>)"
  by (simp_all add: read_channel_line_def key_reads)

lemma read_entry_line:
  assumes "plain_word h"
  shows "read_channel_line junk c (''rhash '' @ to_string n @ '' '' @ h) = Some (c\<lparr>ch_remote_hashes := omap_ins n h (ch_remote_hashes c)\<rparr>)"
    and "read_channel_line junk c (''rsecret '' @ to_string n @ '' '' @ h) = Some (c\<lparr>ch_remote_secrets := omap_ins n h (ch_remote_secrets c)\<rparr>)"
    and "read_channel_line junk c (''hist '' @ to_string n @ '' '' @ h) = map_option (\<lambda>s. c\<lparr>ch_history := omap_ins n s (ch_history c)\<rparr>) (decode_state h)"
    and "read_channel_line junk c (''aband '' @ to_string n @ '' '' @ h) = map_option (\<lambda>s. c\<lparr>ch_abandoned := mmap_ins n s (ch_abandoned c)\<rparr>) (decode_state h)"
  using assms by (simp_all add: read_channel_line_def key_reads num_word_to_string)

text \<open>Reading a block of lines that insert one entry each, in key order.\<close>

lemma read_segment:
  assumes step: "\<And>c n v. ok v \<Longrightarrow> read_channel_line junk c (line n v) = Some (upd (ins n v (get c)) c)"
    and gu: "\<And>m c. get (upd m c) = m" and uu: "\<And>m m' c. upd m (upd m' c) = upd m c"
    and last: "\<And>pre n v. \<forall>x\<in>fst ` set pre. R x n \<Longrightarrow> ins n v pre = pre @ [(n, v)]"
    and "\<forall>(n, v)\<in>set m. ok v" and "sorted_wrt R (map fst (pre @ m))"
  shows "read_channel_lines junk (upd pre c) (map (\<lambda>(n, v). line n v) m) = Some (upd (pre @ m) c)"
  using assms(5,6)
proof (induction m arbitrary: pre)
  case (Cons e m)
  obtain n v where e: "e = (n, v)" by (cases e)
  have "\<forall>x\<in>fst ` set pre. R x n" using Cons.prems(2) by (auto simp: e sorted_wrt_append)
  then have "ins n v pre = pre @ [(n, v)]" by (rule last)
  moreover have "ok v" using Cons.prems(1) by (simp add: e)
  ultimately show ?case using Cons.IH [of "pre @ [e]"] Cons.prems by (simp add: e step gu uu)
qed simp

lemma omap_ok_strict: "omap_ok m \<longleftrightarrow> sorted_wrt (<) (map fst m)"
  by (simp add: omap_ok_def strict_sorted_iff)

lemma clear_same:
  "ch_remote_hashes c = [] \<Longrightarrow> c\<lparr>ch_remote_hashes := []\<rparr> = c" "ch_remote_secrets c = [] \<Longrightarrow> c\<lparr>ch_remote_secrets := []\<rparr> = c"
  "ch_history c = [] \<Longrightarrow> c\<lparr>ch_history := []\<rparr> = c" "ch_abandoned c = [] \<Longrightarrow> c\<lparr>ch_abandoned := []\<rparr> = c"
  for c :: channel
  by (cases c; simp)+

lemma read_maps:
  assumes "channel_text_ok d"
  shows "ch_remote_hashes c = [] \<Longrightarrow> read_channel_lines junk c (map (\<lambda>(n, h). ''rhash '' @ to_string n @ '' '' @ h) (ch_remote_hashes d))
      = Some (c\<lparr>ch_remote_hashes := ch_remote_hashes d\<rparr>)"
    and "ch_remote_secrets c = [] \<Longrightarrow> read_channel_lines junk c (map (\<lambda>(n, h). ''rsecret '' @ to_string n @ '' '' @ h) (ch_remote_secrets d))
      = Some (c\<lparr>ch_remote_secrets := ch_remote_secrets d\<rparr>)"
    and "ch_history c = [] \<Longrightarrow> read_channel_lines junk c (map (\<lambda>(n, s). ''hist '' @ to_string n @ '' '' @ encode_state s) (ch_history d))
      = Some (c\<lparr>ch_history := ch_history d\<rparr>)"
    and "ch_abandoned c = [] \<Longrightarrow> read_channel_lines junk c (map (\<lambda>(n, s). ''aband '' @ to_string n @ '' '' @ encode_state s) (ch_abandoned d))
      = Some (c\<lparr>ch_abandoned := ch_abandoned d\<rparr>)"
proof -
  note t = assms [unfolded channel_text_ok_def Let_def]
  show "read_channel_lines junk c (map (\<lambda>(n, h). ''rhash '' @ to_string n @ '' '' @ h) (ch_remote_hashes d))
      = Some (c\<lparr>ch_remote_hashes := ch_remote_hashes d\<rparr>)" if "ch_remote_hashes c = []"
    using read_segment [where ok = plain_word and junk = junk and line = "\<lambda>n h. ''rhash '' @ to_string n @ '' '' @ h" and ins = omap_ins
        and get = ch_remote_hashes and upd = "\<lambda>m c. c\<lparr>ch_remote_hashes := m\<rparr>" and R = "(<)" and pre = "[]" and m = "ch_remote_hashes d" and c = c,
        OF read_entry_line(1)] that t
    by (simp add: omap_ins_last omap_ok_strict clear_same)
  show "read_channel_lines junk c (map (\<lambda>(n, h). ''rsecret '' @ to_string n @ '' '' @ h) (ch_remote_secrets d))
      = Some (c\<lparr>ch_remote_secrets := ch_remote_secrets d\<rparr>)" if "ch_remote_secrets c = []"
    using read_segment [where ok = plain_word and junk = junk and line = "\<lambda>n h. ''rsecret '' @ to_string n @ '' '' @ h" and ins = omap_ins
        and get = ch_remote_secrets and upd = "\<lambda>m c. c\<lparr>ch_remote_secrets := m\<rparr>" and R = "(<)" and pre = "[]" and m = "ch_remote_secrets d" and c = c,
        OF read_entry_line(2)] that t
    by (simp add: omap_ins_last omap_ok_strict clear_same)
  have st: "read_channel_line junk c (''hist '' @ to_string n @ '' '' @ encode_state s) = Some (c\<lparr>ch_history := omap_ins n s (ch_history c)\<rparr>)"
      "read_channel_line junk c (''aband '' @ to_string n @ '' '' @ encode_state s) = Some (c\<lparr>ch_abandoned := mmap_ins n s (ch_abandoned c)\<rparr>)"
    if "state_text_ok s" for c n s
    using that encode_state_plain read_entry_line(3,4) decode_encode_state by simp_all
  show "read_channel_lines junk c (map (\<lambda>(n, s). ''hist '' @ to_string n @ '' '' @ encode_state s) (ch_history d))
      = Some (c\<lparr>ch_history := ch_history d\<rparr>)" if "ch_history c = []"
    using read_segment [where ok = state_text_ok and junk = junk and line = "\<lambda>n s. ''hist '' @ to_string n @ '' '' @ encode_state s" and ins = omap_ins
        and get = ch_history and upd = "\<lambda>m c. c\<lparr>ch_history := m\<rparr>" and R = "(<)" and pre = "[]" and m = "ch_history d" and c = c,
        OF st(1)] that t
    by (simp add: omap_ins_last omap_ok_strict clear_same)
  show "read_channel_lines junk c (map (\<lambda>(n, s). ''aband '' @ to_string n @ '' '' @ encode_state s) (ch_abandoned d))
      = Some (c\<lparr>ch_abandoned := ch_abandoned d\<rparr>)" if "ch_abandoned c = []"
    using read_segment [where ok = state_text_ok and junk = junk and line = "\<lambda>n s. ''aband '' @ to_string n @ '' '' @ encode_state s" and ins = mmap_ins
        and get = ch_abandoned and upd = "\<lambda>m c. c\<lparr>ch_abandoned := m\<rparr>" and R = "(\<le>)" and pre = "[]" and m = "ch_abandoned d" and c = c,
        OF st(2)] that t
    by (simp add: mmap_ins_last clear_same)
qed

lemma no_newline:
  assumes "channel_text_ok c" and "l \<in> set (channel_lines c)"
  shows "nl \<notin> set l"
proof -
  note t = assms(1) [unfolded channel_text_ok_def Let_def]
  have pn: "plain_word w \<Longrightarrow> nl \<notin> set w" for w by (auto simp: plain_word_def nl_def is_space_def)
  have d: "nl \<notin> set (dash w)" if "plain_word w" for w using that pn by (auto simp: dash_def nl_def)
  have e: "nl \<notin> set (encode_state s)" if "state_text_ok s" for s using that pn encode_state_plain by blast
  have n: "nl \<notin> set (to_string x)" for x :: u64 by (rule pn [OF to_string_plain(1)])
  have n': "nl \<notin> set (to_string x)" for x :: u32 by (rule pn [OF to_string_plain(1)])
  have k: "nl \<noteq> x" if "x \<noteq> CHR 0x0A" for x using that by (simp add: nl_def)
  show ?thesis
    using assms(2) t pn d e n n'
    by (fastforce simp: channel_lines_def Let_def k split: option.splits if_splits)
qed

lemma deserialize_serialize:
  assumes ok: "channel_text_ok c"
  shows "deserialize junk (serialize c) (ch_local c) = Inr c"
proof -
  note t = ok [unfolded channel_text_ok_def Let_def]
  have gl: "getlines nl (serialize c) = channel_lines c"
    unfolding serialize_def using getlines_concat [of "channel_lines c" nl "[]"] no_newline [OF ok] by auto
  have dw: "word_or old (CHR '' '' # dash (ch_remote_sig_cur c)) = dash (ch_remote_sig_cur c)" for old
    using t dash_plain word_or_plain by blast
  have st: "decode_state (word_or [] (CHR '' '' # encode_state s)) = Some s" if "state_text_ok s" for s
    using that encode_state_plain word_or_plain decode_encode_state by simp
  define c0 where "c0 = new_channel (ch_local c) [] False empty_info []"
  define c1 where "c1 = c0\<lparr>ch_is_a := ch_is_a c, ch_info := ch_info c, ch_remote_pub := ch_remote_pub c, ch_seed := ch_seed c,
     ch_cur := ch_cur c, ch_remote_sig_cur := ch_remote_sig_cur c\<rparr>"
  define c2 where "c2 = c1\<lparr>ch_pending := ch_pending c, ch_remote_sig_pending := ch_remote_sig_pending c\<rparr>"
  let ?hd = "[''v 1'', ''is_a '' @ (if ch_is_a c then ''1'' else ''0''), ''addr_a '' @ ci_addr_a (ch_info c), ''addr_b '' @ ci_addr_b (ch_info c),
       ''capacity '' @ to_string (ci_capacity (ch_info c)), ''funding '' @ dash (ci_funding_txid (ch_info c)) @ '' '' @ to_string (ci_funding_vout (ch_info c)),
       ''delay '' @ to_string (ci_to_self_delay (ch_info c)), ''fee '' @ to_string (ci_fee (ch_info c)), ''remote_pub '' @ ch_remote_pub c,
       ''seed '' @ ch_seed c, ''cur '' @ encode_state (ch_cur c), ''remote_sig_cur '' @ dash (ch_remote_sig_cur c)]"
  have s1: "read_channel_lines junk c0 ?hd = Some c1"
    using t dw st read_is_one_text [of junk True] read_is_one_text [of junk False]
    by (simp add: read_line_v read_head_line del: append.simps)
      (simp add: c0_def c1_def new_channel_def set_info_def read_is_one_text word_or_plain num_or_to_string read_funding_text undash_dash)
  have s2: "read_channel_lines junk c1 ((case ch_pending c of None \<Rightarrow> [] | Some p \<Rightarrow> [''pending '' @ encode_state p])
      @ (case ch_remote_sig_pending c of None \<Rightarrow> [] | Some s \<Rightarrow> [''remote_sig_pending '' @ s])) = Some c2"
    using t st
    by (cases "ch_pending c"; cases "ch_remote_sig_pending c")
      (simp_all add: read_lines_append read_head_line c2_def c1_def c0_def new_channel_def word_or_opt del: append.simps(2))
  have e: "ch_remote_hashes c2 = []" "ch_remote_secrets c2 = []" "ch_history c2 = []" "ch_abandoned c2 = []"
    by (simp_all add: c2_def c1_def c0_def new_channel_def)
  have cl: "channel_lines c = ?hd @ ((case ch_pending c of None \<Rightarrow> [] | Some p \<Rightarrow> [''pending '' @ encode_state p])
      @ (case ch_remote_sig_pending c of None \<Rightarrow> [] | Some s \<Rightarrow> [''remote_sig_pending '' @ s]))
      @ map (\<lambda>(n, h). ''rhash '' @ to_string n @ '' '' @ h) (ch_remote_hashes c)
      @ map (\<lambda>(n, h). ''rsecret '' @ to_string n @ '' '' @ h) (ch_remote_secrets c)
      @ map (\<lambda>(n, st). ''hist '' @ to_string n @ '' '' @ encode_state st) (ch_history c)
      @ map (\<lambda>(n, st). ''aband '' @ to_string n @ '' '' @ encode_state st) (ch_abandoned c)"
    unfolding channel_lines_def Let_def append_assoc by (rule refl)
  have "read_channel_lines junk c0 (channel_lines c) = Some (c2\<lparr>ch_remote_hashes := ch_remote_hashes c, ch_remote_secrets := ch_remote_secrets c,
      ch_history := ch_history c, ch_abandoned := ch_abandoned c\<rparr>)"
    unfolding cl read_lines_append [of junk c0] s1 option.case
    unfolding read_lines_append [of junk c1 "_ @ _"] s2 option.case
    using e read_maps [OF ok, of _ junk] by (simp add: read_lines_append)
  also have "c2\<lparr>ch_remote_hashes := ch_remote_hashes c, ch_remote_secrets := ch_remote_secrets c,
      ch_history := ch_history c, ch_abandoned := ch_abandoned c\<rparr> = c"
    by (simp add: c2_def c1_def c0_def new_channel_def)
  finally show ?thesis using t by (simp add: deserialize_def gl c0_def)
qed

text \<open>The index of pending payments by id that the classification builds; a repeated id keeps the last.\<close>

lemma htlc_map_foldl:
  "omap_ok m \<Longrightarrow> omap_ok (foldl (\<lambda>m h. omap_ins (h_id h) h m) m hs)
     \<and> map_of (foldl (\<lambda>m h. omap_ins (h_id h) h m) m hs) = map_of m ++ map_of (rev (map (\<lambda>h. (h_id h, h)) hs))"
proof (induction hs arbitrary: m)
  case (Cons h hs)
  show ?case using Cons.IH [of "omap_ins (h_id h) h m"] Cons.prems by (auto simp: fun_eq_iff map_add_def split: option.splits)
qed simp

lemma map_of_htlc_map: "map_of (htlc_map hs) = map_of (rev (map (\<lambda>h. (h_id h, h)) hs))"
  using htlc_map_foldl [of "[]" hs] by (simp add: htlc_map_def omap_ok_def)

lemma htlc_map_ok: "omap_ok (htlc_map hs)"
  using htlc_map_foldl [of "[]" hs] by (simp add: htlc_map_def omap_ok_def)

lemma htlc_map_entry: "(i, h) \<in> set (htlc_map hs) \<longleftrightarrow> map_of (htlc_map hs) i = Some h"
  using htlc_map_ok [of hs] by (simp add: omap_ok_def strict_sorted_iff)

lemma htlc_map_Some: "map_of (htlc_map hs) i = Some h \<Longrightarrow> h \<in> set hs \<and> h_id h = i"
  unfolding map_of_htlc_map by (drule map_of_SomeD) auto

lemma htlc_map_None: "map_of (htlc_map hs) i = None \<longleftrightarrow> i \<notin> h_id ` set hs"
  unfolding map_of_htlc_map map_of_eq_None_iff by force

lemma htlc_map_distinct: "distinct (map h_id hs) \<Longrightarrow> h \<in> set hs \<Longrightarrow> map_of (htlc_map hs) (h_id h) = Some h"
proof -
  assume a: "distinct (map h_id hs)" "h \<in> set hs"
  then obtain h' where "map_of (htlc_map hs) (h_id h) = Some h'" using htlc_map_None [of hs "h_id h"] by fastforce
  moreover from htlc_map_Some [OF this] a have "h' = h" by (meson distinct_map inj_onD)
  ultimately show ?thesis by simp
qed

lemma filter_single: "length (filter P xs) = 1 \<Longrightarrow> x \<in> set xs \<Longrightarrow> P x \<Longrightarrow> hd (map f (filter P xs)) = f x"
proof -
  assume "length (filter P xs) = 1" and x: "x \<in> set xs" "P x"
  then obtain y where "filter P xs = [y]" by (cases "filter P xs") auto
  moreover have "x \<in> set (filter P xs)" using x by simp
  ultimately show ?thesis by simp
qed

text \<open>The checks behind an accepted proposal.\<close>

lemma accepted_checks:
  assumes "pu_kind (classify_peer_update cr c new pre ht) \<noteq> Reject"
  defines "old \<equiv> ch_cur c" and "r \<equiv> classify_peer_update cr c new pre ht" and "mine \<equiv> \<lambda>s. ch_bal s (ch_is_a c)"
  shows "\<forall>(i, h)\<in>set (htlc_map (cs_htlcs new)). \<forall>g. map_of (htlc_map (cs_htlcs old)) i = Some g \<longrightarrow> same_terms g h"
    and "(\<forall>(i, h)\<in>set (htlc_map (cs_htlcs old)). map_of (htlc_map (cs_htlcs new)) i = None \<longrightarrow>
            h_offered_by_a h = ch_is_a c \<and> pu_htlc r = h \<and>
            (pu_kind r = FailHtlc \<and> mine new = mine old + h_amount h
             \<or> pu_kind r = SettleHtlc \<and> mine new = mine old \<and> hash_preimage_hex cr pre = h_payment_hash h))"
    and "(\<forall>(i, h)\<in>set (htlc_map (cs_htlcs new)). map_of (htlc_map (cs_htlcs old)) i = None \<longrightarrow>
            pu_kind r = AddHtlc \<and> pu_htlc r = h \<and> h_offered_by_a h \<noteq> ch_is_a c \<and> h_id h = cs_next_htlc_id old \<and> ht + 1 < h_expiry h)"
    and "pu_kind r = Pay \<and> mine old \<le> mine new \<or> pu_kind r \<in> {AddHtlc, SettleHtlc} \<and> mine new = mine old
       \<or> pu_kind r = FailHtlc \<and> mine new = mine old + h_amount (pu_htlc r) \<and> pu_htlc r \<in> set (cs_htlcs old)
         \<and> h_offered_by_a (pu_htlc r) = ch_is_a c"
proof -
  let ?m = "htlc_map (cs_htlcs old)" and ?n = "htlc_map (cs_htlcs new)"
  let ?added = "filter (\<lambda>(i, h). map_of ?m i = None) ?n" and ?removed = "filter (\<lambda>(i, h). map_of ?n i = None) ?m"
  have rej: "pu_kind (reject h e) = Reject" "pu_kind (accept k h) = k" "pu_htlc (accept k h) = h" for h e k
    by (simp_all add: reject_def accept_def)
  have k: "pu_kind r \<noteq> Reject" using assms by simp
  show 1: "\<forall>(i, h)\<in>set ?n. \<forall>g. map_of ?m i = Some g \<longrightarrow> same_terms g h"
    using k unfolding r_def old_def classify_peer_update_def Let_def by (auto simp: rej list_ex_iff split: if_splits)
  consider (pay) "?added = []" "?removed = []" "pu_kind r = Pay" "mine old \<le> mine new"
    | (add) "length ?added = 1" "?removed = []" "r = accept AddHtlc (hd (map snd ?added))" "h_offered_by_a (hd (map snd ?added)) \<noteq> ch_is_a c"
        "h_id (hd (map snd ?added)) = cs_next_htlc_id old" "mine new = mine old" "ht + 1 < h_expiry (hd (map snd ?added))"
    | (del) "?added = []" "length ?removed = 1" "h_offered_by_a (hd (map snd ?removed)) = ch_is_a c" "pu_htlc r = hd (map snd ?removed)"
        "pu_kind r = FailHtlc \<and> mine new = mine old + h_amount (pu_htlc r)
          \<or> pu_kind r = SettleHtlc \<and> mine new = mine old \<and> hash_preimage_hex cr pre = h_payment_hash (pu_htlc r)"
  proof -
    define A where "A = map snd ?added"
    define R where "R = map snd ?removed"
    have n: "?added = [] \<longleftrightarrow> A = []" "?removed = [] \<longleftrightarrow> R = []" "length ?added = length A" "length ?removed = length R"
      by (simp_all add: A_def R_def)
    note e = assms(3) [unfolded classify_peer_update_def Let_def, folded old_def mine_def, folded A_def R_def]
    note that [unfolded n, folded A_def R_def]
    then show ?thesis using k unfolding e by (simp_all add: rej not_less not_le mine_def split: if_splits)
  qed
  note cs = this
  show "\<forall>(i, h)\<in>set ?m. map_of ?n i = None \<longrightarrow> h_offered_by_a h = ch_is_a c \<and> pu_htlc r = h \<and>
            (pu_kind r = FailHtlc \<and> mine new = mine old + h_amount h
             \<or> pu_kind r = SettleHtlc \<and> mine new = mine old \<and> hash_preimage_hex cr pre = h_payment_hash h)"
    using cs
  proof cases
    case del
    have "hd (map snd ?removed) = h" if "(i, h) \<in> set ?m" "map_of ?n i = None" for i h
      using filter_single [OF del(2) that(1), of snd] that(2) by simp
    then show ?thesis using del(3-5) by auto
  qed (auto simp: filter_empty_conv)
  show "\<forall>(i, h)\<in>set ?n. map_of ?m i = None \<longrightarrow>
            pu_kind r = AddHtlc \<and> pu_htlc r = h \<and> h_offered_by_a h \<noteq> ch_is_a c \<and> h_id h = cs_next_htlc_id old \<and> ht + 1 < h_expiry h"
    using cs
  proof cases
    case add
    have "hd (map snd ?added) = h" if "(i, h) \<in> set ?n" "map_of ?m i = None" for i h
      using filter_single [OF add(1) that(1), of snd] that(2) by simp
    then show ?thesis using add(3-7) by (auto simp: rej)
  qed (auto simp: filter_empty_conv)
  show "pu_kind r = Pay \<and> mine old \<le> mine new \<or> pu_kind r \<in> {AddHtlc, SettleHtlc} \<and> mine new = mine old
       \<or> pu_kind r = FailHtlc \<and> mine new = mine old + h_amount (pu_htlc r) \<and> pu_htlc r \<in> set (cs_htlcs old)
         \<and> h_offered_by_a (pu_htlc r) = ch_is_a c"
    using cs
  proof cases
    case del
    then obtain i h where "(i, h) \<in> set ?removed" "hd (map snd ?removed) = h" by (cases ?removed) auto
    then have "h \<in> set (cs_htlcs old)" using htlc_map_Some [of "cs_htlcs old" i h] by (auto simp: htlc_map_entry)
    then show ?thesis using del \<open>hd (map snd ?removed) = h\<close> by auto
  qed (simp_all add: rej)
qed

text \<open>
  \<^verbatim>\<open>classify_peer_update\<close> looks payments up by id: of those that share an id the last one counts. When the ids
  differ, every payment counts.
\<close>

definition htlc_counts :: "htlc list \<Rightarrow> htlc \<Rightarrow> bool" where
  "htlc_counts hs h \<longleftrightarrow> map_of (htlc_map hs) (h_id h) = Some h"

lemma htlc_counts_distinct: "distinct (map h_id hs) \<Longrightarrow> htlc_counts hs h \<longleftrightarrow> h \<in> set hs"
  using htlc_map_distinct htlc_map_Some by (fastforce simp: htlc_counts_def)

text \<open>
  Neither \<^verbatim>\<open>validate_next\<close> nor \<^verbatim>\<open>classify_peer_update\<close> refuses a second payment with the id of another: such a pair
  can be proposed, and the earlier one of the pair dropped again, as a plain payment.
\<close>

lemma shadowed_payment_dropped:
  assumes "cs_htlcs (ch_cur c) = [x, h]" and "cs_htlcs new = [h]" and "h_id x = h_id h"
    and "cs_next_htlc_id new = cs_next_htlc_id (ch_cur c)" and "ch_bal (ch_cur c) (ch_is_a c) \<le> ch_bal new (ch_is_a c)"
  shows "pu_kind (classify_peer_update cr c new pre ht) = Pay"
  using assms by (simp add: classify_peer_update_def Let_def htlc_map_def same_terms_def accept_def leD)

text \<open>
  The test of \<^verbatim>\<open>validate_next\<close> adds 64-bit numbers. A peer may first raise the balance of this side beyond the
  capacity and then refund a payment: both proposals pass, and the refund wraps around.
\<close>

lemma refund_takes_money:
  "\<exists>c c' s1 s2. ch_info c' = ch_info c \<and> ch_is_a c' = ch_is_a c \<and> ch_cur c' = s1
     \<and> conserves (ch_info c) (ch_cur c) \<and> conserves (ch_info c) s2
     \<and> validate_next c s1 = Inr () \<and> pu_kind (classify_peer_update cr c s1 pre 3) = Pay
     \<and> validate_next c' s2 = Inr () \<and> pu_kind (classify_peer_update cr c' s2 pre 3) = FailHtlc
     \<and> ch_bal s2 (ch_is_a c) < ch_bal (ch_cur c) (ch_is_a c)"
proof -
  let ?h = "\<lparr>h_id = 0, h_offered_by_a = False, h_amount = 3, h_payment_hash = replicate 128 CHR ''a'', h_expiry = 9\<rparr>"
  let ?s0 = "empty_state\<lparr>cs_bal_a := 10, cs_bal_b := 5, cs_next_htlc_id := 1, cs_htlcs := [?h]\<rparr>"
  let ?s1 = "?s0\<lparr>cs_n := 1, cs_bal_a := 16, cs_bal_b := - 1\<rparr>"
  let ?s2 = "?s1\<lparr>cs_n := 2, cs_bal_b := 2, cs_htlcs := []\<rparr>"
  let ?w = "\<lparr>wk_private_key = ''k'', wk_public_key = ''p'', wk_address = ''b'', wk_algorithm = ''ml-dsa-87''\<rparr>"
  let ?c = "(new_channel ?w ''q'' False (empty_info\<lparr>ci_capacity := 18, ci_fee := 1\<rparr>) ''seed'')
     \<lparr>ch_cur := ?s0, ch_remote_hashes := [(1, ''h''), (2, ''i'')]\<rparr>"
  let ?d = "?c\<lparr>ch_cur := ?s1\<rparr>"
  note d = new_channel_def empty_info_def empty_state_def
  have "validate_next ?c ?s1 = Inr ()" by (simp add: validate_next_def d remote_hash_def htlc_sum_def)
  moreover have "validate_next ?d ?s2 = Inr ()" by (simp add: validate_next_def d remote_hash_def htlc_sum_def)
  moreover have "pu_kind (classify_peer_update cr ?c ?s1 pre 3) = Pay"
    by (simp add: classify_peer_update_def Let_def htlc_map_def same_terms_def d ch_bal_def accept_def reject_def)
  moreover have "pu_kind (classify_peer_update cr ?d ?s2 pre 3) = FailHtlc"
    by (simp add: classify_peer_update_def Let_def htlc_map_def d ch_bal_def accept_def reject_def)
  ultimately show ?thesis
    by (intro exI [of _ ?c] exI [of _ ?d] exI [of _ ?s1] exI [of _ ?s2])
      (simp add: d ch_bal_def conserves_def htlc_total_def)
qed

text \<open>
  The terms of a payment are checked for the length of the hash only (\<open>htlc_ok\<close>). A state with a separator in
  a hash is written, and the file with it cannot be read back.
\<close>

lemma colon_hash_unreadable:
  "let s = empty_state\<lparr>cs_next_htlc_id := 1, cs_htlcs := [\<lparr>h_id = 0, h_offered_by_a = True, h_amount = 2,
       h_payment_hash = ''a:'' @ replicate 126 CHR ''a'', h_expiry = 9\<rparr>]\<rparr>
   in list_all htlc_ok (cs_htlcs s) \<and> decode_state (encode_state s) = None"
  by code_simp

section \<open>Properties\<close>

text \<open>
  Claim C15. A channel file is lossless for a channel whose texts fit the format: when the strings of the
  channel are words without white space, its addresses, keys and seed are not empty, the payment hashes of
  all stored states hold no colon, comma or semicolon, and the maps are in key order as the C++ containers
  keep them, \<^verbatim>\<open>deserialize\<close> applied to what \<^verbatim>\<open>serialize\<close> wrote, by the same wallet, returns the channel unchanged,
  with its signatures, the peer's hashes and secrets, and the states it needs to punish the peer. Hexadecimal
  hashes, keys and signatures satisfy this; the code does not check that a payment hash of the peer is
  hexadecimal (\<open>colon_hash_unreadable\<close>).
\<close>

theorem channel_file_round_trip:
  assumes "channel_text_ok c"
  shows "deserialize junk (serialize c) (ch_local c) = Inr c"
  by (rule deserialize_serialize [OF assms])

theorem channel_file_round_trip_witness:
  "\<exists>c. deserialize 7 (serialize c) (ch_local c) = Inr c \<and> ch_pending c \<noteq> None \<and> length (ch_history c) = 2"
proof -
  let ?w = "\<lparr>wk_private_key = ''k'', wk_public_key = ''p'', wk_address = ''b'', wk_algorithm = ''ml-dsa-87''\<rparr>"
  let ?s = "empty_state\<lparr>cs_n := 3, cs_htlcs := [\<lparr>h_id = 0, h_offered_by_a = True, h_amount = 4, h_payment_hash = ''ab'', h_expiry = 9\<rparr>]\<rparr>"
  let ?c = "(new_channel ?w ''q'' False (empty_info\<lparr>ci_addr_a := ''a'', ci_addr_b := ''b''\<rparr>) ''seed'')
     \<lparr>ch_cur := ?s, ch_pending := Some ?s, ch_remote_sig_pending := Some ''x'', ch_remote_hashes := [(3, ''h''), (4, ''i'')],
      ch_remote_secrets := [(1, ''u'')], ch_history := [(1, empty_state), (2, ?s)], ch_abandoned := [(2, ?s), (2, empty_state)]\<rparr>"
  have "channel_text_ok ?c"
    by (simp add: channel_text_ok_def new_channel_def empty_info_def empty_state_def state_text_ok_def hash_text_ok_def plain_word_def
        is_space_def omap_ok_def)
  from channel_file_round_trip [OF this, of 7] show ?thesis by (intro exI [of _ ?c]) simp
qed

text \<open>
  Claim C14. An accepted proposal of the peer cannot take money. Let the balance of this side plus any
  pending payment it offered fit into 64 bits, as it does in every state whose amounts add up to the
  capacity. When \<^verbatim>\<open>classify_peer_update\<close> does not reject a proposed state, the balance of this side does not
  fall; every pending payment that counts in the current state is kept with its terms, except one that this
  side had offered, which is either refunded in full or released against a preimage of its payment hash;
  and every payment that counts in the proposed state has the id of a current one, or is offered by the
  peer, under the next id and with an expiry more than one block ahead. Of payments that share an id the
  last one counts, of payments with different ids every one; a payment hidden by a later one of the same
  id is not protected (\<open>shadowed_payment_dropped\<close>).
\<close>

theorem accepted_peer_update_safe:
  assumes "pu_kind (classify_peer_update cr c new pre ht) \<noteq> Reject"
    and "\<And>h. h \<in> set (cs_htlcs (ch_cur c)) \<Longrightarrow> h_offered_by_a h = ch_is_a c
      \<Longrightarrow> unat (ch_bal (ch_cur c) (ch_is_a c)) + unat (h_amount h) < 2 ^ 64"
  shows "ch_bal (ch_cur c) (ch_is_a c) \<le> ch_bal new (ch_is_a c)
    \<and> (\<forall>h. htlc_counts (cs_htlcs (ch_cur c)) h \<longrightarrow> (\<exists>h'\<in>set (cs_htlcs new). h_id h' = h_id h \<and> same_terms h h')
         \<or> h_offered_by_a h = ch_is_a c \<and>
           (unat (ch_bal new (ch_is_a c)) = unat (ch_bal (ch_cur c) (ch_is_a c)) + unat (h_amount h)
            \<or> hash_preimage_hex cr pre = h_payment_hash h))
    \<and> (\<forall>h. htlc_counts (cs_htlcs new) h \<longrightarrow> h_id h \<in> h_id ` set (cs_htlcs (ch_cur c))
         \<or> h_offered_by_a h \<noteq> ch_is_a c \<and> h_id h = cs_next_htlc_id (ch_cur c) \<and> ht + 1 < h_expiry h)"
proof -
  let ?old = "ch_cur c" and ?r = "classify_peer_update cr c new pre ht"
  let ?mine = "\<lambda>s. ch_bal s (ch_is_a c)"
  note ck = accepted_checks [OF assms(1)]
  have plus: "unat (?mine ?old + h_amount h) = unat (?mine ?old) + unat (h_amount h)"
    if "h \<in> set (cs_htlcs ?old)" "h_offered_by_a h = ch_is_a c" for h
    using assms(2) [OF that] by (intro u64_add_ok) simp
  have "?mine ?old \<le> ?mine new" using ck(4) plus by (auto simp: word_le_nat_alt)
  moreover have "(\<exists>h'\<in>set (cs_htlcs new). h_id h' = h_id h \<and> same_terms h h')
      \<or> h_offered_by_a h = ch_is_a c \<and> (unat (?mine new) = unat (?mine ?old) + unat (h_amount h) \<or> hash_preimage_hex cr pre = h_payment_hash h)"
    if "htlc_counts (cs_htlcs ?old) h" for h
  proof -
    have m: "map_of (htlc_map (cs_htlcs ?old)) (h_id h) = Some h" using that by (simp add: htlc_counts_def)
    show ?thesis
    proof (cases "map_of (htlc_map (cs_htlcs new)) (h_id h)")
      case None
      have "(h_id h, h) \<in> set (htlc_map (cs_htlcs ?old))" using m by (simp add: htlc_map_entry)
      from bspec [OF ck(2) this] None plus [of h] htlc_map_Some [OF m] show ?thesis by auto
    next
      case (Some h')
      then have "(h_id h, h') \<in> set (htlc_map (cs_htlcs new))" by (simp add: htlc_map_entry)
      from bspec [OF ck(1) this] m have "same_terms h h'" by simp
      with htlc_map_Some [OF Some] show ?thesis by auto
    qed
  qed
  moreover have "h_id h \<in> h_id ` set (cs_htlcs ?old) \<or> h_offered_by_a h \<noteq> ch_is_a c \<and> h_id h = cs_next_htlc_id ?old \<and> ht + 1 < h_expiry h"
    if "htlc_counts (cs_htlcs new) h" for h
  proof -
    have "(h_id h, h) \<in> set (htlc_map (cs_htlcs new))" using that by (simp add: htlc_counts_def htlc_map_entry)
    from bspec [OF ck(3) this] show ?thesis using htlc_map_None [of "cs_htlcs ?old" "h_id h"] by auto
  qed
  ultimately show ?thesis by blast
qed

theorem accepted_peer_update_safe_witness:
  "\<exists>c new. pu_kind (classify_peer_update toy_ml c new [] 3) = AddHtlc \<and> ch_bal (ch_cur c) (ch_is_a c) \<le> ch_bal new (ch_is_a c)
     \<and> (\<forall>h\<in>set (cs_htlcs new). h_offered_by_a h \<noteq> ch_is_a c) \<and> cs_htlcs new \<noteq> []"
proof -
  let ?w = "\<lparr>wk_private_key = ''k'', wk_public_key = ''p'', wk_address = ''b'', wk_algorithm = ''ml-dsa-87''\<rparr>"
  let ?c = "(new_channel ?w ''q'' False (empty_info\<lparr>ci_capacity := 9\<rparr>) ''seed'')\<lparr>ch_cur := empty_state\<lparr>cs_bal_a := 5, cs_bal_b := 4\<rparr>\<rparr>"
  let ?n = "empty_state\<lparr>cs_n := 1, cs_bal_a := 3, cs_bal_b := 4, cs_next_htlc_id := 1,
     cs_htlcs := [\<lparr>h_id = 0, h_offered_by_a = True, h_amount = 2, h_payment_hash = ''ab'', h_expiry = 9\<rparr>]\<rparr>"
  have k: "pu_kind (classify_peer_update toy_ml ?c ?n [] 3) = AddHtlc"
    by (simp add: classify_peer_update_def Let_def htlc_map_def new_channel_def empty_state_def ch_bal_def accept_def reject_def)
  have "pu_kind (classify_peer_update toy_ml ?c ?n [] 3) \<noteq> Reject" using k by simp
  from accepted_peer_update_safe [OF this] k htlc_counts_distinct [of "cs_htlcs ?n"] show ?thesis
    by (intro exI [of _ ?c] exI [of _ ?n]) (simp add: new_channel_def empty_state_def empty_info_def ch_bal_def)
qed

end
