(* ===== verification/Onion.thy ===== *)
theory Onion
  imports Crypto_Model
begin

text \<open>
  The onion packets of routed channel payments (\<^verbatim>\<open>src/htlc_onion.cpp\<close>): building a packet for a route of at
  most four hops and peeling one layer. HMAC-SHA3-512, the AES-256-CTR key stream and ML-KEM-1024 are
  external: they are fields of the record \<open>onion_env\<close>; the random bytes of a build are arguments. The
  theorems show that a packet built for a route is peeled, hop by hop, to exactly the instructions of
  the route, that every forwarded packet has the same size, and which packets a hop refuses.
\<close>

section \<open>Bytes\<close>

type_synonym bytes = "u8 list"

definition bytes_of :: "string \<Rightarrow> bytes" where
  "bytes_of s = map of_char s"

definition chars_of :: "bytes \<Rightarrow> string" where
  "chars_of b = map (\<lambda>x. char_of (unat x)) b"

definition xor_bytes :: "bytes \<Rightarrow> bytes \<Rightarrow> bytes" where
  "xor_bytes a b = map2 xor a b"

definition zeros :: "nat \<Rightarrow> bytes" where
  "zeros n = replicate n 0"

section \<open>Sizes\<close>

definition kMaxHops :: nat where "kMaxHops = 4"
definition kKemPk :: nat where "kKemPk = 1568"
definition kKemSk :: nat where "kKemSk = 3168"
definition kKemCt :: nat where "kKemCt = 1568"
definition kHdr :: nat where "kHdr = 64"
definition kMac :: nat where "kMac = 32"
definition kEntry :: nat where "kEntry = kHdr + kMac + kKemCt"
definition kRouting :: nat where "kRouting = kMaxHops * kEntry"
definition kPacket :: nat where "kPacket = kKemCt + kRouting + kMac"

section \<open>External functions\<close>

text \<open>
  \<open>hmac_sha3\<close> takes key and message, \<open>ctr_stream\<close> key and length; \<open>mlkem_sizes\<close> are the lengths of public
  key, secret key, ciphertext and shared secret that \<^verbatim>\<open>OQS_KEM_new\<close> reports, \<open>None\<close> when it returns no
  object; \<open>mlkem_encaps\<close> takes the randomness of the call and the public key, \<open>mlkem_decaps\<close> the secret
  key and the ciphertext, \<open>mlkem_keypair\<close> the randomness; \<open>None\<close> is a status other than \<^verbatim>\<open>OQS_SUCCESS\<close>.
\<close>

record kem_sizes =
  ks_pk :: nat
  ks_sk :: nat
  ks_ct :: nat
  ks_ss :: nat

record onion_env =
  hmac_sha3 :: "bytes \<Rightarrow> bytes \<Rightarrow> bytes"
  ctr_stream :: "bytes \<Rightarrow> nat \<Rightarrow> bytes"
  mlkem_sizes :: "kem_sizes option"
  mlkem_keypair :: "bytes \<Rightarrow> (bytes \<times> bytes) option"
  mlkem_encaps :: "bytes \<Rightarrow> bytes \<Rightarrow> (bytes \<times> bytes) option"
  mlkem_decaps :: "bytes \<Rightarrow> bytes \<Rightarrow> bytes option"

definition kdf :: "onion_env \<Rightarrow> bytes \<Rightarrow> string \<Rightarrow> nat \<Rightarrow> bytes" where
  "kdf en ss label n = take n (hmac_sha3 en ss (bytes_of label))"

definition onion_stream :: "onion_env \<Rightarrow> bytes \<Rightarrow> nat \<Rightarrow> bytes" where
  "onion_stream en key n = ctr_stream en key n"

definition onion_mac :: "onion_env \<Rightarrow> bytes \<Rightarrow> bytes \<Rightarrow> string \<Rightarrow> bytes" where
  "onion_mac en key routing assoc = take kMac (hmac_sha3 en key (routing @ bytes_of assoc))"

text \<open>\<^verbatim>\<open>put64\<close> and \<^verbatim>\<open>get64\<close>: big-endian.\<close>

definition put64 :: "u64 \<Rightarrow> bytes" where
  "put64 v = map (\<lambda>i. ucast (drop_bit (8 * (7 - i)) v)) [0..<8]"

definition get64 :: "bytes \<Rightarrow> u64" where
  "get64 p = foldl (\<lambda>v b. or (push_bit 8 v) (ucast b)) 0 (take 8 p)"

definition encaps :: "onion_env \<Rightarrow> bytes \<Rightarrow> bytes \<Rightarrow> (bytes \<times> bytes) option" where
  "encaps en rnd pk =
     (case mlkem_sizes en of
        None \<Rightarrow> None
      | Some z \<Rightarrow> if length pk = ks_pk z then mlkem_encaps en rnd pk else None)"

definition onion_keygen :: "onion_env \<Rightarrow> bytes \<Rightarrow> (bytes \<times> bytes) option" where
  "onion_keygen en rnd = (case mlkem_sizes en of None \<Rightarrow> None | Some z \<Rightarrow> mlkem_keypair en rnd)"

section \<open>Building\<close>

record onion_hop =
  oh_pubkey :: bytes
  oh_next_chan :: string
  oh_amount :: u64
  oh_expiry :: u64

text \<open>What \<^verbatim>\<open>build\<close> keeps of one hop: ciphertext, MAC key and key stream.\<close>

record hop_keys =
  hk_ct :: bytes
  hk_mu :: bytes
  hk_ks :: bytes

definition hop_keys_of :: "onion_env \<Rightarrow> bytes \<Rightarrow> bytes \<Rightarrow> hop_keys" where
  "hop_keys_of en ct ss =
     \<lparr>hk_ct = ct, hk_mu = kdf en ss ''ADD-ONION mu'' 32,
      hk_ks = onion_stream en (kdf en ss ''ADD-ONION rho'' 32) (kRouting + kEntry)\<rparr>"

text \<open>The first loop; \<open>i\<close> is the index of the hop and \<open>rnds\<close> the randomness of the encapsulations.\<close>

fun derive_keys :: "onion_env \<Rightarrow> nat \<Rightarrow> nat \<Rightarrow> bytes list \<Rightarrow> onion_hop list \<Rightarrow> hop_keys list res" where
  "derive_keys en n i rnds [] = Inr []"
| "derive_keys en n i rnds (h # hs) =
     (case encaps en (hd rnds) (oh_pubkey h) of
        None \<Rightarrow> Inl (''onion: bad route key for hop '' @ dec i)
      | Some (ct, ss) \<Rightarrow>
          if length (oh_next_chan h) > 32 \<or> (i + 1 < n) = (oh_next_chan h = []) then Inl ''onion: bad hop channel''
          else case derive_keys en n (i + 1) (tl rnds) hs of
                 Inl e \<Rightarrow> Inl e
               | Inr ks \<Rightarrow> Inr (hop_keys_of en ct ss # ks))"

definition filler_step :: "bytes \<Rightarrow> hop_keys \<Rightarrow> bytes" where
  "filler_step f k = xor_bytes (f @ zeros kEntry) (drop (kRouting - length f) (hk_ks k))"

definition onion_filler :: "hop_keys list \<Rightarrow> bytes" where
  "onion_filler ks = foldl filler_step [] ks"

definition onion_header :: "bool \<Rightarrow> onion_hop \<Rightarrow> bytes" where
  "onion_header final h =
     [if final then 1 else 0] @ bytes_of (oh_next_chan h) @ zeros (32 - length (oh_next_chan h))
       @ put64 (oh_amount h) @ put64 (oh_expiry h) @ zeros 15"

text \<open>The routing block of the last hop and its MAC; the random padding is as long as \<^verbatim>\<open>pad\<close>.\<close>

definition last_layer :: "onion_env \<Rightarrow> string \<Rightarrow> (nat \<Rightarrow> bytes) \<Rightarrow> bytes \<Rightarrow> onion_hop \<Rightarrow> hop_keys \<Rightarrow> bytes \<times> bytes" where
  "last_layer en assoc rand filler h k =
     (let plain = onion_header True h @ zeros (kEntry - kHdr) @ rand (kRouting - length filler - kEntry);
          r = xor_bytes plain (hk_ks k) @ filler
      in (r, onion_mac en (hk_mu k) r assoc))"

definition add_layer :: "onion_env \<Rightarrow> string \<Rightarrow> onion_hop \<Rightarrow> hop_keys \<Rightarrow> bytes \<Rightarrow> bytes \<times> bytes \<Rightarrow> bytes \<times> bytes" where
  "add_layer en assoc h k next_ct x =
     (let buf = onion_header False h @ snd x @ next_ct @ fst x;
          r = xor_bytes (take kRouting buf) (hk_ks k)
      in (r, onion_mac en (hk_mu k) r assoc))"

text \<open>The loop from the last hop to the first.\<close>

fun onion_layers :: "onion_env \<Rightarrow> string \<Rightarrow> (nat \<Rightarrow> bytes) \<Rightarrow> bytes \<Rightarrow> (onion_hop \<times> hop_keys) list \<Rightarrow> bytes \<times> bytes" where
  "onion_layers en assoc rand filler [] = ([], [])"
| "onion_layers en assoc rand filler [(h, k)] = last_layer en assoc rand filler h k"
| "onion_layers en assoc rand filler ((h, k) # (h', k') # hs) =
     add_layer en assoc h k (hk_ct k') (onion_layers en assoc rand filler ((h', k') # hs))"

definition onion_build ::
    "onion_env \<Rightarrow> bytes list \<Rightarrow> (nat \<Rightarrow> bytes) \<Rightarrow> onion_hop list \<Rightarrow> string \<Rightarrow> bytes res" where
  "onion_build en rnds rand hops assoc =
     (let n = length hops in
      if n = 0 \<or> n > kMaxHops then Inl ''onion: 1..4 hops''
      else case derive_keys en n 0 rnds hops of
             Inl e \<Rightarrow> Inl e
           | Inr ks \<Rightarrow>
               (let (r, m) = onion_layers en assoc rand (onion_filler (butlast ks)) (zip hops ks)
                in Inr (hk_ct (hd ks) @ r @ m)))"

section \<open>Peeling\<close>

record onion_peeled =
  op_final :: bool
  op_next_chan :: string
  op_amount :: u64
  op_expiry :: u64
  op_next_packet :: bytes
  op_replay_tag :: string

definition onion_peel :: "onion_env \<Rightarrow> bytes \<Rightarrow> bytes \<Rightarrow> string \<Rightarrow> onion_peeled res" where
  "onion_peel en sk packet assoc =
     (if length packet \<noteq> kPacket then Inl ''onion: bad size''
      else case mlkem_sizes en of
        None \<Rightarrow> Inl ''onion: bad key''
      | Some z \<Rightarrow>
          if length sk \<noteq> ks_sk z then Inl ''onion: bad key''
          else case mlkem_decaps en sk (take (ks_ct z) packet) of
            None \<Rightarrow> Inl ''onion: decaps failed''
          | Some ss \<Rightarrow>
              (let rho = kdf en ss ''ADD-ONION rho'' 32;
                   mu = kdf en ss ''ADD-ONION mu'' 32;
                   tag = to_hex (chars_of (kdf en ss ''ADD-ONION replay'' 16));
                   r = take kRouting (drop kKemCt packet);
                   m = drop (kPacket - kMac) packet in
               if onion_mac en mu r assoc \<noteq> m then Inl ''onion: bad mac''
               else
                 (let ks = onion_stream en rho (kRouting + kEntry);
                      buf = xor_bytes (r @ zeros kEntry) ks;
                      final = (buf ! 0 = 1);
                      chan = chars_of (takeWhile (\<lambda>b. b \<noteq> 0) (take 32 (drop 1 buf)));
                      am = get64 (drop 33 buf);
                      ex = get64 (drop 41 buf) in
                  if buf ! 0 > 1 then Inl ''onion: bad header''
                  else if final then
                    Inr \<lparr>op_final = True, op_next_chan = chan, op_amount = am, op_expiry = ex, op_next_packet = [], op_replay_tag = tag\<rparr>
                  else if chan = [] then Inl ''onion: missing next channel''
                  else Inr \<lparr>op_final = False, op_next_chan = chan, op_amount = am, op_expiry = ex,
                         op_next_packet = take kKemCt (drop (kHdr + kMac) buf) @ drop kEntry buf @ take kMac (drop kHdr buf),
                         op_replay_tag = tag\<rparr>)))"

section \<open>Bytes and sizes\<close>

lemma length_xor [simp]: "length (xor_bytes a b) = min (length a) (length b)"
  by (simp add: xor_bytes_def)

lemma length_zeros [simp]: "length (zeros n) = n"
  by (simp add: zeros_def)

lemma take_xor: "take n (xor_bytes a b) = xor_bytes (take n a) (take n b)"
  by (simp add: xor_bytes_def take_map take_zip)

lemma drop_xor: "drop n (xor_bytes a b) = xor_bytes (drop n a) (drop n b)"
  by (simp add: xor_bytes_def drop_map drop_zip)

lemma xor_append:
  "length a = length c \<Longrightarrow> xor_bytes (a @ b) (c @ d) = xor_bytes a c @ xor_bytes b d"
  by (simp add: xor_bytes_def)

lemma xor_xor: "length a \<le> length b \<Longrightarrow> xor_bytes (xor_bytes a b) b = a"
proof (rule nth_equalityI)
  fix i assume "length a \<le> length b" "i < length (xor_bytes (xor_bytes a b) b)"
  then show "xor_bytes (xor_bytes a b) b ! i = a ! i" by (simp add: xor_bytes_def xor.assoc)
qed simp

lemma xor_zeros: "length b \<le> n \<Longrightarrow> xor_bytes (zeros n) b = b"
  by (rule nth_equalityI) (simp_all add: xor_bytes_def zeros_def)

lemma xor_take: "length a \<le> n \<Longrightarrow> xor_bytes a (take n b) = xor_bytes a b"
  by (rule nth_equalityI) (simp_all add: xor_bytes_def)

lemma length_bytes_of [simp]: "length (bytes_of s) = length s"
  by (simp add: bytes_of_def)

lemma chars_of_bytes_of [simp]: "chars_of (bytes_of s) = s"
proof -
  have two_pow_8: "(2::nat) ^ LENGTH(8) = 256" by simp
  have "unat (of_char c :: u8) = of_char c" for c :: char
    by (metis of_nat_of_char of_char_mod_256 unat_of_nat two_pow_8)
  then show ?thesis by (induction s) (simp_all add: chars_of_def bytes_of_def)
qed

lemma length_put64 [simp]: "length (put64 v) = 8"
  by (simp add: put64_def)

lemma next_byte: "or (push_bit 8 (drop_bit (s + 8) v)) (ucast (ucast (drop_bit s v) :: u8)) = drop_bit s (v :: u64)"
proof (rule bit_word_eqI)
  fix n assume n: "n < LENGTH(64)"
  show "bit (or (push_bit 8 (drop_bit (s + 8) v)) (ucast (ucast (drop_bit s v) :: u8))) n = bit (drop_bit s v) n"
  proof (cases "n < 8")
    case False
    then have "s + 8 + (n - 8) = s + n" by simp
    with False n show ?thesis by (simp add: bit_simps)
  qed (use n in \<open>simp add: bit_simps\<close>)
qed

lemma get64_put64: "get64 (put64 v @ r) = v"
proof -
  have top: "drop_bit 64 v = 0" by (rule bit_word_eqI) (simp add: bit_simps)
  have n: "or (push_bit 8 (drop_bit t v)) (ucast (ucast (drop_bit s v) :: u8)) = drop_bit s v" if "t = s + 8" for s t
    using next_byte [of s v] that by simp
  have "get64 (put64 v @ r) = foldl (\<lambda>w b. or (push_bit 8 w) (ucast b)) (drop_bit 64 v)
     (map (\<lambda>s. ucast (drop_bit s v) :: u8) [56, 48, 40, 32, 24, 16, 8, 0])"
    by (simp add: get64_def put64_def top upt_rec)
  also have "\<dots> = v" by (simp only: list.map foldl_Cons foldl_Nil n numeral_eq_iff) (simp add: n)
  finally show ?thesis .
qed

lemma kRouting_split: "kRouting = 4 * kEntry" "kEntry = kHdr + kMac + kKemCt" "kHdr = 64" "kMac = 32"
  by (simp_all add: kRouting_def kMaxHops_def kEntry_def kHdr_def kMac_def)

lemma length_header: "length (oh_next_chan h) \<le> 32 \<Longrightarrow> length (onion_header b h) = kHdr"
  by (simp add: onion_header_def kHdr_def)

section \<open>Layers\<close>

text \<open>Key streams and ciphertexts of the lengths that the packet format counts on.\<close>

definition keys_fit :: "hop_keys \<Rightarrow> bool" where
  "keys_fit k \<longleftrightarrow> length (hk_ks k) = kRouting + kEntry \<and> length (hk_ct k) = kKemCt"

lemma filler_snoc: "onion_filler (ks @ [k]) = filler_step (onion_filler ks) k"
  by (simp add: onion_filler_def)

lemma length_filler: "list_all keys_fit ks \<Longrightarrow> length ks \<le> 4 \<Longrightarrow> length (onion_filler ks) = length ks * kEntry"
proof (induction ks rule: rev_induct)
  case (snoc k ks)
  have "length ks * kEntry \<le> kRouting" using snoc.prems(2) by (simp add: kRouting_split(1))
  with snoc show ?case by (simp add: filler_snoc filler_step_def keys_fit_def)
qed (simp add: onion_filler_def)

text \<open>Undoing one layer: the tail that the shift leaves is the key stream beyond the block.\<close>

lemma undo_layer:
  assumes "length b = kRouting + kEntry" and "length ks = kRouting + kEntry" and "drop kRouting b = drop kRouting ks"
  shows "xor_bytes (xor_bytes (take kRouting b) ks @ zeros kEntry) ks = b"
proof -
  have "xor_bytes (xor_bytes (take kRouting b) ks @ zeros kEntry) (take kRouting ks @ drop kRouting ks)
      = xor_bytes (xor_bytes (take kRouting b) ks) (take kRouting ks) @ xor_bytes (zeros kEntry) (drop kRouting ks)"
    using assms by (intro xor_append) simp
  also have "\<dots> = take kRouting b @ drop kRouting b"
    using assms by (simp add: xor_take xor_xor xor_zeros)
  finally show ?thesis by simp
qed

text \<open>
  One step of the filler argument, for a block \<open>r'\<close> whose last \<open>m + 1\<close> entries are the filler of \<open>m + 1\<close>
  hops: the layer around it ends with the filler of \<open>m\<close> hops, and its key stream supplies the missing entry.
\<close>

lemma filler_unwind:
  assumes k: "keys_fit k" and f: "length f = m * kEntry" and m: "m \<le> 2" and r': "length r' = kRouting"
    and tail: "drop (kRouting - (m + 1) * kEntry) r' = filler_step f k" and e: "length e = kEntry"
  shows "drop (kRouting - m * kEntry) (xor_bytes (take kRouting (e @ r')) (hk_ks k)) = f"
    and "drop (kRouting - kEntry) r' = drop kRouting (hk_ks k)"
proof -
  let ?E = kEntry and ?R = kRouting and ?s = "hk_ks k"
  have mR: "(m + 2) * ?E \<le> ?R" using m by (simp add: kRouting_split(1))
  then have le: "m * ?E + ?E \<le> ?R - ?E" "m * ?E + ?E \<le> ?R" by (simp_all add: algebra_simps)
  have fs: "filler_step f k = xor_bytes f (take (m * ?E) (drop (?R - m * ?E) ?s)) @ drop ?R ?s"
  proof -
    have "drop (?R - m * ?E) ?s = take (m * ?E) (drop (?R - m * ?E) ?s) @ drop ?R ?s"
      using append_take_drop_id [of "m * ?E" "drop (?R - m * ?E) ?s"] le by (simp add: drop_drop)
    then have "filler_step f k = xor_bytes (f @ zeros ?E) (take (m * ?E) (drop (?R - m * ?E) ?s) @ drop ?R ?s)"
      by (simp add: filler_step_def f)
    also have "\<dots> = xor_bytes f (take (m * ?E) (drop (?R - m * ?E) ?s)) @ xor_bytes (zeros ?E) (drop ?R ?s)"
      using k f le by (intro xor_append) (simp add: keys_fit_def)
    finally show ?thesis using k by (simp add: xor_zeros keys_fit_def)
  qed
  have lf: "length (xor_bytes f (take (m * ?E) (drop (?R - m * ?E) ?s))) = m * ?E"
    using k f le by (simp add: keys_fit_def)
  have "drop (?R - ?E) r' = drop (m * ?E) (drop (?R - (m + 1) * ?E) r')" using le by (simp add: drop_drop algebra_simps)
  also have "\<dots> = drop ?R ?s" unfolding tail fs using lf by simp
  finally show "drop (?R - ?E) r' = drop ?R ?s" .
  have "drop (?R - m * ?E) (take ?R (e @ r')) = take (m * ?E) (drop (?R - (m + 1) * ?E) r')"
    using e le by (simp add: drop_take algebra_simps)
  also have "\<dots> = xor_bytes f (take (m * ?E) (drop (?R - m * ?E) ?s))" unfolding tail fs using lf by simp
  finally have d: "drop (?R - m * ?E) (take ?R (e @ r')) = xor_bytes f (take (m * ?E) (drop (?R - m * ?E) ?s))" .
  show "drop (?R - m * ?E) (xor_bytes (take ?R (e @ r')) ?s) = f"
    unfolding drop_xor d using k f le
    by (metis dual_order.refl keys_fit_def lf xor_take xor_xor length_take length_xor min.bounded_iff)
qed

text \<open>What the packet format relies on of the external functions.\<close>

definition onion_env_ok :: "onion_env \<Rightarrow> bool" where
  "onion_env_ok en \<longleftrightarrow> (\<forall>k m. length (hmac_sha3 en k m) = 64) \<and> (\<forall>k n. length (ctr_stream en k n) = n)
     \<and> mlkem_sizes en = Some \<lparr>ks_pk = kKemPk, ks_sk = kKemSk, ks_ct = kKemCt, ks_ss = 32\<rparr>"

text \<open>A key pair of ML-KEM: encapsulation succeeds and decapsulation returns its secret.\<close>

definition kem_pair :: "onion_env \<Rightarrow> bytes \<Rightarrow> bytes \<Rightarrow> bool" where
  "kem_pair en sk pk \<longleftrightarrow> length pk = kKemPk \<and> length sk = kKemSk
     \<and> (\<forall>rnd. \<exists>ct ss. mlkem_encaps en rnd pk = Some (ct, ss) \<and> length ct = kKemCt \<and> mlkem_decaps en sk ct = Some ss)"

lemma length_mac: "onion_env_ok en \<Longrightarrow> length (onion_mac en k r a) = kMac"
  by (simp add: onion_env_ok_def onion_mac_def kMac_def)

definition layer_fits :: "onion_hop \<times> hop_keys \<Rightarrow> bool" where
  "layer_fits x \<longleftrightarrow> keys_fit (snd x) \<and> length (oh_next_chan (fst x)) \<le> 32"

lemma layers_ok:
  assumes en: "onion_env_ok en" and rnd: "\<And>n. length (rand n) = n"
  shows "xs \<noteq> [] \<Longrightarrow> list_all layer_fits xs \<Longrightarrow> list_all keys_fit pre \<Longrightarrow> length pre + length xs \<le> 4
    \<Longrightarrow> filler = onion_filler (pre @ butlast (map snd xs))
    \<Longrightarrow> length (fst (onion_layers en assoc rand filler xs)) = kRouting
      \<and> drop (kRouting - length pre * kEntry) (fst (onion_layers en assoc rand filler xs)) = onion_filler pre
      \<and> snd (onion_layers en assoc rand filler xs) = onion_mac en (hk_mu (snd (hd xs))) (fst (onion_layers en assoc rand filler xs)) assoc"
proof (induction xs arbitrary: pre)
  case (Cons x hs)
  obtain h k where x: "x = (h, k)" by (cases x)
  have fits: "keys_fit k" "length (oh_next_chan h) \<le> 32" using Cons.prems(2) by (simp_all add: x layer_fits_def)
  have lp: "length (onion_filler pre) = length pre * kEntry" using Cons.prems by (intro length_filler) simp_all
  have le: "length pre * kEntry + kEntry \<le> kRouting" using Cons.prems(4) by (simp add: kRouting_split(1))
  have lh: "length (onion_header b h) = kHdr" for b using fits(2) by (rule length_header)
  show ?case
  proof (cases hs)
    case Nil
    have "length (onion_header True h @ zeros (kEntry - kHdr) @ rand (kRouting - length (onion_filler pre) - kEntry)) = kRouting - length pre * kEntry"
      using le lp lh rnd by (simp add: kRouting_split(2))
    with Nil lp le fits show ?thesis using Cons.prems(5) by (simp add: x last_layer_def Let_def keys_fit_def)
  next
    case (Cons y hs')
    obtain h' k' where y: "y = (h', k')" by (cases y)
    let ?x = "onion_layers en assoc rand filler hs"
    let ?e = "onion_header False h @ snd ?x @ hk_ct k'"
    have ih: "length (fst ?x) = kRouting \<and> drop (kRouting - length (pre @ [k]) * kEntry) (fst ?x) = onion_filler (pre @ [k])
        \<and> snd ?x = onion_mac en (hk_mu (snd (hd hs))) (fst ?x) assoc"
      by (rule Cons.IH) (use Cons.prems fits local.Cons in \<open>simp_all add: x\<close>)
    have el: "length ?e = kEntry"
      using ih lh length_mac [OF en] Cons.prems(2) local.Cons y by (simp add: kRouting_split(2) layer_fits_def keys_fit_def)
    have tl: "drop (kRouting - (length pre + 1) * kEntry) (fst ?x) = filler_step (onion_filler pre) k"
      using ih by (simp add: filler_snoc)
    have m: "length pre \<le> 2" using Cons.prems(4) local.Cons by simp
    have "onion_layers en assoc rand filler (x # hs) = add_layer en assoc h k (hk_ct k') ?x"
      by (simp add: x y local.Cons)
    then show ?thesis using filler_unwind(1) [OF fits(1) lp m _ tl el] ih el fits(1)
      by (simp add: add_layer_def Let_def x keys_fit_def)
  qed
qed simp

section \<open>Peeling what was built\<close>

text \<open>The buffer that a hop decrypts and what it reads from it.\<close>

lemma read_header:
  assumes "length (oh_next_chan h) \<le> 32" and "CHR 0x00 \<notin> set (oh_next_chan h)"
  shows "onion_header b h ! 0 = (if b then 1 else 0)"
    and "chars_of (takeWhile (\<lambda>x. x \<noteq> 0) (take 32 (drop 1 (onion_header b h @ r)))) = oh_next_chan h"
    and "get64 (drop 33 (onion_header b h @ r)) = oh_amount h" and "get64 (drop 41 (onion_header b h @ r)) = oh_expiry h"
proof -
  let ?n = "length (oh_next_chan h)"
  let ?c = "bytes_of (oh_next_chan h) @ zeros (32 - ?n)"
  have hd: "onion_header b h = (if b then 1 else 0) # ?c @ put64 (oh_amount h) @ put64 (oh_expiry h) @ zeros 15"
    by (simp add: onion_header_def)
  have lc: "length ?c = 32" using assms(1) by simp
  show "onion_header b h ! 0 = (if b then 1 else 0)" by (simp add: hd)
  have d1: "drop 1 (onion_header b h @ r) = ?c @ put64 (oh_amount h) @ put64 (oh_expiry h) @ zeros 15 @ r" by (simp add: hd)
  have nz: "x \<in> set (bytes_of (oh_next_chan h)) \<Longrightarrow> x \<noteq> 0" for x
  proof
    assume "x \<in> set (bytes_of (oh_next_chan h))" "x = 0"
    then obtain c where c: "c \<in> set (oh_next_chan h)" "(of_char c :: u8) = 0" by (auto simp: bytes_of_def)
    then have "c = CHR 0x00" using chars_of_bytes_of [of "[c]"] by (simp add: bytes_of_def chars_of_def) (simp add: char_of_def)
    with c assms(2) show False by simp
  qed
  have "takeWhile (\<lambda>x. x \<noteq> 0) ?c = bytes_of (oh_next_chan h)"
    using nz by (subst takeWhile_append2) (auto simp: zeros_def)
  then show "chars_of (takeWhile (\<lambda>x. x \<noteq> 0) (take 32 (drop 1 (onion_header b h @ r)))) = oh_next_chan h"
    unfolding d1 using lc by simp
  have "drop 33 (onion_header b h @ r) = drop 32 (drop 1 (onion_header b h @ r))" by (simp del: drop_append)
  also have "\<dots> = put64 (oh_amount h) @ put64 (oh_expiry h) @ zeros 15 @ r" unfolding d1 using lc by simp
  finally have d33: "drop 33 (onion_header b h @ r) = put64 (oh_amount h) @ put64 (oh_expiry h) @ zeros 15 @ r" .
  then show "get64 (drop 33 (onion_header b h @ r)) = oh_amount h" by (simp only: get64_put64)
  have "drop 41 (onion_header b h @ r) = drop 8 (drop 33 (onion_header b h @ r))" by (simp del: drop_append)
  also have "\<dots> = put64 (oh_expiry h) @ zeros 15 @ r" unfolding d33 by simp
  finally show "get64 (drop 41 (onion_header b h @ r)) = oh_expiry h" by (simp only: get64_put64)
qed

definition replay_tag :: "onion_env \<Rightarrow> bytes \<Rightarrow> string" where
  "replay_tag en ss = to_hex (chars_of (kdf en ss ''ADD-ONION replay'' 16))"

lemma peel_buffer:
  assumes en: "onion_env_ok en" and sk: "length sk = kKemSk" and ct: "length ct = kKemCt" and d: "mlkem_decaps en sk ct = Some ss"
    and r: "length r = kRouting" and m: "m = onion_mac en (hk_mu (hop_keys_of en ct ss)) r assoc"
    and buf: "xor_bytes (r @ zeros kEntry) (hk_ks (hop_keys_of en ct ss)) = onion_header b h @ rest"
    and h: "length (oh_next_chan h) \<le> 32" "CHR 0x00 \<notin> set (oh_next_chan h)" and ch: "b \<or> oh_next_chan h \<noteq> []"
  shows "onion_peel en sk (ct @ r @ m) assoc = Inr \<lparr>op_final = b, op_next_chan = oh_next_chan h, op_amount = oh_amount h, op_expiry = oh_expiry h,
     op_next_packet = (if b then [] else take kKemCt (drop kMac rest) @ drop (kMac + kKemCt) rest @ take kMac rest), op_replay_tag = replay_tag en ss\<rparr>"
proof -
  have lm: "length m = kMac" unfolding m by (rule length_mac [OF en])
  have lp: "length (ct @ r @ m) = kPacket" using ct r lm by (simp add: kPacket_def)
  have z: "mlkem_sizes en = Some \<lparr>ks_pk = kKemPk, ks_sk = kKemSk, ks_ct = kKemCt, ks_ss = 32\<rparr>" using en by (simp add: onion_env_ok_def)
  have lh: "length (onion_header b h) = kHdr" by (rule length_header [OF h(1)])
  have tr: "take kRouting (drop kKemCt (ct @ r @ m)) = r" "drop (kPacket - kMac) (ct @ r @ m) = m" "take kKemCt (ct @ r @ m) = ct"
    using ct r by (simp_all add: kPacket_def)
  have h0: "(onion_header b h @ rest) ! 0 = (if b then 1 else 0)"
    using read_header(1) [OF h] lh by (simp add: nth_append kHdr_def)
  have np: "take kKemCt (drop (kHdr + kMac) (onion_header b h @ rest)) = take kKemCt (drop kMac rest)"
      "drop kEntry (onion_header b h @ rest) = drop (kMac + kKemCt) rest" "take kMac (drop kHdr (onion_header b h @ rest)) = take kMac rest"
    using lh by (simp_all add: kEntry_def)
  have bf: "xor_bytes (r @ zeros kEntry) (onion_stream en (kdf en ss ''ADD-ONION rho'' 32) (kRouting + kEntry)) = onion_header b h @ rest"
    using buf by (simp add: hop_keys_of_def)
  have mc: "onion_mac en (kdf en ss ''ADD-ONION mu'' 32) r assoc = m" by (simp add: m hop_keys_of_def)
  show ?thesis
    unfolding onion_peel_def Let_def lp z option.case tr sk d bf mc h0 read_header(2-4) [OF h] np kem_sizes.simps
    using ch by (auto simp: replay_tag_def)
qed

section \<open>Routes\<close>

text \<open>The hops of a route in turn: each peels the packet it gets and passes the inner packet on.\<close>

fun onion_walk :: "onion_env \<Rightarrow> string \<Rightarrow> bytes list \<Rightarrow> bytes \<Rightarrow> onion_peeled list res" where
  "onion_walk en assoc [] p = Inr []"
| "onion_walk en assoc (sk # sks) p =
     (case onion_peel en sk p assoc of
        Inl e \<Rightarrow> Inl e
      | Inr x \<Rightarrow>
          if op_final x then Inr [x]
          else (case onion_walk en assoc sks (op_next_packet x) of Inl e \<Rightarrow> Inl e | Inr xs \<Rightarrow> Inr (x # xs)))"

text \<open>Channel names that fit the header, one for every hop but the last.\<close>

definition chan_ok :: "onion_hop \<Rightarrow> bool" where
  "chan_ok h \<longleftrightarrow> length (oh_next_chan h) \<le> 32 \<and> CHR 0x00 \<notin> set (oh_next_chan h)"

definition route_ok :: "onion_hop list \<Rightarrow> bool" where
  "route_ok hops \<longleftrightarrow> hops \<noteq> [] \<and> length hops \<le> kMaxHops \<and> list_all chan_ok hops
     \<and> list_all (\<lambda>h. oh_next_chan h \<noteq> []) (butlast hops) \<and> oh_next_chan (last hops) = []"

definition instructions :: "onion_hop \<Rightarrow> string \<times> u64 \<times> u64" where
  "instructions h = (oh_next_chan h, oh_amount h, oh_expiry h)"

definition learned :: "onion_peeled \<Rightarrow> string \<times> u64 \<times> u64" where
  "learned x = (op_next_chan x, op_amount x, op_expiry x)"

text \<open>A hop with its secret key and the encapsulation made for it.\<close>

definition hop_item_ok :: "onion_env \<Rightarrow> bytes \<times> onion_hop \<times> bytes \<times> bytes \<Rightarrow> bool" where
  "hop_item_ok en x \<longleftrightarrow> (case x of (sk, h, ct, ss) \<Rightarrow>
     length sk = kKemSk \<and> length ct = kKemCt \<and> mlkem_decaps en sk ct = Some ss \<and> chan_ok h)"

definition item_layer :: "onion_env \<Rightarrow> bytes \<times> onion_hop \<times> bytes \<times> bytes \<Rightarrow> onion_hop \<times> hop_keys" where
  "item_layer en x = (case x of (sk, h, ct, ss) \<Rightarrow> (h, hop_keys_of en ct ss))"

lemma item_layer_fits: "onion_env_ok en \<Longrightarrow> hop_item_ok en x \<Longrightarrow> layer_fits (item_layer en x)"
  by (auto simp: hop_item_ok_def item_layer_def layer_fits_def keys_fit_def hop_keys_of_def onion_env_ok_def onion_stream_def chan_ok_def
      split: prod.splits)

lemma last_layer_buffer:
  assumes "keys_fit k" and "length (oh_next_chan h) \<le> 32" and "length f \<le> kRouting - kEntry" and "\<And>n. length (rand n) = n"
  shows "\<exists>rest. xor_bytes (fst (last_layer en assoc rand f h k) @ zeros kEntry) (hk_ks k) = onion_header True h @ rest"
proof -
  define p where "p = onion_header True h @ zeros (kEntry - kHdr) @ rand (kRouting - length f - kEntry)"
  let ?b = "xor_bytes ((xor_bytes p (hk_ks k) @ f) @ zeros kEntry) (hk_ks k)"
  have lp: "length p = kRouting - length f"
    using assms(2-4) by (simp add: p_def length_header kRouting_split(1,2))
  then have le: "length p \<le> length (hk_ks k)" using assms(1) by (simp add: keys_fit_def)
  have "take (length p) ?b = xor_bytes (xor_bytes p (hk_ks k)) (take (length p) (hk_ks k))"
    using le by (simp add: take_xor xor_take)
  also have "\<dots> = p" using le by (simp add: xor_take xor_xor)
  finally have "?b = p @ drop (length p) ?b" by (metis append_take_drop_id)
  then have "?b = onion_header True h @ (zeros (kEntry - kHdr) @ rand (kRouting - length f - kEntry) @ drop (length p) ?b)"
    by (metis append.assoc p_def)
  then show ?thesis unfolding last_layer_def Let_def p_def [symmetric] fst_conv by blast
qed

lemma add_layer_buffer:
  assumes k: "keys_fit k" and x: "length (fst x) = kRouting" and m: "length (snd x) = kMac" and c: "length ct = kKemCt"
    and h: "length (oh_next_chan h) \<le> 32" and t: "drop (kRouting - kEntry) (fst x) = drop kRouting (hk_ks k)"
  shows "xor_bytes (fst (add_layer en assoc h k ct x) @ zeros kEntry) (hk_ks k) = onion_header False h @ snd x @ ct @ fst x"
proof -
  let ?b = "onion_header False h @ snd x @ ct @ fst x"
  have le: "length (onion_header False h @ snd x @ ct) = kEntry" using m c length_header [OF h] by (simp add: kEntry_def)
  have "kEntry \<le> kRouting" by (simp add: kRouting_split(1))
  then have "drop kRouting ((onion_header False h @ snd x @ ct) @ fst x) = drop (kRouting - kEntry) (fst x)"
    unfolding drop_append [of _ "onion_header False h @ snd x @ ct"] le by (simp only: le drop_all append_Nil)
  then have "xor_bytes (xor_bytes (take kRouting ?b) (hk_ks k) @ zeros kEntry) (hk_ks k) = ?b"
    using k x le t by (intro undo_layer) (simp_all add: keys_fit_def)
  then show ?thesis by (simp add: add_layer_def Let_def)
qed

lemma walk_layers:
  assumes en: "onion_env_ok en" and rnd: "\<And>n. length (rand n) = n"
  shows "xs \<noteq> [] \<Longrightarrow> list_all (hop_item_ok en) xs \<Longrightarrow> list_all (\<lambda>x. oh_next_chan (fst (snd x)) \<noteq> []) (butlast xs)
    \<Longrightarrow> list_all keys_fit pre \<Longrightarrow> length pre + length xs \<le> 4
    \<Longrightarrow> filler = onion_filler (pre @ butlast (map (snd \<circ> item_layer en) xs))
    \<Longrightarrow> l = onion_layers en assoc rand filler (map (item_layer en) xs)
    \<Longrightarrow> \<exists>ys. onion_walk en assoc (map fst xs) (fst (snd (snd (hd xs))) @ fst l @ snd l) = Inr ys
        \<and> map learned ys = map (instructions \<circ> fst \<circ> snd) xs \<and> map op_final ys = replicate (length xs - 1) False @ [True]
        \<and> list_all (\<lambda>y. length (op_next_packet y) = kPacket) (butlast ys)"
proof (induction xs arbitrary: pre l)
  case (Cons x hs)
  obtain sk h ct ss where x: "x = (sk, h, ct, ss)" by (cases x)
  let ?k = "hop_keys_of en ct ss"
  have it: "length sk = kKemSk" "length ct = kKemCt" "mlkem_decaps en sk ct = Some ss" "length (oh_next_chan h) \<le> 32" "CHR 0x00 \<notin> set (oh_next_chan h)"
    using Cons.prems(2) by (simp_all add: x hop_item_ok_def chan_ok_def)
  have lf: "list_all layer_fits (map (item_layer en) (x # hs))"
    using Cons.prems(2) item_layer_fits [OF en] by (auto simp: list_all_iff)
  then have kf: "keys_fit ?k" by (simp add: x item_layer_def layer_fits_def)
  have fl: "filler = onion_filler (pre @ butlast (map snd (map (item_layer en) (x # hs))))" using Cons.prems(6) by (simp only: map_map)
  have hk: "snd (hd (map (item_layer en) (x # hs))) = ?k" by (simp add: x item_layer_def)
  have ne0: "map (item_layer en) (x # hs) \<noteq> []" and le0: "length pre + length (map (item_layer en) (x # hs)) \<le> 4" using Cons.prems(5) by simp_all
  have L: "length (fst l) = kRouting" "snd l = onion_mac en (hk_mu ?k) (fst l) assoc"
    using layers_ok [OF en rnd ne0 lf Cons.prems(4) le0 fl, of assoc] unfolding hk Cons.prems(7) by blast+
  note peel = peel_buffer [OF en it(1-3) L _ it(4,5)]
  show ?case
  proof (cases hs)
    case Nil
    have "length filler \<le> kRouting - kEntry"
      using Cons.prems(4,5,6) Nil length_filler [of pre] by (simp add: kRouting_split(1))
    from last_layer_buffer [OF kf it(4) this rnd, of en assoc] obtain rest where
      "xor_bytes (fst l @ zeros kEntry) (hk_ks ?k) = onion_header True h @ rest"
      using Cons.prems(7) Nil by (auto simp: x item_layer_def)
    from peel [OF this] show ?thesis by (simp add: Nil x learned_def instructions_def)
  next
    case (Cons y hs')
    obtain sk' h' ct' ss' where y: "y = (sk', h', ct', ss')" by (cases y)
    define l' where "l' = onion_layers en assoc rand filler (map (item_layer en) hs)"
    have pk: "list_all keys_fit (pre @ [?k])" "length (pre @ [?k]) + length hs \<le> 4" using Cons.prems(4,5) kf by simp_all
    have fl': "filler = onion_filler ((pre @ [?k]) @ butlast (map (snd \<circ> item_layer en) hs))"
    proof -
      have "butlast (map f (x # hs)) = f x # butlast (map f hs)" for f :: "_ \<Rightarrow> hop_keys" using local.Cons by simp
      moreover have "(snd \<circ> item_layer en) x = ?k" by (simp add: x item_layer_def)
      ultimately show ?thesis using Cons.prems(6) by (simp only: append.assoc append.simps)
    qed
    have ne: "hs \<noteq> []" and ok: "list_all (hop_item_ok en) hs" "list_all (\<lambda>x. oh_next_chan (fst (snd x)) \<noteq> []) (butlast hs)" and nc: "oh_next_chan h \<noteq> []"
      using Cons.prems(2,3) local.Cons by (simp_all add: x)
    obtain ys where ys: "onion_walk en assoc (map fst hs) (ct' @ fst l' @ snd l') = Inr ys"
        "map learned ys = map (instructions \<circ> fst \<circ> snd) hs" "map op_final ys = replicate (length hs - 1) False @ [True]"
        "list_all (\<lambda>y. length (op_next_packet y) = kPacket) (butlast ys)"
      using Cons.IH [OF ne ok pk fl' l'_def] by (auto simp: local.Cons y)
    have lf': "list_all layer_fits (map (item_layer en) hs)" using lf by simp
    have L': "length (fst l') = kRouting" "drop (kRouting - length (pre @ [?k]) * kEntry) (fst l') = onion_filler (pre @ [?k])" "length (snd l') = kMac"
      using layers_ok [OF en rnd, where xs = "map (item_layer en) hs" and pre = "pre @ [?k]" and filler = filler and assoc = assoc]
        lf' pk fl' ne length_mac [OF en] unfolding map_map [symmetric] by (simp_all add: l'_def)
    have lc: "length ct' = kKemCt" using ok(1) by (simp add: local.Cons y hop_item_ok_def)
    have lpre: "length (onion_filler pre) = length pre * kEntry" using Cons.prems(4,5) by (intro length_filler) simp_all
    have m: "length pre \<le> 2" using Cons.prems(5) local.Cons by simp
    have tl: "drop (kRouting - (length pre + 1) * kEntry) (fst l') = filler_step (onion_filler pre) ?k" using L'(2) by (simp add: filler_snoc)
    have le: "length (onion_header False h @ snd l' @ ct') = kEntry" using L'(3) lc length_header [OF it(4)] by (simp add: kEntry_def)
    have l: "l = add_layer en assoc h ?k ct' l'"
    proof -
      have "item_layer en x = (h, ?k)" "item_layer en y = (h', hop_keys_of en ct' ss')" by (simp_all add: x y item_layer_def)
      moreover have "hk_ct (hop_keys_of en ct' ss') = ct'" by (simp add: hop_keys_of_def)
      ultimately show ?thesis using Cons.prems(7) by (simp add: l'_def local.Cons)
    qed
    have "xor_bytes (fst l @ zeros kEntry) (hk_ks ?k) = onion_header False h @ snd l' @ ct' @ fst l'"
      unfolding l by (rule add_layer_buffer [OF kf L'(1,3) lc it(4) filler_unwind(2) [OF kf lpre m L'(1) tl le]])
    define z where "z = \<lparr>op_final = False, op_next_chan = oh_next_chan h, op_amount = oh_amount h, op_expiry = oh_expiry h,
        op_next_packet = ct' @ fst l' @ snd l', op_replay_tag = replay_tag en ss\<rparr>"
    from peel [OF \<open>xor_bytes (fst l @ _) _ = _\<close>] nc L' lc have pl: "onion_peel en sk (ct @ fst l @ snd l) assoc = Inr z"
      by (simp add: z_def)
    have zp: "\<not> op_final z" "learned z = instructions h" "op_next_packet z = ct' @ fst l' @ snd l'" "length (op_next_packet z) = kPacket"
      using L' lc by (simp_all add: z_def learned_def instructions_def kPacket_def)
    have nel: "ys \<noteq> []" using ys(3) by auto
    have w: "onion_walk en assoc (map fst (x # hs)) (ct @ fst l @ snd l) = Inr (z # ys)" using pl ys(1) zp by (simp add: x)
    have "length hs = Suc (length hs - 1)" using ne by (cases hs) simp_all
    then have fin: "replicate (length (x # hs) - 1) False = False # replicate (length hs - 1) False" by (metis diff_Suc_1 length_Cons replicate_Suc)
    have "map learned (z # ys) = map (instructions \<circ> fst \<circ> snd) (x # hs)" using ys(2) zp(2) by (simp add: x)
    moreover have "map op_final (z # ys) = replicate (length (x # hs) - 1) False @ [True]" unfolding fin using ys(3) zp(1) by simp
    moreover have "list_all (\<lambda>y. length (op_next_packet y) = kPacket) (butlast (z # ys))" using ys(4) zp(4) nel by simp
    ultimately show ?thesis using w by (simp only: x list.sel fst_conv snd_conv) blast
  qed
qed simp

lemma derive_keys_items:
  assumes en: "onion_env_ok en"
  shows "list_all2 (\<lambda>sk h. kem_pair en sk (oh_pubkey h)) sks hops \<Longrightarrow> list_all chan_ok hops
    \<Longrightarrow> list_all (\<lambda>h. oh_next_chan h \<noteq> []) (butlast hops) \<Longrightarrow> (hops \<noteq> [] \<longrightarrow> oh_next_chan (last hops) = []) \<Longrightarrow> i + length hops = n
    \<Longrightarrow> \<exists>xs. derive_keys en n i rnds hops = Inr (map (snd \<circ> item_layer en) xs) \<and> map fst xs = sks \<and> map (fst \<circ> snd) xs = hops
        \<and> list_all (hop_item_ok en) xs"
proof (induction sks hops arbitrary: i rnds rule: list_all2_induct)
  case (Cons sk sks h hs)
  obtain ct ss where c: "mlkem_encaps en (hd rnds) (oh_pubkey h) = Some (ct, ss)" "length ct = kKemCt" "mlkem_decaps en sk ct = Some ss"
    using Cons.hyps(1) unfolding kem_pair_def by blast
  have e: "encaps en (hd rnds) (oh_pubkey h) = Some (ct, ss)"
    using en Cons.hyps(1) c(1) by (simp add: encaps_def onion_env_ok_def kem_pair_def)
  have ck: "\<not> (length (oh_next_chan h) > 32 \<or> (i + 1 < n) = (oh_next_chan h = []))"
    using Cons.prems by (cases hs) (auto simp: chan_ok_def)
  have "\<exists>xs. derive_keys en n (i + 1) (tl rnds) hs = Inr (map (snd \<circ> item_layer en) xs) \<and> map fst xs = sks \<and> map (fst \<circ> snd) xs = hs
        \<and> list_all (hop_item_ok en) xs"
    by (rule Cons.IH) (use Cons.prems in \<open>auto split: if_splits\<close>)
  then obtain xs where xs: "derive_keys en n (i + 1) (tl rnds) hs = Inr (map (snd \<circ> item_layer en) xs)" "map fst xs = sks" "map (fst \<circ> snd) xs = hs"
        "list_all (hop_item_ok en) xs" by blast
  define y where "y = (sk, h, ct, ss)"
  have "hop_item_ok en y" using c Cons.hyps(1) Cons.prems(1) by (simp add: y_def hop_item_ok_def kem_pair_def)
  then have ok: "list_all (hop_item_ok en) (y # xs)" using xs(4) by simp
  have d: "derive_keys en n i rnds (h # hs) = Inr (map (snd \<circ> item_layer en) (y # xs))"
    using e ck xs(1) by (simp add: y_def item_layer_def)
  have "map (fst \<circ> snd) (y # xs) = h # hs" "map fst (y # xs) = sk # sks" using xs(2,3) by (simp_all add: y_def)
  then show ?case using d ok by (intro exI [of _ "y # xs"] conjI)
qed simp

text \<open>
  Claim C18. An onion delivers its route. For every route of one to four hops with working route keys and
  channel names that fit, \<^verbatim>\<open>build\<close> returns a packet of the fixed size; when the hops peel it in turn, each with
  its own key and each passing on the packet it uncovers, every \<^verbatim>\<open>peel\<close> succeeds, each hop learns exactly
  its own next channel, amount and expiry, only the last one is told that it is final, and every packet on
  the way has the same size. ML-KEM decapsulates what it encapsulated; HMAC and the key stream have
  their documented lengths.
\<close>

theorem onion_delivers_route:
  assumes "onion_env_ok en" and "\<And>n. length (rand n) = n"
    and "list_all2 (\<lambda>sk h. kem_pair en sk (oh_pubkey h)) sks hops" and "route_ok hops"
  shows "\<exists>packet ys. onion_build en rnds rand hops assoc = Inr packet \<and> length packet = kPacket
     \<and> onion_walk en assoc sks packet = Inr ys \<and> map learned ys = map instructions hops
     \<and> map op_final ys = replicate (length hops - 1) False @ [True]
     \<and> (\<forall>y\<in>set (butlast ys). length (op_next_packet y) = kPacket)"
proof -
  note ro = assms(4) [unfolded route_ok_def]
  have "\<exists>xs. derive_keys en (length hops) 0 rnds hops = Inr (map (snd \<circ> item_layer en) xs) \<and> map fst xs = sks \<and> map (fst \<circ> snd) xs = hops
        \<and> list_all (hop_item_ok en) xs"
    by (rule derive_keys_items [OF assms(1,3)]) (use ro in simp_all)
  then obtain xs where xs: "derive_keys en (length hops) 0 rnds hops = Inr (map (snd \<circ> item_layer en) xs)" "map fst xs = sks"
      "map (fst \<circ> snd) xs = hops" "list_all (hop_item_ok en) xs" by blast
  have ne: "xs \<noteq> []" and le: "length [] + length xs \<le> 4" using ro xs(3) by (auto simp: kMaxHops_def)
  define f where "f = onion_filler ([] @ butlast (map (snd \<circ> item_layer en) xs))"
  define l where "l = onion_layers en assoc rand f (map (item_layer en) xs)"
  have nc: "list_all (\<lambda>x. oh_next_chan (fst (snd x)) \<noteq> []) (butlast xs)"
  proof -
    have "butlast hops = map (fst \<circ> snd) (butlast xs)" by (simp only: xs(3) [symmetric] map_butlast)
    then show ?thesis using ro by (fastforce simp: list_all_iff)
  qed
  have kf0: "list_all keys_fit []" by simp
  obtain ys where ys: "onion_walk en assoc (map fst xs) (fst (snd (snd (hd xs))) @ fst l @ snd l) = Inr ys"
       "map learned ys = map (instructions \<circ> fst \<circ> snd) xs"
       "map op_final ys = replicate (length xs - 1) False @ [True]" "list_all (\<lambda>y. length (op_next_packet y) = kPacket) (butlast ys)"
    using walk_layers [OF assms(1,2) ne xs(4) nc kf0 le f_def l_def] by blast
  have zip: "zip hops (map (snd \<circ> item_layer en) xs) = map (item_layer en) xs"
    unfolding xs(3) [symmetric] by (rule nth_equalityI) (auto simp: item_layer_def split: prod.splits)
  have hct: "hk_ct (hd (map (snd \<circ> item_layer en) xs)) = fst (snd (snd (hd xs)))"
    using ne by (cases xs) (auto simp: item_layer_def hop_keys_of_def)
  have b: "onion_build en rnds rand hops assoc = Inr (fst (snd (snd (hd xs))) @ fst l @ snd l)"
  proof -
    have "onion_build en rnds rand hops assoc = Inr (hk_ct (hd (map (snd \<circ> item_layer en) xs))
        @ fst (onion_layers en assoc rand f (zip hops (map (snd \<circ> item_layer en) xs)))
        @ snd (onion_layers en assoc rand f (zip hops (map (snd \<circ> item_layer en) xs))))"
      using ro xs(1) by (simp add: onion_build_def Let_def f_def case_prod_unfold)
    then show ?thesis unfolding zip hct l_def .
  qed
  have lf: "list_all layer_fits (map (item_layer en) xs)" using xs(4) item_layer_fits [OF assms(1)] by (auto simp: list_all_iff)
  have ne': "map (item_layer en) xs \<noteq> []" and le': "length ([] :: hop_keys list) + length (map (item_layer en) xs) \<le> 4" using ne le by simp_all
  have "length (fst l) = kRouting" "length (snd l) = kMac"
    using layers_ok [OF assms(1,2) ne' lf _ le', of f assoc] length_mac [OF assms(1)] by (simp_all add: l_def f_def)
  moreover have "length (fst (snd (snd (hd xs)))) = kKemCt" using xs(4) ne by (cases xs) (auto simp: hop_item_ok_def)
  moreover have "map (instructions \<circ> fst \<circ> snd) xs = map instructions hops" unfolding xs(3) [symmetric] by simp
  moreover have "length xs = length hops" unfolding xs(3) [symmetric] by simp
  ultimately show ?thesis using b ys unfolding xs(2) by (simp add: kPacket_def list_all_iff)
qed

definition toy_onion :: onion_env where
  "toy_onion = \<lparr>hmac_sha3 = (\<lambda>k m. replicate 64 7), ctr_stream = (\<lambda>k n. replicate n 5),
     mlkem_sizes = Some \<lparr>ks_pk = kKemPk, ks_sk = kKemSk, ks_ct = kKemCt, ks_ss = 32\<rparr>,
     mlkem_keypair = (\<lambda>r. Some (zeros kKemPk, zeros kKemSk)), mlkem_encaps = (\<lambda>r pk. Some (zeros kKemCt, zeros 32)),
     mlkem_decaps = (\<lambda>sk ct. Some (zeros 32))\<rparr>"

theorem onion_delivers_route_witness:
  "\<exists>packet ys. onion_build toy_onion [] zeros [\<lparr>oh_pubkey = zeros kKemPk, oh_next_chan = ''c'', oh_amount = 5, oh_expiry = 9\<rparr>,
       \<lparr>oh_pubkey = zeros kKemPk, oh_next_chan = [], oh_amount = 4, oh_expiry = 8\<rparr>] ''h'' = Inr packet
     \<and> onion_walk toy_onion ''h'' [zeros kKemSk, zeros kKemSk] packet = Inr ys \<and> map learned ys = [(''c'', 5, 9), ([], 4, 8)]
     \<and> map op_final ys = [False, True]"
proof -
  let ?hops = "[\<lparr>oh_pubkey = zeros kKemPk, oh_next_chan = ''c'', oh_amount = 5, oh_expiry = 9\<rparr>,
       \<lparr>oh_pubkey = zeros kKemPk, oh_next_chan = [], oh_amount = 4, oh_expiry = 8\<rparr>]"
  have en: "onion_env_ok toy_onion" by (simp add: onion_env_ok_def toy_onion_def)
  have kp: "kem_pair toy_onion (zeros kKemSk) (zeros kKemPk)" by (simp add: kem_pair_def toy_onion_def)
  have ro: "route_ok ?hops" by (simp add: route_ok_def kMaxHops_def chan_ok_def)
  have "list_all2 (\<lambda>sk h. kem_pair toy_onion sk (oh_pubkey h)) [zeros kKemSk, zeros kKemSk] ?hops" using kp by simp
  from onion_delivers_route [OF en _ this ro, of zeros "[]" "''h''"] show ?thesis by (auto simp: instructions_def)
qed

end
