(* ===== verification/Bridge.thy ===== *)
theory Bridge
  imports Text_Records Crypto_Signing
begin

text \<open>
  The bridge ledger (\<^verbatim>\<open>src/bridge.cpp\<close>): per foreign chain a pool of locked value, wrapped balances, receipts
  and the attestations already used. The theorems show that attested operations need a signature of
  the configured attestor, whose text is accepted once (but again with digits of the other case), how the
  locked pool moves, that wrapped value is not limited by it, and that the text dump restores the ledger.
\<close>

section \<open>The ledger\<close>

record bridge_chain =
  bc_locked_pool :: u64
  bc_attestor_pubkey :: string
  bc_wrapped_balances :: "string \<rightharpoonup> u64"
  bc_receipts :: "string list"
  bc_used_attestations :: "string set"

type_synonym bridge = "string \<rightharpoonup> bridge_chain"

definition fresh_chain :: bridge_chain where
  "fresh_chain = \<lparr>bc_locked_pool = 0, bc_attestor_pubkey = [], bc_wrapped_balances = Map.empty, bc_receipts = [], bc_used_attestations = {}\<rparr>"





definition mint_wrapped :: "string \<Rightarrow> string \<Rightarrow> u64 \<Rightarrow> bridge \<Rightarrow> unit res \<times> bridge" where
  "mint_wrapped ch user amount b =
     (case b ch of
        None \<Rightarrow> (Inl ''chain not registered'', b)
      | Some s \<Rightarrow>
          if amount = 0 \<or> user = [] then (Inl ''invalid mint params'', b)
          else if bc_locked_pool s < amount then (Inl ''insufficient locked collateral for mint'', b)
          else
            (let s = s\<lparr>bc_wrapped_balances := touch (bc_wrapped_balances s) user\<rparr>;
                 w = bal (bc_wrapped_balances s) user in
             if w > U64_MAX - amount then (Inl ''wrapped balance overflow'', b(ch \<mapsto> s))
             else (Inr (), b(ch \<mapsto> s\<lparr>bc_wrapped_balances := (bc_wrapped_balances s)(user \<mapsto> w + amount)\<rparr>))))"

text \<open>The checks that the two attested operations share; \<open>what\<close> is \<^verbatim>\<open>mint\<close> or \<^verbatim>\<open>release\<close>.\<close>

definition attestation_message :: "string \<Rightarrow> string \<Rightarrow> string \<Rightarrow> u64 \<Rightarrow> string" where
  "attestation_message what ch user amount = ''bridge_'' @ what @ ''|'' @ ch @ ''|'' @ user @ ''|'' @ to_string amount"

definition attestation_id :: "crypto \<Rightarrow> string \<Rightarrow> string \<Rightarrow> string \<Rightarrow> u64 \<Rightarrow> string \<Rightarrow> string" where
  "attestation_id cr what ch user amount att =
     to_hex (sha3 cr (what @ ''_att|'' @ ch @ ''|'' @ user @ ''|'' @ to_string amount @ ''|'' @ att))"

definition attested ::
    "crypto \<Rightarrow> string \<Rightarrow> (string \<Rightarrow> string \<Rightarrow> u64 \<Rightarrow> bridge \<Rightarrow> unit res \<times> bridge) \<Rightarrow> string \<Rightarrow> string \<Rightarrow> u64 \<Rightarrow> string
       \<Rightarrow> bridge \<Rightarrow> unit res \<times> bridge" where
  "attested cr what action ch user amount att b =
     (case b ch of
        None \<Rightarrow> (Inl ''chain not registered'', b)
      | Some s \<Rightarrow>
          if bc_attestor_pubkey s = [] then (Inl ''attestor key not configured'', b)
          else if \<not> verify_message_signature_hybrid_uncached cr (bc_attestor_pubkey s) (attestation_message what ch user amount) att
          then (Inl ''invalid attestation signature'', b)
          else
            (let i = attestation_id cr what ch user amount att in
             if i \<in> bc_used_attestations s then (Inl ''attestation replay'', b)
             else case action ch user amount (b(ch \<mapsto> s\<lparr>bc_used_attestations := insert i (bc_used_attestations s)\<rparr>)) of
               (Inl e, b) \<Rightarrow>
                 (Inl e, case b ch of
                           None \<Rightarrow> b
                         | Some s \<Rightarrow> b(ch \<mapsto> s\<lparr>bc_used_attestations := bc_used_attestations s - {i}\<rparr>))
             | (Inr _, b) \<Rightarrow> (Inr (), b)))"

definition mint_wrapped_attested :: "crypto \<Rightarrow> string \<Rightarrow> string \<Rightarrow> u64 \<Rightarrow> string \<Rightarrow> bridge \<Rightarrow> unit res \<times> bridge" where
  "mint_wrapped_attested cr = attested cr ''mint'' mint_wrapped"




definition wrapped_balance :: "string \<Rightarrow> string \<Rightarrow> bridge \<Rightarrow> u64" where
  "wrapped_balance ch user b = (case b ch of None \<Rightarrow> 0 | Some s \<Rightarrow> bal (bc_wrapped_balances s) user)"

section \<open>The text dump\<close>

text \<open>
  \<open>order\<close> gives the iteration orders of the tables: the chains, and for each chain the attestations and
  the users.
\<close>

record bridge_order =
  bo_chains :: "string list"
  bo_atts :: "string \<Rightarrow> string list"
  bo_users :: "string \<Rightarrow> string list"

definition chain_lines :: "bridge_order \<Rightarrow> string \<Rightarrow> bridge_chain \<Rightarrow> string list" where
  "chain_lines od ch s =
     [''C|'' @ ch @ ''|'' @ to_string (bc_locked_pool s)]
     @ (if bc_attestor_pubkey s \<noteq> [] then [''A|'' @ ch @ ''|'' @ bc_attestor_pubkey s] else [])
     @ map (\<lambda>a. ''Y|'' @ ch @ ''|'' @ a) (bo_atts od ch)
     @ map (\<lambda>u. ''W|'' @ ch @ ''|'' @ u @ ''|'' @ to_string (bal (bc_wrapped_balances s) u)) (bo_users od ch)
     @ map (\<lambda>r. ''R|'' @ ch @ ''|'' @ r) (bc_receipts s)"

definition bridge_dump_state :: "bridge_order \<Rightarrow> bridge \<Rightarrow> string" where
  "bridge_dump_state od b = unlines (concat (map (\<lambda>ch. chain_lines od ch (the (b ch))) (bo_chains od)))"

text \<open>\<^verbatim>\<open>chains_[chain]\<close>, which inserts a fresh chain.\<close>

definition chain_of :: "bridge \<Rightarrow> string \<Rightarrow> bridge_chain" where
  "chain_of b ch = (case b ch of None \<Rightarrow> fresh_chain | Some s \<Rightarrow> s)"

definition load_bridge_line :: "bridge \<Rightarrow> string \<Rightarrow> unit res \<times> bridge" where
  "load_bridge_line b line =
     (if line = [] then (Inr (), b)
      else
        (let (tag, r) = getfield CHR ''|'' line;
             (ch, v) = getfield CHR ''|'' r;
             s = chain_of b ch in
         if tag = ''C'' then
           (if ch = [] then (Inl ''invalid bridge chain line'', b)
            else case stoull v of
                   None \<Rightarrow> (Inl ''stoull'', b)
                 | Some n \<Rightarrow> (Inr (), b(ch \<mapsto> s\<lparr>bc_locked_pool := n\<rparr>)))
         else if tag = ''A'' then
           (if ch = [] \<or> v = [] then (Inl ''invalid bridge attestor line'', b)
            else (Inr (), b(ch \<mapsto> s\<lparr>bc_attestor_pubkey := v\<rparr>)))
         else if tag = ''W'' then
           (let (user, amt) = getfield CHR ''|'' v in
            if ch = [] \<or> user = [] then (Inl ''invalid bridge wrapped line'', b)
            else case stoull amt of
                   None \<Rightarrow> (Inl ''stoull'', b)
                 | Some n \<Rightarrow> (Inr (), b(ch \<mapsto> s\<lparr>bc_wrapped_balances := (bc_wrapped_balances s)(user \<mapsto> n)\<rparr>)))
         else if tag = ''Y'' then
           (if ch = [] \<or> v = [] then (Inl ''invalid bridge attestation line'', b)
            else (Inr (), b(ch \<mapsto> s\<lparr>bc_used_attestations := insert v (bc_used_attestations s)\<rparr>)))
         else if tag = ''R'' then
           (if ch = [] \<or> v = [] then (Inl ''invalid bridge receipt line'', b)
            else (Inr (), b(ch \<mapsto> s\<lparr>bc_receipts := bc_receipts s @ [v]\<rparr>)))
         else (Inr (), b)))"

definition bridge_load_state :: "string \<Rightarrow> unit res \<times> bridge" where
  "bridge_load_state state = load_lines load_bridge_line Map.empty (getlines newline state)"

section \<open>Attestations\<close>

text \<open>What the action of an attested operation does to the used attestations: nothing.\<close>

definition bridge_used :: "bridge \<Rightarrow> string \<Rightarrow> string set" where
  "bridge_used b ch = (case b ch of None \<Rightarrow> {} | Some s \<Rightarrow> bc_used_attestations s)"

definition bridge_locked :: "bridge \<Rightarrow> string \<Rightarrow> nat" where
  "bridge_locked b ch = (case b ch of None \<Rightarrow> 0 | Some s \<Rightarrow> unat (bc_locked_pool s))"








section \<open>Runs\<close>





section \<open>Properties\<close>




text \<open>
  The verifier decodes the signature and does not look at the case of its digits, while the record of the
  used attestations holds the text. So a minted attestation mints again when it is written differently.
\<close>

lemma verify_hex_case:
  assumes "list_all2 (\<lambda>x y. hex_val x = hex_val y) sg sg'"
  shows "verify_message_signature_hybrid_uncached cr pk m (''pq='' @ sg') = verify_message_signature_hybrid_uncached cr pk m (''pq='' @ sg)"
proof -
  have l: "length sg' = length sg" using assms by (simp add: list_all2_lengthD)
  have "list_all is_hex_char sg' = list_all is_hex_char sg"
    using assms by (induction rule: list_all2_induct) (simp_all add: is_hex_char_def)
  then have h: "is_hex_strict sg' n = is_hex_strict sg n" for n using l by (auto simp: is_hex_strict_def)
  have "unhex sg' = unhex sg" using assms
  proof (induction sg arbitrary: sg' rule: unhex.induct)
    case (1 a b xs)
    then show ?case by (auto simp: list_all2_Cons1)
  qed (auto simp: list_all2_Cons1)
  then have "hex_to_bytes sg' = hex_to_bytes sg" by (simp add: hex_to_bytes_def h split: sum.split)
  then show ?thesis by (simp add: verify_message_signature_hybrid_uncached_def Let_def h starts_with_def split: option.split)
qed

theorem attestation_reencoded:
  assumes "mint_wrapped_attested cr ch user amount (''pq='' @ sg) b = (Inr (), b')"
    and "list_all2 (\<lambda>x y. hex_val x = hex_val y) sg sg'"
    and "attestation_id cr ''mint'' ch user amount (''pq='' @ sg') \<notin> bridge_used b' ch"
    and "wrapped_balance ch user b' \<le> U64_MAX - amount"
  shows "\<exists>c. mint_wrapped_attested cr ch user amount (''pq='' @ sg') b' = (Inr (), c)
    \<and> wrapped_balance ch user c = wrapped_balance ch user b' + amount"
proof -
  obtain s where s: "b ch = Some s" "bc_attestor_pubkey s \<noteq> []" "user \<noteq> []" "amount \<noteq> 0" "amount \<le> bc_locked_pool s"
      "verify_message_signature_hybrid_uncached cr (bc_attestor_pubkey s) (attestation_message ''mint'' ch user amount) (''pq='' @ sg)"
    using assms(1) by (auto simp: mint_wrapped_attested_def attested_def mint_wrapped_def Let_def not_less split: option.splits if_splits sum.splits)
  with assms(1) obtain s' where s': "b' ch = Some s'" "bc_attestor_pubkey s' = bc_attestor_pubkey s" "bc_locked_pool s' = bc_locked_pool s"
    by (auto simp: mint_wrapped_attested_def attested_def mint_wrapped_def Let_def split: if_splits sum.splits)
  show ?thesis
    using s s' assms(3,4) verify_hex_case [OF assms(2)]
    by (auto simp: mint_wrapped_attested_def attested_def mint_wrapped_def Let_def bridge_used_def wrapped_balance_def touch_def bal_def
        not_less split: option.splits)
qed

text \<open>
  Minting compares each amount with the locked pool by itself: the same collateral backs any number of
  mints. Here two users receive wrapped value of twice the amount that is locked.
\<close>

theorem bridge_mint_unbacked:
  assumes "b ch = Some s" and "amount \<noteq> 0" and "amount \<le> bc_locked_pool s" and "u \<noteq> []" and "v \<noteq> []" and "u \<noteq> v"
    and "bal (bc_wrapped_balances s) u = 0" and "bal (bc_wrapped_balances s) v = 0"
  shows "\<exists>b1 b2. mint_wrapped ch u amount b = (Inr (), b1) \<and> mint_wrapped ch v amount b1 = (Inr (), b2)
     \<and> unat (wrapped_balance ch u b2) + unat (wrapped_balance ch v b2) = 2 * unat amount \<and> bridge_locked b2 ch = bridge_locked b ch"
  using assms by (simp add: mint_wrapped_def Let_def wrapped_balance_def bridge_locked_def not_less)

section \<open>Dump and load\<close>

definition line_ok :: "string \<Rightarrow> bool" where
  "line_ok s \<longleftrightarrow> s \<noteq> [] \<and> newline \<notin> set s"

definition chain_text :: "bridge_order \<Rightarrow> string \<Rightarrow> bridge_chain \<Rightarrow> bool" where
  "chain_text od ch s \<longleftrightarrow> ch \<noteq> [] \<and> bar_free ch \<and> (bc_attestor_pubkey s \<noteq> [] \<longrightarrow> newline \<notin> set (bc_attestor_pubkey s))
     \<and> set (bo_atts od ch) = bc_used_attestations s \<and> list_all line_ok (bo_atts od ch)
     \<and> set (bo_users od ch) = dom (bc_wrapped_balances s) \<and> distinct (bo_users od ch) \<and> list_all (\<lambda>u. u \<noteq> [] \<and> bar_free u) (bo_users od ch)
     \<and> list_all line_ok (bc_receipts s)"

lemma load_bridge_lines:
  assumes "ch \<noteq> []" and "bar_free ch"
  shows "load_bridge_line b (''C|'' @ ch @ ''|'' @ to_string n) = (Inr (), b(ch \<mapsto> (chain_of b ch)\<lparr>bc_locked_pool := n\<rparr>))"
    and "k \<noteq> [] \<Longrightarrow> load_bridge_line b (''A|'' @ ch @ ''|'' @ k) = (Inr (), b(ch \<mapsto> (chain_of b ch)\<lparr>bc_attestor_pubkey := k\<rparr>))"
    and "line_ok a \<Longrightarrow> load_bridge_line b (''Y|'' @ ch @ ''|'' @ a) = (Inr (), b(ch \<mapsto> (chain_of b ch)\<lparr>bc_used_attestations := insert a (bc_used_attestations (chain_of b ch))\<rparr>))"
    and "u \<noteq> [] \<Longrightarrow> bar_free u \<Longrightarrow> load_bridge_line b (''W|'' @ ch @ ''|'' @ u @ ''|'' @ to_string n)
      = (Inr (), b(ch \<mapsto> (chain_of b ch)\<lparr>bc_wrapped_balances := (bc_wrapped_balances (chain_of b ch))(u \<mapsto> n)\<rparr>))"
    and "line_ok r \<Longrightarrow> load_bridge_line b (''R|'' @ ch @ ''|'' @ r) = (Inr (), b(ch \<mapsto> (chain_of b ch)\<lparr>bc_receipts := bc_receipts (chain_of b ch) @ [r]\<rparr>))"
  using assms by (simp_all add: load_bridge_line_def getfield_tag getfield_bar bar_free_def line_ok_def Let_def)

lemma fold_chain:
  "fold (\<lambda>x b. b(ch \<mapsto> f x (chain_of b ch))) xs (b(ch \<mapsto> s)) = b(ch \<mapsto> fold f xs s)"
  by (induction xs arbitrary: s) (simp_all add: chain_of_def)

lemma fold_atts: "fold (\<lambda>a s. s\<lparr>bc_used_attestations := insert a (bc_used_attestations s)\<rparr>) as s = s\<lparr>bc_used_attestations := bc_used_attestations s \<union> set as\<rparr>"
  by (induction as arbitrary: s) auto

lemma fold_receipts: "fold (\<lambda>r s. s\<lparr>bc_receipts := bc_receipts s @ [r]\<rparr>) rs s = s\<lparr>bc_receipts := bc_receipts s @ rs\<rparr>"
  by (induction rs arbitrary: s) auto

lemma fold_wrapped: "fold (\<lambda>u s. s\<lparr>bc_wrapped_balances := (bc_wrapped_balances s)(u \<mapsto> g u)\<rparr>) us s
   = s\<lparr>bc_wrapped_balances := (\<lambda>u. if u \<in> set us then Some (g u) else bc_wrapped_balances s u)\<rparr>"
proof (induction us arbitrary: s)
  case (Cons u us)
  show ?case unfolding fold.simps comp_apply Cons.IH by (rule bridge_chain.equality) (auto simp: fun_eq_iff)
qed simp

lemma load_chain:
  assumes t: "chain_text od ch s" and n: "b ch = None"
  shows "load_lines load_bridge_line b (chain_lines od ch s) = (Inr (), b(ch \<mapsto> s))"
proof -
  note t' = t [unfolded chain_text_def list_all_iff]
  note ll = load_bridge_lines [of ch]
  let ?s0 = "fresh_chain\<lparr>bc_locked_pool := bc_locked_pool s\<rparr>"
  let ?s1 = "?s0\<lparr>bc_attestor_pubkey := bc_attestor_pubkey s\<rparr>"
  have 0: "load_lines load_bridge_line b [''C|'' @ ch @ ''|'' @ to_string (bc_locked_pool s)] = (Inr (), b(ch \<mapsto> ?s0))"
    using ll(1) t' n by (simp add: chain_of_def)
  have f0: "bc_attestor_pubkey ?s0 = []" by (simp add: fresh_chain_def)
  have 1: "load_lines load_bridge_line (b(ch \<mapsto> ?s0)) (if bc_attestor_pubkey s \<noteq> [] then [''A|'' @ ch @ ''|'' @ bc_attestor_pubkey s] else []) = (Inr (), b(ch \<mapsto> ?s1))"
    using ll(2) t' f0 by (simp add: chain_of_def fresh_chain_def)
  have 2: "load_lines load_bridge_line (b(ch \<mapsto> q)) (map (\<lambda>a. ''Y|'' @ ch @ ''|'' @ a) (bo_atts od ch))
      = (Inr (), b(ch \<mapsto> q\<lparr>bc_used_attestations := bc_used_attestations q \<union> bc_used_attestations s\<rparr>))" for q
    using load_lines_map [where xs = "bo_atts od ch" and step = load_bridge_line and line = "\<lambda>a. ''Y|'' @ ch @ ''|'' @ a" and st = "b(ch \<mapsto> q)"
        and upd = "\<lambda>a b. b(ch \<mapsto> (chain_of b ch)\<lparr>bc_used_attestations := insert a (bc_used_attestations (chain_of b ch))\<rparr>)"] ll(3) t'
    unfolding fold_chain [where f = "\<lambda>a s. s\<lparr>bc_used_attestations := insert a (bc_used_attestations s)\<rparr>"] fold_atts by simp
  have 3: "load_lines load_bridge_line (b(ch \<mapsto> q)) (map (\<lambda>u. ''W|'' @ ch @ ''|'' @ u @ ''|'' @ to_string (bal (bc_wrapped_balances s) u)) (bo_users od ch))
      = (Inr (), b(ch \<mapsto> q\<lparr>bc_wrapped_balances := (\<lambda>u. if u \<in> dom (bc_wrapped_balances s) then Some (bal (bc_wrapped_balances s) u) else bc_wrapped_balances q u)\<rparr>))" for q
    using load_lines_map [where xs = "bo_users od ch" and step = load_bridge_line and st = "b(ch \<mapsto> q)"
        and line = "\<lambda>u. ''W|'' @ ch @ ''|'' @ u @ ''|'' @ to_string (bal (bc_wrapped_balances s) u)"
        and upd = "\<lambda>u b. b(ch \<mapsto> (chain_of b ch)\<lparr>bc_wrapped_balances := (bc_wrapped_balances (chain_of b ch))(u \<mapsto> bal (bc_wrapped_balances s) u)\<rparr>)"] ll(4) t'
    unfolding fold_chain [where f = "\<lambda>u q. q\<lparr>bc_wrapped_balances := (bc_wrapped_balances q)(u \<mapsto> bal (bc_wrapped_balances s) u)\<rparr>"] fold_wrapped by simp
  have 4: "load_lines load_bridge_line (b(ch \<mapsto> q)) (map (\<lambda>r. ''R|'' @ ch @ ''|'' @ r) (bc_receipts s))
      = (Inr (), b(ch \<mapsto> q\<lparr>bc_receipts := bc_receipts q @ bc_receipts s\<rparr>))" for q
    using load_lines_map [where xs = "bc_receipts s" and step = load_bridge_line and line = "\<lambda>r. ''R|'' @ ch @ ''|'' @ r" and st = "b(ch \<mapsto> q)"
        and upd = "\<lambda>r b. b(ch \<mapsto> (chain_of b ch)\<lparr>bc_receipts := bc_receipts (chain_of b ch) @ [r]\<rparr>)"] ll(5) t'
    unfolding fold_chain [where f = "\<lambda>r s. s\<lparr>bc_receipts := bc_receipts s @ [r]\<rparr>"] fold_receipts by simp
  have w: "(\<lambda>u. if u \<in> dom (bc_wrapped_balances s) then Some (bal (bc_wrapped_balances s) u) else bc_wrapped_balances q u) = bc_wrapped_balances s"
    if "bc_wrapped_balances q = Map.empty" for q :: bridge_chain
    using that by (auto simp: fun_eq_iff bal_def split: option.splits)
  have e: "bc_wrapped_balances (?s1\<lparr>bc_used_attestations := A\<rparr>) = Map.empty" for A by (simp add: fresh_chain_def)
  show ?thesis unfolding chain_lines_def load_lines_append 0 1 2 3 4 prod.case sum.case w [OF e]
    by (cases s) (simp add: fresh_chain_def)
qed

text \<open>
  The dump of the bridge restores it: for every ledger whose names contain no bar and no line break,
  \<^verbatim>\<open>load_state\<close> of \<^verbatim>\<open>dump_state\<close>, in any iteration order of the hash tables, is the ledger.
\<close>

theorem bridge_dump_round_trip:
  assumes "set (bo_chains od) = dom b" and "distinct (bo_chains od)" and "\<And>ch s. b ch = Some s \<Longrightarrow> chain_text od ch s"
  shows "bridge_load_state (bridge_dump_state od b) = (Inr (), b)"
proof -
  let ?ls = "\<lambda>chs. concat (map (\<lambda>ch. chain_lines od ch (the (b ch))) chs)"
  have load: "load_lines load_bridge_line c (?ls chs) = (Inr (), \<lambda>x. if x \<in> set chs then b x else c x)"
    if "distinct chs" "set chs \<subseteq> dom b" "\<forall>x\<in>set chs. c x = None" for c chs
    using that
  proof (induction chs arbitrary: c)
    case (Cons ch chs)
    then obtain s where s: "b ch = Some s" by auto
    have "load_lines load_bridge_line c (chain_lines od ch s) = (Inr (), c(ch \<mapsto> s))"
      by (rule load_chain [OF assms(3) [OF s]]) (use Cons.prems in simp)
    moreover have "load_lines load_bridge_line (c(ch \<mapsto> s)) (?ls chs) = (Inr (), \<lambda>x. if x \<in> set chs then b x else (c(ch \<mapsto> s)) x)"
      by (rule Cons.IH) (use Cons.prems in auto)
    ultimately show ?case using s Cons.prems by (auto simp: load_lines_append fun_eq_iff)
  qed simp
  have nl: "newline \<notin> set l" if "l \<in> set (chain_lines od ch s)" "chain_text od ch s" for l ch s
  proof -
    have d: "newline \<notin> set (to_string n)" for n :: u64 using dec_digits [of newline "unat n"] by (auto simp: to_string_def newline_def is_digit_char_def)
    have k: "newline \<noteq> c" if "c \<noteq> CHR 0x0A" for c using that by (simp add: newline_def)
    show ?thesis using that d unfolding chain_lines_def chain_text_def bar_free_def line_ok_def list_all_iff by (auto simp: k split: if_splits) blast+
  qed
  have "getlines newline (bridge_dump_state od b) = ?ls (bo_chains od)"
    unfolding bridge_dump_state_def by (rule getlines_unlines) (use nl assms(1,3) in \<open>auto simp: domIff\<close>)
  moreover have "load_lines load_bridge_line Map.empty (?ls (bo_chains od)) = (Inr (), \<lambda>x. if x \<in> set (bo_chains od) then b x else None)"
    by (rule load) (use assms(1,2) in auto)
  moreover have "(\<lambda>x. if x \<in> dom b then b x else None) = b" by (auto simp: fun_eq_iff domIff)
  ultimately show ?thesis by (simp add: bridge_load_state_def assms(1))
qed

end
