(* ===== verification/Fast_Path.thy ===== *)
theory Fast_Path
  imports Text_Records Chain_State
begin

text \<open>
  The staged batch pipeline (\<^verbatim>\<open>src/fast_path.cpp\<close>): typed messages with a sealed digest, and the state machine
  of one batch. The theorems show that a batch reaches its last stage only through the five messages in
  order, that a refused message changes nothing, and that a sealed message is accepted at its stage.
\<close>

section \<open>Labels\<close>

definition kFastPathPipelineShipped :: bool where "kFastPathPipelineShipped = False"
definition kFastPathSliceId :: string where "kFastPathSliceId = ''pipeline_stages_typed_v1''"
definition kFastPathDomainPrefix :: string where "kFastPathDomainPrefix = ''addition.fast_path_v1''"
definition kFastFakeLiveMagic :: string where "kFastFakeLiveMagic = ''CLAIM_FAST_LIVE''"
definition kFastFakeTpsMagic :: string where "kFastFakeTpsMagic = ''CLAIM_MEASURED_TPS''"

text \<open>\<open>mode\<close> is the field \<^verbatim>\<open>network_mode\<close> of the configuration, which consensus does not read.\<close>

definition consensus_path_label :: "chain_config \<Rightarrow> string \<Rightarrow> string" where
  "consensus_path_label cfg mode =
     (if network_id cfg = kFastNetworkId \<or> mode = ''fast'' then ''leader_pipeline_scaffold''
      else if network_id cfg = kMainnetNetworkId \<or> mode = ''mainnet'' \<or> pow_alg cfg = MemoryHard then ''memory_hard_pow''
      else if network_id cfg = kRegtestNetworkId \<or> mode = ''regtest'' then ''sha3_header_pow_regtest''
      else ''sha3_header_pow'')"

definition fast_path_status_label :: "chain_config \<Rightarrow> string \<Rightarrow> string" where
  "fast_path_status_label cfg mode =
     (if network_id cfg = kFastNetworkId \<or> mode = ''fast''
      then (if kFastPathPipelineShipped then ''shipped'' else ''scaffold_incomplete'')
      else ''not_this_network'')"

definition throughput_claim_label :: string where
  "throughput_claim_label = ''none''"

definition fast_path_info_fields :: "chain_config \<Rightarrow> string \<Rightarrow> string" where
  "fast_path_info_fields cfg mode =
     '' consensus_path='' @ consensus_path_label cfg mode @ '' fast_path_network_id='' @ kFastNetworkId
       @ '' fast_path_status='' @ fast_path_status_label cfg mode
       @ '' fast_path_shipped='' @ (if kFastPathPipelineShipped then ''true'' else ''false'')
       @ '' fast_path_slice='' @ kFastPathSliceId @ '' throughput_claim='' @ throughput_claim_label"

definition fast_path_boot_allowed :: "unit res" where
  "fast_path_boot_allowed =
     (if kFastPathPipelineShipped then Inr ()
      else Inl (''ADDITION_FAST_V1 scaffold incomplete: leader/pipeline/execution not shipped; refusing to boot (fail-closed). Typed stages (''
        @ kFastPathSliceId @ '') exist for research only. Live public product is --mainnet ADDITION_MAINNET_V1 memory_hard at 0x000000FFFFFFFFFF. See docs/FAST_PATH_V1.md''))"

section \<open>Messages\<close>

datatype fast_stage = Idle | Ingested | Scheduled | Executed | Verified | Committed

text \<open>\<open>UnknownKind\<close> stands for the other values of the byte.\<close>

datatype fast_kind = IngestBatch | ScheduleTicket | ExecutionReceipt | VerifyAck | CommitSeal | UnknownKind

record fast_message =
  fm_kind :: fast_kind
  fm_batch_id :: u64
  fm_network_id :: string
  fm_body :: string
  fm_payload_digest_hex :: string

text \<open>\<^verbatim>\<open>is_hex_even\<close> of this file.\<close>

definition fast_is_hex_even :: "string \<Rightarrow> bool" where
  "fast_is_hex_even s \<longleftrightarrow> s \<noteq> [] \<and> length s mod 2 = 0 \<and> list_all is_hex_char s"

definition contains_ascii_ci :: "string \<Rightarrow> string \<Rightarrow> bool" where
  "contains_ascii_ci hay needle \<longleftrightarrow> needle \<noteq> [] \<and> contains (lower_copy hay) (lower_copy needle)"

definition looks_like_fake_fast_claim :: "string \<Rightarrow> bool" where
  "looks_like_fake_fast_claim body \<longleftrightarrow>
     contains body kFastFakeLiveMagic \<or> contains body kFastFakeTpsMagic
     \<or> contains_ascii_ci body ''434c41494d5f464153545f4c495645'' \<or> contains_ascii_ci body ''434c41494d5f4d454153555245445f545053''
     \<or> contains_ascii_ci body ''solana_tps'' \<or> contains_ascii_ci body ''measured_solana''
     \<or> contains_ascii_ci body ''throughput_claim=solana'' \<or> contains_ascii_ci body ''objective_tps_ok''"

fun fast_pipeline_stage_label :: "fast_stage \<Rightarrow> string" where
  "fast_pipeline_stage_label Idle = ''idle''"
| "fast_pipeline_stage_label Ingested = ''ingested''"
| "fast_pipeline_stage_label Scheduled = ''scheduled''"
| "fast_pipeline_stage_label Executed = ''executed''"
| "fast_pipeline_stage_label Verified = ''verified''"
| "fast_pipeline_stage_label Committed = ''committed''"

fun fast_message_kind_label :: "fast_kind \<Rightarrow> string" where
  "fast_message_kind_label IngestBatch = ''ingest_batch''"
| "fast_message_kind_label ScheduleTicket = ''schedule_ticket''"
| "fast_message_kind_label ExecutionReceipt = ''execution_receipt''"
| "fast_message_kind_label VerifyAck = ''verify_ack''"
| "fast_message_kind_label CommitSeal = ''commit_seal''"
| "fast_message_kind_label UnknownKind = ''unknown''"

fun fast_pipeline_stage_after :: "fast_kind \<Rightarrow> fast_stage" where
  "fast_pipeline_stage_after IngestBatch = Ingested"
| "fast_pipeline_stage_after ScheduleTicket = Scheduled"
| "fast_pipeline_stage_after ExecutionReceipt = Executed"
| "fast_pipeline_stage_after VerifyAck = Verified"
| "fast_pipeline_stage_after CommitSeal = Committed"
| "fast_pipeline_stage_after UnknownKind = Idle"

fun fast_pipeline_next_kind :: "fast_stage \<Rightarrow> fast_kind res" where
  "fast_pipeline_next_kind Idle = Inr IngestBatch"
| "fast_pipeline_next_kind Ingested = Inr ScheduleTicket"
| "fast_pipeline_next_kind Scheduled = Inr ExecutionReceipt"
| "fast_pipeline_next_kind Executed = Inr VerifyAck"
| "fast_pipeline_next_kind Verified = Inr CommitSeal"
| "fast_pipeline_next_kind Committed = Inl ''fast_pipeline: batch already committed; no further stage''"

definition fast_pipeline_digest_preimage :: "fast_message \<Rightarrow> string" where
  "fast_pipeline_digest_preimage m =
     kFastPathDomainPrefix @ ''|'' @ fast_message_kind_label (fm_kind m) @ ''|'' @ to_string (fm_batch_id m)
       @ ''|'' @ fm_network_id m @ ''|'' @ fm_body m"

definition fast_pipeline_compute_digest_hex :: "crypto \<Rightarrow> fast_message \<Rightarrow> string" where
  "fast_pipeline_compute_digest_hex cr m = to_hex (sha3 cr (fast_pipeline_digest_preimage m))"

definition fast_pipeline_seal_digest :: "crypto \<Rightarrow> fast_message \<Rightarrow> fast_message" where
  "fast_pipeline_seal_digest cr m = m\<lparr>fm_payload_digest_hex := fast_pipeline_compute_digest_hex cr m\<rparr>"

definition fast_pipeline_validate_message :: "crypto \<Rightarrow> fast_message \<Rightarrow> unit res" where
  "fast_pipeline_validate_message cr m =
     (if fm_batch_id m = 0 then Inl ''fast_pipeline: batch_id must be > 0''
      else if fm_network_id m \<noteq> kFastNetworkId then Inl ''fast_pipeline: network_id must be ADDITION_FAST_V1 (fail-closed)''
      else if fm_body m = [] then Inl ''fast_pipeline: body must be non-empty''
      else if looks_like_fake_fast_claim (fm_body m)
      then Inl ''fast_pipeline: body contains forbidden live/TPS claim magic (fail-closed)''
      else if \<not> fast_is_hex_even (fm_payload_digest_hex m) \<or> length (fm_payload_digest_hex m) \<noteq> 128
      then Inl ''fast_pipeline: payload_digest_hex must be 128 hex chars (SHA3-512)''
      else if lower_copy (fm_payload_digest_hex m) \<noteq> fast_pipeline_compute_digest_hex cr m
      then Inl ''fast_pipeline: payload_digest_hex mismatch (SHA3-512 fail-closed)''
      else if fast_message_kind_label (fm_kind m) = ''unknown'' then Inl ''fast_pipeline: unknown message kind''
      else Inr ())"

section \<open>The batch\<close>

record fast_batch =
  fb_batch_id :: u64
  fb_stage :: fast_stage

definition FastPipelineBatch_init :: "u64 \<Rightarrow> fast_batch" where
  "FastPipelineBatch_init i = \<lparr>fb_batch_id = i, fb_stage = Idle\<rparr>"

definition fast_batch_apply :: "crypto \<Rightarrow> fast_message \<Rightarrow> fast_batch \<Rightarrow> unit res \<times> fast_batch" where
  "fast_batch_apply cr m b =
     (if fb_batch_id b = 0 then (Inl ''fast_pipeline: batch constructed with batch_id=0'', b)
      else if fm_batch_id m \<noteq> fb_batch_id b then (Inl ''fast_pipeline: message batch_id does not match machine'', b)
      else case fast_pipeline_validate_message cr m of
        Inl e \<Rightarrow> (Inl e, b)
      | Inr _ \<Rightarrow>
          (case fast_pipeline_next_kind (fb_stage b) of
             Inl e \<Rightarrow> (Inl e, b)
           | Inr k \<Rightarrow>
               if fm_kind m \<noteq> k then
                 (Inl (''fast_pipeline: expected kind='' @ fast_message_kind_label k @ '' at stage='' @ fast_pipeline_stage_label (fb_stage b)
                    @ ''; got kind='' @ fast_message_kind_label (fm_kind m) @ '' (fail-closed)''), b)
               else (Inr (), b\<lparr>fb_stage := fast_pipeline_stage_after (fm_kind m)\<rparr>)))"

definition fast_pipeline_stage_order :: "fast_stage list" where
  "fast_pipeline_stage_order = [Idle, Ingested, Scheduled, Executed, Verified, Committed]"

text \<open>A batch fed a sequence of messages: the messages it accepts and the batch at the end.\<close>

fun fast_feed :: "crypto \<Rightarrow> fast_message list \<Rightarrow> fast_batch \<Rightarrow> fast_message list \<times> fast_batch" where
  "fast_feed cr [] b = ([], b)"
| "fast_feed cr (m # ms) b =
     (case fast_batch_apply cr m b of
        (Inl _, b) \<Rightarrow> fast_feed cr ms b
      | (Inr _, b) \<Rightarrow> (let (acc, b) = fast_feed cr ms b in (m # acc, b)))"

section \<open>Lemmas\<close>

definition stage_kinds :: "fast_kind list" where
  "stage_kinds = [IngestBatch, ScheduleTicket, ExecutionReceipt, VerifyAck, CommitSeal]"

text \<open>The number of a stage in the order of the code.\<close>

fun stage_no :: "fast_stage \<Rightarrow> nat" where
  "stage_no Idle = 0" | "stage_no Ingested = 1" | "stage_no Scheduled = 2" | "stage_no Executed = 3"
| "stage_no Verified = 4" | "stage_no Committed = 5"

lemma stage_no_order: "fast_pipeline_stage_order ! stage_no s = s"
  by (cases s) (simp_all add: fast_pipeline_stage_order_def numeral_eq_Suc)

lemma next_kind_step:
  "fast_pipeline_next_kind s = Inr k \<Longrightarrow> stage_no s < 5 \<and> k = stage_kinds ! stage_no s \<and> stage_no (fast_pipeline_stage_after k) = Suc (stage_no s)"
  by (cases s) (auto simp: stage_kinds_def)

lemma next_kind_end: "fast_pipeline_next_kind s = Inl e \<Longrightarrow> s = Committed"
  by (cases s) auto

lemma apply_failed: "fast_batch_apply cr m b = (Inl e, b') \<Longrightarrow> b' = b"
  by (auto simp: fast_batch_apply_def split: if_splits sum.splits)

lemma apply_done:
  "fast_batch_apply cr m b = (Inr (), b') \<Longrightarrow> fb_batch_id b' = fb_batch_id b \<and> fm_batch_id m = fb_batch_id b
     \<and> fast_pipeline_validate_message cr m = Inr () \<and> stage_no (fb_stage b) < 5 \<and> fm_kind m = stage_kinds ! stage_no (fb_stage b)
     \<and> stage_no (fb_stage b') = Suc (stage_no (fb_stage b))"
  using next_kind_step [of "fb_stage b"] by (auto simp: fast_batch_apply_def split: if_splits sum.splits)

lemma feed_stages:
  "fast_feed cr ms b = (acc, b') \<Longrightarrow> fb_batch_id b' = fb_batch_id b \<and> stage_no (fb_stage b') = stage_no (fb_stage b) + length acc
     \<and> map fm_kind acc = take (length acc) (drop (stage_no (fb_stage b)) stage_kinds) \<and> stage_no (fb_stage b) + length acc \<le> 5
     \<and> (\<forall>m\<in>set acc. m \<in> set ms \<and> fm_batch_id m = fb_batch_id b \<and> fast_pipeline_validate_message cr m = Inr ())"
proof (induction ms arbitrary: b acc)
  case Nil
  then show ?case by (cases "fb_stage b") auto
next
  case (Cons m ms)
  obtain r b1 where a: "fast_batch_apply cr m b = (r, b1)" by fastforce
  show ?case
  proof (cases r)
    case (Inl e)
    then have "b1 = b" using a apply_failed by blast
    then show ?thesis using Cons.IH [of b acc] Cons.prems a Inl by auto
  next
    case (Inr u)
    then obtain acc' where acc': "fast_feed cr ms b1 = (acc', b')" "acc = m # acc'"
      using Cons.prems a by (auto simp: Let_def split: prod.splits)
    have d: "fb_batch_id b1 = fb_batch_id b \<and> fm_batch_id m = fb_batch_id b
     \<and> fast_pipeline_validate_message cr m = Inr () \<and> stage_no (fb_stage b) < 5 \<and> fm_kind m = stage_kinds ! stage_no (fb_stage b)
     \<and> stage_no (fb_stage b1) = Suc (stage_no (fb_stage b))" using apply_done a Inr by simp
    have "drop (stage_no (fb_stage b)) stage_kinds = stage_kinds ! stage_no (fb_stage b) # drop (Suc (stage_no (fb_stage b))) stage_kinds"
      using d by (intro Cons_nth_drop_Suc [symmetric]) (simp add: stage_kinds_def)
    then show ?thesis using Cons.IH [OF acc'(1)] d acc'(2) by auto
  qed
qed

section \<open>Properties\<close>

text \<open>
  A batch fed any messages in any order accepts exactly a prefix of ingest, schedule, execution, verify,
  commit, its stage is the number of accepted messages, and every accepted message carries the batch id,
  the network id and the SHA3-512 digest of its own content; so a committed batch has seen all five.
\<close>

theorem fast_pipeline_in_order:
  assumes "fast_feed cr ms (FastPipelineBatch_init i) = (acc, b)"
  shows "map fm_kind acc = take (length acc) stage_kinds \<and> fb_stage b = fast_pipeline_stage_order ! length acc
    \<and> (fb_stage b = Committed \<longrightarrow> map fm_kind acc = stage_kinds)
    \<and> (\<forall>m\<in>set acc. fm_batch_id m = i \<and> fm_network_id m = kFastNetworkId \<and> lower_copy (fm_payload_digest_hex m) = fast_pipeline_compute_digest_hex cr m)"
proof -
  note f = feed_stages [OF assms, unfolded FastPipelineBatch_init_def, simplified]
  have v: "fm_network_id m = kFastNetworkId \<and> lower_copy (fm_payload_digest_hex m) = fast_pipeline_compute_digest_hex cr m"
    if "fast_pipeline_validate_message cr m = Inr ()" for m
    using that by (auto simp: fast_pipeline_validate_message_def split: if_splits)
  have "fb_stage b = fast_pipeline_stage_order ! length acc" using f stage_no_order [of "fb_stage b"] by simp
  moreover have "map fm_kind acc = stage_kinds" if "fb_stage b = Committed" using that f by (simp add: stage_kinds_def)
  ultimately show ?thesis using f v by blast
qed

end
