(* ===== verification/Dandelion.thy ===== *)
theory Dandelion
  imports Addition_Prelude "HOL-Library.Multiset"
begin

text \<open>
  The Dandelion++ router (\<^verbatim>\<open>src/dandelion.cpp\<close>): which relay a transaction is stemmed to, and the embargo
  timers. The clock, the coin of an epoch, the shuffle of the peers and the pick among the relays are
  arguments. The theorems show that a transaction is never stemmed back to its source or to a peer
  that is gone, that local transactions are stemmed whenever there is a peer, that a source keeps its
  relay for the whole epoch, and that no embargoed transaction is forgotten.
\<close>

record dandelion_params =
  epoch_seconds :: int
  embargo_base_seconds :: int
  embargo_jitter_seconds :: int

record dandelion =
  dn_params :: dandelion_params
  dn_epoch :: u64
  dn_diffuser :: bool
  dn_relays :: "string list"
  dn_source_to_relay :: "string \<rightharpoonup> string"
  dn_embargo_until :: "string \<rightharpoonup> int"

definition DandelionRouter_init :: "dandelion_params \<Rightarrow> dandelion" where
  "DandelionRouter_init p =
     \<lparr>dn_params = (if epoch_seconds p \<le> 0 then p\<lparr>epoch_seconds := 600\<rparr> else p), dn_epoch = U64_MAX, dn_diffuser = False,
      dn_relays = [], dn_source_to_relay = Map.empty, dn_embargo_until = Map.empty\<rparr>"

text \<open>Signed division of C++, and the number of the epoch.\<close>

definition trunc_div :: "int \<Rightarrow> int \<Rightarrow> int" where
  "trunc_div a b = (if a < 0 then - ((- a) div b) else a div b)"

definition epoch_at :: "dandelion \<Rightarrow> int \<Rightarrow> u64" where
  "epoch_at d now = word_of_int (trunc_div now (epoch_seconds (dn_params d)))"

text \<open>\<open>coin\<close> is the draw of the epoch, \<open>shuffle\<close> sorts and shuffles the peers.\<close>

definition maybe_new_epoch :: "int \<Rightarrow> bool \<Rightarrow> (string list \<Rightarrow> string list) \<Rightarrow> string list \<Rightarrow> dandelion \<Rightarrow> dandelion" where
  "maybe_new_epoch now coin shuffle outbound d =
     (let e = epoch_at d now;
          stale = list_ex (\<lambda>r. r \<notin> set outbound) (dn_relays d) in
      if e = dn_epoch d \<and> \<not> stale \<and> \<not> (dn_relays d = [] \<and> outbound \<noteq> []) then d
      else
        (let d = (if e \<noteq> dn_epoch d then d\<lparr>dn_diffuser := coin, dn_epoch := e\<rparr> else d)
         in d\<lparr>dn_relays := take 2 (shuffle outbound), dn_source_to_relay := Map.empty\<rparr>))"

datatype dandelion_decision = Fluff | Stem string

definition local_key :: string where
  "local_key = CHR 0x01 # ''local''"

text \<open>\<open>pick n\<close> is the draw of an index below \<open>n\<close>.\<close>

definition route :: "int \<Rightarrow> bool \<Rightarrow> (string list \<Rightarrow> string list) \<Rightarrow> (nat \<Rightarrow> nat) \<Rightarrow> string \<Rightarrow> string list \<Rightarrow> dandelion
    \<Rightarrow> dandelion_decision \<times> dandelion" where
  "route now coin shuffle pick source outbound d =
     (let d = maybe_new_epoch now coin shuffle outbound d in
      if source \<noteq> [] \<and> dn_diffuser d then (Fluff, d)
      else
        (let c = filter (\<lambda>r. r \<noteq> source) (dn_relays d) in
         if c = [] then (Fluff, d)
         else
           (let key = (if source = [] then local_key else source) in
            case dn_source_to_relay d key of
              Some r \<Rightarrow>
                if r \<in> set c then (Stem r, d)
                else (let x = c ! pick (length c) in (Stem x, d\<lparr>dn_source_to_relay := (dn_source_to_relay d)(key \<mapsto> x)\<rparr>))
            | None \<Rightarrow>
                (let x = c ! pick (length c) in (Stem x, d\<lparr>dn_source_to_relay := (dn_source_to_relay d)(key \<mapsto> x)\<rparr>)))))"

definition embargo :: "int \<Rightarrow> (int \<Rightarrow> int) \<Rightarrow> string \<Rightarrow> dandelion \<Rightarrow> dandelion" where
  "embargo now jitter txid d =
     (if dn_embargo_until d txid \<noteq> None then d
      else d\<lparr>dn_embargo_until := (dn_embargo_until d)(txid \<mapsto>
             now + embargo_base_seconds (dn_params d) + jitter (max 0 (embargo_jitter_seconds (dn_params d))))\<rparr>)"

definition mark_fluffed :: "string \<Rightarrow> dandelion \<Rightarrow> dandelion" where
  "mark_fluffed txid d = d\<lparr>dn_embargo_until := (dn_embargo_until d)(txid := None)\<rparr>"

definition is_embargoed :: "string \<Rightarrow> dandelion \<Rightarrow> bool" where
  "is_embargoed txid d \<longleftrightarrow> dn_embargo_until d txid \<noteq> None"

text \<open>\<open>ids\<close> is the iteration order of the table.\<close>

definition expired_embargoes :: "int \<Rightarrow> string list \<Rightarrow> dandelion \<Rightarrow> string list \<times> dandelion" where
  "expired_embargoes now ids d =
     (let out = filter (\<lambda>i. case dn_embargo_until d i of None \<Rightarrow> False | Some u \<Rightarrow> u \<le> now) ids
      in (sort out, d\<lparr>dn_embargo_until := (\<lambda>i. if i \<in> set out then None else dn_embargo_until d i)\<rparr>))"

section \<open>Lemmas\<close>

text \<open>What the standard library promises of the shuffle and the pick.\<close>

definition draws_ok :: "(string list \<Rightarrow> string list) \<Rightarrow> (nat \<Rightarrow> nat) \<Rightarrow> bool" where
  "draws_ok shuffle pick \<longleftrightarrow> (\<forall>xs. mset (shuffle xs) = mset xs) \<and> (\<forall>n>0. pick n < n)"

lemma new_epoch_relays:
  assumes "draws_ok shuffle pick"
  shows "set (dn_relays (maybe_new_epoch now coin shuffle outbound d)) \<subseteq> set outbound"
    and "outbound \<noteq> [] \<Longrightarrow> dn_relays (maybe_new_epoch now coin shuffle outbound d) \<noteq> []"
proof -
  have m: "set (shuffle xs) = set xs" "shuffle xs = [] \<longleftrightarrow> xs = []" for xs
    using assms mset_eq_setD [of "shuffle xs" xs] by (auto simp: draws_ok_def dest: arg_cong [of _ _ size])
  have t: "set (take 2 (shuffle xs)) \<subseteq> set xs" for xs using set_take_subset m by fastforce
  show "set (dn_relays (maybe_new_epoch now coin shuffle outbound d)) \<subseteq> set outbound"
    using t [of outbound] by (auto simp: maybe_new_epoch_def Let_def list_ex_iff)
  show "outbound \<noteq> [] \<Longrightarrow> dn_relays (maybe_new_epoch now coin shuffle outbound d) \<noteq> []"
    using m by (auto simp: maybe_new_epoch_def Let_def)
qed

lemma same_epoch_kept:
  assumes "epoch_at d now = dn_epoch d" and "set (dn_relays d) \<subseteq> set outbound" and "dn_relays d \<noteq> []"
  shows "maybe_new_epoch now coin shuffle outbound d = d"
  using assms by (auto simp: maybe_new_epoch_def Let_def list_ex_iff)

lemma epoch_entered: "dn_epoch (maybe_new_epoch now coin shuffle outbound d) = epoch_at d now"
  by (auto simp: maybe_new_epoch_def Let_def)

lemma epoch_params [simp]: "dn_params (maybe_new_epoch now coin shuffle outbound d) = dn_params d"
  by (auto simp: maybe_new_epoch_def Let_def)

lemma route_frame:
  assumes "route now coin shuffle pick source outbound d = (x, d')"
  shows "dn_params d' = dn_params d" and "dn_epoch d' = epoch_at d now" and "dn_relays d' = dn_relays (maybe_new_epoch now coin shuffle outbound d)"
    and "dn_diffuser d' = dn_diffuser (maybe_new_epoch now coin shuffle outbound d)" and "dn_embargo_until d' = dn_embargo_until d"
proof -
  have e: "dn_embargo_until (maybe_new_epoch now coin shuffle outbound d) = dn_embargo_until d" by (auto simp: maybe_new_epoch_def Let_def)
  show "dn_params d' = dn_params d" "dn_epoch d' = epoch_at d now" "dn_relays d' = dn_relays (maybe_new_epoch now coin shuffle outbound d)"
    "dn_diffuser d' = dn_diffuser (maybe_new_epoch now coin shuffle outbound d)" "dn_embargo_until d' = dn_embargo_until d"
    using assms e epoch_entered [of now coin shuffle outbound d] by (auto simp: route_def Let_def split: if_splits option.splits)
qed

text \<open>A decision to stem: the relay, and that it is remembered.\<close>

lemma route_stem:
  assumes "draws_ok shuffle pick" and "route now coin shuffle pick source outbound d = (Stem r, d')"
  shows "r \<in> set (dn_relays d')" and "r \<noteq> source" and "r \<in> set outbound" and "dn_source_to_relay d' (if source = [] then local_key else source) = Some r"
    and "source = [] \<or> \<not> dn_diffuser d'"
proof -
  let ?d = "maybe_new_epoch now coin shuffle outbound d"
  let ?c = "filter (\<lambda>r. r \<noteq> source) (dn_relays ?d)"
  have p: "?c ! pick (length ?c) \<in> set ?c" if "?c \<noteq> []" using that assms(1) by (intro nth_mem) (auto simp: draws_ok_def)
  have r: "r \<in> set ?c" and k: "dn_source_to_relay d' (if source = [] then local_key else source) = Some r" and s: "source = [] \<or> \<not> dn_diffuser ?d"
    using assms(2) p by (auto simp: route_def Let_def split: if_splits option.splits)
  note f = route_frame [OF assms(2)]
  show "r \<in> set (dn_relays d')" "r \<noteq> source" "r \<in> set outbound" "dn_source_to_relay d' (if source = [] then local_key else source) = Some r"
    "source = [] \<or> \<not> dn_diffuser d'"
    using r k s f new_epoch_relays(1) [OF assms(1), of now coin outbound d] by auto
qed

lemma stem_again:
  assumes "draws_ok shuffle pick" and "dn_source_to_relay d (if source = [] then local_key else source) = Some r" and "r \<in> set (dn_relays d)"
    and "r \<noteq> source" and "epoch_at d now = dn_epoch d" and "set (dn_relays d) \<subseteq> set outbound" and "source = [] \<or> \<not> dn_diffuser d"
  shows "route now coin shuffle pick source outbound d = (Stem r, d)"
proof -
  have "maybe_new_epoch now coin shuffle outbound d = d" using assms(3,5,6) by (intro same_epoch_kept) auto
  moreover have "filter (\<lambda>r. r \<noteq> source) (dn_relays d) \<noteq> []" using assms(3,4) by (auto simp: filter_empty_conv)
  ultimately show ?thesis using assms by (auto simp: route_def Let_def)
qed

section \<open>Properties\<close>

text \<open>
  Stem routing. A transaction is stemmed only to a current peer other than its source, and never
  for a foreign source when the node is a diffuser; a local transaction is fluffed only when there is no peer
  at all; and a source that was given a relay gets the same relay again, in whatever order other sources
  are routed in between, as long as the epoch lasts and the relays stay connected, which denies an
  observer the samples of a relay drawn per transaction.
\<close>

theorem dandelion_stem_routing:
  assumes "draws_ok shuffle pick" and "route now coin shuffle pick source outbound d = (x, d')"
  shows "(case x of
      Stem r \<Rightarrow> r \<in> set outbound \<and> r \<noteq> source \<and> (source = [] \<or> \<not> dn_diffuser d')
        \<and> (\<forall>calls d2 now2 coin2 outbound2.
              foldl (\<lambda>s (n, c, src, out). snd (route n c shuffle pick src out s)) d' calls = d2
              \<longrightarrow> (\<forall>(n, c, src, out)\<in>set calls. epoch_at d' n = dn_epoch d' \<and> set (dn_relays d') \<subseteq> set out \<and> src \<noteq> local_key)
              \<longrightarrow> source \<noteq> local_key \<longrightarrow> epoch_at d' now2 = dn_epoch d' \<longrightarrow> set (dn_relays d') \<subseteq> set outbound2
              \<longrightarrow> fst (route now2 coin2 shuffle pick source outbound2 d2) = Stem r)
    | Fluff \<Rightarrow> source = [] \<longrightarrow> [] \<notin> set outbound \<longrightarrow> outbound = [])"
proof (cases x)
  case Fluff
  have "outbound = []" if s: "source = []" "[] \<notin> set outbound"
  proof (rule ccontr)
    assume "outbound \<noteq> []"
    with new_epoch_relays [OF assms(1)] have "set (dn_relays (maybe_new_epoch now coin shuffle outbound d)) \<subseteq> set outbound"
      "dn_relays (maybe_new_epoch now coin shuffle outbound d) \<noteq> []" by auto
    with s have "filter (\<lambda>r. r \<noteq> source) (dn_relays (maybe_new_epoch now coin shuffle outbound d)) \<noteq> []"
      by (cases "dn_relays (maybe_new_epoch now coin shuffle outbound d)") (auto simp: filter_empty_conv)
    then show False using assms(2) s(1) Fluff by (auto simp: route_def Let_def split: if_splits option.splits)
  qed
  then show ?thesis by (simp add: Fluff)
next
  case (Stem r)
  let ?key = "if source = [] then local_key else source"
  let ?step = "\<lambda>s (n, c, src, out). snd (route n c shuffle pick src out s)"
  define good where "good s \<longleftrightarrow> dn_relays s = dn_relays d' \<and> dn_epoch s = dn_epoch d' \<and> dn_diffuser s = dn_diffuser d' \<and> dn_params s = dn_params d'
      \<and> dn_source_to_relay s ?key = Some r" for s :: dandelion
  note st = route_stem [OF assms(1) assms(2) [unfolded Stem]]
  have keep: "good (snd (route n c shuffle pick src out s))"
    if g: "good s" and c: "epoch_at d' n = dn_epoch d'" "set (dn_relays d') \<subseteq> set out" "src \<noteq> local_key" "source \<noteq> local_key" for s n c src out
  proof -
    have ne: "dn_relays s \<noteq> []" using g st(1) by (auto simp: good_def)
    have e: "maybe_new_epoch n c shuffle out s = s" using g c ne by (intro same_epoch_kept) (auto simp: good_def epoch_at_def)
    show ?thesis
    proof (cases "(if src = [] then local_key else src) = ?key")
      case True
      then have "src = source" using c by (auto split: if_splits)
      moreover have "route n c shuffle pick source out s = (Stem r, s)"
        using g st c by (intro stem_again [OF assms(1)]) (auto simp: good_def epoch_at_def)
      ultimately show ?thesis using g by simp
    next
      case False
      then show ?thesis using g e by (auto simp: route_def Let_def good_def split: option.splits)
    qed
  qed
  have fold: "good (foldl ?step s calls)"
    if "good s" "\<forall>(n, c, src, out)\<in>set calls. epoch_at d' n = dn_epoch d' \<and> set (dn_relays d') \<subseteq> set out \<and> src \<noteq> local_key" "source \<noteq> local_key" for s calls
    using that by (induction calls arbitrary: s) (auto intro: keep)
  have g0: "good d'" using st(4) by (simp add: good_def)
  have "fst (route now2 coin2 shuffle pick source outbound2 (foldl ?step d' calls)) = Stem r"
    if "\<forall>(n, c, src, out)\<in>set calls. epoch_at d' n = dn_epoch d' \<and> set (dn_relays d') \<subseteq> set out \<and> src \<noteq> local_key" "source \<noteq> local_key"
      "epoch_at d' now2 = dn_epoch d'" "set (dn_relays d') \<subseteq> set outbound2" for calls now2 coin2 outbound2
  proof -
    have g: "good (foldl ?step d' calls)" by (rule fold [OF g0 that(1,2)])
    have "route now2 coin2 shuffle pick source outbound2 (foldl ?step d' calls) = (Stem r, foldl ?step d' calls)"
      using g st that by (intro stem_again [OF assms(1)]) (auto simp: good_def epoch_at_def)
    then show ?thesis by simp
  qed
  then show ?thesis using st by (auto simp: Stem)
qed

theorem dandelion_stem_routing_witness:
  "\<exists>d'. route 5 False id (\<lambda>n. 0) ''x'' [''p'', ''q''] (DandelionRouter_init \<lparr>epoch_seconds = 600, embargo_base_seconds = 30, embargo_jitter_seconds = 15\<rparr>) = (Stem ''p'', d')
     \<and> fst (route 9 True id (\<lambda>n. 0) ''x'' [''q'', ''p''] d') = Stem ''p''"
proof -
  let ?d = "DandelionRouter_init \<lparr>epoch_seconds = 600, embargo_base_seconds = 30, embargo_jitter_seconds = 15\<rparr>"
  have ok: "draws_ok id (\<lambda>n. 0)" by (simp add: draws_ok_def)
  obtain d' where d': "route 5 False id (\<lambda>n. 0) ''x'' [''p'', ''q''] ?d = (Stem ''p'', d')" "dn_relays d' = [''p'', ''q'']" "dn_epoch d' = 0"
      "epoch_seconds (dn_params d') = 600"
    by (simp add: route_def maybe_new_epoch_def DandelionRouter_init_def epoch_at_def trunc_div_def Let_def)
  have "epoch_at d' 9 = dn_epoch d'" using d'(3,4) by (simp add: epoch_at_def trunc_div_def)
  moreover have "''x'' \<noteq> local_key" "set (dn_relays d') \<subseteq> set [''q'', ''p'']" using d'(2) by (simp_all add: local_key_def)
  ultimately have "fst (route 9 True id (\<lambda>n. 0) ''x'' [''q'', ''p''] d') = Stem ''p''"
    using dandelion_stem_routing [OF ok d'(1), unfolded dandelion_decision.case, THEN conjunct2, THEN conjunct2, THEN conjunct2,
        rule_format, of "[]" d' 9 "[''q'', ''p'']" True] by simp
  with d'(1) show ?thesis by blast
qed

text \<open>Embargoes are lost only by being marked fluffed or by being handed out as expired.\<close>

theorem expired_embargoes_exact:
  assumes "expired_embargoes now ids d = (out, d')" and "set ids = dom (dn_embargo_until d)"
  shows "sorted out \<and> (\<forall>i. i \<in> set out \<longleftrightarrow> (\<exists>u. dn_embargo_until d i = Some u \<and> u \<le> now))
    \<and> (\<forall>i. is_embargoed i d \<longleftrightarrow> i \<in> set out \<or> is_embargoed i d') \<and> (\<forall>i\<in>set out. \<not> is_embargoed i d')"
  using assms by (auto simp: expired_embargoes_def Let_def is_embargoed_def split: option.splits)

end
