(* ===== verification/Privacy_Pool.thy ===== *)
theory Privacy_Pool
  imports Text_Records Crypto_Signing
begin

text \<open>
  The pool of opening notes (\<^verbatim>\<open>src/privacy.cpp\<close>): notes with a sealed amount and an owner tag, minted and
  spent by showing the trapdoor of a SHA3 commitment. The note cipher is an interface of the source
  (\<^verbatim>\<open>class NoteCipher\<close>): here a record of functions, whose laws are the locale \<open>note_cipher_laws\<close> and whose
  default implementation is interpreted in it. The theorems show that spending conserves value and
  happens at most once per note, and what survives the text dump of the pool.
\<close>

section \<open>Notes and ciphers\<close>

record private_note =
  pn_owner_tag :: string
  pn_amount_sealed :: string
  pn_blinding :: string
  pn_commitment :: string
  pn_nullifier :: string
  pn_spent :: bool

record opening_note =
  on_trapdoor :: string
  on_commitment :: string
  on_nullifier :: string

record note_cipher =
  nc_name :: string
  nc_owner_tag :: "string \<Rightarrow> string \<Rightarrow> string res"
  nc_seal_amount :: "u64 \<Rightarrow> string \<Rightarrow> string \<Rightarrow> string res"
  nc_unseal_amount :: "string \<Rightarrow> string \<Rightarrow> string \<Rightarrow> u64 res"

definition is_hex_even :: "string \<Rightarrow> bool" where
  "is_hex_even s \<longleftrightarrow> s \<noteq> [] \<and> length s mod 2 = 0 \<and> list_all is_hex_char s"

definition mk_note_id :: "crypto \<Rightarrow> string \<Rightarrow> u64 \<Rightarrow> string \<Rightarrow> string" where
  "mk_note_id cr owner amount seed = to_hex (sha3 cr (''note|'' @ owner @ ''|'' @ to_string amount @ ''|'' @ seed))"

definition keyless_owner_tag :: "crypto \<Rightarrow> string \<Rightarrow> string \<Rightarrow> string res" where
  "keyless_owner_tag cr owner note_id =
     (if owner = [] \<or> note_id = [] then Inl ''owner_tag: owner/note_id empty''
      else Inr (to_hex (sha3 cr (''owner_tag_v2|'' @ note_id @ ''|'' @ owner))))"

definition keyless_mask :: "crypto \<Rightarrow> string \<Rightarrow> string \<Rightarrow> u64 res" where
  "keyless_mask cr note_id blinding =
     (if note_id = [] then Inl ''amount mask: note_id empty''
      else (case stoull16 (take 16 (to_hex (sha3 cr (''amount_mask_v2|'' @ note_id @ ''|'' @ blinding)))) of
              None \<Rightarrow> Inl ''stoull''
            | Some m \<Rightarrow> Inr m))"

definition keyless_seal_amount :: "crypto \<Rightarrow> u64 \<Rightarrow> string \<Rightarrow> string \<Rightarrow> string res" where
  "keyless_seal_amount cr amount note_id blinding =
     bind_res (keyless_mask cr note_id blinding) (\<lambda>m. Inr (hex_digits (unat (xor amount m))))"

definition keyless_unseal_amount :: "crypto \<Rightarrow> string \<Rightarrow> string \<Rightarrow> string \<Rightarrow> u64 res" where
  "keyless_unseal_amount cr sealed note_id blinding =
     (if sealed = [] \<or> length sealed > 16
         \<or> \<not> is_hex_even (if length sealed mod 2 = 0 then sealed else CHR ''0'' # sealed)
      then Inl ''invalid sealed amount''
      else bind_res (keyless_mask cr note_id blinding) (\<lambda>m.
             case stoull16 sealed of None \<Rightarrow> Inl ''invalid sealed amount parse'' | Some v \<Rightarrow> Inr (xor v m)))"

definition make_keyless_note_cipher :: "crypto \<Rightarrow> note_cipher" where
  "make_keyless_note_cipher cr =
     \<lparr>nc_name = ''keyless_sha3_v1'', nc_owner_tag = keyless_owner_tag cr,
      nc_seal_amount = keyless_seal_amount cr, nc_unseal_amount = keyless_unseal_amount cr\<rparr>"

section \<open>The pool\<close>

datatype native_verifier_mode = pq_mldsa87

record privacy_pool =
  pp_cipher :: note_cipher
  pp_mode :: native_verifier_mode
  pp_strict :: bool
  pp_notes :: "string \<rightharpoonup> private_note"
  pp_used :: "string set"
  pp_spent_cm :: "string set"

definition PrivacyPool_init :: "crypto \<Rightarrow> privacy_pool" where
  "PrivacyPool_init cr =
     \<lparr>pp_cipher = make_keyless_note_cipher cr, pp_mode = pq_mldsa87, pp_strict = True, pp_notes = Map.empty,
      pp_used = {}, pp_spent_cm = {}\<rparr>"

definition set_note_cipher :: "crypto \<Rightarrow> note_cipher option \<Rightarrow> privacy_pool \<Rightarrow> privacy_pool" where
  "set_note_cipher cr c p = p\<lparr>pp_cipher := (case c of None \<Rightarrow> make_keyless_note_cipher cr | Some c \<Rightarrow> c)\<rparr>"

text \<open>Commitment and nullifier of an opening.\<close>

definition compute_opening_relation :: "crypto \<Rightarrow> u64 \<Rightarrow> string \<Rightarrow> string \<times> string" where
  "compute_opening_relation cr amount trapdoor =
     (let cm = to_hex (sha3 cr (''cm|v1|'' @ to_string amount @ ''|'' @ trapdoor))
      in (cm, to_hex (sha3 cr (''nf|v1|'' @ cm @ ''|'' @ trapdoor))))"

definition verify_opening :: "crypto \<Rightarrow> u64 \<Rightarrow> string \<Rightarrow> string \<Rightarrow> string \<Rightarrow> unit res" where
  "verify_opening cr amount trapdoor commitment nullifier =
     (if \<not> is_hex_even trapdoor \<or> length trapdoor < 32 then Inl ''trapdoor must be even-length hex (>=16 bytes)''
      else if \<not> is_hex_even commitment \<or> \<not> is_hex_even nullifier then Inl ''commitment/nullifier must be even-length hex''
      else if compute_opening_relation cr amount trapdoor \<noteq> (commitment, nullifier) then Inl ''opening relation rejected''
      else Inr ())"

definition prepare_opening :: "crypto \<Rightarrow> (nat \<Rightarrow> string option) \<Rightarrow> u64 \<Rightarrow> opening_note res" where
  "prepare_opening cr rand amount =
     (if amount = 0 then Inl ''amount must be > 0''
      else bind_res (random_hex rand 32) (\<lambda>t.
             let (cm, nf) = compute_opening_relation cr amount t
             in Inr \<lparr>on_trapdoor = t, on_commitment = cm, on_nullifier = nf\<rparr>))"

text \<open>
  The search for a note with the same nullifier or commitment; \<open>order\<close> is the iteration order of the
  hash table, which decides between the two messages.
\<close>

fun assigned_error :: "(string \<rightharpoonup> private_note) \<Rightarrow> string \<Rightarrow> string \<Rightarrow> string list \<Rightarrow> string option" where
  "assigned_error notes cm nf [] = None"
| "assigned_error notes cm nf (i # is) =
     (case notes i of
        None \<Rightarrow> assigned_error notes cm nf is
      | Some n \<Rightarrow>
          if pn_nullifier n = nf then Some ''nullifier already assigned''
          else if pn_commitment n = cm then Some ''commitment already assigned''
          else assigned_error notes cm nf is)"

type_synonym note_order = "(string \<rightharpoonup> private_note) \<Rightarrow> string list"

definition mint_open ::
    "crypto \<Rightarrow> note_order \<Rightarrow> string \<Rightarrow> u64 \<Rightarrow> string \<Rightarrow> string \<Rightarrow> string \<Rightarrow> privacy_pool \<Rightarrow> string res \<times> privacy_pool" where
  "mint_open cr order owner amount commitment nullifier trapdoor p =
     (if owner = [] \<or> amount = 0 then (Inl ''invalid mint_open params'', p)
      else case verify_opening cr amount trapdoor commitment nullifier of
        Inl e \<Rightarrow> (Inl e, p)
      | Inr _ \<Rightarrow>
          if nullifier \<in> pp_used p then (Inl ''nullifier already used'', p)
          else if commitment \<in> pp_spent_cm p then (Inl ''commitment already spent'', p)
          else case assigned_error (pp_notes p) commitment nullifier (order (pp_notes p)) of
            Some e \<Rightarrow> (Inl e, p)
          | None \<Rightarrow>
              (let note_id = mk_note_id cr owner amount commitment in
               if pp_notes p note_id \<noteq> None then (Inl ''note already exists'', p)
               else case nc_seal_amount (pp_cipher p) amount note_id ''open'' of
                 Inl e \<Rightarrow> (Inl e, p)
               | Inr sealed \<Rightarrow>
                   (case nc_owner_tag (pp_cipher p) owner note_id of
                      Inl e \<Rightarrow> (Inl e, p)
                    | Inr tag \<Rightarrow>
                        (Inr note_id, p\<lparr>pp_notes := (pp_notes p)(note_id \<mapsto>
                           \<lparr>pn_owner_tag = tag, pn_amount_sealed = sealed, pn_blinding = ''open'',
                            pn_commitment = commitment, pn_nullifier = nullifier, pn_spent = False\<rparr>)\<rparr>))))"

definition no_opening :: opening_note where
  "no_opening = \<lparr>on_trapdoor = [], on_commitment = [], on_nullifier = []\<rparr>"

text \<open>The checks of \<^verbatim>\<open>spend_open\<close> on the note to be spent; they return the note and its amount.\<close>

definition spendable_note ::
    "crypto \<Rightarrow> privacy_pool \<Rightarrow> string \<Rightarrow> string \<Rightarrow> string \<Rightarrow> u64 \<Rightarrow> string \<Rightarrow> (private_note \<times> u64) res" where
  "spendable_note cr p owner note_id recipient amount trapdoor =
     (if owner = [] \<or> recipient = [] \<or> note_id = [] \<or> amount = 0 then Inl ''invalid spend_open params''
      else case pp_notes p note_id of
        None \<Rightarrow> Inl ''note not found''
      | Some n \<Rightarrow>
          if pn_spent n then Inl ''note already spent''
          else bind_res (nc_owner_tag (pp_cipher p) owner note_id) (\<lambda>tag.
               if pn_owner_tag n \<noteq> tag then Inl ''owner mismatch''
               else bind_res (nc_unseal_amount (pp_cipher p) (pn_amount_sealed n) note_id (pn_blinding n)) (\<lambda>note_amount.
               if note_amount < amount then Inl ''insufficient note amount''
               else bind_res (verify_opening cr note_amount trapdoor (pn_commitment n) (pn_nullifier n)) (\<lambda>_.
               if pn_nullifier n \<in> pp_used p then Inl ''nullifier already used''
               else Inr (n, note_amount)))))"

text \<open>Minting the note of the change, if any; on failure the note of the recipient is erased again.\<close>

definition mint_change ::
    "crypto \<Rightarrow> note_order \<Rightarrow> (nat \<Rightarrow> string option) \<Rightarrow> string \<Rightarrow> u64 \<Rightarrow> string \<Rightarrow> privacy_pool
       \<Rightarrow> (string \<times> opening_note) res \<times> privacy_pool" where
  "mint_change cr order rand owner change minted p =
     (let undone = p\<lparr>pp_notes := (pp_notes p)(minted := None)\<rparr> in
      if change = 0 then (Inr ([], no_opening), p)
      else case prepare_opening cr rand change of
        Inl e \<Rightarrow> (Inl e, undone)
      | Inr o' \<Rightarrow>
          (case mint_open cr order owner change (on_commitment o') (on_nullifier o') (on_trapdoor o') p of
             (Inl e, _) \<Rightarrow> (Inl e, undone)
           | (Inr i, p) \<Rightarrow> (Inr (i, o'), p)))"

definition mark_spent :: "string \<Rightarrow> private_note \<Rightarrow> privacy_pool \<Rightarrow> privacy_pool" where
  "mark_spent note_id n p =
     p\<lparr>pp_notes := (pp_notes p)(note_id \<mapsto> n\<lparr>pn_spent := True\<rparr>), pp_used := insert (pn_nullifier n) (pp_used p),
       pp_spent_cm := insert (pn_commitment n) (pp_spent_cm p)\<rparr>"

definition spend_open ::
    "crypto \<Rightarrow> note_order \<Rightarrow> (nat \<Rightarrow> string option) \<Rightarrow> (nat \<Rightarrow> string option) \<Rightarrow> string \<Rightarrow> string \<Rightarrow> string \<Rightarrow> u64 \<Rightarrow> string
       \<Rightarrow> privacy_pool \<Rightarrow> (string \<times> opening_note \<times> string \<times> opening_note) res \<times> privacy_pool" where
  "spend_open cr order rand rand' owner note_id recipient amount trapdoor p =
     (case spendable_note cr p owner note_id recipient amount trapdoor of
        Inl e \<Rightarrow> (Inl e, p)
      | Inr (n, note_amount) \<Rightarrow>
          (case prepare_opening cr rand amount of
             Inl e \<Rightarrow> (Inl e, p)
           | Inr ro \<Rightarrow>
               (case mint_open cr order recipient amount (on_commitment ro) (on_nullifier ro) (on_trapdoor ro) p of
                  (Inl e, p) \<Rightarrow> (Inl e, p)
                | (Inr minted, p) \<Rightarrow>
                    (case mint_change cr order rand' owner (note_amount - amount) minted p of
                       (Inl e, p) \<Rightarrow> (Inl e, p)
                     | (Inr (ci, co), p) \<Rightarrow> (Inr (minted, ro, ci, co), mark_spent note_id n p)))))"

definition set_native_verifier_mode :: "string \<Rightarrow> privacy_pool \<Rightarrow> unit res \<times> privacy_pool" where
  "set_native_verifier_mode mode p =
     (let m = lower_copy mode in
      if contains m ''zk'' \<or> contains m ''snark'' \<or> contains m ''groth'' \<or> contains m ''bullet'' \<or> contains m ''stark'' \<or> contains m ''plonk''
      then (Inl ''not a ZK/SNARK/bulletproofs circuit; privacy is SHA3 opening'', p)
      else if m = ''pq_mldsa87'' \<or> m = ''pq'' \<or> m = ''mldsa87'' then (Inr (), p\<lparr>pp_mode := pq_mldsa87\<rparr>)
      else (Inl ''unsupported native verifier mode (use: pq_mldsa87); SHA3 opening is the privacy path'', p))"

definition native_verifier_mode_name :: "privacy_pool \<Rightarrow> string" where
  "native_verifier_mode_name p = (case pp_mode p of pq_mldsa87 \<Rightarrow> ''pq_mldsa87'')"

definition verify_native_proof :: "crypto \<Rightarrow> privacy_pool \<Rightarrow> string \<Rightarrow> string \<Rightarrow> string \<Rightarrow> unit res" where
  "verify_native_proof cr p public_input proof_hex vk =
     (case pp_mode p of pq_mldsa87 \<Rightarrow>
        if verify_message_signature_hybrid_uncached cr vk public_input (''pq='' @ proof_hex) then Inr ()
        else Inl ''native verifier rejected proof'')"

definition verify_proof :: "crypto \<Rightarrow> privacy_pool \<Rightarrow> string \<Rightarrow> string \<Rightarrow> string \<Rightarrow> unit res" where
  "verify_proof cr p public_input proof_hex vk =
     (if \<not> is_hex_even proof_hex \<or> \<not> is_hex_even vk then Inl ''proof/vk must be even-length hex''
      else if CHR 0x22 \<in> set public_input then Inl ''public input contains invalid quote''
      else if CHR 0x0A \<in> set public_input \<or> CHR 0x0D \<in> set public_input then Inl ''public input contains invalid newline''
      else verify_native_proof cr p public_input proof_hex vk)"

text \<open>The former minting of notes; \<open>count\<close> is \<^verbatim>\<open>notes_.size()\<close>.\<close>

definition mint_note_internal :: "crypto \<Rightarrow> nat \<Rightarrow> string \<Rightarrow> u64 \<Rightarrow> privacy_pool \<Rightarrow> string res \<times> privacy_pool" where
  "mint_note_internal cr count owner amount p =
     (if owner = [] then (Inl ''owner empty'', p)
      else if amount = 0 then (Inl ''amount must be > 0'', p)
      else
        (let blind = to_hex (sha3 cr (''blind|'' @ owner @ ''|'' @ dec count));
             note_id = mk_note_id cr owner amount blind;
             cm = to_hex (sha3 cr (''cm|'' @ blind @ ''|'' @ to_string amount));
             nf = to_hex (sha3 cr (''nf|'' @ note_id)) in
         case nc_seal_amount (pp_cipher p) amount note_id blind of
           Inl e \<Rightarrow> (Inl e, p)
         | Inr sealed \<Rightarrow>
             (case nc_owner_tag (pp_cipher p) owner note_id of
                Inl e \<Rightarrow> (Inl e, p)
              | Inr tag \<Rightarrow>
                  (Inr note_id, p\<lparr>pp_notes := (pp_notes p)(note_id \<mapsto>
                     \<lparr>pn_owner_tag = tag, pn_amount_sealed = sealed, pn_blinding = blind, pn_commitment = cm,
                      pn_nullifier = nf, pn_spent = False\<rparr>)\<rparr>))))"

definition mint_zk :: "string res" where
  "mint_zk = Inl ''mint_zk removed (was not zero-knowledge); use shielded (addz) transactions''"

definition spend_zk :: "string res" where
  "spend_zk = Inl ''spend_zk removed (was not zero-knowledge); use shielded (addz) transactions''"

definition note_count :: "privacy_pool \<Rightarrow> nat" where
  "note_count p = card (dom (pp_notes p))"

definition used_nullifier_count :: "privacy_pool \<Rightarrow> nat" where
  "used_nullifier_count p = card (pp_used p)"

definition spent_commitment_count :: "privacy_pool \<Rightarrow> nat" where
  "spent_commitment_count p = card (pp_spent_cm p)"

section \<open>The text dump\<close>

definition note_line :: "string \<Rightarrow> private_note \<Rightarrow> string" where
  "note_line i n = ''N|'' @ join_with CHR ''|'' [i, pn_owner_tag n, pn_amount_sealed n, pn_blinding n, pn_commitment n, pn_nullifier n,
     if pn_spent n then ''1'' else ''0'']"

text \<open>\<open>ids\<close>, \<open>nfs\<close> and \<open>cms\<close> are the iteration orders of the three tables.\<close>

definition pool_lines :: "string list \<Rightarrow> string list \<Rightarrow> string list \<Rightarrow> privacy_pool \<Rightarrow> string list" where
  "pool_lines ids nfs cms p =
     [''M|'' @ (if pp_strict p then ''1'' else ''0''), ''Z|'' @ native_verifier_mode_name p]
     @ map (\<lambda>i. note_line i (the (pp_notes p i))) ids @ map (\<lambda>nf. ''U|'' @ nf) nfs @ map (\<lambda>cm. ''S|'' @ cm) cms"

definition pool_dump_state :: "string list \<Rightarrow> string list \<Rightarrow> string list \<Rightarrow> privacy_pool \<Rightarrow> string" where
  "pool_dump_state ids nfs cms p = unlines (pool_lines ids nfs cms p)"

text \<open>A note line; notes whose tag or amount does not look sealed are taken for the former plain format.\<close>

definition load_note :: "privacy_pool \<Rightarrow> string \<Rightarrow> unit res \<times> privacy_pool" where
  "load_note p r =
     (let f = getfields 6 r;
          i = f ! 0; owner_or_tag = f ! 1; amt = f ! 2; blind = f ! 3; cm = f ! 4; nf = f ! 5; spent = (f ! 6 = ''1'') in
      if i = [] then (Inl ''invalid note line'', p)
      else if length owner_or_tag = 128 \<and> is_hex_even owner_or_tag \<and> is_hex_even amt then
        (Inr (), p\<lparr>pp_notes := (pp_notes p)(i \<mapsto> \<lparr>pn_owner_tag = owner_or_tag, pn_amount_sealed = lower_copy amt,
             pn_blinding = blind, pn_commitment = cm, pn_nullifier = nf, pn_spent = spent\<rparr>),
           pp_spent_cm := (if spent \<and> cm \<noteq> [] then insert cm (pp_spent_cm p) else pp_spent_cm p)\<rparr>)
      else case nc_owner_tag (pp_cipher p) owner_or_tag i of
        Inl e \<Rightarrow> (Inl e, p)
      | Inr tag \<Rightarrow>
          (case stoull amt of
             None \<Rightarrow> (Inl ''invalid legacy note amount'', p)
           | Some a \<Rightarrow>
               (case nc_seal_amount (pp_cipher p) a i blind of
                  Inl e \<Rightarrow> (Inl e, p)
                | Inr sealed \<Rightarrow>
                    (Inr (), p\<lparr>pp_notes := (pp_notes p)(i \<mapsto> \<lparr>pn_owner_tag = tag, pn_amount_sealed = sealed,
                       pn_blinding = blind, pn_commitment = cm, pn_nullifier = nf, pn_spent = spent\<rparr>)\<rparr>))))"

definition load_pool_line :: "privacy_pool \<Rightarrow> string \<Rightarrow> unit res \<times> privacy_pool" where
  "load_pool_line p line =
     (case line of
        tag # sep # r \<Rightarrow>
          if sep \<noteq> CHR ''|'' then (Inr (), p)
          else if tag = CHR ''Z'' then
            (case set_native_verifier_mode r p of
               (Inl _, p) \<Rightarrow> (Inl ''invalid native verifier mode in state'', p)
             | (Inr _, p) \<Rightarrow> (Inr (), p))
          else if tag = CHR ''V'' then (Inr (), p)
          else if tag = CHR ''M'' then (Inr (), p\<lparr>pp_strict := (r = ''1'' \<or> r = ''true'')\<rparr>)
          else if tag = CHR ''N'' then load_note p r
          else if tag = CHR ''U'' then (Inr (), if r \<noteq> [] then p\<lparr>pp_used := insert r (pp_used p)\<rparr> else p)
          else if tag = CHR ''S'' then (Inr (), if r \<noteq> [] then p\<lparr>pp_spent_cm := insert r (pp_spent_cm p)\<rparr> else p)
          else (Inr (), p)
      | _ \<Rightarrow> (Inr (), p))"

text \<open>\<open>mainnet\<close> is \<^verbatim>\<open>is_mainnet_runtime()\<close>.\<close>

definition pool_load_state :: "bool \<Rightarrow> string \<Rightarrow> privacy_pool \<Rightarrow> unit res \<times> privacy_pool" where
  "pool_load_state mainnet state p =
     (case load_lines load_pool_line
             (p\<lparr>pp_notes := Map.empty, pp_used := {}, pp_spent_cm := {}, pp_mode := pq_mldsa87, pp_strict := True\<rparr>)
             (getlines newline state) of
        (Inl e, p) \<Rightarrow> (Inl e, p)
      | (Inr _, p) \<Rightarrow> (Inr (), if mainnet then p\<lparr>pp_strict := True\<rparr> else p))"

section \<open>Value and invariant\<close>

text \<open>The value of a note, and of the notes of a pool that are not spent.\<close>

definition note_value :: "note_cipher \<Rightarrow> string \<Rightarrow> private_note \<Rightarrow> nat" where
  "note_value c i n = (case nc_unseal_amount c (pn_amount_sealed n) i (pn_blinding n) of Inl _ \<Rightarrow> 0 | Inr a \<Rightarrow> unat a)"

definition unspent_value :: "note_cipher \<Rightarrow> (string \<rightharpoonup> private_note) \<Rightarrow> string \<Rightarrow> nat" where
  "unspent_value c notes i = (case notes i of None \<Rightarrow> 0 | Some n \<Rightarrow> if pn_spent n then 0 else note_value c i n)"

definition pool_value :: "privacy_pool \<Rightarrow> nat" where
  "pool_value p = (\<Sum>i\<in>dom (pp_notes p). unspent_value (pp_cipher p) (pp_notes p) i)"

text \<open>The notes are finitely many, marked spent exactly when their nullifier is used, and have distinct nullifiers.\<close>

definition notes_ok :: "privacy_pool \<Rightarrow> bool" where
  "notes_ok p \<longleftrightarrow> finite (dom (pp_notes p))
     \<and> (\<forall>i n. pp_notes p i = Some n \<longrightarrow> (pn_spent n \<longleftrightarrow> pn_nullifier n \<in> pp_used p))
     \<and> (\<forall>i j n m. pp_notes p i = Some n \<longrightarrow> pp_notes p j = Some m \<longrightarrow> pn_nullifier n = pn_nullifier m \<longrightarrow> i = j)"

lemma value_of_update:
  assumes "finite (dom (pp_notes p))"
  shows "pool_value (p\<lparr>pp_notes := (pp_notes p)(i := x)\<rparr>) + unspent_value (pp_cipher p) (pp_notes p) i
    = pool_value p + unspent_value (pp_cipher p) ((pp_notes p)(i := x)) i"
proof -
  let ?m = "pp_notes p" and ?m' = "(pp_notes p)(i := x)" and ?A = "insert i (dom (pp_notes p))"
  have z: "j \<notin> dom m \<Longrightarrow> unspent_value (pp_cipher p) m j = 0" for m j by (simp add: unspent_value_def domIff)
  have tot: "(\<Sum>j\<in>dom m. unspent_value (pp_cipher p) m j) = (\<Sum>j\<in>?A. unspent_value (pp_cipher p) m j)" if "dom m \<subseteq> ?A" for m
    using that assms z by (intro sum.mono_neutral_left) auto
  have split: "(\<Sum>j\<in>?A. unspent_value (pp_cipher p) m j) = unspent_value (pp_cipher p) m i + (\<Sum>j\<in>?A - {i}. unspent_value (pp_cipher p) m j)" for m
    using assms by (simp add: sum.insert_remove)
  have rest: "(\<Sum>j\<in>?A - {i}. unspent_value (pp_cipher p) ?m' j) = (\<Sum>j\<in>?A - {i}. unspent_value (pp_cipher p) ?m j)"
    by (rule sum.cong) (simp_all add: unspent_value_def)
  have d: "dom ?m' \<subseteq> ?A" "dom ?m \<subseteq> ?A" by (auto split: if_splits)
  show ?thesis using tot [OF d(1)] tot [OF d(2)] split [of ?m] split [of ?m'] rest by (simp add: pool_value_def)
qed

text \<open>Updating one note of a well-formed pool.\<close>

lemma assigned_error_None:
  "assigned_error notes cm nf is = None \<Longrightarrow> i \<in> set is \<Longrightarrow> notes i = Some n \<Longrightarrow> pn_nullifier n \<noteq> nf \<and> pn_commitment n \<noteq> cm"
  by (induction "is") (auto split: option.splits if_splits)

lemma mint_open_cases:
  assumes "mint_open cr order owner amount cm nf t p = (r, p')" and "set (order (pp_notes p)) = dom (pp_notes p)"
  shows "(\<exists>e. r = Inl e \<and> p' = p) \<or> (\<exists>i sealed tag. r = Inr i \<and> i = mk_note_id cr owner amount cm \<and> pp_notes p i = None
     \<and> nc_seal_amount (pp_cipher p) amount i ''open'' = Inr sealed \<and> nc_owner_tag (pp_cipher p) owner i = Inr tag
     \<and> verify_opening cr amount t cm nf = Inr () \<and> nf \<notin> pp_used p \<and> (\<forall>j n. pp_notes p j = Some n \<longrightarrow> pn_nullifier n \<noteq> nf)
     \<and> p' = p\<lparr>pp_notes := (pp_notes p)(i \<mapsto> \<lparr>pn_owner_tag = tag, pn_amount_sealed = sealed, pn_blinding = ''open'',
                            pn_commitment = cm, pn_nullifier = nf, pn_spent = False\<rparr>)\<rparr>)"
proof -
  have fresh: "\<forall>j n. pp_notes p j = Some n \<longrightarrow> pn_nullifier n \<noteq> nf" if "assigned_error (pp_notes p) cm nf (order (pp_notes p)) = None"
    using assigned_error_None [OF that] assms(2) by (auto simp: domIff)
  show ?thesis using assms(1) fresh unfolding mint_open_def Let_def
    by (auto split: if_splits sum.splits option.splits) metis+
qed

lemma keyless_seal_unseal:
  assumes "keyless_seal_amount cr a i b = Inr s"
  shows "keyless_unseal_amount cr s i b = Inr a"
proof -
  from assms obtain m where m: "keyless_mask cr i b = Inr m" and s: "s = hex_digits (unat (xor a m))"
    by (cases "keyless_mask cr i b") (auto simp: keyless_seal_amount_def)
  have lt: "unat (xor a m) < 16 ^ 16" using unat_u64_bound [of "xor a m"] by (simp del: unat_u64_bound)
  have len: "length s \<le> 16" "s \<noteq> []" using length_hex_digits [OF lt] by (simp_all add: s)
  have hx: "list_all is_hex_char s" using hex_digits_hex by (auto simp: s list_all_iff)
  have "is_hex_char CHR ''0''" by (simp add: is_hex_char_def hex_val_def)
  then have ev: "is_hex_even (if length s mod 2 = 0 then s else CHR ''0'' # s)"
    using len(2) hx by (auto simp: is_hex_even_def mod_Suc)
  have "xor (xor a m) m = a" by (simp add: xor.assoc)
  then show ?thesis using len ev m stoull16_hex_digits [of "xor a m"]
    by (simp add: keyless_unseal_amount_def s [symmetric])
qed

section \<open>The interface of ciphers\<close>

text \<open>What the pool relies on of its cipher: a sealed amount is unsealed to the amount.\<close>

locale note_cipher_laws =
  fixes c :: note_cipher
  assumes seal_unseal: "nc_seal_amount c a i b = Inr s \<Longrightarrow> nc_unseal_amount c s i b = Inr a"
begin

lemma mint_value:
  assumes "notes_ok p" and c: "pp_cipher p = c" and "mint_open cr order owner amount cm nf t p = (Inr i, p')" and "set (order (pp_notes p)) = dom (pp_notes p)"
  shows "notes_ok p'" and "pool_value p' = pool_value p + unat amount" and "pp_notes p i = None"
    and "\<exists>n. p' = p\<lparr>pp_notes := (pp_notes p)(i \<mapsto> n)\<rparr> \<and> note_value c i n = unat amount"
proof -
  obtain sealed tag where s: "nc_seal_amount (pp_cipher p) amount i ''open'' = Inr sealed" "pp_notes p i = None" "nf \<notin> pp_used p"
      "\<forall>j n. pp_notes p j = Some n \<longrightarrow> pn_nullifier n \<noteq> nf"
      and p': "p' = p\<lparr>pp_notes := (pp_notes p)(i \<mapsto> \<lparr>pn_owner_tag = tag, pn_amount_sealed = sealed, pn_blinding = ''open'',
                            pn_commitment = cm, pn_nullifier = nf, pn_spent = False\<rparr>)\<rparr>"
    using mint_open_cases [OF assms(3,4)] by blast
  show "pp_notes p i = None" by (rule s(2))
  let ?n = "\<lparr>pn_owner_tag = tag, pn_amount_sealed = sealed, pn_blinding = ''open'', pn_commitment = cm, pn_nullifier = nf, pn_spent = False\<rparr>"
  have v: "note_value c i ?n = unat amount" using seal_unseal [of amount i "''open''" sealed] s(1) c by (simp add: note_value_def)
  then show "\<exists>n. p' = p\<lparr>pp_notes := (pp_notes p)(i \<mapsto> n)\<rparr> \<and> note_value c i n = unat amount" using p' by blast
  have fin: "finite (dom (pp_notes p))" using assms(1) by (simp add: notes_ok_def)
  show "pool_value p' = pool_value p + unat amount"
    using value_of_update [OF fin, of i "Some ?n"] s(2) v c by (simp add: p' unspent_value_def)
  show "notes_ok p'"
    using assms(1) s(2-4) unfolding notes_ok_def p' by (auto split: if_splits)
qed

end

interpretation keyless: note_cipher_laws "make_keyless_note_cipher cr" for cr
  by unfold_locales (simp add: make_keyless_note_cipher_def keyless_seal_unseal)

section \<open>Spending\<close>

text \<open>The iteration orders that a hash table can have.\<close>

definition order_ok :: "note_order \<Rightarrow> bool" where
  "order_ok order \<longleftrightarrow> (\<forall>m. finite (dom m) \<longrightarrow> set (order m) = dom m)"

lemma spendable_note_ok:
  assumes "spendable_note cr p owner note_id recipient amount trapdoor = Inr (n, na)"
  shows "pp_notes p note_id = Some n" "\<not> pn_spent n" "nc_unseal_amount (pp_cipher p) (pn_amount_sealed n) note_id (pn_blinding n) = Inr na"
    "amount \<le> na" "pn_nullifier n \<notin> pp_used p" "nc_owner_tag (pp_cipher p) owner note_id = Inr (pn_owner_tag n)"
    "verify_opening cr na trapdoor (pn_commitment n) (pn_nullifier n) = Inr ()"
  using assms unfolding spendable_note_def
  by (auto simp: bind_res_def split: if_splits option.splits sum.splits)

lemma spend_failed:
  assumes ok: "notes_ok p" and o: "order_ok order" and "spend_open cr order rand rand' owner note_id recipient amount trapdoor p = (Inl e, p')"
  shows "p' = p"
proof -
  have en: "set (order (pp_notes p)) = dom (pp_notes p)" using ok o by (simp add: order_ok_def notes_ok_def)
  show ?thesis
  proof (cases "spendable_note cr p owner note_id recipient amount trapdoor")
    case (Inr x)
    obtain n na where x: "x = (n, na)" by (cases x)
    show ?thesis
    proof (cases "prepare_opening cr rand amount")
      case ro: (Inr ro)
      obtain r p1 where m: "mint_open cr order recipient amount (on_commitment ro) (on_nullifier ro) (on_trapdoor ro) p = (r, p1)" by fastforce
      from mint_open_cases [OF m en] consider e where "r = Inl e" "p1 = p"
        | i nn where "r = Inr i" "pp_notes p i = None" "p1 = p\<lparr>pp_notes := (pp_notes p)(i \<mapsto> nn)\<rparr>" by blast
      then show ?thesis
      proof cases
        case 1
        with assms(3) Inr x ro m show ?thesis by (simp add: spend_open_def)
      next
        case 2
        have "p1\<lparr>pp_notes := (pp_notes p1)(i := None)\<rparr> = p" using 2 by (cases p) (auto simp: fun_eq_iff)
        then show ?thesis using assms(3) Inr x ro m 2(1) 
          by (auto simp: spend_open_def mint_change_def Let_def split: if_splits sum.splits prod.splits)
      qed
    qed (use assms(3) Inr x in \<open>simp add: spend_open_def\<close>)
  qed (use assms(3) in \<open>simp add: spend_open_def\<close>)
qed

lemma mark_spent_ok:
  assumes "notes_ok p" and "pp_notes p i = Some n"
  shows "notes_ok (mark_spent i n p)"
  using assms unfolding notes_ok_def mark_spent_def by (auto split: if_splits)

lemma mark_spent_value:
  assumes "notes_ok p" and "pp_notes p i = Some n" and "\<not> pn_spent n"
  shows "pool_value (mark_spent i n p) + note_value (pp_cipher p) i n = pool_value p"
proof -
  have "pool_value (mark_spent i n p) = pool_value (p\<lparr>pp_notes := (pp_notes p)(i \<mapsto> n\<lparr>pn_spent := True\<rparr>)\<rparr>)"
    by (simp add: pool_value_def mark_spent_def)
  moreover have "finite (dom (pp_notes p))" using assms(1) by (simp add: notes_ok_def)
  from value_of_update [OF this, of i "Some (n\<lparr>pn_spent := True\<rparr>)"] assms(2,3)
  have "pool_value (p\<lparr>pp_notes := (pp_notes p)(i \<mapsto> n\<lparr>pn_spent := True\<rparr>)\<rparr>) + note_value (pp_cipher p) i n = pool_value p"
    by (simp add: unspent_value_def)
  ultimately show ?thesis by simp
qed

context note_cipher_laws
begin

lemma mint_step:
  assumes "notes_ok p" and "pp_cipher p = c" and o: "order_ok order" and "mint_open cr order owner amount cm nf t p = (Inr i, p')"
  shows "notes_ok p'" and "pp_cipher p' = c" and "pool_value p' = pool_value p + unat amount" and "pp_notes p i = None"
    and "\<forall>j. pp_notes p j \<noteq> None \<longrightarrow> pp_notes p' j = pp_notes p j" and "\<exists>n. pp_notes p' i = Some n \<and> note_value c i n = unat amount"
proof -
  have en: "set (order (pp_notes p)) = dom (pp_notes p)" using assms(1) o by (simp add: order_ok_def notes_ok_def)
  note m = mint_value [OF assms(1,2,4) en]
  show "notes_ok p'" "pool_value p' = pool_value p + unat amount" "pp_notes p i = None" by (rule m)+
  from m(4) obtain n where n: "p' = p\<lparr>pp_notes := (pp_notes p)(i \<mapsto> n)\<rparr>" "note_value c i n = unat amount" by blast
  show "pp_cipher p' = c" "\<forall>j. pp_notes p j \<noteq> None \<longrightarrow> pp_notes p' j = pp_notes p j" "\<exists>n. pp_notes p' i = Some n \<and> note_value c i n = unat amount"
    using n assms(2) m(3) by auto
qed

lemma spend_done:
  assumes ok: "notes_ok p" and c: "pp_cipher p = c" and o: "order_ok order"
    and s: "spend_open cr order rand rand' owner note_id recipient amount trapdoor p = (Inr (r, ro, ci, co), p')"
  shows "notes_ok p'" and "pp_cipher p' = c" and "pool_value p' = pool_value p"
    and "\<exists>n. pp_notes p note_id = Some n \<and> \<not> pn_spent n \<and> pp_notes p' note_id = Some (n\<lparr>pn_spent := True\<rparr>)"
    and "\<exists>n. pp_notes p r = None \<and> pp_notes p' r = Some n \<and> note_value c r n = unat amount"
    and "\<forall>j n. pp_notes p j = Some n \<longrightarrow> j \<noteq> note_id \<longrightarrow> pp_notes p' j = Some n"
proof -
  obtain n na where sp: "spendable_note cr p owner note_id recipient amount trapdoor = Inr (n, na)"
    using s by (auto simp: spend_open_def split: sum.splits)
  note sn = spendable_note_ok [OF sp]
  obtain p1 where m: "mint_open cr order recipient amount (on_commitment ro) (on_nullifier ro) (on_trapdoor ro) p = (Inr r, p1)"
      and rest: "\<exists>p2. mint_change cr order rand' owner (na - amount) r p1 = (Inr (ci, co), p2) \<and> p' = mark_spent note_id n p2"
    using s sp by (auto simp: spend_open_def split: sum.splits prod.splits)
  from rest obtain p2 where mc: "mint_change cr order rand' owner (na - amount) r p1 = (Inr (ci, co), p2)" and p': "p' = mark_spent note_id n p2"
    by blast
  note m1 = mint_step [OF ok c o m]
  have p2: "notes_ok p2 \<and> pp_cipher p2 = c \<and> pool_value p2 = pool_value p1 + unat (na - amount)
      \<and> (\<forall>j. pp_notes p1 j \<noteq> None \<longrightarrow> pp_notes p2 j = pp_notes p1 j)"
  proof (cases "na - amount = 0")
    case True
    then show ?thesis using mc m1 by (simp add: mint_change_def)
  next
    case False
    then have "mint_open cr order owner (na - amount) (on_commitment co) (on_nullifier co) (on_trapdoor co) p1 = (Inr ci, p2)"
      using mc by (auto simp: mint_change_def Let_def split: sum.splits prod.splits)
    from mint_step [OF m1(1,2) o this] show ?thesis by blast
  qed
  have n2: "pp_notes p2 note_id = Some n" using m1(5) p2 sn(1) by simp
  show "notes_ok p'" "pp_cipher p' = c" using mark_spent_ok [of p2 note_id n] n2 p2 by (simp_all add: p' mark_spent_def)
  have v: "note_value c note_id n = unat na" using sn(3) c by (simp add: note_value_def)
  have "pool_value p' + unat na = pool_value p2" using mark_spent_value [of p2 note_id n] p2 n2 sn(2) v by (simp add: p')
  moreover have "unat (na - amount) + unat amount = unat na" using sn(4) by (simp add: unat_sub word_le_nat_alt)
  ultimately show "pool_value p' = pool_value p" using p2 m1(3) by simp
  show "\<exists>n. pp_notes p note_id = Some n \<and> \<not> pn_spent n \<and> pp_notes p' note_id = Some (n\<lparr>pn_spent := True\<rparr>)"
    using sn(1,2) by (simp add: p' mark_spent_def)
  have "r \<noteq> note_id" using m1(4) sn(1) by auto
  then show "\<exists>n. pp_notes p r = None \<and> pp_notes p' r = Some n \<and> note_value c r n = unat amount"
    using m1(4,6) p2 by (auto simp: p' mark_spent_def)
  show "\<forall>j n. pp_notes p j = Some n \<longrightarrow> j \<noteq> note_id \<longrightarrow> pp_notes p' j = Some n"
    using m1(5) p2 by (simp add: p' mark_spent_def)
qed

end

section \<open>Runs\<close>

text \<open>One operation on the pool; the number is the value that it mints.\<close>

inductive pool_step :: "crypto \<Rightarrow> note_order \<Rightarrow> privacy_pool \<Rightarrow> nat \<Rightarrow> privacy_pool \<Rightarrow> bool" for cr order p where
  step_mint: "mint_open cr order owner amount cm nf t p = (Inr i, p') \<Longrightarrow> pool_step cr order p (unat amount) p'"
| step_mint_failed: "mint_open cr order owner amount cm nf t p = (Inl e, p') \<Longrightarrow> pool_step cr order p 0 p'"
| step_spend: "spend_open cr order rand rand' owner i recipient amount t p = (r, p') \<Longrightarrow> pool_step cr order p 0 p'"
| step_mode: "set_native_verifier_mode mode p = (r, p') \<Longrightarrow> pool_step cr order p 0 p'"

inductive pool_steps :: "crypto \<Rightarrow> note_order \<Rightarrow> privacy_pool \<Rightarrow> nat \<Rightarrow> privacy_pool \<Rightarrow> bool" for cr order p where
  steps_refl: "pool_steps cr order p 0 p"
| steps_next: "pool_steps cr order p m q \<Longrightarrow> pool_step cr order q k q' \<Longrightarrow> pool_steps cr order p (m + k) q'"

lemma set_mode_notes: "set_native_verifier_mode mode p = (r, p') \<Longrightarrow> pp_notes p' = pp_notes p \<and> pp_used p' = pp_used p \<and> pp_cipher p' = pp_cipher p"
  by (auto simp: set_native_verifier_mode_def Let_def split: if_splits)

text \<open>Notes that are spent stay spent.\<close>

definition keeps_spent :: "privacy_pool \<Rightarrow> privacy_pool \<Rightarrow> bool" where
  "keeps_spent p q \<longleftrightarrow> (\<forall>i n. pp_notes p i = Some n \<longrightarrow> pn_spent n \<longrightarrow> (\<exists>m. pp_notes q i = Some m \<and> pn_spent m))"

context note_cipher_laws
begin

lemma pool_step_ok:
  assumes "pool_step cr order p k q" and ok: "notes_ok p" and c: "pp_cipher p = c" and o: "order_ok order"
  shows "notes_ok q \<and> pp_cipher q = c \<and> pool_value q = pool_value p + k \<and> keeps_spent p q"
  using assms(1)
proof cases
  case (step_mint owner amount cm nf t i)
  from mint_step [OF ok c o step_mint(2)] step_mint(1) show ?thesis unfolding keeps_spent_def by auto
next
  case (step_mint_failed owner amount cm nf t e)
  have "set (order (pp_notes p)) = dom (pp_notes p)" using ok o by (simp add: order_ok_def notes_ok_def)
  from mint_open_cases [OF step_mint_failed(2) this] step_mint_failed(1) ok c show ?thesis by (auto simp: keeps_spent_def)
next
  case (step_spend rand rand' owner i recipient amount t r)
  show ?thesis
  proof (cases r)
    case (Inl e)
    then have "q = p" using spend_failed [OF ok o] step_spend(2) by simp
    then show ?thesis using ok c step_spend(1) by (simp add: keeps_spent_def)
  next
    case (Inr x)
    obtain a b d e where "x = (a, b, d, e)" by (cases x)
    with step_spend(2) Inr have s: "spend_open cr order rand rand' owner i recipient amount t p = (Inr (a, b, d, e), q)" by simp
    note d = spend_done [OF ok c o s]
    have "keeps_spent p q" unfolding keeps_spent_def
    proof (intro allI impI)
      fix j n assume j: "pp_notes p j = Some n" "pn_spent n"
      then have "j \<noteq> i" using d(4) by auto
      then show "\<exists>m. pp_notes q j = Some m \<and> pn_spent m" using d(6) j by blast
    qed
    with d(1-3) step_spend(1) show ?thesis by simp
  qed
next
  case (step_mode mode r)
  from set_mode_notes [OF step_mode(2)] step_mode(1) ok c show ?thesis by (simp add: notes_ok_def pool_value_def keeps_spent_def)
qed

lemma pool_steps_ok:
  assumes "pool_steps cr order p m q" and "notes_ok p" and "pp_cipher p = c" and "order_ok order"
  shows "notes_ok q \<and> pp_cipher q = c \<and> pool_value q = pool_value p + m \<and> keeps_spent p q"
  using assms(1)
proof induction
  case steps_refl
  then show ?case using assms(2,3) by (simp add: keeps_spent_def)
next
  case (steps_next m q k q')
  from pool_step_ok [OF steps_next.hyps(2)] steps_next.IH assms(4)
  have "notes_ok q' \<and> pp_cipher q' = c \<and> pool_value q' = pool_value q + k \<and> keeps_spent q q'" by blast
  then show ?case using steps_next.IH unfolding keeps_spent_def by fastforce
qed

end

lemma spent_is_refused:
  assumes "pp_notes q i = Some n" and "pn_spent n"
  shows "\<exists>e. fst (spend_open cr order rand rand' owner i recipient amount t q) = Inl e"
proof -
  have "\<exists>e. spendable_note cr q owner i recipient amount t = Inl e" using assms by (simp add: spendable_note_def)
  then show ?thesis by (auto simp: spend_open_def)
qed

section \<open>Properties\<close>

text \<open>
  Claim C16. The pool of opening notes conserves value and spends a note once. After any sequence of
  operations on a fresh pool, the unspent notes are worth exactly the sum of the amounts minted. A refused
  spend changes nothing; a successful one gives the recipient a new note of exactly the amount, keeps the
  value of the pool (the rest goes to a change note), and from then on, whatever operations follow, every
  attempt to spend the same note is refused.
\<close>

theorem privacy_pool_sound:
  assumes "pool_steps cr order (PrivacyPool_init cr) m p" and "order_ok order"
    and "spend_open cr order rand rand' owner i recipient amount t p = (res, p')"
  shows "pool_value p = m
    \<and> (case res of
         Inl e \<Rightarrow> p' = p
       | Inr (r, ro, ci, co) \<Rightarrow> pool_value p' = m
           \<and> (\<exists>n. pp_notes p r = None \<and> pp_notes p' r = Some n \<and> note_value (pp_cipher p') r n = unat amount)
           \<and> (\<forall>k q. pool_steps cr order p' k q \<longrightarrow>
                (\<forall>w w' ow rc am t. \<exists>e. fst (spend_open cr order w w' ow i rc am t q) = Inl e)))"
proof -
  have "notes_ok (PrivacyPool_init cr) \<and> pp_cipher (PrivacyPool_init cr) = make_keyless_note_cipher cr \<and> pool_value (PrivacyPool_init cr) = 0"
    by (simp add: PrivacyPool_init_def notes_ok_def pool_value_def)
  with keyless.pool_steps_ok [OF assms(1)] assms(2)
  have ok: "notes_ok p" "pp_cipher p = make_keyless_note_cipher cr" "pool_value p = m" by auto
  show ?thesis
  proof (cases res)
    case (Inl e)
    then show ?thesis using spend_failed [OF ok(1) assms(2)] assms(3) ok(3) by simp
  next
    case (Inr x)
    obtain r ro ci co where x: "x = (r, ro, ci, co)" by (cases x)
    with assms(3) Inr have s: "spend_open cr order rand rand' owner i recipient amount t p = (Inr (r, ro, ci, co), p')" by simp
    note d = keyless.spend_done [OF ok(1,2) assms(2) s]
    have "\<exists>e. fst (spend_open cr order w w' ow i rc am u q) = Inl e" if "pool_steps cr order p' k q" for k q w w' ow rc am u
    proof -
      have "keeps_spent p' q" using keyless.pool_steps_ok [OF that d(1,2) assms(2)] by simp
      with d(4) obtain n where "pp_notes q i = Some n" "pn_spent n" unfolding keeps_spent_def by force
      then show ?thesis by (rule spent_is_refused)
    qed
    then show ?thesis using d ok(3) Inr x by auto
  qed
qed

definition flat_crypto :: crypto where
  "flat_crypto = \<lparr>sha3 = (\<lambda>s. replicate 64 CHR 0x00), oqs_sizes = (\<lambda>s. None), oqs_verify = (\<lambda>a b c. False),
     oqs_verify_ctx = (\<lambda>a b c d. False), oqs_ctx_sign = (\<lambda>s. False)\<rparr>"

lemma flat_hex: "to_hex (sha3 flat_crypto s) = replicate 128 CHR ''0''"
proof -
  have "to_hex (replicate n CHR 0x00) = replicate (2 * n) CHR ''0''" for n
    by (induction n) (simp_all add: to_hex_def byte_hex_def hex_char_def char_of_def bit_0)
  from this [of 64] show ?thesis by (simp only: flat_crypto_def crypto.simps) simp
qed

lemma hexnum_zeros: "hexnum (replicate n CHR ''0'') = 0"
  by (induction n) (simp_all add: hexnum_def hex_val_def)

text \<open>One mint on a fresh pool with that hash, whose mask is zero.\<close>

definition flat_order :: note_order where
  "flat_order = (\<lambda>m. sorted_list_of_set (dom m))"

lemma flat_order_ok: "order_ok flat_order"
  by (simp add: order_ok_def flat_order_def)

lemma flat_mint:
  assumes "a \<noteq> 0"
  shows "\<exists>p n. mint_open flat_crypto flat_order ''alice'' a (replicate 128 CHR ''0'') (replicate 128 CHR ''0'') (replicate 32 CHR ''a'')
       (PrivacyPool_init flat_crypto) = (Inr (replicate 128 CHR ''0''), p)
     \<and> pp_notes p = [replicate 128 CHR ''0'' \<mapsto> n] \<and> pn_amount_sealed n = hex_digits (unat a) \<and> pp_used p = {} \<and> pp_spent_cm p = {}"
proof -
  let ?z = "replicate 128 CHR ''0''"
  have hx: "is_hex_even (replicate 32 CHR ''a'')" "is_hex_even ?z"
    by (simp_all add: is_hex_even_def list_all_iff is_hex_char_def hex_val_def)
  have tk: "takeWhile is_hex_char (replicate 16 CHR ''0'') = replicate 16 CHR ''0''"
    by (simp add: is_hex_char_def hex_val_def)
  have msk: "keyless_mask flat_crypto ?z ''open'' = Inr 0"
    by (simp add: keyless_mask_def flat_hex stoull16_def Let_def tk hexnum_zeros) (simp add: is_hex_char_def hex_val_def)
  have "verify_opening flat_crypto a (replicate 32 CHR ''a'') ?z ?z = Inr ()"
    using hx by (simp add: verify_opening_def compute_opening_relation_def Let_def flat_hex)
  then show ?thesis using assms
    by (simp add: mint_open_def PrivacyPool_init_def mk_note_id_def flat_hex Let_def make_keyless_note_cipher_def keyless_seal_amount_def
        keyless_owner_tag_def msk flat_order_def) (rule exI, rule conjI, rule refl, simp)
qed

theorem privacy_pool_sound_witness:
  "\<exists>p i. mint_open flat_crypto flat_order ''alice'' 5 (replicate 128 CHR ''0'') (replicate 128 CHR ''0'')
       (replicate 32 CHR ''a'') (PrivacyPool_init flat_crypto) = (Inr i, p) \<and> pool_value p = 5"
proof -
  have "(5::u64) \<noteq> 0" by simp
  from flat_mint [OF this] obtain p where m: "mint_open flat_crypto flat_order ''alice'' 5 (replicate 128 CHR ''0'') (replicate 128 CHR ''0'')
       (replicate 32 CHR ''a'') (PrivacyPool_init flat_crypto) = (Inr (replicate 128 CHR ''0''), p)" by blast
  from step_mint [OF m] have "pool_step flat_crypto flat_order (PrivacyPool_init flat_crypto) 5 p" by simp
  from steps_next [OF steps_refl this] have st: "pool_steps flat_crypto flat_order (PrivacyPool_init flat_crypto) 5 p" by simp
  obtain res p' where "spend_open flat_crypto flat_order (\<lambda>n. None) (\<lambda>n. None) [] [] [] 0 [] p = (res, p')" by fastforce
  from privacy_pool_sound [OF st flat_order_ok this] m show ?thesis by blast
qed

section \<open>The text of a reachable pool\<close>

text \<open>All texts of a reachable pool are hexadecimal, except the constant blinding.\<close>

definition note_text :: "string \<Rightarrow> private_note \<Rightarrow> bool" where
  "note_text i n \<longleftrightarrow> is_hex_even i \<and> length (pn_owner_tag n) = 128 \<and> is_hex_even (pn_owner_tag n) \<and> (\<exists>x :: u64. pn_amount_sealed n = hex_digits (unat x))
     \<and> pn_blinding n = ''open'' \<and> is_hex_even (pn_commitment n) \<and> is_hex_even (pn_nullifier n)"

definition pool_text :: "crypto \<Rightarrow> privacy_pool \<Rightarrow> bool" where
  "pool_text cr p \<longleftrightarrow> pp_cipher p = make_keyless_note_cipher cr \<and> pp_strict p
     \<and> (\<forall>i n. pp_notes p i = Some n \<longrightarrow> note_text i n \<and> (pn_spent n \<longrightarrow> pn_commitment n \<in> pp_spent_cm p))
     \<and> (\<forall>x\<in>pp_used p \<union> pp_spent_cm p. is_hex_even x)"

lemma digest_hex:
  assumes "sha3_width cr"
  shows "is_hex_even (to_hex (sha3 cr s))" "length (to_hex (sha3 cr s)) = 128"
proof -
  show l: "length (to_hex (sha3 cr s)) = 128" using assms by (simp add: sha3_width_def)
  then show "is_hex_even (to_hex (sha3 cr s))" using to_hex_hex [of "sha3 cr s"] unfolding is_hex_even_def by (metis even_numeral list.size(3) mod_0_imp_dvd even_iff_mod_2_eq_zero zero_neq_numeral)
qed

lemma mint_text:
  assumes w: "sha3_width cr" and t: "pool_text cr p" and "mint_open cr order owner amount cm nf u p = (r, p')"
    and "set (order (pp_notes p)) = dom (pp_notes p)"
  shows "pool_text cr p'"
proof -
  have *: "note_text i \<lparr>pn_owner_tag = tag, pn_amount_sealed = sealed, pn_blinding = ''open'', pn_commitment = cm, pn_nullifier = nf, pn_spent = False\<rparr>"
    if "i = mk_note_id cr owner amount cm" "nc_seal_amount (pp_cipher p) amount i ''open'' = Inr sealed"
       "nc_owner_tag (pp_cipher p) owner i = Inr tag" "verify_opening cr amount u cm nf = Inr ()" for i sealed tag
  proof -
    have k: "pp_cipher p = make_keyless_note_cipher cr" using t by (simp add: pool_text_def)
    have "is_hex_even cm" "is_hex_even nf" using that(4) by (auto simp: verify_opening_def split: if_splits)
    moreover have "\<exists>s. tag = to_hex (sha3 cr s)"
      using that(3) by (auto simp: k make_keyless_note_cipher_def keyless_owner_tag_def split: if_splits)
    moreover have "\<exists>x :: u64. sealed = hex_digits (unat x)"
      using that(2) by (auto simp: k make_keyless_note_cipher_def keyless_seal_amount_def bind_res_def split: sum.splits)
    ultimately show ?thesis unfolding note_text_def that(1) mk_note_id_def using digest_hex [OF w] by auto
  qed
  from mint_open_cases [OF assms(3,4)] show ?thesis
  proof (elim disjE exE conjE)
    fix i sealed tag
    assume a: "r = Inr i" "i = mk_note_id cr owner amount cm" "nc_seal_amount (pp_cipher p) amount i ''open'' = Inr sealed"
       "nc_owner_tag (pp_cipher p) owner i = Inr tag" "verify_opening cr amount u cm nf = Inr ()"
       "p' = p\<lparr>pp_notes := (pp_notes p)(i \<mapsto> \<lparr>pn_owner_tag = tag, pn_amount_sealed = sealed, pn_blinding = ''open'',
                            pn_commitment = cm, pn_nullifier = nf, pn_spent = False\<rparr>)\<rparr>"
    from * [OF a(2-5)] t show ?thesis unfolding pool_text_def a(6) by auto
  qed (use t in simp)
qed

lemma spend_parts:
  assumes "spend_open cr order rand rand' owner i recipient amount t p = (Inr (r, ro, ci, co), p')"
  shows "\<exists>n na p1 p2. spendable_note cr p owner i recipient amount t = Inr (n, na)
    \<and> mint_open cr order recipient amount (on_commitment ro) (on_nullifier ro) (on_trapdoor ro) p = (Inr r, p1)
    \<and> (p2 = p1 \<or> mint_open cr order owner (na - amount) (on_commitment co) (on_nullifier co) (on_trapdoor co) p1 = (Inr ci, p2))
    \<and> p' = mark_spent i n p2"
proof -
  obtain n na where sp: "spendable_note cr p owner i recipient amount t = Inr (n, na)"
    using assms by (auto simp: spend_open_def split: sum.splits)
  obtain p1 p2 where m: "mint_open cr order recipient amount (on_commitment ro) (on_nullifier ro) (on_trapdoor ro) p = (Inr r, p1)"
      and mc: "mint_change cr order rand' owner (na - amount) r p1 = (Inr (ci, co), p2)" and p': "p' = mark_spent i n p2"
    using assms sp by (auto simp: spend_open_def split: sum.splits prod.splits)
  have "p2 = p1 \<or> mint_open cr order owner (na - amount) (on_commitment co) (on_nullifier co) (on_trapdoor co) p1 = (Inr ci, p2)"
    using mc by (auto simp: mint_change_def Let_def split: if_splits sum.splits prod.splits)
  with sp m p' show ?thesis by blast
qed

lemma step_text:
  assumes "pool_step cr order p k q" and w: "sha3_width cr" and t: "pool_text cr p" and ok: "notes_ok p" and o: "order_ok order"
  shows "pool_text cr q"
proof -
  have en: "set (order (pp_notes p)) = dom (pp_notes p)" using ok o by (simp add: order_ok_def notes_ok_def)
  have mt: "pool_text cr p'" if "mint_open cr order owner amount cm nf u p = (r, p')" for owner amount cm nf u r p'
    by (rule mint_text [where order = order, OF w t that en])
  show ?thesis using assms(1)
  proof cases
    case (step_spend rand rand' owner i recipient amount u r)
    show ?thesis
    proof (cases r)
      case (Inl e)
      with step_spend(2) have "spend_open cr order rand rand' owner i recipient amount u p = (Inl e, q)" by simp
      from spend_failed [OF ok o this] t show ?thesis by simp
    next
      case (Inr x)
      obtain a b d e where "x = (a, b, d, e)" by (cases x)
      with step_spend(2) Inr have "spend_open cr order rand rand' owner i recipient amount u p = (Inr (a, b, d, e), q)" by simp
      from spend_parts [OF this] obtain n na p1 p2 where s: "spendable_note cr p owner i recipient amount u = Inr (n, na)"
        "mint_open cr order recipient amount (on_commitment b) (on_nullifier b) (on_trapdoor b) p = (Inr a, p1)"
        "p2 = p1 \<or> mint_open cr order owner (na - amount) (on_commitment e) (on_nullifier e) (on_trapdoor e) p1 = (Inr d, p2)"
        "q = mark_spent i n p2" by blast
      have c: "pp_cipher p = make_keyless_note_cipher cr" using t by (simp add: pool_text_def)
      have ok1: "notes_ok p1" by (rule keyless.mint_step(1) [OF ok c o s(2)])
      then have en1: "set (order (pp_notes p1)) = dom (pp_notes p1)" using o by (simp add: order_ok_def notes_ok_def)
      have t1: "pool_text cr p1" by (rule mt [OF s(2)])
      have t2: "pool_text cr p2" using s(3) t1 mint_text [where order = order, OF w t1 _ en1] by blast
      have "note_text i n" using spendable_note_ok(1) [OF s(1)] t by (simp add: pool_text_def)
      with t2 show ?thesis unfolding s(4) pool_text_def mark_spent_def note_text_def by auto
    qed
  next
    case (step_mode mode r)
    then have "\<exists>m. q = p \<or> q = p\<lparr>pp_mode := m\<rparr>" by (auto simp: set_native_verifier_mode_def Let_def split: if_splits)
    then show ?thesis using t by (auto simp: pool_text_def)
  qed (use mt in blast)+
qed

lemma steps_text:
  assumes "pool_steps cr order (PrivacyPool_init cr) m p" and w: "sha3_width cr" and o: "order_ok order"
  shows "pool_text cr p \<and> notes_ok p"
  using assms(1)
proof induction
  case steps_refl
  then show ?case by (simp add: pool_text_def notes_ok_def PrivacyPool_init_def)
next
  case (steps_next m q k q')
  then have ih: "pool_text cr q" "notes_ok q" by simp_all
  then have c: "pp_cipher q = make_keyless_note_cipher cr" by (simp add: pool_text_def)
  show ?case using step_text [OF steps_next.hyps(2) w ih o] keyless.pool_step_ok [OF steps_next.hyps(2) ih(2) c o] by simp
qed

text \<open>
  Claim C17. The notes of a pool are well formed. In every pool reached from a fresh one each note has a
  non-empty hexadecimal identifier, an owner tag of exactly 128 hexadecimal digits, a sealed amount of one to
  sixteen digits, hexadecimal commitment and nullifier; it is marked spent exactly when its nullifier is
  used, its commitment is then recorded as spent, and no two notes share a nullifier.
\<close>

theorem pool_notes_well_formed:
  assumes "pool_steps cr order (PrivacyPool_init cr) m p" and "sha3_width cr" and "order_ok order" and "pp_notes p i = Some n"
  shows "is_hex_even i \<and> length (pn_owner_tag n) = 128 \<and> is_hex_even (pn_owner_tag n)
    \<and> pn_amount_sealed n \<noteq> [] \<and> length (pn_amount_sealed n) \<le> 16 \<and> list_all is_hex_char (pn_amount_sealed n)
    \<and> is_hex_even (pn_commitment n) \<and> is_hex_even (pn_nullifier n)
    \<and> (pn_spent n \<longleftrightarrow> pn_nullifier n \<in> pp_used p) \<and> (pn_spent n \<longrightarrow> pn_commitment n \<in> pp_spent_cm p)
    \<and> (\<forall>j n'. pp_notes p j = Some n' \<longrightarrow> pn_nullifier n' = pn_nullifier n \<longrightarrow> j = i)"
proof -
  have t: "pool_text cr p" "notes_ok p" using steps_text [OF assms(1-3)] by simp_all
  then have nt: "note_text i n" using assms(4) by (simp add: pool_text_def)
  then obtain x :: u64 where x: "pn_amount_sealed n = hex_digits (unat x)" by (auto simp: note_text_def)
  have "unat x < 16 ^ 16" using unat_u64_bound [of x] by (simp del: unat_u64_bound)
  from length_hex_digits [OF this] have "length (pn_amount_sealed n) \<le> 16" by (simp add: x)
  moreover have "list_all is_hex_char (pn_amount_sealed n)" using hex_digits_hex by (auto simp: x list_all_iff)
  ultimately show ?thesis using t nt assms(4) x unfolding pool_text_def notes_ok_def note_text_def by auto
qed

theorem pool_notes_well_formed_witness:
  "\<exists>p i n. mint_open flat_crypto flat_order ''alice'' 5 (replicate 128 CHR ''0'') (replicate 128 CHR ''0'')
       (replicate 32 CHR ''a'') (PrivacyPool_init flat_crypto) = (Inr i, p) \<and> pp_notes p i = Some n \<and> length (pn_owner_tag n) = 128"
proof -
  have "(5::u64) \<noteq> 0" by simp
  from flat_mint [OF this] obtain p n where m: "mint_open flat_crypto flat_order ''alice'' 5 (replicate 128 CHR ''0'') (replicate 128 CHR ''0'')
       (replicate 32 CHR ''a'') (PrivacyPool_init flat_crypto) = (Inr (replicate 128 CHR ''0''), p)"
      and n: "pp_notes p = [replicate 128 CHR ''0'' \<mapsto> n]" by blast
  from steps_next [OF steps_refl step_mint [OF m]]
  have st: "pool_steps flat_crypto flat_order (PrivacyPool_init flat_crypto) (0 + unat (5::u64)) p" .
  have w: "sha3_width flat_crypto" by (simp add: sha3_width_def flat_crypto_def)
  have "pp_notes p (replicate 128 CHR ''0'') = Some n" by (simp add: n)
  with pool_notes_well_formed [OF st w flat_order_ok this] m show ?thesis by blast
qed

section \<open>Dump and load\<close>

lemma load_note_fields:
  assumes "\<forall>f\<in>{i, pn_owner_tag n, pn_amount_sealed n, pn_blinding n, pn_commitment n, pn_nullifier n}. CHR ''|'' \<notin> set f"
  shows "load_pool_line p (note_line i n) = load_note p (join_with CHR ''|'' [i, pn_owner_tag n, pn_amount_sealed n, pn_blinding n,
       pn_commitment n, pn_nullifier n, if pn_spent n then ''1'' else ''0''])"
    and "getfields 6 (join_with CHR ''|'' [i, pn_owner_tag n, pn_amount_sealed n, pn_blinding n, pn_commitment n, pn_nullifier n,
        if pn_spent n then ''1'' else ''0'']) = [i, pn_owner_tag n, pn_amount_sealed n, pn_blinding n, pn_commitment n, pn_nullifier n,
        if pn_spent n then ''1'' else ''0'']"
proof -
  show "load_pool_line p (note_line i n) = load_note p (join_with CHR ''|'' [i, pn_owner_tag n, pn_amount_sealed n, pn_blinding n,
       pn_commitment n, pn_nullifier n, if pn_spent n then ''1'' else ''0''])"
    by (simp add: load_pool_line_def note_line_def del: join_with.simps)
  show "getfields 6 (join_with CHR ''|'' [i, pn_owner_tag n, pn_amount_sealed n, pn_blinding n, pn_commitment n, pn_nullifier n,
        if pn_spent n then ''1'' else ''0'']) = [i, pn_owner_tag n, pn_amount_sealed n, pn_blinding n, pn_commitment n, pn_nullifier n,
        if pn_spent n then ''1'' else ''0'']"
    by (rule getfields_join) (use assms in simp_all)
qed

lemma hex_bar_free: "is_hex_even s \<Longrightarrow> bar_free s"
proof -
  have "\<not> is_hex_char CHR ''|''" "\<not> is_hex_char newline" by (simp_all add: is_hex_char_def hex_val_def newline_def)
  then show "is_hex_even s \<Longrightarrow> bar_free s" unfolding is_hex_even_def bar_free_def list_all_iff by blast
qed

lemma hex_digits_bar_free: "bar_free (hex_digits x)"
proof -
  have "\<not> is_hex_char CHR ''|''" "\<not> is_hex_char newline" by (simp_all add: is_hex_char_def hex_val_def newline_def)
  then show ?thesis unfolding bar_free_def using hex_digits_hex by blast
qed

lemma lower_hex_digits: "lower_copy (hex_digits n) = hex_digits n"
proof -
  have t: "tolower (hex_char d) = hex_char d" if "d < 16" for d
    using that by (auto simp: tolower_def hex_char_def Let_def)
  show ?thesis
    by (induction n rule: hex_digits.induct) (subst (1 2) hex_digits.simps, auto simp: lower_copy_def t)
qed

lemma note_text_bars:
  assumes "note_text i n"
  shows "\<forall>f\<in>{i, pn_owner_tag n, pn_amount_sealed n, pn_blinding n, pn_commitment n, pn_nullifier n}. bar_free f"
proof -
  have "bar_free ''open''" by (simp add: bar_free_def newline_def)
  then show ?thesis using assms hex_bar_free hex_digits_bar_free unfolding note_text_def by auto
qed

lemma load_good_note:
  assumes t: "note_text i n" and ev: "even (length (pn_amount_sealed n))"
  shows "load_pool_line p (note_line i n) = (Inr (), p\<lparr>pp_notes := (pp_notes p)(i \<mapsto> n),
     pp_spent_cm := (if pn_spent n then insert (pn_commitment n) (pp_spent_cm p) else pp_spent_cm p)\<rparr>)"
proof -
  note b = note_text_bars [OF t]
  obtain x where x: "pn_amount_sealed n = hex_digits x" using t by (auto simp: note_text_def)
  have hx: "is_hex_even (pn_amount_sealed n)" using ev hex_digits_hex by (auto simp: is_hex_even_def x list_all_iff even_iff_mod_2_eq_zero)
  have lo: "lower_copy (pn_amount_sealed n) = pn_amount_sealed n" by (simp add: x lower_hex_digits)
  have ne: "i \<noteq> []" "pn_commitment n \<noteq> []" using t by (auto simp: note_text_def is_hex_even_def)
  have tag: "length (pn_owner_tag n) = 128" "is_hex_even (pn_owner_tag n)" using t by (simp_all add: note_text_def)
  have nb: "\<forall>f\<in>{i, pn_owner_tag n, pn_amount_sealed n, pn_blinding n, pn_commitment n, pn_nullifier n}. CHR ''|'' \<notin> set f"
    using b by (simp add: bar_free_def)
  show ?thesis unfolding load_note_fields(1) [OF nb] load_note_def Let_def load_note_fields(2) [OF nb]
    using hx lo ne tag by (cases n) simp
qed

text \<open>An odd number of digits is taken for a plain amount, which fails when the first digit is a letter.\<close>

lemma load_bad_note:
  assumes t: "note_text i n" and od: "odd (length (pn_amount_sealed n))" and hd: "\<not> is_digit_char (hd (pn_amount_sealed n))"
  shows "\<exists>e. fst (load_pool_line p (note_line i n)) = Inl e"
proof -
  note b = note_text_bars [OF t]
  obtain x where x: "pn_amount_sealed n = hex_digits x" using t by (auto simp: note_text_def)
  obtain c s where cs: "pn_amount_sealed n = c # s" using x hex_digits_nonempty [of x] by (cases "hex_digits x") auto
  have "is_hex_char c" using hex_digits_hex [of c x] x cs by (metis list.set_intros(1))
  then have "\<not> is_space c" "c \<noteq> CHR ''-''" "c \<noteq> CHR ''+''" by (auto simp: is_hex_char_def hex_val_def is_space_def Let_def split: if_splits)
  then have st: "stoull (pn_amount_sealed n) = None"
    using hd by (simp add: cs stoull_def read_uint_def Let_def)
  have hx: "\<not> is_hex_even (pn_amount_sealed n)" using od by (simp add: is_hex_even_def even_iff_mod_2_eq_zero)
  have nb: "\<forall>f\<in>{i, pn_owner_tag n, pn_amount_sealed n, pn_blinding n, pn_commitment n, pn_nullifier n}. CHR ''|'' \<notin> set f"
    using b by (simp add: bar_free_def)
  show ?thesis unfolding load_note_fields(1) [OF nb] load_note_def Let_def load_note_fields(2) [OF nb]
    using hx st by (simp split: sum.splits)
qed

lemma load_lines_bad:
  "l \<in> set ls \<Longrightarrow> (\<And>s. \<exists>e. fst (step s l) = Inl e) \<Longrightarrow> \<exists>e. fst (load_lines step s ls) = Inl e"
proof (induction ls arbitrary: s)
  case (Cons k ks)
  obtain r s' where rs: "step s k = (r, s')" by fastforce
  show ?case
  proof (cases r)
    case (Inr u)
    then have "l \<noteq> k" using Cons.prems(2) [of s] rs by auto
    then show ?thesis using Cons rs Inr by simp
  qed (simp add: rs)
qed simp

lemma fold_notes:
  "fold (\<lambda>i p. p\<lparr>pp_notes := (pp_notes p)(i \<mapsto> g i), pp_spent_cm := (if pn_spent (g i) then insert (pn_commitment (g i)) (pp_spent_cm p) else pp_spent_cm p)\<rparr>) ids p
   = p\<lparr>pp_notes := (\<lambda>i. if i \<in> set ids then Some (g i) else pp_notes p i), pp_spent_cm := pp_spent_cm p \<union> {pn_commitment (g i) | i. i \<in> set ids \<and> pn_spent (g i)}\<rparr>"
proof (induction ids arbitrary: p)
  case (Cons a ids)
  show ?case unfolding fold.simps comp_apply Cons.IH by (rule privacy_pool.equality) (auto simp: fun_eq_iff)
qed simp

lemma fold_used: "fold (\<lambda>x p. p\<lparr>pp_used := insert x (pp_used p)\<rparr>) xs p = p\<lparr>pp_used := pp_used p \<union> set xs\<rparr>"
  by (induction xs arbitrary: p) auto

lemma fold_spent: "fold (\<lambda>x p. p\<lparr>pp_spent_cm := insert x (pp_spent_cm p)\<rparr>) xs p = p\<lparr>pp_spent_cm := pp_spent_cm p \<union> set xs\<rparr>"
  by (induction xs arbitrary: p) auto

lemma pool_lines_newline:
  assumes t: "pool_text cr p" and ids: "set ids = dom (pp_notes p)" and nfs: "set nfs = pp_used p" and cms: "set cms = pp_spent_cm p"
  shows "\<forall>l\<in>set (pool_lines ids nfs cms p). newline \<notin> set l"
proof -
  have nl: "newline \<notin> set (note_line i n)" if "note_text i n" for i n
  proof -
    have "newline \<notin> set (join_with CHR ''|'' [i, pn_owner_tag n, pn_amount_sealed n, pn_blinding n, pn_commitment n, pn_nullifier n,
        if pn_spent n then ''1'' else ''0''])"
      by (rule join_no_newline) (use note_text_bars [OF that] in \<open>simp add: bar_free_def newline_def\<close>)
    then show ?thesis by (simp add: note_line_def newline_def del: join_with.simps)
  qed
  have nt: "note_text i (the (pp_notes p i))" if "i \<in> set ids" for i using that t ids unfolding pool_text_def by (metis domD option.sel)
  have hb: "newline \<notin> set x" if "x \<in> set nfs \<union> set cms" for x
    using that t nfs cms hex_bar_free unfolding pool_text_def bar_free_def by blast
  have k: "newline \<noteq> c" if "c \<noteq> CHR 0x0A" for c using that by (simp add: newline_def)
  show ?thesis unfolding pool_lines_def native_verifier_mode_name_def
    using nl nt hb by (auto simp: k split: native_verifier_mode.splits)
qed

text \<open>
  Claim C20. What survives a restart. For every pool reached from a fresh one, if all sealed amounts have an
  even number of hexadecimal digits, then \<^verbatim>\<open>load_state\<close> of \<^verbatim>\<open>dump_state\<close> restores the pool exactly. But
  \<^verbatim>\<open>seal_amount\<close> prints without leading zeros: as soon as one note has an odd number of digits, the first
  of them a letter, the dump can no longer be loaded and \<^verbatim>\<open>load_state\<close> fails.
\<close>

theorem pool_dump_reload:
  assumes "pool_steps cr order (PrivacyPool_init cr) m p" and "sha3_width cr" and "order_ok order"
    and "set ids = dom (pp_notes p)" and "distinct ids" and "set nfs = pp_used p" and "set cms = pp_spent_cm p"
  shows "((\<forall>i n. pp_notes p i = Some n \<longrightarrow> even (length (pn_amount_sealed n)))
       \<longrightarrow> pool_load_state mainnet (pool_dump_state ids nfs cms p) (PrivacyPool_init cr) = (Inr (), p))
    \<and> ((\<exists>i n. pp_notes p i = Some n \<and> odd (length (pn_amount_sealed n)) \<and> \<not> is_digit_char (hd (pn_amount_sealed n)))
       \<longrightarrow> (\<exists>e. fst (pool_load_state mainnet (pool_dump_state ids nfs cms p) (PrivacyPool_init cr)) = Inl e))"
proof -
  have t: "pool_text cr p" using steps_text [OF assms(1-3)] by simp
  have gl: "getlines newline (pool_dump_state ids nfs cms p) = pool_lines ids nfs cms p"
    unfolding pool_dump_state_def by (rule getlines_unlines) (rule pool_lines_newline [OF t assms(4,6,7)])
  let ?N = "\<lambda>i. the (pp_notes p i)"
  let ?z = "PrivacyPool_init cr\<lparr>pp_notes := Map.empty, pp_used := {}, pp_spent_cm := {}, pp_mode := pq_mldsa87, pp_strict := True\<rparr>"
  have nt: "note_text i (?N i)" "pp_notes p i = Some (?N i)" "pn_spent (?N i) \<Longrightarrow> pn_commitment (?N i) \<in> pp_spent_cm p" if "i \<in> set ids" for i
    using that t assms(4) unfolding pool_text_def by (metis domD option.sel)+
  have hd: "load_lines load_pool_line ?z [''M|'' @ (if pp_strict p then ''1'' else ''0''), ''Z|'' @ native_verifier_mode_name p] = (Inr (), ?z)"
    using t by (cases "pp_mode p") (simp add: pool_text_def load_pool_line_def native_verifier_mode_name_def set_native_verifier_mode_def
        lower_copy_def tolower_def Let_def)
  have md: "pp_mode p = pq_mldsa87" by (cases "pp_mode p")
  have ne: "x \<noteq> []" if "x \<in> set nfs \<union> set cms" for x using that t assms(6,7) by (auto simp: pool_text_def is_hex_even_def)
  have "pool_load_state mainnet (pool_dump_state ids nfs cms p) (PrivacyPool_init cr) = (Inr (), p)"
    if ev: "\<forall>i n. pp_notes p i = Some n \<longrightarrow> even (length (pn_amount_sealed n))"
  proof -
    let ?u = "\<lambda>i q. q\<lparr>pp_notes := (pp_notes q)(i \<mapsto> ?N i), pp_spent_cm := (if pn_spent (?N i) then insert (pn_commitment (?N i)) (pp_spent_cm q) else pp_spent_cm q)\<rparr>"
    have 1: "load_lines load_pool_line q (map (\<lambda>i. note_line i (?N i)) ids) = (Inr (), fold ?u ids q)" for q
      by (rule load_lines_map) (use nt ev load_good_note in blast)
    have 2: "load_lines load_pool_line q (map (\<lambda>x. ''U|'' @ x) nfs) = (Inr (), fold (\<lambda>x p. p\<lparr>pp_used := insert x (pp_used p)\<rparr>) nfs q)" for q
      by (rule load_lines_map) (use ne in \<open>simp add: load_pool_line_def\<close>)
    have 3: "load_lines load_pool_line q (map (\<lambda>x. ''S|'' @ x) cms) = (Inr (), fold (\<lambda>x p. p\<lparr>pp_spent_cm := insert x (pp_spent_cm p)\<rparr>) cms q)" for q
      by (rule load_lines_map) (use ne in \<open>simp add: load_pool_line_def\<close>)
    have "load_lines load_pool_line ?z (pool_lines ids nfs cms p) = (Inr (), p)"
      unfolding pool_lines_def load_lines_append hd 1 2 3 prod.case sum.case fold_notes fold_used fold_spent
      by (simp, rule privacy_pool.equality) (use t nt md assms(4,6,7) in \<open>auto simp: PrivacyPool_init_def pool_text_def fun_eq_iff domIff\<close>)
    then show ?thesis using t by (simp add: pool_load_state_def gl pool_text_def)
  qed
  moreover have "\<exists>e. fst (pool_load_state mainnet (pool_dump_state ids nfs cms p) (PrivacyPool_init cr)) = Inl e"
    if "pp_notes p i = Some n" "odd (length (pn_amount_sealed n))" "\<not> is_digit_char (hd (pn_amount_sealed n))" for i n
  proof -
    have i: "i \<in> set ids" "?N i = n" using that(1) assms(4) by auto
    then have "note_line i n \<in> set (pool_lines ids nfs cms p)" by (auto simp: pool_lines_def)
    moreover have "\<exists>e. fst (load_pool_line q (note_line i n)) = Inl e" for q using load_bad_note [OF _ that(2,3)] nt(1) i by metis
    ultimately have "\<exists>e. fst (load_lines load_pool_line ?z (pool_lines ids nfs cms p)) = Inl e" by (rule load_lines_bad)
    then show ?thesis by (auto simp: pool_load_state_def gl split: prod.splits)
  qed
  ultimately show ?thesis by blast
qed

theorem pool_dump_reload_witness:
  "\<exists>p i e. mint_open flat_crypto flat_order ''alice'' 10 (replicate 128 CHR ''0'') (replicate 128 CHR ''0'')
       (replicate 32 CHR ''a'') (PrivacyPool_init flat_crypto) = (Inr i, p)
     \<and> fst (pool_load_state True (pool_dump_state [i] [] [] p) (PrivacyPool_init flat_crypto)) = Inl e"
proof -
  have "(10::u64) \<noteq> 0" by simp
  from flat_mint [OF this] obtain p n where m: "mint_open flat_crypto flat_order ''alice'' 10 (replicate 128 CHR ''0'') (replicate 128 CHR ''0'')
       (replicate 32 CHR ''a'') (PrivacyPool_init flat_crypto) = (Inr (replicate 128 CHR ''0''), p)"
      and n: "pp_notes p = [replicate 128 CHR ''0'' \<mapsto> n]" "pn_amount_sealed n = hex_digits (unat (10::u64))" "pp_used p = {}" "pp_spent_cm p = {}"
    by blast
  from steps_next [OF steps_refl step_mint [OF m]]
  have st: "pool_steps flat_crypto flat_order (PrivacyPool_init flat_crypto) (0 + unat (10::u64)) p" .
  have w: "sha3_width flat_crypto" by (simp add: sha3_width_def flat_crypto_def)
  have "hex_digits 10 = ''a''" by (simp add: hex_digits.simps hex_char_def char_of_def bit_0)
  then have "\<exists>i n. pp_notes p i = Some n \<and> odd (length (pn_amount_sealed n)) \<and> \<not> is_digit_char (hd (pn_amount_sealed n))"
    using n by (intro exI [of _ "replicate 128 CHR ''0''"] exI [of _ n]) (simp add: is_digit_char_def)
  moreover have "set [replicate 128 CHR ''0''] = dom (pp_notes p)" "set [] = pp_used p" "set [] = pp_spent_cm p" using n by auto
  ultimately show ?thesis using pool_dump_reload [OF st w flat_order_ok, where ids = "[replicate 128 CHR ''0'']" and nfs = "[]" and cms = "[]" and mainnet = True] m
    by fastforce
qed

end
