(* ===== verification/Contract_Engine.thy ===== *)
theory Contract_Engine
  imports Text_Records Token_Engine Privacy_Pool
begin

text \<open>
  The contract engine (\<^verbatim>\<open>src/contract_engine.cpp\<close>): contracts are key-value stores addressed by the hash of owner
  and code, with read access to the token engine and the privacy pool. The theorems show that a call
  touches only the entry it names, that reads return what was written, that the text dump restores
  the store, and that deploying the same code again erases the store of the contract.
\<close>

section \<open>Signed numbers\<close>

text \<open>\<^verbatim>\<open>std::int64_t\<close> as a word read by \<^const>\<open>sint\<close>; its \<^verbatim>\<open>std::to_string\<close> and \<^verbatim>\<open>std::stoll\<close>.\<close>

definition to_string_i64 :: "u64 \<Rightarrow> string" where
  "to_string_i64 v = (if sint v < 0 then CHR ''-'' # dec (nat (- sint v)) else dec (nat (sint v)))"

definition stoll :: "string \<Rightarrow> u64 option" where
  "stoll s =
     (let r = dropWhile is_space s;
          neg = (r \<noteq> [] \<and> hd r = CHR ''-'');
          r = (if r \<noteq> [] \<and> (hd r = CHR ''-'' \<or> hd r = CHR ''+'') then tl r else r);
          ds = takeWhile is_digit_char r in
      if ds = [] then None
      else if neg then (if undec ds > 2 ^ 63 then None else Some (word_of_int (- int (undec ds))))
      else (if undec ds \<ge> 2 ^ 63 then None else Some (of_nat (undec ds))))"

section \<open>The engine\<close>

record contract =
  ct_owner :: string
  ct_code :: string
  ct_kv :: "string \<rightharpoonup> u64"

type_synonym contracts = "string \<rightharpoonup> contract"

definition deploy :: "crypto \<Rightarrow> string \<Rightarrow> string \<Rightarrow> contracts \<Rightarrow> string \<times> contracts" where
  "deploy cr owner code cs =
     (let i = to_hex (sha3 cr (owner @ ''|'' @ code))
      in (i, cs(i \<mapsto> \<lparr>ct_owner = owner, ct_code = code, ct_kv = Map.empty\<rparr>)))"

text \<open>\<open>n\<close> colons from the left: the fields between them and the rest, \<open>None\<close> when there are fewer.\<close>

fun colon_fields :: "nat \<Rightarrow> string \<Rightarrow> string list option" where
  "colon_fields 0 s = Some [s]"
| "colon_fields (Suc n) s =
     (if CHR '':'' \<in> set s
      then map_option ((#) (takeWhile (\<lambda>c. c \<noteq> CHR '':'') s)) (colon_fields n (tl (dropWhile (\<lambda>c. c \<noteq> CHR '':'') s)))
      else None)"

text \<open>The key \<^verbatim>\<open>A:B\<close> of the token methods, with both parts non-empty.\<close>

definition pair_key :: "string \<Rightarrow> (string \<times> string) option" where
  "pair_key key =
     (case colon_fields 1 key of
        Some [a, b] \<Rightarrow> if a = [] \<or> b = [] then None else Some (a, b)
      | _ \<Rightarrow> None)"

definition zk_status :: "privacy_pool \<Rightarrow> string" where
  "zk_status p =
     ''verifier_configured=true native_verifier_mode='' @ native_verifier_mode_name p
       @ '' privacy_mode=sha3_opening privacy_ok=true privacy_verifier=sha3_opening claim=opening_not_zk privacy_zk_roadmap=zk_pending notes=''
       @ dec (note_count p) @ '' used_nullifiers='' @ dec (used_nullifier_count p)"

definition zk_mint_format :: string where
  "zk_mint_format = ''zk_mint key format: <OWNER>:<COMMITMENT_HEX>:<NULLIFIER_HEX>:<PROOF_HEX>:<VK_HEX>''"

definition zk_spend_format :: string where
  "zk_spend_format = ''zk_spend key format: <OWNER>:<NOTE_ID>:<RECIPIENT>:<NULLIFIER_HEX>:<PROOF_HEX>:<VK_HEX>''"

text \<open>
  The methods that only read other components; \<open>tk\<close> and \<open>pv\<close> are the bound engines, \<open>None\<close> for a null
  pointer. The two zero-knowledge methods of the pool always fail.
\<close>

definition query_method :: "engine option \<Rightarrow> privacy_pool option \<Rightarrow> string \<Rightarrow> string \<Rightarrow> u64 \<Rightarrow> string res" where
  "query_method tk pv method key v =
     (if method = ''token_balance'' then
        (case tk of
           None \<Rightarrow> Inl ''token engine not bound''
         | Some e \<Rightarrow>
             (case pair_key key of
                None \<Rightarrow> Inl ''token_balance key format: <SYMBOL>:<OWNER>''
              | Some (symbol, own) \<Rightarrow> Inr (to_string (token_balance_of e symbol own))))
      else if method = ''swap_quote'' then
        (case tk of
           None \<Rightarrow> Inl ''token engine not bound''
         | Some e \<Rightarrow>
             (case pair_key key of
                None \<Rightarrow> Inl ''swap_quote key format: <TOKEN_IN>:<TOKEN_OUT>''
              | Some (a, b) \<Rightarrow>
                  if sint v \<le> 0 then Inl ''swap_quote value must be > 0''
                  else bind_res (quote_exact_in e a b v) (\<lambda>out. Inr (to_string out))))
      else if method = ''zk_privacy_status'' then
        (case pv of None \<Rightarrow> Inl ''privacy pool not bound'' | Some p \<Rightarrow> Inr (zk_status p))
      else if method = ''zk_mint'' then
        (case pv of
           None \<Rightarrow> Inl ''privacy pool not bound''
         | Some p \<Rightarrow>
             (case colon_fields 4 key of
                None \<Rightarrow> Inl zk_mint_format
              | Some fs \<Rightarrow>
                  if list_ex (\<lambda>f. f = []) fs then Inl zk_mint_format
                  else if sint v \<le> 0 then Inl ''zk_mint value must be > 0''
                  else mint_zk))
      else if method = ''zk_spend'' then
        (case pv of
           None \<Rightarrow> Inl ''privacy pool not bound''
         | Some p \<Rightarrow>
             (case colon_fields 5 key of
                None \<Rightarrow> Inl zk_spend_format
              | Some fs \<Rightarrow>
                  if list_ex (\<lambda>f. f = []) fs then Inl zk_spend_format
                  else if sint v \<le> 0 then Inl ''zk_spend value must be > 0''
                  else spend_zk))
      else Inl ''unsupported method'')"

definition kv_value :: "contract \<Rightarrow> string \<Rightarrow> u64" where
  "kv_value c key = bal (ct_kv c) key"

text \<open>A signed overflow in \<^verbatim>\<open>add\<close>, which C++ leaves undefined, wraps here.\<close>

definition contract_call ::
    "engine option \<Rightarrow> privacy_pool option \<Rightarrow> string \<Rightarrow> string \<Rightarrow> string \<Rightarrow> u64 \<Rightarrow> contracts \<Rightarrow> string res \<times> contracts" where
  "contract_call tk pv cid method key v cs =
     (case cs cid of
        None \<Rightarrow> (Inl ''contract not found'', cs)
      | Some c \<Rightarrow>
          if method = ''set'' then (Inr ''ok'', cs(cid \<mapsto> c\<lparr>ct_kv := (ct_kv c)(key \<mapsto> v)\<rparr>))
          else if method = ''add'' then
            (let n = kv_value c key + v in (Inr (to_string_i64 n), cs(cid \<mapsto> c\<lparr>ct_kv := (ct_kv c)(key \<mapsto> n)\<rparr>)))
          else if method = ''get'' then (Inr (to_string_i64 (kv_value c key)), cs)
          else (query_method tk pv method key v, cs))"

section \<open>The text dump\<close>

text \<open>\<open>ids\<close> is the iteration order of the contracts, \<open>keys\<close> of the entries of each.\<close>

definition contract_lines :: "(string \<Rightarrow> string list) \<Rightarrow> string \<Rightarrow> contract \<Rightarrow> string list" where
  "contract_lines keys i c =
     (''C|'' @ i @ ''|'' @ ct_owner c @ ''|'' @ ct_code c)
     # map (\<lambda>k. ''K|'' @ i @ ''|'' @ k @ ''|'' @ to_string_i64 (kv_value c k)) (keys i)"

definition contracts_dump_state :: "string list \<Rightarrow> (string \<Rightarrow> string list) \<Rightarrow> contracts \<Rightarrow> string" where
  "contracts_dump_state ids keys cs = unlines (concat (map (\<lambda>i. contract_lines keys i (the (cs i))) ids))"

definition load_contract_line :: "contracts \<Rightarrow> string \<Rightarrow> unit res \<times> contracts" where
  "load_contract_line cs line =
     (if line = [] then (Inr (), cs)
      else
        (let (tag, r) = getfield CHR ''|'' line;
             (i, r) = getfield CHR ''|'' r;
             (f, v) = getfield CHR ''|'' r in
         if tag = ''C'' then
           (if i = [] then (Inl ''invalid contract state line'', cs)
            else (Inr (), cs(i \<mapsto> \<lparr>ct_owner = f, ct_code = v, ct_kv = Map.empty\<rparr>)))
         else if tag = ''K'' then
           (if i = [] then (Inl ''invalid contract kv line'', cs)
            else case stoll v of
                   None \<Rightarrow> (Inl ''stoll'', cs)
                 | Some n \<Rightarrow>
                     (let c = (case cs i of None \<Rightarrow> \<lparr>ct_owner = [], ct_code = [], ct_kv = Map.empty\<rparr> | Some c \<Rightarrow> c)
                      in (Inr (), cs(i \<mapsto> c\<lparr>ct_kv := (ct_kv c)(f \<mapsto> n)\<rparr>))))
         else (Inr (), cs)))"

definition contracts_load_state :: "string \<Rightarrow> unit res \<times> contracts" where
  "contracts_load_state state = load_lines load_contract_line Map.empty (getlines newline state)"

section \<open>Lemmas\<close>

lemma sint_bounds: "- (2 ^ 63) \<le> sint (v :: u64)" "sint v < 2 ^ 63"
  using sint_range_size [of v] by (simp_all add: word_size)

lemma stoll_to_string [simp]: "stoll (to_string_i64 v) = Some v"
proof -
  have tw: "takeWhile is_digit_char (dec n) = dec n" for n using dec_digits by (auto simp: takeWhile_eq_all_conv)
  have hd: "dec n \<noteq> [] \<and> \<not> is_space (hd (dec n)) \<and> hd (dec n) \<noteq> CHR ''-'' \<and> hd (dec n) \<noteq> CHR ''+''" for n
    using dec_hd_digit [of n] digit_no_space digit_no_sign [of "hd (dec n)"] by simp
  have dw: "dropWhile is_space (dec n) = dec n" for n using hd [of n] by (cases "dec n") simp_all
  show ?thesis
  proof (cases "sint v < 0")
    case True
    have ns: "\<not> is_space CHR ''-''" by (simp add: is_space_def)
    have neg: "stoll (CHR ''-'' # dec n) = Some (word_of_int (- int n))" if "n \<le> 2 ^ 63" for n
      using that hd [of n] unfolding stoll_def Let_def by (simp add: ns tw del: dec.simps)
    have "nat (- sint v) \<le> 2 ^ 63" using sint_bounds(1) [of v] by (simp add: nat_le_iff)
    from neg [OF this] True show ?thesis by (simp add: to_string_i64_def)
  next
    case False
    then have "nat (sint v) < 2 ^ 63" using sint_bounds(2) [of v] by (simp add: nat_less_iff)
    moreover have "of_nat (nat (sint v)) = v" using False by simp
    ultimately show ?thesis using False hd [of "nat (sint v)"] unfolding stoll_def to_string_i64_def Let_def
      by (simp add: dw tw del: dec.simps)
  qed
qed

section \<open>Properties\<close>

text \<open>
  Calls are isolated. A call changes at most the entry of the contract and key it names, and only by
  \<^verbatim>\<open>set\<close> or \<^verbatim>\<open>add\<close>; owner and code never change; a failed call changes nothing; and \<^verbatim>\<open>get\<close> after \<^verbatim>\<open>set\<close> returns the
  value written.
\<close>

theorem contract_call_isolated:
  assumes "contract_call tk pv cid method key v cs = (r, cs')"
  shows "(\<forall>i. i \<noteq> cid \<longrightarrow> cs' i = cs i) \<and> (\<forall>e. r = Inl e \<longrightarrow> cs' = cs)
    \<and> (\<forall>c. cs cid = Some c \<longrightarrow> (\<exists>c'. cs' cid = Some c' \<and> ct_owner c' = ct_owner c \<and> ct_code c' = ct_code c
          \<and> (\<forall>k. k \<noteq> key \<or> method \<notin> {''set'', ''add''} \<longrightarrow> ct_kv c' k = ct_kv c k)))
    \<and> (method = ''set'' \<longrightarrow> (\<forall>x. r = Inr x \<longrightarrow> contract_call tk pv cid ''get'' key w cs' = (Inr (to_string_i64 v), cs')))"
  using assms by (auto simp: contract_call_def kv_value_def Let_def split: option.splits if_splits)

text \<open>
  The address of a contract is the hash of owner and code joined by a bar, and \<^verbatim>\<open>deploy\<close> always stores an
  empty contract there: deploying the same code again, by the same owner or by an owner name that
  splits the same text elsewhere, erases everything the contract had stored.
\<close>

theorem redeploy_erases:
  assumes "owner @ ''|'' @ code = owner' @ ''|'' @ code'" and "deploy cr owner code cs = (i, cs1)"
    and "contract_call tk pv i ''set'' key v cs1 = (r, cs2)"
  shows "contract_call tk pv i ''get'' key w cs2 = (Inr (to_string_i64 v), cs2)
    \<and> fst (deploy cr owner' code' cs2) = i
    \<and> contract_call tk pv i ''get'' key w (snd (deploy cr owner' code' cs2)) = (Inr (to_string_i64 0), snd (deploy cr owner' code' cs2))"
proof -
  have "sha3 cr (owner @ ''|'' @ code) = sha3 cr (owner' @ ''|'' @ code')" using assms(1) by (rule arg_cong)
  then show ?thesis using assms(2,3) by (auto simp: deploy_def Let_def contract_call_def kv_value_def)
qed

section \<open>Dump and load\<close>

definition contract_text :: "(string \<Rightarrow> string list) \<Rightarrow> string \<Rightarrow> contract \<Rightarrow> bool" where
  "contract_text keys i c \<longleftrightarrow> i \<noteq> [] \<and> bar_free i \<and> bar_free (ct_owner c) \<and> newline \<notin> set (ct_code c)
     \<and> set (keys i) = dom (ct_kv c) \<and> list_all bar_free (keys i)"

lemma load_contract_lines:
  assumes "i \<noteq> []" and "bar_free i" and "bar_free f"
  shows "load_contract_line cs (''C|'' @ i @ ''|'' @ f @ ''|'' @ v) = (Inr (), cs(i \<mapsto> \<lparr>ct_owner = f, ct_code = v, ct_kv = Map.empty\<rparr>))"
    and "load_contract_line (cs(i \<mapsto> c)) (''K|'' @ i @ ''|'' @ f @ ''|'' @ to_string_i64 n) = (Inr (), cs(i \<mapsto> c\<lparr>ct_kv := (ct_kv c)(f \<mapsto> n)\<rparr>))"
proof -
  have t: "getfield CHR ''|'' (x # CHR ''|'' # r) = ([x], r)" if "x \<noteq> CHR ''|''" for x r using that by (simp add: getfield_def)
  show "load_contract_line cs (''C|'' @ i @ ''|'' @ f @ ''|'' @ v) = (Inr (), cs(i \<mapsto> \<lparr>ct_owner = f, ct_code = v, ct_kv = Map.empty\<rparr>))"
    using assms by (simp add: load_contract_line_def t getfield_bar bar_free_def)
  show "load_contract_line (cs(i \<mapsto> c)) (''K|'' @ i @ ''|'' @ f @ ''|'' @ to_string_i64 n) = (Inr (), cs(i \<mapsto> c\<lparr>ct_kv := (ct_kv c)(f \<mapsto> n)\<rparr>))"
    using assms by (simp add: load_contract_line_def t getfield_bar bar_free_def)
qed

lemma load_entries:
  assumes "i \<noteq> []" and "bar_free i"
  shows "list_all bar_free ks \<Longrightarrow> load_lines load_contract_line (cs(i \<mapsto> \<lparr>ct_owner = ow, ct_code = cd, ct_kv = m\<rparr>))
      (map (\<lambda>k. ''K|'' @ i @ ''|'' @ k @ ''|'' @ to_string_i64 (g k)) ks)
    = (Inr (), cs(i \<mapsto> \<lparr>ct_owner = ow, ct_code = cd, ct_kv = (\<lambda>k. if k \<in> set ks then Some (g k) else m k)\<rparr>))"
proof (induction ks arbitrary: m)
  case (Cons k ks)
  let ?l = "\<lambda>k. ''K|'' @ i @ ''|'' @ k @ ''|'' @ to_string_i64 (g k)"
  have "load_contract_line (cs(i \<mapsto> \<lparr>ct_owner = ow, ct_code = cd, ct_kv = m\<rparr>)) (?l k) = (Inr (), cs(i \<mapsto> \<lparr>ct_owner = ow, ct_code = cd, ct_kv = m(k \<mapsto> g k)\<rparr>))"
    using load_contract_lines(2) [OF assms, of k] Cons.prems by (simp del: append.simps)
  then have "load_lines load_contract_line (cs(i \<mapsto> \<lparr>ct_owner = ow, ct_code = cd, ct_kv = m\<rparr>)) (map ?l (k # ks))
      = load_lines load_contract_line (cs(i \<mapsto> \<lparr>ct_owner = ow, ct_code = cd, ct_kv = m(k \<mapsto> g k)\<rparr>)) (map ?l ks)"
    by (simp del: append.simps)
  also have "\<dots> = (Inr (), cs(i \<mapsto> \<lparr>ct_owner = ow, ct_code = cd, ct_kv = (\<lambda>j. if j \<in> set ks then Some (g j) else (m(k \<mapsto> g k)) j)\<rparr>))"
    by (rule Cons.IH) (use Cons.prems in simp)
  also have "(\<lambda>j. if j \<in> set ks then Some (g j) else (m(k \<mapsto> g k)) j) = (\<lambda>j. if j \<in> set (k # ks) then Some (g j) else m j)"
    by (auto simp: fun_eq_iff)
  finally show ?case .
qed simp

lemma load_contract:
  assumes "contract_text keys i c"
  shows "load_lines load_contract_line cs (contract_lines keys i c) = (Inr (), cs(i \<mapsto> c))"
proof -
  note t = assms [unfolded contract_text_def]
  have kv: "(\<lambda>k. if k \<in> dom (ct_kv c) then Some (kv_value c k) else None) = ct_kv c"
    by (auto simp: fun_eq_iff kv_value_def bal_def split: option.splits)
  have "load_lines load_contract_line cs (contract_lines keys i c)
      = load_lines load_contract_line (cs(i \<mapsto> \<lparr>ct_owner = ct_owner c, ct_code = ct_code c, ct_kv = Map.empty\<rparr>))
          (map (\<lambda>k. ''K|'' @ i @ ''|'' @ k @ ''|'' @ to_string_i64 (kv_value c k)) (keys i))"
    unfolding contract_lines_def using load_contract_lines(1) [of i "ct_owner c"] t by (simp del: append.simps)
  also have "\<dots> = (Inr (), cs(i \<mapsto> c))"
    using load_entries [of i "keys i" cs "ct_owner c" "ct_code c" Map.empty "kv_value c"] t kv by (cases c) (simp del: append.simps)
  finally show ?thesis .
qed

text \<open>
  The dump of the contracts restores them, provided no identifier, owner or key contains a bar and no
  text a line break.
\<close>

theorem contracts_dump_round_trip:
  assumes "set ids = dom cs" and "distinct ids" and "\<And>i c. cs i = Some c \<Longrightarrow> contract_text keys i c"
  shows "contracts_load_state (contracts_dump_state ids keys cs) = (Inr (), cs)"
proof -
  let ?ls = "\<lambda>is. concat (map (\<lambda>i. contract_lines keys i (the (cs i))) is)"
  have load: "load_lines load_contract_line m (?ls is) = (Inr (), \<lambda>x. if x \<in> set is then cs x else m x)"
    if "distinct is" "set is \<subseteq> dom cs" for m "is"
    using that
  proof (induction "is" arbitrary: m)
    case (Cons i "is")
    then obtain c where c: "cs i = Some c" by auto
    have "load_lines load_contract_line m (contract_lines keys i c) = (Inr (), m(i \<mapsto> c))" by (rule load_contract [OF assms(3) [OF c]])
    moreover have "load_lines load_contract_line (m(i \<mapsto> c)) (?ls is) = (Inr (), \<lambda>x. if x \<in> set is then cs x else (m(i \<mapsto> c)) x)"
      by (rule Cons.IH) (use Cons.prems in auto)
    ultimately show ?case using c Cons.prems by (auto simp: load_lines_append fun_eq_iff)
  qed simp
  have nl: "newline \<notin> set l" if l: "l \<in> set (contract_lines keys i c)" and t: "contract_text keys i c" for l i c
  proof -
    have d: "newline \<notin> set (to_string_i64 n)" for n
      using dec_digits [of newline] by (auto simp: to_string_i64_def newline_def is_digit_char_def)
    have k: "newline \<noteq> x" if "x \<noteq> CHR 0x0A" for x using that by (simp add: newline_def)
    show ?thesis using l t d unfolding contract_lines_def contract_text_def bar_free_def list_all_iff by (auto simp: k) blast
  qed
  have "getlines newline (contracts_dump_state ids keys cs) = ?ls ids"
    unfolding contracts_dump_state_def by (rule getlines_unlines) (use nl assms(1,3) in \<open>auto simp: domIff\<close>)
  moreover have "load_lines load_contract_line Map.empty (?ls ids) = (Inr (), \<lambda>x. if x \<in> set ids then cs x else None)"
    by (rule load) (use assms(1,2) in auto)
  moreover have "(\<lambda>x. if x \<in> dom cs then cs x else None) = cs" by (auto simp: fun_eq_iff domIff)
  ultimately show ?thesis by (simp add: contracts_load_state_def assms(1))
qed

end
