(* ===== verification/Net_Transport.thy ===== *)
theory Net_Transport
  imports Text_Records
begin

text \<open>
  Outbound connections (\<^verbatim>\<open>net_transport.cpp\<close>): endpoint syntax, the process-wide privacy policy, the choice
  of a route, the SOCKS5 handshake and \<^verbatim>\<open>transport_connect\<close>. Sockets are numbers; what the operating system
  and the other side do is the record \<open>network\<close>. The lemmas show which addresses a connection attempt can
  reach under a policy and how much of the stream the handshake consumes.
\<close>

section \<open>Endpoints\<close>

text \<open>\<^verbatim>\<open>s.rfind(c)\<close> as the texts before and after the last occurrence.\<close>

definition rsplit :: "char \<Rightarrow> string \<Rightarrow> (string \<times> string) option" where
  "rsplit c s =
     (if c \<in> set s
      then (let p = rev (takeWhile (\<lambda>x. x \<noteq> c) (rev s)) in Some (take (length s - length p - 1) s, p))
      else None)"

text \<open>The pieces between the occurrences of a character.\<close>

fun split_on :: "char \<Rightarrow> string \<Rightarrow> string list" where
  "split_on d [] = [[]]"
| "split_on d (c # s) = (if c = d then [] # split_on d s else (c # hd (split_on d s)) # tl (split_on d s))"

definition split_host_port :: "string \<Rightarrow> (string \<times> nat) option" where
  "split_host_port ep =
     (case rsplit CHR '':'' ep of
        None \<Rightarrow> None
      | Some (host, port) \<Rightarrow>
          if host = [] \<or> port = [] \<or> length port > 5 then None
          else if \<not> list_all is_digit_char port then None
          else if undec port = 0 \<or> undec port > 65535 then None
          else Some (host, undec port))"

text \<open>One part of a dotted quad, as \<^verbatim>\<open>inet_pton\<close> and \<^verbatim>\<open>is_ipv4_endpoint\<close> take it.\<close>

definition octet_ok :: "string \<Rightarrow> bool" where
  "octet_ok s \<longleftrightarrow> s \<noteq> [] \<and> length s \<le> 3 \<and> \<not> (length s > 1 \<and> hd s = CHR ''0'') \<and> list_all is_digit_char s \<and> undec s \<le> 255"

definition dotted_quad :: "string \<Rightarrow> bool" where
  "dotted_quad h \<longleftrightarrow> length (split_on CHR ''.'' h) = 4 \<and> list_all octet_ok (split_on CHR ''.'' h)"

text \<open>\<^verbatim>\<open>inet_pton(AF_INET, h.c_str(), ...)\<close>: the text up to a NUL byte.\<close>

definition is_ipv4_host :: "string \<Rightarrow> bool" where
  "is_ipv4_host h = dotted_quad (takeWhile (\<lambda>c. c \<noteq> CHR 0x00) h)"

definition base32_char :: "char \<Rightarrow> bool" where
  "base32_char c \<longleftrightarrow> (let n = of_char c :: nat in (97 \<le> n \<and> n \<le> 122) \<or> (50 \<le> n \<and> n \<le> 55))"

definition is_onion_v3_host :: "string \<Rightarrow> bool" where
  "is_onion_v3_host h \<longleftrightarrow> length h = 62 \<and> drop 56 h = ''.onion'' \<and> list_all base32_char (take 56 h) \<and> h ! 55 = CHR ''d''"

definition is_onion_v3_endpoint :: "string \<Rightarrow> bool" where
  "is_onion_v3_endpoint ep = (case split_host_port ep of None \<Rightarrow> False | Some (host, _) \<Rightarrow> is_onion_v3_host host)"

definition is_peer_endpoint :: "string \<Rightarrow> bool" where
  "is_peer_endpoint ep =
     (case split_host_port ep of None \<Rightarrow> False | Some (host, _) \<Rightarrow> is_onion_v3_host host \<or> is_ipv4_host host)"

section \<open>Policy and routes\<close>

record transport_policy =
  socks_proxy :: string
  onion_only :: bool
  proxy_all :: bool

datatype route_kind = Direct | Socks | Refused

definition route_for :: "string \<Rightarrow> transport_policy \<Rightarrow> route_kind" where
  "route_for host p =
     (if is_onion_v3_host host then (if socks_proxy p = [] then Refused else Socks)
      else if onion_only p then Refused
      else if proxy_all p \<and> socks_proxy p \<noteq> [] then Socks
      else Direct)"

text \<open>The process-wide state: the policy, the stop flag and the recent outbound sockets.\<close>

type_synonym socket = nat

record transport =
  tp_policy :: transport_policy
  tp_abort :: bool
  tp_socks :: "socket list"

definition transport_init :: transport where
  "transport_init = \<lparr>tp_policy = \<lparr>socks_proxy = [], onion_only = False, proxy_all = False\<rparr>, tp_abort = False, tp_socks = []\<rparr>"

definition set_transport_policy :: "transport_policy \<Rightarrow> transport \<Rightarrow> transport" where
  "set_transport_policy p s = s\<lparr>tp_policy := p\<rparr>"

definition track_io_socket :: "socket \<Rightarrow> transport \<Rightarrow> transport" where
  "track_io_socket k s = s\<lparr>tp_socks := (let q = tp_socks s @ [k] in drop (length q - 512) q)\<rparr>"

text \<open>\<^verbatim>\<open>abort_all_io\<close>: the sockets that are shut down, and the state after it.\<close>

definition abort_all_io :: "transport \<Rightarrow> socket list \<times> transport" where
  "abort_all_io s = (tp_socks s, s\<lparr>tp_abort := True, tp_socks := []\<rparr>)"

section \<open>Connections\<close>

text \<open>
  The network as the code sees it: the outcome of connecting to an address, whether a transmission on a
  socket succeeds, and the bytes that the other side sends on it before it stops.
\<close>

record network =
  nw_connect :: "string \<Rightarrow> nat \<Rightarrow> socket option"
  nw_send :: "socket \<Rightarrow> string \<Rightarrow> bool"
  nw_recv :: "socket \<Rightarrow> string"

text \<open>\<^verbatim>\<open>recv_exact\<close> on the bytes that are still to come.\<close>

definition recv_exact :: "nat \<Rightarrow> string \<Rightarrow> (string \<times> string) option" where
  "recv_exact n inp = (if length inp < n then None else Some (take n inp, drop n inp))"

definition socks5_greeting :: string where
  "socks5_greeting = [CHR 0x05, CHR 0x01, CHR 0x00]"

definition socks5_request :: "string \<Rightarrow> nat \<Rightarrow> string" where
  "socks5_request host port =
     [CHR 0x05, CHR 0x01, CHR 0x00, CHR 0x03, char_of (length host)] @ host @ [char_of (port div 256), char_of (port mod 256)]"

text \<open>The length of the bound address in the reply of the proxy, read after the four header bytes.\<close>

definition socks5_skip :: "char \<Rightarrow> string \<Rightarrow> (nat \<times> string) res" where
  "socks5_skip atyp inp =
     (if atyp = CHR 0x01 then Inr (4, inp)
      else if atyp = CHR 0x04 then Inr (16, inp)
      else if atyp = CHR 0x03 then
        (case recv_exact 1 inp of None \<Rightarrow> Inl ''socks5: bad bind addr'' | Some (l, inp) \<Rightarrow> Inr (of_char (hd l), inp))
      else Inl ''socks5: bad atyp'')"

text \<open>The handshake; its result is what the other side sends after the reply of the proxy.\<close>

definition socks5_handshake :: "(string \<Rightarrow> bool) \<Rightarrow> string \<Rightarrow> string \<Rightarrow> nat \<Rightarrow> string res" where
  "socks5_handshake send inp host port =
     (if host = [] \<or> length host > 255 then Inl ''socks5: bad host''
      else if \<not> send socks5_greeting then Inl ''socks5: greet send failed''
      else case recv_exact 2 inp of
        None \<Rightarrow> Inl ''socks5: proxy refused no-auth''
      | Some (rep, inp) \<Rightarrow>
          if rep ! 0 \<noteq> CHR 0x05 \<or> rep ! 1 \<noteq> CHR 0x00 then Inl ''socks5: proxy refused no-auth''
          else if \<not> send (socks5_request host port) then Inl ''socks5: connect send failed''
          else case recv_exact 4 inp of
            None \<Rightarrow> Inl ''socks5: bad reply''
          | Some (hdr, inp) \<Rightarrow>
              if hdr ! 0 \<noteq> CHR 0x05 then Inl ''socks5: bad reply''
              else if hdr ! 1 \<noteq> CHR 0x00 then Inl (''socks5: connect failed code '' @ dec (of_char (hdr ! 1)))
              else bind_res (socks5_skip (hdr ! 3) inp) (\<lambda>(skip, inp).
                     case recv_exact (skip + 2) inp of
                       None \<Rightarrow> Inl ''socks5: short bind addr''
                     | Some (_, inp) \<Rightarrow> Inr inp))"

text \<open>\<^verbatim>\<open>connect_ipv4\<close> with the addresses that it dials.\<close>

type_synonym dials = "(string \<times> nat) list"

definition connect_ipv4 :: "network \<Rightarrow> string \<Rightarrow> nat \<Rightarrow> socket option \<times> dials" where
  "connect_ipv4 nw ip port = (if is_ipv4_host ip then (nw_connect nw ip port, [(ip, port)]) else (None, []))"

definition transport_connect :: "network \<Rightarrow> string \<Rightarrow> nat \<Rightarrow> transport \<Rightarrow> socket res \<times> transport \<times> dials" where
  "transport_connect nw host port s =
     (let pol = tp_policy s; kind = route_for host pol in
      if tp_abort s then (Inl ''shutting down'', s, [])
      else if kind = Refused then
        (Inl (if is_onion_v3_host host then ''onion peer needs a SOCKS proxy'' else ''clearnet refused (onion_only)''), s, [])
      else if kind = Direct then
        (case connect_ipv4 nw host port of
           (None, ds) \<Rightarrow> (Inl ''connect failed'', s, ds)
         | (Some k, ds) \<Rightarrow> (Inr k, track_io_socket k s, ds))
      else case split_host_port (socks_proxy pol) of
        None \<Rightarrow> (Inl ''bad socks proxy'', s, [])
      | Some (ph, pp) \<Rightarrow>
          if \<not> is_ipv4_host ph then (Inl ''bad socks proxy'', s, [])
          else case connect_ipv4 nw ph pp of
            (None, ds) \<Rightarrow> (Inl ''socks proxy unreachable'', s, ds)
          | (Some k, ds) \<Rightarrow>
              (case socks5_handshake (nw_send nw k) (nw_recv nw k) host port of
                 Inl e \<Rightarrow> (Inl e, track_io_socket k s, ds)
               | Inr _ \<Rightarrow> (Inr k, track_io_socket k s, ds)))"

section \<open>Lemmas\<close>

text \<open>
  Splitting an endpoint is exact: the host and the port of a printed address come back, and
  every accepted endpoint is made of a host and a port number in range.
\<close>

lemma rsplit_join: "c \<notin> set p \<Longrightarrow> rsplit c (h @ c # p) = Some (h, p)"
proof -
  assume a: "c \<notin> set p"
  have "takeWhile (\<lambda>x. x \<noteq> c) (rev p @ c # rev h) = rev p" using a by (subst takeWhile_append2) auto
  then show ?thesis by (simp add: rsplit_def Let_def)
qed

lemma split_host_port_print:
  assumes "h \<noteq> []" and "0 < p" and "p \<le> 65535"
  shows "split_host_port (h @ '':'' @ dec p) = Some (h, p)"
proof -
  have d: "list_all is_digit_char (dec p)" by (simp add: list_all_iff dec_digits)
  have "CHR '':'' \<notin> set (dec p)" using dec_digits [of "CHR '':''" p] by (auto simp: is_digit_char_def)
  then have "rsplit CHR '':'' (h @ CHR '':'' # dec p) = Some (h, dec p)" by (rule rsplit_join)
  moreover have "length (dec p) \<le> 5" using dec_length [of p 5] assms(3) by simp
  ultimately show ?thesis using assms d by (simp add: split_host_port_def)
qed

lemma split_host_port_range: "split_host_port ep = Some (h, p) \<Longrightarrow> h \<noteq> [] \<and> 0 < p \<and> p \<le> 65535"
  by (auto simp: split_host_port_def split: option.splits if_splits)

lemma track_bound: "length (tp_socks (track_io_socket k s)) \<le> 512"
  by (simp add: track_io_socket_def Let_def)

text \<open>An onion host is never a dotted quad, so the direct route cannot reach it.\<close>

lemma split_on_last_onion: "last (split_on CHR ''.'' (x @ ''.onion'')) = ''onion''"
proof -
  have ne: "split_on d s \<noteq> []" for d s by (cases s) auto
  have "last (split_on CHR ''.'' (x @ ''.onion'')) = ''onion'' \<and> tl (split_on CHR ''.'' (x @ ''.onion'')) \<noteq> []" for x
  proof (induction x)
    case (Cons c x)
    then show ?case using ne [of "CHR ''.''" "x @ ''.onion''"] by (auto simp del: append.simps simp: append_Cons last_tl)
  qed simp
  then show ?thesis by blast
qed


lemma onion_not_ipv4:
  assumes "is_onion_v3_host h"
  shows "\<not> is_ipv4_host h"
proof -
  have h: "h = take 56 h @ ''.onion''" using assms append_take_drop_id [of 56 h] by (simp add: is_onion_v3_host_def)
  have "\<forall>c\<in>set (take 56 h). c \<noteq> CHR 0x00" using assms by (auto simp: is_onion_v3_host_def list_all_iff base32_char_def Let_def)
  then have t: "takeWhile (\<lambda>c. c \<noteq> CHR 0x00) h = h" by (subst (1 2) h) (simp add: takeWhile_append2)
  have "split_on CHR ''.'' h \<noteq> []" by (cases h) auto
  then have "''onion'' \<in> set (split_on CHR ''.'' h)" using split_on_last_onion [of "take 56 h"] h by (metis last_in_set)
  moreover have "\<not> octet_ok ''onion''" by (simp add: octet_ok_def)
  ultimately show ?thesis by (auto simp: is_ipv4_host_def t dotted_quad_def list_all_iff)
qed

text \<open>
  A successful handshake has read exactly the reply of the proxy: the method selection, the four header
  bytes with a zero status, and the bound address in one of the three address formats with its port. The
  bytes that follow belong to the tunnelled connection, and none of them is lost.
\<close>

lemma recv_exact_split: "recv_exact n inp = Some (a, r) \<longleftrightarrow> inp = a @ r \<and> length a = n"
  by (auto simp: recv_exact_def min_def)

lemma two_bytes: "length x = Suc (Suc 0) \<Longrightarrow> x ! 0 = a \<Longrightarrow> x ! Suc 0 = b \<Longrightarrow> x = [a, b]"
  by (cases x) (auto simp: length_Suc_conv)

theorem socks5_reads_reply:
  assumes "socks5_handshake send inp host port = Inr rest"
  shows "\<exists>r t addr. inp = [CHR 0x05, CHR 0x00] @ [CHR 0x05, CHR 0x00, r, t] @ addr @ rest \<and> send socks5_greeting \<and> send (socks5_request host port)
    \<and> (t = CHR 0x01 \<and> length addr = 6 \<or> t = CHR 0x04 \<and> length addr = 18 \<or> t = CHR 0x03 \<and> (\<exists>l a. addr = l # a \<and> length a = of_char l + 2))"
proof -
  obtain rep i1 where 1: "recv_exact 2 inp = Some (rep, i1)" and sg: "send socks5_greeting" and r: "rep ! 0 = CHR 0x05" "rep ! 1 = CHR 0x00"
    and sr: "send (socks5_request host port)"
    using assms by (auto simp: socks5_handshake_def split: if_splits option.splits)
  obtain hdr i2 where 2: "recv_exact 4 i1 = Some (hdr, i2)" and h: "hdr ! 0 = CHR 0x05" "hdr ! 1 = CHR 0x00"
    and b: "bind_res (socks5_skip (hdr ! 3) i2) (\<lambda>(skip, inp). case recv_exact (skip + 2) inp of
                       None \<Rightarrow> Inl ''socks5: short bind addr'' | Some (_, inp) \<Rightarrow> Inr inp) = Inr rest"
    using assms 1 by (auto simp: socks5_handshake_def split: if_splits option.splits)
  obtain skip i3 a where 3: "socks5_skip (hdr ! 3) i2 = Inr (skip, i3)" "i3 = a @ rest" "length a = skip + 2"
    using b by (auto simp: bind_res_def recv_exact_split split: sum.splits option.splits)
  have rep: "rep = [CHR 0x05, CHR 0x00]" using 1 r two_bytes [of rep] by (auto simp: recv_exact_split numeral_2_eq_2)
  obtain x t where hdr: "hdr = [CHR 0x05, CHR 0x00, x, t]"
    using 2 h by (auto simp: recv_exact_split numeral_eq_Suc length_Suc_conv)
  have "\<exists>addr. i2 = addr @ rest \<and> (t = CHR 0x01 \<and> length addr = 6 \<or> t = CHR 0x04 \<and> length addr = 18
      \<or> t = CHR 0x03 \<and> (\<exists>l a. addr = l # a \<and> length a = of_char l + 2))"
    using 3 hdr by (auto simp: socks5_skip_def recv_exact_split length_Suc_conv split: if_splits option.splits)
  then show ?thesis using 1 2 rep hdr sg sr by (auto simp: recv_exact_split)
qed

text \<open>
  Claim C32. Outbound connections respect the privacy policy. Whatever the network answers, an attempt
  to reach a host opens a connection to the SOCKS proxy of the policy and to no other address as soon
  as the host is an onion service, the node is restricted to onion services, or all traffic goes
  through the proxy; a restricted node opens no connection at all for a host that is no onion service,
  and none is opened after the shutdown.
\<close>

theorem transport_never_leaks:
  assumes "transport_connect nw host port s = (r, s', ds)"
  shows "(\<forall>ip p. (ip, p) \<in> set ds \<and> (is_onion_v3_host host \<or> onion_only (tp_policy s) \<or> proxy_all (tp_policy s) \<and> socks_proxy (tp_policy s) \<noteq> [])
        \<longrightarrow> split_host_port (socks_proxy (tp_policy s)) = Some (ip, p))
    \<and> (onion_only (tp_policy s) \<and> \<not> is_onion_v3_host host \<longrightarrow> ds = []) \<and> (tp_abort s \<longrightarrow> ds = [])"
proof -
  have "split_host_port (socks_proxy (tp_policy s)) = Some (ip, p)"
    if "(ip, p) \<in> set ds" "is_onion_v3_host host \<or> onion_only (tp_policy s) \<or> proxy_all (tp_policy s) \<and> socks_proxy (tp_policy s) \<noteq> []" for ip p
    using assms that
    by (auto simp: transport_connect_def route_for_def connect_ipv4_def Let_def split: if_splits option.splits prod.splits sum.splits)
  moreover have "ds = []" if "onion_only (tp_policy s) \<and> \<not> is_onion_v3_host host \<or> tp_abort s"
    using assms that by (auto simp: transport_connect_def route_for_def Let_def split: if_splits)
  ultimately show ?thesis by blast
qed

definition demo_onion :: string where
  "demo_onion = replicate 56 CHR ''d'' @ ''.onion''"

definition demo_transport :: transport where
  "demo_transport = transport_init\<lparr>tp_policy := \<lparr>socks_proxy = ''127.0.0.1:9050'', onion_only = True, proxy_all = False\<rparr>\<rparr>"

definition demo_network :: network where
  "demo_network = \<lparr>nw_connect = (\<lambda>_ _. Some 7), nw_send = (\<lambda>_ _. True), nw_recv = (\<lambda>_. [CHR 0x05, CHR 0x00, CHR 0x05, CHR 0x00, CHR 0x00, CHR 0x01] @ replicate 6 CHR 0x00)\<rparr>"

lemma demo_proxy:
  "split_host_port ''127.0.0.1:9050'' = Some (''127.0.0.1'', 9050)" "is_ipv4_host ''127.0.0.1''" "is_onion_v3_host demo_onion"
proof -
  show "split_host_port ''127.0.0.1:9050'' = Some (''127.0.0.1'', 9050)"
    by (simp add: split_host_port_def rsplit_def is_digit_char_def undec_def char_digit_def)
  show "is_ipv4_host ''127.0.0.1''"
    by (simp add: is_ipv4_host_def dotted_quad_def octet_ok_def is_digit_char_def undec_def char_digit_def)
  show "is_onion_v3_host demo_onion"
    by (simp add: is_onion_v3_host_def demo_onion_def list_all_iff base32_char_def nth_append Let_def)
qed

theorem transport_never_leaks_witness:
  "\<exists>s'. transport_connect demo_network demo_onion 28545 demo_transport = (Inr 7, s', [(''127.0.0.1'', 9050)])
     \<and> split_host_port (socks_proxy (tp_policy demo_transport)) = Some (''127.0.0.1'', 9050)"
proof -
  have "length demo_onion \<le> 255" "demo_onion \<noteq> []" by (simp_all add: demo_onion_def)
  then have "socks5_handshake (nw_send demo_network 7) (nw_recv demo_network 7) demo_onion 28545 = Inr []"
    by (simp add: demo_network_def socks5_handshake_def recv_exact_def socks5_skip_def bind_res_def)
  then have "transport_connect demo_network demo_onion 28545 demo_transport = (Inr 7, track_io_socket 7 demo_transport, [(''127.0.0.1'', 9050)])"
    using demo_proxy by (simp add: transport_connect_def route_for_def demo_transport_def transport_init_def connect_ipv4_def Let_def)
      (simp add: demo_network_def)
  with transport_never_leaks [OF this] show ?thesis by (simp add: demo_transport_def)
qed

end
