(* ===== verification/Config_Text.thy ===== *)
theory Config_Text
  imports Net_Transport
begin

text \<open>
  The text helpers of \<^verbatim>\<open>config.cpp\<close>: trimming, comments, quoted values, numbers, arrays of strings, and the
  classification of peer addresses that the configuration and the peer tables share.
\<close>

section \<open>Values\<close>

definition trim_end :: "char \<Rightarrow> bool" where
  "trim_end c \<longleftrightarrow> c = CHR 0x0D \<or> c = CHR 0x0A \<or> c = CHR '' '' \<or> c = CHR 0x09"

definition trim_copy :: "string \<Rightarrow> string" where
  "trim_copy s = dropWhile (\<lambda>c. c = CHR '' '' \<or> c = CHR 0x09) (rev (dropWhile trim_end (rev s)))"

text \<open>\<^verbatim>\<open>strip_comment\<close>: up to the first \<^verbatim>\<open>#\<close> outside a string literal.\<close>

fun strip_comment_from :: "bool \<Rightarrow> string \<Rightarrow> string" where
  "strip_comment_from q [] = []"
| "strip_comment_from q (c # s) =
     (if c = CHR 0x22 then c # strip_comment_from (\<not> q) s
      else if \<not> q \<and> c = CHR ''#'' then []
      else c # strip_comment_from q s)"

definition strip_comment :: "string \<Rightarrow> string" where
  "strip_comment = strip_comment_from False"

definition parse_quoted :: "string \<Rightarrow> string option" where
  "parse_quoted s =
     (if length s < 2 \<or> hd s \<noteq> CHR 0x22 \<or> last s \<noteq> CHR 0x22 then None else Some (butlast (tl s)))"

definition parse_bool :: "string \<Rightarrow> bool option" where
  "parse_bool s =
     (if s = ''true'' \<or> s = ''1'' then Some True else if s = ''false'' \<or> s = ''0'' then Some False else None)"

text \<open>
  \<^verbatim>\<open>std::stoull(s, &idx, 0)\<close>: decimal, octal after a leading zero and hexadecimal after \<^verbatim>\<open>0x\<close>; the value
  and the rest of the text, \<open>None\<close> for an exception.
\<close>

definition base_digit :: "nat \<Rightarrow> char \<Rightarrow> bool" where
  "base_digit b c = (case hex_val c of None \<Rightarrow> False | Some d \<Rightarrow> d < b)"

definition base_num :: "nat \<Rightarrow> string \<Rightarrow> nat" where
  "base_num b s = foldl (\<lambda>a c. b * a + the (hex_val c)) 0 s"

definition stoull0 :: "string \<Rightarrow> (u64 \<times> string) option" where
  "stoull0 s =
     (let r = dropWhile is_space s;
          neg = (r \<noteq> [] \<and> hd r = CHR ''-'');
          r = (if r \<noteq> [] \<and> (hd r = CHR ''-'' \<or> hd r = CHR ''+'') then tl r else r);
          is_hex = (length r > 2 \<and> r ! 0 = CHR ''0'' \<and> (r ! 1 = CHR ''x'' \<or> r ! 1 = CHR ''X'') \<and> is_hex_char (r ! 2));
          b = (if is_hex then 16 else if r \<noteq> [] \<and> hd r = CHR ''0'' then 8 else 10);
          r = (if is_hex then drop 2 r else r);
          ds = takeWhile (base_digit b) r; n = base_num b ds in
      if ds = [] \<or> n \<ge> 2 ^ 64 then None
      else Some (of_nat (if neg then (2 ^ 64 - n) mod 2 ^ 64 else n), dropWhile (base_digit b) r))"

definition parse_u64 :: "string \<Rightarrow> u64 option" where
  "parse_u64 s = (case stoull0 s of Some (v, []) \<Rightarrow> Some v | _ \<Rightarrow> None)"

definition parse_u16 :: "string \<Rightarrow> u64 option" where
  "parse_u16 s = (case parse_u64 s of None \<Rightarrow> None | Some v \<Rightarrow> if v = 0 \<or> v > 65535 then None else Some v)"

text \<open>\<^verbatim>\<open>parse_string_array\<close>: the loop over the text between the brackets, and the items it collects.\<close>

fun array_items :: "string \<Rightarrow> string \<Rightarrow> bool \<Rightarrow> string list" where
  "array_items [] cur q = [cur]"
| "array_items (c # s) cur q =
     (if c = CHR 0x22 then array_items s (cur @ [c]) (\<not> q)
      else if c = CHR '','' \<and> \<not> q then cur # array_items s [] q
      else array_items s (cur @ [c]) q)"

fun decode_items :: "string list \<Rightarrow> string list option" where
  "decode_items [] = Some []"
| "decode_items (x # xs) =
     (if trim_copy x = [] then decode_items xs
      else case parse_quoted (trim_copy x) of None \<Rightarrow> None | Some v \<Rightarrow> map_option ((#) v) (decode_items xs))"

definition parse_string_array :: "string \<Rightarrow> string list option" where
  "parse_string_array s =
     (let s = trim_copy s in
      if length s < 2 \<or> hd s \<noteq> CHR ''['' \<or> last s \<noteq> CHR '']'' then None
      else decode_items (array_items (butlast (tl s)) [] False))"

section \<open>Peer addresses\<close>

definition is_ipv4_endpoint :: "string \<Rightarrow> bool" where
  "is_ipv4_endpoint ep =
     (case rsplit CHR '':'' ep of
        None \<Rightarrow> False
      | Some (host, port) \<Rightarrow> host \<noteq> [] \<and> port \<noteq> [] \<and> parse_u16 port \<noteq> None \<and> dotted_quad host)"

definition is_loopback_host :: "string \<Rightarrow> bool" where
  "is_loopback_host h \<longleftrightarrow> h = ''127.0.0.1'' \<or> h = ''0.0.0.0'' \<or> h = ''localhost'' \<or> h = ''::1''"

definition is_loopback_endpoint :: "string \<Rightarrow> bool" where
  "is_loopback_endpoint ep = (case rsplit CHR '':'' ep of None \<Rightarrow> False | Some (host, _) \<Rightarrow> host \<noteq> [] \<and> is_loopback_host host)"

definition is_self_peer_label :: "string \<Rightarrow> bool" where
  "is_self_peer_label ep \<longleftrightarrow> ep = ''self'' \<or> ep = ''probe-self'' \<or> starts_with ''self'' ep \<and> \<not> is_peer_endpoint ep \<or> starts_with ''probe-self'' ep"

definition is_external_advertised_peer :: "string \<Rightarrow> bool" where
  "is_external_advertised_peer ep \<longleftrightarrow> is_peer_endpoint ep \<and> \<not> is_loopback_endpoint ep \<and> \<not> is_self_peer_label ep"

definition parse_advertised_p2p :: "string \<Rightarrow> string res" where
  "parse_advertised_p2p v =
     (let t = trim_copy v in
      if t = [] then Inr []
      else if \<not> is_external_advertised_peer t
      then Inl (''advertised_p2p must be a non-loopback IPv4 or v3 .onion host:port (got '' @ t @ '')'')
      else Inr t)"

definition add_advertised :: "string \<Rightarrow> string list \<Rightarrow> string list" where
  "add_advertised p out = (if is_external_advertised_peer p \<and> p \<notin> set out then out @ [p] else out)"

definition public_advertised_peers :: "string list \<Rightarrow> string \<Rightarrow> string list" where
  "public_advertised_peers ps adv = sort (add_advertised adv (fold add_advertised ps []))"

section \<open>Lemmas\<close>

lemma fold_add_advertised:
  "distinct out \<Longrightarrow> (\<forall>p\<in>set out. is_external_advertised_peer p) \<Longrightarrow>
     distinct (fold add_advertised ps out) \<and> set (fold add_advertised ps out) = set out \<union> {p \<in> set ps. is_external_advertised_peer p}"
proof (induction ps arbitrary: out)
  case (Cons p ps)
  have "distinct (add_advertised p out)" "\<forall>p\<in>set (add_advertised p out). is_external_advertised_peer p"
    using Cons.prems by (auto simp: add_advertised_def)
  from Cons.IH [OF this] show ?case by (auto simp: add_advertised_def)
qed simp

text \<open>
  What the node tells others about its peers: the list is sorted and free of duplicates, and it
  consists of the external addresses among the peers and the advertised address, nothing else.
\<close>

theorem public_peers_exact:
  "sorted (public_advertised_peers ps adv) \<and> distinct (public_advertised_peers ps adv)
     \<and> set (public_advertised_peers ps adv) = {p \<in> insert adv (set ps). is_external_advertised_peer p}"
proof -
  have f: "distinct (fold add_advertised ps [])" "set (fold add_advertised ps []) = {p \<in> set ps. is_external_advertised_peer p}"
    using fold_add_advertised [of "[]" ps] by auto
  then have "distinct (add_advertised adv (fold add_advertised ps []))" by (auto simp: add_advertised_def)
  moreover have "set (add_advertised adv (fold add_advertised ps [])) = {p \<in> insert adv (set ps). is_external_advertised_peer p}"
    using f(2) by (auto simp: add_advertised_def)
  ultimately show ?thesis by (simp add: public_advertised_peers_def)
qed

text \<open>A number printed in decimal reads back, whatever its size.\<close>

lemma base10_digit: "base_digit 10 c = is_digit_char c"
  by (auto simp: base_digit_def hex_val_def is_digit_char_def Let_def)

lemma base10_num: "list_all is_digit_char s \<Longrightarrow> base_num 10 s = undec s"
proof (induction s rule: rev_induct)
  case (snoc c s)
  then have "the (hex_val c) = char_digit c" by (auto simp: hex_val_def is_digit_char_def char_digit_def Let_def)
  with snoc show ?case by (simp add: base_num_def undec_def)
qed (simp add: base_num_def undec_def)

lemma hd_dec_zero: "0 < n \<Longrightarrow> hd (dec n) \<noteq> CHR ''0''"
proof (induction n rule: dec.induct)
  case (1 n)
  show ?case
  proof (cases "n < 10")
    case True
    have "digit_char n \<noteq> CHR ''0''"
    proof
      assume "digit_char n = CHR ''0''"
      then have "char_digit (digit_char n) = 0" by (simp add: char_digit_def)
      then show False using 1 True by simp
    qed
    then show ?thesis using True by (simp add: dec.simps [of n])
  next
    case False
    with 1 show ?thesis by (simp add: dec.simps [of n] hd_append)
  qed
qed

lemma parse_u64_dec [simp]: "parse_u64 (to_string (x :: u64)) = Some x"
proof (cases "x = 0")
  case False
  let ?n = "unat x"
  have d: "list_all is_digit_char (dec ?n)" by (simp add: list_all_iff dec_digits)
  obtain c s where cs: "dec ?n = c # s" by (cases "dec ?n") simp_all
  have c: "is_digit_char c" "\<not> is_space c" "c \<noteq> CHR ''-''" "c \<noteq> CHR ''+''" "c \<noteq> CHR ''0''"
    using d cs digit_no_space digit_no_sign [of c] hd_dec_zero [of ?n] False by (auto simp: unat_gt_0)
  have tw: "takeWhile (base_digit 10) (c # s) = c # s" "dropWhile (base_digit 10) (c # s) = []"
    using d cs by (auto simp: base10_digit list_all_iff)
  have n: "base_num 10 (c # s) = ?n" using base10_num [OF d] undec_dec [of ?n] cs by simp
  have "stoull0 (c # s) = Some (x, [])"
    using c tw n unat_u64_bound [of x] by (simp add: stoull0_def Let_def del: unat_u64_bound)
  then show ?thesis by (simp add: parse_u64_def to_string_def cs)
next
  case True
  have "stoull0 ''0'' = Some (0, [])"
    by (simp add: stoull0_def Let_def is_space_def base_digit_def hex_val_def base_num_def)
  then show ?thesis using True by (simp add: parse_u64_def to_string_def dec.simps [of 0] digit_char_def char_of_def bit_0)
qed

end
