(* ===== verification/Peer_Network.thy ===== *)
theory Peer_Network
  imports Config_Text "HOL-Library.Product_Lexorder"
begin

text \<open>
  \<^verbatim>\<open>class PeerNetwork\<close> (\<^verbatim>\<open>p2p.hpp\<close>, \<^verbatim>\<open>p2p.cpp\<close>): the address manager with scores, bans, back-off, seeds and
  candidates. The mutex makes every operation atomic, so a history is a sequence of operations with
  the times at which they read the clock. The lemmas show the bounds of the tables, that seeds stay,
  that bans hold until they expire, and which peer is evicted.
\<close>

section \<open>State\<close>

text \<open>
  The hash sets of addresses are lists without repetition; the order of \<open>pe_peers\<close> is the iteration order,
  which only \<^verbatim>\<open>peers()\<close> shows. Times are seconds, and every operation that reads the clock takes the time
  as its argument.
\<close>

record peer_net =
  pe_peers :: "string list"
  pe_score :: "string \<rightharpoonup> int"
  pe_banned :: "string \<rightharpoonup> int"
  pe_backoff :: "string \<rightharpoonup> int"
  pe_seeds :: "string set"
  pe_candidates :: "string list"
  pe_soft_banned :: "string set"
  pe_max_peers :: nat
  pe_max_candidates :: nat
  pe_ban_seconds :: int

definition kMaxScore :: int where "kMaxScore = 100"
definition kMinScore :: int where "kMinScore = -10"
definition kBanScore :: int where "kBanScore = -5"

definition PeerNetwork_init :: peer_net where
  "PeerNetwork_init = \<lparr>pe_peers = [], pe_score = Map.empty, pe_banned = Map.empty, pe_backoff = Map.empty, pe_seeds = {},
     pe_candidates = [], pe_soft_banned = {}, pe_max_peers = 125, pe_max_candidates = 1000, pe_ban_seconds = 3600\<rparr>"

definition ins :: "string \<Rightarrow> string list \<Rightarrow> string list" where
  "ins x xs = (if x \<in> set xs then xs else xs @ [x])"

definition score_of :: "peer_net \<Rightarrow> string \<Rightarrow> int" where
  "score_of n e = (case pe_score n e of None \<Rightarrow> 0 | Some s \<Rightarrow> s)"

definition banned_locked :: "int \<Rightarrow> peer_net \<Rightarrow> string \<Rightarrow> bool" where
  "banned_locked now n e = (case pe_banned n e of None \<Rightarrow> False | Some t \<Rightarrow> t > now)"

definition pn_set_limits :: "nat \<Rightarrow> nat \<Rightarrow> int \<Rightarrow> peer_net \<Rightarrow> peer_net" where
  "pn_set_limits mp mc bs n =
     n\<lparr>pe_max_peers := (if mp > 0 then mp else 1), pe_max_candidates := mc, pe_ban_seconds := (if bs > 0 then bs else 1)\<rparr>"

section \<open>Eviction\<close>

text \<open>The scan for the victim: the running worst score and the address that has it, empty at the start.\<close>

definition victim_step :: "peer_net \<Rightarrow> string \<Rightarrow> int \<times> string \<Rightarrow> int \<times> string" where
  "victim_step n p = (\<lambda>(worst, victim).
     if p \<in> pe_seeds n then (worst, victim)
     else if score_of n p < worst \<or> score_of n p = worst \<and> p < victim then (score_of n p, p)
     else (worst, victim))"

definition pick_victim :: "peer_net \<Rightarrow> string" where
  "pick_victim n = snd (fold (victim_step n) (pe_peers n) (kMaxScore + 1, []))"

definition drop_peer :: "string \<Rightarrow> peer_net \<Rightarrow> peer_net" where
  "drop_peer v n = n\<lparr>pe_peers := removeAll v (pe_peers n), pe_score := (pe_score n)(v := None)\<rparr>"

lemma victim_is_peer: "snd (fold (victim_step n) ps (w, v)) \<in> insert v (set ps)"
  by (induction ps arbitrary: w v) (auto simp: victim_step_def split: if_splits)

function evict_if_full :: "peer_net \<Rightarrow> peer_net" where
  "evict_if_full n =
     (if length (pe_peers n) < pe_max_peers n \<or> pick_victim n = [] then n
      else evict_if_full (drop_peer (pick_victim n) n))"
  by auto
termination
proof (relation "measure (\<lambda>n. length (pe_peers n))")
  fix n :: peer_net
  assume a: "\<not> (length (pe_peers n) < pe_max_peers n \<or> pick_victim n = [])"
  then have "pick_victim n \<in> set (pe_peers n)"
    using victim_is_peer [of n "pe_peers n" "kMaxScore + 1" "[]"] by (auto simp: pick_victim_def)
  then show "(drop_peer (pick_victim n) n, n) \<in> measure (\<lambda>n. length (pe_peers n))"
    by (simp add: drop_peer_def length_removeAll_less)
qed simp

declare evict_if_full.simps [simp del]

section \<open>Operations\<close>

definition add_peer :: "int \<Rightarrow> string \<Rightarrow> peer_net \<Rightarrow> bool \<times> peer_net" where
  "add_peer now e n =
     (if e = [] \<or> banned_locked now n e then (False, n)
      else
        (let n = n\<lparr>pe_banned := (pe_banned n)(e := None)\<rparr> in
         if e \<in> set (pe_peers n) then (False, n)
         else
           (let n = evict_if_full n in
            if length (pe_peers n) \<ge> pe_max_peers n then (False, n)
            else (True, n\<lparr>pe_score := (pe_score n)(e \<mapsto> score_of n e), pe_candidates := removeAll e (pe_candidates n),
                          pe_peers := ins e (pe_peers n)\<rparr>))))"

definition add_seed :: "string \<Rightarrow> peer_net \<Rightarrow> bool \<times> peer_net" where
  "add_seed e n =
     (if e = [] then (False, n)
      else
        (let n = n\<lparr>pe_seeds := insert e (pe_seeds n), pe_banned := (pe_banned n)(e := None)\<rparr> in
         if e \<in> set (pe_peers n) then (False, n)
         else (True, n\<lparr>pe_score := (pe_score n)(e \<mapsto> score_of n e), pe_peers := ins e (pe_peers n)\<rparr>)))"

definition add_candidate :: "int \<Rightarrow> string \<Rightarrow> peer_net \<Rightarrow> bool \<times> peer_net" where
  "add_candidate now e n =
     (if e = [] \<or> e \<in> set (pe_peers n) \<or> banned_locked now n e then (False, n)
      else if length (pe_candidates n) \<ge> pe_max_candidates n then (False, n)
      else (e \<notin> set (pe_candidates n), n\<lparr>pe_candidates := ins e (pe_candidates n)\<rparr>))"

definition remove_candidate :: "string \<Rightarrow> peer_net \<Rightarrow> bool \<times> peer_net" where
  "remove_candidate e n = (e \<in> set (pe_candidates n), n\<lparr>pe_candidates := removeAll e (pe_candidates n)\<rparr>)"

definition promote_candidate :: "int \<Rightarrow> string \<Rightarrow> peer_net \<Rightarrow> bool \<times> peer_net" where
  "promote_candidate now e n =
     (case remove_candidate e n of (False, n) \<Rightarrow> (False, n) | (True, n) \<Rightarrow> add_peer now e n)"

definition remove_peer :: "string \<Rightarrow> peer_net \<Rightarrow> bool \<times> peer_net" where
  "remove_peer e n = (e \<in> set (pe_peers n), n\<lparr>pe_peers := removeAll e (pe_peers n)\<rparr>)"

definition set_score :: "string \<Rightarrow> int \<Rightarrow> peer_net \<Rightarrow> peer_net" where
  "set_score e s n = n\<lparr>pe_score := (pe_score n)(e \<mapsto> s)\<rparr>"

definition mark_peer_good :: "string \<Rightarrow> peer_net \<Rightarrow> peer_net" where
  "mark_peer_good e n =
     (if e \<notin> set (pe_peers n) then n
      else (set_score e (min kMaxScore (score_of n e + 1)) n)\<lparr>pe_backoff := (pe_backoff n)(e := None)\<rparr>)"

definition mark_peer_bad :: "int \<Rightarrow> string \<Rightarrow> peer_net \<Rightarrow> peer_net" where
  "mark_peer_bad now e n =
     (if e \<notin> set (pe_peers n) then n
      else
        (let sc = max kMinScore (score_of n e - 1) in
         if sc > kBanScore then set_score e sc n
         else if e \<in> pe_seeds n
         then (set_score e (kBanScore + 2) n)\<lparr>pe_backoff := (pe_backoff n)(e \<mapsto> now + 60)\<rparr>
         else (drop_peer e n)\<lparr>pe_banned := (pe_banned n)(e \<mapsto> now + pe_ban_seconds n), pe_soft_banned := pe_soft_banned n - {e}\<rparr>))"

definition mark_peer_unreachable :: "int \<Rightarrow> string \<Rightarrow> peer_net \<Rightarrow> peer_net" where
  "mark_peer_unreachable now e n =
     (if e \<notin> set (pe_peers n) then n
      else
        (let sc = max kMinScore (score_of n e - 1) in
         if sc \<le> kBanScore
         then (set_score e (kBanScore + 1) n)\<lparr>pe_backoff := (pe_backoff n)(e \<mapsto> now + 60)\<rparr>
         else set_score e sc n))"

definition readmit_authenticated :: "int \<Rightarrow> string \<Rightarrow> peer_net \<Rightarrow> peer_net" where
  "readmit_authenticated now e n =
     (let n = n\<lparr>pe_backoff := (pe_backoff n)(e := None), pe_soft_banned := pe_soft_banned n - {e},
                pe_banned := (if e \<in> pe_soft_banned n then (pe_banned n)(e := None) else pe_banned n)\<rparr> in
      if banned_locked now n e then n
      else
        (let n = n\<lparr>pe_banned := (pe_banned n)(e := None),
                   pe_peers := (if length (pe_peers n) < pe_max_peers n then ins e (pe_peers n) else pe_peers n)\<rparr> in
         set_score e (max 0 (score_of n e)) n))"

section \<open>Queries\<close>

definition pn_in_backoff :: "int \<Rightarrow> peer_net \<Rightarrow> string \<Rightarrow> bool" where
  "pn_in_backoff now n e = (case pe_backoff n e of None \<Rightarrow> False | Some t \<Rightarrow> t > now)"

definition ban_expiry :: "int \<Rightarrow> peer_net \<Rightarrow> string \<Rightarrow> int" where
  "ban_expiry now n e = (if banned_locked now n e then the (pe_banned n e) else 0)"

definition select_peers :: "int \<Rightarrow> nat \<Rightarrow> peer_net \<Rightarrow> string list" where
  "select_peers now k n =
     (let v = map snd (sort (map (\<lambda>p. (- score_of n p, p)) (filter (\<lambda>p. \<not> pn_in_backoff now n p) (pe_peers n))))
      in if k = 0 then v else take k v)"

definition candidates :: "peer_net \<Rightarrow> string list" where
  "candidates n = sort (pe_candidates n)"

definition advertised_peers :: "peer_net \<Rightarrow> string list" where
  "advertised_peers n = sort (filter is_external_advertised_peer (pe_peers n))"

definition loopback_peers :: "peer_net \<Rightarrow> string list" where
  "loopback_peers n = sort (filter is_loopback_endpoint (pe_peers n))"

definition advertised_peer_count :: "peer_net \<Rightarrow> nat" where
  "advertised_peer_count n = length (filter is_external_advertised_peer (pe_peers n))"

definition loopback_peer_count :: "peer_net \<Rightarrow> nat" where
  "loopback_peer_count n = length (filter is_loopback_endpoint (pe_peers n))"


section \<open>Sequences of operations\<close>

text \<open>
  The operations of a running node. The limits (\<open>pn_set_limits\<close>) are not among them: the daemon sets them once, at the
  start.
\<close>

datatype peer_op = OpAddPeer string | OpAddSeed string | OpAddCandidate string | OpRemoveCandidate string | OpPromote string
  | OpRemovePeer string | OpGood string | OpBad string | OpUnreachable string | OpReadmit string

fun apply_op :: "int \<Rightarrow> peer_op \<Rightarrow> peer_net \<Rightarrow> peer_net" where
  "apply_op now (OpAddPeer e) n = snd (add_peer now e n)"
| "apply_op now (OpAddSeed e) n = snd (add_seed e n)"
| "apply_op now (OpAddCandidate e) n = snd (add_candidate now e n)"
| "apply_op now (OpRemoveCandidate e) n = snd (remove_candidate e n)"
| "apply_op now (OpPromote e) n = snd (promote_candidate now e n)"
| "apply_op now (OpRemovePeer e) n = snd (remove_peer e n)"
| "apply_op now (OpGood e) n = mark_peer_good e n"
| "apply_op now (OpBad e) n = mark_peer_bad now e n"
| "apply_op now (OpUnreachable e) n = mark_peer_unreachable now e n"
| "apply_op now (OpReadmit e) n = readmit_authenticated now e n"

definition run_ops :: "(int \<times> peer_op) list \<Rightarrow> peer_net \<Rightarrow> peer_net" where
  "run_ops = fold (\<lambda>(now, o'). apply_op now o')"

text \<open>The invariant of the tables.\<close>

definition net_ok :: "peer_net \<Rightarrow> bool" where
  "net_ok n \<longleftrightarrow> distinct (pe_peers n) \<and> distinct (pe_candidates n)
     \<and> (\<forall>e s. pe_score n e = Some s \<longrightarrow> kBanScore < s \<and> s \<le> kMaxScore)
     \<and> length (filter (\<lambda>p. p \<notin> pe_seeds n) (pe_peers n)) \<le> pe_max_peers n
     \<and> length (pe_candidates n) \<le> pe_max_candidates n \<and> pe_soft_banned n = {}"

lemmas kScores = kMaxScore_def kMinScore_def kBanScore_def

lemma ins_simps [simp]: "set (ins x xs) = insert x (set xs)" "distinct (ins x xs) = distinct xs" "length (ins x xs) \<le> Suc (length xs)"
  by (auto simp: ins_def)

lemma score_bounds: "net_ok n \<Longrightarrow> kBanScore < score_of n e \<and> score_of n e \<le> kMaxScore"
  by (auto simp: net_ok_def score_of_def kScores split: option.splits)

lemma removeAll_nonseeds: "length (filter P (removeAll e xs)) \<le> length (filter P xs)"
  by (induction xs) auto

lemma removeAll_length: "length (removeAll e xs) \<le> length xs"
  by (induction xs) (auto intro: le_SucI)

lemma removeAll_le [intro]: "length xs \<le> k \<Longrightarrow> length (removeAll e xs) \<le> k"
  using removeAll_length [of e xs] by linarith

lemma ins_le [intro]: "length xs < k \<Longrightarrow> length (ins e xs) \<le> k" "length xs < k \<Longrightarrow> length (filter P (ins e xs)) \<le> k"
  using ins_simps(3) [of e xs] length_filter_le [of P "ins e xs"] by linarith+

lemma drop_peer_ok: "net_ok n \<Longrightarrow> net_ok (drop_peer v n)"
  using removeAll_nonseeds [of "\<lambda>p. p \<notin> pe_seeds n" v "pe_peers n"]
  by (auto simp: net_ok_def drop_peer_def distinct_removeAll split: if_splits)

text \<open>What eviction keeps: everything except the evicted addresses, and never a seed.\<close>

lemma victim_no_seed: "snd (fold (victim_step n) ps (w, v)) \<in> insert v (- pe_seeds n)"
proof (induction ps arbitrary: w v)
  case (Cons p ps)
  show ?case using Cons.IH [of w v] Cons.IH [of "score_of n p" p] by (auto simp: victim_step_def)
qed simp

lemma evict_frame:
  "pe_seeds (evict_if_full n) = pe_seeds n" "pe_banned (evict_if_full n) = pe_banned n" "pe_max_peers (evict_if_full n) = pe_max_peers n"
  "pe_candidates (evict_if_full n) = pe_candidates n" "pe_soft_banned (evict_if_full n) = pe_soft_banned n"
  "pe_ban_seconds (evict_if_full n) = pe_ban_seconds n" "set (pe_peers (evict_if_full n)) \<subseteq> set (pe_peers n)"
  "set (pe_peers n) \<inter> pe_seeds n \<subseteq> set (pe_peers (evict_if_full n))" "net_ok n \<Longrightarrow> net_ok (evict_if_full n)"
proof (induction n rule: evict_if_full.induct)
  case (1 n)
  let ?go = "\<not> (length (pe_peers n) < pe_max_peers n \<or> pick_victim n = [])"
  have vs: "pick_victim n \<in> insert [] (- pe_seeds n)"
    unfolding pick_victim_def by (rule victim_no_seed)
  note s = evict_if_full.simps [of n]
  {
    case 1
    show ?case using "1.IH"(1) by (subst s) (auto simp: drop_peer_def)
  next
    case 2
    show ?case using "1.IH"(2) by (subst s) (auto simp: drop_peer_def)
  next
    case 3
    show ?case using "1.IH"(3) by (subst s) (auto simp: drop_peer_def)
  next
    case 4
    show ?case using "1.IH"(4) by (subst s) (auto simp: drop_peer_def)
  next
    case 5
    show ?case using "1.IH"(5) by (subst s) (auto simp: drop_peer_def)
  next
    case 6
    show ?case using "1.IH"(6) by (subst s) (auto simp: drop_peer_def)
  next
    case 7
    show ?case using "1.IH"(7) by (subst s) (auto simp: drop_peer_def)
  next
    case 8
    show ?case using "1.IH"(8) vs by (subst s) (auto simp: drop_peer_def)
  next
    case 9
    then show ?case using "1.IH"(9) drop_peer_ok by (subst s) auto
  }
qed


lemma add_peer_ok:
  assumes ok: "net_ok n"
  shows "net_ok (snd (add_peer now e n))"
proof -
  let ?n = "n\<lparr>pe_banned := (pe_banned n)(e := None)\<rparr>"
  have ok': "net_ok ?n" using ok by (simp add: net_ok_def)
  define m where "m = evict_if_full ?n"
  have m: "net_ok m" unfolding m_def by (rule evict_frame(9) [OF ok'])
  have c: "length (filter (\<lambda>p. p \<notin> pe_seeds m) (ins e (pe_peers m))) \<le> pe_max_peers m" if "length (pe_peers m) < pe_max_peers m"
    using that by blast
  have "net_ok (m\<lparr>pe_score := (pe_score m)(e \<mapsto> score_of m e), pe_candidates := removeAll e (pe_candidates m), pe_peers := ins e (pe_peers m)\<rparr>)"
    if "length (pe_peers m) < pe_max_peers m"
    using m c [OF that] score_bounds [OF m, of e] by (auto simp: net_ok_def distinct_removeAll split: if_splits)
  with ok ok' m show ?thesis by (simp add: add_peer_def Let_def m_def)
qed

lemma add_seed_ok: "net_ok n \<Longrightarrow> net_ok (snd (add_seed e n))"
proof -
  assume ok: "net_ok n"
  let ?s = "insert e (pe_seeds n)"
  have f: "length (filter (\<lambda>p. p \<notin> ?s) xs) \<le> length (filter (\<lambda>p. p \<notin> pe_seeds n) xs)" for xs
    by (induction xs) auto
  have i: "filter (\<lambda>p. p \<noteq> e \<and> p \<notin> pe_seeds n) (ins e xs) = filter (\<lambda>p. p \<noteq> e \<and> p \<notin> pe_seeds n) xs" for xs by (simp add: ins_def)
  show ?thesis using ok score_bounds [OF ok, of e] f [of "pe_peers n"]
    by (auto simp: add_seed_def Let_def net_ok_def i score_of_def split: if_splits intro: order_trans)
qed

lemma candidate_ok:
  "net_ok n \<Longrightarrow> net_ok (snd (add_candidate now e n))" "net_ok n \<Longrightarrow> net_ok (snd (remove_candidate e n))" "net_ok n \<Longrightarrow> net_ok (snd (remove_peer e n))"
  using removeAll_nonseeds [of "\<lambda>p. p \<notin> pe_seeds n" e "pe_peers n"]
  by (auto simp: add_candidate_def remove_candidate_def remove_peer_def net_ok_def distinct_removeAll)

lemma set_score_ok: "net_ok n \<Longrightarrow> kBanScore < s \<Longrightarrow> s \<le> kMaxScore \<Longrightarrow> net_ok (set_score e s n)"
  by (auto simp: net_ok_def set_score_def)

lemma net_ok_backoff [simp]: "net_ok (n\<lparr>pe_backoff := b\<rparr>) = net_ok n" "net_ok (n\<lparr>pe_banned := bb\<rparr>) = net_ok n"
  by (simp_all add: net_ok_def)

lemma mark_ok:
  assumes ok: "net_ok n"
  shows "net_ok (mark_peer_good e n)" and "net_ok (mark_peer_bad now e n)" and "net_ok (mark_peer_unreachable now e n)"
proof -
  note b = score_bounds [OF ok, of e]
  show "net_ok (mark_peer_good e n)" using ok b by (auto simp: mark_peer_good_def kScores intro!: set_score_ok)
  have "pe_soft_banned n = {}" using ok by (simp add: net_ok_def)
  then have "net_ok ((drop_peer e n)\<lparr>pe_banned := x, pe_soft_banned := pe_soft_banned n - {e}\<rparr>)" for x
    using drop_peer_ok [OF ok, of e] by (simp add: net_ok_def)
  then show "net_ok (mark_peer_bad now e n)" using ok b by (auto simp: mark_peer_bad_def Let_def kScores intro!: set_score_ok)
  show "net_ok (mark_peer_unreachable now e n)" using ok b by (auto simp: mark_peer_unreachable_def Let_def kScores intro!: set_score_ok)
qed

lemma score_of_upd [simp]:
  "score_of (n\<lparr>pe_backoff := a\<rparr>) e = score_of n e" "score_of (n\<lparr>pe_banned := b\<rparr>) e = score_of n e" "score_of (n\<lparr>pe_peers := q\<rparr>) e = score_of n e"
  by (simp_all add: score_of_def)

lemma readmit_ok:
  assumes ok: "net_ok n"
  shows "net_ok (readmit_authenticated now e n)"
proof -
  have sb: "pe_soft_banned n - {e} = pe_soft_banned n" using ok by (simp add: net_ok_def)
  let ?p = "if length (pe_peers n) < pe_max_peers n then ins e (pe_peers n) else pe_peers n"
  have c: "length (filter (\<lambda>p. p \<notin> pe_seeds n) ?p) \<le> pe_max_peers n"
    using ok by (auto simp: net_ok_def)
  have p: "net_ok (n\<lparr>pe_backoff := a, pe_soft_banned := pe_soft_banned n, pe_banned := b, pe_peers := ?p\<rparr>)" for a b
    using ok c by (auto simp: net_ok_def)
  have sc: "score_of (n\<lparr>pe_backoff := a, pe_soft_banned := x, pe_banned := b, pe_peers := q\<rparr>) e = score_of n e" for a x b q by (simp add: score_of_def)
  have "net_ok (set_score e (max 0 (score_of n e)) (n\<lparr>pe_backoff := a, pe_soft_banned := pe_soft_banned n, pe_banned := b, pe_peers := ?p\<rparr>))" for a b
    by (rule set_score_ok [OF p]) (use score_bounds [OF ok, of e] in \<open>auto simp: kScores\<close>)
  then show ?thesis using ok sb by (auto simp: readmit_authenticated_def Let_def sc split: if_splits)
qed

lemma promote_eq:
  "snd (promote_candidate now x n) =
     (let m = n\<lparr>pe_candidates := removeAll x (pe_candidates n)\<rparr> in if x \<in> set (pe_candidates n) then snd (add_peer now x m) else m)"
  by (auto simp: promote_candidate_def remove_candidate_def Let_def split: bool.splits)

lemma apply_op_ok: "net_ok n \<Longrightarrow> net_ok (apply_op now o' n)"
  using candidate_ok(2) [of n] by (cases o') (auto simp: add_peer_ok add_seed_ok candidate_ok mark_ok readmit_ok promote_eq remove_candidate_def Let_def)

text \<open>The seeds stay: no operation other than the explicit removal takes a seed out of the table.\<close>

lemma add_peer_seed:
  "e \<in> pe_seeds n \<Longrightarrow> e \<in> set (pe_peers n) \<Longrightarrow> e \<in> pe_seeds (snd (add_peer now x n)) \<and> e \<in> set (pe_peers (snd (add_peer now x n)))"
  using evict_frame(1,8) [of "n\<lparr>pe_banned := (pe_banned n)(x := None)\<rparr>"] by (auto simp: add_peer_def Let_def)

lemma apply_op_seed:
  assumes "e \<in> pe_seeds n" and "e \<in> set (pe_peers n)" and "o' \<noteq> OpRemovePeer e"
  shows "e \<in> pe_seeds (apply_op now o' n) \<and> e \<in> set (pe_peers (apply_op now o' n))"
proof (cases o')
  case (OpAddPeer x)
  then show ?thesis using assms add_peer_seed by simp
next
  case (OpPromote x)
  then show ?thesis using assms add_peer_seed by (simp add: promote_eq Let_def)
qed (use assms in \<open>auto simp: add_seed_def add_candidate_def remove_candidate_def remove_peer_def mark_peer_good_def mark_peer_bad_def
      mark_peer_unreachable_def readmit_authenticated_def Let_def set_score_def drop_peer_def split: if_splits\<close>)


text \<open>An address that is banned until \<open>T\<close>, and not in the table.\<close>

definition shut_out :: "string \<Rightarrow> int \<Rightarrow> peer_net \<Rightarrow> bool" where
  "shut_out e T n \<longleftrightarrow> e \<notin> set (pe_peers n) \<and> pe_banned n e = Some T \<and> pe_soft_banned n = {}"

lemma add_peer_shut_out: "shut_out e T n \<Longrightarrow> now < T \<Longrightarrow> shut_out e T (snd (add_peer now x n))"
  using evict_frame(2,5,7) [of "n\<lparr>pe_banned := (pe_banned n)(x := None)\<rparr>"]
  by (cases "x = e") (auto simp: add_peer_def Let_def shut_out_def banned_locked_def)

lemma apply_op_shut_out:
  assumes "shut_out e T n" and "now < T" and "o' \<noteq> OpAddSeed e"
  shows "shut_out e T (apply_op now o' n)"
proof (cases o')
  case (OpAddPeer x)
  then show ?thesis using assms add_peer_shut_out by simp
next
  case (OpPromote x)
  have "shut_out e T (n\<lparr>pe_candidates := c\<rparr>)" for c using assms(1) by (simp add: shut_out_def)
  then show ?thesis using OpPromote assms add_peer_shut_out by (simp add: promote_eq Let_def)
next
  case (OpReadmit x)
  then show ?thesis using assms by (cases "x = e") (auto simp: readmit_authenticated_def shut_out_def banned_locked_def Let_def set_score_def)
qed (use assms in \<open>auto simp: shut_out_def add_seed_def add_candidate_def remove_candidate_def remove_peer_def mark_peer_good_def mark_peer_bad_def
      mark_peer_unreachable_def Let_def set_score_def drop_peer_def split: if_splits\<close>)

text \<open>
  Claim C30. A ban is enforced. When the misbehaviour of an ordinary peer brings its score down to the
  ban level, it leaves the table, and whatever operations follow before the ban expires, announcements,
  candidates, handshakes and evictions in any order, it is not admitted again, unless the operator
  configures it as a seed.
\<close>

theorem ban_enforced:
  assumes "net_ok n" and "e \<in> set (pe_peers n)" and "e \<notin> pe_seeds n" and "score_of n e - 1 \<le> kBanScore"
    and "\<forall>(now, o')\<in>set ops. now < t + pe_ban_seconds n \<and> o' \<noteq> OpAddSeed e"
  shows "e \<notin> set (pe_peers (run_ops ops (mark_peer_bad t e n)))"
proof -
  have "shut_out e (t + pe_ban_seconds n) (mark_peer_bad t e n)"
  proof -
    have "\<not> kBanScore < max kMinScore (score_of n e - 1)" using assms(4) by (simp add: kScores)
    then show ?thesis using assms(1-3) by (simp add: mark_peer_bad_def Let_def shut_out_def drop_peer_def net_ok_def)
  qed
  then have "shut_out e (t + pe_ban_seconds n) (run_ops ops (mark_peer_bad t e n))"
    using assms(5)
  proof (induction ops arbitrary: n rule: rev_induct)
    case (snoc x ops)
    then show ?case using apply_op_shut_out by (cases x) (auto simp: run_ops_def)
  qed (simp add: run_ops_def)
  then show ?thesis by (simp add: shut_out_def)
qed

text \<open>
  Claim C31. The peer tables stay within their bounds, for the limits in force: the daemon sets them once, at the start, when
  at most seeds are stored, and they are no operation of a sequence. Whatever sequence of operations runs, the scores of
  the stored addresses stay above the ban level and at most at the maximum, the table has at most
  \<^verbatim>\<open>max_peers\<close> peers that are no seeds and the candidate set at most \<^verbatim>\<open>max_candidates\<close> addresses, without
  repetitions, and a seed in the table stays there unless it is removed explicitly.
\<close>

theorem peer_tables_bounded:
  assumes "net_ok n"
  shows "net_ok (run_ops ops n)
    \<and> (\<forall>e. e \<in> pe_seeds n \<and> e \<in> set (pe_peers n) \<and> OpRemovePeer e \<notin> snd ` set ops \<longrightarrow> e \<in> set (pe_peers (run_ops ops n)))"
proof -
  have "net_ok (run_ops ops n)"
    using assms by (induction ops rule: rev_induct) (auto simp: run_ops_def apply_op_ok)
  moreover have "e \<in> pe_seeds (run_ops ops n) \<and> e \<in> set (pe_peers (run_ops ops n))"
    if "e \<in> pe_seeds n" "e \<in> set (pe_peers n)" "OpRemovePeer e \<notin> snd ` set ops" for e
    using that
  proof (induction ops rule: rev_induct)
    case (snoc x ops)
    then have "e \<in> pe_seeds (run_ops ops n)" "e \<in> set (pe_peers (run_ops ops n))" "snd x \<noteq> OpRemovePeer e" by auto
    from apply_op_seed [OF this, of "fst x"] show ?case by (cases x) (simp add: run_ops_def)
  qed (simp add: run_ops_def)
  ultimately show ?thesis by blast
qed


definition demo_net :: peer_net where
  "demo_net = PeerNetwork_init\<lparr>pe_peers := [''10.0.0.1:1'', ''10.0.0.2:1''], pe_score := [''10.0.0.1:1'' \<mapsto> -4, ''10.0.0.2:1'' \<mapsto> 3], pe_seeds := {''10.0.0.2:1''}\<rparr>"

lemma demo_net_ok: "net_ok demo_net"
  by (auto simp: net_ok_def demo_net_def PeerNetwork_init_def kScores split: if_splits)

theorem ban_enforced_witness:
  "''10.0.0.1:1'' \<in> set (pe_peers demo_net)
     \<and> ''10.0.0.1:1'' \<notin> set (pe_peers (run_ops [(5, OpAddPeer ''10.0.0.1:1''), (3599, OpReadmit ''10.0.0.1:1'')] (mark_peer_bad 0 ''10.0.0.1:1'' demo_net)))"
  by (rule conjI, simp add: demo_net_def, rule ban_enforced [OF demo_net_ok])
    (simp_all add: demo_net_def PeerNetwork_init_def score_of_def kBanScore_def)

theorem peer_tables_bounded_witness:
  "net_ok demo_net \<and> net_ok (run_ops [(5, OpAddPeer ''10.0.0.3:1''), (6, OpBad ''10.0.0.2:1'')] demo_net)
     \<and> ''10.0.0.2:1'' \<in> set (pe_peers (run_ops [(5, OpAddPeer ''10.0.0.3:1''), (6, OpBad ''10.0.0.2:1'')] demo_net))"
  using demo_net_ok peer_tables_bounded [OF demo_net_ok, of "[(5, OpAddPeer ''10.0.0.3:1''), (6, OpBad ''10.0.0.2:1'')]"]
  by (simp add: demo_net_def)

text \<open>
  A full table evicts the peer with the lowest score, the first in the order of addresses among those,
  and never a seed.
\<close>

lemma victim_step_pair:
  "victim_step n p (w, v) = (if p \<in> pe_seeds n then (w, v) else if score_of n p < w \<or> score_of n p = w \<and> p < v then (score_of n p, p) else (w, v))"
  by (simp add: victim_step_def)

lemma victim_minimal:
  assumes "\<forall>p\<in>set ps. p \<noteq> []" and "\<forall>p\<in>set ps. score_of n p \<le> kMaxScore" and "v = [] \<and> w = kMaxScore + 1 \<or> v \<noteq> [] \<and> w = score_of n v"
    and "fold (victim_step n) ps (w, v) = (w', v')"
  shows "(v' = [] \<and> v = [] \<and> set ps \<subseteq> pe_seeds n) \<or>
    (v' \<noteq> [] \<and> w' = score_of n v' \<and> (v \<noteq> [] \<longrightarrow> (w', v') \<le> (w, v)) \<and> (\<forall>p\<in>set ps - pe_seeds n. (w', v') \<le> (score_of n p, p)))"
  using assms
proof (induction ps arbitrary: w v)
  case (Cons p ps)
  show ?case
  proof (cases "p \<in> pe_seeds n")
    case True
    then have "fold (victim_step n) ps (w, v) = (w', v')" using Cons.prems(4) by (simp add: victim_step_pair)
    from Cons.IH [OF _ _ Cons.prems(3) this] show ?thesis using Cons.prems(1,2) True by auto
  next
    case ns: False
    show ?thesis
    proof (cases "score_of n p < w \<or> score_of n p = w \<and> p < v")
      case True
      then have f: "fold (victim_step n) ps (score_of n p, p) = (w', v')" using Cons.prems(4) ns by (simp add: victim_step_pair)
      have "(v' \<noteq> [] \<and> w' = score_of n v' \<and> (w', v') \<le> (score_of n p, p) \<and> (\<forall>p\<in>set ps - pe_seeds n. (w', v') \<le> (score_of n p, p)))"
        using Cons.IH [OF _ _ _ f] Cons.prems(1,2) by auto
      moreover have "(score_of n p, p) \<le> (w, v)" using True by (auto simp: less_eq_prod_def)
      ultimately show ?thesis by (auto intro: order_trans)
    next
      case False
      then have "victim_step n p (w, v) = (w, v)" by (auto simp: victim_step_pair)
      then have f: "fold (victim_step n) ps (w, v) = (w', v')" using Cons.prems(4) by simp
      have "v \<noteq> []" using False Cons.prems(2,3) by auto
      then have "(w, v) \<le> (score_of n p, p)" using False by (auto simp: less_eq_prod_def not_less)
      then show ?thesis using Cons.IH [OF _ _ Cons.prems(3) f] Cons.prems(1,2) \<open>v \<noteq> []\<close> by (auto intro: order_trans)
    qed
  qed
qed auto

theorem eviction_takes_worst:
  assumes "net_ok n" and "[] \<notin> set (pe_peers n)" and "pick_victim n = v"
  shows "if set (pe_peers n) \<subseteq> pe_seeds n then v = []
    else v \<in> set (pe_peers n) - pe_seeds n \<and> (\<forall>p\<in>set (pe_peers n) - pe_seeds n. (score_of n v, v) \<le> (score_of n p, p))"
proof -
  obtain w' where f: "fold (victim_step n) (pe_peers n) (kMaxScore + 1, []) = (w', v)" using assms(3) by (cases "fold (victim_step n) (pe_peers n) (kMaxScore + 1, [])") (simp add: pick_victim_def)
  have v: "v \<in> insert [] (set (pe_peers n))" "v \<in> insert [] (- pe_seeds n)"
    using victim_is_peer [of n "pe_peers n" "kMaxScore + 1" "[]"] victim_no_seed [of n "pe_peers n" "kMaxScore + 1" "[]"] f by auto
  have m: "(v = [] \<and> set (pe_peers n) \<subseteq> pe_seeds n) \<or>
    (v \<noteq> [] \<and> w' = score_of n v \<and> (\<forall>p\<in>set (pe_peers n) - pe_seeds n. (w', v) \<le> (score_of n p, p)))"
    using victim_minimal [OF _ _ _ f] score_bounds [OF assms(1)] assms(2) by auto
  show ?thesis using m v by auto
qed

end
