(* ===== verification/Node_Config.thy ===== *)
theory Node_Config
  imports Config_Text Fast_Path "HOL-Library.Monad_Syntax"
begin

text \<open>
  The configuration of a node (\<^verbatim>\<open>config.hpp\<close>, \<^verbatim>\<open>config.cpp\<close>): the network profiles, the TOML and genesis loaders,
  the command line with its environment, and the final validation. Files and environment variables are
  maps from names to texts. The lemmas of \<open>Node_Startup\<close> show what holds of every configuration that the
  start-up accepts.
\<close>

section \<open>Configuration data\<close>

datatype network_mode = Testnet | Mainnet | Regtest | Fast

text \<open>\<^verbatim>\<open>ChainConfig\<close>: the fields that the chain reads and the descriptive ones.\<close>

record net_config = chain_config +
  network_mode_name :: string
  network_name :: string
  difficulty_window :: u32
  pow_profile :: string
  confirmations_policy :: u32
  economic_security :: string
  require_privacy_pool :: bool
  bootstrap_peers :: "string list"

record node_config =
  nd_mode :: network_mode
  nd_chain :: net_config
  local_rpc_port :: "16 word"
  lan_rpc_port :: "16 word"
  p2p_port :: "16 word"
  public_rpc_port :: "16 word"
  public_rpc_bind :: string
  enable_public_rpc :: bool
  enable_auto_mine :: bool
  auto_mine_interval_sec :: u32
  auto_mine_reward :: string
  nd_bootstrap_peers :: "string list"
  advertised_p2p :: string
  tor_socks_proxy :: string
  nd_onion_only :: bool
  p2p_bind :: string
  nd_dandelion :: bool
  max_peers :: nat
  data_dir :: string
  config_path :: string
  genesis_path :: string

definition kTestnetEasyDifficultyTarget :: u64 where "kTestnetEasyDifficultyTarget = 0x0000FFFFFFFFFFFF"
definition kTestnetHardDifficultyTarget :: u64 where "kTestnetHardDifficultyTarget = 0x000000FFFFFFFFFF"
definition kTestnetNetworkId :: string where "kTestnetNetworkId = ''ADDITION_TESTNET_V1''"
definition kTestnetNetworkName :: string where "kTestnetNetworkName = ''addition-testnet''"
definition kMainnetNetworkName :: string where "kMainnetNetworkName = ''addition-mainnet''"
definition kRegtestNetworkName :: string where "kRegtestNetworkName = ''addition-regtest''"
definition kFastNetworkName :: string where "kFastNetworkName = ''addition-fast''"
definition kTestnetGenesisTimestamp :: u64 where "kTestnetGenesisTimestamp = 1763000000"
definition kMainnetGenesisTimestamp :: u64 where "kMainnetGenesisTimestamp = 1770000000"
definition kRegtestGenesisTimestamp :: u64 where "kRegtestGenesisTimestamp = 1765000000"
definition kFastGenesisTimestamp :: u64 where "kFastGenesisTimestamp = 1780000000"
definition kRegtestMinDifficultyTarget :: u64 where "kRegtestMinDifficultyTarget = 0xFFFFFFFFFFFFFFFF"
definition kMainnetMinDifficultyTarget :: u64 where "kMainnetMinDifficultyTarget = 0x0000000000FFFFFF"
definition kMainnetTargetBlockTimeSec :: u32 where "kMainnetTargetBlockTimeSec = 20"
definition kOperatorPublicP2p :: string where "kOperatorPublicP2p = ''34.27.30.115:28545''"
definition kDefaultMainnetSeedFile :: string where "kDefaultMainnetSeedFile = ''seeds-mainnet.txt''"

text \<open>The member initialisers of \<^verbatim>\<open>ChainConfig\<close> and \<^verbatim>\<open>NodeConfig\<close>.\<close>

definition chain_config_init :: net_config where
  "chain_config_init =
     \<lparr>network_id = kTestnetNetworkId, genesis_timestamp = 1763000000, max_supply = 50000000, block_reward = 50, target_block_time_sec = 60,
      pow_alg = Sha3_512, initial_difficulty_target = kTestnetEasyDifficultyTarget, min_difficulty_target = kTestnetHardDifficultyTarget,
      max_difficulty_target = kTestnetEasyDifficultyTarget, retarget_window = 30, difficulty_fork_height = U64_MAX, lwma_window = 60,
      legacy_min_difficulty_target = 0, halving_interval = 210000, subsidy_floor = 0, require_pq_signatures = True,
      allow_zero_reward_blocks = True, min_fee = 0, staking_activation_height = U64_MAX, stake_min_amount = 1000, stake_maturity = 256,
      stake_unbond_delay = 1440, stake_votes_per_block = 5, stake_vote_quorum = 3, stake_min_live_tickets = 5, stake_reward_bps = 3000,
      max_block_weight = 2 * 1024 * 1024, shielded_enabled = False,
      network_mode_name = ''testnet'', network_name = ''addition-testnet'', difficulty_window = 120, pow_profile = ''shared-testnet'',
      confirmations_policy = 2, economic_security = ''none'', require_privacy_pool = True, bootstrap_peers = [''127.0.0.1:28545'']\<rparr>"

definition node_config_init :: node_config where
  "node_config_init =
     \<lparr>nd_mode = Testnet, nd_chain = chain_config_init, local_rpc_port = 8545, lan_rpc_port = 18545, p2p_port = 28545, public_rpc_port = 38545,
      public_rpc_bind = ''0.0.0.0'', enable_public_rpc = False, enable_auto_mine = False, auto_mine_interval_sec = 60,
      auto_mine_reward = ''miner1'', nd_bootstrap_peers = [''127.0.0.1:28545''], advertised_p2p = [], tor_socks_proxy = [],
      nd_onion_only = False, p2p_bind = ''0.0.0.0'', nd_dandelion = False, max_peers = 125, data_dir = ''data'', config_path = [],
      genesis_path = []\<rparr>"

section \<open>Profiles\<close>

definition apply_regtest_profile :: "net_config \<Rightarrow> net_config" where
  "apply_regtest_profile c = c\<lparr>pow_profile := ''regtest'', pow_alg := Sha3_512, initial_difficulty_target := kRegtestMinDifficultyTarget,
     min_difficulty_target := kRegtestMinDifficultyTarget, max_difficulty_target := kRegtestMinDifficultyTarget,
     confirmations_policy := 2, economic_security := ''none''\<rparr>"

definition apply_fast_profile :: "net_config \<Rightarrow> net_config" where
  "apply_fast_profile c = c\<lparr>pow_profile := ''fast-scaffold'', pow_alg := Sha3_512, initial_difficulty_target := kTestnetEasyDifficultyTarget,
     min_difficulty_target := kTestnetHardDifficultyTarget, max_difficulty_target := kTestnetEasyDifficultyTarget,
     target_block_time_sec := 1, confirmations_policy := 2, economic_security := ''none''\<rparr>"

definition testnet_chain_config :: net_config where
  "testnet_chain_config = chain_config_init\<lparr>network_mode_name := ''testnet'', network_name := kTestnetNetworkName, network_id := kTestnetNetworkId,
     genesis_timestamp := kTestnetGenesisTimestamp, pow_profile := ''shared-testnet'', confirmations_policy := 2,
     economic_security := ''none'', bootstrap_peers := [''127.0.0.1:28545'']\<rparr>"

definition regtest_chain_config :: net_config where
  "regtest_chain_config = (apply_regtest_profile (testnet_chain_config\<lparr>network_mode_name := ''regtest'', network_name := kRegtestNetworkName,
     network_id := kRegtestNetworkId, genesis_timestamp := kRegtestGenesisTimestamp\<rparr>))\<lparr>bootstrap_peers := [''127.0.0.1:28545'']\<rparr>"

text \<open>\<open>seeds\<close> is what \<^verbatim>\<open>mainnet_default_seeds\<close> reads from the seed file.\<close>

definition mainnet_chain_config :: "string list \<Rightarrow> net_config" where
  "mainnet_chain_config seeds = chain_config_init\<lparr>network_mode_name := ''mainnet'', network_name := kMainnetNetworkName, network_id := kMainnetNetworkId,
     genesis_timestamp := kMainnetGenesisTimestamp, max_supply := kMainnetMaxSupply, block_reward := kMainnetBlockReward,
     target_block_time_sec := kMainnetTargetBlockTimeSec, difficulty_window := 120, pow_alg := MemoryHard,
     initial_difficulty_target := kTestnetHardDifficultyTarget, min_difficulty_target := kMainnetMinDifficultyTarget,
     max_difficulty_target := kTestnetHardDifficultyTarget, legacy_min_difficulty_target := kTestnetHardDifficultyTarget,
     retarget_window := 30, difficulty_fork_height := 0, lwma_window := 180, halving_interval := kMainnetHalvingInterval,
     subsidy_floor := kMainnetSubsidyFloor, stake_maturity := 768, stake_unbond_delay := 4320,
     staking_activation_height := kMainnetStakingActivationHeight, require_pq_signatures := True, require_privacy_pool := True,
     allow_zero_reward_blocks := True, min_fee := 1, pow_profile := ''mainnet'', confirmations_policy := 2,
     economic_security := ''none'', bootstrap_peers := seeds\<rparr>"

definition fast_chain_config :: net_config where
  "fast_chain_config = (apply_fast_profile (chain_config_init\<lparr>network_mode_name := ''fast'', network_name := kFastNetworkName, network_id := kFastNetworkId,
     genesis_timestamp := kFastGenesisTimestamp, max_supply := 50000000, block_reward := 50, difficulty_window := 120, retarget_window := 30,
     halving_interval := 210000, require_pq_signatures := True, require_privacy_pool := True, allow_zero_reward_blocks := True,
     min_fee := 0\<rparr>))\<lparr>bootstrap_peers := [''127.0.0.1:28547'']\<rparr>"

definition profile_for_mode :: "string list \<Rightarrow> network_mode \<Rightarrow> net_config" where
  "profile_for_mode seeds m =
     (case m of Testnet \<Rightarrow> testnet_chain_config | Mainnet \<Rightarrow> mainnet_chain_config seeds | Regtest \<Rightarrow> regtest_chain_config | Fast \<Rightarrow> fast_chain_config)"

definition default_node_config :: node_config where
  "default_node_config = node_config_init\<lparr>nd_mode := Testnet, nd_chain := testnet_chain_config, nd_bootstrap_peers := bootstrap_peers testnet_chain_config\<rparr>"

definition mainnet_node_config :: "string list \<Rightarrow> node_config" where
  "mainnet_node_config seeds = node_config_init\<lparr>nd_mode := Mainnet, nd_chain := mainnet_chain_config seeds, local_rpc_port := 8546,
     lan_rpc_port := 18546, p2p_port := 28546, public_rpc_port := 38546, public_rpc_bind := ''0.0.0.0'', enable_public_rpc := False,
     enable_auto_mine := False, nd_bootstrap_peers := bootstrap_peers (mainnet_chain_config seeds), data_dir := ''data-mainnet''\<rparr>"

definition regtest_node_config :: node_config where
  "regtest_node_config = node_config_init\<lparr>nd_mode := Regtest, nd_chain := regtest_chain_config, local_rpc_port := 8545,
     lan_rpc_port := 18545, p2p_port := 28545, public_rpc_port := 38545, public_rpc_bind := ''127.0.0.1'', enable_public_rpc := False,
     enable_auto_mine := False, nd_bootstrap_peers := bootstrap_peers regtest_chain_config, data_dir := ''data-regtest''\<rparr>"

definition fast_node_config :: node_config where
  "fast_node_config = node_config_init\<lparr>nd_mode := Fast, nd_chain := fast_chain_config, local_rpc_port := 8547,
     lan_rpc_port := 18547, p2p_port := 28547, public_rpc_port := 38547, public_rpc_bind := ''127.0.0.1'', enable_public_rpc := False,
     enable_auto_mine := False, nd_bootstrap_peers := bootstrap_peers fast_chain_config, data_dir := ''data-fast''\<rparr>"

definition apply_network_profile_chain :: "string list \<Rightarrow> network_mode \<Rightarrow> net_config \<Rightarrow> net_config" where
  "apply_network_profile_chain seeds m c =
     (let p = profile_for_mode seeds m in
      c\<lparr>network_mode_name := network_mode_name p, network_name := network_name p, network_id := network_id p, pow_alg := pow_alg p,
        genesis_timestamp := genesis_timestamp p, initial_difficulty_target := initial_difficulty_target p,
        min_difficulty_target := min_difficulty_target p, max_difficulty_target := max_difficulty_target p, pow_profile := pow_profile p,
        confirmations_policy := confirmations_policy p, economic_security := economic_security p, retarget_window := retarget_window p,
        difficulty_fork_height := difficulty_fork_height p, lwma_window := lwma_window p,
        legacy_min_difficulty_target := legacy_min_difficulty_target p, target_block_time_sec := target_block_time_sec p\<rparr>)"

definition apply_network_mode :: "string list \<Rightarrow> network_mode \<Rightarrow> node_config \<Rightarrow> node_config" where
  "apply_network_mode seeds m cfg = cfg\<lparr>nd_mode := m, nd_chain := apply_network_profile_chain seeds m (nd_chain cfg)\<rparr>"

definition parse_pow_algorithm :: "string \<Rightarrow> pow_algorithm option" where
  "parse_pow_algorithm s =
     (let v = trim_copy s in
      if v = ''sha3_512'' \<or> v = ''sha3-512'' \<or> v = ''sha3'' then Some Sha3_512
      else if v = ''memory_hard'' \<or> v = ''memory-hard'' then Some MemoryHard
      else None)"

definition parse_network_mode :: "string \<Rightarrow> network_mode option" where
  "parse_network_mode s =
     (let v = trim_copy s in
      if v = ''testnet'' \<or> v = ''addition-testnet'' then Some Testnet
      else if v = ''regtest'' \<or> v = ''addition-regtest'' then Some Regtest
      else if v = ''mainnet'' \<or> v = ''addition-mainnet'' then Some Mainnet
      else if v = ''fast'' \<or> v = ''addition-fast'' then Some Fast
      else None)"

section \<open>Keys\<close>

text \<open>A result with the updated configuration; an error text may be empty.\<close>

definition set_num :: "(u64 \<Rightarrow> net_config \<Rightarrow> net_config) \<Rightarrow> string \<Rightarrow> net_config \<Rightarrow> bool \<times> net_config" where
  "set_num f v c = (case parse_u64 v of None \<Rightarrow> (False, c) | Some n \<Rightarrow> (True, f n c))"

definition set_num_in :: "u64 \<Rightarrow> u64 \<Rightarrow> (u64 \<Rightarrow> net_config \<Rightarrow> net_config) \<Rightarrow> string \<Rightarrow> net_config \<Rightarrow> bool \<times> net_config" where
  "set_num_in lo hi f v c =
     (case parse_u64 v of None \<Rightarrow> (False, c) | Some n \<Rightarrow> if lo \<le> n \<and> n \<le> hi then (True, f n c) else (False, c))"

text \<open>\<^verbatim>\<open>apply_staking_key\<close>: \<open>None\<close> for a key that is none of its own.\<close>

definition apply_staking_key :: "net_config \<Rightarrow> string \<Rightarrow> string \<Rightarrow> (bool \<times> net_config) option" where
  "apply_staking_key c k v =
     (if k = ''shielded_enabled'' then
        Some (if v = ''1'' \<or> v = ''true'' then (True, c\<lparr>shielded_enabled := True\<rparr>)
              else if v = ''0'' \<or> v = ''false'' then (True, c\<lparr>shielded_enabled := False\<rparr>)
              else (False, c))
      else if k = ''staking_activation_height'' then Some (set_num (\<lambda>n c. c\<lparr>staking_activation_height := n\<rparr>) v c)
      else if k = ''stake_min_amount'' then Some (set_num_in 1 U64_MAX (\<lambda>n c. c\<lparr>stake_min_amount := n\<rparr>) v c)
      else if k = ''stake_maturity'' then Some (set_num_in 1 1000000 (\<lambda>n c. c\<lparr>stake_maturity := n\<rparr>) v c)
      else if k = ''stake_unbond_delay'' then Some (set_num_in 0 1000000 (\<lambda>n c. c\<lparr>stake_unbond_delay := n\<rparr>) v c)
      else if k = ''stake_votes_per_block'' then Some (set_num_in 1 64 (\<lambda>n c. c\<lparr>stake_votes_per_block := ucast n\<rparr>) v c)
      else if k = ''stake_vote_quorum'' then Some (set_num_in 1 64 (\<lambda>n c. c\<lparr>stake_vote_quorum := ucast n\<rparr>) v c)
      else if k = ''stake_min_live_tickets'' then Some (set_num_in 1 U64_MAX (\<lambda>n c. c\<lparr>stake_min_live_tickets := n\<rparr>) v c)
      else if k = ''stake_reward_bps'' then Some (set_num_in 0 10000 (\<lambda>n c. c\<lparr>stake_reward_bps := ucast n\<rparr>) v c)
      else None)"

text \<open>The keys of a chain parameter that the TOML file and the genesis file share; \<open>None\<close> for another key.\<close>

definition apply_common_key :: "net_config \<Rightarrow> string \<Rightarrow> string \<Rightarrow> (bool \<times> net_config) option" where
  "apply_common_key c k v =
     (if k = ''genesis_timestamp'' then Some (set_num (\<lambda>n c. c\<lparr>genesis_timestamp := n\<rparr>) v c)
      else if k = ''max_supply'' then Some (set_num (\<lambda>n c. c\<lparr>max_supply := n\<rparr>) v c)
      else if k = ''block_reward'' then Some (set_num (\<lambda>n c. c\<lparr>block_reward := n\<rparr>) v c)
      else if k = ''tail_emission_reward'' then Some (parse_u64 v = Some 0, c)
      else case apply_staking_key c k v of
        Some r \<Rightarrow> Some r
      | None \<Rightarrow>
          if k = ''min_fee'' then Some (set_num (\<lambda>n c. c\<lparr>min_fee := n\<rparr>) v c)
          else if k = ''target_block_time_sec'' then Some (set_num_in 1 86400 (\<lambda>n c. c\<lparr>target_block_time_sec := ucast n\<rparr>) v c)
          else if k = ''subsidy_floor'' then Some (set_num (\<lambda>n c. c\<lparr>subsidy_floor := n\<rparr>) v c)
          else if k = ''halving_interval'' then Some (set_num_in 1 0xFFFFFFFF (\<lambda>n c. c\<lparr>halving_interval := ucast n\<rparr>) v c)
          else if k = ''initial_difficulty_target'' then Some (set_num (\<lambda>n c. c\<lparr>initial_difficulty_target := n\<rparr>) v c)
          else if k = ''min_difficulty_target'' then Some (set_num (\<lambda>n c. c\<lparr>min_difficulty_target := n\<rparr>) v c)
          else if k = ''max_difficulty_target'' then Some (set_num (\<lambda>n c. c\<lparr>max_difficulty_target := n\<rparr>) v c)
          else if k = ''retarget_window'' then Some (set_num_in 1 0xFFFFFFFF (\<lambda>n c. c\<lparr>retarget_window := ucast n\<rparr>) v c)
          else if k = ''difficulty_fork_height'' then Some (set_num (\<lambda>n c. c\<lparr>difficulty_fork_height := n\<rparr>) v c)
          else if k = ''lwma_window'' then Some (set_num_in 2 1000 (\<lambda>n c. c\<lparr>lwma_window := ucast n\<rparr>) v c)
          else None)"

text \<open>The chain keys that only the TOML file has.\<close>

definition apply_toml_chain_key :: "net_config \<Rightarrow> string \<Rightarrow> string \<Rightarrow> (bool \<times> net_config) option" where
  "apply_toml_chain_key c k v =
     (if k = ''max_block_weight'' then Some (set_num_in 65536 (3 * 1024 * 1024 - 65536) (\<lambda>n c. c\<lparr>max_block_weight := n\<rparr>) v c)
      else if k = ''pow_profile'' then Some (True, c\<lparr>pow_profile := v\<rparr>)
      else if k = ''confirmations_policy'' then Some (set_num_in 1 0xFFFFFFFF (\<lambda>n c. c\<lparr>confirmations_policy := ucast n\<rparr>) v c)
      else if k = ''economic_security'' then Some (True, c\<lparr>economic_security := v\<rparr>)
      else if k = ''comment'' then Some (True, c)
      else apply_common_key c k v)"

definition set_port :: "('a::len word \<Rightarrow> node_config \<Rightarrow> node_config) \<Rightarrow> string \<Rightarrow> node_config \<Rightarrow> unit res \<times> node_config" where
  "set_port f v cfg = (case parse_u16 v of None \<Rightarrow> (Inl [], cfg) | Some n \<Rightarrow> (Inr (), f (ucast n) cfg))"

definition set_flag :: "(bool \<Rightarrow> node_config \<Rightarrow> node_config) \<Rightarrow> string \<Rightarrow> node_config \<Rightarrow> unit res \<times> node_config" where
  "set_flag f v cfg = (case parse_bool v of None \<Rightarrow> (Inl [], cfg) | Some b \<Rightarrow> (Inr (), f b cfg))"

text \<open>\<^verbatim>\<open>full\<close> with the prefix \<^verbatim>\<open>chain.\<close> removed.\<close>

definition chain_key :: "string \<Rightarrow> string" where
  "chain_key full = (if starts_with ''chain.'' full then drop 6 full else full)"

text \<open>The keys whose values need more than one step.\<close>

definition kv_network :: "string list \<Rightarrow> string \<Rightarrow> node_config \<Rightarrow> unit res \<times> node_config" where
  "kv_network seeds v cfg =
     (case parse_network_mode v of
        None \<Rightarrow> (Inl (''invalid network value: '' @ v), cfg)
      | Some m \<Rightarrow> (Inr (), apply_network_mode seeds m cfg))"

definition kv_peers :: "string \<Rightarrow> node_config \<Rightarrow> unit res \<times> node_config" where
  "kv_peers raw cfg =
     (case parse_string_array raw of
        None \<Rightarrow> (Inl ''invalid bootstrap_peers array'', cfg)
      | Some ps \<Rightarrow>
          (case find (\<lambda>p. \<not> is_peer_endpoint p) ps of
             Some p \<Rightarrow> (Inl (''bootstrap_peers must be IPv4 or v3 .onion host:port (got '' @ p @ '')''), cfg)
           | None \<Rightarrow> (Inr (), cfg\<lparr>nd_bootstrap_peers := ps, nd_chain := (nd_chain cfg)\<lparr>bootstrap_peers := ps\<rparr>\<rparr>)))"

definition kv_proxy :: "string \<Rightarrow> node_config \<Rightarrow> unit res \<times> node_config" where
  "kv_proxy v cfg =
     (if v \<noteq> [] \<and> \<not> is_ipv4_endpoint v then (Inl ''tor_socks_proxy must be IPv4 host:port'', cfg)
      else (Inr (), cfg\<lparr>tor_socks_proxy := v\<rparr>))"

definition kv_advertised :: "string \<Rightarrow> node_config \<Rightarrow> unit res \<times> node_config" where
  "kv_advertised v cfg =
     (if v = [] then (Inr (), cfg\<lparr>advertised_p2p := []\<rparr>)
      else case parse_advertised_p2p v of Inl e \<Rightarrow> (Inl e, cfg) | Inr a \<Rightarrow> (Inr (), cfg\<lparr>advertised_p2p := a\<rparr>))"

definition kv_interval :: "string \<Rightarrow> node_config \<Rightarrow> unit res \<times> node_config" where
  "kv_interval v cfg =
     (case parse_u64 v of
        None \<Rightarrow> (Inl ''invalid auto_mine_interval_sec (1-86400)'', cfg)
      | Some n \<Rightarrow> if n = 0 \<or> n > 86400 then (Inl ''invalid auto_mine_interval_sec (1-86400)'', cfg)
                  else (Inr (), cfg\<lparr>auto_mine_interval_sec := ucast n\<rparr>))"

definition kv_reward :: "string \<Rightarrow> node_config \<Rightarrow> unit res \<times> node_config" where
  "kv_reward v cfg =
     (if v = [] then (Inl ''auto_mine_reward must not be empty'', cfg) else (Inr (), cfg\<lparr>auto_mine_reward := v\<rparr>))"

definition kv_pow :: "string \<Rightarrow> node_config \<Rightarrow> unit res \<times> node_config" where
  "kv_pow v cfg =
     (case parse_pow_algorithm v of
        None \<Rightarrow> (Inl ''invalid pow_algorithm (use sha3_512 or memory_hard)'', cfg\<lparr>nd_chain := (nd_chain cfg)\<lparr>pow_alg := Sha3_512\<rparr>\<rparr>)
      | Some a \<Rightarrow> (Inr (), cfg\<lparr>nd_chain := (nd_chain cfg)\<lparr>pow_alg := a\<rparr>\<rparr>))"

definition kv_chain :: "string \<Rightarrow> string \<Rightarrow> node_config \<Rightarrow> unit res \<times> node_config" where
  "kv_chain full v cfg =
     (case apply_toml_chain_key (nd_chain cfg) (chain_key full) v of
        None \<Rightarrow> (Inl (''unknown config key: '' @ full), cfg)
      | Some (ok, c) \<Rightarrow> (if ok then Inr () else Inl [], cfg\<lparr>nd_chain := c\<rparr>))"

definition apply_kv :: "string list \<Rightarrow> string \<Rightarrow> string \<Rightarrow> string \<Rightarrow> node_config \<Rightarrow> unit res \<times> node_config" where
  "apply_kv seeds table key raw cfg =
     (let full = (if table = [] then key else table @ ''.'' @ key);
          v = (case parse_quoted raw of Some t \<Rightarrow> t | None \<Rightarrow> raw);
          one_of = (\<lambda>a b. full = a \<or> full = b) in
      if full = ''network'' then kv_network seeds v cfg
      else if one_of ''network_name'' ''chain.network_name'' then (Inr (), cfg\<lparr>nd_chain := (nd_chain cfg)\<lparr>network_name := v\<rparr>\<rparr>)
      else if one_of ''network_id'' ''chain.network_id'' then (Inr (), cfg\<lparr>nd_chain := (nd_chain cfg)\<lparr>network_id := v\<rparr>\<rparr>)
      else if full = ''data_dir'' then (Inr (), cfg\<lparr>data_dir := v\<rparr>)
      else if one_of ''genesis_file'' ''chain.genesis_file'' then (Inr (), cfg\<lparr>genesis_path := v\<rparr>)
      else if one_of ''bootstrap_peers'' ''chain.bootstrap_peers'' then kv_peers raw cfg
      else if one_of ''tor_socks_proxy'' ''tor.socks_proxy'' then kv_proxy v cfg
      else if one_of ''onion_only'' ''tor.onion_only'' then set_flag (\<lambda>b c. c\<lparr>nd_onion_only := b\<rparr>) v cfg
      else if one_of ''dandelion'' ''p2p.dandelion'' then set_flag (\<lambda>b c. c\<lparr>nd_dandelion := b\<rparr>) v cfg
      else if one_of ''p2p_bind'' ''p2p.bind'' then (Inr (), cfg\<lparr>p2p_bind := v\<rparr>)
      else if one_of ''ports.local_rpc'' ''local_rpc_port'' then set_port (\<lambda>n c. c\<lparr>local_rpc_port := n\<rparr>) v cfg
      else if one_of ''ports.lan_rpc'' ''lan_rpc_port'' then set_port (\<lambda>n c. c\<lparr>lan_rpc_port := n\<rparr>) v cfg
      else if one_of ''ports.p2p'' ''p2p_port'' then set_port (\<lambda>n c. c\<lparr>p2p_port := n\<rparr>) v cfg
      else if one_of ''ports.public_rpc'' ''public_rpc_port'' then set_port (\<lambda>n c. c\<lparr>public_rpc_port := n\<rparr>) v cfg
      else if one_of ''ports.public_rpc_bind'' ''public_rpc_bind'' then (Inr (), cfg\<lparr>public_rpc_bind := v\<rparr>)
      else if one_of ''advertised_p2p'' ''ports.advertised_p2p'' then kv_advertised v cfg
      else if one_of ''enable_public_rpc'' ''ports.enable_public_rpc'' then set_flag (\<lambda>b c. c\<lparr>enable_public_rpc := b\<rparr>) v cfg
      else if one_of ''enable_auto_mine'' ''auto_mine'' then set_flag (\<lambda>b c. c\<lparr>enable_auto_mine := b\<rparr>) v cfg
      else if one_of ''auto_mine_interval_sec'' ''auto_mine_interval'' then kv_interval v cfg
      else if full = ''auto_mine_reward'' then kv_reward v cfg
      else if full = ''chain.require_pq_signatures'' then
        set_flag (\<lambda>b c. c\<lparr>nd_chain := (nd_chain c)\<lparr>require_pq_signatures := b\<rparr>\<rparr>) v cfg
      else if one_of ''chain.pow_algorithm'' ''pow_algorithm'' then kv_pow v cfg
      else kv_chain full v cfg)"

section \<open>The TOML file\<close>

definition depth_of :: "string \<Rightarrow> int" where
  "depth_of s = foldl (\<lambda>d c. if c = CHR ''['' then d + 1 else if c = CHR '']'' then d - 1 else d) 0 s"

text \<open>\<^verbatim>\<open>read_balanced_value\<close>: lines are appended while brackets are open.\<close>

fun read_balanced_value :: "string \<Rightarrow> int \<Rightarrow> string list \<Rightarrow> string \<times> string list" where
  "read_balanced_value v d [] = (trim_copy v, [])"
| "read_balanced_value v d (l # ls) = (if d > 0 then read_balanced_value (v @ l) (d + depth_of l) ls else (trim_copy v, l # ls))"

lemma read_balanced_length: "length (snd (read_balanced_value v d ls)) \<le> length ls"
  by (induction v d ls rule: read_balanced_value.induct) auto

lemma read_balanced_less: "(x, ya) = read_balanced_value v d ls \<Longrightarrow> length ya < Suc (length ls)"
  by (metis snd_conv read_balanced_length le_imp_less_Suc)

function toml_lines :: "string list \<Rightarrow> string \<Rightarrow> string list \<Rightarrow> node_config \<Rightarrow> unit res \<times> node_config" where
  "toml_lines seeds table [] cfg = (Inr (), cfg)"
| "toml_lines seeds table (raw # ls) cfg =
     (let line = trim_copy (strip_comment raw) in
      if line = [] then toml_lines seeds table ls cfg
      else if hd line = CHR ''['' \<and> last line = CHR '']'' then toml_lines seeds (trim_copy (butlast (tl line))) ls cfg
      else if CHR ''='' \<notin> set line then (Inl (''invalid config line: '' @ line), cfg)
      else
        (let (k, v) = getfield CHR ''='' line;
             key = trim_copy k;
             (value, rest) = read_balanced_value (trim_copy v) (depth_of (trim_copy v)) ls in
         if key = [] then (Inl ''empty config key'', cfg)
         else case apply_kv seeds table key value cfg of
           (Inl e, cfg) \<Rightarrow> (Inl (if e = [] then ''invalid value for '' @ key else e), cfg)
         | (Inr _, cfg) \<Rightarrow> toml_lines seeds table rest cfg))"
  by pat_completeness auto
termination
  by (relation "measure (\<lambda>(_, _, ls, _). length ls)") (auto dest: read_balanced_less)

text \<open>Files are a map from paths to contents.\<close>

type_synonym files = "string \<rightharpoonup> string"

definition load_toml_config :: "string list \<Rightarrow> files \<Rightarrow> string \<Rightarrow> node_config \<Rightarrow> unit res \<times> node_config" where
  "load_toml_config seeds fs path cfg =
     (case fs path of
        None \<Rightarrow> (Inl (''cannot open config file: '' @ path), cfg)
      | Some txt \<Rightarrow>
          (case toml_lines seeds [] (getlines newline txt) cfg of
             (Inl e, cfg) \<Rightarrow> (Inl e, cfg)
           | (Inr _, cfg) \<Rightarrow> (Inr (), cfg\<lparr>config_path := path\<rparr>)))"

section \<open>The genesis file\<close>

definition apply_genesis_field :: "net_config \<Rightarrow> string \<Rightarrow> string \<Rightarrow> unit res \<times> net_config" where
  "apply_genesis_field c k v =
     (if k = ''network_mode'' then (Inr (), c\<lparr>network_mode_name := v\<rparr>)
      else if k = ''network_name'' then (Inr (), c\<lparr>network_name := v\<rparr>)
      else if k = ''network_id'' then (Inr (), c\<lparr>network_id := v\<rparr>)
      else if k = ''comment'' then (Inr (), c)
      else if k = ''bootstrap_peers'' then
        (case parse_string_array v of None \<Rightarrow> (Inl [], c) | Some ps \<Rightarrow> (Inr (), c\<lparr>bootstrap_peers := ps\<rparr>))
      else if k = ''pow_algorithm'' then
        (case parse_pow_algorithm v of None \<Rightarrow> (Inl [], c\<lparr>pow_alg := Sha3_512\<rparr>) | Some a \<Rightarrow> (Inr (), c\<lparr>pow_alg := a\<rparr>))
      else case apply_common_key c k v of
        None \<Rightarrow> (Inl (''unknown genesis key: '' @ k), c)
      | Some (ok, c) \<Rightarrow> (if ok then Inr () else Inl [], c))"

text \<open>The character machine of the genesis reader, with the key and the value read so far.\<close>

datatype genesis_state = SeekKey | InKey string | SeekColon string | SeekValue string | InString string string bool | InToken string string

fun genesis_chars :: "string \<Rightarrow> genesis_state \<Rightarrow> net_config \<Rightarrow> unit res \<times> net_config" where
  "genesis_chars [] st c = (Inr (), c)"
| "genesis_chars (x # xs) SeekKey c = genesis_chars xs (if x = CHR 0x22 then InKey [] else SeekKey) c"
| "genesis_chars (x # xs) (InKey k) c = genesis_chars xs (if x = CHR 0x22 then SeekColon k else InKey (k @ [x])) c"
| "genesis_chars (x # xs) (SeekColon k) c = genesis_chars xs (if x = CHR '':'' then SeekValue k else SeekColon k) c"
| "genesis_chars (x # xs) (SeekValue k) c =
     genesis_chars xs (if is_space x then SeekValue k else if x = CHR 0x22 then InString k [] False else InToken k [x]) c"
| "genesis_chars (x # xs) (InString k v esc) c =
     (if esc then genesis_chars xs (InString k (v @ [x]) False) c
      else if x = CHR 0x5C then genesis_chars xs (InString k v True) c
      else if x = CHR 0x22 then
        (case apply_genesis_field c k v of (Inl e, c) \<Rightarrow> (Inl e, c) | (Inr _, c) \<Rightarrow> genesis_chars xs SeekKey c)
      else genesis_chars xs (InString k (v @ [x]) False) c)"
| "genesis_chars (x # xs) (InToken k v) c =
     (if x = CHR '','' \<or> x = CHR 0x7D \<or> is_space x then
        (case apply_genesis_field c k (trim_copy v) of (Inl e, c) \<Rightarrow> (Inl e, c) | (Inr _, c) \<Rightarrow> genesis_chars xs SeekKey c)
      else genesis_chars xs (InToken k (v @ [x])) c)"

definition load_genesis_json :: "files \<Rightarrow> string \<Rightarrow> net_config \<Rightarrow> unit res \<times> net_config" where
  "load_genesis_json fs path c =
     (case fs path of None \<Rightarrow> (Inl (''cannot open genesis file: '' @ path), c) | Some txt \<Rightarrow> genesis_chars txt SeekKey c)"

section \<open>The seed file\<close>

definition base32_val :: "char \<Rightarrow> nat option" where
  "base32_val c =
     (let n = of_char c :: nat in
      if 97 \<le> n \<and> n \<le> 122 then Some (n - 97) else if 50 \<le> n \<and> n \<le> 55 then Some (26 + (n - 50)) else None)"

text \<open>The bit buffer of the base32 decoder: 32 bits, of which the last \<open>bits\<close> are pending.\<close>

fun base32_bytes :: "u32 \<Rightarrow> nat \<Rightarrow> string \<Rightarrow> string option" where
  "base32_bytes buf bits [] = Some []"
| "base32_bytes buf bits (c # s) =
     (case base32_val c of
        None \<Rightarrow> None
      | Some v \<Rightarrow>
          (let buf = or (push_bit 5 buf) (of_nat v); bits = bits + 5 in
           if bits \<ge> 8
           then map_option ((#) (char_of (unat (and (drop_bit (bits - 8) buf) 0xFF)))) (base32_bytes buf (bits - 8) s)
           else base32_bytes buf bits s))"

text \<open>\<open>sha3_256\<close> is the digest of the crypto library.\<close>

definition onion_v3_checksum_ok :: "(string \<Rightarrow> string) \<Rightarrow> string \<Rightarrow> bool" where
  "onion_v3_checksum_ok sha3_256 ep =
     (let host = (case rsplit CHR '':'' ep of None \<Rightarrow> ep | Some (h, _) \<Rightarrow> h) in
      length host = 62 \<and>
      (case base32_bytes 0 0 (take 56 host) of
         None \<Rightarrow> False
       | Some raw \<Rightarrow>
           length raw = 35 \<and> raw ! 34 = CHR 0x03 \<and>
           (let md = sha3_256 (''.onion checksum'' @ take 32 raw @ [raw ! 34]) in md ! 0 = raw ! 32 \<and> md ! 1 = raw ! 33)))"

definition seed_space :: "char \<Rightarrow> bool" where
  "seed_space c \<longleftrightarrow> c = CHR '' '' \<or> c = CHR 0x09 \<or> c = CHR 0x0D"

fun seed_lines :: "(string \<Rightarrow> string) \<Rightarrow> string \<Rightarrow> nat \<Rightarrow> string list \<Rightarrow> string list \<Rightarrow> string list res" where
  "seed_lines h path no [] out = Inr out"
| "seed_lines h path no (l # ls) out =
     (let entry = rev (dropWhile seed_space (rev (dropWhile seed_space (takeWhile (\<lambda>c. c \<noteq> CHR ''#'') l)))) in
      if entry = [] then seed_lines h path (no + 1) ls out
      else if \<not> is_onion_v3_endpoint entry \<or> \<not> onion_v3_checksum_ok h entry
      then Inl (''seed file '' @ path @ '':'' @ dec (no + 1)
             @ '': expected a real Tor v3 <56 chars>.onion:PORT (checksum verified), got '' @ [CHR 0x27] @ entry @ [CHR 0x27])
      else seed_lines h path (no + 1) ls (if entry \<in> set out then out else out @ [entry]))"

definition load_seed_file :: "(string \<Rightarrow> string) \<Rightarrow> files \<Rightarrow> string \<Rightarrow> string list res" where
  "load_seed_file h fs path =
     (case fs path of
        None \<Rightarrow> Inl (''cannot open seed file: '' @ path)
      | Some txt \<Rightarrow> seed_lines h path 0 (getlines newline txt) [])"

text \<open>Environment variables are a map, too.\<close>

type_synonym environ = "string \<rightharpoonup> string"

definition default_mainnet_seed_file :: "environ \<Rightarrow> string" where
  "default_mainnet_seed_file env =
     (case env ''ADDITION_SEEDS_FILE'' of Some p \<Rightarrow> if p \<noteq> [] then p else kDefaultMainnetSeedFile | None \<Rightarrow> kDefaultMainnetSeedFile)"

definition mainnet_default_seeds :: "(string \<Rightarrow> string) \<Rightarrow> environ \<Rightarrow> files \<Rightarrow> string list" where
  "mainnet_default_seeds h env fs = (case load_seed_file h fs (default_mainnet_seed_file env) of Inl _ \<Rightarrow> [] | Inr s \<Rightarrow> s)"

section \<open>Validation\<close>

definition validate_mainnet :: "node_config \<Rightarrow> unit res" where
  "validate_mainnet cfg =
     (let c = nd_chain cfg in
      if network_mode_name c \<noteq> ''mainnet'' \<or> network_id c \<noteq> kMainnetNetworkId then
        Inl ''mainnet requires network_id=ADDITION_MAINNET_V1 and a mainnet genesis; refusing to relabel a testnet chain''
      else if shielded_enabled c then Inl ''shielded_enabled is EXPERIMENTAL (unaudited) and refused on mainnet''
      else if genesis_timestamp c = kTestnetGenesisTimestamp then Inl ''mainnet genesis must not reuse the testnet genesis timestamp''
      else if initial_difficulty_target c > kTestnetHardDifficultyTarget \<or> max_difficulty_target c > kTestnetHardDifficultyTarget then
        Inl ''mainnet difficulty must stay at or harder than the testnet hard target (not the ~4ms easy target)''
      else if min_difficulty_target c \<noteq> kMainnetMinDifficultyTarget \<or> max_difficulty_target c \<noteq> kTestnetHardDifficultyTarget
          \<or> initial_difficulty_target c \<noteq> kTestnetHardDifficultyTarget then
        Inl ''mainnet difficulty: initial/max must be 0x000000FFFFFFFFFF and min 0x0000000000FFFFFF''
      else if max_supply c \<noteq> kMainnetMaxSupply \<or> block_reward c \<noteq> kMainnetBlockReward \<or> halving_interval c \<noteq> kMainnetHalvingInterval
          \<or> subsidy_floor c \<noteq> kMainnetSubsidyFloor \<or> target_block_time_sec c \<noteq> kMainnetTargetBlockTimeSec then
        Inl ''mainnet emission: max_supply=50000000 block_reward=4 halving_interval=5681819 subsidy_floor=1 target_block_time_sec=20 (hard cap)''
      else if fst (scheduled_total_emission (max_supply c) (block_reward c) (ucast (halving_interval c)) (subsidy_floor c)) \<noteq> max_supply c then
        Inl ''mainnet emission schedule must reach max_supply exactly''
      else if stake_vote_quorum c = 0 \<or> stake_vote_quorum c > stake_votes_per_block c \<or> stake_reward_bps c > 10000 then
        Inl ''mainnet staking parameters invalid''
      else if staking_activation_height c \<noteq> kMainnetStakingActivationHeight then
        Inl ''mainnet staking_activation_height must be 14772727 (37.5M cumulative supply)''
      else if pow_alg c \<noteq> MemoryHard then Inl ''mainnet must keep pow_algorithm=memory_hard''
      else if kOperatorPublicP2p \<in> set (nd_bootstrap_peers cfg) then
        Inl (''mainnet must not bootstrap the public testnet seed '' @ kOperatorPublicP2p)
      else Inr ())"

definition validate_regtest :: "node_config \<Rightarrow> unit res" where
  "validate_regtest cfg =
     (let c = nd_chain cfg in
      if network_mode_name c \<noteq> ''regtest'' \<or> network_id c \<noteq> kRegtestNetworkId then Inl ''regtest requires network_id=ADDITION_REGTEST_V1''
      else if initial_difficulty_target c \<noteq> kRegtestMinDifficultyTarget \<or> min_difficulty_target c \<noteq> kRegtestMinDifficultyTarget
          \<or> max_difficulty_target c \<noteq> kRegtestMinDifficultyTarget then
        Inl ''regtest must use min difficulty (0xFFFFFFFFFFFFFFFF) for local two-node tests''
      else if kOperatorPublicP2p \<in> set (nd_bootstrap_peers cfg) then
        Inl (''regtest must not bootstrap the public testnet seed '' @ kOperatorPublicP2p)
      else Inr ())"

definition validate_testnet :: "node_config \<Rightarrow> unit res" where
  "validate_testnet cfg =
     (let c = nd_chain cfg in
      if network_id c = kMainnetNetworkId \<or> network_mode_name c = ''mainnet'' then
        Inl ''testnet cannot load mainnet genesis (network_id=ADDITION_MAINNET_V1)''
      else if network_id c = kRegtestNetworkId \<or> network_mode_name c = ''regtest'' then
        Inl ''testnet cannot load regtest genesis (network_id=ADDITION_REGTEST_V1)''
      else if network_id c = kFastNetworkId \<or> network_mode_name c = ''fast'' then
        Inl ''testnet cannot load fast genesis (network_id=ADDITION_FAST_V1); fast path is a separate fail-closed profile''
      else Inr ())"

definition validate_network_profile :: "node_config \<Rightarrow> unit res" where
  "validate_network_profile cfg =
     (case nd_mode cfg of
        Mainnet \<Rightarrow> validate_mainnet cfg
      | Regtest \<Rightarrow> validate_regtest cfg
      | Fast \<Rightarrow>
          (if network_mode_name (nd_chain cfg) \<noteq> ''fast'' \<or> network_id (nd_chain cfg) \<noteq> kFastNetworkId
           then Inl ''fast profile requires network_id=ADDITION_FAST_V1'' else fast_path_boot_allowed)
      | Testnet \<Rightarrow> validate_testnet cfg)"

section \<open>The command line\<close>

record cli =
  cli_network :: string
  cli_config :: string
  cli_genesis :: string
  cli_data_dir :: string
  cli_public_rpc_port :: string
  cli_public_rpc_bind :: string
  cli_local_rpc_port :: string
  cli_tor_proxy :: string
  cli_p2p_bind :: string
  cli_onion_only :: bool
  cli_dandelion :: bool
  cli_p2p_port :: string
  cli_bootstrap :: "string list"
  cli_seeds_file :: string
  cli_auto_mine_interval :: string
  cli_auto_mine_reward :: string
  network_from_cli :: bool
  regtest_from_cli :: bool
  public_rpc_from_cli :: bool
  auto_mine_from_cli :: bool

definition cli_init :: cli where
  "cli_init = \<lparr>cli_network = [], cli_config = [], cli_genesis = [], cli_data_dir = [], cli_public_rpc_port = [], cli_public_rpc_bind = [],
     cli_local_rpc_port = [], cli_tor_proxy = [], cli_p2p_bind = [], cli_onion_only = False, cli_dandelion = False, cli_p2p_port = [],
     cli_bootstrap = [], cli_seeds_file = [], cli_auto_mine_interval = [], cli_auto_mine_reward = [], network_from_cli = False,
     regtest_from_cli = False, public_rpc_from_cli = False, auto_mine_from_cli = False\<rparr>"

text \<open>The switches without a value.\<close>

definition cli_switch :: "string \<Rightarrow> (cli \<Rightarrow> cli) option" where
  "cli_switch a =
     (if a = ''--mainnet'' then Some (\<lambda>c. c\<lparr>cli_network := ''mainnet'', network_from_cli := True\<rparr>)
      else if a = ''--fast'' then Some (\<lambda>c. c\<lparr>cli_network := ''fast'', network_from_cli := True\<rparr>)
      else if a = ''--regtest'' then Some (\<lambda>c. c\<lparr>regtest_from_cli := True\<rparr>)
      else if a = ''--public-rpc'' then Some (\<lambda>c. c\<lparr>public_rpc_from_cli := True\<rparr>)
      else if a = ''--onion-only'' then Some (\<lambda>c. c\<lparr>cli_onion_only := True\<rparr>)
      else if a = ''--dandelion'' then Some (\<lambda>c. c\<lparr>cli_dandelion := True\<rparr>)
      else if a = ''--auto-mine'' then Some (\<lambda>c. c\<lparr>auto_mine_from_cli := True\<rparr>)
      else None)"

text \<open>The options with a value; \<^verbatim>\<open>--p2p-bind\<close> is the only one that does not also take the form \<^verbatim>\<open>--name=value\<close>.\<close>

definition cli_option :: "string \<Rightarrow> (string \<Rightarrow> cli \<Rightarrow> cli) option" where
  "cli_option a =
     (if a = ''--network'' then Some (\<lambda>v c. c\<lparr>cli_network := v, network_from_cli := True\<rparr>)
      else if a = ''--config'' then Some (\<lambda>v c. c\<lparr>cli_config := v\<rparr>)
      else if a = ''--genesis'' then Some (\<lambda>v c. c\<lparr>cli_genesis := v\<rparr>)
      else if a = ''--data-dir'' then Some (\<lambda>v c. c\<lparr>cli_data_dir := v\<rparr>)
      else if a = ''--public-rpc-port'' then Some (\<lambda>v c. c\<lparr>cli_public_rpc_port := v\<rparr>)
      else if a = ''--public-rpc-bind'' then Some (\<lambda>v c. c\<lparr>cli_public_rpc_bind := v\<rparr>)
      else if a = ''--local-rpc-port'' then Some (\<lambda>v c. c\<lparr>cli_local_rpc_port := v\<rparr>)
      else if a = ''--tor-proxy'' then Some (\<lambda>v c. c\<lparr>cli_tor_proxy := v\<rparr>)
      else if a = ''--p2p-bind'' then Some (\<lambda>v c. c\<lparr>cli_p2p_bind := v\<rparr>)
      else if a = ''--p2p-port'' then Some (\<lambda>v c. c\<lparr>cli_p2p_port := v\<rparr>)
      else if a = ''--seeds-file'' then Some (\<lambda>v c. c\<lparr>cli_seeds_file := v\<rparr>)
      else if a = ''--bootstrap'' then Some (\<lambda>v c. c\<lparr>cli_bootstrap := cli_bootstrap c @ [v]\<rparr>)
      else if a = ''--auto-mine-interval'' then Some (\<lambda>v c. c\<lparr>cli_auto_mine_interval := v\<rparr>)
      else if a = ''--auto-mine-reward'' then Some (\<lambda>v c. c\<lparr>cli_auto_mine_reward := v\<rparr>)
      else None)"

definition cli_assign :: "string \<Rightarrow> string \<Rightarrow> (string \<Rightarrow> cli \<Rightarrow> cli) \<Rightarrow> cli \<Rightarrow> cli res" where
  "cli_assign name v f c =
     (if name = ''--tor-proxy'' \<and> \<not> is_ipv4_endpoint v then Inl ''invalid --tor-proxy (IPv4 host:port)'' else Inr (f v c))"

text \<open>The loop over the arguments; \<open>None\<close> is a request for help.\<close>

fun parse_args :: "string list \<Rightarrow> cli \<Rightarrow> cli option res" where
  "parse_args [] c = Inr (Some c)"
| "parse_args (a # as) c =
     (if a = ''--help'' \<or> a = ''-h'' then Inr None
      else case cli_switch a of
        Some f \<Rightarrow> parse_args as (f c)
      | None \<Rightarrow>
          (case cli_option a of
             Some f \<Rightarrow>
               (case as of
                  [] \<Rightarrow> Inl (''missing value for '' @ a)
                | v # as' \<Rightarrow> (case cli_assign a v f c of Inl e \<Rightarrow> Inl e | Inr c \<Rightarrow> parse_args as' c))
           | None \<Rightarrow>
               (let (name, v) = getfield CHR ''='' a in
                if CHR ''='' \<in> set a \<and> cli_option name \<noteq> None \<and> name \<noteq> ''--p2p-bind''
                then (case cli_assign name v (the (cli_option name)) c of Inl e \<Rightarrow> Inl e | Inr c \<Rightarrow> parse_args as c)
                else Inl (''unknown argument: '' @ a))))"

section \<open>Start-up\<close>

definition select_mode :: "environ \<Rightarrow> cli \<Rightarrow> network_mode res" where
  "select_mode env c =
     bind_res
       (if network_from_cli c then
          (case parse_network_mode (cli_network c) of
             None \<Rightarrow> Inl ''invalid --network value (use testnet, regtest, mainnet, fast, --regtest, --mainnet, or --fast)''
           | Some m \<Rightarrow> Inr m)
        else Inr (if env ''ADDITION_MAINNET_MODE'' = Some ''1'' then Mainnet else Testnet))
       (\<lambda>m. if regtest_from_cli c then
              (if m = Mainnet then Inl ''--regtest cannot be combined with --mainnet''
               else if m = Fast then Inl ''--regtest cannot be combined with --fast''
               else Inr Regtest)
            else Inr m)"

definition node_config_for :: "string list \<Rightarrow> network_mode \<Rightarrow> node_config" where
  "node_config_for seeds m =
     (case m of Mainnet \<Rightarrow> mainnet_node_config seeds | Regtest \<Rightarrow> regtest_node_config | Fast \<Rightarrow> fast_node_config | Testnet \<Rightarrow> default_node_config)"

text \<open>The files of the model are regular files; a directory, for which \<^verbatim>\<open>std::filesystem::exists\<close> holds too, is not modelled.\<close>

definition file_exists :: "files \<Rightarrow> string \<Rightarrow> bool" where
  "file_exists fs p \<longleftrightarrow> p \<noteq> [] \<and> fs p \<noteq> None"

definition first_existing :: "files \<Rightarrow> string list \<Rightarrow> string" where
  "first_existing fs ps = (case find (file_exists fs) ps of None \<Rightarrow> [] | Some p \<Rightarrow> p)"

definition config_candidates :: "network_mode \<Rightarrow> string list" where
  "config_candidates m =
     (case m of
        Mainnet \<Rightarrow> [''config-mainnet.toml'', ''../config-mainnet.toml'']
      | Regtest \<Rightarrow> [''config-regtest.toml'', ''../config-regtest.toml'']
      | Fast \<Rightarrow> [''config-fast.toml'', ''../config-fast.toml'']
      | Testnet \<Rightarrow> [''config.toml'', ''../config.toml''])"

definition genesis_candidates :: "network_mode \<Rightarrow> string list" where
  "genesis_candidates m =
     (case m of
        Mainnet \<Rightarrow> [''genesis-mainnet.json'', ''../genesis-mainnet.json'']
      | Regtest \<Rightarrow> []
      | Fast \<Rightarrow> [''genesis-fast.json'', ''../genesis-fast.json'']
      | Testnet \<Rightarrow> [''genesis.json'', ''../genesis.json''])"

definition load_config_stage :: "string list \<Rightarrow> files \<Rightarrow> cli \<Rightarrow> network_mode \<Rightarrow> node_config \<Rightarrow> node_config res" where
  "load_config_stage seeds fs c m cfg =
     (if cli_config c \<noteq> [] \<and> \<not> file_exists fs (cli_config c) then Inl (''config file not found: '' @ cli_config c)
      else
        (let path = (if cli_config c = [] then first_existing fs (config_candidates m) else cli_config c) in
         if path = [] then Inr cfg
         else case load_toml_config seeds fs path cfg of (Inl e, _) \<Rightarrow> Inl e | (Inr _, cfg) \<Rightarrow> Inr cfg))"

definition load_genesis_stage :: "files \<Rightarrow> cli \<Rightarrow> network_mode \<Rightarrow> node_config \<Rightarrow> node_config res" where
  "load_genesis_stage fs c m cfg =
     (if cli_genesis c \<noteq> [] \<and> \<not> file_exists fs (cli_genesis c) then Inl (''genesis file not found: '' @ cli_genesis c)
      else
        (let path = (if cli_genesis c \<noteq> [] then cli_genesis c
                     else if file_exists fs (genesis_path cfg) then genesis_path cfg
                     else first_existing fs (genesis_candidates m)) in
         if path = [] then Inr cfg
         else case load_genesis_json fs path (nd_chain cfg) of
                (Inl e, _) \<Rightarrow> Inl e
              | (Inr _, ch) \<Rightarrow>
                  Inr (cfg\<lparr>nd_chain := ch, genesis_path := path,
                           nd_bootstrap_peers := (if bootstrap_peers ch \<noteq> [] then bootstrap_peers ch else nd_bootstrap_peers cfg)\<rparr>)))"

definition cli_port :: "string \<Rightarrow> string \<Rightarrow> ('a::len word \<Rightarrow> node_config \<Rightarrow> node_config) \<Rightarrow> node_config \<Rightarrow> node_config res" where
  "cli_port opt v f cfg =
     (if v = [] then Inr cfg
      else case parse_u16 v of None \<Rightarrow> Inl (''invalid '' @ opt) | Some n \<Rightarrow> Inr (f (ucast n) cfg))"

definition overrides_stage :: "cli \<Rightarrow> node_config \<Rightarrow> node_config res" where
  "overrides_stage c cfg =
     bind_res (Inr (cfg\<lparr>data_dir := (if cli_data_dir c \<noteq> [] then cli_data_dir c else data_dir cfg),
                        enable_public_rpc := (public_rpc_from_cli c \<or> enable_public_rpc cfg)\<rparr>)) (\<lambda>cfg.
     bind_res (cli_port ''--public-rpc-port'' (cli_public_rpc_port c) (\<lambda>n x. x\<lparr>public_rpc_port := n\<rparr>) cfg) (\<lambda>cfg.
     bind_res (Inr (if cli_public_rpc_bind c \<noteq> [] then cfg\<lparr>public_rpc_bind := cli_public_rpc_bind c\<rparr> else cfg)) (\<lambda>cfg.
     bind_res (cli_port ''--local-rpc-port'' (cli_local_rpc_port c) (\<lambda>n x. x\<lparr>local_rpc_port := n\<rparr>) cfg) (\<lambda>cfg.
     bind_res (cli_port ''--p2p-port'' (cli_p2p_port c) (\<lambda>n x. x\<lparr>p2p_port := n\<rparr>) cfg) (\<lambda>cfg.
     if cli_bootstrap c = [] then Inr cfg
     else case find (\<lambda>p. \<not> is_peer_endpoint p) (cli_bootstrap c) of
            Some p \<Rightarrow> Inl (''invalid --bootstrap (IPv4 or v3 .onion host:port only): '' @ p)
          | None \<Rightarrow> Inr (cfg\<lparr>nd_bootstrap_peers := cli_bootstrap c, nd_chain := (nd_chain cfg)\<lparr>bootstrap_peers := cli_bootstrap c\<rparr>\<rparr>))))))"

definition tor_stage :: "cli \<Rightarrow> node_config \<Rightarrow> node_config" where
  "tor_stage c cfg =
     (let cfg = cfg\<lparr>tor_socks_proxy := (if cli_tor_proxy c \<noteq> [] then cli_tor_proxy c else tor_socks_proxy cfg),
                    nd_onion_only := (cli_onion_only c \<or> nd_onion_only cfg), nd_dandelion := (cli_dandelion c \<or> nd_dandelion cfg),
                    p2p_bind := (if cli_p2p_bind c \<noteq> [] then cli_p2p_bind c else p2p_bind cfg)\<rparr> in
      if nd_onion_only cfg
      then cfg\<lparr>tor_socks_proxy := (if tor_socks_proxy cfg = [] then ''127.0.0.1:9050'' else tor_socks_proxy cfg),
               p2p_bind := ''127.0.0.1'', public_rpc_bind := ''127.0.0.1''\<rparr>
      else cfg)"

definition auto_mine_stage :: "cli \<Rightarrow> node_config \<Rightarrow> node_config res" where
  "auto_mine_stage c cfg =
     (let cfg = cfg\<lparr>enable_auto_mine := (auto_mine_from_cli c \<or> enable_auto_mine cfg)\<rparr>;
          rew = (\<lambda>cfg. Inr (if cli_auto_mine_reward c \<noteq> [] then cfg\<lparr>auto_mine_reward := cli_auto_mine_reward c\<rparr> else cfg)) in
      if cli_auto_mine_interval c = [] then rew cfg
      else case parse_u64 (cli_auto_mine_interval c) of
             None \<Rightarrow> Inl ''invalid --auto-mine-interval (1-86400 seconds)''
           | Some n \<Rightarrow> if n = 0 \<or> n > 86400 then Inl ''invalid --auto-mine-interval (1-86400 seconds)''
                       else rew (cfg\<lparr>auto_mine_interval_sec := ucast n\<rparr>))"

definition regtest_stage :: "string list \<Rightarrow> cli \<Rightarrow> network_mode \<Rightarrow> node_config \<Rightarrow> node_config" where
  "regtest_stage seeds c m cfg =
     (let cfg = cfg\<lparr>nd_mode := m\<rparr> in
      if m \<noteq> Regtest then cfg
      else
        (let cfg = apply_network_mode seeds Regtest cfg;
             cfg = (if cli_data_dir c = [] \<and> data_dir cfg = ''data'' then cfg\<lparr>data_dir := ''data-regtest''\<rparr> else cfg) in
         if cli_bootstrap c = [] \<and> (kOperatorPublicP2p \<in> set (nd_bootstrap_peers cfg) \<or> nd_bootstrap_peers cfg = [])
         then cfg\<lparr>nd_bootstrap_peers := [''127.0.0.1:28545'']\<rparr> else cfg))"

definition seeds_stage :: "(string \<Rightarrow> string) \<Rightarrow> environ \<Rightarrow> files \<Rightarrow> cli \<Rightarrow> network_mode \<Rightarrow> node_config \<Rightarrow> node_config res" where
  "seeds_stage h env fs c m cfg =
     bind_res
       (if nd_bootstrap_peers cfg \<noteq> [] then Inr cfg
        else
          (case m of
             Mainnet \<Rightarrow>
               (let path = (if cli_seeds_file c = [] then default_mainnet_seed_file env else cli_seeds_file c) in
                if cli_seeds_file c \<noteq> [] \<or> fs path \<noteq> None
                then bind_res (load_seed_file h fs path) (\<lambda>s. Inr (cfg\<lparr>nd_bootstrap_peers := s\<rparr>))
                else Inr cfg)
           | Fast \<Rightarrow> Inr (cfg\<lparr>nd_bootstrap_peers := [''127.0.0.1:28547'']\<rparr>)
           | _ \<Rightarrow> Inr (cfg\<lparr>nd_bootstrap_peers := [''127.0.0.1:28545'']\<rparr>)))
       (\<lambda>cfg. case find (\<lambda>p. \<not> is_peer_endpoint p) (nd_bootstrap_peers cfg) of
                Some p \<Rightarrow> Inl (''bootstrap_peers must be IPv4 or v3 .onion host:port (got '' @ p @ '')'')
              | None \<Rightarrow> Inr (cfg\<lparr>nd_chain := (nd_chain cfg)\<lparr>bootstrap_peers := nd_bootstrap_peers cfg\<rparr>\<rparr>))"

definition advertise_stage :: "environ \<Rightarrow> node_config \<Rightarrow> node_config res" where
  "advertise_stage env cfg =
     (case env ''ADDITION_ADVERTISED_P2P'' of
        None \<Rightarrow> Inr cfg
      | Some raw \<Rightarrow> bind_res (parse_advertised_p2p raw) (\<lambda>a. Inr (cfg\<lparr>advertised_p2p := a\<rparr>)))"

text \<open>\<^verbatim>\<open>apply_cli_args\<close> on the arguments after the program name; \<open>None\<close> is a request for help.\<close>

definition apply_cli_args :: "(string \<Rightarrow> string) \<Rightarrow> environ \<Rightarrow> files \<Rightarrow> string list \<Rightarrow> node_config option res" where
  "apply_cli_args h env fs args =
     (let seeds = mainnet_default_seeds h env fs in
      bind_res (parse_args args cli_init) (\<lambda>oc.
      case oc of
        None \<Rightarrow> Inr None
      | Some c \<Rightarrow>
          bind_res (select_mode env c) (\<lambda>m.
          bind_res (load_config_stage seeds fs c m (node_config_for seeds m)) (\<lambda>cfg.
          bind_res (load_genesis_stage fs c m cfg) (\<lambda>cfg.
          bind_res (overrides_stage c cfg) (\<lambda>cfg.
          bind_res (auto_mine_stage c (tor_stage c cfg)) (\<lambda>cfg.
          bind_res (seeds_stage h env fs c m (regtest_stage seeds c m cfg)) (\<lambda>cfg.
          bind_res (advertise_stage env cfg) (\<lambda>cfg.
          bind_res (validate_network_profile cfg) (\<lambda>_. Inr (Some cfg)))))))))))"

end
