(* ===== verification/Node_Startup.thy ===== *)
theory Node_Startup
  imports Node_Config
begin

text \<open>
  What the start-up of a node guarantees (\<^verbatim>\<open>config.cpp\<close>): the ranges of the consensus parameters are kept by
  every key of the TOML and genesis files, the built-in profiles are valid, configurations of different
  networks cannot be confused, and an accepted command line yields a configuration with all of these
  properties.
\<close>

section \<open>Ranges\<close>

text \<open>The ranges that the consensus code relies on.\<close>

definition config_range :: "('a) net_config_scheme \<Rightarrow> bool" where
  "config_range c \<longleftrightarrow>
     1 \<le> unat (stake_votes_per_block c) \<and> unat (stake_votes_per_block c) \<le> 64 \<and> 1 \<le> unat (stake_vote_quorum c) \<and> unat (stake_vote_quorum c) \<le> 64
     \<and> unat (stake_reward_bps c) \<le> 10000 \<and> 1 \<le> stake_min_amount c \<and> 1 \<le> stake_min_live_tickets c
     \<and> 1 \<le> stake_maturity c \<and> stake_maturity c \<le> 1000000 \<and> stake_unbond_delay c \<le> 1000000
     \<and> 2 \<le> unat (lwma_window c) \<and> unat (lwma_window c) \<le> 1000 \<and> 1 \<le> unat (target_block_time_sec c) \<and> unat (target_block_time_sec c) \<le> 86400
     \<and> 1 \<le> unat (halving_interval c) \<and> 1 \<le> unat (retarget_window c) \<and> 65536 \<le> max_block_weight c \<and> max_block_weight c \<le> 3 * 1024 * 1024 - 65536"

lemma unat_narrow: "n \<le> 0xFFFFFFFF \<Longrightarrow> unat (ucast (n :: u64) :: u32) = unat n"
proof -
  assume "n \<le> 0xFFFFFFFF"
  then have "unat n \<le> unat (0xFFFFFFFF :: u64)" by (simp only: word_le_nat_alt)
  then have "unat n < 2 ^ 32" by simp
  then show ?thesis by (simp add: unsigned_ucast_eq take_bit_nat_eq_self)
qed

lemma unat_range: "lo \<le> n \<Longrightarrow> n \<le> hi \<Longrightarrow> hi \<le> 0xFFFFFFFF \<Longrightarrow>
   unat lo \<le> unat (ucast (n :: u64) :: u32) \<and> unat (ucast n :: u32) \<le> unat hi"
  using unat_narrow [of n] by (simp add: word_le_nat_alt)

lemma set_num_range:
  assumes "(\<And>n. config_range (f n c))" and "config_range c"
  shows "config_range (snd (set_num f v c))"
  using assms by (simp add: set_num_def split: option.splits)

lemma set_num_in_range:
  assumes "(\<And>n. lo \<le> n \<Longrightarrow> n \<le> hi \<Longrightarrow> config_range (f n c))" and "config_range c"
  shows "config_range (snd (set_num_in lo hi f v c))"
  using assms by (simp add: set_num_in_def split: option.splits)

lemma config_range_other [simp]:
  "config_range (c\<lparr>network_id := x0\<rparr>) = config_range c"
  "config_range (c\<lparr>genesis_timestamp := x1\<rparr>) = config_range c"
  "config_range (c\<lparr>max_supply := x2\<rparr>) = config_range c"
  "config_range (c\<lparr>block_reward := x3\<rparr>) = config_range c"
  "config_range (c\<lparr>pow_alg := x4\<rparr>) = config_range c"
  "config_range (c\<lparr>initial_difficulty_target := x5\<rparr>) = config_range c"
  "config_range (c\<lparr>min_difficulty_target := x6\<rparr>) = config_range c"
  "config_range (c\<lparr>max_difficulty_target := x7\<rparr>) = config_range c"
  "config_range (c\<lparr>difficulty_fork_height := x8\<rparr>) = config_range c"
  "config_range (c\<lparr>legacy_min_difficulty_target := x9\<rparr>) = config_range c"
  "config_range (c\<lparr>subsidy_floor := x10\<rparr>) = config_range c"
  "config_range (c\<lparr>require_pq_signatures := x11\<rparr>) = config_range c"
  "config_range (c\<lparr>min_fee := x12\<rparr>) = config_range c"
  "config_range (c\<lparr>staking_activation_height := x13\<rparr>) = config_range c"
  "config_range (c\<lparr>shielded_enabled := x14\<rparr>) = config_range c"
  "config_range (c\<lparr>network_mode_name := x15\<rparr>) = config_range c"
  "config_range (c\<lparr>network_name := x16\<rparr>) = config_range c"
  "config_range (c\<lparr>pow_profile := x17\<rparr>) = config_range c"
  "config_range (c\<lparr>confirmations_policy := x18\<rparr>) = config_range c"
  "config_range (c\<lparr>economic_security := x19\<rparr>) = config_range c"
  "config_range (c\<lparr>bootstrap_peers := x20\<rparr>) = config_range c"
  by (simp_all add: config_range_def)

lemma config_range_upd:
  "config_range c \<Longrightarrow> 1 \<le> n \<Longrightarrow> n \<le> 64 \<Longrightarrow> config_range (c\<lparr>stake_votes_per_block := ucast n\<rparr>)"
  "config_range c \<Longrightarrow> 1 \<le> n \<Longrightarrow> n \<le> 64 \<Longrightarrow> config_range (c\<lparr>stake_vote_quorum := ucast n\<rparr>)"
  "config_range c \<Longrightarrow> 0 \<le> n \<Longrightarrow> n \<le> 10000 \<Longrightarrow> config_range (c\<lparr>stake_reward_bps := ucast n\<rparr>)"
  "config_range c \<Longrightarrow> 1 \<le> n \<Longrightarrow> n \<le> U64_MAX \<Longrightarrow> config_range (c\<lparr>stake_min_amount := n\<rparr>)"
  "config_range c \<Longrightarrow> 1 \<le> n \<Longrightarrow> n \<le> U64_MAX \<Longrightarrow> config_range (c\<lparr>stake_min_live_tickets := n\<rparr>)"
  "config_range c \<Longrightarrow> 1 \<le> n \<Longrightarrow> n \<le> 1000000 \<Longrightarrow> config_range (c\<lparr>stake_maturity := n\<rparr>)"
  "config_range c \<Longrightarrow> 0 \<le> n \<Longrightarrow> n \<le> 1000000 \<Longrightarrow> config_range (c\<lparr>stake_unbond_delay := n\<rparr>)"
  "config_range c \<Longrightarrow> 2 \<le> n \<Longrightarrow> n \<le> 1000 \<Longrightarrow> config_range (c\<lparr>lwma_window := ucast n\<rparr>)"
  "config_range c \<Longrightarrow> 1 \<le> n \<Longrightarrow> n \<le> 86400 \<Longrightarrow> config_range (c\<lparr>target_block_time_sec := ucast n\<rparr>)"
  "config_range c \<Longrightarrow> 1 \<le> n \<Longrightarrow> n \<le> 0xFFFFFFFF \<Longrightarrow> config_range (c\<lparr>halving_interval := ucast n\<rparr>)"
  "config_range c \<Longrightarrow> 1 \<le> n \<Longrightarrow> n \<le> 0xFFFFFFFF \<Longrightarrow> config_range (c\<lparr>retarget_window := ucast n\<rparr>)"
  "config_range c \<Longrightarrow> 65536 \<le> n \<Longrightarrow> n \<le> 3 * 1024 * 1024 - 65536 \<Longrightarrow> config_range (c\<lparr>max_block_weight := n\<rparr>)"
proof -
  have r: "unat lo \<le> unat (ucast n :: u32)" "unat (ucast n :: u32) \<le> unat hi" if "lo \<le> n" "n \<le> hi" "hi \<le> 0xFFFFFFFF" for lo hi
    using unat_range [OF that] by auto
  show "config_range c \<Longrightarrow> 1 \<le> n \<Longrightarrow> n \<le> 64 \<Longrightarrow> config_range (c\<lparr>stake_votes_per_block := ucast n\<rparr>)"
    "config_range c \<Longrightarrow> 1 \<le> n \<Longrightarrow> n \<le> 64 \<Longrightarrow> config_range (c\<lparr>stake_vote_quorum := ucast n\<rparr>)"
    using r [of 1 64] by (simp_all add: config_range_def)
  show "config_range c \<Longrightarrow> 0 \<le> n \<Longrightarrow> n \<le> 10000 \<Longrightarrow> config_range (c\<lparr>stake_reward_bps := ucast n\<rparr>)"
    using r [of 0 10000] by (simp add: config_range_def)
  show "config_range c \<Longrightarrow> 2 \<le> n \<Longrightarrow> n \<le> 1000 \<Longrightarrow> config_range (c\<lparr>lwma_window := ucast n\<rparr>)"
    using r [of 2 1000] by (simp add: config_range_def)
  show "config_range c \<Longrightarrow> 1 \<le> n \<Longrightarrow> n \<le> 86400 \<Longrightarrow> config_range (c\<lparr>target_block_time_sec := ucast n\<rparr>)"
    using r [of 1 86400] by (simp add: config_range_def)
  show "config_range c \<Longrightarrow> 1 \<le> n \<Longrightarrow> n \<le> 0xFFFFFFFF \<Longrightarrow> config_range (c\<lparr>halving_interval := ucast n\<rparr>)"
    "config_range c \<Longrightarrow> 1 \<le> n \<Longrightarrow> n \<le> 0xFFFFFFFF \<Longrightarrow> config_range (c\<lparr>retarget_window := ucast n\<rparr>)"
    using r [of 1 "0xFFFFFFFF"] by (simp_all add: config_range_def)
qed (simp_all add: config_range_def)

lemma apply_staking_key_range: "config_range c \<Longrightarrow> apply_staking_key c k v = Some r \<Longrightarrow> config_range (snd r)"
  by (auto simp: apply_staking_key_def intro!: set_num_range set_num_in_range config_range_upd split: if_splits)

lemma apply_common_key_range: "config_range c \<Longrightarrow> apply_common_key c k v = Some r \<Longrightarrow> config_range (snd r)"
  using apply_staking_key_range [of c k v]
  by (auto simp: apply_common_key_def intro!: set_num_range set_num_in_range config_range_upd split: if_splits option.splits)

lemma apply_toml_chain_key_range: "config_range c \<Longrightarrow> apply_toml_chain_key c k v = Some r \<Longrightarrow> config_range (snd r)"
  using apply_common_key_range [of c k v]
  by (auto simp: apply_toml_chain_key_def intro!: set_num_range set_num_in_range config_range_upd split: if_splits)


lemma profile_range: "config_range (profile_for_mode seeds m)"
  by (cases m) (simp_all add: profile_for_mode_def testnet_chain_config_def mainnet_chain_config_def regtest_chain_config_def fast_chain_config_def
      apply_regtest_profile_def apply_fast_profile_def chain_config_init_def config_range_def kMainnetTargetBlockTimeSec_def kMainnetHalvingInterval_def)

lemma apply_network_profile_range: "config_range c \<Longrightarrow> config_range (apply_network_profile_chain seeds m c)"
  using profile_range [of seeds m] by (simp add: apply_network_profile_chain_def Let_def config_range_def)

text \<open>The invariant of a node configuration while it is assembled.\<close>

definition node_ok :: "node_config \<Rightarrow> bool" where
  "node_ok cfg \<longleftrightarrow> config_range (nd_chain cfg) \<and> (tor_socks_proxy cfg = [] \<or> is_ipv4_endpoint (tor_socks_proxy cfg))
     \<and> 1 \<le> unat (auto_mine_interval_sec cfg) \<and> unat (auto_mine_interval_sec cfg) \<le> 86400"

lemma node_ok_other [simp]:
  "node_ok (cfg\<lparr>nd_mode := x0\<rparr>) = node_ok cfg"
  "node_ok (cfg\<lparr>local_rpc_port := x1\<rparr>) = node_ok cfg"
  "node_ok (cfg\<lparr>lan_rpc_port := x2\<rparr>) = node_ok cfg"
  "node_ok (cfg\<lparr>p2p_port := x3\<rparr>) = node_ok cfg"
  "node_ok (cfg\<lparr>public_rpc_port := x4\<rparr>) = node_ok cfg"
  "node_ok (cfg\<lparr>public_rpc_bind := x5\<rparr>) = node_ok cfg"
  "node_ok (cfg\<lparr>enable_public_rpc := x6\<rparr>) = node_ok cfg"
  "node_ok (cfg\<lparr>enable_auto_mine := x7\<rparr>) = node_ok cfg"
  "node_ok (cfg\<lparr>auto_mine_reward := x8\<rparr>) = node_ok cfg"
  "node_ok (cfg\<lparr>nd_bootstrap_peers := x9\<rparr>) = node_ok cfg"
  "node_ok (cfg\<lparr>advertised_p2p := x10\<rparr>) = node_ok cfg"
  "node_ok (cfg\<lparr>nd_onion_only := x11\<rparr>) = node_ok cfg"
  "node_ok (cfg\<lparr>p2p_bind := x12\<rparr>) = node_ok cfg"
  "node_ok (cfg\<lparr>nd_dandelion := x13\<rparr>) = node_ok cfg"
  "node_ok (cfg\<lparr>data_dir := x14\<rparr>) = node_ok cfg"
  "node_ok (cfg\<lparr>config_path := x15\<rparr>) = node_ok cfg"
  "node_ok (cfg\<lparr>genesis_path := x16\<rparr>) = node_ok cfg"
  by (simp_all add: node_ok_def)

lemma node_ok_chain: "node_ok cfg \<Longrightarrow> config_range c \<Longrightarrow> node_ok (cfg\<lparr>nd_chain := c\<rparr>)"
  by (simp add: node_ok_def)

lemma node_ok_interval: "node_ok cfg \<Longrightarrow> n \<noteq> 0 \<Longrightarrow> \<not> n > 86400 \<Longrightarrow> node_ok (cfg\<lparr>auto_mine_interval_sec := ucast (n :: u64)\<rparr>)"
  using unat_range [of 1 n 86400] by (simp add: node_ok_def word_le_nat_alt unat_gt_0 Suc_le_eq not_less)

lemma node_ok_proxy: "node_ok cfg \<Longrightarrow> p = [] \<or> is_ipv4_endpoint p \<Longrightarrow> node_ok (cfg\<lparr>tor_socks_proxy := p\<rparr>)"
  by (simp add: node_ok_def)

lemma node_ok_range: "node_ok cfg \<Longrightarrow> config_range (nd_chain cfg)"
  by (simp add: node_ok_def)

lemma set_flag_ok: "node_ok cfg \<Longrightarrow> (\<And>b. node_ok (f b cfg)) \<Longrightarrow> node_ok (snd (set_flag f v cfg))"
  by (simp add: set_flag_def split: option.splits)

lemma set_port_ok: "node_ok cfg \<Longrightarrow> (\<And>b. node_ok (f b cfg)) \<Longrightarrow> node_ok (snd (set_port f v cfg))"
  by (simp add: set_port_def split: option.splits)

lemma apply_network_mode_ok: "node_ok cfg \<Longrightarrow> node_ok (apply_network_mode seeds m cfg)"
  by (simp add: apply_network_mode_def node_ok_def apply_network_profile_range)

lemma ok_if: "node_ok (snd a) \<Longrightarrow> node_ok (snd b) \<Longrightarrow> node_ok (snd (if P then a else b))"
  by simp

lemma kv_ok:
  assumes "node_ok cfg"
  shows "node_ok (snd (kv_network seeds v cfg))" "node_ok (snd (kv_peers v cfg))" "node_ok (snd (kv_proxy v cfg))"
    "node_ok (snd (kv_advertised v cfg))" "node_ok (snd (kv_interval v cfg))" "node_ok (snd (kv_reward v cfg))"
    "node_ok (snd (kv_pow v cfg))" "node_ok (snd (kv_chain full v cfg))"
  using assms apply_toml_chain_key_range [OF node_ok_range [OF assms]]
  by (auto simp: kv_network_def kv_peers_def kv_proxy_def kv_advertised_def kv_interval_def kv_reward_def kv_pow_def kv_chain_def
      intro!: apply_network_mode_ok node_ok_chain node_ok_proxy node_ok_interval dest: node_ok_range split: option.splits sum.splits)

lemma apply_kv_ok: "node_ok cfg \<Longrightarrow> node_ok (snd (apply_kv seeds table key raw cfg))"
  unfolding apply_kv_def Let_def
  by (intro ok_if kv_ok set_flag_ok set_port_ok) (simp_all add: node_ok_chain node_ok_range)


section \<open>The loaders\<close>

lemma toml_lines_ok: "node_ok cfg \<Longrightarrow> node_ok (snd (toml_lines seeds table ls cfg))"
proof (induction seeds table ls cfg rule: toml_lines.induct)
  case (2 seeds table raw ls cfg)
  let ?line = "trim_copy (strip_comment raw)"
  obtain k v where kv: "getfield CHR ''='' ?line = (k, v)" by fastforce
  obtain val rest where vr: "read_balanced_value (trim_copy v) (depth_of (trim_copy v)) ls = (val, rest)" by fastforce
  obtain r cfg' where r: "apply_kv seeds table (trim_copy k) val cfg = (r, cfg')" by fastforce
  have ok: "node_ok cfg'" using apply_kv_ok [OF "2.prems", of seeds table "trim_copy k" val] r by simp
  show ?case
  proof (cases "?line = [] \<or> hd ?line = CHR ''['' \<and> last ?line = CHR '']'' \<or> CHR ''='' \<notin> set ?line \<or> trim_copy k = []")
    case True
    then show ?thesis using "2.prems" "2.IH"(1) "2.IH"(2) kv vr by (auto simp: Let_def)
  next
    case False
    then show ?thesis using "2.IH"(3) kv vr r ok by (cases r) (auto simp: Let_def)
  qed
qed simp

lemma apply_genesis_field_range: "config_range c \<Longrightarrow> config_range (snd (apply_genesis_field c k v))"
  using apply_common_key_range [of c k v] by (auto simp: apply_genesis_field_def split: option.splits)

lemma genesis_chars_range: "config_range c \<Longrightarrow> config_range (snd (genesis_chars xs st c))"
proof (induction xs st c rule: genesis_chars.induct)
  case (6 x xs k v esc c)
  then show ?case using apply_genesis_field_range [of c k v] by (auto split: prod.splits sum.splits)
next
  case (7 x xs k v c)
  then show ?case using apply_genesis_field_range [of c k "trim_copy v"] by (auto split: prod.splits sum.splits)
qed auto

section \<open>The command line\<close>

definition cli_ok :: "cli \<Rightarrow> bool" where
  "cli_ok c \<longleftrightarrow> cli_tor_proxy c = [] \<or> is_ipv4_endpoint (cli_tor_proxy c)"

lemma cli_switch_ok: "cli_switch a = Some f \<Longrightarrow> cli_ok c \<Longrightarrow> cli_ok (f c)"
  by (auto simp: cli_switch_def cli_ok_def split: if_splits)

lemma cli_assign_ok: "cli_option a = Some f \<Longrightarrow> cli_ok c \<Longrightarrow> cli_assign a v f c = Inr c' \<Longrightarrow> cli_ok c'"
  by (auto simp: cli_option_def cli_assign_def cli_ok_def split: if_splits)

lemma parse_args_ok: "cli_ok c \<Longrightarrow> parse_args as c = Inr (Some c') \<Longrightarrow> cli_ok c'"
proof (induction as c arbitrary: c' rule: parse_args.induct)
  case (2 a as c)
  have nh: "\<not> (a = ''--help'' \<or> a = ''-h'')" using "2.prems"(2) by (auto split: if_splits)
  show ?case
  proof (cases "cli_switch a")
    case (Some f)
    then have "parse_args as (f c) = Inr (Some c')" using "2.prems"(2) nh by simp
    with "2.IH"(3) [OF nh Some] cli_switch_ok [OF Some] "2.prems"(1) show ?thesis by blast
  next
    case ns: None
    show ?thesis
    proof (cases "cli_option a")
      case (Some f)
      then obtain v as' c1 where v: "as = v # as'" "cli_assign a v f c = Inr c1" "parse_args as' c1 = Inr (Some c')"
        using ns nh "2.prems"(2) by (auto split: list.splits sum.splits)
      with "2.IH"(2) [OF nh ns Some v(1,2)] cli_assign_ok [OF Some "2.prems"(1) v(2)] show ?thesis by blast
    next
      case None
      obtain name v where nv: "getfield CHR ''='' a = (name, v)" by fastforce
      then obtain f c1 where f: "cli_option name = Some f" "cli_assign name v f c = Inr c1" "parse_args as c1 = Inr (Some c')"
        and e: "CHR ''='' \<in> set a \<and> cli_option name \<noteq> None \<and> name \<noteq> ''--p2p-bind''"
        using ns nh None "2.prems"(2) by (auto split: if_splits sum.splits)
      have "cli_assign name v (the (cli_option name)) c = Inr c1" using f by simp
      with "2.IH"(1) [OF nh ns None refl nv [symmetric] e] cli_assign_ok [OF f(1) "2.prems"(1) f(2)] f(3) show ?thesis by blast
    qed
  qed
qed auto

lemma default_proxy: "is_ipv4_endpoint ''127.0.0.1:9050''"
proof -
  have "rsplit CHR '':'' ''127.0.0.1:9050'' = Some (''127.0.0.1'', ''9050'')" by (simp add: rsplit_def)
  moreover have "parse_u16 ''9050'' = Some 9050"
    by (simp add: parse_u16_def parse_u64_def stoull0_def Let_def is_space_def base_digit_def hex_val_def base_num_def)
  ultimately show ?thesis
    using demo_proxy(2) by (simp add: is_ipv4_endpoint_def is_ipv4_host_def)
qed

section \<open>The stages\<close>

lemma node_config_for_ok: "node_ok (node_config_for seeds m)"
proof -
  have "config_range (profile_for_mode seeds m)" by (rule profile_range)
  then show ?thesis
    by (cases m) (simp_all add: node_ok_def node_config_for_def profile_for_mode_def default_node_config_def mainnet_node_config_def
        regtest_node_config_def fast_node_config_def node_config_init_def)
qed

lemma load_config_stage_ok: "node_ok cfg \<Longrightarrow> load_config_stage seeds fs c m cfg = Inr cfg' \<Longrightarrow> node_ok cfg'"
  using toml_lines_ok [of cfg seeds "[]"]
  by (auto simp: load_config_stage_def load_toml_config_def Let_def split: if_splits option.splits prod.splits sum.splits) (metis snd_conv)+

lemma load_genesis_stage_ok: "node_ok cfg \<Longrightarrow> load_genesis_stage fs c m cfg = Inr cfg' \<Longrightarrow> node_ok cfg'"
proof -
  assume a: "node_ok cfg" "load_genesis_stage fs c m cfg = Inr cfg'"
  have "config_range ch" if "genesis_chars t SeekKey (nd_chain cfg) = (Inr (), ch)" for t ch
    using genesis_chars_range [OF node_ok_range [OF a(1)], of t SeekKey] that by simp
  then show ?thesis using a
    by (auto simp: load_genesis_stage_def load_genesis_json_def Let_def node_ok_def split: if_splits option.splits prod.splits sum.splits)
qed

lemma cli_port_ok: "node_ok cfg \<Longrightarrow> cli_port opt v f cfg = Inr cfg' \<Longrightarrow> (\<And>n. node_ok (f n cfg)) \<Longrightarrow> node_ok cfg'"
  by (auto simp: cli_port_def split: if_splits option.splits)

lemma overrides_stage_ok:
  assumes "node_ok cfg" and "overrides_stage c cfg = Inr cfg'"
  shows "node_ok cfg'"
proof -
  let ?c0 = "cfg\<lparr>data_dir := (if cli_data_dir c \<noteq> [] then cli_data_dir c else data_dir cfg), enable_public_rpc := (public_rpc_from_cli c \<or> enable_public_rpc cfg)\<rparr>"
  obtain c1 c2 c3 where 1: "cli_port ''--public-rpc-port'' (cli_public_rpc_port c) (\<lambda>n x. x\<lparr>public_rpc_port := n\<rparr>) ?c0 = Inr c1"
    and 2: "cli_port ''--local-rpc-port'' (cli_local_rpc_port c) (\<lambda>n x. x\<lparr>local_rpc_port := n\<rparr>)
        (if cli_public_rpc_bind c \<noteq> [] then c1\<lparr>public_rpc_bind := cli_public_rpc_bind c\<rparr> else c1) = Inr c2"
    and 3: "cli_port ''--p2p-port'' (cli_p2p_port c) (\<lambda>n x. x\<lparr>p2p_port := n\<rparr>) c2 = Inr c3"
    and 4: "(if cli_bootstrap c = [] then Inr c3
       else case find (\<lambda>p. \<not> is_peer_endpoint p) (cli_bootstrap c) of
            Some p \<Rightarrow> Inl (''invalid --bootstrap (IPv4 or v3 .onion host:port only): '' @ p)
          | None \<Rightarrow> Inr (c3\<lparr>nd_bootstrap_peers := cli_bootstrap c, nd_chain := (nd_chain c3)\<lparr>bootstrap_peers := cli_bootstrap c\<rparr>\<rparr>)) = Inr cfg'"
    using assms(2) unfolding overrides_stage_def bind_res_Inr by auto
  have o1: "node_ok c1" by (rule cli_port_ok [OF _ 1]) (simp_all add: assms(1))
  have o2: "node_ok c2" by (rule cli_port_ok [OF _ 2]) (simp_all add: o1)
  have o3: "node_ok c3" by (rule cli_port_ok [OF _ 3]) (simp_all add: o2)
  show ?thesis using 4 o3 node_ok_range [OF o3] by (auto simp: node_ok_chain split: if_splits option.splits)
qed

definition onion_bound :: "node_config \<Rightarrow> bool" where
  "onion_bound cfg \<longleftrightarrow> (nd_onion_only cfg \<longrightarrow> p2p_bind cfg = ''127.0.0.1'' \<and> public_rpc_bind cfg = ''127.0.0.1'' \<and> tor_socks_proxy cfg \<noteq> [])"

lemma tor_stage_ok: "node_ok cfg \<Longrightarrow> cli_ok c \<Longrightarrow> node_ok (tor_stage c cfg) \<and> onion_bound (tor_stage c cfg)"
  using default_proxy by (auto simp: tor_stage_def Let_def node_ok_def cli_ok_def onion_bound_def)

lemma auto_mine_stage_ok:
  assumes "node_ok cfg" and "onion_bound cfg" and "auto_mine_stage c cfg = Inr cfg'"
  shows "node_ok cfg' \<and> onion_bound cfg'"
proof -
  have b: "onion_bound (cfg\<lparr>enable_auto_mine := x, auto_mine_reward := y\<rparr>)" "onion_bound (cfg\<lparr>enable_auto_mine := x\<rparr>)"
    "onion_bound (cfg\<lparr>enable_auto_mine := x, auto_mine_interval_sec := z, auto_mine_reward := y\<rparr>)"
    "onion_bound (cfg\<lparr>enable_auto_mine := x, auto_mine_interval_sec := z\<rparr>)" for x y z
    using assms(2) by (simp_all add: onion_bound_def)
  have i: "node_ok (cfg\<lparr>enable_auto_mine := x, auto_mine_interval_sec := ucast n\<rparr>)" if "n \<noteq> 0" "\<not> 86400 < n" for x and n :: u64
    by (rule node_ok_interval) (use assms(1) that in simp_all)
  show ?thesis using assms(1,3) b i by (auto simp: auto_mine_stage_def Let_def split: if_splits option.splits)
qed

lemma regtest_stage_ok:
  "node_ok cfg \<Longrightarrow> onion_bound cfg \<Longrightarrow> node_ok (regtest_stage seeds c m cfg) \<and> onion_bound (regtest_stage seeds c m cfg) \<and> nd_mode (regtest_stage seeds c m cfg) = m"
  using apply_network_mode_ok [of "cfg\<lparr>nd_mode := m\<rparr>" seeds Regtest]
  by (auto simp: regtest_stage_def Let_def onion_bound_def apply_network_mode_def)

definition peers_ok :: "node_config \<Rightarrow> bool" where
  "peers_ok cfg \<longleftrightarrow> list_all is_peer_endpoint (nd_bootstrap_peers cfg) \<and> bootstrap_peers (nd_chain cfg) = nd_bootstrap_peers cfg"

lemma seeds_stage_ok:
  assumes "node_ok cfg" and "onion_bound cfg" and "nd_mode cfg = m" and "seeds_stage h env fs c m cfg = Inr cfg'"
  shows "node_ok cfg' \<and> onion_bound cfg' \<and> peers_ok cfg' \<and> nd_mode cfg' = m"
proof -
  obtain cfg1 where 1: "(if nd_bootstrap_peers cfg \<noteq> [] then Inr cfg
        else
          (case m of
             Mainnet \<Rightarrow>
               (let path = (if cli_seeds_file c = [] then default_mainnet_seed_file env else cli_seeds_file c) in
                if cli_seeds_file c \<noteq> [] \<or> fs path \<noteq> None
                then bind_res (load_seed_file h fs path) (\<lambda>s. Inr (cfg\<lparr>nd_bootstrap_peers := s\<rparr>))
                else Inr cfg)
           | Fast \<Rightarrow> Inr (cfg\<lparr>nd_bootstrap_peers := [''127.0.0.1:28547'']\<rparr>)
           | _ \<Rightarrow> Inr (cfg\<lparr>nd_bootstrap_peers := [''127.0.0.1:28545'']\<rparr>))) = Inr cfg1"
    and 2: "find (\<lambda>p. \<not> is_peer_endpoint p) (nd_bootstrap_peers cfg1) = None"
    and 3: "cfg' = cfg1\<lparr>nd_chain := (nd_chain cfg1)\<lparr>bootstrap_peers := nd_bootstrap_peers cfg1\<rparr>\<rparr>"
    using assms(4) unfolding seeds_stage_def bind_res_Inr by (auto split: option.splits)
  have self: "\<exists>s. x = x\<lparr>nd_bootstrap_peers := s\<rparr>" for x :: node_config by (rule exI [of _ "nd_bootstrap_peers x"]) simp
  have "\<exists>s. cfg1 = cfg\<lparr>nd_bootstrap_peers := s\<rparr>"
    using 1 by (cases m) (auto simp: bind_res_Inr Let_def self split: if_splits)
  then obtain s where "cfg1 = cfg\<lparr>nd_bootstrap_peers := s\<rparr>" by blast
  with 2 3 have s: "find (\<lambda>p. \<not> is_peer_endpoint p) s = None"
    "cfg' = cfg\<lparr>nd_bootstrap_peers := s, nd_chain := (nd_chain cfg)\<lparr>bootstrap_peers := s\<rparr>\<rparr>" by simp_all
  then have "list_all is_peer_endpoint s" by (simp add: find_None_iff list_all_iff)
  then show ?thesis using s(2) assms(1-3) by (simp add: node_ok_def onion_bound_def peers_ok_def)
qed

lemma advertise_stage_ok:
  "advertise_stage env cfg = Inr cfg' \<Longrightarrow> node_ok cfg \<and> onion_bound cfg \<and> peers_ok cfg \<Longrightarrow> node_ok cfg' \<and> onion_bound cfg' \<and> peers_ok cfg' \<and> nd_mode cfg' = nd_mode cfg"
  by (auto simp: advertise_stage_def bind_res_Inr onion_bound_def peers_ok_def split: option.splits)


section \<open>Accepted configurations\<close>

text \<open>The consensus rules of the main network.\<close>

definition mainnet_rules :: "net_config \<Rightarrow> bool" where
  "mainnet_rules c \<longleftrightarrow> network_id c = ''ADDITION_MAINNET_V1'' \<and> max_supply c = 50000000 \<and> block_reward c = 4 \<and> halving_interval c = 5681819
     \<and> subsidy_floor c = 1 \<and> target_block_time_sec c = 20 \<and> min_difficulty_target c = 0xFFFFFF \<and> max_difficulty_target c = 0xFFFFFFFFFF
     \<and> initial_difficulty_target c = 0xFFFFFFFFFF \<and> pow_alg c = MemoryHard \<and> staking_activation_height c = 14772727 \<and> \<not> shielded_enabled c
     \<and> 1 \<le> unat (stake_vote_quorum c) \<and> stake_vote_quorum c \<le> stake_votes_per_block c \<and> stake_reward_bps c \<le> 10000"

lemmas config_constants = kMainnetNetworkId_def kMainnetMaxSupply_def kMainnetBlockReward_def kMainnetHalvingInterval_def kMainnetSubsidyFloor_def
  kMainnetTargetBlockTimeSec_def kMainnetMinDifficultyTarget_def kTestnetHardDifficultyTarget_def kMainnetStakingActivationHeight_def
  kRegtestNetworkId_def kFastNetworkId_def kTestnetNetworkId_def kMainnetGenesisTimestamp_def kTestnetGenesisTimestamp_def
  kRegtestMinDifficultyTarget_def kOperatorPublicP2p_def

lemma validate_mainnet_rules: "validate_mainnet cfg = Inr () \<Longrightarrow> mainnet_rules (nd_chain cfg)"
  by (auto simp: validate_mainnet_def mainnet_rules_def config_constants Let_def not_less unat_gt_0 Suc_le_eq word_le_nat_alt split: if_splits)

lemma validate_not_fast: "validate_network_profile cfg = Inr () \<Longrightarrow> nd_mode cfg \<noteq> Fast"
  by (auto simp: validate_network_profile_def fast_path_boot_allowed_def kFastPathPipelineShipped_def split: if_splits)

text \<open>
  Claim C28. A node that starts has a sound configuration. Whatever the command line, the environment, the
  TOML file, the genesis file and the seed file contain, a configuration that the start-up accepts has
  all consensus parameters in their ranges, only well-formed bootstrap addresses, the same in both
  copies, and is not the unfinished fast profile; when it is restricted to onion services it binds
  to the loopback address only and has a proxy; and on the main network every consensus rule has its
  fixed value.
\<close>

theorem startup_config_sound:
  assumes "apply_cli_args h env fs args = Inr (Some cfg)"
  shows "node_ok cfg \<and> onion_bound cfg \<and> peers_ok cfg \<and> nd_mode cfg \<noteq> Fast \<and> (nd_mode cfg = Mainnet \<longrightarrow> mainnet_rules (nd_chain cfg))"
proof -
  let ?seeds = "mainnet_default_seeds h env fs"
  obtain c m c1 c2 c3 c4 c5 where a: "parse_args args cli_init = Inr (Some c)" and b: "load_config_stage ?seeds fs c m (node_config_for ?seeds m) = Inr c1"
    and d: "load_genesis_stage fs c m c1 = Inr c2" and e: "overrides_stage c c2 = Inr c3" and f: "auto_mine_stage c (tor_stage c c3) = Inr c4"
    and g: "seeds_stage h env fs c m (regtest_stage ?seeds c m c4) = Inr c5" and i: "advertise_stage env c5 = Inr cfg"
    and v: "validate_network_profile cfg = Inr ()"
    using assms unfolding apply_cli_args_def Let_def bind_res_Inr by (auto simp: bind_res_Inr split: option.splits)
  have "cli_ok c" using parse_args_ok [OF _ a] by (simp add: cli_ok_def cli_init_def)
  then have 1: "node_ok (tor_stage c c3) \<and> onion_bound (tor_stage c c3)"
    using tor_stage_ok overrides_stage_ok [OF load_genesis_stage_ok [OF load_config_stage_ok [OF node_config_for_ok b] d] e] by blast
  then have 2: "node_ok c4 \<and> onion_bound c4" using auto_mine_stage_ok f by blast
  then have "node_ok (regtest_stage ?seeds c m c4) \<and> onion_bound (regtest_stage ?seeds c m c4) \<and> nd_mode (regtest_stage ?seeds c m c4) = m"
    using regtest_stage_ok by blast
  then have "node_ok c5 \<and> onion_bound c5 \<and> peers_ok c5 \<and> nd_mode c5 = m" using seeds_stage_ok [OF _ _ _ g] by blast
  then have "node_ok cfg \<and> onion_bound cfg \<and> peers_ok cfg" using advertise_stage_ok [OF i] by blast
  moreover have "mainnet_rules (nd_chain cfg)" if "nd_mode cfg = Mainnet"
    using v that by (intro validate_mainnet_rules) (simp add: validate_network_profile_def)
  ultimately show ?thesis using validate_not_fast [OF v] by blast
qed

lemma loopback_peer: "is_peer_endpoint ''127.0.0.1:28545''"
proof -
  have "split_host_port ''127.0.0.1:28545'' = Some (''127.0.0.1'', 28545)"
    by (simp add: split_host_port_def rsplit_def is_digit_char_def undec_def char_digit_def)
  then show ?thesis using demo_proxy(2) by (simp add: is_peer_endpoint_def)
qed

theorem startup_config_sound_witness:
  "\<exists>cfg. apply_cli_args (\<lambda>_. []) Map.empty Map.empty [''--onion-only''] = Inr (Some cfg) \<and> nd_onion_only cfg \<and> p2p_bind cfg = ''127.0.0.1'' \<and> node_ok cfg"
proof -
  have p: "parse_args [''--onion-only''] cli_init = Inr (Some (cli_init\<lparr>cli_onion_only := True\<rparr>))" by (simp add: cli_switch_def)
  have r: "\<exists>cfg. apply_cli_args (\<lambda>_. []) Map.empty Map.empty [''--onion-only''] = Inr (Some cfg) \<and> nd_onion_only cfg"
    unfolding apply_cli_args_def Let_def p
    by (simp add: bind_res_def cli_init_def select_mode_def load_config_stage_def first_existing_def config_candidates_def file_exists_def
        load_genesis_stage_def genesis_candidates_def node_config_for_def default_node_config_def node_config_init_def testnet_chain_config_def
        overrides_stage_def cli_port_def tor_stage_def auto_mine_stage_def regtest_stage_def seeds_stage_def loopback_peer advertise_stage_def
        validate_network_profile_def validate_testnet_def chain_config_init_def config_constants Let_def)
  then obtain cfg where "apply_cli_args (\<lambda>_. []) Map.empty Map.empty [''--onion-only''] = Inr (Some cfg)" "nd_onion_only cfg" by blast
  with startup_config_sound [OF this(1)] show ?thesis by (auto simp: onion_bound_def)
qed

text \<open>
  Claim C29. Networks cannot be confused: two configurations that pass the validation in different modes have
  different network identifiers. The built-in profiles of the main network and the two test networks pass,
  and the one of the fast path does not.
\<close>

theorem networks_never_mixed:
  shows "(\<forall>c d. validate_network_profile c = Inr () \<and> validate_network_profile d = Inr () \<and> nd_mode c \<noteq> nd_mode d
       \<longrightarrow> network_id (nd_chain c) \<noteq> network_id (nd_chain d))
    \<and> validate_network_profile default_node_config = Inr () \<and> validate_network_profile regtest_node_config = Inr ()
    \<and> (\<forall>seeds. kOperatorPublicP2p \<notin> set seeds \<longrightarrow> validate_network_profile (mainnet_node_config seeds) = Inr ())
    \<and> validate_network_profile fast_node_config \<noteq> Inr ()"
proof -
  have id: "case nd_mode c of Mainnet \<Rightarrow> network_id (nd_chain c) = kMainnetNetworkId | Regtest \<Rightarrow> network_id (nd_chain c) = kRegtestNetworkId
      | Testnet \<Rightarrow> network_id (nd_chain c) \<notin> {kMainnetNetworkId, kRegtestNetworkId} | Fast \<Rightarrow> False"
    if "validate_network_profile c = Inr ()" for c
    using that validate_not_fast [OF that]
    by (auto simp: validate_network_profile_def validate_mainnet_def validate_regtest_def validate_testnet_def Let_def split: network_mode.splits if_splits)
  have ne: "kMainnetNetworkId \<noteq> kRegtestNetworkId" by (simp add: kMainnetNetworkId_def kRegtestNetworkId_def)
  have mix: "network_id (nd_chain c) \<noteq> network_id (nd_chain d)"
    if "validate_network_profile c = Inr ()" "validate_network_profile d = Inr ()" "nd_mode c \<noteq> nd_mode d" for c d
    using id [OF that(1)] id [OF that(2)] that(3) ne by (cases "nd_mode c"; cases "nd_mode d") auto
  have em: "fst (scheduled_total_emission kMainnetMaxSupply kMainnetBlockReward (ucast kMainnetHalvingInterval) kMainnetSubsidyFloor) = kMainnetMaxSupply"
    using mainnet_emission_schedule by simp
  have mn: "validate_network_profile (mainnet_node_config seeds) = Inr ()" if "kOperatorPublicP2p \<notin> set seeds" for seeds
  proof -
    have "nd_chain (mainnet_node_config seeds) = mainnet_chain_config seeds" "nd_mode (mainnet_node_config seeds) = Mainnet"
      "nd_bootstrap_peers (mainnet_node_config seeds) = seeds"
      by (simp_all add: mainnet_node_config_def mainnet_chain_config_def)
    moreover have "max_supply (mainnet_chain_config seeds) = kMainnetMaxSupply" "block_reward (mainnet_chain_config seeds) = kMainnetBlockReward"
      "halving_interval (mainnet_chain_config seeds) = kMainnetHalvingInterval" "subsidy_floor (mainnet_chain_config seeds) = kMainnetSubsidyFloor"
      by (simp_all add: mainnet_chain_config_def)
    ultimately show ?thesis using that em unfolding validate_network_profile_def validate_mainnet_def Let_def
      by (simp add: mainnet_chain_config_def chain_config_init_def kMainnetGenesisTimestamp_def kTestnetGenesisTimestamp_def)
  qed
  have "validate_network_profile default_node_config = Inr ()" "validate_network_profile regtest_node_config = Inr ()"
    by (simp_all add: validate_network_profile_def validate_testnet_def validate_regtest_def default_node_config_def regtest_node_config_def node_config_init_def
        testnet_chain_config_def regtest_chain_config_def apply_regtest_profile_def chain_config_init_def config_constants Let_def)
  moreover have "validate_network_profile fast_node_config \<noteq> Inr ()"
    using validate_not_fast [of fast_node_config] by (auto simp: fast_node_config_def)
  ultimately show ?thesis using mix mn by blast
qed


theorem networks_never_mixed_witness:
  "validate_network_profile (mainnet_node_config []) = Inr ()
     \<and> network_id (nd_chain (mainnet_node_config [])) \<noteq> network_id (nd_chain default_node_config)"
proof -
  have "validate_network_profile (mainnet_node_config []) = Inr ()" "validate_network_profile default_node_config = Inr ()"
    using networks_never_mixed by simp_all
  moreover have "nd_mode (mainnet_node_config []) \<noteq> nd_mode default_node_config" by (simp add: mainnet_node_config_def default_node_config_def)
  ultimately show ?thesis using networks_never_mixed by blast
qed

text \<open>
  The genesis reader ends a value at the first comma, also inside an array: a list of two bootstrap peers
  is refused, without an error text.
\<close>

theorem genesis_array_refused:
  "genesis_chars ([CHR 0x22] @ ''bootstrap_peers'' @ [CHR 0x22] @ '':['' @ [CHR 0x22] @ ''a:1'' @ [CHR 0x22] @ '','' @ [CHR 0x22] @ ''b:1'' @ [CHR 0x22] @ '']'') SeekKey c
     = (Inl [], c)"
  by (simp add: is_space_def apply_genesis_field_def parse_string_array_def trim_copy_def trim_end_def)

end
