(* ===== verification/Public_Rpc.thy ===== *)
theory Public_Rpc
  imports Text_Records Crypto_Model
begin

text \<open>
  The public read-only RPC (\<^verbatim>\<open>rpc_access.cpp\<close>): the allowlists, the HTTP and JSON-RPC parsers, the
  responses, and the dispatch of a request. The command interpreter \<^verbatim>\<open>RpcServer::handle_command\<close> is a
  parameter, a function on any state, so the theorems hold for whatever it does: only commands of the
  allowlist reach it, at most one per request and never as trusted. Positions in a text are suffixes of it.
\<close>

section \<open>Commands\<close>

definition is_public_read_command :: "string \<Rightarrow> bool" where
  "is_public_read_command cmd \<longleftrightarrow> cmd \<in> set [''getinfo'', ''monetary_info'', ''crypto_selftest'', ''tx_status'', ''peers'', ''getblock'', ''getblockhash'', ''getblockraw'']"

definition is_remote_allowed_command :: "string \<Rightarrow> bool" where
  "is_remote_allowed_command cmd \<longleftrightarrow> is_public_read_command cmd
     \<or> cmd \<in> set [''protocol_status'', ''fee_info'', ''node_pubkey'', ''getbalance'', ''getbalance_instant'', ''staked'', ''stake_claimable'',
         ''token_balance'', ''token_info'', ''swap_quote'', ''swap_pool_info'', ''swap_quote_route'', ''swap_best_route'', ''nft_owner'', ''nft_info'',
         ''swap_tvl'', ''privacy_status'', ''bridge_balance'', ''bridge_attestor'', ''pouw_storage_deal_status'', ''pouw_storage_worker_status'',
         ''pouw_compute_job_status'', ''pouw_compute_worker_status'', ''pm_inbox'', ''pm_status'', ''pm_fetch'', ''verify_message'', ''ai_status'']"

definition first_command_token :: "string \<Rightarrow> string" where
  "first_command_token line = (case read_word line of None \<Rightarrow> [] | Some (w, _) \<Rightarrow> w)"

section \<open>HTTP\<close>

definition hex_value :: "char \<Rightarrow> nat option" where
  "hex_value c =
     (let n = of_char c :: nat in
      if 48 \<le> n \<and> n \<le> 57 then Some (n - 48)
      else if 97 \<le> n \<and> n \<le> 102 then Some (10 + (n - 97))
      else if 65 \<le> n \<and> n \<le> 70 then Some (10 + (n - 65))
      else None)"

fun url_decode :: "string \<Rightarrow> string" where
  "url_decode [] = []"
| "url_decode (c # s) =
     (if c = CHR ''+'' then CHR '' '' # url_decode s
      else case (c = CHR ''%'', s) of
        (True, h # l # r) \<Rightarrow>
          (case (hex_value h, hex_value l) of
             (Some a, Some b) \<Rightarrow> char_of (16 * a + b) # url_decode r
           | _ \<Rightarrow> c # url_decode s)
      | _ \<Rightarrow> c # url_decode s)"

definition query_param :: "string \<Rightarrow> string \<Rightarrow> string" where
  "query_param query key =
     (case find (\<lambda>p. url_decode (fst (getfield CHR ''='' p)) = key) (getlines CHR ''&'' query) of
        None \<Rightarrow> []
      | Some p \<Rightarrow> url_decode (snd (getfield CHR ''='' p)))"

text \<open>Method, path and query of the request line.\<close>

definition request_path_query :: "string \<Rightarrow> (string \<times> string \<times> string) option" where
  "request_path_query raw =
     (case read_word raw of
        None \<Rightarrow> None
      | Some (method, r) \<Rightarrow>
          (case read_word r of
             None \<Rightarrow> None
           | Some (target, r) \<Rightarrow>
               (case read_word r of
                  None \<Rightarrow> None
                | Some _ \<Rightarrow> (let (path, query) = getfield CHR ''?'' target in Some (method, path, query)))))"

text \<open>The text after the first occurrence of a separator.\<close>

fun after_first :: "string \<Rightarrow> string \<Rightarrow> string option" where
  "after_first p [] = (if p = [] then Some [] else None)"
| "after_first p (c # s) = (if starts_with p (c # s) then Some (drop (length p) (c # s)) else after_first p s)"

abbreviation cr_char :: char where "cr_char \<equiv> CHR 0x0D"

definition crlf :: string where "crlf = [cr_char, newline]"

definition http_body :: "string \<Rightarrow> string" where
  "http_body raw =
     (case after_first (crlf @ crlf) raw of
        Some b \<Rightarrow> b
      | None \<Rightarrow> (case after_first [newline, newline] raw of Some b \<Rightarrow> b | None \<Rightarrow> []))"

definition is_http_rpc_request :: "string \<Rightarrow> bool" where
  "is_http_rpc_request raw \<longleftrightarrow> list_ex (\<lambda>p. starts_with p raw) [''GET '', ''POST '', ''OPTIONS '', ''HEAD '']"

definition parse_http_rpc_command :: "string \<Rightarrow> string res" where
  "parse_http_rpc_command raw =
     (case request_path_query raw of
        None \<Rightarrow> Inl ''malformed request line''
      | Some (method, path, query) \<Rightarrow>
          if method = ''OPTIONS'' \<or> method = ''HEAD'' then Inr []
          else if path \<noteq> ''/rpc'' \<and> path \<noteq> ''/rpc/'' then Inl ''not an RPC path''
          else
            (let cmd = query_param query ''cmd'';
                 cmd = (if cmd = [] \<and> method = ''POST''
                        then rev (dropWhile (\<lambda>c. c = newline \<or> c = cr_char \<or> c = CHR '' '') (rev (http_body raw))) else cmd) in
             if cmd = [] then Inl ''missing cmd'' else Inr cmd))"

definition public_rpc_banner_text :: "string \<Rightarrow> string" where
  "public_rpc_banner_text network_mode = ''addition-public-rpc read-only '' @ network_mode"

definition http_reason :: "nat \<Rightarrow> string" where
  "http_reason status =
     (if status = 200 then ''OK'' else if status = 204 then ''No Content'' else if status = 400 then ''Bad Request''
      else if status = 403 then ''Forbidden'' else if status = 404 then ''Not Found'' else if status = 405 then ''Method Not Allowed''
      else ''Error'')"

definition http_head :: "nat \<Rightarrow> string \<Rightarrow> nat \<Rightarrow> string" where
  "http_head status content_type len =
     ''HTTP/1.1 '' @ dec status @ '' '' @ http_reason status @ crlf
     @ ''Content-Type: '' @ content_type @ crlf
     @ ''Content-Length: '' @ dec len @ crlf
     @ ''Access-Control-Allow-Origin: *'' @ crlf
     @ ''Access-Control-Allow-Methods: GET, OPTIONS'' @ crlf
     @ ''Access-Control-Allow-Headers: Content-Type'' @ crlf
     @ ''Cache-Control: no-store'' @ crlf
     @ ''Connection: close'' @ crlf"

definition http_rpc_response :: "nat \<Rightarrow> string \<Rightarrow> string \<Rightarrow> string" where
  "http_rpc_response status body content_type = http_head status content_type (length body) @ crlf @ body"

definition plain :: string where "plain = ''text/plain; charset=utf-8''"
definition json_type :: string where "json_type = ''application/json''"

section \<open>JSON\<close>

abbreviation dq :: char where "dq \<equiv> CHR 0x22"
abbreviation bs :: char where "bs \<equiv> CHR 0x5C"

definition quoted :: "string \<Rightarrow> string" where "quoted s = dq # s @ [dq]"

definition json_escape_char :: "char \<Rightarrow> string" where
  "json_escape_char c =
     (if c = dq then [bs, dq] else if c = bs then [bs, bs]
      else if c = newline then [bs, CHR ''n''] else if c = cr_char then [bs, CHR ''r''] else if c = CHR 0x09 then [bs, CHR ''t'']
      else if (of_char c :: nat) < 32 then bs # ''u00'' @ byte_hex c else [c])"

definition json_escape :: "string \<Rightarrow> string" where
  "json_escape s = concat (map json_escape_char s)"

definition json_head :: "string \<Rightarrow> string" where
  "json_head id_json = ''{'' @ quoted ''jsonrpc'' @ '':'' @ quoted ''2.0'' @ '','' @ quoted ''id'' @ '':'' @ id_json @ '',''"

definition jsonrpc_result_body :: "string \<Rightarrow> string \<Rightarrow> string" where
  "jsonrpc_result_body id_json result_text = json_head id_json @ quoted ''result'' @ '':'' @ quoted (json_escape result_text) @ ''}''"

definition int_text :: "int \<Rightarrow> string" where
  "int_text n = (if n < 0 then ''-'' @ dec (nat (- n)) else dec (nat n))"

definition jsonrpc_error_body :: "string \<Rightarrow> int \<Rightarrow> string \<Rightarrow> string" where
  "jsonrpc_error_body id_json code msg =
     json_head id_json @ quoted ''error'' @ '':{'' @ quoted ''code'' @ '':'' @ int_text code @ '','' @ quoted ''message'' @ '':'' @ quoted (json_escape msg) @ ''}}''"

definition skip_ws :: "string \<Rightarrow> string" where
  "skip_ws s = dropWhile (\<lambda>c. c = CHR '' '' \<or> c = CHR 0x09 \<or> c = newline \<or> c = cr_char) s"

text \<open>The character that an escape stands for.\<close>

definition json_unescape :: "char \<Rightarrow> char option" where
  "json_unescape e =
     (if e = dq \<or> e = bs \<or> e = CHR ''/'' then Some e else if e = CHR ''n'' then Some newline
      else if e = CHR ''r'' then Some cr_char else if e = CHR ''t'' then Some (CHR 0x09) else None)"

text \<open>\<^verbatim>\<open>parse_json_string\<close> after the opening quote: the value and the text after the closing quote.\<close>

fun json_chars :: "string \<Rightarrow> (string \<times> string) option" where
  "json_chars [] = None"
| "json_chars (c # s) =
     (if c = dq then Some ([], s)
      else if c = bs then
        (case s of
           [] \<Rightarrow> None
         | e # r \<Rightarrow> (case json_unescape e of None \<Rightarrow> None | Some x \<Rightarrow> map_option (apfst (Cons x)) (json_chars r)))
      else map_option (apfst (Cons c)) (json_chars s))"

declare json_chars.simps(2) [simp del]

definition parse_json_string :: "string \<Rightarrow> (string \<times> string) option" where
  "parse_json_string s = (case skip_ws s of [] \<Rightarrow> None | c # r \<Rightarrow> if c = dq then json_chars r else None)"

definition parse_json_number_token :: "string \<Rightarrow> (string \<times> string) option" where
  "parse_json_number_token s =
     (let s = skip_ws s;
          sign = (if s \<noteq> [] \<and> hd s = CHR ''-'' then ''-'' else []);
          r = drop (length sign) s;
          ds = takeWhile is_digit_char r in
      if ds = [] then None else Some (sign @ ds, dropWhile is_digit_char r))"

lemma json_chars_length: "json_chars s = Some (v, r) \<Longrightarrow> length r < length s"
proof (induction s arbitrary: v rule: length_induct)
  case (1 s)
  show ?case
  proof (cases s)
    case (Cons c t)
    have IH: "length r < length q" if "json_chars q = Some (v', r)" "length q < length s" for q v' using 1(1) that by blast
    from 1(2) consider "r = t" | v' where "json_chars t = Some (v', r)" | e q v' where "t = e # q" "json_chars q = Some (v', r)"
      unfolding Cons json_chars.simps(2) by (auto split: if_splits list.splits option.splits)
    then show ?thesis
    proof cases
      case 2
      from IH [OF this] show ?thesis by (simp add: Cons)
    next
      case 3
      from IH [OF 3(2)] show ?thesis by (simp add: Cons 3(1))
    qed (simp add: Cons)
  qed (use 1(2) in simp)
qed

lemma skip_ws_length: "length (skip_ws s) \<le> length s"
  by (simp add: skip_ws_def length_dropWhile_le)

lemma parse_json_string_length: "parse_json_string s = Some (v, r) \<Longrightarrow> length r < length s"
  using json_chars_length [of "tl (skip_ws s)" v r] skip_ws_length [of s]
  by (auto simp: parse_json_string_def split: list.splits if_splits)

lemma parse_json_number_length: "parse_json_number_token s = Some (v, r) \<Longrightarrow> length r < length s"
proof -
  assume a: "parse_json_number_token s = Some (v, r)"
  define t where "t = drop (if skip_ws s \<noteq> [] \<and> hd (skip_ws s) = CHR ''-'' then 1 else 0) (skip_ws s)"
  have r: "r = dropWhile is_digit_char t" "takeWhile is_digit_char t \<noteq> []"
    using a by (auto simp: parse_json_number_token_def Let_def t_def split: if_splits)
  then have "length r < length t" by (metis append_self_conv2 length_append add.commute le_neq_implies_less length_dropWhile_le length_0_conv add_cancel_left_right takeWhile_dropWhile_id)
  also have "length t \<le> length s" using skip_ws_length [of s] by (simp add: t_def)
  finally show ?thesis .
qed

text \<open>One entry of \<^verbatim>\<open>params\<close>.\<close>

definition json_param :: "string \<Rightarrow> (string \<times> string) res" where
  "json_param s =
     (if hd s = dq then (case parse_json_string s of None \<Rightarrow> Inl ''invalid params string'' | Some r \<Rightarrow> Inr r)
      else (case parse_json_number_token s of None \<Rightarrow> Inl ''params entries must be strings or integers'' | Some r \<Rightarrow> Inr r))"

lemma json_param_length: "json_param s = Inr (v, r) \<Longrightarrow> length r < length s"
  by (auto simp: json_param_def split: if_splits option.splits dest: parse_json_string_length parse_json_number_length)

lemma json_params_step: "json_param (skip_ws s) = Inr (v, r) \<Longrightarrow> skip_ws r = c # r' \<Longrightarrow> length r' < length s"
  using json_param_length [of "skip_ws s" v r] skip_ws_length [of s] skip_ws_length [of r] by simp

text \<open>The loop over the entries, with those read so far.\<close>

function json_params :: "string \<Rightarrow> string list \<Rightarrow> (string list \<times> string) res" where
  "json_params s acc =
     (if s = [] then Inl ''unterminated params array''
      else if hd s = CHR '']'' then Inr (acc, tl s)
      else if skip_ws s = [] then Inl ''truncated params''
      else case json_param (skip_ws s) of
        Inl e \<Rightarrow> Inl e
      | Inr (v, r) \<Rightarrow>
          (case skip_ws r of
             [] \<Rightarrow> Inl ''invalid params array''
           | c # r' \<Rightarrow>
               if c = CHR '','' then json_params r' (acc @ [v])
               else if c = CHR '']'' then Inr (acc @ [v], r')
               else Inl ''invalid params array''))"
  by pat_completeness auto
termination
  by (relation "measure (\<lambda>(s, _). length s)") (auto intro: json_params_step)

declare json_params.simps [simp del]

lemma json_params_length: "json_params s acc = Inr (vs, r) \<Longrightarrow> length r < length s"
proof (induction s acc rule: json_params.induct)
  case (1 s acc)
  show ?case
  proof (cases "s = [] \<or> hd s = CHR '']'' \<or> skip_ws s = []")
    case True
    then show ?thesis using 1(2) unfolding json_params.simps [of s acc] by (cases s) (auto split: if_splits)
  next
    case False
    then obtain v q where q: "json_param (skip_ws s) = Inr (v, q)" using 1(2) by (auto simp: json_params.simps [of s] split: sum.splits)
    then obtain c q' where c: "skip_ws q = c # q'" using 1(2) False by (auto simp: json_params.simps [of s] split: list.splits)
    have "length q' < length s" by (rule json_params_step [OF q c])
    then show ?thesis using 1(1) [OF _ _ _ q refl c] 1(2) False q c by (auto simp: json_params.simps [of s] split: if_splits)
  qed
qed

record json_request =
  jr_version :: string
  jr_method :: string
  jr_have_method :: bool
  jr_id :: string
  jr_params :: "string list"

definition json_request_init :: json_request where
  "json_request_init = \<lparr>jr_version = [], jr_method = [], jr_have_method = False, jr_id = ''null'', jr_params = []\<rparr>"

definition json_id :: "string \<Rightarrow> (string \<times> string) res" where
  "json_id s =
     (if hd s = dq then (case parse_json_string s of None \<Rightarrow> Inl ''invalid id string'' | Some (v, r) \<Rightarrow> Inr (quoted (json_escape v), r))
      else if starts_with ''null'' s then Inr (''null'', drop 4 s)
      else (case parse_json_number_token s of None \<Rightarrow> Inl ''id must be string, number, or null'' | Some r \<Rightarrow> Inr r))"

text \<open>The value of one field; the text is not empty and has no leading white space.\<close>

definition json_field :: "string \<Rightarrow> string \<Rightarrow> json_request \<Rightarrow> (string \<times> json_request) res" where
  "json_field key s q =
     (if key = ''jsonrpc'' then
        (case parse_json_string s of None \<Rightarrow> Inl ''jsonrpc must be a string'' | Some (v, r) \<Rightarrow> Inr (r, q\<lparr>jr_version := v\<rparr>))
      else if key = ''method'' then
        (case parse_json_string s of None \<Rightarrow> Inl ''method must be a string'' | Some (v, r) \<Rightarrow> Inr (r, q\<lparr>jr_method := v, jr_have_method := True\<rparr>))
      else if key = ''id'' then (case json_id s of Inl e \<Rightarrow> Inl e | Inr (v, r) \<Rightarrow> Inr (r, q\<lparr>jr_id := v\<rparr>))
      else if key = ''params'' then
        (if hd s \<noteq> CHR ''['' then Inl ''params must be a positional array''
         else case json_params (skip_ws (tl s)) (jr_params q) of Inl e \<Rightarrow> Inl e | Inr (vs, r) \<Rightarrow> Inr (r, q\<lparr>jr_params := vs\<rparr>))
      else Inl ''unknown JSON-RPC field'')"

lemma json_field_length: "s \<noteq> [] \<Longrightarrow> json_field key s q = Inr (r, q') \<Longrightarrow> length r < length s"
  using json_params_length [of "skip_ws (tl s)" "jr_params q"] skip_ws_length [of "tl s"]
  by (fastforce simp: json_field_def json_id_def split: if_splits option.splits sum.splits
      dest: parse_json_string_length parse_json_number_length)

lemma json_fields_step:
  assumes "parse_json_string (skip_ws s) = Some (key, r)" and "skip_ws r = c # r1" and "skip_ws r1 \<noteq> []"
    and "json_field key (skip_ws r1) q = Inr (r3, q')" and "skip_ws r3 = d # r4"
  shows "length r4 < length s"
  using parse_json_string_length [OF assms(1)] json_field_length [OF assms(3,4)] skip_ws_length [of s] skip_ws_length [of r]
    skip_ws_length [of r1] skip_ws_length [of r3] assms(2,5) by simp

text \<open>The loop over the fields; an error keeps the request read so far, whose id the response repeats.\<close>

function json_fields :: "string \<Rightarrow> json_request \<Rightarrow> (string \<times> json_request) + json_request" where
  "json_fields s q =
     (if s = [] \<or> skip_ws s \<noteq> [] \<and> hd (skip_ws s) = CHR ''}'' then Inr q
      else case parse_json_string (skip_ws s) of
        None \<Rightarrow> Inl (''invalid JSON key'', q)
      | Some (key, r) \<Rightarrow>
          (case skip_ws r of
             [] \<Rightarrow> Inl (''expected '' @ [CHR 0x27, CHR '':'', CHR 0x27], q)
           | c # r1 \<Rightarrow>
               if c \<noteq> CHR '':'' then Inl (''expected '' @ [CHR 0x27, CHR '':'', CHR 0x27], q)
               else if skip_ws r1 = [] then Inl (''truncated JSON-RPC object'', q)
               else case json_field key (skip_ws r1) q of
                 Inl e \<Rightarrow> Inl (e, q)
               | Inr (r3, q') \<Rightarrow>
                   (case skip_ws r3 of
                      [] \<Rightarrow> Inl (''invalid JSON-RPC object'', q')
                    | c # r4 \<Rightarrow>
                        if c = CHR '','' then json_fields r4 q'
                        else if c = CHR ''}'' then Inr q'
                        else Inl (''invalid JSON-RPC object'', q'))))"
  by pat_completeness auto
termination
  by (relation "measure (\<lambda>(s, _). length s)") (auto intro: json_fields_step)

declare json_fields.simps [simp del]

definition parse_jsonrpc_request :: "string \<Rightarrow> (string \<times> json_request) + json_request" where
  "parse_jsonrpc_request body =
     (let s = skip_ws body in
      if s = [] \<or> hd s \<noteq> CHR ''{'' then Inl (''JSON-RPC body must be an object'', json_request_init)
      else case json_fields (tl s) json_request_init of
        Inl e \<Rightarrow> Inl e
      | Inr q \<Rightarrow>
          if jr_version q \<noteq> ''2.0'' then Inl (''jsonrpc must be 2.0'', q)
          else if \<not> jr_have_method q \<or> jr_method q = [] then Inl (''method must be a string'', q)
          else Inr q)"

section \<open>Dispatch\<close>

text \<open>
  \<^verbatim>\<open>RpcServer::handle_command\<close>: the command line, whether it is trusted, and the state of the node give the
  reply and the new state.
\<close>

type_synonym 's handler = "string \<Rightarrow> bool \<Rightarrow> 's \<Rightarrow> string \<times> 's"

definition join_text_command :: "string \<Rightarrow> string list \<Rightarrow> string" where
  "join_text_command method params = method @ concat (map (Cons CHR '' '') params)"

definition dispatch_public_jsonrpc :: "'s handler \<Rightarrow> string \<Rightarrow> string list \<Rightarrow> string \<Rightarrow> 's \<Rightarrow> string \<times> 's" where
  "dispatch_public_jsonrpc h method params id_json s =
     (if CHR '' '' \<in> set method \<or> newline \<in> set method
      then (jsonrpc_error_body id_json (-32600) ''method must be a single TEXT RPC command name'', s)
      else if \<not> is_public_read_command method
      then (jsonrpc_error_body id_json (-32601) ''error: command disabled on public RPC'', s)
      else if list_ex (\<lambda>p. CHR '' '' \<in> set p \<or> newline \<in> set p \<or> cr_char \<in> set p) params
      then (jsonrpc_error_body id_json (-32602) ''params must be single TEXT RPC tokens'', s)
      else
        (let (reply, s) = h (join_text_command method params) False s in
         (if starts_with ''error:'' reply then jsonrpc_error_body id_json (-32000) reply else jsonrpc_result_body id_json reply, s)))"

definition split_query_params :: "string \<Rightarrow> string list" where
  "split_query_params raw = filter (\<lambda>p. p \<noteq> []) (getlines CHR '','' raw)"

definition query_id :: "string \<Rightarrow> string" where
  "query_id idq =
     (if idq = [] then ''1'' else if list_all is_digit_char idq then idq else quoted (json_escape idq))"

definition dispatch_jsonrpc_http :: "'s handler \<Rightarrow> string \<Rightarrow> string \<Rightarrow> string \<Rightarrow> 's \<Rightarrow> string \<times> 's" where
  "dispatch_jsonrpc_http h raw method query s =
     (if method = ''HEAD'' then (http_rpc_response 200 [] json_type, s)
      else if method = ''GET'' then
        (let jmethod = query_param query ''method'' in
         if jmethod = [] then (http_rpc_response 200 (jsonrpc_error_body ''null'' (-32600) ''missing method'') json_type, s)
         else
           (let (body, s) = dispatch_public_jsonrpc h jmethod (split_query_params (query_param query ''params'')) (query_id (query_param query ''id'')) s in
            (http_rpc_response 200 body json_type, s)))
      else if method = ''POST'' then
        (case parse_jsonrpc_request (http_body raw) of
           Inl (e, q) \<Rightarrow> (http_rpc_response 200 (jsonrpc_error_body (if jr_id q = [] then ''null'' else jr_id q) (-32600) e) json_type, s)
         | Inr q \<Rightarrow>
             (let (body, s) = dispatch_public_jsonrpc h (jr_method q) (jr_params q) (jr_id q) s in
              (http_rpc_response 200 body json_type, s)))
      else (http_rpc_response 405 ''error: method not allowed'' plain, s))"

definition dispatch_public_read_rpc :: "'s handler \<Rightarrow> string \<Rightarrow> string \<Rightarrow> 's \<Rightarrow> string \<times> 's" where
  "dispatch_public_read_rpc h banner raw s =
     (if is_http_rpc_request raw then
        (case request_path_query raw of
           None \<Rightarrow> (http_rpc_response 400 ''error: malformed HTTP request'' plain, s)
         | Some (method, path, query) \<Rightarrow>
             if method = ''OPTIONS'' then (http_rpc_response 204 [] plain, s)
             else if path = ''/'' \<or> path = ''/health'' then (http_rpc_response 200 banner plain, s)
             else if path = ''/jsonrpc'' \<or> path = ''/jsonrpc/'' then dispatch_jsonrpc_http h raw method query s
             else case parse_http_rpc_command raw of
               Inl e \<Rightarrow>
                 (if e = ''not an RPC path'' then http_rpc_response 404 ''error: use /rpc?cmd=getinfo or /jsonrpc?method=getinfo'' plain
                  else http_rpc_response 400 (''error: '' @ e) plain, s)
             | Inr cmd \<Rightarrow>
                 if method = ''HEAD'' then (http_rpc_response 200 [] plain, s)
                 else if \<not> is_public_read_command (first_command_token cmd)
                 then (http_rpc_response 403 ''error: command disabled on public RPC'' plain, s)
                 else (let (reply, s) = h cmd False s in (http_rpc_response 200 reply plain, s)))
      else if \<not> is_public_read_command (first_command_token raw) then (''error: command disabled on public RPC'', s)
      else h raw False s)"

section \<open>Only public reads reach the interpreter\<close>

lemma read_command_token: "is_public_read_command m \<Longrightarrow> m \<noteq> [] \<and> list_all (\<lambda>c. \<not> is_space c) m"
  by (auto simp: is_public_read_command_def is_space_def)

lemma first_command_join:
  assumes "is_public_read_command m"
  shows "first_command_token (join_text_command m ps) = m"
proof -
  have m: "m \<noteq> []" "list_all (\<lambda>c. \<not> is_space c) m" using read_command_token [OF assms] by simp_all
  define r where "r = concat (map (Cons CHR '' '') ps)"
  have r: "r = [] \<or> is_space (hd r)" by (cases ps) (simp_all add: r_def is_space_def)
  have "dropWhile is_space (m @ r) = m @ r" using m by (cases m) simp_all
  moreover have "takeWhile (\<lambda>c. \<not> is_space c) (m @ r) = m"
    using m(2) r by (cases r) (auto simp: list_all_iff takeWhile_append2)
  ultimately show ?thesis using m(1)
    by (simp add: first_command_token_def read_word_def join_text_command_def r_def [symmetric] Let_def)
qed

text \<open>
  Two interpreters that agree on the allowed commands give the same response and the same state.
\<close>

definition agree :: "'s handler \<Rightarrow> 's handler \<Rightarrow> 's \<Rightarrow> bool" where
  "agree h h' s \<longleftrightarrow> (\<forall>cmd. is_public_read_command (first_command_token cmd) \<longrightarrow> h cmd False s = h' cmd False s)"

lemma dispatch_jsonrpc_agree: "agree h h' s \<Longrightarrow> dispatch_public_jsonrpc h m ps i s = dispatch_public_jsonrpc h' m ps i s"
  using first_command_join [of m ps] by (simp add: dispatch_public_jsonrpc_def agree_def)

lemma dispatch_agree:
  assumes "agree h h' s"
  shows "dispatch_public_read_rpc h banner raw s = dispatch_public_read_rpc h' banner raw s"
proof -
  have "dispatch_jsonrpc_http h raw m query s = dispatch_jsonrpc_http h' raw m query s" for m query
    unfolding dispatch_jsonrpc_http_def dispatch_jsonrpc_agree [OF assms] by (rule refl)
  then show ?thesis using assms by (simp add: dispatch_public_read_rpc_def agree_def split: option.splits sum.splits)
qed

text \<open>
  The state after a request is the state before it, or the one that a single allowed command leaves.
\<close>

definition read_outcome :: "'s handler \<Rightarrow> 's \<Rightarrow> 's \<Rightarrow> bool" where
  "read_outcome h s s' \<longleftrightarrow> s' = s \<or> (\<exists>cmd. is_public_read_command (first_command_token cmd) \<and> s' = snd (h cmd False s))"

lemma read_outcomeI:
  "read_outcome h s s" "is_public_read_command (first_command_token cmd) \<Longrightarrow> h cmd False s = (r, s') \<Longrightarrow> read_outcome h s s'"
  by (auto simp: read_outcome_def intro: exI [of _ cmd])

lemma dispatch_jsonrpc_outcome: "read_outcome h s (snd (dispatch_public_jsonrpc h m ps i s))"
  using first_command_join [of m ps]
  by (auto simp: dispatch_public_jsonrpc_def read_outcomeI(1) split: prod.splits intro: read_outcomeI(2) [of "join_text_command m ps"])

lemma dispatch_outcome: "read_outcome h s (snd (dispatch_public_read_rpc h banner raw s))"
proof -
  have "read_outcome h s (snd (dispatch_jsonrpc_http h raw m query s))" for m query
    by (cases "parse_jsonrpc_request (http_body raw)")
      (simp_all add: dispatch_jsonrpc_http_def Let_def dispatch_jsonrpc_outcome read_outcomeI(1) case_prod_unfold)
  then show ?thesis
    by (cases "request_path_query raw"; cases "parse_http_rpc_command raw")
      (auto simp: dispatch_public_read_rpc_def Let_def case_prod_unfold read_outcome_def)
qed

text \<open>
  Claim C35. The public RPC is read only. Whatever bytes a client sends, as text, over HTTP or as JSON-RPC,
  and whatever the command interpreter does with other commands, the response and the state of the node
  depend only on how the interpreter answers untrusted commands whose first word is on the public
  allowlist, and at most one such command is executed.
\<close>

theorem public_rpc_read_only:
  assumes "\<forall>cmd. is_public_read_command (first_command_token cmd) \<longrightarrow> h cmd False s = h' cmd False s"
  shows "dispatch_public_read_rpc h banner raw s = dispatch_public_read_rpc h' banner raw s
    \<and> (snd (dispatch_public_read_rpc h banner raw s) = s
       \<or> (\<exists>cmd. is_public_read_command (first_command_token cmd) \<and> snd (dispatch_public_read_rpc h banner raw s) = snd (h cmd False s)))"
  using dispatch_agree [of h h' s] dispatch_outcome [of h s banner raw] assms by (simp add: agree_def read_outcome_def)

text \<open>A node that counts its commands and stops on \<^verbatim>\<open>stop\<close>, reached by a request for \<^verbatim>\<open>getinfo\<close>.\<close>

definition demo_handler :: "nat handler" where
  "demo_handler cmd trusted n = (if first_command_token cmd = ''stop'' then (''stopped'', 0) else (''ok'', n + 1))"

theorem public_rpc_read_only_witness:
  "snd (dispatch_public_read_rpc demo_handler [] ''getinfo'' 4) = 5 \<and> snd (dispatch_public_read_rpc demo_handler [] ''stop now'' 4) = 4
    \<and> dispatch_public_read_rpc demo_handler [] ''stop now'' 4 = dispatch_public_read_rpc (\<lambda>c t n. (''ok'', n + 1)) [] ''stop now'' 4"
proof -
  have "first_command_token ''getinfo'' = ''getinfo''" "first_command_token ''stop now'' = ''stop''"
    by (simp_all add: first_command_token_def read_word_def is_space_def)
  moreover have "\<not> is_http_rpc_request ''getinfo''" "\<not> is_http_rpc_request ''stop now''" by (simp_all add: is_http_rpc_request_def starts_with_def)
  ultimately show ?thesis
    using public_rpc_read_only [of demo_handler 4 "\<lambda>c t n. (''ok'', n + 1)" "[]" "''stop now''"]
    by (auto simp: demo_handler_def is_public_read_command_def dispatch_public_read_rpc_def)
qed

section \<open>Texts and their parsers\<close>

text \<open>The characters that the JSON reader of the node accepts in an escaped string.\<close>

definition json_plain :: "char \<Rightarrow> bool" where
  "json_plain c \<longleftrightarrow> 32 \<le> (of_char c :: nat) \<or> c = newline \<or> c = cr_char \<or> c = CHR 0x09"

lemma json_chars_escape_char:
  "json_chars (json_escape_char c @ s) = (if json_plain c then map_option (apfst (Cons c)) (json_chars s) else None)"
proof (cases "c = dq \<or> c = bs \<or> c = newline \<or> c = cr_char \<or> c = CHR 0x09")
  case True
  then show ?thesis by (auto simp: json_escape_char_def json_chars.simps(2) json_unescape_def json_plain_def newline_def)
next
  case False
  then show ?thesis by (auto simp: json_escape_char_def json_chars.simps(2) json_unescape_def json_plain_def)
qed

lemma json_chars_escape:
  "json_chars (json_escape t @ dq # r) = (if list_all json_plain t then Some (t, r) else None)"
  by (induction t) (simp_all add: json_escape_def json_chars.simps(2) json_chars_escape_char)

lemma skip_ws_cons [simp]:
  "\<not> (c = CHR '' '' \<or> c = CHR 0x09 \<or> c = newline \<or> c = cr_char) \<Longrightarrow> skip_ws (c # s) = c # s"
  by (simp add: skip_ws_def)

text \<open>
  A string that the node escapes is read back exactly when its control characters are line breaks,
  carriage returns or tabs; the reader refuses the form in which the writer prints the others.
\<close>

theorem json_string_round_trip:
  "parse_json_string (quoted (json_escape t) @ r) = (if list_all json_plain t then Some (t, r) else None)"
  by (simp add: parse_json_string_def quoted_def json_chars_escape newline_def)

text \<open>The request that a client prints for a method with string parameters.\<close>

fun json_strings :: "string list \<Rightarrow> string" where
  "json_strings [] = []"
| "json_strings [p] = quoted (json_escape p)"
| "json_strings (p # q # ps) = quoted (json_escape p) @ CHR '','' # json_strings (q # ps)"

definition request_text :: "string \<Rightarrow> string list \<Rightarrow> nat \<Rightarrow> string" where
  "request_text m ps n =
     ''{'' @ quoted ''jsonrpc'' @ '':'' @ quoted ''2.0'' @ '','' @ quoted ''id'' @ '':'' @ dec n @ '','' @ quoted ''method'' @ '':'' @ quoted (json_escape m)
     @ '','' @ quoted ''params'' @ '':['' @ json_strings ps @ '']}''"

lemma json_params_strings:
  assumes "list_all (list_all json_plain) ps"
  shows "json_params (json_strings ps @ CHR '']'' # r) acc = Inr (acc @ ps, r)"
  using assms
proof (induction ps arbitrary: acc rule: json_strings.induct)
  case 1
  then show ?case by (simp add: json_params.simps)
next
  case (2 p)
  have p: "parse_json_string (quoted (json_escape p) @ CHR '']'' # r) = Some (p, CHR '']'' # r)" using 2 by (simp add: json_string_round_trip)
  have "skip_ws (quoted (json_escape p) @ CHR '']'' # r) = quoted (json_escape p) @ CHR '']'' # r" by (simp add: quoted_def newline_def)
  with p show ?case by (subst json_params.simps) (simp add: json_param_def quoted_def newline_def)
next
  case (3 p q ps)
  let ?r = "CHR '','' # json_strings (q # ps) @ CHR '']'' # r"
  have p: "parse_json_string (quoted (json_escape p) @ ?r) = Some (p, ?r)" using 3(2) by (simp add: json_string_round_trip)
  have "skip_ws (quoted (json_escape p) @ ?r) = quoted (json_escape p) @ ?r" by (simp add: quoted_def newline_def)
  with p 3(1) [of "acc @ [p]"] 3(2) show ?case by (subst json_params.simps) (simp add: json_param_def quoted_def newline_def)
qed

text \<open>One field of an object, with a value that the field reader accepts.\<close>

lemma json_fields_one:
  assumes "json_escape key = key" and "list_all json_plain key" and v: "\<not> (v = CHR '' '' \<or> v = CHR 0x09 \<or> v = newline \<or> v = cr_char)"
    and f: "json_field key (v # vs @ d # r) q = Inr (d # r, q')" and d: "d = CHR '','' \<or> d = CHR ''}''"
  shows "json_fields (quoted key @ CHR '':'' # v # vs @ d # r) q = (if d = CHR '','' then json_fields r q' else Inr q')"
proof -
  let ?r = "CHR '':'' # v # vs @ d # r"
  have p: "parse_json_string (quoted key @ ?r) = Some (key, ?r)"
    using json_string_round_trip [of key ?r] assms(1,2) by simp
  have w: "skip_ws (quoted key @ ?r) = quoted key @ ?r" "skip_ws ?r = ?r" by (simp_all add: quoted_def newline_def)
  have x: "skip_ws (v # vs @ d # r) = v # vs @ d # r" "skip_ws (d # r) = d # r" using v d by (auto simp: newline_def)
  have h: "quoted key @ ?r \<noteq> []" "hd (quoted key @ ?r) \<noteq> CHR ''}''" by (simp_all add: quoted_def)
  show ?thesis using d unfolding json_fields.simps [of "quoted key @ ?r" q] w p
    by (auto simp: h w x f)
qed

lemma parse_number_dec: "parse_json_number_token (dec n @ CHR '','' # r) = Some (dec n, CHR '','' # r)"
proof -
  obtain c t where c: "dec n = c # t" by (cases "dec n") simp_all
  have cd: "is_digit_char c" using dec_digits [of c n] by (simp add: c)
  then have "\<not> (c = CHR '' '' \<or> c = CHR 0x09 \<or> c = newline \<or> c = cr_char)" "c \<noteq> CHR ''-''" by (auto simp: is_digit_char_def newline_def)
  moreover have "\<forall>x\<in>set (dec n). is_digit_char x" using dec_digits by blast
  then have "takeWhile is_digit_char (dec n @ CHR '','' # r) = dec n" "dropWhile is_digit_char (dec n @ CHR '','' # r) = CHR '','' # r"
    by (simp_all add: takeWhile_append2 dropWhile_append2 is_digit_char_def)
  ultimately show ?thesis using skip_ws_cons [of c] by (simp add: parse_json_number_token_def Let_def c)
qed

lemma json_id_dec: "json_id (dec n @ CHR '','' # r) = Inr (dec n, CHR '','' # r)"
proof -
  obtain c t where c: "dec n = c # t" by (cases "dec n") simp_all
  have "is_digit_char c" using dec_digits [of c n] by (simp add: c)
  then have "c \<noteq> dq" "c \<noteq> CHR ''n''" by (auto simp: is_digit_char_def)
  then show ?thesis using parse_number_dec [of n r] by (simp add: json_id_def c starts_with_def)
qed

text \<open>
  Requests are read as they are meant: the JSON-RPC request that a client prints for a method, its
  string parameters and a number is parsed to exactly these, for all texts whose control characters
  are line breaks, carriage returns or tabs.
\<close>

theorem jsonrpc_request_round_trip:
  assumes "m \<noteq> []" and "list_all json_plain m" and "list_all (list_all json_plain) ps"
  shows "parse_jsonrpc_request (request_text m ps n)
    = Inr \<lparr>jr_version = ''2.0'', jr_method = m, jr_have_method = True, jr_id = dec n, jr_params = ps\<rparr>"
proof -
  define q0 where "q0 = json_request_init"
  define r3 where "r3 = quoted ''params'' @ CHR '':'' # CHR ''['' # (json_strings ps @ '']'') @ CHR ''}'' # []"
  define r2 where "r2 = quoted ''method'' @ CHR '':'' # dq # (json_escape m @ [dq]) @ CHR '','' # r3"
  obtain c t where c: "dec n = c # t" by (cases "dec n") simp_all
  define r1 where "r1 = quoted ''id'' @ CHR '':'' # c # t @ CHR '','' # r2"
  have keys: "json_escape ''jsonrpc'' = ''jsonrpc'' \<and> json_escape ''id'' = ''id'' \<and> json_escape ''method'' = ''method'' \<and> json_escape ''params'' = ''params''"
    by (simp add: json_escape_def json_escape_char_def newline_def)
  have plain: "list_all json_plain ''jsonrpc'' \<and> list_all json_plain ''id'' \<and> list_all json_plain ''method'' \<and> list_all json_plain ''params''"
    by (simp add: json_plain_def)
  have rt: "request_text m ps n = CHR ''{'' # quoted ''jsonrpc'' @ CHR '':'' # dq # (''2.0'' @ [dq]) @ CHR '','' # r1"
    by (simp add: request_text_def r1_def r2_def r3_def quoted_def c)
  have 1: "json_fields (tl (request_text m ps n)) q0 = json_fields r1 (q0\<lparr>jr_version := ''2.0''\<rparr>)"
    unfolding rt list.sel using keys plain json_string_round_trip [of "''2.0''" "CHR '','' # r1"]
    by (subst json_fields_one) (simp_all add: json_field_def quoted_def json_escape_def json_escape_char_def json_plain_def newline_def)
  have "c \<noteq> CHR '' '' \<and> c \<noteq> CHR 0x09 \<and> c \<noteq> newline \<and> c \<noteq> cr_char"
    using dec_digits [of c n] by (auto simp: c is_digit_char_def newline_def)
  then have 2: "json_fields r1 q = json_fields r2 (q\<lparr>jr_id := dec n\<rparr>)" for q
    unfolding r1_def using keys plain json_id_dec [of n r2] by (subst json_fields_one) (simp_all add: json_field_def c)
  have 3: "json_fields r2 q = json_fields r3 (q\<lparr>jr_method := m, jr_have_method := True\<rparr>)" for q
    unfolding r2_def using keys plain json_string_round_trip [of m "CHR '','' # r3"] assms(2)
    by (subst json_fields_one) (simp_all add: json_field_def quoted_def newline_def)
  have s: "skip_ws (json_strings ps @ CHR '']'' # r) = json_strings ps @ CHR '']'' # r" for r
    by (cases ps rule: json_strings.cases) (simp_all add: quoted_def newline_def)
  have 4: "json_fields r3 q = Inr (q\<lparr>jr_params := jr_params q @ ps\<rparr>)" for q
    unfolding r3_def using keys plain json_params_strings [OF assms(3)]
    by (subst json_fields_one) (simp_all add: json_field_def s newline_def)
  show ?thesis unfolding parse_jsonrpc_request_def q0_def [symmetric]
    using 1 assms(1) by (simp add: rt newline_def 2 3 4) (simp add: q0_def json_request_init_def)
qed

theorem jsonrpc_request_round_trip_witness:
  "parse_jsonrpc_request (request_text ''getblock'' [''7''] 1)
    = Inr \<lparr>jr_version = ''2.0'', jr_method = ''getblock'', jr_have_method = True, jr_id = ''1'', jr_params = [''7'']\<rparr>"
proof -
  have "dec 1 = ''1''" by code_simp
  then show ?thesis using jsonrpc_request_round_trip [of "''getblock''" "[''7'']" 1] by (simp add: json_plain_def)
qed

text \<open>Responses are framed: the stated length is the length of the body, and the body follows the first empty line.\<close>

lemma after_first_skip: "cr_char \<notin> set l \<Longrightarrow> after_first (crlf @ crlf) (l @ t) = after_first (crlf @ crlf) t"
  by (induction l) (auto simp: starts_with_def crlf_def)

lemma after_first_line:
  assumes "cr_char \<notin> set l" and "t \<noteq> []" and "hd t \<noteq> cr_char"
  shows "after_first (crlf @ crlf) (l @ crlf @ t) = after_first (crlf @ crlf) t"
  using assms by (cases t) (simp_all add: after_first_skip, simp add: crlf_def starts_with_def newline_def)

lemma after_first_end: "cr_char \<notin> set l \<Longrightarrow> after_first (crlf @ crlf) (l @ crlf @ crlf @ b) = Some b"
  by (simp add: after_first_skip) (simp add: crlf_def starts_with_def)

lemma cr_not_dec: "cr_char \<notin> set (dec n)"
  using dec_digits [of cr_char n] by (auto simp: is_digit_char_def)

theorem http_response_framed:
  assumes "cr_char \<notin> set content_type"
  shows "http_body (http_rpc_response status body content_type) = body"
proof -
  let ?l = "[''HTTP/1.1 '' @ dec status @ '' '' @ http_reason status, ''Content-Type: '' @ content_type, ''Content-Length: '' @ dec (length body),
     ''Access-Control-Allow-Origin: *'', ''Access-Control-Allow-Methods: GET, OPTIONS'', ''Access-Control-Allow-Headers: Content-Type'', ''Cache-Control: no-store'']"
  have lines: "after_first (crlf @ crlf) (concat (map (\<lambda>l. l @ crlf) ls) @ t) = after_first (crlf @ crlf) t"
    if "\<forall>l\<in>set ls. cr_char \<notin> set l \<and> l \<noteq> []" "t \<noteq> []" "hd t \<noteq> cr_char" for ls t
    using that
  proof (induction ls)
    case (Cons l ls)
    have "hd (concat (map (\<lambda>l. l @ crlf) ls) @ t) \<noteq> cr_char \<and> concat (map (\<lambda>l. l @ crlf) ls) @ t \<noteq> []"
      using Cons.prems by (cases ls) (auto simp: hd_append dest: hd_in_set)
    then show ?case using Cons after_first_line [of l "concat (map (\<lambda>l. l @ crlf) ls) @ t"] by simp
  qed simp
  have ok: "\<forall>l\<in>set ?l. cr_char \<notin> set l \<and> l \<noteq> []" using assms cr_not_dec by (auto simp: http_reason_def)
  have "http_rpc_response status body content_type = concat (map (\<lambda>l. l @ crlf) ?l) @ ''Connection: close'' @ crlf @ crlf @ body"
    by (simp add: http_rpc_response_def http_head_def)
  moreover have "after_first (crlf @ crlf) (concat (map (\<lambda>l. l @ crlf) ?l) @ ''Connection: close'' @ crlf @ crlf @ body) = Some body"
    by (rule lines [OF ok, THEN trans]; (rule after_first_end)?) simp_all
  ultimately show ?thesis by (simp add: http_body_def)
qed

end
