(* ===== verification/Pq_Session.thy ===== *)
theory Pq_Session
  imports Text_Records Crypto_Model "HOL-Library.Monad_Syntax"
begin

text \<open>
  The post-quantum messaging sessions (\<^verbatim>\<open>pq_session.cpp\<close>): key packages and their binary format, the
  session record with its text format, the KEM double ratchet, the frames, and the operations of the
  messenger on its files. ML-KEM-1024, ML-DSA-87, HMAC-SHA3-512 and AES-256-GCM are parameters; the random
  bytes, the clock and the answers of the relay are arguments; \<open>relay\<close> says whether the messenger has one.
  The mutex makes each operation atomic. Clearing secrets from memory has no counterpart in the model.
\<close>

section \<open>Cryptography\<close>

text \<open>
  \<open>pq_hmac\<close> takes key and message; \<open>pq_seal\<close> and \<open>pq_open\<close> take key, nonce, associated data and text, the
  tag being the end of the sealed text; key generation and encapsulation take their randomness first.
\<close>

record pq_suite =
  pq_hmac :: "string \<Rightarrow> string \<Rightarrow> string"
  pq_seal :: "string \<Rightarrow> string \<Rightarrow> string \<Rightarrow> string \<Rightarrow> string option"
  pq_open :: "string \<Rightarrow> string \<Rightarrow> string \<Rightarrow> string \<Rightarrow> string option"
  pq_keypair :: "string \<Rightarrow> (string \<times> string) option"
  pq_encaps :: "string \<Rightarrow> string \<Rightarrow> (string \<times> string) option"
  pq_decaps :: "string \<Rightarrow> string \<Rightarrow> string option"
  pq_sig_keypair :: "string \<Rightarrow> (string \<times> string) option"
  pq_sign :: "string \<Rightarrow> string \<Rightarrow> string option"
  pq_verify :: "string \<Rightarrow> string \<Rightarrow> string \<Rightarrow> bool"
  pq_sig_pk_len :: nat
  pq_sig_len :: nat

definition sig_verify :: "pq_suite \<Rightarrow> string \<Rightarrow> string \<Rightarrow> string \<Rightarrow> bool" where
  "sig_verify su pk msg sig \<longleftrightarrow> length pk = pq_sig_pk_len su \<and> sig \<noteq> [] \<and> length sig \<le> pq_sig_len su \<and> pq_verify su pk msg sig"

definition h32_of :: "crypto \<Rightarrow> string \<Rightarrow> string" where
  "h32_of cr b = take 32 (to_hex (sha3 cr b))"

definition hmac :: "pq_suite \<Rightarrow> string \<Rightarrow> string \<Rightarrow> string \<Rightarrow> string" where
  "hmac su key label dat = pq_hmac su key (label @ dat)"

text \<open>The next root key and the new chain key; the message key and the next chain key.\<close>

definition kdf_rk :: "pq_suite \<Rightarrow> string \<Rightarrow> string \<Rightarrow> string \<times> string" where
  "kdf_rk su rk ss = (let o' = hmac su rk ''AMLS1 rk'' ss in (take 32 o', take 32 (drop 32 o')))"

definition kdf_ck :: "pq_suite \<Rightarrow> string \<Rightarrow> string \<times> string" where
  "kdf_ck su ck = (take 32 (hmac su ck [CHR 0x01] []), take 32 (hmac su ck [CHR 0x02] []))"

section \<open>Binary format\<close>

fun be_bytes :: "nat \<Rightarrow> nat \<Rightarrow> string" where
  "be_bytes 0 n = []"
| "be_bytes (Suc k) n = char_of (n div 256 ^ k) # be_bytes k n"

definition be_num :: "string \<Rightarrow> nat" where
  "be_num s = foldl (\<lambda>a c. 256 * a + of_char c) 0 s"

definition pq_put :: "string \<Rightarrow> string" where
  "pq_put b = be_bytes 4 (length b) @ b"

definition pq_put64 :: "u64 \<Rightarrow> string" where
  "pq_put64 v = be_bytes 8 (unat v)"

text \<open>The reader: a failed read makes the whole parse fail.\<close>

definition pq_magic :: "string \<Rightarrow> string \<Rightarrow> string option" where
  "pq_magic m s = (if starts_with m s then Some (drop (length m) s) else None)"

definition pq_num :: "nat \<Rightarrow> string \<Rightarrow> (nat \<times> string) option" where
  "pq_num k s = (if length s < k then None else Some (be_num (take k s), drop k s))"

definition pq_get :: "nat \<Rightarrow> string \<Rightarrow> (string \<times> string) option" where
  "pq_get mx s = do { (n, s) \<leftarrow> pq_num 4 s; if n > mx \<or> length s < n then None else Some (take n s, drop n s) }"

definition pq_get64 :: "string \<Rightarrow> (u64 \<times> string) option" where
  "pq_get64 s = do { (n, s) \<leftarrow> pq_num 8 s; Some (of_nat n, s) }"

definition pq_done :: "string \<Rightarrow> unit option" where
  "pq_done s = (if s = [] then Some () else None)"

section \<open>Key packages\<close>

definition kMaxPackageLifetime :: u64 where "kMaxPackageLifetime = 30 * 24 * 3600"

definition kSuite :: string where "kSuite = ''MLKEM1024+AES256GCM+HMAC-SHA3-512/MLDSA87''"

record key_package =
  kp_index :: string
  kp_identity :: string
  kp_init :: string
  kp_relay :: string
  kp_created :: u64
  kp_expires :: u64
  kp_sig :: string

definition handle_index :: "crypto \<Rightarrow> string \<Rightarrow> string" where
  "handle_index cr handle = h32_of cr (''ADDITION-KP-dir|v1|'' @ map tolower (filter (\<lambda>c. \<not> is_space c) handle))"

definition fingerprint :: "crypto \<Rightarrow> string \<Rightarrow> string" where
  "fingerprint cr pk = take 40 (to_hex (sha3 cr pk))"

definition kp_tbs :: "key_package \<Rightarrow> string" where
  "kp_tbs k = ''AKP1|'' @ kSuite @ ''|'' @ kp_index k @ ''|'' @ to_hex (kp_identity k) @ ''|'' @ to_hex (kp_init k) @ ''|'' @ to_hex (kp_relay k)
     @ ''|'' @ to_string (kp_created k) @ ''|'' @ to_string (kp_expires k)"

definition kp_encode :: "key_package \<Rightarrow> string" where
  "kp_encode k = ''AKP1'' @ pq_put (kp_index k) @ pq_put (kp_identity k) @ pq_put (kp_init k) @ pq_put (kp_relay k)
     @ pq_put64 (kp_created k) @ pq_put64 (kp_expires k) @ pq_put (kp_sig k)"

definition kp_hash :: "crypto \<Rightarrow> key_package \<Rightarrow> string" where
  "kp_hash cr k = h32_of cr (kp_encode k)"

definition kp_decode :: "string \<Rightarrow> key_package option" where
  "kp_decode b =
     do { s \<leftarrow> pq_magic ''AKP1'' b; (index, s) \<leftarrow> pq_get 64 s; (identity, s) \<leftarrow> pq_get 4096 s; (init, s) \<leftarrow> pq_get 4096 s;
          (relay, s) \<leftarrow> pq_get 4096 s; (created, s) \<leftarrow> pq_get64 s; (expires, s) \<leftarrow> pq_get64 s; (sig, s) \<leftarrow> pq_get 8192 s; pq_done s;
          Some \<lparr>kp_index = index, kp_identity = identity, kp_init = init, kp_relay = relay, kp_created = created,
                kp_expires = expires, kp_sig = sig\<rparr> }"

definition kp_from_hex :: "string \<Rightarrow> key_package res" where
  "kp_from_hex hex =
     (let h = (if starts_with ''addc1:'' hex then drop 6 hex else hex) in
      if length h > 64000 then Inl ''malformed key package''
      else case hex_to_bytes h of
             Inl _ \<Rightarrow> Inl ''malformed key package''
           | Inr b \<Rightarrow> (case kp_decode b of None \<Rightarrow> Inl ''malformed key package'' | Some k \<Rightarrow> Inr k))"

definition lower_hex :: "char \<Rightarrow> bool" where
  "lower_hex c \<longleftrightarrow> (let n = of_char c :: nat in 48 \<le> n \<and> n \<le> 57 \<or> 97 \<le> n \<and> n \<le> 102)"

definition kp_verify :: "pq_suite \<Rightarrow> u64 \<Rightarrow> key_package \<Rightarrow> unit res" where
  "kp_verify su now k =
     (if length (kp_identity k) \<noteq> 2592 \<or> length (kp_init k) \<noteq> 1568 \<or> length (kp_relay k) \<noteq> 1568 then Inl ''key package: bad key sizes''
      else if kp_index k \<noteq> ''-'' \<and> (length (kp_index k) \<noteq> 32 \<or> \<not> list_all lower_hex (kp_index k)) then Inl ''key package: bad index''
      else if kp_expires k \<le> kp_created k \<or> kp_expires k - kp_created k > kMaxPackageLifetime \<or> kp_created k > now + 600
      then Inl ''key package: bad lifetime''
      else if kp_expires k \<le> now then Inl ''key package expired''
      else if \<not> sig_verify su (kp_identity k) (kp_tbs k) (kp_sig k) then Inl ''key package: bad ML-DSA-87 signature''
      else Inr ())"

section \<open>Sessions\<close>

definition kMaxSkip :: nat where "kMaxSkip = 512"
definition kMaxStoredSkipped :: nat where "kMaxStoredSkipped = 256"

record session =
  s_sid :: string
  s_peer_fp :: string
  s_my_fp :: string
  s_peer_identity :: string
  s_peer_relay :: string
  s_rk :: string
  s_cks :: string
  s_ckr :: string
  s_ns :: u32
  s_nr :: u32
  s_pn :: u32
  s_my_pub :: string
  s_my_sk :: string
  s_prev_pub :: string
  s_prev_sk :: string
  s_peer_rk :: string
  s_step_ct :: string
  s_step_to :: string
  s_need_step :: bool
  s_skipped :: "(string \<times> string) list"

definition session_init :: session where
  "session_init = \<lparr>s_sid = [], s_peer_fp = [], s_my_fp = [], s_peer_identity = [], s_peer_relay = [], s_rk = [], s_cks = [], s_ckr = [],
     s_ns = 0, s_nr = 0, s_pn = 0, s_my_pub = [], s_my_sk = [], s_prev_pub = [], s_prev_sk = [], s_peer_rk = [], s_step_ct = [],
     s_step_to = ''-'', s_need_step = False, s_skipped = []\<rparr>"

text \<open>A message frame.\<close>

record msg_frame =
  f_sid :: string
  f_pub :: string
  f_step_ct :: string
  f_step_to :: string
  f_pn :: u64
  f_n :: u64
  f_iv :: string
  f_ct :: string

definition frame_bytes :: "msg_frame \<Rightarrow> string" where
  "frame_bytes f = ''AMM1'' @ pq_put (f_sid f) @ pq_put (f_pub f) @ pq_put (f_step_ct f) @ pq_put (f_step_to f)
     @ pq_put64 (f_pn f) @ pq_put64 (f_n f) @ pq_put (f_iv f) @ pq_put (f_ct f)"

definition parse_frame :: "string \<Rightarrow> msg_frame option" where
  "parse_frame b =
     do { s \<leftarrow> pq_magic ''AMM1'' b; (sid, s) \<leftarrow> pq_get 64 s; (pub, s) \<leftarrow> pq_get 4096 s; (step_ct, s) \<leftarrow> pq_get 4096 s;
          (step_to, s) \<leftarrow> pq_get 64 s; (pn, s) \<leftarrow> pq_get64 s; (n, s) \<leftarrow> pq_get64 s; (iv, s) \<leftarrow> pq_get 64 s; (ct, s) \<leftarrow> pq_get 40000 s; pq_done s;
          if length iv \<noteq> 12 \<or> pn > 0xFFFFFFFF \<or> n > 0xFFFFFFFF then None
          else Some \<lparr>f_sid = sid, f_pub = pub, f_step_ct = step_ct, f_step_to = step_to, f_pn = pn, f_n = n, f_iv = iv, f_ct = ct\<rparr> }"

definition frame_aad :: "crypto \<Rightarrow> msg_frame \<Rightarrow> string" where
  "frame_aad cr f = ''AMLS1|M|'' @ f_sid f @ ''|'' @ h32_of cr (f_pub f) @ ''|'' @ h32_of cr (f_step_ct f) @ ''|'' @ f_step_to f
     @ ''|'' @ to_string (f_pn f) @ ''|'' @ to_string (f_n f)"

text \<open>
  The ratchet step of a sender: encapsulate to the latest key of the peer, rotate the own key pair, and
  derive a new root key and sending chain. \<open>r1\<close> and \<open>r2\<close> are the randomness of the two operations.
\<close>

definition ratchet_step :: "crypto \<Rightarrow> pq_suite \<Rightarrow> string \<Rightarrow> string \<Rightarrow> session \<Rightarrow> session option" where
  "ratchet_step cr su r1 r2 s =
     do { (ct, ss) \<leftarrow> pq_encaps su r1 (s_peer_rk s); (npub, nsk) \<leftarrow> pq_keypair su r2;
          let (rk, ck) = kdf_rk su (s_rk s) ss in
          Some (s\<lparr>s_step_ct := ct, s_step_to := h32_of cr (s_peer_rk s), s_prev_pub := s_my_pub s, s_prev_sk := s_my_sk s,
                  s_my_pub := npub, s_my_sk := nsk, s_rk := rk, s_cks := ck, s_pn := s_ns s, s_ns := 0, s_need_step := False\<rparr>) }"

definition encrypt_locked :: "crypto \<Rightarrow> pq_suite \<Rightarrow> string \<Rightarrow> string \<Rightarrow> string \<Rightarrow> session \<Rightarrow> string \<Rightarrow> (msg_frame \<times> session) res" where
  "encrypt_locked cr su r1 r2 iv s msg =
     bind_res (if s_need_step s then need ''ratchet step failed'' (ratchet_step cr su r1 r2 s) else Inr s) (\<lambda>s.
     if length (s_cks s) \<noteq> 32 then Inl ''session not ready to send''
     else
       (let (mk, ck) = kdf_ck su (s_cks s);
            f = \<lparr>f_sid = s_sid s, f_pub = s_my_pub s, f_step_ct = s_step_ct s, f_step_to = s_step_to s, f_pn = ucast (s_pn s),
                 f_n = ucast (s_ns s), f_iv = iv, f_ct = []\<rparr> in
        case pq_seal su mk iv (frame_aad cr f) msg of
          None \<Rightarrow> Inl ''encryption failed''
        | Some ct \<Rightarrow> Inr (f\<lparr>f_ct := ct\<rparr>, s\<lparr>s_cks := ck, s_ns := s_ns s + 1\<rparr>)))"

text \<open>Message keys of frames that are still missing are stored under the ratchet key and the number.\<close>

definition skip_key :: "crypto \<Rightarrow> string \<Rightarrow> u32 \<Rightarrow> string" where
  "skip_key cr pub n = h32_of cr pub @ '':'' @ to_string n"

fun skip_loop :: "crypto \<Rightarrow> pq_suite \<Rightarrow> nat \<Rightarrow> session \<Rightarrow> session" where
  "skip_loop cr su 0 s = s"
| "skip_loop cr su (Suc k) s =
     (let (mk, ck) = kdf_ck su (s_ckr s) in
      skip_loop cr su k (s\<lparr>s_skipped := omap_ins (skip_key cr (s_peer_rk s) (s_nr s)) mk (s_skipped s), s_ckr := ck, s_nr := s_nr s + 1\<rparr>))"

definition skip_to :: "crypto \<Rightarrow> pq_suite \<Rightarrow> u32 \<Rightarrow> session \<Rightarrow> session option" where
  "skip_to cr su until s =
     (if length (s_ckr s) \<noteq> 32 then Some s
      else if unat until > unat (s_nr s) + kMaxSkip then None
      else
        (let s = skip_loop cr su (unat until - unat (s_nr s)) s in
         Some (s\<lparr>s_skipped := drop (length (s_skipped s) - kMaxStoredSkipped) (s_skipped s)\<rparr>)))"

text \<open>The ratchet step of a receiver: a frame with a new ratchet key of the peer.\<close>

definition receive_step :: "crypto \<Rightarrow> pq_suite \<Rightarrow> msg_frame \<Rightarrow> session \<Rightarrow> session res" where
  "receive_step cr su f s =
     (if f_step_ct f = [] then Inl ''out-of-order frame (no ratchet ciphertext)''
      else bind_res (need ''too many skipped messages'' (skip_to cr su (ucast (f_pn f)) s)) (\<lambda>s.
        let sk = (if s_my_pub s \<noteq> [] \<and> f_step_to f = h32_of cr (s_my_pub s) then Some (s_my_sk s)
                  else if s_prev_pub s \<noteq> [] \<and> f_step_to f = h32_of cr (s_prev_pub s) then Some (s_prev_sk s) else None) in
        bind_res (need ''ratchet key unknown'' (do { k \<leftarrow> sk; pq_decaps su k (f_step_ct f) })) (\<lambda>ss.
        let (rk, ck) = kdf_rk su (s_rk s) ss in
        Inr (s\<lparr>s_rk := rk, s_ckr := ck, s_peer_rk := f_pub f, s_nr := 0, s_need_step := True\<rparr>))))"

text \<open>The message key of a frame and the session after using it.\<close>

definition frame_key :: "crypto \<Rightarrow> pq_suite \<Rightarrow> msg_frame \<Rightarrow> session \<Rightarrow> (string \<times> session) res" where
  "frame_key cr su f s =
     (let n = ucast (f_n f) :: u32; key = skip_key cr (f_pub f) n in
      case map_of (s_skipped s) key of
        Some mk \<Rightarrow> Inr (mk, s\<lparr>s_skipped := filter (\<lambda>(k, _). k \<noteq> key) (s_skipped s)\<rparr>)
      | None \<Rightarrow>
          bind_res (if f_pub f \<noteq> s_peer_rk s then receive_step cr su f s else Inr s) (\<lambda>s.
          if n < s_nr s then Inl ''duplicate or replayed message''
          else bind_res (need ''too many skipped messages'' (skip_to cr su n s)) (\<lambda>s.
            let (mk, ck) = kdf_ck su (s_ckr s) in Inr (mk, s\<lparr>s_ckr := ck, s_nr := s_nr s + 1\<rparr>))))"

definition decrypt_locked :: "crypto \<Rightarrow> pq_suite \<Rightarrow> session \<Rightarrow> msg_frame \<Rightarrow> (string \<times> session) res" where
  "decrypt_locked cr su s f =
     bind_res (frame_key cr su f s) (\<lambda>(mk, s').
     bind_res (need ''authentication failed'' (pq_open su mk (f_iv f) (frame_aad cr f) (f_ct f))) (\<lambda>msg. Inr (msg, s')))"

section \<open>Files\<close>

text \<open>
  The files of the messenger by their path below its directory, and the paths that can be written. A
  failed write leaves the files as they were: the new content goes to a temporary file that is renamed.
\<close>

record msg_disk =
  d_files :: "string \<rightharpoonup> string"
  d_writable :: "string \<Rightarrow> bool"

definition write_secret :: "string \<Rightarrow> string \<Rightarrow> msg_disk \<Rightarrow> unit res \<times> msg_disk" where
  "write_secret path content d =
     (if d_writable d path then (Inr (), d\<lparr>d_files := (d_files d)(path \<mapsto> content)\<rparr>)
      else (Inl (''cannot write '' @ last (getlines CHR ''/'' path)), d))"

definition pq_unhex :: "string \<Rightarrow> string option" where
  "pq_unhex h = (if h = ''-'' then Some [] else case hex_to_bytes h of Inl _ \<Rightarrow> None | Inr b \<Rightarrow> Some b)"

definition pq_hx :: "string \<Rightarrow> string" where
  "pq_hx b = (if b = [] then ''-'' else to_hex b)"

definition safe_name :: "string \<Rightarrow> bool" where
  "safe_name w \<longleftrightarrow> w \<noteq> [] \<and> length w \<le> 64 \<and> hd w \<noteq> CHR ''.''
     \<and> list_all (\<lambda>c. let n = of_char c :: nat in 48 \<le> n \<and> n \<le> 57 \<or> 65 \<le> n \<and> n \<le> 90 \<or> 97 \<le> n \<and> n \<le> 122
          \<or> c = CHR ''_'' \<or> c = CHR ''-'' \<or> c = CHR ''.'') w"

text \<open>The session file: a line for every field, then one for every stored message key.\<close>

definition session_fields :: "session \<Rightarrow> (string \<times> string) list" where
  "session_fields s =
     [(''sid'', s_sid s), (''peer_fp'', s_peer_fp s), (''my_fp'', s_my_fp s), (''peer_id'', pq_hx (s_peer_identity s)),
      (''peer_relay'', pq_hx (s_peer_relay s)), (''rk'', pq_hx (s_rk s)), (''cks'', pq_hx (s_cks s)), (''ckr'', pq_hx (s_ckr s)),
      (''ns'', to_string (s_ns s)), (''nr'', to_string (s_nr s)), (''pn'', to_string (s_pn s)), (''my_pub'', pq_hx (s_my_pub s)),
      (''my_sk'', pq_hx (s_my_sk s)), (''prev_pub'', pq_hx (s_prev_pub s)), (''prev_sk'', pq_hx (s_prev_sk s)),
      (''peer_rk'', pq_hx (s_peer_rk s)), (''step_ct'', pq_hx (s_step_ct s)), (''step_to'', s_step_to s),
      (''need_step'', flag01 (s_need_step s))]"

definition session_ser :: "session \<Rightarrow> string" where
  "session_ser s =
     concat (map (\<lambda>(k, v). k @ '' '' @ v @ [newline]) (session_fields s))
     @ concat (map (\<lambda>(k, v). ''skip '' @ k @ '' '' @ pq_hx v @ [newline]) (s_skipped s))"

text \<open>
  One field of the file. The error \<open>exception\<close> stands for an exception of \<^verbatim>\<open>std::stoul\<close>, which no caller
  handles.
\<close>

definition exception :: string where "exception = ''exception''"

definition session_field :: "string \<Rightarrow> string \<Rightarrow> session \<Rightarrow> session res" where
  "session_field k v s =
     (let bin = (\<lambda>f. bind_res (need ''unknown session'' (pq_unhex v)) (\<lambda>b. Inr (f b s)));
          num = (\<lambda>f. bind_res (need exception (stoull v)) (\<lambda>n. Inr (f (ucast n :: u32) s))) in
      if k = ''sid'' then Inr (s\<lparr>s_sid := v\<rparr>)
      else if k = ''peer_fp'' then Inr (s\<lparr>s_peer_fp := v\<rparr>)
      else if k = ''my_fp'' then Inr (s\<lparr>s_my_fp := v\<rparr>)
      else if k = ''peer_id'' then bin (\<lambda>b s. s\<lparr>s_peer_identity := b\<rparr>)
      else if k = ''peer_relay'' then bin (\<lambda>b s. s\<lparr>s_peer_relay := b\<rparr>)
      else if k = ''rk'' then bin (\<lambda>b s. s\<lparr>s_rk := b\<rparr>)
      else if k = ''cks'' then bin (\<lambda>b s. s\<lparr>s_cks := b\<rparr>)
      else if k = ''ckr'' then bin (\<lambda>b s. s\<lparr>s_ckr := b\<rparr>)
      else if k = ''ns'' then num (\<lambda>n s. s\<lparr>s_ns := n\<rparr>)
      else if k = ''nr'' then num (\<lambda>n s. s\<lparr>s_nr := n\<rparr>)
      else if k = ''pn'' then num (\<lambda>n s. s\<lparr>s_pn := n\<rparr>)
      else if k = ''my_pub'' then bin (\<lambda>b s. s\<lparr>s_my_pub := b\<rparr>)
      else if k = ''my_sk'' then bin (\<lambda>b s. s\<lparr>s_my_sk := b\<rparr>)
      else if k = ''prev_pub'' then bin (\<lambda>b s. s\<lparr>s_prev_pub := b\<rparr>)
      else if k = ''prev_sk'' then bin (\<lambda>b s. s\<lparr>s_prev_sk := b\<rparr>)
      else if k = ''peer_rk'' then bin (\<lambda>b s. s\<lparr>s_peer_rk := b\<rparr>)
      else if k = ''step_ct'' then bin (\<lambda>b s. s\<lparr>s_step_ct := b\<rparr>)
      else if k = ''step_to'' then Inr (s\<lparr>s_step_to := v\<rparr>)
      else if k = ''need_step'' then Inr (s\<lparr>s_need_step := (v = ''1'')\<rparr>)
      else Inr s)"

text \<open>The words of the file, in the order in which the stream gives them.\<close>

lemma read_word_less: "read_word s = Some (w, r) \<Longrightarrow> length r < length s"
proof -
  assume a: "read_word s = Some (w, r)"
  define t where "t = dropWhile is_space s"
  have t: "t \<noteq> []" "r = dropWhile (\<lambda>c. \<not> is_space c) t" using a by (auto simp: read_word_def t_def Let_def split: if_splits)
  then obtain c u where "t = c # u" "\<not> is_space c" using hd_dropWhile [of is_space s] by (cases t) (auto simp: t_def)
  with t have "length r < length t" using length_dropWhile_le [of "\<lambda>c. \<not> is_space c" u] by simp
  also have "length t \<le> length s" by (simp add: t_def length_dropWhile_le)
  finally show ?thesis .
qed

function stream_words :: "string \<Rightarrow> string list" where
  "stream_words s = (case read_word s of None \<Rightarrow> [] | Some (w, r) \<Rightarrow> w # stream_words r)"
  by pat_completeness auto
termination
  by (relation "measure length") (auto dest: read_word_less)

declare stream_words.simps [simp del]

fun session_words :: "string list \<Rightarrow> session \<Rightarrow> session res" where
  "session_words [] s = Inr s"
| "session_words (k # ws) s =
     (if k = ''skip'' then
        (case ws of
           i # v # ws' \<Rightarrow> bind_res (need ''unknown session'' (pq_unhex v)) (\<lambda>mk. session_words ws' (s\<lparr>s_skipped := omap_ins i mk (s_skipped s)\<rparr>))
         | _ \<Rightarrow> Inl ''unknown session'')
      else (case ws of [] \<Rightarrow> Inl ''unknown session'' | v # ws' \<Rightarrow> bind_res (session_field k v s) (session_words ws')))"

definition session_parse :: "string \<Rightarrow> session res" where
  "session_parse t =
     bind_res (session_words (stream_words t) session_init) (\<lambda>s.
     if s_sid s \<noteq> [] \<and> length (s_rk s) = 32 then Inr s else Inl ''unknown session'')"

definition session_path :: "string \<Rightarrow> string \<Rightarrow> string" where
  "session_path wallet sid = ''sessions/'' @ wallet @ ''/'' @ sid @ ''.s''"

definition load_session :: "string \<Rightarrow> string \<Rightarrow> msg_disk \<Rightarrow> session res" where
  "load_session wallet sid d =
     (if \<not> safe_name wallet \<or> \<not> safe_name sid then Inl ''invalid name''
      else bind_res (need ''unknown session'' (d_files d (session_path wallet sid))) session_parse)"

definition save_session :: "string \<Rightarrow> session \<Rightarrow> msg_disk \<Rightarrow> unit res \<times> msg_disk" where
  "save_session wallet s d = write_secret (session_path wallet (s_sid s)) (session_ser s) d"

section \<open>The messenger\<close>

definition word_at :: "nat \<Rightarrow> string \<Rightarrow> string" where
  "word_at i t = (let ws = stream_words t in if i < length ws then ws ! i else [])"

definition load_identity :: "pq_suite \<Rightarrow> string \<Rightarrow> string option \<Rightarrow> msg_disk \<Rightarrow> (string \<times> string) res \<times> msg_disk" where
  "load_identity su wallet create d =
     (if \<not> safe_name wallet then (Inl ''invalid wallet name'', d)
      else case d_files d (wallet @ ''.idkey'') of
        Some t \<Rightarrow>
          (case (pq_unhex (word_at 0 t), pq_unhex (word_at 1 t)) of
             (Some pk, Some sk) \<Rightarrow> (if length pk = 2592 then Inr (pk, sk) else Inl ''corrupt identity key'', d)
           | _ \<Rightarrow> (Inl ''corrupt identity key'', d))
      | None \<Rightarrow>
          (case create of
             None \<Rightarrow> (Inl ''no messaging identity (run msg_kp_publish)'', d)
           | Some rnd \<Rightarrow>
               (case pq_sig_keypair su rnd of
                  None \<Rightarrow> (Inl ''ML-DSA-87 keygen failed'', d)
                | Some (pk, sk) \<Rightarrow>
                    (case write_secret (wallet @ ''.idkey'') (to_hex pk @ [newline] @ to_hex sk @ [newline]) d of
                       (Inl e, d) \<Rightarrow> (Inl e, d)
                     | (Inr _, d) \<Rightarrow> (Inr (pk, sk), d)))))"

text \<open>The last key package line of the package file.\<close>

lemma getfield_rest_le: "length (snd (getfield c s)) \<le> length s"
proof -
  have "length (tl (dropWhile (\<lambda>x. x \<noteq> c) s)) \<le> length (dropWhile (\<lambda>x. x \<noteq> c) s)" by simp
  then show ?thesis using length_dropWhile_le [of "\<lambda>x. x \<noteq> c" s] unfolding getfield_def snd_conv by linarith
qed

function package_scan :: "string \<Rightarrow> key_package option \<Rightarrow> key_package option" where
  "package_scan t found =
     (case read_word t of
        None \<Rightarrow> found
      | Some (tag, r) \<Rightarrow>
          if tag = ''kp'' then
            (case read_word r of
               None \<Rightarrow> found
             | Some (v, r') \<Rightarrow> package_scan r' (case kp_from_hex v of Inl _ \<Rightarrow> None | Inr k \<Rightarrow> Some k))
          else package_scan (snd (getfield newline r)) found)"
  by pat_completeness auto
termination
  by (relation "measure (\<lambda>(t, _). length t)")
    (auto dest!: read_word_less intro: less_trans le_less_trans [OF getfield_rest_le])

definition load_package :: "pq_suite \<Rightarrow> u64 \<Rightarrow> string \<Rightarrow> msg_disk \<Rightarrow> key_package res" where
  "load_package su now wallet d =
     (case (case d_files d (wallet @ ''.kp'') of None \<Rightarrow> None | Some t \<Rightarrow> package_scan t None) of
        None \<Rightarrow> Inl ''no key package for wallet (run msg_kp_publish)''
      | Some k \<Rightarrow> bind_res (kp_verify su now k) (\<lambda>_. Inr k))"

text \<open>Three words of an \<^verbatim>\<open>init\<close> line and the rest of the stream.\<close>

definition three_words :: "string \<Rightarrow> (string \<times> string \<times> string \<times> string) option" where
  "three_words t = do { (a, t) \<leftarrow> read_word t; (b, t) \<leftarrow> read_word t; (c, t) \<leftarrow> read_word t; Some (a, b, c, t) }"

lemma three_words_less: "three_words t = Some (a, b, c, r) \<Longrightarrow> length r < length t"
  by (auto simp: three_words_def bind_eq_Some_conv dest!: read_word_less)

function init_scan :: "u64 \<Rightarrow> string \<Rightarrow> string \<Rightarrow> string res" where
  "init_scan now kph t =
     (case read_word t of
        None \<Rightarrow> Inl ''unknown or expired key package''
      | Some (tag, r) \<Rightarrow>
          if tag = ''init'' then
            (case three_words r of
               None \<Rightarrow> Inl ''unknown or expired key package''
             | Some (h, ex, skh, r') \<Rightarrow>
                 if h \<noteq> kph then init_scan now kph r'
                 else case stoull ex of
                   None \<Rightarrow> Inl exception
                 | Some e \<Rightarrow>
                     if e \<le> now then Inl ''unknown or expired key package''
                     else case pq_unhex skh of Some sk \<Rightarrow> Inr sk | None \<Rightarrow> init_scan now kph r')
          else if tag = ''kp'' then init_scan now kph (snd (getfield newline r))
          else init_scan now kph r)"
  by pat_completeness auto
termination
  by (relation "measure (\<lambda>(_, _, t). length t)")
    (auto dest!: read_word_less three_words_less intro: less_trans le_less_trans [OF getfield_rest_le])

definition find_init_sk :: "u64 \<Rightarrow> string \<Rightarrow> string \<Rightarrow> msg_disk \<Rightarrow> string res" where
  "find_init_sk now wallet kph d =
     (case d_files d (wallet @ ''.kp'') of None \<Rightarrow> Inl ''unknown or expired key package'' | Some t \<Rightarrow> init_scan now kph t)"

text \<open>The lines of the init keys that are still valid, which a new package file keeps.\<close>

function kept_inits :: "u64 \<Rightarrow> string \<Rightarrow> string res" where
  "kept_inits now t =
     (case read_word t of
        None \<Rightarrow> Inr []
      | Some (tag, r) \<Rightarrow>
          if tag = ''init'' then
            (case three_words r of
               None \<Rightarrow> Inr []
             | Some (h, ex, skh, r') \<Rightarrow>
                 (case stoull ex of
                    None \<Rightarrow> Inl exception
                  | Some e \<Rightarrow> bind_res (kept_inits now r') (\<lambda>ls. Inr ((if e > now then ''init '' @ h @ '' '' @ ex @ '' '' @ skh @ [newline] else []) @ ls))))
          else kept_inits now (snd (getfield newline r)))"
  by pat_completeness auto
termination
  by (relation "measure (\<lambda>(_, t). length t)")
    (auto dest!: read_word_less three_words_less intro: less_trans le_less_trans [OF getfield_rest_le])

declare package_scan.simps [simp del] init_scan.simps [simp del] kept_inits.simps [simp del]

definition clamp_days :: "u64 \<Rightarrow> u64" where
  "clamp_days days = (if days < 1 then 1 else if 30 < days then 30 else days)"

text \<open>
  \<^verbatim>\<open>publish\<close>: \<open>ensure_key\<close> and \<open>publish_package\<close> are the answers of the relay, \<open>id_rnd\<close> and \<open>init_rnd\<close> the
  randomness of the two key generations. The result is the contact string and the fingerprint.
\<close>

definition publish :: "crypto \<Rightarrow> pq_suite \<Rightarrow> u64 \<Rightarrow> bool \<Rightarrow> string res \<Rightarrow> (string \<Rightarrow> unit res) \<Rightarrow> string \<Rightarrow> string \<Rightarrow> string \<Rightarrow> string \<Rightarrow> u64
    \<Rightarrow> msg_disk \<Rightarrow> (string \<times> string) res \<times> msg_disk" where
  "publish cr su now relay ensure_key publish_package id_rnd init_rnd wallet handle days d =
     (if \<not> relay then (Inl ''pm relay disabled'', d)
      else case load_identity su wallet (Some id_rnd) d of
        (Inl e, d) \<Rightarrow> (Inl e, d)
      | (Inr (id_pk, id_sk), d) \<Rightarrow>
          (case ensure_key of
             Inl e \<Rightarrow> (Inl e, d)
           | Inr relay_hex \<Rightarrow>
               (case pq_keypair su init_rnd of
                  None \<Rightarrow> (Inl ''ML-KEM-1024 keygen failed'', d)
                | Some (init_pub, init_sk) \<Rightarrow>
                    (let k = \<lparr>kp_index = (if handle = [] \<or> handle = ''-'' then ''-'' else handle_index cr handle), kp_identity = id_pk,
                              kp_init = init_pub, kp_relay = (case pq_unhex relay_hex of None \<Rightarrow> [] | Some b \<Rightarrow> b), kp_created = now,
                              kp_expires = now + clamp_days days * 24 * 3600, kp_sig = []\<rparr> in
                     case pq_sign su id_sk (kp_tbs k) of
                       None \<Rightarrow> (Inl ''ML-DSA-87 signing failed'', d)
                     | Some sig \<Rightarrow>
                         (let k = k\<lparr>kp_sig := sig\<rparr> in
                          case (case d_files d (wallet @ ''.kp'') of None \<Rightarrow> Inr [] | Some t \<Rightarrow> kept_inits now t) of
                            Inl e \<Rightarrow> (Inl e, d)
                          | Inr kept \<Rightarrow>
                              (case write_secret (wallet @ ''.kp'')
                                  (''kp '' @ to_hex (kp_encode k) @ [newline] @ kept
                                   @ ''init '' @ kp_hash cr k @ '' '' @ to_string (kp_expires k) @ '' '' @ to_hex init_sk @ [newline]) d of
                                 (Inl e, d) \<Rightarrow> (Inl e, d)
                               | (Inr _, d) \<Rightarrow>
                                   (bind_res (if kp_index k = ''-'' then Inr () else publish_package (to_hex (kp_encode k))) (\<lambda>_.
                                      Inr (''addc1:'' @ to_hex (kp_encode k), fingerprint cr id_pk)), d)))))))"

definition lookup :: "crypto \<Rightarrow> pq_suite \<Rightarrow> u64 \<Rightarrow> bool \<Rightarrow> (string \<Rightarrow> string res) \<Rightarrow> string \<Rightarrow> key_package res" where
  "lookup cr su now relay find_package x =
     bind_res
       (if starts_with ''addc1:'' x then kp_from_hex x
        else if \<not> relay then Inl ''pm relay disabled''
        else bind_res (find_package (handle_index cr x)) (\<lambda>hex.
             bind_res (kp_from_hex hex) (\<lambda>k.
             if kp_index k \<noteq> handle_index cr x then Inl ''directory entry index mismatch'' else Inr k)))
       (\<lambda>k. bind_res (kp_verify su now k) (\<lambda>_. Inr k))"

text \<open>The handshake frame.\<close>

record init_frame =
  i_sid :: string
  i_kp_hash :: string
  i_sender :: string
  i_ct1 :: string
  i_pub :: string
  i_sig :: string
  i_iv :: string
  i_ct :: string

definition init_bytes :: "init_frame \<Rightarrow> string" where
  "init_bytes f = ''AMI1'' @ pq_put (i_sid f) @ pq_put (i_kp_hash f) @ pq_put (i_sender f) @ pq_put (i_ct1 f) @ pq_put (i_pub f)
     @ pq_put (i_sig f) @ pq_put (i_iv f) @ pq_put (i_ct f)"

definition parse_init :: "string \<Rightarrow> init_frame option" where
  "parse_init b =
     do { s \<leftarrow> pq_magic ''AMI1'' b; (sid, s) \<leftarrow> pq_get 64 s; (kph, s) \<leftarrow> pq_get 64 s; (sender, s) \<leftarrow> pq_get 16384 s; (ct1, s) \<leftarrow> pq_get 4096 s;
          (pub, s) \<leftarrow> pq_get 4096 s; (sig, s) \<leftarrow> pq_get 8192 s; (iv, s) \<leftarrow> pq_get 64 s; (ct, s) \<leftarrow> pq_get 40000 s; pq_done s;
          if length iv \<noteq> 12 \<or> \<not> safe_name sid then None
          else Some \<lparr>i_sid = sid, i_kp_hash = kph, i_sender = sender, i_ct1 = ct1, i_pub = pub, i_sig = sig, i_iv = iv, i_ct = ct\<rparr> }"

definition transcript :: "crypto \<Rightarrow> string \<Rightarrow> string \<Rightarrow> string \<Rightarrow> string \<Rightarrow> string \<Rightarrow> string" where
  "transcript cr sid peer_hash my_hash ct1 pub =
     ''AMLS1-INIT|'' @ sid @ ''|'' @ peer_hash @ ''|'' @ my_hash @ ''|'' @ h32_of cr ct1 @ ''|'' @ h32_of cr pub"

definition init_root :: "crypto \<Rightarrow> pq_suite \<Rightarrow> string \<Rightarrow> string \<Rightarrow> string" where
  "init_root cr su tr ss = take 32 (hmac su (sha3 cr tr) ''AMLS1 init'' ss)"

definition init_chain :: "pq_suite \<Rightarrow> string \<Rightarrow> string" where
  "init_chain su rk = take 32 (hmac su rk ''AMLS1 chain-i'' [])"

definition init_aad :: "crypto \<Rightarrow> string \<Rightarrow> string" where
  "init_aad cr tr = ''AMLS1|I|'' @ h32_of cr tr"

text \<open>The randomness of a handshake: session id, encapsulation, ratchet key, nonce.\<close>

record init_rnd =
  ir_sid :: string
  ir_encaps :: string
  ir_keypair :: string
  ir_iv :: string

text \<open>The handshake frame of an initiator and its session.\<close>

definition start_session :: "crypto \<Rightarrow> pq_suite \<Rightarrow> u64 \<Rightarrow> init_rnd \<Rightarrow> string \<Rightarrow> key_package \<Rightarrow> string \<Rightarrow> msg_disk \<Rightarrow> (init_frame \<times> session) res" where
  "start_session cr su now rnd wallet peer msg d =
     bind_res (kp_verify su now peer) (\<lambda>_.
     bind_res (fst (load_identity su wallet None d)) (\<lambda>(id_pk, id_sk).
     bind_res (load_package su now wallet d) (\<lambda>mine.
     bind_res (need ''handshake keygen failed''
         (do { (ct1, ss1) \<leftarrow> pq_encaps su (ir_encaps rnd) (kp_init peer); (pub, sk) \<leftarrow> pq_keypair su (ir_keypair rnd); Some (ct1, ss1, pub, sk) }))
       (\<lambda>(ct1, ss1, pub, sk).
     let sid = to_hex (ir_sid rnd); tr = transcript cr sid (kp_hash cr peer) (kp_hash cr mine) ct1 pub in
     bind_res (need ''ML-DSA-87 signing failed'' (pq_sign su id_sk tr)) (\<lambda>sig.
     let rk = init_root cr su tr ss1; (mk, ck) = kdf_ck su (init_chain su rk) in
     bind_res (need ''encryption failed'' (pq_seal su mk (ir_iv rnd) (init_aad cr tr) msg)) (\<lambda>ct.
     Inr (\<lparr>i_sid = sid, i_kp_hash = kp_hash cr peer, i_sender = kp_encode mine, i_ct1 = ct1, i_pub = pub, i_sig = sig,
           i_iv = ir_iv rnd, i_ct = ct\<rparr>,
          session_init\<lparr>s_sid := sid, s_my_fp := fingerprint cr id_pk, s_peer_fp := fingerprint cr (kp_identity peer),
            s_peer_identity := kp_identity peer, s_peer_relay := kp_relay peer, s_my_pub := pub, s_my_sk := sk, s_rk := rk,
            s_cks := ck, s_ns := 1\<rparr>)))))))"

definition start_frame :: "crypto \<Rightarrow> pq_suite \<Rightarrow> u64 \<Rightarrow> init_rnd \<Rightarrow> string \<Rightarrow> key_package \<Rightarrow> string \<Rightarrow> msg_disk \<Rightarrow> (string \<times> string) res \<times> msg_disk" where
  "start_frame cr su now rnd wallet peer msg d =
     (case start_session cr su now rnd wallet peer msg d of
        Inl e \<Rightarrow> (Inl e, d)
      | Inr (f, s) \<Rightarrow> (case save_session wallet s d of (Inl e, d) \<Rightarrow> (Inl e, d) | (Inr _, d) \<Rightarrow> (Inr (s_sid s, init_bytes f), d)))"

definition send_frame :: "crypto \<Rightarrow> pq_suite \<Rightarrow> string \<Rightarrow> string \<Rightarrow> string \<Rightarrow> string \<Rightarrow> string \<Rightarrow> string \<Rightarrow> msg_disk \<Rightarrow> string res \<times> msg_disk" where
  "send_frame cr su r1 r2 iv wallet sid msg d =
     (case bind_res (load_session wallet sid d) (\<lambda>s. encrypt_locked cr su r1 r2 iv s msg) of
        Inl e \<Rightarrow> (Inl e, d)
      | Inr (f, s) \<Rightarrow> (case save_session wallet s d of (Inl e, d) \<Rightarrow> (Inl e, d) | (Inr _, d) \<Rightarrow> (Inr (frame_bytes f), d)))"

text \<open>The session that a handshake frame opens, with its first message.\<close>

definition open_init :: "crypto \<Rightarrow> pq_suite \<Rightarrow> u64 \<Rightarrow> string \<Rightarrow> init_frame \<Rightarrow> msg_disk \<Rightarrow> (session \<times> string) res" where
  "open_init cr su now wallet f d =
     (case load_session wallet (i_sid f) d of
        Inr _ \<Rightarrow> Inl ''duplicate or replayed message''
      | Inl e \<Rightarrow>
          if e = exception then Inl exception
          else
          bind_res (need ''malformed key package'' (kp_decode (i_sender f))) (\<lambda>sender.
          bind_res (kp_verify su now sender) (\<lambda>_.
          let tr = transcript cr (i_sid f) (i_kp_hash f) (kp_hash cr sender) (i_ct1 f) (i_pub f) in
          if \<not> sig_verify su (kp_identity sender) tr (i_sig f) then Inl ''init: bad ML-DSA-87 signature''
          else bind_res (find_init_sk now wallet (i_kp_hash f) d) (\<lambda>init_sk.
               bind_res (need ''decapsulation failed'' (pq_decaps su init_sk (i_ct1 f))) (\<lambda>ss1.
               bind_res (fst (load_identity su wallet None d)) (\<lambda>(id_pk, id_sk).
               let rk = init_root cr su tr ss1; (mk, ck) = kdf_ck su (init_chain su rk) in
               bind_res (need ''authentication failed'' (pq_open su mk (i_iv f) (init_aad cr tr) (i_ct f))) (\<lambda>msg.
               Inr (session_init\<lparr>s_sid := i_sid f, s_my_fp := fingerprint cr id_pk, s_peer_fp := fingerprint cr (kp_identity sender),
                      s_peer_identity := kp_identity sender, s_peer_relay := kp_relay sender, s_rk := rk, s_ckr := ck, s_nr := 1,
                      s_peer_rk := i_pub f, s_need_step := True\<rparr>, msg))))))))"

definition open_frame :: "crypto \<Rightarrow> pq_suite \<Rightarrow> u64 \<Rightarrow> string \<Rightarrow> string \<Rightarrow> msg_disk \<Rightarrow> (string \<times> string \<times> string) res \<times> msg_disk" where
  "open_frame cr su now wallet b d =
     (case (if starts_with ''AMI1'' b
            then bind_res (need ''malformed init frame'' (parse_init b)) (\<lambda>f.
                 bind_res (open_init cr su now wallet f d) (\<lambda>(s, msg). Inr (i_sid f, s, msg)))
            else bind_res (need ''malformed frame'' (parse_frame b)) (\<lambda>f.
                 bind_res (load_session wallet (f_sid f) d) (\<lambda>s.
                 bind_res (decrypt_locked cr su s f) (\<lambda>(msg, s). Inr (f_sid f, s, msg))))) of
        Inl e \<Rightarrow> (Inl e, d)
      | Inr (sid, s, msg) \<Rightarrow> (case save_session wallet s d of (Inl e, d) \<Rightarrow> (Inl e, d) | (Inr _, d) \<Rightarrow> (Inr (sid, s_peer_fp s, msg), d)))"

text \<open>
  The operations over the relay. \<open>send_relay\<close> is its answer to a frame for a relay key, \<open>read_all\<close> the
  messages of the inbox with their ids.
\<close>

definition msg_start :: "crypto \<Rightarrow> pq_suite \<Rightarrow> u64 \<Rightarrow> bool \<Rightarrow> (string \<Rightarrow> string res) \<Rightarrow> (string \<Rightarrow> string \<Rightarrow> unit res) \<Rightarrow> init_rnd
    \<Rightarrow> string \<Rightarrow> string \<Rightarrow> string \<Rightarrow> msg_disk \<Rightarrow> string res \<times> msg_disk" where
  "msg_start cr su now relay find_package send_relay rnd wallet peer msg d =
     (if \<not> relay then (Inl ''pm relay disabled'', d)
      else case lookup cr su now relay find_package peer of
        Inl e \<Rightarrow> (Inl e, d)
      | Inr k \<Rightarrow>
          (case start_frame cr su now rnd wallet k msg d of
             (Inl e, d) \<Rightarrow> (Inl e, d)
           | (Inr (sid, frame), d) \<Rightarrow> (bind_res (send_relay (to_hex (kp_relay k)) frame) (\<lambda>_. Inr sid), d)))"

definition msg_send :: "crypto \<Rightarrow> pq_suite \<Rightarrow> bool \<Rightarrow> (string \<Rightarrow> string \<Rightarrow> unit res) \<Rightarrow> string \<Rightarrow> string \<Rightarrow> string \<Rightarrow> string \<Rightarrow> string \<Rightarrow> string \<Rightarrow> msg_disk
    \<Rightarrow> unit res \<times> msg_disk" where
  "msg_send cr su relay send_relay r1 r2 iv wallet sid msg d =
     (if \<not> relay then (Inl ''pm relay disabled'', d)
      else case load_session wallet sid d of
        Inl e \<Rightarrow> (Inl e, d)
      | Inr s \<Rightarrow>
          (case send_frame cr su r1 r2 iv wallet sid msg d of
             (Inl e, d) \<Rightarrow> (Inl e, d)
           | (Inr frame, d) \<Rightarrow> (send_relay (to_hex (s_peer_relay s)) frame, d)))"

text \<open>
  The state of \<^verbatim>\<open>receive\<close>: the files, the report, the number of messages opened, and the ids removed from the
  relay. An item whose id is empty is done.
\<close>

record inbox_run =
  r_disk :: msg_disk
  r_out :: string
  r_got :: nat
  r_removed :: "string list"

definition receive_item :: "crypto \<Rightarrow> pq_suite \<Rightarrow> u64 \<Rightarrow> string \<Rightarrow> string \<times> string \<Rightarrow> inbox_run \<Rightarrow> ((string \<times> string) \<times> inbox_run) res" where
  "receive_item cr su now wallet item run =
     (let (mid, body) = item in
      if mid = [] then Inr (item, run)
      else if \<not> starts_with ''AMI1'' body \<and> \<not> starts_with ''AMM1'' body then Inr (([], body), run)
      else case open_frame cr su now wallet body (r_disk run) of
        (Inr (sid, fp, msg), d) \<Rightarrow>
          Inr (([], body), run\<lparr>r_disk := d, r_out := r_out run @ [newline] @ ''session='' @ sid @ '' from='' @ fp @ '' text='' @ msg,
                 r_got := r_got run + 1, r_removed := r_removed run @ [mid]\<rparr>)
      | (Inl e, d) \<Rightarrow>
          if e = exception then Inl exception
          else if e = ''unknown session'' \<or> starts_with ''out-of-order'' e then Inr (item, run\<lparr>r_disk := d\<rparr>)
          else Inr (([], body), run\<lparr>r_disk := d, r_out := r_out run @ [newline] @ ''rejected msg_id='' @ mid @ '' ('' @ e @ '')'',
                 r_removed := r_removed run @ [mid]\<rparr>))"

fun receive_pass :: "crypto \<Rightarrow> pq_suite \<Rightarrow> u64 \<Rightarrow> string \<Rightarrow> (string \<times> string) list \<Rightarrow> inbox_run \<Rightarrow> ((string \<times> string) list \<times> inbox_run) res" where
  "receive_pass cr su now wallet [] run = Inr ([], run)"
| "receive_pass cr su now wallet (x # xs) run =
     bind_res (receive_item cr su now wallet x run) (\<lambda>(x, run).
     bind_res (receive_pass cr su now wallet xs run) (\<lambda>(xs, run). Inr (x # xs, run)))"

definition receive :: "crypto \<Rightarrow> pq_suite \<Rightarrow> u64 \<Rightarrow> bool \<Rightarrow> (string \<times> string) list res \<Rightarrow> string \<Rightarrow> msg_disk \<Rightarrow> (string \<times> inbox_run) res" where
  "receive cr su now relay read_all wallet d =
     (if \<not> relay then Inl ''pm relay disabled''
      else bind_res read_all (\<lambda>items.
      let first = (\<lambda>x. starts_with ''AMI1'' (snd x));
          items = filter first items @ filter (\<lambda>x. \<not> first x) items in
      bind_res (receive_pass cr su now wallet items \<lparr>r_disk = d, r_out = [], r_got = 0, r_removed = []\<rparr>) (\<lambda>(items, run).
      bind_res (receive_pass cr su now wallet items run) (\<lambda>(items, run).
      bind_res (receive_pass cr su now wallet items run) (\<lambda>(items, run).
      Inr (''received='' @ dec (r_got run) @ '' deferred='' @ dec (length (filter (\<lambda>x. fst x \<noteq> []) items)) @ r_out run, run))))))"

text \<open>The list of sessions; \<open>sids\<close> are the names of the session files in the order of the directory.\<close>

definition session_line :: "crypto \<Rightarrow> session \<Rightarrow> string" where
  "session_line cr s =
     [newline] @ s_sid s @ '' peer='' @ s_peer_fp s @ '' safety='' @ h32_of cr (''AMLS1-safety|'' @ min (s_my_fp s) (s_peer_fp s) @ ''|'' @ max (s_my_fp s) (s_peer_fp s))
     @ '' sent='' @ to_string (s_ns s) @ '' recv='' @ to_string (s_nr s) @ '' next_send_ratchets='' @ flag01 (s_need_step s)"

definition list_sessions :: "crypto \<Rightarrow> string list \<Rightarrow> string \<Rightarrow> msg_disk \<Rightarrow> string res" where
  "list_sessions cr sids wallet d =
     (if \<not> safe_name wallet then Inl ''invalid wallet name''
      else if list_ex (\<lambda>sid. load_session wallet sid d = Inl exception) sids then Inl exception
      else
        (let found = concat (map (\<lambda>sid. case load_session wallet sid d of Inl _ \<Rightarrow> [] | Inr s \<Rightarrow> [s]) sids) in
         Inr (''sessions='' @ dec (length found) @ concat (map (session_line cr) found))))"

end
