(* ===== verification/Pq_Formats.thy ===== *)
theory Pq_Formats
  imports Pq_Session
begin

text \<open>
  The formats of the messaging sessions (\<^verbatim>\<open>pq_session.cpp\<close>). The binary formats of key packages, messages and
  handshake frames are exact: a text is read exactly when it is the encoding of the value and the fields
  are within the limits of the reader. The session file restores the session.
\<close>

section \<open>Binary formats\<close>

lemma length_be_bytes [simp]: "length (be_bytes k n) = k"
  by (induction k) simp_all

lemma be_num_Nil [simp]: "be_num [] = 0" by (simp add: be_num_def)

lemma be_num_Cons [simp]: "be_num (c # s) = of_char c * 256 ^ length s + be_num s"
proof -
  have "foldl (\<lambda>a c. 256 * a + of_char c) a s = a * 256 ^ length s + foldl (\<lambda>a c. 256 * a + of_char c) 0 s" for a :: nat
  proof (induction s arbitrary: a)
    case (Cons d s)
    from Cons [of "256 * a + of_char d"] Cons [of "of_char d"] show ?case by (simp add: algebra_simps)
  qed simp
  from this [of "of_char c"] show ?thesis by (simp add: be_num_def)
qed

lemma be_num_less: "be_num s < 256 ^ length s"
proof (induction s)
  case (Cons c s)
  have "(of_char c :: nat) * 256 ^ length s + be_num s < (of_char c + 1) * 256 ^ length s" using Cons by simp
  also have "\<dots> \<le> 256 * 256 ^ length s"
    by (intro mult_right_mono) (metis Suc_eq_plus1 Suc_leI nat_of_char_less_256, simp)
  finally show ?case by simp
qed simp

lemma be_num_bytes: "be_num (be_bytes k n) = n mod 256 ^ k"
proof (induction k)
  case (Suc k)
  have "of_char (char_of (n div 256 ^ k)) = n div 256 ^ k mod 256" by simp
  then show ?case using Suc mod_mult2_eq [of n "256 ^ k" 256] by (simp add: mult.commute)
qed simp

lemma be_bytes_add: "be_bytes k (a * 256 ^ k + m) = be_bytes k m"
proof -
  have "be_bytes j (a * 256 ^ k + m) = be_bytes j m" if "j \<le> k" for j
    using that
  proof (induction j)
    case (Suc j)
    define p where "p = a * 256 ^ (k - Suc j) * 256"
    have "(256 :: nat) ^ k = 256 ^ (k - Suc j) * 256 ^ Suc j" using Suc.prems by (metis le_add_diff_inverse2 power_add)
    then have "a * 256 ^ k + m = m + p * 256 ^ j" by (simp add: p_def)
    then have "(a * 256 ^ k + m) div 256 ^ j = p + m div 256 ^ j" by (simp only: div_mult_self1 power_not_zero numeral_neq_zero simp_thms)
    moreover have "(p + m div 256 ^ j) mod 256 = (m div 256 ^ j) mod 256" by (simp add: p_def)
    ultimately have "char_of ((a * 256 ^ k + m) div 256 ^ j) = (char_of (m div 256 ^ j) :: char)" by (metis char_of_mod_256)
    with Suc show ?case by simp
  qed simp
  then show ?thesis by simp
qed

lemma be_bytes_num: "be_bytes (length s) (be_num s) = s"
proof (induction s)
  case (Cons c s)
  have "(of_char c * 256 ^ length s + be_num s) div 256 ^ length s = of_char c" using be_num_less [of s] by simp
  then show ?case using Cons be_bytes_add [of "length s" "of_char c" "be_num s"] by simp
qed simp

text \<open>A writer and a reader that understand each other exactly.\<close>

locale stream_codec =
  fixes put :: "'a \<Rightarrow> string" and get :: "string \<Rightarrow> ('a \<times> string) option" and ok :: "'a \<Rightarrow> bool"
  assumes get_iff: "get s = Some (x, r) \<longleftrightarrow> ok x \<and> s = put x @ r"
begin

lemma get_put: "ok x \<Longrightarrow> get (put x @ r) = Some (x, r)"
  using get_iff by blast

lemma bind_iff: "Option.bind (get s) (\<lambda>(x, r). f x r) = Some y \<longleftrightarrow> (\<exists>x r. ok x \<and> s = put x @ r \<and> f x r = Some y)"
  by (auto simp: bind_eq_Some_conv get_iff)

end

lemma pq_num_iff: "pq_num k s = Some (n, r) \<longleftrightarrow> n < 256 ^ k \<and> s = be_bytes k n @ r"
proof
  assume "pq_num k s = Some (n, r)"
  then have a: "k \<le> length s" "n = be_num (take k s)" "r = drop k s" by (auto simp: pq_num_def split: if_splits)
  then have "length (take k s) = k" by simp
  with be_num_less [of "take k s"] be_bytes_num [of "take k s"] a show "n < 256 ^ k \<and> s = be_bytes k n @ r" by simp
next
  assume "n < 256 ^ k \<and> s = be_bytes k n @ r"
  then show "pq_num k s = Some (n, r)" by (simp add: pq_num_def be_num_bytes)
qed

interpretation blob: stream_codec pq_put "pq_get mx" "\<lambda>b. length b \<le> mx \<and> length b < 2 ^ 32" for mx
proof
  fix s x r
  show "pq_get mx s = Some (x, r) \<longleftrightarrow> (length x \<le> mx \<and> length x < 2 ^ 32) \<and> s = pq_put x @ r"
  proof
    assume "pq_get mx s = Some (x, r)"
    then obtain n t where n: "pq_num 4 s = Some (n, t)" "n \<le> mx" "n \<le> length t" "x = take n t" "r = drop n t"
      by (auto simp: pq_get_def bind_eq_Some_conv split: if_splits)
    then have "n < 2 ^ 32" "s = be_bytes 4 n @ t" "length x = n" by (simp_all add: pq_num_iff)
    with n show "(length x \<le> mx \<and> length x < 2 ^ 32) \<and> s = pq_put x @ r" by (simp add: pq_put_def)
  next
    assume a: "(length x \<le> mx \<and> length x < 2 ^ 32) \<and> s = pq_put x @ r"
    then have "pq_num 4 s = Some (length x, x @ r)" by (simp add: pq_num_iff pq_put_def)
    with a show "pq_get mx s = Some (x, r)" by (simp add: pq_get_def)
  qed
qed

interpretation num64: stream_codec pq_put64 pq_get64 "\<lambda>_. True"
proof
  fix s x r
  show "pq_get64 s = Some (x, r) \<longleftrightarrow> True \<and> s = pq_put64 x @ r"
  proof
    assume "pq_get64 s = Some (x, r)"
    then obtain n where n: "pq_num 8 s = Some (n, r)" "x = of_nat n" by (auto simp: pq_get64_def bind_eq_Some_conv)
    then have "n < 2 ^ 64" "s = be_bytes 8 n @ r" by (simp_all add: pq_num_iff)
    moreover from this(1) have "unat x = n" by (simp add: n(2) unat_of_nat_u64)
    ultimately show "True \<and> s = pq_put64 x @ r" by (simp add: pq_put64_def)
  next
    assume "True \<and> s = pq_put64 x @ r"
    then have "pq_num 8 s = Some (unat x, r)" using unat_u64_bound [of x] by (simp add: pq_num_iff pq_put64_def)
    then show "pq_get64 s = Some (x, r)" by (simp add: pq_get64_def)
  qed
qed

lemma pq_magic_iff: "pq_magic m s = Some r \<longleftrightarrow> s = m @ r"
  by (auto simp: pq_magic_def starts_with_def split: if_splits) (metis append_take_drop_id)

text \<open>The limits that the readers of the formats enforce.\<close>

definition kp_limits :: "key_package \<Rightarrow> bool" where
  "kp_limits k \<longleftrightarrow> length (kp_index k) \<le> 64 \<and> length (kp_identity k) \<le> 4096 \<and> length (kp_init k) \<le> 4096 \<and> length (kp_relay k) \<le> 4096
     \<and> length (kp_sig k) \<le> 8192"

lemma pq_done_iff [simp]: "pq_done s = Some u \<longleftrightarrow> s = []"
  by (simp add: pq_done_def)

lemmas codec_iffs = pq_magic_iff blob.bind_iff num64.bind_iff bind_eq_Some_conv [of "pq_magic m s" for m s] bind_eq_Some_conv [of "pq_done s" for s]

text \<open>
  The key package format is exact: a byte string is accepted as a key package exactly when it is the
  encoding of that package and the fields are within the limits, so packages have one encoding only,
  and the hash that identifies a package in a handshake is a hash of its content.
\<close>

theorem key_package_canonical:
  "kp_decode b = Some k \<longleftrightarrow> kp_limits k \<and> b = kp_encode k"
proof -
  have "kp_decode b = Some k \<longleftrightarrow> (\<exists>i a n r c e g. length i \<le> 64 \<and> length a \<le> 4096 \<and> length n \<le> 4096 \<and> length r \<le> 4096 \<and> length g \<le> 8192
      \<and> b = ''AKP1'' @ pq_put i @ pq_put a @ pq_put n @ pq_put r @ pq_put64 c @ pq_put64 e @ pq_put g
      \<and> k = \<lparr>kp_index = i, kp_identity = a, kp_init = n, kp_relay = r, kp_created = c, kp_expires = e, kp_sig = g\<rparr>)"
    unfolding kp_decode_def codec_iffs by force
  also have "\<dots> \<longleftrightarrow> kp_limits k \<and> b = kp_encode k"
    unfolding kp_limits_def kp_encode_def by (cases k) auto
  finally show ?thesis .
qed

lemma if_None_iff: "(if c \<or> d then None else Some x) = Some y \<longleftrightarrow> \<not> c \<and> \<not> d \<and> x = y"
  by simp

definition frame_limits :: "msg_frame \<Rightarrow> bool" where
  "frame_limits f \<longleftrightarrow> length (f_sid f) \<le> 64 \<and> length (f_pub f) \<le> 4096 \<and> length (f_step_ct f) \<le> 4096 \<and> length (f_step_to f) \<le> 64
     \<and> length (f_iv f) = 12 \<and> length (f_ct f) \<le> 40000 \<and> f_pn f \<le> 0xFFFFFFFF \<and> f_n f \<le> 0xFFFFFFFF"

lemma parse_frame_iff: "parse_frame b = Some f \<longleftrightarrow> frame_limits f \<and> b = frame_bytes f"
proof -
  have "parse_frame b = Some f \<longleftrightarrow> (\<exists>i p c t pn n v x. length i \<le> 64 \<and> length p \<le> 4096 \<and> length c \<le> 4096 \<and> length t \<le> 64 \<and> length v = 12 \<and> length x \<le> 40000
      \<and> pn \<le> 0xFFFFFFFF \<and> n \<le> 0xFFFFFFFF
      \<and> b = ''AMM1'' @ pq_put i @ pq_put p @ pq_put c @ pq_put t @ pq_put64 pn @ pq_put64 n @ pq_put v @ pq_put x
      \<and> f = \<lparr>f_sid = i, f_pub = p, f_step_ct = c, f_step_to = t, f_pn = pn, f_n = n, f_iv = v, f_ct = x\<rparr>)"
    unfolding parse_frame_def codec_iffs if_None_iff by force
  also have "\<dots> \<longleftrightarrow> frame_limits f \<and> b = frame_bytes f"
    unfolding frame_limits_def frame_bytes_def by (cases f) auto
  finally show ?thesis .
qed

definition init_limits :: "init_frame \<Rightarrow> bool" where
  "init_limits f \<longleftrightarrow> safe_name (i_sid f) \<and> length (i_kp_hash f) \<le> 64 \<and> length (i_sender f) \<le> 16384 \<and> length (i_ct1 f) \<le> 4096
     \<and> length (i_pub f) \<le> 4096 \<and> length (i_sig f) \<le> 8192 \<and> length (i_iv f) = 12 \<and> length (i_ct f) \<le> 40000"

lemma parse_init_iff: "parse_init b = Some f \<longleftrightarrow> init_limits f \<and> b = init_bytes f"
proof -
  have s: "safe_name i \<Longrightarrow> length i \<le> 64" for i by (simp add: safe_name_def)
  have "parse_init b = Some f \<longleftrightarrow> (\<exists>i h e c p g v x. safe_name i \<and> length h \<le> 64 \<and> length e \<le> 16384 \<and> length c \<le> 4096 \<and> length p \<le> 4096 \<and> length g \<le> 8192
      \<and> length v = 12 \<and> length x \<le> 40000
      \<and> b = ''AMI1'' @ pq_put i @ pq_put h @ pq_put e @ pq_put c @ pq_put p @ pq_put g @ pq_put v @ pq_put x
      \<and> f = \<lparr>i_sid = i, i_kp_hash = h, i_sender = e, i_ct1 = c, i_pub = p, i_sig = g, i_iv = v, i_ct = x\<rparr>)"
    unfolding parse_init_def codec_iffs if_None_iff by (force dest: s)
  also have "\<dots> \<longleftrightarrow> init_limits f \<and> b = init_bytes f"
    unfolding init_limits_def init_bytes_def by (cases f) auto
  finally show ?thesis .
qed

section \<open>The session file\<close>

definition word_text :: "string \<Rightarrow> bool" where
  "word_text w \<longleftrightarrow> w \<noteq> [] \<and> list_all (\<lambda>c. \<not> is_space c) w"

lemma stream_words_Nil [simp]: "stream_words [] = []"
  by (subst stream_words.simps) (simp add: read_word_def)

lemma stream_words_space: "is_space c \<Longrightarrow> stream_words (c # s) = stream_words s"
proof -
  assume "is_space c"
  then have "read_word (c # s) = read_word s" by (simp add: read_word_def)
  then show ?thesis using stream_words.simps [of "c # s"] stream_words.simps [of s] by simp
qed

lemma stream_words_word: "word_text w \<Longrightarrow> is_space c \<Longrightarrow> stream_words (w @ c # s) = w # stream_words s"
  using read_word_token [of w "c # s" "[]"] stream_words_space [of c s]
  by (subst stream_words.simps) (simp add: word_text_def list_all_iff)

lemma stream_words_line:
  assumes "word_text k" and "word_text v"
  shows "stream_words (k @ '' '' @ v @ [newline] @ s) = k # v # stream_words s"
proof -
  have "is_space CHR '' ''" "is_space newline" by (simp_all add: is_space_def newline_def)
  with stream_words_word [OF assms(1), of "CHR '' ''" "v @ newline # s"] stream_words_word [OF assms(2), of newline s] show ?thesis by simp
qed

lemma stream_words_lines:
  assumes "list_all (\<lambda>(k, v). word_text k \<and> word_text v) kvs"
  shows "stream_words (concat (map (\<lambda>(k, v). k @ '' '' @ v @ [newline]) kvs) @ s) = concat (map (\<lambda>(k, v). [k, v]) kvs) @ stream_words s"
  using assms
proof (induction kvs)
  case (Cons x kvs)
  obtain k v where x: "x = (k, v)" by fastforce
  then have "word_text k" "word_text v" using Cons.prems by simp_all
  from stream_words_line [OF this, of "concat (map (\<lambda>(k, v). k @ '' '' @ v @ [newline]) kvs) @ s"] Cons x show ?case by simp
qed simp

lemma hex_no_space: "is_hex_char c \<Longrightarrow> \<not> is_space c"
  by (auto simp: is_hex_char_def hex_val_def is_space_def Let_def split: if_splits)

lemma hx_word: "word_text (pq_hx b)"
  using to_hex_hex [of b] hex_no_space by (cases b) (auto simp: word_text_def pq_hx_def is_space_def list_all_iff)

lemma to_string_word: "word_text (to_string n)"
  using dec_digits digit_no_space by (fastforce simp: word_text_def to_string_def list_all_iff)

lemma pq_unhex_hx: "length b \<le> 65536 \<Longrightarrow> pq_unhex (pq_hx b) = Some b"
proof (cases "b = []")
  case False
  assume "length b \<le> 65536"
  moreover have "to_hex b \<noteq> ''-''"
  proof
    assume "to_hex b = ''-''"
    then have "2 * length b = 1" using length_to_hex [of b] by simp
    then show False by presburger
  qed
  ultimately show ?thesis using False hex_to_bytes_to_hex [of b] by (simp add: pq_unhex_def pq_hx_def)
qed (simp add: pq_unhex_def pq_hx_def)

text \<open>The sessions that the file format can carry.\<close>

definition session_text :: "session \<Rightarrow> bool" where
  "session_text s \<longleftrightarrow> word_text (s_sid s) \<and> word_text (s_peer_fp s) \<and> word_text (s_my_fp s) \<and> word_text (s_step_to s) \<and> length (s_rk s) = 32
     \<and> list_all (\<lambda>b. length b \<le> 65536) [s_peer_identity s, s_peer_relay s, s_cks s, s_ckr s, s_my_pub s, s_my_sk s, s_prev_pub s, s_prev_sk s, s_peer_rk s, s_step_ct s]
     \<and> list_all (\<lambda>(k, v). word_text k \<and> length v \<le> 65536) (s_skipped s) \<and> sorted_wrt (<) (map fst (s_skipped s))"

lemma ucast_u64_u32: "ucast (ucast (x :: u32) :: u64) = x"
  by (auto intro!: bit_word_eqI simp: bit_ucast_iff dest: bit_imp_le_length)

lemma session_words_fields:
  assumes "session_text s"
  shows "session_words (concat (map (\<lambda>(k, v). [k, v]) (session_fields s)) @ ws) session_init = session_words ws (s\<lparr>s_skipped := []\<rparr>)"
proof -
  have u: "pq_unhex (pq_hx b) = Some b"
    if "b \<in> {s_peer_identity s, s_peer_relay s, s_rk s, s_cks s, s_ckr s, s_my_pub s, s_my_sk s, s_prev_pub s, s_prev_sk s, s_peer_rk s, s_step_ct s}" for b
    by (rule pq_unhex_hx) (use that assms in \<open>auto simp: session_text_def\<close>)
  have n: "stoull (to_string (x :: u32)) = Some (ucast x)" for x
  proof -
    have "read_uint (2 ^ 64) ([] @ dec (unat x) @ []) = Got (unat x) []"
      by (rule read_uint_dec) (use less_trans [OF unat_u32_bound [of x], of "2 ^ 64"] in \<open>auto simp: is_digit_char_def\<close>)
    then show ?thesis by (simp add: stoull_def to_string_def)
  qed
  show ?thesis
    by (simp add: session_fields_def session_field_def need_def bind_res_def Let_def u n flag01_def session_init_def ucast_u64_u32) (cases s; simp)
qed

lemma session_words_skipped:
  assumes "list_all (\<lambda>(k, v). word_text k \<and> length v \<le> 65536) kvs" and "sorted_wrt (<) (map fst (s_skipped s @ kvs))"
  shows "session_words (concat (map (\<lambda>(k, v). [''skip'', k, pq_hx v]) kvs)) s = Inr (s\<lparr>s_skipped := s_skipped s @ kvs\<rparr>)"
  using assms
proof (induction kvs arbitrary: s)
  case (Cons x kvs)
  obtain k v where x: "x = (k, v)" by fastforce
  have "omap_ins k v (s_skipped s) = s_skipped s @ [(k, v)]"
    by (rule omap_ins_last) (use Cons.prems(2) in \<open>auto simp: x sorted_wrt_append\<close>)
  moreover have "pq_unhex (pq_hx v) = Some v" using Cons.prems(1) by (intro pq_unhex_hx) (simp add: x)
  ultimately show ?case
    using Cons.IH [of "s\<lparr>s_skipped := s_skipped s @ [(k, v)]\<rparr>"] Cons.prems by (simp add: x need_def bind_res_def)
qed simp

lemma session_fields_words: "session_text s \<Longrightarrow> list_all (\<lambda>(k, v). word_text k \<and> word_text v) (session_fields s)"
  by (simp add: session_text_def session_fields_def hx_word to_string_word) (simp add: word_text_def is_space_def flag01_def)

lemma session_parse_ser:
  assumes "session_text s"
  shows "session_parse (session_ser s) = Inr s"
proof -
  let ?kvs = "map (\<lambda>(k, v). [''skip'', k, pq_hx v]) (s_skipped s)"
  have w: "list_all (\<lambda>(k, v). word_text k) (s_skipped s)" using assms by (auto simp: session_text_def list_all_iff)
  have sk: "stream_words (concat (map (\<lambda>(k, v). ''skip '' @ k @ '' '' @ pq_hx v @ [newline]) kvs)) = concat (map (\<lambda>(k, v). [''skip'', k, pq_hx v]) kvs)"
    if "list_all (\<lambda>(k, v). word_text k) kvs" for kvs
    using that
  proof (induction kvs)
    case (Cons x kvs)
    obtain k v where x: "x = (k, v)" by fastforce
    have t: "word_text ''skip''" "is_space CHR '' ''" by (simp_all add: word_text_def is_space_def)
    from stream_words_word [OF this, of "k @ '' '' @ pq_hx v @ [newline] @ concat (map (\<lambda>(k, v). ''skip '' @ k @ '' '' @ pq_hx v @ [newline]) kvs)"]
      stream_words_line [of k "pq_hx v"] Cons hx_word [of v] show ?case by (simp add: x)
  qed simp
  have "stream_words (session_ser s) = concat (map (\<lambda>(k, v). [k, v]) (session_fields s)) @ concat ?kvs"
    unfolding session_ser_def stream_words_lines [OF session_fields_words [OF assms]] sk [OF w] ..
  moreover have "session_words (concat ?kvs) (s\<lparr>s_skipped := []\<rparr>) = Inr s"
    using session_words_skipped [of "s_skipped s" "s\<lparr>s_skipped := []\<rparr>"] assms by (simp add: session_text_def)
  ultimately show ?thesis using assms
    by (simp add: session_parse_def session_words_fields [OF assms] bind_res_def) (simp add: session_text_def word_text_def)
qed

end
