(* ===== verification/Pq_Ratchet.thy ===== *)
theory Pq_Ratchet
  imports Pq_Formats
begin

text \<open>
  The ratchet of the messaging sessions. Under the correctness laws of the libraries, two sessions that
  are in step stay in step and deliver the messages of a conversation, whoever speaks and in
  whatever order the messages of a turn arrive, for turns of at most 256 messages, fresh ratchet keys and
  message numbers below 2^32. A message number of the current receiving chain is
  accepted at most once.
\<close>

section \<open>Laws of the libraries\<close>

text \<open>A key pair of the KEM: what is encapsulated to the public key, the secret key decapsulates.\<close>

definition kem_match :: "pq_suite \<Rightarrow> string \<Rightarrow> string \<Rightarrow> bool" where
  "kem_match su pk sk \<longleftrightarrow> pk \<noteq> [] \<and> (\<forall>r. \<exists>ct ss. pq_encaps su r pk = Some (ct, ss) \<and> ct \<noteq> [] \<and> pq_decaps su sk ct = Some ss)"

text \<open>
  HMAC-SHA3-512 returns 64 bytes, AES-256-GCM with a key of 32 bytes opens what it sealed, and key generation gives key pairs.
\<close>

definition suite_laws :: "pq_suite \<Rightarrow> bool" where
  "suite_laws su \<longleftrightarrow> (\<forall>k m. length (pq_hmac su k m) = 64)
     \<and> (\<forall>k iv a m. length k = 32 \<longrightarrow> (\<exists>ct. pq_seal su k iv a m = Some ct \<and> pq_open su k iv a ct = Some m))
     \<and> (\<forall>r. \<exists>pk sk. pq_keypair su r = Some (pk, sk) \<and> kem_match su pk sk)"

section \<open>Chains\<close>

fun chain_after :: "pq_suite \<Rightarrow> string \<Rightarrow> nat \<Rightarrow> string" where
  "chain_after su c 0 = c"
| "chain_after su c (Suc n) = snd (kdf_ck su (chain_after su c n))"

definition msg_key :: "pq_suite \<Rightarrow> string \<Rightarrow> nat \<Rightarrow> string" where
  "msg_key su c n = fst (kdf_ck su (chain_after su c n))"

lemma kdf_ck_chain: "kdf_ck su (chain_after su c n) = (msg_key su c n, chain_after su c (Suc n))"
  by (simp add: msg_key_def)

lemma length_chain_after: "suite_laws su \<Longrightarrow> length c = 32 \<Longrightarrow> length (chain_after su c n) = 32"
  by (cases n) (simp_all add: kdf_ck_def hmac_def suite_laws_def)

lemma length_kdf_rk: "suite_laws su \<Longrightarrow> length (fst (kdf_rk su rk ss)) = 32 \<and> length (snd (kdf_rk su rk ss)) = 32"
  by (simp add: kdf_rk_def hmac_def suite_laws_def Let_def)

lemma length_kdf_ck: "suite_laws su \<Longrightarrow> length (fst (kdf_ck su c)) = 32"
  by (simp add: kdf_ck_def hmac_def suite_laws_def)

lemma seal_open:
  assumes "suite_laws su"
  obtains ct where "pq_seal su (fst (kdf_ck su c)) iv a m = Some ct" and "pq_open su (fst (kdf_ck su c)) iv a ct = Some m"
  using assms length_kdf_ck [OF assms, of c] unfolding suite_laws_def by blast

lemma u32_of_nat: "n < 2 ^ 32 \<Longrightarrow> unat (of_nat n :: u32) = n"
  by (simp add: unat_of_nat)

lemma u64_of_u32: "n < 2 ^ 32 \<Longrightarrow> (ucast (of_nat n :: u32) :: u64) = of_nat n"
  by (simp add: word_unat_eq_iff unsigned_ucast_eq unsigned_of_nat take_bit_nat_eq_self)

lemma u32_of_u64: "(ucast (of_nat n :: u64) :: u32) = of_nat n"
  by (simp add: word_unat_eq_iff unsigned_ucast_eq unsigned_of_nat)

section \<open>Sending\<close>

text \<open>Message \<open>n\<close> of the sending chain \<open>c\<close> of a session.\<close>

definition chain_frame :: "crypto \<Rightarrow> pq_suite \<Rightarrow> session \<Rightarrow> string \<Rightarrow> nat \<Rightarrow> string \<Rightarrow> msg_frame \<Rightarrow> bool" where
  "chain_frame cr su s c n msg f \<longleftrightarrow> f_sid f = s_sid s \<and> f_pub f = s_my_pub s \<and> f_step_ct f = s_step_ct s \<and> f_step_to f = s_step_to s
     \<and> f_pn f = ucast (s_pn s) \<and> f_n f = of_nat n \<and> pq_open su (msg_key su c n) (f_iv f) (frame_aad cr f) (f_ct f) = Some msg"

lemma encrypt_plain:
  assumes "suite_laws su" and "length c = 32" and "\<not> s_need_step s" and "s_cks s = chain_after su c n" and "s_ns s = of_nat n" and "n < 2 ^ 32"
  shows "\<exists>f. encrypt_locked cr su r1 r2 iv s msg = Inr (f, s\<lparr>s_cks := chain_after su c (Suc n), s_ns := of_nat (Suc n)\<rparr>) \<and> chain_frame cr su s c n msg f"
proof -
  let ?f = "\<lparr>f_sid = s_sid s, f_pub = s_my_pub s, f_step_ct = s_step_ct s, f_step_to = s_step_to s, f_pn = ucast (s_pn s), f_n = ucast (s_ns s), f_iv = iv, f_ct = []\<rparr>"
  obtain ct where ct: "pq_seal su (msg_key su c n) iv (frame_aad cr ?f) msg = Some ct" "pq_open su (msg_key su c n) iv (frame_aad cr ?f) ct = Some msg"
    unfolding msg_key_def by (rule seal_open [OF assms(1)])
  have len: "length (chain_after su c n) = 32" by (rule length_chain_after [OF assms(1,2)])
  have "encrypt_locked cr su r1 r2 iv s msg = Inr (?f\<lparr>f_ct := ct\<rparr>, s\<lparr>s_cks := chain_after su c (Suc n), s_ns := of_nat (Suc n)\<rparr>)"
    using assms(3-5) len ct(1) by (simp add: encrypt_locked_def bind_res_def kdf_ck_chain Let_def add.commute del: chain_after.simps)
  moreover have "frame_aad cr (?f\<lparr>f_ct := ct\<rparr>) = frame_aad cr ?f" by (simp add: frame_aad_def)
  ultimately show ?thesis using ct(2) assms(5) u64_of_u32 [OF assms(6)]
    by (intro exI [of _ "?f\<lparr>f_ct := ct\<rparr>"]) (simp add: chain_frame_def)
qed

text \<open>A turn of a speaker: randomness, nonce and text of every message.\<close>

type_synonym utterance = "string \<times> string \<times> string \<times> string"

fun encrypt_all :: "crypto \<Rightarrow> pq_suite \<Rightarrow> session \<Rightarrow> utterance list \<Rightarrow> (msg_frame list \<times> session) res" where
  "encrypt_all cr su s [] = Inr ([], s)"
| "encrypt_all cr su s ((r1, r2, iv, msg) # us) =
     bind_res (encrypt_locked cr su r1 r2 iv s msg) (\<lambda>(f, s).
     bind_res (encrypt_all cr su s us) (\<lambda>(fs, s). Inr (f # fs, s)))"

abbreviation said :: "utterance list \<Rightarrow> string list" where
  "said us \<equiv> map (\<lambda>(_, _, _, msg). msg) us"

lemma chain_frame_upd: "chain_frame cr su (s\<lparr>s_cks := a, s_ns := b\<rparr>) c n msg f = chain_frame cr su s c n msg f"
  by (simp add: chain_frame_def)

lemma encrypt_all_plain:
  assumes "suite_laws su" and "length c = 32" and "\<not> s_need_step s" and "s_cks s = chain_after su c n" and "s_ns s = of_nat n"
    and "n + length us < 2 ^ 32"
  shows "\<exists>fs. encrypt_all cr su s us = Inr (fs, s\<lparr>s_cks := chain_after su c (n + length us), s_ns := of_nat (n + length us)\<rparr>)
    \<and> length fs = length us \<and> (\<forall>i<length us. chain_frame cr su s c (n + i) (said us ! i) (fs ! i))"
  using assms(3-)
proof (induction us arbitrary: s n)
  case (Cons u us)
  obtain r1 r2 iv msg where u: "u = (r1, r2, iv, msg)" by (cases u) auto
  define t where "t = s\<lparr>s_cks := chain_after su c (Suc n), s_ns := of_nat (Suc n)\<rparr>"
  have "n < 2 ^ 32" using Cons.prems(4) by simp
  from encrypt_plain [OF assms(1,2) Cons.prems(1-3) this] obtain f
    where f: "encrypt_locked cr su r1 r2 iv s msg = Inr (f, t)" "chain_frame cr su s c n msg f" unfolding t_def by blast
  have "\<not> s_need_step t" "s_cks t = chain_after su c (Suc n)" "s_ns t = of_nat (Suc n)" "Suc n + length us < 2 ^ 32"
    using Cons.prems by (simp_all add: t_def del: chain_after.simps of_nat_Suc)
  from Cons.IH [OF this] obtain fs where fs: "encrypt_all cr su t us = Inr (fs, t\<lparr>s_cks := chain_after su c (Suc n + length us), s_ns := of_nat (Suc n + length us)\<rparr>)"
    "length fs = length us" "\<forall>i<length us. chain_frame cr su t c (Suc n + i) (said us ! i) (fs ! i)" by blast
  have "chain_frame cr su s c (n + i) (said (u # us) ! i) ((f # fs) ! i)" if "i < length (u # us)" for i
    using that f(2) fs(3) by (cases i) (simp_all add: u t_def chain_frame_upd del: chain_after.simps of_nat_Suc)
  moreover have "encrypt_all cr su s (u # us) = Inr (f # fs, s\<lparr>s_cks := chain_after su c (n + length (u # us)), s_ns := of_nat (n + length (u # us))\<rparr>)"
    using f(1) fs(1) by (simp add: u bind_res_def t_def del: chain_after.simps of_nat_Suc)
  ultimately show ?case using fs(2) by (intro exI [of _ "f # fs"]) simp
qed (cases s; simp)

section \<open>Receiving\<close>

lemma skip_key_eq: "i < 2 ^ 32 \<Longrightarrow> j < 2 ^ 32 \<Longrightarrow> skip_key cr p (of_nat i) = skip_key cr p (of_nat j) \<longleftrightarrow> i = j"
  by (metis skip_key_def append_same_eq same_append_eq to_string_def dec_inject u32_of_nat)

text \<open>
  A receiver in the middle of a turn: the chain \<open>c\<close> is at \<open>m\<close>, the turn began at \<open>a\<close>, the messages \<open>d\<close> of it
  have arrived, and the keys of the others below \<open>m\<close> are stored.
\<close>

definition awaiting :: "crypto \<Rightarrow> pq_suite \<Rightarrow> string \<Rightarrow> nat \<Rightarrow> session \<Rightarrow> nat \<Rightarrow> nat set \<Rightarrow> session \<Rightarrow> bool" where
  "awaiting cr su c a r0 m d r \<longleftrightarrow> a \<le> m \<and> d \<subseteq> {a..<m} \<and>
     (\<exists>sk. r = r0\<lparr>s_ckr := chain_after su c m, s_nr := of_nat m, s_skipped := sk\<rparr> \<and> sorted_wrt (<) (map fst sk)
        \<and> (\<forall>k v. map_of sk k = Some v \<longleftrightarrow> (\<exists>j\<in>{a..<m} - d. k = skip_key cr (s_peer_rk r0) (of_nat j) \<and> v = msg_key su c j)))"

lemma awaiting_start: "s_ckr r = chain_after su c a \<Longrightarrow> s_nr r = of_nat a \<Longrightarrow> s_skipped r = [] \<Longrightarrow> awaiting cr su c a r a {} r"
  unfolding awaiting_def by (cases r) (auto intro!: exI [of _ "[]"])

lemma sorted_strict: "sorted_wrt (<) xs \<longleftrightarrow> sorted xs \<and> distinct xs" for xs :: "'a::linorder list"
  by (rule strict_sorted_iff)

lemma awaiting_skip:
  assumes "awaiting cr su c a r0 m d r" and "Suc m \<le> 2 ^ 32"
  shows "awaiting cr su c a r0 (Suc m) d (skip_loop cr su 1 r)"
proof -
  obtain sk where r: "r = r0\<lparr>s_ckr := chain_after su c m, s_nr := of_nat m, s_skipped := sk\<rparr>" and sk: "sorted_wrt (<) (map fst sk)"
    and am: "a \<le> m" "d \<subseteq> {a..<m}"
    and keys: "\<And>k v. map_of sk k = Some v \<longleftrightarrow> (\<exists>j\<in>{a..<m} - d. k = skip_key cr (s_peer_rk r0) (of_nat j) \<and> v = msg_key su c j)"
    using assms(1) unfolding awaiting_def by blast
  let ?k = "skip_key cr (s_peer_rk r0) (of_nat m)"
  have so: "sorted (map fst sk)" "distinct (map fst sk)" using sk by (simp_all add: sorted_strict)
  have m: "map_of (omap_ins ?k (msg_key su c m) sk) = (map_of sk)(?k \<mapsto> msg_key su c m)" by (rule map_of_omap_ins [OF so])
  have "map_of (omap_ins ?k (msg_key su c m) sk) k = Some v \<longleftrightarrow> (\<exists>j\<in>{a..<Suc m} - d. k = skip_key cr (s_peer_rk r0) (of_nat j) \<and> v = msg_key su c j)" for k v
  proof (cases "k = ?k")
    case True
    have u: "j = m" if "j \<in> {a..<Suc m}" "?k = skip_key cr (s_peer_rk r0) (of_nat j)" for j
      using that skip_key_eq [of m j cr "s_peer_rk r0"] assms(2) by auto
    moreover have "m \<in> {a..<Suc m} - d" using am by auto
    ultimately show ?thesis unfolding m True fun_upd_same option.inject by (metis DiffD1)
  next
    case False
    have "(\<exists>j\<in>{a..<Suc m} - d. k = skip_key cr (s_peer_rk r0) (of_nat j) \<and> v = msg_key su c j)
        \<longleftrightarrow> (\<exists>j\<in>{a..<m} - d. k = skip_key cr (s_peer_rk r0) (of_nat j) \<and> v = msg_key su c j)"
      using False by (metis Diff_iff atLeastLessThanSuc insert_iff am(1))
    then show ?thesis using False keys [of k v] unfolding m by simp
  qed
  moreover have "sorted_wrt (<) (map fst (omap_ins ?k (msg_key su c m) sk))" using omap_ins_sorted [OF so] by (simp add: sorted_strict)
  moreover have "skip_loop cr su 1 r = r0\<lparr>s_ckr := chain_after su c (Suc m), s_nr := of_nat (Suc m), s_skipped := omap_ins ?k (msg_key su c m) sk\<rparr>"
    by (simp add: r kdf_ck_chain add.commute del: chain_after.simps)
  ultimately show ?thesis using am unfolding awaiting_def by (auto intro!: exI [of _ "omap_ins ?k (msg_key su c m) sk"])
qed

lemma skip_loop_add: "skip_loop cr su (Suc k) s = skip_loop cr su k (skip_loop cr su 1 s)"
  by (simp add: case_prod_unfold Let_def)

lemma awaiting_skips:
  assumes "awaiting cr su c a r0 m d r" and "m + k \<le> 2 ^ 32"
  shows "awaiting cr su c a r0 (m + k) d (skip_loop cr su k r)"
  using assms
proof (induction k arbitrary: m r)
  case (Suc k)
  have "awaiting cr su c a r0 (Suc m) d (skip_loop cr su 1 r)" by (rule awaiting_skip) (use Suc.prems in simp_all)
  from Suc.IH [OF this] Suc.prems(2) show ?case unfolding skip_loop_add by simp
qed simp

lemma awaiting_stored:
  assumes "awaiting cr su c a r0 m d r"
  shows "length (s_skipped r) \<le> m - a"
proof -
  obtain sk where sk: "s_skipped r = sk" "sorted_wrt (<) (map fst sk)"
    "\<And>k v. map_of sk k = Some v \<longleftrightarrow> (\<exists>j\<in>{a..<m} - d. k = skip_key cr (s_peer_rk r0) (of_nat j) \<and> v = msg_key su c j)"
    using assms unfolding awaiting_def by auto
  have "dom (map_of sk) \<subseteq> (\<lambda>j. skip_key cr (s_peer_rk r0) (of_nat j)) ` {a..<m}" using sk(3) by auto
  then have "card (dom (map_of sk)) \<le> card {a..<m}" using card_image_le [of "{a..<m}"] card_mono by (metis finite_atLeastLessThan finite_imageI order_trans)
  moreover have "card (dom (map_of sk)) = length sk" using sk(2) by (metis distinct_card dom_map_of_conv_image_fst length_map list.set_map sorted_strict)
  ultimately show ?thesis using sk(1) by simp
qed

lemma map_of_filter_key: "map_of (filter (\<lambda>(k, _). k \<noteq> x) xs) k = (if k = x then None else map_of xs k)"
  by (induction xs) auto

lemma sorted_filter_key: "sorted_wrt (<) (map fst xs) \<Longrightarrow> sorted_wrt (<) (map fst (filter (\<lambda>(k, _). k \<noteq> x) xs))"
  by (induction xs) auto

lemma awaiting_take:
  assumes "awaiting cr su c a r0 m d r" and "j \<in> {a..<m} - d" and "m \<le> 2 ^ 32"
  shows "map_of (s_skipped r) (skip_key cr (s_peer_rk r0) (of_nat j)) = Some (msg_key su c j)
    \<and> awaiting cr su c a r0 m (insert j d) (r\<lparr>s_skipped := filter (\<lambda>(k, _). k \<noteq> skip_key cr (s_peer_rk r0) (of_nat j)) (s_skipped r)\<rparr>)"
proof -
  let ?key = "\<lambda>i. skip_key cr (s_peer_rk r0) (of_nat i)"
  obtain sk where r: "r = r0\<lparr>s_ckr := chain_after su c m, s_nr := of_nat m, s_skipped := sk\<rparr>" and sk: "sorted_wrt (<) (map fst sk)"
    and am: "a \<le> m" "d \<subseteq> {a..<m}" and keys: "\<And>k v. map_of sk k = Some v \<longleftrightarrow> (\<exists>i\<in>{a..<m} - d. k = ?key i \<and> v = msg_key su c i)"
    using assms(1) unfolding awaiting_def by blast
  let ?sk = "filter (\<lambda>(k, _). k \<noteq> ?key j) sk"
  have inj: "i = j" if "i < m" "?key i = ?key j" for i using that assms(2,3) skip_key_eq [of i j cr "s_peer_rk r0"] by auto
  have "map_of ?sk k = Some v \<longleftrightarrow> (\<exists>i\<in>{a..<m} - insert j d. k = ?key i \<and> v = msg_key su c i)" for k v
    unfolding map_of_filter_key using keys [of k v] inj by (auto split: if_splits)
  moreover have "insert j d \<subseteq> {a..<m}" using am assms(2) by auto
  ultimately have "awaiting cr su c a r0 m (insert j d) (r\<lparr>s_skipped := ?sk\<rparr>)"
    using am(1) sorted_filter_key [OF sk] unfolding awaiting_def by (intro conjI exI [of _ ?sk]) (simp_all add: r)
  moreover have "map_of sk (?key j) = Some (msg_key su c j)" using keys assms(2) by blast
  ultimately show ?thesis by (simp add: r)
qed

lemma awaiting_next:
  assumes "awaiting cr su c a r0 j d r"
  shows "awaiting cr su c a r0 (Suc j) (insert j d) (r\<lparr>s_ckr := chain_after su c (Suc j), s_nr := of_nat (Suc j)\<rparr>)"
proof -
  have e: "{a..<Suc j} - insert j d = {a..<j} - d" by auto
  obtain sk where sk: "r = r0\<lparr>s_ckr := chain_after su c j, s_nr := of_nat j, s_skipped := sk\<rparr>" "sorted_wrt (<) (map fst sk)"
    "\<forall>k v. map_of sk k = Some v \<longleftrightarrow> (\<exists>i\<in>{a..<j} - d. k = skip_key cr (s_peer_rk r0) (of_nat i) \<and> v = msg_key su c i)" "d \<subseteq> {a..<j}" "a \<le> j"
    using assms unfolding awaiting_def by blast
  have "r\<lparr>s_ckr := chain_after su c (Suc j), s_nr := of_nat (Suc j)\<rparr> = r0\<lparr>s_ckr := chain_after su c (Suc j), s_nr := of_nat (Suc j), s_skipped := sk\<rparr>"
    by (simp add: sk(1))
  moreover have "insert j d \<subseteq> {a..<Suc j}" using sk(4,5) by auto
  ultimately show ?thesis unfolding awaiting_def e using sk by (intro conjI exI [of _ sk]) simp_all
qed

lemma awaiting_fields:
  assumes "awaiting cr su c a r0 m d r"
  shows "s_ckr r = chain_after su c m" "s_nr r = of_nat m" "s_peer_rk r = s_peer_rk r0" "a \<le> m" "d \<subseteq> {a..<m}"
  using assms unfolding awaiting_def by auto

lemma awaiting_fresh:
  assumes "awaiting cr su c a r0 m d r" and "m \<le> j" and "j < 2 ^ 32"
  shows "map_of (s_skipped r) (skip_key cr (s_peer_rk r0) (of_nat j)) = None"
proof (rule ccontr)
  assume "map_of (s_skipped r) (skip_key cr (s_peer_rk r0) (of_nat j)) \<noteq> None"
  then obtain i where "i < m" "skip_key cr (s_peer_rk r0) (of_nat j) = skip_key cr (s_peer_rk r0) (of_nat i)"
    using assms(1) unfolding awaiting_def by auto
  then show False using skip_key_eq [of j i] assms(2,3) by auto
qed

lemma deliver:
  assumes laws: "suite_laws su" "length c = 32" and aw: "awaiting cr su c a r0 m d r" and j: "j \<notin> d" "a \<le> j" "j < 2 ^ 32" "j < a + kMaxStoredSkipped" "m \<le> 2 ^ 32"
    and f: "f_pub f = s_peer_rk r0" "f_n f = of_nat j" "pq_open su (msg_key su c j) (f_iv f) (frame_aad cr f) (f_ct f) = Some msg"
  shows "\<exists>r'. decrypt_locked cr su r f = Inr (msg, r') \<and> awaiting cr su c a r0 (max m (Suc j)) (insert j d) r'"
proof (cases "j < m")
  case True
  then have "j \<in> {a..<m} - d" using j by simp
  moreover have "max m (Suc j) = m" using True by simp
  ultimately show ?thesis using awaiting_take [OF aw _ j(5)] f
    by (simp add: decrypt_locked_def frame_key_def Let_def u32_of_u64 bind_res_def need_def)
next
  case False
  let ?s = "skip_loop cr su (j - m) r"
  have aw2: "awaiting cr su c a r0 j d ?s" using awaiting_skips [OF aw, of "j - m"] False j(3) by simp
  note F = awaiting_fields [OF aw] and G = awaiting_fields [OF aw2]
  have len: "length (s_ckr r) = 32" using length_chain_after [OF laws] F(1) by simp
  have st: "length (s_skipped ?s) - kMaxStoredSkipped = 0" using awaiting_stored [OF aw2] j(2,4) by simp
  have un: "unat (of_nat j :: u32) = j" "unat (of_nat m :: u32) = m" using False j(3) by (simp_all add: u32_of_nat)
  have "j \<le> m + kMaxSkip" using F(4) j(4) by (simp add: kMaxSkip_def kMaxStoredSkipped_def)
  then have "skip_to cr su (of_nat j) r = Some ?s" using len un F(2) by (simp add: skip_to_def st Let_def)
  moreover have "\<not> (of_nat j :: u32) < of_nat m" using un False by (simp add: word_less_nat_alt)
  ultimately have "decrypt_locked cr su r f = Inr (msg, ?s\<lparr>s_ckr := chain_after su c (Suc j), s_nr := of_nat (Suc j)\<rparr>)"
    using awaiting_fresh [OF aw _ j(3)] False f F G
    by (simp add: decrypt_locked_def frame_key_def Let_def u32_of_u64 bind_res_def need_def kdf_ck_chain add.commute del: chain_after.simps)
  moreover have "max m (Suc j) = Suc j" using False by simp
  ultimately show ?thesis using awaiting_next [OF aw2] by (simp del: chain_after.simps of_nat_Suc)
qed

fun decrypt_all :: "crypto \<Rightarrow> pq_suite \<Rightarrow> session \<Rightarrow> msg_frame list \<Rightarrow> (string list \<times> session) res" where
  "decrypt_all cr su r [] = Inr ([], r)"
| "decrypt_all cr su r (f # fs) =
     bind_res (decrypt_locked cr su r f) (\<lambda>(msg, r).
     bind_res (decrypt_all cr su r fs) (\<lambda>(ms, r). Inr (msg # ms, r)))"

lemma deliver_all:
  assumes laws: "suite_laws su" "length c = 32" and aw: "awaiting cr su c a r0 m d r" and b: "m \<le> b" "b \<le> a + kMaxStoredSkipped" "b \<le> 2 ^ 32"
    and js: "distinct js" "set js \<inter> d = {}" "set js \<subseteq> {a..<b}"
    and f: "\<forall>j\<in>set js. f_pub (F j) = s_peer_rk r0 \<and> f_n (F j) = of_nat j
      \<and> pq_open su (msg_key su c j) (f_iv (F j)) (frame_aad cr (F j)) (f_ct (F j)) = Some (M j)"
  shows "\<exists>r' m'. decrypt_all cr su r (map F js) = Inr (map M js, r') \<and> m' \<le> b \<and> awaiting cr su c a r0 m' (d \<union> set js) r'"
  using aw b(1) js f
proof (induction js arbitrary: m d r)
  case (Cons j js)
  have j: "j \<notin> d" "a \<le> j" "j < b" "j \<notin> set js" using Cons.prems(3-5) by auto
  obtain r1 where r1: "decrypt_locked cr su r (F j) = Inr (M j, r1)" "awaiting cr su c a r0 (max m (Suc j)) (insert j d) r1"
    using deliver [OF laws Cons.prems(1) j(1,2), of "F j" "M j"] Cons.prems(2,6) j(3) b(2,3) by auto
  have "\<exists>r' m'. decrypt_all cr su r1 (map F js) = Inr (map M js, r') \<and> m' \<le> b \<and> awaiting cr su c a r0 m' (insert j d \<union> set js) r'"
    by (rule Cons.IH [OF r1(2)]) (use Cons.prems j in auto)
  then show ?case using r1(1) by (auto simp: bind_res_def)
qed auto

text \<open>A whole turn of at most 256 messages, delivered in any order, is received.\<close>

lemma receive_turn:
  assumes laws: "suite_laws su" "length c = 32" and r: "s_ckr r = chain_after su c a" "s_nr r = of_nat a" "s_skipped r = []"
    and k: "length fs = k" "k \<le> kMaxStoredSkipped" "a + k < 2 ^ 32" and order: "distinct order" "set order = {..<k}"
    and f: "\<forall>i<k. f_pub (fs ! i) = s_peer_rk r \<and> f_n (fs ! i) = of_nat (a + i)
      \<and> pq_open su (msg_key su c (a + i)) (f_iv (fs ! i)) (frame_aad cr (fs ! i)) (f_ct (fs ! i)) = Some (ms ! i)"
  shows "decrypt_all cr su r (map ((!) fs) order) = Inr (map ((!) ms) order, r\<lparr>s_ckr := chain_after su c (a + k), s_nr := of_nat (a + k)\<rparr>)"
proof -
  let ?js = "map ((+) a) order"
  have aw: "awaiting cr su c a r a {} r" by (rule awaiting_start [OF r])
  have js: "distinct ?js" "set ?js = {a..<a + k}"
    using order by (simp_all add: distinct_map lessThan_atLeast0 image_add_atLeastLessThan add.commute)
  have P: "\<forall>j\<in>set ?js. f_pub (fs ! (j - a)) = s_peer_rk r \<and> f_n (fs ! (j - a)) = of_nat j
      \<and> pq_open su (msg_key su c j) (f_iv (fs ! (j - a))) (frame_aad cr (fs ! (j - a))) (f_ct (fs ! (j - a))) = Some (ms ! (j - a))"
    using f order(2) by auto
  obtain r' m' where d: "decrypt_all cr su r (map (\<lambda>j. fs ! (j - a)) ?js) = Inr (map (\<lambda>j. ms ! (j - a)) ?js, r')"
    and m': "m' \<le> a + k" and aw': "awaiting cr su c a r m' ({} \<union> set ?js) r'"
    using deliver_all [OF laws aw _ _ _ js(1) _ _ P, of "a + k"] js(2) k by auto
  have "{a..<a + k} \<subseteq> {a..<m'}" "a \<le> m'" using awaiting_fields(4,5) [OF aw'] js by auto
  then have e: "m' = a + k" using m' by (cases "k = 0") auto
  obtain sk where sk: "r' = r\<lparr>s_ckr := chain_after su c (a + k), s_nr := of_nat (a + k), s_skipped := sk\<rparr>" "\<forall>x v. map_of sk x \<noteq> Some v"
    using aw' unfolding awaiting_def e js(2) by auto
  have "map_of sk x = None" for x using sk(2) by (cases "map_of sk x") simp_all
  then have "map_of sk = Map.empty" by (rule ext)
  then have "sk = []" by simp
  then have "r' = r\<lparr>s_ckr := chain_after su c (a + k), s_nr := of_nat (a + k)\<rparr>" using sk(1) r(3) by (cases r) simp
  then show ?thesis using d by (simp add: comp_def)
qed

section \<open>Conversations\<close>

text \<open>
  Two sessions in step: \<open>s\<close> spoke last with a key of its own, \<open>r\<close> has to make a ratchet step before it
  speaks. \<open>c\<close> is the chain from \<open>s\<close> to \<open>r\<close>, both ends at the same number.
\<close>

definition in_step :: "pq_suite \<Rightarrow> session \<Rightarrow> session \<Rightarrow> bool" where
  "in_step su s r \<longleftrightarrow> \<not> s_need_step s \<and> s_need_step r \<and> s_sid s = s_sid r \<and> s_rk s = s_rk r \<and> s_peer_rk r = s_my_pub s
     \<and> kem_match su (s_my_pub s) (s_my_sk s) \<and> s_ns s = s_nr r \<and> (length (s_ckr s) = 32 \<longrightarrow> s_nr s = s_ns r)
     \<and> s_skipped s = [] \<and> s_skipped r = [] \<and> (\<exists>c. length c = 32 \<and> s_cks s = chain_after su c (unat (s_ns s)) \<and> s_ckr r = chain_after su c (unat (s_ns s)))"

lemma turn_plain:
  assumes laws: "suite_laws su" and st: "in_step su s r" and k: "length us \<le> kMaxStoredSkipped" "unat (s_ns s) + length us < 2 ^ 32"
    and order: "distinct order" "set order = {..<length us}"
  shows "\<exists>fs s' r'. encrypt_all cr su s us = Inr (fs, s') \<and> decrypt_all cr su r (map ((!) fs) order) = Inr (map ((!) (said us)) order, r')
    \<and> in_step su s' r' \<and> unat (s_ns s') = unat (s_ns s) + length us \<and> s_ns r' = s_ns r
    \<and> s_my_pub s' = s_my_pub s \<and> s_peer_rk s' = s_peer_rk s \<and> s_my_pub r' = s_my_pub r \<and> s_peer_rk r' = s_peer_rk r
    \<and> length fs = length us \<and> (\<forall>f\<in>set fs. f_pub f = s_my_pub s \<and> f_step_ct f = s_step_ct s \<and> f_step_to f = s_step_to s \<and> f_pn f = ucast (s_pn s))"
proof -
  let ?n = "unat (s_ns s)"
  define m where "m = ?n + length us"
  from st obtain c where c: "length c = 32" "s_cks s = chain_after su c ?n" "s_ckr r = chain_after su c ?n" unfolding in_step_def by blast
  define s' where "s' = s\<lparr>s_cks := chain_after su c m, s_ns := of_nat m\<rparr>"
  define r' where "r' = r\<lparr>s_ckr := chain_after su c m, s_nr := of_nat m\<rparr>"
  have ns: "s_ns s = of_nat ?n" "s_nr r = of_nat ?n" "\<not> s_need_step s" "s_skipped r = []" using st by (simp_all add: in_step_def)
  obtain fs where fs: "encrypt_all cr su s us = Inr (fs, s')" "length fs = length us"
      "\<forall>i<length us. chain_frame cr su s c (?n + i) (said us ! i) (fs ! i)"
    using encrypt_all_plain [OF laws c(1) ns(3) c(2) ns(1) k(2), of cr] unfolding s'_def m_def by blast
  have "decrypt_all cr su r (map ((!) fs) order) = Inr (map ((!) (said us)) order, r')"
    unfolding r'_def m_def by (rule receive_turn [OF laws c(1) c(3) ns(2,4) fs(2) k order])
      (use fs(3) st in \<open>auto simp: chain_frame_def in_step_def\<close>)
  moreover have "\<forall>f\<in>set fs. f_pub f = s_my_pub s \<and> f_step_ct f = s_step_ct s \<and> f_step_to f = s_step_to s \<and> f_pn f = ucast (s_pn s)"
    using fs(2,3) by (auto simp: in_set_conv_nth chain_frame_def)
  moreover have un: "unat (of_nat m :: u32) = m" using k(2) unfolding m_def by (rule u32_of_nat)
  moreover have "in_step su s' r'" using st c(1) by (auto simp: in_step_def s'_def r'_def un intro!: exI [of _ c])
  ultimately show ?thesis using fs(1,2) un by (intro exI [of _ fs] exI [of _ s'] exI [of _ r']) (simp add: s'_def r'_def m_def [symmetric])
qed

lemma turn_ratchet:
  assumes laws: "suite_laws su" and st: "in_step su s r" and fresh: "fst (the (pq_keypair su r2)) \<noteq> s_peer_rk s"
  shows "\<exists>r1 s1. ratchet_step cr su x r2 r = Some r1 \<and> in_step su r1 s1 \<and> s_ns r1 = 0 \<and> s_ns s1 = s_ns s
    \<and> s_my_pub s1 = s_my_pub s \<and> s_my_pub r1 = fst (the (pq_keypair su r2)) \<and> s_peer_rk s1 = fst (the (pq_keypair su r2)) \<and> s_peer_rk r1 = s_peer_rk r
    \<and> (\<forall>f. f_pub f = s_my_pub r1 \<and> f_step_ct f = s_step_ct r1 \<and> f_step_to f = s_step_to r1 \<and> f_pn f = ucast (s_pn r1)
        \<longrightarrow> decrypt_locked cr su s f = decrypt_locked cr su s1 f)"
proof -
  obtain pub sk where kp: "pq_keypair su r2 = Some (pub, sk)" "kem_match su pub sk" using laws unfolding suite_laws_def by blast
  have pk: "kem_match su (s_my_pub s) (s_my_sk s)" "s_peer_rk r = s_my_pub s" using st by (simp_all add: in_step_def)
  then obtain ct ss where ct: "pq_encaps su x (s_peer_rk r) = Some (ct, ss)" "ct \<noteq> []" "pq_decaps su (s_my_sk s) ct = Some ss"
    unfolding kem_match_def by metis
  obtain rk ck where rc: "kdf_rk su (s_rk r) ss = (rk, ck)" by fastforce
  define r1 where "r1 = r\<lparr>s_step_ct := ct, s_step_to := h32_of cr (s_peer_rk r), s_prev_pub := s_my_pub r, s_prev_sk := s_my_sk r,
      s_my_pub := pub, s_my_sk := sk, s_rk := rk, s_cks := ck, s_pn := s_ns r, s_ns := 0, s_need_step := False\<rparr>"
  define s1 where "s1 = s\<lparr>s_rk := rk, s_ckr := ck, s_peer_rk := pub, s_nr := 0, s_need_step := True\<rparr>"
  have step: "ratchet_step cr su x r2 r = Some r1" by (simp add: ratchet_step_def ct kp rc r1_def)
  have "length ck = 32" using length_kdf_rk [OF laws, of "s_rk r" ss] rc by simp
  then have in1: "in_step su r1 s1" using st kp(2) by (auto simp: in_step_def r1_def s1_def intro!: exI [of _ ck])
  have skip: "skip_to cr su (s_pn r1) s = Some s"
    using st by (cases s) (auto simp: skip_to_def in_step_def r1_def kMaxSkip_def)
  have "decrypt_locked cr su s f = decrypt_locked cr su s1 f"
    if f: "f_pub f = s_my_pub r1" "f_step_ct f = s_step_ct r1" "f_step_to f = s_step_to r1" "f_pn f = ucast (s_pn r1)" for f
  proof -
    have "receive_step cr su f s = Inr s1"
      using f skip ct pk st rc kp(2) by (simp add: receive_step_def ucast_u64_u32 need_def bind_res_def r1_def s1_def in_step_def kem_match_def)
    moreover have "f_pub f \<noteq> s_peer_rk s" "f_pub f = s_peer_rk s1" using fresh kp f by (simp_all add: r1_def s1_def)
    moreover have "s_skipped s = []" "s_skipped s1 = []" using st by (simp_all add: in_step_def s1_def)
    ultimately show ?thesis by (simp add: decrypt_locked_def frame_key_def bind_res_def)
  qed
  then show ?thesis using step in1 kp by (intro exI [of _ r1] exI [of _ s1]) (simp add: r1_def s1_def)
qed

definition session_keys :: "session \<Rightarrow> session \<Rightarrow> string set" where
  "session_keys a b = {s_my_pub a, s_peer_rk a, s_my_pub b, s_peer_rk b}"

definition speaker_key :: "pq_suite \<Rightarrow> utterance list \<Rightarrow> string" where
  "speaker_key su us = fst (the (pq_keypair su (fst (snd (hd us)))))"

text \<open>Whoever of two sessions in step speaks is understood, and the speaker now spoke last.\<close>

lemma speak:
  assumes laws: "suite_laws su" and st: "in_step su s r \<or> in_step su r s" and us: "us \<noteq> []" "length us \<le> kMaxStoredSkipped"
    and k: "unat (s_ns s) + length us < 2 ^ 32" and order: "distinct order" "set order = {..<length us}"
    and fresh: "speaker_key su us \<notin> session_keys s r"
  shows "\<exists>fs s' r'. encrypt_all cr su s us = Inr (fs, s') \<and> decrypt_all cr su r (map ((!) fs) order) = Inr (map ((!) (said us)) order, r')
    \<and> in_step su s' r' \<and> unat (s_ns s') + unat (s_ns r') \<le> unat (s_ns s) + unat (s_ns r) + length us
    \<and> session_keys s' r' \<subseteq> insert (speaker_key su us) (session_keys s r)"
proof (cases "in_step su s r")
  case True
  from turn_plain [OF laws True us(2) k order, of cr] show ?thesis by (auto simp: session_keys_def)
next
  case False
  then have st: "in_step su r s" using st by simp
  obtain x r2 iv msg vs where u: "us = (x, r2, iv, msg) # vs" using us(1) by (cases us) auto
  have key: "fst (the (pq_keypair su r2)) = speaker_key su us" by (simp add: speaker_key_def u)
  then have "fst (the (pq_keypair su r2)) \<noteq> s_peer_rk r" using fresh by (auto simp: session_keys_def)
  from turn_ratchet [OF laws st this, of cr x] obtain s1 r1
    where step: "ratchet_step cr su x r2 s = Some s1" and st1: "in_step su s1 r1" and ns: "s_ns s1 = 0" "s_ns r1 = s_ns r"
      and pk: "s_my_pub r1 = s_my_pub r" "s_my_pub s1 = speaker_key su us" "s_peer_rk r1 = speaker_key su us" "s_peer_rk s1 = s_peer_rk s"
      and dec: "\<forall>f. f_pub f = s_my_pub s1 \<and> f_step_ct f = s_step_ct s1 \<and> f_step_to f = s_step_to s1 \<and> f_pn f = ucast (s_pn s1)
         \<longrightarrow> decrypt_locked cr su r f = decrypt_locked cr su r1 f"
    unfolding key by blast
  have "unat (s_ns s1) + length us < 2 ^ 32" using k ns by simp
  from turn_plain [OF laws st1 us(2) this order, of cr] obtain fs s' r'
    where t: "encrypt_all cr su s1 us = Inr (fs, s')" "decrypt_all cr su r1 (map ((!) fs) order) = Inr (map ((!) (said us)) order, r')"
      "in_step su s' r'" "unat (s_ns s') = unat (s_ns s1) + length us" "s_ns r' = s_ns r1" "s_my_pub s' = s_my_pub s1" "s_peer_rk s' = s_peer_rk s1"
      "s_my_pub r' = s_my_pub r1" "s_peer_rk r' = s_peer_rk r1" "length fs = length us"
      and hd: "\<forall>f\<in>set fs. f_pub f = s_my_pub s1 \<and> f_step_ct f = s_step_ct s1 \<and> f_step_to f = s_step_to s1 \<and> f_pn f = ucast (s_pn s1)" by blast
  have "encrypt_locked cr su x r2 iv s msg = encrypt_locked cr su x r2 iv s1 msg"
    using st st1 step by (simp add: encrypt_locked_def in_step_def bind_res_def need_def)
  then have e: "encrypt_all cr su s us = Inr (fs, s')" using t(1) by (simp add: u)
  obtain i rest where i: "order = i # rest" using order(2) us(1) by (cases order) auto
  have "i \<in> {..<length us}" unfolding order(2) [symmetric] i by simp
  then have "fs ! i \<in> set fs" by (simp add: t(10))
  with hd dec have "decrypt_locked cr su r (fs ! i) = decrypt_locked cr su r1 (fs ! i)" by blast
  then have d: "decrypt_all cr su r (map ((!) fs) order) = Inr (map ((!) (said us)) order, r')" using t(2) by (simp add: i)
  show ?thesis using e d t ns pk by (intro exI [of _ fs] exI [of _ s'] exI [of _ r']) (auto simp: session_keys_def)
qed

text \<open>
  A conversation: in every turn one side sends its messages, and they arrive in some order. The frames are
  handed over as records; the bytes of a frame within the limits of the reader give back the frame, and no
  other frame (\<open>parse_frame_iff\<close>).
\<close>

record turn =
  t_first :: bool
  t_says :: "utterance list"
  t_order :: "nat list"

definition turn_ok :: "turn \<Rightarrow> bool" where
  "turn_ok t \<longleftrightarrow> t_says t \<noteq> [] \<and> length (t_says t) \<le> kMaxStoredSkipped \<and> distinct (t_order t) \<and> set (t_order t) = {..<length (t_says t)}"

definition run_turn :: "crypto \<Rightarrow> pq_suite \<Rightarrow> turn \<Rightarrow> session \<times> session \<Rightarrow> (string list \<times> session \<times> session) res" where
  "run_turn cr su t p =
     (let (s, r) = (if t_first t then p else (snd p, fst p)) in
      bind_res (encrypt_all cr su s (t_says t)) (\<lambda>(fs, s).
      bind_res (decrypt_all cr su r (map ((!) fs) (t_order t))) (\<lambda>(ms, r). Inr (ms, if t_first t then (s, r) else (r, s)))))"

fun conversation :: "crypto \<Rightarrow> pq_suite \<Rightarrow> turn list \<Rightarrow> session \<times> session \<Rightarrow> (string list list \<times> session \<times> session) res" where
  "conversation cr su [] p = Inr ([], p)"
| "conversation cr su (t # ts) p =
     bind_res (run_turn cr su t p) (\<lambda>(ms, p).
     bind_res (conversation cr su ts p) (\<lambda>(mss, p). Inr (ms # mss, p)))"

text \<open>The key pairs generated during the conversation do not repeat a key that is in use.\<close>

fun fresh_turns :: "pq_suite \<Rightarrow> string set \<Rightarrow> turn list \<Rightarrow> bool" where
  "fresh_turns su used [] = True"
| "fresh_turns su used (t # ts) \<longleftrightarrow> speaker_key su (t_says t) \<notin> used \<and> fresh_turns su (insert (speaker_key su (t_says t)) used) ts"

lemma fresh_turns_mono: "fresh_turns su u ts \<Longrightarrow> v \<subseteq> u \<Longrightarrow> fresh_turns su v ts"
proof (induction ts arbitrary: u v)
  case (Cons t ts)
  then show ?case using Cons.IH [of "insert (speaker_key su (t_says t)) u" "insert (speaker_key su (t_says t)) v"] by auto
qed simp

lemma turn_delivers:
  assumes "suite_laws su" and "in_step su a b \<or> in_step su b a" and "turn_ok t" and "speaker_key su (t_says t) \<notin> session_keys a b"
    and "unat (s_ns a) + unat (s_ns b) + length (t_says t) < 2 ^ 32"
  shows "\<exists>a' b'. run_turn cr su t (a, b) = Inr (map ((!) (said (t_says t))) (t_order t), (a', b')) \<and> (in_step su a' b' \<or> in_step su b' a')
    \<and> unat (s_ns a') + unat (s_ns b') \<le> unat (s_ns a) + unat (s_ns b) + length (t_says t)
    \<and> session_keys a' b' \<subseteq> insert (speaker_key su (t_says t)) (session_keys a b)"
proof -
  have comm: "session_keys x y = session_keys y x" for x y by (auto simp: session_keys_def)
  note ok = assms(3) [unfolded turn_ok_def]
  show ?thesis
  proof (cases "t_first t")
    case True
    with speak [OF assms(1), of a b "t_says t" "t_order t" cr] assms(2,4,5) ok show ?thesis by (auto simp: run_turn_def bind_res_def)
  next
    case False
    with speak [OF assms(1), of b a "t_says t" "t_order t" cr] assms(2,4,5) ok comm show ?thesis
      by (fastforce simp: run_turn_def bind_res_def)
  qed
qed

text \<open>
  Claim C33. Conversations are delivered. Take two sessions in step, cryptographic libraries that obey their laws,
  and a conversation each of whose turns has between one and 256 messages (the number of skipped keys a session
  stores), arriving in any order, whose newly generated ratchet keys do not repeat a key in use, and whose
  message numbers stay below 2^32. Then the conversation succeeds, whoever speaks in a turn: each message is opened and gives
  the text that was sent, and the sessions are in step again. The claim is about frames as records, between
  \<^verbatim>\<open>encrypt_locked\<close> and \<^verbatim>\<open>decrypt_locked\<close>; in a longer turn that arrives out of order keys may be dropped.
\<close>

theorem conversation_delivers:
  assumes "suite_laws su" and "in_step su a b \<or> in_step su b a" and "list_all turn_ok ts" and "fresh_turns su (session_keys a b) ts"
    and "unat (s_ns a) + unat (s_ns b) + sum_list (map (\<lambda>t. length (t_says t)) ts) < 2 ^ 32"
  shows "\<exists>a' b'. conversation cr su ts (a, b) = Inr (map (\<lambda>t. map ((!) (said (t_says t))) (t_order t)) ts, a', b') \<and> (in_step su a' b' \<or> in_step su b' a')"
  using assms(2-)
proof (induction ts arbitrary: a b)
  case (Cons t ts)
  obtain a1 b1 where t: "run_turn cr su t (a, b) = Inr (map ((!) (said (t_says t))) (t_order t), (a1, b1))" "in_step su a1 b1 \<or> in_step su b1 a1"
      "unat (s_ns a1) + unat (s_ns b1) \<le> unat (s_ns a) + unat (s_ns b) + length (t_says t)"
      "session_keys a1 b1 \<subseteq> insert (speaker_key su (t_says t)) (session_keys a b)"
    using turn_delivers [OF assms(1) Cons.prems(1), of t cr] Cons.prems by auto
  have "list_all turn_ok ts" "fresh_turns su (session_keys a1 b1) ts" "unat (s_ns a1) + unat (s_ns b1) + sum_list (map (\<lambda>t. length (t_says t)) ts) < 2 ^ 32"
    using Cons.prems t(3,4) by (auto intro: fresh_turns_mono)
  from Cons.IH [OF t(2) this] t(1) show ?case by (auto simp: bind_res_def)
qed auto

definition demo_suite :: pq_suite where
  "demo_suite = \<lparr>pq_hmac = (\<lambda>k m. replicate 64 CHR ''h''), pq_seal = (\<lambda>k iv a m. Some m), pq_open = (\<lambda>k iv a ct. Some ct),
     pq_keypair = (\<lambda>r. Some (CHR ''p'' # r, r)), pq_encaps = (\<lambda>r pk. Some (''c'', ''s'')), pq_decaps = (\<lambda>sk ct. Some ''s''),
     pq_sig_keypair = (\<lambda>r. Some (''v'', ''k'')), pq_sign = (\<lambda>sk m. Some ''g''), pq_verify = (\<lambda>pk m g. True), pq_sig_pk_len = 2592, pq_sig_len = 4627\<rparr>"

lemma demo_suite_laws: "suite_laws demo_suite"
  by (simp add: suite_laws_def demo_suite_def kem_match_def)

definition demo_asker :: session where
  "demo_asker = session_init\<lparr>s_sid := ''1'', s_my_pub := ''a'', s_cks := replicate 32 CHR ''c''\<rparr>"

definition demo_answerer :: session where
  "demo_answerer = session_init\<lparr>s_sid := ''1'', s_peer_rk := ''a'', s_ckr := replicate 32 CHR ''c'', s_need_step := True\<rparr>"

lemma demo_in_step: "in_step demo_suite demo_asker demo_answerer"
  by (auto simp: in_step_def demo_asker_def demo_answerer_def session_init_def kem_match_def demo_suite_def intro!: exI [of _ "replicate 32 CHR ''c''"])

theorem conversation_delivers_witness:
  "\<exists>a' b'. conversation toy_crypto demo_suite
      [\<lparr>t_first = True, t_says = [([], ''x'', [], ''hi''), ([], [], [], ''you'')], t_order = [1, 0]\<rparr>,
       \<lparr>t_first = False, t_says = [([], ''y'', [], ''yes'')], t_order = [0]\<rparr>] (demo_asker, demo_answerer)
    = Inr ([[''you'', ''hi''], [''yes'']], a', b')"
proof -
  let ?t = "\<lparr>t_first = True, t_says = [([], ''x'', [], ''hi''), ([], [], [], ''you'')], t_order = [1, 0]\<rparr>"
  let ?u = "\<lparr>t_first = False, t_says = [([], ''y'', [], ''yes'')], t_order = [0]\<rparr>"
  have "list_all turn_ok [?t, ?u]" by (auto simp: turn_ok_def kMaxStoredSkipped_def)
  moreover have "fresh_turns demo_suite (session_keys demo_asker demo_answerer) [?t, ?u]"
    by (simp add: speaker_key_def demo_suite_def session_keys_def demo_asker_def demo_answerer_def session_init_def)
  moreover have "unat (s_ns demo_asker) + unat (s_ns demo_answerer) + sum_list (map (\<lambda>t. length (t_says t)) [?t, ?u]) < 2 ^ 32"
    by (simp add: demo_asker_def demo_answerer_def session_init_def)
  ultimately show ?thesis
    using conversation_delivers [OF demo_suite_laws disjI1 [OF demo_in_step], of "[?t, ?u]" toy_crypto] by auto
qed

section \<open>Replays\<close>

text \<open>A receiver that takes frames as they come; what it refuses leaves the session as it was.\<close>

definition accept_frame :: "crypto \<Rightarrow> pq_suite \<Rightarrow> msg_frame \<Rightarrow> session \<Rightarrow> session" where
  "accept_frame cr su f r = (case decrypt_locked cr su r f of Inl _ \<Rightarrow> r | Inr (_, r') \<Rightarrow> r')"

text \<open>The stored keys are in order, and those of the current chain belong to earlier numbers.\<close>

definition session_ok :: "crypto \<Rightarrow> session \<Rightarrow> bool" where
  "session_ok cr r \<longleftrightarrow> sorted_wrt (<) (map fst (s_skipped r)) \<and> (\<forall>i. map_of (s_skipped r) (skip_key cr (s_peer_rk r) i) \<noteq> None \<longrightarrow> i < s_nr r)"

text \<open>The stored keys are in order, and none is stored under a name.\<close>

definition unstored :: "string \<Rightarrow> session \<Rightarrow> bool" where
  "unstored key r \<longleftrightarrow> sorted_wrt (<) (map fst (s_skipped r)) \<and> map_of (s_skipped r) key = None"

lemma skip_key_inject [simp]: "skip_key cr p i = skip_key cr p j \<longleftrightarrow> i = j"
  by (auto simp: skip_key_def to_string_def word_unat_eq_iff)

lemma u32_Suc: "unat n + 1 < 2 ^ 32 \<Longrightarrow> unat (n + 1) = unat n + 1" for n :: u32
  using unat_add_lem [of n 1] by simp

lemma skip_loop_unstored:
  assumes "unstored key r" and "unat (s_nr r) + k < 2 ^ 32"
    and "\<forall>i. unat (s_nr r) \<le> unat i \<and> unat i < unat (s_nr r) + k \<longrightarrow> skip_key cr (s_peer_rk r) i \<noteq> key"
  shows "unstored key (skip_loop cr su k r) \<and> unat (s_nr (skip_loop cr su k r)) = unat (s_nr r) + k \<and> s_peer_rk (skip_loop cr su k r) = s_peer_rk r"
  using assms
proof (induction k arbitrary: r)
  case (Suc k)
  obtain mk ck where kd: "kdf_ck su (s_ckr r) = (mk, ck)" by fastforce
  define r1 where "r1 = r\<lparr>s_skipped := omap_ins (skip_key cr (s_peer_rk r) (s_nr r)) mk (s_skipped r), s_ckr := ck, s_nr := s_nr r + 1\<rparr>"
  have so: "sorted (map fst (s_skipped r))" "distinct (map fst (s_skipped r))" using Suc.prems(1) by (simp_all add: unstored_def sorted_strict)
  have nr: "unat (s_nr r1) = unat (s_nr r) + 1" "s_peer_rk r1 = s_peer_rk r" using u32_Suc [of "s_nr r"] Suc.prems(2) by (simp_all add: r1_def)
  have "skip_key cr (s_peer_rk r) (s_nr r) \<noteq> key" using Suc.prems(3) by simp
  then have "unstored key r1"
    using Suc.prems(1) omap_ins_sorted [OF so] by (simp add: unstored_def r1_def sorted_strict map_of_omap_ins [OF so])
  moreover have "skip_key cr (s_peer_rk r1) i \<noteq> key" if "unat (s_nr r1) \<le> unat i" "unat i < unat (s_nr r1) + k" for i
    using Suc.prems(3) that nr by simp
  ultimately show ?case using Suc.IH [of r1] nr Suc.prems(2) by (simp add: kd r1_def [symmetric])
qed simp

lemma drop_unstored: "unstored key r \<Longrightarrow> unstored key (r\<lparr>s_skipped := drop i (s_skipped r)\<rparr>)"
  using set_drop_subset [of i "s_skipped r"]
  by (auto simp: unstored_def map_of_eq_None_iff drop_map [symmetric] sorted_wrt_drop)

lemma skip_to_unstored:
  assumes "unstored key r" and "skip_to cr su m r = Some r'"
    and "\<forall>i. s_nr r \<le> i \<and> i < m \<longrightarrow> skip_key cr (s_peer_rk r) i \<noteq> key"
  shows "unstored key r' \<and> s_peer_rk r' = s_peer_rk r \<and> (s_nr r \<le> m \<longrightarrow> s_nr r \<le> s_nr r' \<and> s_nr r' \<le> m)
    \<and> (s_nr r \<le> m \<and> length (s_ckr r) = 32 \<longrightarrow> s_nr r' = m)"
proof (cases "length (s_ckr r) = 32")
  case True
  let ?k = "unat m - unat (s_nr r)" let ?r = "skip_loop cr su ?k r"
  have "unat (s_nr r) + ?k < 2 ^ 32" using unat_u32_bound [of m] unat_u32_bound [of "s_nr r"] by (cases "unat (s_nr r) \<le> unat m") simp_all
  moreover have "\<forall>i. unat (s_nr r) \<le> unat i \<and> unat i < unat (s_nr r) + ?k \<longrightarrow> skip_key cr (s_peer_rk r) i \<noteq> key"
    using assms(3) by (auto simp: word_le_nat_alt word_less_nat_alt)
  ultimately have s: "unstored key ?r" "unat (s_nr ?r) = unat (s_nr r) + ?k" "s_peer_rk ?r = s_peer_rk r"
    using skip_loop_unstored [OF assms(1)] by blast+
  have r': "r' = ?r\<lparr>s_skipped := drop (length (s_skipped ?r) - kMaxStoredSkipped) (s_skipped ?r)\<rparr>"
    using assms(2) True by (auto simp: skip_to_def Let_def split: if_splits)
  show ?thesis using drop_unstored [OF s(1)] s(2,3) unfolding r' by (auto simp: word_le_nat_alt word_unat_eq_iff)
qed (use assms in \<open>auto simp: skip_to_def\<close>)

text \<open>A number of the current chain whose key is used up.\<close>

definition spent :: "crypto \<Rightarrow> string \<Rightarrow> u32 \<Rightarrow> session \<Rightarrow> bool" where
  "spent cr p n r \<longleftrightarrow> s_peer_rk r = p \<and> n < s_nr r \<and> unstored (skip_key cr p n) r"

text \<open>The two ways in which a frame is accepted.\<close>

lemma decrypt_cases:
  assumes "decrypt_locked cr su r f = Inr (msg, r')"
  obtains (stored) mk where "map_of (s_skipped r) (skip_key cr (f_pub f) (ucast (f_n f))) = Some mk"
      "r' = r\<lparr>s_skipped := filter (\<lambda>(k, _). k \<noteq> skip_key cr (f_pub f) (ucast (f_n f))) (s_skipped r)\<rparr>"
    | (chain) r1 r2 ck where "map_of (s_skipped r) (skip_key cr (f_pub f) (ucast (f_n f))) = None"
      "if f_pub f \<noteq> s_peer_rk r then receive_step cr su f r = Inr r1 else r1 = r"
      "s_nr r1 \<le> ucast (f_n f)" "skip_to cr su (ucast (f_n f)) r1 = Some r2" "r' = r2\<lparr>s_ckr := ck, s_nr := s_nr r2 + 1\<rparr>"
proof (cases "map_of (s_skipped r) (skip_key cr (f_pub f) (ucast (f_n f)))")
  case None
  obtain mk where "frame_key cr su f r = Inr (mk, r')"
    using assms by (auto simp: decrypt_locked_def bind_res_Inr need_def)
  then obtain r1 r2 where "(if f_pub f \<noteq> s_peer_rk r then receive_step cr su f r else Inr r) = Inr r1" "\<not> ucast (f_n f) < s_nr r1"
      "skip_to cr su (ucast (f_n f)) r1 = Some r2" "r' = r2\<lparr>s_ckr := snd (kdf_ck su (s_ckr r2)), s_nr := s_nr r2 + 1\<rparr>"
    using None by (auto simp: frame_key_def Let_def bind_res_Inr need_def case_prod_unfold split: if_splits option.splits)
  then show ?thesis using chain [OF None, of r1 r2] by (auto simp: not_less split: if_splits)
next
  case (Some mk)
  then have "r' = r\<lparr>s_skipped := filter (\<lambda>(k, _). k \<noteq> skip_key cr (f_pub f) (ucast (f_n f))) (s_skipped r)\<rparr>"
    using assms by (auto simp: decrypt_locked_def frame_key_def Let_def bind_res_def need_def split: option.splits)
  with Some show ?thesis by (rule stored)
qed

lemma skip_loop_peer: "s_peer_rk (skip_loop cr su k r) = s_peer_rk r"
  by (induction k arbitrary: r) (simp_all add: case_prod_unfold Let_def)

lemma filter_unstored:
  "unstored key r \<Longrightarrow> unstored key (r\<lparr>s_skipped := filter (\<lambda>(k, _). k \<noteq> x) (s_skipped r)\<rparr>)"
  by (simp add: unstored_def map_of_filter_key sorted_filter_key)

lemma accept_spent:
  assumes "spent cr p n r" and "s_peer_rk (accept_frame cr su g r) = p" and "unat (ucast (f_n g) :: u32) + 1 < 2 ^ 32"
  shows "spent cr p n (accept_frame cr su g r)"
proof (cases "decrypt_locked cr su r g")
  case (Inr q)
  obtain msg r' where q: "q = (msg, r')" by fastforce
  have a: "accept_frame cr su g r = r'" by (simp add: accept_frame_def Inr q)
  note sp = assms(1) [unfolded spent_def]
  from Inr [unfolded q] show ?thesis
  proof (cases rule: decrypt_cases)
    case (stored mk)
    then show ?thesis using sp filter_unstored by (simp add: spent_def a)
  next
    case (chain r1 r2 ck)
    have "f_pub g = p"
    proof (rule ccontr)
      assume "f_pub g \<noteq> p"
      then have "s_peer_rk r1 = f_pub g" using chain(2) sp by (auto simp: receive_step_def bind_res_Inr Let_def case_prod_unfold split: if_splits)
      moreover have "s_peer_rk r2 = s_peer_rk r1"
        using chain(4) by (auto simp: skip_to_def Let_def skip_loop_peer split: if_splits)
      ultimately show False using assms(2) \<open>f_pub g \<noteq> p\<close> by (simp add: a chain(5))
    qed
    then have r1: "r1 = r" using chain(2) sp by simp
    have "skip_key cr (s_peer_rk r1) i \<noteq> skip_key cr p n" if "s_nr r1 \<le> i \<and> i < ucast (f_n g)" for i
      using that sp by (auto simp: r1 word_less_nat_alt word_le_nat_alt)
    then have s: "unstored (skip_key cr p n) r2 \<and> s_peer_rk r2 = s_peer_rk r1 \<and> s_nr r1 \<le> s_nr r2 \<and> s_nr r2 \<le> ucast (f_n g)"
      using skip_to_unstored [OF _ chain(4), of "skip_key cr p n"] sp chain(3) by (simp add: r1)
    then have "unat (s_nr r2) + 1 < 2 ^ 32" using assms(3) by (simp add: word_le_nat_alt)
    from u32_Suc [OF this] s sp show ?thesis by (simp add: a chain(5) spent_def r1 unstored_def word_less_nat_alt word_le_nat_alt)
  qed
qed (use assms in \<open>simp add: accept_frame_def\<close>)

lemma spent_refused: "spent cr (f_pub f) (ucast (f_n f)) r \<Longrightarrow> decrypt_locked cr su r f = Inl ''duplicate or replayed message''"
  by (simp add: spent_def unstored_def decrypt_locked_def frame_key_def Let_def bind_res_def)

lemma first_spent:
  assumes laws: "suite_laws su" and ok: "session_ok cr r" and c: "length (s_ckr r) = 32 \<or> f_pub f \<noteq> s_peer_rk r" and d: "decrypt_locked cr su r f = Inr (msg, r')" and p: "s_peer_rk r' = f_pub f"
    and n: "unat (ucast (f_n f) :: u32) + 1 < 2 ^ 32" and h: "f_pub f \<noteq> s_peer_rk r \<Longrightarrow> h32_of cr (f_pub f) \<noteq> h32_of cr (s_peer_rk r)"
  shows "spent cr (f_pub f) (ucast (f_n f)) r'"
  using d
proof (cases rule: decrypt_cases)
  case (stored mk)
  then have "s_peer_rk r = f_pub f" using p by simp
  then show ?thesis using ok stored by (auto simp: spent_def session_ok_def unstored_def map_of_filter_key sorted_filter_key)
next
  case (chain r1 r2 ck)
  let ?key = "skip_key cr (f_pub f) (ucast (f_n f))"
  have u: "unstored ?key r" using ok chain(1) by (simp add: unstored_def session_ok_def)
  have r1: "unstored ?key r1 \<and> s_peer_rk r1 = f_pub f \<and> length (s_ckr r1) = 32"
  proof (cases "f_pub f = s_peer_rk r")
    case False
    then obtain q ss where q: "skip_to cr su (ucast (f_pn f)) r = Some q" "s_skipped r1 = s_skipped q" "s_peer_rk r1 = f_pub f"
        "s_ckr r1 = snd (kdf_rk su (s_rk q) ss)"
      using chain(2) by (auto simp: receive_step_def bind_res_Inr need_def Let_def case_prod_unfold split: if_splits option.splits)
    have "skip_key cr (s_peer_rk r) i \<noteq> ?key" for i
    proof -
      have "CHR '':'' \<notin> set (h32_of cr x)" for x
        using to_hex_hex [of "sha3 cr x"] by (auto simp: h32_of_def list_all_iff is_hex_char_def hex_val_def dest!: in_set_takeD)
      then show ?thesis using h [OF False] append_sep_eq [of "CHR '':''"] by (auto simp: skip_key_def)
    qed
    then show ?thesis using skip_to_unstored [OF u q(1)] q(2-) length_kdf_rk [OF laws] by (simp add: unstored_def)
  qed (use u c chain(2) in simp)
  have "skip_key cr (s_peer_rk r1) i \<noteq> ?key" if "s_nr r1 \<le> i \<and> i < ucast (f_n f)" for i using that r1 by auto
  then have s: "unstored ?key r2" "s_peer_rk r2 = f_pub f" "s_nr r2 = ucast (f_n f)" using skip_to_unstored [OF _ chain(4)] r1 chain(3) by auto
  with u32_Suc [OF n] show ?thesis by (simp add: chain(5) spent_def unstored_def word_less_nat_alt)
qed

text \<open>
  Claim C34. No message of a chain is opened twice. After a frame is accepted, whatever other frames arrive, a
  second delivery of its number is refused as long as the peer does not start a new chain. The
  receiving chain must be established, and the 32-bit message numbers must not be exhausted.
\<close>

theorem message_opened_once:
  assumes "suite_laws su" and "session_ok cr r" and "length (s_ckr r) = 32 \<or> f_pub f \<noteq> s_peer_rk r"
    and "decrypt_locked cr su r f = Inr (msg, r1)" and "f_pub f \<noteq> s_peer_rk r \<Longrightarrow> h32_of cr (f_pub f) \<noteq> h32_of cr (s_peer_rk r)"
    and "\<forall>k\<le>length fs. s_peer_rk (fold (accept_frame cr su) (take k fs) r1) = f_pub f"
    and "\<forall>g\<in>set (f # fs). unat (ucast (f_n g) :: u32) + 1 < 2 ^ 32"
    and "f_pub g = f_pub f" and "ucast (f_n g) = (ucast (f_n f) :: u32)"
  shows "decrypt_locked cr su (fold (accept_frame cr su) fs r1) g = Inl ''duplicate or replayed message''"
proof -
  have "spent cr (f_pub f) (ucast (f_n f)) r1"
    by (rule first_spent [OF assms(1-4)]) (use assms(5-7) in \<open>auto dest: spec [of _ 0]\<close>)
  then have "spent cr (f_pub f) (ucast (f_n f)) (fold (accept_frame cr su) fs r1)" using assms(6,7)
  proof (induction fs rule: rev_induct)
    case (snoc h fs)
    have "\<forall>k\<le>length fs. s_peer_rk (fold (accept_frame cr su) (take k fs) r1) = f_pub f"
    proof (intro allI impI)
      fix k assume "k \<le> length fs"
      with snoc.prems(2) [rule_format, of k] show "s_peer_rk (fold (accept_frame cr su) (take k fs) r1) = f_pub f" by simp
    qed
    then have "spent cr (f_pub f) (ucast (f_n f)) (fold (accept_frame cr su) fs r1)" using snoc.IH snoc.prems(1,3) by simp
    then show ?case using accept_spent snoc.prems(2) [rule_format, of "length (fs @ [h])"] snoc.prems(3) by simp
  qed simp
  then show ?thesis using spent_refused [of cr g] assms(8,9) by simp
qed

definition demo_frame :: "u64 \<Rightarrow> msg_frame" where
  "demo_frame n = \<lparr>f_sid = ''1'', f_pub = ''a'', f_step_ct = [], f_step_to = ''-'', f_pn = 0, f_n = n, f_iv = [], f_ct = ''hi''\<rparr>"

theorem message_opened_once_witness:
  "\<exists>r1. decrypt_locked toy_crypto demo_suite demo_answerer (demo_frame 0) = Inr (''hi'', r1)
    \<and> decrypt_locked toy_crypto demo_suite (fold (accept_frame toy_crypto demo_suite) [demo_frame 1] r1) (demo_frame 0) = Inl ''duplicate or replayed message''"
proof -
  have "\<exists>r'. decrypt_locked toy_crypto demo_suite (demo_answerer\<lparr>s_ckr := c, s_nr := n\<rparr>) (demo_frame (ucast n)) = Inr (''hi'', r') \<and> s_peer_rk r' = ''a''
      \<and> r' = demo_answerer\<lparr>s_ckr := s_ckr r', s_nr := n + 1\<rparr>" if "length c = 32" for c n
    using that by (simp add: decrypt_locked_def frame_key_def demo_answerer_def session_init_def demo_suite_def demo_frame_def bind_res_def need_def skip_to_def
        Let_def kMaxStoredSkipped_def case_prod_unfold ucast_u64_u32)
  note step = this
  from step [of "replicate 32 CHR ''c''" 0] obtain r1 where d: "decrypt_locked toy_crypto demo_suite demo_answerer (demo_frame 0) = Inr (''hi'', r1)"
      "s_peer_rk r1 = ''a''" by (auto simp: demo_answerer_def session_init_def)
  have a: "s_peer_rk (accept_frame toy_crypto demo_suite (demo_frame 1) r1) = ''a''"
    using d by (auto simp: accept_frame_def demo_frame_def decrypt_locked_def frame_key_def bind_res_def need_def skip_to_def Let_def case_prod_unfold
        demo_answerer_def session_init_def demo_suite_def kMaxSkip_def kMaxStoredSkipped_def split: option.splits sum.splits if_splits)
  have "session_ok toy_crypto demo_answerer" "length (s_ckr demo_answerer) = 32" "s_peer_rk demo_answerer = ''a''"
    by (simp_all add: session_ok_def demo_answerer_def session_init_def)
  with message_opened_once [OF demo_suite_laws, of toy_crypto demo_answerer "demo_frame 0" "''hi''" r1 "[demo_frame 1]" "demo_frame 0"] d a show ?thesis
    by (auto simp: demo_frame_def le_Suc_eq)
qed

section \<open>Handshake and errors\<close>

text \<open>
  A message key is public when the receiving chain is not established: a session that waits for the first
  answer accepts a message from anybody who knows its identifier, sealed with the key that the empty
  chain gives.
\<close>

theorem empty_chain_forged:
  assumes "s_ckr r = []" and "s_peer_rk r = []" and "s_nr r = 0" and "s_skipped r = []" and "f_pub f = []" and "f_n f = 0"
    and "pq_open su (fst (kdf_ck su [])) (f_iv f) (frame_aad cr f) (f_ct f) = Some msg"
  shows "\<exists>r'. decrypt_locked cr su r f = Inr (msg, r')"
  using assms by (auto simp: decrypt_locked_def frame_key_def bind_res_def need_def skip_to_def kdf_ck_def Let_def)

text \<open>A frame that is refused changes no file.\<close>

theorem refused_frame_harmless: "open_frame cr su now wallet b d = (Inl e, d') \<Longrightarrow> d' = d"
  by (auto simp: open_frame_def save_session_def write_secret_def split: sum.splits if_splits prod.splits)

lemma open_init_ok:
  assumes "open_init cr su now wallet f d = Inr (s, msg)"
  obtains k sk ss tr rk id_pk where "i_sender f = kp_encode k" "kp_verify su now k = Inr ()"
    "tr = transcript cr (i_sid f) (i_kp_hash f) (kp_hash cr k) (i_ct1 f) (i_pub f)" "sig_verify su (kp_identity k) tr (i_sig f)"
    "find_init_sk now wallet (i_kp_hash f) d = Inr sk" "pq_decaps su sk (i_ct1 f) = Some ss" "rk = init_root cr su tr ss"
    "pq_open su (fst (kdf_ck su (init_chain su rk))) (i_iv f) (init_aad cr tr) (i_ct f) = Some msg"
    "s = session_init\<lparr>s_sid := i_sid f, s_my_fp := fingerprint cr id_pk, s_peer_fp := fingerprint cr (kp_identity k),
       s_peer_identity := kp_identity k, s_peer_relay := kp_relay k, s_rk := rk, s_ckr := snd (kdf_ck su (init_chain su rk)), s_nr := 1,
       s_peer_rk := i_pub f, s_need_step := True\<rparr>" "\<forall>s'. load_session wallet (i_sid f) d \<noteq> Inr s'"
proof (cases "load_session wallet (i_sid f) d")
  case (Inl e)
  from assms obtain k where k: "kp_decode (i_sender f) = Some k" "kp_verify su now k = Inr ()"
    and r: "(let tr = transcript cr (i_sid f) (i_kp_hash f) (kp_hash cr k) (i_ct1 f) (i_pub f) in
          if \<not> sig_verify su (kp_identity k) tr (i_sig f) then Inl ''init: bad ML-DSA-87 signature''
          else bind_res (find_init_sk now wallet (i_kp_hash f) d) (\<lambda>init_sk.
               bind_res (need ''decapsulation failed'' (pq_decaps su init_sk (i_ct1 f))) (\<lambda>ss1.
               bind_res (fst (load_identity su wallet None d)) (\<lambda>(id_pk, id_sk).
               let rk = init_root cr su tr ss1; (mk, ck) = kdf_ck su (init_chain su rk) in
               bind_res (need ''authentication failed'' (pq_open su mk (i_iv f) (init_aad cr tr) (i_ct f))) (\<lambda>msg.
               Inr (session_init\<lparr>s_sid := i_sid f, s_my_fp := fingerprint cr id_pk, s_peer_fp := fingerprint cr (kp_identity k),
                      s_peer_identity := kp_identity k, s_peer_relay := kp_relay k, s_rk := rk, s_ckr := ck, s_nr := 1,
                      s_peer_rk := i_pub f, s_need_step := True\<rparr>, msg)))))) = Inr (s, msg)"
    unfolding open_init_def Inl sum.case by (auto simp: bind_res_Inr need_Inr simp del: session.update_convs split: if_split_asm)
  define tr where "tr = transcript cr (i_sid f) (i_kp_hash f) (kp_hash cr k) (i_ct1 f) (i_pub f)"
  from r have sg: "sig_verify su (kp_identity k) tr (i_sig f)" unfolding tr_def by (simp add: Let_def split: if_split_asm)
  from r sg obtain sk ss id where x: "find_init_sk now wallet (i_kp_hash f) d = Inr sk" "pq_decaps su sk (i_ct1 f) = Some ss"
      "pq_open su (fst (kdf_ck su (init_chain su (init_root cr su tr ss)))) (i_iv f) (init_aad cr tr) (i_ct f) = Some msg"
      "s = session_init\<lparr>s_sid := i_sid f, s_my_fp := fingerprint cr (fst id), s_peer_fp := fingerprint cr (kp_identity k),
         s_peer_identity := kp_identity k, s_peer_relay := kp_relay k, s_rk := init_root cr su tr ss,
         s_ckr := snd (kdf_ck su (init_chain su (init_root cr su tr ss))), s_nr := 1, s_peer_rk := i_pub f, s_need_step := True\<rparr>"
    unfolding tr_def [symmetric] Let_def [of tr] case_prod_unfold Let_def by (auto simp: bind_res_Inr need_Inr simp del: session.update_convs)
  show ?thesis using that [OF _ k(2) tr_def sg x(1,2) refl x(3,4)] k(1) Inl by (simp add: key_package_canonical)
qed (use assms in \<open>simp add: open_init_def\<close>)

text \<open>
  A handshake frame is opened only when the key package in it is valid now, the signature of its identity key
  covers the transcript of this handshake, and no session of that name exists; the session belongs to
  that identity.
\<close>

theorem init_frame_authenticated:
  assumes "open_init cr su now wallet f d = Inr (s, msg)"
  shows "\<exists>k. i_sender f = kp_encode k \<and> kp_verify su now k = Inr () \<and> s_peer_identity s = kp_identity k
    \<and> sig_verify su (kp_identity k) (transcript cr (i_sid f) (i_kp_hash f) (kp_hash cr k) (i_ct1 f) (i_pub f)) (i_sig f)
    \<and> (\<forall>s'. load_session wallet (i_sid f) d \<noteq> Inr s')"
proof (rule open_init_ok [OF assms], goal_cases)
  case (1 k sk ss tr rk id_pk)
  then show ?case by (intro exI [of _ k]) simp
qed

lemma put_inject: "length x < 2 ^ 32 \<Longrightarrow> length y < 2 ^ 32 \<Longrightarrow> pq_put x @ r = pq_put y @ t \<longleftrightarrow> x = y \<and> r = t"
proof -
  assume l: "length x < 2 ^ 32" "length y < 2 ^ 32"
  have "pq_get (max (length x) (length y)) (pq_put x @ r) = Some (x, r)" "pq_get (max (length x) (length y)) (pq_put y @ t) = Some (y, t)"
    using l by (simp_all add: blob.get_put)
  then show ?thesis by (metis Pair_inject option.inject)
qed

lemma init_bytes_inject:
  assumes "init_bytes f = init_bytes g" and "length (init_bytes f) < 2 ^ 32"
  shows "f = g"
proof -
  have "length (i_sid h) < 2 ^ 32 \<and> length (i_kp_hash h) < 2 ^ 32 \<and> length (i_sender h) < 2 ^ 32 \<and> length (i_ct1 h) < 2 ^ 32 \<and> length (i_pub h) < 2 ^ 32
      \<and> length (i_sig h) < 2 ^ 32 \<and> length (i_iv h) < 2 ^ 32 \<and> length (i_ct h) < 2 ^ 32" if "length (init_bytes h) < 2 ^ 32" for h
    using that by (simp add: init_bytes_def pq_put_def)
  from this [of f] this [of g] assms have l: "length (i_sid f) < 2 ^ 32" "length (i_sid g) < 2 ^ 32" "length (i_kp_hash f) < 2 ^ 32" "length (i_kp_hash g) < 2 ^ 32"
      "length (i_sender f) < 2 ^ 32" "length (i_sender g) < 2 ^ 32" "length (i_ct1 f) < 2 ^ 32" "length (i_ct1 g) < 2 ^ 32" "length (i_pub f) < 2 ^ 32"
      "length (i_pub g) < 2 ^ 32" "length (i_sig f) < 2 ^ 32" "length (i_sig g) < 2 ^ 32" "length (i_iv f) < 2 ^ 32" "length (i_iv g) < 2 ^ 32"
      "length (i_ct f) < 2 ^ 32" "length (i_ct g) < 2 ^ 32" by simp_all
  have "pq_put (i_ct f) = pq_put (i_ct g) \<longleftrightarrow> i_ct f = i_ct g" using put_inject [OF l(15,16), of "[]" "[]"] by simp
  then have "i_sid f = i_sid g \<and> i_kp_hash f = i_kp_hash g \<and> i_sender f = i_sender g \<and> i_ct1 f = i_ct1 g \<and> i_pub f = i_pub g \<and> i_sig f = i_sig g
      \<and> i_iv f = i_iv g \<and> i_ct f = i_ct g"
    using assms(1) unfolding init_bytes_def same_append_eq put_inject [OF l(1,2)] put_inject [OF l(3,4)] put_inject [OF l(5,6)] put_inject [OF l(7,8)]
      put_inject [OF l(9,10)] put_inject [OF l(11,12)] put_inject [OF l(13,14)] by simp
  then show ?thesis by (cases f; cases g) simp
qed

text \<open>
  The handshake puts the two sessions in step: when the responder opens the frame of the initiator with a
  secret key that belongs to the init key of its package, it reads the first message, and the two
  saved sessions are in step.
\<close>

theorem handshake_in_step:
  assumes laws: "suite_laws su" and st: "start_frame cr su now rnd wa peer msg da = (Inr (sid, b), da')" and len: "length b < 2 ^ 32"
    and f': "parse_init b = Some f" and op: "open_init cr su now' wb f db = Inr (sb, msg')"
    and key: "\<And>sk. find_init_sk now' wb (kp_hash cr peer) db = Inr sk \<Longrightarrow> kem_match su (kp_init peer) sk"
  shows "\<exists>sa. msg' = msg \<and> in_step su sa sb \<and> d_files da' = (d_files da)(session_path wa sid \<mapsto> session_ser sa)"
proof -
  obtain f0 sa where s0: "start_session cr su now rnd wa peer msg da = Inr (f0, sa)" "save_session wa sa da = (Inr (), da')" "sid = s_sid sa" "b = init_bytes f0"
    using st by (auto simp: start_frame_def split: sum.splits prod.splits)
  from s0(1) obtain id_pk mine ct1 ss1 pub sk sig ct where
    e: "pq_encaps su (ir_encaps rnd) (kp_init peer) = Some (ct1, ss1)" and k: "pq_keypair su (ir_keypair rnd) = Some (pub, sk)"
    and x: "(let sid = to_hex (ir_sid rnd); tr = transcript cr sid (kp_hash cr peer) (kp_hash cr mine) ct1 pub;
              rk = init_root cr su tr ss1; (mk, ck) = kdf_ck su (init_chain su rk) in
           pq_seal su mk (ir_iv rnd) (init_aad cr tr) msg = Some ct
           \<and> f0 = \<lparr>i_sid = sid, i_kp_hash = kp_hash cr peer, i_sender = kp_encode mine, i_ct1 = ct1, i_pub = pub, i_sig = sig, i_iv = ir_iv rnd, i_ct = ct\<rparr>
           \<and> sa = session_init\<lparr>s_sid := sid, s_my_fp := fingerprint cr id_pk, s_peer_fp := fingerprint cr (kp_identity peer),
                  s_peer_identity := kp_identity peer, s_peer_relay := kp_relay peer, s_my_pub := pub, s_my_sk := sk, s_rk := rk,
                  s_cks := ck, s_ns := 1\<rparr>)"
    unfolding start_session_def Let_def case_prod_unfold by (auto simp: bind_res_Inr bind_eq_Some_conv simp del: session.update_convs)
  define tr where "tr = transcript cr sid (kp_hash cr peer) (kp_hash cr mine) ct1 pub"
  define rk where "rk = init_root cr su tr ss1"
  have sid: "sid = to_hex (ir_sid rnd)" using x s0(3) by (simp add: Let_def case_prod_unfold)
  have ct: "pq_seal su (fst (kdf_ck su (init_chain su rk))) (ir_iv rnd) (init_aad cr tr) msg = Some ct"
    and f0: "f0 = \<lparr>i_sid = sid, i_kp_hash = kp_hash cr peer, i_sender = kp_encode mine, i_ct1 = ct1, i_pub = pub, i_sig = sig, i_iv = ir_iv rnd, i_ct = ct\<rparr>"
    and sa: "s_sid sa = sid" "s_my_pub sa = pub" "s_my_sk sa = sk" "s_rk sa = rk" "s_cks sa = snd (kdf_ck su (init_chain su rk))" "s_ns sa = 1" "s_ckr sa = []"
      "\<not> s_need_step sa" "s_skipped sa = []"
    using x unfolding rk_def tr_def sid by (simp_all add: Let_def case_prod_unfold session_init_def)
  have "f = f0" using f' len s0(4) init_bytes_inject [of f f0] by (auto simp: parse_init_iff)
  then have f: "i_sid f = sid" "i_kp_hash f = kp_hash cr peer" "i_sender f = kp_encode mine" "i_ct1 f = ct1" "i_pub f = pub" "i_iv f = ir_iv rnd" "i_ct f = ct"
    by (simp_all add: f0)
  obtain q skb ssb trb rkb id_b where o: "i_sender f = kp_encode q" "trb = transcript cr (i_sid f) (i_kp_hash f) (kp_hash cr q) (i_ct1 f) (i_pub f)"
      "find_init_sk now' wb (i_kp_hash f) db = Inr skb" "pq_decaps su skb (i_ct1 f) = Some ssb" "rkb = init_root cr su trb ssb"
      "pq_open su (fst (kdf_ck su (init_chain su rkb))) (i_iv f) (init_aad cr trb) (i_ct f) = Some msg'"
    and sbeq: "sb = session_init\<lparr>s_sid := i_sid f, s_my_fp := fingerprint cr id_b, s_peer_fp := fingerprint cr (kp_identity q),
       s_peer_identity := kp_identity q, s_peer_relay := kp_relay q, s_rk := rkb, s_ckr := snd (kdf_ck su (init_chain su rkb)), s_nr := 1,
       s_peer_rk := i_pub f, s_need_step := True\<rparr>"
    by (rule open_init_ok [OF op]) (rule that)
  have sb: "s_sid sb = i_sid f" "s_rk sb = rkb" "s_ckr sb = snd (kdf_ck su (init_chain su rkb))" "s_nr sb = 1" "s_peer_rk sb = i_pub f" "s_need_step sb"
      "s_skipped sb = []" unfolding sbeq by (simp_all add: session_init_def)
  have "kem_match su (kp_init peer) skb" using key o(3) f(2) by simp
  then have "ssb = ss1" using e o(4) f(4) unfolding kem_match_def by (metis option.inject Pair_inject)
  moreover have "trb = tr" using o(1,2) f by (simp add: tr_def kp_hash_def)
  ultimately have r: "rkb = rk" "trb = tr" using o(5) by (simp_all add: rk_def)
  then have "msg' = msg" using o(6) ct f seal_open [OF laws, of "init_chain su rk" "ir_iv rnd" "init_aad cr tr" msg] by (metis option.inject)
  moreover have "kem_match su pub sk" using k laws unfolding suite_laws_def by (metis option.inject Pair_inject)
  moreover have "length (init_chain su rk) = 32" using laws by (simp add: init_chain_def hmac_def suite_laws_def)
  ultimately have "msg' = msg \<and> in_step su sa sb"
    using sa sb r f by (auto simp: in_step_def intro!: exI [of _ "init_chain su rk"])
  moreover have "d_files da' = (d_files da)(session_path wa sid \<mapsto> session_ser sa)"
    using s0(2) by (auto simp: save_session_def write_secret_def sa(1) split: if_splits)
  ultimately show ?thesis by blast
qed

end
