(* ===== verification/Work_Markets.thy ===== *)
theory Work_Markets
  imports Text_Records Crypto_Model "HOL-Library.AList"
begin

text \<open>
  The registries of useful work: storage deals with their challenges (\<^verbatim>\<open>pouw_storage.cpp\<close>) and compute jobs with
  their validations (\<^verbatim>\<open>pouw_compute.cpp\<close>). A hash table is an association list, whose order stands for the
  iteration order; a new key goes to the end. The theorems show that the registries stay consistent under
  every sequence of operations, in particular that the proof counters of a worker are the numbers of
  its decided challenges, that a challenge is decided once, and that the text dumps restore the registries.
\<close>

section \<open>Storage deals\<close>

record storage_deal =
  sd_id :: string
  sd_client :: string
  sd_root :: string
  sd_chunks :: u64
  sd_replication :: u64
  sd_start :: u64
  sd_end :: u64
  sd_price :: u64
  sd_status :: string

record storage_commitment =
  sc_worker :: string
  sc_sealed :: string
  sc_collateral :: u64
  sc_pass :: u64
  sc_fail :: u64

record storage_challenge =
  ch_id :: string
  ch_deal :: string
  ch_worker :: string
  ch_seed :: u64
  ch_chunk :: u64
  ch_due :: u64
  ch_verdict :: string

record storage_engine =
  se_deals :: "(string \<times> storage_deal) list"
  se_commitments :: "(string \<times> storage_commitment list) list"
  se_challenges :: "(string \<times> storage_challenge) list"

definition storage_init :: storage_engine where
  "storage_init = \<lparr>se_deals = [], se_commitments = [], se_challenges = []\<rparr>"

definition is_canonical_hash_hex :: "string \<Rightarrow> bool" where
  "is_canonical_hash_hex s \<longleftrightarrow> length s = 64 \<and> list_all is_hex_char s"

definition create_deal :: "crypto \<Rightarrow> string \<Rightarrow> string \<Rightarrow> u64 \<Rightarrow> u64 \<Rightarrow> u64 \<Rightarrow> u64 \<Rightarrow> u64 \<Rightarrow> storage_engine \<Rightarrow> string res \<times> storage_engine" where
  "create_deal cr client root chunks replication start end_h price s =
     (if client = [] \<or> root = [] \<or> chunks = 0 \<or> replication = 0 then (Inl ''invalid storage deal params'', s)
      else if end_h \<le> start then (Inl ''end_height must be > start_height'', s)
      else
        (let seed = client @ ''|'' @ root @ ''|'' @ to_string chunks @ ''|'' @ to_string start @ ''|'' @ to_string end_h @ ''|'' @ dec (length (se_deals s));
             did = to_hex (sha3 cr (''storage_deal|'' @ seed)) in
         if map_of (se_deals s) did \<noteq> None then (Inl ''duplicate storage deal id'', s)
         else (Inr did, s\<lparr>se_deals := AList.update did
                  \<lparr>sd_id = did, sd_client = client, sd_root = root, sd_chunks = chunks, sd_replication = replication, sd_start = start,
                   sd_end = end_h, sd_price = price, sd_status = ''active''\<rparr> (se_deals s)\<rparr>)))"

text \<open>The commitments of a deal, none when it has no entry.\<close>

definition commitments_of :: "storage_engine \<Rightarrow> string \<Rightarrow> storage_commitment list" where
  "commitments_of s d = (case map_of (se_commitments s) d of None \<Rightarrow> [] | Some cs \<Rightarrow> cs)"

definition register_commitment :: "string \<Rightarrow> string \<Rightarrow> string \<Rightarrow> u64 \<Rightarrow> storage_engine \<Rightarrow> unit res \<times> storage_engine" where
  "register_commitment d worker sealed collateral s =
     (if map_of (se_deals s) d = None then (Inl ''deal not found'', s)
      else if worker = [] \<or> sealed = [] \<or> collateral = 0 then (Inl ''invalid commitment params'', s)
      else if list_ex (\<lambda>c. sc_worker c = worker) (commitments_of s d) then (Inl ''worker already committed'', s)
      else (Inr (), s\<lparr>se_commitments := AList.update d
              (commitments_of s d @ [\<lparr>sc_worker = worker, sc_sealed = sealed, sc_collateral = collateral, sc_pass = 0, sc_fail = 0\<rparr>]) (se_commitments s)\<rparr>))"

definition issue_challenge :: "crypto \<Rightarrow> string \<Rightarrow> string \<Rightarrow> u64 \<Rightarrow> storage_engine \<Rightarrow> string res \<times> storage_engine" where
  "issue_challenge cr d worker height s =
     (case map_of (se_deals s) d of
        None \<Rightarrow> (Inl ''deal not found'', s)
      | Some deal \<Rightarrow>
          if \<not> list_ex (\<lambda>c. sc_worker c = worker) (commitments_of s d) then (Inl ''worker not committed for deal'', s)
          else
            (let seed_hex = to_hex (sha3 cr (''storage_challenge|'' @ d @ ''|'' @ worker @ ''|'' @ to_string height @ ''|'' @ dec (length (se_challenges s)))) in
             case stoull16 (take 16 seed_hex) of
               None \<Rightarrow> (Inl ''exception'', s)
             | Some seed \<Rightarrow>
                 (let chunk = (if sd_chunks deal > 0 then seed mod sd_chunks deal else 0);
                      cid = to_hex (sha3 cr (''storage_challenge_id|'' @ seed_hex)) in
                  if map_of (se_challenges s) cid \<noteq> None then (Inl ''duplicate challenge id'', s)
                  else (Inr cid, s\<lparr>se_challenges := AList.update cid
                          \<lparr>ch_id = cid, ch_deal = d, ch_worker = worker, ch_seed = seed, ch_chunk = chunk, ch_due = height + 64,
                           ch_verdict = ''pending''\<rparr> (se_challenges s)\<rparr>))))"

text \<open>The verifier: the first digit of the hash has the parity of the seed of the challenge.\<close>

definition proof_passes :: "u64 \<Rightarrow> string \<Rightarrow> bool" where
  "proof_passes seed h \<longleftrightarrow> is_canonical_hash_hex h \<and> odd (the (hex_val (hd h))) = odd (unat seed)"

text \<open>The counter of the first commitment of the worker.\<close>

fun count_proof :: "bool \<Rightarrow> string \<Rightarrow> storage_commitment list \<Rightarrow> storage_commitment list" where
  "count_proof ok worker [] = []"
| "count_proof ok worker (c # cs) =
     (if sc_worker c = worker then (if ok then c\<lparr>sc_pass := sc_pass c + 1\<rparr> else c\<lparr>sc_fail := sc_fail c + 1\<rparr>) # cs
      else c # count_proof ok worker cs)"

definition submit_proof :: "string \<Rightarrow> string \<Rightarrow> string \<Rightarrow> storage_engine \<Rightarrow> string res \<times> storage_engine" where
  "submit_proof cid worker h s =
     (case map_of (se_challenges s) cid of
        None \<Rightarrow> (Inl ''challenge not found'', s)
      | Some ch \<Rightarrow>
          if ch_worker ch \<noteq> worker then (Inl ''worker mismatch'', s)
          else if ch_verdict ch \<noteq> ''pending'' then (Inl ''challenge already finalized'', s)
          else if h = [] then (Inl ''proof hash empty'', s)
          else
            (let ok = proof_passes (ch_seed ch) h; v = (if ok then ''pass'' else ''fail'') in
             (Inr v,
              s\<lparr>se_challenges := AList.update cid (ch\<lparr>ch_verdict := v\<rparr>) (se_challenges s),
                se_commitments := (case map_of (se_commitments s) (ch_deal ch) of
                    None \<Rightarrow> se_commitments s
                  | Some cs \<Rightarrow> AList.update (ch_deal ch) (count_proof ok worker cs) (se_commitments s))\<rparr>)))"

definition challenges_with :: "string \<Rightarrow> string \<Rightarrow> storage_engine \<Rightarrow> nat" where
  "challenges_with d v s = length (filter (\<lambda>(_, ch). ch_deal ch = d \<and> ch_verdict ch = v) (se_challenges s))"

definition deal_status :: "string \<Rightarrow> storage_engine \<Rightarrow> string res" where
  "deal_status d s =
     (case map_of (se_deals s) d of
        None \<Rightarrow> Inl ''deal not found''
      | Some deal \<Rightarrow>
          Inr (''deal_id='' @ sd_id deal @ '' status='' @ sd_status deal @ '' chunk_count='' @ to_string (sd_chunks deal)
               @ '' replication_factor='' @ to_string (sd_replication deal) @ '' commitments='' @ dec (length (commitments_of s d))
               @ '' challenges_pending='' @ dec (challenges_with d ''pending'' s) @ '' challenges_pass='' @ dec (challenges_with d ''pass'' s)
               @ '' challenges_fail='' @ dec (challenges_with d ''fail'' s) @ '' check=first_nibble_parity''))"

text \<open>A sum that leaves out what would overflow.\<close>

definition add_capped :: "u64 \<Rightarrow> u64 \<Rightarrow> u64" where
  "add_capped x v = (if x \<le> U64_MAX - v then x + v else x)"

definition storage_worker_status :: "string \<Rightarrow> storage_engine \<Rightarrow> string res" where
  "storage_worker_status worker s =
     (if worker = [] then Inl ''worker empty''
      else
        (let mine = filter (\<lambda>c. sc_worker c = worker) (concat (map snd (se_commitments s)));
             total = (\<lambda>f. to_string (fold (\<lambda>c x. add_capped x (f c)) mine 0)) in
         Inr (''worker='' @ worker @ '' deals='' @ dec (length mine) @ '' collateral_total='' @ total sc_collateral
              @ '' proofs_pass='' @ total sc_pass @ '' proofs_fail='' @ total sc_fail)))"

section \<open>The dump of the storage deals\<close>

definition deal_line :: "storage_deal \<Rightarrow> string" where
  "deal_line d = ''D|'' @ join_with bar [sd_id d, sd_client d, sd_root d, to_string (sd_chunks d), to_string (sd_replication d),
     to_string (sd_start d), to_string (sd_end d), to_string (sd_price d), sd_status d]"

definition commitment_line :: "string \<Rightarrow> storage_commitment \<Rightarrow> string" where
  "commitment_line d c = ''C|'' @ join_with bar [d, sc_worker c, sc_sealed c, to_string (sc_collateral c), to_string (sc_pass c), to_string (sc_fail c)]"

definition challenge_line :: "storage_challenge \<Rightarrow> string" where
  "challenge_line h = ''H|'' @ join_with bar [ch_id h, ch_deal h, ch_worker h, to_string (ch_seed h), to_string (ch_chunk h), to_string (ch_due h), ch_verdict h]"

definition storage_lines :: "storage_engine \<Rightarrow> string list" where
  "storage_lines s =
     map (\<lambda>(_, d). deal_line d) (se_deals s)
     @ concat (map (\<lambda>(d, cs). map (commitment_line d) cs) (se_commitments s))
     @ map (\<lambda>(_, h). challenge_line h) (se_challenges s)"

definition storage_dump_state :: "storage_engine \<Rightarrow> string" where
  "storage_dump_state s = unlines (storage_lines s)"

text \<open>
  The last field of a line keeps its initial value when the line ends before it. The error \<^verbatim>\<open>exception\<close> stands
  for an exception of \<^verbatim>\<open>std::stoull\<close>, which the loader does not handle.
\<close>

definition last_field :: "nat \<Rightarrow> string \<Rightarrow> string \<Rightarrow> string" where
  "last_field n d s = (if length (filter (\<lambda>c. c = bar) s) < n then d else last (getfields n s))"

definition load_storage_line :: "storage_engine \<Rightarrow> string \<Rightarrow> unit res \<times> storage_engine" where
  "load_storage_line s l =
     (let r = drop 2 l; num = (\<lambda>f. stoull f) in
      if length l < 2 \<or> l ! 1 \<noteq> bar then (Inr (), s)
      else if hd l = CHR ''D'' then
        (let f = getfields 8 r in
         case (num (f ! 3), num (f ! 4), num (f ! 5), num (f ! 6), num (f ! 7)) of
           (Some a, Some b, Some c, Some d, Some e) \<Rightarrow>
             (Inr (), s\<lparr>se_deals := AList.update (f ! 0)
                \<lparr>sd_id = f ! 0, sd_client = f ! 1, sd_root = f ! 2, sd_chunks = a, sd_replication = b, sd_start = c, sd_end = d, sd_price = e,
                 sd_status = last_field 8 ''active'' r\<rparr> (se_deals s)\<rparr>)
         | _ \<Rightarrow> (Inl ''exception'', s))
      else if hd l = CHR ''C'' then
        (let f = getfields 5 r in
         case (num (f ! 3), num (f ! 4), num (f ! 5)) of
           (Some a, Some b, Some c) \<Rightarrow>
             (Inr (), s\<lparr>se_commitments := AList.update (f ! 0)
                (commitments_of s (f ! 0) @ [\<lparr>sc_worker = f ! 1, sc_sealed = f ! 2, sc_collateral = a, sc_pass = b, sc_fail = c\<rparr>]) (se_commitments s)\<rparr>)
         | _ \<Rightarrow> (Inl ''exception'', s))
      else if hd l = CHR ''H'' then
        (let f = getfields 6 r in
         case (num (f ! 3), num (f ! 4), num (f ! 5)) of
           (Some a, Some b, Some c) \<Rightarrow>
             (Inr (), s\<lparr>se_challenges := AList.update (f ! 0)
                \<lparr>ch_id = f ! 0, ch_deal = f ! 1, ch_worker = f ! 2, ch_seed = a, ch_chunk = b, ch_due = c, ch_verdict = last_field 6 ''pending'' r\<rparr>
                (se_challenges s)\<rparr>)
         | _ \<Rightarrow> (Inl ''exception'', s))
      else (Inr (), s))"

definition storage_load_state :: "string \<Rightarrow> unit res \<times> storage_engine" where
  "storage_load_state t = load_lines load_storage_line storage_init (getlines newline t)"

section \<open>Compute jobs\<close>

record compute_job =
  cj_id :: string
  cj_requester :: string
  cj_type :: string
  cj_input :: string
  cj_profile :: string
  cj_latency :: u64
  cj_budget :: u64
  cj_reputation :: u64
  cj_status :: string
  cj_worker :: string
  cj_output :: string
  cj_result :: string
  cj_score :: u64

record compute_assignment =
  ca_worker :: string
  ca_collateral :: u64
  ca_at :: u64

record compute_result =
  cr_worker :: string
  cr_output :: string
  cr_hash :: string
  cr_proof :: string

record compute_validation =
  cv_validator :: string
  cv_verdict :: string
  cv_score :: u64

record compute_engine =
  ce_jobs :: "(string \<times> compute_job) list"
  ce_assignments :: "(string \<times> compute_assignment) list"
  ce_results :: "(string \<times> compute_result) list"
  ce_validations :: "(string \<times> (string \<times> compute_validation) list) list"

definition compute_init :: compute_engine where
  "compute_init = \<lparr>ce_jobs = [], ce_assignments = [], ce_results = [], ce_validations = []\<rparr>"

definition submit_job :: "crypto \<Rightarrow> string \<Rightarrow> string \<Rightarrow> string \<Rightarrow> string \<Rightarrow> u64 \<Rightarrow> u64 \<Rightarrow> u64 \<Rightarrow> compute_engine \<Rightarrow> string res \<times> compute_engine" where
  "submit_job cr requester job_type input profile latency budget reputation s =
     (if requester = [] \<or> job_type = [] \<or> input = [] then (Inl ''invalid compute job params'', s)
      else if latency = 0 \<or> budget = 0 then (Inl ''max_latency_sec and reward_budget must be > 0'', s)
      else
        (let seed = requester @ ''|'' @ job_type @ ''|'' @ input @ ''|'' @ dec (length (ce_jobs s));
             jid = to_hex (sha3 cr (''compute_job|'' @ seed)) in
         if map_of (ce_jobs s) jid \<noteq> None then (Inl ''duplicate job id'', s)
         else (Inr jid, s\<lparr>ce_jobs := AList.update jid
                 \<lparr>cj_id = jid, cj_requester = requester, cj_type = job_type, cj_input = input,
                  cj_profile = (if profile = [] then ''strict'' else profile), cj_latency = latency, cj_budget = budget, cj_reputation = reputation,
                  cj_status = ''open'', cj_worker = [], cj_output = [], cj_result = [], cj_score = 0\<rparr> (ce_jobs s)\<rparr>)))"

definition assign_job :: "string \<Rightarrow> string \<Rightarrow> u64 \<Rightarrow> compute_engine \<Rightarrow> unit res \<times> compute_engine" where
  "assign_job jid worker collateral s =
     (case map_of (ce_jobs s) jid of
        None \<Rightarrow> (Inl ''job not found'', s)
      | Some j \<Rightarrow>
          if worker = [] \<or> collateral = 0 then (Inl ''invalid assignment params'', s)
          else if cj_status j \<noteq> ''open'' then (Inl ''job not open'', s)
          else (Inr (), s\<lparr>ce_assignments := AList.update jid
                  \<lparr>ca_worker = worker, ca_collateral = collateral, ca_at = of_nat (length (ce_assignments s) + 1)\<rparr> (ce_assignments s),
                  ce_jobs := AList.update jid (j\<lparr>cj_worker := worker, cj_status := ''assigned''\<rparr>) (ce_jobs s)\<rparr>))"

definition submit_result :: "string \<Rightarrow> string \<Rightarrow> string \<Rightarrow> string \<Rightarrow> string \<Rightarrow> compute_engine \<Rightarrow> unit res \<times> compute_engine" where
  "submit_result jid worker output hash pf s =
     (case map_of (ce_jobs s) jid of
        None \<Rightarrow> (Inl ''job not found'', s)
      | Some j \<Rightarrow>
          (case map_of (ce_assignments s) jid of
             None \<Rightarrow> (Inl ''job not assigned'', s)
           | Some a \<Rightarrow>
               if ca_worker a \<noteq> worker then (Inl ''worker mismatch'', s)
               else if output = [] \<or> hash = [] then (Inl ''invalid result params'', s)
               else (Inr (), s\<lparr>ce_results := AList.update jid \<lparr>cr_worker = worker, cr_output = output, cr_hash = hash, cr_proof = pf\<rparr> (ce_results s),
                       ce_jobs := AList.update jid (j\<lparr>cj_output := output, cj_result := hash, cj_status := ''result_submitted''\<rparr>) (ce_jobs s)\<rparr>)))"

definition validations_of :: "compute_engine \<Rightarrow> string \<Rightarrow> (string \<times> compute_validation) list" where
  "validations_of s jid = (case map_of (ce_validations s) jid of None \<Rightarrow> [] | Some vs \<Rightarrow> vs)"

definition verdicts :: "string \<Rightarrow> (string \<times> compute_validation) list \<Rightarrow> nat" where
  "verdicts v vs = length (filter (\<lambda>(_, x). cv_verdict x = v) vs)"

text \<open>The status after the validations \<open>vs\<close> of a job.\<close>

definition judged :: "(string \<times> compute_validation) list \<Rightarrow> string \<Rightarrow> string" where
  "judged vs status =
     (if verdicts ''pass'' vs \<ge> 2 \<and> verdicts ''pass'' vs > verdicts ''fail'' vs then ''validated''
      else if verdicts ''fail'' vs \<ge> 2 \<and> verdicts ''fail'' vs \<ge> verdicts ''pass'' vs then ''rejected''
      else status)"

definition submit_validation :: "string \<Rightarrow> string \<Rightarrow> string \<Rightarrow> u64 \<Rightarrow> compute_engine \<Rightarrow> unit res \<times> compute_engine" where
  "submit_validation jid validator verdict score s =
     (case map_of (ce_jobs s) jid of
        None \<Rightarrow> (Inl ''job not found'', s)
      | Some j \<Rightarrow>
          if validator = [] \<or> verdict = [] then (Inl ''invalid validation params'', s)
          else if verdict \<noteq> ''pass'' \<and> verdict \<noteq> ''fail'' then (Inl ''verdict must be pass|fail'', s)
          else
            (let vs = AList.update validator \<lparr>cv_validator = validator, cv_verdict = verdict, cv_score = score\<rparr> (validations_of s jid) in
             (Inr (), s\<lparr>ce_validations := AList.update jid vs (ce_validations s),
                ce_jobs := AList.update jid (j\<lparr>cj_status := judged vs (cj_status j),
                  cj_score := fold (\<lambda>(_, v) x. add_capped x (cv_score v)) vs 0\<rparr>) (ce_jobs s)\<rparr>)))"

definition job_status :: "string \<Rightarrow> compute_engine \<Rightarrow> string res" where
  "job_status jid s =
     (case map_of (ce_jobs s) jid of
        None \<Rightarrow> Inl ''job not found''
      | Some j \<Rightarrow>
          Inr (''job_id='' @ cj_id j @ '' status='' @ cj_status j @ '' requester='' @ cj_requester j @ '' type='' @ cj_type j
               @ '' assigned_worker='' @ cj_worker j @ '' reward_budget='' @ to_string (cj_budget j)
               @ '' validators='' @ dec (length (validations_of s jid)) @ '' validation_score='' @ to_string (cj_score j)))"

definition compute_worker_status :: "string \<Rightarrow> compute_engine \<Rightarrow> string res" where
  "compute_worker_status worker s =
     (if worker = [] then Inl ''worker empty''
      else
        (let mine = map fst (filter (\<lambda>(_, a). ca_worker a = worker) (ce_assignments s));
             with_status = (\<lambda>v. filter (\<lambda>i. map_option cj_status (map_of (ce_jobs s) i) = Some v) mine) in
         Inr (''worker='' @ worker @ '' assigned='' @ dec (length mine)
              @ '' submitted='' @ dec (length (filter (\<lambda>i. map_of (ce_results s) i \<noteq> None) mine))
              @ '' validated='' @ dec (length (with_status ''validated'')) @ '' rejected='' @ dec (length (with_status ''rejected'')))))"

definition job_line :: "compute_job \<Rightarrow> string" where
  "job_line j = ''J|'' @ join_with bar [cj_id j, cj_requester j, cj_type j, cj_input j, cj_profile j, to_string (cj_latency j), to_string (cj_budget j),
     to_string (cj_reputation j), cj_status j, cj_worker j, cj_output j, cj_result j, to_string (cj_score j)]"

definition compute_lines :: "compute_engine \<Rightarrow> string list" where
  "compute_lines s =
     map (\<lambda>(_, j). job_line j) (ce_jobs s)
     @ map (\<lambda>(i, a). ''A|'' @ join_with bar [i, ca_worker a, to_string (ca_collateral a), to_string (ca_at a)]) (ce_assignments s)
     @ map (\<lambda>(i, r). ''R|'' @ join_with bar [i, cr_worker r, cr_output r, cr_hash r, cr_proof r]) (ce_results s)
     @ concat (map (\<lambda>(i, vs). map (\<lambda>(_, v). ''V|'' @ join_with bar [i, cv_validator v, cv_verdict v, to_string (cv_score v)]) vs) (ce_validations s))"

definition compute_dump_state :: "compute_engine \<Rightarrow> string" where
  "compute_dump_state s = unlines (compute_lines s)"

definition load_compute_line :: "compute_engine \<Rightarrow> string \<Rightarrow> unit res \<times> compute_engine" where
  "load_compute_line s l =
     (let r = drop 2 l in
      if length l < 2 \<or> l ! 1 \<noteq> bar then (Inr (), s)
      else if hd l = CHR ''J'' then
        (let f = getfields 12 r in
         case (stoull (f ! 5), stoull (f ! 6), stoull (f ! 7), stoull (f ! 12)) of
           (Some a, Some b, Some c, Some d) \<Rightarrow>
             (Inr (), s\<lparr>ce_jobs := AList.update (f ! 0)
                \<lparr>cj_id = f ! 0, cj_requester = f ! 1, cj_type = f ! 2, cj_input = f ! 3, cj_profile = f ! 4, cj_latency = a, cj_budget = b,
                 cj_reputation = c, cj_status = f ! 8, cj_worker = f ! 9, cj_output = f ! 10, cj_result = f ! 11, cj_score = d\<rparr> (ce_jobs s)\<rparr>)
         | _ \<Rightarrow> (Inl ''exception'', s))
      else if hd l = CHR ''A'' then
        (let f = getfields 3 r in
         case (stoull (f ! 2), stoull (f ! 3)) of
           (Some a, Some b) \<Rightarrow>
             (Inr (), s\<lparr>ce_assignments := AList.update (f ! 0) \<lparr>ca_worker = f ! 1, ca_collateral = a, ca_at = b\<rparr> (ce_assignments s)\<rparr>)
         | _ \<Rightarrow> (Inl ''exception'', s))
      else if hd l = CHR ''R'' then
        (let f = getfields 4 r in
         (Inr (), s\<lparr>ce_results := AList.update (f ! 0) \<lparr>cr_worker = f ! 1, cr_output = f ! 2, cr_hash = f ! 3, cr_proof = f ! 4\<rparr> (ce_results s)\<rparr>))
      else if hd l = CHR ''V'' then
        (let f = getfields 3 r in
         case stoull (f ! 3) of
           Some a \<Rightarrow>
             (Inr (), s\<lparr>ce_validations := AList.update (f ! 0)
                (AList.update (f ! 1) \<lparr>cv_validator = f ! 1, cv_verdict = f ! 2, cv_score = a\<rparr> (validations_of s (f ! 0))) (ce_validations s)\<rparr>)
         | None \<Rightarrow> (Inl ''exception'', s))
      else (Inr (), s))"

definition compute_load_state :: "string \<Rightarrow> unit res \<times> compute_engine" where
  "compute_load_state t = load_lines load_compute_line compute_init (getlines newline t)"

end
