(* ===== verification/Work_Properties.thy ===== *)
theory Work_Properties
  imports Work_Markets
begin

text \<open>
  What the registries of useful work guarantee. The storage registry stays consistent under every sequence of
  operations and a decided challenge keeps its verdict; the compute registry keeps jobs, assignments and
  results in agreement; both dumps restore the registry. The last section shows what the code does
  not check.
\<close>

section \<open>Association lists\<close>

lemma update_new: "map_of al k = None \<Longrightarrow> AList.update k v al = al @ [(k, v)]"
  by (induction al) (auto split: if_splits)

lemma count_update:
  "distinct (map fst al) \<Longrightarrow> map_of al k = Some x \<Longrightarrow>
     length (filter (\<lambda>(_, y). P y) (AList.update k z al)) + (if P x then 1 else 0) = length (filter (\<lambda>(_, y). P y) al) + (if P z then 1 else 0)"
proof (induction al)
  case (Cons p al)
  obtain j y where p: "p = (j, y)" by (cases p)
  show ?case
  proof (cases "j = k")
    case False
    then show ?thesis using Cons by (auto simp: p)
  qed (use Cons.prems in \<open>auto simp: p\<close>)
qed simp

lemma count_update_new:
  "map_of al k = None \<Longrightarrow> length (filter (\<lambda>(_, y). P y) (AList.update k z al)) = length (filter (\<lambda>(_, y). P y) al) + (if P z then 1 else 0)"
  by (simp add: update_new)

lemma distinct_update_keys: "distinct (map fst al) \<Longrightarrow> distinct (map fst (AList.update k v al))"
  by (rule distinct_update)

lemma set_update_subset: "set (AList.update k v al) \<subseteq> insert (k, v) (set al)"
  by (induction al) auto

section \<open>Storage\<close>

text \<open>The challenges of a worker for a deal with a given verdict.\<close>

definition decided :: "string \<Rightarrow> string \<Rightarrow> string \<Rightarrow> storage_engine \<Rightarrow> nat" where
  "decided d w v s = length (filter (\<lambda>(_, h). ch_deal h = d \<and> ch_worker h = w \<and> ch_verdict h = v) (se_challenges s))"

definition deals_ok :: "storage_engine \<Rightarrow> bool" where
  "deals_ok s \<longleftrightarrow> distinct (map fst (se_deals s)) \<and>
     (\<forall>k d. map_of (se_deals s) k = Some d \<longrightarrow> sd_id d = k \<and> sd_chunks d \<noteq> 0 \<and> sd_replication d \<noteq> 0 \<and> sd_start d < sd_end d)"

definition commitments_ok :: "storage_engine \<Rightarrow> bool" where
  "commitments_ok s \<longleftrightarrow> distinct (map fst (se_commitments s)) \<and>
     (\<forall>k cs. map_of (se_commitments s) k = Some cs \<longrightarrow> map_of (se_deals s) k \<noteq> None \<and> cs \<noteq> [] \<and> distinct (map sc_worker cs) \<and>
        (\<forall>c\<in>set cs. sc_collateral c \<noteq> 0 \<and> sc_pass c = of_nat (decided k (sc_worker c) ''pass'' s) \<and> sc_fail c = of_nat (decided k (sc_worker c) ''fail'' s)))"

definition challenges_ok :: "storage_engine \<Rightarrow> bool" where
  "challenges_ok s \<longleftrightarrow> distinct (map fst (se_challenges s)) \<and>
     (\<forall>k h. map_of (se_challenges s) k = Some h \<longrightarrow> ch_id h = k \<and> ch_verdict h \<in> {''pending'', ''pass'', ''fail''} \<and>
        (\<exists>d. map_of (se_deals s) (ch_deal h) = Some d \<and> ch_chunk h < sd_chunks d) \<and> ch_worker h \<in> sc_worker ` set (commitments_of s (ch_deal h)))"

definition storage_ok :: "storage_engine \<Rightarrow> bool" where
  "storage_ok s \<longleftrightarrow> deals_ok s \<and> commitments_ok s \<and> challenges_ok s"

lemma storage_init_ok: "storage_ok storage_init"
  by (simp add: storage_ok_def deals_ok_def commitments_ok_def challenges_ok_def storage_init_def)

lemma create_deal_ok:
  assumes "storage_ok s"
  shows "storage_ok (snd (create_deal cr client root chunks replication start end_h price s))"
proof (cases "fst (create_deal cr client root chunks replication start end_h price s)")
  case (Inl e)
  then show ?thesis using assms by (auto simp: create_deal_def Let_def split: if_splits)
next
  case (Inr k)
  define t where "t = snd (create_deal cr client root chunks replication start end_h price s)"
  have g: "map_of (se_deals s) k = None" "chunks \<noteq> 0" "replication \<noteq> 0" "start < end_h"
    and t: "t = s\<lparr>se_deals := AList.update k \<lparr>sd_id = k, sd_client = client, sd_root = root, sd_chunks = chunks, sd_replication = replication,
        sd_start = start, sd_end = end_h, sd_price = price, sd_status = ''active''\<rparr> (se_deals s)\<rparr>"
    using Inr by (auto simp: t_def create_deal_def Let_def not_le split: if_split_asm)
  note ok = assms [unfolded storage_ok_def]
  have grow: "map_of (se_deals t) j = Some d" if "map_of (se_deals s) j = Some d" for j d
    using that g(1) by (auto simp: t update_conv')
  have same: "se_commitments t = se_commitments s" "se_challenges t = se_challenges s" by (simp_all add: t)
  have "commitments_ok t" using ok grow unfolding commitments_ok_def decided_def same by fast
  moreover have "challenges_ok t" using ok grow unfolding challenges_ok_def commitments_of_def same by fast
  moreover have "deals_ok t" using ok g by (auto simp: deals_ok_def t update_conv' distinct_update_keys)
  ultimately show ?thesis by (simp add: storage_ok_def t_def)
qed

text \<open>A worker without a commitment has no challenges.\<close>

lemma decided_uncommitted:
  assumes "challenges_ok s" and "w \<notin> sc_worker ` set (commitments_of s d)"
  shows "decided d w v s = 0"
proof -
  have "False" if "(k, h) \<in> set (se_challenges s)" "ch_deal h = d" "ch_worker h = w" for k h
    using assms that map_of_is_SomeI [of "se_challenges s" k h] by (auto simp: challenges_ok_def)
  then show ?thesis by (auto simp: decided_def filter_empty_conv)
qed

lemma register_commitment_ok:
  assumes "storage_ok s"
  shows "storage_ok (snd (register_commitment d worker sealed collateral s))"
proof (cases "fst (register_commitment d worker sealed collateral s)")
  case (Inl e)
  then show ?thesis using assms by (auto simp: register_commitment_def split: if_splits)
next
  case (Inr u)
  let ?c = "\<lparr>sc_worker = worker, sc_sealed = sealed, sc_collateral = collateral, sc_pass = 0, sc_fail = 0\<rparr>"
  define t where "t = snd (register_commitment d worker sealed collateral s)"
  have g: "map_of (se_deals s) d \<noteq> None" "collateral \<noteq> 0" "worker \<notin> sc_worker ` set (commitments_of s d)"
    and t: "t = s\<lparr>se_commitments := AList.update d (commitments_of s d @ [?c]) (se_commitments s)\<rparr>"
    using Inr by (auto simp: t_def register_commitment_def list_ex_iff split: if_splits)
  note ok = assms [unfolded storage_ok_def]
  have dec: "decided k w v t = decided k w v s" for k w v by (simp add: decided_def t)
  have of: "commitments_of t k = (if k = d then commitments_of s d @ [?c] else commitments_of s k)" for k
    by (simp add: t commitments_of_def update_conv')
  have cs: "distinct (map sc_worker (commitments_of s k)) \<and> (\<forall>c\<in>set (commitments_of s k). sc_collateral c \<noteq> 0
      \<and> sc_pass c = of_nat (decided k (sc_worker c) ''pass'' s) \<and> sc_fail c = of_nat (decided k (sc_worker c) ''fail'' s))" for k
    using ok by (auto simp: commitments_ok_def commitments_of_def split: option.splits)
  have "commitments_ok t"
    unfolding commitments_ok_def dec
    using ok g cs [of d] decided_uncommitted [of s worker d] by (auto simp: t commitments_ok_def update_conv' distinct_update_keys)
  moreover have "challenges_ok t" using ok by (auto simp: challenges_ok_def of) (auto simp: t)
  moreover have "deals_ok t" using ok by (simp add: deals_ok_def t)
  ultimately show ?thesis by (simp add: storage_ok_def t_def)
qed

lemma mod_less_u64: "c \<noteq> 0 \<Longrightarrow> x mod c < (c :: u64)"
  by (rule word_mod_less_divisor) (simp add: word_gt_0)

lemma issue_challenge_ok:
  assumes "storage_ok s"
  shows "storage_ok (snd (issue_challenge cr d worker height s))"
proof (cases "fst (issue_challenge cr d worker height s)")
  case (Inl e)
  then show ?thesis using assms by (auto simp: issue_challenge_def Let_def split: option.splits if_splits)
next
  case (Inr cid)
  define t where "t = snd (issue_challenge cr d worker height s)"
  define sx where "sx = to_hex (sha3 cr (''storage_challenge|'' @ d @ ''|'' @ worker @ ''|'' @ to_string height @ ''|'' @ dec (length (se_challenges s))))"
  obtain deal seed where g: "map_of (se_deals s) d = Some deal" "worker \<in> sc_worker ` set (commitments_of s d)" "map_of (se_challenges s) cid = None"
    and t: "t = s\<lparr>se_challenges := AList.update cid \<lparr>ch_id = cid, ch_deal = d, ch_worker = worker, ch_seed = seed,
        ch_chunk = (if sd_chunks deal > 0 then seed mod sd_chunks deal else 0), ch_due = height + 64, ch_verdict = ''pending''\<rparr> (se_challenges s)\<rparr>"
    using Inr unfolding t_def issue_challenge_def sx_def [symmetric] Let_def
    by (auto simp: list_ex_iff split: option.splits if_split_asm)
  define h where "h = \<lparr>ch_id = cid, ch_deal = d, ch_worker = worker, ch_seed = seed,
        ch_chunk = (if sd_chunks deal > 0 then seed mod sd_chunks deal else 0), ch_due = height + 64, ch_verdict = ''pending''\<rparr>"
  have t: "t = s\<lparr>se_challenges := AList.update cid h (se_challenges s)\<rparr>" by (simp add: t h_def)
  have h: "ch_id h = cid" "ch_deal h = d" "ch_worker h = worker" "ch_verdict h = ''pending''" "sd_chunks deal \<noteq> 0 \<longrightarrow> ch_chunk h < sd_chunks deal"
    by (simp_all add: h_def word_gt_0 mod_less_u64)
  note ok = assms [unfolded storage_ok_def]
  have dec: "decided k w v t = decided k w v s" if "v \<noteq> ''pending''" for k w v
    using that h count_update_new [OF g(3)] by (auto simp: decided_def t)
  have "commitments_ok t" using ok dec by (simp add: commitments_ok_def t)
  moreover have "challenges_ok t" using ok g h
    by (auto simp: challenges_ok_def deals_ok_def t commitments_of_def update_conv' distinct_update_keys)
  moreover have "deals_ok t" using ok by (simp add: deals_ok_def t)
  ultimately show ?thesis by (simp add: storage_ok_def t_def)
qed

lemma count_proof_map:
  "distinct (map sc_worker cs) \<Longrightarrow>
     count_proof ok w cs = map (\<lambda>c. if sc_worker c = w then if ok then c\<lparr>sc_pass := sc_pass c + 1\<rparr> else c\<lparr>sc_fail := sc_fail c + 1\<rparr> else c) cs"
proof (induction cs)
  case (Cons c cs)
  show ?case
  proof (cases "sc_worker c = w")
    case True
    then have "map (\<lambda>c. if sc_worker c = w then if ok then c\<lparr>sc_pass := sc_pass c + 1\<rparr> else c\<lparr>sc_fail := sc_fail c + 1\<rparr> else c) cs = cs"
      using Cons.prems by (intro map_idI) (metis distinct.simps(2) image_eqI list.set_map list.simps(9))
    then show ?thesis using True by simp
  qed (use Cons in simp)
qed simp

lemma count_proof_workers: "map sc_worker (count_proof ok w cs) = map sc_worker cs"
  by (induction cs) auto

lemma count_proof_empty [simp]: "count_proof ok w cs = [] \<longleftrightarrow> cs = []"
  by (cases cs) auto

lemma submit_proof_ok:
  assumes "storage_ok s"
  shows "storage_ok (snd (submit_proof cid worker h s))"
proof (cases "fst (submit_proof cid worker h s)")
  case (Inl e)
  then show ?thesis using assms by (auto simp: submit_proof_def Let_def split: option.splits if_splits)
next
  case (Inr v)
  define t where "t = snd (submit_proof cid worker h s)"
  obtain ch where g: "map_of (se_challenges s) cid = Some ch" "ch_worker ch = worker" "ch_verdict ch = ''pending''"
    using Inr by (auto simp: submit_proof_def split: option.splits if_splits)
  define ok where "ok = proof_passes (ch_seed ch) h"
  note ok' = assms [unfolded storage_ok_def]
  have w: "worker \<in> sc_worker ` set (commitments_of s (ch_deal ch))" using ok' g by (auto simp: challenges_ok_def)
  then obtain cs where cs: "map_of (se_commitments s) (ch_deal ch) = Some cs"
    by (cases "map_of (se_commitments s) (ch_deal ch)") (auto simp: commitments_of_def)
  with w have w: "worker \<in> sc_worker ` set cs" by (simp add: commitments_of_def)
  have v: "v = (if ok then ''pass'' else ''fail'')" and t: "t = s\<lparr>se_challenges := AList.update cid (ch\<lparr>ch_verdict := v\<rparr>) (se_challenges s),
      se_commitments := AList.update (ch_deal ch) (count_proof ok worker cs) (se_commitments s)\<rparr>"
    using Inr g cs by (auto simp: t_def submit_proof_def ok_def Let_def split: if_splits)
  have d: "distinct (map fst (se_challenges s))" using ok' by (simp add: challenges_ok_def)
  have dec: "decided k x u t = decided k x u s + (if k = ch_deal ch \<and> x = worker \<and> u = v then 1 else 0)" if "u \<noteq> ''pending''" for k x u
    using that g count_update [OF d g(1), of "\<lambda>h. ch_deal h = k \<and> ch_worker h = x \<and> ch_verdict h = u" "ch\<lparr>ch_verdict := v\<rparr>"]
    by (auto simp: decided_def t split: if_splits)
  have c: "map_of (se_deals s) (ch_deal ch) \<noteq> None" "cs \<noteq> []" "distinct (map sc_worker cs)"
      "\<And>c. c \<in> set cs \<Longrightarrow> sc_collateral c \<noteq> 0 \<and> sc_pass c = of_nat (decided (ch_deal ch) (sc_worker c) ''pass'' s) \<and> sc_fail c = of_nat (decided (ch_deal ch) (sc_worker c) ''fail'' s)"
    using ok' cs by (auto simp: commitments_ok_def)
  have "commitments_ok t"
    unfolding commitments_ok_def
  proof (intro conjI allI impI)
    fix k us assume us: "map_of (se_commitments t) k = Some us"
    show "map_of (se_deals t) k \<noteq> None" "us \<noteq> []" "distinct (map sc_worker us)"
      using us ok' c by (auto simp: t update_conv' commitments_ok_def count_proof_workers split: if_splits)
    show "\<forall>c\<in>set us. sc_collateral c \<noteq> 0 \<and> sc_pass c = of_nat (decided k (sc_worker c) ''pass'' t) \<and> sc_fail c = of_nat (decided k (sc_worker c) ''fail'' t)"
    proof (cases "k = ch_deal ch")
      case True
      then have "us = count_proof ok worker cs" using us by (simp add: t update_conv')
      then show ?thesis using c(4) dec True v by (auto simp: count_proof_map [OF c(3)])
    next
      case False
      then have "map_of (se_commitments s) k = Some us" using us by (simp add: t update_conv')
      then show ?thesis using ok' dec False by (auto simp: commitments_ok_def)
    qed
  qed (use ok' in \<open>simp add: t commitments_ok_def distinct_update_keys\<close>)
  moreover have "sc_worker ` set (commitments_of t k) = sc_worker ` set (commitments_of s k)" for k
  proof -
    have "map sc_worker (commitments_of t k) = map sc_worker (commitments_of s k)"
      by (simp add: t commitments_of_def update_conv' cs count_proof_workers)
    then show ?thesis by (metis list.set_map)
  qed
  then have "challenges_ok t"
    using ok' g v unfolding challenges_ok_def by (auto simp: t update_conv' distinct_update_keys split: if_splits)
  moreover have "deals_ok t" using ok' by (simp add: deals_ok_def t)
  ultimately show ?thesis by (simp add: storage_ok_def t_def)
qed

text \<open>The operations that change the registry.\<close>

datatype storage_op =
    CreateDeal string string u64 u64 u64 u64 u64
  | RegisterCommitment string string string u64
  | IssueChallenge string string u64
  | SubmitProof string string string

fun storage_apply :: "crypto \<Rightarrow> storage_op \<Rightarrow> storage_engine \<Rightarrow> storage_engine" where
  "storage_apply cr (CreateDeal a b c d e f g) s = snd (create_deal cr a b c d e f g s)"
| "storage_apply cr (RegisterCommitment a b c d) s = snd (register_commitment a b c d s)"
| "storage_apply cr (IssueChallenge a b c) s = snd (issue_challenge cr a b c s)"
| "storage_apply cr (SubmitProof a b c) s = snd (submit_proof a b c s)"

lemma storage_apply_ok: "storage_ok s \<Longrightarrow> storage_ok (storage_apply cr op s)"
  by (cases op) (simp_all add: create_deal_ok register_commitment_ok issue_challenge_ok submit_proof_ok)

text \<open>A decided challenge keeps its verdict.\<close>

lemma verdict_kept:
  "map_of (se_challenges s) k = Some h \<Longrightarrow> ch_verdict h \<noteq> ''pending'' \<Longrightarrow> map_of (se_challenges (storage_apply cr op s)) k = Some h"
  by (cases op)
    (auto simp: create_deal_def register_commitment_def issue_challenge_def submit_proof_def update_conv' Let_def split: option.splits if_splits)

lemma storage_run_ok: "storage_ok s \<Longrightarrow> storage_ok (fold (storage_apply cr) ops s)"
  by (induction ops arbitrary: s) (simp_all add: storage_apply_ok)

text \<open>
  The storage registry is consistent in every state that its operations reach: deals are well formed,
  every challenge belongs to a deal, to a worker committed to it and to one of its chunks, no worker is
  committed twice, and the proof counters of a worker are the numbers of its passed and failed
  challenges. A challenge is decided once: after an accepted proof no sequence of operations changes
  its verdict, and another proof is refused.
\<close>

theorem storage_market_consistent:
  "storage_ok (fold (storage_apply cr) ops storage_init)
   \<and> (submit_proof cid w h (fold (storage_apply cr) ops storage_init) = (Inr v, s') \<longrightarrow>
      (\<exists>ch. map_of (se_challenges (fold (storage_apply cr) later s')) cid = Some ch \<and> ch_verdict ch = v)
      \<and> submit_proof cid w h' (fold (storage_apply cr) later s') = (Inl ''challenge already finalized'', fold (storage_apply cr) later s'))"
proof (intro conjI impI)
  show "storage_ok (fold (storage_apply cr) ops storage_init)" by (rule storage_run_ok [OF storage_init_ok])
next
  let ?s = "fold (storage_apply cr) ops storage_init"
  assume a: "submit_proof cid w h ?s = (Inr v, s')"
  then obtain ch where "map_of (se_challenges s') cid = Some ch" "ch_verdict ch = v" "ch_worker ch = w" "v \<noteq> ''pending''"
    by (auto simp: submit_proof_def update_conv' Let_def split: option.splits if_splits)
  then have *: "map_of (se_challenges (fold (storage_apply cr) later s')) cid = Some ch \<and> ch_verdict ch = v \<and> ch_worker ch = w \<and> v \<noteq> ''pending''"
    by (induction later rule: rev_induct) (auto simp: verdict_kept)
  then show "\<exists>ch. map_of (se_challenges (fold (storage_apply cr) later s')) cid = Some ch \<and> ch_verdict ch = v" by blast
  show "submit_proof cid w h' (fold (storage_apply cr) later s') = (Inl ''challenge already finalized'', fold (storage_apply cr) later s')"
    using * by (simp add: submit_proof_def)
qed

section \<open>The dump of the storage registry\<close>

definition deal_text :: "storage_deal \<Rightarrow> bool" where
  "deal_text d \<longleftrightarrow> list_all bar_free [sd_id d, sd_client d, sd_root d, sd_status d]"

definition commitment_text :: "storage_commitment \<Rightarrow> bool" where
  "commitment_text c \<longleftrightarrow> bar_free (sc_worker c) \<and> bar_free (sc_sealed c)"

definition challenge_text :: "storage_challenge \<Rightarrow> bool" where
  "challenge_text h \<longleftrightarrow> list_all bar_free [ch_id h, ch_deal h, ch_worker h, ch_verdict h]"

definition storage_text :: "storage_engine \<Rightarrow> bool" where
  "storage_text s \<longleftrightarrow> (\<forall>(k, d)\<in>set (se_deals s). deal_text d) \<and> (\<forall>(k, cs)\<in>set (se_commitments s). bar_free k \<and> (\<forall>c\<in>set cs. commitment_text c))
     \<and> (\<forall>(k, h)\<in>set (se_challenges s). challenge_text h)"

lemma bars_join: "fs \<noteq> [] \<Longrightarrow> \<forall>f\<in>set fs. bar \<notin> set f \<Longrightarrow> length (filter (\<lambda>c. c = bar) (join_with bar fs)) = length fs - 1"
proof (induction bar fs rule: join_with.induct)
  case (2 p)
  then show ?case by (simp add: filter_empty_conv) (metis)
next
  case (3 p q ps)
  then have "filter (\<lambda>c. c = bar) p = []" by (auto simp: filter_empty_conv)
  with 3 show ?case by simp
qed simp

lemma fields_read:
  assumes "\<forall>f\<in>set fs. bar \<notin> set f" and "length fs = Suc n"
  shows "getfields n (join_with bar fs) = fs" and "last_field n d (join_with bar fs) = last fs"
proof -
  show g: "getfields n (join_with bar fs) = fs" using assms by (intro getfields_join) (auto dest: in_set_butlastD)
  have "length (filter (\<lambda>c. c = bar) (join_with bar fs)) = n" using assms bars_join [of fs] by (cases fs) auto
  then show "last_field n d (join_with bar fs) = last fs" by (simp add: last_field_def g)
qed

lemma load_deal_line:
  "deal_text d \<Longrightarrow> load_storage_line s (deal_line d) = (Inr (), s\<lparr>se_deals := AList.update (sd_id d) d (se_deals s)\<rparr>)"
  using fields_read [of "[sd_id d, sd_client d, sd_root d, to_string (sd_chunks d), to_string (sd_replication d), to_string (sd_start d),
     to_string (sd_end d), to_string (sd_price d), sd_status d]" 8]
  by (cases d) (simp add: load_storage_line_def deal_line_def deal_text_def bar_free_def del: join_with.simps getfields.simps)

lemma load_commitment_line:
  "bar_free k \<Longrightarrow> commitment_text c \<Longrightarrow>
     load_storage_line s (commitment_line k c) = (Inr (), s\<lparr>se_commitments := AList.update k (commitments_of s k @ [c]) (se_commitments s)\<rparr>)"
  using fields_read [of "[k, sc_worker c, sc_sealed c, to_string (sc_collateral c), to_string (sc_pass c), to_string (sc_fail c)]" 5]
  by (cases c) (simp add: load_storage_line_def commitment_line_def commitment_text_def bar_free_def del: join_with.simps getfields.simps)

lemma load_challenge_line:
  "challenge_text h \<Longrightarrow> load_storage_line s (challenge_line h) = (Inr (), s\<lparr>se_challenges := AList.update (ch_id h) h (se_challenges s)\<rparr>)"
  using fields_read [of "[ch_id h, ch_deal h, ch_worker h, to_string (ch_seed h), to_string (ch_chunk h), to_string (ch_due h), ch_verdict h]" 6]
  by (cases h) (simp add: load_storage_line_def challenge_line_def challenge_text_def bar_free_def del: join_with.simps getfields.simps)

text \<open>Loading a table whose keys are new appends it.\<close>

lemma load_new_table:
  assumes "\<And>s k v. (k, v) \<in> set xs \<Longrightarrow> step s (line (k, v)) = (Inr (), upd (\<lambda>_. AList.update k v (tab s)) s)"
    and "\<And>x f s. upd (\<lambda>_. x) (upd f s) = upd (\<lambda>_. x) s" and "\<And>f s. tab (upd f s) = f (tab s)" and "\<And>s. upd (\<lambda>_. tab s) s = s"
  shows "distinct (map fst (tab s @ xs)) \<Longrightarrow> load_lines step s (map line xs) = (Inr (), upd (\<lambda>_. tab s @ xs) s)"
  using assms(1)
proof (induction xs arbitrary: s)
  case (Cons x xs)
  obtain k v where x: "x = (k, v)" by (cases x)
  let ?t = "upd (\<lambda>_. tab s @ [(k, v)]) s"
  have "map_of (tab s) k = None" using Cons.prems(1) by (auto simp: x map_of_eq_None_iff)
  then have 1: "step s (line (k, v)) = (Inr (), ?t)" using Cons.prems(2) [of k v s] by (simp add: x update_new)
  have "load_lines step ?t (map line xs) = (Inr (), upd (\<lambda>_. tab ?t @ xs) ?t)"
    by (rule Cons.IH) (use Cons.prems in \<open>auto simp: x assms(3)\<close>)
  then show ?case by (simp add: 1 assms(2,3) x)
qed (simp add: assms(4))

lemma load_group:
  assumes "\<And>c. c \<in> set cs \<Longrightarrow> commitment_text c" and "bar_free k"
  shows "cs \<noteq> [] \<Longrightarrow> load_lines load_storage_line s (map (commitment_line k) cs)
    = (Inr (), s\<lparr>se_commitments := AList.update k (commitments_of s k @ cs) (se_commitments s)\<rparr>)"
  using assms(1)
proof (induction cs arbitrary: s)
  case (Cons c cs)
  let ?t = "s\<lparr>se_commitments := AList.update k (commitments_of s k @ [c]) (se_commitments s)\<rparr>"
  have 1: "load_storage_line s (commitment_line k c) = (Inr (), ?t)" using Cons.prems assms(2) by (simp add: load_commitment_line)
  show ?case
  proof (cases "cs = []")
    case False
    then have "load_lines load_storage_line ?t (map (commitment_line k) cs)
        = (Inr (), ?t\<lparr>se_commitments := AList.update k (commitments_of ?t k @ cs) (se_commitments ?t)\<rparr>)" using Cons by simp
    moreover have "AList.update k y (AList.update k x al) = AList.update k y al" for x y and al :: "(string \<times> storage_commitment list) list"
      by (induction al) auto
    ultimately show ?thesis by (simp add: 1 commitments_of_def update_conv')
  qed (simp add: 1)
qed simp

lemma load_commitments:
  assumes "\<And>k cs. (k, cs) \<in> set xs \<Longrightarrow> bar_free k \<and> cs \<noteq> [] \<and> (\<forall>c\<in>set cs. commitment_text c)"
  shows "distinct (map fst (se_commitments s @ xs)) \<Longrightarrow>
    load_lines load_storage_line s (concat (map (\<lambda>(k, cs). map (commitment_line k) cs) xs)) = (Inr (), s\<lparr>se_commitments := se_commitments s @ xs\<rparr>)"
  using assms
proof (induction xs arbitrary: s)
  case (Cons x xs)
  obtain k cs where x: "x = (k, cs)" by (cases x)
  let ?t = "s\<lparr>se_commitments := se_commitments s @ [(k, cs)]\<rparr>"
  have "map_of (se_commitments s) k = None" using Cons.prems(1) by (auto simp: x map_of_eq_None_iff)
  then have 1: "load_lines load_storage_line s (map (commitment_line k) cs) = (Inr (), ?t)"
    using load_group [of cs k s] Cons.prems(2) [of k cs] by (simp add: x commitments_of_def update_new)
  have "load_lines load_storage_line ?t (concat (map (\<lambda>(k, cs). map (commitment_line k) cs) xs)) = (Inr (), ?t\<lparr>se_commitments := se_commitments ?t @ xs\<rparr>)"
    by (rule Cons.IH) (use Cons.prems in \<open>auto simp: x\<close>)
  then show ?case by (simp add: x load_lines_append 1)
qed simp

lemma newline_other [simp]: "newline \<noteq> bar" "c \<noteq> newline \<longleftrightarrow> c \<noteq> CHR 0x0A" "newline \<noteq> c \<longleftrightarrow> CHR 0x0A \<noteq> c"
  by (auto simp: newline_def)

lemma tagged_text: "\<forall>f\<in>set fs. newline \<notin> set f \<Longrightarrow> c \<noteq> newline \<Longrightarrow> newline \<notin> set (c # bar # join_with bar fs)"
  using join_no_newline [of fs] by auto

lemma storage_lines_text:
  assumes "storage_text s" and "l \<in> set (storage_lines s)"
  shows "newline \<notin> set l"
proof -
  have "deal_text d \<Longrightarrow> newline \<notin> set (deal_line d)" for d
    unfolding deal_line_def append.simps by (rule tagged_text) (auto simp: deal_text_def bar_free_def)
  moreover have "bar_free k \<Longrightarrow> commitment_text c \<Longrightarrow> newline \<notin> set (commitment_line k c)" for k c
    unfolding commitment_line_def append.simps by (rule tagged_text) (auto simp: commitment_text_def bar_free_def)
  moreover have "challenge_text h \<Longrightarrow> newline \<notin> set (challenge_line h)" for h
    unfolding challenge_line_def append.simps by (rule tagged_text) (auto simp: challenge_text_def bar_free_def)
  ultimately show ?thesis using assms by (fastforce simp: storage_lines_def storage_text_def)
qed

theorem storage_dump_load:
  assumes ok: "storage_ok s" and tx: "storage_text s"
  shows "storage_load_state (storage_dump_state s) = (Inr (), s)"
proof -
  have key: "map_of al k = Some v" if "distinct (map fst al)" "(k, v) \<in> set al" for al :: "(string \<times> 'v) list" and k v using that by simp
  have d: "load_lines load_storage_line storage_init (map (\<lambda>(_, d). deal_line d) (se_deals s)) = (Inr (), storage_init\<lparr>se_deals := se_deals s\<rparr>)"
  proof -
    have "load_lines load_storage_line storage_init (map (\<lambda>(_, d). deal_line d) (se_deals s))
        = (Inr (), storage_init\<lparr>se_deals := se_deals storage_init @ se_deals s\<rparr>)"
      using ok tx by (intro load_new_table [where upd = "se_deals_update" and tab = se_deals])
        (auto simp: storage_ok_def deals_ok_def storage_init_def storage_text_def load_deal_line)
    then show ?thesis by (simp add: storage_init_def)
  qed
  let ?a = "storage_init\<lparr>se_deals := se_deals s\<rparr>" let ?b = "?a\<lparr>se_commitments := se_commitments s\<rparr>"
  have c: "load_lines load_storage_line ?a (concat (map (\<lambda>(k, cs). map (commitment_line k) cs) (se_commitments s))) = (Inr (), ?b)"
    using ok tx load_commitments [of "se_commitments s" ?a] key [of "se_commitments s"]
    by (fastforce simp: storage_ok_def commitments_ok_def storage_init_def storage_text_def)
  have h: "load_lines load_storage_line ?b (map (\<lambda>(_, h). challenge_line h) (se_challenges s)) = (Inr (), ?b\<lparr>se_challenges := se_challenges ?b @ se_challenges s\<rparr>)"
    using ok tx by (intro load_new_table [where upd = "se_challenges_update" and tab = se_challenges])
      (auto simp: storage_ok_def challenges_ok_def storage_init_def storage_text_def load_challenge_line)
  have "load_lines load_storage_line storage_init (storage_lines s) = (Inr (), s)"
    unfolding storage_lines_def load_lines_append d prod.case sum.case c h by (simp add: storage_init_def)
  then show ?thesis unfolding storage_load_state_def storage_dump_state_def by (subst getlines_unlines) (use tx storage_lines_text in blast)+
qed

section \<open>Compute jobs\<close>

declare map_of_eq_Some_iff [simp del] Some_eq_map_of_iff [simp del]

definition jobs_ok :: "compute_engine \<Rightarrow> bool" where
  "jobs_ok s \<longleftrightarrow> distinct (map fst (ce_jobs s)) \<and>
     (\<forall>k j. map_of (ce_jobs s) k = Some j \<longrightarrow> cj_id j = k \<and> cj_latency j \<noteq> 0 \<and> cj_budget j \<noteq> 0
        \<and> cj_status j \<in> {''open'', ''assigned'', ''result_submitted'', ''validated'', ''rejected''}
        \<and> (cj_status j = ''open'' \<longrightarrow> map_of (ce_assignments s) k = None) \<and> (cj_status j = ''result_submitted'' \<longrightarrow> map_of (ce_results s) k \<noteq> None))"

definition assignments_ok :: "compute_engine \<Rightarrow> bool" where
  "assignments_ok s \<longleftrightarrow> distinct (map fst (ce_assignments s)) \<and> distinct (map fst (ce_results s)) \<and>
     (\<forall>k a. map_of (ce_assignments s) k = Some a \<longrightarrow> ca_collateral a \<noteq> 0 \<and> (\<exists>j. map_of (ce_jobs s) k = Some j \<and> cj_worker j = ca_worker a)) \<and>
     (\<forall>k r. map_of (ce_results s) k = Some r \<longrightarrow> (\<exists>a. map_of (ce_assignments s) k = Some a \<and> ca_worker a = cr_worker r)
        \<and> (\<exists>j. map_of (ce_jobs s) k = Some j \<and> cj_output j = cr_output r \<and> cj_result j = cr_hash r))"

definition validations_ok :: "compute_engine \<Rightarrow> bool" where
  "validations_ok s \<longleftrightarrow> distinct (map fst (ce_validations s)) \<and>
     (\<forall>k vs. map_of (ce_validations s) k = Some vs \<longrightarrow> map_of (ce_jobs s) k \<noteq> None \<and> vs \<noteq> [] \<and> distinct (map fst vs)
        \<and> (\<forall>(n, v)\<in>set vs. cv_validator v = n \<and> cv_verdict v \<in> {''pass'', ''fail''}))"

definition compute_ok :: "compute_engine \<Rightarrow> bool" where
  "compute_ok s \<longleftrightarrow> jobs_ok s \<and> assignments_ok s \<and> validations_ok s"

lemma compute_init_ok: "compute_ok compute_init"
  by (simp add: compute_ok_def jobs_ok_def assignments_ok_def validations_ok_def compute_init_def)

lemma submit_job_ok:
  assumes "compute_ok s"
  shows "compute_ok (snd (submit_job cr requester ty inp profile latency budget reputation s))"
proof (cases "fst (submit_job cr requester ty inp profile latency budget reputation s)")
  case (Inl e)
  then show ?thesis using assms by (auto simp: submit_job_def Let_def split: if_splits)
next
  case (Inr k)
  define t where "t = snd (submit_job cr requester ty inp profile latency budget reputation s)"
  define j where "j = \<lparr>cj_id = k, cj_requester = requester, cj_type = ty, cj_input = inp, cj_profile = (if profile = [] then ''strict'' else profile),
    cj_latency = latency, cj_budget = budget, cj_reputation = reputation, cj_status = ''open'', cj_worker = [], cj_output = [], cj_result = [], cj_score = 0\<rparr>"
  have g: "map_of (ce_jobs s) k = None" "latency \<noteq> 0" "budget \<noteq> 0" and t: "t = s\<lparr>ce_jobs := AList.update k j (ce_jobs s)\<rparr>"
    using Inr by (auto simp: t_def submit_job_def Let_def j_def split: if_split_asm)
  note ok = assms [unfolded compute_ok_def]
  have grow: "map_of (ce_jobs t) i = Some j'" if "map_of (ce_jobs s) i = Some j'" for i j' using that g(1) by (auto simp: t update_conv')
  have same: "ce_assignments t = ce_assignments s" "ce_results t = ce_results s" "ce_validations t = ce_validations s" by (simp_all add: t)
  have "map_of (ce_assignments s) k = None" using ok g(1) unfolding assignments_ok_def by (metis option.distinct(1) option.exhaust)
  then have "jobs_ok t" using ok g by (auto simp: jobs_ok_def t update_conv' distinct_update_keys j_def)
  moreover have "assignments_ok t" using ok grow unfolding assignments_ok_def same by fast
  moreover have "map_of (ce_jobs t) i \<noteq> None" if "map_of (ce_jobs s) i \<noteq> None" for i using that by (auto simp: t update_conv')
  then have "validations_ok t" using ok by (simp add: validations_ok_def same)
  ultimately show ?thesis by (simp add: compute_ok_def t_def)
qed

lemma assign_job_ok:
  assumes "compute_ok s"
  shows "compute_ok (snd (assign_job k worker collateral s))"
proof (cases "fst (assign_job k worker collateral s)")
  case (Inl e)
  then show ?thesis using assms by (auto simp: assign_job_def split: option.splits if_splits)
next
  case (Inr u)
  define t where "t = snd (assign_job k worker collateral s)"
  define a where "a = \<lparr>ca_worker = worker, ca_collateral = collateral, ca_at = of_nat (length (ce_assignments s) + 1)\<rparr>"
  have a: "ca_worker a = worker" "ca_collateral a = collateral" by (simp_all add: a_def)
  obtain j where g: "map_of (ce_jobs s) k = Some j" "cj_status j = ''open''" "collateral \<noteq> 0"
    and t: "t = s\<lparr>ce_assignments := AList.update k a (ce_assignments s), ce_jobs := AList.update k (j\<lparr>cj_worker := worker, cj_status := ''assigned''\<rparr>) (ce_jobs s)\<rparr>"
    using Inr unfolding t_def assign_job_def a_def [symmetric] by (auto split: option.splits if_split_asm)
  note ok = assms [unfolded compute_ok_def]
  have n: "map_of (ce_assignments s) k = None" "map_of (ce_results s) k = None"
    using ok g unfolding jobs_ok_def assignments_ok_def by (auto, metis option.exhaust option.distinct(1))
  have "jobs_ok t" using ok g by (auto simp: jobs_ok_def t update_conv' distinct_update_keys)
  moreover have "assignments_ok t" using ok g n a by (auto simp: assignments_ok_def t update_conv' distinct_update_keys)
  moreover have "validations_ok t" using ok g by (auto simp: validations_ok_def t update_conv')
  ultimately show ?thesis by (simp add: compute_ok_def t_def)
qed

lemma submit_result_ok:
  assumes "compute_ok s"
  shows "compute_ok (snd (submit_result k worker out hash pf s))"
proof (cases "fst (submit_result k worker out hash pf s)")
  case (Inl e)
  then show ?thesis using assms by (auto simp: submit_result_def split: option.splits if_splits)
next
  case (Inr u)
  define t where "t = snd (submit_result k worker out hash pf s)"
  define r where "r = \<lparr>cr_worker = worker, cr_output = out, cr_hash = hash, cr_proof = pf\<rparr>"
  have r: "cr_worker r = worker" "cr_output r = out" "cr_hash r = hash" by (simp_all add: r_def)
  obtain j a where g: "map_of (ce_jobs s) k = Some j" "map_of (ce_assignments s) k = Some a" "ca_worker a = worker"
    and t: "t = s\<lparr>ce_results := AList.update k r (ce_results s),
      ce_jobs := AList.update k (j\<lparr>cj_output := out, cj_result := hash, cj_status := ''result_submitted''\<rparr>) (ce_jobs s)\<rparr>"
    using Inr unfolding t_def submit_result_def r_def [symmetric] by (auto split: option.splits if_split_asm)
  note ok = assms [unfolded compute_ok_def]
  have "jobs_ok t" using ok g by (auto simp: jobs_ok_def t update_conv' distinct_update_keys)
  moreover have "cj_worker j = worker" using ok g unfolding assignments_ok_def by (metis option.inject)
  then have "assignments_ok t" using ok g r by (auto simp: assignments_ok_def t update_conv' distinct_update_keys)
  moreover have "validations_ok t" using ok g by (auto simp: validations_ok_def t update_conv')
  ultimately show ?thesis by (simp add: compute_ok_def t_def)
qed

lemma judged_cases: "judged vs st \<in> {''validated'', ''rejected'', st}"
  by (simp add: judged_def)

lemma submit_validation_ok:
  assumes "compute_ok s"
  shows "compute_ok (snd (submit_validation k validator verdict score s))"
proof (cases "fst (submit_validation k validator verdict score s)")
  case (Inl e)
  then show ?thesis using assms by (auto simp: submit_validation_def Let_def split: option.splits if_splits)
next
  case (Inr u)
  define t where "t = snd (submit_validation k validator verdict score s)"
  define v where "v = \<lparr>cv_validator = validator, cv_verdict = verdict, cv_score = score\<rparr>"
  define vs where "vs = AList.update validator v (validations_of s k)"
  obtain j where g: "map_of (ce_jobs s) k = Some j" "verdict \<in> {''pass'', ''fail''}"
    and t: "t = s\<lparr>ce_validations := AList.update k vs (ce_validations s),
      ce_jobs := AList.update k (j\<lparr>cj_status := judged vs (cj_status j), cj_score := fold (\<lambda>(_, v) x. add_capped x (cv_score v)) vs 0\<rparr>) (ce_jobs s)\<rparr>"
    using Inr unfolding t_def submit_validation_def v_def [symmetric] vs_def [symmetric] Let_def by (auto split: option.splits if_split_asm)
  note ok = assms [unfolded compute_ok_def]
  have "distinct (map fst (validations_of s k)) \<and> (\<forall>(n, v)\<in>set (validations_of s k). cv_validator v = n \<and> cv_verdict v \<in> {''pass'', ''fail''})"
    using ok by (cases "map_of (ce_validations s) k") (simp_all add: validations_ok_def validations_of_def)
  moreover have "set vs \<subseteq> insert (validator, v) (set (validations_of s k))" unfolding vs_def by (rule set_update_subset)
  ultimately have vs: "vs \<noteq> []" "distinct (map fst vs)" "\<forall>(n, v)\<in>set vs. cv_validator v = n \<and> cv_verdict v \<in> {''pass'', ''fail''}"
    using g(2) by (auto simp: vs_def v_def distinct_update_keys)
  from ok g(1) have j: "cj_id j = k \<and> cj_latency j \<noteq> 0 \<and> cj_budget j \<noteq> 0
      \<and> cj_status j \<in> {''open'', ''assigned'', ''result_submitted'', ''validated'', ''rejected''}
      \<and> (cj_status j = ''open'' \<longrightarrow> map_of (ce_assignments s) k = None) \<and> (cj_status j = ''result_submitted'' \<longrightarrow> map_of (ce_results s) k \<noteq> None)"
    unfolding jobs_ok_def by blast
  define st where "st = judged vs (cj_status j)"
  note t = t [folded st_def]
  have st: "st = ''validated'' \<or> st = ''rejected'' \<or> st = cj_status j" using judged_cases [of vs "cj_status j"] by (simp add: st_def)
  have "jobs_ok t" using ok j st unfolding jobs_ok_def by (auto simp: t update_conv' distinct_update_keys)
  moreover have "cj_worker j = ca_worker a" if "map_of (ce_assignments s) k = Some a" for a
    using that ok g(1) unfolding assignments_ok_def by (metis option.inject)
  moreover have "cj_output j = cr_output r \<and> cj_result j = cr_hash r" if "map_of (ce_results s) k = Some r" for r
    using that ok g(1) unfolding assignments_ok_def by (metis option.inject)
  ultimately have "jobs_ok t \<and> assignments_ok t" using ok unfolding assignments_ok_def by (auto simp: t update_conv')
  moreover have "validations_ok t" using ok g(1) vs by (auto simp: validations_ok_def t update_conv' distinct_update_keys)
  ultimately show ?thesis by (simp add: compute_ok_def t_def)
qed


datatype compute_op =
    SubmitJob string string string string u64 u64 u64
  | AssignJob string string u64
  | SubmitResult string string string string string
  | SubmitValidation string string string u64

fun compute_apply :: "crypto \<Rightarrow> compute_op \<Rightarrow> compute_engine \<Rightarrow> compute_engine" where
  "compute_apply cr (SubmitJob a b c d e f g) s = snd (submit_job cr a b c d e f g s)"
| "compute_apply cr (AssignJob a b c) s = snd (assign_job a b c s)"
| "compute_apply cr (SubmitResult a b c d e) s = snd (submit_result a b c d e s)"
| "compute_apply cr (SubmitValidation a b c d) s = snd (submit_validation a b c d s)"

lemma compute_apply_ok: "compute_ok s \<Longrightarrow> compute_ok (compute_apply cr op s)"
  by (cases op) (simp_all add: submit_job_ok assign_job_ok submit_result_ok submit_validation_ok)

text \<open>
  The compute registry is consistent in every state that its operations reach: an open job has no
  assignment, an assignment names the worker of its job, and a stored result is the result of the job
  by the assigned worker.
\<close>

theorem compute_market_consistent: "compute_ok (fold (compute_apply cr) ops compute_init)"
proof -
  have "compute_ok s \<Longrightarrow> compute_ok (fold (compute_apply cr) ops s)" for s
    by (induction ops arbitrary: s) (simp_all add: compute_apply_ok)
  then show ?thesis by (simp add: compute_init_ok)
qed

section \<open>The dump of the compute registry\<close>

declare map_of_eq_Some_iff [simp] Some_eq_map_of_iff [simp]

definition job_text :: "compute_job \<Rightarrow> bool" where
  "job_text j \<longleftrightarrow> list_all bar_free [cj_id j, cj_requester j, cj_type j, cj_input j, cj_profile j, cj_status j, cj_worker j, cj_output j, cj_result j]"

definition result_text :: "compute_result \<Rightarrow> bool" where
  "result_text r \<longleftrightarrow> list_all bar_free [cr_worker r, cr_output r, cr_hash r, cr_proof r]"

definition validation_text :: "compute_validation \<Rightarrow> bool" where
  "validation_text v \<longleftrightarrow> bar_free (cv_validator v) \<and> bar_free (cv_verdict v)"

definition compute_text :: "compute_engine \<Rightarrow> bool" where
  "compute_text s \<longleftrightarrow> (\<forall>(k, j)\<in>set (ce_jobs s). job_text j) \<and> (\<forall>(k, a)\<in>set (ce_assignments s). bar_free k \<and> bar_free (ca_worker a))
     \<and> (\<forall>(k, r)\<in>set (ce_results s). bar_free k \<and> result_text r)
     \<and> (\<forall>(k, vs)\<in>set (ce_validations s). bar_free k \<and> (\<forall>(n, v)\<in>set vs. validation_text v))"

definition assignment_line :: "string \<times> compute_assignment \<Rightarrow> string" where
  "assignment_line = (\<lambda>(i, a). ''A|'' @ join_with bar [i, ca_worker a, to_string (ca_collateral a), to_string (ca_at a)])"

definition result_line :: "string \<times> compute_result \<Rightarrow> string" where
  "result_line = (\<lambda>(i, r). ''R|'' @ join_with bar [i, cr_worker r, cr_output r, cr_hash r, cr_proof r])"

definition validation_line :: "string \<Rightarrow> string \<times> compute_validation \<Rightarrow> string" where
  "validation_line i = (\<lambda>(_, v). ''V|'' @ join_with bar [i, cv_validator v, cv_verdict v, to_string (cv_score v)])"

lemma compute_lines_eq:
  "compute_lines s = map (\<lambda>(_, j). job_line j) (ce_jobs s) @ map assignment_line (ce_assignments s) @ map result_line (ce_results s)
     @ concat (map (\<lambda>(i, vs). map (validation_line i) vs) (ce_validations s))"
  by (simp only: compute_lines_def assignment_line_def result_line_def validation_line_def)

lemma load_job_line:
  "job_text j \<Longrightarrow> load_compute_line s (job_line j) = (Inr (), s\<lparr>ce_jobs := AList.update (cj_id j) j (ce_jobs s)\<rparr>)"
  using fields_read(1) [of "[cj_id j, cj_requester j, cj_type j, cj_input j, cj_profile j, to_string (cj_latency j), to_string (cj_budget j),
     to_string (cj_reputation j), cj_status j, cj_worker j, cj_output j, cj_result j, to_string (cj_score j)]" 12]
  by (cases j) (simp add: load_compute_line_def job_line_def job_text_def bar_free_def del: join_with.simps getfields.simps)

lemma load_assignment_line:
  "bar_free k \<Longrightarrow> bar_free (ca_worker a) \<Longrightarrow> load_compute_line s (assignment_line (k, a)) = (Inr (), s\<lparr>ce_assignments := AList.update k a (ce_assignments s)\<rparr>)"
  using fields_read(1) [of "[k, ca_worker a, to_string (ca_collateral a), to_string (ca_at a)]" 3]
  by (cases a) (simp add: load_compute_line_def assignment_line_def bar_free_def del: join_with.simps getfields.simps)

lemma load_result_line:
  "bar_free k \<Longrightarrow> result_text r \<Longrightarrow> load_compute_line s (result_line (k, r)) = (Inr (), s\<lparr>ce_results := AList.update k r (ce_results s)\<rparr>)"
  using fields_read(1) [of "[k, cr_worker r, cr_output r, cr_hash r, cr_proof r]" 4]
  by (cases r) (simp add: load_compute_line_def result_line_def result_text_def bar_free_def del: join_with.simps getfields.simps)

lemma load_validation_line:
  "bar_free k \<Longrightarrow> validation_text v \<Longrightarrow> load_compute_line s (validation_line k (n, v))
     = (Inr (), s\<lparr>ce_validations := AList.update k (AList.update (cv_validator v) v (validations_of s k)) (ce_validations s)\<rparr>)"
  using fields_read(1) [of "[k, cv_validator v, cv_verdict v, to_string (cv_score v)]" 3]
  by (cases v) (simp add: load_compute_line_def validation_line_def validation_text_def bar_free_def del: join_with.simps getfields.simps)

lemma update_twice: "AList.update k y (AList.update k x al) = AList.update k y al"
  by (induction al) auto

lemma load_validation_group:
  assumes "\<forall>p\<in>set vs. validation_text (snd p) \<and> cv_validator (snd p) = fst p" and "bar_free k"
  shows "vs \<noteq> [] \<Longrightarrow> distinct (map fst (validations_of s k @ vs)) \<Longrightarrow> load_lines load_compute_line s (map (validation_line k) vs)
    = (Inr (), s\<lparr>ce_validations := AList.update k (validations_of s k @ vs) (ce_validations s)\<rparr>)"
  using assms(1)
proof (induction vs arbitrary: s)
  case (Cons p vs)
  obtain n v where p: "p = (n, v)" by (cases p)
  let ?t = "s\<lparr>ce_validations := AList.update k (validations_of s k @ [(n, v)]) (ce_validations s)\<rparr>"
  have "map_of (validations_of s k) n = None" using Cons.prems(2) by (auto simp: p map_of_eq_None_iff)
  then have 1: "load_compute_line s (validation_line k (n, v)) = (Inr (), ?t)"
    using Cons.prems(3) assms(2) by (simp add: p load_validation_line update_new)
  have t: "validations_of ?t k = validations_of s k @ [(n, v)]" by (simp add: validations_of_def update_conv')
  show ?case
  proof (cases "vs = []")
    case False
    have "distinct (map fst (validations_of ?t k @ vs))" unfolding t append.assoc append.simps using Cons.prems(2) unfolding p .
    moreover have "\<forall>p\<in>set vs. validation_text (snd p) \<and> cv_validator (snd p) = fst p" using Cons.prems(3) by simp
    ultimately have "load_lines load_compute_line ?t (map (validation_line k) vs)
        = (Inr (), ?t\<lparr>ce_validations := AList.update k (validations_of ?t k @ vs) (ce_validations ?t)\<rparr>)"
      by (rule Cons.IH [OF False])
    then show ?thesis by (simp add: p 1 t update_twice)
  qed (simp add: p 1)
qed simp

definition group_text :: "string \<times> (string \<times> compute_validation) list \<Rightarrow> bool" where
  "group_text = (\<lambda>(k, vs). bar_free k \<and> vs \<noteq> [] \<and> distinct (map fst vs) \<and> (\<forall>p\<in>set vs. validation_text (snd p) \<and> cv_validator (snd p) = fst p))"

lemma load_validations:
  assumes "\<forall>x\<in>set xs. group_text x"
  shows "distinct (map fst (ce_validations s @ xs)) \<Longrightarrow>
    load_lines load_compute_line s (concat (map (\<lambda>(i, vs). map (validation_line i) vs) xs)) = (Inr (), s\<lparr>ce_validations := ce_validations s @ xs\<rparr>)"
  using assms
proof (induction xs arbitrary: s)
  case (Cons x xs)
  obtain k vs where x: "x = (k, vs)" by (cases x)
  let ?t = "s\<lparr>ce_validations := ce_validations s @ [(k, vs)]\<rparr>"
  have n: "map_of (ce_validations s) k = None" using Cons.prems(1) by (auto simp: x map_of_eq_None_iff)
  then have "validations_of s k = []" by (simp add: validations_of_def)
  then have 1: "load_lines load_compute_line s (map (validation_line k) vs) = (Inr (), ?t)"
    using load_validation_group [of vs k s] Cons.prems(2) n by (auto simp: x group_text_def update_new)
  have "load_lines load_compute_line ?t (concat (map (\<lambda>(i, vs). map (validation_line i) vs) xs)) = (Inr (), ?t\<lparr>ce_validations := ce_validations ?t @ xs\<rparr>)"
    by (rule Cons.IH) (use Cons.prems in \<open>auto simp: x\<close>)
  then show ?case by (simp add: x load_lines_append 1)
qed simp

lemma compute_lines_text:
  assumes "compute_text s" and "l \<in> set (compute_lines s)"
  shows "newline \<notin> set l"
proof -
  have "job_text j \<Longrightarrow> newline \<notin> set (job_line j)" for j
    unfolding job_line_def append.simps by (rule tagged_text) (auto simp: job_text_def bar_free_def)
  moreover have "bar_free k \<Longrightarrow> bar_free (ca_worker a) \<Longrightarrow> newline \<notin> set (assignment_line (k, a))" for k a
    unfolding assignment_line_def append.simps prod.case by (rule tagged_text) (auto simp: bar_free_def)
  moreover have "bar_free k \<Longrightarrow> result_text r \<Longrightarrow> newline \<notin> set (result_line (k, r))" for k r
    unfolding result_line_def append.simps prod.case by (rule tagged_text) (auto simp: result_text_def bar_free_def)
  moreover have "bar_free k \<Longrightarrow> validation_text v \<Longrightarrow> newline \<notin> set (validation_line k (n, v))" for k n v
    unfolding validation_line_def append.simps prod.case by (rule tagged_text) (auto simp: validation_text_def bar_free_def)
  ultimately show ?thesis using assms by (fastforce simp: compute_lines_eq compute_text_def)
qed

theorem compute_dump_load:
  assumes ok: "compute_ok s" and tx: "compute_text s"
  shows "compute_load_state (compute_dump_state s) = (Inr (), s)"
proof -
  have dist: "distinct (map fst (ce_jobs s))" "distinct (map fst (ce_assignments s))" "distinct (map fst (ce_results s))" "distinct (map fst (ce_validations s))"
    using ok by (simp_all add: compute_ok_def jobs_ok_def assignments_ok_def validations_ok_def)
  have "load_lines load_compute_line compute_init (map (\<lambda>(_, j). job_line j) (ce_jobs s)) = (Inr (), compute_init\<lparr>ce_jobs := ce_jobs compute_init @ ce_jobs s\<rparr>)"
    using ok tx dist by (intro load_new_table [where upd = "ce_jobs_update" and tab = ce_jobs])
      (auto simp: compute_ok_def jobs_ok_def compute_init_def compute_text_def load_job_line)
  then have j: "load_lines load_compute_line compute_init (map (\<lambda>(_, j). job_line j) (ce_jobs s)) = (Inr (), compute_init\<lparr>ce_jobs := ce_jobs s\<rparr>)"
    by (simp add: compute_init_def)
  let ?a = "compute_init\<lparr>ce_jobs := ce_jobs s\<rparr>"
  have "load_lines load_compute_line ?a (map assignment_line (ce_assignments s)) = (Inr (), ?a\<lparr>ce_assignments := ce_assignments ?a @ ce_assignments s\<rparr>)"
    using tx dist by (intro load_new_table [where upd = "ce_assignments_update" and tab = ce_assignments])
      (auto simp: compute_init_def compute_text_def load_assignment_line)
  then have a: "load_lines load_compute_line ?a (map assignment_line (ce_assignments s)) = (Inr (), ?a\<lparr>ce_assignments := ce_assignments s\<rparr>)"
    by (simp add: compute_init_def)
  let ?b = "?a\<lparr>ce_assignments := ce_assignments s\<rparr>"
  have "load_lines load_compute_line ?b (map result_line (ce_results s)) = (Inr (), ?b\<lparr>ce_results := ce_results ?b @ ce_results s\<rparr>)"
    using tx dist by (intro load_new_table [where upd = "ce_results_update" and tab = ce_results])
      (auto simp: compute_init_def compute_text_def load_result_line)
  then have r: "load_lines load_compute_line ?b (map result_line (ce_results s)) = (Inr (), ?b\<lparr>ce_results := ce_results s\<rparr>)"
    by (simp add: compute_init_def)
  let ?c = "?b\<lparr>ce_results := ce_results s\<rparr>"
  have "\<forall>x\<in>set (ce_validations s). group_text x"
    using ok tx dist by (fastforce simp: compute_ok_def validations_ok_def compute_text_def group_text_def)
  from load_validations [OF this, of ?c] dist
  have v: "load_lines load_compute_line ?c (concat (map (\<lambda>(i, vs). map (validation_line i) vs) (ce_validations s))) = (Inr (), ?c\<lparr>ce_validations := ce_validations s\<rparr>)"
    by (simp add: compute_init_def)
  have "load_lines load_compute_line compute_init (compute_lines s) = (Inr (), s)"
    unfolding compute_lines_eq load_lines_append j a r v prod.case sum.case by (simp add: compute_init_def)
  then show ?thesis unfolding compute_load_state_def compute_dump_state_def by (subst getlines_unlines) (use tx compute_lines_text in blast)+
qed

section \<open>What is not checked\<close>

text \<open>
  A job counts as validated after two votes, whether or not anybody worked on it: the votes are not
  compared with the state of the job, nor the voters with its requester or worker.
\<close>

theorem validated_without_result:
  assumes "map_of (ce_jobs s) k = Some j" and "cj_status j = ''open''" and "map_of (ce_validations s) k = None" and "v \<noteq> w" and "v \<noteq> []" and "w \<noteq> []"
  shows "\<exists>j'. map_of (ce_jobs (snd (submit_validation k w ''pass'' x (snd (submit_validation k v ''pass'' y s))))) k = Some j'
     \<and> cj_status j' = ''validated'' \<and> cj_worker j' = cj_worker j"
  using assms by (simp add: submit_validation_def validations_of_def update_conv' judged_def verdicts_def)

text \<open>
  A worker passes every challenge without the data: whatever the seed, a hash of the right parity exists, and
  the proof is compared with nothing else, in particular not with the height until which it was due.
\<close>

theorem proof_without_data:
  assumes "map_of (se_challenges s) cid = Some ch" and "ch_verdict ch = ''pending''"
  shows "\<exists>h. fst (submit_proof cid (ch_worker ch) h s) = Inr ''pass''"
proof -
  have "proof_passes (ch_seed ch) (replicate 64 (if odd (unat (ch_seed ch)) then CHR ''1'' else CHR ''0''))"
    by (simp add: proof_passes_def is_canonical_hash_hex_def is_hex_char_def hex_val_def list_all_iff)
  then show ?thesis
    using assms by (intro exI [of _ "replicate 64 (if odd (unat (ch_seed ch)) then CHR ''1'' else CHR ''0'')"]) (simp add: submit_proof_def Let_def)
qed

end
