(* ===== verification/Spec2Isabelle.thy ===== *)
theory Spec2Isabelle
  imports Chain_Properties Wire_V3 Token_Properties Token_Store Miner Channel_Justice Channel_Text Onion Bridge Fast_Path Dandelion
    Contract_Engine Peer_Network Node_Startup Public_Rpc Pq_Ratchet Work_Properties
begin

text \<open>
  A verification library for the ADDITION node: a proof-of-work chain with staking votes, spend scripts, a shielded
  pool and payment channels, the engines beside the chain, and the edge of the node towards its
  network, its operators and its users. Paths below are relative to \<^verbatim>\<open>src/\<close> of the repository.

  \<^bold>\<open>The program and its parts.\<close> Peers and RPC clients hand transactions and blocks to the node. A transaction is
  checked by the chain and waits in the mempool; the miner takes transactions from the mempool,
  assembles a block, searches its proof of work with worker threads and gives it to the chain; the chain
  validates a block completely, applies it to its state and undoes the application when a later step
  fails; a longer candidate is replayed and adopted when it has more work. Spends are authorised by
  signatures of hash-committed addresses or by scripts; the channel engine builds transactions whose
  scripts the chain verifies; the shielded pool is a part of the state of the chain. Token engine,
  privacy pool, bridge and contract engine are ledgers of their own with text dumps; the contract
  engine calls token engine and privacy pool. The configuration decides the consensus parameters before
  anything else runs; peer table, router and transport decide whom the node talks to; the public RPC and
  the messaging sessions are what outsiders and users reach.

  \<^bold>\<open>Conventions.\<close> A class is a record, an enumeration a datatype, a method a function from the state to the result
  and the new state, in the order of the code, with its guards and early returns. A method
  \<^verbatim>\<open>bool f(..., std::string& error)\<close> returns \<open>Inl\<close> with the error text or \<open>Inr\<close> with the result (\<open>res\<close>, \<open>bind_res\<close>,
  \<open>need\<close> of \<open>Addition_Prelude\<close>). 64- and 32-bit integers are words and wrap; sizes are naturals where the code
  compares them with constants. Byte strings are lists of characters; ordered maps are lists sorted by
  key, unordered ones functions, since no order is observed. Clock, random bytes, files and the answers
  of other processes are arguments. SHA3-512, SHA3-256, liboqs, HMAC, AES and the STARK verifier are parameters,
  collected in the records \<open>crypto\<close>, \<open>pq_suite\<close> and their like; laws of them are named hypotheses (\<open>suite_laws\<close>, the
  laws of \<open>Onion\<close>, collision hypotheses in the properties that need one), and the witnesses instantiate them.
  A mutex that guards a whole method makes it one atomic step; the two places where threads share
  atomics are modelled as interleavings (\<open>Parallel_Work\<close>).

  \<^bold>\<open>Theories and sources.\<close>
    \<^item> \<open>Addition_Prelude\<close>, \<open>Text_IO\<close>, \<open>Text_Records\<close>: integers, results, decimal texts, sorted maps; the standard library calls of the
      text formats (\<^verbatim>\<open>getline\<close>, \<^verbatim>\<open>operator>>\<close>, \<^verbatim>\<open>stoull\<close>); records separated by bars.
    \<^item> \<open>Consensus_Rules\<close> (\<^verbatim>\<open>src/consensus_rules.cpp\<close>): retarget, subsidy and emission; the retarget equals its formula over the
      naturals and its products fit 128 bits.
    \<^item> \<open>Crypto_Model\<close>, \<open>Crypto_Signing\<close> (\<^verbatim>\<open>src/crypto.cpp\<close>, \<^verbatim>\<open>src/wallet_keys.cpp\<close>): hexadecimal, addresses, verification with its cache,
      signing; the cache never changes a verdict.
    \<^item> \<open>Block_Model\<close> (\<^verbatim>\<open>src/block.cpp\<close>), \<open>Wire_V3\<close> (\<^verbatim>\<open>src/wire_v3.cpp\<close>), \<open>Staking\<close> (\<^verbatim>\<open>src/staking.cpp\<close>), \<open>Script_Policy\<close> (\<^verbatim>\<open>src/script.cpp\<close>), \<open>Shielded\<close>
      (\<^verbatim>\<open>src/shielded.cpp\<close>): data types and hashes; the binary codecs, over the locale \<open>field_codec\<close>; the draw of voters and the
      reward split; parser and evaluator of scripts, exact for the grammar; bundles, commitment tree and
      nullifiers, the tree refining a full Merkle tree.
    \<^item> \<open>Chain_State\<close>, \<open>Chain_Transactions\<close>, \<open>Chain_Blocks\<close> (\<^verbatim>\<open>src/chain.cpp\<close>): the record \<open>chain\<close> is the state of \<^verbatim>\<open>class Chain\<close>, its methods one
      definition each up to \<open>add_block\<close>, \<open>replace_with_chain\<close> and mining. \<open>Chain_Invariants\<close> proves the invariants of reachable
      chains through the locale \<open>block_invariant\<close>, one interpretation per invariant (supply, links, accounts, spends, shielded
      pool); \<open>Chain_Properties\<close> states them.
    \<^item> \<open>Mempool\<close>, \<open>Miner\<close>, \<open>Parallel_Work\<close> (\<^verbatim>\<open>src/mempool.cpp\<close>, \<^verbatim>\<open>src/miner.cpp\<close>): pending transactions without conflicts; a mining round that,
      amid the submissions of other threads, loses no valid transaction but those displaced by a conflicting one; worker threads under every schedule (locales \<open>worker_pool\<close> and \<open>bounded_pool\<close>).
    \<^item> \<open>Channel\<close>, \<open>Channel_Properties\<close>, \<open>Channel_Justice\<close>, \<open>Channel_Text\<close> (\<^verbatim>\<open>src/channel.cpp\<close>), \<open>Onion\<close> (\<^verbatim>\<open>src/htlc_onion.cpp\<close>): the update protocol of two
      endpoints as runs; both ends can close and pay; outdated commitments are punished by
      transactions the script verifier accepts; files; routes of onion packets.
    \<^item> \<open>Token_Engine\<close>, \<open>Token_Invariants\<close>, \<open>Token_Properties\<close>, \<open>Token_Store\<close> (\<^verbatim>\<open>src/token_engine.cpp\<close>), \<open>Privacy_Pool\<close> (\<^verbatim>\<open>src/privacy.cpp\<close>), \<open>Bridge\<close>
      (\<^verbatim>\<open>src/bridge.cpp\<close>), \<open>Contract_Engine\<close> (\<^verbatim>\<open>src/contract_engine.cpp\<close>), \<open>Fast_Path\<close> (\<^verbatim>\<open>src/fast_path.cpp\<close>): the engines as state machines, conservation
      of value, failed operations that change nothing, text dumps, locales \<open>note_cipher_laws\<close> and \<open>bridge_action\<close>.
    \<^item> \<open>Config_Text\<close>, \<open>Node_Config\<close>, \<open>Node_Startup\<close> (\<^verbatim>\<open>src/config.cpp\<close>): profiles, TOML and genesis files, seed files, command line; what an
      accepted configuration satisfies.
    \<^item> \<open>Net_Transport\<close> (\<^verbatim>\<open>src/net_transport.cpp\<close>), \<open>Peer_Network\<close> (\<^verbatim>\<open>src/p2p.cpp\<close>), \<open>Dandelion\<close> (\<^verbatim>\<open>src/dandelion.cpp\<close>): routing policy and SOCKS5, peer table with
      bans and eviction, stem routing.
    \<^item> \<open>Public_Rpc\<close> (\<^verbatim>\<open>src/rpc_access.cpp\<close>): allowlist, HTTP and JSON-RPC; the command interpreter is a parameter.
    \<^item> \<open>Pq_Session\<close>, \<open>Pq_Formats\<close>, \<open>Pq_Ratchet\<close> (\<^verbatim>\<open>src/pq_session.cpp\<close>): key packages, handshake, ratchet and files of the messenger; exact
      formats (locale \<open>stream_codec\<close>), delivery of conversations, refusal of replays, the handshake.
    \<^item> \<open>Work_Markets\<close>, \<open>Work_Properties\<close> (\<^verbatim>\<open>src/pouw_storage.cpp\<close>, \<^verbatim>\<open>src/pouw_compute.cpp\<close>): the registries of storage deals and compute jobs, their consistency
      under every sequence of operations, their dumps.

  \<^bold>\<open>Bounds, fuel and termination.\<close> Loops are structural recursions or \<open>function\<close>s with a measure, the length of the rest of
  a text in the parsers. The square root of the first deposit may run for ever in the code: it is a
  \<open>partial_function\<close> into options, and \<open>isqrt_returns\<close> says exactly when it returns. Thread schedules are arbitrary; the
  verifier's are shown to end within a bound. Searches over nonces take the range of nonces as the bound of
  the loop, as the code does. Limits of the formats are those of the code.

  \<^bold>\<open>Properties.\<close> Claims C1 to C10 are about the chain, C11 to C15 about channels, C16 to C21 about privacy pool,
  onions, bridge and dumps, the following ones about tokens, mempool, miner and threads, configuration
  and network, messaging and the public RPC, and the last ones about the formats and scripts. Each has its
  text before the theorem; witnesses apply it at a concrete input.

  \<^bold>\<open>Other threads.\<close> The verifier's and the searcher's workers are modelled step by step. The daemon mines without its lock:
  what other threads submit to the mempool between the calls of the miner is an argument of the round; that they
  may also write the chain, which has no lock, is outside the model.

  \<^bold>\<open>Not modelled.\<close> The text command interpreter and the channel commands (\<^verbatim>\<open>src/rpc_server.cpp\<close>, \<^verbatim>\<open>src/rpc_rchannel.cpp\<close>): dispatch over
  words to the engines modelled here. The gossip node, the RPC listener, socket helpers and the daemon
  (\<^verbatim>\<open>src/decentralized_node.cpp\<close>, \<^verbatim>\<open>src/rpc_network_server.cpp\<close>, \<^verbatim>\<open>src/net_io.cpp\<close>, \<^verbatim>\<open>apps/additiond_main.cpp\<close>): sockets, timers and threads around the
  components. The state store, wallet files and message relay (\<^verbatim>\<open>src/state_store.cpp\<close>, \<^verbatim>\<open>src/wallet_store.cpp\<close>, \<^verbatim>\<open>src/wallet.cpp\<close>,
  \<^verbatim>\<open>src/pm_relay.cpp\<close>): files and external encryption; the texts they store are modelled with the engines. The older message format
  and the small tools (\<^verbatim>\<open>src/private_messaging.cpp\<close>, \<^verbatim>\<open>src/btc_hygiene.cpp\<close>, \<^verbatim>\<open>src/ai_optimizer.cpp\<close>, \<^verbatim>\<open>src/auto_mine.cpp\<close>, \<^verbatim>\<open>src/consensus_engine.cpp\<close>):
  outside the consensus. Of modelled components: the prover of shielded bundles, the cryptographic self test, statistics and timing figures, help texts.
\<close>

end
